(* ===== verification/Prelude.thy ===== *)
theory Prelude imports Main begin

text \<open>
  Shared vocabulary of the development: results with an error value, the search and
  deletion loops that several Go files spell out by hand, and Go's slice splice.
  Every other theory builds on this one.
\<close>

section \<open>Fact collections\<close>

named_theorems result_simps \<open>rewriting of the result combinators\<close>
named_theorems loop_simps \<open>characterisations of the hand-written search loops\<close>

section \<open>Results: an error on the left, a value on the right\<close>

text \<open>
  A Go function returning \<open>(value, error)\<close> is modelled by a value of \<open>'e + 'a\<close>;
  \<open>and_then\<close> is the \<open>if err != nil { return nil, err }\<close> idiom.
\<close>

definition and_then :: "'e + 'a \<Rightarrow> ('a \<Rightarrow> 'e + 'b) \<Rightarrow> 'e + 'b" where
  "and_then r f = (case r of Inl e \<Rightarrow> Inl e | Inr a \<Rightarrow> f a)"

definition require :: "bool \<Rightarrow> 'e \<Rightarrow> 'e + unit" where
  "require ok e = (if ok then Inr () else Inl e)"

definition is_ok :: "'e + 'a \<Rightarrow> bool" where
  "is_ok r = (case r of Inl _ \<Rightarrow> False | Inr _ \<Rightarrow> True)"

lemma and_then_simps [simp, result_simps]:
  "and_then (Inl e) f = Inl e"
  "and_then (Inr a) f = f a"
  by (simp_all add: and_then_def)

lemma and_then_Inr_iff [result_simps]:
  "and_then r f = Inr b \<longleftrightarrow> (\<exists>a. r = Inr a \<and> f a = Inr b)"
  by (cases r) auto

lemma and_then_Inl_iff [result_simps]:
  "and_then r f = Inl e \<longleftrightarrow> r = Inl e \<or> (\<exists>a. r = Inr a \<and> f a = Inl e)"
  by (cases r) auto

lemma require_iffs [simp, result_simps]:
  "require ok e = Inr u \<longleftrightarrow> ok"
  "require ok e = Inl e' \<longleftrightarrow> \<not> ok \<and> e' = e"
  by (auto simp: require_def)

lemma is_ok_simps [simp]:
  "is_ok (Inl e) = False" "is_ok (Inr a) = True"
  by (simp_all add: is_ok_def)

lemma is_ok_iff: "is_ok r \<longleftrightarrow> (\<exists>a. r = Inr a)"
  by (cases r) auto

section \<open>The linear search \<open>for i, n := range xs { if p(n) { idx = i; break } }\<close>\<close>

fun find_index :: "('a \<Rightarrow> bool) \<Rightarrow> 'a list \<Rightarrow> nat option" where
  "find_index p [] = None"
| "find_index p (x # xs) = (if p x then Some 0 else map_option Suc (find_index p xs))"

lemma find_index_Some:
  "find_index p xs = Some i \<Longrightarrow> i < length xs \<and> p (xs ! i) \<and> (\<forall>j<i. \<not> p (xs ! j))"
proof (induction xs arbitrary: i)
  case (Cons x xs)
  show ?case
  proof (cases "p x")
    case True
    with Cons.prems show ?thesis by simp
  next
    case False
    with Cons.prems obtain k where "find_index p xs = Some k" "i = Suc k" by auto
    with Cons.IH [of k] False show ?thesis by (auto simp: nth_Cons split: nat.split)
  qed
qed simp

lemma find_index_None: "find_index p xs = None \<longleftrightarrow> (\<forall>x\<in>set xs. \<not> p x)"
  by (induction xs) auto

lemma find_index_lessD [dest]: "find_index p xs = Some i \<Longrightarrow> i < length xs"
  by (drule find_index_Some) simp

lemma find_index_nthD: "find_index p xs = Some i \<Longrightarrow> p (xs ! i)"
  by (drule find_index_Some) simp

lemma find_index_eq_nth:
  assumes "distinct xs" and "i < length xs"
  shows "find_index (\<lambda>x. x = xs ! i) xs = Some i"
proof (cases "find_index (\<lambda>x. x = xs ! i) xs")
  case None
  with assms show ?thesis by (auto simp: find_index_None)
next
  case (Some j)
  from find_index_Some [OF Some] have "j < length xs" "xs ! j = xs ! i" by simp_all
  with assms have "j = i" by (simp add: nth_eq_iff_index_eq)
  with Some show ?thesis by simp
qed

section \<open>Deleting the first match, \<open>append(xs[:i], xs[i+1:]...)\<close>\<close>

fun delete_first :: "('a \<Rightarrow> bool) \<Rightarrow> 'a list \<Rightarrow> 'a list" where
  "delete_first p [] = []"
| "delete_first p (x # xs) = (if p x then xs else x # delete_first p xs)"

lemma delete_first_eq_remove1: "delete_first (\<lambda>x. x = a) xs = remove1 a xs"
  by (induction xs) auto

lemma set_delete_first_subset: "set (delete_first p xs) \<subseteq> set xs"
  by (induction xs) auto

lemma delete_first_no_match [simp]: "\<forall>x\<in>set xs. \<not> p x \<Longrightarrow> delete_first p xs = xs"
  by (induction xs) auto

section \<open>Slice expressions\<close>

text \<open>\<open>xs[i:j]\<close>, for indices already known to be in range.\<close>

definition slice :: "'a list \<Rightarrow> nat \<Rightarrow> nat \<Rightarrow> 'a list" where
  "slice xs i j = take (j - i) (drop i xs)"

text \<open>\<open>append(xs[:i], append(ys, xs[j:]...)...)\<close>: the elements \<open>[i, j)\<close> replaced by \<open>ys\<close>.\<close>

definition splice :: "'a list \<Rightarrow> nat \<Rightarrow> nat \<Rightarrow> 'a list \<Rightarrow> 'a list" where
  "splice xs i j ys = take i xs @ ys @ drop j xs"

lemma length_slice [simp]: "j \<le> length xs \<Longrightarrow> length (slice xs i j) = j - i"
  by (simp add: slice_def)

lemma take_slice_drop: "i \<le> j \<Longrightarrow> take i xs @ slice xs i j @ drop j xs = xs"
  by (metis append_assoc append_take_drop_id le_add_diff_inverse slice_def take_add)

lemma set_slice_subset: "set (slice xs i j) \<subseteq> set xs"
  by (auto simp: slice_def dest: in_set_takeD in_set_dropD)

lemma nth_slice: "k < j - i \<Longrightarrow> i + k < length xs \<Longrightarrow> slice xs i j ! k = xs ! (i + k)"
  by (simp add: slice_def)

lemma slice_decomp:
  assumes "i \<le> j"
  obtains xs1 xs2 xs3 where "xs = xs1 @ xs2 @ xs3" "take i xs = xs1"
    "slice xs i j = xs2" "drop j xs = xs3"
  using take_slice_drop [OF assms, of xs] by metis

section \<open>The wrapping of Go's 64-bit \<open>int\<close>\<close>

definition in_int64 :: "int \<Rightarrow> bool" where
  "in_int64 i \<longleftrightarrow> - (2 ^ 63) \<le> i \<and> i < 2 ^ 63"

definition wrap64 :: "int \<Rightarrow> int" where
  "wrap64 i = (i + 2 ^ 63) mod 2 ^ 64 - 2 ^ 63"

lemma wrap64_id: "in_int64 i \<Longrightarrow> wrap64 i = i"
  by (simp add: in_int64_def wrap64_def)

lemma wrap64_range: "in_int64 (wrap64 i)"
proof -
  have "0 \<le> (i + 2 ^ 63) mod 2 ^ 64" "(i + 2 ^ 63) mod 2 ^ 64 < (2 ^ 64 :: int)"
    by simp_all
  then show ?thesis by (simp add: in_int64_def wrap64_def)
qed

text \<open>Go's \<open>/\<close> and \<open>%\<close> on signed integers truncate towards zero.\<close>

definition go_div :: "int \<Rightarrow> int \<Rightarrow> int" where
  "go_div a b = sgn a * sgn b * (\<bar>a\<bar> div \<bar>b\<bar>)"

definition go_mod :: "int \<Rightarrow> int \<Rightarrow> int" where
  "go_mod a b = a - b * go_div a b"

end
