(* ===== verification/Json.thy ===== *)
theory Json imports Prelude begin

text \<open>
  JSON values and the part of \<open>encoding/json\<close> the program relies on: reading a field
  of an object into a Go struct field.  A struct key matches a JSON key without regard
  to ASCII case, of several matching keys the last one counts, an absent key and an
  explicit \<open>null\<close> leave the zero value, and a value of another JSON type is an error
  (\<open>None\<close>).  Integer fields accept integer literals that fit 64 bits only.

  A number is \<open>JInt\<close> for an integer literal and \<open>JFrac m e\<close> for a literal with a
  fraction or an exponent, of value \<open>m * 10 ^ e\<close>.
\<close>

datatype json =
    JNull
  | JBool bool
  | JInt int
  | JFrac int int
  | JStr string
  | JArr "json list"
  | JObj "(string \<times> json) list"

text \<open>A \<open>json.RawMessage\<close>: \<open>None\<close> stands for bytes that are not a JSON text.\<close>

type_synonym raw_message = "json option"

definition ascii_lower :: "char \<Rightarrow> char" where
  "ascii_lower c = (let n = of_char c :: nat in
     if 65 \<le> n \<and> n \<le> 90 then char_of (n + 32) else c)"

definition lower_name :: "string \<Rightarrow> string" where
  "lower_name = map ascii_lower"

definition key_matches :: "string \<Rightarrow> string \<Rightarrow> bool" where
  "key_matches k k' \<longleftrightarrow> lower_name k = lower_name k'"

text \<open>The keys of the program in lower case, so that proofs compare literals only.\<close>

lemma lower_names:
  "lower_name ''turn'' = ''turn''" "lower_name ''step'' = ''step''" "lower_name ''index'' = ''index''"
  "lower_name ''dt'' = ''dt''" "lower_name ''texts'' = ''texts''" "lower_name ''args'' = ''args''"
  "lower_name ''id'' = ''id''" "lower_name ''name'' = ''name''" "lower_name ''chunk'' = ''chunk''"
  "lower_name ''type'' = ''type''" "lower_name ''text'' = ''text''"
  "lower_name ''argumentsDelta'' = ''argumentsdelta''" "lower_name ''op'' = ''op''"
  "lower_name ''start'' = ''start''" "lower_name ''end'' = ''end''"
  "lower_name ''attachmentId'' = ''attachmentid''" "lower_name ''mimeType'' = ''mimetype''"
  "lower_name ''arguments'' = ''arguments''" "lower_name ''toolCallId'' = ''toolcallid''"
  "lower_name ''isError'' = ''iserror''" "lower_name ''content'' = ''content''"
  "lower_name ''role'' = ''role''" "lower_name ''source'' = ''source''" "lower_name ''kind'' = ''kind''"
  "lower_name ''callId'' = ''callid''" "lower_name ''plugin'' = ''plugin''" "lower_name ''form'' = ''form''"
  "lower_name ''provider'' = ''provider''" "lower_name ''model'' = ''model''"
  "lower_name ''compactionId'' = ''compactionid''" "lower_name ''sourceCommandId'' = ''sourcecommandid''"
  "lower_name ''replayState'' = ''replaystate''" "lower_name ''message'' = ''message''"
  "lower_name ''usage'' = ''usage''" "lower_name ''interrupted'' = ''interrupted''"
  "lower_name ''error'' = ''error''" "lower_name ''view'' = ''view''" "lower_name ''meta'' = ''meta''"
  "lower_name ''reason'' = ''reason''" "lower_name ''code'' = ''code''" "lower_name ''path'' = ''path''"
  by code_simp+

lemma key_matches_refl [simp]: "key_matches k k"
  by (simp add: key_matches_def)

fun json_field :: "string \<Rightarrow> (string \<times> json) list \<Rightarrow> json option" where
  "json_field k [] = None"
| "json_field k (kv # kvs) =
     (case json_field k kvs of
        Some v \<Rightarrow> Some v
      | None \<Rightarrow> (if key_matches k (fst kv) then Some (snd kv) else None))"

lemma json_field_in_set: "json_field k kvs = Some v \<Longrightarrow> v \<in> snd ` set kvs"
  by (induction kvs) (auto split: option.splits if_splits)

section \<open>Reading one struct field\<close>

definition dec_string :: "string \<Rightarrow> (string \<times> json) list \<Rightarrow> string option" where
  "dec_string k kvs = (case json_field k kvs of
      None \<Rightarrow> Some [] | Some JNull \<Rightarrow> Some [] | Some (JStr s) \<Rightarrow> Some s | Some _ \<Rightarrow> None)"

definition dec_int :: "string \<Rightarrow> (string \<times> json) list \<Rightarrow> int option" where
  "dec_int k kvs = (case json_field k kvs of
      None \<Rightarrow> Some 0 | Some JNull \<Rightarrow> Some 0
    | Some (JInt i) \<Rightarrow> (if in_int64 i then Some i else None) | Some _ \<Rightarrow> None)"

definition dec_bool :: "string \<Rightarrow> (string \<times> json) list \<Rightarrow> bool option" where
  "dec_bool k kvs = (case json_field k kvs of
      None \<Rightarrow> Some False | Some JNull \<Rightarrow> Some False | Some (JBool b) \<Rightarrow> Some b | Some _ \<Rightarrow> None)"

text \<open>A field of struct type: \<open>d []\<close>, all keys absent, is its zero value.\<close>

definition dec_struct ::
  "((string \<times> json) list \<Rightarrow> 'a option) \<Rightarrow> string \<Rightarrow> (string \<times> json) list \<Rightarrow> 'a option" where
  "dec_struct d k kvs = (case json_field k kvs of
      None \<Rightarrow> d [] | Some JNull \<Rightarrow> d [] | Some (JObj ob) \<Rightarrow> d ob | Some _ \<Rightarrow> None)"

text \<open>A field of pointer type: absent and \<open>null\<close> are \<open>nil\<close>.\<close>

definition dec_ptr ::
  "((string \<times> json) list \<Rightarrow> 'a option) \<Rightarrow> string \<Rightarrow> (string \<times> json) list \<Rightarrow> 'a option option" where
  "dec_ptr d k kvs = (case json_field k kvs of
      None \<Rightarrow> Some None | Some JNull \<Rightarrow> Some None
    | Some (JObj ob) \<Rightarrow> map_option Some (d ob) | Some _ \<Rightarrow> None)"

text \<open>A field of slice type, with the decoder of its elements.\<close>

definition dec_list ::
  "(json \<Rightarrow> 'a option) \<Rightarrow> string \<Rightarrow> (string \<times> json) list \<Rightarrow> 'a list option" where
  "dec_list d k kvs = (case json_field k kvs of
      None \<Rightarrow> Some [] | Some JNull \<Rightarrow> Some []
    | Some (JArr js) \<Rightarrow> those (map d js) | Some _ \<Rightarrow> None)"

text \<open>An element or top-level value of struct type: \<open>null\<close> leaves the zero value.\<close>

definition dec_object :: "((string \<times> json) list \<Rightarrow> 'a option) \<Rightarrow> json \<Rightarrow> 'a option" where
  "dec_object d j = (case j of JNull \<Rightarrow> d [] | JObj ob \<Rightarrow> d ob | _ \<Rightarrow> None)"

definition dec_string_elem :: "json \<Rightarrow> string option" where
  "dec_string_elem j = (case j of JNull \<Rightarrow> Some [] | JStr s \<Rightarrow> Some s | _ \<Rightarrow> None)"

definition unmarshal :: "((string \<times> json) list \<Rightarrow> 'a option) \<Rightarrow> raw_message \<Rightarrow> 'a option" where
  "unmarshal d raw = Option.bind raw (dec_object d)"

text \<open>
  The lenient reading of a caller that ignores the error: a field of the wrong type
  keeps its zero value, a text that is not an object leaves the whole struct zero.
\<close>

definition raw_fields :: "raw_message \<Rightarrow> (string \<times> json) list" where
  "raw_fields raw = (case raw of Some (JObj ob) \<Rightarrow> ob | _ \<Rightarrow> [])"

definition lenient_string :: "string \<Rightarrow> raw_message \<Rightarrow> string" where
  "lenient_string k raw = (case dec_string k (raw_fields raw) of Some s \<Rightarrow> s | None \<Rightarrow> [])"

definition lenient_int :: "string \<Rightarrow> raw_message \<Rightarrow> int" where
  "lenient_int k raw = (case dec_int k (raw_fields raw) of Some i \<Rightarrow> i | None \<Rightarrow> 0)"

section \<open>Termination of recursive decoders\<close>

lemma size_json_field: "json_field k kvs = Some v \<Longrightarrow> size v < size (JObj kvs)"
proof -
  assume "json_field k kvs = Some v"
  then obtain k' where "(k', v) \<in> set kvs" using json_field_in_set by fastforce
  then show ?thesis
    by (induction kvs) auto
qed

lemma size_json_elem: "j \<in> set js \<Longrightarrow> size j < size (JArr js)"
  by (induction js) auto

section \<open>Equality of decoded values, \<open>deepEqualAny\<close>\<close>

text \<open>
  \<open>json.Unmarshal\<close> into \<open>any\<close>: an object becomes a Go map, so of duplicate keys the
  last one counts, compared exactly.  Numbers are compared by value.
\<close>

fun map_field :: "string \<Rightarrow> (string \<times> json) list \<Rightarrow> json option" where
  "map_field k [] = None"
| "map_field k (kv # kvs) =
     (case map_field k kvs of Some v \<Rightarrow> Some v | None \<Rightarrow> (if fst kv = k then Some (snd kv) else None))"

definition map_keys :: "(string \<times> json) list \<Rightarrow> string list" where
  "map_keys kvs = remdups (map fst kvs)"

fun num_parts :: "json \<Rightarrow> int \<times> int" where
  "num_parts (JInt i) = (i, 0)"
| "num_parts (JFrac m e) = (m, e)"
| "num_parts _ = (0, 0)"

definition num_equal :: "int \<times> int \<Rightarrow> int \<times> int \<Rightarrow> bool" where
  "num_equal a b = (let (m, e) = a; (n, f) = b; l = min e f in
     m * 10 ^ nat (e - l) = n * 10 ^ nat (f - l))"

lemma num_equal_refl [simp]: "num_equal a a"
  by (cases a) (simp add: num_equal_def)

lemma num_equal_sym: "num_equal a b = num_equal b a"
  by (cases a; cases b) (auto simp: num_equal_def Let_def min.commute)

lemma map_field_None: "map_field k kvs = None \<longleftrightarrow> k \<notin> fst ` set kvs"
  by (induction kvs) (auto split: option.splits)

lemma map_field_in_set: "map_field k kvs = Some v \<Longrightarrow> (k, v) \<in> set kvs"
  by (induction kvs) (auto split: option.splits if_splits)

lemma size_map_field: "map_field k kvs = Some v \<Longrightarrow> size v < size (JObj kvs)"
proof -
  assume "map_field k kvs = Some v"
  then have "(k, v) \<in> set kvs" by (rule map_field_in_set)
  then show ?thesis by (induction kvs) auto
qed

function deep_equal :: "json \<Rightarrow> json \<Rightarrow> bool" where
  "deep_equal a b = (case a of
      JObj av \<Rightarrow> (case b of
          JObj bv \<Rightarrow> length (map_keys av) = length (map_keys bv) \<and>
            (\<forall>k\<in>set (map_keys av). (case map_field k av of
                None \<Rightarrow> True
              | Some va \<Rightarrow> (case map_field k bv of None \<Rightarrow> False | Some vb \<Rightarrow> deep_equal va vb)))
        | _ \<Rightarrow> False)
    | JArr av \<Rightarrow> (case b of
          JArr bv \<Rightarrow> length av = length bv \<and>
            (\<forall>i\<in>set [0..<length av]. if i < length av then deep_equal (av ! i) (bv ! i) else True)
        | _ \<Rightarrow> False)
    | JNull \<Rightarrow> b = JNull
    | JBool x \<Rightarrow> b = JBool x
    | JStr s \<Rightarrow> b = JStr s
    | JInt i \<Rightarrow> (case b of JInt _ \<Rightarrow> num_equal (num_parts a) (num_parts b)
        | JFrac _ _ \<Rightarrow> num_equal (num_parts a) (num_parts b) | _ \<Rightarrow> False)
    | JFrac m e \<Rightarrow> (case b of JInt _ \<Rightarrow> num_equal (num_parts a) (num_parts b)
        | JFrac _ _ \<Rightarrow> num_equal (num_parts a) (num_parts b) | _ \<Rightarrow> False))"
  by pat_completeness auto
termination
  by (relation "measure (\<lambda>(a, b). size a)")
    (use size_map_field size_json_elem nth_mem in force)+

declare deep_equal.simps [simp del]

end
