(* ===== verification/Session_Events.thy ===== *)
theory Session_Events imports Json begin

text \<open>
  The session log's vocabulary and records (\<open>pkg/session/events.go\<close>): event types, surface
  operations and their JSON form, envelopes, messages, the decoding of the payloads that
  reach the model, and the refusal of unknown event types.

  Go strings are byte strings (\<open>string\<close>), Go's 64-bit \<open>int\<close> sequence numbers are \<open>int\<close>,
  a pointer that may be nil is an \<open>option\<close>.
\<close>

section \<open>Event types\<close>

abbreviation "EventAssistantMessage \<equiv> ''assistant/message''"
abbreviation "EventCompactionEnd \<equiv> ''compaction/end''"
abbreviation "EventCompactionStart \<equiv> ''compaction/start''"
abbreviation "EventCompactionSummary \<equiv> ''compaction/summary''"
abbreviation "EventScheduleChange \<equiv> ''schedule/change''"
abbreviation "EventSessionEndSeed \<equiv> ''session/end-seed''"
abbreviation "EventStepEnd \<equiv> ''step/end''"
abbreviation "EventStepStart \<equiv> ''step/start''"
abbreviation "EventToolResult \<equiv> ''tool/result''"
abbreviation "EventTurnEnd \<equiv> ''turn/end''"
abbreviation "EventTurnStart \<equiv> ''turn/start''"
abbreviation "EventUserMessage \<equiv> ''user/message''"

text \<open>The constant block, in its order.\<close>

definition event_vocabulary :: "string list" where
  "event_vocabulary = [
    ''agent-preset/selected'', ''agent/inbox/spliced'', ''approval/asked'',
    ''approval/decided'', ''approval/policy'', ''assistant/chunk'', ''assistant/message'',
    ''command/done'', ''command/run'', ''compaction/end'', ''compaction/prune'',
    ''compaction/start'', ''compaction/summary'', ''feedback/record'', ''goal/change'',
    ''hook/invoked'', ''hook/result'', ''llm/retry'', ''llm/retry-started'',
    ''permission/preset'', ''plan/mode'', ''request/context'', ''request/header'',
    ''sandbox/mode'', ''schedule/change'', ''session/end-seed'', ''session/title'',
    ''session/title-llm-request'', ''step/end'', ''step/start'', ''subagent/descriptor'',
    ''team/member'', ''team/message/delivered'', ''team/message/queued'', ''team/task'',
    ''todo/write'', ''tool-workflow/agent-end'', ''tool-workflow/agent-start'',
    ''tool-workflow/run-end'', ''tool-workflow/run-start'', ''tool/call'',
    ''tool/code-dispatch'', ''tool/code-dispatch-start'', ''tool/result'', ''turn/end'',
    ''turn/start'', ''user/message'', ''web/deepseek-search-llm-request'']"

text \<open>The keys of the map \<open>KnownEventTypes\<close>.\<close>

definition known_event_types :: "string list" where
  "known_event_types = [
    ''agent-preset/selected'', ''agent/inbox/spliced'', ''approval/asked'',
    ''approval/decided'', ''approval/policy'', ''assistant/chunk'', ''assistant/message'',
    ''command/done'', ''command/run'', ''compaction/end'', ''compaction/prune'',
    ''compaction/start'', ''compaction/summary'', ''feedback/record'', ''goal/change'',
    ''hook/invoked'', ''hook/result'', ''llm/retry'', ''llm/retry-started'',
    ''permission/preset'', ''plan/mode'', ''request/context'', ''request/header'',
    ''sandbox/mode'', ''schedule/change'', ''session/end-seed'', ''session/title'',
    ''session/title-llm-request'', ''step/end'', ''step/start'', ''subagent/descriptor'',
    ''team/member'', ''team/message/delivered'', ''team/message/queued'', ''team/task'',
    ''todo/write'', ''tool-workflow/agent-end'', ''tool-workflow/agent-start'',
    ''tool-workflow/run-end'', ''tool-workflow/run-start'', ''tool/call'',
    ''tool/code-dispatch'', ''tool/code-dispatch-start'', ''tool/result'', ''turn/end'',
    ''turn/start'', ''user/message'', ''web/deepseek-search-llm-request'']"

definition is_known_event_type :: "string \<Rightarrow> bool" where
  "is_known_event_type t \<longleftrightarrow> t \<in> set known_event_types"

definition surface_event_types :: "string list" where
  "surface_event_types = [EventUserMessage, EventAssistantMessage, EventToolResult]"

definition is_surface_eligible_type :: "string \<Rightarrow> bool" where
  "is_surface_eligible_type t \<longleftrightarrow> t \<in> set surface_event_types"

section \<open>Surface operations\<close>

record surface_op =
  so_op :: string
  so_start :: int
  so_end :: int

definition append_surface_op :: surface_op where
  "append_surface_op = \<lparr>so_op = ''append'', so_start = 0, so_end = 0\<rparr>"

definition replace_surface_op :: "int \<Rightarrow> int \<Rightarrow> surface_op" where
  "replace_surface_op st en = \<lparr>so_op = ''replace'', so_start = st, so_end = en\<rparr>"

definition is_append :: "surface_op \<Rightarrow> bool" where
  "is_append op \<longleftrightarrow> so_op op = ''append''"

datatype session_error =
    UnsupportedEvent string int
  | NotContiguous int int
  | OpOnIneligible string
  | SourcesOnIneligible string
  | MissingSurfaceOp string
  | InvalidReplaceOp string
  | EmptySources string int
  | NegativeSource string
  | DuplicateSource
  | LaterSource int int
  | MissingShadowed int
  | StartNotFound int
  | EndNotFound int
  | StartAfterEnd int nat int nat
  | RewriteNotSingle
  | RewriteNotToolResult
  | RewriteMoreThanContent
  | InvalidEventData string int
  | InvalidSurfaceOp string
  | BadJson
  | GoPanic \<comment> \<open>an index out of range or a nil dereference at run time\<close>

text \<open>\<open>MarshalJSON\<close>: the bytes it writes, as the JSON value they denote.\<close>

definition marshal_surface_op :: "surface_op \<Rightarrow> session_error + json" where
  "marshal_surface_op op =
     (if so_op op = ''append'' then Inr (JStr ''append'')
      else if so_op op = ''replace''
      then Inr (JObj [(''op'', JStr ''replace''), (''start'', JInt (so_start op)), (''end'', JInt (so_end op))])
      else Inl (InvalidSurfaceOp (so_op op)))"

definition unmarshal_surface_op :: "raw_message \<Rightarrow> session_error + surface_op" where
  "unmarshal_surface_op raw =
     (case raw of
        Some (JStr value) \<Rightarrow>
          (if value \<noteq> ''append'' then Inl (InvalidSurfaceOp value) else Inr append_surface_op)
      | _ \<Rightarrow>
          (case unmarshal (\<lambda>kvs. Option.bind (dec_string ''op'' kvs) (\<lambda>p.
                 Option.bind (dec_int ''start'' kvs) (\<lambda>st.
                 map_option (\<lambda>en. (p, st, en)) (dec_int ''end'' kvs)))) raw of
             None \<Rightarrow> Inl BadJson
           | Some (p, st, en) \<Rightarrow>
               (if p \<noteq> ''replace'' then Inl (InvalidSurfaceOp p)
                else Inr \<lparr>so_op = ''replace'', so_start = st, so_end = en\<rparr>)))"

section \<open>Envelopes\<close>

text \<open>
  \<open>env_sources\<close> keeps the difference between a nil slice (\<open>None\<close>) and an explicit empty
  one (\<open>Some []\<close>), which \<open>assertProvenance\<close> tests.
\<close>

record session_envelope =
  env_seq :: int
  env_time :: int
  env_type :: string
  env_data :: raw_message
  env_sources :: "int list option"
  env_surface_op :: "surface_op option"
  env_ignorable :: bool

definition new_envelope :: "int \<Rightarrow> int \<Rightarrow> string \<Rightarrow> json \<Rightarrow> session_envelope" where
  "new_envelope sq now t payload = \<lparr>env_seq = sq, env_time = now, env_type = t,
     env_data = Some payload, env_sources = None, env_surface_op = None, env_ignorable = False\<rparr>"

text \<open>The source list with nil read as empty, as \<open>range\<close> and \<open>len\<close> read it.\<close>

definition source_seqs :: "session_envelope \<Rightarrow> int list" where
  "source_seqs env = (case env_sources env of None \<Rightarrow> [] | Some ss \<Rightarrow> ss)"

definition is_surface_event :: "session_envelope option \<Rightarrow> bool" where
  "is_surface_event p = (case p of None \<Rightarrow> False | Some env \<Rightarrow>
     (if \<not> is_surface_eligible_type (env_type env) then False
      else (case env_surface_op env of None \<Rightarrow> False
            | Some op \<Rightarrow> is_append op \<or> so_op op = ''replace'')))"

definition is_append_surface_event :: "session_envelope option \<Rightarrow> bool" where
  "is_append_surface_event p = (case p of None \<Rightarrow> False | Some env \<Rightarrow>
     is_surface_event p \<and> (case env_surface_op env of None \<Rightarrow> False | Some op \<Rightarrow> is_append op))"

definition is_replacement_surface_event :: "session_envelope option \<Rightarrow> bool" where
  "is_replacement_surface_event p = (case p of None \<Rightarrow> False | Some env \<Rightarrow>
     is_surface_event p \<and> (case env_surface_op env of None \<Rightarrow> False | Some op \<Rightarrow> \<not> is_append op))"

section \<open>Refusing unknown event types\<close>

definition assert_event_supported :: "session_envelope option \<Rightarrow> session_error + unit" where
  "assert_event_supported p = (case p of None \<Rightarrow> Inr ()
     | Some env \<Rightarrow>
         (if is_known_event_type (env_type env) \<or> env_ignorable env then Inr ()
          else Inl (UnsupportedEvent (env_type env) (env_seq env))))"

fun assert_events_supported_ptrs :: "session_envelope option list \<Rightarrow> session_error + unit" where
  "assert_events_supported_ptrs [] = Inr ()"
| "assert_events_supported_ptrs (p # ps) =
     and_then (assert_event_supported p) (\<lambda>_. assert_events_supported_ptrs ps)"

fun assert_events_supported :: "session_envelope list \<Rightarrow> session_error + unit" where
  "assert_events_supported [] = Inr ()"
| "assert_events_supported (e # es) =
     and_then (assert_event_supported (Some e)) (\<lambda>_. assert_events_supported es)"

section \<open>Messages\<close>

datatype content_block = ContentBlock
  (cb_type: string) (cb_text: string) (cb_attachment_id: string) (cb_mime_type: string)
  (cb_id: string) (cb_name: string) (cb_arguments: string) (cb_tool_call_id: string)
  (cb_is_error: bool) (cb_content: "content_block list")

definition text_block :: "string \<Rightarrow> content_block" where
  "text_block s = ContentBlock ''text'' s [] [] [] [] [] [] False []"

record message_source =
  ms_kind :: string
  ms_call_id :: string
  ms_plugin :: string
  ms_form :: string
  ms_provider :: string
  ms_model :: string
  ms_replay_state :: raw_message
  ms_compaction_id :: string
  ms_source_command_id :: string

record wire_message =
  wm_id :: string
  wm_role :: string
  wm_content :: "content_block list"
  wm_source :: message_source

record model_message =
  mm_role :: string
  mm_content :: "content_block list"

record token_usage =
  tu_input :: int
  tu_output :: int
  tu_cache_read :: int
  tu_cache_write :: int
  tu_reasoning :: int

record assistant_message_payload =
  am_turn :: int
  am_step :: int
  am_message :: wire_message
  am_usage :: "token_usage option"
  am_interrupted :: bool

record tool_error =
  te_name :: string
  te_code :: string

record diff_hunk =
  dh_path :: string
  dh_old :: string
  dh_new :: string

record terminal_view =
  tv_lines :: "string list"
  tv_exit_code :: int

record tool_result_view =
  rv_kind :: string
  rv_diffs :: "diff_hunk list"
  rv_terminal :: "terminal_view option"
  rv_text :: string

record tool_result_payload =
  tr_turn :: int
  tr_step :: int
  tr_message :: wire_message
  tr_error :: "tool_error option"
  tr_view :: "tool_result_view option"
  tr_meta :: raw_message

section \<open>Decoding the payloads that reach the model\<close>

function dec_content_block :: "json \<Rightarrow> content_block option" where
  "dec_content_block j = (case j of
      JNull \<Rightarrow> Some (ContentBlock [] [] [] [] [] [] [] [] False [])
    | JObj kvs \<Rightarrow>
        Option.bind (dec_string ''type'' kvs) (\<lambda>ty.
        Option.bind (dec_string ''text'' kvs) (\<lambda>tx.
        Option.bind (dec_string ''attachmentId'' kvs) (\<lambda>att.
        Option.bind (dec_string ''mimeType'' kvs) (\<lambda>mime.
        Option.bind (dec_string ''id'' kvs) (\<lambda>cid.
        Option.bind (dec_string ''name'' kvs) (\<lambda>nm.
        Option.bind (dec_string ''arguments'' kvs) (\<lambda>args.
        Option.bind (dec_string ''toolCallId'' kvs) (\<lambda>tcid.
        Option.bind (dec_bool ''isError'' kvs) (\<lambda>err.
        map_option (ContentBlock ty tx att mime cid nm args tcid err)
          (case json_field ''content'' kvs of
             None \<Rightarrow> Some []
           | Some JNull \<Rightarrow> Some []
           | Some (JArr js) \<Rightarrow> those (map dec_content_block js)
           | Some _ \<Rightarrow> None))))))))))
    | _ \<Rightarrow> None)"
  by pat_completeness auto
termination
proof (relation "measure size", goal_cases)
  case 1
  then show ?case by simp
next
  case prems: (2 j kvs)
  show ?case
  proof -
    have "size a < size (JObj kvs)" if "json_field ''content'' kvs = Some (JArr js)" "a \<in> set js" for a js
      using size_json_field [OF that(1)] size_json_elem [OF that(2)] by simp
    with prems show ?thesis by auto
  qed
qed

declare dec_content_block.simps [simp del]

definition dec_message_source :: "(string \<times> json) list \<Rightarrow> message_source option" where
  "dec_message_source kvs =
     Option.bind (dec_string ''kind'' kvs) (\<lambda>kind.
     Option.bind (dec_string ''callId'' kvs) (\<lambda>call.
     Option.bind (dec_string ''plugin'' kvs) (\<lambda>plug.
     Option.bind (dec_string ''form'' kvs) (\<lambda>form.
     Option.bind (dec_string ''provider'' kvs) (\<lambda>prov.
     Option.bind (dec_string ''model'' kvs) (\<lambda>model.
     Option.bind (dec_string ''compactionId'' kvs) (\<lambda>comp.
     map_option (\<lambda>cmd. \<lparr>ms_kind = kind, ms_call_id = call, ms_plugin = plug, ms_form = form,
         ms_provider = prov, ms_model = model, ms_replay_state = json_field ''replayState'' kvs,
         ms_compaction_id = comp, ms_source_command_id = cmd\<rparr>)
       (dec_string ''sourceCommandId'' kvs))))))))"

definition dec_wire_message :: "(string \<times> json) list \<Rightarrow> wire_message option" where
  "dec_wire_message kvs =
     Option.bind (dec_string ''id'' kvs) (\<lambda>mid.
     Option.bind (dec_string ''role'' kvs) (\<lambda>role.
     Option.bind (dec_list dec_content_block ''content'' kvs) (\<lambda>content.
     map_option (\<lambda>src. \<lparr>wm_id = mid, wm_role = role, wm_content = content, wm_source = src\<rparr>)
       (dec_struct dec_message_source ''source'' kvs))))"

definition dec_token_usage :: "(string \<times> json) list \<Rightarrow> token_usage option" where
  "dec_token_usage kvs =
     Option.bind (dec_int ''inputTokens'' kvs) (\<lambda>i.
     Option.bind (dec_int ''outputTokens'' kvs) (\<lambda>out.
     Option.bind (dec_int ''cacheReadTokens'' kvs) (\<lambda>cr.
     Option.bind (dec_int ''cacheWriteTokens'' kvs) (\<lambda>cw.
     map_option (\<lambda>r. \<lparr>tu_input = i, tu_output = out, tu_cache_read = cr, tu_cache_write = cw,
         tu_reasoning = r\<rparr>) (dec_int ''reasoningTokens'' kvs)))))"

definition dec_assistant_message :: "(string \<times> json) list \<Rightarrow> assistant_message_payload option" where
  "dec_assistant_message kvs =
     Option.bind (dec_int ''turn'' kvs) (\<lambda>t.
     Option.bind (dec_int ''step'' kvs) (\<lambda>s.
     Option.bind (dec_struct dec_wire_message ''message'' kvs) (\<lambda>m.
     Option.bind (dec_ptr dec_token_usage ''usage'' kvs) (\<lambda>u.
     map_option (\<lambda>i. \<lparr>am_turn = t, am_step = s, am_message = m, am_usage = u, am_interrupted = i\<rparr>)
       (dec_bool ''interrupted'' kvs)))))"

definition dec_tool_error :: "(string \<times> json) list \<Rightarrow> tool_error option" where
  "dec_tool_error kvs =
     Option.bind (dec_string ''name'' kvs) (\<lambda>n.
     map_option (\<lambda>c. \<lparr>te_name = n, te_code = c\<rparr>) (dec_string ''code'' kvs))"

definition dec_diff_hunk :: "(string \<times> json) list \<Rightarrow> diff_hunk option" where
  "dec_diff_hunk kvs =
     Option.bind (dec_string ''path'' kvs) (\<lambda>p.
     Option.bind (dec_string ''old'' kvs) (\<lambda>x.
     map_option (\<lambda>y. \<lparr>dh_path = p, dh_old = x, dh_new = y\<rparr>) (dec_string ''new'' kvs)))"

definition dec_terminal_view :: "(string \<times> json) list \<Rightarrow> terminal_view option" where
  "dec_terminal_view kvs =
     Option.bind (dec_list dec_string_elem ''lines'' kvs) (\<lambda>ls.
     map_option (\<lambda>c. \<lparr>tv_lines = ls, tv_exit_code = c\<rparr>) (dec_int ''exitCode'' kvs))"

definition dec_tool_result_view :: "(string \<times> json) list \<Rightarrow> tool_result_view option" where
  "dec_tool_result_view kvs =
     Option.bind (dec_string ''kind'' kvs) (\<lambda>k.
     Option.bind (dec_list (dec_object dec_diff_hunk) ''diffs'' kvs) (\<lambda>ds.
     Option.bind (dec_ptr dec_terminal_view ''terminal'' kvs) (\<lambda>t.
     map_option (\<lambda>x. \<lparr>rv_kind = k, rv_diffs = ds, rv_terminal = t, rv_text = x\<rparr>)
       (dec_string ''text'' kvs))))"

definition dec_tool_result :: "(string \<times> json) list \<Rightarrow> tool_result_payload option" where
  "dec_tool_result kvs =
     Option.bind (dec_int ''turn'' kvs) (\<lambda>t.
     Option.bind (dec_int ''step'' kvs) (\<lambda>s.
     Option.bind (dec_struct dec_wire_message ''message'' kvs) (\<lambda>m.
     Option.bind (dec_ptr dec_tool_error ''error'' kvs) (\<lambda>e.
     map_option (\<lambda>v. \<lparr>tr_turn = t, tr_step = s, tr_message = m, tr_error = e, tr_view = v,
         tr_meta = json_field ''meta'' kvs\<rparr>)
       (dec_ptr dec_tool_result_view ''view'' kvs)))))"

section \<open>Projection of one surface event\<close>

definition project_event_message :: "session_envelope \<Rightarrow> session_error + model_message option" where
  "project_event_message env =
     (if env_type env = EventUserMessage then
        (case unmarshal dec_wire_message (env_data env) of
           None \<Rightarrow> Inl (InvalidEventData (env_type env) (env_seq env))
         | Some m \<Rightarrow> Inr (Some \<lparr>mm_role = wm_role m, mm_content = wm_content m\<rparr>))
      else if env_type env = EventAssistantMessage then
        (case unmarshal dec_assistant_message (env_data env) of
           None \<Rightarrow> Inl (InvalidEventData (env_type env) (env_seq env))
         | Some p \<Rightarrow>
             (if length (wm_content (am_message p)) = 0 then Inr None
              else Inr (Some \<lparr>mm_role = wm_role (am_message p), mm_content = wm_content (am_message p)\<rparr>)))
      else if env_type env = EventToolResult then
        (case unmarshal dec_tool_result (env_data env) of
           None \<Rightarrow> Inl (InvalidEventData (env_type env) (env_seq env))
         | Some p \<Rightarrow> Inr (Some \<lparr>mm_role = wm_role (tr_message p), mm_content = wm_content (tr_message p)\<rparr>))
      else Inr None)"

definition extract_text_from_blocks :: "content_block list \<Rightarrow> string" where
  "extract_text_from_blocks bs = concat (map cb_text (filter (\<lambda>b. cb_type b = ''text'') bs))"

section \<open>Lemmas\<close>

lemma surface_type_known: "is_surface_eligible_type t \<Longrightarrow> is_known_event_type t"
  by (auto simp: is_surface_eligible_type_def surface_event_types_def
      is_known_event_type_def known_event_types_def)

lemma eligible_simps [simp]:
  "is_surface_eligible_type EventUserMessage"
  "is_surface_eligible_type EventAssistantMessage"
  "is_surface_eligible_type EventToolResult"
  by (simp_all add: is_surface_eligible_type_def surface_event_types_def)

lemma not_eligible_simps [simp]:
  "\<not> is_surface_eligible_type EventCompactionStart"
  "\<not> is_surface_eligible_type EventCompactionSummary"
  "\<not> is_surface_eligible_type EventCompactionEnd"
  "\<not> is_surface_eligible_type EventTurnStart"
  "\<not> is_surface_eligible_type EventTurnEnd"
  "\<not> is_surface_eligible_type EventStepStart"
  "\<not> is_surface_eligible_type EventStepEnd"
  by (simp_all add: is_surface_eligible_type_def surface_event_types_def)

lemma assert_events_supported_eq_ptrs:
  "assert_events_supported es = assert_events_supported_ptrs (map Some es)"
  by (induction es) auto

lemma assert_events_supported_ok_iff:
  "assert_events_supported es = Inr () \<longleftrightarrow>
     (\<forall>e\<in>set es. is_known_event_type (env_type e) \<or> env_ignorable e)"
  by (induction es) (auto simp: assert_event_supported_def result_simps)

lemma assert_events_supported_error:
  "assert_events_supported es = Inl err \<Longrightarrow>
     \<exists>es1 e es2. es = es1 @ e # es2 \<and> assert_events_supported es1 = Inr () \<and>
       \<not> is_known_event_type (env_type e) \<and> \<not> env_ignorable e \<and>
       err = UnsupportedEvent (env_type e) (env_seq e)"
proof (induction es)
  case (Cons e es)
  show ?case
  proof (cases "is_known_event_type (env_type e) \<or> env_ignorable e")
    case True
    with Cons obtain es1 d es2 where "es = es1 @ d # es2" "assert_events_supported es1 = Inr ()"
      "\<not> is_known_event_type (env_type d)" "\<not> env_ignorable d"
      "err = UnsupportedEvent (env_type d) (env_seq d)"
      by (auto simp: assert_event_supported_def)
    with True show ?thesis
      by (intro exI [of _ "e # es1"] exI [of _ d] exI [of _ es2]) (auto simp: assert_event_supported_def)
  next
    case False
    with Cons.prems show ?thesis
      by (intro exI [of _ "[]"] exI [of _ e] exI [of _ es]) (auto simp: assert_event_supported_def)
  qed
qed simp

lemma project_no_panic: "project_event_message env \<noteq> Inl GoPanic"
  by (auto simp: project_event_message_def split: option.splits)

end
