(* ===== verification/Session_Surface.thy ===== *)
theory Session_Surface imports Session_Events "HOL-Library.Multiset" begin

text \<open>
  The canonical surface fold over a session log (\<open>pkg/session/surface.go\<close>): planning and
  applying one event, replaying a whole log, and the incremental manager.

  A log slice of envelope pointers is a \<open>session_envelope option list\<close>; dereferencing nil
  or indexing outside the slice is the error \<open>GoPanic\<close>, so that its absence is a theorem.
\<close>

section \<open>State and results\<close>

record surface_fold_state =
  sf_nodes :: "int list"
  sf_generation :: nat

record surface_fold_replacement =
  fr_seq :: int
  fr_start :: int
  fr_end :: int
  fr_shadowed :: "int list"

record surface_fold_result =
  fo_nodes :: "int list"
  fo_replacements :: "surface_fold_replacement list"
  fo_generation :: nat

text \<open>The two kinds of \<open>surfacePlan\<close>.\<close>

datatype surface_plan =
    PlanAppend (pl_seq: int)
  | PlanReplace (pl_seq: int) (pl_start: int) (pl_end: int) (pl_start_idx: nat) (pl_end_idx: nat)
      (pl_shadowed: "int list")

definition init_fold_state :: surface_fold_state where
  "init_fold_state = \<lparr>sf_nodes = [], sf_generation = 0\<rparr>"

text \<open>\<open>events[i]\<close> for a computed index.\<close>

definition go_index :: "'a list \<Rightarrow> int \<Rightarrow> 'a option" where
  "go_index xs i = (if 0 \<le> i \<and> i < int (length xs) then Some (xs ! nat i) else None)"

section \<open>Validating one event\<close>

definition surface_op_of :: "session_envelope \<Rightarrow> session_error + surface_op option" where
  "surface_op_of event =
     (if \<not> is_surface_eligible_type (env_type event) then
        (if env_surface_op event \<noteq> None then Inl (OpOnIneligible (env_type event))
         else if env_sources event \<noteq> None then Inl (SourcesOnIneligible (env_type event))
         else Inr None)
      else
        (case env_surface_op event of
           None \<Rightarrow> Inl (MissingSurfaceOp (env_type event))
         | Some op \<Rightarrow>
             (if is_append op then Inr (Some op)
              else if so_op op \<noteq> ''replace'' \<or> so_start op < 0 \<or> so_end op < 0
              then Inl (InvalidReplaceOp (env_type event))
              else Inr (Some op))))"

text \<open>The loop over \<open>SourceEventSeqs\<close>, \<open>seen\<close> being the map \<open>sources\<close>.\<close>

fun check_sources :: "string \<Rightarrow> int \<Rightarrow> int list \<Rightarrow> int list \<Rightarrow> session_error + int list" where
  "check_sources ty sq seen [] = Inr seen"
| "check_sources ty sq seen (s # ss) =
     (if s < 0 then Inl (NegativeSource ty)
      else if s \<in> set seen then Inl DuplicateSource
      else if sq \<le> s then Inl (LaterSource s sq)
      else check_sources ty sq (s # seen) ss)"

fun check_shadowed :: "int list \<Rightarrow> int list \<Rightarrow> session_error + unit" where
  "check_shadowed sources [] = Inr ()"
| "check_shadowed sources (s # ss) =
     (if s \<notin> set sources then Inl (MissingShadowed s) else check_shadowed sources ss)"

definition assert_provenance :: "session_envelope \<Rightarrow> int list \<Rightarrow> session_error + unit" where
  "assert_provenance event shadowed =
     (if env_sources event = Some [] \<and> env_type event \<noteq> EventAssistantMessage
      then Inl (EmptySources (env_type event) (env_seq event))
      else and_then (check_sources (env_type event) (env_seq event) [] (source_seqs event))
             (\<lambda>sources. check_shadowed sources shadowed))"

record replacement_range_info =
  ri_start_idx :: nat
  ri_end_idx :: nat
  ri_shadowed :: "int list"

definition replacement_range ::
  "surface_fold_state \<Rightarrow> surface_op \<Rightarrow> session_error + replacement_range_info" where
  "replacement_range st op =
     (case find_index (\<lambda>n. n = so_start op) (sf_nodes st) of
        None \<Rightarrow> Inl (StartNotFound (so_start op))
      | Some i \<Rightarrow>
          (case find_index (\<lambda>n. n = so_end op) (sf_nodes st) of
             None \<Rightarrow> Inl (EndNotFound (so_end op))
           | Some j \<Rightarrow>
               (if j < i then Inl (StartAfterEnd (so_start op) i (so_end op) j)
                else Inr \<lparr>ri_start_idx = i, ri_end_idx = j,
                          ri_shadowed = slice (sf_nodes st) i (Suc j)\<rparr>)))"

text \<open>
  \<open>normalizeToolResultForRewrite\<close>: the message's content blocks get the content \<open>""\<close>.
  \<open>data\<close> and \<open>message\<close> are Go maps, written by key.
\<close>

definition map_put :: "string \<Rightarrow> json \<Rightarrow> (string \<times> json) list \<Rightarrow> (string \<times> json) list" where
  "map_put k v kvs = filter (\<lambda>kv. fst kv \<noteq> k) kvs @ [(k, v)]"

fun blank_block_content :: "json \<Rightarrow> json option" where
  "blank_block_content (JObj b) = Some (JObj (map_put ''content'' (JStr []) b))"
| "blank_block_content _ = None"

definition normalize_tool_result :: "session_envelope \<Rightarrow> json option" where
  "normalize_tool_result env =
     (case env_data env of
        Some (JObj data) \<Rightarrow>
          (case map_field ''message'' data of
             Some (JObj message) \<Rightarrow>
               (case map_field ''content'' message of
                  Some (JArr content) \<Rightarrow>
                    map_option (\<lambda>bs. JObj (map_put ''message''
                        (JObj (map_put ''content'' (JArr bs) message)) data))
                      (those (map blank_block_content content))
                | _ \<Rightarrow> None)
           | _ \<Rightarrow> None)
      | _ \<Rightarrow> None)"

definition tool_result_rewrite_equal :: "session_envelope \<Rightarrow> session_envelope \<Rightarrow> bool" where
  "tool_result_rewrite_equal original replacement =
     (case (normalize_tool_result original, normalize_tool_result replacement) of
        (Some a, Some b) \<Rightarrow> deep_equal a b
      | _ \<Rightarrow> False)"

definition assert_tool_result_rewrite ::
  "session_envelope \<Rightarrow> int list \<Rightarrow> session_envelope option list \<Rightarrow> int \<Rightarrow> session_error + unit" where
  "assert_tool_result_rewrite event shadowed events base =
     (if env_type event \<noteq> EventToolResult then Inr ()
      else if length shadowed \<noteq> 1 then Inl RewriteNotSingle
      else (case go_index events (hd shadowed - base) of
              None \<Rightarrow> Inl GoPanic
            | Some None \<Rightarrow> Inl RewriteNotToolResult
            | Some (Some original) \<Rightarrow>
                (if env_type original \<noteq> EventToolResult then Inl RewriteNotToolResult
                 else if \<not> tool_result_rewrite_equal original event then Inl RewriteMoreThanContent
                 else Inr ())))"

definition plan_surface_event ::
  "surface_fold_state \<Rightarrow> session_envelope option \<Rightarrow> int \<Rightarrow> session_envelope option list \<Rightarrow> int
     \<Rightarrow> session_error + surface_plan option" where
  "plan_surface_event st p expected events base =
     (case p of None \<Rightarrow> Inl GoPanic | Some event \<Rightarrow>
       (if env_seq event \<noteq> expected then Inl (NotContiguous (env_seq event) expected)
        else and_then (surface_op_of event) (\<lambda>oq.
          (case oq of
             None \<Rightarrow> Inr None
           | Some op \<Rightarrow>
               (if is_append op then
                  and_then (assert_provenance event []) (\<lambda>_. Inr (Some (PlanAppend (env_seq event))))
                else
                  and_then (replacement_range st op) (\<lambda>r.
                  and_then (assert_provenance event (ri_shadowed r)) (\<lambda>_.
                  and_then (assert_tool_result_rewrite event (ri_shadowed r) events base) (\<lambda>_.
                    Inr (Some (PlanReplace (env_seq event) (so_start op) (so_end op)
                      (ri_start_idx r) (ri_end_idx r) (ri_shadowed r)))))))))))"

section \<open>Applying one event\<close>

fun apply_surface_plan ::
  "surface_fold_state \<Rightarrow> surface_plan option \<Rightarrow> surface_fold_state \<times> surface_fold_replacement option" where
  "apply_surface_plan st None = (st, None)"
| "apply_surface_plan st (Some (PlanAppend sq)) = (st\<lparr>sf_nodes := sf_nodes st @ [sq]\<rparr>, None)"
| "apply_surface_plan st (Some (PlanReplace sq a b i j sh)) =
     (st\<lparr>sf_nodes := splice (sf_nodes st) i (Suc j) [sq], sf_generation := Suc (sf_generation st)\<rparr>,
      Some \<lparr>fr_seq = sq, fr_start = a, fr_end = b, fr_shadowed = slice (sf_nodes st) i (Suc j)\<rparr>)"

definition apply_surface_event ::
  "surface_fold_state \<Rightarrow> session_envelope option \<Rightarrow> int \<Rightarrow> session_envelope option list \<Rightarrow> int
     \<Rightarrow> session_error + surface_fold_state \<times> surface_fold_replacement option" where
  "apply_surface_event st p expected events base =
     and_then (plan_surface_event st p expected events base) (\<lambda>plan. Inr (apply_surface_plan st plan))"

text \<open>The loop of \<open>FoldSurface\<close> over the remaining events, at index \<open>idx\<close>.\<close>

fun fold_loop ::
  "session_envelope option list \<Rightarrow> int \<Rightarrow> nat \<Rightarrow> session_envelope option list
     \<Rightarrow> surface_fold_state \<times> surface_fold_replacement list
     \<Rightarrow> session_error + surface_fold_state \<times> surface_fold_replacement list" where
  "fold_loop events base idx [] acc = Inr acc"
| "fold_loop events base idx (p # ps) acc =
     and_then (apply_surface_event (fst acc) p (base + int idx) events base) (\<lambda>(st, r).
       fold_loop events base (Suc idx) ps
         (st, snd acc @ (case r of None \<Rightarrow> [] | Some fr \<Rightarrow> [fr])))"

definition fold_surface ::
  "session_envelope option list \<Rightarrow> int \<Rightarrow> session_error + surface_fold_result" where
  "fold_surface events base =
     and_then (fold_loop events base 0 events (init_fold_state, [])) (\<lambda>(st, rs).
       Inr \<lparr>fo_nodes = sf_nodes st, fo_replacements = rs, fo_generation = sf_generation st\<rparr>)"

section \<open>The incremental manager\<close>

record surface_manager =
  sm_state :: surface_fold_state
  sm_log :: "session_envelope option list"
  sm_base :: int
  sm_last :: int
  sm_pending_event :: "session_envelope option"
  sm_pending_plan :: "surface_plan option"

definition new_surface_manager :: "session_envelope option list \<Rightarrow> int \<Rightarrow> surface_manager" where
  "new_surface_manager log base = \<lparr>sm_state = init_fold_state, sm_log = log, sm_base = base,
     sm_last = base - 1, sm_pending_event = None, sm_pending_plan = None\<rparr>"

text \<open>
  One iteration of \<open>processDelta\<close> for the event at \<open>seq\<close>.  Go compares the pending
  event by pointer; the comparison only counts when the sequence numbers agree, and
  the model compares the envelopes.
\<close>

definition process_one :: "surface_manager \<Rightarrow> int \<Rightarrow> session_error \<times> surface_manager + surface_manager" where
  "process_one m sq =
     (case go_index (sm_log m) (sq - sm_base m) of
        None \<Rightarrow> Inl (GoPanic, m)
      | Some event \<Rightarrow>
          (let cleared = (\<lambda>m'. (case sm_pending_plan m of
                 Some plan \<Rightarrow> (if pl_seq plan \<le> sq
                    then m'\<lparr>sm_pending_event := None, sm_pending_plan := None\<rparr> else m')
               | None \<Rightarrow> m'))
           in if (case sm_pending_plan m of Some plan \<Rightarrow> sm_pending_event m = event \<and> pl_seq plan = sq
                  | None \<Rightarrow> False)
              then Inr (cleared (m\<lparr>sm_state := fst (apply_surface_plan (sm_state m) (sm_pending_plan m))\<rparr>)
                     \<lparr>sm_last := sq\<rparr>)
              else (case apply_surface_event (sm_state m) event sq (sm_log m) (sm_base m) of
                      Inl e \<Rightarrow> Inl (e, m)
                    | Inr (st, _) \<Rightarrow> Inr (cleared (m\<lparr>sm_state := st\<rparr>)\<lparr>sm_last := sq\<rparr>))))"

text \<open>
  \<open>processDelta\<close> runs \<open>seq\<close> from \<open>lastProcessed + 1\<close> to the tail; \<open>n\<close> counts the
  remaining iterations.  On an error the manager keeps what it had processed.
\<close>

fun process_steps :: "nat \<Rightarrow> surface_manager \<Rightarrow> session_error \<times> surface_manager + surface_manager" where
  "process_steps 0 m = Inr m"
| "process_steps (Suc n) m = and_then (process_one m (sm_last m + 1)) (process_steps n)"

definition process_delta :: "surface_manager \<Rightarrow> session_error \<times> surface_manager + surface_manager" where
  "process_delta m =
     process_steps (nat (sm_base m + int (length (sm_log m)) - 1 - sm_last m)) m"

definition manager_nodes ::
  "surface_manager \<Rightarrow> session_error \<times> surface_manager + int list \<times> surface_manager" where
  "manager_nodes m = and_then (process_delta m) (\<lambda>m'. Inr (sf_nodes (sm_state m'), m'))"

definition manager_generation ::
  "surface_manager \<Rightarrow> session_error \<times> surface_manager + nat \<times> surface_manager" where
  "manager_generation m = and_then (process_delta m) (\<lambda>m'. Inr (sf_generation (sm_state m'), m'))"

definition validate_next ::
  "surface_manager \<Rightarrow> session_envelope option \<Rightarrow> session_error \<times> surface_manager + surface_manager" where
  "validate_next m event =
     and_then (if sm_last m < sm_base m + int (length (sm_log m)) - 1 then process_delta m else Inr m)
       (\<lambda>m'. (case plan_surface_event (sm_state m') event (sm_base m' + int (length (sm_log m')))
                     (sm_log m') (sm_base m') of
                Inl e \<Rightarrow> Inl (e, m')
              | Inr plan \<Rightarrow> Inr (m'\<lparr>sm_pending_event := event, sm_pending_plan := plan\<rparr>)))"

section \<open>The loops of the validation\<close>

lemma check_sources_iff [loop_simps]:
  "check_sources ty sq seen ss = Inr r \<longleftrightarrow>
     distinct ss \<and> set ss \<inter> set seen = {} \<and> (\<forall>s\<in>set ss. 0 \<le> s \<and> s < sq) \<and> r = rev ss @ seen"
  by (induction ss arbitrary: seen) auto

lemma check_sources_no_panic [simp]: "check_sources ty sq seen ss \<noteq> Inl GoPanic"
  by (induction ss arbitrary: seen) auto

lemma check_shadowed_iff [loop_simps]:
  "check_shadowed sources ss = Inr u \<longleftrightarrow> set ss \<subseteq> set sources"
  by (induction ss) auto

lemma check_shadowed_no_panic [simp]: "check_shadowed sources ss \<noteq> Inl GoPanic"
  by (induction ss) auto

definition valid_sources :: "session_envelope \<Rightarrow> bool" where
  "valid_sources e \<longleftrightarrow> (env_sources e = Some [] \<longrightarrow> env_type e = EventAssistantMessage) \<and>
     distinct (source_seqs e) \<and> (\<forall>s\<in>set (source_seqs e). 0 \<le> s \<and> s < env_seq e)"

lemma assert_provenance_iff:
  "assert_provenance e sh = Inr u \<longleftrightarrow> valid_sources e \<and> set sh \<subseteq> set (source_seqs e)"
  by (auto simp: assert_provenance_def valid_sources_def result_simps loop_simps)

lemma assert_provenance_no_panic [simp]: "assert_provenance e sh \<noteq> Inl GoPanic"
  by (auto simp: assert_provenance_def result_simps)

lemma go_index_Some_iff:
  "go_index xs i = Some x \<longleftrightarrow> 0 \<le> i \<and> i < int (length xs) \<and> x = xs ! nat i"
  by (auto simp: go_index_def)

section \<open>The declarative step relation\<close>

text \<open>
  What one admitted event does to the surface, stated on list segments instead of
  indices: a log-only event nothing, an append extends the tail, a replacement
  substitutes the segment between its two boundary nodes, all of whose nodes it cites.
\<close>

definition rewrite_allowed ::
  "session_envelope option list \<Rightarrow> int \<Rightarrow> session_envelope \<Rightarrow> int list \<Rightarrow> bool" where
  "rewrite_allowed events base e ys \<longleftrightarrow> (env_type e = EventToolResult \<longrightarrow>
     (\<exists>s orig. ys = [s] \<and> go_index events (s - base) = Some (Some orig) \<and>
        env_type orig = EventToolResult \<and> tool_result_rewrite_equal orig e))"

inductive surface_step ::
  "session_envelope option list \<Rightarrow> int \<Rightarrow> surface_fold_state \<Rightarrow> session_envelope
     \<Rightarrow> surface_fold_state \<Rightarrow> surface_fold_replacement option \<Rightarrow> bool"
  for events :: "session_envelope option list" and base :: int where
  log_only: "\<not> is_surface_eligible_type (env_type e) \<Longrightarrow> env_surface_op e = None \<Longrightarrow>
     env_sources e = None \<Longrightarrow> surface_step events base st e st None"
| append: "is_surface_eligible_type (env_type e) \<Longrightarrow> env_surface_op e = Some op \<Longrightarrow> is_append op \<Longrightarrow>
     valid_sources e \<Longrightarrow>
     surface_step events base st e (st\<lparr>sf_nodes := sf_nodes st @ [env_seq e]\<rparr>) None"
| replace: "is_surface_eligible_type (env_type e) \<Longrightarrow> env_surface_op e = Some (replace_surface_op a b) \<Longrightarrow>
     0 \<le> a \<Longrightarrow> 0 \<le> b \<Longrightarrow> sf_nodes st = xs @ ys @ zs \<Longrightarrow> ys \<noteq> [] \<Longrightarrow> hd ys = a \<Longrightarrow> last ys = b \<Longrightarrow>
     valid_sources e \<Longrightarrow> set ys \<subseteq> set (source_seqs e) \<Longrightarrow> rewrite_allowed events base e ys \<Longrightarrow>
     surface_step events base st e
       \<lparr>sf_nodes = xs @ [env_seq e] @ zs, sf_generation = Suc (sf_generation st)\<rparr>
       (Some \<lparr>fr_seq = env_seq e, fr_start = a, fr_end = b, fr_shadowed = ys\<rparr>)"

inductive_cases surface_stepE: "surface_step events base st e st' r"

text \<open>The segment between two found indices.\<close>

lemma slice_segment:
  assumes "i \<le> j" and "j < length xs"
  shows "xs = take i xs @ slice xs i (Suc j) @ drop (Suc j) xs" and "slice xs i (Suc j) \<noteq> []"
    and "hd (slice xs i (Suc j)) = xs ! i" and "last (slice xs i (Suc j)) = xs ! j"
proof -
  show "xs = take i xs @ slice xs i (Suc j) @ drop (Suc j) xs"
    using assms take_slice_drop [of i "Suc j" xs] by simp
  have len: "length (slice xs i (Suc j)) = Suc j - i"
    using assms by (simp add: slice_def)
  show ne: "slice xs i (Suc j) \<noteq> []"
  proof
    assume "slice xs i (Suc j) = []"
    with len have "Suc j - i = 0" by simp
    with assms show False by simp
  qed
  show "hd (slice xs i (Suc j)) = xs ! i"
    using assms ne by (simp add: hd_conv_nth slice_def)
  show "last (slice xs i (Suc j)) = xs ! j"
    using assms ne len nth_slice [of "j - i" "Suc j" i xs] by (simp add: last_conv_nth Suc_diff_le)
qed

lemma replacement_range_iff:
  "replacement_range st op = Inr ri \<longleftrightarrow>
     (\<exists>i j. find_index (\<lambda>n. n = so_start op) (sf_nodes st) = Some i \<and>
        find_index (\<lambda>n. n = so_end op) (sf_nodes st) = Some j \<and> i \<le> j \<and>
        ri = \<lparr>ri_start_idx = i, ri_end_idx = j, ri_shadowed = slice (sf_nodes st) i (Suc j)\<rparr>)"
  by (cases "find_index (\<lambda>n. n = so_start op) (sf_nodes st)";
      cases "find_index (\<lambda>n. n = so_end op) (sf_nodes st)")
    (simp_all add: replacement_range_def, auto)

lemma rewrite_allowed_iff:
  "assert_tool_result_rewrite e ys events base = Inr u \<longleftrightarrow> rewrite_allowed events base e ys"
  by (cases ys) (auto simp: assert_tool_result_rewrite_def rewrite_allowed_def split: option.splits)

lemma surface_op_of_iff:
  "surface_op_of e = Inr oq \<longleftrightarrow>
     (\<not> is_surface_eligible_type (env_type e) \<and> env_surface_op e = None \<and> env_sources e = None \<and> oq = None) \<or>
     (is_surface_eligible_type (env_type e) \<and> (\<exists>op. env_surface_op e = Some op \<and> oq = Some op \<and>
        (is_append op \<or> so_op op = ''replace'' \<and> 0 \<le> so_start op \<and> 0 \<le> so_end op)))"
  by (auto simp: surface_op_of_def split: option.splits)

lemma replace_op_eq:
  "so_op op = ''replace'' \<Longrightarrow> op = replace_surface_op (so_start op) (so_end op)"
  by (simp add: replace_surface_op_def)

lemma replace_op_not_append [simp]: "\<not> is_append (replace_surface_op a b)"
  by (simp add: is_append_def replace_surface_op_def)

lemma apply_surface_event_sound:
  assumes "apply_surface_event st p expected events base = Inr (st', r)"
  shows "\<exists>e. p = Some e \<and> env_seq e = expected \<and> surface_step events base st e st' r"
proof -
  from assms obtain plan where
    plan: "plan_surface_event st p expected events base = Inr plan"
    and ap: "apply_surface_plan st plan = (st', r)"
    by (auto simp: apply_surface_event_def and_then_Inr_iff)
  from plan obtain e where p: "p = Some e" "env_seq e = expected"
    by (cases p) (auto simp: plan_surface_event_def split: if_splits)
  from plan p obtain oq where oq: "surface_op_of e = Inr oq"
    by (auto simp: plan_surface_event_def and_then_Inr_iff)
  from oq consider (log) "oq = None" | (app) op where "oq = Some op" "is_append op"
    | (rep) op where "oq = Some op" "\<not> is_append op" by (cases oq) auto
  then have "surface_step events base st e st' r"
  proof cases
    case log
    with p oq plan have "plan = None" by (simp add: plan_surface_event_def)
    with log oq ap show ?thesis
      by (auto simp: surface_op_of_iff intro: surface_step.log_only)
  next
    case (app op)
    with p oq plan have "plan = Some (PlanAppend (env_seq e))" "assert_provenance e [] = Inr ()"
      by (auto simp: plan_surface_event_def and_then_Inr_iff)
    with app oq ap show ?thesis
      by (auto simp: surface_op_of_iff assert_provenance_iff intro: surface_step.append)
  next
    case (rep op)
    with p oq have op: "env_surface_op e = Some op" "so_op op = ''replace''"
      "0 \<le> so_start op" "0 \<le> so_end op" "is_surface_eligible_type (env_type e)"
      by (auto simp: surface_op_of_iff)
    from rep p oq plan obtain i j where
      ij: "find_index (\<lambda>n. n = so_start op) (sf_nodes st) = Some i"
        "find_index (\<lambda>n. n = so_end op) (sf_nodes st) = Some j" "i \<le> j"
      and prov: "valid_sources e" "set (slice (sf_nodes st) i (Suc j)) \<subseteq> set (source_seqs e)"
      and rw: "rewrite_allowed events base e (slice (sf_nodes st) i (Suc j))"
      and pl: "plan = Some (PlanReplace (env_seq e) (so_start op) (so_end op) i j
        (slice (sf_nodes st) i (Suc j)))"
      by (auto simp: plan_surface_event_def result_simps replacement_range_iff
          assert_provenance_iff rewrite_allowed_iff)
    have j: "j < length (sf_nodes st)" using ij by auto
    note seg = slice_segment [OF ij(3) j]
    have "sf_nodes st ! i = so_start op" "sf_nodes st ! j = so_end op"
      using ij by (auto dest: find_index_nthD)
    with seg have ends: "hd (slice (sf_nodes st) i (Suc j)) = so_start op"
      "last (slice (sf_nodes st) i (Suc j)) = so_end op" by simp_all
    from surface_step.replace [OF op(5) _ op(3,4) seg(1,2) ends prov rw] op(1) replace_op_eq [OF op(2)]
    show ?thesis using ap pl by (cases st) (auto simp: splice_def)
  qed
  with p show ?thesis by blast
qed

lemma find_index_segment:
  assumes "distinct (xs @ ys @ zs)" and "ys \<noteq> []"
  shows "find_index (\<lambda>n. n = hd ys) (xs @ ys @ zs) = Some (length xs)"
    and "find_index (\<lambda>n. n = last ys) (xs @ ys @ zs) = Some (length xs + length ys - 1)"
    and "slice (xs @ ys @ zs) (length xs) (length xs + length ys) = ys"
proof -
  have h: "hd ys = (xs @ ys @ zs) ! length xs"
    using assms(2) by (simp add: nth_append hd_conv_nth)
  have "length xs + length ys - 1 = length xs + (length ys - 1)" "length ys - 1 < length ys"
    using assms(2) by (cases ys; simp)+
  then have l: "last ys = (xs @ ys @ zs) ! (length xs + length ys - 1)"
    using assms(2) by (simp only: nth_append) (simp add: last_conv_nth)
  show "find_index (\<lambda>n. n = hd ys) (xs @ ys @ zs) = Some (length xs)"
    unfolding h by (rule find_index_eq_nth) (use assms in auto)
  show "find_index (\<lambda>n. n = last ys) (xs @ ys @ zs) = Some (length xs + length ys - 1)"
    unfolding l by (rule find_index_eq_nth) (use assms in \<open>auto simp: neq_Nil_conv\<close>)
  show "slice (xs @ ys @ zs) (length xs) (length xs + length ys) = ys"
    by (simp add: slice_def)
qed

lemma apply_surface_event_complete:
  assumes "surface_step events base st e st' r" and "distinct (sf_nodes st)"
  shows "apply_surface_event st (Some e) (env_seq e) events base = Inr (st', r)"
  using assms(1)
proof cases
  case log_only
  then show ?thesis by (simp add: apply_surface_event_def plan_surface_event_def surface_op_of_def)
next
  case (append op)
  then have "surface_op_of e = Inr (Some op)" "assert_provenance e [] = Inr ()"
    by (auto simp: surface_op_of_iff assert_provenance_iff)
  with append show ?thesis by (simp add: apply_surface_event_def plan_surface_event_def)
next
  case (replace a b xs ys zs)
  let ?op = "replace_surface_op a b"
  have d: "distinct (xs @ ys @ zs)" using assms(2) replace by simp
  note seg = find_index_segment [OF d \<open>ys \<noteq> []\<close>]
  have Suc: "Suc (length xs + length ys - 1) = length xs + length ys"
    using \<open>ys \<noteq> []\<close> by (cases ys) auto
  have le: "length xs \<le> length xs + length ys - Suc 0"
    using \<open>ys \<noteq> []\<close> by (cases ys) auto
  have "surface_op_of e = Inr (Some ?op)"
    using replace by (auto simp: surface_op_of_iff replace_surface_op_def)
  moreover have "replacement_range st ?op = Inr \<lparr>ri_start_idx = length xs,
      ri_end_idx = length xs + length ys - 1, ri_shadowed = ys\<rparr>"
    unfolding replacement_range_iff using replace seg Suc le
    by (auto simp: replace_surface_op_def Suc_le_eq)
  moreover have "assert_provenance e ys = Inr ()" "assert_tool_result_rewrite e ys events base = Inr ()"
    using replace by (simp_all add: assert_provenance_iff rewrite_allowed_iff)
  ultimately show ?thesis
    using replace Suc seg(3) by (simp add: apply_surface_event_def plan_surface_event_def splice_def
        replace_surface_op_def is_append_def)
qed

end
