(* ===== verification/Session_Messages.thy ===== *)
theory Session_Messages imports Session_Surface begin

text \<open>
  Replaying a whole log: the invariant of \<open>FoldSurface\<close>, the agreement of the incremental
  manager with it, and \<open>DeriveMessages\<close>, which turns the surviving surface into the
  model's conversation.
\<close>

lemma distinct_submset:
  assumes "mset xs + M = mset ys" and "distinct ys"
  shows "distinct xs"
proof -
  obtain zs where "mset zs = M" using ex_mset by blast
  with assms(1) have "mset (xs @ zs) = mset ys" by simp
  from mset_eq_imp_distinct_iff [OF this] assms(2) show ?thesis by simp
qed

section \<open>The surface events of a log\<close>

fun surface_seqs :: "session_envelope option list \<Rightarrow> int list" where
  "surface_seqs [] = []"
| "surface_seqs (None # ps) = surface_seqs ps"
| "surface_seqs (Some e # ps) =
     (if is_surface_eligible_type (env_type e) then [env_seq e] else []) @ surface_seqs ps"

definition shadowed_mset :: "surface_fold_replacement list \<Rightarrow> int multiset" where
  "shadowed_mset rs = \<Sum>\<^sub># (mset (map (mset \<circ> fr_shadowed) rs))"

text \<open>The first \<open>n\<close> entries are envelopes numbered from \<open>base\<close>.\<close>

definition contiguous :: "session_envelope option list \<Rightarrow> int \<Rightarrow> nat \<Rightarrow> bool" where
  "contiguous ps base n \<longleftrightarrow> n \<le> length ps \<and>
     (\<forall>i<n. \<exists>e. ps ! i = Some e \<and> env_seq e = base + int i)"

lemma surface_seqs_append [simp]: "surface_seqs (ps @ qs) = surface_seqs ps @ surface_seqs qs"
  by (induction ps rule: surface_seqs.induct) auto

lemma shadowed_mset_simps [simp]:
  "shadowed_mset [] = {#}"
  "shadowed_mset (rs @ [r]) = shadowed_mset rs + mset (fr_shadowed r)"
  by (simp_all add: shadowed_mset_def add.commute)

lemma contiguous_SucI:
  "contiguous ps base n \<Longrightarrow> n < length ps \<Longrightarrow> ps ! n = Some e \<Longrightarrow> env_seq e = base + int n \<Longrightarrow>
     contiguous ps base (Suc n)"
  by (auto simp: contiguous_def less_Suc_eq)

lemma contiguous_0 [simp]: "contiguous ps base 0"
  by (simp add: contiguous_def)

lemma surface_seqs_contiguous:
  assumes "contiguous ps base n"
  shows "distinct (surface_seqs (take n ps)) \<and>
    (\<forall>s\<in>set (surface_seqs (take n ps)). \<exists>i<n. s = base + int i \<and>
       (\<exists>e. ps ! i = Some e \<and> env_seq e = s \<and> is_surface_eligible_type (env_type e)))"
  using assms
proof (induction n)
  case (Suc n)
  from Suc.prems obtain e where n: "n < length ps" and e: "ps ! n = Some e" "env_seq e = base + int n"
    by (auto simp: contiguous_def Suc_le_eq)
  have "contiguous ps base n" using Suc.prems by (auto simp: contiguous_def)
  note IH = Suc.IH [OF this]
  have t: "surface_seqs (take (Suc n) ps) = surface_seqs (take n ps) @
      (if is_surface_eligible_type (env_type e) then [env_seq e] else [])"
    using n e by (simp add: take_Suc_conv_app_nth)
  have "env_seq e \<notin> set (surface_seqs (take n ps))" using IH e by fastforce
  with IH e show ?case unfolding t by (auto intro: less_SucI)
qed simp

section \<open>The invariant of the fold\<close>

definition fold_inv ::
  "session_envelope option list \<Rightarrow> int \<Rightarrow> nat \<Rightarrow> surface_fold_state \<Rightarrow> surface_fold_replacement list \<Rightarrow> bool" where
  "fold_inv events base n st rs \<longleftrightarrow> contiguous events base n \<and>
     mset (sf_nodes st) + shadowed_mset rs = mset (surface_seqs (take n events)) \<and>
     sf_generation st = length rs"

lemma fold_inv_init: "fold_inv events base 0 init_fold_state []"
  by (simp add: fold_inv_def init_fold_state_def)

lemma fold_inv_nodes:
  assumes "fold_inv events base n st rs"
  shows "distinct (sf_nodes st)"
    and "s \<in> set (sf_nodes st) \<Longrightarrow> \<exists>i<n. s = base + int i \<and>
      (\<exists>e. events ! i = Some e \<and> env_seq e = s \<and> is_surface_eligible_type (env_type e))"
proof -
  from assms have c: "contiguous events base n"
    and m: "mset (sf_nodes st) + shadowed_mset rs = mset (surface_seqs (take n events))"
    by (simp_all add: fold_inv_def)
  note S = surface_seqs_contiguous [OF c]
  show "distinct (sf_nodes st)" using distinct_submset [OF m] S by blast
  show "\<exists>i<n. s = base + int i \<and>
      (\<exists>e. events ! i = Some e \<and> env_seq e = s \<and> is_surface_eligible_type (env_type e))"
    if "s \<in> set (sf_nodes st)"
    using S that m by (metis set_mset_mset union_iff)
qed

lemma surface_step_conserves:
  "surface_step events base st e st' r \<Longrightarrow>
     mset (sf_nodes st') + (case r of None \<Rightarrow> {#} | Some fr \<Rightarrow> mset (fr_shadowed fr)) =
     mset (sf_nodes st) + (if is_surface_eligible_type (env_type e) then {#env_seq e#} else {#}) \<and>
     sf_generation st' = sf_generation st + (case r of None \<Rightarrow> 0 | Some _ \<Rightarrow> 1)"
  by (erule surface_step.cases) auto

lemma fold_inv_step:
  assumes inv: "fold_inv events base n st rs" and n: "n < length events"
    and ap: "apply_surface_event st (events ! n) (base + int n) events base = Inr (st', r)"
  shows "fold_inv events base (Suc n) st' (rs @ (case r of None \<Rightarrow> [] | Some fr \<Rightarrow> [fr]))"
proof -
  from apply_surface_event_sound [OF ap] obtain e where e: "events ! n = Some e"
    "env_seq e = base + int n" and step: "surface_step events base st e st' r" by blast
  note C = surface_step_conserves [OF step]
  have "contiguous events base (Suc n)"
    using inv n e by (auto simp: fold_inv_def intro: contiguous_SucI)
  moreover have "surface_seqs (take (Suc n) events) = surface_seqs (take n events) @
      (if is_surface_eligible_type (env_type e) then [env_seq e] else [])"
    using n e by (simp add: take_Suc_conv_app_nth)
  moreover
  let ?X = "case r of None \<Rightarrow> {#} | Some fr \<Rightarrow> mset (fr_shadowed fr)"
  let ?Y = "if is_surface_eligible_type (env_type e) then {#env_seq e#} else {#}"
  have "shadowed_mset (rs @ (case r of None \<Rightarrow> [] | Some fr \<Rightarrow> [fr])) = shadowed_mset rs + ?X"
    by (cases r) auto
  moreover have "mset (sf_nodes st') + (shadowed_mset rs + ?X) = (mset (sf_nodes st) + shadowed_mset rs) + ?Y"
  proof -
    have "mset (sf_nodes st') + (shadowed_mset rs + ?X) = (mset (sf_nodes st') + ?X) + shadowed_mset rs"
      by (simp add: ac_simps)
    also have "\<dots> = (mset (sf_nodes st) + ?Y) + shadowed_mset rs" using C by simp
    finally show ?thesis by (simp only: ac_simps)
  qed
  moreover have "sf_generation st' = length (rs @ (case r of None \<Rightarrow> [] | Some fr \<Rightarrow> [fr]))"
    using inv C by (cases r) (simp_all add: fold_inv_def)
  ultimately show ?thesis
    using inv unfolding fold_inv_def by simp
qed

lemma fold_loop_inv:
  assumes "fold_inv events base n st rs" and "qs = drop n events"
    and "fold_loop events base n qs (st, rs) = Inr (st', rs')"
  shows "fold_inv events base (length events) st' rs'"
  using assms
proof (induction qs arbitrary: n st rs)
  case Nil
  then have "length events \<le> n" by simp
  with Nil show ?case by (auto simp: fold_inv_def contiguous_def)
next
  case (Cons p qs)
  then have n: "n < length events" and p: "p = events ! n" and qs: "qs = drop (Suc n) events"
    by (metis drop_eq_Nil leI list.discI, metis nth_via_drop, metis drop_Suc list.sel(3) tl_drop)
  from Cons.prems(3) obtain st1 r where
    ap: "apply_surface_event st p (base + int n) events base = Inr (st1, r)" and
    rest: "fold_loop events base (Suc n) qs (st1, rs @ (case r of None \<Rightarrow> [] | Some fr \<Rightarrow> [fr])) = Inr (st', rs')"
    by (auto simp: and_then_Inr_iff)
  from fold_inv_step [OF Cons.prems(1) n] ap p
  have "fold_inv events base (Suc n) st1 (rs @ (case r of None \<Rightarrow> [] | Some fr \<Rightarrow> [fr]))" by simp
  from Cons.IH [OF this qs rest] show ?case .
qed

lemma fold_loop_append:
  "fold_loop events base idx (ps @ qs) acc =
     and_then (fold_loop events base idx ps acc) (fold_loop events base (idx + length ps) qs)"
proof (induction ps arbitrary: idx acc)
  case (Cons p ps)
  show ?case
    by (cases "apply_surface_event (fst acc) p (base + int idx) events base")
      (auto simp: Cons.IH split: prod.splits)
qed simp

lemma fold_surface_invD:
  assumes "fold_surface events base = Inr r"
  obtains st where "fold_loop events base 0 events (init_fold_state, []) = Inr (st, fo_replacements r)"
    "fo_nodes r = sf_nodes st" "fo_generation r = sf_generation st"
    "fold_inv events base (length events) st (fo_replacements r)"
proof -
  from assms obtain st rs where l: "fold_loop events base 0 events (init_fold_state, []) = Inr (st, rs)"
    and r: "r = \<lparr>fo_nodes = sf_nodes st, fo_replacements = rs, fo_generation = sf_generation st\<rparr>"
    by (auto simp: fold_surface_def and_then_Inr_iff)
  from fold_loop_inv [OF fold_inv_init _ l] r l that show thesis by simp
qed

section \<open>No run-time panic\<close>

lemma plan_surface_event_no_panic:
  assumes "fold_inv events base n st rs" and "p = Some e"
  shows "plan_surface_event st p expected events base \<noteq> Inl GoPanic"
proof
  assume "plan_surface_event st p expected events base = Inl GoPanic"
  with assms(2) have panic: "and_then (surface_op_of e) (\<lambda>oq. case oq of None \<Rightarrow> Inr None | Some op \<Rightarrow>
      (if is_append op then and_then (assert_provenance e []) (\<lambda>_. Inr (Some (PlanAppend (env_seq e))))
       else and_then (replacement_range st op) (\<lambda>r. and_then (assert_provenance e (ri_shadowed r)) (\<lambda>_.
         and_then (assert_tool_result_rewrite e (ri_shadowed r) events base) (\<lambda>_.
           Inr (Some (PlanReplace (env_seq e) (so_start op) (so_end op)
             (ri_start_idx r) (ri_end_idx r) (ri_shadowed r)))))))) = Inl GoPanic"
    by (simp add: plan_surface_event_def split: if_splits)
  have "surface_op_of e \<noteq> Inl GoPanic" by (auto simp: surface_op_of_def split: option.splits)
  moreover have "replacement_range st op \<noteq> Inl GoPanic" for op
    by (auto simp: replacement_range_def split: option.splits)
  ultimately obtain op ri where
    ri: "replacement_range st op = Inr ri"
    and rw: "assert_tool_result_rewrite e (ri_shadowed ri) events base = Inl GoPanic"
    using panic by (auto simp: and_then_Inl_iff split: option.splits if_splits)
  from ri have sub: "set (ri_shadowed ri) \<subseteq> set (sf_nodes st)"
    by (auto simp: replacement_range_iff dest: subsetD [OF set_slice_subset])
  from rw obtain s where s: "ri_shadowed ri = [s]" "go_index events (s - base) = None"
    by (cases "ri_shadowed ri")
      (auto simp: assert_tool_result_rewrite_def split: if_splits option.splits)
  with sub have "s \<in> set (sf_nodes st)" by simp
  from fold_inv_nodes(2) [OF assms(1) this] obtain i where "i < n" "s = base + int i" by blast
  moreover have "n \<le> length events" using assms(1) by (simp add: fold_inv_def contiguous_def)
  ultimately show False using s(2) by (simp add: go_index_def split: if_splits)
qed

lemma fold_loop_no_panic:
  assumes "fold_inv events base n st rs" and "qs = drop n events" and "None \<notin> set qs"
  shows "fold_loop events base n qs (st, rs) \<noteq> Inl GoPanic"
  using assms
proof (induction qs arbitrary: n st rs)
  case (Cons p qs)
  then have n: "n < length events" and p: "p = events ! n" and qs: "qs = drop (Suc n) events"
    by (metis drop_eq_Nil leI list.discI, metis nth_via_drop, metis drop_Suc list.sel(3) tl_drop)
  from Cons.prems(3) obtain e where e: "p = Some e" by (cases p) auto
  show ?case
  proof (cases "apply_surface_event st p (base + int n) events base")
    case (Inl err)
    with plan_surface_event_no_panic [OF Cons.prems(1) e] show ?thesis
      by (auto simp: apply_surface_event_def and_then_Inl_iff)
  next
    case (Inr x)
    obtain st1 r where x: "x = (st1, r)" by fastforce
    from fold_inv_step [OF Cons.prems(1) n] Inr p x
    have "fold_inv events base (Suc n) st1 (rs @ (case r of None \<Rightarrow> [] | Some fr \<Rightarrow> [fr]))" by simp
    from Cons.IH [OF this qs] Cons.prems(3) Inr x show ?thesis by simp
  qed
qed simp

section \<open>\<open>DeriveMessages\<close>\<close>

text \<open>The loop over \<open>fold.Nodes\<close>, each node used as an index into the pointer slice.\<close>

fun collect_messages :: "session_envelope list \<Rightarrow> int list \<Rightarrow> session_error + model_message list" where
  "collect_messages events [] = Inr []"
| "collect_messages events (sq # sqs) =
     (case go_index events sq of
        None \<Rightarrow> Inl GoPanic
      | Some env \<Rightarrow>
          and_then (project_event_message env) (\<lambda>m.
          and_then (collect_messages events sqs) (\<lambda>ms.
            Inr (case m of None \<Rightarrow> ms | Some msg \<Rightarrow> msg # ms))))"

definition derive_messages :: "session_envelope list \<Rightarrow> session_error + model_message list" where
  "derive_messages events =
     and_then (assert_events_supported events) (\<lambda>_.
     and_then (fold_surface (map Some events) 0) (\<lambda>fold.
       collect_messages events (fo_nodes fold)))"

lemma collect_messages_no_panic:
  "\<forall>s\<in>set sqs. 0 \<le> s \<and> s < int (length events) \<Longrightarrow> collect_messages events sqs \<noteq> Inl GoPanic"
  by (induction sqs) (auto simp: go_index_def and_then_Inl_iff project_no_panic)

lemma assert_events_supported_no_panic: "assert_events_supported es \<noteq> Inl GoPanic"
  by (induction es) (auto simp: assert_event_supported_def)

lemma fold_surface_no_panic: "fold_surface (map Some es) base \<noteq> Inl GoPanic"
  using fold_loop_no_panic [OF fold_inv_init, of "map Some es" "map Some es" base]
  by (auto simp: fold_surface_def and_then_Inl_iff split: prod.splits)

lemma fold_surface_node_range:
  "fold_surface (map Some es) base = Inr r \<Longrightarrow> s \<in> set (fo_nodes r) \<Longrightarrow>
     base \<le> s \<and> s < base + int (length es)"
  by (elim fold_surface_invD) (auto dest: fold_inv_nodes(2))

section \<open>Growing a log\<close>

text \<open>A fold that succeeded is not disturbed by events appended later.\<close>

lemma go_index_append: "go_index xs i = Some x \<Longrightarrow> go_index (xs @ ys) i = Some x"
  by (auto simp: go_index_Some_iff nth_append)

lemma rewrite_allowed_append:
  "rewrite_allowed events base e ys \<Longrightarrow> rewrite_allowed (events @ later) base e ys"
  by (auto simp: rewrite_allowed_def dest: go_index_append)

lemma plan_surface_event_append:
  assumes "plan_surface_event st p expected events base = Inr pl"
  shows "plan_surface_event st p expected (events @ later) base = Inr pl"
proof (cases p)
  case (Some e)
  with assms obtain oq where oq: "surface_op_of e = Inr oq"
    by (auto simp: plan_surface_event_def and_then_Inr_iff split: if_splits)
  show ?thesis
  proof (cases oq)
    case (Some op)
    have rw: "assert_tool_result_rewrite e ys (events @ later) base = Inr ()"
      if "assert_tool_result_rewrite e ys events base = Inr ()" for ys
      using that rewrite_allowed_append by (simp add: rewrite_allowed_iff)
    show ?thesis
      using assms \<open>p = Some e\<close> oq Some
      by (cases "replacement_range st op")
        (auto simp: plan_surface_event_def and_then_Inr_iff rw split: if_splits)
  qed (use assms \<open>p = Some e\<close> oq in \<open>auto simp: plan_surface_event_def split: if_splits\<close>)
qed (use assms in \<open>simp add: plan_surface_event_def\<close>)

lemma apply_surface_event_append:
  "apply_surface_event st p expected events base = Inr x \<Longrightarrow>
     apply_surface_event st p expected (events @ later) base = Inr x"
  by (auto simp: apply_surface_event_def and_then_Inr_iff dest: plan_surface_event_append)

lemma fold_loop_more:
  "fold_loop events base idx ps acc = Inr x \<Longrightarrow> fold_loop (events @ later) base idx ps acc = Inr x"
proof (induction ps arbitrary: idx acc)
  case (Cons p ps)
  then obtain st r where ap: "apply_surface_event (fst acc) p (base + int idx) events base = Inr (st, r)"
    and rest: "fold_loop events base (Suc idx) ps (st, snd acc @ (case r of None \<Rightarrow> [] | Some fr \<Rightarrow> [fr])) = Inr x"
    by (auto simp: and_then_Inr_iff)
  from apply_surface_event_append [OF ap] Cons.IH [OF rest] show ?case by simp
qed simp

lemma fold_surface_snoc:
  assumes "fold_surface events base = Inr r"
    and "apply_surface_event \<lparr>sf_nodes = fo_nodes r, sf_generation = fo_generation r\<rparr> p
      (base + int (length events)) (events @ [p]) base = Inr (st, fr)"
  shows "fold_surface (events @ [p]) base = Inr \<lparr>fo_nodes = sf_nodes st,
     fo_replacements = fo_replacements r @ (case fr of None \<Rightarrow> [] | Some x \<Rightarrow> [x]),
     fo_generation = sf_generation st\<rparr>"
proof -
  obtain st0 where l: "fold_loop events base 0 events (init_fold_state, []) = Inr (st0, fo_replacements r)"
    and st0: "fo_nodes r = sf_nodes st0" "fo_generation r = sf_generation st0"
    using fold_surface_invD [OF assms(1)] by metis
  have "st0 = \<lparr>sf_nodes = fo_nodes r, sf_generation = fo_generation r\<rparr>" using st0 by (cases st0) simp
  with fold_loop_more [OF l, of "[p]"] assms(2) show ?thesis
    by (simp add: fold_surface_def fold_loop_append)
qed

text \<open>What one later event does to the derived conversation.\<close>

lemma collect_messages_append:
  "collect_messages events (xs @ ys) =
     and_then (collect_messages events xs) (\<lambda>ms. and_then (collect_messages events ys) (\<lambda>ns. Inr (ms @ ns)))"
proof (induction xs)
  case Nil
  show ?case by (cases "collect_messages events ys") auto
next
  case (Cons x xs)
  show ?case
  proof (cases "go_index events x")
    case (Some env)
    with Cons show ?thesis
      by (cases "project_event_message env"; cases "collect_messages events xs";
          cases "collect_messages events ys") (auto split: option.splits)
  qed simp
qed

lemma collect_messages_more:
  "collect_messages events sqs = Inr ms \<Longrightarrow> collect_messages (events @ later) sqs = Inr ms"
proof (induction sqs arbitrary: ms)
  case (Cons s sqs)
  then obtain env m ms' where env: "go_index events s = Some env" "project_event_message env = Inr m"
    and ms': "collect_messages events sqs = Inr ms'" "ms = (case m of None \<Rightarrow> ms' | Some msg \<Rightarrow> msg # ms')"
    by (auto simp: and_then_Inr_iff split: option.splits)
  from go_index_append [OF env(1)] env Cons.IH [OF ms'(1)] ms'(2) show ?case by (cases m) simp_all
qed simp

lemma assert_events_supported_snoc:
  "assert_events_supported es = Inr () \<Longrightarrow> is_known_event_type (env_type e) \<Longrightarrow>
     assert_events_supported (es @ [e]) = Inr ()"
  by (simp add: assert_events_supported_ok_iff)

lemma derive_messages_snoc:
  assumes "derive_messages es = Inr ms" and "env_seq e = int (length es)"
    and "env_type e = EventUserMessage \<or> env_type e = EventAssistantMessage \<or> env_type e = EventToolResult"
    and "env_surface_op e = Some append_surface_op" and "valid_sources e"
    and "project_event_message e = Inr m"
  shows "derive_messages (es @ [e]) = Inr (ms @ (case m of None \<Rightarrow> [] | Some msg \<Rightarrow> [msg]))"
proof -
  from assms(1) obtain r where sup: "assert_events_supported es = Inr ()"
    and fold: "fold_surface (map Some es) 0 = Inr r" and col: "collect_messages es (fo_nodes r) = Inr ms"
    by (auto simp: derive_messages_def and_then_Inr_iff)
  have el: "is_surface_eligible_type (env_type e)" using assms(3) by auto
  from surface_type_known [OF el] sup have "assert_events_supported (es @ [e]) = Inr ()"
    by (simp add: assert_events_supported_snoc)
  moreover have "surface_op_of e = Inr (Some append_surface_op)" "assert_provenance e [] = Inr ()"
    "is_append append_surface_op"
    using el assms by (auto simp: surface_op_of_iff assert_provenance_iff is_append_def append_surface_op_def)
  then have "apply_surface_event \<lparr>sf_nodes = fo_nodes r, sf_generation = fo_generation r\<rparr> (Some e)
      (0 + int (length (map Some es))) (map Some es @ [Some e]) 0 =
      Inr (\<lparr>sf_nodes = fo_nodes r @ [env_seq e], sf_generation = fo_generation r\<rparr>, None)"
    using assms(2) by (simp add: apply_surface_event_def plan_surface_event_def)
  from fold_surface_snoc [OF fold this]
  have "fold_surface (map Some (es @ [e])) 0 = Inr (r\<lparr>fo_nodes := fo_nodes r @ [env_seq e]\<rparr>)"
    by simp
  moreover have "collect_messages (es @ [e]) (fo_nodes r @ [env_seq e]) =
      Inr (ms @ (case m of None \<Rightarrow> [] | Some msg \<Rightarrow> [msg]))"
    using collect_messages_more [OF col, of "[e]"] assms(2,6)
    by (cases m) (simp_all add: collect_messages_append go_index_def nth_append)
  ultimately show ?thesis by (simp add: derive_messages_def)
qed

end
