(* ===== verification/Session_Manager.thy ===== *)
theory Session_Manager imports Session_Messages begin

text \<open>
  The incremental \<open>SurfaceManager\<close> against the one-shot \<open>FoldSurface\<close>: every manager
  that the public operations can produce answers what a full replay answers.
\<close>

text \<open>The manager has folded the first \<open>k\<close> events, and a pending plan is for the next seq.\<close>

definition folded_upto :: "nat \<Rightarrow> surface_fold_replacement list \<Rightarrow> surface_manager \<Rightarrow> bool" where
  "folded_upto k rs m \<longleftrightarrow> k \<le> length (sm_log m) \<and> sm_last m = sm_base m - 1 + int k \<and>
     fold_loop (sm_log m) (sm_base m) 0 (take k (sm_log m)) (init_fold_state, []) = Inr (sm_state m, rs) \<and>
     (\<forall>plan. sm_pending_plan m = Some plan \<longrightarrow> pl_seq plan = sm_base m + int (length (sm_log m)))"

lemma folded_upto_new: "folded_upto 0 [] (new_surface_manager log base)"
  by (simp add: folded_upto_def new_surface_manager_def)

lemma process_one_folded:
  assumes ok: "folded_upto k rs m" and k: "k < length (sm_log m)"
  shows "process_one m (sm_last m + 1) =
    (case apply_surface_event (sm_state m) (sm_log m ! k) (sm_base m + int k) (sm_log m) (sm_base m) of
       Inl e \<Rightarrow> Inl (e, m)
     | Inr (st, r) \<Rightarrow> Inr (m\<lparr>sm_state := st, sm_last := sm_base m + int k\<rparr>))"
proof -
  have sq: "sm_last m + 1 = sm_base m + int k" using ok by (simp add: folded_upto_def)
  have pend: "\<not> pl_seq plan \<le> sm_base m + int k" if "sm_pending_plan m = Some plan" for plan
    using ok k that by (auto simp: folded_upto_def)
  have "go_index (sm_log m) (sm_base m + int k - sm_base m) = Some (sm_log m ! k)"
    using k by (simp add: go_index_def)
  then show ?thesis
    unfolding process_one_def sq using pend
    by (cases "sm_pending_plan m")
      (auto simp: Let_def split: sum.splits prod.splits)
qed

lemma folded_upto_step:
  assumes ok: "folded_upto k rs m" and k: "k < length (sm_log m)"
    and ap: "apply_surface_event (sm_state m) (sm_log m ! k) (sm_base m + int k) (sm_log m) (sm_base m)
      = Inr (st, r)"
  shows "folded_upto (Suc k) (rs @ (case r of None \<Rightarrow> [] | Some fr \<Rightarrow> [fr]))
    (m\<lparr>sm_state := st, sm_last := sm_base m + int k\<rparr>)"
  using assms by (simp add: folded_upto_def take_Suc_conv_app_nth fold_loop_append)

lemma process_steps_folded:
  assumes "folded_upto k rs m" and "n = length (sm_log m) - k"
  shows "case fold_loop (sm_log m) (sm_base m) k (drop k (sm_log m)) (sm_state m, rs) of
      Inl e \<Rightarrow> (\<exists>m'. process_steps n m = Inl (e, m') \<and> (\<exists>j rs'. folded_upto j rs' m') \<and>
                 sm_log m' = sm_log m \<and> sm_base m' = sm_base m)
    | Inr (st, rs') \<Rightarrow> (\<exists>m'. process_steps n m = Inr m' \<and> folded_upto (length (sm_log m)) rs' m' \<and>
                 sm_state m' = st \<and> sm_log m' = sm_log m \<and> sm_base m' = sm_base m)"
  using assms
proof (induction n arbitrary: k rs m)
  case 0
  then show ?case by (auto simp: folded_upto_def)
next
  case (Suc n)
  then have k: "k < length (sm_log m)" by simp
  then have d: "drop k (sm_log m) = sm_log m ! k # drop (Suc k) (sm_log m)"
    by (simp add: Cons_nth_drop_Suc)
  note one = process_one_folded [OF Suc.prems(1) k]
  show ?case
  proof (cases "apply_surface_event (sm_state m) (sm_log m ! k) (sm_base m + int k) (sm_log m) (sm_base m)")
    case (Inl e)
    with one d Suc.prems(1) show ?thesis by auto
  next
    case (Inr x)
    obtain st r where x: "x = (st, r)" by fastforce
    let ?m = "m\<lparr>sm_state := st, sm_last := sm_base m + int k\<rparr>"
    from folded_upto_step [OF Suc.prems(1) k] Inr x
    have f: "folded_upto (Suc k) (rs @ (case r of None \<Rightarrow> [] | Some fr \<Rightarrow> [fr])) ?m" by simp
    have n: "n = length (sm_log ?m) - Suc k" using Suc.prems(2) by simp
    have steps: "process_steps (Suc n) m = process_steps n ?m" using one Inr x by simp
    show ?thesis unfolding steps using Suc.IH [OF f n] Inr x d by (simp split: sum.splits prod.splits)
  qed
qed

lemma process_delta_folded:
  assumes "folded_upto k rs m"
  shows "case fold_surface (sm_log m) (sm_base m) of
      Inl e \<Rightarrow> (\<exists>m'. process_delta m = Inl (e, m') \<and> (\<exists>j rs'. folded_upto j rs' m') \<and>
                 sm_log m' = sm_log m \<and> sm_base m' = sm_base m)
    | Inr r \<Rightarrow> (\<exists>m'. process_delta m = Inr m' \<and> folded_upto (length (sm_log m)) (fo_replacements r) m' \<and>
                 sf_nodes (sm_state m') = fo_nodes r \<and> sf_generation (sm_state m') = fo_generation r \<and>
                 sm_log m' = sm_log m \<and> sm_base m' = sm_base m)"
proof -
  have n: "nat (sm_base m + int (length (sm_log m)) - 1 - sm_last m) = length (sm_log m) - k"
    using assms by (simp add: folded_upto_def)
  have "fold_loop (sm_log m) (sm_base m) 0 (take k (sm_log m) @ drop k (sm_log m)) (init_fold_state, []) =
      fold_loop (sm_log m) (sm_base m) k (drop k (sm_log m)) (sm_state m, rs)"
    using assms by (subst fold_loop_append) (simp add: folded_upto_def min_def)
  then have "fold_surface (sm_log m) (sm_base m) =
      and_then (fold_loop (sm_log m) (sm_base m) k (drop k (sm_log m)) (sm_state m, rs)) (\<lambda>(st, rs).
       Inr \<lparr>fo_nodes = sf_nodes st, fo_replacements = rs, fo_generation = sf_generation st\<rparr>)"
    by (simp add: fold_surface_def)
  with process_steps_folded [OF assms refl] show ?thesis
    by (auto simp: process_delta_def n split: sum.splits prod.splits)
qed

lemma plan_seq:
  "plan_surface_event st p expected events base = Inr (Some plan) \<Longrightarrow> pl_seq plan = expected"
  by (auto simp: plan_surface_event_def and_then_Inr_iff split: option.splits if_splits)

lemma validate_next_folded:
  assumes "folded_upto k rs m"
  shows "(\<forall>m'. validate_next m ev = Inr m' \<longrightarrow> (\<exists>j rs'. folded_upto j rs' m') \<and>
        sm_log m' = sm_log m \<and> sm_base m' = sm_base m) \<and>
    (\<forall>e m'. validate_next m ev = Inl (e, m') \<longrightarrow> (\<exists>j rs'. folded_upto j rs' m') \<and>
        sm_log m' = sm_log m \<and> sm_base m' = sm_base m)"
proof -
  let ?pre = "if sm_last m < sm_base m + int (length (sm_log m)) - 1 then process_delta m else Inr m"
  have pre: "(\<exists>e m'. ?pre = Inl (e, m') \<and> (\<exists>j rs'. folded_upto j rs' m') \<and>
        sm_log m' = sm_log m \<and> sm_base m' = sm_base m) \<or>
      (\<exists>m'. ?pre = Inr m' \<and> (\<exists>j rs'. folded_upto j rs' m') \<and> sm_log m' = sm_log m \<and> sm_base m' = sm_base m)"
    using process_delta_folded [OF assms] assms by (auto split: sum.splits)
  show ?thesis
  proof (cases ?pre)
    case (Inl x)
    with pre show ?thesis by (auto simp: validate_next_def)
  next
    case (Inr m1)
    with pre obtain j rs' where m1: "folded_upto j rs' m1" "sm_log m1 = sm_log m" "sm_base m1 = sm_base m"
      by auto
    have "folded_upto j rs' (m1\<lparr>sm_pending_event := ev, sm_pending_plan := plan\<rparr>)"
      if "plan_surface_event (sm_state m1) ev (sm_base m1 + int (length (sm_log m1))) (sm_log m1) (sm_base m1)
        = Inr plan" for plan
      using m1 that by (auto simp: folded_upto_def dest: plan_seq)
    with Inr m1 show ?thesis by (auto simp: validate_next_def split: sum.splits)
  qed
qed

section \<open>Reachable managers\<close>

text \<open>Everything the exported operations can leave behind, errors included.\<close>

inductive manager_reachable :: "session_envelope option list \<Rightarrow> int \<Rightarrow> surface_manager \<Rightarrow> bool"
  for log :: "session_envelope option list" and base :: int where
  created: "manager_reachable log base (new_surface_manager log base)"
| read: "manager_reachable log base m \<Longrightarrow> process_delta m = Inr m' \<Longrightarrow> manager_reachable log base m'"
| read_failed: "manager_reachable log base m \<Longrightarrow> process_delta m = Inl (e, m') \<Longrightarrow>
     manager_reachable log base m'"
| validated: "manager_reachable log base m \<Longrightarrow> validate_next m ev = Inr m' \<Longrightarrow>
     manager_reachable log base m'"
| rejected: "manager_reachable log base m \<Longrightarrow> validate_next m ev = Inl (e, m') \<Longrightarrow>
     manager_reachable log base m'"

lemma manager_reachable_folded:
  "manager_reachable log base m \<Longrightarrow>
     (\<exists>k rs. folded_upto k rs m) \<and> sm_log m = log \<and> sm_base m = base"
proof (induction rule: manager_reachable.induct)
  case created
  show ?case using folded_upto_new by (auto simp: new_surface_manager_def)
next
  case (read m m')
  then obtain k rs where "folded_upto k rs m" by blast
  from process_delta_folded [OF this] read show ?case by (auto split: sum.splits)
next
  case (read_failed m e m')
  then obtain k rs where "folded_upto k rs m" by blast
  from process_delta_folded [OF this] read_failed show ?case by (auto split: sum.splits)
next
  case (validated m ev m')
  then obtain k rs where "folded_upto k rs m" by blast
  from validate_next_folded [OF this, of ev] validated show ?case by auto
next
  case (rejected m ev e m')
  then obtain k rs where "folded_upto k rs m" by blast
  from validate_next_folded [OF this, of ev] rejected show ?case by auto
qed

lemma manager_answers:
  assumes "manager_reachable log base m"
  shows "map_sum fst fst (manager_nodes m) = map_sum id fo_nodes (fold_surface log base)"
    and "map_sum fst fst (manager_generation m) = map_sum id fo_generation (fold_surface log base)"
proof -
  from manager_reachable_folded [OF assms] obtain k rs where f: "folded_upto k rs m"
    and m: "sm_log m = log" "sm_base m = base" by blast
  from process_delta_folded [OF f] m
  show "map_sum fst fst (manager_nodes m) = map_sum id fo_nodes (fold_surface log base)"
    and "map_sum fst fst (manager_generation m) = map_sum id fo_generation (fold_surface log base)"
    by (auto simp: manager_nodes_def manager_generation_def split: sum.splits)
qed

end
