(* ===== verification/Session_Properties.thy ===== *)
theory Session_Properties imports Session_Manager begin

text \<open>
  What a caller of \<open>pkg/session\<close> may rely on: the surface of a log, the conversation derived
  from it, the incremental manager and the JSON form of a surface operation.  A small log
  with one compaction-like replacement serves as the concrete instance.
\<close>

section \<open>A concrete log\<close>

definition sample_message :: "string \<Rightarrow> string \<Rightarrow> json" where
  "sample_message role tx = JObj [(''role'', JStr role),
     (''content'', JArr [JObj [(''type'', JStr ''text''), (''text'', JStr tx)]])]"

definition sample_user :: "int \<Rightarrow> string \<Rightarrow> session_envelope" where
  "sample_user sq tx = (new_envelope sq 0 EventUserMessage (sample_message ''user'' tx))
     \<lparr>env_surface_op := Some append_surface_op\<rparr>"

definition sample_reply :: "int \<Rightarrow> string \<Rightarrow> session_envelope" where
  "sample_reply sq tx = (new_envelope sq 0 EventAssistantMessage
       (JObj [(''turn'', JInt 1), (''step'', JInt 1), (''message'', sample_message ''assistant'' tx)]))
     \<lparr>env_surface_op := Some append_surface_op\<rparr>"

definition sample_summary :: "int \<Rightarrow> int \<Rightarrow> int \<Rightarrow> int list \<Rightarrow> session_envelope" where
  "sample_summary sq a b ss = (new_envelope sq 0 EventUserMessage (sample_message ''user'' ''sum''))
     \<lparr>env_surface_op := Some (replace_surface_op a b), env_sources := Some ss\<rparr>"

definition sample_log :: "session_envelope list" where
  "sample_log = [new_envelope 0 0 EventTurnStart (JObj []), sample_user 1 ''hi'', sample_reply 2 ''yo'',
     sample_user 3 ''more'', sample_summary 4 1 2 [1, 2]]"

lemma sample_fold:
  "fold_surface (map Some sample_log) 0 = Inr \<lparr>fo_nodes = [4, 3],
     fo_replacements = [\<lparr>fr_seq = 4, fr_start = 1, fr_end = 2, fr_shadowed = [1, 2]\<rparr>], fo_generation = 1\<rparr>"
  by code_simp

lemma sample_derive:
  "derive_messages sample_log = Inr [\<lparr>mm_role = ''user'', mm_content = [text_block ''sum'']\<rparr>,
     \<lparr>mm_role = ''user'', mm_content = [text_block ''more'']\<rparr>]"
  by code_simp

lemma unmarshal_surface_op_object:
  assumes "in_int64 a" and "in_int64 b"
  shows "unmarshal_surface_op (Some (JObj [(''op'', JStr t), (''start'', JInt a), (''end'', JInt b)])) =
    (if t = ''replace'' then Inr \<lparr>so_op = ''replace'', so_start = a, so_end = b\<rparr>
     else Inl (InvalidSurfaceOp t))"
  using assms
  by (simp add: unmarshal_surface_op_def unmarshal_def dec_object_def dec_string_def dec_int_def
      key_matches_def lower_names)

section \<open>Properties\<close>

text \<open>
  C5. Conservation. When a log folds, every surface event of the log is either on the surface
  exactly once or was shadowed by exactly one replacement: the surviving nodes and all shadowed
  nodes together are, as a multiset, the surface events of the log.  The nodes are distinct
  positions of the log and the generation counts the replacements.
\<close>
theorem surface_conservation:
  assumes "fold_surface events base = Inr r"
  shows "mset (fo_nodes r) + shadowed_mset (fo_replacements r) = mset (surface_seqs events) \<and>
    distinct (fo_nodes r) \<and> set (fo_nodes r) \<subseteq> {base..<base + int (length events)} \<and>
    fo_generation r = length (fo_replacements r)"
proof -
  obtain st where st: "fo_nodes r = sf_nodes st" "fo_generation r = sf_generation st"
    and inv: "fold_inv events base (length events) st (fo_replacements r)"
    using fold_surface_invD [OF assms] by metis
  have "set (sf_nodes st) \<subseteq> {base..<base + int (length events)}"
    using fold_inv_nodes(2) [OF inv] by fastforce
  with st inv fold_inv_nodes(1) [OF inv] show ?thesis by (simp add: fold_inv_def)
qed

lemma surface_conservation_witness:
  "fold_surface (map Some sample_log) 0 = Inr \<lparr>fo_nodes = [4, 3],
     fo_replacements = [\<lparr>fr_seq = 4, fr_start = 1, fr_end = 2, fr_shadowed = [1, 2]\<rparr>], fo_generation = 1\<rparr>
   \<and> mset [4, 3] + {#1, 2#} = mset (surface_seqs (map Some sample_log))"
  using surface_conservation [OF sample_fold] sample_fold by (simp add: shadowed_mset_def)

text \<open>
  C16. The planner with its index arithmetic implements the declarative step: on a surface
  without duplicates, applying the event expected next succeeds exactly when the surface step
  relation admits it, with the same new surface and the same replacement record.
\<close>
theorem apply_surface_event_refines:
  assumes "distinct (sf_nodes st)"
  shows "apply_surface_event st p expected events base = Inr (st', r) \<longleftrightarrow>
    (\<exists>e. p = Some e \<and> env_seq e = expected \<and> surface_step events base st e st' r)"
  using apply_surface_event_sound apply_surface_event_complete [OF _ assms] by blast

lemma apply_surface_event_refines_witness:
  "surface_step (map Some sample_log) 0 \<lparr>sf_nodes = [1, 2, 3], sf_generation = 0\<rparr>
     (sample_summary 4 1 2 [1, 2]) \<lparr>sf_nodes = [4, 3], sf_generation = 1\<rparr>
     (Some \<lparr>fr_seq = 4, fr_start = 1, fr_end = 2, fr_shadowed = [1, 2]\<rparr>)"
proof -
  have "apply_surface_event \<lparr>sf_nodes = [1, 2, 3], sf_generation = 0\<rparr>
     (Some (sample_summary 4 1 2 [1, 2])) 4 (map Some sample_log) 0 =
     Inr (\<lparr>sf_nodes = [4, 3], sf_generation = 1\<rparr>,
       Some \<lparr>fr_seq = 4, fr_start = 1, fr_end = 2, fr_shadowed = [1, 2]\<rparr>)" by code_simp
  then show ?thesis by (subst (asm) apply_surface_event_refines) auto
qed

text \<open>
  C38. Folding a log of envelopes and deriving the model's messages from it never index outside
  the slice and never dereference nil, whatever the log: a malformed log is an error value.
\<close>
theorem surface_no_panic:
  "fold_surface (map Some es) base \<noteq> Inl GoPanic \<and> derive_messages es \<noteq> Inl GoPanic"
proof
  show "fold_surface (map Some es) base \<noteq> Inl GoPanic" by (rule fold_surface_no_panic)
  show "derive_messages es \<noteq> Inl GoPanic"
  proof
    assume "derive_messages es = Inl GoPanic"
    then obtain r where r: "fold_surface (map Some es) 0 = Inr r"
      and panic: "collect_messages es (fo_nodes r) = Inl GoPanic"
      using fold_surface_no_panic assert_events_supported_no_panic
      by (fastforce simp: derive_messages_def and_then_Inl_iff)
    from fold_surface_node_range [OF r]
    have "\<forall>s\<in>set (fo_nodes r). 0 \<le> s \<and> s < int (length es)" by fastforce
    with collect_messages_no_panic panic show False by blast
  qed
qed

text \<open>
  The conversation grows at its end: appending one admissible surface event leaves every
  derived message in place and adds the message the event projects to, when it has one.
\<close>
theorem derive_messages_append:
  assumes "derive_messages es = Inr ms" and "env_seq e = int (length es)"
    and "env_type e \<in> set surface_event_types"
    and "env_surface_op e = Some append_surface_op" and "valid_sources e"
    and "project_event_message e = Inr m"
  shows "derive_messages (es @ [e]) = Inr (ms @ (case m of None \<Rightarrow> [] | Some msg \<Rightarrow> [msg]))"
  by (rule derive_messages_snoc) (use assms in \<open>auto simp: surface_event_types_def\<close>)

lemma derive_messages_append_witness:
  "derive_messages (sample_log @ [sample_user 5 ''new'']) =
     Inr [\<lparr>mm_role = ''user'', mm_content = [text_block ''sum'']\<rparr>,
       \<lparr>mm_role = ''user'', mm_content = [text_block ''more'']\<rparr>,
       \<lparr>mm_role = ''user'', mm_content = [text_block ''new'']\<rparr>]"
proof -
  have e: "env_seq (sample_user 5 ''new'') = int (length sample_log)"
    "env_type (sample_user 5 ''new'') \<in> set surface_event_types"
    "env_surface_op (sample_user 5 ''new'') = Some append_surface_op"
    "valid_sources (sample_user 5 ''new'')"
    by (simp_all add: sample_user_def sample_log_def new_envelope_def surface_event_types_def
        valid_sources_def source_seqs_def)
  have "project_event_message (sample_user 5 ''new'') =
    Inr (Some \<lparr>mm_role = ''user'', mm_content = [text_block ''new'']\<rparr>)" by code_simp
  from derive_messages_append [OF sample_derive e this] show ?thesis by simp
qed

text \<open>
  Whatever sequence of reads, failed reads and validations a surface manager has been
  through, its nodes and its generation are those of a full replay of the log, and it
  reports the error of the replay when the log does not fold.
\<close>
theorem manager_replays:
  assumes "manager_reachable log base m"
  shows "map_sum fst fst (manager_nodes m) = map_sum id fo_nodes (fold_surface log base) \<and>
    map_sum fst fst (manager_generation m) = map_sum id fo_generation (fold_surface log base)"
  using manager_answers [OF assms] by blast

lemma manager_replays_witness:
  "map_sum fst fst (manager_nodes (new_surface_manager (map Some sample_log) 0)) = Inr [4, 3]"
  using manager_replays [OF manager_reachable.created, of "map Some sample_log" 0]
  by (simp add: sample_fold)

text \<open>
  The replay guard stops at the first event whose type this build does not know and that
  is not marked ignorable, and names it; without such an event it lets the log through.
\<close>
theorem unsupported_event_refused:
  "case assert_events_supported es of
     Inr _ \<Rightarrow> \<forall>e\<in>set es. is_known_event_type (env_type e) \<or> env_ignorable e
   | Inl err \<Rightarrow> \<exists>es1 e es2. es = es1 @ e # es2 \<and> assert_events_supported es1 = Inr () \<and>
       \<not> is_known_event_type (env_type e) \<and> \<not> env_ignorable e \<and>
       err = UnsupportedEvent (env_type e) (env_seq e)"
  using assert_events_supported_error [of es] assert_events_supported_ok_iff [of es]
  by (cases "assert_events_supported es") auto

lemma unsupported_event_refused_witness:
  "\<exists>es1 e es2. [sample_user 0 ''a'', new_envelope 1 0 ''x/y'' JNull] = es1 @ e # es2 \<and>
     assert_events_supported es1 = Inr () \<and> \<not> is_known_event_type (env_type e) \<and>
     \<not> env_ignorable e \<and> UnsupportedEvent ''x/y'' 1 = UnsupportedEvent (env_type e) (env_seq e)"
proof -
  have "assert_events_supported [sample_user 0 ''a'', new_envelope 1 0 ''x/y'' JNull] =
    Inl (UnsupportedEvent ''x/y'' 1)" by code_simp
  with unsupported_event_refused [of "[sample_user 0 ''a'', new_envelope 1 0 ''x/y'' JNull]"]
  show ?thesis by simp
qed

text \<open>
  A surface operation survives its JSON form: what \<open>MarshalJSON\<close> writes for an append or
  for a replacement of in-range positions, \<open>UnmarshalJSON\<close> reads back as an operation with
  the same meaning, and an operation with another tag is refused by both.
\<close>
theorem surface_op_roundtrip:
  assumes "in_int64 (so_start op)" and "in_int64 (so_end op)"
  shows "case marshal_surface_op op of
      Inr j \<Rightarrow> \<exists>op'. unmarshal_surface_op (Some j) = Inr op' \<and> is_append op' = is_append op \<and>
        (\<not> is_append op \<longrightarrow> op' = op)
    | Inl e \<Rightarrow> e = InvalidSurfaceOp (so_op op) \<and>
        unmarshal_surface_op (Some (JObj [(''op'', JStr (so_op op)), (''start'', JInt (so_start op)),
          (''end'', JInt (so_end op))])) = Inl e"
proof (cases "so_op op = ''append''")
  case True
  then show ?thesis
    by (simp add: marshal_surface_op_def unmarshal_surface_op_def is_append_def append_surface_op_def)
next
  case False
  with assms show ?thesis
    by (simp add: unmarshal_surface_op_object marshal_surface_op_def is_append_def)
qed

lemma surface_op_roundtrip_witness:
  "\<exists>op'. unmarshal_surface_op (Some (JObj [(''op'', JStr ''replace''), (''start'', JInt 3), (''end'', JInt 7)]))
     = Inr op' \<and> op' = replace_surface_op 3 7"
  using surface_op_roundtrip [of "replace_surface_op 3 7"]
  by (simp add: in_int64_def replace_surface_op_def marshal_surface_op_def is_append_def)

end
