(* ===== verification/Source_Codec.thy ===== *)
theory Source_Codec imports Session_Events "HOL-Library.Word" begin

unbundle bit_operations_syntax

text \<open>
  The blob codec of \<open>sourceEventSeqs\<close> in the SQLite store (\<open>pkg/storage/store_sqlite.go\<close>):
  zig-zag deltas written as little-endian base-128 varints.  Bytes are \<open>8 word\<close>, the unsigned
  arithmetic is on \<open>64 word\<close>, the signed sums wrap at 64 bits.  The reader works on the bytes
  from its offset on.
\<close>

datatype codec_error = NegativeSeq | NonCanonicalVarint | VarintOutOfRange | TruncatedVarint | SeqOutOfRange

definition max_safe_integer :: int where "max_safe_integer = 9007199254740991"
definition max_zigzag_integer :: "64 word" where "max_zigzag_integer = 18014398509481982"

lemma drop_bit_less: "128 \<le> (v :: 64 word) \<Longrightarrow> unat (drop_bit 7 v) < unat v"
proof -
  assume "128 \<le> v"
  then have "0 < unat v" by (simp add: word_le_nat_alt)
  then have "unat v div 128 < unat v" by simp
  then show ?thesis by (simp only: unat_drop_bit_eq) (simp add: drop_bit_eq_div)
qed

function append_varint :: "64 word \<Rightarrow> 8 word list" where
  "append_varint v =
     (if 128 \<le> v then (ucast (v AND 127) OR 128) # append_varint (drop_bit 7 v) else [ucast v])"
  by pat_completeness auto
termination
  by (relation "measure unat") (simp_all add: drop_bit_less)

declare append_varint.simps [simp del]

text \<open>The loop of \<open>encodeSourceEventSeqs\<close>; a negative value panics.\<close>

fun encode_loop :: "bool \<Rightarrow> 64 word \<Rightarrow> int list \<Rightarrow> codec_error + 8 word list" where
  "encode_loop first previous [] = Inr []"
| "encode_loop first previous (v # vs) =
     (if v < 0 then Inl NegativeSeq
      else (let value = (word_of_int v :: 64 word);
                encoded = (if first then value
                           else if previous \<le> value then (value - previous) * 2
                           else (previous - value) * 2 - 1)
            in and_then (encode_loop False value vs) (\<lambda>rest. Inr (append_varint encoded @ rest))))"

definition encode_source_event_seqs :: "int list \<Rightarrow> codec_error + 8 word list" where
  "encode_source_event_seqs values = encode_loop True 0 values"

text \<open>\<open>readVarint\<close>: the value read and the bytes that follow it.\<close>

fun read_loop :: "64 word \<Rightarrow> nat \<Rightarrow> 64 word \<Rightarrow> 8 word list \<Rightarrow> codec_error + 64 word \<times> 8 word list" where
  "read_loop limit shift value [] = Inl TruncatedVarint"
| "read_loop limit shift value (b # bs) =
     (let value' = value OR push_bit shift (ucast (b AND 127))
      in if b AND 128 = 0 then
           (if 0 < shift \<and> b AND 127 = 0 then Inl NonCanonicalVarint
            else if limit < value' then Inl VarintOutOfRange
            else Inr (value', bs))
         else if 56 < shift + 7 then Inl VarintOutOfRange
         else read_loop limit (shift + 7) value' bs)"

definition read_varint :: "bool \<Rightarrow> 8 word list \<Rightarrow> codec_error + 64 word \<times> 8 word list" where
  "read_varint first bs =
     read_loop (if first then word_of_int max_safe_integer else max_zigzag_integer) 0 0 bs"

lemma read_loop_shorter: "read_loop limit shift acc bs = Inr (v, rest) \<Longrightarrow> length rest < length bs"
  by (induction limit shift acc bs rule: read_loop.induct)
    (auto simp: Let_def less_SucI split: if_splits)

lemma read_varint_shorter: "read_varint first bs = Inr (v, rest) \<Longrightarrow> length rest < length bs"
  unfolding read_varint_def by (rule read_loop_shorter)

text \<open>The signed delta and the next value of \<open>decodeSourceEventSeqs\<close>.\<close>

definition decode_delta :: "bool \<Rightarrow> 64 word \<Rightarrow> int" where
  "decode_delta first decoded =
     (if first then sint decoded
      else if decoded AND 1 = 0 then sint (decoded div 2)
      else - sint ((decoded + 1) div 2))"

function decode_loop :: "bool \<Rightarrow> int \<Rightarrow> 8 word list \<Rightarrow> codec_error + int list" where
  "decode_loop first prev bs =
     (if bs = [] then Inr []
      else (case read_varint first bs of
              Inl e \<Rightarrow> Inl e
            | Inr (decoded, rest) \<Rightarrow>
                (let value = wrap64 (prev + decode_delta first decoded)
                 in if value < 0 \<or> max_safe_integer < value then Inl SeqOutOfRange
                    else and_then (decode_loop False value rest) (\<lambda>vs. Inr (value # vs)))))"
  by pat_completeness auto
termination
  by (relation "measure (\<lambda>(_, _, bs). length bs)") (auto dest: read_varint_shorter)

declare decode_loop.simps [simp del]

definition decode_source_event_seqs :: "8 word list \<Rightarrow> codec_error + int list" where
  "decode_source_event_seqs raw = decode_loop True 0 raw"

section \<open>One varint\<close>

lemma b127: "(127 :: 'a :: len word) = mask 7" by (simp add: mask_eq_exp_minus_1)

lemma bit128 [simp]: "bit (128 :: 'a :: len word) n \<longleftrightarrow> n = 7 \<and> 7 < LENGTH('a)"
proof -
  have "(128 :: 'a word) = 2 ^ 7" by simp
  then show ?thesis by (simp only: bit_exp_iff) (auto simp: possible_bit_word)
qed

lemma bit128_nat [simp]: "bit (128 :: nat) n \<longleftrightarrow> n = 7" "bit (128 :: int) n \<longleftrightarrow> n = 7"
  using bit_exp_iff [where 'a = nat, of 7 n] bit_exp_iff [where 'a = int, of 7 n]
  by (auto simp: possible_bit_def)

lemma low_byte: "ucast ((ucast (v AND 127) OR 128) AND (127 :: 8 word)) = (v AND 127 :: 64 word)"
  unfolding b127 by (intro bit_eqI) (auto simp: bit_simps)

lemma high_bit: "(ucast (v :: 64 word) OR 128) AND (128 :: 8 word) \<noteq> 0"
proof
  assume "(ucast v OR 128) AND (128 :: 8 word) = 0"
  then have "bit ((ucast v OR 128) AND (128 :: 8 word)) 7 = bit (0 :: 8 word) 7" by simp
  then show False by (simp add: bit_simps)
qed

lemma small_bits: "(v :: 64 word) < 128 \<Longrightarrow> bit v n \<Longrightarrow> n < 7"
proof (rule ccontr)
  assume v: "v < 128" and b: "bit v n" and n: "\<not> n < 7"
  have "unat v < 2 ^ 7" using v by (simp add: word_less_nat_alt)
  then have "take_bit 7 v = v" by (simp add: unsigned_take_bit_eq take_bit_nat_eq_self word_unat_eq_iff)
  with b have "bit (take_bit 7 v) n" by simp
  with n show False by (simp add: bit_take_bit_iff)
qed

lemma small_byte:
  assumes "(v :: 64 word) < 128"
  shows "(ucast v :: 8 word) AND 128 = 0" and "ucast ((ucast v :: 8 word) AND 127) = v"
    and "(ucast v :: 8 word) AND 127 = 0 \<longleftrightarrow> v = 0"
proof -
  note hi = small_bits [OF assms]
  show "(ucast v :: 8 word) AND 128 = 0" by (intro bit_eqI) (auto simp: bit_simps dest: hi)
  show u: "ucast ((ucast v :: 8 word) AND 127) = v"
    unfolding b127 by (intro bit_eqI) (auto simp: bit_simps dest: hi)
  then show "(ucast v :: 8 word) AND 127 = 0 \<longleftrightarrow> v = 0" by auto
qed

lemma push_split:
  "push_bit s (v AND 127) OR push_bit (s + 7) (drop_bit 7 v) = push_bit s (v :: 64 word)"
proof (intro bit_eqI)
  fix n
  show "bit (push_bit s (v AND 127) OR push_bit (s + 7) (drop_bit 7 v)) n = bit (push_bit s v) n"
    unfolding b127 by (cases "n < s + 7") (auto simp: bit_simps)
qed

lemma drop_unat: "unat (drop_bit 7 (v :: 64 word)) = unat v div 128"
  by (simp only: unat_drop_bit_eq) (simp add: drop_bit_eq_div)

lemma numeral_pow_128: "(2 :: nat) ^ 7 = 128" by simp

lemma read_append:
  assumes "unat v < 2 ^ (56 - shift)" and "shift \<le> 56" and "0 < shift \<longrightarrow> v \<noteq> 0"
    and "acc OR push_bit shift v \<le> limit"
  shows "read_loop limit shift acc (append_varint v @ rest) = Inr (acc OR push_bit shift v, rest)"
  using assms
proof (induction v arbitrary: shift acc rule: append_varint.induct)
  case (1 v)
  show ?case
  proof (cases "128 \<le> v")
    case False
    then have v: "v < 128" by simp
    have "append_varint v = [ucast v]" using False by (subst append_varint.simps) simp
    with small_byte [OF v] 1 False show ?thesis
      by (cases "shift = 0") (auto simp: Let_def dest: leD)
  next
    case True
    then have u: "128 \<le> unat v" by (simp add: word_le_nat_alt)
    have s: "shift + 7 < 56"
    proof (rule ccontr)
      assume "\<not> shift + 7 < 56"
      then have "(2 :: nat) ^ (56 - shift) \<le> 2 ^ 7" by (intro power_increasing) auto
      with u 1 show False by simp
    qed
    then have "56 - shift = 7 + (56 - (shift + 7))" by simp
    with 1 have "unat v < 128 * 2 ^ (56 - (shift + 7))" by (metis power_add numeral_pow_128)
    then have d: "unat (drop_bit 7 v) < 2 ^ (56 - (shift + 7))"
      unfolding drop_unat by (simp add: less_mult_imp_div_less mult.commute)
    have n0: "drop_bit 7 v \<noteq> 0"
    proof
      assume "drop_bit 7 v = 0"
      then have "unat v div 128 = 0" using drop_unat [of v] by simp
      with u show False by simp
    qed
    have eq: "(acc OR push_bit shift (v AND 127)) OR push_bit (shift + 7) (drop_bit 7 v) = acc OR push_bit shift v"
      by (simp only: or.assoc push_split)
    have app: "append_varint v = (ucast (v AND 127) OR 128) # append_varint (drop_bit 7 v)"
      using True by (subst append_varint.simps) simp
    show ?thesis
      using 1(1) [OF True d, of "acc OR push_bit shift (v AND 127)"] s n0 1(5) high_bit [of v]
      unfolding app eq append_Cons read_loop.simps low_byte by (simp add: Let_def)
  qed
qed

lemma byte_split:
  assumes "(b :: 8 word) AND 128 \<noteq> 0"
  shows "b = (b AND 127) OR 128"
proof -
  have "bit b 7"
  proof (rule ccontr)
    assume "\<not> bit b 7"
    then have "b AND 128 = 0" by (intro bit_eqI) (auto simp: bit_simps)
    with assms show False by simp
  qed
  then show ?thesis unfolding b127 by (intro bit_eqI) (auto simp: bit_simps less_Suc_eq numeral_eq_Suc)
qed

lemma byte_low:
  assumes "(b :: 8 word) AND 128 = 0"
  shows "ucast (b AND 127) < (128 :: 64 word)" and "ucast (ucast (b AND 127) :: 64 word) = b"
proof -
  have "\<not> bit b 7"
  proof
    assume "bit b 7"
    then have "bit (b AND 128) 7" by (simp add: bit_simps)
    with assms show False by simp
  qed
  then show "ucast (ucast (b AND 127) :: 64 word) = b"
    unfolding b127 by (intro bit_eqI) (auto simp: bit_simps less_Suc_eq numeral_eq_Suc)
  have "unat (b AND 127) < 2 ^ 7" unfolding b127
    using take_bit_nat_less_exp [of 7 "unat b"] by (simp add: unsigned_take_bit_eq flip: take_bit_eq_mask)
  then show "ucast (b AND 127) < (128 :: 64 word)" by (simp add: word_less_nat_alt unsigned_ucast_eq take_bit_nat_eq_self)
qed

lemma ucast_up_down: "ucast (ucast (b :: 8 word) :: 64 word) = b"
  by (intro bit_eqI) (auto simp: bit_simps)

lemma read_canonical:
  assumes "read_loop limit shift acc bs = Inr (w, rest)" and "shift \<le> 56"
  shows "\<exists>v. bs = append_varint v @ rest \<and> w = acc OR push_bit shift v \<and> (0 < shift \<longrightarrow> v \<noteq> 0) \<and>
    unat v < 2 ^ (63 - shift) \<and> w \<le> limit"
  using assms
proof (induction bs arbitrary: shift acc)
  case (Cons b bs)
  show ?case
  proof (cases "b AND 128 = 0")
    case True
    let ?v = "ucast (b AND 127) :: 64 word"
    note low = byte_low [OF True]
    have "\<not> 128 \<le> ?v" using low(1) by (simp only: not_le)
    then have "append_varint ?v = [b]" using low(2) by (subst append_varint.simps) simp
    moreover have "(2 :: nat) ^ 7 \<le> 2 ^ (63 - shift)" using Cons.prems(2) by (intro power_increasing) auto
    then have "unat ?v < 2 ^ (63 - shift)" using low(1) by (simp add: word_less_nat_alt)
    moreover have "0 < shift \<longrightarrow> ?v \<noteq> 0"
      using Cons.prems(1) True low(2) by (auto simp: Let_def split: if_splits)
    ultimately show ?thesis using Cons.prems(1) True
      by (intro exI [of _ ?v]) (auto simp: Let_def split: if_splits)
  next
    case False
    let ?low = "ucast (b AND 127) :: 64 word"
    from Cons.prems(1) False have s: "shift + 7 \<le> 56"
      and rd: "read_loop limit (shift + 7) (acc OR push_bit shift ?low) bs = Inr (w, rest)"
      by (auto simp: Let_def split: if_splits)
    from Cons.IH [OF rd s] obtain v' where v': "bs = append_varint v' @ rest"
      "w = (acc OR push_bit shift ?low) OR push_bit (shift + 7) v'" "v' \<noteq> 0"
      "unat v' < 2 ^ (63 - (shift + 7))" "w \<le> limit" by auto
    have small: "n < 57" if "bit v' n" for n
    proof (rule ccontr)
      assume "\<not> n < 57"
      have "(2 :: nat) ^ (63 - (shift + 7)) \<le> 2 ^ 57" by (intro power_increasing) auto
      with v'(4) have "unat v' < 2 ^ 57" by linarith
      then have "take_bit 57 v' = v'" by (simp add: unsigned_take_bit_eq take_bit_nat_eq_self word_unat_eq_iff)
      with that have "bit (take_bit 57 v') n" by simp
      with \<open>\<not> n < 57\<close> show False by (simp add: bit_take_bit_iff)
    qed
    let ?v = "?low OR push_bit 7 v'"
    have drop: "drop_bit 7 ?v = v'"
      unfolding b127 by (intro bit_eqI) (auto simp: bit_simps dest: small)
    have mask: "?v AND 127 = ?low"
      unfolding b127 by (intro bit_eqI) (auto simp: bit_simps)
    have du: "unat ?v div 128 = unat v'" using drop_unat [of ?v] drop by simp
    have ge: "128 \<le> ?v"
    proof (rule ccontr)
      assume "\<not> 128 \<le> ?v"
      then have "unat ?v < 128" by (simp add: word_le_nat_alt)
      with du have "unat v' = 0" by simp
      with v'(3) show False by (simp add: unat_eq_zero)
    qed
    have "append_varint ?v = (ucast (?v AND 127) OR 128) # append_varint v'"
      using ge drop by (subst append_varint.simps) simp
    also have "ucast (?v AND 127) OR 128 = b"
      unfolding mask ucast_up_down using byte_split [OF False] by simp
    finally have "b # bs = append_varint ?v @ rest" using v'(1) by simp
    moreover have "acc OR push_bit shift ?v = w"
      unfolding v'(2) using push_split [of shift ?v] unfolding drop mask by (simp only: or.assoc)
    moreover have "unat ?v < 2 ^ (63 - shift)"
    proof -
      have "63 - shift = 7 + (63 - (shift + 7))" using s by simp
      then have "(2 :: nat) ^ (63 - shift) = 128 * 2 ^ (63 - (shift + 7))"
        by (metis power_add numeral_pow_128)
      moreover have "n < 128 * Suc (n div 128)" for n :: nat by simp
      from this [of "unat ?v"] have "unat ?v < 128 * Suc (unat v')" unfolding du .
      moreover have "128 * Suc (unat v') \<le> 128 * 2 ^ (63 - (shift + 7))"
        using v'(4) by (intro mult_le_mono2 Suc_leI)
      ultimately show ?thesis by linarith
    qed
    moreover have "?v \<noteq> 0" using ge by auto
    ultimately show ?thesis using v'(5) by blast
  qed
qed simp

section \<open>One value: the zig-zag delta\<close>

definition encoded_delta :: "bool \<Rightarrow> int \<Rightarrow> int \<Rightarrow> 64 word" where
  "encoded_delta first p v = word_of_int (if first then v else if p \<le> v then 2 * (v - p) else 2 * (p - v) - 1)"

definition seq_limit :: "bool \<Rightarrow> 64 word" where
  "seq_limit first = (if first then word_of_int max_safe_integer else max_zigzag_integer)"

definition seq_ok :: "int \<Rightarrow> bool" where
  "seq_ok v \<longleftrightarrow> 0 \<le> v \<and> v \<le> max_safe_integer"

lemma uint_of_int: "0 \<le> i \<Longrightarrow> i < 2 ^ 64 \<Longrightarrow> uint (word_of_int i :: 64 word) = i"
  by (simp add: unsigned_of_int take_bit_int_eq_self)

lemma encode_loop_Cons:
  assumes "seq_ok p" and "seq_ok v"
  shows "encode_loop first (word_of_int p) (v # vs) =
    and_then (encode_loop False (word_of_int v) vs) (\<lambda>rest. Inr (append_varint (encoded_delta first p v) @ rest))"
proof -
  have "uint (word_of_int p :: 64 word) = p" "uint (word_of_int v :: 64 word) = v"
    using assms by (auto simp: seq_ok_def max_safe_integer_def intro!: uint_of_int)
  then have "(word_of_int p :: 64 word) \<le> word_of_int v \<longleftrightarrow> p \<le> v"
    by (simp add: word_le_def)
  with assms show ?thesis
    by (simp add: encoded_delta_def seq_ok_def Let_def mult.commute)
qed

lemma uint_encoded_delta:
  assumes "seq_ok p" and "seq_ok v"
  shows "uint (encoded_delta first p v) =
    (if first then v else if p \<le> v then 2 * (v - p) else 2 * (p - v) - 1)"
  unfolding encoded_delta_def by (rule uint_of_int) (use assms in \<open>auto simp: seq_ok_def max_safe_integer_def\<close>)

lemma decode_delta_uint:
  assumes "uint e \<le> 18014398509481982"
  shows "decode_delta first e = (if first then uint e else if even (uint e) then uint e div 2
    else - ((uint e + 1) div 2))"
proof -
  have sint: "sint w = uint w" if "uint w < 2 ^ 63" for w :: "64 word"
  proof -
    have "signed_take_bit 63 (uint w) = uint w"
      by (rule signed_take_bit_int_eq_self) (use that in \<open>auto intro: order_trans [of _ 0]\<close>)
    then show ?thesis by (simp add: sint_uint)
  qed
  have par: "e AND 1 = 0 \<longleftrightarrow> even (uint e)"
    by (simp add: and_one_eq word_uint_eq_iff uint_mod even_iff_mod_2_eq_zero)
  have plus: "uint (e + 1) = uint e + 1"
    using assms by (simp add: uint_word_ariths)
  show ?thesis using assms by (simp add: decode_delta_def par sint uint_div plus)
qed

lemma encoded_delta_limit:
  "seq_ok p \<Longrightarrow> seq_ok v \<Longrightarrow> encoded_delta first p v \<le> seq_limit first"
  by (simp add: word_le_def uint_encoded_delta seq_limit_def max_zigzag_integer_def uint_of_int)
    (auto simp: seq_ok_def max_safe_integer_def)

lemma decode_encoded:
  assumes "seq_ok p" and "seq_ok v" and "first \<longrightarrow> p = 0"
  shows "wrap64 (p + decode_delta first (encoded_delta first p v)) = v"
proof -
  have "uint (encoded_delta first p v) \<le> 18014398509481982"
    using assms by (auto simp: uint_encoded_delta seq_ok_def max_safe_integer_def)
  note d = decode_delta_uint [OF this]
  have "decode_delta first (encoded_delta first p v) = v - p"
    using assms(3) unfolding d uint_encoded_delta [OF assms(1,2)] by auto
  with assms show ?thesis by (simp add: wrap64_id in_int64_def seq_ok_def max_safe_integer_def)
qed

lemma encoded_decode:
  assumes "seq_ok p" and "e \<le> seq_limit first" and "first \<longrightarrow> p = 0"
    and "v = wrap64 (p + decode_delta first e)" and "seq_ok v"
  shows "encoded_delta first p v = e"
proof -
  have le: "uint e \<le> 18014398509481982"
    using assms(2) by (auto simp: seq_limit_def word_le_def max_zigzag_integer_def max_safe_integer_def
        uint_of_int split: if_splits)
  note d = decode_delta_uint [OF this]
  have "in_int64 (p + decode_delta first e)"
  proof -
    have nn: "0 \<le> uint e" by simp
    then have "0 \<le> uint e div 2" "uint e div 2 \<le> 9007199254740991" "(uint e + 1) div 2 \<le> 9007199254740991"
      "0 \<le> (uint e + 1) div 2" using le by simp_all
    then have "\<bar>decode_delta first e\<bar> \<le> 18014398509481982" using le nn unfolding d
      by (simp only: split: if_splits) linarith
    with assms(1) show ?thesis
      unfolding seq_ok_def max_safe_integer_def in_int64_def by (simp add: abs_le_iff)
  qed
  with assms(4) have v: "v = p + decode_delta first e" by (simp add: wrap64_id)
  have "uint (encoded_delta first p v) = uint e"
    unfolding uint_encoded_delta [OF assms(1,5)] using v assms(3) unfolding d
    by (auto split: if_splits) presburger+
  then show ?thesis by (simp add: word_uint_eq_iff)
qed

section \<open>Whole lists\<close>

lemma read_encoded:
  assumes "seq_ok p" and "seq_ok v"
  shows "read_varint first (append_varint (encoded_delta first p v) @ rest) =
    Inr (encoded_delta first p v, rest)"
proof -
  have "uint (encoded_delta first p v) < 2 ^ 56"
    using assms by (auto simp: uint_encoded_delta seq_ok_def max_safe_integer_def)
  then have "int (unat (encoded_delta first p v)) < int (2 ^ (56 - 0))" by simp
  then have u: "unat (encoded_delta first p v) < 2 ^ (56 - 0)" by (simp only: of_nat_less_iff)
  have "0 OR push_bit 0 (encoded_delta first p v) = encoded_delta first p v" by simp
  with read_append [OF u, of 0 "seq_limit first" rest] encoded_delta_limit [OF assms]
  have "read_loop (seq_limit first) 0 0 (append_varint (encoded_delta first p v) @ rest) =
      Inr (encoded_delta first p v, rest)"
    by (simp only: le0 less_irrefl simp_thms)
  then show ?thesis unfolding read_varint_def seq_limit_def .
qed

lemma decode_encode_loop:
  assumes "seq_ok p" and "first \<longrightarrow> p = 0" and "\<forall>v\<in>set vs. seq_ok v"
  shows "\<exists>bs. encode_loop first (word_of_int p) vs = Inr bs \<and> decode_loop first p bs = Inr vs"
  using assms
proof (induction vs arbitrary: p first)
  case Nil
  then show ?case by (simp add: decode_loop.simps)
next
  case (Cons v vs)
  then have v: "seq_ok v" by simp
  from Cons.IH [of v False] Cons.prems obtain bs where
    bs: "encode_loop False (word_of_int v) vs = Inr bs" "decode_loop False v bs = Inr vs" by auto
  let ?e = "encoded_delta first p v"
  have ne: "append_varint ?e @ bs \<noteq> []" by (subst append_varint.simps) simp
  have "decode_loop first p (append_varint ?e @ bs) = Inr (v # vs)"
    using read_encoded [OF Cons.prems(1) v, of first bs] decode_encoded [OF Cons.prems(1) v Cons.prems(2)]
      ne bs(2) v by (subst decode_loop.simps) (simp add: Let_def seq_ok_def)
  with encode_loop_Cons [OF Cons.prems(1) v] bs(1) show ?case by simp
qed

lemma encode_decode_loop:
  assumes "decode_loop first p bs = Inr vs" and "seq_ok p" and "first \<longrightarrow> p = 0"
  shows "encode_loop first (word_of_int p) vs = Inr bs \<and> (\<forall>v\<in>set vs. seq_ok v)"
  using assms
proof (induction first p bs arbitrary: vs rule: decode_loop.induct)
  case (1 first prev bs)
  show ?case
  proof (cases "bs = []")
    case True
    with 1 show ?thesis by (simp add: decode_loop.simps)
  next
    case False
    from 1(2) False obtain e rest where rd: "read_varint first bs = Inr (e, rest)"
      by (subst (asm) decode_loop.simps) (auto split: sum.splits)
    let ?v = "wrap64 (prev + decode_delta first e)"
    from 1(2) False rd obtain ws where v: "seq_ok ?v" and ws: "decode_loop False ?v rest = Inr ws" "vs = ?v # ws"
      by (subst (asm) decode_loop.simps) (auto simp: Let_def seq_ok_def and_then_Inr_iff not_less split: if_splits)
    from read_canonical [of "seq_limit first" 0 0 bs e rest] rd
    have e: "bs = append_varint e @ rest" "e \<le> seq_limit first"
      by (auto simp: read_varint_def seq_limit_def)
    have "\<not> (?v < 0 \<or> max_safe_integer < ?v)" using v by (simp add: seq_ok_def)
    from 1(1) [OF False rd refl refl this ws(1) v] have
      "encode_loop False (word_of_int ?v) ws = Inr rest" "\<forall>w\<in>set ws. seq_ok w" by simp_all
    with encode_loop_Cons [OF 1(3) v, of first ws] encoded_decode [OF 1(3) e(2) 1(4) refl v] e(1) ws(2) v
    show ?thesis by simp
  qed
qed

section \<open>Property\<close>

text \<open>
  C35. The codec is a bijection between the lists of seqs up to the largest safe integer and the
  byte strings its decoder accepts: every such list is encoded, and a byte string decodes to a
  list exactly when it is the encoding of that list (no second, overlong form is accepted).
\<close>
theorem source_codec_bijective:
  "((\<forall>v\<in>set vs. 0 \<le> v \<and> v \<le> max_safe_integer) \<longrightarrow> is_ok (encode_source_event_seqs vs)) \<and>
   (decode_source_event_seqs bs = Inr vs \<longleftrightarrow>
      encode_source_event_seqs vs = Inr bs \<and> (\<forall>v\<in>set vs. 0 \<le> v \<and> v \<le> max_safe_integer))"
proof -
  have p: "seq_ok 0" "word_of_int 0 = (0 :: 64 word)" by (simp_all add: seq_ok_def max_safe_integer_def)
  note enc = decode_encode_loop [of 0 True vs, simplified p]
    and dec = encode_decode_loop [of True 0 bs vs, simplified p]
  show ?thesis
    using enc dec unfolding encode_source_event_seqs_def decode_source_event_seqs_def seq_ok_def
    by (auto simp: is_ok_iff)
qed

lemma source_codec_bijective_witness:
  "is_ok (encode_source_event_seqs [300, 7, 8]) \<and> decode_source_event_seqs [172, 2, 201, 4, 2] = Inr [300, 7, 8]"
proof -
  have "encode_source_event_seqs [300, 7, 8] = Inr [172, 2, 201, 4, 2]" by code_simp
  with source_codec_bijective [of "[300, 7, 8]" "[172, 2, 201, 4, 2]"]
  show ?thesis by (simp add: max_safe_integer_def)
qed

end
