(* ===== verification/Token_Meter.thy ===== *)
theory Token_Meter imports Session_Messages begin

text \<open>
  The fixed-density token heuristic (\<open>pkg/llm/tokenmeter.go\<close>): block and message prices and
  the projection of a whole session.  The price of a block of an unknown type is the
  length of its JSON text, so the length of what \<open>json.Marshal\<close> writes for a
  \<open>ContentBlock\<close> is spelled out, escapes included.

  Token counts are \<open>int\<close>; lengths in memory keep them far from 64 bits.  The pressure
  ratio, a \<open>float64\<close> for display, is left out.
\<close>

section \<open>The length of the JSON text of a block\<close>

definition byte_of :: "char \<Rightarrow> nat" where
  "byte_of c = of_char c"

definition cont_byte :: "nat \<Rightarrow> bool" where
  "cont_byte b \<longleftrightarrow> 128 \<le> b \<and> b \<le> 191"

text \<open>Bytes of the valid multi-byte UTF-8 sequence at the head, 1 when it is invalid.\<close>

definition utf8_size :: "nat list \<Rightarrow> nat" where
  "utf8_size bs =
     (if 2 \<le> length bs \<and> 194 \<le> bs ! 0 \<and> bs ! 0 \<le> 223 \<and> cont_byte (bs ! 1) then 2
      else if 3 \<le> length bs \<and> 224 \<le> bs ! 0 \<and> bs ! 0 \<le> 239 \<and> cont_byte (bs ! 1) \<and> cont_byte (bs ! 2) \<and>
        (bs ! 0 = 224 \<longrightarrow> 160 \<le> bs ! 1) \<and> (bs ! 0 = 237 \<longrightarrow> bs ! 1 \<le> 159) then 3
      else if 4 \<le> length bs \<and> 240 \<le> bs ! 0 \<and> bs ! 0 \<le> 244 \<and> cont_byte (bs ! 1) \<and> cont_byte (bs ! 2) \<and>
        cont_byte (bs ! 3) \<and> (bs ! 0 = 240 \<longrightarrow> 144 \<le> bs ! 1) \<and> (bs ! 0 = 244 \<longrightarrow> bs ! 1 \<le> 143) then 4
      else 1)"

lemma utf8_size_pos: "0 < utf8_size bs"
  by (simp add: utf8_size_def)

text \<open>
  The escapes of \<open>encoding/json\<close>: two characters for quote, backslash and the named
  controls, six for other controls, for the HTML characters, for an invalid byte and for
  U+2028 and U+2029.
\<close>

function escaped_len :: "nat list \<Rightarrow> int" where
  "escaped_len [] = 0"
| "escaped_len (b # bs) =
     (if b < 128 then
        (if b = 34 \<or> b = 92 \<or> b = 8 \<or> b = 9 \<or> b = 10 \<or> b = 12 \<or> b = 13 then 2
         else if b < 32 \<or> b = 60 \<or> b = 62 \<or> b = 38 then 6
         else 1) + escaped_len bs
      else if utf8_size (b # bs) = 1 then 6 + escaped_len bs
      else (if take 2 (b # bs) = [226, 128] \<and> utf8_size (b # bs) = 3 \<and> (b # bs) ! 2 \<in> {168, 169} then 6
            else int (utf8_size (b # bs))) + escaped_len (drop (utf8_size (b # bs)) (b # bs)))"
  by pat_completeness auto
termination
proof (relation "measure length", goal_cases)
  case (4 b bs)
  then show ?case using utf8_size_pos [of "b # bs"] by (cases "utf8_size (b # bs)") auto
qed auto

definition json_string_len :: "string \<Rightarrow> int" where
  "json_string_len s = 2 + escaped_len (map byte_of s)"

text \<open>A string field with \<open>omitempty\<close>, key of the given length: \<open>,"key":"..."\<close>.\<close>

definition opt_string_len :: "int \<Rightarrow> string \<Rightarrow> int" where
  "opt_string_len k s = (if s = [] then 0 else k + 4 + json_string_len s)"

fun marshal_block_len :: "content_block \<Rightarrow> int" where
  "marshal_block_len (ContentBlock ty tx att mime cid nm args tcid err content) =
     2 + 7 + json_string_len ty + opt_string_len 4 tx + opt_string_len 12 att + opt_string_len 8 mime
     + opt_string_len 2 cid + opt_string_len 4 nm + opt_string_len 9 args + opt_string_len 10 tcid
     + (if err then 15 else 0)
     + (if content = [] then 0
        else 11 + 1 + int (length content) + sum_list (map marshal_block_len content))"

section \<open>Prices\<close>

definition chars_per_token :: int where "chars_per_token = 4"
definition block_overhead :: int where "block_overhead = 4"
definition role_overhead :: int where "role_overhead = 4"

definition ceil_div :: "int \<Rightarrow> int" where
  "ceil_div n = go_div (n + chars_per_token - 1) chars_per_token"

fun estimate_block_tokens :: "content_block \<Rightarrow> int" where
  "estimate_block_tokens (ContentBlock ty tx att mime cid nm args tcid err content) =
     (if ty = ''text'' \<or> ty = ''reasoning'' then ceil_div (int (length tx)) + block_overhead
      else if ty = ''tool-call''
      then ceil_div (int (length nm)) + ceil_div (int (length args)) + block_overhead
      else if ty = ''tool-result'' then sum_list (map estimate_block_tokens content) + block_overhead
      else block_overhead + ceil_div (marshal_block_len
             (ContentBlock ty tx att mime cid nm args tcid err content)))"

definition estimate_content_tokens :: "content_block list \<Rightarrow> int" where
  "estimate_content_tokens blocks = sum_list (map estimate_block_tokens blocks)"

definition estimate_message_tokens :: "model_message \<Rightarrow> int" where
  "estimate_message_tokens m =
     (let total = estimate_content_tokens (mm_content m) + role_overhead
      in if total = 0 then 1 else total)"

definition has_tool_result_block :: "content_block list \<Rightarrow> bool" where
  "has_tool_result_block bs = list_ex (\<lambda>b. cb_type b = ''tool-result'') bs"

section \<open>The projection of a session\<close>

record context_breakdown =
  bd_input :: int
  bd_output :: int
  bd_user :: int
  bd_assistant :: int
  bd_tool :: int

record context_metrics =
  cm_usage_input :: int
  cm_context_limit :: int
  cm_projected :: int
  cm_message_count :: int
  cm_breakdown :: context_breakdown

fun measure_loop :: "model_message list \<Rightarrow> context_metrics \<Rightarrow> context_metrics" where
  "measure_loop [] cm = cm"
| "measure_loop (m # ms) cm =
     (let tokens = estimate_message_tokens m;
          bd = cm_breakdown cm;
          bd' = (if mm_role m = ''assistant'' then bd\<lparr>bd_assistant := bd_assistant bd + tokens\<rparr>
                 else if has_tool_result_block (mm_content m) then bd\<lparr>bd_tool := bd_tool bd + tokens\<rparr>
                 else bd\<lparr>bd_user := bd_user bd + tokens\<rparr>)
      in measure_loop ms (cm\<lparr>cm_projected := cm_projected cm + tokens,
            cm_message_count := cm_message_count cm + 1, cm_breakdown := bd'\<rparr>))"

definition meter_measure :: "int \<Rightarrow> session_envelope list \<Rightarrow> session_error + context_metrics" where
  "meter_measure limit events =
     and_then (derive_messages events) (\<lambda>messages.
       (let cm = measure_loop messages \<lparr>cm_usage_input = 0, cm_context_limit = limit, cm_projected = 0,
              cm_message_count = 0, cm_breakdown = \<lparr>bd_input = 0, bd_output = 0, bd_user = 0,
              bd_assistant = 0, bd_tool = 0\<rparr>\<rparr>
        in Inr (cm\<lparr>cm_usage_input := cm_projected cm,
                   cm_breakdown := (cm_breakdown cm)\<lparr>bd_input := cm_projected cm\<rparr>\<rparr>)))"

section \<open>Lemmas\<close>

lemma ceil_div_eq: "0 \<le> n \<Longrightarrow> ceil_div n = (n + 3) div 4"
  by (simp add: ceil_div_def go_div_def chars_per_token_def sgn_if)

lemma ceil_div_nonneg: "0 \<le> n \<Longrightarrow> 0 \<le> ceil_div n"
  by (simp add: ceil_div_eq)

lemma ceil_div_bounds: "0 \<le> n \<Longrightarrow> n \<le> 4 * ceil_div n \<and> 4 * ceil_div n < n + 4"
  unfolding ceil_div_eq by presburger

lemma escaped_len_nonneg: "0 \<le> escaped_len bs"
  by (induction bs rule: escaped_len.induct) auto

lemma json_string_len_nonneg: "0 \<le> json_string_len s"
  using escaped_len_nonneg by (simp add: json_string_len_def)

lemma opt_string_len_nonneg: "0 \<le> k \<Longrightarrow> 0 \<le> opt_string_len k s"
  using json_string_len_nonneg by (simp add: opt_string_len_def)

lemma marshal_block_len_nonneg: "0 \<le> marshal_block_len b"
proof (induction b rule: marshal_block_len.induct)
  case (1 ty tx att mime cid nm args tcid err content)
  have "0 \<le> sum_list (map marshal_block_len content)" if "content \<noteq> []"
    by (rule sum_list_nonneg) (use 1 that in auto)
  then show ?case
    using json_string_len_nonneg [of ty]
      opt_string_len_nonneg [of 4 tx] opt_string_len_nonneg [of 12 att] opt_string_len_nonneg [of 8 mime]
      opt_string_len_nonneg [of 2 cid] opt_string_len_nonneg [of 4 nm] opt_string_len_nonneg [of 9 args]
      opt_string_len_nonneg [of 10 tcid]
    by simp
qed

lemma estimate_block_ge: "4 \<le> estimate_block_tokens b"
proof (induction b rule: estimate_block_tokens.induct)
  case (1 ty tx att mime cid nm args tcid err content)
  show ?case
  proof (cases "ty = ''tool-result''")
    case True
    have "0 \<le> x" if "x \<in> set (map estimate_block_tokens content)" for x
      using that 1 True by (auto intro: order_trans [of 0 4])
    then have "0 \<le> sum_list (map estimate_block_tokens content)" by (rule sum_list_nonneg)
    with True show ?thesis by (simp add: block_overhead_def)
  next
    case False
    let ?b = "ContentBlock ty tx att mime cid nm args tcid err content"
    have "0 \<le> ceil_div (int (length tx))" "0 \<le> ceil_div (int (length nm))"
      "0 \<le> ceil_div (int (length args))" "0 \<le> ceil_div (marshal_block_len ?b)"
      by (rule ceil_div_nonneg, simp add: marshal_block_len_nonneg del: marshal_block_len.simps)+
    with False show ?thesis by (simp add: block_overhead_def del: marshal_block_len.simps)
  qed
qed

lemma estimate_content_append:
  "estimate_content_tokens (xs @ ys) = estimate_content_tokens xs + estimate_content_tokens ys"
  by (simp add: estimate_content_tokens_def)

lemma estimate_content_ge: "4 * int (length bs) \<le> estimate_content_tokens bs"
proof (induction bs)
  case (Cons b bs)
  with estimate_block_ge [of b] show ?case by (simp add: estimate_content_tokens_def)
qed (simp add: estimate_content_tokens_def)

lemma estimate_content_nonneg: "0 \<le> estimate_content_tokens bs"
  using estimate_content_ge [of bs] by simp

lemma estimate_message_eq:
  "estimate_message_tokens m = estimate_content_tokens (mm_content m) + role_overhead"
  using estimate_content_nonneg [of "mm_content m"]
  by (simp add: estimate_message_tokens_def role_overhead_def Let_def)

lemma estimate_message_ge: "4 \<le> estimate_message_tokens m"
  using estimate_content_nonneg [of "mm_content m"] by (simp add: estimate_message_eq role_overhead_def)

lemma measure_loop_totals:
  "cm_projected (measure_loop ms cm) = cm_projected cm + sum_list (map estimate_message_tokens ms) \<and>
   cm_message_count (measure_loop ms cm) = cm_message_count cm + int (length ms) \<and>
   bd_user (cm_breakdown (measure_loop ms cm)) + bd_assistant (cm_breakdown (measure_loop ms cm)) +
     bd_tool (cm_breakdown (measure_loop ms cm)) =
   bd_user (cm_breakdown cm) + bd_assistant (cm_breakdown cm) + bd_tool (cm_breakdown cm) +
     sum_list (map estimate_message_tokens ms) \<and>
   bd_output (cm_breakdown (measure_loop ms cm)) = bd_output (cm_breakdown cm) \<and>
   cm_context_limit (measure_loop ms cm) = cm_context_limit cm"
  by (induction ms arbitrary: cm) (auto simp: Let_def)

lemma meter_measure_ok:
  assumes "derive_messages events = Inr ms"
  obtains cm where "meter_measure limit events = Inr cm"
    "cm_projected cm = sum_list (map estimate_message_tokens ms)"
    "cm_message_count cm = int (length ms)"
    "bd_user (cm_breakdown cm) + bd_assistant (cm_breakdown cm) + bd_tool (cm_breakdown cm) = cm_projected cm"
    "bd_input (cm_breakdown cm) = cm_projected cm" "bd_output (cm_breakdown cm) = 0"
    "cm_usage_input cm = cm_projected cm"
  using assms measure_loop_totals [of ms "\<lparr>cm_usage_input = 0, cm_context_limit = limit, cm_projected = 0,
      cm_message_count = 0, cm_breakdown = \<lparr>bd_input = 0, bd_output = 0, bd_user = 0,
      bd_assistant = 0, bd_tool = 0\<rparr>\<rparr>"]
  by (auto simp: meter_measure_def Let_def)

end
