(* ===== verification/Chunk_Packing.thy ===== *)
theory Chunk_Packing imports Source_Codec Token_Meter begin

text \<open>
  The physical records of the SQLite store (\<open>pkg/storage/store_sqlite.go\<close>): runs of streamed
  \<open>assistant/chunk\<close> deltas are packed into one row and expanded on reading; every other
  event is stored as a scalar row.

  The data column is modelled by what \<open>decodeData\<close> returns for it, a JSON value, together
  with its length in bytes: the optional zstd compression is the library's round trip.
\<close>

section \<open>Packed rows\<close>

definition min_packed_row_members :: nat where "min_packed_row_members = 3"
definition max_packed_row_members :: nat where "max_packed_row_members = 1024"
definition max_packed_data_bytes :: int where "max_packed_data_bytes = 1048576"

record chunk_row =
  cr_type :: string
  cr_seq0 :: int
  cr_time0 :: int
  cr_turn :: int
  cr_step :: int
  cr_index :: int
  cr_dt :: "int list"
  cr_texts :: "string list"
  cr_args :: "string list"
  cr_id :: string
  cr_name :: string

datatype storage_record = Scalar session_envelope | Packed chunk_row

text \<open>The JSON object of a \<open>RunData\<close>: \<open>texts\<close>, \<open>args\<close>, \<open>id\<close> and \<open>name\<close> are \<open>omitempty\<close>.\<close>

definition run_data_json :: "chunk_row \<Rightarrow> json" where
  "run_data_json row = JObj (
     [(''turn'', JInt (cr_turn row)), (''step'', JInt (cr_step row)), (''index'', JInt (cr_index row)),
      (''dt'', JArr (map JInt (cr_dt row)))] @
     (if cr_texts row = [] then [] else [(''texts'', JArr (map JStr (cr_texts row)))]) @
     (if cr_args row = [] then [] else [(''args'', JArr (map JStr (cr_args row)))]) @
     (if cr_id row = [] then [] else [(''id'', JStr (cr_id row))]) @
     (if cr_name row = [] then [] else [(''name'', JStr (cr_name row))]))"

fun nat_digits :: "nat \<Rightarrow> int" where
  "nat_digits n = (if n < 10 then 1 else 1 + nat_digits (n div 10))"

declare nat_digits.simps [simp del]

definition int_text_len :: "int \<Rightarrow> int" where
  "int_text_len i = (if i < 0 then 1 else 0) + nat_digits (nat \<bar>i\<bar>)"

text \<open>Brackets, commas and elements of a JSON array.\<close>

definition array_len :: "('a \<Rightarrow> int) \<Rightarrow> 'a list \<Rightarrow> int" where
  "array_len f xs = (if xs = [] then 2 else 1 + int (length xs) + sum_list (map f xs))"

text \<open>
  The length of the compact JSON text, which is what \<open>json.Marshal\<close> writes for a \<open>RunData\<close>.
  (A \<open>JFrac\<close>, which no \<open>RunData\<close> holds, is counted in the form \<open>mEe\<close>.)
\<close>

fun json_text_len :: "json \<Rightarrow> int" where
  "json_text_len JNull = 4"
| "json_text_len (JBool b) = (if b then 4 else 5)"
| "json_text_len (JInt i) = int_text_len i"
| "json_text_len (JFrac m e) = int_text_len m + 1 + int_text_len e"
| "json_text_len (JStr s) = json_string_len s"
| "json_text_len (JArr js) = array_len id (map json_text_len js)"
| "json_text_len (JObj kvs) = array_len id (map (\<lambda>kv. json_string_len (fst kv) + 1 + json_text_len (snd kv)) kvs)"

definition packed_data_bytes :: "chunk_row \<Rightarrow> int" where
  "packed_data_bytes row = json_text_len (run_data_json row)"

section \<open>Recognising a delta\<close>

text \<open>The key set of an object, and the comparison with a whitelist.\<close>

definition json_key_set :: "raw_message \<Rightarrow> string list option" where
  "json_key_set raw = (case raw of Some (JObj kvs) \<Rightarrow> Some (map_keys kvs) | _ \<Rightarrow> None)"

definition has_exact_keys :: "string list option \<Rightarrow> string list \<Rightarrow> bool" where
  "has_exact_keys keys want = (case keys of None \<Rightarrow> False
     | Some ks \<Rightarrow> length ks = length want \<and> list_all (\<lambda>w. w \<in> set ks) want)"

text \<open>The number grammar of JSON, for a quoted number read into a \<open>json.Number\<close>.\<close>

definition is_digit :: "char \<Rightarrow> bool" where
  "is_digit c \<longleftrightarrow> 48 \<le> byte_of c \<and> byte_of c \<le> 57"

definition skip_digits :: "string \<Rightarrow> string" where
  "skip_digits s = dropWhile is_digit s"

definition number_exponent :: "string \<Rightarrow> bool" where
  "number_exponent s = (case s of [] \<Rightarrow> True
     | c # t \<Rightarrow> (c = CHR ''e'' \<or> c = CHR ''E'') \<and>
         (let u = (case t of d # v \<Rightarrow> (if d = CHR ''+'' \<or> d = CHR ''-'' then v else t) | [] \<Rightarrow> t)
          in u \<noteq> [] \<and> skip_digits u = []))"

definition number_fraction :: "string \<Rightarrow> bool" where
  "number_fraction s = (case s of
       c # d # t \<Rightarrow> (if c = CHR ''.'' \<and> is_digit d then number_exponent (skip_digits t) else number_exponent s)
     | _ \<Rightarrow> number_exponent s)"

definition valid_number :: "string \<Rightarrow> bool" where
  "valid_number s =
     (let t = (case s of c # r \<Rightarrow> (if c = CHR ''-'' then r else s) | [] \<Rightarrow> s)
      in (case t of [] \<Rightarrow> False
          | c # r \<Rightarrow> (if c = CHR ''0'' then number_fraction r
                      else if is_digit c then number_fraction (skip_digits r)
                      else False)))"

text \<open>A \<open>*json.Number\<close> field: the value read, \<open>Some None\<close> for nil.\<close>

definition dec_number :: "string \<Rightarrow> (string \<times> json) list \<Rightarrow> json option option" where
  "dec_number k kvs = (case json_field k kvs of
      None \<Rightarrow> Some None | Some JNull \<Rightarrow> Some None
    | Some (JStr s) \<Rightarrow> (if valid_number s then Some (Some (JStr s)) else None)
    | Some (JInt i) \<Rightarrow> Some (Some (JInt i)) | Some (JFrac m e) \<Rightarrow> Some (Some (JFrac m e))
    | Some _ \<Rightarrow> None)"

definition dec_int_ptr :: "string \<Rightarrow> (string \<times> json) list \<Rightarrow> int option option" where
  "dec_int_ptr k kvs = (case json_field k kvs of
      None \<Rightarrow> Some None | Some JNull \<Rightarrow> Some None
    | Some (JInt i) \<Rightarrow> (if in_int64 i then Some (Some i) else None) | Some _ \<Rightarrow> None)"

definition dec_string_ptr :: "string \<Rightarrow> (string \<times> json) list \<Rightarrow> string option option" where
  "dec_string_ptr k kvs = (case json_field k kvs of
      None \<Rightarrow> Some None | Some JNull \<Rightarrow> Some None | Some (JStr s) \<Rightarrow> Some (Some s) | Some _ \<Rightarrow> None)"

text \<open>The whitelist of one chunk object: the kind, or the empty string.\<close>

definition classify_chunk :: "(string \<times> json) list \<Rightarrow> string" where
  "classify_chunk kvs =
     (case (dec_string ''type'' kvs, dec_int_ptr ''index'' kvs, dec_string_ptr ''text'' kvs,
            dec_string_ptr ''id'' kvs, dec_string_ptr ''name'' kvs, dec_string_ptr ''argumentsDelta'' kvs) of
        (Some ty, Some index, Some text, Some cid, Some name, Some args) \<Rightarrow>
          (let keys = json_key_set (Some (JObj kvs));
               exact = has_exact_keys keys [''type'', ''index'', ''id'', ''argumentsDelta''];
               with_name = has_exact_keys keys [''type'', ''index'', ''id'', ''name'', ''argumentsDelta'']
           in if ty = ''text-delta'' \<or> ty = ''reasoning-delta'' then
                (if has_exact_keys keys [''type'', ''index'', ''text''] \<and> index \<noteq> None \<and> text \<noteq> None
                 then ty else [])
              else if ty = ''tool-call-delta'' then
                (if (exact \<or> with_name) \<and> index \<noteq> None \<and> cid \<noteq> None \<and> args \<noteq> None \<and>
                    (\<not> with_name \<or> name \<noteq> None) then ty else [])
              else [])
      | _ \<Rightarrow> [])"

definition classify_delta :: "session_envelope \<Rightarrow> string" where
  "classify_delta env =
     (if env_type env \<noteq> ''assistant/chunk'' then []
      else if env_ignorable env \<or> env_surface_op env \<noteq> None \<or> source_seqs env \<noteq> [] then []
      else if env_seq env < 0 then []
      else (case unmarshal (\<lambda>kvs. Option.bind (dec_number ''turn'' kvs) (\<lambda>t.
                   map_option (\<lambda>s. (t, s, json_field ''chunk'' kvs)) (dec_number ''step'' kvs))) (env_data env) of
              None \<Rightarrow> []
            | Some (turn, step, chunk) \<Rightarrow>
                (if \<not> has_exact_keys (json_key_set (env_data env)) [''turn'', ''step'', ''chunk''] then []
                 else if turn = None \<or> step = None then []
                 else (case chunk of Some (JObj kvs) \<Rightarrow> classify_chunk kvs | _ \<Rightarrow> []))))"

record delta_fields =
  df_kind :: string
  df_turn :: int
  df_step :: int
  df_index :: int
  df_id :: string
  df_name :: string
  df_text :: string
  df_args :: string

definition no_delta :: delta_fields where
  "no_delta = \<lparr>df_kind = [], df_turn = 0, df_step = 0, df_index = 0, df_id = [], df_name = [],
     df_text = [], df_args = []\<rparr>"

definition chunk_fields :: "int \<Rightarrow> int \<Rightarrow> (string \<times> json) list \<Rightarrow> delta_fields option" where
  "chunk_fields turn step kvs =
     Option.bind (dec_string ''type'' kvs) (\<lambda>ty.
     Option.bind (dec_int ''index'' kvs) (\<lambda>index.
     Option.bind (dec_string ''text'' kvs) (\<lambda>text.
     Option.bind (dec_string ''id'' kvs) (\<lambda>cid.
     Option.bind (dec_string ''name'' kvs) (\<lambda>name.
     map_option (\<lambda>args.
       (let base = no_delta\<lparr>df_kind := ty, df_turn := turn, df_step := step, df_index := index\<rparr>
        in if ty = ''text-delta'' \<or> ty = ''reasoning-delta'' then base\<lparr>df_text := text\<rparr>
           else if ty = ''tool-call-delta'' then base\<lparr>df_id := cid, df_name := name, df_args := args\<rparr>
           else base))
       (dec_string ''argumentsDelta'' kvs))))))"

definition delta_fields_of :: "session_envelope \<Rightarrow> delta_fields" where
  "delta_fields_of env =
     (if env_type env \<noteq> ''assistant/chunk'' then no_delta
      else (case unmarshal (\<lambda>kvs. Option.bind (dec_int ''turn'' kvs) (\<lambda>t.
                   map_option (\<lambda>s. (t, s, json_field ''chunk'' kvs)) (dec_int ''step'' kvs))) (env_data env) of
              Some (turn, step, chunk) \<Rightarrow>
                (case unmarshal (chunk_fields turn step) chunk of Some df \<Rightarrow> df | None \<Rightarrow> no_delta)
            | None \<Rightarrow> no_delta))"

definition continues_delta :: "string \<Rightarrow> session_envelope \<Rightarrow> session_envelope \<Rightarrow> bool" where
  "continues_delta kind prev nxt =
     (if env_seq nxt \<noteq> env_seq prev + 1 then False
      else (let p = delta_fields_of prev; n = delta_fields_of nxt
            in if df_kind n \<noteq> kind \<or> df_kind n \<noteq> df_kind p then False
               else if df_turn n \<noteq> df_turn p \<or> df_step n \<noteq> df_step p \<or> df_index n \<noteq> df_index p then False
               else if kind \<noteq> ''tool-call-delta'' then True
               else if df_id p \<noteq> df_id n then False
               else if (df_name p = []) \<noteq> (df_name n = []) then False
               else df_name p = df_name n))"

section \<open>Packing\<close>

definition chunk_tag_of_kind :: "string \<Rightarrow> string" where
  "chunk_tag_of_kind kind =
     (if kind = ''text-delta'' then ''text-chunks''
      else if kind = ''reasoning-delta'' then ''reasoning-chunks''
      else if kind = ''tool-call-delta'' then ''tool-call-chunks''
      else [])"

text \<open>\<open>run[i+1].Time - run[i].Time\<close>, on 64 bits.\<close>

fun time_deltas :: "session_envelope list \<Rightarrow> int list" where
  "time_deltas (x # y # es) = wrap64 (env_time y - env_time x) # time_deltas (y # es)"
| "time_deltas _ = []"

definition build_row :: "string \<Rightarrow> session_envelope list \<Rightarrow> chunk_row" where
  "build_row kind run =
     (let f = delta_fields_of (hd run);
          row = \<lparr>cr_type = chunk_tag_of_kind kind, cr_seq0 = env_seq (hd run), cr_time0 = env_time (hd run),
             cr_turn = df_turn f, cr_step = df_step f, cr_index = df_index f, cr_dt = time_deltas run,
             cr_texts = [], cr_args = [], cr_id = [], cr_name = []\<rparr>
      in if kind = ''text-delta'' \<or> kind = ''reasoning-delta''
         then row\<lparr>cr_texts := map (df_text \<circ> delta_fields_of) run\<rparr>
         else if kind = ''tool-call-delta''
         then row\<lparr>cr_id := df_id f, cr_name := df_name f, cr_args := map (df_args \<circ> delta_fields_of) run\<rparr>
         else row)"

definition row_fits :: "string \<Rightarrow> session_envelope list \<Rightarrow> nat \<Rightarrow> bool" where
  "row_fits kind run m \<longleftrightarrow> packed_data_bytes (build_row kind (take m run)) \<le> max_packed_data_bytes"

text \<open>The binary search for the longest accepted prefix; \<open>hi\<close> may drop below \<open>low\<close>.\<close>

function search_accepted :: "string \<Rightarrow> session_envelope list \<Rightarrow> nat \<Rightarrow> nat \<Rightarrow> nat \<Rightarrow> nat" where
  "search_accepted kind run low hi accepted =
     (if low \<le> hi then
        (let mid = (low + hi) div 2
         in if row_fits kind run mid then search_accepted kind run (mid + 1) hi mid
            else if mid = 0 then accepted
            else search_accepted kind run low (mid - 1) accepted)
      else accepted)"
  by pat_completeness auto
termination
  by (relation "measure (\<lambda>(_, _, low, hi, _). Suc hi - low)") auto

declare search_accepted.simps [simp del]

definition accepted_ok :: "string \<Rightarrow> session_envelope list \<Rightarrow> nat \<Rightarrow> nat \<Rightarrow> nat \<Rightarrow> bool" where
  "accepted_ok kind run lo hi m \<longleftrightarrow> m = 0 \<or> lo \<le> m \<and> m \<le> hi \<and> row_fits kind run m"

lemma search_accepted_ok:
  "accepted_ok kind run L H accepted \<Longrightarrow> L \<le> low \<Longrightarrow> hi \<le> H \<Longrightarrow>
     accepted_ok kind run L H (search_accepted kind run low hi accepted)"
proof (induction kind run low hi accepted rule: search_accepted.induct)
  case (1 kind run low hi accepted)
  note eq = search_accepted.simps [of kind run low hi accepted]
  let ?mid = "(low + hi) div 2"
  show ?case
  proof (cases "low \<le> hi")
    case True
    then have mid: "low \<le> ?mid" "?mid \<le> hi" by simp_all
    show ?thesis
    proof (cases "row_fits kind run ?mid")
      case fit: True
      have "accepted_ok kind run L H ?mid" using mid fit 1 by (simp add: accepted_ok_def)
      from "1.IH"(1) [OF True refl fit this] mid 1 show ?thesis using eq True fit by (simp add: Let_def)
    next
      case False
      show ?thesis
      proof (cases "?mid = 0")
        case True
        then show ?thesis using eq False \<open>low \<le> hi\<close> 1(3) by (simp add: Let_def)
      next
        case nz: False
        from "1.IH"(2) [OF True refl False nz "1.prems"(1,2)] "1.prems"(3) mid
        show ?thesis using eq True False nz by (simp add: Let_def)
      qed
    qed
  qed (use 1 eq in simp)
qed

function emit_bounded_run :: "string \<Rightarrow> session_envelope list \<Rightarrow> storage_record list" where
  "emit_bounded_run kind run =
     (if min_packed_row_members \<le> length run then
        (let high = min (length run) max_packed_row_members
         in if row_fits kind run high
            then Packed (build_row kind (take high run)) # emit_bounded_run kind (drop high run)
            else (let accepted = search_accepted kind run min_packed_row_members high 0
                  in if accepted = 0 then Scalar (hd run) # emit_bounded_run kind (tl run)
                     else Packed (build_row kind (take accepted run)) # emit_bounded_run kind (drop accepted run)))
      else map Scalar run)"
  by pat_completeness auto
termination
  by (relation "measure (\<lambda>(_, run). length run)")
    (auto simp: min_packed_row_members_def max_packed_row_members_def min_def)

declare emit_bounded_run.simps [simp del]

definition flush_run :: "string \<Rightarrow> session_envelope list \<Rightarrow> storage_record list" where
  "flush_run kind run = (if kind = [] then map Scalar run else emit_bounded_run kind run)"

fun pack_loop :: "string \<Rightarrow> session_envelope list \<Rightarrow> session_envelope list \<Rightarrow> storage_record list" where
  "pack_loop kind run [] = flush_run kind run"
| "pack_loop kind run (env # es) =
     (let nxt = classify_delta env
      in if nxt = [] then flush_run kind run @ Scalar env # pack_loop [] [] es
         else if nxt = kind \<and> run \<noteq> [] \<and> continues_delta nxt (last run) env
         then pack_loop kind (run @ [env]) es
         else flush_run kind run @ pack_loop nxt [env] es)"

definition pack_chunk_runs :: "session_envelope list \<Rightarrow> storage_record list" where
  "pack_chunk_runs events = pack_loop [] [] events"

section \<open>Rows and their decoding\<close>

record event_row =
  er_seq :: int
  er_type :: string
  er_time :: int
  er_data :: raw_message
  er_sources :: "8 word list option"
  er_surface_op :: "raw_message option"
  er_ignorable :: "int option"

datatype storage_error =
    MalformedRow string string
  | BadSources codec_error
  | BadSurfaceOp session_error
  | CorruptLog int

definition bind_record :: "storage_record \<Rightarrow> storage_error + event_row" where
  "bind_record record = (case record of
      Packed cr \<Rightarrow> Inr \<lparr>er_seq = cr_seq0 cr, er_type = cr_type cr, er_time = cr_time0 cr,
          er_data = Some (run_data_json cr), er_sources = None, er_surface_op = None, er_ignorable = Some 0\<rparr>
    | Scalar ev \<Rightarrow>
        and_then (if source_seqs ev \<noteq> [] then map_sum BadSources Some (encode_source_event_seqs (source_seqs ev))
                  else Inr None) (\<lambda>sources.
        and_then (case env_surface_op ev of None \<Rightarrow> Inr None
                  | Some op \<Rightarrow> map_sum BadSurfaceOp (Some \<circ> Some) (marshal_surface_op op)) (\<lambda>op.
          Inr \<lparr>er_seq = env_seq ev, er_type = env_type ev, er_time = env_time ev, er_data = env_data ev,
               er_sources = sources, er_surface_op = op,
               er_ignorable = (if env_ignorable ev then Some 1 else None)\<rparr>)))"

definition decode_scalar_row :: "event_row \<Rightarrow> storage_error + session_envelope" where
  "decode_scalar_row row =
     and_then (case er_sources row of None \<Rightarrow> Inr None
               | Some bs \<Rightarrow> map_sum BadSources Some (decode_source_event_seqs bs)) (\<lambda>sources.
     and_then (case er_surface_op row of None \<Rightarrow> Inr None
               | Some raw \<Rightarrow> map_sum BadSurfaceOp Some (unmarshal_surface_op raw)) (\<lambda>op.
       Inr \<lparr>env_seq = er_seq row, env_time = er_time row, env_type = er_type row, env_data = er_data row,
            env_sources = sources, env_surface_op = op, env_ignorable = (er_ignorable row = Some 1)\<rparr>))"

text \<open>\<open>json.Number.Int64\<close>: decimal text of a 64-bit integer.\<close>

fun digits_value :: "int \<Rightarrow> string \<Rightarrow> int option" where
  "digits_value acc [] = Some acc"
| "digits_value acc (c # s) = (if is_digit c then digits_value (10 * acc + int (byte_of c) - 48) s else None)"

definition number_int64 :: "json \<Rightarrow> int option" where
  "number_int64 j = (case j of
      JInt i \<Rightarrow> (if in_int64 i then Some i else None)
    | JStr (c # s) \<Rightarrow>
        (case (if c = CHR ''-'' then map_option uminus (if s = [] then None else digits_value 0 s)
               else digits_value 0 (c # s)) of
           Some i \<Rightarrow> (if in_int64 i then Some i else None) | None \<Rightarrow> None)
    | _ \<Rightarrow> None)"

definition dec_int_elem :: "json \<Rightarrow> int option" where
  "dec_int_elem j = (case j of JNull \<Rightarrow> Some 0
     | JInt i \<Rightarrow> (if in_int64 i then Some i else None) | _ \<Rightarrow> None)"

record run_fields =
  rf_turn :: "json option"
  rf_step :: "json option"
  rf_index :: "int option"
  rf_id :: "string option"
  rf_name :: "json option"
  rf_dt :: "int list"
  rf_texts :: "string list"
  rf_args :: "string list"

definition dec_run_fields :: "(string \<times> json) list \<Rightarrow> run_fields option" where
  "dec_run_fields kvs =
     Option.bind (dec_number ''turn'' kvs) (\<lambda>turn.
     Option.bind (dec_number ''step'' kvs) (\<lambda>step.
     Option.bind (dec_int_ptr ''index'' kvs) (\<lambda>index.
     Option.bind (dec_string_ptr ''id'' kvs) (\<lambda>cid.
     Option.bind (dec_list dec_int_elem ''dt'' kvs) (\<lambda>dt.
     Option.bind (dec_list dec_string_elem ''texts'' kvs) (\<lambda>texts.
     map_option (\<lambda>args. \<lparr>rf_turn = turn, rf_step = step, rf_index = index, rf_id = cid,
         rf_name = json_field ''name'' kvs, rf_dt = dt, rf_texts = texts, rf_args = args\<rparr>)
       (dec_list dec_string_elem ''args'' kvs)))))))"

text \<open>The expanded chunk object; Go writes the keys of a map in alphabetical order.\<close>

definition chunk_json :: "string \<Rightarrow> int \<Rightarrow> int \<Rightarrow> int \<Rightarrow> string \<Rightarrow> string option \<Rightarrow> string \<Rightarrow> json" where
  "chunk_json tag turn step index cid name member =
     JObj [(''turn'', JInt turn), (''step'', JInt step), (''chunk'', JObj
       (if tag = ''tool-call-chunks'' then
          [(''argumentsDelta'', JStr member), (''id'', JStr cid), (''index'', JInt index)] @
          (case name of None \<Rightarrow> [] | Some n \<Rightarrow> [(''name'', JStr n)]) @
          [(''type'', JStr ''tool-call-delta'')]
        else [(''index'', JInt index), (''text'', JStr member),
              (''type'', JStr (if tag = ''text-chunks'' then ''text-delta'' else ''reasoning-delta''))]))]"

fun expand_members :: "(string \<Rightarrow> json) \<Rightarrow> int \<Rightarrow> int \<Rightarrow> int list \<Rightarrow> string list \<Rightarrow> session_envelope list" where
  "expand_members mk sq t dts [] = []"
| "expand_members mk sq t dts (m # ms) =
     new_envelope sq t ''assistant/chunk'' (mk m) #
     expand_members mk (sq + 1) (case dts of [] \<Rightarrow> t | d # _ \<Rightarrow> wrap64 (t + d)) (tl dts) ms"

definition decode_serialized_chunk_row ::
  "string \<Rightarrow> int \<Rightarrow> int \<Rightarrow> raw_message \<Rightarrow> storage_error + session_envelope list" where
  "decode_serialized_chunk_row tag seq0 time0 serialized =
     (let bad = (\<lambda>why. Inl (MalformedRow tag why));
          keys = json_key_set serialized;
          with_name = has_exact_keys keys [''turn'', ''step'', ''index'', ''id'', ''name'', ''dt'', ''args'']
      in if (case serialized of Some j \<Rightarrow> max_packed_data_bytes < json_text_len j | None \<Rightarrow> False)
         then bad ''bytes''
         else (case unmarshal dec_run_fields serialized of
           None \<Rightarrow> bad ''json''
         | Some raw \<Rightarrow>
             if keys = None then bad ''object''
             else if tag = ''tool-call-chunks'' \<and> \<not> with_name \<and>
                 \<not> has_exact_keys keys [''turn'', ''step'', ''index'', ''id'', ''dt'', ''args'']
               then bad ''tool-call data fields''
             else if tag \<noteq> ''tool-call-chunks'' \<and>
                 \<not> has_exact_keys keys [''turn'', ''step'', ''index'', ''dt'', ''texts'']
               then bad ''text data fields''
             else (let has_name = (tag = ''tool-call-chunks'' \<and> with_name);
                       members = (if tag = ''tool-call-chunks'' then rf_args raw else rf_texts raw);
                       name = Option.bind (rf_name raw) dec_string_elem
                   in case (rf_turn raw, rf_step raw, rf_index raw) of
                        (Some turn_num, Some step_num, Some index) \<Rightarrow>
                          if has_name \<and> name = None then bad ''name''
                          else if length members < min_packed_row_members \<or>
                              max_packed_row_members < length members then bad ''member count''
                          else if length (rf_dt raw) \<noteq> length members - 1 then bad ''dt length''
                          else (case (number_int64 turn_num, number_int64 step_num) of
                            (Some turn, Some step) \<Rightarrow>
                              if tag = ''tool-call-chunks'' \<and> rf_id raw = None then bad ''id''
                              else Inr (expand_members
                                (chunk_json tag turn step index
                                   (case rf_id raw of Some c \<Rightarrow> c | None \<Rightarrow> [])
                                   (if has_name then name else None))
                                seq0 time0 (rf_dt raw) members)
                          | _ \<Rightarrow> bad ''turn/step'')
                      | _ \<Rightarrow> bad ''turn/step/index'')))"

definition packed_tags :: "string list" where
  "packed_tags = [''text-chunks'', ''reasoning-chunks'', ''tool-call-chunks'']"

definition decode_row :: "event_row \<Rightarrow> storage_error + session_envelope list" where
  "decode_row row =
     (if er_ignorable row \<noteq> None \<and> er_ignorable row \<noteq> Some 0
      then and_then (decode_scalar_row row) (\<lambda>env. Inr [env])
      else if er_type row \<in> set packed_tags then
        (if er_sources row \<noteq> None \<or> er_surface_op row \<noteq> None
         then Inl (MalformedRow (er_type row) ''surface fields'')
         else decode_serialized_chunk_row (er_type row) (er_seq row) (er_time row) (er_data row))
      else if er_ignorable row \<noteq> None then Inl (MalformedRow (er_type row) ''discriminator'')
      else and_then (decode_scalar_row row) (\<lambda>env. Inr [env]))"

section \<open>Scanning the rows of a session\<close>

text \<open>The last row that decodes to a committed \<open>turn/end\<close>, \<open>-1\<close> when there is none.\<close>

definition ends_turn :: "event_row \<Rightarrow> bool" where
  "ends_turn row = (case decode_row row of
     Inl _ \<Rightarrow> False | Inr es \<Rightarrow> list_ex (\<lambda>e. env_type e = ''turn/end'') es)"

fun last_turn_end_row :: "event_row list \<Rightarrow> nat \<Rightarrow> int" where
  "last_turn_end_row rows 0 = - 1"
| "last_turn_end_row rows (Suc i) = (if ends_turn (rows ! i) then int i else last_turn_end_row rows i)"

fun check_contiguous :: "int \<Rightarrow> session_envelope list \<Rightarrow> bool" where
  "check_contiguous expected [] = True"
| "check_contiguous expected (e # es) = (env_seq e = expected \<and> check_contiguous (expected + 1) es)"

fun scan_loop ::
  "int \<Rightarrow> nat \<Rightarrow> int \<Rightarrow> session_envelope list \<Rightarrow> event_row list \<Rightarrow>
     storage_error + session_envelope list \<times> int option" where
  "scan_loop last_end idx expected preserved [] = Inr (preserved, None)"
| "scan_loop last_end idx expected preserved (row # rows) =
     (let broken = (if int idx \<le> last_end then Inl (CorruptLog (er_seq row))
                    else Inr (preserved, Some (er_seq row)))
      in case decode_row row of
           Inl _ \<Rightarrow> broken
         | Inr es \<Rightarrow>
             if \<not> check_contiguous expected es then broken
             else scan_loop last_end (Suc idx) (expected + int (length es)) (preserved @ es) rows)"

definition scan_rows :: "event_row list \<Rightarrow> int \<Rightarrow> storage_error + session_envelope list \<times> int option" where
  "scan_rows rows base = scan_loop (last_turn_end_row rows (length rows)) 0 base [] rows"

end
