(* ===== verification/Packing_Roundtrip.thy ===== *)
theory Packing_Roundtrip imports Chunk_Packing begin

text \<open>
  The packed representation loses nothing: what \<open>packChunkRuns\<close> and \<open>bindRecord\<close> write,
  \<open>decodeRow\<close> reads back, event for event, and \<open>scanRows\<close> returns the whole log.
\<close>

section \<open>One packed row\<close>

lemma those_map_Some: "(\<And>x. x \<in> set xs \<Longrightarrow> f (g x) = Some x) \<Longrightarrow> those (map f (map g xs)) = Some xs"
  by (induction xs) auto

lemma dec_ints: "\<forall>d\<in>set ds. in_int64 d \<Longrightarrow> those (map (dec_int_elem \<circ> JInt) ds) = Some ds"
  using those_map_Some [of ds dec_int_elem JInt] by (simp add: dec_int_elem_def)

lemma dec_strings: "those (map (dec_string_elem \<circ> JStr) ds) = Some ds"
  using those_map_Some [of ds dec_string_elem JStr] by (simp add: dec_string_elem_def)

lemmas decoders = unmarshal_def dec_object_def dec_string_def dec_int_def dec_number_def dec_int_ptr_def
  dec_string_ptr_def dec_list_def key_matches_def lower_names

lemmas key_sets = json_key_set_def has_exact_keys_def map_keys_def

lemma decode_text_row:
  assumes "tag = ''text-chunks'' \<or> tag = ''reasoning-chunks''"
    and "json_text_len (JObj [(''turn'', JInt turn), (''step'', JInt step), (''index'', JInt index),
      (''dt'', JArr (map JInt dt)), (''texts'', JArr (map JStr ms))]) \<le> max_packed_data_bytes"
    and "min_packed_row_members \<le> length ms" "length ms \<le> max_packed_row_members" "length dt = length ms - 1"
    and "in_int64 turn" "in_int64 step" "in_int64 index" "\<forall>d\<in>set dt. in_int64 d"
  shows "decode_serialized_chunk_row tag sq t (Some (JObj [(''turn'', JInt turn), (''step'', JInt step),
      (''index'', JInt index), (''dt'', JArr (map JInt dt)), (''texts'', JArr (map JStr ms))])) =
    Inr (expand_members (chunk_json tag turn step index [] None) sq t dt ms)"
proof -
  let ?ob = "[(''turn'', JInt turn), (''step'', JInt step), (''index'', JInt index),
      (''dt'', JArr (map JInt dt)), (''texts'', JArr (map JStr ms))]"
  have "dec_run_fields ?ob = Some \<lparr>rf_turn = Some (JInt turn), rf_step = Some (JInt step),
      rf_index = Some index, rf_id = None, rf_name = None, rf_dt = dt, rf_texts = ms, rf_args = []\<rparr>"
    using assms by (simp add: dec_run_fields_def decoders dec_ints dec_strings)
  then have um: "unmarshal dec_run_fields (Some (JObj ?ob)) = Some \<lparr>rf_turn = Some (JInt turn),
      rf_step = Some (JInt step), rf_index = Some index, rf_id = None, rf_name = None, rf_dt = dt,
      rf_texts = ms, rf_args = []\<rparr>"
    by (simp add: unmarshal_def dec_object_def)
  have ks: "json_key_set (Some (JObj ?ob)) = Some [''turn'', ''step'', ''index'', ''dt'', ''texts'']"
    by (simp add: key_sets)
  have ex: "has_exact_keys (Some [''turn'', ''step'', ''index'', ''dt'', ''texts'']) [''turn'', ''step'', ''index'', ''dt'', ''texts'']"
    by (simp add: has_exact_keys_def)
  from assms show ?thesis
    unfolding decode_serialized_chunk_row_def Let_def um ks
    by (auto simp: ex number_int64_def not_less simp del: json_text_len.simps)
qed

definition tool_run_object :: "int \<Rightarrow> int \<Rightarrow> int \<Rightarrow> int list \<Rightarrow> string list \<Rightarrow> string \<Rightarrow> string \<Rightarrow> (string \<times> json) list" where
  "tool_run_object turn step index dt ms cid name = [(''turn'', JInt turn), (''step'', JInt step),
     (''index'', JInt index), (''dt'', JArr (map JInt dt)), (''args'', JArr (map JStr ms)), (''id'', JStr cid)] @
     (if name = [] then [] else [(''name'', JStr name)])"

lemma decode_tool_row:
  assumes "json_text_len (JObj (tool_run_object turn step index dt ms cid name)) \<le> max_packed_data_bytes"
    and "min_packed_row_members \<le> length ms" "length ms \<le> max_packed_row_members" "length dt = length ms - 1"
    and "in_int64 turn" "in_int64 step" "in_int64 index" "\<forall>d\<in>set dt. in_int64 d"
  shows "decode_serialized_chunk_row ''tool-call-chunks'' sq t (Some (JObj (tool_run_object turn step index dt ms cid name))) =
    Inr (expand_members (chunk_json ''tool-call-chunks'' turn step index cid (if name = [] then None else Some name)) sq t dt ms)"
proof -
  let ?ob = "tool_run_object turn step index dt ms cid name"
  let ?rf = "\<lparr>rf_turn = Some (JInt turn), rf_step = Some (JInt step),
      rf_index = Some index, rf_id = Some cid, rf_name = (if name = [] then None else Some (JStr name)),
      rf_dt = dt, rf_texts = [], rf_args = ms\<rparr>"
  have "dec_run_fields ?ob = Some ?rf"
    using assms by (simp add: dec_run_fields_def decoders dec_ints dec_strings tool_run_object_def)
  then have um: "unmarshal dec_run_fields (Some (JObj ?ob)) = Some ?rf"
    by (simp add: unmarshal_def dec_object_def)
  let ?keys = "[''turn'', ''step'', ''index'', ''dt'', ''args'', ''id''] @ (if name = [] then [] else [''name''])"
  have ks: "json_key_set (Some (JObj ?ob)) = Some ?keys"
    by (simp add: key_sets tool_run_object_def)
  have ex: "has_exact_keys (Some ?keys) [''turn'', ''step'', ''index'', ''id'', ''name'', ''dt'', ''args''] \<longleftrightarrow> name \<noteq> []"
    "name = [] \<Longrightarrow> has_exact_keys (Some ?keys) [''turn'', ''step'', ''index'', ''id'', ''dt'', ''args'']"
    by (simp_all add: has_exact_keys_def)
  from assms show ?thesis
    unfolding decode_serialized_chunk_row_def Let_def um ks ex
    using ex(2) by (auto simp: number_int64_def not_less dec_string_elem_def simp del: json_text_len.simps)
qed

section \<open>The fields of an expanded chunk\<close>

lemma chunk_fields_text:
  assumes "kind = ''text-delta'' \<or> kind = ''reasoning-delta''" and "in_int64 index"
  shows "chunk_fields turn step [(''index'', JInt index), (''text'', JStr m), (''type'', JStr kind)] =
    Some (no_delta\<lparr>df_kind := kind, df_turn := turn, df_step := step, df_index := index, df_text := m\<rparr>)"
  using assms by (simp add: chunk_fields_def dec_string_def dec_int_def key_matches_def lower_names Let_def no_delta_def)

lemma chunk_fields_tool:
  assumes "in_int64 index"
  shows "chunk_fields turn step ([(''argumentsDelta'', JStr m), (''id'', JStr cid), (''index'', JInt index)] @
      (case name of None \<Rightarrow> [] | Some n \<Rightarrow> [(''name'', JStr n)]) @ [(''type'', JStr ''tool-call-delta'')]) =
    Some (no_delta\<lparr>df_kind := ''tool-call-delta'', df_turn := turn, df_step := step, df_index := index,
      df_id := cid, df_name := (case name of None \<Rightarrow> [] | Some n \<Rightarrow> n), df_args := m\<rparr>)"
  using assms by (cases name)
    (simp_all add: chunk_fields_def dec_string_def dec_int_def key_matches_def lower_names Let_def no_delta_def)

lemma delta_fields_envelope:
  assumes "in_int64 turn" "in_int64 step"
  shows "delta_fields_of (new_envelope sq t ''assistant/chunk''
      (JObj [(''turn'', JInt turn), (''step'', JInt step), (''chunk'', JObj kvs)])) =
    (case chunk_fields turn step kvs of Some df \<Rightarrow> df | None \<Rightarrow> no_delta)"
  using assms by (simp add: delta_fields_of_def new_envelope_def unmarshal_def dec_object_def
      dec_int_def key_matches_def lower_names)

lemma delta_fields_text:
  assumes "tag = ''text-chunks'' \<or> tag = ''reasoning-chunks''"
    and "in_int64 turn" "in_int64 step" "in_int64 index"
  shows "delta_fields_of (new_envelope sq t ''assistant/chunk'' (chunk_json tag turn step index cid name m)) =
    no_delta\<lparr>df_kind := (if tag = ''text-chunks'' then ''text-delta'' else ''reasoning-delta''),
      df_turn := turn, df_step := step, df_index := index, df_text := m\<rparr>"
proof -
  have "tag \<noteq> ''tool-call-chunks''" using assms(1) by auto
  then show ?thesis
    unfolding chunk_json_def using assms by (simp only: delta_fields_envelope if_False) (simp add: chunk_fields_text)
qed

lemma delta_fields_tool:
  assumes "in_int64 turn" "in_int64 step" "in_int64 index"
  shows "delta_fields_of (new_envelope sq t ''assistant/chunk''
      (chunk_json ''tool-call-chunks'' turn step index cid name m)) =
    no_delta\<lparr>df_kind := ''tool-call-delta'', df_turn := turn, df_step := step, df_index := index,
      df_id := cid, df_name := (case name of None \<Rightarrow> [] | Some n \<Rightarrow> n), df_args := m\<rparr>"
  unfolding chunk_json_def using assms by (simp only: delta_fields_envelope chunk_fields_tool if_True simp_thms option.case)

section \<open>Runs\<close>

text \<open>
  The event read back: the same envelope, except that an empty source list reads as absent
  and that the data of a packed delta is rebuilt from its fields.
\<close>

definition read_back :: "session_envelope \<Rightarrow> session_envelope \<Rightarrow> bool" where
  "read_back e e' \<longleftrightarrow> env_seq e' = env_seq e \<and> env_time e' = env_time e \<and> env_type e' = env_type e \<and>
     source_seqs e' = source_seqs e \<and> env_surface_op e' = env_surface_op e \<and>
     env_ignorable e' = env_ignorable e \<and>
     (env_data e' = env_data e \<or> classify_delta e \<noteq> [] \<and> delta_fields_of e' = delta_fields_of e)"

definition delta_kinds :: "string list" where
  "delta_kinds = [''text-delta'', ''reasoning-delta'', ''tool-call-delta'']"

definition run_ok :: "string \<Rightarrow> session_envelope list \<Rightarrow> bool" where
  "run_ok kind run \<longleftrightarrow> kind \<in> set delta_kinds \<and> (\<forall>e\<in>set run. classify_delta e = kind) \<and>
     (\<forall>i. Suc i < length run \<longrightarrow> continues_delta kind (run ! i) (run ! Suc i))"

lemma classify_chunk_kind: "classify_chunk kvs \<noteq> [] \<Longrightarrow> classify_chunk kvs \<in> set delta_kinds"
  by (auto simp: classify_chunk_def delta_kinds_def Let_def split: option.splits if_splits)

lemma classify_deltaD:
  assumes "classify_delta e \<noteq> []"
  shows "env_type e = ''assistant/chunk'' \<and> \<not> env_ignorable e \<and> env_surface_op e = None \<and>
    source_seqs e = [] \<and> classify_delta e \<in> set delta_kinds"
  using assms by (auto simp: classify_delta_def dest: classify_chunk_kind
      split: option.splits if_splits json.splits)

lemma run_ok_take: "run_ok kind run \<Longrightarrow> run_ok kind (take n run)"
  by (auto simp: run_ok_def dest: in_set_takeD)

lemma run_ok_drop: "run_ok kind run \<Longrightarrow> run_ok kind (drop n run)"
  by (auto simp: run_ok_def dest: in_set_dropD)

lemma run_ok_snoc:
  assumes "run_ok kind run" and "run \<noteq> []" and "classify_delta e = kind" and "continues_delta kind (last run) e"
  shows "run_ok kind (run @ [e])"
proof -
  have "continues_delta kind ((run @ [e]) ! i) ((run @ [e]) ! Suc i)" if "Suc i < Suc (length run)" for i
  proof (cases "Suc i < length run")
    case True
    with assms(1) show ?thesis by (simp add: run_ok_def nth_append)
  next
    case False
    with that have "i = length run - 1" "i < length run" by simp_all
    with assms(2,4) show ?thesis by (simp add: nth_append last_conv_nth)
  qed
  with assms show ?thesis by (auto simp: run_ok_def)
qed

lemma unmarshal_SomeD: "unmarshal d raw = Some x \<Longrightarrow> \<exists>kvs. d kvs = Some x"
  by (cases raw) (auto simp: unmarshal_def dec_object_def split: json.splits)

lemma delta_fields_in_int64:
  "in_int64 (df_turn (delta_fields_of e)) \<and> in_int64 (df_step (delta_fields_of e)) \<and>
   in_int64 (df_index (delta_fields_of e))"
proof -
  have z: "in_int64 0" by (simp add: in_int64_def)
  have d: "in_int64 i" if "dec_int k kvs = Some i" for k kvs i
    using that z by (auto simp: dec_int_def split: option.splits json.splits if_splits)
  have nd: "in_int64 (df_turn no_delta)" "in_int64 (df_step no_delta)" "in_int64 (df_index no_delta)"
    using z by (simp_all add: no_delta_def)
  have cf: "df_turn df = turn \<and> df_step df = step \<and> in_int64 (df_index df)"
    if "chunk_fields turn step kvs = Some df" for turn step kvs df
    using that d by (auto simp: chunk_fields_def bind_eq_Some_conv Let_def)
  have cu: "df_turn df = turn \<and> df_step df = step \<and> in_int64 (df_index df)"
    if "unmarshal (chunk_fields turn step) raw = Some df" for turn step raw df
    using unmarshal_SomeD [OF that] cf by blast
  show ?thesis
  proof (cases "unmarshal (\<lambda>kvs. Option.bind (dec_int ''turn'' kvs) (\<lambda>t.
       map_option (\<lambda>s. (t, s, json_field ''chunk'' kvs)) (dec_int ''step'' kvs))) (env_data e)")
    case None
    then show ?thesis using nd by (simp add: delta_fields_of_def)
  next
    case (Some x)
    obtain turn step chunk where x: "x = (turn, step, chunk)" by (cases x)
    have "in_int64 turn" "in_int64 step"
      using unmarshal_SomeD [OF Some] d unfolding x by (auto simp: bind_eq_Some_conv)
    then show ?thesis using Some nd cu unfolding x
      by (cases "unmarshal (chunk_fields turn step) chunk") (auto simp: delta_fields_of_def)
  qed
qed

text \<open>Every member of a run of two or more shares the head's fields.\<close>

lemma run_step:
  assumes "run_ok kind run" and "i < length run" and "2 \<le> length run"
  shows "env_seq (run ! i) = env_seq (hd run) + int i \<and> df_kind (delta_fields_of (run ! i)) = kind \<and>
    df_turn (delta_fields_of (run ! i)) = df_turn (delta_fields_of (hd run)) \<and>
    df_step (delta_fields_of (run ! i)) = df_step (delta_fields_of (hd run)) \<and>
    df_index (delta_fields_of (run ! i)) = df_index (delta_fields_of (hd run)) \<and>
    (kind = ''tool-call-delta'' \<longrightarrow> df_id (delta_fields_of (run ! i)) = df_id (delta_fields_of (hd run)) \<and>
       df_name (delta_fields_of (run ! i)) = df_name (delta_fields_of (hd run)))"
  using assms(2)
proof (induction i)
  case 0
  have "continues_delta kind (run ! 0) (run ! 1)" using assms(1,3) by (simp add: run_ok_def)
  then have "df_kind (delta_fields_of (run ! 0)) = kind"
    by (auto simp: continues_delta_def Let_def split: if_splits)
  moreover have "hd run = run ! 0" using assms(3) by (cases run) auto
  ultimately show ?case by simp
next
  case (Suc i)
  then have "continues_delta kind (run ! i) (run ! Suc i)" using assms(1) by (simp add: run_ok_def)
  with Suc show ?case by (auto simp: continues_delta_def Let_def split: if_splits)
qed

definition shaped :: "delta_fields \<Rightarrow> bool" where
  "shaped df \<longleftrightarrow> (df_kind df = ''text-delta'' \<or> df_kind df = ''reasoning-delta'' \<longrightarrow>
       df_id df = [] \<and> df_name df = [] \<and> df_args df = []) \<and>
     (df_kind df = ''tool-call-delta'' \<longrightarrow> df_text df = [])"

lemma chunk_fields_shaped: "chunk_fields turn step kvs = Some df \<Longrightarrow> shaped df"
  unfolding chunk_fields_def bind_eq_Some_conv
  by (elim exE conjE, simp only: map_option_eq_Some, elim exE conjE)
    (auto simp: Let_def shaped_def no_delta_def split: if_splits)

lemma delta_shaped: "shaped (delta_fields_of e)"
proof -
  have nd: "shaped no_delta" by (simp add: shaped_def no_delta_def)
  have "shaped df" if "unmarshal (chunk_fields turn step) raw = Some df" for turn step raw df
    using unmarshal_SomeD [OF that] chunk_fields_shaped by blast
  with nd show ?thesis
    by (auto simp: delta_fields_of_def split: option.splits)
qed

lemma delta_shape:
  "df_kind (delta_fields_of e) = ''text-delta'' \<or> df_kind (delta_fields_of e) = ''reasoning-delta'' \<Longrightarrow>
     delta_fields_of e = no_delta\<lparr>df_kind := df_kind (delta_fields_of e), df_turn := df_turn (delta_fields_of e),
       df_step := df_step (delta_fields_of e), df_index := df_index (delta_fields_of e),
       df_text := df_text (delta_fields_of e)\<rparr>"
  "df_kind (delta_fields_of e) = ''tool-call-delta'' \<Longrightarrow>
     delta_fields_of e = no_delta\<lparr>df_kind := ''tool-call-delta'', df_turn := df_turn (delta_fields_of e),
       df_step := df_step (delta_fields_of e), df_index := df_index (delta_fields_of e),
       df_id := df_id (delta_fields_of e), df_name := df_name (delta_fields_of e),
       df_args := df_args (delta_fields_of e)\<rparr>"
  using delta_shaped [of e]
  by (auto simp: shaped_def no_delta_def intro!: delta_fields.equality)

lemma wrap64_back: "in_int64 y \<Longrightarrow> wrap64 (x + wrap64 (y - x)) = y"
proof -
  assume y: "in_int64 y"
  have "wrap64 (x + wrap64 (y - x)) = wrap64 y"
    unfolding wrap64_def by (simp add: mod_simps algebra_simps)
  with y show ?thesis by (simp add: wrap64_id)
qed

lemma length_time_deltas: "length (time_deltas run) = length run - 1"
  by (induction run rule: time_deltas.induct) auto

lemma time_deltas_in_int64: "\<forall>d\<in>set (time_deltas run). in_int64 d"
  by (induction run rule: time_deltas.induct) (auto simp: wrap64_range)

lemma expand_run:
  assumes "\<And>e sq t. e \<in> set run \<Longrightarrow>
      delta_fields_of (new_envelope sq t ''assistant/chunk'' (mk (member e))) = delta_fields_of e"
    and "\<forall>e\<in>set run. classify_delta e \<noteq> [] \<and> in_int64 (env_time e)"
    and "\<forall>i<length run. env_seq (run ! i) = sq + int i"
    and "run \<noteq> [] \<longrightarrow> t = env_time (hd run)"
  shows "list_all2 read_back run (expand_members mk sq t (time_deltas run) (map member run))"
  using assms
proof (induction run arbitrary: sq t)
  case (Cons e es)
  have "env_seq e = sq" using Cons.prems(3) [rule_format, of 0] by simp
  moreover have "t = env_time e" using Cons.prems(4) by simp
  ultimately have hd: "read_back e (new_envelope sq t ''assistant/chunk'' (mk (member e)))"
    using classify_deltaD [of e] Cons.prems(1) [of e sq t] Cons.prems(2)
    by (simp add: read_back_def) (simp add: new_envelope_def source_seqs_def)
  have tl: "tl (time_deltas (e # es)) = time_deltas es" by (cases es) auto
  have nt: "es \<noteq> [] \<longrightarrow> (case time_deltas (e # es) of [] \<Rightarrow> t | d # _ \<Rightarrow> wrap64 (t + d)) = env_time (hd es)"
    using wrap64_back Cons.prems(2) \<open>t = env_time e\<close> by (cases es) auto
  have sq: "\<forall>i<length es. env_seq (es ! i) = sq + 1 + int i"
    using Cons.prems(3) by (auto dest: spec [of _ "Suc _"])
  have "list_all2 read_back es (expand_members mk (sq + 1)
      (case time_deltas (e # es) of [] \<Rightarrow> t | d # _ \<Rightarrow> wrap64 (t + d)) (time_deltas es) (map member es))"
    using Cons.IH [OF _ _ sq nt] Cons.prems(1,2) by simp
  with hd show ?case by (simp add: tl)
qed simp

lemma decode_packed_run:
  assumes run: "run_ok kind run" and len: "min_packed_row_members \<le> length run" "length run \<le> max_packed_row_members"
    and fits: "packed_data_bytes (build_row kind run) \<le> max_packed_data_bytes"
    and times: "\<forall>e\<in>set run. in_int64 (env_time e)"
    and tid: "kind = ''tool-call-delta'' \<longrightarrow> df_id (delta_fields_of (hd run)) \<noteq> []"
  shows "\<exists>row es. bind_record (Packed (build_row kind run)) = Inr row \<and> decode_row row = Inr es \<and>
    list_all2 read_back run es"
proof -
  let ?f = "delta_fields_of (hd run)"
  have two: "2 \<le> length run" "run \<noteq> []" using len(1) by (auto simp: min_packed_row_members_def)
  have seqs: "\<forall>i<length run. env_seq (run ! i) = env_seq (hd run) + int i"
    using run_step [OF run _ two(1)] by blast
  have fields: "df_kind (delta_fields_of e) = kind" "df_turn (delta_fields_of e) = df_turn ?f"
    "df_step (delta_fields_of e) = df_step ?f" "df_index (delta_fields_of e) = df_index ?f"
    "kind = ''tool-call-delta'' \<Longrightarrow> df_id (delta_fields_of e) = df_id ?f"
    "kind = ''tool-call-delta'' \<Longrightarrow> df_name (delta_fields_of e) = df_name ?f" if "e \<in> set run" for e
    using run_step [OF run _ two(1)] that by (auto simp: in_set_conv_nth)
  have cls: "\<forall>e\<in>set run. classify_delta e \<noteq> [] \<and> in_int64 (env_time e)"
    using run times by (auto simp: run_ok_def delta_kinds_def)
  note ints = delta_fields_in_int64 [of "hd run"]
  have dtlen: "length (time_deltas run) = length (map f run) - 1" for f :: "session_envelope \<Rightarrow> string"
    by (simp add: length_time_deltas)
  consider (chars) "kind = ''text-delta'' \<or> kind = ''reasoning-delta''" | (tool) "kind = ''tool-call-delta''"
    using run by (auto simp: run_ok_def delta_kinds_def)
  then show ?thesis
  proof cases
    case chars
    let ?tag = "chunk_tag_of_kind kind"
    have tag: "?tag = ''text-chunks'' \<or> ?tag = ''reasoning-chunks''"
      "kind = (if ?tag = ''text-chunks'' then ''text-delta'' else ''reasoning-delta'')"
      "?tag \<in> set packed_tags"
      using chars by (auto simp: chunk_tag_of_kind_def packed_tags_def)
    let ?ms = "map (df_text \<circ> delta_fields_of) run"
    have js: "run_data_json (build_row kind run) = JObj [(''turn'', JInt (df_turn ?f)), (''step'', JInt (df_step ?f)),
        (''index'', JInt (df_index ?f)), (''dt'', JArr (map JInt (time_deltas run))), (''texts'', JArr (map JStr ?ms))]"
      using chars two(2) by (auto simp: run_data_json_def build_row_def Let_def)
    have row: "cr_type (build_row kind run) = ?tag" "cr_seq0 (build_row kind run) = env_seq (hd run)"
      "cr_time0 (build_row kind run) = env_time (hd run)"
      using chars by (auto simp: build_row_def Let_def)
    have mk: "delta_fields_of (new_envelope sq t ''assistant/chunk''
          (chunk_json ?tag (df_turn ?f) (df_step ?f) (df_index ?f) [] None ((df_text \<circ> delta_fields_of) e))) =
        delta_fields_of e" if "e \<in> set run" for e sq t
    proof -
      let ?d = "no_delta\<lparr>df_kind := kind, df_turn := df_turn ?f, df_step := df_step ?f,
        df_index := df_index ?f, df_text := df_text (delta_fields_of e)\<rparr>"
      have "delta_fields_of (new_envelope sq t ''assistant/chunk''
          (chunk_json ?tag (df_turn ?f) (df_step ?f) (df_index ?f) [] None ((df_text \<circ> delta_fields_of) e))) = ?d"
        unfolding comp_apply using delta_fields_text [OF tag(1)] ints tag(2) by presburger
      moreover have "delta_fields_of e = ?d"
        using delta_shape(1) [of e] fields(1-4) [OF that] chars by simp
      ultimately show ?thesis by (rule trans [OF _ sym])
    qed
    have "decode_serialized_chunk_row ?tag (env_seq (hd run)) (env_time (hd run)) (Some (run_data_json (build_row kind run)))
        = Inr (expand_members (chunk_json ?tag (df_turn ?f) (df_step ?f) (df_index ?f) [] None)
            (env_seq (hd run)) (env_time (hd run)) (time_deltas run) ?ms)"
      unfolding js by (rule decode_text_row [OF tag(1)])
        (use fits len ints time_deltas_in_int64 in \<open>simp_all add: packed_data_bytes_def js length_time_deltas
           del: json_text_len.simps\<close>)
    moreover have "list_all2 read_back run (expand_members (chunk_json ?tag (df_turn ?f) (df_step ?f) (df_index ?f) [] None)
            (env_seq (hd run)) (env_time (hd run)) (time_deltas run) ?ms)"
      by (rule expand_run [OF mk cls seqs]) auto
    ultimately show ?thesis
      using tag(3) by (simp add: bind_record_def decode_row_def row)
  next
    case tool
    let ?ms = "map (df_args \<circ> delta_fields_of) run"
    let ?nm = "if df_name ?f = [] then None else Some (df_name ?f)"
    have js: "run_data_json (build_row kind run) = JObj (tool_run_object (df_turn ?f) (df_step ?f) (df_index ?f)
        (time_deltas run) ?ms (df_id ?f) (df_name ?f))"
      using tool two(2) tid by (auto simp: run_data_json_def build_row_def Let_def tool_run_object_def)
    have row: "cr_type (build_row kind run) = ''tool-call-chunks''" "cr_seq0 (build_row kind run) = env_seq (hd run)"
      "cr_time0 (build_row kind run) = env_time (hd run)"
      using tool by (auto simp: build_row_def Let_def chunk_tag_of_kind_def)
    have mk: "delta_fields_of (new_envelope sq t ''assistant/chunk''
          (chunk_json ''tool-call-chunks'' (df_turn ?f) (df_step ?f) (df_index ?f) (df_id ?f) ?nm
            ((df_args \<circ> delta_fields_of) e))) = delta_fields_of e" if "e \<in> set run" for e sq t
    proof -
      let ?d = "no_delta\<lparr>df_kind := ''tool-call-delta'', df_turn := df_turn ?f, df_step := df_step ?f,
        df_index := df_index ?f, df_id := df_id ?f, df_name := df_name ?f, df_args := df_args (delta_fields_of e)\<rparr>"
      have nm: "(case ?nm of None \<Rightarrow> [] | Some n \<Rightarrow> n) = df_name ?f" by simp
      have "delta_fields_of (new_envelope sq t ''assistant/chunk''
          (chunk_json ''tool-call-chunks'' (df_turn ?f) (df_step ?f) (df_index ?f) (df_id ?f) ?nm
            ((df_args \<circ> delta_fields_of) e))) = ?d"
        unfolding comp_apply using delta_fields_tool ints nm by presburger
      moreover have "delta_fields_of e = ?d"
        using delta_shape(2) [of e] fields [OF that] tool by simp
      ultimately show ?thesis by (rule trans [OF _ sym])
    qed
    have "decode_serialized_chunk_row ''tool-call-chunks'' (env_seq (hd run)) (env_time (hd run))
          (Some (run_data_json (build_row kind run)))
        = Inr (expand_members (chunk_json ''tool-call-chunks'' (df_turn ?f) (df_step ?f) (df_index ?f) (df_id ?f) ?nm)
            (env_seq (hd run)) (env_time (hd run)) (time_deltas run) ?ms)"
      unfolding js by (rule decode_tool_row)
        (use fits len ints time_deltas_in_int64 in \<open>simp_all add: packed_data_bytes_def js length_time_deltas
           del: json_text_len.simps\<close>)
    moreover have "list_all2 read_back run (expand_members
        (chunk_json ''tool-call-chunks'' (df_turn ?f) (df_step ?f) (df_index ?f) (df_id ?f) ?nm)
        (env_seq (hd run)) (env_time (hd run)) (time_deltas run) ?ms)"
      by (rule expand_run [OF mk cls seqs]) auto
    ultimately show ?thesis
      by (simp add: bind_record_def decode_row_def row packed_tags_def)
  qed
qed

section \<open>Whole logs\<close>

text \<open>What the store can hold without loss; the last condition is the id of a packed tool call.\<close>

definition storable :: "session_envelope \<Rightarrow> bool" where
  "storable e \<longleftrightarrow> in_int64 (env_time e) \<and> env_type e \<notin> set packed_tags \<and>
     (\<forall>s\<in>set (source_seqs e). 0 \<le> s \<and> s \<le> max_safe_integer) \<and>
     (case env_surface_op e of None \<Rightarrow> True
      | Some op \<Rightarrow> op = append_surface_op \<or>
          so_op op = ''replace'' \<and> in_int64 (so_start op) \<and> in_int64 (so_end op)) \<and>
     (classify_delta e = ''tool-call-delta'' \<longrightarrow> df_id (delta_fields_of e) \<noteq> [])"

fun decode_rows :: "event_row list \<Rightarrow> storage_error + session_envelope list" where
  "decode_rows [] = Inr []"
| "decode_rows (row # rows) =
     and_then (decode_row row) (\<lambda>es. and_then (decode_rows rows) (\<lambda>ess. Inr (es @ ess)))"

fun bind_records :: "storage_record list \<Rightarrow> storage_error + event_row list" where
  "bind_records [] = Inr []"
| "bind_records (r # rs) = and_then (bind_record r) (\<lambda>row. and_then (bind_records rs) (\<lambda>rows. Inr (row # rows)))"

definition stored_as :: "storage_record list \<Rightarrow> session_envelope list \<Rightarrow> bool" where
  "stored_as rs es \<longleftrightarrow> (\<exists>rows es'. bind_records rs = Inr rows \<and> decode_rows rows = Inr es' \<and> list_all2 read_back es es')"

lemma decode_rows_append:
  "decode_rows (xs @ ys) = and_then (decode_rows xs) (\<lambda>a. and_then (decode_rows ys) (\<lambda>b. Inr (a @ b)))"
proof (induction xs)
  case Nil
  show ?case by (cases "decode_rows ys") auto
next
  case (Cons x xs)
  then show ?case
    by (cases "decode_row x"; cases "decode_rows xs"; cases "decode_rows ys") auto
qed

lemma bind_records_append:
  "bind_records (xs @ ys) = and_then (bind_records xs) (\<lambda>a. and_then (bind_records ys) (\<lambda>b. Inr (a @ b)))"
proof (induction xs)
  case Nil
  show ?case by (cases "bind_records ys") auto
next
  case (Cons x xs)
  then show ?case
    by (cases "bind_record x"; cases "bind_records xs"; cases "bind_records ys") auto
qed

lemma stored_as_append:
  assumes "stored_as rs es" and "stored_as rs' es'"
  shows "stored_as (rs @ rs') (es @ es')"
proof -
  from assms obtain a b x y where
    "bind_records rs = Inr a" "decode_rows a = Inr x" "list_all2 read_back es x"
    "bind_records rs' = Inr b" "decode_rows b = Inr y" "list_all2 read_back es' y"
    by (auto simp: stored_as_def)
  then show ?thesis
    unfolding stored_as_def
    by (intro exI [of _ "a @ b"] exI [of _ "x @ y"])
      (simp add: bind_records_append decode_rows_append list_all2_appendI)
qed

lemma stored_as_Nil [simp]: "stored_as [] []"
  by (simp add: stored_as_def)

lemma stored_as_scalar:
  assumes "storable e"
  shows "stored_as [Scalar e] [e]"
proof -
  have src: "\<exists>bs. encode_source_event_seqs (source_seqs e) = Inr bs \<and>
      decode_source_event_seqs bs = Inr (source_seqs e)"
    using decode_encode_loop [of 0 True "source_seqs e"] assms
    by (auto simp: storable_def encode_source_event_seqs_def decode_source_event_seqs_def seq_ok_def
        max_safe_integer_def)
  have op: "\<exists>j. marshal_surface_op op = Inr j \<and> unmarshal_surface_op (Some j) = Inr op"
    if "env_surface_op e = Some op" for op
  proof -
    have "op = append_surface_op \<or> so_op op = ''replace'' \<and> in_int64 (so_start op) \<and> in_int64 (so_end op)"
      using assms that by (simp add: storable_def)
    then show ?thesis
      by (elim disjE conjE)
        (simp_all add: marshal_surface_op_def unmarshal_surface_op_def append_surface_op_def unmarshal_def
          dec_object_def dec_string_def dec_int_def key_matches_def lower_names)
  qed
  obtain src_blob where src_blob: "(if source_seqs e \<noteq> []
      then map_sum BadSources Some (encode_source_event_seqs (source_seqs e)) else Inr None) = Inr src_blob"
    "\<exists>ss. (case src_blob of None \<Rightarrow> Inr None
      | Some bs \<Rightarrow> map_sum BadSources Some (decode_source_event_seqs bs)) = Inr ss \<and>
        (case ss of None \<Rightarrow> [] | Some l \<Rightarrow> l) = source_seqs e"
    using src by (cases "source_seqs e = []") auto
  obtain op_text where op_text: "(case env_surface_op e of None \<Rightarrow> Inr None
      | Some op \<Rightarrow> map_sum BadSurfaceOp (Some \<circ> Some) (marshal_surface_op op)) = Inr op_text"
    "(case op_text of None \<Rightarrow> Inr None
      | Some raw \<Rightarrow> map_sum BadSurfaceOp Some (unmarshal_surface_op raw)) = Inr (env_surface_op e)"
    using op by (cases "env_surface_op e") auto
  let ?row = "\<lparr>er_seq = env_seq e, er_type = env_type e, er_time = env_time e, er_data = env_data e,
      er_sources = src_blob, er_surface_op = op_text, er_ignorable = (if env_ignorable e then Some 1 else None)\<rparr>"
  from src_blob(2) obtain ss where ss: "(case src_blob of None \<Rightarrow> Inr None
      | Some bs \<Rightarrow> map_sum BadSources Some (decode_source_event_seqs bs)) = Inr ss"
    "(case ss of None \<Rightarrow> [] | Some l \<Rightarrow> l) = source_seqs e" by blast
  let ?e = "\<lparr>env_seq = env_seq e, env_time = env_time e, env_type = env_type e, env_data = env_data e,
      env_sources = ss, env_surface_op = env_surface_op e, env_ignorable = env_ignorable e\<rparr>"
  have "bind_record (Scalar e) = Inr ?row"
    by (simp add: bind_record_def src_blob(1) op_text(1))
  moreover have "decode_scalar_row ?row = Inr ?e"
    by (simp add: decode_scalar_row_def ss(1) op_text(2))
  then have "decode_row ?row = Inr [?e]"
    using assms by (cases "env_ignorable e") (simp_all add: decode_row_def storable_def)
  moreover have "read_back e ?e" using ss(2) by (simp add: read_back_def source_seqs_def)
  ultimately show ?thesis by (simp add: stored_as_def)
qed

lemma stored_as_scalars: "\<forall>e\<in>set es. storable e \<Longrightarrow> stored_as (map Scalar es) es"
proof (induction es)
  case (Cons e es)
  with stored_as_append [OF stored_as_scalar [of e], of "map Scalar es" es] show ?case by simp
qed simp

lemma stored_as_packed:
  assumes "run_ok kind run" and "min_packed_row_members \<le> length run" and "length run \<le> max_packed_row_members"
    and "packed_data_bytes (build_row kind run) \<le> max_packed_data_bytes" and "\<forall>e\<in>set run. storable e"
  shows "stored_as [Packed (build_row kind run)] run"
proof -
  have "hd run \<in> set run" using assms(2) by (cases run) (auto simp: min_packed_row_members_def)
  then have "kind = ''tool-call-delta'' \<longrightarrow> df_id (delta_fields_of (hd run)) \<noteq> []"
    using assms(1,5) by (auto simp: run_ok_def storable_def)
  from decode_packed_run [OF assms(1-4) _ this] assms(5) show ?thesis
    by (auto simp: stored_as_def storable_def)
qed

lemma stored_as_emit:
  "run_ok kind run \<Longrightarrow> \<forall>e\<in>set run. storable e \<Longrightarrow> stored_as (emit_bounded_run kind run) run"
proof (induction kind run rule: emit_bounded_run.induct)
  case (1 kind run)
  note eq = emit_bounded_run.simps [of kind run]
  let ?high = "min (length run) max_packed_row_members"
  let ?acc = "search_accepted kind run min_packed_row_members ?high 0"
  have sub: "\<forall>e\<in>set (take n run). storable e" "\<forall>e\<in>set (drop n run). storable e" for n
    using "1.prems"(2) by (auto dest: in_set_takeD in_set_dropD)
  have piece: "stored_as (Packed (build_row kind (take n run)) # rest) run"
    if "min_packed_row_members \<le> n" "n \<le> ?high" "row_fits kind run n" "stored_as rest (drop n run)" for n rest
  proof -
    have "stored_as [Packed (build_row kind (take n run))] (take n run)"
      by (rule stored_as_packed [OF run_ok_take [OF "1.prems"(1)]])
        (use that sub in \<open>auto simp: row_fits_def\<close>)
    from stored_as_append [OF this that(4)] show ?thesis by simp
  qed
  show ?case
  proof (cases "min_packed_row_members \<le> length run")
    case False
    with eq stored_as_scalars "1.prems"(2) show ?thesis by simp
  next
    case True
    then have high: "min_packed_row_members \<le> ?high"
      by (simp add: min_packed_row_members_def max_packed_row_members_def)
    show ?thesis
    proof (cases "row_fits kind run ?high")
      case fits: True
      from "1.IH"(1) [OF True refl fits run_ok_drop [OF "1.prems"(1)] sub(2)] piece [OF high order_refl fits]
      show ?thesis using eq True fits by (simp add: Let_def)
    next
      case False
      show ?thesis
      proof (cases "?acc = 0")
        case zero: True
        have ne: "run \<noteq> []" using True by (auto simp: min_packed_row_members_def)
        have "tl run = drop 1 run" by (simp add: drop_Suc)
        then have "stored_as (emit_bounded_run kind (tl run)) (tl run)"
          using "1.IH"(2) [OF True refl False refl zero] run_ok_drop [OF "1.prems"(1), of 1] sub(2) [of 1] by simp
        with stored_as_append [OF stored_as_scalar [of "hd run"] this] ne "1.prems"(2)
        have "stored_as (Scalar (hd run) # emit_bounded_run kind (tl run)) run" by (cases run) auto
        then show ?thesis using eq True False zero by (simp add: Let_def)
      next
        case nz: False
        have "accepted_ok kind run min_packed_row_members ?high ?acc"
          by (rule search_accepted_ok) (simp_all add: accepted_ok_def)
        with nz have acc: "min_packed_row_members \<le> ?acc" "?acc \<le> ?high" "row_fits kind run ?acc"
          by (simp_all add: accepted_ok_def)
        from "1.IH"(3) [OF True refl False refl nz run_ok_drop [OF "1.prems"(1)] sub(2)] piece [OF acc]
        show ?thesis using eq True False nz by (simp add: Let_def)
      qed
    qed
  qed
qed

lemma run_ok_single: "classify_delta e \<noteq> [] \<Longrightarrow> run_ok (classify_delta e) [e]"
  using classify_deltaD [of e] by (simp add: run_ok_def)

lemma stored_as_pack_loop:
  assumes "kind = [] \<and> run = [] \<or> run_ok kind run \<and> kind \<noteq> []" and "\<forall>e\<in>set (run @ es). storable e"
  shows "stored_as (pack_loop kind run es) (run @ es)"
  using assms
proof (induction es arbitrary: kind run)
  case Nil
  then show ?case using stored_as_emit by (auto simp: flush_run_def)
next
  case (Cons e es)
  have fl: "stored_as (flush_run kind run) run"
    using Cons.prems stored_as_emit by (auto simp: flush_run_def)
  show ?case
  proof (cases "classify_delta e = []")
    case True
    have "stored_as (pack_loop [] [] es) es" using Cons.IH [of "[]" "[]"] Cons.prems(2) by simp
    with stored_as_append [OF fl stored_as_append [OF stored_as_scalar [of e] this]] Cons.prems(2) True
    show ?thesis by simp
  next
    case False
    show ?thesis
    proof (cases "classify_delta e = kind \<and> run \<noteq> [] \<and> continues_delta (classify_delta e) (last run) e")
      case True
      then have "run_ok kind (run @ [e])" using Cons.prems(1) by (auto intro: run_ok_snoc)
      with Cons.IH [of kind "run @ [e]"] Cons.prems(1,2) True False show ?thesis by (auto simp: Let_def)
    next
      case brk: False
      have "stored_as (pack_loop (classify_delta e) [e] es) ([e] @ es)"
        using Cons.IH [of "classify_delta e" "[e]"] run_ok_single [OF False] False Cons.prems(2) by simp
      from stored_as_append [OF fl this] brk False show ?thesis by (auto simp: Let_def)
    qed
  qed
qed

section \<open>Scanning\<close>

lemma check_contiguous_append:
  "check_contiguous n (xs @ ys) \<longleftrightarrow> check_contiguous n xs \<and> check_contiguous (n + int (length xs)) ys"
  by (induction xs arbitrary: n) (simp_all add: add.assoc)

lemma check_contiguous_read_back:
  "list_all2 read_back es es' \<Longrightarrow> check_contiguous n es' = check_contiguous n es"
  by (induction arbitrary: n rule: list_all2_induct) (auto simp: read_back_def)

lemma scan_loop_complete:
  assumes "decode_rows rows = Inr es" and "check_contiguous n es"
  shows "scan_loop le idx n pre rows = Inr (pre @ es, None)"
  using assms
proof (induction rows arbitrary: idx n pre es)
  case (Cons row rows)
  then obtain x y where "decode_row row = Inr x" "decode_rows rows = Inr y" "es = x @ y"
    by (auto simp: and_then_Inr_iff)
  with Cons show ?case by (simp add: check_contiguous_append)
qed simp

text \<open>What a scan that stops, or ends, has established.\<close>

lemma scan_loop_cases:
  assumes "decode_rows (take idx all) = Inr pre" and "rows = drop idx all"
    and "check_contiguous base pre" and "n = base + int (length pre)" and "idx \<le> length all"
  shows "case scan_loop le idx n pre rows of
      Inr (es, torn) \<Rightarrow> \<exists>k\<le>length all. decode_rows (take k all) = Inr es \<and> check_contiguous base es \<and>
        (case torn of None \<Rightarrow> k = length all | Some s \<Rightarrow> k < length all \<and> s = er_seq (all ! k) \<and> le < int k)
    | Inl err \<Rightarrow> \<exists>k<length all. err = CorruptLog (er_seq (all ! k)) \<and> int k \<le> le"
  using assms
proof (induction rows arbitrary: idx n pre)
  case Nil
  then show ?case by auto
next
  case (Cons row rows)
  then have idx: "idx < length all" and row: "row = all ! idx" and rows: "rows = drop (Suc idx) all"
    by (metis drop_eq_Nil leI list.discI, metis nth_via_drop, metis drop_Suc list.sel(3) tl_drop)
  let ?broken = "if int idx \<le> le then Inl (CorruptLog (er_seq row)) else Inr (pre, Some (er_seq row))"
  have broken: "case ?broken of
      Inr (es, torn) \<Rightarrow> \<exists>k\<le>length all. decode_rows (take k all) = Inr es \<and> check_contiguous base es \<and>
        (case torn of None \<Rightarrow> k = length all | Some s \<Rightarrow> k < length all \<and> s = er_seq (all ! k) \<and> le < int k)
    | Inl err \<Rightarrow> \<exists>k<length all. err = CorruptLog (er_seq (all ! k)) \<and> int k \<le> le"
    using idx row Cons.prems by (auto intro!: exI [of _ idx])
  show ?case
  proof (cases "decode_row row")
    case (Inl e)
    with broken show ?thesis by (simp add: Let_def)
  next
    case (Inr es)
    show ?thesis
    proof (cases "check_contiguous n es")
      case False
      with broken Inr show ?thesis by (simp add: Let_def)
    next
      case True
      have t: "take (Suc idx) all = take idx all @ [row]" using idx row by (simp add: take_Suc_conv_app_nth)
      have "decode_rows (take (Suc idx) all) = Inr (pre @ es)"
        using Cons.prems(1) Inr unfolding t by (simp add: decode_rows_append)
      from Cons.IH [OF this rows _ _ Suc_leI [OF idx], of "n + int (length es)"] Cons.prems(3,4) True Inr
      show ?thesis by (simp add: check_contiguous_append Let_def add.assoc)
    qed
  qed
qed

lemma last_turn_end_row_bound: "i < n \<Longrightarrow> ends_turn (rows ! i) \<Longrightarrow> int i \<le> last_turn_end_row rows n"
proof (induction n)
  case (Suc n)
  then show ?case by (cases "i = n") auto
qed simp

lemma last_turn_end_row_attained:
  "int k \<le> last_turn_end_row rows n \<Longrightarrow> \<exists>j<n. k \<le> j \<and> ends_turn (rows ! j)"
  by (induction n) (auto split: if_splits simp: less_Suc_eq)

section \<open>Properties\<close>

lemma empty_tool_id_unreadable:
  "decode_serialized_chunk_row ''tool-call-chunks'' sq t (Some (JObj [(''turn'', JInt 1), (''step'', JInt 1),
     (''index'', JInt 0), (''dt'', JArr [JInt 0, JInt 0]), (''args'', JArr [JStr [], JStr [], JStr []])])) =
   Inl (MalformedRow ''tool-call-chunks'' ''tool-call data fields'')"
  by code_simp

text \<open>
  C9. Storing a contiguous log of \<open>storable\<close> events loses nothing: whatever way the runs of deltas
  are cut into packed rows, binding succeeds and scanning the rows gives back the whole log, event
  for event, with no torn tail.  Storable are events with a 64-bit time, a type that is no tag of
  a packed row, source numbers between 0 and 2^53 - 1, an append or a replacement with 64-bit bounds,
  and, if they are tool-call deltas, an id that is not empty.  The last condition is needed and the
  adapters do not keep to it: a packed row with an empty id is written without its id key and
  cannot be read (\<open>empty_tool_id_unreadable\<close>).
\<close>
theorem packed_log_roundtrip:
  assumes "\<forall>e\<in>set es. storable e" and "check_contiguous base es"
  shows "\<exists>rows es'. bind_records (pack_chunk_runs es) = Inr rows \<and> scan_rows rows base = Inr (es', None) \<and>
    list_all2 read_back es es'"
proof -
  have "stored_as (pack_chunk_runs es) es"
    unfolding pack_chunk_runs_def using stored_as_pack_loop [of "[]" "[]" es] assms(1) by simp
  then obtain rows es' where r: "bind_records (pack_chunk_runs es) = Inr rows" "decode_rows rows = Inr es'"
    "list_all2 read_back es es'" by (auto simp: stored_as_def)
  from check_contiguous_read_back [OF r(3)] assms(2) have "check_contiguous base es'" by simp
  from scan_loop_complete [OF r(2) this] r(1,3) show ?thesis by (auto simp: scan_rows_def)
qed

definition sample_delta :: "int \<Rightarrow> int \<Rightarrow> string \<Rightarrow> session_envelope" where
  "sample_delta sq t tx = new_envelope sq t ''assistant/chunk'' (JObj [(''turn'', JInt 1), (''step'', JInt 1),
     (''chunk'', JObj [(''type'', JStr ''text-delta''), (''index'', JInt 0), (''text'', JStr tx)])])"

definition sample_deltas :: "session_envelope list" where
  "sample_deltas = [new_envelope 5 90 EventTurnStart (JObj []), sample_delta 6 100 ''a'',
     sample_delta 7 105 ''b'', sample_delta 8 103 ''c'']"

lemma storable_sample_delta: "in_int64 t \<Longrightarrow> storable (sample_delta sq t tx)"
  by (simp add: storable_def sample_delta_def new_envelope_def packed_tags_def source_seqs_def
      classify_delta_def classify_chunk_def decoders Let_def split: if_splits)

lemma packed_log_roundtrip_witness:
  "\<exists>rows es'. bind_records (pack_chunk_runs sample_deltas) = Inr rows \<and> scan_rows rows 5 = Inr (es', None) \<and>
     list_all2 read_back sample_deltas es'"
proof -
  have "storable (new_envelope 5 90 EventTurnStart (JObj []))"
    by (simp add: storable_def new_envelope_def packed_tags_def source_seqs_def classify_delta_def in_int64_def)
  then have "\<forall>e\<in>set sample_deltas. storable e"
    by (simp add: sample_deltas_def storable_sample_delta in_int64_def)
  moreover have "check_contiguous 5 sample_deltas"
    by (simp add: sample_deltas_def sample_delta_def new_envelope_def)
  ultimately show ?thesis using packed_log_roundtrip [of sample_deltas 5] by blast
qed

text \<open>
  A scan never cuts a committed turn: when it succeeds, it returns a contiguous prefix of
  the rows that contains every row of a readable \<open>turn/end\<close> and everything before it, and
  marks the first unreadable row as the torn tail; it fails only when an unreadable row lies
  at or before a committed \<open>turn/end\<close>.
\<close>
theorem scan_keeps_committed:
  "case scan_rows rows base of
     Inr (es, torn) \<Rightarrow> \<exists>k\<le>length rows. decode_rows (take k rows) = Inr es \<and> check_contiguous base es \<and>
       (\<forall>i<length rows. ends_turn (rows ! i) \<longrightarrow> i < k) \<and>
       (case torn of None \<Rightarrow> k = length rows | Some s \<Rightarrow> k < length rows \<and> s = er_seq (rows ! k))
   | Inl err \<Rightarrow> \<exists>k j. k \<le> j \<and> j < length rows \<and> ends_turn (rows ! j) \<and> err = CorruptLog (er_seq (rows ! k))"
proof -
  let ?le = "last_turn_end_row rows (length rows)"
  have le: "int i \<le> ?le" if "i < length rows" "ends_turn (rows ! i)" for i
    using last_turn_end_row_bound [OF that] .
  have scan: "case scan_rows rows base of
      Inr (es, torn) \<Rightarrow> \<exists>k\<le>length rows. decode_rows (take k rows) = Inr es \<and> check_contiguous base es \<and>
        (case torn of None \<Rightarrow> k = length rows | Some s \<Rightarrow> k < length rows \<and> s = er_seq (rows ! k) \<and> ?le < int k)
    | Inl err \<Rightarrow> \<exists>k<length rows. err = CorruptLog (er_seq (rows ! k)) \<and> int k \<le> ?le"
    unfolding scan_rows_def using scan_loop_cases [of 0 rows "[]" rows base base ?le] by simp
  show ?thesis
  proof (cases "scan_rows rows base")
    case (Inl err)
    with scan obtain k where "err = CorruptLog (er_seq (rows ! k))" "int k \<le> ?le" by auto
    with last_turn_end_row_attained Inl show ?thesis by fastforce
  next
    case (Inr x)
    obtain es torn where x: "x = (es, torn)" by fastforce
    from scan Inr x obtain k where k: "k \<le> length rows" "decode_rows (take k rows) = Inr es"
      "check_contiguous base es"
      "case torn of None \<Rightarrow> k = length rows | Some s \<Rightarrow> k < length rows \<and> s = er_seq (rows ! k) \<and> ?le < int k"
      by auto
    have "\<forall>i<length rows. ends_turn (rows ! i) \<longrightarrow> i < k"
      using k(4) le by (fastforce split: option.splits)
    with k Inr x show ?thesis by (auto intro!: exI [of _ k] split: option.splits)
  qed
qed

lemma scan_keeps_committed_witness:
  "\<exists>k\<le>1. decode_rows (take k [\<lparr>er_seq = 0, er_type = ''turn/end'', er_time = 0, er_data = Some JNull,
      er_sources = None, er_surface_op = None, er_ignorable = None\<rparr>]) =
     Inr [new_envelope 0 0 ''turn/end'' JNull]"
proof -
  let ?rows = "[\<lparr>er_seq = 0, er_type = ''turn/end'', er_time = 0, er_data = Some JNull,
      er_sources = None, er_surface_op = None, er_ignorable = None\<rparr>]"
  have "scan_rows ?rows 0 = Inr ([new_envelope 0 0 ''turn/end'' JNull], None)" by code_simp
  with scan_keeps_committed [of ?rows 0] show ?thesis by auto
qed

end
