(* ===== verification/Ring_Buffer.thy ===== *)
theory Ring_Buffer imports Session_Events begin

unbundle bit_operations_syntax

text \<open>
  The in-memory ring of recent events (\<open>pkg/storage/ringbuffer.go\<close>).  The agent is the single
  writer, so the model runs its operations one after the other; the counters \<open>head\<close> and
  \<open>tail\<close> are event counts, far below 64 bits.  Slots hold pointers, nil before the first write.
\<close>

record ring_buffer =
  rb_capacity :: int
  rb_mask :: int
  rb_entries :: "session_envelope option list"
  rb_head :: int
  rb_tail :: int

text \<open>
  The loop \<open>for actualCap < capacity { actualCap <<= 1 }\<close> on a 64-bit \<open>int\<close>: it does not
  return (\<open>None\<close>) when the doubling overflows before reaching the request.
\<close>

partial_function (option) grow_capacity :: "int \<Rightarrow> int \<Rightarrow> int option" where
  "grow_capacity actual capacity =
     (if actual < capacity then grow_capacity (wrap64 (2 * actual)) capacity else Some actual)"

definition new_ring_buffer :: "int \<Rightarrow> ring_buffer option" where
  "new_ring_buffer capacity = map_option (\<lambda>actual. \<lparr>rb_capacity = actual, rb_mask = actual - 1,
     rb_entries = replicate (nat actual) None, rb_head = 0, rb_tail = 0\<rparr>) (grow_capacity 1 capacity)"

definition rb_push :: "session_envelope option \<Rightarrow> ring_buffer \<Rightarrow> ring_buffer" where
  "rb_push env rb =
     (let idx = nat (rb_tail rb AND rb_mask rb);
          tail = rb_tail rb + 1;
          rb' = rb\<lparr>rb_entries := (rb_entries rb)[idx := env], rb_tail := tail\<rparr>
      in if rb_capacity rb < tail - rb_head rb then rb'\<lparr>rb_head := tail - rb_capacity rb\<rparr> else rb')"

text \<open>The reading loop over \<open>[head, tail)\<close>; \<open>n\<close> counts the remaining iterations.\<close>

fun rb_scan :: "ring_buffer \<Rightarrow> int \<Rightarrow> nat \<Rightarrow> int \<Rightarrow> session_envelope list" where
  "rb_scan rb from_seq 0 i = []"
| "rb_scan rb from_seq (Suc n) i =
     (case rb_entries rb ! nat (i AND rb_mask rb) of
        Some env \<Rightarrow> (if from_seq \<le> env_seq env then [env] else [])
      | None \<Rightarrow> []) @ rb_scan rb from_seq n (i + 1)"

definition rb_get_since :: "ring_buffer \<Rightarrow> int \<Rightarrow> session_envelope list" where
  "rb_get_since rb from_seq =
     (let count = rb_tail rb - rb_head rb
      in if count \<le> 0 then [] else rb_scan rb from_seq (nat count) (rb_head rb))"

definition rb_latest :: "ring_buffer \<Rightarrow> session_envelope option" where
  "rb_latest rb =
     (if rb_tail rb \<le> rb_head rb then None
      else rb_entries rb ! nat ((rb_tail rb - 1) AND rb_mask rb))"

definition rb_clear :: "ring_buffer \<Rightarrow> ring_buffer" where
  "rb_clear rb = rb\<lparr>rb_head := 0, rb_tail := 0, rb_entries := map (\<lambda>_. None) (rb_entries rb)\<rparr>"

section \<open>The capacity\<close>

lemma grow_capacity_power:
  assumes "capacity \<le> 2 ^ (k + d)" and "k + d \<le> 62"
    and "k = 0 \<or> 2 ^ (k - 1) < capacity"
  shows "\<exists>m\<le>62. grow_capacity (2 ^ k) capacity = Some (2 ^ m) \<and> capacity \<le> 2 ^ m \<and>
    (m = 0 \<or> 2 ^ (m - 1) < capacity)"
  using assms
proof (induction d arbitrary: k)
  case 0
  then show ?case by (intro exI [of _ k]) (simp add: grow_capacity.simps)
next
  case (Suc d)
  show ?case
  proof (cases "2 ^ k < capacity")
    case True
    have "(2 :: int) ^ Suc k \<le> 2 ^ 62" using Suc.prems(2) by (intro power_increasing) auto
    then have "in_int64 (2 ^ Suc k)" unfolding in_int64_def by (auto intro: order_trans [of _ 0])
    then have "wrap64 (2 * 2 ^ k) = 2 ^ Suc k" using wrap64_id by simp
    then have "grow_capacity (2 ^ k) capacity = grow_capacity (2 ^ Suc k) capacity"
      using True by (subst grow_capacity.simps) simp
    with Suc.IH [of "Suc k"] Suc.prems True show ?thesis by simp
  next
    case False
    with Suc.prems show ?thesis
      by (intro exI [of _ k]) (simp add: grow_capacity.simps)
  qed
qed

section \<open>Refinement: the last pushes\<close>

text \<open>The slots and counters after the pushes \<open>hist\<close> into a ring of \<open>2 ^ k\<close> slots.\<close>

definition rb_inv :: "nat \<Rightarrow> session_envelope option list \<Rightarrow> ring_buffer \<Rightarrow> bool" where
  "rb_inv k hist rb \<longleftrightarrow> rb_capacity rb = 2 ^ k \<and> rb_mask rb = 2 ^ k - 1 \<and>
     length (rb_entries rb) = 2 ^ k \<and> rb_tail rb = int (length hist) \<and>
     rb_head rb = int (length hist - 2 ^ k) \<and>
     (\<forall>i<length hist. length hist \<le> i + 2 ^ k \<longrightarrow> rb_entries rb ! (i mod 2 ^ k) = hist ! i)"

lemma and_mask_nat: "nat (int i AND (2 ^ k - 1)) = i mod 2 ^ k"
proof -
  have "int i AND (2 ^ k - 1) = int i mod 2 ^ k"
    by (simp flip: take_bit_eq_mod add: take_bit_eq_mask mask_eq_exp_minus_1)
  also have "\<dots> = int (i mod 2 ^ k)" by (simp add: zmod_int)
  finally show ?thesis by simp
qed

lemma rb_inv_new:
  assumes "grow_capacity 1 capacity = Some (2 ^ k)"
  shows "\<exists>rb. new_ring_buffer capacity = Some rb \<and> rb_inv k [] rb"
  using assms by (simp add: new_ring_buffer_def rb_inv_def nat_power_eq)

lemma rb_inv_clear: "rb_inv k hist rb \<Longrightarrow> rb_inv k [] (rb_clear rb)"
  by (simp add: rb_inv_def rb_clear_def)

lemma mod_window_neq:
  assumes "i < (n :: nat)" and "n < i + c"
  shows "i mod c \<noteq> n mod c"
proof
  assume "i mod c = n mod c"
  with assms(1) have "c dvd n - i" by (metis mod_eq_dvd_iff_nat less_imp_le)
  with assms show False by (auto dest: dvd_imp_le)
qed

lemma rb_head_push:
  "rb_head (rb_push env rb) = (if rb_capacity rb < rb_tail rb + 1 - rb_head rb
     then rb_tail rb + 1 - rb_capacity rb else rb_head rb)"
  by (simp add: rb_push_def Let_def)

lemma rb_inv_push:
  assumes "rb_inv k hist rb"
  shows "rb_inv k (hist @ [env]) (rb_push env rb)"
proof -
  let ?c = "2 ^ k :: nat" and ?n = "length hist"
  have idx: "nat (rb_tail rb AND rb_mask rb) = ?n mod ?c"
    using assms by (simp add: rb_inv_def and_mask_nat)
  have ents: "(rb_entries rb)[?n mod ?c := env] ! (i mod ?c) = (hist @ [env]) ! i"
    if "i < Suc ?n" "Suc ?n \<le> i + ?c" for i
  proof (cases "i = ?n")
    case True
    then show ?thesis using assms by (simp add: rb_inv_def)
  next
    case False
    with that have i: "i < ?n" "?n < i + ?c" by simp_all
    from mod_window_neq [OF this] i assms show ?thesis
      by (simp add: rb_inv_def nth_append eq_commute)
  qed
  have head: "rb_head (rb_push env rb) = int (Suc ?n - ?c)"
  proof -
    have t: "rb_capacity rb = int ?c" "rb_tail rb = int ?n" "rb_head rb = int (?n - ?c)"
      using assms by (simp_all add: rb_inv_def)
    show ?thesis unfolding rb_head_push t by arith
  qed
  have flds: "rb_capacity (rb_push env rb) = rb_capacity rb" "rb_mask (rb_push env rb) = rb_mask rb"
    "rb_entries (rb_push env rb) = (rb_entries rb)[?n mod ?c := env]"
    "rb_tail (rb_push env rb) = rb_tail rb + 1"
    by (simp_all add: rb_push_def Let_def idx)
  show ?thesis
    unfolding rb_inv_def flds head using assms ents by (auto simp: rb_inv_def)
qed

lemma rb_inv_run: "rb_inv k hist rb \<Longrightarrow> rb_inv k (hist @ envs) (fold rb_push envs rb)"
  using rb_inv_push by (induction envs arbitrary: hist rb) (simp, fastforce)

text \<open>The non-nil pointers of a slice.\<close>

fun somes :: "'a option list \<Rightarrow> 'a list" where
  "somes [] = []"
| "somes (None # ps) = somes ps"
| "somes (Some x # ps) = x # somes ps"

definition held :: "nat \<Rightarrow> session_envelope option list \<Rightarrow> session_envelope option list" where
  "held k hist = drop (length hist - 2 ^ k) hist"

lemma rb_scan_drop:
  assumes "rb_inv k hist rb" and "length hist \<le> i + 2 ^ k" and "i + n = length hist"
  shows "rb_scan rb from_seq n (int i) =
    filter (\<lambda>e. from_seq \<le> env_seq e) (somes (drop i hist))"
  using assms(2,3)
proof (induction n arbitrary: i)
  case 0
  then show ?case by (simp add: somes.simps)
next
  case (Suc n)
  then have i: "i < length hist" by simp
  have "rb_entries rb ! nat (int i AND rb_mask rb) = hist ! i"
    using assms(1) Suc.prems i by (simp add: rb_inv_def and_mask_nat)
  moreover have "rb_scan rb from_seq n (int i + 1) =
      filter (\<lambda>e. from_seq \<le> env_seq e) (somes (drop (Suc i) hist))"
    using Suc.IH [of "Suc i"] Suc.prems by (simp add: add.commute)
  ultimately show ?case
    using i by (simp add: Cons_nth_drop_Suc [symmetric] somes.simps split: option.splits)
qed

lemma rb_get_since_held:
  assumes "rb_inv k hist rb"
  shows "rb_get_since rb from_seq = filter (\<lambda>e. from_seq \<le> env_seq e) (somes (held k hist))"
proof (cases "hist = []")
  case True
  with assms show ?thesis by (simp add: rb_get_since_def rb_inv_def held_def somes.simps)
next
  case False
  have cnt: "nat (rb_tail rb - rb_head rb) = length hist - (length hist - 2 ^ k)"
    "0 < rb_tail rb - rb_head rb" "rb_head rb = int (length hist - 2 ^ k)"
    using assms False by (auto simp: rb_inv_def of_nat_diff)
  then show ?thesis
    using rb_scan_drop [OF assms, of "length hist - 2 ^ k" "length hist - (length hist - 2 ^ k)"]
    by (simp add: rb_get_since_def Let_def held_def)
qed

lemma rb_latest_held:
  assumes "rb_inv k hist rb"
  shows "rb_latest rb = (if hist = [] then None else last hist)"
proof (cases "hist = []")
  case False
  let ?i = "length hist - 1"
  have "0 < length hist" "(0::nat) < 2 ^ k" using False by simp_all
  then have "length hist - 2 ^ k < length hist" by simp
  then have "\<not> int (length hist) \<le> int (length hist - 2 ^ k)"
    by (simp only: of_nat_le_iff not_le)
  then have t: "rb_tail rb - 1 = int ?i" "\<not> rb_tail rb \<le> rb_head rb"
    using assms False unfolding rb_inv_def by (simp_all only: of_nat_diff Suc_le_eq) (simp add: of_nat_diff Suc_le_eq)
  have "(1 :: nat) \<le> 2 ^ k" by simp
  then have "?i < length hist" "length hist \<le> ?i + 2 ^ k" using \<open>0 < length hist\<close> by linarith+
  then have e: "rb_entries rb ! (?i mod 2 ^ k) = hist ! ?i"
    using assms unfolding rb_inv_def by blast
  have m: "rb_mask rb = 2 ^ k - 1" using assms by (simp add: rb_inv_def)
  show ?thesis unfolding rb_latest_def t(1) m and_mask_nat using t(2) e False by (simp add: last_conv_nth)
qed (use assms in \<open>simp add: rb_latest_def rb_inv_def\<close>)

section \<open>Property\<close>

text \<open>
  C36. A ring requested with at most \<open>2 ^ 62\<close> slots is created (the doubling loop ends) with the
  smallest sufficient power of two as its capacity, and after any pushes it answers
  \<open>GetSince\<close> with the last pushed events that fit, in order, filtered by seq, and
  \<open>Latest\<close> with the last push.
\<close>
theorem ring_keeps_latest:
  assumes "capacity \<le> 2 ^ 62"
  shows "\<exists>k rb. new_ring_buffer capacity = Some rb \<and> capacity \<le> 2 ^ k \<and> (k = 0 \<or> 2 ^ (k - 1) < capacity) \<and>
    (\<forall>hist from_seq. rb_get_since (fold rb_push hist rb) from_seq =
         filter (\<lambda>e. from_seq \<le> env_seq e) (somes (drop (length hist - 2 ^ k) hist)) \<and>
       rb_latest (fold rb_push hist rb) = (if hist = [] then None else last hist))"
proof -
  from grow_capacity_power [of capacity 0 62] assms
  obtain k where k: "grow_capacity 1 capacity = Some (2 ^ k)" "capacity \<le> 2 ^ k"
    "k = 0 \<or> 2 ^ (k - 1) < capacity" by auto
  from rb_inv_new [OF k(1)] obtain rb where rb: "new_ring_buffer capacity = Some rb" "rb_inv k [] rb"
    by blast
  from rb_inv_run [OF rb(2)] have inv: "rb_inv k hist (fold rb_push hist rb)" for hist by simp
  from rb(1) k(2,3) rb_get_since_held [OF inv] rb_latest_held [OF inv] show ?thesis
    unfolding held_def by blast
qed

lemma ring_keeps_latest_witness:
  "\<exists>k rb. new_ring_buffer 3 = Some rb \<and> (3 :: int) \<le> 2 ^ k \<and> (k = 0 \<or> (2 :: int) ^ (k - 1) < 3) \<and>
     rb_latest (fold rb_push [None, Some (new_envelope 7 0 EventTurnStart JNull)] rb) =
       Some (new_envelope 7 0 EventTurnStart JNull)"
proof -
  let ?hist = "[None, Some (new_envelope 7 0 EventTurnStart JNull)]"
  obtain k rb where rb: "new_ring_buffer 3 = Some rb" "(3 :: int) \<le> 2 ^ k" "k = 0 \<or> (2 :: int) ^ (k - 1) < 3"
    and all: "\<forall>hist. rb_latest (fold rb_push hist rb) = (if hist = [] then None else last hist)"
    using ring_keeps_latest [of 3] by auto
  from spec [OF all, of ?hist]
  have "rb_latest (fold rb_push ?hist rb) = Some (new_envelope 7 0 EventTurnStart JNull)"
    by (simp del: fold_simps)
  with rb show ?thesis by blast
qed

end
