(* ===== verification/Agent_Log.thy ===== *)
theory Agent_Log imports Session_Messages Ring_Buffer begin

text \<open>
  How an agent grows its session log (\<open>pkg/agent/loop.go\<close>): the turn and step machine, the
  sequence counter, the durable append, the in-memory views and the log cache.  The store
  is the list of the events it holds; its append refuses every seq but the next one
  (\<open>appendBatch\<close> in \<open>pkg/storage/store_sqlite.go\<close>) and may fail for reasons of its own, which
  \<open>ag_faults\<close> scripts: one flag per coming append, none failing once the script is used up.
\<close>

section \<open>State\<close>

datatype emit_error =
    InvalidTransition string int
  | BadPayload
  | PersistFault
  | PersistSeq int int

record agent =
  ag_seq_counter :: int
  ag_turn_number :: int
  ag_step_number :: int
  ag_active_turn :: int
  ag_active_step :: int
  ag_persist :: "session_envelope list option"
  ag_faults :: "bool list"
  ag_ring :: "ring_buffer option"
  ag_segment :: "session_envelope list option"
  ag_subscribers :: "(nat \<times> session_envelope list) list"
  ag_log_cache :: "session_envelope list"
  ag_cache_warm :: bool
  ag_last_cached :: int

text \<open>A payload of Go type \<open>any\<close>: \<open>TurnEndPayload\<close> is told apart by a type switch.\<close>

datatype event_payload = TurnEndP int json | AnyP raw_message

definition turn_end_json :: "int \<Rightarrow> json \<Rightarrow> json" where
  "turn_end_json turn reason = JObj [(''turn'', JInt turn), (''reason'', reason)]"

definition turn_json :: "int \<Rightarrow> json" where
  "turn_json turn = JObj [(''turn'', JInt turn)]"

definition turn_step_json :: "int \<Rightarrow> int \<Rightarrow> json" where
  "turn_step_json turn step = JObj [(''turn'', JInt turn), (''step'', JInt step)]"

definition payload_json :: "event_payload \<Rightarrow> raw_message" where
  "payload_json p = (case p of TurnEndP turn reason \<Rightarrow> Some (turn_end_json turn reason) | AnyP raw \<Rightarrow> raw)"

section \<open>The durable store\<close>

definition stored_next :: "session_envelope list \<Rightarrow> int" where
  "stored_next events = (if events = [] then 0 else env_seq (last events) + 1)"

text \<open>The check of \<open>appendBatch\<close> for a batch of one event; \<open>fault\<close> is a failing transaction.\<close>

definition append_batch :: "bool \<Rightarrow> session_envelope list \<Rightarrow> session_envelope \<Rightarrow> emit_error + session_envelope list" where
  "append_batch fault events env =
     (if fault then Inl PersistFault
      else if env_seq env \<noteq> stored_next events then Inl (PersistSeq (env_seq env) (stored_next events))
      else Inr (events @ [env]))"

definition get_events :: "session_envelope list \<Rightarrow> int \<Rightarrow> session_envelope list" where
  "get_events events from_seq = filter (\<lambda>e. from_seq \<le> env_seq e) events"

section \<open>The turn and step machine\<close>

definition validate_transition :: "string \<Rightarrow> agent \<Rightarrow> agent \<times> emit_error option" where
  "validate_transition ty a =
     (if ty = EventTurnStart then
        (if ag_active_turn a \<noteq> 0 then (a, Some (InvalidTransition ty (ag_active_turn a)))
         else (a\<lparr>ag_turn_number := ag_turn_number a + 1, ag_active_turn := ag_turn_number a + 1,
                 ag_active_step := 0\<rparr>, None))
      else if ty = EventTurnEnd then
        (if ag_active_turn a = 0 then (a, Some (InvalidTransition ty 0))
         else if ag_active_step a \<noteq> 0 then (a, Some (InvalidTransition ty (ag_active_step a)))
         else (a\<lparr>ag_active_turn := 0\<rparr>, None))
      else if ty = EventStepStart then
        (if ag_active_turn a = 0 then (a, Some (InvalidTransition ty 0))
         else if ag_active_step a \<noteq> 0 then (a, Some (InvalidTransition ty (ag_active_step a)))
         else (a\<lparr>ag_step_number := ag_step_number a + 1, ag_active_step := ag_step_number a + 1\<rparr>, None))
      else if ty = EventStepEnd then
        (if ag_active_step a = 0 then (a, Some (InvalidTransition ty 0))
         else (a\<lparr>ag_active_step := 0\<rparr>, None))
      else (a, None))"

text \<open>The boundary payloads; \<open>pre\<close> is the state before the transition, \<open>post\<close> after it.\<close>

definition boundary_payload :: "string \<Rightarrow> agent \<Rightarrow> agent \<Rightarrow> event_payload \<Rightarrow> event_payload" where
  "boundary_payload ty pre post p =
     (if ty = EventTurnStart then AnyP (Some (turn_json (ag_active_turn post)))
      else if ty = EventStepStart then AnyP (Some (turn_step_json (ag_active_turn post) (ag_active_step post)))
      else if ty = EventStepEnd then AnyP (Some (turn_step_json (ag_active_turn pre) (ag_active_step pre)))
      else if ty = EventTurnEnd then
        (case p of TurnEndP turn reason \<Rightarrow> TurnEndP (ag_active_turn pre) reason | AnyP raw \<Rightarrow> AnyP raw)
      else p)"

section \<open>Emitting\<close>

definition reserve_seq :: "agent \<Rightarrow> agent \<times> int" where
  "reserve_seq a = (a\<lparr>ag_seq_counter := ag_seq_counter a + 1\<rparr>, ag_seq_counter a)"

definition persist_event :: "session_envelope \<Rightarrow> agent \<Rightarrow> agent \<times> emit_error option" where
  "persist_event env a =
     (case ag_persist a of
        None \<Rightarrow> (a, None)
      | Some events \<Rightarrow>
          (let fault = (case ag_faults a of f # _ \<Rightarrow> f | [] \<Rightarrow> False);
               a' = a\<lparr>ag_faults := tl (ag_faults a)\<rparr>
           in case append_batch fault events env of
                Inl e \<Rightarrow> (a', Some e)
              | Inr events' \<Rightarrow> (a'\<lparr>ag_persist := Some events'\<rparr>, None)))"

text \<open>A subscriber's channel holds 256 events; a send to a full one is dropped.\<close>

definition fan_out :: "session_envelope \<Rightarrow> (nat \<times> session_envelope list) list \<Rightarrow> (nat \<times> session_envelope list) list" where
  "fan_out env subs = map (\<lambda>(i, q). (i, if length q < 256 then q @ [env] else q)) subs"

definition publish :: "session_envelope \<Rightarrow> agent \<Rightarrow> agent" where
  "publish env a = a\<lparr>ag_ring := map_option (rb_push (Some env)) (ag_ring a),
     ag_segment := map_option (\<lambda>l. l @ [env]) (ag_segment a),
     ag_subscribers := fan_out env (ag_subscribers a)\<rparr>"

definition cache_append :: "session_envelope \<Rightarrow> agent \<Rightarrow> agent" where
  "cache_append env a =
     (if \<not> ag_cache_warm a \<or> env_seq env \<le> ag_last_cached a then a
      else a\<lparr>ag_log_cache := ag_log_cache a @ [env], ag_last_cached := env_seq env\<rparr>)"

definition emit_event ::
  "string \<Rightarrow> event_payload \<Rightarrow> surface_op option \<Rightarrow> int \<Rightarrow> agent \<Rightarrow> agent \<times> (emit_error + session_envelope)" where
  "emit_event ty payload op now a =
     (case validate_transition ty a of
        (a1, Some e) \<Rightarrow> (a1, Inl e)
      | (a1, None) \<Rightarrow>
          (let payload' = boundary_payload ty a a1 payload;
               (a2, sq) = reserve_seq a1
           in case payload_json payload' of
                None \<Rightarrow> (a2, Inl BadPayload)
              | Some data \<Rightarrow>
                  (let env = (new_envelope sq now ty data)\<lparr>env_surface_op := op\<rparr>
                   in case persist_event env a2 of
                        (a3, Some e) \<Rightarrow> (a3, Inl e)
                      | (a3, None) \<Rightarrow> (cache_append env (publish env a3), Inr env))))"

definition emit_raw :: "session_envelope \<Rightarrow> agent \<Rightarrow> agent \<times> (emit_error + session_envelope)" where
  "emit_raw env0 a =
     (let (a1, sq) = reserve_seq a; env = env0\<lparr>env_seq := sq\<rparr>
      in case persist_event env a1 of
           (a2, Some e) \<Rightarrow> (a2, Inl e)
         | (a2, None) \<Rightarrow> (publish env a2, Inr env))"

definition subscribe :: "nat \<Rightarrow> agent \<Rightarrow> agent" where
  "subscribe ch a = a\<lparr>ag_subscribers := ag_subscribers a @ [(ch, [])]\<rparr>"

definition unsubscribe :: "nat \<Rightarrow> agent \<Rightarrow> agent" where
  "unsubscribe ch a = a\<lparr>ag_subscribers := delete_first (\<lambda>s. fst s = ch) (ag_subscribers a)\<rparr>"

section \<open>The log cache\<close>

definition invalidate_log_cache :: "agent \<Rightarrow> agent" where
  "invalidate_log_cache a = a\<lparr>ag_log_cache := [], ag_last_cached := - 1, ag_cache_warm := False\<rparr>"

definition last_seq :: "session_envelope list \<Rightarrow> int" where
  "last_seq events = (if events = [] then - 1 else env_seq (last events))"

fun top_up :: "session_envelope list \<Rightarrow> session_envelope list \<Rightarrow> int \<Rightarrow> session_envelope list \<times> int" where
  "top_up [] cache lst = (cache, lst)"
| "top_up (e # es) cache lst =
     (if env_seq e \<le> lst then top_up es cache lst else top_up es (cache @ [e]) (env_seq e))"

text \<open>The two reads may fail: \<open>first\<close> and \<open>second\<close> say that the store answers.\<close>

definition cached_session_events :: "bool \<Rightarrow> bool \<Rightarrow> agent \<Rightarrow> agent \<times> session_envelope list" where
  "cached_session_events first second a =
     (let stored = (case ag_persist a of Some l \<Rightarrow> l | None \<Rightarrow> []);
          load = (\<lambda>es. a\<lparr>ag_log_cache := es, ag_last_cached := last_seq es, ag_cache_warm := True\<rparr>)
      in if \<not> ag_cache_warm a then
           (if \<not> first then (a, []) else (load (get_events stored 0), get_events stored 0))
         else if \<not> first then
           (if \<not> second then (a, ag_log_cache a) else (load (get_events stored 0), get_events stored 0))
         else (let (cache, lst) = top_up (get_events stored (ag_last_cached a + 1)) (ag_log_cache a) (ag_last_cached a)
               in (a\<lparr>ag_log_cache := cache, ag_last_cached := lst\<rparr>, cache)))"

section \<open>A new agent\<close>

definition boundary_turn :: "session_envelope \<Rightarrow> int option" where
  "boundary_turn e =
     (if env_type e = EventTurnStart \<or> env_type e = EventTurnEnd
      then unmarshal (dec_int ''turn'') (env_data e) else None)"

fun max_turn :: "session_envelope list \<Rightarrow> int \<Rightarrow> int" where
  "max_turn [] m = m"
| "max_turn (e # es) m =
     max_turn es (case boundary_turn e of Some t \<Rightarrow> (if m < t then t else m) | None \<Rightarrow> m)"

text \<open>The full read of the store may fail, which is treated like an empty log; \<open>answers\<close> says that it does not.\<close>

definition seed_seq_from :: "bool \<Rightarrow> session_envelope list option \<Rightarrow> int \<times> int \<times> session_envelope list" where
  "seed_seq_from answers store = (case store of
      None \<Rightarrow> (0, 0, [])
    | Some events \<Rightarrow> (if \<not> answers \<or> events = [] then (0, 0, [])
        else (env_seq (last events) + 1, max_turn events 0, events)))"

definition new_agent :: "bool \<Rightarrow> session_envelope list option \<Rightarrow> bool list \<Rightarrow> ring_buffer option \<Rightarrow>
    session_envelope list option \<Rightarrow> agent" where
  "new_agent answers store faults ring segment =
     (let (sq, turn, events) = seed_seq_from answers store
      in \<lparr>ag_seq_counter = sq, ag_turn_number = turn, ag_step_number = 0, ag_active_turn = 0,
          ag_active_step = 0, ag_persist = store, ag_faults = faults, ag_ring = ring, ag_segment = segment,
          ag_subscribers = [], ag_log_cache = events,
          ag_cache_warm = (events \<noteq> []),
          ag_last_cached = (if events = [] then 0 else env_seq (last events))\<rparr>)"

definition reset_steps :: "agent \<Rightarrow> agent" where
  "reset_steps a = a\<lparr>ag_step_number := 0\<rparr>"

section \<open>Contiguity of the durable log\<close>

definition numbered :: "session_envelope list \<Rightarrow> bool" where
  "numbered events \<longleftrightarrow> map env_seq events = map int [0..<length events]"

lemma numbered_Nil [simp]: "numbered []"
  by (simp add: numbered_def)

lemma numbered_snoc: "numbered (es @ [e]) \<longleftrightarrow> numbered es \<and> env_seq e = int (length es)"
  by (auto simp: numbered_def)

lemma numbered_nth: "numbered es \<Longrightarrow> i < length es \<Longrightarrow> env_seq (es ! i) = int i"
  unfolding numbered_def by (metis add_0 diff_zero length_map length_upt nth_map nth_upt)

lemma numbered_last: "numbered es \<Longrightarrow> es \<noteq> [] \<Longrightarrow> env_seq (last es) = int (length es) - 1"
  using numbered_nth [of es "length es - 1"] by (auto simp: last_conv_nth of_nat_diff Suc_le_eq)

lemma stored_next_numbered [simp]: "numbered es \<Longrightarrow> stored_next es = int (length es)"
  by (auto simp: stored_next_def numbered_last)

lemma numbered_contiguous: "numbered es \<Longrightarrow> contiguous (map Some es) 0 (length es)"
  by (auto simp: contiguous_def numbered_nth)

lemma append_batch_iff:
  "append_batch fault es e = Inr es' \<longleftrightarrow> \<not> fault \<and> env_seq e = stored_next es \<and> es' = es @ [e]"
  by (auto simp: append_batch_def)

text \<open>What is true of an agent with a store after any operations: the counter never lags.\<close>

definition log_inv :: "agent \<Rightarrow> bool" where
  "log_inv a \<longleftrightarrow> (\<exists>log. ag_persist a = Some log \<and> numbered log \<and> int (length log) \<le> ag_seq_counter a)"

text \<open>Without the bound on the counter, which an agent that could not read its log violates.\<close>

definition log_kept :: "agent \<Rightarrow> bool" where
  "log_kept a \<longleftrightarrow> (\<exists>log. ag_persist a = Some log \<and> numbered log)"

definition durable_log :: "agent \<Rightarrow> session_envelope list" where
  "durable_log a = (case ag_persist a of Some log \<Rightarrow> log | None \<Rightarrow> [])"

text \<open>An agent that has lost no number, with a store that does not fail.\<close>

definition healthy :: "agent \<Rightarrow> bool" where
  "healthy a \<longleftrightarrow> log_inv a \<and> ag_faults a = [] \<and> ag_seq_counter a = int (length (durable_log a))"

lemma validate_transition_frame:
  "ag_seq_counter (fst (validate_transition ty a)) = ag_seq_counter a"
  "ag_persist (fst (validate_transition ty a)) = ag_persist a"
  "ag_faults (fst (validate_transition ty a)) = ag_faults a"
  "ag_log_cache (fst (validate_transition ty a)) = ag_log_cache a"
  "ag_cache_warm (fst (validate_transition ty a)) = ag_cache_warm a"
  "ag_last_cached (fst (validate_transition ty a)) = ag_last_cached a"
  by (simp_all add: validate_transition_def)

lemma publish_frame [simp]:
  "ag_seq_counter (publish env a) = ag_seq_counter a" "ag_persist (publish env a) = ag_persist a"
  "ag_active_turn (publish env a) = ag_active_turn a" "ag_active_step (publish env a) = ag_active_step a"
  "ag_turn_number (publish env a) = ag_turn_number a" "ag_step_number (publish env a) = ag_step_number a"
  "ag_log_cache (publish env a) = ag_log_cache a" "ag_cache_warm (publish env a) = ag_cache_warm a"
  "ag_last_cached (publish env a) = ag_last_cached a" "ag_faults (publish env a) = ag_faults a"
  by (simp_all add: publish_def)

lemma cache_append_frame [simp]:
  "ag_seq_counter (cache_append env a) = ag_seq_counter a" "ag_persist (cache_append env a) = ag_persist a"
  "ag_active_turn (cache_append env a) = ag_active_turn a" "ag_active_step (cache_append env a) = ag_active_step a"
  "ag_turn_number (cache_append env a) = ag_turn_number a" "ag_step_number (cache_append env a) = ag_step_number a"
  "ag_faults (cache_append env a) = ag_faults a" "ag_cache_warm (cache_append env a) = ag_cache_warm a"
  by (simp_all add: cache_append_def)

text \<open>One durable append: the counter moves on whether or not the store took the event.\<close>

lemma persist_event_cases:
  assumes "ag_persist a = Some log"
  shows "(\<exists>e. persist_event env a = (a\<lparr>ag_faults := tl (ag_faults a)\<rparr>, Some e)) \<or>
    env_seq env = stored_next log \<and> (case ag_faults a of [] \<Rightarrow> True | f # _ \<Rightarrow> \<not> f) \<and>
    persist_event env a = (a\<lparr>ag_faults := tl (ag_faults a), ag_persist := Some (log @ [env])\<rparr>, None)"
proof (cases "append_batch (case ag_faults a of f # _ \<Rightarrow> f | [] \<Rightarrow> False) log env")
  case (Inl e)
  with assms show ?thesis by (simp add: persist_event_def Let_def)
next
  case (Inr log')
  then have "(case ag_faults a of [] \<Rightarrow> True | f # _ \<Rightarrow> \<not> f)" "env_seq env = stored_next log" "log' = log @ [env]"
    by (auto simp: append_batch_iff split: list.splits)
  with Inr assms show ?thesis by (simp add: persist_event_def Let_def)
qed

lemma reserve_seq_simps [simp]:
  "fst (reserve_seq a) = a\<lparr>ag_seq_counter := ag_seq_counter a + 1\<rparr>" "snd (reserve_seq a) = ag_seq_counter a"
  by (simp_all add: reserve_seq_def)

text \<open>The effect of one emission on the log and the counter.\<close>

definition appends_one :: "agent \<Rightarrow> agent \<Rightarrow> emit_error + session_envelope \<Rightarrow> bool" where
  "appends_one a a' r \<longleftrightarrow> (case r of
      Inr env \<Rightarrow> env_seq env = int (length (durable_log a)) \<and> durable_log a' = durable_log a @ [env] \<and>
        ag_seq_counter a = int (length (durable_log a)) \<and> ag_seq_counter a' = ag_seq_counter a + 1
    | Inl e \<Rightarrow> durable_log a' = durable_log a \<and> ag_seq_counter a \<le> ag_seq_counter a' \<and>
        (e = PersistFault \<longrightarrow> int (length (durable_log a')) < ag_seq_counter a'))"

lemma log_invE:
  assumes "log_inv a"
  obtains log where "ag_persist a = Some log" "numbered log" "durable_log a = log"
    "int (length log) \<le> ag_seq_counter a"
  using assms by (auto simp: log_inv_def durable_log_def)

lemma log_inv_kept: "log_inv a \<longleftrightarrow> log_kept a \<and> int (length (durable_log a)) \<le> ag_seq_counter a"
  by (auto simp: log_inv_def log_kept_def durable_log_def)

text \<open>What an emission does to the log and the counter, wherever the counter stands.\<close>

definition emits_one :: "agent \<Rightarrow> agent \<Rightarrow> emit_error + session_envelope \<Rightarrow> bool" where
  "emits_one a a' r \<longleftrightarrow> (case r of
      Inr env \<Rightarrow> env_seq env = int (length (durable_log a)) \<and> durable_log a' = durable_log a @ [env] \<and>
        ag_seq_counter a = int (length (durable_log a)) \<and> ag_seq_counter a' = ag_seq_counter a + 1
    | Inl e \<Rightarrow> durable_log a' = durable_log a \<and> ag_seq_counter a \<le> ag_seq_counter a' \<and>
        (e = PersistFault \<longrightarrow> ag_seq_counter a' = ag_seq_counter a + 1))"

lemma emits_appends: "log_inv a \<Longrightarrow> log_kept a' \<Longrightarrow> emits_one a a' r \<Longrightarrow> log_inv a' \<and> appends_one a a' r"
  by (auto simp: log_inv_kept emits_one_def appends_one_def split: sum.splits)

lemma persist_effect:
  assumes "log_kept a" and "env_seq env = ag_seq_counter a" and "ag_persist b = ag_persist a"
    and "ag_seq_counter b = ag_seq_counter a + 1" and "persist_event env b = (c, r)"
  shows "log_kept c \<and> ag_seq_counter c = ag_seq_counter b \<and> (case r of
      None \<Rightarrow> ag_seq_counter a = int (length (durable_log a)) \<and> durable_log c = durable_log a @ [env]
    | Some e \<Rightarrow> durable_log c = durable_log a)"
proof -
  obtain log where log: "ag_persist a = Some log" "numbered log" "durable_log a = log"
    using assms(1) by (auto simp: log_kept_def durable_log_def)
  have "ag_persist b = Some log" using log assms(3) by simp
  from persist_event_cases [OF this, of env] show ?thesis
  proof (elim disjE exE conjE)
    fix e assume "persist_event env b = (b\<lparr>ag_faults := tl (ag_faults b)\<rparr>, Some e)"
    with assms log show ?thesis by (auto simp: log_kept_def durable_log_def)
  next
    assume "env_seq env = stored_next log"
      "persist_event env b = (b\<lparr>ag_faults := tl (ag_faults b), ag_persist := Some (log @ [env])\<rparr>, None)"
    with assms log show ?thesis by (auto simp: log_kept_def durable_log_def numbered_snoc)
  qed
qed

lemma emit_event_kept:
  assumes "log_kept a" and "emit_event ty payload op now a = (a', r)"
  shows "log_kept a' \<and> emits_one a a' r"
proof -
  obtain a1 q where vt: "validate_transition ty a = (a1, q)" by fastforce
  have frame: "ag_seq_counter a1 = ag_seq_counter a" "ag_persist a1 = ag_persist a"
    using validate_transition_frame [of ty a] vt by simp_all
  then have dl: "durable_log a1 = durable_log a" "log_kept a1"
    using assms(1) by (simp_all add: durable_log_def log_kept_def)
  show ?thesis
  proof (cases q)
    case (Some e)
    moreover have "e \<noteq> PersistFault" using vt Some by (auto simp: validate_transition_def split: if_splits)
    ultimately show ?thesis using assms vt dl frame by (auto simp: emit_event_def emits_one_def)
  next
    case None
    let ?a2 = "a1\<lparr>ag_seq_counter := ag_seq_counter a1 + 1\<rparr>"
    have inv2: "log_kept ?a2" "durable_log ?a2 = durable_log a"
      using dl by (auto simp: log_kept_def durable_log_def)
    show ?thesis
    proof (cases "payload_json (boundary_payload ty a a1 payload)")
      case pl: None
      with assms vt None inv2 frame show ?thesis
        by (auto simp: emit_event_def emits_one_def reserve_seq_def Let_def)
    next
      case (Some data)
      let ?env = "(new_envelope (ag_seq_counter a1) now ty data)\<lparr>env_surface_op := op\<rparr>"
      obtain c e where pe: "persist_event ?env ?a2 = (c, e)" by fastforce
      have sq: "env_seq ?env = ag_seq_counter a1" by (simp add: new_envelope_def)
      have fr: "ag_persist ?a2 = ag_persist a1" "ag_seq_counter ?a2 = ag_seq_counter a1 + 1" by simp_all
      note eff = persist_effect [OF dl(2) sq fr pe]
      show ?thesis
      proof (cases e)
        case None
        have "a' = cache_append ?env (publish ?env c)" "r = Inr ?env"
          using None \<open>q = None\<close> Some pe vt assms(2)
          by (simp_all add: emit_event_def reserve_seq_def Let_def)
        moreover have "log_kept (cache_append ?env (publish ?env c)) = log_kept c"
          "durable_log (cache_append ?env (publish ?env c)) = durable_log c"
          by (simp_all add: log_kept_def durable_log_def)
        ultimately show ?thesis using eff None dl frame sq by (simp add: emits_one_def)
      next
        case err: (Some x)
        with \<open>q = None\<close> Some pe vt assms(2) have "a' = c" "r = Inl x"
          by (simp_all add: emit_event_def reserve_seq_def Let_def)
        with eff err dl frame show ?thesis by (auto simp: emits_one_def)
      qed
    qed
  qed
qed

lemma emit_raw_kept:
  assumes "log_kept a" and "emit_raw env a = (a', r)"
  shows "log_kept a' \<and> emits_one a a' r"
proof -
  let ?env = "env\<lparr>env_seq := ag_seq_counter a\<rparr>" and ?b = "a\<lparr>ag_seq_counter := ag_seq_counter a + 1\<rparr>"
  obtain c e where pe: "persist_event ?env ?b = (c, e)" by fastforce
  have eff: "log_kept c \<and> ag_seq_counter c = ag_seq_counter ?b \<and> (case e of
      None \<Rightarrow> ag_seq_counter a = int (length (durable_log a)) \<and> durable_log c = durable_log a @ [?env]
    | Some e \<Rightarrow> durable_log c = durable_log a)"
    by (rule persist_effect [OF assms(1) _ _ _ pe]) simp_all
  show ?thesis
  proof (cases e)
    case None
    with pe assms(2) have "a' = publish ?env c" "r = Inr ?env"
      by (simp_all add: emit_raw_def reserve_seq_def Let_def)
    moreover have "log_kept (publish ?env c) = log_kept c" "durable_log (publish ?env c) = durable_log c"
      by (simp_all add: log_kept_def durable_log_def)
    ultimately show ?thesis using eff None by (simp add: emits_one_def)
  next
    case (Some x)
    with pe assms(2) have "a' = c" "r = Inl x" by (simp_all add: emit_raw_def reserve_seq_def Let_def)
    with eff Some show ?thesis by (auto simp: emits_one_def)
  qed
qed

lemma emit_event_effect:
  assumes "log_inv a" and "emit_event ty payload op now a = (a', r)"
  shows "log_inv a' \<and> appends_one a a' r"
proof -
  have "log_kept a" using assms(1) by (simp add: log_inv_kept)
  then show ?thesis using emits_appends [OF assms(1)] emit_event_kept [OF _ assms(2)] by blast
qed

lemma emit_raw_effect:
  assumes "log_inv a" and "emit_raw env a = (a', r)"
  shows "log_inv a' \<and> appends_one a a' r"
proof -
  have "log_kept a" using assms(1) by (simp add: log_inv_kept)
  then show ?thesis using emits_appends [OF assms(1)] emit_raw_kept [OF _ assms(2)] by blast
qed

section \<open>Sequences of operations\<close>

datatype agent_op =
    OpEmit string event_payload "surface_op option" int
  | OpRaw session_envelope
  | OpInvalidate
  | OpRead bool bool
  | OpResetSteps
  | OpSubscribe nat
  | OpUnsubscribe nat

fun agent_step :: "agent_op \<Rightarrow> agent \<Rightarrow> agent" where
  "agent_step (OpEmit ty p op now) a = fst (emit_event ty p op now a)"
| "agent_step (OpRaw env) a = fst (emit_raw env a)"
| "agent_step OpInvalidate a = invalidate_log_cache a"
| "agent_step (OpRead x y) a = fst (cached_session_events x y a)"
| "agent_step OpResetSteps a = reset_steps a"
| "agent_step (OpSubscribe ch) a = subscribe ch a"
| "agent_step (OpUnsubscribe ch) a = unsubscribe ch a"

lemma read_frame:
  "ag_seq_counter (fst (cached_session_events x y a)) = ag_seq_counter a"
  "ag_persist (fst (cached_session_events x y a)) = ag_persist a"
  by (simp_all add: cached_session_events_def Let_def split: prod.splits)

lemma agent_step_log:
  assumes "log_inv a"
  shows "log_inv (agent_step x a) \<and> (\<exists>new. durable_log (agent_step x a) = durable_log a @ new \<and> length new \<le> 1) \<and>
    (int (length (durable_log a)) < ag_seq_counter a \<longrightarrow> durable_log (agent_step x a) = durable_log a \<and>
       ag_seq_counter a \<le> ag_seq_counter (agent_step x a))"
proof -
  have one: "log_inv a' \<and> (\<exists>new. durable_log a' = durable_log a @ new \<and> length new \<le> 1) \<and>
      (int (length (durable_log a)) < ag_seq_counter a \<longrightarrow> durable_log a' = durable_log a \<and>
         ag_seq_counter a \<le> ag_seq_counter a')"
    if "log_inv a'" "appends_one a a' r" for a' r
    using that by (auto simp: appends_one_def split: sum.splits)
  have same: "log_inv a' \<and> (\<exists>new. durable_log a' = durable_log a @ new \<and> length new \<le> 1) \<and>
      (int (length (durable_log a)) < ag_seq_counter a \<longrightarrow> durable_log a' = durable_log a \<and>
         ag_seq_counter a \<le> ag_seq_counter a')"
    if "ag_persist a' = ag_persist a" "ag_seq_counter a' = ag_seq_counter a" for a'
    using that assms by (auto simp: log_inv_def durable_log_def)
  show ?thesis
  proof (cases x)
    case (OpEmit ty p op now)
    then show ?thesis using one emit_event_effect [OF assms, of ty p op now] by (metis agent_step.simps(1) prod.collapse)
  next
    case (OpRaw env)
    then show ?thesis using one emit_raw_effect [OF assms, of env] by (metis agent_step.simps(2) prod.collapse)
  qed (rule same; simp add: invalidate_log_cache_def reset_steps_def subscribe_def unsubscribe_def read_frame)+
qed

lemma agent_run_log:
  "log_inv a \<Longrightarrow> log_inv (fold agent_step ops a) \<and> (\<exists>new. durable_log (fold agent_step ops a) = durable_log a @ new \<and>
     length new \<le> length ops)"
proof (induction ops arbitrary: a)
  case (Cons x ops)
  note st = agent_step_log [OF Cons.prems, of x]
  from Cons.IH [of "agent_step x a"] st obtain new new' where
    "durable_log (agent_step x a) = durable_log a @ new" "length new \<le> 1"
    "durable_log (fold agent_step ops (agent_step x a)) = durable_log (agent_step x a) @ new'" "length new' \<le> length ops"
    "log_inv (fold agent_step ops (agent_step x a))" by blast
  then show ?case by (intro conjI exI [of _ "new @ new'"]) auto
qed simp

lemma agent_run_wedged:
  "log_inv a \<Longrightarrow> int (length (durable_log a)) < ag_seq_counter a \<Longrightarrow>
     durable_log (fold agent_step ops a) = durable_log a"
proof (induction ops arbitrary: a)
  case (Cons x ops)
  note st = agent_step_log [OF Cons.prems(1), of x]
  with Cons.prems(2) have "int (length (durable_log (agent_step x a))) < ag_seq_counter (agent_step x a)" by auto
  with Cons.IH [of "agent_step x a"] st Cons.prems(2) show ?case by simp
qed simp

text \<open>The log is extended at its end by at most one event per operation.\<close>

lemma agent_step_kept:
  assumes "log_kept a"
  shows "log_kept (agent_step x a) \<and> (\<exists>new. durable_log (agent_step x a) = durable_log a @ new \<and> length new \<le> 1)"
proof -
  have one: "log_kept a' \<and> (\<exists>new. durable_log a' = durable_log a @ new \<and> length new \<le> 1)"
    if "log_kept a'" "emits_one a a' r" for a' r
    using that by (auto simp: emits_one_def split: sum.splits)
  have same: "log_kept a' \<and> (\<exists>new. durable_log a' = durable_log a @ new \<and> length new \<le> 1)" if "ag_persist a' = ag_persist a" for a'
    using that assms by (auto simp: log_kept_def durable_log_def)
  show ?thesis
  proof (cases x)
    case (OpEmit ty p op now)
    then show ?thesis using one emit_event_kept [OF assms, of ty p op now] by (metis agent_step.simps(1) prod.collapse)
  next
    case (OpRaw env)
    then show ?thesis using one emit_raw_kept [OF assms, of env] by (metis agent_step.simps(2) prod.collapse)
  qed (rule same; simp add: invalidate_log_cache_def reset_steps_def subscribe_def unsubscribe_def read_frame)+
qed

lemma agent_run_kept:
  "log_kept a \<Longrightarrow> log_kept (fold agent_step ops a) \<and> (\<exists>new. durable_log (fold agent_step ops a) = durable_log a @ new \<and>
     length new \<le> length ops)"
proof (induction ops arbitrary: a)
  case (Cons x ops)
  note st = agent_step_kept [OF Cons.prems, of x]
  from Cons.IH [of "agent_step x a"] st obtain new new' where
    "durable_log (agent_step x a) = durable_log a @ new" "length new \<le> 1"
    "durable_log (fold agent_step ops (agent_step x a)) = durable_log (agent_step x a) @ new'" "length new' \<le> length ops"
    "log_kept (fold agent_step ops (agent_step x a))" by blast
  then show ?case by (intro conjI exI [of _ "new @ new'"]) auto
qed simp

lemma log_kept_new: "numbered log \<Longrightarrow> log_kept (new_agent answers (Some log) faults ring seg) \<and>
    durable_log (new_agent answers (Some log) faults ring seg) = log"
  by (simp add: new_agent_def log_kept_def durable_log_def split: prod.split)

lemma log_inv_new:
  assumes "numbered log" and "answers \<or> log = []"
  shows "log_inv (new_agent answers (Some log) faults ring seg) \<and> durable_log (new_agent answers (Some log) faults ring seg) = log \<and>
    ag_seq_counter (new_agent answers (Some log) faults ring seg) = int (length log)"
  using assms numbered_last [OF assms(1)]
  by (cases "log = []") (auto simp: new_agent_def seed_seq_from_def log_inv_def durable_log_def)

end
