(* ===== verification/Agent_Lifecycle.thy ===== *)
theory Agent_Lifecycle imports Agent_Log begin

text \<open>
  What the agent's log guarantees its readers: gapless numbering, bracketed turns and steps,
  a cache that agrees with the store, and what a lost sequence number does.
\<close>

section \<open>The grammar of turns and steps\<close>

text \<open>Last turn number used, open turn and open step (0 for none), read off the events.\<close>

definition event_int :: "string \<Rightarrow> session_envelope \<Rightarrow> int" where
  "event_int k e = (case json_field k (raw_fields (env_data e)) of Some (JInt i) \<Rightarrow> i | _ \<Rightarrow> 0)"

fun lifecycle_step :: "int \<times> int \<times> int \<Rightarrow> session_envelope \<Rightarrow> (int \<times> int \<times> int) option" where
  "lifecycle_step (lst, turn, step) e =
     (if env_type e = EventTurnStart then
        (if turn = 0 \<and> event_int ''turn'' e = lst + 1 then Some (lst + 1, lst + 1, 0) else None)
      else if env_type e = EventStepStart then
        (if turn \<noteq> 0 \<and> step = 0 \<and> event_int ''turn'' e = turn \<and> 0 < event_int ''step'' e
         then Some (lst, turn, event_int ''step'' e) else None)
      else if env_type e = EventStepEnd then
        (if step \<noteq> 0 \<and> event_int ''turn'' e = turn \<and> event_int ''step'' e = step then Some (lst, turn, 0) else None)
      else if env_type e = EventTurnEnd then
        (if turn \<noteq> 0 \<and> step = 0 \<and> event_int ''turn'' e = turn then Some (lst, 0, 0) else None)
      else Some (lst, turn, step))"

fun lifecycle_run :: "int \<times> int \<times> int \<Rightarrow> session_envelope list \<Rightarrow> (int \<times> int \<times> int) option" where
  "lifecycle_run s [] = Some s"
| "lifecycle_run s (e # es) = Option.bind (lifecycle_step s e) (\<lambda>s'. lifecycle_run s' es)"

lemma lifecycle_run_snoc:
  "lifecycle_run s (es @ [e]) = Option.bind (lifecycle_run s es) (\<lambda>s'. lifecycle_step s' e)"
proof (induction es arbitrary: s)
  case Nil
  show ?case by (cases "lifecycle_step s e") auto
next
  case (Cons x es)
  then show ?case by (cases "lifecycle_step s x") auto
qed

definition boundary_types :: "string list" where
  "boundary_types = [EventTurnStart, EventTurnEnd, EventStepStart, EventStepEnd]"

text \<open>The calls the agent makes: a turn end carries a turn-end payload, payloads marshal.\<close>

definition proper_op :: "agent_op \<Rightarrow> bool" where
  "proper_op x = (case x of
      OpEmit ty p op now \<Rightarrow> payload_json p \<noteq> None \<and> (ty = EventTurnEnd \<longrightarrow> (\<exists>t r. p = TurnEndP t r))
    | OpRaw env \<Rightarrow> env_type env \<notin> set boundary_types
    | _ \<Rightarrow> True)"

lemma event_int_simps [simp]:
  "event_int ''turn'' ((new_envelope sq now ty (turn_json t))\<lparr>env_surface_op := op\<rparr>) = t"
  "event_int ''turn'' ((new_envelope sq now ty (turn_step_json t s))\<lparr>env_surface_op := op\<rparr>) = t"
  "event_int ''step'' ((new_envelope sq now ty (turn_step_json t s))\<lparr>env_surface_op := op\<rparr>) = s"
  "event_int ''turn'' ((new_envelope sq now ty (turn_end_json t r))\<lparr>env_surface_op := op\<rparr>) = t"
  by (simp_all add: event_int_def new_envelope_def raw_fields_def turn_json_def turn_step_json_def
      turn_end_json_def key_matches_def lower_names)

text \<open>The machine's registers agree with the log; nothing has been lost so far.\<close>

definition in_step_with :: "agent \<Rightarrow> bool" where
  "in_step_with a \<longleftrightarrow> log_inv a \<and> ag_faults a = [] \<and> ag_seq_counter a = int (length (durable_log a)) \<and>
     lifecycle_run (0, 0, 0) (durable_log a) = Some (ag_turn_number a, ag_active_turn a, ag_active_step a) \<and>
     0 \<le> ag_turn_number a \<and> 0 \<le> ag_step_number a \<and> (ag_active_step a \<noteq> 0 \<longrightarrow> ag_active_turn a \<noteq> 0)"

lemma persist_event_healthy:
  assumes "log_inv a" and "ag_faults a = []" and "ag_seq_counter a = int (length (durable_log a)) + 1"
    and "env_seq env = int (length (durable_log a))"
  shows "persist_event env a = (a\<lparr>ag_persist := Some (durable_log a @ [env])\<rparr>, None)"
proof -
  obtain log where "ag_persist a = Some log" "numbered log" "durable_log a = log"
    using log_invE [OF assms(1)] .
  with assms show ?thesis by (simp add: persist_event_def append_batch_def Let_def)
qed

lemma emit_event_healthy:
  assumes "in_step_with a" and "validate_transition ty a = (a1, None)"
    and "payload_json (boundary_payload ty a a1 p) = Some data"
    and env_def: "env = (new_envelope (int (length (durable_log a))) now ty data)\<lparr>env_surface_op := op\<rparr>"
  shows "emit_event ty p op now a = (cache_append env (publish env
    (a1\<lparr>ag_seq_counter := ag_seq_counter a + 1, ag_persist := Some (durable_log a @ [env])\<rparr>)), Inr env)"
proof -
  have frame: "ag_seq_counter a1 = ag_seq_counter a" "ag_persist a1 = ag_persist a" "ag_faults a1 = ag_faults a"
    using validate_transition_frame [of ty a] assms(2) by simp_all
  let ?a2 = "a1\<lparr>ag_seq_counter := ag_seq_counter a + 1\<rparr>"
  have "persist_event env ?a2 = (?a2\<lparr>ag_persist := Some (durable_log ?a2 @ [env])\<rparr>, None)"
    by (rule persist_event_healthy)
      (use assms(1) frame in \<open>auto simp: in_step_with_def log_inv_def durable_log_def env_def new_envelope_def\<close>)
  moreover have "durable_log ?a2 = durable_log a" using frame by (simp add: durable_log_def)
  moreover have "ag_seq_counter a = int (length (durable_log a))" using assms(1) by (simp add: in_step_with_def)
  ultimately show ?thesis
    using assms(2,3) frame by (simp add: emit_event_def reserve_seq_def Let_def env_def)
qed

lemma in_step_emit:
  assumes "in_step_with a" and "proper_op (OpEmit ty p op now)"
  shows "in_step_with (fst (emit_event ty p op now a))"
proof -
  obtain a1 q where vt: "validate_transition ty a = (a1, q)" by fastforce
  show ?thesis
  proof (cases q)
    case (Some e)
    then have "a1 = a" using vt by (auto simp: validate_transition_def split: if_splits)
    with Some vt assms(1) show ?thesis by (simp add: emit_event_def)
  next
    case None
    let ?shape = "\<lambda>data. (ty = EventTurnStart \<longrightarrow> data = turn_json (ag_active_turn a1)) \<and>
        (ty = EventStepStart \<longrightarrow> data = turn_step_json (ag_active_turn a1) (ag_active_step a1)) \<and>
        (ty = EventStepEnd \<longrightarrow> data = turn_step_json (ag_active_turn a) (ag_active_step a)) \<and>
        (ty = EventTurnEnd \<longrightarrow> (\<exists>r. data = turn_end_json (ag_active_turn a) r))"
    have "\<exists>data. payload_json (boundary_payload ty a a1 p) = Some data \<and> ?shape data"
      using assms(2) by (auto simp: proper_op_def boundary_payload_def payload_json_def split: event_payload.splits)
    then obtain data where all: "payload_json (boundary_payload ty a a1 p) = Some data \<and> ?shape data"
      by (elim exE)
    note data = conjunct1 [OF all] and shape = conjunct2 [OF all]
    let ?env = "(new_envelope (int (length (durable_log a))) now ty data)\<lparr>env_surface_op := op\<rparr>"
    let ?a' = "fst (emit_event ty p op now a)"
    from vt None have vt': "validate_transition ty a = (a1, None)" by simp
    note em = emit_event_healthy [where now = now and op = op, OF assms(1) vt' data refl]
    have "emit_event ty p op now a = (?a', Inr ?env)" unfolding em by simp
    moreover have "log_inv a" using assms(1) by (simp add: in_step_with_def)
    ultimately have inv: "log_inv ?a'" "durable_log ?a' = durable_log a @ [?env]"
      "ag_seq_counter ?a' = ag_seq_counter a + 1"
      using emit_event_effect [of a ty p op now ?a' "Inr ?env"] unfolding appends_one_def sum.case by blast+
    have regs: "ag_turn_number ?a' = ag_turn_number a1" "ag_step_number ?a' = ag_step_number a1"
      "ag_active_turn ?a' = ag_active_turn a1" "ag_active_step ?a' = ag_active_step a1" "ag_faults ?a' = ag_faults a1"
      unfolding em by simp_all
    have ty: "env_type ?env = ty" by (simp add: new_envelope_def)
    have "lifecycle_step (ag_turn_number a, ag_active_turn a, ag_active_step a) ?env =
        Some (ag_turn_number a1, ag_active_turn a1, ag_active_step a1) \<and>
      0 \<le> ag_turn_number a1 \<and> 0 \<le> ag_step_number a1 \<and> (ag_active_step a1 \<noteq> 0 \<longrightarrow> ag_active_turn a1 \<noteq> 0)"
      using vt' shape assms(1) unfolding lifecycle_step.simps ty
      by (auto simp: validate_transition_def in_step_with_def split: if_splits)
    moreover have "ag_faults a1 = []"
      using validate_transition_frame(3) [of ty a] vt' assms(1) by (simp add: in_step_with_def)
    ultimately show ?thesis
      using inv regs assms(1) unfolding in_step_with_def inv(2,3) regs lifecycle_run_snoc by simp
  qed
qed

lemma in_step_raw:
  assumes "in_step_with a" and "env_type env \<notin> set boundary_types"
  shows "in_step_with (fst (emit_raw env a))"
proof -
  let ?env = "env\<lparr>env_seq := ag_seq_counter a\<rparr>" and ?b = "a\<lparr>ag_seq_counter := ag_seq_counter a + 1\<rparr>"
  have inv: "log_inv a" using assms(1) by (simp add: in_step_with_def)
  have "persist_event ?env ?b = (?b\<lparr>ag_persist := Some (durable_log ?b @ [?env])\<rparr>, None)"
    by (rule persist_event_healthy) (use assms(1) in \<open>auto simp: in_step_with_def log_inv_def durable_log_def\<close>)
  moreover have "durable_log ?b = durable_log a" by (simp add: durable_log_def)
  ultimately have em: "emit_raw env a = (publish ?env (?b\<lparr>ag_persist := Some (durable_log a @ [?env])\<rparr>), Inr ?env)"
    by (simp add: emit_raw_def reserve_seq_def Let_def)
  let ?a' = "fst (emit_raw env a)"
  have "emit_raw env a = (?a', Inr ?env)" unfolding em by simp
  then have eff: "log_inv ?a'" "durable_log ?a' = durable_log a @ [?env]" "ag_seq_counter ?a' = ag_seq_counter a + 1"
    using emit_raw_effect [OF inv, of env ?a' "Inr ?env"] unfolding appends_one_def sum.case by blast+
  have regs: "ag_turn_number ?a' = ag_turn_number a" "ag_step_number ?a' = ag_step_number a"
    "ag_active_turn ?a' = ag_active_turn a" "ag_active_step ?a' = ag_active_step a" "ag_faults ?a' = ag_faults a"
    unfolding em by simp_all
  have "lifecycle_step s ?env = Some s" for s
    using assms(2) by (cases s) (simp add: boundary_types_def)
  with eff regs assms(1) show ?thesis
    unfolding in_step_with_def eff(2,3) regs lifecycle_run_snoc by simp
qed

lemma in_step_same:
  assumes "in_step_with a" and "ag_persist b = ag_persist a" "ag_seq_counter b = ag_seq_counter a"
    "ag_faults b = ag_faults a" "ag_turn_number b = ag_turn_number a" "0 \<le> ag_step_number b"
    "ag_active_turn b = ag_active_turn a" "ag_active_step b = ag_active_step a"
  shows "in_step_with b"
proof -
  have "log_inv b = log_inv a" "durable_log b = durable_log a"
    using assms(2,3) by (simp_all add: log_inv_def durable_log_def)
  with assms show ?thesis by (simp add: in_step_with_def)
qed

lemma in_step_op: "in_step_with a \<Longrightarrow> proper_op x \<Longrightarrow> in_step_with (agent_step x a)"
proof (cases x)
  case (OpRead p q)
  assume "in_step_with a"
  then show ?thesis
    unfolding OpRead by (rule in_step_same)
      (use \<open>in_step_with a\<close> in \<open>auto simp: cached_session_events_def Let_def in_step_with_def split: prod.splits\<close>)
next
  case (OpRaw env)
  assume "in_step_with a" "proper_op x"
  with OpRaw show ?thesis by (simp add: in_step_raw proper_op_def)
next
  case (OpEmit ty p op now)
  assume "in_step_with a" "proper_op x"
  with OpEmit show ?thesis using in_step_emit [of a ty p op now] by simp
qed (auto simp: in_step_with_def log_inv_def durable_log_def invalidate_log_cache_def reset_steps_def
    subscribe_def unsubscribe_def)

lemma in_step_run: "in_step_with a \<Longrightarrow> \<forall>x\<in>set ops. proper_op x \<Longrightarrow> in_step_with (fold agent_step ops a)"
  by (induction ops arbitrary: a) (auto simp: in_step_op)

section \<open>The cache\<close>

definition cache_ok :: "agent \<Rightarrow> bool" where
  "cache_ok a \<longleftrightarrow> (ag_cache_warm a \<longrightarrow> ag_log_cache a = durable_log a \<and>
     ag_last_cached a = int (length (durable_log a)) - 1)"

lemma get_events_numbered:
  assumes "numbered log"
  shows "get_events log (int k) = drop k log"
proof -
  have "filter (\<lambda>e. int k \<le> env_seq e) log = drop k log"
    using assms
  proof (induction log rule: rev_induct)
    case (snoc e es)
    then have "numbered es" "env_seq e = int (length es)" by (simp_all add: numbered_snoc)
    with snoc.IH show ?case by (cases "k \<le> length es") auto
  qed simp
  then show ?thesis by (simp add: get_events_def)
qed

lemma last_seq_numbered: "numbered log \<Longrightarrow> last_seq log = int (length log) - 1"
  by (auto simp: last_seq_def numbered_last)

lemma cached_read:
  assumes "log_inv a" and "cache_ok a"
  shows "cache_ok (fst (cached_session_events x y a)) \<and>
    (x \<or> y \<or> ag_cache_warm a \<longrightarrow> (x \<or> ag_cache_warm a) \<longrightarrow> snd (cached_session_events x y a) = durable_log a)"
proof -
  obtain log where log: "ag_persist a = Some log" "numbered log" "durable_log a = log"
    using log_invE [OF assms(1)] .
  have all: "get_events log 0 = log" using get_events_numbered [OF log(2), of 0] by simp
  have rest: "get_events log (ag_last_cached a + 1) = []" if "ag_cache_warm a"
  proof -
    have "ag_last_cached a + 1 = int (length log)" using assms(2) that log by (simp add: cache_ok_def)
    then show ?thesis using get_events_numbered [OF log(2), of "length log"] by simp
  qed
  show ?thesis
  proof (cases "ag_cache_warm a")
    case True
    note c = rest [OF True]
    have "ag_log_cache a = log" "ag_last_cached a = int (length log) - 1"
      using True assms(2) log by (simp_all add: cache_ok_def)
    with True c log all show ?thesis
      by (auto simp: cached_session_events_def Let_def cache_ok_def durable_log_def last_seq_numbered)
  next
    case False
    with log all show ?thesis
      by (auto simp: cached_session_events_def Let_def cache_ok_def durable_log_def last_seq_numbered)
  qed
qed

lemma cache_emit:
  assumes "log_inv a" and "cache_ok a"
  shows "cache_ok (fst (emit_event ty p op now a))"
proof -
  obtain a1 q where vt: "validate_transition ty a = (a1, q)" by fastforce
  have f1: "ag_persist a1 = ag_persist a" "ag_log_cache a1 = ag_log_cache a" "ag_cache_warm a1 = ag_cache_warm a"
    "ag_last_cached a1 = ag_last_cached a"
    using validate_transition_frame [of ty a] vt by simp_all
  have keep: "cache_ok b" if "ag_persist b = ag_persist a" "ag_log_cache b = ag_log_cache a"
    "ag_cache_warm b = ag_cache_warm a" "ag_last_cached b = ag_last_cached a" for b
    using assms(2) that by (simp add: cache_ok_def durable_log_def)
  show ?thesis
  proof (cases q)
    case (Some e)
    with vt f1 keep show ?thesis by (simp add: emit_event_def)
  next
    case None
    let ?a2 = "a1\<lparr>ag_seq_counter := ag_seq_counter a1 + 1\<rparr>"
    show ?thesis
    proof (cases "payload_json (boundary_payload ty a a1 p)")
      case none: None
      with None vt f1 keep [of ?a2] show ?thesis by (simp add: emit_event_def reserve_seq_def Let_def)
    next
      case (Some data)
      let ?env = "(new_envelope (ag_seq_counter a1) now ty data)\<lparr>env_surface_op := op\<rparr>"
      obtain log where log: "ag_persist a = Some log" "numbered log" "durable_log a = log"
        using log_invE [OF assms(1)] .
      have "ag_persist ?a2 = Some log" using log f1 by simp
      from persist_event_cases [OF this, of ?env] show ?thesis
      proof (elim disjE exE conjE)
        fix e assume "persist_event ?env ?a2 = (?a2\<lparr>ag_faults := tl (ag_faults ?a2)\<rparr>, Some e)"
        with None Some vt f1 keep [of "?a2\<lparr>ag_faults := tl (ag_faults ?a2)\<rparr>"] show ?thesis
          by (simp add: emit_event_def reserve_seq_def Let_def)
      next
        let ?c = "?a2\<lparr>ag_faults := tl (ag_faults ?a2), ag_persist := Some (log @ [?env])\<rparr>"
        assume sq: "env_seq ?env = stored_next log" and pe: "persist_event ?env ?a2 = (?c, None)"
        then have "fst (emit_event ty p op now a) = cache_append ?env (publish ?env ?c)"
          using None Some vt by (simp add: emit_event_def reserve_seq_def Let_def)
        moreover have "cache_ok (cache_append ?env (publish ?env ?c))"
        proof (cases "ag_cache_warm a")
          case True
          then have "ag_log_cache a = log" "ag_last_cached a = int (length log) - 1"
            using assms(2) log by (simp_all add: cache_ok_def)
          moreover have "env_seq ?env = int (length log)" using sq log by simp
          ultimately show ?thesis using True f1 log
            unfolding cache_ok_def durable_log_def cache_append_def by simp
        qed (use f1 in \<open>simp add: cache_ok_def\<close>)
        ultimately show ?thesis by simp
      qed
    qed
  qed
qed

text \<open>A compaction appends raw envelopes and then drops the cache, with no read in between.\<close>

definition op_block :: "agent_op list \<Rightarrow> bool" where
  "op_block blk \<longleftrightarrow> (\<exists>envs. blk = map OpRaw envs @ [OpInvalidate]) \<or> (\<exists>x. blk = [x] \<and> (\<forall>e. x \<noteq> OpRaw e))"

lemma cache_block:
  assumes "log_inv a" and "cache_ok a" and "op_block blk"
  shows "log_inv (fold agent_step blk a) \<and> cache_ok (fold agent_step blk a)"
proof
  show "log_inv (fold agent_step blk a)" using agent_run_log [OF assms(1)] by blast
  from assms(3) consider (raw) envs where "blk = map OpRaw envs @ [OpInvalidate]"
    | (one) x where "blk = [x]" "\<forall>e. x \<noteq> OpRaw e" by (auto simp: op_block_def)
  then show "cache_ok (fold agent_step blk a)"
  proof cases
    case raw
    then show ?thesis by (simp add: cache_ok_def invalidate_log_cache_def)
  next
    case one
    then show ?thesis using cached_read [OF assms(1,2)] cache_emit [OF assms(1,2)] assms(2)
      by (cases x) (auto simp: cache_ok_def durable_log_def invalidate_log_cache_def reset_steps_def
          subscribe_def unsubscribe_def)
  qed
qed

lemma cache_blocks:
  "log_inv a \<Longrightarrow> cache_ok a \<Longrightarrow> \<forall>blk\<in>set blks. op_block blk \<Longrightarrow>
     log_inv (fold agent_step (concat blks) a) \<and> cache_ok (fold agent_step (concat blks) a)"
  by (induction blks arbitrary: a) (auto simp: cache_block)

section \<open>Properties\<close>

definition sample_faulty :: agent where
  "sample_faulty = new_agent True (Some []) [False, True] None None"

definition sample_ops :: "agent_op list" where
  "sample_ops = [OpEmit EventTurnStart (AnyP (Some JNull)) None 10, OpEmit EventStepStart (AnyP (Some JNull)) None 11,
     OpRaw (new_envelope 0 12 EventCompactionStart (JObj [])), OpInvalidate,
     OpEmit EventStepEnd (AnyP (Some JNull)) None 13, OpEmit EventTurnEnd (TurnEndP 0 (JObj [])) None 14]"

text \<open>
  C7. An agent opened on a contiguous log keeps it contiguous whatever it does and whichever
  appends fail, its opening read included: the log only grows at its end, and after any operations an emission returns an
  envelope exactly when that envelope, with the next number, is the log's new last event.
\<close>
theorem emission_appends:
  assumes "numbered log" and "a = fold agent_step ops (new_agent answers (Some log) faults ring segment)"
    and "emit_event ty payload op now a = (a', r)"
  shows "numbered (durable_log a) \<and> (\<exists>new. durable_log a = log @ new \<and> length new \<le> length ops) \<and>
    (case r of Inr env \<Rightarrow> env_seq env = int (length (durable_log a)) \<and> durable_log a' = durable_log a @ [env]
     | Inl _ \<Rightarrow> durable_log a' = durable_log a)"
proof -
  note n = log_kept_new [OF assms(1), of answers faults ring segment]
  from agent_run_kept [OF conjunct1 [OF n], of ops] assms(2) n have kept: "log_kept a"
    and ext: "\<exists>new. durable_log a = log @ new \<and> length new \<le> length ops" by auto
  then have "numbered (durable_log a)" by (auto simp: log_kept_def durable_log_def)
  with emit_event_kept [OF kept assms(3)] ext show ?thesis by (auto simp: emits_one_def split: sum.splits)
qed

lemma emission_appends_witness:
  "numbered (durable_log (fold agent_step sample_ops (new_agent True (Some []) [] None None)))"
proof -
  obtain a' r where "emit_event EventTurnStart (AnyP (Some JNull)) None 20
    (fold agent_step sample_ops (new_agent True (Some []) [] None None)) = (a', r)" by fastforce
  from emission_appends [OF numbered_Nil refl this] show ?thesis by blast
qed

text \<open>
  C17. A sequence number that an append lost is never recovered: when the opening read of the agent
  succeeded, or the log was empty, and one durable append of an emission fails, no operation makes the
  log grow again, because the store accepts only the number that was lost.  (After a failed opening
  read the counter starts below the log and may still catch up, \<open>unread_log_catches_up\<close>.)
\<close>
theorem lost_seq_wedges_log:
  assumes "numbered log" and "answers \<or> log = []" and "a = fold agent_step ops (new_agent answers (Some log) faults ring segment)"
    and "emit_event ty payload op now a = (a', Inl PersistFault)"
  shows "durable_log (fold agent_step ops' a') = durable_log a"
proof -
  note n = log_inv_new [OF assms(1,2), of faults ring segment]
  from agent_run_log [OF conjunct1 [OF n], of ops] assms(3) have inv: "log_inv a" by metis
  from emit_event_effect [OF inv assms(4)] have "log_inv a'" "durable_log a' = durable_log a"
    "int (length (durable_log a')) < ag_seq_counter a'" by (auto simp: appends_one_def)
  with agent_run_wedged show ?thesis by metis
qed

lemma lost_seq_wedges_log_witness:
  "\<exists>a'. emit_event EventStepStart (AnyP (Some JNull)) None 11
      (agent_step (OpEmit EventTurnStart (AnyP (Some JNull)) None 10) sample_faulty) = (a', Inl PersistFault) \<and>
    length (durable_log (fold agent_step sample_ops a')) = 1"
proof -
  let ?ops = "[OpEmit EventTurnStart (AnyP (Some JNull)) None 10]"
  let ?a = "fold agent_step ?ops (new_agent True (Some []) [False, True] None None)"
  have f: "\<exists>a'. emit_event EventStepStart (AnyP (Some JNull)) None 11 ?a = (a', Inl PersistFault)"
    and l: "length (durable_log ?a) = 1"
    by (simp_all add: new_agent_def seed_seq_from_def emit_event_def validate_transition_def reserve_seq_def
        boundary_payload_def payload_json_def persist_event_def append_batch_def stored_next_def Let_def
        new_envelope_def durable_log_def publish_def cache_append_def)
  then obtain a' where a': "emit_event EventStepStart (AnyP (Some JNull)) None 11 ?a = (a', Inl PersistFault)"
    by blast
  from lost_seq_wedges_log [OF numbered_Nil _ refl a', of sample_ops] a' l show ?thesis
    by (auto simp: sample_faulty_def)
qed

text \<open>An agent whose opening read failed: a lost number, a refused one, and the log grows again.\<close>

lemma unread_log_catches_up:
  "map_option (\<lambda>a. (ag_seq_counter a, map env_type (durable_log a))) (Some (fold agent_step
     [OpEmit ''session/start'' (AnyP (Some JNull)) None 1, OpEmit ''session/start'' (AnyP (Some JNull)) None 2,
      OpEmit ''turn/start'' (AnyP (Some JNull)) None 3]
     (new_agent False (Some [new_envelope 0 0 ''a'' JNull, new_envelope 1 0 ''b'' JNull]) [True] None None))) =
   Some (3, [''a'', ''b'', ''turn/start''])"
  by (simp add: new_agent_def seed_seq_from_def emit_event_def validate_transition_def reserve_seq_def
      boundary_payload_def payload_json_def persist_event_def append_batch_def stored_next_def Let_def
      new_envelope_def durable_log_def publish_def cache_append_def)



text \<open>
  The log cache is transparent: after any emissions, reads, subscriptions and compactions
  (raw appends followed by an invalidation), a read that reaches the store, or finds the cache
  warm, returns the durable log.
\<close>
theorem cached_read_is_log:
  assumes "numbered log" and "\<forall>blk\<in>set blks. op_block blk"
    and "a = fold agent_step (concat blks) (new_agent True (Some log) faults ring segment)"
    and "first \<or> ag_cache_warm a"
  shows "snd (cached_session_events first second a) = durable_log a"
proof -
  note n = log_inv_new [OF assms(1), of True faults ring segment, simplified]
  have "cache_ok (new_agent True (Some log) faults ring segment)"
    using assms(1) by (auto simp: cache_ok_def new_agent_def seed_seq_from_def durable_log_def numbered_last)
  from cache_blocks [OF conjunct1 [OF n] this assms(2)] assms(3) have "log_inv a" "cache_ok a" by simp_all
  from cached_read [OF this, of first second] assms(4) show ?thesis by blast
qed

lemma cached_read_is_log_witness:
  "snd (cached_session_events True True (fold agent_step (concat [[OpEmit EventTurnStart (AnyP (Some JNull)) None 1],
     [OpRead True True], [OpRaw (new_envelope 0 2 EventCompactionStart (JObj [])), OpInvalidate]])
     (new_agent True (Some []) [] None None))) =
   durable_log (fold agent_step (concat [[OpEmit EventTurnStart (AnyP (Some JNull)) None 1],
     [OpRead True True], [OpRaw (new_envelope 0 2 EventCompactionStart (JObj [])), OpInvalidate]])
     (new_agent True (Some []) [] None None))"
proof -
  have raw: "op_block [OpRaw e, OpInvalidate]" for e
    unfolding op_block_def by (intro disjI1 exI [of _ "[e]"]) simp
  have "\<forall>blk\<in>set [[OpEmit EventTurnStart (AnyP (Some JNull)) None 1], [OpRead True True],
     [OpRaw (new_envelope 0 2 EventCompactionStart (JObj [])), OpInvalidate]]. op_block blk"
    using raw by (auto simp: op_block_def)
  from cached_read_is_log [OF numbered_Nil this refl, of True] show ?thesis by simp
qed

section \<open>Two emissions interleaved\<close>

text \<open>
  The state lock covers the transition only, so two goroutines can reserve in one order and
  append, or mirror into the cache, in the other.  The first order loses an append, the
  second loses an event from a warm cache for good.
\<close>

lemma reordered_append_refused:
  assumes "numbered log"
  shows "append_batch False log ((new_envelope (int (length log) + 1) now ty data)) =
    Inl (PersistSeq (int (length log) + 1) (int (length log)))"
  using assms by (simp add: append_batch_def new_envelope_def)

lemma reordered_mirror_drops:
  assumes "ag_cache_warm a" and "ag_last_cached a < env_seq e1" and "env_seq e1 < env_seq e2"
  shows "ag_log_cache (cache_append e1 (cache_append e2 a)) = ag_log_cache a @ [e2]"
  using assms by (simp add: cache_append_def)

end
