(* ===== verification/Tool_Pairing.thy ===== *)
theory Tool_Pairing imports Session_Messages begin

text \<open>
  Tool-pairing balance of surface cuts (\<open>pkg/compaction/toolpairing.go\<close>) and the errors of the
  compaction package.  A cut of the surface is balanced when no assistant tool call before it
  waits for its result after it.
\<close>

section \<open>Errors of the compaction package\<close>

text \<open>
  \<open>ManualCompactionErrorCode\<close> with its six values, and the error values the package
  builds.  \<open>ManualError\<close> is \<open>*ManualCompactionError\<close> with its \<open>Cause\<close>; \<open>SurfaceChanged\<close> is
  \<open>*SurfaceChangedError\<close>; \<open>ForeignError\<close> stands for an error of a collaborator (the meter, the
  summarizer, the append function, the context).
\<close>

datatype manual_code = ErrBusy | ErrCancelled | ErrChanged | ErrSummary | ErrCommit | ErrPersistence

datatype compaction_error =
    NoMatchingEvent int
  | AssistantDataInvalid int
  | NoMatchingCall int
  | PositionNotFound int
  | SessionFailed session_error
  | ForeignError string
  | MeterMismatch
  | StartSeqNotFound int
  | EndSeqNotFound int
  | SpanReversed int int
  | StartUnbalanced int
  | EndUnbalanced int
  | NoOpenTurn
  | ShadowedSeqMissing int
  | SummaryNotSmaller int int
  | SurfaceChanged string
  | ManualError manual_code string "compaction_error option"
  | CompactionPanic

section \<open>The balance of every cut\<close>

definition event_tool_delta :: "session_envelope \<Rightarrow> compaction_error + int" where
  "event_tool_delta env =
     (if env_type env = EventAssistantMessage then
        (case unmarshal dec_assistant_message (env_data env) of
           None \<Rightarrow> Inl (AssistantDataInvalid (env_seq env))
         | Some p \<Rightarrow> Inr (int (length (filter (\<lambda>b. cb_type b = ''tool-call'') (wm_content (am_message p))))))
      else if env_type env = EventToolResult then Inr (- 1)
      else Inr 0)"

text \<open>The map \<open>bySeq\<close>: of two events with one seq the later one is kept.\<close>

definition by_seq :: "session_envelope list \<Rightarrow> int \<Rightarrow> session_envelope option" where
  "by_seq events = map_of (rev (map (\<lambda>e. (env_seq e, e)) events))"

fun cut_loop :: "session_envelope list \<Rightarrow> int \<Rightarrow> int list \<Rightarrow> compaction_error + bool list" where
  "cut_loop events in_progress [] = Inr []"
| "cut_loop events in_progress (sq # sqs) =
     (case by_seq events sq of
        None \<Rightarrow> Inl (NoMatchingEvent sq)
      | Some event \<Rightarrow>
          and_then (event_tool_delta event) (\<lambda>delta.
            if in_progress + delta < 0 then Inl (NoMatchingCall sq)
            else and_then (cut_loop events (in_progress + delta) sqs) (\<lambda>bs.
              Inr ((in_progress + delta = 0) # bs))))"

definition cut_balances :: "session_envelope list \<Rightarrow> int list \<Rightarrow> compaction_error + bool list" where
  "cut_balances events nodes = and_then (cut_loop events 0 nodes) (\<lambda>bs. Inr (True # bs))"

definition balanced_before :: "session_envelope list \<Rightarrow> int list \<Rightarrow> int \<Rightarrow> compaction_error + bool" where
  "balanced_before events nodes idx =
     and_then (cut_balances events nodes) (\<lambda>bs.
       if idx < 0 \<or> int (length bs) \<le> idx then Inl (PositionNotFound idx) else Inr (bs ! nat idx))"

definition balanced_after :: "session_envelope list \<Rightarrow> int list \<Rightarrow> int \<Rightarrow> compaction_error + bool" where
  "balanced_after events nodes idx =
     and_then (cut_balances events nodes) (\<lambda>bs.
       if idx + 1 < 0 \<or> int (length bs) \<le> idx + 1 then Inl (PositionNotFound idx)
       else Inr (bs ! nat (idx + 1)))"

section \<open>Specification by prefix sums\<close>

text \<open>The deltas of the surface, defined when every node has a readable event.\<close>

definition node_delta :: "session_envelope list \<Rightarrow> int \<Rightarrow> int option" where
  "node_delta events sq = Option.bind (by_seq events sq) (\<lambda>e.
     (case event_tool_delta e of Inl _ \<Rightarrow> None | Inr d \<Rightarrow> Some d))"

definition surface_deltas :: "session_envelope list \<Rightarrow> int list \<Rightarrow> int list option" where
  "surface_deltas events nodes = those (map (node_delta events) nodes)"

definition open_calls :: "int list \<Rightarrow> nat \<Rightarrow> int" where
  "open_calls ds k = sum_list (take k ds)"

lemma by_seq_mem: "by_seq events sq = Some e \<Longrightarrow> e \<in> set events \<and> env_seq e = sq"
  by (auto simp: by_seq_def dest: map_of_SomeD)

lemma by_seq_None_iff: "by_seq events sq = None \<longleftrightarrow> sq \<notin> env_seq ` set events"
  by (auto simp: by_seq_def map_of_eq_None_iff image_image)

lemma by_seq_append:
  "by_seq (xs @ ys) sq = (case by_seq ys sq of Some e \<Rightarrow> Some e | None \<Rightarrow> by_seq xs sq)"
  by (simp add: by_seq_def map_add_def split: option.splits)

lemma by_seq_unique:
  assumes "distinct (map env_seq events)" and "e \<in> set events"
  shows "by_seq events (env_seq e) = Some e"
proof -
  have "distinct (map fst (rev (map (\<lambda>e. (env_seq e, e)) events)))"
    using assms(1) by (simp add: rev_map [symmetric] comp_def)
  then show ?thesis using assms(2) by (auto simp: by_seq_def intro!: map_of_is_SomeI)
qed

lemma those_map_Cons:
  "those (map f (x # xs)) = Option.bind (f x) (\<lambda>y. map_option ((#) y) (those (map f xs)))"
  by (cases "f x") simp_all

lemma cut_loop_iff:
  "cut_loop events n nodes = Inr bs \<longleftrightarrow>
     (\<exists>ds. surface_deltas events nodes = Some ds \<and>
        (\<forall>k\<in>{1..length ds}. 0 \<le> n + open_calls ds k) \<and>
        bs = map (\<lambda>k. n + open_calls ds k = 0) [1..<Suc (length ds)])"
proof (induction nodes arbitrary: n bs)
  case Nil
  show ?case by (auto simp: surface_deltas_def)
next
  case (Cons sq nodes)
  show ?case
  proof (cases "node_delta events sq")
    case None
    then show ?thesis
      by (auto simp: surface_deltas_def node_delta_def split: option.splits sum.splits)
  next
    case (Some d)
    then obtain e where e: "by_seq events sq = Some e" "event_tool_delta e = Inr d"
      by (cases "by_seq events sq") (auto simp: node_delta_def split: sum.splits)
    have sh: "open_calls (d # ds) (Suc k) = d + open_calls ds k" for ds k
      by (simp add: open_calls_def)
    have all: "(\<forall>k\<in>{1..Suc m}. P k) \<longleftrightarrow> P 1 \<and> (\<forall>k\<in>{1..m}. P (Suc k))" for P :: "nat \<Rightarrow> bool" and m
    proof -
      have "{1..Suc m} = insert 1 (Suc ` {1..m})" by (auto simp: image_iff Bex_def)
      then show ?thesis by (simp only: ball_simps image_iff)
    qed
    have up: "[1..<Suc (Suc m)] = 1 # map Suc [1..<Suc m]" for m
      by (simp add: map_Suc_upt upt_conv_Cons del: upt_Suc)
    have "cut_loop events n (sq # nodes) = Inr bs \<longleftrightarrow> 0 \<le> n + d \<and>
        (\<exists>bs'. cut_loop events (n + d) nodes = Inr bs' \<and> bs = (n + d = 0) # bs')"
      using e by (auto simp: and_then_Inr_iff)
    also have "\<dots> \<longleftrightarrow> 0 \<le> n + d \<and> (\<exists>ds. surface_deltas events nodes = Some ds \<and>
        (\<forall>k\<in>{1..length ds}. 0 \<le> n + d + open_calls ds k) \<and>
        bs = (n + d = 0) # map (\<lambda>k. n + d + open_calls ds k = 0) [1..<Suc (length ds)])"
      by (auto simp: Cons.IH simp del: upt_Suc)
    also have "\<dots> \<longleftrightarrow> (\<exists>ds. surface_deltas events (sq # nodes) = Some ds \<and>
        (\<forall>k\<in>{1..length ds}. 0 \<le> n + open_calls ds k) \<and>
        bs = map (\<lambda>k. n + open_calls ds k = 0) [1..<Suc (length ds)])"
    proof -
      have sd: "surface_deltas events (sq # nodes) = Some ds \<longleftrightarrow>
          (\<exists>ds'. surface_deltas events nodes = Some ds' \<and> ds = d # ds')" for ds
        using Some by (auto simp: surface_deltas_def)
      have one: "open_calls (d # ds) 1 = d" for ds by (simp add: open_calls_def)
      show ?thesis
        unfolding sd by (auto simp: all up sh one comp_def add.assoc simp del: upt_Suc One_nat_def)
    qed
    finally show ?thesis .
  qed
qed

lemma cut_balances_iff:
  "cut_balances events nodes = Inr bs \<longleftrightarrow>
     (\<exists>ds. surface_deltas events nodes = Some ds \<and> (\<forall>k\<le>length ds. 0 \<le> open_calls ds k) \<and>
        bs = map (\<lambda>k. open_calls ds k = 0) [0..<Suc (length ds)])"
proof -
  have up: "[0..<Suc m] = 0 # [1..<Suc m]" for m by (simp add: upt_conv_Cons del: upt_Suc)
  have z: "open_calls ds 0 = 0" for ds by (simp add: open_calls_def)
  have rng: "(\<forall>k\<le>m. P k) \<longleftrightarrow> P 0 \<and> (\<forall>k\<in>{1..m}. P k)" for P and m :: nat
    by (auto simp: Ball_def) (metis One_nat_def Suc_leI gr0I)
  have "cut_balances events nodes = Inr bs \<longleftrightarrow> (\<exists>bs'. cut_loop events 0 nodes = Inr bs' \<and> bs = True # bs')"
    by (auto simp: cut_balances_def and_then_Inr_iff)
  then show ?thesis unfolding cut_loop_iff rng up by (auto simp: z simp del: upt_Suc)
qed

lemma surface_deltas_length: "surface_deltas events nodes = Some ds \<Longrightarrow> length ds = length nodes"
  unfolding surface_deltas_def
  by (induction nodes arbitrary: ds) (auto split: option.splits)

lemma cut_balances_length: "cut_balances events nodes = Inr bs \<Longrightarrow> length bs = Suc (length nodes)"
  by (auto simp: cut_balances_iff dest: surface_deltas_length)

lemma cut_balances_head: "cut_balances events nodes = Inr bs \<Longrightarrow> bs ! 0"
  by (auto simp: cut_balances_def and_then_Inr_iff)

lemma balanced_before_iff:
  "balanced_before events nodes (int k) = Inr b \<longleftrightarrow>
     (\<exists>bs. cut_balances events nodes = Inr bs \<and> k \<le> length nodes \<and> b = bs ! k)"
proof (cases "cut_balances events nodes")
  case (Inr bs)
  from cut_balances_length [OF Inr] Inr show ?thesis by (auto simp: balanced_before_def)
qed (simp add: balanced_before_def)

lemma balanced_after_before:
  "balanced_after events nodes (int k) = Inr b \<longleftrightarrow> balanced_before events nodes (int (Suc k)) = Inr b"
proof (cases "cut_balances events nodes")
  case (Inr bs)
  have "nat (int k + 1) = Suc k" "nat (1 + int k) = Suc k" by simp_all
  with cut_balances_length [OF Inr] Inr show ?thesis
    by (auto simp: balanced_before_def balanced_after_def)
qed (simp add: balanced_before_def balanced_after_def)

end
