(* ===== verification/Message_Codec.thy ===== *)
theory Message_Codec imports Session_Messages begin

text \<open>
  What \<open>json.Marshal\<close> writes for the message records of \<open>pkg/session/events.go\<close>, fields with
  \<open>omitempty\<close> left out when zero, and the round trip with the decoders of \<open>Session_Events\<close>.
\<close>

definition opt_str :: "string \<Rightarrow> string \<Rightarrow> (string \<times> json) list" where
  "opt_str k s = (if s = [] then [] else [(k, JStr s)])"

definition opt_int :: "string \<Rightarrow> int \<Rightarrow> (string \<times> json) list" where
  "opt_int k i = (if i = 0 then [] else [(k, JInt i)])"

fun enc_content_block :: "content_block \<Rightarrow> json" where
  "enc_content_block (ContentBlock ty tx att mime cid nm args tcid err content) = JObj (
     [(''type'', JStr ty)] @ opt_str ''text'' tx @ opt_str ''attachmentId'' att @ opt_str ''mimeType'' mime @
     opt_str ''id'' cid @ opt_str ''name'' nm @ opt_str ''arguments'' args @ opt_str ''toolCallId'' tcid @
     (if err then [(''isError'', JBool True)] else []) @
     (if content = [] then [] else [(''content'', JArr (map enc_content_block content))]))"

definition enc_message_source :: "message_source \<Rightarrow> json" where
  "enc_message_source s = JObj ([(''kind'', JStr (ms_kind s))] @ opt_str ''callId'' (ms_call_id s) @
     opt_str ''plugin'' (ms_plugin s) @ opt_str ''form'' (ms_form s) @ opt_str ''provider'' (ms_provider s) @
     opt_str ''model'' (ms_model s) @
     (case ms_replay_state s of None \<Rightarrow> [] | Some j \<Rightarrow> [(''replayState'', j)]) @
     opt_str ''compactionId'' (ms_compaction_id s) @ opt_str ''sourceCommandId'' (ms_source_command_id s))"

definition enc_wire_message :: "wire_message \<Rightarrow> json" where
  "enc_wire_message m = JObj [(''id'', JStr (wm_id m)), (''role'', JStr (wm_role m)),
     (''content'', JArr (map enc_content_block (wm_content m))), (''source'', enc_message_source (wm_source m))]"

definition enc_token_usage :: "token_usage \<Rightarrow> json" where
  "enc_token_usage u = JObj ([(''inputTokens'', JInt (tu_input u)), (''outputTokens'', JInt (tu_output u))] @
     opt_int ''cacheReadTokens'' (tu_cache_read u) @ opt_int ''cacheWriteTokens'' (tu_cache_write u) @
     opt_int ''reasoningTokens'' (tu_reasoning u))"

section \<open>Reading a field of a concatenated object\<close>

lemma json_field_append:
  "json_field k (xs @ ys) = (case json_field k ys of Some v \<Rightarrow> Some v | None \<Rightarrow> json_field k xs)"
  by (induction xs) (auto split: option.splits)

lemma json_field_opt_str:
  "json_field k (opt_str k' s) = (if s \<noteq> [] \<and> key_matches k k' then Some (JStr s) else None)"
  by (simp add: opt_str_def)

lemma json_field_opt_bool:
  "json_field k (if b then [(k', v)] else []) = (if b \<and> key_matches k k' then Some v else None)"
  by simp

lemmas field_simps_json = json_field_append json_field_opt_str key_matches_def lower_names

lemma dec_content_block_JObj:
  "dec_content_block (JObj kvs) =
    Option.bind (dec_string ''type'' kvs) (\<lambda>ty.
    Option.bind (dec_string ''text'' kvs) (\<lambda>tx.
    Option.bind (dec_string ''attachmentId'' kvs) (\<lambda>att.
    Option.bind (dec_string ''mimeType'' kvs) (\<lambda>mime.
    Option.bind (dec_string ''id'' kvs) (\<lambda>cid.
    Option.bind (dec_string ''name'' kvs) (\<lambda>nm.
    Option.bind (dec_string ''arguments'' kvs) (\<lambda>args.
    Option.bind (dec_string ''toolCallId'' kvs) (\<lambda>tcid.
    Option.bind (dec_bool ''isError'' kvs) (\<lambda>err.
    map_option (ContentBlock ty tx att mime cid nm args tcid err)
      (case json_field ''content'' kvs of
         None \<Rightarrow> Some []
       | Some JNull \<Rightarrow> Some []
       | Some (JArr js) \<Rightarrow> those (map dec_content_block js)
       | Some _ \<Rightarrow> None))))))))))"
  by (subst dec_content_block.simps) simp

definition block_object :: "content_block \<Rightarrow> (string \<times> json) list" where
  "block_object b = (case enc_content_block b of JObj kvs \<Rightarrow> kvs | _ \<Rightarrow> [])"

lemma block_fields:
  fixes ty tx att mime cid nm args tcid :: string and err :: bool and content :: "content_block list"
  defines "kvs \<equiv> [(''type'', JStr ty)] @ opt_str ''text'' tx @ opt_str ''attachmentId'' att @ opt_str ''mimeType'' mime @
     opt_str ''id'' cid @ opt_str ''name'' nm @ opt_str ''arguments'' args @ opt_str ''toolCallId'' tcid @
     (if err then [(''isError'', JBool True)] else []) @
     (if content = [] then [] else [(''content'', JArr (map enc_content_block content))])"
  shows "dec_string ''type'' kvs = Some ty" "dec_string ''text'' kvs = Some tx"
    "dec_string ''attachmentId'' kvs = Some att" "dec_string ''mimeType'' kvs = Some mime"
    "dec_string ''id'' kvs = Some cid" "dec_string ''name'' kvs = Some nm"
    "dec_string ''arguments'' kvs = Some args" "dec_string ''toolCallId'' kvs = Some tcid"
    "dec_bool ''isError'' kvs = Some err"
    "json_field ''content'' kvs = (if content = [] then None else Some (JArr (map enc_content_block content)))"
  unfolding kvs_def dec_string_def dec_bool_def by (simp_all add: field_simps_json)

lemma those_map_cong_Some: "(\<And>x. x \<in> set xs \<Longrightarrow> f (g x) = Some x) \<Longrightarrow> those (map f (map g xs)) = Some xs"
  by (induction xs) auto

lemma dec_enc_content_block: "dec_content_block (enc_content_block b) = Some b"
proof (induction b rule: enc_content_block.induct)
  case (1 ty tx att mime cid nm args tcid err content)
  have "those (map dec_content_block (map enc_content_block content)) = Some content" if "content \<noteq> []"
    by (rule those_map_cong_Some) (use 1 that in auto)
  then show ?case
    unfolding enc_content_block.simps dec_content_block_JObj block_fields by simp
qed

lemma dec_enc_content: "those (map dec_content_block (map enc_content_block bs)) = Some bs"
  by (rule those_map_cong_Some) (rule dec_enc_content_block)

lemma source_fields:
  fixes kind call plug form prov model comp cmd :: string and replay :: "json option"
  defines "kvs \<equiv> [(''kind'', JStr kind)] @ opt_str ''callId'' call @ opt_str ''plugin'' plug @ opt_str ''form'' form @
     opt_str ''provider'' prov @ opt_str ''model'' model @
     (case replay of None \<Rightarrow> [] | Some j \<Rightarrow> [(''replayState'', j)]) @
     opt_str ''compactionId'' comp @ opt_str ''sourceCommandId'' cmd"
  shows "dec_string ''kind'' kvs = Some kind" "dec_string ''callId'' kvs = Some call"
    "dec_string ''plugin'' kvs = Some plug" "dec_string ''form'' kvs = Some form"
    "dec_string ''provider'' kvs = Some prov" "dec_string ''model'' kvs = Some model"
    "dec_string ''compactionId'' kvs = Some comp" "dec_string ''sourceCommandId'' kvs = Some cmd"
    "json_field ''replayState'' kvs = replay"
  unfolding kvs_def dec_string_def by (cases replay; simp add: field_simps_json)+

lemma dec_enc_message_source:
  "(case enc_message_source s of JObj kvs \<Rightarrow> dec_message_source kvs | _ \<Rightarrow> None) = Some s"
  unfolding enc_message_source_def dec_message_source_def json.case source_fields by simp

lemma dec_enc_wire_message: "unmarshal dec_wire_message (Some (enc_wire_message m)) = Some m"
proof -
  obtain kvs where src: "enc_message_source (wm_source m) = JObj kvs" "dec_message_source kvs = Some (wm_source m)"
    using dec_enc_message_source [of "wm_source m"] by (auto split: json.splits)
  show ?thesis
    using dec_enc_content [of "wm_content m"]
    by (cases m) (use src in \<open>simp add: unmarshal_def dec_object_def enc_wire_message_def dec_wire_message_def
      dec_string_def dec_list_def dec_struct_def field_simps_json\<close>)
qed

end
