(* ===== verification/Log_Appender.thy ===== *)
theory Log_Appender imports Session_Events begin

text \<open>
  The interface between whoever appends prepared envelopes to a session log and whoever
  keeps the log: a successful append puts the envelope, with the next number, at the end; a
  failed one leaves the log alone.  \<open>ready\<close> is the provider's own invariant.
\<close>

locale log_appender =
  fixes app :: "session_envelope \<Rightarrow> 's \<Rightarrow> 's \<times> ('e + session_envelope)"
    and log_of :: "'s \<Rightarrow> session_envelope list"
    and ready :: "'s \<Rightarrow> bool"
  assumes app_ok: "ready s \<Longrightarrow> app env s = (s', Inr env') \<Longrightarrow>
      ready s' \<and> env' = env\<lparr>env_seq := int (length (log_of s))\<rparr> \<and> log_of s' = log_of s @ [env']"
    and app_fail: "ready s \<Longrightarrow> app env s = (s', Inl err) \<Longrightarrow> ready s' \<and> log_of s' = log_of s"
begin

lemma app_extends:
  assumes "ready s" and "app env s = (s', r)"
  shows "ready s' \<and> (\<exists>new. log_of s' = log_of s @ new \<and> length new \<le> 1 \<and>
    (\<forall>e\<in>set new. env_type e = env_type env \<and> env_surface_op e = env_surface_op env \<and>
       env_data e = env_data env \<and> env_sources e = env_sources env))"
proof (cases r)
  case (Inl err)
  with app_fail [OF assms(1), of env s' err] assms(2) show ?thesis by simp
next
  case (Inr env')
  with app_ok [OF assms(1), of env s' env'] assms(2) show ?thesis by simp
qed

end

end
