(* ===== verification/Compaction.thy ===== *)
theory Compaction imports Tool_Pairing Token_Meter Message_Codec Log_Appender begin

text \<open>
  The compaction engine (\<open>pkg/compaction/compactor.go\<close>, \<open>meter.go\<close>): pricing the surface,
  selecting a head-anchored range, validating a range, and the durable transaction that
  replaces it by a summary.

  The collaborators are arguments: the meter and the summarizer are functions, the
  append function and the reload work on a state \<open>'s\<close> threaded explicitly, and the random
  ids, the clock, the context's state at its two checks and the text of an error value
  are fields of the transaction's environment.
\<close>

section \<open>Meters\<close>

text \<open>\<open>HeuristicMeter.MeasureNodes\<close>.\<close>

fun heuristic_measure :: "session_envelope list \<Rightarrow> int list \<Rightarrow> compaction_error + int list" where
  "heuristic_measure events [] = Inr []"
| "heuristic_measure events (sq # sqs) =
     (case by_seq events sq of
        None \<Rightarrow> Inl (NoMatchingEvent sq)
      | Some env \<Rightarrow>
          and_then (map_sum SessionFailed id (project_event_message env)) (\<lambda>message.
          and_then (heuristic_measure events sqs) (\<lambda>prices.
            Inr ((case message of None \<Rightarrow> 0 | Some m \<Rightarrow> estimate_message_tokens m) # prices))))"

record summary_result =
  sr_summary :: "content_block list"
  sr_usage :: "token_usage option"
  sr_raw_output :: "content_block list"
  sr_llm_stream_call :: bool

record compact_engine =
  en_retain_tokens :: int
  en_meter :: "(session_envelope list \<Rightarrow> int list \<Rightarrow> compaction_error + int list) option"
  en_summarizer :: "model_message list \<Rightarrow> compaction_error + summary_result"
  en_provider :: string
  en_model :: string
  en_max_tokens :: int

definition unit_measure :: "session_envelope list \<Rightarrow> int list \<Rightarrow> compaction_error + int list" where
  "unit_measure events nodes = Inr (map (\<lambda>_. 1) nodes)"

definition engine_measure :: "compact_engine \<Rightarrow> session_envelope list \<Rightarrow> int list \<Rightarrow> compaction_error + int list" where
  "engine_measure e events nodes = (case en_meter e of
     Some meter \<Rightarrow> meter events nodes | None \<Rightarrow> unit_measure events nodes)"

section \<open>Selecting and validating a range\<close>

record surface_span =
  sp_start :: int
  sp_end :: int

text \<open>
  The loop that walks back from the tail until the retained prices reach the budget; the
  argument counts the nodes not yet walked over.
\<close>

fun keep_loop :: "int list \<Rightarrow> int \<Rightarrow> int \<Rightarrow> nat \<Rightarrow> nat" where
  "keep_loop priced retain accumulated 0 = 0"
| "keep_loop priced retain accumulated (Suc i) =
     (if retain \<le> accumulated + priced ! i then i
      else keep_loop priced retain (accumulated + priced ! i) i)"

fun balance_loop :: "session_envelope list \<Rightarrow> int list \<Rightarrow> nat \<Rightarrow> compaction_error + nat" where
  "balance_loop events nodes 0 = Inr 0"
| "balance_loop events nodes (Suc i) =
     and_then (balanced_before events nodes (int (Suc i))) (\<lambda>balanced.
       if balanced then Inr (Suc i) else balance_loop events nodes i)"

definition select_compactable_range ::
  "compact_engine \<Rightarrow> session_envelope list \<Rightarrow> int list \<Rightarrow> compaction_error + surface_span option" where
  "select_compactable_range e events nodes =
     (if nodes = [] then Inr None
      else and_then (engine_measure e events nodes) (\<lambda>priced.
        if length priced \<noteq> length nodes then Inl MeterMismatch
        else (let keep = keep_loop priced (en_retain_tokens e) 0 (length nodes)
              in if keep = 0 then Inr None
                 else and_then (balance_loop events nodes keep) (\<lambda>k.
                   if k = 0 then Inr None
                   else Inr (Some \<lparr>sp_start = nodes ! 0, sp_end = nodes ! (k - 1)\<rparr>)))))"

record surface_selection =
  sel_span :: surface_span
  sel_start_idx :: nat
  sel_end_idx :: nat
  sel_shadowed :: "int list"

definition validate_surface_region ::
  "session_envelope list \<Rightarrow> int list \<Rightarrow> int \<Rightarrow> int \<Rightarrow> compaction_error + surface_selection" where
  "validate_surface_region events nodes a b =
     (case find_index (\<lambda>n. n = a) nodes of
        None \<Rightarrow> Inl (StartSeqNotFound a)
      | Some i \<Rightarrow>
          (case find_index (\<lambda>n. n = b) nodes of
             None \<Rightarrow> Inl (EndSeqNotFound b)
           | Some j \<Rightarrow>
               (if j < i then Inl (SpanReversed a b)
                else and_then (balanced_before events nodes (int i)) (\<lambda>before.
                  if \<not> before then Inl (StartUnbalanced a)
                  else and_then (balanced_after events nodes (int j)) (\<lambda>after.
                    if \<not> after then Inl (EndUnbalanced b)
                    else Inr \<lparr>sel_span = \<lparr>sp_start = a, sp_end = b\<rparr>, sel_start_idx = i, sel_end_idx = j,
                              sel_shadowed = slice nodes i (Suc j)\<rparr>)))))"

section \<open>The durable lock\<close>

text \<open>The scan from the tail, reading payloads leniently; \<open>None\<close> stands for nil pointers.\<close>

record entry_state =
  es_open_turn :: "int option"
  es_unmatched_start :: "(int \<times> string) option"
  es_latest_end_seed :: "int option"
  es_compaction_known :: bool
  es_turn_known :: bool

definition inspect_step :: "session_envelope \<Rightarrow> entry_state \<Rightarrow> entry_state" where
  "inspect_step event st =
     (let st1 = (if es_latest_end_seed st = None \<and> env_type event = EventSessionEndSeed
                 then st\<lparr>es_latest_end_seed := Some (env_seq event)\<rparr> else st);
          st2 = (if es_compaction_known st1 then st1
                 else if env_type event = EventCompactionStart
                 then st1\<lparr>es_unmatched_start := Some (env_seq event, lenient_string ''compactionId'' (env_data event)),
                          es_compaction_known := True\<rparr>
                 else if env_type event = EventCompactionEnd then st1\<lparr>es_compaction_known := True\<rparr>
                 else st1);
          st3 = (if es_turn_known st2 then st2
                 else if env_type event = EventTurnStart
                 then st2\<lparr>es_open_turn := Some (lenient_int ''turn'' (env_data event)), es_turn_known := True\<rparr>
                 else if env_type event = EventTurnEnd then st2\<lparr>es_turn_known := True\<rparr>
                 else st2)
      in st3)"

fun inspect_loop :: "session_envelope list \<Rightarrow> entry_state \<Rightarrow> entry_state" where
  "inspect_loop [] st = st"
| "inspect_loop (event # earlier) st =
     (let st' = inspect_step event st
      in if es_turn_known st' \<and> es_compaction_known st' \<and> es_latest_end_seed st' \<noteq> None then st'
         else inspect_loop earlier st')"

definition inspect_compaction_entry_state :: "session_envelope list \<Rightarrow> entry_state" where
  "inspect_compaction_entry_state events = inspect_loop (rev events)
     \<lparr>es_open_turn = None, es_unmatched_start = None, es_latest_end_seed = None,
      es_compaction_known = False, es_turn_known = False\<rparr>"

definition lock_expired :: "entry_state \<Rightarrow> int \<Rightarrow> bool" where
  "lock_expired st start_seq = (case es_latest_end_seed st of None \<Rightarrow> False | Some s \<Rightarrow> start_seq < s)"

definition assert_compaction_inactive :: "entry_state \<Rightarrow> compaction_error + unit" where
  "assert_compaction_inactive st = (case es_unmatched_start st of
      None \<Rightarrow> Inr ()
    | Some (start_seq, _) \<Rightarrow>
        if lock_expired st start_seq then Inr ()
        else Inl (ManualError ErrBusy ''compaction: compaction already in progress; the session compaction lock is already active'' None))"

definition active_compaction :: "session_envelope list \<Rightarrow> (string \<times> int) option" where
  "active_compaction events =
     (let st = inspect_compaction_entry_state events
      in case es_unmatched_start st of
           None \<Rightarrow> None
         | Some (start_seq, cid) \<Rightarrow> (if lock_expired st start_seq then None else Some (cid, start_seq)))"

section \<open>Durable payloads\<close>

definition turn_field :: "int option \<Rightarrow> json" where
  "turn_field t = (case t of None \<Rightarrow> JNull | Some i \<Rightarrow> JInt i)"

definition start_payload :: "string \<Rightarrow> string \<Rightarrow> int option \<Rightarrow> json" where
  "start_payload cid cmd turn = JObj ([(''compactionId'', JStr cid)] @ opt_str ''sourceCommandId'' cmd @
     [(''turn'', turn_field turn)])"

definition end_payload :: "string \<Rightarrow> string \<Rightarrow> int option \<Rightarrow> string \<Rightarrow> json" where
  "end_payload cid cmd turn err = JObj ([(''compactionId'', JStr cid)] @ opt_str ''sourceCommandId'' cmd @
     [(''turn'', turn_field turn)] @ opt_str ''error'' err)"

definition summary_payload ::
  "compact_engine \<Rightarrow> string \<Rightarrow> string \<Rightarrow> surface_selection \<Rightarrow> int \<Rightarrow> summary_result \<Rightarrow> json" where
  "summary_payload e cid cmd sel shadowed_tokens sr = JObj ([(''compactionId'', JStr cid)] @
     opt_str ''sourceCommandId'' cmd @
     [(''summary'', if sr_summary sr = [] then JNull else JArr (map enc_content_block (sr_summary sr))),
      (''shadowedRange'', JObj [(''start'', JInt (sp_start (sel_span sel))), (''end'', JInt (sp_end (sel_span sel)))]),
      (''shadowedSeqs'', JArr (map JInt (sel_shadowed sel))), (''shadowedTokenCount'', JInt shadowed_tokens),
      (''provider'', JStr (en_provider e)), (''model'', JStr (en_model e))] @
     opt_int ''maxTokens'' (en_max_tokens e) @
     (case sr_usage sr of None \<Rightarrow> [] | Some u \<Rightarrow> [(''usage'', enc_token_usage u)]) @
     (if sr_llm_stream_call sr then [(''llmStreamCall'', JBool True)] else []) @
     (if sr_raw_output sr = [] then [] else [(''rawOutput'', JArr (map enc_content_block (sr_raw_output sr)))]))"

definition checkpoint_source :: "string \<Rightarrow> string \<Rightarrow> message_source" where
  "checkpoint_source cid cmd = \<lparr>ms_kind = ''plugin'', ms_call_id = [], ms_plugin = ''compact'', ms_form = [],
     ms_provider = [], ms_model = [], ms_replay_state = None, ms_compaction_id = cid, ms_source_command_id = cmd\<rparr>"

definition is_compact_checkpoint_source :: "message_source \<Rightarrow> bool" where
  "is_compact_checkpoint_source src \<longleftrightarrow> ms_kind src = ''plugin'' \<and> ms_plugin src = ''compact''"

text \<open>The framing of a summary; \<open>checkpoint_preamble\<close> ends with the opening tag.\<close>

definition checkpoint_preamble :: string where
  "checkpoint_preamble = ''This is an automatically generated checkpoint condensing an earlier span of the conversation to free up context. Treat the captured context as established background and build on it without restating it. Continue the task directly from the messages that follow, without acknowledging this checkpoint.'' @ [CHR 0x0A, CHR 0x0A] @ ''<compacted-summary>''"

definition frame_summary :: "content_block list \<Rightarrow> content_block list" where
  "frame_summary summary = [text_block checkpoint_preamble] @ summary @ [text_block ''</compacted-summary>'']"

definition count_tokens :: "content_block list \<Rightarrow> int" where
  "count_tokens blocks = estimate_content_tokens blocks"

text \<open>\<open>regionMessages\<close>: the shadowed nodes as model messages.\<close>

fun region_messages :: "session_envelope list \<Rightarrow> int list \<Rightarrow> compaction_error + model_message list" where
  "region_messages events [] = Inr []"
| "region_messages events (sq # sqs) =
     (case by_seq events sq of
        None \<Rightarrow> Inl (ShadowedSeqMissing sq)
      | Some env \<Rightarrow>
          and_then (map_sum SessionFailed id (project_event_message env)) (\<lambda>message.
          and_then (region_messages events sqs) (\<lambda>out.
            Inr (case message of None \<Rightarrow> out | Some m \<Rightarrow> m # out))))"

definition shadowed_token_count ::
  "compact_engine \<Rightarrow> session_envelope list \<Rightarrow> int list \<Rightarrow> surface_selection \<Rightarrow> compaction_error + int" where
  "shadowed_token_count e events nodes sel =
     and_then (engine_measure e events nodes) (\<lambda>priced.
       if length priced \<le> sel_end_idx sel then Inl MeterMismatch
       else Inr (sum_list (slice priced (sel_start_idx sel) (Suc (sel_end_idx sel)))))"

section \<open>The transaction\<close>

record tx_options =
  to_owner :: "int option"
  to_manual :: bool
  to_command :: string
  to_start :: int
  to_end :: int
  to_automatic :: bool

record 's tx_env =
  tx_append :: "session_envelope \<Rightarrow> 's \<Rightarrow> 's \<times> (compaction_error + session_envelope)"
  tx_reload :: "('s \<Rightarrow> compaction_error + session_envelope list \<times> int list) option"
  tx_flush :: "('s \<Rightarrow> 's \<times> compaction_error option) option"
  tx_ctx_before :: "compaction_error option"
  tx_ctx_after :: "compaction_error option"
  tx_compaction_id :: string
  tx_message_id :: string
  tx_now :: "nat \<Rightarrow> int"
  tx_error_text :: "compaction_error \<Rightarrow> string"

record compaction_result =
  rs_compaction_id :: string
  rs_command :: string
  rs_start_seq :: int
  rs_summary_seq :: int
  rs_end_seq :: int
  rs_summary :: "content_block list"
  rs_span :: surface_span
  rs_shadowed :: "int list"
  rs_token_count :: int

text \<open>\<open>errors.As\<close> walks the chain of causes.\<close>

fun find_changed :: "compaction_error \<Rightarrow> bool" where
  "find_changed (SurfaceChanged _) = True"
| "find_changed (ManualError _ _ (Some cause)) = find_changed cause"
| "find_changed _ = False"

definition is_manual_error :: "compaction_error \<Rightarrow> bool" where
  "is_manual_error err = (case err of ManualError _ _ _ \<Rightarrow> True | _ \<Rightarrow> False)"

definition classify_failure :: "tx_options \<Rightarrow> bool \<Rightarrow> compaction_error \<Rightarrow> compaction_error" where
  "classify_failure options commit_stage cause =
     (if \<not> to_manual options then cause
      else if commit_stage then ManualError ErrCommit ''manual compaction did not commit cleanly'' (Some cause)
      else if find_changed cause
      then ManualError ErrChanged ''the compacted history changed during manual compaction'' (Some cause)
      else if is_manual_error cause then cause
      else ManualError ErrSummary ''manual compaction could not produce a smaller summary'' (Some cause))"

text \<open>The comparison loops of the stability check.\<close>

definition assert_selected_span_stable ::
  "compact_engine \<Rightarrow> 's tx_env \<Rightarrow> surface_selection \<Rightarrow> int list \<Rightarrow> 's \<Rightarrow> compaction_error + unit" where
  "assert_selected_span_stable e env sel prepared s = (case tx_reload env of
      None \<Rightarrow> Inr ()
    | Some reload \<Rightarrow> (case reload s of
        Inl _ \<Rightarrow> Inl (SurfaceChanged ''stability recheck could not read the session log'')
      | Inr (events, nodes) \<Rightarrow>
          (case validate_surface_region events nodes (sp_start (sel_span sel)) (sp_end (sel_span sel)) of
             Inl _ \<Rightarrow> Inl (SurfaceChanged ''the selected span is no longer a valid replacement target'')
           | Inr current \<Rightarrow>
               if sel_shadowed current \<noteq> sel_shadowed sel
               then Inl (SurfaceChanged ''the selected span changed during summarization'')
               else (case engine_measure e events nodes of
                   Inl _ \<Rightarrow> Inl (SurfaceChanged ''the selected span was rewritten during summarization'')
                 | Inr priced \<Rightarrow>
                     if length priced \<noteq> length nodes \<or> length priced \<le> sel_end_idx current
                     then Inl (SurfaceChanged ''the selected span was rewritten during summarization'')
                     else if list_all (\<lambda>k. k < length prepared \<and> priced ! (sel_start_idx current + k) = prepared ! k)
                         [0..<Suc (sel_end_idx current) - sel_start_idx current]
                     then Inr ()
                     else Inl (SurfaceChanged ''the selected span was rewritten during summarization'')))))"

text \<open>
  Everything between the start event and the commit: on failure the cause written to the
  closing event and the error returned.
\<close>

definition produce_summary ::
  "compact_engine \<Rightarrow> 's tx_env \<Rightarrow> tx_options \<Rightarrow> session_envelope list \<Rightarrow> int list \<Rightarrow> surface_selection \<Rightarrow> 's
     \<Rightarrow> compaction_error \<times> compaction_error + summary_result \<times> content_block list \<times> int" where
  "produce_summary e env options events nodes sel s =
     (let fail = (\<lambda>err. Inl (err, classify_failure options False err))
      in case engine_measure e events nodes of
           Inl _ \<Rightarrow> fail MeterMismatch
         | Inr priced \<Rightarrow>
             if length priced \<noteq> length nodes then fail MeterMismatch
             else (case region_messages events (sel_shadowed sel) of
                 Inl err \<Rightarrow> fail err
               | Inr input \<Rightarrow>
                   (case en_summarizer e input of
                      Inl err \<Rightarrow> fail err
                    | Inr sr \<Rightarrow>
                        (case (if to_manual options then tx_ctx_after env else None) of
                           Some err \<Rightarrow> Inl (err, ManualError ErrCancelled ''compaction cancelled during summarization'' (Some err))
                         | None \<Rightarrow>
                             (case assert_selected_span_stable e env sel
                                 (slice priced (sel_start_idx sel) (Suc (sel_end_idx sel))) s of
                                Inl err \<Rightarrow> fail err
                              | Inr _ \<Rightarrow>
                                  (case shadowed_token_count e events nodes sel of
                                     Inl err \<Rightarrow> fail err
                                   | Inr tokens \<Rightarrow>
                                       (let framed = frame_summary (sr_summary sr)
                                        in if tokens \<le> count_tokens framed
                                           then fail (SummaryNotSmaller (count_tokens framed) tokens)
                                           else Inr (sr, framed, tokens))))))))"

definition replacement_envelope ::
  "'s tx_env \<Rightarrow> tx_options \<Rightarrow> surface_selection \<Rightarrow> content_block list \<Rightarrow> int \<Rightarrow> int \<Rightarrow> session_envelope" where
  "replacement_envelope env options sel framed start_seq summary_seq =
     (new_envelope 0 (tx_now env 2) EventUserMessage (enc_wire_message
        \<lparr>wm_id = tx_message_id env, wm_role = ''user'', wm_content = framed,
         wm_source = checkpoint_source (tx_compaction_id env) (to_command options)\<rparr>))
     \<lparr>env_surface_op := Some (replace_surface_op (sp_start (sel_span sel)) (sp_end (sel_span sel))),
      env_sources := Some ([start_seq, summary_seq] @ sel_shadowed sel)\<rparr>"

definition commit_body ::
  "compact_engine \<Rightarrow> 's tx_env \<Rightarrow> tx_options \<Rightarrow> surface_selection \<Rightarrow> session_envelope \<Rightarrow> int \<Rightarrow> summary_result
     \<Rightarrow> content_block list \<Rightarrow> 's \<Rightarrow> 's \<times> (compaction_error + session_envelope)" where
  "commit_body e env options sel start_env tokens sr framed s =
     (case tx_append env (new_envelope 0 (tx_now env 1) EventCompactionSummary
          (summary_payload e (tx_compaction_id env) (to_command options) sel tokens sr)) s of
        (s1, Inl err) \<Rightarrow> (s1, Inl err)
      | (s1, Inr summary_env) \<Rightarrow>
          (case tx_append env (replacement_envelope env options sel framed (env_seq start_env) (env_seq summary_env)) s1 of
             (s2, Inl err) \<Rightarrow> (s2, Inl err)
           | (s2, Inr _) \<Rightarrow> (s2, Inr summary_env)))"

definition commit_end ::
  "'s tx_env \<Rightarrow> tx_options \<Rightarrow> int option \<Rightarrow> 's \<Rightarrow> 's \<times> (compaction_error + session_envelope)" where
  "commit_end env options owner_turn s =
     tx_append env (new_envelope 0 (tx_now env 3) EventCompactionEnd
       (end_payload (tx_compaction_id env) (to_command options) owner_turn [])) s"

definition close_failure :: "'s tx_env \<Rightarrow> tx_options \<Rightarrow> compaction_error \<Rightarrow> 's \<Rightarrow> 's" where
  "close_failure env options cause s =
     fst (tx_append env (new_envelope 0 (tx_now env 4) EventCompactionEnd
       (end_payload (tx_compaction_id env) (to_command options) (to_owner options) (tx_error_text env cause))) s)"

text \<open>The guards before anything is written.\<close>

definition admit_compaction ::
  "'s tx_env \<Rightarrow> tx_options \<Rightarrow> session_envelope list \<Rightarrow> int list
     \<Rightarrow> compaction_error + surface_selection \<times> int option" where
  "admit_compaction env options events nodes =
     (if to_manual options \<and> tx_ctx_before env \<noteq> None
      then Inl (ManualError ErrCancelled ''compaction cancelled before start'' None)
      else and_then (validate_surface_region events nodes (to_start options) (to_end options)) (\<lambda>sel.
        (let st = inspect_compaction_entry_state events
         in and_then (assert_compaction_inactive st) (\<lambda>_.
              if to_manual options \<and> es_open_turn st \<noteq> None
              then Inl (ManualError ErrBusy ''manual compaction: the session already has an open turn'' None)
              else if to_automatic options \<and> es_open_turn st = None then Inl NoOpenTurn
              else Inr (sel, case to_owner options of Some t \<Rightarrow> Some t | None \<Rightarrow> es_open_turn st)))))"

text \<open>The bracket once the start event is in the log.\<close>

definition run_bracket ::
  "compact_engine \<Rightarrow> 's tx_env \<Rightarrow> tx_options \<Rightarrow> session_envelope list \<Rightarrow> int list \<Rightarrow> surface_selection
     \<Rightarrow> int option \<Rightarrow> session_envelope \<Rightarrow> 's \<Rightarrow> 's \<times> compaction_result option \<times> compaction_error option" where
  "run_bracket e env options events nodes sel owner_turn start_env s1 =
     (case produce_summary e env options events nodes sel s1 of
        Inl (cause, err) \<Rightarrow> (close_failure env options cause s1, None, Some err)
      | Inr (sr, framed, tokens) \<Rightarrow>
          (case commit_body e env options sel start_env tokens sr framed s1 of
             (s2, Inl err) \<Rightarrow> (close_failure env options err s2, None, Some (classify_failure options True err))
           | (s2, Inr summary_env) \<Rightarrow>
               (case commit_end env options owner_turn s2 of
                  (s3, Inl err) \<Rightarrow>
                    (let wrapped = ManualError ErrCommit ''compaction/end could not be persisted'' (Some err)
                     in (close_failure env options wrapped s3, None, Some wrapped))
                | (s3, Inr end_env) \<Rightarrow>
                    (let result = \<lparr>rs_compaction_id = tx_compaction_id env, rs_command = to_command options,
                           rs_start_seq = env_seq start_env, rs_summary_seq = env_seq summary_env,
                           rs_end_seq = env_seq end_env, rs_summary = framed, rs_span = sel_span sel,
                           rs_shadowed = sel_shadowed sel, rs_token_count = tokens\<rparr>
                     in case tx_flush env of
                          None \<Rightarrow> (s3, Some result, None)
                        | Some flush \<Rightarrow> (case flush s3 of
                              (s4, None) \<Rightarrow> (s4, Some result, None)
                            | (s4, Some err) \<Rightarrow> (s4, Some result,
                                Some (ManualError ErrPersistence ''compaction durability checkpoint failed'' (Some err))))))))"

definition compact_transaction ::
  "compact_engine \<Rightarrow> 's tx_env \<Rightarrow> tx_options \<Rightarrow> session_envelope list \<Rightarrow> int list \<Rightarrow> 's
     \<Rightarrow> 's \<times> compaction_result option \<times> compaction_error option" where
  "compact_transaction e env options events nodes s =
     (case admit_compaction env options events nodes of
        Inl err \<Rightarrow> (s, None, Some err)
      | Inr (sel, owner_turn) \<Rightarrow>
          (case tx_append env (new_envelope 0 (tx_now env 0) EventCompactionStart
              (start_payload (tx_compaction_id env) (to_command options) owner_turn)) s of
             (s1, Inl err) \<Rightarrow>
               (s1, None, Some (ManualError ErrPersistence ''compaction/start could not be persisted'' (Some err)))
           | (s1, Inr start_env) \<Rightarrow> run_bracket e env options events nodes sel owner_turn start_env s1))"

end
