(* ===== verification/Compaction_Laws.thy ===== *)
theory Compaction_Laws imports Compaction Agent_Log begin

text \<open>
  What the compaction engine relies on and what it guarantees.  The locale \<open>token_meter\<close>
  states what a meter promises; \<open>compaction_log\<close> specialises \<open>log_appender\<close> to the engine's
  error type.  The lemmas proved in them describe the selected range and the log a
  transaction leaves behind; the interpretations are the two meters of the package and the
  agent's \<open>emitRaw\<close>.
\<close>

section \<open>Meters\<close>

locale token_meter =
  fixes measure :: "session_envelope list \<Rightarrow> int list \<Rightarrow> compaction_error + int list"
  assumes measure_length: "measure events nodes = Inr ps \<Longrightarrow> length ps = length nodes"
    and measure_nonneg: "measure events nodes = Inr ps \<Longrightarrow> p \<in> set ps \<Longrightarrow> 0 \<le> p"
begin

lemma tail_nonneg: "measure events nodes = Inr ps \<Longrightarrow> 0 \<le> sum_list (drop k ps)"
  by (rule sum_list_nonneg) (auto dest: measure_nonneg in_set_dropD)

lemma tail_antimono:
  assumes "measure events nodes = Inr ps" and "i \<le> j"
  shows "sum_list (drop j ps) \<le> sum_list (drop i ps)"
proof -
  have "drop i ps = slice ps i j @ drop j ps"
    using assms(2) by (simp add: slice_def) (metis append_take_drop_id drop_drop le_add_diff_inverse2)
  moreover have "0 \<le> sum_list (slice ps i j)"
    by (rule sum_list_nonneg) (auto dest: measure_nonneg [OF assms(1)] subsetD [OF set_slice_subset])
  ultimately show ?thesis by simp
qed

end

lemma heuristic_measure_prices:
  "heuristic_measure events nodes = Inr ps \<Longrightarrow> length ps = length nodes \<and> (\<forall>p\<in>set ps. 0 \<le> p)"
proof (induction nodes arbitrary: ps)
  case (Cons sq sqs)
  then obtain env m prices where h: "heuristic_measure events sqs = Inr prices"
    and ps: "ps = (case m of None \<Rightarrow> 0 | Some msg \<Rightarrow> estimate_message_tokens msg) # prices"
    by (cases "by_seq events sq") (auto simp: and_then_Inr_iff)
  have "0 \<le> (case m of None \<Rightarrow> 0 | Some msg \<Rightarrow> estimate_message_tokens msg)"
    by (auto split: option.split intro: order_trans [OF _ estimate_message_ge])
  with Cons.IH [OF h] ps show ?case by simp
qed simp

interpretation heuristic: token_meter heuristic_measure
  by unfold_locales (auto dest: heuristic_measure_prices)

interpretation unit: token_meter unit_measure
  by unfold_locales (auto simp: unit_measure_def)

section \<open>The selected range\<close>

lemma keep_loop_le: "keep_loop priced retain acc n \<le> n"
  by (induction n arbitrary: acc) (auto intro: le_SucI)

lemma sum_drop_Cons: "i < length ps \<Longrightarrow> sum_list (drop i ps) = ps ! i + sum_list (drop (Suc i) (ps::int list))"
  by (simp add: Cons_nth_drop_Suc [symmetric])

lemma keep_loop_spec:
  assumes "n \<le> length ps" and "acc = sum_list (drop n ps)" and "keep_loop ps retain acc n = k" and "0 < k"
  shows "k < n \<and> retain \<le> sum_list (drop k ps) \<and> (\<forall>m. k < m \<and> m < n \<longrightarrow> sum_list (drop m ps) < retain)"
  using assms
proof (induction n arbitrary: acc)
  case (Suc n)
  have s: "sum_list (drop n ps) = acc + ps ! n"
    using Suc.prems(1,2) sum_drop_Cons [of n ps] by simp
  show ?case
  proof (cases "retain \<le> acc + ps ! n")
    case True
    then have "k = n" using Suc.prems(3) by simp
    with True s show ?thesis by simp
  next
    case False
    then have "keep_loop ps retain (acc + ps ! n) n = k" using Suc.prems(3) by simp
    from Suc.IH [OF _ s [symmetric] this Suc.prems(4)] Suc.prems(1) False s show ?thesis
      by (auto simp: less_Suc_eq)
  qed
qed simp

text \<open>When the loop never reaches the budget the whole surface is kept: no index is short of it.\<close>

lemma keep_loop_zero:
  assumes "n \<le> length ps" and "acc = sum_list (drop n ps)" and "keep_loop ps retain acc n = 0"
  shows "\<forall>m. 0 < m \<and> m < n \<longrightarrow> sum_list (drop m ps) < retain"
  using assms
proof (induction n arbitrary: acc)
  case (Suc n)
  have s: "sum_list (drop n ps) = acc + ps ! n"
    using Suc.prems(1,2) sum_drop_Cons [of n ps] by simp
  show ?case
  proof (cases "retain \<le> acc + ps ! n")
    case True
    then have "n = 0" using Suc.prems(3) by simp
    then show ?thesis by simp
  next
    case False
    then have "keep_loop ps retain (acc + ps ! n) n = 0" using Suc.prems(3) by simp
    from Suc.IH [OF _ s [symmetric] this] Suc.prems(1) False s show ?thesis by (auto simp: less_Suc_eq)
  qed
qed simp

lemma balance_loop_spec:
  "balance_loop events nodes n = Inr k \<Longrightarrow> k \<le> n \<and>
     (0 < k \<longrightarrow> balanced_before events nodes (int k) = Inr True) \<and>
     (\<forall>m. k < m \<and> m \<le> n \<longrightarrow> balanced_before events nodes (int m) = Inr False)"
proof (induction n)
  case (Suc n)
  show ?case
  proof (cases "balanced_before events nodes (int (Suc n))")
    case (Inr b)
    with Suc show ?thesis by (cases b) (auto simp: le_Suc_eq)
  qed (use Suc.prems in simp)
qed simp

lemma select_range_iff:
  assumes "select_compactable_range e events nodes = Inr (Some span)"
  obtains ps k where "engine_measure e events nodes = Inr ps" "length ps = length nodes" "0 < k"
    "balance_loop events nodes (keep_loop ps (en_retain_tokens e) 0 (length nodes)) = Inr k"
    "span = \<lparr>sp_start = nodes ! 0, sp_end = nodes ! (k - 1)\<rparr>" "nodes \<noteq> []"
    "0 < keep_loop ps (en_retain_tokens e) 0 (length nodes)"
  using assms by (auto simp: select_compactable_range_def and_then_Inr_iff Let_def split: if_splits)

context token_meter
begin

text \<open>
  The selected range starts at the head, both its cuts are balanced, the prices after it
  reach the retained budget, and it is the longest such range.
\<close>

lemma select_sound:
  assumes eng: "engine_measure e = measure"
    and sel: "select_compactable_range e events nodes = Inr (Some span)" and dist: "distinct nodes"
  obtains ps k where "measure events nodes = Inr ps" "0 < k" "k < length nodes"
    "validate_surface_region events nodes (sp_start span) (sp_end span) =
       Inr \<lparr>sel_span = span, sel_start_idx = 0, sel_end_idx = k - 1, sel_shadowed = take k nodes\<rparr>"
    "en_retain_tokens e \<le> sum_list (drop k ps)"
    "\<And>m. k < m \<Longrightarrow> m < length nodes \<Longrightarrow> balanced_before events nodes (int m) = Inr True \<Longrightarrow>
        sum_list (drop m ps) < en_retain_tokens e"
proof -
  obtain ps k where ps: "engine_measure e events nodes = Inr ps" "length ps = length nodes" and k: "0 < k"
    "balance_loop events nodes (keep_loop ps (en_retain_tokens e) 0 (length nodes)) = Inr k"
    and span: "span = \<lparr>sp_start = nodes ! 0, sp_end = nodes ! (k - 1)\<rparr>" and ne: "nodes \<noteq> []"
    and keep0: "0 < keep_loop ps (en_retain_tokens e) 0 (length nodes)"
    using select_range_iff [OF sel] .
  let ?keep = "keep_loop ps (en_retain_tokens e) 0 (length nodes)"
  have keep: "?keep < length nodes" "en_retain_tokens e \<le> sum_list (drop ?keep ps)"
    "\<forall>m. ?keep < m \<and> m < length nodes \<longrightarrow> sum_list (drop m ps) < en_retain_tokens e"
    using keep_loop_spec [OF _ _ refl keep0] ps(2) by auto
  note bal = balance_loop_spec [OF k(2)]
  have m: "measure events nodes = Inr ps" using ps(1) eng by simp
  have idx: "find_index (\<lambda>n. n = nodes ! 0) nodes = Some 0"
    "find_index (\<lambda>n. n = nodes ! (k - 1)) nodes = Some (k - 1)"
    using find_index_eq_nth [OF dist, of 0] find_index_eq_nth [OF dist, of "k - 1"] ne bal keep(1) by auto
  have kT: "balanced_before events nodes (int k) = Inr True" using bal k(1) by simp
  then obtain bs where bs: "cut_balances events nodes = Inr bs" by (auto simp: balanced_before_iff)
  have b0: "balanced_before events nodes (int 0) = Inr True"
    using bs cut_balances_head [OF bs] by (subst balanced_before_iff) simp
  have ba: "balanced_after events nodes (int (k - 1)) = Inr True"
    using kT k(1) unfolding balanced_after_before by simp
  have "slice nodes 0 (Suc (k - 1)) = take k nodes" using k(1) by (simp add: slice_def)
  with idx b0 ba span have "validate_surface_region events nodes (sp_start span) (sp_end span) =
       Inr \<lparr>sel_span = span, sel_start_idx = 0, sel_end_idx = k - 1, sel_shadowed = take k nodes\<rparr>"
    by (simp add: validate_surface_region_def)
  moreover have "en_retain_tokens e \<le> sum_list (drop k ps)"
    using tail_antimono [OF m, of k ?keep] bal keep(2) by simp
  moreover have "sum_list (drop m ps) < en_retain_tokens e"
    if "k < m" "m < length nodes" "balanced_before events nodes (int m) = Inr True" for m
    using that bal keep(3) by (cases "m \<le> ?keep") auto
  ultimately show thesis using that [OF m k(1)] bal keep(1) by simp
qed

end

section \<open>The log a transaction leaves\<close>

definition bracket_event :: "session_envelope \<Rightarrow> bool" where
  "bracket_event e \<longleftrightarrow> env_type e \<in> {EventCompactionStart, EventCompactionSummary, EventCompactionEnd} \<and>
     env_surface_op e = None \<and> env_sources e = None"

lemma bracket_new_envelope:
  "t \<in> {EventCompactionStart, EventCompactionSummary, EventCompactionEnd} \<Longrightarrow> bracket_event (new_envelope n now t d)"
  by (simp add: bracket_event_def new_envelope_def)

lemma bracket_seq [simp]: "bracket_event (e\<lparr>env_seq := n\<rparr>) = bracket_event e"
  by (simp add: bracket_event_def)

text \<open>A flush is a durability checkpoint; it adds nothing.\<close>

definition flush_neutral :: "('s \<Rightarrow> session_envelope list) \<Rightarrow> ('s \<Rightarrow> bool) \<Rightarrow> 's tx_env \<Rightarrow> bool" where
  "flush_neutral log_of ready env \<longleftrightarrow> (\<forall>f s. tx_flush env = Some f \<longrightarrow> ready s \<longrightarrow>
     ready (fst (f s)) \<and> log_of (fst (f s)) = log_of s)"

locale compaction_log = log_appender app log_of ready
  for app :: "session_envelope \<Rightarrow> 's \<Rightarrow> 's \<times> (compaction_error + session_envelope)"
    and log_of :: "'s \<Rightarrow> session_envelope list" and ready :: "'s \<Rightarrow> bool"
begin

lemma app_bracket:
  assumes "ready s" and "app env s = (s', r)" and "bracket_event env"
  shows "ready s' \<and> (\<exists>new. log_of s' = log_of s @ new \<and> length new \<le> 1 \<and> (\<forall>x\<in>set new. bracket_event x) \<and>
    (\<forall>env'. r = Inr env' \<longrightarrow> new = [env'] \<and> env' = env\<lparr>env_seq := int (length (log_of s))\<rparr>))"
proof (cases r)
  case (Inl err)
  with app_fail [OF assms(1), of env s' err] assms(2) show ?thesis by simp
next
  case (Inr env')
  with app_ok [OF assms(1), of env s' env'] assms(2,3) show ?thesis by simp
qed

lemma close_failure_log:
  assumes "tx_append env = app" and "ready s"
  shows "ready (close_failure env options cause s) \<and> (\<exists>new. log_of (close_failure env options cause s) = log_of s @ new \<and>
    length new \<le> 1 \<and> (\<forall>x\<in>set new. bracket_event x))"
proof -
  obtain s' r where a: "app (new_envelope 0 (tx_now env 4) EventCompactionEnd
       (end_payload (tx_compaction_id env) (to_command options) (to_owner options) (tx_error_text env cause))) s = (s', r)"
    by fastforce
  from app_bracket [OF assms(2) a] bracket_new_envelope a assms(1) show ?thesis
    by (auto simp: close_failure_def)
qed

text \<open>The commit: two appends, the second one being the replacement.\<close>

lemma commit_body_log:
  assumes "tx_append env = app" and "ready s"
    and "commit_body e env options sel start_env tokens sr framed s = (s', r)"
  shows "ready s' \<and> (case r of
      Inl err \<Rightarrow> (\<exists>new. log_of s' = log_of s @ new \<and> length new \<le> 1 \<and> (\<forall>x\<in>set new. bracket_event x))
    | Inr sm \<Rightarrow> bracket_event sm \<and> env_seq sm = int (length (log_of s)) \<and> env_type sm = EventCompactionSummary \<and>
        log_of s' = log_of s @ [sm, (replacement_envelope env options sel framed (env_seq start_env) (env_seq sm))
          \<lparr>env_seq := int (length (log_of s)) + 1\<rparr>])"
proof -
  let ?sum = "new_envelope 0 (tx_now env 1) EventCompactionSummary
          (summary_payload e (tx_compaction_id env) (to_command options) sel tokens sr)"
  obtain s1 r1 where a1: "app ?sum s = (s1, r1)" by fastforce
  have b: "bracket_event ?sum" by (rule bracket_new_envelope) simp
  note l1 = app_bracket [OF assms(2) a1 b]
  show ?thesis
  proof (cases r1)
    case (Inl err)
    with assms(1,3) a1 l1 show ?thesis by (auto simp: commit_body_def)
  next
    case (Inr sm)
    let ?rep = "replacement_envelope env options sel framed (env_seq start_env) (env_seq sm)"
    from l1 Inr have sm: "sm = ?sum\<lparr>env_seq := int (length (log_of s))\<rparr>" "log_of s1 = log_of s @ [sm]" "ready s1"
      by auto
    obtain s2 r2 where a2: "app ?rep s1 = (s2, r2)" by fastforce
    show ?thesis
    proof (cases r2)
      case (Inl err)
      from app_fail [OF sm(3), of ?rep s2 err] a2 Inl have "ready s2" "log_of s2 = log_of s1" by simp_all
      moreover have "s' = s2" "r = Inl err" using assms(1,3) a1 a2 Inr Inl by (auto simp: commit_body_def)
      moreover have "bracket_event sm" using sm(1) b by simp
      ultimately show ?thesis using sm(2) by simp
    next
      case ok: (Inr x)
      from app_ok [OF sm(3), of ?rep s2 x] a2 ok have "ready s2" "log_of s2 = log_of s1 @ [x]"
        "x = ?rep\<lparr>env_seq := int (length (log_of s)) + 1\<rparr>" using sm by simp_all
      moreover have "s' = s2" "r = Inr sm" using assms(1,3) a1 a2 Inr ok by (simp_all add: commit_body_def)
      moreover have "bracket_event sm" "env_seq sm = int (length (log_of s))" "env_type sm = EventCompactionSummary"
        using sm(1) b by (simp_all, simp add: new_envelope_def)
      ultimately show ?thesis using sm(2) by simp
    qed
  qed
qed

text \<open>
  The three shapes of the log.  \<open>start\<close> is the admitted transaction's first event.
\<close>

definition started :: "'s tx_env \<Rightarrow> tx_options \<Rightarrow> int option \<Rightarrow> 's \<Rightarrow> session_envelope" where
  "started env options owner_turn s = (new_envelope 0 (tx_now env 0) EventCompactionStart
     (start_payload (tx_compaction_id env) (to_command options) owner_turn))\<lparr>env_seq := int (length (log_of s))\<rparr>"

lemma run_bracket_log:
  assumes "tx_append env = app" and "ready s1" and "flush_neutral log_of ready env"
    and "run_bracket e env options events nodes sel ow st s1 = (s', res, err)"
  shows "ready s' \<and> (
     (res = None \<and> err \<noteq> None \<and> (\<exists>new. log_of s' = log_of s1 @ new \<and> length new \<le> 2 \<and> (\<forall>x\<in>set new. bracket_event x))) \<or>
     (\<exists>sr framed tokens sm new.
        produce_summary e env options events nodes sel s1 = Inr (sr, framed, tokens) \<and>
        bracket_event sm \<and> env_seq sm = int (length (log_of s1)) \<and> env_type sm = EventCompactionSummary \<and>
        log_of s' = log_of s1 @ [sm, (replacement_envelope env options sel framed (env_seq st) (env_seq sm))
          \<lparr>env_seq := int (length (log_of s1)) + 1\<rparr>] @ new \<and> length new \<le> 1 \<and> (\<forall>x\<in>set new. bracket_event x) \<and>
        (case res of None \<Rightarrow> err \<noteq> None
         | Some result \<Rightarrow> (\<exists>en. new = [en] \<and> env_type en = EventCompactionEnd) \<and> rs_summary result = framed \<and>
             rs_token_count result = tokens \<and> rs_span result = sel_span sel \<and> rs_shadowed result = sel_shadowed sel)))"
proof (cases "produce_summary e env options events nodes sel s1")
  case (Inl x)
  obtain cause er where x: "x = (cause, er)" by fastforce
  from close_failure_log [OF assms(1,2), of options cause] obtain new where
    "ready (close_failure env options cause s1)" "log_of (close_failure env options cause s1) = log_of s1 @ new"
    "length new \<le> 1" "\<forall>x\<in>set new. bracket_event x" by blast
  with Inl x assms(4) show ?thesis by (auto simp: run_bracket_def intro!: exI [of _ new])
next
  case (Inr y)
  obtain sr framed tokens where y: "y = (sr, framed, tokens)" by (metis prod_cases3)
  obtain s2 r2 where c: "commit_body e env options sel st tokens sr framed s1 = (s2, r2)" by fastforce
  note cb = commit_body_log [OF assms(1,2) c]
  show ?thesis
  proof (cases r2)
    case (Inl er)
    with cb obtain new1 where n1: "ready s2" "log_of s2 = log_of s1 @ new1" "length new1 \<le> 1" "\<forall>x\<in>set new1. bracket_event x"
      by auto
    from close_failure_log [OF assms(1) n1(1), of options er] obtain new where
      n2: "ready (close_failure env options er s2)" "log_of (close_failure env options er s2) = log_of s2 @ new"
      "length new \<le> 1" "\<forall>x\<in>set new. bracket_event x" by blast
    have "s' = close_failure env options er s2" "res = None" "err \<noteq> None"
      using Inr y c Inl assms(4) by (auto simp: run_bracket_def)
    with n1 n2 show ?thesis by (auto intro!: exI [of _ "new1 @ new"])
  next
    case ok: (Inr sm)
    let ?rep = "(replacement_envelope env options sel framed (env_seq st) (env_seq sm))\<lparr>env_seq := int (length (log_of s1)) + 1\<rparr>"
    from cb ok have sm: "ready s2" "bracket_event sm" "env_seq sm = int (length (log_of s1))"
      "env_type sm = EventCompactionSummary" "log_of s2 = log_of s1 @ [sm, ?rep]" by simp_all
    let ?endv = "new_envelope 0 (tx_now env 3) EventCompactionEnd (end_payload (tx_compaction_id env) (to_command options) ow [])"
    obtain s3 r3 where e3: "app ?endv s2 = (s3, r3)" by fastforce
    then have ce: "commit_end env options ow s2 = (s3, r3)" using assms(1) by (simp add: commit_end_def)
    have be: "bracket_event ?endv" by (rule bracket_new_envelope) simp
    note l3 = app_bracket [OF sm(1) e3 be]
    show ?thesis
    proof (cases r3)
      case (Inl er)
      let ?w = "ManualError ErrCommit ''compaction/end could not be persisted'' (Some er)"
      from app_fail [OF sm(1), of ?endv s3 er] e3 Inl have s3: "ready s3" "log_of s3 = log_of s2" by simp_all
      from close_failure_log [OF assms(1) s3(1), of options ?w] obtain new where
        n2: "ready (close_failure env options ?w s3)" "log_of (close_failure env options ?w s3) = log_of s3 @ new"
        "length new \<le> 1" "\<forall>x\<in>set new. bracket_event x" by blast
      have "s' = close_failure env options ?w s3" "res = None" "err \<noteq> None"
        using Inr y c ok ce Inl assms(4) by (auto simp: run_bracket_def Let_def)
      with n2 s3 sm Inr y show ?thesis by auto
    next
      case fin: (Inr en)
      with l3 have en: "ready s3" "log_of s3 = log_of s2 @ [en]" "bracket_event en" "env_type en = EventCompactionEnd"
        by (auto simp: new_envelope_def)
      obtain result where R: "res = Some result" "rs_summary result = framed" "rs_token_count result = tokens"
        "rs_span result = sel_span sel" "rs_shadowed result = sel_shadowed sel" and s': "s' = s3 \<or> (\<exists>f. tx_flush env = Some f \<and> s' = fst (f s3))"
        using Inr y c ok ce fin assms(4)
        by (auto simp: run_bracket_def Let_def split: option.splits prod.splits)
      have "ready s'" "log_of s' = log_of s3"
        using s' assms(3) en(1) by (auto simp: flush_neutral_def)
      with R en sm Inr y show ?thesis by auto
    qed
  qed
qed

lemma transaction_log:
  assumes "tx_append env = app" and "ready s" and "flush_neutral log_of ready env"
    and "compact_transaction e env options events nodes s = (s', res, err)"
  shows "ready s' \<and> (
     (res = None \<and> err \<noteq> None \<and> (\<exists>new. log_of s' = log_of s @ new \<and> length new \<le> 3 \<and> (\<forall>x\<in>set new. bracket_event x) \<and>
        ((\<exists>er. admit_compaction env options events nodes = Inl er) \<longrightarrow> new = []))) \<or>
     (\<exists>sel ow s1 sr framed tokens sm new.
        admit_compaction env options events nodes = Inr (sel, ow) \<and> log_of s1 = log_of s @ [started env options ow s] \<and>
        produce_summary e env options events nodes sel s1 = Inr (sr, framed, tokens) \<and>
        bracket_event sm \<and> env_seq sm = int (length (log_of s)) + 1 \<and> env_type sm = EventCompactionSummary \<and>
        log_of s' = log_of s @ [started env options ow s, sm,
          (replacement_envelope env options sel framed (int (length (log_of s))) (int (length (log_of s)) + 1))
            \<lparr>env_seq := int (length (log_of s)) + 2\<rparr>] @ new \<and> length new \<le> 1 \<and> (\<forall>x\<in>set new. bracket_event x) \<and>
        (case res of None \<Rightarrow> err \<noteq> None
         | Some result \<Rightarrow> (\<exists>en. new = [en] \<and> env_type en = EventCompactionEnd) \<and> rs_summary result = framed \<and>
             rs_token_count result = tokens \<and> rs_span result = sel_span sel \<and> rs_shadowed result = sel_shadowed sel)))"
proof (cases "admit_compaction env options events nodes")
  case (Inl er)
  with assms show ?thesis by (auto simp: compact_transaction_def)
next
  case (Inr x)
  obtain sel ow where x: "x = (sel, ow)" by fastforce
  let ?st = "new_envelope 0 (tx_now env 0) EventCompactionStart
     (start_payload (tx_compaction_id env) (to_command options) ow)"
  have bs: "bracket_event ?st" by (rule bracket_new_envelope) simp
  obtain s1 r1 where a1: "app ?st s = (s1, r1)" by fastforce
  show ?thesis
  proof (cases r1)
    case (Inl er)
    from app_fail [OF assms(2), of ?st s1 er] a1 Inl have "ready s1" "log_of s1 = log_of s" by simp_all
    moreover have "s' = s1" "res = None" "err \<noteq> None"
      using Inr x a1 Inl assms(1,4) by (auto simp: compact_transaction_def)
    ultimately show ?thesis by simp
  next
    case ok: (Inr st)
    from app_ok [OF assms(2), of ?st s1 st] a1 ok have st: "ready s1" "st = started env options ow s"
      "log_of s1 = log_of s @ [st]" "env_seq st = int (length (log_of s))" by (simp_all add: started_def)
    have bst: "bracket_event st" using st(2) bs by (simp add: started_def)
    have "run_bracket e env options events nodes sel ow st s1 = (s', res, err)"
      using Inr x a1 ok assms(1,4) by (simp add: compact_transaction_def)
    from run_bracket_log [OF assms(1) st(1) assms(3) this] show ?thesis
    proof (elim conjE disjE, goal_cases)
      case 1
      then obtain new where "log_of s' = log_of s1 @ new" "length new \<le> 2" "\<forall>x\<in>set new. bracket_event x" by blast
      with 1 st bst Inr show ?case by (auto intro!: exI [of _ "st # new"])
    next
      case 2
      then obtain sr framed tokens sm new where p: "produce_summary e env options events nodes sel s1 = Inr (sr, framed, tokens)"
        and q: "bracket_event sm" "env_seq sm = int (length (log_of s1))" "env_type sm = EventCompactionSummary"
        and l: "log_of s' = log_of s1 @ [sm, (replacement_envelope env options sel framed (env_seq st) (env_seq sm))
          \<lparr>env_seq := int (length (log_of s1)) + 1\<rparr>] @ new" "length new \<le> 1" "\<forall>x\<in>set new. bracket_event x"
        and r: "case res of None \<Rightarrow> err \<noteq> None
         | Some result \<Rightarrow> (\<exists>en. new = [en] \<and> env_type en = EventCompactionEnd) \<and> rs_summary result = framed \<and>
             rs_token_count result = tokens \<and> rs_span result = sel_span sel \<and> rs_shadowed result = sel_shadowed sel"
        by (elim exE conjE) blast
      have n: "int (length (log_of s1)) = int (length (log_of s)) + 1"
        "int (length (log_of s)) + 1 + 1 = int (length (log_of s)) + 2" using st(3) by simp_all
      have l1: "log_of s' = log_of s1 @ [sm, (replacement_envelope env options sel framed (int (length (log_of s))) (int (length (log_of s)) + 1))
            \<lparr>env_seq := int (length (log_of s)) + 2\<rparr>] @ new"
        using l(1) unfolding q(2) st(4) n .
      have l': "log_of s' = log_of s @ [st, sm, (replacement_envelope env options sel framed (int (length (log_of s))) (int (length (log_of s)) + 1))
            \<lparr>env_seq := int (length (log_of s)) + 2\<rparr>] @ new"
        using l1 unfolding st(3) append_assoc append_Cons append_Nil .
      have "env_seq sm = int (length (log_of s)) + 1" using q(2) n by simp
      with Inr x 2 p q l l' r st show ?case by blast
    qed
  qed
qed

end

section \<open>The agent as the log of a compaction\<close>

text \<open>\<open>func(env) error { return a.emitRaw(env) }\<close>.\<close>

definition agent_append :: "session_envelope \<Rightarrow> agent \<Rightarrow> agent \<times> (compaction_error + session_envelope)" where
  "agent_append env a = map_prod id (map_sum (\<lambda>_. ForeignError ''emitRaw'') id) (emit_raw env a)"

lemma emit_raw_envelope: "emit_raw env a = (a', Inr env') \<Longrightarrow> env' = env\<lparr>env_seq := ag_seq_counter a\<rparr>"
  by (auto simp: emit_raw_def reserve_seq_def Let_def split: prod.splits option.splits)

interpretation agent_raw: compaction_log agent_append durable_log log_inv
proof unfold_locales
  fix s env s' env'
  assume inv: "log_inv s" and "agent_append env s = (s', Inr env')"
  then have r: "emit_raw env s = (s', Inr env')"
    by (cases "emit_raw env s"; cases "snd (emit_raw env s)") (auto simp: agent_append_def)
  from emit_raw_effect [OF inv r] emit_raw_envelope [OF r]
  show "log_inv s' \<and> env' = env\<lparr>env_seq := int (length (durable_log s))\<rparr> \<and> durable_log s' = durable_log s @ [env']"
    by (auto simp: appends_one_def)
next
  fix s env s' err
  assume inv: "log_inv s" and "agent_append env s = (s', Inl err)"
  then obtain er where r: "emit_raw env s = (s', Inl er)"
    by (cases "emit_raw env s"; cases "snd (emit_raw env s)") (auto simp: agent_append_def)
  from emit_raw_effect [OF inv r] show "log_inv s' \<and> durable_log s' = durable_log s"
    by (auto simp: appends_one_def)
qed

text \<open>
  \<open>maybeCompact\<close>: the flags are those of the cached read.  The options and the environment
  are the ones the agent passes: no owner, no reload, no flush.
\<close>

definition idle_options :: "surface_span \<Rightarrow> tx_options" where
  "idle_options span = \<lparr>to_owner = None, to_manual = False, to_command = [], to_start = sp_start span,
     to_end = sp_end span, to_automatic = False\<rparr>"

definition agent_env :: "agent tx_env \<Rightarrow> agent tx_env" where
  "agent_env env = env\<lparr>tx_append := agent_append, tx_reload := None, tx_flush := None\<rparr>"

definition maybe_compact :: "compact_engine option \<Rightarrow> agent tx_env \<Rightarrow> bool \<Rightarrow> bool \<Rightarrow> agent \<Rightarrow> agent" where
  "maybe_compact compactor env first second a = (case compactor of
      None \<Rightarrow> a
    | Some e \<Rightarrow>
        (let (a1, log) = (if ag_persist a \<noteq> None then cached_session_events first second a
                          else (a, case ag_segment a of Some l \<Rightarrow> l | None \<Rightarrow> []))
         in if log = [] then a1
            else (case fold_surface (map Some log) 0 of
                Inl _ \<Rightarrow> a1
              | Inr surface \<Rightarrow>
                  (case select_compactable_range e log (fo_nodes surface) of
                     Inl _ \<Rightarrow> a1
                   | Inr None \<Rightarrow> a1
                   | Inr (Some span) \<Rightarrow> invalidate_log_cache
                       (fst (compact_transaction e (agent_env env) (idle_options span) log (fo_nodes surface) a1))))))"

end
