(* ===== verification/Compaction_Effects.thy ===== *)
theory Compaction_Effects imports Compaction_Laws begin

text \<open>
  What a completed, refused or failed compaction does to the surface and to the conversation
  derived from it, for the agent's log, together with the model of \<open>maybeCompact\<close>
  (\<open>pkg/agent/loop.go\<close>) that runs the engine on the cached log.
\<close>

section \<open>Bracket events leave the surface alone\<close>

lemma fold_surface_distinct:
  assumes "fold_surface events base = Inr r"
  shows "distinct (fo_nodes r)"
  using fold_surface_invD [OF assms] fold_inv_nodes(1) by metis

lemma bracket_not_surface: "bracket_event e \<Longrightarrow> \<not> is_surface_eligible_type (env_type e)"
  by (auto simp: bracket_event_def is_surface_eligible_type_def surface_event_types_def)

lemma bracket_known: "bracket_event e \<Longrightarrow> is_known_event_type (env_type e)"
  by (auto simp: bracket_event_def is_known_event_type_def known_event_types_def)

lemma fold_surface_bracket:
  assumes "fold_surface (map Some log) 0 = Inr r" and "bracket_event e" and "env_seq e = int (length log)"
  shows "fold_surface (map Some (log @ [e])) 0 = Inr r"
proof -
  have "apply_surface_event \<lparr>sf_nodes = fo_nodes r, sf_generation = fo_generation r\<rparr> (Some e)
      (0 + int (length (map Some log))) (map Some log @ [Some e]) 0 =
      Inr (\<lparr>sf_nodes = fo_nodes r, sf_generation = fo_generation r\<rparr>, None)"
    using assms(2,3) bracket_not_surface [OF assms(2)]
    by (simp add: apply_surface_event_def plan_surface_event_def surface_op_of_def bracket_event_def)
  from fold_surface_snoc [OF assms(1) this] show ?thesis by simp
qed

lemma fold_surface_brackets:
  "fold_surface (map Some log) 0 = Inr r \<Longrightarrow> \<forall>e\<in>set new. bracket_event e \<Longrightarrow> numbered (log @ new) \<Longrightarrow>
     fold_surface (map Some (log @ new)) 0 = Inr r"
proof (induction new rule: rev_induct)
  case (snoc e new)
  then have n: "numbered (log @ new)" "env_seq e = int (length (log @ new))"
    by (simp_all add: append_assoc [symmetric] numbered_snoc del: append_assoc)
  from fold_surface_bracket [OF snoc.IH [OF snoc.prems(1) _ n(1)] _ n(2)] snoc.prems(2) show ?case by simp
qed simp

lemma numbered_append: "numbered (xs @ ys) \<Longrightarrow> numbered xs"
  by (induction ys rule: rev_induct) (simp_all add: append_assoc [symmetric] numbered_snoc del: append_assoc)

section \<open>The replacement\<close>

lemma fold_surface_replacement:
  assumes fold: "fold_surface (map Some log) 0 = Inr r" and nodes: "fo_nodes r = xs @ ys @ zs" and ne: "ys \<noteq> []"
    and e: "env_seq e = int (length log)" "env_type e = EventUserMessage"
      "env_surface_op e = Some (replace_surface_op (hd ys) (last ys))" "env_sources e = Some (as @ ys)"
    and src: "distinct (as @ ys)" "\<forall>s\<in>set as. 0 \<le> s \<and> s < int (length log)"
  shows "\<exists>r'. fold_surface (map Some (log @ [e])) 0 = Inr r' \<and> fo_nodes r' = xs @ [env_seq e] @ zs \<and>
    fo_generation r' = Suc (fo_generation r)"
proof -
  let ?st = "\<lparr>sf_nodes = fo_nodes r, sf_generation = fo_generation r\<rparr>"
  have el: "is_surface_eligible_type (env_type e)"
    using e(2) by (simp add: is_surface_eligible_type_def surface_event_types_def)
  have rng: "0 \<le> s \<and> s < int (length log)" if "s \<in> set ys" for s
    using fold_surface_node_range [OF fold, of s] that nodes by simp
  have "valid_sources e"
    using src rng e ne by (auto simp: valid_sources_def source_seqs_def)
  moreover have "set ys \<subseteq> set (source_seqs e)" using e(4) by (auto simp: source_seqs_def)
  moreover have "rewrite_allowed evs 0 e ys" for evs using e(2) by (simp add: rewrite_allowed_def)
  moreover have "0 \<le> hd ys" "0 \<le> last ys" using rng ne by auto
  ultimately have step: "surface_step (map Some log @ [Some e]) 0 ?st e
      \<lparr>sf_nodes = xs @ [env_seq e] @ zs, sf_generation = Suc (sf_generation ?st)\<rparr>
      (Some \<lparr>fr_seq = env_seq e, fr_start = hd ys, fr_end = last ys, fr_shadowed = ys\<rparr>)"
    by (intro surface_step.replace [OF el e(3)]) (use nodes ne in simp_all)
  have d: "distinct (sf_nodes ?st)" using fold_surface_distinct [OF fold] by simp
  have len: "env_seq e = 0 + int (length (map Some log))" using e(1) by simp
  from apply_surface_event_complete [OF step d, unfolded len] fold_surface_snoc [OF fold] e(1)
  show ?thesis by fastforce
qed

text \<open>The span a validated selection names, as a segment of the nodes.\<close>

lemma validated_segment:
  assumes "validate_surface_region events nodes a b = Inr sel" and "distinct nodes"
  obtains xs zs where "nodes = xs @ sel_shadowed sel @ zs" "sel_shadowed sel \<noteq> []" "hd (sel_shadowed sel) = a"
    "last (sel_shadowed sel) = b" "sel_start_idx sel = length xs"
    "Suc (sel_end_idx sel) = length xs + length (sel_shadowed sel)" "sel_span sel = \<lparr>sp_start = a, sp_end = b\<rparr>"
proof -
  from assms(1) obtain i j where ij: "find_index (\<lambda>n. n = a) nodes = Some i" "find_index (\<lambda>n. n = b) nodes = Some j"
    "i \<le> j" and sel: "sel = \<lparr>sel_span = \<lparr>sp_start = a, sp_end = b\<rparr>, sel_start_idx = i, sel_end_idx = j,
        sel_shadowed = slice nodes i (Suc j)\<rparr>"
    by (auto simp: validate_surface_region_def and_then_Inr_iff split: option.splits if_splits)
  have j: "j < length nodes" "nodes ! i = a" "nodes ! j = b"
    using find_index_Some [OF ij(1)] find_index_Some [OF ij(2)] by simp_all
  let ?ys = "slice nodes i (Suc j)"
  have len: "length ?ys = Suc j - i" using j by simp
  then have ne: "?ys \<noteq> []" using ij(3) by (metis Suc_diff_le length_0_conv nat.distinct(1))
  have "hd ?ys = a" using ne len j ij(3) by (simp add: hd_conv_nth nth_slice)
  moreover have "last ?ys = b"
    using ne len j ij(3) by (simp add: last_conv_nth nth_slice Suc_diff_le)
  moreover have "nodes = take i nodes @ ?ys @ drop (Suc j) nodes"
    using take_slice_drop [of i "Suc j" nodes] ij(3) by simp
  ultimately show thesis using that [of "take i nodes" "drop (Suc j) nodes"] sel ne len ij(3) j by simp
qed

section \<open>The durable lock, read off the log\<close>

definition compaction_mark :: "session_envelope \<Rightarrow> bool" where
  "compaction_mark e \<longleftrightarrow> env_type e = EventCompactionStart \<or> env_type e = EventCompactionEnd"

definition lock_of :: "session_envelope \<Rightarrow> (int \<times> string) option" where
  "lock_of e = (if env_type e = EventCompactionStart
     then Some (env_seq e, lenient_string ''compactionId'' (env_data e)) else None)"

text \<open>
  The loop stops early only when nothing it looks for is missing, so each field is the first
  matching event, read backwards.
\<close>

lemma inspect_loop_lock:
  "es_unmatched_start (inspect_loop es st) =
     (if es_compaction_known st then es_unmatched_start st
      else case find compaction_mark es of None \<Rightarrow> es_unmatched_start st
        | Some e \<Rightarrow> (case lock_of e of None \<Rightarrow> es_unmatched_start st | Some l \<Rightarrow> Some l))"
proof (induction es arbitrary: st)
  case (Cons e es)
  have "es_unmatched_start (inspect_step e st) = (if \<not> es_compaction_known st \<and> compaction_mark e \<and> lock_of e \<noteq> None
      then lock_of e else es_unmatched_start st)"
    "es_compaction_known (inspect_step e st) \<longleftrightarrow> es_compaction_known st \<or> compaction_mark e"
    by (auto simp: inspect_step_def Let_def compaction_mark_def lock_of_def)
  with Cons.IH [of "inspect_step e st"] show ?case
    by (auto simp: Let_def split: option.splits)
qed simp

lemma inspect_loop_seed:
  "es_latest_end_seed (inspect_loop es st) = (case es_latest_end_seed st of Some s \<Rightarrow> Some s
     | None \<Rightarrow> map_option env_seq (find (\<lambda>e. env_type e = EventSessionEndSeed) es))"
proof (induction es arbitrary: st)
  case (Cons e es)
  have "es_latest_end_seed (inspect_step e st) = (case es_latest_end_seed st of Some s \<Rightarrow> Some s
     | None \<Rightarrow> if env_type e = EventSessionEndSeed then Some (env_seq e) else None)"
    by (auto simp: inspect_step_def Let_def split: option.splits)
  with Cons.IH [of "inspect_step e st"] show ?case
    by (auto simp: Let_def split: option.splits)
qed (simp split: option.splits)

lemma find_rev_Some:
  "find p (rev es) = Some e \<longleftrightarrow> (\<exists>bef aft. es = bef @ e # aft \<and> p e \<and> (\<forall>x\<in>set aft. \<not> p x))"
proof
  assume f: "find p (rev es) = Some e"
  show "\<exists>bef aft. es = bef @ e # aft \<and> p e \<and> (\<forall>x\<in>set aft. \<not> p x)"
    using f
  proof (induction es rule: rev_induct)
    case (snoc x es)
    show ?case
    proof (cases "p x")
      case True
      with snoc.prems show ?thesis by (intro exI [of _ es] exI [of _ "[]"]) simp
    next
      case False
      with snoc obtain bef aft where "es = bef @ e # aft" "p e" "\<forall>x\<in>set aft. \<not> p x" by auto
      with False show ?thesis by (intro exI [of _ bef] exI [of _ "aft @ [x]"]) simp
    qed
  qed simp
next
  assume "\<exists>bef aft. es = bef @ e # aft \<and> p e \<and> (\<forall>x\<in>set aft. \<not> p x)"
  then obtain bef aft where e: "es = bef @ e # aft" "p e" "\<forall>x\<in>set aft. \<not> p x" by blast
  have "find p (xs @ e # ys) = Some e" if "\<forall>x\<in>set xs. \<not> p x" for xs ys
    using that e(2) by (induction xs) auto
  with e show "find p (rev es) = Some e" by simp
qed

lemma find_rev_None: "find p (rev es) = None \<longleftrightarrow> (\<forall>x\<in>set es. \<not> p x)"
  by (auto simp: find_None_iff)

lemma numbered_split: "numbered (bef @ e # aft) \<Longrightarrow> env_seq e = int (length bef)"
  using numbered_nth [of "bef @ e # aft" "length bef"] by simp

lemma active_compaction_iff:
  assumes "numbered events"
  shows "active_compaction events = Some (cid, n) \<longleftrightarrow>
    (\<exists>bef e aft. events = bef @ e # aft \<and> env_type e = EventCompactionStart \<and> env_seq e = n \<and>
       cid = lenient_string ''compactionId'' (env_data e) \<and>
       (\<forall>x\<in>set aft. \<not> compaction_mark x \<and> env_type x \<noteq> EventSessionEndSeed))"
proof -
  let ?st = "inspect_compaction_entry_state events"
  have lock: "es_unmatched_start ?st = Option.bind (find compaction_mark (rev events)) lock_of"
    by (simp add: inspect_compaction_entry_state_def inspect_loop_lock split: option.splits)
  have seed: "es_latest_end_seed ?st = map_option env_seq (find (\<lambda>e. env_type e = EventSessionEndSeed) (rev events))"
    by (simp add: inspect_compaction_entry_state_def inspect_loop_seed)
  have live: "\<not> lock_expired ?st (env_seq e) \<longleftrightarrow> (\<forall>x\<in>set aft. env_type x \<noteq> EventSessionEndSeed)"
    if ev: "events = bef @ e # aft" and ty: "env_type e = EventCompactionStart" for bef e aft
  proof (cases "find (\<lambda>e. env_type e = EventSessionEndSeed) (rev events)")
    case None
    then have "\<forall>x\<in>set events. env_type x \<noteq> EventSessionEndSeed" by (simp only: find_rev_None not_not)
    with ev seed None show ?thesis by (auto simp: lock_expired_def)
  next
    case (Some s)
    from iffD1 [OF find_rev_Some Some] obtain b' a' where s: "events = b' @ s # a'" "env_type s = EventSessionEndSeed"
      "\<forall>x\<in>set a'. env_type x \<noteq> EventSessionEndSeed" by blast
    have sq: "env_seq s = int (length b')" "env_seq e = int (length bef)"
      using assms s(1) ev numbered_split by metis+
    have "s \<noteq> e" using s(2) ty by auto
    consider (later) zs where "b' = bef @ e # zs" "aft = zs @ s # a'" | (earlier) zs where "bef = b' @ s # zs" "a' = zs @ e # aft"
      using ev s(1) \<open>s \<noteq> e\<close> by (auto simp: append_eq_append_conv2 append_eq_Cons_conv Cons_eq_append_conv)
    then show ?thesis
    proof cases
      case later
      with sq seed Some s(2) show ?thesis by (auto simp: lock_expired_def)
    next
      case earlier
      with sq seed Some s(3) show ?thesis by (auto simp: lock_expired_def)
    qed
  qed
  have "active_compaction events = Some (cid, n) \<longleftrightarrow> (\<exists>e. find compaction_mark (rev events) = Some e \<and>
      env_type e = EventCompactionStart \<and> env_seq e = n \<and> cid = lenient_string ''compactionId'' (env_data e) \<and>
      \<not> lock_expired ?st (env_seq e))"
    by (cases "find compaction_mark (rev events)") (auto simp: active_compaction_def Let_def lock lock_of_def)
  also have "\<dots> \<longleftrightarrow> (\<exists>bef e aft. events = bef @ e # aft \<and> env_type e = EventCompactionStart \<and> env_seq e = n \<and>
       cid = lenient_string ''compactionId'' (env_data e) \<and>
       (\<forall>x\<in>set aft. \<not> compaction_mark x \<and> env_type x \<noteq> EventSessionEndSeed))"
    unfolding find_rev_Some using live by (fastforce simp: compaction_mark_def)
  finally show ?thesis .
qed

lemma assert_inactive_iff:
  "assert_compaction_inactive (inspect_compaction_entry_state events) = Inr () \<longleftrightarrow> active_compaction events = None"
  by (auto simp: assert_compaction_inactive_def active_compaction_def Let_def split: option.splits prod.splits)

section \<open>The summary\<close>

lemma produce_summary_ok:
  assumes "produce_summary e env options events nodes sel s = Inr (sr, framed, tokens)"
  shows "framed = frame_summary (sr_summary sr) \<and> count_tokens framed < tokens \<and>
    shadowed_token_count e events nodes sel = Inr tokens \<and>
    (\<exists>input. region_messages events (sel_shadowed sel) = Inr input \<and> en_summarizer e input = Inr sr)"
  using assms
  by (auto simp: produce_summary_def Let_def split: sum.splits if_splits option.splits)

lemma admit_validates:
  "admit_compaction env options events nodes = Inr (sel, ow) \<Longrightarrow>
     validate_surface_region events nodes (to_start options) (to_end options) = Inr sel \<and>
     active_compaction events = None"
  unfolding assert_inactive_iff [symmetric]
  by (cases "assert_compaction_inactive (inspect_compaction_entry_state events)")
    (auto simp: admit_compaction_def and_then_Inr_iff Let_def split: if_splits)

lemma replacement_fields [simp]:
  "env_type (replacement_envelope env options sel framed a b) = EventUserMessage"
  "env_surface_op (replacement_envelope env options sel framed a b) =
     Some (replace_surface_op (sp_start (sel_span sel)) (sp_end (sel_span sel)))"
  "env_sources (replacement_envelope env options sel framed a b) = Some ([a, b] @ sel_shadowed sel)"
  by (simp_all add: replacement_envelope_def new_envelope_def)

lemma project_replacement:
  "project_event_message ((replacement_envelope env options sel framed a b)\<lparr>env_seq := n\<rparr>) =
     Inr (Some \<lparr>mm_role = ''user'', mm_content = framed\<rparr>)"
proof -
  have "env_data (replacement_envelope env options sel framed a b) = Some (enc_wire_message
        \<lparr>wm_id = tx_message_id env, wm_role = ''user'', wm_content = framed,
         wm_source = checkpoint_source (tx_compaction_id env) (to_command options)\<rparr>)"
    by (simp add: replacement_envelope_def new_envelope_def)
  then show ?thesis by (simp add: project_event_message_def dec_enc_wire_message)
qed

section \<open>The effect of a transaction on the surface\<close>

lemma bracket_started: "bracket_event (agent_raw.started env options ow a)"
  by (simp add: agent_raw.started_def bracket_new_envelope)

lemma compaction_effect:
  assumes inv: "log_inv a" and log: "durable_log a = log" and fold: "fold_surface (map Some log) 0 = Inr r"
    and app: "tx_append env = agent_append" and fl: "flush_neutral durable_log log_inv env"
    and run: "compact_transaction e env options log (fo_nodes r) a = (a', res, err)"
  shows "log_inv a' \<and> (\<exists>new. durable_log a' = log @ new \<and>
    ((res = None \<and> err \<noteq> None \<and> length new \<le> 3 \<and> (\<forall>x\<in>set new. bracket_event x) \<and>
      fold_surface (map Some (log @ new)) 0 = Inr r) \<or>
     (\<exists>xs ys zs sr framed tokens st sm rest s1 sel ow r'.
        admit_compaction env options log (fo_nodes r) = Inr (sel, ow) \<and> sel_shadowed sel = ys \<and>
        sel_start_idx sel = length xs \<and> Suc (sel_end_idx sel) = length xs + length ys \<and>
        produce_summary e env options log (fo_nodes r) sel s1 = Inr (sr, framed, tokens) \<and>
        fo_nodes r = xs @ ys @ zs \<and> ys \<noteq> [] \<and> hd ys = to_start options \<and> last ys = to_end options \<and>
        new = [st, sm, (replacement_envelope env options sel framed (int (length log)) (int (length log) + 1))
            \<lparr>env_seq := int (length log) + 2\<rparr>] @ rest \<and> bracket_event st \<and> bracket_event sm \<and>
        (\<forall>x\<in>set rest. bracket_event x) \<and> length rest \<le> 1 \<and>
        fold_surface (map Some (log @ new)) 0 = Inr r' \<and> fo_nodes r' = xs @ [int (length log) + 2] @ zs \<and>
        fo_generation r' = Suc (fo_generation r) \<and>
        (case res of None \<Rightarrow> err \<noteq> None | Some result \<Rightarrow> (\<exists>en. rest = [en] \<and> env_type en = EventCompactionEnd) \<and>
           rs_summary result = framed \<and> rs_token_count result = tokens \<and> rs_shadowed result = ys))))"
proof -
  note shape = agent_raw.transaction_log [OF app inv fl run]
  have inv': "log_inv a'" using shape by blast
  have num: "numbered (durable_log a')" using log_invE [OF inv'] by metis
  from shape show ?thesis
  proof (elim conjE disjE, goal_cases)
    case 1
    then obtain new where n: "durable_log a' = log @ new" "length new \<le> 3" "\<forall>x\<in>set new. bracket_event x"
      using log by blast
    from fold_surface_brackets [OF fold n(3)] num n(1) have "fold_surface (map Some (log @ new)) 0 = Inr r" by simp
    with 1 n inv' show ?case by blast
  next
    case 2
    let ?n = "int (length log)"
    from 2(2) obtain sel ow s1 sr framed tokens sm rest where
      adm: "admit_compaction env options log (fo_nodes r) = Inr (sel, ow)"
      and prod: "produce_summary e env options log (fo_nodes r) sel s1 = Inr (sr, framed, tokens)"
      and sm: "bracket_event sm"
      and dl: "durable_log a' = log @ [agent_raw.started env options ow a, sm,
          (replacement_envelope env options sel framed ?n (?n + 1))\<lparr>env_seq := ?n + 2\<rparr>] @ rest"
      and rest: "length rest \<le> 1" "\<forall>x\<in>set rest. bracket_event x"
      and res: "case res of None \<Rightarrow> err \<noteq> None
         | Some result \<Rightarrow> (\<exists>en. rest = [en] \<and> env_type en = EventCompactionEnd) \<and> rs_summary result = framed \<and>
             rs_token_count result = tokens \<and> rs_span result = sel_span sel \<and> rs_shadowed result = sel_shadowed sel"
      unfolding log by (elim exE conjE) blast
    let ?st = "agent_raw.started env options ow a"
    let ?rep = "(replacement_envelope env options sel framed ?n (?n + 1))\<lparr>env_seq := ?n + 2\<rparr>"
    obtain xs zs where seg: "fo_nodes r = xs @ sel_shadowed sel @ zs" "sel_shadowed sel \<noteq> []"
      "hd (sel_shadowed sel) = to_start options" "last (sel_shadowed sel) = to_end options"
      "sel_start_idx sel = length xs" "Suc (sel_end_idx sel) = length xs + length (sel_shadowed sel)"
      "sel_span sel = \<lparr>sp_start = to_start options, sp_end = to_end options\<rparr>"
      using validated_segment [OF conjunct1 [OF admit_validates [OF adm]] fold_surface_distinct [OF fold]] .
    have n2: "numbered (log @ [?st, sm])" and n3: "numbered ((log @ [?st, sm, ?rep]) @ rest)"
      using num dl numbered_append [of "log @ [?st, sm]" "?rep # rest"] by simp_all
    have "fold_surface (map Some (log @ [?st, sm])) 0 = Inr r"
      by (rule fold_surface_brackets [OF fold _ n2]) (simp add: bracket_started sm)
    moreover have "distinct ([?n, ?n + 1] @ sel_shadowed sel)"
      using fold_surface_distinct [OF fold] fold_surface_node_range [OF fold] seg(1) by fastforce
    ultimately obtain r' where r': "fold_surface (map Some ((log @ [?st, sm]) @ [?rep])) 0 = Inr r'"
      "fo_nodes r' = xs @ [?n + 2] @ zs" "fo_generation r' = Suc (fo_generation r)"
      using fold_surface_replacement [of "log @ [?st, sm]" r xs "sel_shadowed sel" zs ?rep "[?n, ?n + 1]"] seg
      by auto
    have "fold_surface (map Some ((log @ [?st, sm, ?rep]) @ rest)) 0 = Inr r'"
      by (rule fold_surface_brackets [OF _ rest(2) n3]) (use r'(1) in simp)
    then have fold': "fold_surface (map Some (log @ [?st, sm, ?rep] @ rest)) 0 = Inr r'" by simp
    have res': "case res of None \<Rightarrow> err \<noteq> None | Some result \<Rightarrow> (\<exists>en. rest = [en] \<and> env_type en = EventCompactionEnd) \<and>
           rs_summary result = framed \<and> rs_token_count result = tokens \<and> rs_shadowed result = sel_shadowed sel"
      using res by (cases res) auto
    show ?case
      by (intro conjI exI [of _ "[?st, sm, ?rep] @ rest"] disjI2, rule inv', rule dl, intro exI conjI,
          rule adm, rule refl, rule seg(5), rule seg(6), rule prod, rule seg(1), rule seg(2), rule seg(3), rule seg(4),
          rule refl, rule bracket_started, rule sm, rule rest(2), rule rest(1), rule fold', rule r'(2), rule r'(3), rule res')
  qed
qed

section \<open>The effect on the conversation\<close>

lemma by_seq_numbered:
  assumes "numbered events" and "0 \<le> s" and "s < int (length events)"
  shows "by_seq events s = go_index events s"
proof -
  have e: "events ! nat s \<in> set events" "env_seq (events ! nat s) = s"
    using assms numbered_nth [OF assms(1), of "nat s"] by simp_all
  have "map env_seq events = map int [0..<length events]" using assms(1) by (simp add: numbered_def)
  then have "distinct (map env_seq events)" by (simp add: distinct_map inj_on_def)
  from by_seq_unique [OF this e(1)] e(2) assms show ?thesis by (simp add: go_index_def)
qed

lemma region_collect:
  assumes "numbered events" and "\<forall>s\<in>set ys. 0 \<le> s \<and> s < int (length events)"
  shows "region_messages events ys = map_sum SessionFailed id (collect_messages events ys)"
  using assms(2)
proof (induction ys)
  case (Cons y ys)
  then have y: "by_seq events y = go_index events y" "go_index events y = Some (events ! nat y)"
    by (simp_all add: by_seq_numbered [OF assms(1)] go_index_def)
  show ?case
    using Cons y by (cases "project_event_message (events ! nat y)"; cases "collect_messages events ys")
      (auto split: option.splits)
qed simp

lemma heuristic_measure_append:
  "heuristic_measure events (xs @ ys) = and_then (heuristic_measure events xs) (\<lambda>ps.
     and_then (heuristic_measure events ys) (\<lambda>qs. Inr (ps @ qs)))"
proof (induction xs)
  case Nil
  show ?case by (cases "heuristic_measure events ys") auto
next
  case (Cons x xs)
  show ?case
  proof (cases "by_seq events x")
    case (Some env)
    with Cons show ?thesis
      by (cases "project_event_message env"; cases "heuristic_measure events xs"; cases "heuristic_measure events ys") auto
  qed simp
qed

lemma heuristic_collect:
  assumes "numbered events" and "\<forall>s\<in>set ys. 0 \<le> s \<and> s < int (length events)"
    and "collect_messages events ys = Inr ms"
  shows "\<exists>ps. heuristic_measure events ys = Inr ps \<and> sum_list ps = sum_list (map estimate_message_tokens ms)"
  using assms(2,3)
proof (induction ys arbitrary: ms)
  case (Cons y ys)
  then have y: "by_seq events y = Some (events ! nat y)" "go_index events y = Some (events ! nat y)"
    by (simp_all add: by_seq_numbered [OF assms(1)] go_index_def)
  from Cons.prems(2) y obtain m ms' where m: "project_event_message (events ! nat y) = Inr m"
    "collect_messages events ys = Inr ms'" "ms = (case m of None \<Rightarrow> ms' | Some msg \<Rightarrow> msg # ms')"
    by (auto simp: and_then_Inr_iff)
  from Cons.IH [OF _ m(2)] Cons.prems(1) obtain ps where
    "heuristic_measure events ys = Inr ps" "sum_list ps = sum_list (map estimate_message_tokens ms')" by auto
  with m y show ?case by (cases m) simp_all
qed simp

text \<open>A span's price under the heuristic meter is what its messages cost.\<close>

lemma heuristic_span:
  assumes num: "numbered events" and rng: "\<forall>s\<in>set (xs @ ys @ zs). 0 \<le> s \<and> s < int (length events)"
    and col: "collect_messages events ys = Inr mid"
    and tok: "shadowed_token_count e events (xs @ ys @ zs) sel = Inr tokens"
    and sel: "sel_start_idx sel = length xs" "Suc (sel_end_idx sel) = length xs + length ys"
    and eng: "engine_measure e = heuristic_measure"
  shows "tokens = sum_list (map estimate_message_tokens mid)"
proof -
  from tok eng obtain ps where ps: "heuristic_measure events (xs @ ys @ zs) = Inr ps"
    and t: "tokens = sum_list (slice ps (length xs) (length xs + length ys))"
    using sel by (auto simp: shadowed_token_count_def and_then_Inr_iff split: if_splits)
  from ps obtain p1 p2 p3 where p: "heuristic_measure events xs = Inr p1" "heuristic_measure events ys = Inr p2"
    "ps = p1 @ p2 @ p3"
    by (auto simp: heuristic_measure_append and_then_Inr_iff)
  have "length p1 = length xs" "length p2 = length ys"
    using heuristic_measure_prices p by metis+
  then have "slice ps (length xs) (length xs + length ys) = p2" using p(3) by (simp add: slice_def)
  moreover have "\<forall>s\<in>set ys. 0 \<le> s \<and> s < int (length events)" using rng by simp
  from heuristic_collect [OF num this col] p(2) have "sum_list p2 = sum_list (map estimate_message_tokens mid)" by auto
  ultimately show ?thesis using t by simp
qed

lemma derive_replaced:
  assumes der: "derive_messages log = Inr ms" and fold: "fold_surface (map Some log) 0 = Inr r"
    and nodes: "fo_nodes r = xs @ ys @ zs"
    and fold': "fold_surface (map Some (log @ pre @ [rep] @ rest)) 0 = Inr r'"
    and nodes': "fo_nodes r' = xs @ [int (length (log @ pre))] @ zs"
    and brk: "\<forall>x\<in>set (pre @ rest). bracket_event x"
    and rep: "env_type rep = EventUserMessage" "project_event_message rep = Inr (Some m)"
  shows "\<exists>ms1 mid ms2. ms = ms1 @ mid @ ms2 \<and> collect_messages log ys = Inr mid \<and>
    derive_messages (log @ pre @ [rep] @ rest) = Inr (ms1 @ [m] @ ms2)"
proof -
  let ?l = "log @ pre @ [rep] @ rest"
  from der fold have sup: "assert_events_supported log = Inr ()" and col: "collect_messages log (xs @ ys @ zs) = Inr ms"
    using nodes by (auto simp: derive_messages_def and_then_Inr_iff)
  from col obtain ms1 mid ms2 where c: "collect_messages log xs = Inr ms1" "collect_messages log ys = Inr mid"
    "collect_messages log zs = Inr ms2" "ms = ms1 @ mid @ ms2"
    by (auto simp: collect_messages_append and_then_Inr_iff)
  have "is_known_event_type (env_type rep)" using rep(1) by (simp add: is_known_event_type_def known_event_types_def)
  then have sup': "assert_events_supported ?l = Inr ()"
    using sup brk bracket_known by (auto simp: assert_events_supported_ok_iff)
  have "go_index ?l (int (length (log @ pre))) = Some rep"
    by (simp add: go_index_def nth_append)
  then have "collect_messages ?l [int (length (log @ pre))] = Inr [m]" using rep(2) by simp
  then have "collect_messages ?l (fo_nodes r') = Inr (ms1 @ [m] @ ms2)"
    unfolding nodes' collect_messages_append
    using collect_messages_more [OF c(1), of "pre @ [rep] @ rest"] collect_messages_more [OF c(3), of "pre @ [rep] @ rest"]
    by simp
  with sup' fold' have "derive_messages ?l = Inr (ms1 @ [m] @ ms2)" by (simp add: derive_messages_def)
  with c show ?thesis by blast
qed

end
