(* ===== verification/Compaction_Properties.thy ===== *)
theory Compaction_Properties imports Compaction_Effects Agent_Lifecycle begin

text \<open>
  What the compaction engine guarantees: the balance of cuts, the selected range, the durable
  lock, and the effect of a transaction and of \<open>maybeCompact\<close> on the log, the surface and
  the derived conversation.  A two-message log is the concrete instance.
\<close>

section \<open>A store that answers\<close>

lemma healthy_append:
  assumes "healthy a"
  obtains a' env' where "agent_append env a = (a', Inr env')" "healthy a'"
    "durable_log a' = durable_log a @ [env']"
proof -
  obtain a' r where run: "emit_raw env a = (a', r)" by fastforce
  from assms have inv: "log_inv a" by (simp add: healthy_def)
  obtain log where log: "ag_persist a = Some log" "numbered log" "durable_log a = log" using log_invE [OF inv] .
  let ?env = "env\<lparr>env_seq := ag_seq_counter a\<rparr>"
  have "emit_raw env a = (publish ?env (a\<lparr>ag_seq_counter := ag_seq_counter a + 1, ag_faults := [], ag_persist := Some (log @ [?env])\<rparr>), Inr ?env)"
    using assms log
    by (simp add: emit_raw_def reserve_seq_def Let_def persist_event_def append_batch_def healthy_def)
  with run have r: "r = Inr ?env" and a': "a' = publish ?env (a\<lparr>ag_seq_counter := ag_seq_counter a + 1, ag_faults := [], ag_persist := Some (log @ [?env])\<rparr>)"
    by simp_all
  from emit_raw_effect [OF inv run] r have "log_inv a'" "durable_log a' = durable_log a @ [?env]"
    "ag_seq_counter a' = int (length (durable_log a'))" by (auto simp: appends_one_def)
  moreover have "ag_faults a' = []" unfolding a' by simp
  ultimately have "healthy a'" by (simp add: healthy_def)
  with run r \<open>durable_log a' = durable_log a @ [?env]\<close> show thesis
    using that by (simp add: agent_append_def)
qed

lemma produce_summary_state:
  assumes "tx_reload env = None"
  shows "produce_summary e env options events nodes sel s = produce_summary e env options events nodes sel s'"
proof -
  have "assert_selected_span_stable e env sel p s = assert_selected_span_stable e env sel p s'" for p
    using assms by (simp add: assert_selected_span_stable_def)
  then show ?thesis by (simp only: produce_summary_def)
qed

lemma compaction_completes:
  assumes h: "healthy a" and env: "tx_append env = agent_append" "tx_reload env = None" "tx_flush env = None"
    and adm: "admit_compaction env options events nodes = Inr (sel, ow)"
    and prod: "produce_summary e env options events nodes sel a = Inr (sr, framed, tokens)"
  shows "\<exists>a' res. compact_transaction e env options events nodes a = (a', Some res, None) \<and> healthy a' \<and>
    length (durable_log a') = length (durable_log a) + 4"
proof -
  obtain a1 st where 1: "agent_append (new_envelope 0 (tx_now env 0) EventCompactionStart
      (start_payload (tx_compaction_id env) (to_command options) ow)) a = (a1, Inr st)" "healthy a1"
    "durable_log a1 = durable_log a @ [st]" using healthy_append [OF h] .
  have p: "produce_summary e env options events nodes sel a1 = Inr (sr, framed, tokens)"
    using prod produce_summary_state [OF env(2), of e options events nodes sel a1 a] by simp
  obtain a2 sm where 2: "agent_append (new_envelope 0 (tx_now env 1) EventCompactionSummary
      (summary_payload e (tx_compaction_id env) (to_command options) sel tokens sr)) a1 = (a2, Inr sm)" "healthy a2"
    "durable_log a2 = durable_log a1 @ [sm]" using healthy_append [OF 1(2)] .
  obtain a3 rp where 3: "agent_append (replacement_envelope env options sel framed (env_seq st) (env_seq sm)) a2 = (a3, Inr rp)"
    "healthy a3" "durable_log a3 = durable_log a2 @ [rp]" using healthy_append [OF 2(2)] .
  obtain a4 en where 4: "agent_append (new_envelope 0 (tx_now env 3) EventCompactionEnd
      (end_payload (tx_compaction_id env) (to_command options) ow [])) a3 = (a4, Inr en)" "healthy a4"
    "durable_log a4 = durable_log a3 @ [en]" using healthy_append [OF 3(2)] .
  have "commit_body e env options sel st tokens sr framed a1 = (a3, Inr sm)"
    using 2(1) 3(1) env(1) by (simp add: commit_body_def)
  moreover have "commit_end env options ow a3 = (a4, Inr en)" using 4(1) env(1) by (simp add: commit_end_def)
  ultimately have "\<exists>res. compact_transaction e env options events nodes a = (a4, Some res, None)"
    using adm 1(1) p env by (simp add: compact_transaction_def run_bracket_def Let_def)
  with 1(3) 2(3) 3(3) 4 show ?thesis by auto
qed

section \<open>A concrete compaction\<close>

definition sample_wire :: "string \<Rightarrow> wire_message" where
  "sample_wire tx = \<lparr>wm_id = [], wm_role = ''user'', wm_content = [text_block tx],
     wm_source = checkpoint_source [] []\<rparr>"

definition long_text :: string where
  "long_text = replicate 800 (CHR ''a'')"

definition sample_chat :: "session_envelope list" where
  "sample_chat = [(new_envelope 0 0 EventUserMessage (enc_wire_message (sample_wire long_text)))
       \<lparr>env_surface_op := Some append_surface_op\<rparr>,
     (new_envelope 1 0 EventUserMessage (enc_wire_message (sample_wire ''b'')))
       \<lparr>env_surface_op := Some append_surface_op\<rparr>]"

definition sample_engine :: compact_engine where
  "sample_engine = \<lparr>en_retain_tokens = 5, en_meter = Some heuristic_measure,
     en_summarizer = (\<lambda>_. Inr \<lparr>sr_summary = [text_block ''s''], sr_usage = None, sr_raw_output = [], sr_llm_stream_call = False\<rparr>),
     en_provider = [], en_model = [], en_max_tokens = 0\<rparr>"

definition sample_env :: "agent tx_env" where
  "sample_env = \<lparr>tx_append = agent_append, tx_reload = None, tx_flush = None, tx_ctx_before = None, tx_ctx_after = None,
     tx_compaction_id = ''c'', tx_message_id = ''m'', tx_now = (\<lambda>_. 0), tx_error_text = (\<lambda>_. ''e'')\<rparr>"

definition sample_chat_agent :: agent where
  "sample_chat_agent = new_agent True (Some sample_chat) [] None None"

lemma numbered_sample_chat: "numbered sample_chat"
  by (simp add: numbered_def sample_chat_def new_envelope_def)

lemma sample_chat_agent_log: "durable_log sample_chat_agent = sample_chat"
  by (simp add: sample_chat_agent_def new_agent_def seed_seq_from_def durable_log_def sample_chat_def)

lemma sample_chat_agent_healthy: "healthy sample_chat_agent"
proof -
  have "log_inv sample_chat_agent" using log_inv_new [OF numbered_sample_chat, of True] by (simp add: sample_chat_agent_def)
  then show ?thesis
    by (simp add: healthy_def sample_chat_agent_log)
      (simp add: sample_chat_agent_def new_agent_def seed_seq_from_def sample_chat_def new_envelope_def)
qed

definition sample_surface :: surface_fold_result where
  "sample_surface = \<lparr>fo_nodes = [0, 1], fo_replacements = [], fo_generation = 0\<rparr>"

lemma sample_chat_fold: "fold_surface (map Some sample_chat) 0 = Inr sample_surface"
  by (simp add: sample_surface_def sample_chat_def fold_surface_def apply_surface_event_def plan_surface_event_def
      new_envelope_def surface_op_of_def is_surface_eligible_type_def surface_event_types_def is_append_def
      append_surface_op_def assert_provenance_def source_seqs_def init_fold_state_def)

lemma sample_by_seq:
  "by_seq sample_chat 0 = Some (sample_chat ! 0)" "by_seq sample_chat 1 = Some (sample_chat ! Suc 0)"
  by (simp_all add: by_seq_def sample_chat_def new_envelope_def)

lemma sample_project:
  "project_event_message (sample_chat ! 0) = Inr (Some \<lparr>mm_role = ''user'', mm_content = [text_block long_text]\<rparr>)"
  "project_event_message (sample_chat ! Suc 0) = Inr (Some \<lparr>mm_role = ''user'', mm_content = [text_block ''b'']\<rparr>)"
  by (simp_all add: project_event_message_def sample_chat_def new_envelope_def dec_enc_wire_message sample_wire_def)

lemma sample_prices: "heuristic_measure sample_chat [0, 1] = Inr [208, 9]"
  by (simp add: sample_by_seq sample_project estimate_message_tokens_def estimate_content_tokens_def text_block_def
      long_text_def ceil_div_eq block_overhead_def role_overhead_def Let_def)

lemma sample_cuts: "cut_balances sample_chat [0, 1] = Inr [True, True, True]"
proof -
  have "event_tool_delta (sample_chat ! 0) = Inr 0" "event_tool_delta (sample_chat ! Suc 0) = Inr 0"
    by (simp_all add: sample_chat_def event_tool_delta_def new_envelope_def)
  then show ?thesis by (simp add: cut_balances_def sample_by_seq)
qed

lemma sample_before: "balanced_before sample_chat [0, 1] (int k) = Inr True" if "k \<le> 2"
  using that sample_cuts by (subst balanced_before_iff) (auto simp: less_Suc_eq le_Suc_eq numeral_2_eq_2)

definition sample_selection :: surface_selection where
  "sample_selection = \<lparr>sel_span = \<lparr>sp_start = 0, sp_end = 0\<rparr>, sel_start_idx = 0, sel_end_idx = 0, sel_shadowed = [0]\<rparr>"

lemma sample_validate: "validate_surface_region sample_chat [0, 1] 0 0 = Inr sample_selection"
  using sample_before [of 0] sample_before [of 1] balanced_after_before [of sample_chat "[0, 1]" 0 True]
  by (simp add: validate_surface_region_def sample_selection_def slice_def)

lemma sample_select: "select_compactable_range sample_engine sample_chat [0, 1] = Inr (Some \<lparr>sp_start = 0, sp_end = 0\<rparr>)"
  using sample_before [of 1] sample_prices
  by (simp add: select_compactable_range_def engine_measure_def sample_engine_def Let_def numeral_2_eq_2)

lemma sample_inactive: "inspect_compaction_entry_state sample_chat =
   \<lparr>es_open_turn = None, es_unmatched_start = None, es_latest_end_seed = None, es_compaction_known = False, es_turn_known = False\<rparr>"
  by (simp add: inspect_compaction_entry_state_def inspect_step_def sample_chat_def new_envelope_def Let_def)

lemma sample_admit: "admit_compaction sample_env (idle_options \<lparr>sp_start = 0, sp_end = 0\<rparr>) sample_chat [0, 1] = Inr (sample_selection, None)"
  by (simp add: admit_compaction_def idle_options_def sample_validate sample_inactive Let_def assert_compaction_inactive_def)

lemma sample_framed: "count_tokens (frame_summary [text_block ''s'']) = 99"
  by (simp add: count_tokens_def frame_summary_def estimate_content_tokens_def text_block_def checkpoint_preamble_def
      ceil_div_eq block_overhead_def)

lemma sample_produce:
  "produce_summary sample_engine sample_env (idle_options \<lparr>sp_start = 0, sp_end = 0\<rparr>) sample_chat [0, 1] sample_selection a =
     Inr (\<lparr>sr_summary = [text_block ''s''], sr_usage = None, sr_raw_output = [], sr_llm_stream_call = False\<rparr>,
          frame_summary [text_block ''s''], 208)"
proof -
  have m: "engine_measure sample_engine sample_chat [0, 1] = Inr [208, 9]"
    using sample_prices by (simp add: engine_measure_def sample_engine_def)
  have "shadowed_token_count sample_engine sample_chat [0, 1] sample_selection = Inr 208"
    by (simp add: shadowed_token_count_def m sample_selection_def slice_def)
  moreover have "region_messages sample_chat (sel_shadowed sample_selection) =
      Inr [\<lparr>mm_role = ''user'', mm_content = [text_block long_text]\<rparr>]"
    by (simp add: sample_selection_def sample_by_seq sample_project)
  moreover have "assert_selected_span_stable sample_engine sample_env sample_selection p a = Inr ()" for p
    by (simp add: assert_selected_span_stable_def sample_env_def)
  ultimately show ?thesis
    using sample_framed by (simp add: produce_summary_def m idle_options_def Let_def) (simp add: sample_engine_def)
qed

lemma sample_env_fields [simp]:
  "tx_append sample_env = agent_append" "tx_reload sample_env = None" "tx_flush sample_env = None"
  by (simp_all add: sample_env_def)

lemma sample_flush: "flush_neutral durable_log log_inv sample_env"
  by (simp add: flush_neutral_def)

lemma sample_run:
  "\<exists>a' res. compact_transaction sample_engine sample_env (idle_options \<lparr>sp_start = 0, sp_end = 0\<rparr>) sample_chat [0, 1]
     sample_chat_agent = (a', Some res, None)"
  using compaction_completes [OF sample_chat_agent_healthy _ _ _ sample_admit sample_produce] by auto

section \<open>Properties\<close>

text \<open>
  Tool pairing. The balance computed for the cuts of a surface is the specification by prefix
  sums: it is computed exactly when every node has a readable event and no result precedes its
  call, and a cut is balanced exactly when the tool calls before it equal the results before it.
\<close>
theorem cut_balance_prefix_sums:
  "cut_balances events nodes = Inr bs \<longleftrightarrow>
     (\<exists>ds. surface_deltas events nodes = Some ds \<and> list_all (\<lambda>k. 0 \<le> open_calls ds k) [0..<Suc (length ds)] \<and>
        bs = map (\<lambda>k. open_calls ds k = 0) [0..<Suc (length ds)])"
  unfolding cut_balances_iff by (auto simp: list_all_iff less_Suc_eq_le simp del: upt_Suc)

text \<open>
  C37. Range selection. With either meter of the package, a selected range starts at the head of
  the surface and is accepted by the validation; the nodes after it keep at least the retained
  budget, and no longer head range with balanced cuts would.
\<close>
theorem selected_range_optimal:
  assumes "en_meter e = None \<or> en_meter e = Some heuristic_measure" and "distinct nodes"
    and "select_compactable_range e events nodes = Inr (Some span)"
  shows "\<exists>ps k. engine_measure e events nodes = Inr ps \<and> 0 < k \<and> k < length nodes \<and>
    validate_surface_region events nodes (sp_start span) (sp_end span) =
       Inr \<lparr>sel_span = span, sel_start_idx = 0, sel_end_idx = k - 1, sel_shadowed = take k nodes\<rparr> \<and>
    en_retain_tokens e \<le> sum_list (drop k ps) \<and>
    (\<forall>m. k < m \<and> m < length nodes \<and> balanced_before events nodes (int m) = Inr True \<longrightarrow>
       sum_list (drop m ps) < en_retain_tokens e)"
proof -
  consider (unit) "engine_measure e = unit_measure" | (heuristic) "engine_measure e = heuristic_measure"
    using assms(1) by (auto simp: engine_measure_def fun_eq_iff)
  then show ?thesis
  proof cases
    case unit
    then show ?thesis using unit.select_sound [OF unit assms(3,2)] by metis
  next
    case heuristic
    then show ?thesis using heuristic.select_sound [OF heuristic assms(3,2)] by metis
  qed
qed

lemma selected_range_optimal_witness:
  "\<exists>ps k. engine_measure sample_engine sample_chat [0, 1] = Inr ps \<and> 0 < k \<and> k < 2 \<and> 5 \<le> sum_list (drop k ps)"
proof -
  have m: "en_meter sample_engine = Some heuristic_measure" "en_retain_tokens sample_engine = 5"
    by (simp_all add: sample_engine_def)
  from selected_range_optimal [OF disjI2 [OF m(1)] _ sample_select] m(2) show ?thesis
    by (auto simp: numeral_2_eq_2)
qed

text \<open>
  C8. The durable lock. On a numbered log a compaction is active exactly when the last
  compaction bracket is a start that no session end-seed follows; while one is active every
  transaction is refused before it writes anything.
\<close>
theorem durable_lock:
  assumes "numbered events"
  shows "(active_compaction events = Some (cid, n) \<longleftrightarrow>
      (\<exists>bef e aft. events = bef @ e # aft \<and> env_type e = EventCompactionStart \<and> env_seq e = n \<and>
         cid = lenient_string ''compactionId'' (env_data e) \<and>
         list_all (\<lambda>x. env_type x \<notin> {EventCompactionStart, EventCompactionEnd, EventSessionEndSeed}) aft)) \<and>
    (active_compaction events = Some (cid, n) \<longrightarrow>
      (\<exists>err. compact_transaction eng env options events nodes s = (s, None, Some err)))"
proof
  show "active_compaction events = Some (cid, n) \<longleftrightarrow>
      (\<exists>bef e aft. events = bef @ e # aft \<and> env_type e = EventCompactionStart \<and> env_seq e = n \<and>
         cid = lenient_string ''compactionId'' (env_data e) \<and>
         list_all (\<lambda>x. env_type x \<notin> {EventCompactionStart, EventCompactionEnd, EventSessionEndSeed}) aft)"
    unfolding active_compaction_iff [OF assms] by (auto simp: list_all_iff compaction_mark_def)
  show "active_compaction events = Some (cid, n) \<longrightarrow>
      (\<exists>err. compact_transaction eng env options events nodes s = (s, None, Some err))"
  proof
    assume "active_compaction events = Some (cid, n)"
    then have "\<exists>err. admit_compaction env options events nodes = Inl err"
      using admit_validates [of env options events nodes] by (cases "admit_compaction env options events nodes") fastforce+
    then show "\<exists>err. compact_transaction eng env options events nodes s = (s, None, Some err)"
      by (auto simp: compact_transaction_def)
  qed
qed

lemma durable_lock_witness:
  "\<exists>err. compact_transaction sample_engine sample_env (idle_options \<lparr>sp_start = 0, sp_end = 0\<rparr>)
     [new_envelope 0 0 EventCompactionStart (start_payload ''c'' [] None)] [0, 1] sample_chat_agent =
     (sample_chat_agent, None, Some err)"
proof -
  let ?l = "[new_envelope 0 0 EventCompactionStart (start_payload ''c'' [] None)]"
  have n: "numbered ?l" by (simp add: numbered_def new_envelope_def)
  note lock = durable_lock [OF n, of "lenient_string ''compactionId'' (env_data (hd ?l))" 0]
  have "active_compaction ?l = Some (lenient_string ''compactionId'' (env_data (hd ?l)), 0)"
    by (rule iffD2 [OF conjunct1 [OF lock]], rule exI [of _ "[]"], rule exI [of _ "hd ?l"], rule exI [of _ "[]"])
      (simp add: new_envelope_def)
  then show ?thesis by (rule mp [OF conjunct2 [OF lock]])
qed

text \<open>
  C15. Liveness. When the store answers and the agent's counter agrees with it, an admitted
  transaction whose summary was produced completes: it returns a result and no error, appends
  exactly its four events, and leaves the agent as healthy as before.
\<close>
theorem transaction_completes:
  assumes "healthy a" and "tx_append env = agent_append" and "tx_reload env = None" and "tx_flush env = None"
    and "admit_compaction env options events nodes = Inr (sel, ow)"
    and "produce_summary e env options events nodes sel a = Inr (sr, framed, tokens)"
  shows "\<exists>a' res. compact_transaction e env options events nodes a = (a', Some res, None) \<and> healthy a' \<and>
    length (durable_log a') = length (durable_log a) + 4"
  by (rule compaction_completes [OF assms])

lemma transaction_completes_witness:
  "\<exists>a' res. compact_transaction sample_engine sample_env (idle_options \<lparr>sp_start = 0, sp_end = 0\<rparr>) sample_chat [0, 1]
     sample_chat_agent = (a', Some res, None) \<and> length (durable_log a') = 6"
  using transaction_completes [OF sample_chat_agent_healthy _ _ _ sample_admit sample_produce]
  by (auto simp: sample_chat_agent_log) (auto simp: sample_chat_def)

text \<open>
  C2. Whatever its outcome, a transaction extends the log and the log still folds.  Either no
  result is returned, the new events are brackets and the surface is what it was; or the
  chosen span of the surface, and nothing else, was replaced by the one message two places
  after the old end, and with a result the closing bracket is the last event.
\<close>
theorem transaction_surface:
  assumes "log_inv a" and "durable_log a = log" and "fold_surface (map Some log) 0 = Inr r"
    and "tx_append env = agent_append" and "flush_neutral durable_log log_inv env"
    and "compact_transaction e env options log (fo_nodes r) a = (a', res, err)"
  shows "\<exists>new r'. durable_log a' = log @ new \<and> length new \<le> 4 \<and> fold_surface (map Some (log @ new)) 0 = Inr r' \<and>
    ((res = None \<and> err \<noteq> None \<and> list_all bracket_event new \<and> r' = r) \<or>
     (\<exists>xs ys zs. fo_nodes r = xs @ ys @ zs \<and> ys \<noteq> [] \<and> hd ys = to_start options \<and> last ys = to_end options \<and>
        fo_nodes r' = xs @ [int (length log) + 2] @ zs \<and> fo_generation r' = Suc (fo_generation r) \<and>
        (res \<noteq> None \<longrightarrow> env_type (last new) = EventCompactionEnd \<and> length new = 4) \<and>
        (res = None \<longrightarrow> err \<noteq> None)))"
proof -
  from compaction_effect [OF assms] show ?thesis
  proof (elim conjE exE disjE, goal_cases)
    case (1 new)
    then show ?case by (intro exI [of _ new] exI [of _ r]) (auto simp: list_all_iff)
  next
    case (2 new xs ys zs sr framed tokens st sm rest s1 sel ow r')
    then show ?case
      by (intro exI [of _ new] exI [of _ r'] conjI disjI2 exI [of _ xs] exI [of _ ys] exI [of _ zs])
        (auto split: option.splits)
  qed
qed

lemma transaction_surface_witness:
  "\<exists>a' res new r'. compact_transaction sample_engine sample_env (idle_options \<lparr>sp_start = 0, sp_end = 0\<rparr>) sample_chat [0, 1]
     sample_chat_agent = (a', Some res, None) \<and> durable_log a' = sample_chat @ new \<and>
     fold_surface (map Some (sample_chat @ new)) 0 = Inr r' \<and> 4 \<in> set (fo_nodes r')"
proof -
  obtain a' res where run: "compact_transaction sample_engine sample_env (idle_options \<lparr>sp_start = 0, sp_end = 0\<rparr>)
     sample_chat [0, 1] sample_chat_agent = (a', Some res, None)" using sample_run by blast
  have inv: "log_inv sample_chat_agent" using sample_chat_agent_healthy by (simp add: healthy_def)
  have nodes: "fo_nodes sample_surface = [0, 1]" by (simp add: sample_surface_def)
  have "int (length sample_chat) + 2 = 4" by (simp add: sample_chat_def)
  with transaction_surface [OF inv sample_chat_agent_log sample_chat_fold, unfolded nodes, OF _ sample_flush run] run
  show ?thesis by fastforce
qed

text \<open>
  C11. A completed compaction under the heuristic meter replaces a run of messages of the derived
  conversation by one user message holding the framed summary, leaves every other message as
  it was, makes the conversation cost less than four tokens more than before (the check
  leaves the role overhead out), and releases the durable lock.
\<close>
theorem compacted_conversation:
  assumes "log_inv a" and "durable_log a = log" and "fold_surface (map Some log) 0 = Inr r"
    and "tx_append env = agent_append" and "flush_neutral durable_log log_inv env"
    and "compact_transaction e env options log (fo_nodes r) a = (a', Some res, err)"
    and "derive_messages log = Inr ms" and "en_meter e = Some heuristic_measure"
  shows "\<exists>ms1 mid ms2. ms = ms1 @ mid @ ms2 \<and>
    derive_messages (durable_log a') = Inr (ms1 @ [\<lparr>mm_role = ''user'', mm_content = rs_summary res\<rparr>] @ ms2) \<and>
    rs_token_count res = sum_list (map estimate_message_tokens mid) \<and>
    estimate_message_tokens \<lparr>mm_role = ''user'', mm_content = rs_summary res\<rparr> <
      sum_list (map estimate_message_tokens mid) + 4 \<and>
    active_compaction (durable_log a') = None"
proof -
  let ?m = "\<lparr>mm_role = ''user'', mm_content = rs_summary res\<rparr>"
  note eff = compaction_effect [OF assms(1-6)]
  have num: "numbered (durable_log a')" using log_invE [OF conjunct1 [OF eff]] by metis
  have numl: "numbered log" using log_invE [OF assms(1)] assms(2) by metis
  from eff obtain new xs ys zs sr framed tokens st sm en s1 sel ow r' where
    dl: "durable_log a' = log @ new"
    and sel: "sel_shadowed sel = ys" "sel_start_idx sel = length xs" "Suc (sel_end_idx sel) = length xs + length ys"
    and prod: "produce_summary e env options log (fo_nodes r) sel s1 = Inr (sr, framed, tokens)"
    and nodes: "fo_nodes r = xs @ ys @ zs"
    and new: "new = [st, sm, (replacement_envelope env options sel framed (int (length log)) (int (length log) + 1))
            \<lparr>env_seq := int (length log) + 2\<rparr>, en]"
    and brk: "bracket_event st" "bracket_event sm" "bracket_event en" "env_type en = EventCompactionEnd"
    and fold': "fold_surface (map Some (log @ new)) 0 = Inr r'" "fo_nodes r' = xs @ [int (length log) + 2] @ zs"
    and res: "rs_summary res = framed" "rs_token_count res = tokens"
  proof (elim conjE exE disjE, goal_cases)
    case 1
    then show ?case by simp
  next
    case (2 new xs ys zs sr framed tokens st sm rest s1 sel ow r')
    then obtain en where "rest = [en]" "env_type en = EventCompactionEnd" by auto
    with 2 show ?case by (intro 2(1) [of new sel ys xs s1 sr framed tokens zs st sm en r']) simp_all
  qed
  let ?rep = "(replacement_envelope env options sel framed (int (length log)) (int (length log) + 1))\<lparr>env_seq := int (length log) + 2\<rparr>"
  have f: "fold_surface (map Some (log @ [st, sm] @ [?rep] @ [en])) 0 = Inr r'" using fold'(1) new by simp
  have n: "fo_nodes r' = xs @ [int (length (log @ [st, sm]))] @ zs" using fold'(2) by simp
  have b: "\<forall>x\<in>set ([st, sm] @ [en]). bracket_event x" using brk by simp
  have t: "env_type ?rep = EventUserMessage" by simp
  have p: "project_event_message ?rep = Inr (Some ?m)" unfolding res(1) by (rule project_replacement)
  obtain ms1 mid ms2 where d: "ms = ms1 @ mid @ ms2" "collect_messages log ys = Inr mid"
    "derive_messages (log @ [st, sm] @ [?rep] @ [en]) = Inr (ms1 @ [?m] @ ms2)"
    using derive_replaced [OF assms(7,3) nodes f n b t p] by blast
  note ps = produce_summary_ok [OF prod]
  have rng: "\<forall>s\<in>set (xs @ ys @ zs). 0 \<le> s \<and> s < int (length log)"
    using fold_surface_node_range [OF assms(3)] nodes by simp
  have eng: "engine_measure e = heuristic_measure" using assms(8) by (simp add: engine_measure_def fun_eq_iff)
  have tok: "tokens = sum_list (map estimate_message_tokens mid)"
    by (rule heuristic_span [OF numl rng d(2) _ _ _ eng]) (use ps sel nodes in auto)
  have "estimate_message_tokens ?m = count_tokens framed + 4"
    using res(1) by (simp add: estimate_message_eq count_tokens_def role_overhead_def)
  moreover have "active_compaction (durable_log a') = None"
  proof (rule ccontr)
    assume "active_compaction (durable_log a') \<noteq> None"
    then obtain cid n where "active_compaction (durable_log a') = Some (cid, n)" by auto
    then obtain bef x aft where x: "durable_log a' = bef @ x # aft" "env_type x = EventCompactionStart"
      "\<forall>y\<in>set aft. \<not> compaction_mark y" unfolding active_compaction_iff [OF num] by blast
    have "last (durable_log a') = en" using dl new by simp
    with x brk(4) show False by (cases aft rule: rev_cases) (auto simp: compaction_mark_def)
  qed
  moreover have "derive_messages (durable_log a') = Inr (ms1 @ [?m] @ ms2)" using d(3) dl new by simp
  ultimately have "ms = ms1 @ mid @ ms2 \<and> derive_messages (durable_log a') = Inr (ms1 @ [?m] @ ms2) \<and>
    rs_token_count res = sum_list (map estimate_message_tokens mid) \<and>
    estimate_message_tokens ?m < sum_list (map estimate_message_tokens mid) + 4 \<and>
    active_compaction (durable_log a') = None" using d(1) conjunct1 [OF conjunct2 [OF ps]] tok res(2) by simp
  then show ?thesis by blast
qed

lemma sample_derived:
  "derive_messages sample_chat = Inr [\<lparr>mm_role = ''user'', mm_content = [text_block long_text]\<rparr>,
     \<lparr>mm_role = ''user'', mm_content = [text_block ''b'']\<rparr>]"
proof -
  have "assert_events_supported sample_chat = Inr ()"
    by (simp add: sample_chat_def new_envelope_def assert_event_supported_def is_known_event_type_def known_event_types_def)
  moreover have "go_index sample_chat 0 = Some (sample_chat ! 0)" "go_index sample_chat 1 = Some (sample_chat ! Suc 0)"
    by (simp_all add: go_index_def sample_chat_def)
  ultimately show ?thesis
    by (simp add: derive_messages_def sample_chat_fold sample_project) (simp add: sample_surface_def sample_project)
qed

lemma compacted_conversation_witness:
  "\<exists>a' res ms1 ms2. compact_transaction sample_engine sample_env (idle_options \<lparr>sp_start = 0, sp_end = 0\<rparr>) sample_chat [0, 1]
     sample_chat_agent = (a', Some res, None) \<and>
     derive_messages (durable_log a') = Inr (ms1 @ [\<lparr>mm_role = ''user'', mm_content = rs_summary res\<rparr>] @ ms2)"
proof -
  obtain a' res where run: "compact_transaction sample_engine sample_env (idle_options \<lparr>sp_start = 0, sp_end = 0\<rparr>)
     sample_chat [0, 1] sample_chat_agent = (a', Some res, None)" using sample_run by blast
  have inv: "log_inv sample_chat_agent" using sample_chat_agent_healthy by (simp add: healthy_def)
  have nodes: "fo_nodes sample_surface = [0, 1]" by (simp add: sample_surface_def)
  have meter: "en_meter sample_engine = Some heuristic_measure" by (simp add: sample_engine_def)
  from compacted_conversation [OF inv sample_chat_agent_log sample_chat_fold, unfolded nodes,
      OF _ sample_flush run sample_derived meter] run
  show ?thesis by auto
qed

text \<open>
  C20. The idle compaction of an agent whose cache is coherent, with a meter of the package: the
  durable log only grows and still folds, and either the surface is unchanged or a proper
  head of it was replaced by one message, the nodes kept after it costing at least the retained
  budget.
\<close>
theorem idle_compaction:
  assumes "log_inv a" and "cache_ok a" and "first \<or> ag_cache_warm a"
    and "fold_surface (map Some (durable_log a)) 0 = Inr r"
    and "en_meter e = None \<or> en_meter e = Some heuristic_measure"
  shows "\<exists>new r'. durable_log (maybe_compact (Some e) env first second a) = durable_log a @ new \<and>
    fold_surface (map Some (durable_log a @ new)) 0 = Inr r' \<and>
    (r' = r \<or> (\<exists>k ps. 0 < k \<and> k < length (fo_nodes r) \<and>
       fo_nodes r' = (int (length (durable_log a)) + 2) # drop k (fo_nodes r) \<and>
       engine_measure e (durable_log a) (fo_nodes r) = Inr ps \<and> en_retain_tokens e \<le> sum_list (drop k ps)))"
proof -
  let ?log = "durable_log a"
  obtain a1 log where rd: "cached_session_events first second a = (a1, log)" by fastforce
  from cached_read [OF assms(1,2), of first second] rd assms(3) have log: "log = ?log" and ok: "cache_ok a1" by auto
  from read_frame [of first second a] rd have a1: "log_inv a1" "durable_log a1 = ?log"
    using assms(1) by (simp_all add: log_inv_def durable_log_def)
  have pers: "ag_persist a \<noteq> None" using assms(1) by (auto simp: log_inv_def)
  have same: "?thesis" if "durable_log (maybe_compact (Some e) env first second a) = ?log"
    using that assms(4) by (intro exI [of _ "[]"] exI [of _ r]) simp
  show ?thesis
  proof (cases "?log = []")
    case True
    with rd log pers a1 show ?thesis by (intro same) (simp add: maybe_compact_def)
  next
    case ne: False
    show ?thesis
    proof (cases "select_compactable_range e ?log (fo_nodes r)")
      case (Inl x)
      with rd log pers a1 ne assms(4) show ?thesis by (intro same) (simp add: maybe_compact_def)
    next
      case (Inr q)
      show ?thesis
      proof (cases q)
        case None
        with Inr rd log pers a1 ne assms(4) show ?thesis by (intro same) (simp add: maybe_compact_def)
      next
        case (Some span)
        with Inr have sel: "select_compactable_range e ?log (fo_nodes r) = Inr (Some span)" by simp
        obtain a2 res err where run: "compact_transaction e (agent_env env) (idle_options span) ?log (fo_nodes r) a1 = (a2, res, err)"
          by (metis prod_cases3)
        have mc: "durable_log (maybe_compact (Some e) env first second a) = durable_log a2"
          using sel run rd log pers ne assms(4)
          by (simp add: maybe_compact_def invalidate_log_cache_def) (simp add: durable_log_def)
        have "tx_append (agent_env env) = agent_append" "flush_neutral durable_log log_inv (agent_env env)"
          by (simp_all add: agent_env_def flush_neutral_def)
        note eff = compaction_effect [OF a1 assms(4) this run]
        have dist: "distinct (fo_nodes r)" by (rule fold_surface_distinct [OF assms(4)])
        consider "engine_measure e = unit_measure" | "engine_measure e = heuristic_measure"
          using assms(5) by (auto simp: engine_measure_def fun_eq_iff)
        then obtain ps k where k: "engine_measure e ?log (fo_nodes r) = Inr ps" "0 < k" "k < length (fo_nodes r)"
          "validate_surface_region ?log (fo_nodes r) (sp_start span) (sp_end span) =
             Inr \<lparr>sel_span = span, sel_start_idx = 0, sel_end_idx = k - 1, sel_shadowed = take k (fo_nodes r)\<rparr>"
          "en_retain_tokens e \<le> sum_list (drop k ps)"
        proof cases
          case 1
          from unit.select_sound [OF 1 sel dist] obtain ps k where "unit_measure ?log (fo_nodes r) = Inr ps" "0 < k"
            "k < length (fo_nodes r)" "validate_surface_region ?log (fo_nodes r) (sp_start span) (sp_end span) =
             Inr \<lparr>sel_span = span, sel_start_idx = 0, sel_end_idx = k - 1, sel_shadowed = take k (fo_nodes r)\<rparr>"
            "en_retain_tokens e \<le> sum_list (drop k ps)" by metis
          with that [of ps k] 1 show thesis by simp
        next
          case 2
          from heuristic.select_sound [OF 2 sel dist] obtain ps k where "heuristic_measure ?log (fo_nodes r) = Inr ps" "0 < k"
            "k < length (fo_nodes r)" "validate_surface_region ?log (fo_nodes r) (sp_start span) (sp_end span) =
             Inr \<lparr>sel_span = span, sel_start_idx = 0, sel_end_idx = k - 1, sel_shadowed = take k (fo_nodes r)\<rparr>"
            "en_retain_tokens e \<le> sum_list (drop k ps)" by metis
          with that [of ps k] 2 show thesis by simp
        qed
        from eff show ?thesis
        proof (elim conjE exE disjE, goal_cases)
          case (1 new)
          with mc show ?case by (intro exI [of _ new] exI [of _ r]) simp
        next
          case (2 new xs ys zs sr framed tokens st sm rest s1 s ow r')
          from admit_validates [OF 2(3)] k(4) have "s = \<lparr>sel_span = span, sel_start_idx = 0, sel_end_idx = k - 1,
              sel_shadowed = take k (fo_nodes r)\<rparr>" by (simp add: idle_options_def)
          with 2(4,5) have xs: "xs = []" "ys = take k (fo_nodes r)" by simp_all
          from 2(8) have "take k (fo_nodes r) @ zs = take k (fo_nodes r) @ drop k (fo_nodes r)"
            unfolding append_take_drop_id xs append_Nil by (rule sym)
          then have "zs = drop k (fo_nodes r)" by (rule same_append_eq [THEN iffD1])
          then have n: "fo_nodes r' = (int (length ?log) + 2) # drop k (fo_nodes r)" using 2(18) xs(1) by simp
          show ?case
            by (rule exI [of _ new], rule exI [of _ r'], intro conjI disjI2 exI [of _ k] exI [of _ ps])
              (use 2(2) mc in simp, rule 2(17), rule k(2), rule k(3), rule n, rule k(1), rule k(5))
        qed
      qed
    qed
  qed
qed

lemma idle_compaction_witness:
  "\<exists>new r'. durable_log (maybe_compact (Some sample_engine) sample_env True True sample_chat_agent) = sample_chat @ new \<and>
    fold_surface (map Some (sample_chat @ new)) 0 = Inr r'"
proof -
  have inv: "log_inv sample_chat_agent" using sample_chat_agent_healthy by (simp add: healthy_def)
  have c: "cache_ok sample_chat_agent"
    by (simp add: cache_ok_def sample_chat_agent_log)
      (simp add: sample_chat_agent_def new_agent_def seed_seq_from_def sample_chat_def new_envelope_def)
  have m: "en_meter sample_engine = None \<or> en_meter sample_engine = Some heuristic_measure" by (simp add: sample_engine_def)
  from idle_compaction [OF inv c disjI1 [OF TrueI] _ m, unfolded sample_chat_agent_log, OF sample_chat_fold]
  show ?thesis by blast
qed

text \<open>
  Round trip of messages. What the encoder writes for a message (nested tool results, empty
  fields left out, sources with replay state included) is read back as the same message.
\<close>
theorem wire_message_roundtrip:
  "unmarshal dec_wire_message (Some (enc_wire_message m)) = Some m"
  by (rule dec_enc_wire_message)

text \<open>
  The token projection of a session fails exactly when the conversation cannot be derived;
  otherwise it counts every message once, its projection is the sum of the message
  prices, the user, assistant and tool shares add up to it, and every message costs at least
  the role overhead of four.
\<close>
theorem meter_measure_totals:
  "(case derive_messages events of
      Inl err \<Rightarrow> meter_measure limit events = Inl err
    | Inr ms \<Rightarrow> (\<exists>cm. meter_measure limit events = Inr cm \<and> cm_message_count cm = int (length ms) \<and>
        cm_projected cm = sum_list (map estimate_message_tokens ms) \<and> 4 * int (length ms) \<le> cm_projected cm \<and>
        bd_user (cm_breakdown cm) + bd_assistant (cm_breakdown cm) + bd_tool (cm_breakdown cm) = cm_projected cm \<and>
        bd_input (cm_breakdown cm) = cm_projected cm \<and> cm_usage_input cm = cm_projected cm))"
proof (cases "derive_messages events")
  case (Inl err)
  then show ?thesis by (simp add: meter_measure_def)
next
  case (Inr ms)
  have "4 * int (length ms) \<le> sum_list (map estimate_message_tokens ms)"
  proof (induction ms)
    case (Cons m ms)
    with estimate_message_ge [of m] show ?case by simp
  qed simp
  moreover obtain cm where "meter_measure limit events = Inr cm"
    "cm_projected cm = sum_list (map estimate_message_tokens ms)" "cm_message_count cm = int (length ms)"
    "bd_user (cm_breakdown cm) + bd_assistant (cm_breakdown cm) + bd_tool (cm_breakdown cm) = cm_projected cm"
    "bd_input (cm_breakdown cm) = cm_projected cm" "cm_usage_input cm = cm_projected cm"
    using meter_measure_ok [OF Inr, of limit] .
  ultimately show ?thesis using Inr by simp
qed

end
