(* ===== verification/Policy.thy ===== *)
theory Policy imports Prelude begin

text \<open>
  Session policies (\<open>pkg/tools/policy.go\<close>): the sandbox and approval knobs of a session,
  the presets that set both, the approvals remembered per tool, and the write check of the
  sandbox with the lexical path functions of \<open>path/filepath\<close> it uses (the Unix ones).

  Go's string types keep their strings, so that an invalid value is a value.  A missing map
  entry is \<open>None\<close>; the zero \<open>SessionPolicy\<close> has empty strings.
\<close>

section \<open>Knobs and presets\<close>

abbreviation "SandboxReadOnly \<equiv> ''read-only''"
abbreviation "SandboxWorkspaceWrite \<equiv> ''workspace-write''"
abbreviation "SandboxDangerFullAccess \<equiv> ''danger-full-access''"
abbreviation "ApprovalAsk \<equiv> ''ask''"
abbreviation "ApprovalNever \<equiv> ''never''"
abbreviation "ApprovalAcceptEdits \<equiv> ''accept-edits''"
abbreviation "ApprovalReview \<equiv> ''review''"
abbreviation "ApprovalAllowEverything \<equiv> ''allow-all''"
abbreviation "ModeDefault \<equiv> ''default''"
abbreviation "ModeAcceptEdits \<equiv> ''accept-edits''"
abbreviation "ModePlan \<equiv> ''plan''"
abbreviation "ModeAutoReview \<equiv> ''auto''"
abbreviation "ModeAllowAll \<equiv> ''allow-all''"

record session_policy =
  po_sandbox :: string
  po_approval :: string
  po_preset :: string
  po_review_model :: string

definition zero_policy :: session_policy where
  "zero_policy = \<lparr>po_sandbox = [], po_approval = [], po_preset = [], po_review_model = []\<rparr>"

definition default_policy :: session_policy where
  "default_policy = zero_policy\<lparr>po_sandbox := SandboxWorkspaceWrite, po_approval := ApprovalAsk\<rparr>"

definition policy_mode :: "session_policy \<Rightarrow> string" where
  "policy_mode p =
     (if po_approval p = ApprovalNever \<and> po_sandbox p = SandboxReadOnly then ModePlan
      else if po_approval p = ApprovalAllowEverything then ModeAllowAll
      else if po_approval p = ApprovalReview then ModeAutoReview
      else if po_approval p = ApprovalAcceptEdits then ModeAcceptEdits
      else if po_approval p = ApprovalAsk \<and> po_sandbox p = SandboxDangerFullAccess then ModeAllowAll
      else ModeDefault)"

section \<open>The store\<close>

text \<open>\<open>ps_allowed\<close> is the two-level map \<open>allowedTools\<close>, flattened.\<close>

record policy_store =
  ps_by_id :: "string \<Rightarrow> session_policy option"
  ps_allowed :: "string \<times> string \<Rightarrow> bool"

definition new_policy_store :: policy_store where
  "new_policy_store = \<lparr>ps_by_id = (\<lambda>_. None), ps_allowed = (\<lambda>_. False)\<rparr>"

definition policy_allowed :: "policy_store \<Rightarrow> string \<Rightarrow> string \<Rightarrow> bool" where
  "policy_allowed p sid tool = ps_allowed p (sid, tool)"

definition remember_approval :: "string \<Rightarrow> string \<Rightarrow> policy_store \<Rightarrow> policy_store" where
  "remember_approval sid tool p =
     (if tool = [] then p else p\<lparr>ps_allowed := (ps_allowed p)((sid, tool) := True)\<rparr>)"

definition policy_get :: "policy_store \<Rightarrow> string \<Rightarrow> session_policy" where
  "policy_get p sid = (case ps_by_id p sid of None \<Rightarrow> default_policy | Some pol \<Rightarrow> pol)"

text \<open>\<open>pol := p.byID[sessionID]\<close> reads the zero value of a missing entry.\<close>

definition policy_update :: "string \<Rightarrow> (session_policy \<Rightarrow> session_policy) \<Rightarrow> policy_store \<Rightarrow> policy_store" where
  "policy_update sid f p = p\<lparr>ps_by_id := (ps_by_id p)(sid \<mapsto>
     f (case ps_by_id p sid of None \<Rightarrow> zero_policy | Some pol \<Rightarrow> pol))\<rparr>"

datatype policy_error = InvalidSandbox string | InvalidApproval string | InvalidMode string | EmptyModel | EmptyPreset

text \<open>The events reported through \<open>emit\<close>, with their payloads.\<close>

datatype policy_event =
    SandboxModeEvent string string
  | ApprovalPolicyEvent string string
  | PermissionPresetEvent string string

type_synonym policy_result = "policy_error + policy_store \<times> policy_event list"

definition set_sandbox_mode :: "string \<Rightarrow> string \<Rightarrow> string \<Rightarrow> policy_store \<Rightarrow> policy_result" where
  "set_sandbox_mode sid mode source p =
     (if mode \<notin> {SandboxReadOnly, SandboxWorkspaceWrite, SandboxDangerFullAccess} then Inl (InvalidSandbox mode)
      else Inr (policy_update sid (\<lambda>pol. pol\<lparr>po_sandbox := mode\<rparr>) p, [SandboxModeEvent mode source]))"

definition set_approval_policy :: "string \<Rightarrow> string \<Rightarrow> string \<Rightarrow> policy_store \<Rightarrow> policy_result" where
  "set_approval_policy sid policy source p =
     (if policy \<notin> {ApprovalAsk, ApprovalNever, ApprovalAcceptEdits, ApprovalReview, ApprovalAllowEverything}
      then Inl (InvalidApproval policy)
      else Inr (policy_update sid (\<lambda>pol. pol\<lparr>po_approval := policy\<rparr>) p, [ApprovalPolicyEvent policy source]))"

definition set_review_model :: "string \<Rightarrow> string \<Rightarrow> policy_store \<Rightarrow> policy_result" where
  "set_review_model sid model p =
     (if model = [] then Inl EmptyModel
      else (let p' = policy_update sid (\<lambda>pol. pol\<lparr>po_review_model := model\<rparr>) p
            in Inr (p', [PermissionPresetEvent (po_preset (policy_get p' sid)) model])))"

definition set_preset :: "string \<Rightarrow> string \<Rightarrow> policy_store \<Rightarrow> policy_result" where
  "set_preset sid preset p =
     (if preset = [] then Inl EmptyPreset
      else Inr (policy_update sid (\<lambda>pol. pol\<lparr>po_preset := preset\<rparr>) p, [PermissionPresetEvent preset []]))"

definition mode_knobs :: "string \<Rightarrow> (string \<times> string) option" where
  "mode_knobs mode =
     (if mode = ModeDefault then Some (SandboxWorkspaceWrite, ApprovalAsk)
      else if mode = ModeAcceptEdits then Some (SandboxWorkspaceWrite, ApprovalAcceptEdits)
      else if mode = ModePlan then Some (SandboxReadOnly, ApprovalNever)
      else if mode = ModeAutoReview then Some (SandboxWorkspaceWrite, ApprovalReview)
      else if mode = ModeAllowAll then Some (SandboxDangerFullAccess, ApprovalAllowEverything)
      else None)"

definition set_mode :: "string \<Rightarrow> string \<Rightarrow> policy_store \<Rightarrow> policy_result" where
  "set_mode sid mode p = (case mode_knobs mode of
      None \<Rightarrow> Inl (InvalidMode mode)
    | Some (sandbox, approval) \<Rightarrow>
        and_then (set_sandbox_mode sid sandbox [] p) (\<lambda>(p1, ev1).
        and_then (set_approval_policy sid approval [] p1) (\<lambda>(p2, ev2).
        and_then (set_preset sid mode p2) (\<lambda>(p3, ev3). Inr (p3, ev1 @ ev2 @ ev3)))))"

section \<open>Lexical paths\<close>

text \<open>
  \<open>filepath.Clean\<close> as a root flag and its components; no component is empty or a dot.
\<close>

type_synonym clean_path = "bool \<times> string list"

fun split_slash :: "string \<Rightarrow> string list" where
  "split_slash [] = [[]]"
| "split_slash (c # cs) = (if c = CHR ''/'' then [] # split_slash cs
     else (case split_slash cs of [] \<Rightarrow> [[c]] | w # ws \<Rightarrow> (c # w) # ws))"

definition is_abs :: "string \<Rightarrow> bool" where
  "is_abs p \<longleftrightarrow> (case p of c # _ \<Rightarrow> c = CHR ''/'' | [] \<Rightarrow> False)"

definition clean_step :: "bool \<Rightarrow> string list \<Rightarrow> string \<Rightarrow> string list" where
  "clean_step rooted out c =
     (if c = [] \<or> c = ''.'' then out
      else if c = ''..'' then
        (if out \<noteq> [] \<and> last out \<noteq> ''..'' then butlast out
         else if rooted then out else out @ [c])
      else out @ [c])"

definition path_clean :: "string \<Rightarrow> clean_path" where
  "path_clean p = (is_abs p, foldl (clean_step (is_abs p)) [] (split_slash p))"

text \<open>\<open>filepath.Join\<close> of two elements, the first one not empty.\<close>

definition path_join :: "string \<Rightarrow> string \<Rightarrow> string" where
  "path_join a b = a @ ''/'' @ b"

fun strip_common :: "string list \<Rightarrow> string list \<Rightarrow> string list \<times> string list" where
  "strip_common (b # bs) (t # ts) = (if b = t then strip_common bs ts else (b # bs, t # ts))"
| "strip_common bs ts = (bs, ts)"

text \<open>
  \<open>filepath.Rel\<close>: one \<open>..\<close> per component of the base left over; an error when one side is
  rooted and the other is not, or when a parent of the base would have to be named.
\<close>

definition path_rel :: "clean_path \<Rightarrow> clean_path \<Rightarrow> string list option" where
  "path_rel base targ =
     (if fst base \<noteq> fst targ then None
      else (let (bs, ts) = strip_common (snd base) (snd targ)
            in if ''..'' \<in> set bs then None else Some (replicate (length bs) ''..'' @ ts)))"

definition deny_read_only :: string where
  "deny_read_only = ''[sandbox: file access denied under read-only mode]''"

definition deny_workspace :: string where
  "deny_workspace = ''[sandbox: file access denied under workspace-write mode]''"

text \<open>The empty marker means that the write is allowed.\<close>

definition check_write :: "policy_store \<Rightarrow> string \<Rightarrow> string \<Rightarrow> string \<Rightarrow> string" where
  "check_write p sid cwd target_path =
     (let pol = policy_get p sid
      in if po_sandbox pol = SandboxDangerFullAccess then []
         else if po_sandbox pol = SandboxReadOnly then deny_read_only
         else if cwd = [] then deny_workspace
         else (let resolved = (if is_abs target_path then target_path else path_join cwd target_path)
               in case path_rel (path_clean cwd) (path_clean resolved) of
                    None \<Rightarrow> deny_workspace
                  | Some rel \<Rightarrow> if rel \<noteq> [] \<and> hd rel = ''..'' then deny_workspace else []))"

section \<open>Lemmas\<close>

definition cleaned :: "bool \<Rightarrow> string list \<Rightarrow> bool" where
  "cleaned rooted cs \<longleftrightarrow> (\<exists>k ns. cs = replicate k ''..'' @ ns \<and> (rooted \<longrightarrow> k = 0) \<and>
     (\<forall>n\<in>set ns. n \<noteq> ''..'' \<and> n \<noteq> ''.'' \<and> n \<noteq> []))"

lemma clean_step_cleaned: "cleaned rooted cs \<Longrightarrow> cleaned rooted (clean_step rooted cs c)"
proof -
  assume "cleaned rooted cs"
  then obtain k ns where cs: "cs = replicate k ''..'' @ ns" "rooted \<longrightarrow> k = 0"
    "\<forall>n\<in>set ns. n \<noteq> ''..'' \<and> n \<noteq> ''.'' \<and> n \<noteq> []" unfolding cleaned_def by blast
  show ?thesis
  proof (cases "c = ''..''")
    case True
    show ?thesis
    proof (cases ns rule: rev_cases)
      case Nil
      show ?thesis
      proof (cases rooted)
        case True
        with Nil cs \<open>c = ''..''\<close> have "clean_step rooted cs c = []" by (simp add: clean_step_def)
        then show ?thesis by (simp add: cleaned_def)
      next
        case False
        with Nil cs \<open>c = ''..''\<close> have "clean_step rooted cs c = replicate (Suc k) ''..'' @ []"
          by (auto simp: clean_step_def replicate_append_same)
        with False show ?thesis unfolding cleaned_def by (intro exI [of _ "Suc k"] exI [of _ "[]"]) simp
      qed
    next
      case (snoc ms m)
      with cs True have "clean_step rooted cs c = replicate k ''..'' @ ms" by (auto simp: clean_step_def butlast_append)
      then show ?thesis using cs snoc unfolding cleaned_def by (intro exI conjI) auto
    qed
  next
    case False
    then have "clean_step rooted cs c = cs \<or> clean_step rooted cs c = replicate k ''..'' @ (ns @ [c]) \<and> c \<noteq> [] \<and> c \<noteq> ''.''"
      using cs by (auto simp: clean_step_def)
    then show ?thesis
    proof
      assume "clean_step rooted cs c = cs"
      with \<open>cleaned rooted cs\<close> show ?thesis by simp
    next
      assume "clean_step rooted cs c = replicate k ''..'' @ (ns @ [c]) \<and> c \<noteq> [] \<and> c \<noteq> ''.''"
      with False cs show ?thesis unfolding cleaned_def by (intro exI [of _ k] exI [of _ "ns @ [c]"]) auto
    qed
  qed
qed

lemma path_clean_cleaned: "cleaned (fst (path_clean p)) (snd (path_clean p))"
proof -
  have "cleaned r cs \<Longrightarrow> cleaned r (foldl (clean_step r) cs xs)" for r cs xs
    by (induction xs arbitrary: cs) (auto intro: clean_step_cleaned)
  moreover have "cleaned r []" for r by (auto simp: cleaned_def intro!: exI [of _ 0])
  ultimately show ?thesis by (simp add: path_clean_def)
qed

lemma strip_common_spec:
  "strip_common bs ts = (bs', ts') \<longleftrightarrow>
     (\<exists>cs. bs = cs @ bs' \<and> ts = cs @ ts' \<and> (bs' = [] \<or> ts' = [] \<or> hd bs' \<noteq> hd ts'))"
proof (induction bs ts rule: strip_common.induct)
  case (1 b bs t ts)
  show ?case
  proof (cases "b = t")
    case True
    have "(\<exists>cs. b # bs = cs @ bs' \<and> b # ts = cs @ ts' \<and> (bs' = [] \<or> ts' = [] \<or> hd bs' \<noteq> hd ts')) \<longleftrightarrow>
        (\<exists>cs. bs = cs @ bs' \<and> ts = cs @ ts' \<and> (bs' = [] \<or> ts' = [] \<or> hd bs' \<noteq> hd ts'))"
    proof
      assume "\<exists>cs. b # bs = cs @ bs' \<and> b # ts = cs @ ts' \<and> (bs' = [] \<or> ts' = [] \<or> hd bs' \<noteq> hd ts')"
      then obtain cs where cs: "b # bs = cs @ bs'" "b # ts = cs @ ts'" "bs' = [] \<or> ts' = [] \<or> hd bs' \<noteq> hd ts'" by blast
      then show "\<exists>cs. bs = cs @ bs' \<and> ts = cs @ ts' \<and> (bs' = [] \<or> ts' = [] \<or> hd bs' \<noteq> hd ts')" by (cases cs) auto
    next
      assume "\<exists>cs. bs = cs @ bs' \<and> ts = cs @ ts' \<and> (bs' = [] \<or> ts' = [] \<or> hd bs' \<noteq> hd ts')"
      then obtain cs where "bs = cs @ bs'" "ts = cs @ ts'" "bs' = [] \<or> ts' = [] \<or> hd bs' \<noteq> hd ts'" by blast
      then show "\<exists>cs. b # bs = cs @ bs' \<and> b # ts = cs @ ts' \<and> (bs' = [] \<or> ts' = [] \<or> hd bs' \<noteq> hd ts')"
        by (intro exI [of _ "b # cs"]) simp
    qed
    with 1 True show ?thesis by simp
  next
    case False
    then show ?thesis by (auto simp: Cons_eq_append_conv)
  qed
qed (auto simp: Cons_eq_append_conv)

text \<open>A write is confined when the cleaned target continues the cleaned workspace without going up.\<close>

definition beneath :: "clean_path \<Rightarrow> clean_path \<Rightarrow> bool" where
  "beneath base targ \<longleftrightarrow> fst base = fst targ \<and> (\<exists>rest. snd targ = snd base @ rest \<and> ''..'' \<notin> set rest)"

lemma cleaned_tail:
  assumes "cleaned r (cs @ rest)" and "rest = [] \<or> hd rest \<noteq> ''..''"
  shows "''..'' \<notin> set rest"
proof
  assume d: "''..'' \<in> set rest"
  obtain k ns where k: "cs @ rest = replicate k ''..'' @ ns" "\<forall>n\<in>set ns. n \<noteq> ''..''"
    using assms(1) unfolding cleaned_def by blast
  from k(1) consider us where "cs = replicate k ''..'' @ us" "us @ rest = ns"
    | us where "cs @ us = replicate k ''..''" "rest = us @ ns"
    by (auto simp: append_eq_append_conv2)
  then show False
  proof cases
    case 1
    with k(2) d show False by auto
  next
    case 2
    from 2(1) have "set us \<subseteq> {''..''}" by (metis Un_subset_iff set_append set_replicate_conv_if empty_subsetI subset_refl)
    with 2(2) assms(2) k(2) d show False by (cases us) auto
  qed
qed

lemma path_rel_beneath:
  assumes "cleaned (fst targ) (snd targ)" and "fst base = fst targ"
  shows "(case path_rel base targ of None \<Rightarrow> False | Some rel \<Rightarrow> \<not> (rel \<noteq> [] \<and> hd rel = ''..'')) \<longleftrightarrow> beneath base targ"
proof -
  obtain bs ts where s: "strip_common (snd base) (snd targ) = (bs, ts)" by fastforce
  then obtain cs where cs: "snd base = cs @ bs" "snd targ = cs @ ts" "bs = [] \<or> ts = [] \<or> hd bs \<noteq> hd ts"
    unfolding strip_common_spec by blast
  show ?thesis
  proof (cases bs)
    case Nil
    with cs s assms have "path_rel base targ = Some ts" by (simp add: path_rel_def)
    moreover have "beneath base targ \<longleftrightarrow> ''..'' \<notin> set ts" using cs Nil assms(2) by (auto simp: beneath_def)
    moreover have "''..'' \<notin> set ts" if "ts = [] \<or> hd ts \<noteq> ''..''"
      using cleaned_tail [of "fst targ" cs ts] assms(1) cs(2) that by simp
    ultimately show ?thesis by (cases ts) auto
  next
    case (Cons b bs')
    with cs(1,2,3) have "\<not> beneath base targ" by (cases ts) (auto simp: beneath_def)
    moreover have "\<not> (case path_rel base targ of None \<Rightarrow> False | Some rel \<Rightarrow> \<not> (rel \<noteq> [] \<and> hd rel = ''..''))"
      using s Cons by (simp add: path_rel_def)
    ultimately show ?thesis by simp
  qed
qed

lemma check_write_iff:
  "check_write p sid cwd target_path = [] \<longleftrightarrow>
     (let mode = po_sandbox (policy_get p sid);
          resolved = (if is_abs target_path then target_path else path_join cwd target_path)
      in mode = SandboxDangerFullAccess \<or>
         (mode \<noteq> SandboxReadOnly \<and> cwd \<noteq> [] \<and> beneath (path_clean cwd) (path_clean resolved)))"
proof -
  have c: "check_write p sid cwd target_path = [] \<longleftrightarrow> po_sandbox (policy_get p sid) = SandboxDangerFullAccess \<or>
      (po_sandbox (policy_get p sid) \<noteq> SandboxReadOnly \<and> cwd \<noteq> [] \<and>
       (case path_rel (path_clean cwd) (path_clean (if is_abs target_path then target_path else path_join cwd target_path)) of
          None \<Rightarrow> False | Some rel \<Rightarrow> \<not> (rel \<noteq> [] \<and> hd rel = ''..'')))"
    by (auto simp: check_write_def Let_def deny_read_only_def deny_workspace_def split: option.splits if_splits)
  let ?t = "path_clean (if is_abs target_path then target_path else path_join cwd target_path)"
  have "(case path_rel (path_clean cwd) ?t of None \<Rightarrow> False | Some rel \<Rightarrow> \<not> (rel \<noteq> [] \<and> hd rel = ''..'')) \<longleftrightarrow>
      beneath (path_clean cwd) ?t"
  proof (cases "fst (path_clean cwd) = fst ?t")
    case True
    show ?thesis by (rule path_rel_beneath [OF path_clean_cleaned True])
  next
    case False
    then show ?thesis by (simp add: path_rel_def beneath_def)
  qed
  with c show ?thesis unfolding Let_def by blast
qed

end
