(* ===== verification/Approval_Pipeline.thy ===== *)
theory Approval_Pipeline imports Policy Json begin

text \<open>
  The tool registry and the guarded execution pipeline (\<open>pkg/tools/pipeline.go\<close>): ownership of
  registered tools, the approval stage with its audit events, the per-tool deadline, and
  the final output.  A tool's \<open>Execute\<close>, the human answerer and the review model are
  functions of the registry and the context; what a tool does acts on a world \<open>'w\<close>.
\<close>

section \<open>Definitions and registry\<close>

datatype tool_value = StringValue string | OtherValue json

text \<open>\<open>Execute\<close> gets the arguments and the deadline in nanoseconds, if one was armed.\<close>

record 'w tool_def =
  td_name :: string
  td_requires_perm :: bool
  td_owner :: string
  td_timeout_ms :: int
  td_no_timeout :: bool
  td_execute :: "string \<Rightarrow> int option \<Rightarrow> 'w \<Rightarrow> 'w \<times> (string + tool_value)"

datatype review_verdict = ReviewUncertain | ReviewAllow | ReviewDeny

record 'w tool_registry =
  tr_tools :: "string \<Rightarrow> 'w tool_def option"
  tr_owners :: "string \<Rightarrow> string option"
  tr_policy :: "policy_store option"
  tr_review :: "(string \<Rightarrow> string \<Rightarrow> string \<Rightarrow> string \<Rightarrow> review_verdict) option"

definition empty_registry :: "'w tool_registry" where
  "empty_registry = \<lparr>tr_tools = (\<lambda>_. None), tr_owners = (\<lambda>_. None), tr_policy = Some new_policy_store, tr_review = None\<rparr>"

definition unset :: "'k \<Rightarrow> ('k \<Rightarrow> 'v option) \<Rightarrow> 'k \<Rightarrow> 'v option" where
  "unset k m = m(k := None)"

definition register_tool :: "'w tool_def \<Rightarrow> 'w tool_registry \<Rightarrow> 'w tool_registry" where
  "register_tool t r = r\<lparr>tr_tools := (tr_tools r)(td_name t \<mapsto> t\<lparr>td_owner := []\<rparr>),
     tr_owners := unset (td_name t) (tr_owners r)\<rparr>"

definition get_tool :: "'w tool_registry \<Rightarrow> string \<Rightarrow> 'w tool_def option" where
  "get_tool r name = (case tr_tools r name of
      None \<Rightarrow> None
    | Some t \<Rightarrow> Some (t\<lparr>td_owner := case tr_owners r name of Some w \<Rightarrow> w | None \<Rightarrow> []\<rparr>))"

definition register_owned :: "string \<Rightarrow> 'w tool_def \<Rightarrow> 'w tool_registry \<Rightarrow> 'w tool_registry" where
  "register_owned owner t r =
     (if owner = [] \<or> td_name t = [] then r
      else r\<lparr>tr_tools := (tr_tools r)(td_name t \<mapsto> t\<lparr>td_owner := owner\<rparr>),
             tr_owners := (tr_owners r)(td_name t \<mapsto> owner)\<rparr>)"

text \<open>A missing owner reads as the empty string.\<close>

definition unregister_owned :: "string \<Rightarrow> string \<Rightarrow> 'w tool_registry \<Rightarrow> 'w tool_registry" where
  "unregister_owned owner name r =
     (if (case tr_owners r name of Some w \<Rightarrow> w | None \<Rightarrow> []) \<noteq> owner then r
      else r\<lparr>tr_tools := unset name (tr_tools r), tr_owners := unset name (tr_owners r)\<rparr>)"

text \<open>The disposer \<open>RegisterOwned\<close> returns.\<close>

definition owned_disposer :: "string \<Rightarrow> 'w tool_def \<Rightarrow> 'w tool_registry \<Rightarrow> 'w tool_registry" where
  "owned_disposer owner t r =
     (if owner = [] \<or> td_name t = [] then r else unregister_owned owner (td_name t) r)"

definition claim_owner :: "string \<Rightarrow> string list \<Rightarrow> 'w tool_registry \<Rightarrow> 'w tool_registry" where
  "claim_owner owner names r =
     (if owner = [] then r
      else fold (\<lambda>name r. if tr_tools r name = None then r
                           else r\<lparr>tr_owners := (tr_owners r)(name \<mapsto> owner)\<rparr>) names r)"

definition register_checked :: "'w tool_def \<Rightarrow> 'w tool_registry \<Rightarrow> string + 'w tool_registry" where
  "register_checked t r =
     (if tr_tools r (td_name t) \<noteq> None then Inl (td_name t)
      else Inr (r\<lparr>tr_tools := (tr_tools r)(td_name t \<mapsto> t)\<rparr>))"

definition unregister_tool :: "string \<Rightarrow> 'w tool_registry \<Rightarrow> 'w tool_registry" where
  "unregister_tool name r = r\<lparr>tr_tools := unset name (tr_tools r), tr_owners := unset name (tr_owners r)\<rparr>"

section \<open>The approval stage\<close>

definition edit_tools :: "string list" where
  "edit_tools = [''write_file'', ''replace_file_content'']"

definition is_edit_tool :: "string \<Rightarrow> bool" where
  "is_edit_tool name \<longleftrightarrow> name \<in> set edit_tools"

definition destructive_tools :: "string list" where
  "destructive_tools = [''run_command'', ''bash'', ''pwsh'', ''bash_persistent'', ''pwsh_persistent'',
     ''delete_file'', ''delete_dir'', ''remove'', ''rm'',
     ''run_shell'', ''terminal_send'', ''shell'', ''git_commit'', ''git_discard'',
     ''git_stage'', ''git_unstage'', ''git_restore'', ''jobs_kill'', ''schedule_create'',
     ''schedule_enable'', ''schedule_disable'', ''schedule_delete'']"

definition is_destructive_tool :: "string \<Rightarrow> bool" where
  "is_destructive_tool name \<longleftrightarrow> name \<in> set destructive_tools"

text \<open>The answerer returns a decision string and whether it failed.\<close>

record exec_ctx =
  ec_session :: string
  ec_call :: string
  ec_request_user :: "(string \<Rightarrow> string list \<Rightarrow> string \<times> bool) option"
  ec_emit :: bool

datatype audit_event = Asked string string string string | Decided string string

definition review_tool_call :: "'w tool_registry \<Rightarrow> exec_ctx \<Rightarrow> string \<Rightarrow> string \<Rightarrow> session_policy \<Rightarrow> review_verdict" where
  "review_tool_call r ctx name args pol = (case tr_review r of
      None \<Rightarrow> ReviewUncertain
    | Some rv \<Rightarrow> if po_review_model pol = [] then ReviewUncertain
                else rv (ec_session ctx) (po_review_model pol) name args)"

text \<open>The arguments shown to the user: cut in the middle, with the three bytes of an ellipsis.\<close>

definition prompt_args :: "string \<Rightarrow> string" where
  "prompt_args args = (if 4000 < length args
     then take 1800 args @ [CHR 0xE2, CHR 0x80, CHR 0xA6] @ drop (length args - 1800) args else args)"

definition allow_prompt :: "string \<Rightarrow> string \<Rightarrow> string" where
  "allow_prompt name args = ''Allow tool '' @ [CHR 0x27] @ name @ [CHR 0x27] @ '' with args: '' @ prompt_args args @ ''?''"

definition emitted :: "exec_ctx \<Rightarrow> audit_event list \<Rightarrow> audit_event list" where
  "emitted ctx evs = (if ec_emit ctx then evs else [])"

datatype gate = GateRun | GateAsk | GateDeny string string

text \<open>The switch over the approval policy: run, ask, or deny with a reason and a message.\<close>

definition approval_gate :: "'w tool_registry \<Rightarrow> exec_ctx \<Rightarrow> string \<Rightarrow> string \<Rightarrow> gate" where
  "approval_gate r ctx name args =
     (let pol = (case tr_policy r of None \<Rightarrow> default_policy | Some p \<Rightarrow> policy_get p (ec_session ctx));
          remembered = (case tr_policy r of None \<Rightarrow> False | Some p \<Rightarrow> policy_allowed p (ec_session ctx) name);
          unless_remembered = (if remembered then GateRun else GateAsk)
      in if po_approval pol = ApprovalNever
         then GateDeny ''approval-policy: never'' ''Permission denied by approval policy (never).''
         else if po_approval pol = ApprovalAllowEverything then GateRun
         else if po_approval pol = ApprovalAcceptEdits
         then (if is_edit_tool name then GateRun else unless_remembered)
         else if po_approval pol = ApprovalReview
         then (if remembered then GateRun
               else if \<not> is_destructive_tool name then GateRun
               else (case review_tool_call r ctx name args pol of
                   ReviewAllow \<Rightarrow> GateRun
                 | ReviewDeny \<Rightarrow> GateDeny ''approval-policy: review(deny)'' ''Permission denied by auto-review model.''
                 | ReviewUncertain \<Rightarrow> GateAsk))
         else unless_remembered)"

definition decision_outcome :: "string \<Rightarrow> string" where
  "decision_outcome d =
     (if d = ''allow_once'' then ''allowed-once'' else if d = ''allow_all'' then ''allowed-always''
      else if d = ''deny'' then ''rejected'' else ''cancelled'')"

text \<open>Asking: the registry afterwards, the audit pair, and the denial message if any.\<close>

definition ask_user ::
  "'w tool_registry \<Rightarrow> exec_ctx \<Rightarrow> (string \<Rightarrow> string list \<Rightarrow> string \<times> bool) \<Rightarrow> string \<Rightarrow> string \<Rightarrow> string
     \<Rightarrow> 'w tool_registry \<times> audit_event list \<times> string option" where
  "ask_user r ctx request name args aid =
     (let (decision, failed) = request (allow_prompt name args) [''allow_once'', ''allow_all'', ''deny'', ''cancel''];
          r' = (if decision = ''allow_all''
                then r\<lparr>tr_policy := map_option (remember_approval (ec_session ctx) name) (tr_policy r)\<rparr> else r);
          evs = emitted ctx [Asked aid name (ec_call ctx) ''user-approval waterfall'', Decided aid (decision_outcome decision)]
      in (r', evs, if failed \<or> decision = ''deny'' \<or> decision = ''cancel'' then Some ''Permission denied by user.'' else None))"

definition approval_stage ::
  "'w tool_registry \<Rightarrow> exec_ctx \<Rightarrow> 'w tool_def \<Rightarrow> string \<Rightarrow> string \<Rightarrow> string
     \<Rightarrow> 'w tool_registry \<times> audit_event list \<times> string option" where
  "approval_stage r ctx t name args aid =
     (if \<not> td_requires_perm t then (r, [], None)
      else (case approval_gate r ctx name args of
          GateRun \<Rightarrow> (r, [], None)
        | GateDeny reason msg \<Rightarrow> (r, emitted ctx [Asked aid name (ec_call ctx) reason, Decided aid ''rejected''], Some msg)
        | GateAsk \<Rightarrow> (case ec_request_user ctx of
              None \<Rightarrow> (r, [], None)
            | Some request \<Rightarrow> ask_user r ctx request name args aid)))"

section \<open>Execution\<close>

definition no_timeout_by_design :: "string list" where
  "no_timeout_by_design = [''workflow_run'', ''invoke_subagent'']"

definition default_tool_timeout :: int where
  "default_tool_timeout = 60 * 1000000000"

definition tool_deadline :: "'w tool_def \<Rightarrow> string \<Rightarrow> int option" where
  "tool_deadline t name =
     (if td_no_timeout t \<or> name \<in> set no_timeout_by_design then None
      else if 0 < td_timeout_ms t then Some (wrap64 (td_timeout_ms t * 1000000))
      else Some default_tool_timeout)"

text \<open>\<open>indent\<close> is \<open>json.MarshalIndent\<close> with two blanks.\<close>

definition finalize_output :: "(json \<Rightarrow> string) \<Rightarrow> string + tool_value \<Rightarrow> string \<times> bool" where
  "finalize_output indent res = (case res of
      Inl err \<Rightarrow> (''Tool execution error: '' @ err, True)
    | Inr (StringValue s) \<Rightarrow> (s, False)
    | Inr (OtherValue j) \<Rightarrow> (indent j, False))"

record 'w pipeline_run =
  pr_registry :: "'w tool_registry"
  pr_world :: 'w
  pr_events :: "audit_event list"
  pr_output :: string
  pr_is_error :: bool

definition execute_pipeline ::
  "(json \<Rightarrow> string) \<Rightarrow> 'w tool_registry \<Rightarrow> exec_ctx \<Rightarrow> string \<Rightarrow> string \<Rightarrow> string \<Rightarrow> 'w \<Rightarrow> 'w pipeline_run" where
  "execute_pipeline indent r ctx name args aid w = (case get_tool r name of
      None \<Rightarrow> \<lparr>pr_registry = r, pr_world = w, pr_events = [],
               pr_output = ''Error: unknown tool '' @ [CHR 0x27] @ name @ [CHR 0x27], pr_is_error = True\<rparr>
    | Some t \<Rightarrow>
        (case approval_stage r ctx t name args aid of
           (r', evs, Some msg) \<Rightarrow> \<lparr>pr_registry = r', pr_world = w, pr_events = evs, pr_output = msg, pr_is_error = True\<rparr>
         | (r', evs, None) \<Rightarrow>
             (let (w', res) = td_execute t args (tool_deadline t name) w; (out, err) = finalize_output indent res
              in \<lparr>pr_registry = r', pr_world = w', pr_events = evs, pr_output = out, pr_is_error = err\<rparr>)))"

section \<open>Specification\<close>

text \<open>When a call may run, as a predicate on the situation instead of a path through the code.\<close>

definition session_knobs :: "'w tool_registry \<Rightarrow> exec_ctx \<Rightarrow> session_policy" where
  "session_knobs r ctx = (case tr_policy r of None \<Rightarrow> default_policy | Some p \<Rightarrow> policy_get p (ec_session ctx))"

definition remembered_tool :: "'w tool_registry \<Rightarrow> exec_ctx \<Rightarrow> string \<Rightarrow> bool" where
  "remembered_tool r ctx name = (case tr_policy r of None \<Rightarrow> False | Some p \<Rightarrow> policy_allowed p (ec_session ctx) name)"

text \<open>The policy alone lets the call through.\<close>

definition policy_grants :: "'w tool_registry \<Rightarrow> exec_ctx \<Rightarrow> string \<Rightarrow> string \<Rightarrow> bool" where
  "policy_grants r ctx name args \<longleftrightarrow>
     (let ap = po_approval (session_knobs r ctx)
      in ap = ApprovalAllowEverything \<or>
         (ap \<noteq> ApprovalNever \<and> remembered_tool r ctx name) \<or>
         (ap = ApprovalAcceptEdits \<and> is_edit_tool name) \<or>
         (ap = ApprovalReview \<and> (\<not> is_destructive_tool name \<or>
            review_tool_call r ctx name args (session_knobs r ctx) = ReviewAllow)))"

text \<open>The policy alone refuses the call.\<close>

definition policy_refuses :: "'w tool_registry \<Rightarrow> exec_ctx \<Rightarrow> string \<Rightarrow> string \<Rightarrow> bool" where
  "policy_refuses r ctx name args \<longleftrightarrow>
     (let ap = po_approval (session_knobs r ctx)
      in ap = ApprovalNever \<or>
         (ap = ApprovalReview \<and> \<not> remembered_tool r ctx name \<and> is_destructive_tool name \<and>
            review_tool_call r ctx name args (session_knobs r ctx) = ReviewDeny))"

definition user_refuses :: "exec_ctx \<Rightarrow> string \<Rightarrow> string \<Rightarrow> bool" where
  "user_refuses ctx name args \<longleftrightarrow> (case ec_request_user ctx of None \<Rightarrow> False
     | Some request \<Rightarrow>
         (case request (allow_prompt name args) [''allow_once'', ''allow_all'', ''deny'', ''cancel''] of
            (decision, failed) \<Rightarrow> failed \<or> decision = ''deny'' \<or> decision = ''cancel''))"

lemma gate_run_iff: "approval_gate r ctx name args = GateRun \<longleftrightarrow> policy_grants r ctx name args"
  by (auto simp: approval_gate_def policy_grants_def session_knobs_def remembered_tool_def Let_def
      split: option.splits review_verdict.splits)

lemma gate_deny_iff: "(\<exists>reason msg. approval_gate r ctx name args = GateDeny reason msg) \<longleftrightarrow> policy_refuses r ctx name args"
  by (auto simp: approval_gate_def policy_refuses_def session_knobs_def remembered_tool_def Let_def
      split: option.splits review_verdict.splits)

lemma ask_user_denies:
  "snd (snd (ask_user r ctx request name args aid)) \<noteq> None \<longleftrightarrow>
     (case request (allow_prompt name args) [''allow_once'', ''allow_all'', ''deny'', ''cancel''] of
        (decision, failed) \<Rightarrow> failed \<or> decision = ''deny'' \<or> decision = ''cancel'')"
  by (simp add: ask_user_def Let_def split: prod.splits)

lemma approval_stage_denies:
  "snd (snd (approval_stage r ctx t name args aid)) \<noteq> None \<longleftrightarrow>
     td_requires_perm t \<and> (policy_refuses r ctx name args \<or>
       (\<not> policy_grants r ctx name args \<and> user_refuses ctx name args))"
proof (cases "approval_gate r ctx name args")
  case GateRun
  then have "policy_grants r ctx name args" "\<not> policy_refuses r ctx name args"
    using gate_run_iff gate_deny_iff [of r ctx name args] by (metis, metis gate.distinct(3))
  with GateRun show ?thesis by (simp add: approval_stage_def)
next
  case GateAsk
  then have "\<not> policy_grants r ctx name args" "\<not> policy_refuses r ctx name args"
    using gate_run_iff gate_deny_iff [of r ctx name args] by (metis gate.distinct(1), metis gate.distinct(5))
  with GateAsk show ?thesis
    by (cases "ec_request_user ctx")
      (simp_all add: approval_stage_def user_refuses_def ask_user_denies [unfolded not_None_eq])
next
  case (GateDeny reason msg)
  then have "policy_refuses r ctx name args" using gate_deny_iff [of r ctx name args] by blast
  with GateDeny show ?thesis by (simp add: approval_stage_def)
qed

text \<open>The audit trail: nothing, or one question and its outcome under one id.\<close>

lemma approval_stage_events:
  "fst (snd (approval_stage r ctx t name args aid)) = [] \<or>
     (ec_emit ctx \<and> (\<exists>reason outcome. fst (snd (approval_stage r ctx t name args aid)) =
        [Asked aid name (ec_call ctx) reason, Decided aid outcome]))"
  by (auto simp: approval_stage_def ask_user_def emitted_def Let_def split: gate.splits option.splits prod.splits)

lemma approval_stage_frame:
  "tr_tools (fst (approval_stage r ctx t name args aid)) = tr_tools r \<and>
   tr_owners (fst (approval_stage r ctx t name args aid)) = tr_owners r"
  by (auto simp: approval_stage_def ask_user_def Let_def split: gate.splits option.splits prod.splits)

section \<open>Ownership\<close>

definition owners_registered :: "'w tool_registry \<Rightarrow> bool" where
  "owners_registered r \<longleftrightarrow> dom (tr_owners r) \<subseteq> dom (tr_tools r) \<and>
     (\<forall>name t. tr_tools r name = Some t \<longrightarrow> td_name t = name)"

datatype 'w registry_op =
    OpRegister "'w tool_def"
  | OpRegisterOwned string "'w tool_def"
  | OpDispose string "'w tool_def"
  | OpUnregisterOwned string string
  | OpClaim string "string list"
  | OpRegisterChecked "'w tool_def"
  | OpUnregister string

fun registry_step :: "'w registry_op \<Rightarrow> 'w tool_registry \<Rightarrow> 'w tool_registry" where
  "registry_step (OpRegister t) r = register_tool t r"
| "registry_step (OpRegisterOwned owner t) r = register_owned owner t r"
| "registry_step (OpDispose owner t) r = owned_disposer owner t r"
| "registry_step (OpUnregisterOwned owner name) r = unregister_owned owner name r"
| "registry_step (OpClaim owner names) r = claim_owner owner names r"
| "registry_step (OpRegisterChecked t) r = (case register_checked t r of Inl _ \<Rightarrow> r | Inr r' \<Rightarrow> r')"
| "registry_step (OpUnregister name) r = unregister_tool name r"

lemma claim_step_registered:
  "owners_registered r \<Longrightarrow> tr_tools r name \<noteq> None \<Longrightarrow>
     owners_registered (r\<lparr>tr_owners := (tr_owners r)(name \<mapsto> owner)\<rparr>)"
  by (auto simp: owners_registered_def)

lemma claim_owner_registered:
  assumes "owners_registered r"
  shows "owners_registered (claim_owner owner names r)"
proof (cases "owner = []")
  case False
  have "owners_registered (fold (\<lambda>name r. if tr_tools r name = None then r
      else r\<lparr>tr_owners := (tr_owners r)(name \<mapsto> owner)\<rparr>) names r)"
    using assms
  proof (induction names arbitrary: r)
    case (Cons name names)
    show ?case
    proof (cases "tr_tools r name")
      case None
      with Cons show ?thesis by simp
    next
      case (Some t)
      with claim_step_registered [OF Cons.prems, of name owner] Cons.IH show ?thesis by simp
    qed
  qed simp
  with False show ?thesis by (simp add: claim_owner_def)
qed (use assms in \<open>simp add: claim_owner_def\<close>)

lemma owners_registered_put:
  assumes "owners_registered r" and "td_name t = name" and "dom w \<subseteq> insert name (dom (tr_owners r))"
  shows "owners_registered (r\<lparr>tr_tools := (tr_tools r)(name \<mapsto> t), tr_owners := w\<rparr>)"
  using assms by (auto simp: owners_registered_def)

lemma owners_registered_drop:
  assumes "owners_registered r"
  shows "owners_registered (r\<lparr>tr_tools := unset name (tr_tools r), tr_owners := unset name (tr_owners r)\<rparr>)"
  using assms by (auto simp: owners_registered_def unset_def)

lemma registry_step_registered:
  assumes "owners_registered r"
  shows "owners_registered (registry_step x r)"
proof (cases x)
  case (OpRegister t)
  have "dom (unset (td_name t) (tr_owners r)) \<subseteq> insert (td_name t) (dom (tr_owners r))" by (auto simp: unset_def)
  with OpRegister owners_registered_put [OF assms, of "t\<lparr>td_owner := []\<rparr>" "td_name t"] show ?thesis
    by (simp add: register_tool_def)
next
  case (OpRegisterOwned owner t)
  have "dom ((tr_owners r)(td_name t \<mapsto> owner)) \<subseteq> insert (td_name t) (dom (tr_owners r))" by auto
  with OpRegisterOwned assms owners_registered_put [OF assms, of "t\<lparr>td_owner := owner\<rparr>" "td_name t"] show ?thesis
    by (simp add: register_owned_def)
next
  case (OpDispose owner t)
  with assms owners_registered_drop [OF assms] show ?thesis
    by (simp add: owned_disposer_def unregister_owned_def)
next
  case (OpUnregisterOwned owner name)
  with assms owners_registered_drop [OF assms] show ?thesis by (simp add: unregister_owned_def)
next
  case (OpClaim owner names)
  with assms show ?thesis by (simp add: claim_owner_registered)
next
  case (OpRegisterChecked t)
  have "dom (tr_owners r) \<subseteq> insert (td_name t) (dom (tr_owners r))" by auto
  with OpRegisterChecked assms owners_registered_put [OF assms, of t "td_name t" "tr_owners r"] show ?thesis
    by (simp add: register_checked_def)
next
  case (OpUnregister name)
  with owners_registered_drop [OF assms, of name] show ?thesis by (simp add: unregister_tool_def)
qed

lemma registry_run_registered: "owners_registered r \<Longrightarrow> owners_registered (fold registry_step ops r)"
  by (induction ops arbitrary: r) (auto simp: registry_step_registered)

end
