(* ===== verification/Tool_Properties.thy ===== *)
theory Tool_Properties imports Approval_Pipeline begin

text \<open>
  What the tool pipeline and the policy store guarantee: which calls run, what the audit trail
  says, where writes may go, that presets read back, and that a disposer only removes what
  its owner still holds.
\<close>

section \<open>A concrete registry\<close>

definition count_tool :: "string \<Rightarrow> nat tool_def" where
  "count_tool name = \<lparr>td_name = name, td_requires_perm = True, td_owner = [], td_timeout_ms = 150000,
     td_no_timeout = False, td_execute = (\<lambda>args deadline w. (Suc w, Inr (StringValue args)))\<rparr>"

definition sample_registry :: "nat tool_registry" where
  "sample_registry = register_owned ''files'' (count_tool ''write_file'')
     (register_tool (count_tool ''bash'') empty_registry)"

definition sample_ctx :: "string \<Rightarrow> bool \<Rightarrow> exec_ctx" where
  "sample_ctx answer failed = \<lparr>ec_session = ''s'', ec_call = ''c'',
     ec_request_user = Some (\<lambda>_ _. (answer, failed)), ec_emit = True\<rparr>"

lemmas sample_defs = sample_registry_def sample_ctx_def count_tool_def register_owned_def register_tool_def
  empty_registry_def new_policy_store_def

lemma decision_rejected: "decision_outcome d = ''rejected'' \<longleftrightarrow> d = ''deny''"
  by (simp add: decision_outcome_def)

lemma approval_stage_pairs:
  assumes "ec_emit ctx" and "approval_stage r ctx t name args aid = (r', evs, d)"
  shows "(d \<noteq> None \<longrightarrow> evs \<noteq> []) \<and> (Decided aid ''rejected'' \<in> set evs \<longrightarrow> d \<noteq> None)"
proof (cases "approval_gate r ctx name args")
  case GateAsk
  show ?thesis
  proof (cases "ec_request_user ctx")
    case None
    with GateAsk assms show ?thesis by (auto simp: approval_stage_def split: if_splits)
  next
    case (Some request)
    obtain decision failed where q: "request (allow_prompt name args) [''allow_once'', ''allow_all'', ''deny'', ''cancel''] = (decision, failed)"
      by fastforce
    have "td_requires_perm t \<Longrightarrow> evs = [Asked aid name (ec_call ctx) ''user-approval waterfall'', Decided aid (decision_outcome decision)] \<and>
        (d \<noteq> None \<longleftrightarrow> failed \<or> decision = ''deny'' \<or> decision = ''cancel'')"
      using GateAsk Some q assms by (auto simp: approval_stage_def ask_user_def emitted_def Let_def split: if_splits)
    with decision_rejected [of decision] assms(2) show ?thesis
      by (cases "td_requires_perm t") (auto simp: approval_stage_def)
  qed
qed (use assms in \<open>auto simp: approval_stage_def emitted_def split: if_splits\<close>)

lemma get_tool_unset:
  "get_tool (r\<lparr>tr_tools := unset k (tr_tools r), tr_owners := unset k (tr_owners r)\<rparr>) n =
     (if n = k then None else get_tool r n)"
  by (cases "tr_tools r n") (simp_all add: get_tool_def unset_def)

section \<open>Properties\<close>

text \<open>
  C6. Authorisation. A call runs its tool exactly when the tool is registered and either needs no
  permission, or the policy does not refuse it and grants it or the user, where one can be
  asked, does not refuse it.  A call that does not run leaves the world as it was and reports an
  error; one that runs gets its own deadline and its result is what is reported.
\<close>
theorem pipeline_authorisation:
  "(let run = execute_pipeline indent r ctx name args aid w
    in case get_tool r name of
         None \<Rightarrow> pr_world run = w \<and> pr_is_error run \<and> pr_registry run = r
       | Some t \<Rightarrow>
           if td_requires_perm t \<and> (policy_refuses r ctx name args \<or>
              (\<not> policy_grants r ctx name args \<and> user_refuses ctx name args))
           then pr_world run = w \<and> pr_is_error run
           else (pr_world run, finalize_output indent (snd (td_execute t args (tool_deadline t name) w))) =
             (fst (td_execute t args (tool_deadline t name) w), (pr_output run, pr_is_error run)))"
proof (cases "get_tool r name")
  case None
  then show ?thesis by (simp add: execute_pipeline_def)
next
  case (Some t)
  obtain r' evs d where st: "approval_stage r ctx t name args aid = (r', evs, d)" by (metis prod_cases3)
  note den = approval_stage_denies [of r ctx t name args aid]
  show ?thesis
  proof (cases d)
    case None
    with st den have "\<not> (td_requires_perm t \<and> (policy_refuses r ctx name args \<or>
        (\<not> policy_grants r ctx name args \<and> user_refuses ctx name args)))" by simp
    moreover obtain w' res where "td_execute t args (tool_deadline t name) w = (w', res)" by fastforce
    moreover obtain out err where "finalize_output indent res = (out, err)" by fastforce
    ultimately show ?thesis using Some None st by (auto simp: execute_pipeline_def Let_def)
  next
    case (Some msg)
    with st den have "td_requires_perm t \<and> (policy_refuses r ctx name args \<or>
        (\<not> policy_grants r ctx name args \<and> user_refuses ctx name args))" by simp
    with Some \<open>get_tool r name = Some t\<close> st show ?thesis by (simp add: execute_pipeline_def)
  qed
qed

text \<open>
  Audit. With emission on, the events of a call are none or one question followed by its outcome
  under the same id, naming the tool and the call; a call refused by the policy or by the user
  always leaves the pair, and an outcome of ``rejected'' is only written for a call that did not run.
\<close>
theorem audit_trail:
  assumes "ec_emit ctx" and "get_tool r name = Some t"
  shows "(let evs = pr_events (execute_pipeline indent r ctx name args aid w)
    in (evs = [] \<or> (\<exists>reason outcome. evs = [Asked aid name (ec_call ctx) reason, Decided aid outcome])) \<and>
       (snd (snd (approval_stage r ctx t name args aid)) \<noteq> None \<longrightarrow> evs \<noteq> []) \<and>
       (Decided aid ''rejected'' \<in> set evs \<longrightarrow> pr_world (execute_pipeline indent r ctx name args aid w) = w))"
proof -
  obtain r' evs d where st: "approval_stage r ctx t name args aid = (r', evs, d)" by (metis prod_cases3)
  have ev: "pr_events (execute_pipeline indent r ctx name args aid w) = evs"
    using assms(2) st by (cases d) (simp_all add: execute_pipeline_def Let_def split: prod.splits)
  have pair: "evs = [] \<or> (\<exists>reason outcome. evs = [Asked aid name (ec_call ctx) reason, Decided aid outcome])"
    using approval_stage_events [of r ctx t name args aid] st by auto
  note den = conjunct1 [OF approval_stage_pairs [OF assms(1) st]] and rej = mp [OF conjunct2 [OF approval_stage_pairs [OF assms(1) st]]]
  have "pr_world (execute_pipeline indent r ctx name args aid w) = w" if "d \<noteq> None"
    using that assms(2) st by (auto simp: execute_pipeline_def)
  with ev pair den rej st show ?thesis unfolding Let_def by simp
qed

lemma audit_trail_witness:
  "pr_events (execute_pipeline (\<lambda>_. []) sample_registry (sample_ctx ''deny'' False) ''bash'' ''x'' ''a1'' 0) \<noteq> []"
proof -
  have t: "get_tool sample_registry ''bash'' = Some (count_tool ''bash'')"
    by (simp add: sample_defs get_tool_def unset_def)
  have "snd (snd (approval_stage sample_registry (sample_ctx ''deny'' False) (count_tool ''bash'') ''bash'' ''x'' ''a1'')) \<noteq> None"
    by (simp add: sample_defs approval_stage_def approval_gate_def policy_get_def default_policy_def zero_policy_def
        policy_allowed_def Let_def ask_user_def)
  with audit_trail [OF _ t, of "sample_ctx ''deny'' False" "\<lambda>_. []" "''x''" "''a1''" 0] show ?thesis
    by (simp add: sample_ctx_def Let_def)
qed

text \<open>An answer outside the vocabulary is written down as ``cancelled'' but the tool runs.\<close>

lemma unknown_decision_runs:
  "pr_world (execute_pipeline (\<lambda>_. []) sample_registry (sample_ctx ''maybe'' False) ''bash'' ''x'' ''a1'' 0) = 1 \<and>
   pr_events (execute_pipeline (\<lambda>_. []) sample_registry (sample_ctx ''maybe'' False) ''bash'' ''x'' ''a1'' 0) =
     [Asked ''a1'' ''bash'' ''c'' ''user-approval waterfall'', Decided ''a1'' ''cancelled'']"
  by (simp add: sample_defs execute_pipeline_def get_tool_def unset_def approval_stage_def approval_gate_def policy_get_def
      default_policy_def zero_policy_def policy_allowed_def Let_def ask_user_def emitted_def decision_outcome_def
      finalize_output_def)

text \<open>With no answerer the ask policy runs the tool.\<close>

lemma no_answerer_runs:
  "pr_world (execute_pipeline (\<lambda>_. []) sample_registry ((sample_ctx [] False)\<lparr>ec_request_user := None\<rparr>) ''bash'' ''x'' ''a1'' 0) = 1"
  by (simp add: sample_defs execute_pipeline_def get_tool_def unset_def approval_stage_def approval_gate_def policy_get_def
      default_policy_def zero_policy_def policy_allowed_def Let_def finalize_output_def)

text \<open>
  C12. Confinement. The sandbox lets a write through exactly when the session has full access, or is
  not read-only, knows its workspace, and the lexically cleaned target lies beneath the cleaned
  workspace, with no parent component after it.
\<close>
theorem sandbox_confines_writes:
  "check_write p sid cwd target_path = [] \<longleftrightarrow>
     po_sandbox (policy_get p sid) = SandboxDangerFullAccess \<or>
     (po_sandbox (policy_get p sid) \<noteq> SandboxReadOnly \<and> cwd \<noteq> [] \<and>
      beneath (path_clean cwd) (path_clean (if is_abs target_path then target_path else path_join cwd target_path)))"
  using check_write_iff [of p sid cwd target_path] by (simp add: Let_def)

text \<open>
  Presets. Each of the five permission modes sets its pair of knobs and its preset for the one
  session, reports them, reads back as itself, and plan mode then refuses every tool that needs
  permission; any other mode string is refused and changes nothing.
\<close>
theorem mode_reads_back:
  "(case set_mode sid mode p of
      Inl err \<Rightarrow> mode_knobs mode = None \<and> err = InvalidMode mode
    | Inr (p', evs) \<Rightarrow> (\<exists>sandbox approval. mode_knobs mode = Some (sandbox, approval) \<and>
        policy_mode (policy_get p' sid) = mode \<and> po_preset (policy_get p' sid) = mode \<and>
        po_sandbox (policy_get p' sid) = sandbox \<and> po_approval (policy_get p' sid) = approval \<and>
        evs = [SandboxModeEvent sandbox [], ApprovalPolicyEvent approval [], PermissionPresetEvent mode []] \<and>
        ps_by_id p' = (ps_by_id p)(sid := ps_by_id p' sid) \<and> ps_allowed p' = ps_allowed p))"
proof (cases "mode_knobs mode")
  case None
  then show ?thesis by (simp add: set_mode_def)
next
  case (Some k)
  then show ?thesis
    by (auto simp: mode_knobs_def set_mode_def set_sandbox_mode_def set_approval_policy_def set_preset_def
        policy_update_def policy_get_def policy_mode_def Let_def split: if_splits)
qed

text \<open>
  Ownership. In every registry reached by the exported operations only registered tools have an
  owner, and the disposer of an owned registration removes the tool exactly when that owner
  still holds it; a later registration of the name by anyone else survives it.
\<close>
theorem disposer_respects_owner:
  assumes "r = fold registry_step ops empty_registry" and "owner \<noteq> []" and "td_name t \<noteq> []"
  shows "dom (tr_owners r) \<subseteq> dom (tr_tools r) \<and>
    (let r' = owned_disposer owner t r
     in if tr_owners r (td_name t) = Some owner
        then get_tool r' (td_name t) = None \<and> (\<forall>n. n \<noteq> td_name t \<longrightarrow> get_tool r' n = get_tool r n)
        else r' = r)"
proof -
  have "owners_registered empty_registry" by (simp add: owners_registered_def empty_registry_def)
  from registry_run_registered [OF this, of ops] assms(1) have reg: "owners_registered r" by simp
  show ?thesis
  proof (cases "tr_owners r (td_name t) = Some owner")
    case True
    with assms(2,3) have "owned_disposer owner t r = r\<lparr>tr_tools := unset (td_name t) (tr_tools r), tr_owners := unset (td_name t) (tr_owners r)\<rparr>"
      by (simp add: owned_disposer_def unregister_owned_def)
    with True reg show ?thesis by (simp add: get_tool_unset owners_registered_def)
  next
    case False
    with assms(2,3) have "owned_disposer owner t r = r"
      by (cases "tr_owners r (td_name t)") (auto simp: owned_disposer_def unregister_owned_def)
    with False reg show ?thesis by (simp add: owners_registered_def)
  qed
qed

lemma disposer_respects_owner_witness:
  "get_tool (owned_disposer ''files'' (count_tool ''write_file'') sample_registry) ''write_file'' = None"
proof -
  have r: "sample_registry = fold registry_step [OpRegister (count_tool ''bash''), OpRegisterOwned ''files'' (count_tool ''write_file'')] empty_registry"
    by (simp add: sample_registry_def)
  have n: "td_name (count_tool ''write_file'') = ''write_file''" by (simp add: count_tool_def)
  have "tr_owners sample_registry ''write_file'' = Some ''files''" by (simp add: sample_defs)
  with disposer_respects_owner [OF r, of "''files''" "count_tool ''write_file''"] n show ?thesis
    by (simp add: Let_def)
qed

end
