(* ===== verification/Block_Assembler.thy ===== *)
theory Block_Assembler imports Session_Events begin

text \<open>
  The block assembler (\<open>pkg/llm/stream.go\<close>): it folds stream chunks into content blocks while
  several blocks may be open at once.  \<open>ba_active\<close> is the map of open blocks, \<open>ba_open_order\<close>
  the order in which they were opened.  \<open>None\<close> as the result of a chunk is a nil dereference.
\<close>

section \<open>Chunks and state\<close>

abbreviation "ChunkBlockStart \<equiv> ''block-start''"
abbreviation "ChunkTextDelta \<equiv> ''text-delta''"
abbreviation "ChunkReasoningDelta \<equiv> ''reasoning-delta''"
abbreviation "ChunkToolCallDelta \<equiv> ''tool-call-delta''"
abbreviation "ChunkBlockEnd \<equiv> ''block-end''"
abbreviation "ChunkUsage \<equiv> ''usage''"
abbreviation "ChunkFinish \<equiv> ''finish''"

record stream_chunk =
  sc_type :: string
  sc_index :: int
  sc_block_type :: string
  sc_block_id :: string
  sc_text :: string
  sc_id :: string
  sc_name :: string
  sc_arguments :: string
  sc_block :: "content_block option"
  sc_usage :: "token_usage option"
  sc_finish :: string

record assembler =
  ba_open_order :: "string list"
  ba_active :: "string \<Rightarrow> content_block option"
  ba_legacy :: "content_block option"
  ba_blocks :: "content_block list"
  ba_usage :: "token_usage option"
  ba_finish :: string

definition new_assembler :: assembler where
  "new_assembler = \<lparr>ba_open_order = [], ba_active = (\<lambda>_. None), ba_legacy = None, ba_blocks = [],
     ba_usage = None, ba_finish = []\<rparr>"

definition empty_block :: content_block where
  "empty_block = ContentBlock [] [] [] [] [] [] [] [] False []"

definition block_of_type :: "string \<Rightarrow> content_block" where
  "block_of_type ty = ContentBlock ty [] [] [] [] [] [] [] False []"

definition started_block :: "stream_chunk \<Rightarrow> content_block" where
  "started_block c = ContentBlock (sc_block_type c) [] [] [] (sc_id c) (sc_name c) [] [] False []"

fun add_text :: "string \<Rightarrow> content_block \<Rightarrow> content_block" where
  "add_text s (ContentBlock ty tx att mime cid nm args tcid err content) =
     ContentBlock ty (tx @ s) att mime cid nm args tcid err content"

fun set_type :: "string \<Rightarrow> content_block \<Rightarrow> content_block" where
  "set_type s (ContentBlock ty tx att mime cid nm args tcid err content) =
     ContentBlock s tx att mime cid nm args tcid err content"

text \<open>A tool-call delta fills a missing id and name and extends the arguments.\<close>

fun add_call :: "string \<Rightarrow> string \<Rightarrow> string \<Rightarrow> content_block \<Rightarrow> content_block" where
  "add_call i n a (ContentBlock ty tx att mime cid nm args tcid err content) =
     ContentBlock ty tx att mime (if i \<noteq> [] \<and> cid = [] then i else cid) (if n \<noteq> [] \<and> nm = [] then n else nm)
       (args @ a) tcid err content"

section \<open>Opening and committing\<close>

definition open_block :: "string \<Rightarrow> content_block \<Rightarrow> assembler \<Rightarrow> assembler" where
  "open_block i b ba = ba\<lparr>ba_active := (ba_active ba)(i \<mapsto> b), ba_open_order := ba_open_order ba @ [i]\<rparr>"

definition commit_block :: "string \<Rightarrow> assembler \<Rightarrow> assembler" where
  "commit_block i ba = (case ba_active ba i of
      None \<Rightarrow> ba
    | Some b \<Rightarrow> ba\<lparr>ba_active := (ba_active ba)(i := None),
                   ba_open_order := delete_first (\<lambda>x. x = i) (ba_open_order ba),
                   ba_blocks := ba_blocks ba @ [b]\<rparr>)"

definition commit_legacy :: "assembler \<Rightarrow> assembler" where
  "commit_legacy ba = (case ba_legacy ba of None \<Rightarrow> ba
     | Some b \<Rightarrow> ba\<lparr>ba_blocks := ba_blocks ba @ [b], ba_legacy := None\<rparr>)"

text \<open>Where a chunk goes: a key among the open blocks, the anonymous block, or nowhere.\<close>

datatype destination = KeyedDest string | LegacyDest | NoDest

definition chunk_target :: "assembler \<Rightarrow> stream_chunk \<Rightarrow> destination" where
  "chunk_target ba c =
     (if sc_block_id c \<noteq> [] then
        (case ba_active ba (sc_block_id c) of Some _ \<Rightarrow> KeyedDest (sc_block_id c) | None \<Rightarrow> NoDest)
      else if ba_open_order ba \<noteq> [] then
        (case ba_active ba (last (ba_open_order ba)) of
           Some _ \<Rightarrow> KeyedDest (last (ba_open_order ba)) | None \<Rightarrow> NoDest)
      else (case ba_legacy ba of Some _ \<Rightarrow> LegacyDest | None \<Rightarrow> NoDest))"

definition update_active :: "string \<Rightarrow> (content_block \<Rightarrow> content_block) \<Rightarrow> assembler \<Rightarrow> assembler" where
  "update_active i f ba = ba\<lparr>ba_active := (ba_active ba)(i := map_option f (ba_active ba i))\<rparr>"

section \<open>Ingesting chunks\<close>

definition ingest_delta :: "string \<Rightarrow> stream_chunk \<Rightarrow> assembler \<Rightarrow> assembler" where
  "ingest_delta ty c ba = (case chunk_target ba c of
      KeyedDest i \<Rightarrow> update_active i (add_text (sc_text c)) ba
    | LegacyDest \<Rightarrow> ba\<lparr>ba_legacy := map_option (add_text (sc_text c)) (ba_legacy ba)\<rparr>
    | NoDest \<Rightarrow>
        if sc_block_id c \<noteq> [] then open_block (sc_block_id c) (add_text (sc_text c) (block_of_type ty)) ba
        else (let b = (case ba_legacy ba of Some b \<Rightarrow> b | None \<Rightarrow> empty_block)
              in ba\<lparr>ba_legacy := Some (add_text (sc_text c) (set_type ty b))\<rparr>))"

definition ingest_start :: "stream_chunk \<Rightarrow> assembler \<Rightarrow> assembler" where
  "ingest_start c ba =
     (if sc_block_id c \<noteq> [] then
        (if ba_active ba (sc_block_id c) = None then open_block (sc_block_id c) (started_block c) ba else ba)
      else (let ba' = (if ba_legacy ba \<noteq> None then commit_legacy ba
                       else if ba_open_order ba \<noteq> [] then commit_block (last (ba_open_order ba)) ba else ba)
            in ba'\<lparr>ba_legacy := Some (started_block c)\<rparr>))"

definition ingest_call :: "stream_chunk \<Rightarrow> assembler \<Rightarrow> assembler option" where
  "ingest_call c ba =
     (let f = add_call (sc_id c) (sc_name c) (sc_arguments c)
      in if sc_block_id c \<noteq> [] then
           (if ba_active ba (sc_block_id c) \<noteq> None then Some (update_active (sc_block_id c) f ba)
            else Some (open_block (sc_block_id c) (f (block_of_type ''tool-call'')) ba))
         else if ba_open_order ba \<noteq> [] then
           (if ba_active ba (last (ba_open_order ba)) = None then None
            else Some (update_active (last (ba_open_order ba)) f ba))
         else (let b = (case ba_legacy ba of Some b \<Rightarrow> b | None \<Rightarrow> block_of_type ''tool-call'')
               in Some (ba\<lparr>ba_legacy := Some (f b)\<rparr>)))"

definition ingest_end :: "stream_chunk \<Rightarrow> assembler \<Rightarrow> assembler" where
  "ingest_end c ba =
     (if sc_block_id c \<noteq> [] then
        (case (ba_active ba (sc_block_id c), sc_block c) of
           (None, Some b) \<Rightarrow> ba\<lparr>ba_blocks := ba_blocks ba @ [b]\<rparr>
         | _ \<Rightarrow> commit_block (sc_block_id c) ba)
      else (case sc_block c of
          Some b \<Rightarrow> ba\<lparr>ba_blocks := ba_blocks ba @ [b]\<rparr>
        | None \<Rightarrow> if ba_open_order ba \<noteq> [] then commit_block (last (ba_open_order ba)) ba else commit_legacy ba))"

text \<open>
  The flush of \<open>finish\<close> ranges over the slice \<open>openOrder\<close> as it was at the start, while
  \<open>commit\<close> shifts the same backing array to the left in place: \<open>arr\<close> is that array and \<open>k\<close>
  the index of the range.
\<close>

fun finish_loop :: "nat \<Rightarrow> nat \<Rightarrow> string list \<Rightarrow> assembler \<Rightarrow> assembler" where
  "finish_loop 0 k arr ba = ba"
| "finish_loop (Suc n) k arr ba =
     (let ba' = commit_block (arr ! k) ba;
          arr' = ba_open_order ba' @ drop (length (ba_open_order ba')) arr
      in finish_loop n (Suc k) arr' ba')"

definition ingest_finish :: "stream_chunk \<Rightarrow> assembler \<Rightarrow> assembler" where
  "ingest_finish c ba =
     (let ba1 = ba\<lparr>ba_finish := sc_finish c\<rparr>
      in commit_legacy (finish_loop (length (ba_open_order ba1)) 0 (ba_open_order ba1) ba1))"

definition ingest_chunk :: "stream_chunk \<Rightarrow> assembler \<Rightarrow> assembler option" where
  "ingest_chunk c ba =
     (if sc_type c = ChunkBlockStart then Some (ingest_start c ba)
      else if sc_type c = ChunkTextDelta then Some (ingest_delta ''text'' c ba)
      else if sc_type c = ChunkReasoningDelta then Some (ingest_delta ''reasoning'' c ba)
      else if sc_type c = ChunkToolCallDelta then ingest_call c ba
      else if sc_type c = ChunkBlockEnd then Some (ingest_end c ba)
      else if sc_type c = ChunkUsage then Some (if sc_usage c \<noteq> None then ba\<lparr>ba_usage := sc_usage c\<rparr> else ba)
      else if sc_type c = ChunkFinish then Some (ingest_finish c ba)
      else Some ba)"

fun ingest_all :: "stream_chunk list \<Rightarrow> assembler \<Rightarrow> assembler option" where
  "ingest_all [] ba = Some ba"
| "ingest_all (c # cs) ba = Option.bind (ingest_chunk c ba) (ingest_all cs)"

definition assembler_result :: "assembler \<Rightarrow> content_block list \<times> token_usage option \<times> string" where
  "assembler_result ba = (ba_blocks ba, ba_usage ba, ba_finish ba)"

section \<open>The invariant: the order lists the open blocks\<close>

definition assembler_ok :: "assembler \<Rightarrow> bool" where
  "assembler_ok ba \<longleftrightarrow> distinct (ba_open_order ba) \<and> (\<forall>i. i \<in> set (ba_open_order ba) \<longleftrightarrow> ba_active ba i \<noteq> None)"

lemma delete_first_distinct:
  "distinct xs \<Longrightarrow> distinct (delete_first (\<lambda>x. x = i) xs) \<and> set (delete_first (\<lambda>x. x = i) xs) = set xs - {i}"
  by (simp add: delete_first_eq_remove1)

lemma ok_open: "assembler_ok ba \<Longrightarrow> ba_active ba i = None \<Longrightarrow> assembler_ok (open_block i b ba)"
  by (auto simp: assembler_ok_def open_block_def)

lemma ok_commit: "assembler_ok ba \<Longrightarrow> assembler_ok (commit_block i ba)"
  using delete_first_distinct [of "ba_open_order ba" i]
  by (auto simp: assembler_ok_def commit_block_def split: option.splits)

lemma ok_update: "assembler_ok ba \<Longrightarrow> assembler_ok (update_active i f ba)"
  by (auto simp: assembler_ok_def update_active_def)

lemma ok_frame [simp]:
  "assembler_ok (ba\<lparr>ba_legacy := l\<rparr>) = assembler_ok ba" "assembler_ok (ba\<lparr>ba_blocks := bs\<rparr>) = assembler_ok ba"
  "assembler_ok (ba\<lparr>ba_usage := u\<rparr>) = assembler_ok ba" "assembler_ok (ba\<lparr>ba_finish := f\<rparr>) = assembler_ok ba"
  "assembler_ok (commit_legacy ba) = assembler_ok ba"
  by (simp_all add: assembler_ok_def commit_legacy_def split: option.split)

lemma ok_finish_loop: "assembler_ok ba \<Longrightarrow> assembler_ok (finish_loop n k arr ba)"
  by (induction n arbitrary: k arr ba) (auto simp: Let_def ok_commit)

lemma ok_last: "assembler_ok ba \<Longrightarrow> ba_open_order ba \<noteq> [] \<Longrightarrow> ba_active ba (last (ba_open_order ba)) \<noteq> None"
  by (metis assembler_ok_def last_in_set)

lemma ok_ingest:
  assumes "assembler_ok ba"
  shows "\<exists>ba'. ingest_chunk c ba = Some ba' \<and> assembler_ok ba'"
proof -
  have "assembler_ok (ingest_start c ba)"
    using assms by (auto simp: ingest_start_def Let_def intro: ok_open ok_commit)
  moreover have "assembler_ok (ingest_delta ty c ba)" for ty
    using assms ok_last [OF assms]
    by (auto simp: ingest_delta_def chunk_target_def Let_def intro: ok_update ok_open split: option.split)
  moreover have "\<exists>ba'. ingest_call c ba = Some ba' \<and> assembler_ok ba'"
    using assms ok_last [OF assms] by (auto simp: ingest_call_def Let_def intro: ok_update ok_open)
  moreover have "assembler_ok (ingest_end c ba)"
    using assms by (auto simp: ingest_end_def intro: ok_commit split: option.split)
  moreover have "assembler_ok (ingest_finish c ba)"
    using assms by (simp add: ingest_finish_def Let_def ok_finish_loop)
  ultimately show ?thesis using assms by (auto simp: ingest_chunk_def)
qed

lemma ok_new: "assembler_ok new_assembler"
  by (simp add: assembler_ok_def new_assembler_def)

lemma ok_ingest_all: "assembler_ok ba \<Longrightarrow> \<exists>ba'. ingest_all cs ba = Some ba' \<and> assembler_ok ba'"
proof (induction cs arbitrary: ba)
  case (Cons c cs)
  from ok_ingest [OF Cons.prems, of c] obtain ba1 where "ingest_chunk c ba = Some ba1" "assembler_ok ba1" by blast
  with Cons.IH [of ba1] show ?case by simp
qed simp

section \<open>Interleaving\<close>

text \<open>Chunks that carry a block id, other than a finish.\<close>

definition keyed_chunk :: "stream_chunk \<Rightarrow> bool" where
  "keyed_chunk c \<longleftrightarrow> sc_block_id c \<noteq> [] \<and> sc_type c \<noteq> ChunkFinish"

text \<open>What a keyed chunk does to its own block.\<close>

definition block_step :: "stream_chunk \<Rightarrow> content_block option \<Rightarrow> content_block option" where
  "block_step c ob =
     (if sc_type c = ChunkBlockStart then (case ob of None \<Rightarrow> Some (started_block c) | Some b \<Rightarrow> Some b)
      else if sc_type c = ChunkTextDelta
      then Some (add_text (sc_text c) (case ob of None \<Rightarrow> block_of_type ''text'' | Some b \<Rightarrow> b))
      else if sc_type c = ChunkReasoningDelta
      then Some (add_text (sc_text c) (case ob of None \<Rightarrow> block_of_type ''reasoning'' | Some b \<Rightarrow> b))
      else if sc_type c = ChunkToolCallDelta
      then Some (add_call (sc_id c) (sc_name c) (sc_arguments c)
        (case ob of None \<Rightarrow> block_of_type ''tool-call'' | Some b \<Rightarrow> b))
      else if sc_type c = ChunkBlockEnd then None
      else ob)"

lemma keyed_ingest:
  assumes "keyed_chunk c" and "ingest_chunk c ba = Some ba'"
  shows "ba_active ba' = (ba_active ba)(sc_block_id c := block_step c (ba_active ba (sc_block_id c))) \<and>
    ba_legacy ba' = ba_legacy ba \<and>
    ba_blocks ba' = ba_blocks ba @ (if sc_type c = ChunkBlockEnd then
      (case ba_active ba (sc_block_id c) of Some b \<Rightarrow> [b] | None \<Rightarrow> (case sc_block c of Some b \<Rightarrow> [b] | None \<Rightarrow> [])) else [])"
proof (cases "ba_active ba (sc_block_id c)")
  case None
  with assms show ?thesis
    by (auto simp: keyed_chunk_def ingest_chunk_def ingest_start_def ingest_delta_def chunk_target_def ingest_call_def
        ingest_end_def commit_block_def open_block_def block_step_def Let_def fun_upd_idem split: if_splits option.splits)
next
  case (Some b)
  with assms show ?thesis
    by (auto simp: keyed_chunk_def ingest_chunk_def ingest_start_def ingest_delta_def chunk_target_def ingest_call_def
        ingest_end_def commit_block_def update_active_def block_step_def Let_def fun_upd_idem split: if_splits option.splits)
qed

lemma keyed_ingest_all:
  assumes "\<forall>c\<in>set cs. keyed_chunk c" and "ingest_all cs ba = Some ba'"
  shows "ba_active ba' i = fold block_step (filter (\<lambda>c. sc_block_id c = i) cs) (ba_active ba i) \<and>
    ba_legacy ba' = ba_legacy ba"
  using assms
proof (induction cs arbitrary: ba)
  case (Cons c cs)
  then obtain ba1 where s: "ingest_chunk c ba = Some ba1" "ingest_all cs ba1 = Some ba'"
    by (cases "ingest_chunk c ba") auto
  from Cons.prems(1) have k: "keyed_chunk c" by simp
  from keyed_ingest [OF k s(1)] Cons.IH [OF _ s(2)] Cons.prems(1) show ?case by (cases "sc_block_id c = i") auto
qed simp

section \<open>Flushing\<close>

definition open_blocks :: "assembler \<Rightarrow> content_block list" where
  "open_blocks ba = List.map_filter (ba_active ba) (ba_open_order ba)"

lemma finish_flush_two:
  assumes "assembler_ok ba" and "length (ba_open_order ba) \<le> 2" and "sc_type c = ChunkFinish"
  obtains ba' where "ingest_chunk c ba = Some ba'" "ba_open_order ba' = []" "ba_legacy ba' = None"
    "ba_blocks ba' = ba_blocks ba @ open_blocks ba @ (case ba_legacy ba of None \<Rightarrow> [] | Some b \<Rightarrow> [b])"
    "ba_finish ba' = sc_finish c"
proof -
  from assms(2) consider "ba_open_order ba = []" | i where "ba_open_order ba = [i]"
    | i j where "ba_open_order ba = [i, j]"
    by (cases "ba_open_order ba"; cases "tl (ba_open_order ba)") auto
  then have "ba_open_order (ingest_finish c ba) = [] \<and> ba_legacy (ingest_finish c ba) = None \<and>
    ba_blocks (ingest_finish c ba) = ba_blocks ba @ open_blocks ba @ (case ba_legacy ba of None \<Rightarrow> [] | Some b \<Rightarrow> [b]) \<and>
    ba_finish (ingest_finish c ba) = sc_finish c"
  proof cases
    case 1
    then show ?thesis by (simp add: ingest_finish_def commit_legacy_def open_blocks_def Let_def map_filter_simps split: option.split)
  next
    case 2
    with assms(1) obtain b where "ba_active ba i = Some b" by (auto simp: assembler_ok_def)
    with 2 show ?thesis
      by (simp add: ingest_finish_def commit_legacy_def commit_block_def open_blocks_def Let_def map_filter_simps split: option.split)
  next
    case 3
    have "ba_active ba i \<noteq> None" "ba_active ba j \<noteq> None" "i \<noteq> j"
      using assms(1) unfolding assembler_ok_def 3 by (meson list.set_intros, meson list.set_intros, simp)
    then obtain b d where "ba_active ba i = Some b" "ba_active ba j = Some d" "i \<noteq> j" by blast
    with 3 show ?thesis
      by (simp add: ingest_finish_def commit_legacy_def commit_block_def open_blocks_def Let_def map_filter_simps
          numeral_2_eq_2 split: option.split)
  qed
  with assms(3) show thesis using that [of "ingest_finish c ba"] by (simp add: ingest_chunk_def)
qed

end
