(* ===== verification/Stream_Properties.thy ===== *)
theory Stream_Properties imports Block_Assembler Compaction begin

text \<open>
  What the block assembler guarantees, and the language-model summarizer of the compaction
  package (\<open>LlmSummarizer\<close> in \<open>pkg/compaction/meter.go\<close>) that runs on it.
\<close>

section \<open>The summarizer\<close>

text \<open>
  What its loop receives, in order: an error (nil or not), a chunk, the end of the chunk
  channel with an error that may be buffered, or the cancelled context.
\<close>

datatype stream_event =
    ErrEvent "compaction_error option"
  | ChunkEvent stream_chunk
  | ChunksClosed "compaction_error option"
  | CtxDone compaction_error

text \<open>\<open>None\<close>: the events ran out and the loop still waits.\<close>

fun receive_loop :: "stream_event list \<Rightarrow> assembler \<Rightarrow> (compaction_error + assembler) option" where
  "receive_loop [] ba = None"
| "receive_loop (ErrEvent (Some err) # evs) ba = Some (Inl err)"
| "receive_loop (ErrEvent None # evs) ba = receive_loop evs ba"
| "receive_loop (ChunkEvent c # evs) ba = (case ingest_chunk c ba of
     None \<Rightarrow> Some (Inl CompactionPanic) | Some ba' \<Rightarrow> receive_loop evs ba')"
| "receive_loop (ChunksClosed (Some err) # evs) ba = Some (Inl err)"
| "receive_loop (ChunksClosed None # evs) ba = Some (Inr ba)"
| "receive_loop (CtxDone err # evs) ba = Some (Inl err)"

definition finish_summary :: "assembler \<Rightarrow> compaction_error + summary_result" where
  "finish_summary ba =
     (case assembler_result ba of (blocks, usage, finish) \<Rightarrow>
        if finish = ''error'' \<or> finish = ''aborted''
        then Inl (ForeignError (''summarization finished with reason '' @ finish))
        else (let summary = filter (\<lambda>b. cb_type b = ''text'') blocks
              in if summary = [] then Inl (ForeignError ''summarization produced no text summary content'')
                 else Inr \<lparr>sr_summary = summary, sr_usage = usage, sr_raw_output = blocks, sr_llm_stream_call = True\<rparr>))"

text \<open>\<open>None\<close> for the stream stands for a missing adapter.\<close>

definition llm_summarize ::
  "(model_message list \<Rightarrow> stream_event list) option \<Rightarrow> string \<Rightarrow> model_message list \<Rightarrow> (compaction_error + summary_result) option" where
  "llm_summarize stream instruction messages = (case stream of
      None \<Rightarrow> Some (Inl (ForeignError ''llm summarizer requires an adapter''))
    | Some adapter \<Rightarrow>
        map_option (\<lambda>r. and_then r finish_summary)
          (receive_loop (adapter (messages @ [\<lparr>mm_role = ''user'', mm_content = [text_block instruction]\<rparr>])) new_assembler))"

definition ends_stream :: "stream_event \<Rightarrow> bool" where
  "ends_stream e = (case e of ErrEvent (Some _) \<Rightarrow> True | ChunksClosed _ \<Rightarrow> True | CtxDone _ \<Rightarrow> True | _ \<Rightarrow> False)"

lemma receive_loop_ends:
  "assembler_ok ba \<Longrightarrow> receive_loop evs ba \<noteq> None \<longleftrightarrow> (\<exists>e\<in>set evs. ends_stream e)"
proof (induction evs ba rule: receive_loop.induct)
  case (4 c evs ba)
  from ok_ingest [OF 4(2), of c] obtain ba' where "ingest_chunk c ba = Some ba'" "assembler_ok ba'" by blast
  with 4 show ?case by (simp add: ends_stream_def)
qed (auto simp: ends_stream_def)

lemma receive_loop_no_panic:
  "assembler_ok ba \<Longrightarrow> receive_loop evs ba = Some (Inl CompactionPanic) \<Longrightarrow>
     \<exists>e\<in>set evs. e \<in> {ErrEvent (Some CompactionPanic), ChunksClosed (Some CompactionPanic), CtxDone CompactionPanic}"
proof (induction evs ba rule: receive_loop.induct)
  case (4 c evs ba)
  from ok_ingest [OF 4(2), of c] obtain ba' where "ingest_chunk c ba = Some ba'" "assembler_ok ba'" by blast
  with 4 show ?case by simp
qed auto

section \<open>A concrete stream\<close>

definition chunk :: "string \<Rightarrow> string \<Rightarrow> string \<Rightarrow> stream_chunk" where
  "chunk ty i tx = \<lparr>sc_type = ty, sc_index = 0, sc_block_type = ''text'', sc_block_id = i, sc_text = tx, sc_id = [], sc_name = [],
     sc_arguments = [], sc_block = None, sc_usage = None, sc_finish = ''stop''\<rparr>"

definition sample_stream :: "stream_chunk list" where
  "sample_stream = [chunk ChunkTextDelta ''a'' ''x'', chunk ChunkTextDelta ''b'' ''1'', chunk ChunkTextDelta ''a'' ''y'']"

section \<open>Properties\<close>

text \<open>
  C14. The assembler never dereferences nil, whatever the chunks: from the empty assembler every
  stream is folded, and afterwards the open order lists exactly the open blocks, once each.
\<close>
theorem assembler_total:
  "\<exists>ba. ingest_all cs new_assembler = Some ba \<and> distinct (ba_open_order ba) \<and>
     set (ba_open_order ba) = dom (ba_active ba)"
  using ok_ingest_all [OF ok_new, of cs] by (auto simp: assembler_ok_def dom_def)

text \<open>
  Interleaving. In a stream whose chunks carry block ids and do not finish, the open block of an
  id is what its own chunks make of it, in their order, whatever chunks of other blocks come
  between; ending it appends exactly that block to the result.
\<close>
theorem interleaved_blocks_independent:
  assumes "\<forall>c\<in>set cs. keyed_chunk c" and "ingest_all cs new_assembler = Some ba"
    and "keyed_chunk stop" and "sc_type stop = ChunkBlockEnd" and "ingest_chunk stop ba = Some ba'"
    and "ba_active ba (sc_block_id stop) = Some b"
  shows "Some b = fold block_step (filter (\<lambda>c. sc_block_id c = sc_block_id stop) cs) None \<and>
    ba_blocks ba' = ba_blocks ba @ [b] \<and> ba_active ba' = (ba_active ba)(sc_block_id stop := None)"
proof -
  have e: "fold block_step (filter (\<lambda>c. sc_block_id c = sc_block_id stop) cs) None = Some b"
    using keyed_ingest_all [OF assms(1,2), of "sc_block_id stop"] assms(6) by (simp add: new_assembler_def)
  have "ba_blocks ba' = ba_blocks ba @ [b] \<and> ba_active ba' = (ba_active ba)(sc_block_id stop := None)"
    using keyed_ingest [OF assms(3,5)] assms(4,6) by (simp add: block_step_def)
  with e show ?thesis by simp
qed

lemma interleaved_blocks_independent_witness:
  "\<exists>ba ba'. ingest_all sample_stream new_assembler = Some ba \<and> ingest_chunk (chunk ChunkBlockEnd ''a'' []) ba = Some ba' \<and>
     ba_blocks ba' = [text_block ''xy'']"
proof -
  have k: "\<forall>c\<in>set sample_stream. keyed_chunk c" by (simp add: sample_stream_def chunk_def keyed_chunk_def)
  obtain ba where ba: "ingest_all sample_stream new_assembler = Some ba" "assembler_ok ba"
    using ok_ingest_all [OF ok_new] by blast
  obtain ba' where ba': "ingest_chunk (chunk ChunkBlockEnd ''a'' []) ba = Some ba'" using ok_ingest [OF ba(2)] by blast
  have act: "ba_active ba ''a'' = Some (text_block ''xy'')" and bl: "ba_blocks ba = []"
    using ba(1)
    by (auto simp: sample_stream_def chunk_def new_assembler_def ingest_chunk_def ingest_delta_def chunk_target_def
        open_block_def update_active_def block_of_type_def text_block_def)
  have e: "keyed_chunk (chunk ChunkBlockEnd ''a'' [])" "sc_type (chunk ChunkBlockEnd ''a'' []) = ChunkBlockEnd"
    "sc_block_id (chunk ChunkBlockEnd ''a'' []) = ''a''" by (simp_all add: chunk_def keyed_chunk_def)
  from interleaved_blocks_independent [OF k ba(1) e(1,2) ba', unfolded e(3), OF act] ba(1) ba' bl show ?thesis by auto
qed

text \<open>
  Flushing. When the stream finishes with at most two blocks open, every open block is committed in
  opening order, then the anonymous one, and nothing stays open.
\<close>
theorem finish_flushes:
  assumes "ingest_all cs new_assembler = Some ba" and "length (ba_open_order ba) \<le> 2" and "sc_type c = ChunkFinish"
    and "ingest_chunk c ba = Some ba'"
  shows "ba_blocks ba' = ba_blocks ba @ List.map_filter (ba_active ba) (ba_open_order ba) @
      (case ba_legacy ba of None \<Rightarrow> [] | Some b \<Rightarrow> [b]) \<and>
    ba_open_order ba' = [] \<and> ba_legacy ba' = None \<and> ba_finish ba' = sc_finish c"
proof -
  from ok_ingest_all [OF ok_new, of cs] assms(1) have "assembler_ok ba" by simp
  from finish_flush_two [OF this assms(2,3)] assms(4) show ?thesis by (auto simp: open_blocks_def)
qed

lemma finish_flushes_witness:
  "\<exists>ba ba'. ingest_all sample_stream new_assembler = Some ba \<and> ingest_chunk (chunk ChunkFinish [] []) ba = Some ba' \<and>
     ba_blocks ba' = [text_block ''xy'', text_block ''1'']"
proof -
  obtain ba where ba: "ingest_all sample_stream new_assembler = Some ba" "assembler_ok ba"
    using ok_ingest_all [OF ok_new] by blast
  obtain ba' where ba': "ingest_chunk (chunk ChunkFinish [] []) ba = Some ba'" using ok_ingest [OF ba(2)] by blast
  have "ba_open_order ba = [''a'', ''b'']" "ba_active ba ''a'' = Some (text_block ''xy'')"
    "ba_active ba ''b'' = Some (text_block ''1'')" "ba_blocks ba = []" "ba_legacy ba = None"
    using ba(1)
    by (auto simp: sample_stream_def chunk_def new_assembler_def ingest_chunk_def ingest_delta_def chunk_target_def
        open_block_def update_active_def block_of_type_def text_block_def)
  with finish_flushes [OF ba(1) _ _ ba'] ba(1) ba' show ?thesis by (simp add: chunk_def map_filter_simps)
qed

text \<open>With three open blocks the second one is lost: the range skips it as the array shifts.\<close>

lemma finish_loses_block:
  "map_option ba_blocks (ingest_all [chunk ChunkTextDelta ''a'' ''1'', chunk ChunkTextDelta ''b'' ''2'',
     chunk ChunkTextDelta ''c'' ''3'', chunk ChunkFinish [] []] new_assembler) = Some [text_block ''1'', text_block ''3'']"
  by (simp add: chunk_def new_assembler_def ingest_chunk_def ingest_delta_def chunk_target_def open_block_def
      block_of_type_def text_block_def ingest_finish_def commit_block_def commit_legacy_def Let_def numeral_3_eq_3)

text \<open>
  The language-model summarizer returns exactly when its stream ends (an error, the end of the
  chunks or a cancelled context); it never fails on a nil block, and a summary it returns is the
  non-empty list of the text blocks of its raw output, from a stream that did not finish with
  an error or an abort.
\<close>
theorem summarizer_contract:
  "(llm_summarize (Some adapter) instruction messages = None \<longleftrightarrow>
      \<not> list_ex ends_stream (adapter (messages @ [\<lparr>mm_role = ''user'', mm_content = [text_block instruction]\<rparr>]))) \<and>
   (case llm_summarize (Some adapter) instruction messages of
      Some (Inr sr) \<Rightarrow> sr_summary sr = filter (\<lambda>b. cb_type b = ''text'') (sr_raw_output sr) \<and> sr_summary sr \<noteq> [] \<and>
        sr_llm_stream_call sr
    | Some (Inl CompactionPanic) \<Rightarrow>
        list_ex (\<lambda>e. e \<in> {ErrEvent (Some CompactionPanic), ChunksClosed (Some CompactionPanic), CtxDone CompactionPanic})
          (adapter (messages @ [\<lparr>mm_role = ''user'', mm_content = [text_block instruction]\<rparr>]))
    | _ \<Rightarrow> True)"
proof -
  let ?evs = "adapter (messages @ [\<lparr>mm_role = ''user'', mm_content = [text_block instruction]\<rparr>])"
  have run: "llm_summarize (Some adapter) instruction messages =
      map_option (\<lambda>r. and_then r finish_summary) (receive_loop ?evs new_assembler)"
    by (simp add: llm_summarize_def)
  note ends = receive_loop_ends [OF ok_new, of ?evs] and pan = receive_loop_no_panic [OF ok_new, of ?evs]
  have fin: "finish_summary ba \<noteq> Inl CompactionPanic" for ba
    by (simp add: finish_summary_def Let_def split: prod.split)
  have ok: "sr_summary sr = filter (\<lambda>b. cb_type b = ''text'') (sr_raw_output sr) \<and> sr_summary sr \<noteq> [] \<and> sr_llm_stream_call sr"
    if "finish_summary ba = Inr sr" for ba sr
    using that by (auto simp: finish_summary_def Let_def split: prod.splits if_splits)
  show ?thesis
  proof (cases "receive_loop ?evs new_assembler")
    case None
    with run ends show ?thesis by (simp add: list_ex_iff)
  next
    case (Some res)
    show ?thesis
    proof (cases res)
      case (Inl err)
      with run ends pan Some show ?thesis by (cases err) (auto simp: list_ex_iff)
    next
      case (Inr ba)
      with run ends Some ok [of ba] fin [of ba] show ?thesis
        by (cases "finish_summary ba") (auto simp: list_ex_iff split: compaction_error.split)
    qed
  qed
qed

end
