(* ===== verification/Go_Strings.thy ===== *)
theory Go_Strings imports Prelude begin

text \<open>
  The functions of Go's \<open>strings\<close> and \<open>strconv\<close> packages the components share.  Strings are lists of
  bytes of valid UTF-8.
\<close>

section \<open>Prefixes, searching, splitting\<close>

abbreviation "newline \<equiv> CHR 0x0A"

definition has_prefix :: "string \<Rightarrow> string \<Rightarrow> bool" where
  "has_prefix s p \<longleftrightarrow> take (length p) s = p"

definition trim_prefix :: "string \<Rightarrow> string \<Rightarrow> string" where
  "trim_prefix s p = (if has_prefix s p then drop (length p) s else s)"

fun index_of :: "string \<Rightarrow> string \<Rightarrow> nat option" where
  "index_of [] p = (if p = [] then Some 0 else None)"
| "index_of (c # s) p = (if has_prefix (c # s) p then Some 0 else map_option Suc (index_of s p))"

fun split_on :: "char \<Rightarrow> string \<Rightarrow> string list" where
  "split_on d [] = [[]]"
| "split_on d (c # cs) = (if c = d then [] # split_on d cs
     else (case split_on d cs of [] \<Rightarrow> [[c]] | w # ws \<Rightarrow> (c # w) # ws))"

lemma split_on_ne: "split_on d s \<noteq> []"
  by (cases s) (auto split: list.splits)

lemma has_prefix_append: "has_prefix s p \<Longrightarrow> has_prefix (s @ t) p"
proof -
  assume p: "has_prefix s p"
  then have "length p \<le> length s" unfolding has_prefix_def by (metis length_take min.cobounded1)
  with p show ?thesis by (simp add: has_prefix_def)
qed

section \<open>White space\<close>

text \<open>The UTF-8 encodings of the runes of \<open>unicode.IsSpace\<close>.\<close>

definition space_codes :: "string list" where
  "space_codes = [[CHR '' ''], [CHR 0x09], [CHR 0x0A], [CHR 0x0B], [CHR 0x0C], [CHR 0x0D],
     [CHR 0xC2, CHR 0x85], [CHR 0xC2, CHR 0xA0], [CHR 0xE1, CHR 0x9A, CHR 0x80],
     [CHR 0xE2, CHR 0x80, CHR 0x80], [CHR 0xE2, CHR 0x80, CHR 0x81], [CHR 0xE2, CHR 0x80, CHR 0x82],
     [CHR 0xE2, CHR 0x80, CHR 0x83], [CHR 0xE2, CHR 0x80, CHR 0x84], [CHR 0xE2, CHR 0x80, CHR 0x85],
     [CHR 0xE2, CHR 0x80, CHR 0x86], [CHR 0xE2, CHR 0x80, CHR 0x87], [CHR 0xE2, CHR 0x80, CHR 0x88],
     [CHR 0xE2, CHR 0x80, CHR 0x89], [CHR 0xE2, CHR 0x80, CHR 0x8A], [CHR 0xE2, CHR 0x80, CHR 0xA8],
     [CHR 0xE2, CHR 0x80, CHR 0xA9], [CHR 0xE2, CHR 0x80, CHR 0xAF], [CHR 0xE2, CHR 0x81, CHR 0x9F],
     [CHR 0xE3, CHR 0x80, CHR 0x80]]"

definition leading_code :: "string list \<Rightarrow> string \<Rightarrow> string option" where
  "leading_code codes s = find (\<lambda>w. w \<noteq> [] \<and> has_prefix s w) codes"

lemma leading_code_Some:
  "leading_code codes s = Some w \<Longrightarrow> w \<in> set codes \<and> w \<noteq> [] \<and> has_prefix s w"
  unfolding leading_code_def by (auto simp: find_Some_iff)

lemma leading_code_None:
  "leading_code codes s = None \<longleftrightarrow> (\<forall>w\<in>set codes. w \<noteq> [] \<longrightarrow> \<not> has_prefix s w)"
  by (auto simp: leading_code_def find_None_iff)

function trim_codes :: "string list \<Rightarrow> string \<Rightarrow> string" where
  "trim_codes codes s = (case leading_code codes s of None \<Rightarrow> s | Some w \<Rightarrow> trim_codes codes (drop (length w) s))"
  by pat_completeness auto
termination
proof (relation "measure (length \<circ> snd)")
  fix codes s w assume "leading_code codes s = Some w"
  then have "w \<noteq> []" "has_prefix s w" by (simp_all add: leading_code_Some)
  then have "s \<noteq> []" by (auto simp: has_prefix_def)
  with \<open>w \<noteq> []\<close> show "((codes, drop (length w) s), codes, s) \<in> measure (length \<circ> snd)" by simp
qed simp

declare trim_codes.simps [simp del]

definition trim_space :: "string \<Rightarrow> string" where
  "trim_space s = rev (trim_codes (map rev space_codes) (rev (trim_codes space_codes s)))"

lemma trim_codes_fixed: "leading_code codes (trim_codes codes s) = None"
  by (induction codes s rule: trim_codes.induct) (subst trim_codes.simps, simp split: option.split)

lemma trim_codes_idle: "leading_code codes s = None \<Longrightarrow> trim_codes codes s = s"
  by (simp add: trim_codes.simps)

lemma trim_codes_suffix: "\<exists>p. s = p @ trim_codes codes s"
proof (induction codes s rule: trim_codes.induct)
  case (1 codes s)
  show ?case
  proof (cases "leading_code codes s")
    case None
    then show ?thesis by (simp add: trim_codes_idle)
  next
    case (Some w)
    from 1 [OF Some] obtain p where "drop (length w) s = p @ trim_codes codes (drop (length w) s)" by blast
    then have "s = (take (length w) s @ p) @ trim_codes codes (drop (length w) s)"
      by (metis append_assoc append_take_drop_id)
    moreover have "trim_codes codes s = trim_codes codes (drop (length w) s)"
      using Some by (subst trim_codes.simps) simp
    ultimately show ?thesis by metis
  qed
qed

text \<open>Trimming once is enough.\<close>

lemma trim_space_idem: "trim_space (trim_space s) = trim_space s"
proof -
  let ?l = "trim_codes space_codes s"
  let ?r = "trim_codes (map rev space_codes) (rev ?l)"
  obtain p where "rev ?l = p @ ?r" using trim_codes_suffix by blast
  then have l: "?l = rev ?r @ rev p" by (metis rev_append rev_rev_ident)
  have "leading_code space_codes (rev ?r) = None"
    using trim_codes_fixed [of space_codes s] has_prefix_append [of "rev ?r" _ "rev p"]
    unfolding leading_code_None l [symmetric] by blast
  then have "trim_codes space_codes (rev ?r) = rev ?r" by (rule trim_codes_idle)
  then have "trim_space (trim_space s) = rev (trim_codes (map rev space_codes) ?r)"
    by (simp add: trim_space_def)
  also have "\<dots> = rev ?r" using trim_codes_idle [OF trim_codes_fixed] by simp
  finally show ?thesis by (simp add: trim_space_def)
qed

section \<open>Decimal numbers\<close>

definition digit_char :: "nat \<Rightarrow> char" where "digit_char n = char_of (48 + n)"

definition digit_value :: "char \<Rightarrow> nat option" where
  "digit_value c = (let n = of_char c :: nat in if 48 \<le> n \<and> n \<le> 57 then Some (n - 48) else None)"

fun decimal_loop :: "nat \<Rightarrow> nat \<Rightarrow> string" where
  "decimal_loop 0 n = []"
| "decimal_loop (Suc k) n = (if n < 10 then [] else decimal_loop k (n div 10)) @ [char_of (48 + n mod 10)]"

definition decimal :: "nat \<Rightarrow> string" where
  "decimal n = decimal_loop (Suc n) n"

text \<open>\<open>strconv.Itoa\<close>.\<close>

definition itoa :: "int \<Rightarrow> string" where
  "itoa i = (if i < 0 then CHR ''-'' # decimal (nat (- i)) else decimal (nat i))"

fun number_from :: "nat \<Rightarrow> string \<Rightarrow> nat option" where
  "number_from acc [] = Some acc"
| "number_from acc (c # cs) = (case digit_value c of None \<Rightarrow> None | Some d \<Rightarrow> number_from (10 * acc + d) cs)"

definition number :: "string \<Rightarrow> nat option" where
  "number s = (if s = [] then None else number_from 0 s)"

lemma digit_value_char [simp]: "d < 10 \<Longrightarrow> digit_value (digit_char d) = Some d"
  by (simp add: digit_value_def digit_char_def)

lemma number_from_snoc:
  "number_from acc (cs @ [c]) = (case number_from acc cs of None \<Rightarrow> None
     | Some n \<Rightarrow> map_option (\<lambda>d. 10 * n + d) (digit_value c))"
  by (induction cs arbitrary: acc) (auto split: option.splits)

lemma decimal_loop_number: "n < k \<Longrightarrow> number_from 0 (decimal_loop k n) = Some n"
proof (induction k arbitrary: n)
  case (Suc k)
  show ?case
  proof (cases "n < 10")
    case True
    then show ?thesis using digit_value_char [of n] by (simp add: digit_char_def)
  next
    case False
    with Suc.prems have "n div 10 < k" by simp
    with Suc.IH [of "n div 10"] False show ?thesis
      using digit_value_char [of "n mod 10"] by (simp add: number_from_snoc digit_char_def)
  qed
qed simp

lemma number_decimal: "number (decimal n) = Some n"
proof -
  have "decimal_loop (Suc n) n \<noteq> []" by simp
  with decimal_loop_number [of n "Suc n"] show ?thesis
    unfolding number_def decimal_def by (simp del: decimal_loop.simps)
qed

lemma decimal_inject [simp]: "decimal m = decimal n \<longleftrightarrow> m = n"
  using number_decimal [of m] number_decimal [of n] by (metis option.inject)

text \<open>Text that neither begins nor ends with the byte of a space is left alone.\<close>

lemma leading_code_hd: "c \<notin> set (map hd codes) \<Longrightarrow> leading_code codes (c # cs) = None"
  unfolding leading_code_None has_prefix_def
  by (metis image_eqI list.sel(1) list.set_map list.size(3) take_Cons' neq_Nil_conv length_0_conv)

lemma trim_space_word:
  assumes "c \<notin> set (map hd space_codes)" and "d \<notin> set (map (hd \<circ> rev) space_codes)"
  shows "trim_space (c # s @ [d]) = c # s @ [d]"
proof -
  have "trim_codes space_codes (c # s @ [d]) = c # s @ [d]"
    using assms(1) by (intro trim_codes_idle leading_code_hd)
  moreover have "trim_codes (map rev space_codes) (d # rev s @ [c]) = d # rev s @ [c]"
    using assms(2) by (intro trim_codes_idle leading_code_hd) simp
  ultimately show ?thesis by (simp add: trim_space_def)
qed

lemma digit_char_eq: "n < 10 \<Longrightarrow> digit_char n = c \<longleftrightarrow> digit_value c = Some n"
  by (auto simp: digit_value_def digit_char_def Let_def split: if_splits)

end
