(* ===== verification/Tool_Views.thy ===== *)
theory Tool_Views imports Message_Codec Go_Strings begin

text \<open>
  The rendering intents of tool calls and results (\<open>buildToolCallView\<close>, \<open>buildToolResultView\<close> and
  the diff reader below them in \<open>pkg/agent/loop.go\<close>), and how the views are marshalled.  Strings are
  lists of bytes of valid UTF-8.
\<close>

section \<open>Lines and runes\<close>

fun join_lines :: "string list \<Rightarrow> string" where
  "join_lines [] = []"
| "join_lines [l] = l"
| "join_lines (l # ls) = l @ [newline] @ join_lines ls"

definition split_lines :: "string \<Rightarrow> string list" where
  "split_lines s = (if s = [] then []
     else (let ls = split_on newline s in if last ls = [] then butlast ls else ls))"

text \<open>A rune is a byte with the continuation bytes after it.\<close>

definition continuation :: "char \<Rightarrow> bool" where
  "continuation c \<longleftrightarrow> 128 \<le> (of_char c :: nat) \<and> (of_char c :: nat) < 192"

fun runes :: "string \<Rightarrow> string list" where
  "runes [] = []"
| "runes (c # cs) = (case runes cs of
      [] \<Rightarrow> [[c]]
    | r # rs \<Rightarrow> (case r of d # _ \<Rightarrow> if continuation d then (c # r) # rs else [c] # r # rs | [] \<Rightarrow> [c] # rs))"

definition ellipsis :: string where "ellipsis = [CHR 0xE2, CHR 0x80, CHR 0xA6]"

section \<open>Caps\<close>

definition cap_lines :: "string list \<Rightarrow> nat \<Rightarrow> string list" where
  "cap_lines ls mx =
     (if mx = 0 \<or> length ls \<le> mx then ls
      else (let head = (if mx div 2 < 1 then 1 else mx div 2);
                tail = mx - head
            in take head ls @ [ellipsis @ '' '' @ decimal (length ls - mx) @ '' lines omitted '' @ ellipsis] @
               drop (length ls - tail) ls))"

definition cap_text :: "string \<Rightarrow> nat \<Rightarrow> string" where
  "cap_text s mx =
     (let rs = runes s
      in if mx = 0 \<or> length rs \<le> mx then s
         else concat (take (mx div 2) rs) @ [newline] @ ellipsis @ [newline] @ concat (drop (length rs - mx div 2) rs))"

section \<open>Diffs\<close>

fun diff_flags :: "string list \<Rightarrow> bool \<Rightarrow> bool \<Rightarrow> bool \<times> bool" where
  "diff_flags [] header hunk = (header, hunk)"
| "diff_flags (l # ls) header hunk =
     (if has_prefix l ''diff --git '' then diff_flags ls True hunk
      else diff_flags ls header (hunk \<or> has_prefix l ''@@ ''))"

definition looks_like_diff :: "string \<Rightarrow> bool" where
  "looks_like_diff s = (case diff_flags (split_lines s) False False of
     (header, hunk) \<Rightarrow> hunk \<or> (header \<and> index_of s ([newline] @ ''--- '') \<noteq> None))"

text \<open>The state of \<open>parseDiff\<close>: the hunks, the path of the current file, its old and new lines.\<close>

record diff_state =
  df_hunks :: "diff_hunk list"
  df_path :: string
  df_old :: "string list"
  df_new :: "string list"

definition diff_commit :: "diff_state \<Rightarrow> diff_state" where
  "diff_commit st =
     (if df_path st \<noteq> [] \<and> 0 < length (df_old st) + length (df_new st)
      then st\<lparr>df_hunks := df_hunks st @ [\<lparr>dh_path = df_path st, dh_old = join_lines (df_old st), dh_new = join_lines (df_new st)\<rparr>],
              df_old := [], df_new := []\<rparr>
      else st)"

definition diff_flush :: "diff_state \<Rightarrow> diff_state" where
  "diff_flush st = (diff_commit st)\<lparr>df_path := [], df_old := [], df_new := []\<rparr>"

definition diff_line :: "string \<Rightarrow> diff_state \<Rightarrow> diff_state" where
  "diff_line l st =
     (if has_prefix l ''diff --git '' then
        (case index_of l '' b/'' of
           Some i \<Rightarrow> if 0 < i then (diff_flush st)\<lparr>df_path := trim_space (drop (i + 3) l)\<rparr> else diff_flush st
         | None \<Rightarrow> diff_flush st)
      else if has_prefix l ''+++ '' then
        (if df_path st = [] then st\<lparr>df_path := trim_prefix (trim_space (trim_prefix l ''+++ '')) ''b/''\<rparr> else st)
      else if has_prefix l ''--- '' then
        (if df_path st = [] then st\<lparr>df_path := trim_prefix (trim_space (trim_prefix l ''--- '')) ''a/''\<rparr> else st)
      else if has_prefix l ''@@ '' then diff_commit st
      else if has_prefix l ''+'' then st\<lparr>df_new := df_new st @ [drop 1 l]\<rparr>
      else if has_prefix l ''-'' then st\<lparr>df_old := df_old st @ [drop 1 l]\<rparr>
      else if has_prefix l [CHR 0x5C] then st
      else st\<lparr>df_old := df_old st @ [l], df_new := df_new st @ [l]\<rparr>)"

definition parse_diff :: "string \<Rightarrow> diff_hunk list" where
  "parse_diff s = df_hunks (diff_flush (fold diff_line (split_lines s)
     \<lparr>df_hunks = [], df_path = [], df_old = [], df_new = []\<rparr>))"

section \<open>Views\<close>

definition command_tools :: "string list" where
  "command_tools = [''run_command'', ''bash_persistent'', ''bash_reset'', ''terminal_open'',
     ''terminal_send'', ''terminal_read'', ''terminal_list'', ''terminal_signal'',
     ''terminal_close'', ''job_output'', ''job_list'', ''job_kill'']"

definition is_command_tool :: "string \<Rightarrow> bool" where
  "is_command_tool name \<longleftrightarrow> name \<in> set command_tools"

definition skip_spill_tools :: "string list" where
  "skip_spill_tools = [''read_file'', ''read_image'', ''read'', ''terminal_open'', ''terminal_send'',
     ''terminal_read'', ''terminal_list'', ''terminal_signal'', ''terminal_close'', ''job_output'']"

definition skip_spill_for :: "string \<Rightarrow> bool" where
  "skip_spill_for name \<longleftrightarrow> name \<in> set skip_spill_tools"

text \<open>\<open>parse\<close> reads a JSON text (\<open>None\<close>: malformed).\<close>

definition looks_like_diff_call :: "(string \<Rightarrow> raw_message) \<Rightarrow> string \<Rightarrow> string \<Rightarrow> bool" where
  "looks_like_diff_call parse name args \<longleftrightarrow>
     name \<in> {''write_file'', ''replace_file_content''} \<and>
     (case unmarshal (\<lambda>kvs. Option.bind (dec_string ''path'' kvs) (\<lambda>_. dec_string ''content'' kvs)) (parse args) of
        None \<Rightarrow> False | Some content \<Rightarrow> content \<noteq> [])"

definition plain_view :: "string \<Rightarrow> tool_result_view" where
  "plain_view kind = \<lparr>rv_kind = kind, rv_diffs = [], rv_terminal = None, rv_text = []\<rparr>"

definition build_tool_call_view :: "(string \<Rightarrow> raw_message) \<Rightarrow> string \<Rightarrow> string \<Rightarrow> tool_result_view" where
  "build_tool_call_view parse name args =
     (if is_command_tool name then (plain_view ''terminal'')\<lparr>rv_terminal := Some \<lparr>tv_lines = [], tv_exit_code = 0\<rparr>\<rparr>
      else if looks_like_diff_call parse name args then plain_view ''diff''
      else plain_view ''text'')"

definition build_tool_result_view :: "string \<Rightarrow> string \<Rightarrow> bool \<Rightarrow> tool_result_view" where
  "build_tool_result_view name s is_err =
     (if s = [] then plain_view ''text''
      else if looks_like_diff s then (plain_view ''diff'')\<lparr>rv_diffs := parse_diff s\<rparr>
      else if is_command_tool name
      then (plain_view ''terminal'')\<lparr>rv_terminal := Some \<lparr>tv_lines = cap_lines (split_lines s) 240,
        tv_exit_code = (if is_err then 1 else 0)\<rparr>\<rparr>
      else (plain_view ''text'')\<lparr>rv_text := cap_text s 32768\<rparr>)"

text \<open>A nil slice of lines marshals as null.\<close>

definition enc_diff_hunk :: "diff_hunk \<Rightarrow> json" where
  "enc_diff_hunk h = JObj [(''path'', JStr (dh_path h)), (''old'', JStr (dh_old h)), (''new'', JStr (dh_new h))]"

definition enc_terminal_view :: "terminal_view \<Rightarrow> json" where
  "enc_terminal_view t = JObj [(''lines'', if tv_lines t = [] then JNull else JArr (map JStr (tv_lines t))),
     (''exitCode'', JInt (tv_exit_code t))]"

definition enc_tool_result_view :: "tool_result_view \<Rightarrow> json" where
  "enc_tool_result_view v = JObj ([(''kind'', JStr (rv_kind v))] @
     (if rv_diffs v = [] then [] else [(''diffs'', JArr (map enc_diff_hunk (rv_diffs v)))]) @
     (case rv_terminal v of None \<Rightarrow> [] | Some t \<Rightarrow> [(''terminal'', enc_terminal_view t)]) @
     opt_str ''text'' (rv_text v))"

section \<open>Lemmas\<close>

lemma join_split: "join_lines (split_on newline s) = s"
proof (induction s)
  case (Cons c s)
  obtain w ws where sp: "split_on newline s = w # ws" using split_on_ne by (metis neq_Nil_conv)
  with Cons show ?case by (cases ws) auto
qed simp

lemma split_lines_join:
  "s \<noteq> [] \<Longrightarrow> s = join_lines (split_lines s) \<or> s = join_lines (split_lines s) @ [newline] \<or> split_lines s = []"
proof -
  assume "s \<noteq> []"
  have app: "ls \<noteq> [] \<Longrightarrow> join_lines (ls @ [[]]) = join_lines ls @ [newline]" for ls
    by (induction ls rule: join_lines.induct) auto
  obtain ls where ls: "split_on newline s = ls" by blast
  with split_on_ne join_split [of s] have "ls \<noteq> []" "join_lines ls = s" by auto
  then show ?thesis
    using \<open>s \<noteq> []\<close> ls app [of "butlast ls"] append_butlast_last_id [of ls]
    by (cases "last ls = []") (auto simp: split_lines_def Let_def)
qed

lemma cap_lines_length: "length (cap_lines ls mx) \<le> (if mx = 0 then length ls else Suc mx)"
  by (auto simp: cap_lines_def Let_def)

lemma concat_runes: "concat (runes s) = s"
  by (induction s) (auto split: list.split if_splits)

end
