(* ===== verification/Llm_Retry.thy ===== *)
theory Llm_Retry imports Block_Assembler begin

text \<open>
  The retry policy of a model request (\<open>llmRetry\<close> in \<open>pkg/agent/loop.go\<close>): how an adapter error is
  classified, how long to wait, and the loop of attempts.  An attempt is what the goroutine
  observes of one adapter stream; the result is the list of what it does, in order: a chunk
  sent on, an event emitted, the terminal error.
\<close>

section \<open>Errors of an adapter\<close>

text \<open>
  \<open>ProviderFailure\<close> is \<open>*llm.ProviderError\<close> with code, message and the requested delay in
  nanoseconds; \<open>StreamSentinel\<close> an error that wraps \<open>ErrDeepSeekWatchdog\<close> or \<open>ErrDeepSeekStream\<close>.
\<close>

datatype llm_error = ProviderFailure string string int | StreamSentinel string | PlainError string

definition error_text :: "llm_error \<Rightarrow> string" where
  "error_text e = (case e of
      ProviderFailure code msg _ \<Rightarrow> ''deepseek: '' @ msg @ '' ('' @ code @ '')''
    | StreamSentinel msg \<Rightarrow> msg
    | PlainError msg \<Rightarrow> msg)"

record retry_failure =
  rf_message :: string
  rf_code :: string
  rf_retry_after_ms :: int

definition classify_llm_error :: "llm_error \<Rightarrow> retry_failure option" where
  "classify_llm_error e = (case e of
      ProviderFailure code msg after \<Rightarrow>
        if code \<in> {''RATE_LIMIT'', ''SERVER'', ''TIMEOUT'', ''TRANSPORT''}
        then Some \<lparr>rf_message = msg, rf_code = code, rf_retry_after_ms = go_div after 1000000\<rparr> else None
    | StreamSentinel msg \<Rightarrow> Some \<lparr>rf_message = error_text e, rf_code = ''TRANSPORT'', rf_retry_after_ms = 0\<rparr>
    | PlainError _ \<Rightarrow> None)"

definition retryable_codes :: "string list" where
  "retryable_codes = [''RATE_LIMIT'', ''SERVER'', ''TIMEOUT'', ''TRANSPORT'', ''EMPTY_RESPONSE'']"

definition is_retryable_code :: "string \<Rightarrow> bool" where
  "is_retryable_code code \<longleftrightarrow> code \<in> set retryable_codes"

definition failure_code :: "retry_failure option \<Rightarrow> string" where
  "failure_code f = (case f of None \<Rightarrow> ''UNKNOWN'' | Some f \<Rightarrow> rf_code f)"

definition classify_provider_code :: "llm_error \<Rightarrow> string" where
  "classify_provider_code e = (case e of
      ProviderFailure code _ _ \<Rightarrow> (if code \<noteq> [] then code else ''UNKNOWN'') | _ \<Rightarrow> ''UNKNOWN'')"

section \<open>Delays\<close>

text \<open>In nanoseconds.\<close>

definition retry_initial :: int where "retry_initial = 500 * 1000000"
definition retry_cap :: int where "retry_cap = 10000 * 1000000"
definition retry_max :: int where "retry_max = 5"

text \<open>
  \<open>draw\<close> is the integer below \<open>2\<^sup>5\<^sup>3\<close> that \<open>rand.Float64\<close> divides by \<open>2\<^sup>5\<^sup>3\<close>; the scaling with the
  jitter ratio of one tenth is exact here, without the rounding of \<open>float64\<close>.
\<close>

definition float_unit :: int where "float_unit = 9007199254740992"

definition backoff_delay :: "int \<Rightarrow> int \<Rightarrow> int \<Rightarrow> int \<Rightarrow> int" where
  "backoff_delay initial cap draw retry =
     (let retry' = (if retry < 1 then 1 else retry);
          e = (if 10 < retry' - 1 then 10 else retry' - 1);
          doubled = ((*) 2 ^^ nat e) initial;
          base = (if cap < doubled then cap else doubled);
          d = base * (9 * float_unit + 2 * draw) div (10 * float_unit)
      in if cap < d then cap else d)"

definition retry_delay :: "retry_failure \<Rightarrow> int \<Rightarrow> int \<Rightarrow> int" where
  "retry_delay f draw attempt =
     (if 0 < rf_retry_after_ms f then
        (let p = rf_retry_after_ms f * 1000000 in if retry_cap < p then retry_cap else p)
      else backoff_delay retry_initial retry_cap draw (attempt + 1))"

section \<open>One attempt\<close>

text \<open>
  What the inner select sees: the context cancelled; a chunk, with whether the send to the
  caller won over the context; the chunk channel closed, with whether the context was
  cancelled by then and the error found buffered; a value of the error channel (\<open>None\<close>: closed or nil).
\<close>

datatype attempt_obs =
    ObsCancelled
  | ObsChunk stream_chunk bool
  | ObsClosed bool "llm_error option"
  | ObsError "llm_error option"

datatype attempt_end = EndCancelled | EndClean | EndError llm_error | EndOpen

fun attempt_loop :: "attempt_obs list \<Rightarrow> stream_chunk list \<times> attempt_end" where
  "attempt_loop [] = ([], EndOpen)"
| "attempt_loop (ObsCancelled # os) = ([], EndCancelled)"
| "attempt_loop (ObsChunk c sent # os) =
     (if sent then (case attempt_loop os of (cs, r) \<Rightarrow> (c # cs, r)) else ([], EndCancelled))"
| "attempt_loop (ObsClosed cancelled drained # os) =
     (if cancelled then ([], EndCancelled)
      else ([], case drained of Some e \<Rightarrow> EndError e | None \<Rightarrow> EndClean))"
| "attempt_loop (ObsError (Some e) # os) = ([], EndError e)"
| "attempt_loop (ObsError None # os) = attempt_loop os"

section \<open>The loop of attempts\<close>

abbreviation "EventLlmRetry \<equiv> ''llm/retry''"
abbreviation "EventLlmRetryStarted \<equiv> ''llm/retry-started''"

datatype retry_action = SendChunk stream_chunk | EmitAction string json | SendError llm_error

text \<open>An attempt: is there an adapter, its stream, the random draw, and whether a wait runs its course.\<close>

record attempt =
  at_adapter :: bool
  at_stream :: "attempt_obs list"
  at_draw :: int
  at_waited :: bool

definition no_adapter_error :: llm_error where
  "no_adapter_error = PlainError ''llm adapter unavailable (llm-provider disabled or unloaded)''"

text \<open>\<open>json.Marshal\<close> writes the keys of a map in order.\<close>

definition retry_given_up :: "int \<Rightarrow> int \<Rightarrow> int \<Rightarrow> int \<Rightarrow> string \<Rightarrow> string \<Rightarrow> json" where
  "retry_given_up turn step retry max_retries code msg = JObj [(''code'', JStr code), (''maxRetries'', JInt max_retries),
     (''message'', JStr msg), (''outcome'', JStr ''gave-up''), (''retry'', JInt retry), (''step'', JInt step),
     (''turn'', JInt turn)]"

definition retry_scheduled :: "int \<Rightarrow> int \<Rightarrow> int \<Rightarrow> int \<Rightarrow> int \<Rightarrow> retry_failure \<Rightarrow> json" where
  "retry_scheduled turn step retry max_retries delay f = JObj [(''code'', JStr (rf_code f)),
     (''delayMs'', JInt (delay div 1000000)), (''maxRetries'', JInt max_retries), (''message'', JStr (rf_message f)),
     (''outcome'', JStr ''retried''), (''retry'', JInt retry), (''step'', JInt step), (''turn'', JInt turn)]"

definition retry_started :: "int \<Rightarrow> int \<Rightarrow> int \<Rightarrow> json" where
  "retry_started turn step retry = JObj [(''retry'', JInt retry), (''step'', JInt step), (''turn'', JInt turn)]"

text \<open>\<open>False\<close>: the goroutine is still waiting for something the attempts do not say.\<close>

fun llm_retry_loop ::
  "int \<Rightarrow> int \<Rightarrow> int \<Rightarrow> int \<Rightarrow> attempt list \<Rightarrow> retry_action list \<times> bool" where
  "llm_retry_loop turn step max_retries n [] = ([], False)"
| "llm_retry_loop turn step max_retries n (a # attempts) =
     (if \<not> at_adapter a then ([SendError no_adapter_error], True)
      else (case attempt_loop (at_stream a) of
          (cs, EndOpen) \<Rightarrow> (map SendChunk cs, False)
        | (cs, EndCancelled) \<Rightarrow> (map SendChunk cs, True)
        | (cs, EndClean) \<Rightarrow> (map SendChunk cs, True)
        | (cs, EndError e) \<Rightarrow>
            (case classify_llm_error e of
               None \<Rightarrow> (map SendChunk cs @ [EmitAction EventLlmRetry
                   (retry_given_up turn step (n + 1) max_retries ''UNKNOWN'' (error_text e)), SendError e], True)
             | Some f \<Rightarrow>
                 if \<not> is_retryable_code (rf_code f)
                 then (map SendChunk cs @ [EmitAction EventLlmRetry
                   (retry_given_up turn step (n + 1) max_retries (failure_code (Some f)) (error_text e)), SendError e], True)
                 else if max_retries \<le> n
                 then (map SendChunk cs @ [EmitAction EventLlmRetry
                   (retry_given_up turn step n max_retries (rf_code f) ''retry budget exhausted''), SendError e], True)
                 else (let delay = retry_delay f (at_draw a) n;
                           scheduled = EmitAction EventLlmRetry (retry_scheduled turn step (n + 1) max_retries delay f)
                       in if \<not> at_waited a then (map SendChunk cs @ [scheduled], True)
                          else (case llm_retry_loop turn step max_retries (n + 1) attempts of
                              (rest, fin) \<Rightarrow> (map SendChunk cs @ [scheduled,
                                EmitAction EventLlmRetryStarted (retry_started turn step (n + 1))] @ rest, fin))))))"

definition llm_retry :: "int \<Rightarrow> int \<Rightarrow> int \<Rightarrow> attempt list \<Rightarrow> retry_action list \<times> bool" where
  "llm_retry turn step max_retries = llm_retry_loop turn step max_retries 0"

section \<open>Delays are bounded\<close>

lemma doubling: "((*) 2 ^^ k) x = x * 2 ^ k" for x :: int
  by (induction k) simp_all

lemma backoff_bounds:
  assumes "0 < initial" and "initial \<le> cap" and "0 \<le> draw" and "draw < float_unit"
  shows "9 * initial div 10 \<le> backoff_delay initial cap draw retry \<and> backoff_delay initial cap draw retry \<le> cap"
proof -
  define e where "e = (if 10 < (if retry < 1 then 1 else retry) - 1 then 10 else (if retry < 1 then 1 else retry) - 1)"
  define base where "base = (if cap < initial * 2 ^ nat e then cap else initial * 2 ^ nat e)"
  define d where "d = base * (9 * float_unit + 2 * draw) div (10 * float_unit)"
  have bd: "backoff_delay initial cap draw retry = (if cap < d then cap else d)"
    by (simp add: backoff_delay_def e_def base_def d_def doubling Let_def)
  have "(1::int) \<le> 2 ^ nat e" by simp
  then have "initial * 1 \<le> initial * 2 ^ nat e" using assms(1) by (intro mult_left_mono) simp_all
  then have base: "initial \<le> base" using assms(2) by (simp add: base_def)
  have "9 * initial * float_unit \<le> base * (9 * float_unit + 2 * draw)"
  proof -
    have "initial * (9 * float_unit) \<le> base * (9 * float_unit)" using base by (simp add: float_unit_def)
    also have "\<dots> \<le> base * (9 * float_unit + 2 * draw)" using base assms(1,3) by (intro mult_left_mono) simp_all
    finally show ?thesis by simp
  qed
  then have "(9 * initial * float_unit) div (10 * float_unit) \<le> d"
    unfolding d_def by (intro zdiv_mono1) (simp_all add: float_unit_def)
  moreover have "(9 * initial * float_unit) div (10 * float_unit) = 9 * initial div 10"
    by (simp add: float_unit_def)
  moreover have "9 * initial div 10 \<le> cap" using assms(1,2) by linarith
  ultimately show ?thesis by (simp add: bd)
qed

lemma retry_delay_bounds:
  assumes "0 \<le> draw" and "draw < float_unit"
  shows "0 < retry_delay f draw n \<and> retry_delay f draw n \<le> retry_cap"
proof (cases "0 < rf_retry_after_ms f")
  case True
  then show ?thesis by (simp add: retry_delay_def retry_cap_def Let_def)
next
  case False
  have "0 < retry_initial" "retry_initial \<le> retry_cap" by (simp_all add: retry_initial_def retry_cap_def)
  from backoff_bounds [OF this assms, of "n + 1"] False show ?thesis
    by (simp add: retry_delay_def retry_initial_def)
qed

section \<open>What the loop does\<close>

definition ends :: "attempt \<Rightarrow> bool" where
  "ends a \<longleftrightarrow> at_adapter a \<longrightarrow> snd (attempt_loop (at_stream a)) \<noteq> EndOpen"

definition obs_ends :: "attempt_obs \<Rightarrow> bool" where
  "obs_ends x = (case x of ObsCancelled \<Rightarrow> True | ObsChunk c sent \<Rightarrow> \<not> sent | ObsClosed b d \<Rightarrow> True | ObsError e \<Rightarrow> e \<noteq> None)"

lemma attempt_loop_ends: "snd (attempt_loop os) \<noteq> EndOpen \<longleftrightarrow> list_ex obs_ends os"
  by (induction os rule: attempt_loop.induct) (auto simp: obs_ends_def split: prod.splits option.splits)

text \<open>The attempts that are made: each one but the last failed with a retryable error and was waited out.\<close>

definition retries :: "int \<Rightarrow> int \<Rightarrow> attempt \<Rightarrow> bool" where
  "retries max_retries n a \<longleftrightarrow> at_adapter a \<and> at_waited a \<and> n < max_retries \<and>
     (\<exists>e f. snd (attempt_loop (at_stream a)) = EndError e \<and> classify_llm_error e = Some f \<and> is_retryable_code (rf_code f))"

fun attempts_made :: "int \<Rightarrow> int \<Rightarrow> attempt list \<Rightarrow> attempt list" where
  "attempts_made max_retries n [] = []"
| "attempts_made max_retries n (a # as) =
     a # (if retries max_retries n a then attempts_made max_retries (n + 1) as else [])"

definition sent_chunks :: "retry_action list \<Rightarrow> stream_chunk list" where
  "sent_chunks acts = List.map_filter (\<lambda>x. case x of SendChunk c \<Rightarrow> Some c | _ \<Rightarrow> None) acts"

definition sent_errors :: "retry_action list \<Rightarrow> llm_error list" where
  "sent_errors acts = List.map_filter (\<lambda>x. case x of SendError e \<Rightarrow> Some e | _ \<Rightarrow> None) acts"

definition started :: "retry_action list \<Rightarrow> nat" where
  "started acts = length (filter (\<lambda>x. case x of EmitAction ty _ \<Rightarrow> ty = EventLlmRetryStarted | _ \<Rightarrow> False) acts)"

lemma sent_simps [simp]:
  "sent_chunks [] = []" "sent_chunks (SendChunk c # xs) = c # sent_chunks xs"
  "sent_chunks (EmitAction ty j # xs) = sent_chunks xs" "sent_chunks (SendError e # xs) = sent_chunks xs"
  "sent_errors [] = []" "sent_errors (SendChunk c # xs) = sent_errors xs"
  "sent_errors (EmitAction ty j # xs) = sent_errors xs" "sent_errors (SendError e # xs) = e # sent_errors xs"
  "started [] = 0" "started (SendChunk c # xs) = started xs" "started (SendError e # xs) = started xs"
  "started (EmitAction ty j # xs) = (if ty = EventLlmRetryStarted then 1 else 0) + started xs"
  by (simp_all add: sent_chunks_def sent_errors_def started_def map_filter_simps)

lemma sent_append [simp]:
  "sent_chunks (map SendChunk cs @ xs) = cs @ sent_chunks xs"
  "sent_errors (map SendChunk cs @ xs) = sent_errors xs"
  "started (map SendChunk cs @ xs) = started xs"
  by (induction cs) simp_all

lemma sent_map [simp]:
  "sent_chunks (map SendChunk cs) = cs" "sent_errors (map SendChunk cs) = []" "started (map SendChunk cs) = 0"
  using sent_append [of cs "[]"] by simp_all

lemma attempts_made_bound: "0 \<le> n \<Longrightarrow> n \<le> max_retries \<Longrightarrow> int (length (attempts_made max_retries n as)) \<le> max_retries - n + 1"
proof (induction as arbitrary: n)
  case (Cons a as)
  show ?case
  proof (cases "retries max_retries n a")
    case True
    then have "n + 1 \<le> max_retries" by (simp add: retries_def)
    with True Cons.IH [of "n + 1"] Cons.prems show ?thesis by simp
  qed (use Cons.prems in simp)
qed simp

lemma attempts_made_prefix: "\<exists>k. attempts_made max_retries n as = take k as"
proof (induction as arbitrary: n)
  case (Cons a as)
  from Cons.IH [of "n + 1"] obtain k where "attempts_made max_retries (n + 1) as = take k as" ..
  then show ?case
    by (cases "retries max_retries n a") (auto intro: exI [of _ "Suc k"] exI [of _ "Suc 0"])
qed simp

lemma llm_retry_step:
  "llm_retry_loop turn step m n (a # as) = (acts, fin) \<Longrightarrow>
     (if retries m n a then
        \<exists>sched start rest. llm_retry_loop turn step m (n + 1) as = (rest, fin) \<and>
          acts = map SendChunk (fst (attempt_loop (at_stream a))) @
            [EmitAction EventLlmRetry sched, EmitAction EventLlmRetryStarted start] @ rest
      else (fin \<longleftrightarrow> ends a) \<and> started acts = 0 \<and> length (sent_errors acts) \<le> 1 \<and>
        sent_chunks acts = (if at_adapter a then fst (attempt_loop (at_stream a)) else []) \<and>
        (sent_errors acts = [] \<longleftrightarrow> at_adapter a \<and> (\<forall>e. snd (attempt_loop (at_stream a)) = EndError e \<longrightarrow>
            n < m \<and> \<not> at_waited a \<and> (\<exists>f. classify_llm_error e = Some f \<and> is_retryable_code (rf_code f)))))"
  by (cases "attempt_loop (at_stream a)")
    (auto simp: retries_def ends_def Let_def split: if_splits attempt_end.splits option.splits prod.splits)

text \<open>The loop over all attempts: chunks of every attempt, one started event between two of them.\<close>

definition forwarded :: "attempt \<Rightarrow> stream_chunk list" where
  "forwarded a = (if at_adapter a then fst (attempt_loop (at_stream a)) else [])"

lemma retry_loop_chunks:
  "llm_retry_loop turn step m n as = (acts, fin) \<Longrightarrow>
     sent_chunks acts = concat (map forwarded (attempts_made m n as)) \<and>
     length (sent_errors acts) \<le> 1 \<and> started acts \<le> length (attempts_made m n as)"
proof (induction as arbitrary: n acts)
  case (Cons a as)
  note st = llm_retry_step [OF Cons.prems]
  show ?case
  proof (cases "retries m n a")
    case True
    with st obtain sched start rest where r: "llm_retry_loop turn step m (n + 1) as = (rest, fin)"
      "acts = map SendChunk (fst (attempt_loop (at_stream a))) @
            [EmitAction EventLlmRetry sched, EmitAction EventLlmRetryStarted start] @ rest" by auto
    have "at_adapter a" using True by (simp add: retries_def)
    with Cons.IH [OF r(1)] r(2) True show ?thesis by (auto simp: forwarded_def)
  next
    case False
    with st show ?thesis by (auto simp: forwarded_def)
  qed
qed simp

lemma retry_loop_returns:
  "n \<le> m \<Longrightarrow> m - n < int (length as) \<Longrightarrow> \<forall>a\<in>set as. ends a \<Longrightarrow>
     \<exists>acts. llm_retry_loop turn step m n as = (acts, True) \<and> started acts < length (attempts_made m n as)"
proof (induction as arbitrary: n)
  case (Cons a as)
  obtain acts fin where l: "llm_retry_loop turn step m n (a # as) = (acts, fin)" by fastforce
  note st = llm_retry_step [OF l]
  show ?case
  proof (cases "retries m n a")
    case True
    then have "n + 1 \<le> m" by (simp add: retries_def)
    with Cons obtain rest where r: "llm_retry_loop turn step m (n + 1) as = (rest, True)"
      "started rest < length (attempts_made m (n + 1) as)" by fastforce
    with st l True show ?thesis by auto
  next
    case False
    with st l Cons.prems(3) show ?thesis by simp
  qed
qed simp

lemma retry_loop_error:
  "llm_retry_loop turn step m n as = (acts, fin) \<Longrightarrow> sent_errors acts = [e] \<Longrightarrow> attempts_made m n as \<noteq> [] \<and>
     (\<not> at_adapter (last (attempts_made m n as)) \<and> e = no_adapter_error \<or>
      snd (attempt_loop (at_stream (last (attempts_made m n as)))) = EndError e)"
proof (induction as arbitrary: n acts)
  case (Cons a as)
  note st = llm_retry_step [OF Cons.prems(1)]
  show ?case
  proof (cases "retries m n a")
    case True
    with st obtain sched start rest where r: "llm_retry_loop turn step m (n + 1) as = (rest, fin)"
      "acts = map SendChunk (fst (attempt_loop (at_stream a))) @
            [EmitAction EventLlmRetry sched, EmitAction EventLlmRetryStarted start] @ rest" by auto
    with Cons.IH [OF r(1)] Cons.prems(2) True show ?thesis by simp
  next
    case False
    then show ?thesis
      using Cons.prems
      by (cases "attempt_loop (at_stream a)")
        (auto simp: retries_def Let_def split: if_splits attempt_end.splits option.splits prod.splits)
  qed
qed simp

end
