(* ===== verification/Turn_Loop.thy ===== *)
theory Turn_Loop imports Agent_Lifecycle Approval_Pipeline Tool_Views Llm_Retry Compaction_Laws begin

text \<open>
  The actor loop of an agent (\<open>actorLoop\<close> in \<open>pkg/agent/loop.go\<close>): one user message after the other,
  the steps of a turn, the model stream, the tool calls, and the ways a turn ends.

  What the selects of the loop see is input: a \<open>round\<close> says for one iteration of the step loop what
  is queued, whether the contexts are cancelled, and the events of the stream, which may
  depend on the request.  The agent is that of \<open>Agent_Log\<close>, with its failing store; the
  tools run through \<open>execute_pipeline\<close>; the log is compacted by \<open>maybe_compact\<close>.  Hooks, spilling,
  the title service and the clock are functions of the environment.
\<close>

section \<open>Payloads\<close>

definition enc_turn_end_reason :: "string \<Rightarrow> string \<Rightarrow> string \<Rightarrow> json" where
  "enc_turn_end_reason kind msg code = JObj ([(''kind'', JStr kind)] @ opt_str ''message'' msg @ opt_str ''code'' code)"

definition enc_stream_chunk :: "stream_chunk \<Rightarrow> json" where
  "enc_stream_chunk c = JObj ([(''type'', JStr (sc_type c))] @ opt_int ''index'' (sc_index c) @
     opt_str ''blockType'' (sc_block_type c) @ opt_str ''blockId'' (sc_block_id c) @ opt_str ''text'' (sc_text c) @
     opt_str ''id'' (sc_id c) @ opt_str ''name'' (sc_name c) @ opt_str ''argumentsDelta'' (sc_arguments c) @
     (case sc_block c of None \<Rightarrow> [] | Some b \<Rightarrow> [(''block'', enc_content_block b)]) @
     (case sc_usage c of None \<Rightarrow> [] | Some u \<Rightarrow> [(''usage'', enc_token_usage u)]) @ opt_str ''finishReason'' (sc_finish c))"

definition chunk_payload :: "int \<Rightarrow> int \<Rightarrow> stream_chunk \<Rightarrow> json" where
  "chunk_payload turn step c = JObj [(''chunk'', enc_stream_chunk c), (''step'', JInt step), (''turn'', JInt turn)]"

definition enc_assistant_message :: "assistant_message_payload \<Rightarrow> json" where
  "enc_assistant_message p = JObj ([(''turn'', JInt (am_turn p)), (''step'', JInt (am_step p)),
     (''message'', enc_wire_message (am_message p))] @
     (case am_usage p of None \<Rightarrow> [] | Some u \<Rightarrow> [(''usage'', enc_token_usage u)]) @
     (if am_interrupted p then [(''interrupted'', JBool True)] else []))"

definition enc_tool_call :: "int \<Rightarrow> int \<Rightarrow> content_block \<Rightarrow> tool_result_view \<Rightarrow> json" where
  "enc_tool_call turn step tc view = JObj [(''turn'', JInt turn), (''step'', JInt step), (''callId'', JStr (cb_id tc)),
     (''name'', JStr (cb_name tc)), (''arguments'', JStr (cb_arguments tc)), (''view'', enc_tool_result_view view)]"

definition enc_tool_result :: "int \<Rightarrow> int \<Rightarrow> wire_message \<Rightarrow> tool_result_view \<Rightarrow> json" where
  "enc_tool_result turn step m view = JObj [(''turn'', JInt turn), (''step'', JInt step),
     (''message'', enc_wire_message m), (''view'', enc_tool_result_view view)]"

definition enc_request_header :: "string \<Rightarrow> string \<Rightarrow> json list \<Rightarrow> json" where
  "enc_request_header model system schemas = JObj [(''header'', JObj ([(''config'', JObj
     [(''provider'', JStr ''deepseek-official''), (''model'', JStr model)])] @ opt_str ''system'' system @
     (if schemas = [] then [] else [(''tools'', JArr schemas)]))), (''reason'', JStr ''initial'')]"

definition audit_payload :: "audit_event \<Rightarrow> string \<times> json" where
  "audit_payload ev = (case ev of
      Asked aid name call reason \<Rightarrow> (''approval/asked'', JObj ([(''id'', JStr aid), (''toolName'', JStr name)] @
        opt_str ''callId'' call @ opt_str ''reason'' reason))
    | Decided aid outcome \<Rightarrow> (''approval/decided'', JObj [(''id'', JStr aid), (''outcome'', JStr outcome)]))"

section \<open>State and environment\<close>

record 'w host =
  ho_agent :: agent
  ho_running :: bool
  ho_title_done :: bool
  ho_registry :: "'w tool_registry option"
  ho_world :: 'w

record model_request =
  mq_model :: string
  mq_messages :: "model_message list"
  mq_system :: string
  mq_tools :: "json list"

text \<open>
  The clock and the identifiers made from it are functions of the sequence counter.  \<open>le_hook\<close>
  runs the hooks of a point: the world, what they emit, whether one of them blocks; \<open>le_drain\<close> takes
  what a tool emitted while it ran out of the world.
\<close>

record 'w loop_env =
  le_now :: "int \<Rightarrow> int"
  le_step_id :: "int \<Rightarrow> string"
  le_approval_id :: "int \<Rightarrow> string"
  le_error_text :: "emit_error \<Rightarrow> string"
  le_session :: string
  le_model :: string
  le_prompt :: string
  le_instructions :: string
  le_schemas :: "json list"
  le_request_user :: "(string \<Rightarrow> string list \<Rightarrow> string \<times> bool) option"
  le_parse :: "string \<Rightarrow> raw_message"
  le_indent :: "json \<Rightarrow> string"
  le_hook :: "string \<Rightarrow> string \<Rightarrow> int \<Rightarrow> 'w \<Rightarrow> 'w \<times> (string \<times> json) list \<times> bool"
  le_drain :: "'w \<Rightarrow> 'w \<times> (string \<times> json) list"
  le_save :: "string \<Rightarrow> string \<Rightarrow> string option"
  le_title :: "(session_envelope list \<Rightarrow> json) option"
  le_compactor :: "compact_engine option"
  le_tx :: "agent tx_env"
  le_reads :: "bool \<times> bool"

datatype ctx_state = CtxLive | TurnCancelled | ActorStopped

section \<open>Emitting\<close>

definition emit_at :: "'w loop_env \<Rightarrow> string \<Rightarrow> event_payload \<Rightarrow> surface_op option \<Rightarrow> agent \<Rightarrow> agent \<times> (emit_error + session_envelope)" where
  "emit_at env ty p op a = emit_event ty p op (le_now env (ag_seq_counter a)) a"

text \<open>An emission whose error is dropped.\<close>

definition say :: "'w loop_env \<Rightarrow> string \<Rightarrow> event_payload \<Rightarrow> surface_op option \<Rightarrow> 'w host \<Rightarrow> 'w host" where
  "say env ty p op h = h\<lparr>ho_agent := fst (emit_at env ty p op (ho_agent h))\<rparr>"

definition say_all :: "'w loop_env \<Rightarrow> (string \<times> json) list \<Rightarrow> 'w host \<Rightarrow> 'w host" where
  "say_all env evs h = fold (\<lambda>(ty, j). say env ty (AnyP (Some j)) None) evs h"

definition finish_turn_reason :: "'w loop_env \<Rightarrow> string \<Rightarrow> string \<Rightarrow> 'w host \<Rightarrow> 'w host" where
  "finish_turn_reason env kind msg h =
     (let step_open = (ag_active_step (ho_agent h) \<noteq> 0);
          turn_open = (ag_active_turn (ho_agent h) \<noteq> 0);
          h1 = (if step_open then say env EventStepEnd (AnyP (Some (turn_step_json 0 0))) None h else h)
      in if turn_open then say env EventTurnEnd (TurnEndP 0 (enc_turn_end_reason kind msg [])) None h1 else h1)"

definition emit_boundary :: "'w loop_env \<Rightarrow> string \<Rightarrow> event_payload \<Rightarrow> 'w host \<Rightarrow> 'w host \<times> bool" where
  "emit_boundary env ty p h = (case emit_at env ty p None (ho_agent h) of
      (a', Inr _) \<Rightarrow> (h\<lparr>ho_agent := a'\<rparr>, True)
    | (a', Inl (InvalidTransition _ _)) \<Rightarrow> (h\<lparr>ho_agent := a'\<rparr>, True)
    | (a', Inl e) \<Rightarrow> (finish_turn_reason env ''error'' (''boundary '' @ ty @ '' persist failed: '' @ le_error_text env e)
        (h\<lparr>ho_agent := a'\<rparr>), False))"

definition turn_end_error :: "'w loop_env \<Rightarrow> int \<Rightarrow> llm_error \<Rightarrow> 'w host \<Rightarrow> 'w host \<times> bool" where
  "turn_end_error env turn e h =
     emit_boundary env EventTurnEnd (TurnEndP turn (enc_turn_end_reason ''error'' (error_text e) (classify_provider_code e))) h"

definition dispatch_hook :: "'w loop_env \<Rightarrow> string \<Rightarrow> string \<Rightarrow> int \<Rightarrow> 'w host \<Rightarrow> 'w host \<times> bool" where
  "dispatch_hook env point subject turn h =
     (let (w', evs, blocked) = le_hook env point subject turn (ho_world h)
      in (say_all env evs (h\<lparr>ho_world := w'\<rparr>), blocked))"

text \<open>The log of the session: the durable one through its cache, else the ring, else the segment log.\<close>

definition load_session_log :: "bool \<times> bool \<Rightarrow> agent \<Rightarrow> agent \<times> session_envelope list" where
  "load_session_log reads a =
     (let (a1, evs) = (if ag_persist a \<noteq> None then cached_session_events (fst reads) (snd reads) a else (a, []));
          window = (case ag_ring a1 of None \<Rightarrow> [] | Some rb \<Rightarrow> rb_get_since rb 0)
      in if evs \<noteq> [] then (a1, evs)
         else if window \<noteq> [] then (a1, window)
         else (a1, case ag_segment a1 of None \<Rightarrow> [] | Some l \<Rightarrow> l))"

section \<open>The request of a step\<close>

definition step_system :: "'w loop_env \<Rightarrow> string" where
  "step_system env =
     (if le_instructions env = [] then le_prompt env
      else if le_prompt env = [] then le_instructions env
      else le_prompt env @ [newline, newline] @ le_instructions env)"

definition step_request :: "'w loop_env \<Rightarrow> session_envelope list \<Rightarrow> model_request" where
  "step_request env events = \<lparr>mq_model = le_model env,
     mq_messages = (case derive_messages events of Inl _ \<Rightarrow> [] | Inr ms \<Rightarrow> ms),
     mq_system = step_system env, mq_tools = le_schemas env\<rparr>"

text \<open>Opening a step: the boundary, the log, the request and its header.\<close>

definition open_step :: "'w loop_env \<Rightarrow> bool \<times> bool \<Rightarrow> 'w host \<Rightarrow> 'w host \<times> int \<times> model_request" where
  "open_step env reads h =
     (let h1 = say env EventStepStart (AnyP (Some (turn_step_json 0 0))) None h;
          step = ag_active_step (ho_agent h1);
          (a2, events) = load_session_log reads (ho_agent h1);
          req = step_request env events;
          h3 = say env ''request/header'' (AnyP (Some (enc_request_header (le_model env) (step_system env) (le_schemas env)))) None
            (h1\<lparr>ho_agent := a2\<rparr>)
      in (h3, step, req))"

section \<open>The stream of a step\<close>

text \<open>
  What the inner loop sees: a queued next step, a cancelled context, an error with the state of the
  contexts when it is routed, a chunk, the end of the chunks with the error found buffered and
  the state of the contexts at the two checks, and events that the retry policy emits meanwhile.
\<close>

datatype stream_obs =
    SeeNextStep content_block
  | SeeActorDone
  | SeeTurnDone bool
  | SeeNothing
  | SeeError llm_error ctx_state
  | SeeChunk stream_chunk
  | SeeClosed "llm_error option" ctx_state ctx_state
  | SeeRetry string json

record 'w stream_state =
  ss_host :: "'w host"
  ss_asm :: assembler
  ss_next :: "content_block option"
  ss_actor_stopped :: bool
  ss_turn_aborted :: bool
  ss_failed :: bool

datatype 'a progress = Waiting | Panicked | Done 'a

definition stream_closed_error :: llm_error where
  "stream_closed_error = PlainError ''stream closed after turn context cancellation''"

definition route_step_fatal :: "'w loop_env \<Rightarrow> int \<Rightarrow> int \<Rightarrow> llm_error \<Rightarrow> ctx_state \<Rightarrow> 'w stream_state \<Rightarrow> 'w stream_state" where
  "route_step_fatal env turn step e ctx st = (case ctx of
      ActorStopped \<Rightarrow> st\<lparr>ss_actor_stopped := True\<rparr>
    | TurnCancelled \<Rightarrow> st\<lparr>ss_turn_aborted := True\<rparr>
    | CtxLive \<Rightarrow>
        (case emit_boundary env EventStepEnd (AnyP (Some (turn_step_json turn step))) (ss_host st) of
           (h1, False) \<Rightarrow> st\<lparr>ss_host := h1, ss_failed := True\<rparr>
         | (h1, True) \<Rightarrow> st\<lparr>ss_host := fst (turn_end_error env turn e h1), ss_failed := True\<rparr>))"

fun stream_loop :: "'w loop_env \<Rightarrow> int \<Rightarrow> int \<Rightarrow> stream_obs list \<Rightarrow> 'w stream_state \<Rightarrow> 'w stream_state progress" where
  "stream_loop env turn step [] st = Waiting"
| "stream_loop env turn step (SeeNextStep b # os) st = Done (st\<lparr>ss_next := Some b\<rparr>)"
| "stream_loop env turn step (SeeActorDone # os) st = Done (st\<lparr>ss_actor_stopped := True\<rparr>)"
| "stream_loop env turn step (SeeTurnDone stopped # os) st =
     Done (if stopped then st\<lparr>ss_actor_stopped := True\<rparr> else st\<lparr>ss_turn_aborted := True\<rparr>)"
| "stream_loop env turn step (SeeNothing # os) st = stream_loop env turn step os st"
| "stream_loop env turn step (SeeError e ctx # os) st = Done (route_step_fatal env turn step e ctx st)"
| "stream_loop env turn step (SeeChunk c # os) st = (case ingest_chunk c (ss_asm st) of
      None \<Rightarrow> Panicked
    | Some asm \<Rightarrow> stream_loop env turn step os (st\<lparr>ss_asm := asm,
        ss_host := say env ''assistant/chunk'' (AnyP (Some (chunk_payload turn step c))) None (ss_host st)\<rparr>))"
| "stream_loop env turn step (SeeClosed drained ctx1 ctx2 # os) st =
     (let st1 = (case drained of None \<Rightarrow> st | Some e \<Rightarrow> route_step_fatal env turn step e ctx1 st)
      in Done (if ctx2 = CtxLive then st1 else route_step_fatal env turn step stream_closed_error ctx2 st1))"
| "stream_loop env turn step (SeeRetry ty j # os) st =
     stream_loop env turn step os (st\<lparr>ss_host := say env ty (AnyP (Some j)) None (ss_host st)\<rparr>)"

section \<open>Tool calls\<close>

definition tool_exec_ctx :: "'w loop_env \<Rightarrow> content_block \<Rightarrow> exec_ctx" where
  "tool_exec_ctx env tc = \<lparr>ec_session = le_session env, ec_call = cb_id tc,
     ec_request_user = le_request_user env, ec_emit = True\<rparr>"

text \<open>The pipeline run of one call: what the audit and the tool emit goes to the log.\<close>

definition run_pipeline :: "'w loop_env \<Rightarrow> 'w tool_registry \<Rightarrow> content_block \<Rightarrow> 'w host \<Rightarrow> 'w host \<times> string \<times> bool" where
  "run_pipeline env r tc h =
     (let run = execute_pipeline (le_indent env) r (tool_exec_ctx env tc) (cb_name tc) (cb_arguments tc)
            (le_approval_id env (ag_seq_counter (ho_agent h))) (ho_world h);
          (w', own) = le_drain env (pr_world run)
      in (say_all env (map audit_payload (pr_events run) @ own)
            (h\<lparr>ho_registry := Some (pr_registry run), ho_world := w'\<rparr>), pr_output run, pr_is_error run))"

definition tool_result_message :: "int \<Rightarrow> int \<Rightarrow> content_block \<Rightarrow> string \<Rightarrow> bool \<Rightarrow> wire_message" where
  "tool_result_message turn step tc txt is_err =
     \<lparr>wm_id = ''tool-'' @ decimal (nat turn) @ ''-'' @ decimal (nat step) @ ''-'' @ cb_id tc, wm_role = ''user'',
      wm_content = [ContentBlock ''tool-result'' [] [] [] [] [] [] (cb_id tc) is_err [text_block txt]],
      wm_source = \<lparr>ms_kind = ''tool'', ms_call_id = cb_id tc, ms_plugin = [], ms_form = [], ms_provider = [],
        ms_model = [], ms_replay_state = None, ms_compaction_id = [], ms_source_command_id = []\<rparr>\<rparr>"

definition run_tool_call :: "'w loop_env \<Rightarrow> int \<Rightarrow> int \<Rightarrow> 'w tool_registry \<Rightarrow> content_block \<Rightarrow> 'w host \<Rightarrow> 'w host" where
  "run_tool_call env turn step r tc h =
     (let h1 = say env ''tool/call'' (AnyP (Some (enc_tool_call turn step tc
            (build_tool_call_view (le_parse env) (cb_name tc) (cb_arguments tc))))) None h;
          (h2, blocked) = dispatch_hook env ''PreToolUse'' (cb_name tc) turn h1;
          (h3, res, is_err) = (if blocked then (h2, ''[blocked by PreToolUse hook]'', True) else run_pipeline env r tc h2);
          txt = (if \<not> skip_spill_for (cb_name tc) \<and> \<not> is_err
                 then (case le_save env (cb_name tc) res of Some preview \<Rightarrow> preview | None \<Rightarrow> res) else res);
          h4 = say env EventToolResult (AnyP (Some (enc_tool_result turn step (tool_result_message turn step tc txt is_err)
            (build_tool_result_view (cb_name tc) txt is_err)))) (Some append_surface_op) h3
      in fst (dispatch_hook env ''PostToolUse'' (cb_name tc) turn h4))"

text \<open>All calls of a message, with the state of the contexts after each of them.\<close>

fun run_tool_calls ::
  "'w loop_env \<Rightarrow> int \<Rightarrow> int \<Rightarrow> content_block list \<Rightarrow> ctx_state list \<Rightarrow> 'w host \<Rightarrow> 'w host \<times> ctx_state" where
  "run_tool_calls env turn step [] ctxs h = (h, CtxLive)"
| "run_tool_calls env turn step (tc # tcs) ctxs h =
     (let h' = (case ho_registry h of None \<Rightarrow> h | Some r \<Rightarrow> run_tool_call env turn step r tc h)
      in case ctxs of
           [] \<Rightarrow> run_tool_calls env turn step tcs [] h'
         | CtxLive # ctxs' \<Rightarrow> run_tool_calls env turn step tcs ctxs' h'
         | c # _ \<Rightarrow> (h', c))"

section \<open>A step\<close>

definition assistant_payload ::
  "'w loop_env \<Rightarrow> int \<Rightarrow> int \<Rightarrow> content_block list \<Rightarrow> token_usage option \<Rightarrow> bool \<Rightarrow> assistant_message_payload" where
  "assistant_payload env turn step blocks usage interrupted =
     \<lparr>am_turn = turn, am_step = step, am_message = \<lparr>wm_id = ''asst-'' @ decimal (nat turn) @ ''-'' @ decimal (nat step),
        wm_role = ''assistant'', wm_content = blocks, wm_source = \<lparr>ms_kind = ''model'', ms_call_id = [], ms_plugin = [],
        ms_form = [], ms_provider = le_model env, ms_model = le_model env, ms_replay_state = None,
        ms_compaction_id = [], ms_source_command_id = []\<rparr>\<rparr>, am_usage = usage, am_interrupted = interrupted\<rparr>"

definition say_assistant ::
  "'w loop_env \<Rightarrow> int \<Rightarrow> int \<Rightarrow> content_block list \<Rightarrow> token_usage option \<Rightarrow> bool \<Rightarrow> 'w host \<Rightarrow> 'w host" where
  "say_assistant env turn step blocks usage interrupted h =
     say env EventAssistantMessage (AnyP (Some (enc_assistant_message
       (assistant_payload env turn step blocks usage interrupted)))) (Some append_surface_op) h"

definition say_next_step :: "'w loop_env \<Rightarrow> content_block \<Rightarrow> 'w host \<Rightarrow> 'w host" where
  "say_next_step env b h =
     say env EventUserMessage (AnyP (Some (enc_wire_message
       \<lparr>wm_id = ''step-'' @ le_step_id env (ag_seq_counter (ho_agent h)), wm_role = ''user'', wm_content = [b],
        wm_source = \<lparr>ms_kind = ''user'', ms_call_id = [], ms_plugin = [], ms_form = [], ms_provider = [], ms_model = [],
          ms_replay_state = None, ms_compaction_id = [], ms_source_command_id = []\<rparr>\<rparr>))) (Some append_surface_op) h"

text \<open>
  One iteration of the step loop leads to the next one, to the end of the turn (\<open>StepsOver\<close>, which
  writes turn/end), to a turn that is closed already, or to the end of the actor.
\<close>

datatype 'w step_result =
    NextRound "'w host" bool bool
  | StepsOver "'w host" bool
  | TurnClosed "'w host"
  | ActorExit "'w host"

record 'w loop_round =
  rd_queued :: "content_block option"
  rd_select :: ctx_state
  rd_reads :: "bool \<times> bool"
  rd_stream :: "model_request \<Rightarrow> stream_obs list"
  rd_after_tools :: "ctx_state list"

definition idle_host :: "'w host \<Rightarrow> 'w host" where
  "idle_host h = h\<lparr>ho_running := False\<rparr>"

definition abort_turn :: "'w loop_env \<Rightarrow> 'w host \<Rightarrow> 'w host" where
  "abort_turn env h = idle_host (finish_turn_reason env ''aborted'' ''User aborted'' h)"

text \<open>The last part of a step that was not interrupted: the tool calls and the boundary.\<close>

definition settle_step ::
  "'w loop_env \<Rightarrow> int \<Rightarrow> int \<Rightarrow> content_block list \<Rightarrow> ctx_state list \<Rightarrow> bool \<Rightarrow> 'w host \<Rightarrow> 'w step_result" where
  "settle_step env turn step blocks ctxs sticky h =
     (let calls = filter (\<lambda>b. cb_type b = ''tool-call'') blocks;
          close = (\<lambda>finished h. case emit_boundary env EventStepEnd (AnyP (Some (turn_step_json turn step))) h of
              (h', True) \<Rightarrow> if finished then StepsOver h' sticky else NextRound h' sticky False
            | (h', False) \<Rightarrow> if finished then TurnClosed (idle_host h') else NextRound (idle_host h') sticky True)
      in if calls \<noteq> [] \<and> ho_registry h \<noteq> None then
           (case run_tool_calls env turn step calls ctxs h of
              (h', CtxLive) \<Rightarrow> close False h'
            | (h', TurnCancelled) \<Rightarrow> TurnClosed (abort_turn env h')
            | (h', ActorStopped) \<Rightarrow> ActorExit (abort_turn env h'))
         else close True h)"

text \<open>What follows the stream.\<close>

definition after_stream ::
  "'w loop_env \<Rightarrow> int \<Rightarrow> int \<Rightarrow> ctx_state list \<Rightarrow> bool \<Rightarrow> 'w stream_state \<Rightarrow> 'w step_result" where
  "after_stream env turn step ctxs sticky st =
     (let h = ss_host st; (blocks, usage, finish) = assembler_result (ss_asm st)
      in if ss_actor_stopped st then ActorExit (abort_turn env h)
         else if ss_turn_aborted st then TurnClosed (abort_turn env h)
         else if ss_failed st then TurnClosed (idle_host h)
         else (case ss_next st of
             Some b \<Rightarrow>
               (let h1 = (if blocks \<noteq> [] then say_assistant env turn step blocks usage True h else h)
                in case emit_boundary env EventStepEnd (AnyP (Some (turn_step_json turn step))) h1 of
                     (h2, False) \<Rightarrow> TurnClosed (idle_host h2)
                   | (h2, True) \<Rightarrow> NextRound (say_next_step env b h2) sticky False)
           | None \<Rightarrow>
               if finish = ''error'' then
                 (let h1 = (if blocks \<noteq> [] then say_assistant env turn step blocks usage False h else h)
                  in TurnClosed (idle_host (finish_turn_reason env ''error'' (''model finished step '' @ decimal (nat step) @
                       '' with reason '' @ [CHR 0x22] @ finish @ [CHR 0x22]) h1)))
               else settle_step env turn step blocks ctxs (sticky \<or> finish = ''max-tokens'')
                 (say_assistant env turn step blocks usage False h)))"

text \<open>\<open>closed\<close>: the turn's context has been dropped, so the select cannot find it alive.\<close>

definition step_round ::
  "'w loop_env \<Rightarrow> int \<Rightarrow> 'w loop_round \<Rightarrow> bool \<Rightarrow> bool \<Rightarrow> 'w host \<Rightarrow> 'w step_result progress" where
  "step_round env turn rd sticky closed h = (case rd_queued rd of
      Some b \<Rightarrow>
        (case emit_boundary env EventStepEnd (AnyP (Some (turn_step_json 0 0))) h of
           (h1, False) \<Rightarrow> Done (TurnClosed (idle_host h1))
         | (h1, True) \<Rightarrow> Done (NextRound (say_next_step env b h1) sticky closed))
    | None \<Rightarrow>
        (case (if closed \<and> rd_select rd = CtxLive then TurnCancelled else rd_select rd) of
           ActorStopped \<Rightarrow> Done (ActorExit (abort_turn env h))
         | TurnCancelled \<Rightarrow> Done (TurnClosed (abort_turn env h))
         | CtxLive \<Rightarrow>
             (let (h1, step, req) = open_step env (rd_reads rd) h
              in case stream_loop env turn step (rd_stream rd req)
                  \<lparr>ss_host = h1, ss_asm = new_assembler, ss_next = None, ss_actor_stopped = False,
                   ss_turn_aborted = False, ss_failed = False\<rparr> of
                   Waiting \<Rightarrow> Waiting
                 | Panicked \<Rightarrow> Panicked
                 | Done st \<Rightarrow> Done (after_stream env turn step (rd_after_tools rd) sticky st))))"

section \<open>A turn\<close>

text \<open>After the steps: the turn boundary, the one-shot title, the compaction check.\<close>

definition title_event :: "'w loop_env \<Rightarrow> 'w host \<Rightarrow> 'w host" where
  "title_event env h = (case le_title env of
      None \<Rightarrow> h
    | Some title \<Rightarrow>
        if ho_title_done h then h
        else (let (a1, events) = load_session_log (le_reads env) (ho_agent h)
              in say env ''session/title'' (AnyP (Some (title events))) None (h\<lparr>ho_agent := a1, ho_title_done := True\<rparr>)))"

definition close_turn :: "'w loop_env \<Rightarrow> int \<Rightarrow> bool \<Rightarrow> 'w host \<Rightarrow> 'w host" where
  "close_turn env turn sticky h =
     (let kind = (if sticky then ''max-tokens'' else ''completed'')
      in case emit_boundary env EventTurnEnd (TurnEndP turn (enc_turn_end_reason kind [] [])) h of
           (h1, ok) \<Rightarrow> (let h2 = idle_host h1
             in if ok then (let h3 = title_event env h2
                  in h3\<lparr>ho_agent := maybe_compact (le_compactor env) (le_tx env) (fst (le_reads env)) (snd (le_reads env)) (ho_agent h3)\<rparr>)
                else h2))"

text \<open>The step loop over the coming rounds; the flag of the result says that the actor exits.\<close>

fun step_loop ::
  "'w loop_env \<Rightarrow> int \<Rightarrow> 'w loop_round list \<Rightarrow> bool \<Rightarrow> bool \<Rightarrow> 'w host \<Rightarrow> ('w host \<times> bool) progress" where
  "step_loop env turn [] sticky closed h = Waiting"
| "step_loop env turn (rd # rds) sticky closed h =
     (case step_round env turn rd sticky closed h of
        Waiting \<Rightarrow> Waiting
      | Panicked \<Rightarrow> Panicked
      | Done (NextRound h' sticky' closed') \<Rightarrow> step_loop env turn rds sticky' closed' h'
      | Done (StepsOver h' sticky') \<Rightarrow> Done (close_turn env turn sticky' h', False)
      | Done (TurnClosed h') \<Rightarrow> Done (h', False)
      | Done (ActorExit h') \<Rightarrow> Done (h', True))"

definition process_turn :: "'w loop_env \<Rightarrow> wire_message \<Rightarrow> 'w loop_round list \<Rightarrow> 'w host \<Rightarrow> ('w host \<times> bool) progress" where
  "process_turn env m rds h =
     (let h0 = h\<lparr>ho_running := True, ho_agent := reset_steps (ho_agent h)\<rparr>
      in case emit_boundary env EventTurnStart (AnyP (Some (turn_json 0))) h0 of
           (h1, False) \<Rightarrow> Done (idle_host h1, False)
         | (h1, True) \<Rightarrow>
             (let turn = ag_active_turn (ho_agent h1);
                  h2 = say env EventUserMessage (AnyP (Some (enc_wire_message m))) (Some append_surface_op) h1;
                  h3 = fst (dispatch_hook env ''UserPromptSubmit'' [] turn h2)
              in step_loop env turn rds False False h3))"

text \<open>The actor takes one message after the other until it exits.\<close>

fun actor_loop :: "'w loop_env \<Rightarrow> (wire_message \<times> 'w loop_round list) list \<Rightarrow> 'w host \<Rightarrow> ('w host \<times> bool) progress" where
  "actor_loop env [] h = Done (h, False)"
| "actor_loop env ((m, rds) # rest) h = (case process_turn env m rds h of
      Waiting \<Rightarrow> Waiting
    | Panicked \<Rightarrow> Panicked
    | Done (h', True) \<Rightarrow> Done (h', True)
    | Done (h', False) \<Rightarrow> actor_loop env rest h')"

end
