(* ===== verification/Turn_Laws.thy ===== *)
theory Turn_Laws imports Turn_Loop begin

text \<open>
  What the actor loop keeps of the agent.  The locale \<open>emission_invariant\<close> is a predicate on the agent
  that every operation keeps which emits none of the banned event types; \<open>quiet_invariant\<close> bans the turn
  and step boundaries, and its lemmas carry the predicate through the tools, the hooks, the reads and
  the compaction.  \<open>agent_invariant\<close> extends it to predicates that every proper
  operation keeps, and carries them through whole turns.  The interpretations are the phases of the
  turn machine and the invariants of the log.
\<close>

section \<open>Operations that avoid some event types\<close>

definition avoiding_op :: "string list \<Rightarrow> agent_op \<Rightarrow> bool" where
  "avoiding_op banned x \<longleftrightarrow> (case x of
      OpEmit ty p op now \<Rightarrow> ty \<notin> set banned \<and> payload_json p \<noteq> None
    | OpRaw env \<Rightarrow> env_type env \<notin> set banned
    | OpInvalidate \<Rightarrow> True
    | OpRead x y \<Rightarrow> True
    | _ \<Rightarrow> False)"

abbreviation "quiet_op \<equiv> avoiding_op boundary_types"

lemma quiet_proper: "quiet_op x \<Longrightarrow> proper_op x"
  by (cases x) (auto simp: avoiding_op_def proper_op_def boundary_types_def)

definition avoiding_events :: "string list \<Rightarrow> (string \<times> json) list \<Rightarrow> bool" where
  "avoiding_events banned evs \<longleftrightarrow> (\<forall>(ty, j)\<in>set evs. ty \<notin> set banned)"

text \<open>What hooks and tools emit, and what the retry policy emits during a round.\<close>

definition avoiding_env :: "string list \<Rightarrow> 'w loop_env \<Rightarrow> bool" where
  "avoiding_env banned env \<longleftrightarrow>
     (\<forall>point subject turn w. avoiding_events banned (fst (snd (le_hook env point subject turn w)))) \<and>
     (\<forall>w. avoiding_events banned (snd (le_drain env w)))"

definition avoiding_obs :: "string list \<Rightarrow> stream_obs \<Rightarrow> bool" where
  "avoiding_obs banned x \<longleftrightarrow> (case x of SeeRetry ty j \<Rightarrow> ty \<notin> set banned | _ \<Rightarrow> True)"

definition avoiding_round :: "string list \<Rightarrow> 'w loop_round \<Rightarrow> bool" where
  "avoiding_round banned rd \<longleftrightarrow> (\<forall>req. \<forall>x\<in>set (rd_stream rd req). avoiding_obs banned x)"

text \<open>Hooks and tools emit no boundaries, and neither does the retry policy.\<close>

abbreviation "quiet_env \<equiv> avoiding_env boundary_types"
abbreviation "quiet_obs \<equiv> avoiding_obs boundary_types"
abbreviation "quiet_round \<equiv> avoiding_round boundary_types"

lemma avoiding_audit:
  "''approval/asked'' \<notin> set banned \<Longrightarrow> ''approval/decided'' \<notin> set banned \<Longrightarrow>
     avoiding_events banned (map audit_payload evs)"
  by (auto simp: avoiding_events_def audit_payload_def split: audit_event.splits)

lemma avoiding_append: "avoiding_events banned (xs @ ys) \<longleftrightarrow> avoiding_events banned xs \<and> avoiding_events banned ys"
  by (auto simp: avoiding_events_def)

lemma say_agent: "ho_agent (say env ty p op h) = agent_step (OpEmit ty p op (le_now env (ag_seq_counter (ho_agent h)))) (ho_agent h)"
  by (simp add: say_def emit_at_def)

lemma say_frame [simp]:
  "ho_registry (say env ty p op h) = ho_registry h" "ho_running (say env ty p op h) = ho_running h"
  "ho_world (say env ty p op h) = ho_world h" "ho_title_done (say env ty p op h) = ho_title_done h"
  by (simp_all add: say_def)

lemma say_all_frame [simp]:
  "ho_registry (say_all env evs h) = ho_registry h" "ho_running (say_all env evs h) = ho_running h"
  by (induction evs arbitrary: h) (auto simp: say_all_def)

lemma say_all_simps [simp]:
  "say_all env [] h = h" "say_all env (e # evs) h = say_all env evs (say env (fst e) (AnyP (Some (snd e))) None h)"
  by (simp_all add: say_all_def case_prod_beta)

lemma idle_host_agent [simp]: "ho_agent (idle_host h) = ho_agent h" "ho_running (idle_host h) = False"
  by (simp_all add: idle_host_def)

lemma agent_raw_op: "fst (agent_append env a) = agent_step (OpRaw env) a"
  by (simp add: agent_append_def)

section \<open>Quiet invariants\<close>

locale emission_invariant =
  fixes P :: "agent \<Rightarrow> bool" and banned :: "string list"
  assumes keeps: "avoiding_op banned x \<Longrightarrow> P a \<Longrightarrow> P (agent_step x a)"
begin

lemma say_quiet: "ty \<notin> set banned \<Longrightarrow> P (ho_agent h) \<Longrightarrow> P (ho_agent (say env ty (AnyP (Some j)) op h))"
  unfolding say_agent by (rule keeps) (simp_all add: avoiding_op_def payload_json_def)

lemma say_any: "ty \<notin> set banned \<Longrightarrow> payload_json p \<noteq> None \<Longrightarrow> P (ho_agent h) \<Longrightarrow> P (ho_agent (say env ty p op h))"
  unfolding say_agent by (rule keeps) (simp_all add: avoiding_op_def)

lemma boundary_any:
  assumes "ty \<notin> set banned" "EventStepEnd \<notin> set banned" "EventTurnEnd \<notin> set banned"
    and "payload_json p \<noteq> None" and "P (ho_agent h)"
  shows "P (ho_agent (fst (emit_boundary env ty p h)))"
proof -
  have fin: "P (ho_agent (finish_turn_reason env kind msg k))" if "P (ho_agent k)" for kind msg k
    using that assms(2,3) by (simp add: finish_turn_reason_def Let_def say_any payload_json_def)
  from say_any [OF assms(1,4,5), of env None] have "P (fst (emit_at env ty p None (ho_agent h)))" by (simp add: say_def)
  then show ?thesis
    by (auto simp: emit_boundary_def split: prod.split sum.split emit_error.split intro!: fin)
qed

lemma say_all_quiet: "avoiding_events banned evs \<Longrightarrow> P (ho_agent h) \<Longrightarrow> P (ho_agent (say_all env evs h))"
proof (induction evs arbitrary: h)
  case (Cons e evs)
  then have "avoiding_events banned evs" "fst e \<notin> set banned" by (auto simp: avoiding_events_def)
  with Cons.IH say_quiet [OF this(2) Cons.prems(2)] show ?case by simp
qed simp

lemma hook_quiet:
  "avoiding_env banned env \<Longrightarrow> P (ho_agent h) \<Longrightarrow> P (ho_agent (fst (dispatch_hook env point subject turn h)))"
  by (auto simp: dispatch_hook_def avoiding_env_def split: prod.splits intro!: say_all_quiet) (metis fst_conv snd_conv)

lemma read_quiet: "P a \<Longrightarrow> P (fst (load_session_log reads a))"
  using keeps [of "OpRead (fst reads) (snd reads)" a]
  by (auto simp: load_session_log_def avoiding_op_def Let_def split: prod.splits)

lemma pipeline_quiet:
  "avoiding_env banned env \<Longrightarrow> ''approval/asked'' \<notin> set banned \<Longrightarrow> ''approval/decided'' \<notin> set banned \<Longrightarrow>
     P (ho_agent h) \<Longrightarrow> P (ho_agent (fst (run_pipeline env r tc h)))"
  by (auto simp: run_pipeline_def avoiding_env_def Let_def avoiding_append avoiding_audit split: prod.splits intro!: say_all_quiet)
    (metis snd_conv)

end

locale quiet_invariant = emission_invariant P boundary_types for P
begin

lemmas quiet = keeps

lemma tool_call_quiet: "quiet_env env \<Longrightarrow> P (ho_agent h) \<Longrightarrow> P (ho_agent (run_tool_call env turn step r tc h))"
proof -
  assume q: "quiet_env env" and p: "P (ho_agent h)"
  let ?h1 = "say env ''tool/call'' (AnyP (Some (enc_tool_call turn step tc
            (build_tool_call_view (le_parse env) (cb_name tc) (cb_arguments tc))))) None h"
  obtain h2 blocked where h2: "dispatch_hook env ''PreToolUse'' (cb_name tc) turn ?h1 = (h2, blocked)" by fastforce
  have "P (ho_agent ?h1)" by (rule say_quiet) (simp_all add: boundary_types_def p)
  from hook_quiet [OF q this, of "''PreToolUse''" "cb_name tc" turn] h2 have p2: "P (ho_agent h2)" by simp
  obtain h3 res is_err where h3: "(if blocked then (h2, ''[blocked by PreToolUse hook]'', True) else run_pipeline env r tc h2) = (h3, res, is_err)"
    by (metis prod_cases3)
  have "P (ho_agent h3)" using h3 p2 pipeline_quiet [OF q _ _ p2, of r tc] by (auto simp: boundary_types_def split: if_splits)
  then have "P (ho_agent (say env EventToolResult (AnyP (Some j)) op h3))" for j op
    by (rule say_quiet [rotated]) (simp add: boundary_types_def)
  from hook_quiet [OF q this] show ?thesis
    unfolding run_tool_call_def Let_def h2 prod.case h3 .
qed

lemma tool_calls_quiet: "quiet_env env \<Longrightarrow> P (ho_agent h) \<Longrightarrow> P (ho_agent (fst (run_tool_calls env turn step tcs ctxs h)))"
proof (induction env turn step tcs ctxs h rule: run_tool_calls.induct)
  case (2 env turn step tc tcs ctxs h)
  define h' where "h' = (case ho_registry h of None \<Rightarrow> h | Some r \<Rightarrow> run_tool_call env turn step r tc h)"
  have p: "P (ho_agent h')" using 2(3,4) by (auto simp: h'_def tool_call_quiet split: option.split)
  show ?case
  proof (cases ctxs)
    case Nil
    with 2(1) [of h'] 2(3) p show ?thesis by (simp add: h'_def)
  next
    case (Cons c ctxs')
    with 2(2) [of h' c ctxs'] 2(3) p show ?thesis by (cases c) (simp_all add: h'_def)
  qed
qed simp

lemma assistant_quiet: "P (ho_agent h) \<Longrightarrow> P (ho_agent (say_assistant env turn step blocks usage i h))"
  unfolding say_assistant_def by (rule say_quiet) (simp_all add: boundary_types_def)

lemma next_step_quiet: "P (ho_agent h) \<Longrightarrow> P (ho_agent (say_next_step env b h))"
  unfolding say_next_step_def by (rule say_quiet) (simp_all add: boundary_types_def)

lemma title_quiet: "P (ho_agent h) \<Longrightarrow> P (ho_agent (title_event env h))"
  using read_quiet [of "ho_agent h" "le_reads env"]
  by (auto simp: title_event_def Let_def boundary_types_def split: option.split prod.split intro!: say_quiet)

text \<open>A compaction appends only raw events that are not boundaries.\<close>

lemma append_quiet: "env_type env \<notin> set boundary_types \<Longrightarrow> P a \<Longrightarrow> P (fst (agent_append env a))"
  unfolding agent_raw_op by (rule quiet) (simp add: avoiding_op_def)

lemma transaction_quiet:
  assumes "P a" and "tx_append env = agent_append" and "tx_flush env = None"
  shows "P (fst (compact_transaction e env options events nodes a))"
proof -
  have ap: "P (fst (agent_append (new_envelope sq now ty data) b))" if "P b" "ty \<notin> set boundary_types" for sq now ty data b
    by (rule append_quiet) (use that in \<open>simp_all add: new_envelope_def\<close>)
  have close: "P (close_failure env options cause b)" if "P b" for cause b
    using ap [OF that, of EventCompactionEnd] assms(2) by (simp add: close_failure_def boundary_types_def)
  have cend: "P (fst (commit_end env options ow b))" if "P b" for ow b
    using ap [OF that, of EventCompactionEnd] assms(2) by (simp add: commit_end_def boundary_types_def)
  have rep: "P (fst (agent_append (replacement_envelope env options sel framed i j) b))" if "P b" for sel framed i j b
    by (rule append_quiet) (use that in \<open>simp_all add: replacement_envelope_def new_envelope_def boundary_types_def\<close>)
  have body: "P (fst (commit_body e env options sel st tokens sr framed b))" if "P b" for sel st tokens sr framed b
  proof -
    let ?sm = "new_envelope 0 (tx_now env 1) EventCompactionSummary
      (summary_payload e (tx_compaction_id env) (to_command options) sel tokens sr)"
    have "P (fst (agent_append ?sm b))" by (rule ap) (simp_all add: that boundary_types_def)
    with rep show ?thesis
      unfolding commit_body_def assms(2) by (auto split: prod.splits sum.splits) (metis fst_conv)+
  qed
  have bracket: "P (fst (run_bracket e env options events nodes sel ow st b))" if "P b" for sel ow st b
  proof (cases "produce_summary e env options events nodes sel b")
    case (Inl x)
    then show ?thesis using close [OF that] by (cases x) (simp add: run_bracket_def)
  next
    case (Inr x)
    obtain sr framed tokens where x: "x = (sr, framed, tokens)" by (metis prod_cases3)
    obtain s2 r2 where b2: "commit_body e env options sel st tokens sr framed b = (s2, r2)" by fastforce
    with body [OF that, of sel st tokens sr framed] have p2: "P s2" by simp
    obtain s3 r3 where b3: "commit_end env options ow s2 = (s3, r3)" by fastforce
    with cend [OF p2, of ow] have p3: "P s3" by simp
    show ?thesis
      using Inr x b2 b3 p3 close [OF p2] close [OF p3] assms(3)
      by (cases r2; cases r3) (simp_all add: run_bracket_def Let_def)
  qed
  show ?thesis
  proof (cases "admit_compaction env options events nodes")
    case (Inl err)
    with assms(1) show ?thesis by (simp add: compact_transaction_def)
  next
    case (Inr x)
    obtain sel ow where x: "x = (sel, ow)" by fastforce
    let ?st = "new_envelope 0 (tx_now env 0) EventCompactionStart (start_payload (tx_compaction_id env) (to_command options) ow)"
    obtain s1 r1 where a1: "agent_append ?st a = (s1, r1)" by fastforce
    have "P (fst (agent_append ?st a))" by (rule ap) (simp_all add: assms(1) boundary_types_def)
    with a1 have "P s1" by simp
    with Inr x a1 bracket assms(2) show ?thesis by (cases r1) (simp_all add: compact_transaction_def)
  qed
qed

lemma compact_quiet: "P a \<Longrightarrow> P (maybe_compact compactor env x y a)"
proof (cases compactor)
  case (Some e)
  assume p: "P a"
  obtain a1 log where r: "(if ag_persist a \<noteq> None then cached_session_events x y a
      else (a, case ag_segment a of Some l \<Rightarrow> l | None \<Rightarrow> [])) = (a1, log)" by fastforce
  then have p1: "P a1" using p quiet [of "OpRead x y" a] by (auto simp: avoiding_op_def split: if_splits)
  have inv: "P (invalidate_log_cache b)" if "P b" for b
    using quiet [of OpInvalidate b] that by (simp add: avoiding_op_def)
  have tx: "P (fst (compact_transaction e (agent_env env) options events nodes a1))" for options events nodes
    by (rule transaction_quiet [OF p1]) (simp_all add: agent_env_def)
  show ?thesis
    unfolding maybe_compact_def Some option.case r Let_def prod.case
    using p1 inv tx by (auto split: sum.split option.split)
qed (simp add: maybe_compact_def)

end

section \<open>Invariants of whole turns\<close>

definition proper_payload :: "string \<Rightarrow> event_payload \<Rightarrow> bool" where
  "proper_payload ty p \<longleftrightarrow> payload_json p \<noteq> None \<and> (ty = EventTurnEnd \<longrightarrow> (\<exists>t r. p = TurnEndP t r))"

lemma proper_payloads [simp]:
  "proper_payload ty (TurnEndP t r)" "ty \<noteq> EventTurnEnd \<Longrightarrow> proper_payload ty (AnyP (Some j))"
  by (simp_all add: proper_payload_def payload_json_def)

definition result_host :: "'w step_result \<Rightarrow> 'w host" where
  "result_host r = (case r of NextRound h s c \<Rightarrow> h | StepsOver h s \<Rightarrow> h | TurnClosed h \<Rightarrow> h | ActorExit h \<Rightarrow> h)"

lemma result_host_simps [simp]:
  "result_host (NextRound h s c) = h" "result_host (StepsOver h s) = h" "result_host (TurnClosed h) = h"
  "result_host (ActorExit h) = h"
  by (simp_all add: result_host_def)

locale agent_invariant =
  fixes P :: "agent \<Rightarrow> bool"
  assumes proper: "proper_op x \<Longrightarrow> P a \<Longrightarrow> P (agent_step x a)"

sublocale agent_invariant \<subseteq> quiet_invariant P
  by unfold_locales (blast intro: proper quiet_proper)

context agent_invariant
begin

lemma say_proper: "proper_payload ty p \<Longrightarrow> P (ho_agent h) \<Longrightarrow> P (ho_agent (say env ty p op h))"
  unfolding say_agent by (rule proper) (simp_all add: proper_op_def proper_payload_def)

lemma finish_proper: "P (ho_agent h) \<Longrightarrow> P (ho_agent (finish_turn_reason env kind msg h))"
  by (simp add: finish_turn_reason_def Let_def say_proper)

lemma boundary_proper: "proper_payload ty p \<Longrightarrow> P (ho_agent h) \<Longrightarrow> P (ho_agent (fst (emit_boundary env ty p h)))"
proof -
  assume "proper_payload ty p" "P (ho_agent h)"
  from say_proper [OF this, of env None] have "P (fst (emit_at env ty p None (ho_agent h)))" by (simp add: say_def)
  then show ?thesis
    by (auto simp: emit_boundary_def split: prod.split sum.split emit_error.split intro!: finish_proper)
qed

lemma abort_proper: "P (ho_agent h) \<Longrightarrow> P (ho_agent (abort_turn env h))"
  by (simp add: abort_turn_def finish_proper)

lemma route_proper: "P (ho_agent (ss_host st)) \<Longrightarrow> P (ho_agent (ss_host (route_step_fatal env turn step e ctx st)))"
proof (cases ctx)
  case CtxLive
  assume p: "P (ho_agent (ss_host st))"
  obtain h1 ok where b: "emit_boundary env EventStepEnd (AnyP (Some (turn_step_json turn step))) (ss_host st) = (h1, ok)" by fastforce
  have "P (ho_agent (fst (emit_boundary env EventStepEnd (AnyP (Some (turn_step_json turn step))) (ss_host st))))"
    by (rule boundary_proper) (simp_all add: p)
  with b have "P (ho_agent h1)" by simp
  then have "P (ho_agent (fst (turn_end_error env turn e h1)))"
    unfolding turn_end_error_def by (rule boundary_proper [rotated]) simp
  with CtxLive b \<open>P (ho_agent h1)\<close> show ?thesis by (cases ok) (simp_all add: route_step_fatal_def)
qed (simp_all add: route_step_fatal_def)

lemma stream_proper:
  "stream_loop env turn step os st = Done st' \<Longrightarrow> \<forall>x\<in>set os. quiet_obs x \<Longrightarrow> P (ho_agent (ss_host st)) \<Longrightarrow>
     P (ho_agent (ss_host st'))"
proof (induction env turn step os st arbitrary: st' rule: stream_loop.induct)
  case (7 env turn step c os st)
  from 7(2) obtain asm where a: "ingest_chunk c (ss_asm st) = Some asm" by (auto split: option.splits)
  have "P (ho_agent (say env ''assistant/chunk'' (AnyP (Some (chunk_payload turn step c))) None (ss_host st)))"
    by (rule say_quiet) (use 7(4) in \<open>simp_all add: boundary_types_def\<close>)
  with 7(1) [OF a] 7(2,3) a show ?case by simp
next
  case (8 env turn step drained ctx1 ctx2 os st)
  define st1 where "st1 = (case drained of None \<Rightarrow> st | Some e \<Rightarrow> route_step_fatal env turn step e ctx1 st)"
  have "P (ho_agent (ss_host st1))" using 8(3) by (auto simp: st1_def route_proper split: option.split)
  with 8(1) show ?case by (auto simp: st1_def [symmetric] Let_def route_proper split: if_splits)
next
  case (9 env turn step ty j os st)
  have "P (ho_agent (say env ty (AnyP (Some j)) None (ss_host st)))"
    by (rule say_quiet) (use 9(3,4) in \<open>simp_all add: avoiding_obs_def\<close>)
  with 9(1) 9(2,3) show ?case by simp
qed (auto simp: route_proper split: if_splits)

lemma settle_proper:
  assumes "quiet_env env" and "P (ho_agent h)"
  shows "P (ho_agent (result_host (settle_step env turn step blocks ctxs sticky h)))"
proof -
  have close: "P (ho_agent h1)" if "emit_boundary env EventStepEnd (AnyP (Some (turn_step_json turn step))) h' = (h1, ok)"
    "P (ho_agent h')" for h' h1 ok
    using boundary_proper [of EventStepEnd "AnyP (Some (turn_step_json turn step))" h' env] that by simp
  let ?calls = "filter (\<lambda>b. cb_type b = ''tool-call'') blocks"
  obtain h' c where r: "run_tool_calls env turn step ?calls ctxs h = (h', c)" by fastforce
  have "P (ho_agent h')" using tool_calls_quiet [OF assms, of turn step ?calls ctxs] r by simp
  with assms(2) r show ?thesis
    by (cases c) (auto simp: settle_step_def Let_def abort_proper split: prod.splits bool.splits dest: close)
qed

lemma after_stream_proper:
  assumes "quiet_env env" and "P (ho_agent (ss_host st))"
  shows "P (ho_agent (result_host (after_stream env turn step ctxs sticky st)))"
proof -
  obtain blocks usage finish where r: "assembler_result (ss_asm st) = (blocks, usage, finish)" by (metis prod_cases3)
  let ?h1 = "\<lambda>i. if blocks \<noteq> [] then say_assistant env turn step blocks usage i (ss_host st) else ss_host st"
  have h1: "P (ho_agent (?h1 i))" for i using assms(2) by (simp add: assistant_quiet)
  obtain h2 ok where b: "emit_boundary env EventStepEnd (AnyP (Some (turn_step_json turn step))) (?h1 True) = (h2, ok)" by fastforce
  have "P (ho_agent (fst (emit_boundary env EventStepEnd (AnyP (Some (turn_step_json turn step))) (?h1 True))))"
    by (rule boundary_proper [OF _ h1]) simp
  with b have p2: "P (ho_agent h2)" by simp
  have st: "P (ho_agent (result_host (settle_step env turn step blocks ctxs s (say_assistant env turn step blocks usage False (ss_host st)))))" for s
    by (rule settle_proper [OF assms(1)]) (rule assistant_quiet [OF assms(2)])
  show ?thesis
  proof (cases "ss_next st")
    case (Some blk)
    with r b p2 assms(2) show ?thesis
      by (cases ok) (simp_all add: after_stream_def Let_def abort_proper next_step_quiet)
  next
    case None
    with r st h1 [of False] assms(2) show ?thesis
      by (simp add: after_stream_def Let_def abort_proper finish_proper)
  qed
qed

lemma open_step_proper: "P (ho_agent h) \<Longrightarrow> P (ho_agent (fst (open_step env reads h)))"
proof -
  assume "P (ho_agent h)"
  then have "P (ho_agent (say env EventStepStart (AnyP (Some (turn_step_json 0 0))) None h))"
    by (rule say_proper [rotated]) simp
  from read_quiet [OF this, of reads] show ?thesis
    by (auto simp: open_step_def Let_def boundary_types_def split: prod.split intro!: say_quiet)
qed

lemma step_round_proper:
  assumes "quiet_env env" and "quiet_round rd" and "P (ho_agent h)" and "step_round env turn rd sticky closed h = Done r"
  shows "P (ho_agent (result_host r))"
proof (cases "rd_queued rd")
  case (Some b)
  obtain h1 ok where e: "emit_boundary env EventStepEnd (AnyP (Some (turn_step_json 0 0))) h = (h1, ok)" by fastforce
  have "P (ho_agent (fst (emit_boundary env EventStepEnd (AnyP (Some (turn_step_json 0 0))) h)))"
    by (rule boundary_proper [OF _ assms(3)]) simp
  with e Some assms(4) show ?thesis by (cases ok) (auto simp: step_round_def next_step_quiet)
next
  case None
  obtain h1 step req where o: "open_step env (rd_reads rd) h = (h1, step, req)" by (metis prod_cases3)
  with open_step_proper [OF assms(3), of env "rd_reads rd"] have p1: "P (ho_agent h1)" by simp
  let ?st = "\<lparr>ss_host = h1, ss_asm = new_assembler, ss_next = None, ss_actor_stopped = False, ss_turn_aborted = False, ss_failed = False\<rparr>"
  have q: "\<forall>x\<in>set (rd_stream rd req). quiet_obs x" using assms(2) by (simp add: avoiding_round_def)
  show ?thesis
  proof (cases "if closed \<and> rd_select rd = CtxLive then TurnCancelled else rd_select rd")
    case CtxLive
    with None o assms(4) obtain st where s: "stream_loop env turn step (rd_stream rd req) ?st = Done st"
      "r = after_stream env turn step (rd_after_tools rd) sticky st"
      by (auto simp: step_round_def split: progress.splits)
    have "P (ho_agent (ss_host st))" by (rule stream_proper [OF s(1) q]) (simp add: p1)
    with after_stream_proper [OF assms(1)] s(2) show ?thesis by simp
  qed (use None assms(3,4) in \<open>auto simp: step_round_def abort_proper\<close>)
qed

lemma close_turn_proper: "P (ho_agent h) \<Longrightarrow> P (ho_agent (close_turn env turn sticky h))"
proof -
  assume p: "P (ho_agent h)"
  let ?p = "TurnEndP turn (enc_turn_end_reason (if sticky then ''max-tokens'' else ''completed'') [] [])"
  obtain h1 ok where b: "emit_boundary env EventTurnEnd ?p h = (h1, ok)" by fastforce
  have "P (ho_agent (fst (emit_boundary env EventTurnEnd ?p h)))" by (rule boundary_proper [OF _ p]) simp
  with b have "P (ho_agent (idle_host h1))" by simp
  with b title_quiet [OF this, of env] show ?thesis by (simp add: close_turn_def Let_def compact_quiet)
qed

lemma step_loop_proper:
  "quiet_env env \<Longrightarrow> \<forall>rd\<in>set rds. quiet_round rd \<Longrightarrow> P (ho_agent h) \<Longrightarrow>
     step_loop env turn rds sticky closed h = Done (h', b) \<Longrightarrow> P (ho_agent h')"
proof (induction rds arbitrary: sticky closed h)
  case (Cons rd rds)
  from Cons.prems(4) obtain r where r: "step_round env turn rd sticky closed h = Done r" by (auto split: progress.splits)
  have p: "P (ho_agent (result_host r))" by (rule step_round_proper [OF Cons.prems(1) _ Cons.prems(3) r]) (use Cons.prems(2) in simp)
  show ?case
  proof (cases r)
    case (NextRound h1 s c)
    with r p Cons.IH [OF Cons.prems(1) _ _, of h1 s c] Cons.prems(2,4) show ?thesis by simp
  qed (use r p Cons.prems(4) in \<open>auto simp: close_turn_proper\<close>)
qed simp

lemma process_turn_proper:
  assumes "quiet_env env" and "\<forall>rd\<in>set rds. quiet_round rd" and "P (ho_agent h)"
    and "process_turn env m rds h = Done (h', b)"
  shows "P (ho_agent h')"
proof -
  let ?h0 = "h\<lparr>ho_running := True, ho_agent := reset_steps (ho_agent h)\<rparr>"
  have p0: "P (ho_agent ?h0)" using proper [of OpResetSteps "ho_agent h"] assms(3) by (simp add: proper_op_def)
  obtain h1 ok where e: "emit_boundary env EventTurnStart (AnyP (Some (turn_json 0))) ?h0 = (h1, ok)" by fastforce
  have "P (ho_agent (fst (emit_boundary env EventTurnStart (AnyP (Some (turn_json 0))) ?h0)))"
    by (rule boundary_proper [OF _ p0]) simp
  with e have p1: "P (ho_agent h1)" by simp
  let ?h2 = "say env EventUserMessage (AnyP (Some (enc_wire_message m))) (Some append_surface_op) h1"
  have "P (ho_agent ?h2)" by (rule say_quiet) (simp_all add: p1 boundary_types_def)
  from hook_quiet [OF assms(1) this, of "''UserPromptSubmit''" "[]" "ag_active_turn (ho_agent h1)"]
  have p3: "P (ho_agent (fst (dispatch_hook env ''UserPromptSubmit'' [] (ag_active_turn (ho_agent h1)) ?h2)))" .
  show ?thesis
  proof (cases ok)
    case True
    then have "step_loop env (ag_active_turn (ho_agent h1)) rds False False
        (fst (dispatch_hook env ''UserPromptSubmit'' [] (ag_active_turn (ho_agent h1)) ?h2)) = Done (h', b)"
      using e assms(4) by (simp add: process_turn_def Let_def)
    from step_loop_proper [OF assms(1,2) p3 this] show ?thesis .
  next
    case False
    with e p1 assms(4) show ?thesis by (auto simp: process_turn_def)
  qed
qed

lemma actor_loop_proper:
  "quiet_env env \<Longrightarrow> \<forall>(m, rds)\<in>set inputs. \<forall>rd\<in>set rds. quiet_round rd \<Longrightarrow> P (ho_agent h) \<Longrightarrow>
     actor_loop env inputs h = Done (h', b) \<Longrightarrow> P (ho_agent h')"
proof (induction inputs arbitrary: h)
  case (Cons x inputs)
  obtain m rds where x: "x = (m, rds)" by fastforce
  with Cons.prems(4) obtain h1 b1 where t: "process_turn env m rds h = Done (h1, b1)" by (auto split: progress.splits)
  have "P (ho_agent h1)" by (rule process_turn_proper [OF Cons.prems(1) _ Cons.prems(3) t]) (use Cons.prems(2) x in auto)
  with Cons t x show ?case by (cases b1) auto
qed simp

end

interpretation keeps_log: agent_invariant log_inv
  by unfold_locales (simp add: agent_step_log)

interpretation keeps_grammar: agent_invariant in_step_with
  by unfold_locales (rule in_step_op)

end
