(* ===== verification/Turn_Phases.thy ===== *)
theory Turn_Phases imports Turn_Laws begin

text \<open>
  The phases of the turn machine through the actor loop: idle, inside a turn, inside a step.  They
  hold whatever the store does, because a transition is made before the event is appended.
\<close>

section \<open>The registers after an emission\<close>

lemma emit_regs:
  "ag_turn_number (fst (emit_event ty p op now a)) = ag_turn_number (fst (validate_transition ty a))"
  "ag_step_number (fst (emit_event ty p op now a)) = ag_step_number (fst (validate_transition ty a))"
  "ag_active_turn (fst (emit_event ty p op now a)) = ag_active_turn (fst (validate_transition ty a))"
  "ag_active_step (fst (emit_event ty p op now a)) = ag_active_step (fst (validate_transition ty a))"
  by (auto simp: emit_event_def reserve_seq_def persist_event_def Let_def split: prod.split option.split sum.split)

lemma emit_rejected:
  assumes "emit_event ty p op now a = (a', Inl (InvalidTransition t k))"
  shows "a' = a \<and> snd (validate_transition ty a) \<noteq> None"
proof -
  obtain a1 q where vt: "validate_transition ty a = (a1, q)" by fastforce
  show ?thesis
  proof (cases q)
    case None
    with vt assms show ?thesis
      by (auto simp: emit_event_def reserve_seq_def persist_event_def append_batch_def Let_def
          split: option.splits sum.splits if_splits)
  next
    case (Some e)
    with vt assms show ?thesis by (auto simp: emit_event_def validate_transition_def split: if_splits)
  qed
qed

definition idle_at :: "int \<Rightarrow> agent \<Rightarrow> bool" where
  "idle_at n a \<longleftrightarrow> ag_turn_number a = n \<and> 0 \<le> ag_step_number a \<and> ag_active_turn a = 0 \<and> ag_active_step a = 0"

definition in_turn :: "int \<Rightarrow> agent \<Rightarrow> bool" where
  "in_turn n a \<longleftrightarrow> ag_turn_number a = n \<and> 0 \<le> ag_step_number a \<and> 0 < n \<and> ag_active_turn a = n \<and> ag_active_step a = 0"

definition in_step :: "int \<Rightarrow> agent \<Rightarrow> bool" where
  "in_step n a \<longleftrightarrow> ag_turn_number a = n \<and> 0 \<le> ag_step_number a \<and> 0 < n \<and> ag_active_turn a = n \<and> ag_active_step a \<noteq> 0"

lemmas phase_defs = idle_at_def in_turn_def in_step_def

lemma quiet_regs:
  assumes "quiet_op x"
  shows "ag_turn_number (agent_step x a) = ag_turn_number a \<and> ag_step_number (agent_step x a) = ag_step_number a \<and>
    ag_active_turn (agent_step x a) = ag_active_turn a \<and> ag_active_step (agent_step x a) = ag_active_step a"
proof (cases x)
  case (OpEmit ty p op now)
  then have "validate_transition ty a = (a, None)"
    using assms by (simp add: avoiding_op_def boundary_types_def validate_transition_def)
  with OpEmit show ?thesis by (simp add: emit_regs)
next
  case (OpRaw env)
  then show ?thesis
    by (auto simp: emit_raw_def reserve_seq_def persist_event_def Let_def split: prod.split option.split sum.split)
next
  case (OpRead p q)
  then show ?thesis by (auto simp: cached_session_events_def Let_def split: prod.split)
qed (use assms in \<open>simp_all add: avoiding_op_def invalidate_log_cache_def\<close>)

interpretation idle_phase: quiet_invariant "idle_at n" for n
  by unfold_locales (simp add: idle_at_def quiet_regs)

interpretation turn_phase: quiet_invariant "in_turn n" for n
  by unfold_locales (simp add: in_turn_def quiet_regs)

interpretation step_phase: quiet_invariant "in_step n" for n
  by unfold_locales (simp add: in_step_def quiet_regs)

section \<open>Boundaries\<close>

lemma say_regs:
  "ag_turn_number (ho_agent (say env ty p op h)) = ag_turn_number (fst (validate_transition ty (ho_agent h)))"
  "ag_step_number (ho_agent (say env ty p op h)) = ag_step_number (fst (validate_transition ty (ho_agent h)))"
  "ag_active_turn (ho_agent (say env ty p op h)) = ag_active_turn (fst (validate_transition ty (ho_agent h)))"
  "ag_active_step (ho_agent (say env ty p op h)) = ag_active_step (fst (validate_transition ty (ho_agent h)))"
  by (simp_all add: say_def emit_at_def emit_regs)

lemma finish_idle:
  assumes "idle_at n (ho_agent h) \<or> in_turn n (ho_agent h) \<or> in_step n (ho_agent h)"
  shows "idle_at n (ho_agent (finish_turn_reason env kind msg h))"
  using assms by (auto simp: finish_turn_reason_def Let_def phase_defs say_regs validate_transition_def)

lemma abort_idle:
  assumes "idle_at n (ho_agent h) \<or> in_turn n (ho_agent h) \<or> in_step n (ho_agent h)"
  shows "idle_at n (ho_agent (abort_turn env h)) \<and> \<not> ho_running (abort_turn env h)"
  using finish_idle [OF assms] by (simp add: abort_turn_def)

text \<open>The three outcomes of a boundary: written, refused by the machine, or lost and the turn closed.\<close>

lemma boundary_cases:
  assumes "emit_boundary env ty p h = (h', ok)"
  obtains (written) env' where "ok" "emit_at env ty p None (ho_agent h) = (ho_agent h', Inr env')" "h' = h\<lparr>ho_agent := ho_agent h'\<rparr>"
    | (refused) "ok" "h' = h" "snd (validate_transition ty (ho_agent h)) \<noteq> None"
    | (lost) a' msg where "\<not> ok" "a' = fst (emit_at env ty p None (ho_agent h))"
        "snd (validate_transition ty (ho_agent h)) = None"
        "h' = finish_turn_reason env ''error'' msg (h\<lparr>ho_agent := a'\<rparr>)"
proof -
  obtain a' r where e: "emit_at env ty p None (ho_agent h) = (a', r)" by fastforce
  show thesis
  proof (cases r)
    case (Inr env')
    with e assms show thesis by (intro written) (auto simp: emit_boundary_def)
  next
    case (Inl err)
    show thesis
    proof (cases "\<exists>t k. err = InvalidTransition t k")
      case True
      then obtain t k where err: "err = InvalidTransition t k" by blast
      with e Inl have "emit_event ty p None (le_now env (ag_seq_counter (ho_agent h))) (ho_agent h) = (a', Inl (InvalidTransition t k))"
        by (simp add: emit_at_def)
      from emit_rejected [OF this] have "a' = ho_agent h" "snd (validate_transition ty (ho_agent h)) \<noteq> None" by simp_all
      with e Inl err assms show thesis by (intro refused) (auto simp: emit_boundary_def)
    next
      case False
      have "snd (validate_transition ty (ho_agent h)) = None"
      proof (rule ccontr)
        assume "snd (validate_transition ty (ho_agent h)) \<noteq> None"
        then obtain er where vt: "snd (validate_transition ty (ho_agent h)) = Some er" by blast
        then have "\<exists>t k. er = InvalidTransition t k" by (auto simp: validate_transition_def split: if_splits)
        moreover have "r = Inl er"
          using e vt by (cases "validate_transition ty (ho_agent h)") (simp add: emit_at_def emit_event_def)
        ultimately show False using False Inl by simp
      qed
      with False e Inl assms show thesis
        by (intro lost [of a' "''boundary '' @ ty @ '' persist failed: '' @ le_error_text env err"])
          (auto simp: emit_boundary_def split: emit_error.splits)
    qed
  qed
qed

lemma emit_at_regs:
  "ag_turn_number (fst (emit_at env ty p op a)) = ag_turn_number (fst (validate_transition ty a))"
  "ag_step_number (fst (emit_at env ty p op a)) = ag_step_number (fst (validate_transition ty a))"
  "ag_active_turn (fst (emit_at env ty p op a)) = ag_active_turn (fst (validate_transition ty a))"
  "ag_active_step (fst (emit_at env ty p op a)) = ag_active_step (fst (validate_transition ty a))"
  by (simp_all add: emit_at_def emit_regs)

lemma step_end_phase:
  assumes "emit_boundary env EventStepEnd p h = (h', ok)" and "in_step n (ho_agent h)"
  shows "if ok then in_turn n (ho_agent h') else idle_at n (ho_agent h')"
  using assms(1)
proof (cases rule: boundary_cases)
  case (written env')
  have "ho_agent h' = fst (emit_at env EventStepEnd p None (ho_agent h))" using written(2) by simp
  with written(1) assms(2) show ?thesis by (simp add: phase_defs emit_at_regs validate_transition_def)
next
  case refused
  with assms(2) show ?thesis by (simp add: in_step_def validate_transition_def)
next
  case (lost a' msg)
  have "in_turn n a'" using assms(2) unfolding lost(2) by (simp add: phase_defs emit_at_regs validate_transition_def)
  with lost(1) finish_idle [of n "h\<lparr>ho_agent := a'\<rparr>" env "''error''" msg] show ?thesis unfolding lost(4) by simp
qed

lemma step_end_outside:
  assumes "emit_boundary env EventStepEnd p h = (h', ok)" and "in_turn n (ho_agent h) \<or> idle_at n (ho_agent h)"
  shows "ok \<and> h' = h"
  using assms(1)
proof (cases rule: boundary_cases)
  case (written env')
  have "\<exists>e. validate_transition EventStepEnd (ho_agent h) = (ho_agent h, Some e)"
    using assms(2) by (auto simp: phase_defs validate_transition_def)
  then have "\<exists>e. snd (emit_at env EventStepEnd p None (ho_agent h)) = Inl e" by (auto simp: emit_at_def emit_event_def)
  with written(2) show ?thesis by simp
next
  case (lost a' msg)
  with assms(2) show ?thesis by (auto simp: phase_defs validate_transition_def)
qed simp

lemma turn_end_phase:
  assumes "emit_boundary env EventTurnEnd p h = (h', ok)" and "in_turn n (ho_agent h)"
  shows "idle_at n (ho_agent h')"
  using assms(1)
proof (cases rule: boundary_cases)
  case (written env')
  have "ho_agent h' = fst (emit_at env EventTurnEnd p None (ho_agent h))" using written(2) by simp
  with assms(2) show ?thesis by (simp add: phase_defs emit_at_regs validate_transition_def)
next
  case refused
  with assms(2) show ?thesis by (simp add: in_turn_def validate_transition_def)
next
  case (lost a' msg)
  have "idle_at n a'" using assms(2) unfolding lost(2) by (simp add: phase_defs emit_at_regs validate_transition_def)
  with finish_idle [of n "h\<lparr>ho_agent := a'\<rparr>" env "''error''" msg] show ?thesis unfolding lost(4) by simp
qed

lemma turn_start_phase:
  assumes "emit_boundary env EventTurnStart p h = (h', ok)" and "idle_at n (ho_agent h)" and "0 \<le> n"
  shows "if ok then in_turn (n + 1) (ho_agent h') else idle_at (n + 1) (ho_agent h')"
  using assms(1)
proof (cases rule: boundary_cases)
  case (written env')
  have "ho_agent h' = fst (emit_at env EventTurnStart p None (ho_agent h))" using written(2) by simp
  with written(1) assms(2,3) show ?thesis by (simp add: phase_defs emit_at_regs validate_transition_def)
next
  case refused
  with assms(2) show ?thesis by (simp add: idle_at_def validate_transition_def)
next
  case (lost a' msg)
  have "in_turn (n + 1) a'" using assms(2,3) unfolding lost(2) by (simp add: phase_defs emit_at_regs validate_transition_def)
  with lost(1) finish_idle [of "n + 1" "h\<lparr>ho_agent := a'\<rparr>" env "''error''" msg] show ?thesis unfolding lost(4) by simp
qed

section \<open>Steps and turns\<close>

lemma open_step_phase: "in_turn n (ho_agent h) \<Longrightarrow> in_step n (ho_agent (fst (open_step env reads h)))"
proof -
  assume "in_turn n (ho_agent h)"
  then have "in_step n (ho_agent (say env EventStepStart (AnyP (Some (turn_step_json 0 0))) None h))"
    by (simp add: phase_defs say_regs validate_transition_def)
  from step_phase.read_quiet [OF this, of reads] show ?thesis
    by (auto simp: open_step_def Let_def boundary_types_def split: prod.split intro!: step_phase.say_quiet)
qed

lemma route_phase:
  assumes "in_step n (ho_agent (ss_host st))"
  shows "(if ctx = CtxLive then ss_failed (route_step_fatal env turn step e ctx st) \<and>
       idle_at n (ho_agent (ss_host (route_step_fatal env turn step e ctx st)))
     else ss_host (route_step_fatal env turn step e ctx st) = ss_host st \<and>
       ss_failed (route_step_fatal env turn step e ctx st) = ss_failed st \<and>
       (ss_actor_stopped (route_step_fatal env turn step e ctx st) \<or> ss_turn_aborted (route_step_fatal env turn step e ctx st)))"
proof (cases ctx)
  case CtxLive
  obtain h1 ok where b: "emit_boundary env EventStepEnd (AnyP (Some (turn_step_json turn step))) (ss_host st) = (h1, ok)" by fastforce
  note ph = step_end_phase [OF b assms]
  show ?thesis
  proof (cases ok)
    case True
    obtain h2 ok2 where b2: "turn_end_error env turn e h1 = (h2, ok2)" by fastforce
    with ph True have "idle_at n (ho_agent h2)" unfolding turn_end_error_def by (simp add: turn_end_phase)
    with CtxLive b b2 True show ?thesis by (simp add: route_step_fatal_def)
  next
    case False
    with CtxLive b ph show ?thesis by (simp add: route_step_fatal_def)
  qed
qed (simp_all add: route_step_fatal_def)

text \<open>After the stream: still in the step, or the turn is closed and the failure noted.\<close>

definition stream_phase :: "int \<Rightarrow> 'w stream_state \<Rightarrow> bool" where
  "stream_phase n st \<longleftrightarrow> (if ss_failed st then idle_at n (ho_agent (ss_host st)) else in_step n (ho_agent (ss_host st)))"

lemma stream_loop_phase:
  "stream_loop env turn step os st = Done st' \<Longrightarrow> \<forall>x\<in>set os. quiet_obs x \<Longrightarrow> stream_phase n st \<Longrightarrow> \<not> ss_failed st \<Longrightarrow>
     stream_phase n st'"
proof (induction env turn step os st arbitrary: st' rule: stream_loop.induct)
  case (6 env turn step e ctx os st)
  then have "in_step n (ho_agent (ss_host st))" by (simp add: stream_phase_def)
  from route_phase [OF this, of ctx env turn step e] 6 show ?case by (auto simp: stream_phase_def split: if_splits)
next
  case (7 env turn step c os st)
  from 7(2) obtain asm where a: "ingest_chunk c (ss_asm st) = Some asm" by (auto split: option.splits)
  have "in_step n (ho_agent (say env ''assistant/chunk'' (AnyP (Some (chunk_payload turn step c))) None (ss_host st)))"
    by (rule step_phase.say_quiet) (use 7(4,5) in \<open>simp_all add: boundary_types_def stream_phase_def\<close>)
  with 7(1) [OF a] 7(2,3,5) a show ?case by (simp add: stream_phase_def)
next
  case (8 env turn step drained ctx1 ctx2 os st)
  define st1 where "st1 = (case drained of None \<Rightarrow> st | Some e \<Rightarrow> route_step_fatal env turn step e ctx1 st)"
  have p0: "in_step n (ho_agent (ss_host st))" using 8(3,4) by (simp add: stream_phase_def)
  have p1: "stream_phase n st1"
  proof (cases drained)
    case None
    with 8(3) show ?thesis by (simp add: st1_def)
  next
    case (Some e)
    with route_phase [OF p0, of ctx1 env turn step e] p0 8(4) show ?thesis
      by (auto simp: st1_def stream_phase_def split: if_splits)
  qed
  have "stream_phase n (route_step_fatal env turn step e ctx2 st1)" if "ctx2 \<noteq> CtxLive" for e
    using p1 that by (cases ctx2) (auto simp: stream_phase_def route_step_fatal_def)
  with p1 8(1) show ?case by (auto simp: st1_def [symmetric] Let_def split: if_splits)
next
  case (9 env turn step ty j os st)
  have "in_step n (ho_agent (say env ty (AnyP (Some j)) None (ss_host st)))"
    by (rule step_phase.say_quiet) (use 9(3,4,5) in \<open>simp_all add: avoiding_obs_def stream_phase_def\<close>)
  with 9(1) 9(2,3,5) show ?case by (simp add: stream_phase_def)
qed (auto simp: stream_phase_def split: if_splits)

text \<open>What an iteration of the step loop leaves.\<close>

definition result_phase :: "int \<Rightarrow> 'w step_result \<Rightarrow> bool" where
  "result_phase n r \<longleftrightarrow> (case r of
      NextRound h s closed \<Rightarrow> if closed then idle_at n (ho_agent h) \<and> \<not> ho_running h else in_turn n (ho_agent h)
    | StepsOver h s \<Rightarrow> in_turn n (ho_agent h)
    | TurnClosed h \<Rightarrow> idle_at n (ho_agent h) \<and> \<not> ho_running h
    | ActorExit h \<Rightarrow> idle_at n (ho_agent h) \<and> \<not> ho_running h)"

lemma settle_phase:
  assumes "quiet_env env" and "in_step n (ho_agent h)"
  shows "result_phase n (settle_step env turn step blocks ctxs sticky h)"
proof -
  let ?calls = "filter (\<lambda>b. cb_type b = ''tool-call'') blocks"
  obtain h' c where r: "run_tool_calls env turn step ?calls ctxs h = (h', c)" by fastforce
  have p: "in_step n (ho_agent h')" using step_phase.tool_calls_quiet [OF assms, of turn step ?calls ctxs] r by simp
  obtain h1 ok where b: "emit_boundary env EventStepEnd (AnyP (Some (turn_step_json turn step))) h = (h1, ok)" by fastforce
  obtain h1' ok' where b': "emit_boundary env EventStepEnd (AnyP (Some (turn_step_json turn step))) h' = (h1', ok')" by fastforce
  show ?thesis
    using step_end_phase [OF b assms(2)] step_end_phase [OF b' p] abort_idle [of n h' env] p b b' r
    by (cases c; cases ok; cases ok') (simp_all add: settle_step_def result_phase_def Let_def)
qed

lemma after_stream_phase:
  assumes "quiet_env env" and "stream_phase n st"
  shows "result_phase n (after_stream env turn step ctxs sticky st)"
proof -
  obtain blocks usage finish where r: "assembler_result (ss_asm st) = (blocks, usage, finish)" by (metis prod_cases3)
  show ?thesis
  proof (cases "ss_actor_stopped st \<or> ss_turn_aborted st \<or> ss_failed st")
    case True
    from assms(2) have any: "idle_at n (ho_agent (ss_host st)) \<or> in_turn n (ho_agent (ss_host st)) \<or> in_step n (ho_agent (ss_host st))"
      by (auto simp: stream_phase_def split: if_splits)
    have "ss_failed st \<Longrightarrow> idle_at n (ho_agent (ss_host st))" using assms(2) by (simp add: stream_phase_def)
    with True abort_idle [OF any, of env] r show ?thesis by (auto simp: after_stream_def result_phase_def Let_def)
  next
    case False
    then have st: "in_step n (ho_agent (ss_host st))" using assms(2) by (simp add: stream_phase_def)
    let ?h1 = "\<lambda>i. if blocks \<noteq> [] then say_assistant env turn step blocks usage i (ss_host st) else ss_host st"
    have h1: "in_step n (ho_agent (?h1 i))" for i using st by (simp add: step_phase.assistant_quiet)
    obtain h2 ok where b: "emit_boundary env EventStepEnd (AnyP (Some (turn_step_json turn step))) (?h1 True) = (h2, ok)" by fastforce
    note e = step_end_phase [OF b h1]
    have "idle_at n (ho_agent (finish_turn_reason env ''error'' msg (?h1 False)))" for msg
      using finish_idle h1 [of False] by blast
    moreover have "result_phase n (settle_step env turn step blocks ctxs s (say_assistant env turn step blocks usage False (ss_host st)))" for s
      by (rule settle_phase [OF assms(1)]) (rule step_phase.assistant_quiet [OF st])
    ultimately show ?thesis
      using False r b e by (cases "ss_next st"; cases ok)
        (simp_all add: after_stream_def result_phase_def Let_def turn_phase.next_step_quiet)
  qed
qed

lemma step_round_phase:
  assumes "quiet_env env" and "quiet_round rd" and "step_round env turn rd sticky closed h = Done r"
    and "if closed then idle_at n (ho_agent h) \<and> \<not> ho_running h else in_turn n (ho_agent h)"
  shows "result_phase n r"
proof (cases "rd_queued rd")
  case (Some b)
  obtain h1 ok where e: "emit_boundary env EventStepEnd (AnyP (Some (turn_step_json 0 0))) h = (h1, ok)" by fastforce
  have "ok \<and> h1 = h" by (rule step_end_outside [OF e, of n]) (use assms(4) in \<open>auto split: if_splits\<close>)
  with e Some assms(3) have r: "r = NextRound (say_next_step env b h) sticky closed" by (simp add: step_round_def)
  show ?thesis
    using assms(4) idle_phase.next_step_quiet [of n h env b] turn_phase.next_step_quiet [of n h env b]
    by (auto simp: r result_phase_def say_next_step_def split: if_splits)
next
  case None
  obtain h1 step req where o: "open_step env (rd_reads rd) h = (h1, step, req)" by (metis prod_cases3)
  let ?st = "\<lparr>ss_host = h1, ss_asm = new_assembler, ss_next = None, ss_actor_stopped = False, ss_turn_aborted = False, ss_failed = False\<rparr>"
  have q: "\<forall>x\<in>set (rd_stream rd req). quiet_obs x" using assms(2) by (simp add: avoiding_round_def)
  have any: "idle_at n (ho_agent h) \<or> in_turn n (ho_agent h) \<or> in_step n (ho_agent h)"
    using assms(4) by (auto split: if_splits)
  show ?thesis
  proof (cases "if closed \<and> rd_select rd = CtxLive then TurnCancelled else rd_select rd")
    case CtxLive
    then have "\<not> closed" by (auto split: if_splits)
    with assms(4) o open_step_phase [of n h env "rd_reads rd"] have p1: "in_step n (ho_agent h1)" by simp
    from CtxLive None o assms(3) obtain st where s: "stream_loop env turn step (rd_stream rd req) ?st = Done st"
      "r = after_stream env turn step (rd_after_tools rd) sticky st"
      by (auto simp: step_round_def split: progress.splits)
    have "stream_phase n st" by (rule stream_loop_phase [OF s(1) q]) (simp_all add: p1 stream_phase_def)
    with after_stream_phase [OF assms(1)] s(2) show ?thesis by simp
  qed (use None assms(3) abort_idle [OF any, of env] in \<open>auto simp: step_round_def result_phase_def\<close>)
qed

lemma close_turn_phase: "in_turn n (ho_agent h) \<Longrightarrow> idle_at n (ho_agent (close_turn env turn sticky h)) \<and> \<not> ho_running (close_turn env turn sticky h)"
proof -
  assume p: "in_turn n (ho_agent h)"
  let ?p = "TurnEndP turn (enc_turn_end_reason (if sticky then ''max-tokens'' else ''completed'') [] [])"
  obtain h1 ok where b: "emit_boundary env EventTurnEnd ?p h = (h1, ok)" by fastforce
  from turn_end_phase [OF b p] have p1: "idle_at n (ho_agent (idle_host h1))" by simp
  have "ho_running (title_event env (idle_host h1)) = False"
    by (simp add: title_event_def Let_def split: option.split prod.split)
  with b p1 idle_phase.title_quiet [OF p1, of env] show ?thesis
    by (simp add: close_turn_def Let_def idle_phase.compact_quiet)
qed

lemma step_loop_phase:
  "quiet_env env \<Longrightarrow> \<forall>rd\<in>set rds. quiet_round rd \<Longrightarrow> step_loop env turn rds sticky closed h = Done (h', b) \<Longrightarrow>
     (if closed then idle_at n (ho_agent h) \<and> \<not> ho_running h else in_turn n (ho_agent h)) \<Longrightarrow>
     idle_at n (ho_agent h') \<and> \<not> ho_running h'"
proof (induction rds arbitrary: sticky closed h)
  case (Cons rd rds)
  from Cons.prems(3) obtain r where r: "step_round env turn rd sticky closed h = Done r" by (auto split: progress.splits)
  have p: "result_phase n r" by (rule step_round_phase [OF Cons.prems(1) _ r Cons.prems(4)]) (use Cons.prems(2) in simp)
  show ?case
  proof (cases r)
    case (NextRound h1 s c)
    have "if c then idle_at n (ho_agent h1) \<and> \<not> ho_running h1 else in_turn n (ho_agent h1)"
      using p NextRound by (simp add: result_phase_def)
    from Cons.IH [OF Cons.prems(1) _ _ this, of s] r NextRound Cons.prems(2,3) show ?thesis by simp
  qed (use r p Cons.prems(3) in \<open>auto simp: close_turn_phase result_phase_def\<close>)
qed simp

lemma process_turn_phase:
  assumes "quiet_env env" and "\<forall>rd\<in>set rds. quiet_round rd" and "process_turn env m rds h = Done (h', b)"
    and "idle_at n (ho_agent h)" and "0 \<le> n"
  shows "idle_at (n + 1) (ho_agent h') \<and> \<not> ho_running h'"
proof -
  let ?h0 = "h\<lparr>ho_running := True, ho_agent := reset_steps (ho_agent h)\<rparr>"
  have p0: "idle_at n (ho_agent ?h0)" using assms(4) by (simp add: idle_at_def reset_steps_def)
  obtain h1 ok where e: "emit_boundary env EventTurnStart (AnyP (Some (turn_json 0))) ?h0 = (h1, ok)" by fastforce
  note st = turn_start_phase [OF e p0 assms(5)]
  show ?thesis
  proof (cases ok)
    case True
    let ?h2 = "say env EventUserMessage (AnyP (Some (enc_wire_message m))) (Some append_surface_op) h1"
    let ?h3 = "fst (dispatch_hook env ''UserPromptSubmit'' [] (ag_active_turn (ho_agent h1)) ?h2)"
    have "in_turn (n + 1) (ho_agent ?h2)"
      by (rule turn_phase.say_quiet) (use st True in \<open>simp_all add: boundary_types_def\<close>)
    from turn_phase.hook_quiet [OF assms(1) this]
    have "if False then idle_at (n + 1) (ho_agent ?h3) \<and> \<not> ho_running ?h3 else in_turn (n + 1) (ho_agent ?h3)" by simp
    moreover have "step_loop env (ag_active_turn (ho_agent h1)) rds False False ?h3 = Done (h', b)"
      using True e assms(3) by (simp add: process_turn_def Let_def)
    ultimately show ?thesis using step_loop_phase [OF assms(1,2)] by blast
  next
    case False
    with e st assms(3) show ?thesis by (auto simp: process_turn_def)
  qed
qed

lemma actor_loop_phase:
  "quiet_env env \<Longrightarrow> \<forall>(m, rds)\<in>set inputs. \<forall>rd\<in>set rds. quiet_round rd \<Longrightarrow> actor_loop env inputs h = Done (h', b) \<Longrightarrow>
     idle_at n (ho_agent h) \<Longrightarrow> 0 \<le> n \<Longrightarrow> \<not> ho_running h \<Longrightarrow>
     (\<exists>k. k \<le> length inputs \<and> (\<not> b \<longrightarrow> k = length inputs) \<and> idle_at (n + int k) (ho_agent h')) \<and> \<not> ho_running h'"
proof (induction inputs arbitrary: h n)
  case (Cons x inputs)
  obtain m rds where x: "x = (m, rds)" by fastforce
  with Cons.prems(3) obtain h1 b1 where t: "process_turn env m rds h = Done (h1, b1)" by (auto split: progress.splits)
  have p: "idle_at (n + 1) (ho_agent h1) \<and> \<not> ho_running h1"
    by (rule process_turn_phase [OF Cons.prems(1) _ t Cons.prems(4,5)]) (use Cons.prems(2) x in auto)
  show ?case
  proof (cases b1)
    case True
    with t x Cons.prems(3) p show ?thesis by (auto intro!: exI [of _ "Suc 0"])
  next
    case False
    with t x Cons.prems(3) have "actor_loop env inputs h1 = Done (h', b)" by simp
    from Cons.IH [OF Cons.prems(1) _ this, of "n + 1"] Cons.prems(2,5) p obtain k where
      "k \<le> length inputs" "\<not> b \<longrightarrow> k = length inputs" "idle_at (n + 1 + int k) (ho_agent h')" "\<not> ho_running h'" by auto
    then show ?thesis by (auto intro!: exI [of _ "Suc k"] simp: algebra_simps)
  qed
qed simp

section \<open>No panic, and when a turn returns\<close>

lemma stream_no_panic: "assembler_ok (ss_asm st) \<Longrightarrow> stream_loop env turn step os st \<noteq> Panicked"
proof (induction env turn step os st rule: stream_loop.induct)
  case (7 env turn step c os st)
  from ok_ingest [OF 7(2), of c] obtain asm where "ingest_chunk c (ss_asm st) = Some asm" "assembler_ok asm" by blast
  with 7(1) show ?case by simp
qed (auto simp: Let_def)

definition obs_done :: "stream_obs \<Rightarrow> bool" where
  "obs_done x \<longleftrightarrow> (case x of SeeNothing \<Rightarrow> False | SeeChunk c \<Rightarrow> False | SeeRetry ty j \<Rightarrow> False | _ \<Rightarrow> True)"

lemma stream_returns: "assembler_ok (ss_asm st) \<Longrightarrow> list_ex obs_done os \<Longrightarrow> \<exists>st'. stream_loop env turn step os st = Done st'"
proof (induction env turn step os st rule: stream_loop.induct)
  case (7 env turn step c os st)
  from ok_ingest [OF 7(2), of c] obtain asm where "ingest_chunk c (ss_asm st) = Some asm" "assembler_ok asm" by blast
  with 7 show ?case by (simp add: obs_done_def)
qed (simp_all add: obs_done_def Let_def)

lemma step_round_returns:
  assumes "\<forall>req. list_ex obs_done (rd_stream rd req)"
  shows "\<exists>r. step_round env turn rd sticky closed h = Done r \<and>
    (rd_queued rd = None \<and> rd_select rd \<noteq> CtxLive \<longrightarrow> (\<exists>h'. r = TurnClosed h' \<or> r = ActorExit h'))"
proof (cases "rd_queued rd")
  case (Some b)
  then show ?thesis by (simp add: step_round_def split: prod.split bool.split)
next
  case None
  obtain h1 step req where o: "open_step env (rd_reads rd) h = (h1, step, req)" by (metis prod_cases3)
  let ?st = "\<lparr>ss_host = h1, ss_asm = new_assembler, ss_next = None, ss_actor_stopped = False, ss_turn_aborted = False, ss_failed = False\<rparr>"
  from stream_returns [of ?st "rd_stream rd req" env turn step] ok_new assms
  obtain st where s: "stream_loop env turn step (rd_stream rd req) ?st = Done st" by auto
  show ?thesis
  proof (cases "if closed \<and> rd_select rd = CtxLive then TurnCancelled else rd_select rd")
    case CtxLive
    with None o s show ?thesis by (auto simp: step_round_def split: if_splits)
  qed (use None in \<open>auto simp: step_round_def\<close>)
qed

lemma step_round_no_panic: "step_round env turn rd sticky closed h \<noteq> Panicked"
proof -
  obtain h1 step req where o: "open_step env (rd_reads rd) h = (h1, step, req)" by (metis prod_cases3)
  let ?st = "\<lparr>ss_host = h1, ss_asm = new_assembler, ss_next = None, ss_actor_stopped = False, ss_turn_aborted = False, ss_failed = False\<rparr>"
  from stream_no_panic [of ?st] ok_new have "stream_loop env turn step (rd_stream rd req) ?st \<noteq> Panicked" by simp
  with o show ?thesis by (auto simp: step_round_def split: option.split ctx_state.split prod.split bool.split progress.split)
qed

lemma step_loop_no_panic: "step_loop env turn rds sticky closed h \<noteq> Panicked"
proof (induction rds arbitrary: sticky closed h)
  case (Cons rd rds)
  with step_round_no_panic [of env turn rd sticky closed h] show ?case
    by (auto split: progress.split step_result.split)
qed simp

lemma process_turn_no_panic: "process_turn env m rds h \<noteq> Panicked"
  by (simp add: process_turn_def Let_def step_loop_no_panic split: prod.split bool.split)

lemma step_loop_returns:
  "\<forall>rd\<in>set rds. \<forall>req. list_ex obs_done (rd_stream rd req) \<Longrightarrow> \<exists>rd\<in>set rds. rd_queued rd = None \<and> rd_select rd \<noteq> CtxLive \<Longrightarrow>
     \<exists>x. step_loop env turn rds sticky closed h = Done x"
proof (induction rds arbitrary: sticky closed h)
  case (Cons rd rds)
  from Cons.prems(1) have "\<forall>req. list_ex obs_done (rd_stream rd req)" by simp
  from step_round_returns [OF this, of env turn sticky closed h] obtain r where
    r: "step_round env turn rd sticky closed h = Done r"
    "rd_queued rd = None \<and> rd_select rd \<noteq> CtxLive \<longrightarrow> (\<exists>h'. r = TurnClosed h' \<or> r = ActorExit h')" by blast
  show ?case
  proof (cases r)
    case (NextRound h1 s c)
    with r Cons.prems(2) have "\<exists>rd\<in>set rds. rd_queued rd = None \<and> rd_select rd \<noteq> CtxLive" by auto
    with Cons.IH [where h = h1 and sticky = s and closed = c] Cons.prems(1) r(1) NextRound show ?thesis by simp
  qed (use r(1) in \<open>auto intro: exI [of _ True] exI [of _ False]\<close>)
qed simp

lemma process_turn_returns:
  assumes "\<forall>rd\<in>set rds. \<forall>req. list_ex obs_done (rd_stream rd req)"
    and "\<exists>rd\<in>set rds. rd_queued rd = None \<and> rd_select rd \<noteq> CtxLive"
  shows "\<exists>x. process_turn env m rds h = Done x"
proof -
  obtain h1 ok where e: "emit_boundary env EventTurnStart (AnyP (Some (turn_json 0)))
    (h\<lparr>ho_running := True, ho_agent := reset_steps (ho_agent h)\<rparr>) = (h1, ok)" by fastforce
  have "\<exists>x. step_loop env turn rds sticky closed h = Done x" for turn sticky closed h
    by (rule step_loop_returns [OF assms])
  with e show ?thesis by (cases ok) (auto simp: process_turn_def Let_def intro: exI [of _ False])
qed

end
