(* ===== verification/Turn_Effects.thy ===== *)
theory Turn_Effects imports Turn_Phases Tool_Pairing begin

text \<open>
  Tool calls and their results across a step of the actor loop: \<open>pending_calls\<close> counts the calls in
  the assistant messages of a log that have no result yet, the sum the compaction engine
  balances its cuts with.
\<close>

section \<open>Round trip of the assistant payload\<close>

definition usage_ok :: "token_usage option \<Rightarrow> bool" where
  "usage_ok us \<longleftrightarrow> (case us of None \<Rightarrow> True | Some u \<Rightarrow> in_int64 (tu_input u) \<and> in_int64 (tu_output u) \<and>
     in_int64 (tu_cache_read u) \<and> in_int64 (tu_cache_write u) \<and> in_int64 (tu_reasoning u))"

lemma json_field_opt_int:
  "json_field k (opt_int k' i) = (if i \<noteq> 0 \<and> key_matches k k' then Some (JInt i) else None)"
  by (simp add: opt_int_def)

lemma usage_names:
  "lower_name ''inputTokens'' = ''inputtokens''" "lower_name ''outputTokens'' = ''outputtokens''"
  "lower_name ''cacheReadTokens'' = ''cachereadtokens''" "lower_name ''cacheWriteTokens'' = ''cachewritetokens''"
  "lower_name ''reasoningTokens'' = ''reasoningtokens''"
  by code_simp+

lemma usage_fields:
  fixes i out cr cw r :: int
  defines "kvs \<equiv> [(''inputTokens'', JInt i), (''outputTokens'', JInt out)] @
     opt_int ''cacheReadTokens'' cr @ opt_int ''cacheWriteTokens'' cw @ opt_int ''reasoningTokens'' r"
  assumes "in_int64 i" "in_int64 out" "in_int64 cr" "in_int64 cw" "in_int64 r"
  shows "dec_int ''inputTokens'' kvs = Some i" "dec_int ''outputTokens'' kvs = Some out"
    "dec_int ''cacheReadTokens'' kvs = Some cr" "dec_int ''cacheWriteTokens'' kvs = Some cw"
    "dec_int ''reasoningTokens'' kvs = Some r"
  using assms(2-) unfolding kvs_def dec_int_def by (simp_all add: field_simps_json json_field_opt_int usage_names)

lemma dec_enc_token_usage:
  assumes "usage_ok (Some u)"
  shows "\<exists>kvs. enc_token_usage u = JObj kvs \<and> dec_token_usage kvs = Some u"
proof (rule exI, rule conjI)
  show "enc_token_usage u = JObj (case enc_token_usage u of JObj kvs \<Rightarrow> kvs)" by (simp add: enc_token_usage_def)
  show "dec_token_usage (case enc_token_usage u of JObj kvs \<Rightarrow> kvs) = Some u"
    using assms unfolding enc_token_usage_def json.case dec_token_usage_def usage_ok_def option.case
    by (simp add: usage_fields del: append.simps)
qed

lemma dec_enc_assistant_message:
  assumes "in_int64 (am_turn p)" and "in_int64 (am_step p)" and "usage_ok (am_usage p)"
  shows "unmarshal dec_assistant_message (Some (enc_assistant_message p)) = Some p"
proof -
  obtain mk where m: "enc_wire_message (am_message p) = JObj mk" "dec_wire_message mk = Some (am_message p)"
    using dec_enc_wire_message [of "am_message p"] by (auto simp: unmarshal_def dec_object_def enc_wire_message_def)
  show ?thesis
  proof (cases "am_usage p")
    case None
    with m assms show ?thesis
      by (cases p) (simp add: enc_assistant_message_def unmarshal_def dec_object_def dec_assistant_message_def dec_int_def
          dec_struct_def dec_ptr_def dec_bool_def field_simps_json)
  next
    case (Some us)
    with assms(3) dec_enc_token_usage [of us] obtain uk where "enc_token_usage us = JObj uk" "dec_token_usage uk = Some us" by auto
    with Some m assms(1,2) show ?thesis
      by (cases p) (simp add: enc_assistant_message_def unmarshal_def dec_object_def dec_assistant_message_def dec_int_def
          dec_struct_def dec_ptr_def dec_bool_def field_simps_json)
  qed
qed

section \<open>Pending calls\<close>

definition tool_delta :: "session_envelope \<Rightarrow> int" where
  "tool_delta e = (case event_tool_delta e of Inl _ \<Rightarrow> 0 | Inr d \<Rightarrow> d)"

definition pending_calls :: "session_envelope list \<Rightarrow> int" where
  "pending_calls log = sum_list (map tool_delta log)"

definition message_types :: "string list" where
  "message_types = [EventAssistantMessage, EventToolResult]"

lemma tool_delta_other: "env_type e \<notin> set message_types \<Longrightarrow> tool_delta e = 0"
  by (simp add: tool_delta_def event_tool_delta_def message_types_def)

lemma tool_delta_result: "env_type e = EventToolResult \<Longrightarrow> tool_delta e = - 1"
  by (simp add: tool_delta_def event_tool_delta_def)

definition call_blocks :: "content_block list \<Rightarrow> content_block list" where
  "call_blocks blocks = filter (\<lambda>b. cb_type b = ''tool-call'') blocks"

lemma tool_delta_assistant:
  "env_type e = EventAssistantMessage \<Longrightarrow> env_data e = Some (enc_assistant_message p) \<Longrightarrow>
     in_int64 (am_turn p) \<Longrightarrow> in_int64 (am_step p) \<Longrightarrow> usage_ok (am_usage p) \<Longrightarrow>
     tool_delta e = int (length (call_blocks (wm_content (am_message p))))"
  by (simp add: tool_delta_def event_tool_delta_def dec_enc_assistant_message call_blocks_def)

lemma emit_event_envelope:
  "emit_event ty p op now a = (a', Inr env) \<Longrightarrow> env_type env = ty \<and>
     (ty \<notin> set boundary_types \<longrightarrow> env_data env = payload_json p)"
  by (auto simp: emit_event_def reserve_seq_def Let_def new_envelope_def boundary_payload_def boundary_types_def
      split: prod.splits option.splits if_splits)

text \<open>An operation that avoids some types leaves the log or appends one event of another type.\<close>

lemma append_avoiding:
  assumes "log_inv a" and "avoiding_op banned x"
  shows "durable_log (agent_step x a) = durable_log a \<or>
    (\<exists>e. env_type e \<notin> set banned \<and> durable_log (agent_step x a) = durable_log a @ [e])"
proof -
  have one: "durable_log a' = durable_log a \<or> (\<exists>e. env_type e \<notin> set banned \<and> durable_log a' = durable_log a @ [e])"
    if "appends_one a a' r" "\<And>env. r = Inr env \<Longrightarrow> env_type env \<notin> set banned" for a' r
    using that by (cases r) (auto simp: appends_one_def)
  show ?thesis
  proof (cases x)
    case (OpEmit ty p op now)
    obtain a' r where e: "emit_event ty p op now a = (a', r)" by fastforce
    have "env_type env' \<notin> set banned" if "r = Inr env'" for env'
      using emit_event_envelope [of ty p op now a a' env'] e that OpEmit assms(2) by (simp add: avoiding_op_def)
    with emit_event_effect [OF assms(1) e] one [of a' r] e OpEmit show ?thesis by simp
  next
    case (OpRaw env)
    obtain a' r where e: "emit_raw env a = (a', r)" by fastforce
    have "env_type env' \<notin> set banned" if "r = Inr env'" for env'
      using emit_raw_envelope [of env a a' env'] e that OpRaw assms(2) by (simp add: avoiding_op_def)
    with emit_raw_effect [OF assms(1) e] one [of a' r] e OpRaw show ?thesis by simp
  next
    case (OpRead p q)
    then show ?thesis by (simp add: durable_log_def read_frame)
  qed (use assms(2) in \<open>simp_all add: avoiding_op_def durable_log_def invalidate_log_cache_def\<close>)
qed

lemma append_other:
  assumes "log_inv a" and "avoiding_op message_types x"
  shows "pending_calls (durable_log (agent_step x a)) = pending_calls (durable_log a)"
  using append_avoiding [OF assms] by (auto simp: pending_calls_def tool_delta_other)

interpretation same_pending: emission_invariant "\<lambda>a. log_inv a \<and> pending_calls (durable_log a) = k" message_types for k
  by unfold_locales (use agent_step_log append_other in blast)

text \<open>On a healthy agent an emission of a message is in the log.\<close>

lemma healthy_say:
  assumes "in_step_with (ho_agent h)" and "ty \<notin> set boundary_types"
  shows "\<exists>e. durable_log (ho_agent (say env ty (AnyP (Some j)) op h)) = durable_log (ho_agent h) @ [e] \<and>
    env_type e = ty \<and> env_data e = Some j"
proof -
  let ?a = "ho_agent h"
  have vt: "validate_transition ty ?a = (?a, None)"
    using assms(2) by (simp add: boundary_types_def validate_transition_def)
  have pl: "payload_json (boundary_payload ty ?a ?a (AnyP (Some j))) = Some j"
    using assms(2) by (simp add: boundary_payload_def boundary_types_def payload_json_def)
  note em = emit_event_healthy [where now = "le_now env (ag_seq_counter ?a)" and op = op, OF assms(1) vt pl refl]
  show ?thesis
    by (simp add: say_def emit_at_def em durable_log_def [of "cache_append _ _"]) (simp add: new_envelope_def)
qed

lemma say_assistant_pending:
  assumes "in_step_with (ho_agent h)" and "in_int64 turn" and "in_int64 step" and "usage_ok usage"
  shows "pending_calls (durable_log (ho_agent (say_assistant env turn step blocks usage i h))) =
    pending_calls (durable_log (ho_agent h)) + int (length (call_blocks blocks))"
proof -
  let ?p = "assistant_payload env turn step blocks usage i"
  obtain e where "durable_log (ho_agent (say_assistant env turn step blocks usage i h)) = durable_log (ho_agent h) @ [e]"
    "env_type e = EventAssistantMessage" "env_data e = Some (enc_assistant_message ?p)"
    using healthy_say [OF assms(1), of EventAssistantMessage env "enc_assistant_message ?p" "Some append_surface_op"]
    unfolding say_assistant_def by (auto simp: boundary_types_def)
  with tool_delta_assistant [of e ?p] assms(2-) show ?thesis by (simp add: pending_calls_def assistant_payload_def)
qed

section \<open>One tool call, all tool calls\<close>

text \<open>Hooks and tools emit neither boundaries nor messages.\<close>

abbreviation "modest_env \<equiv> avoiding_env (boundary_types @ message_types)"
abbreviation "modest_round \<equiv> avoiding_round (boundary_types @ message_types)"

lemma avoiding_append_types:
  "avoiding_env (xs @ ys) env \<Longrightarrow> avoiding_env xs env \<and> avoiding_env ys env"
  "avoiding_round (xs @ ys) rd \<Longrightarrow> avoiding_round xs rd \<and> avoiding_round ys rd"
  by (force simp: avoiding_env_def avoiding_events_def)
    (auto simp: avoiding_round_def avoiding_obs_def split: stream_obs.splits)

lemma grammar_log: "in_step_with a \<Longrightarrow> log_inv a"
  by (simp add: in_step_with_def)

lemma run_pipeline_registry: "ho_registry (fst (run_pipeline env r tc h)) \<noteq> None"
  by (simp add: run_pipeline_def Let_def split: prod.split)

lemma dispatch_hook_registry [simp]: "ho_registry (fst (dispatch_hook env point subject turn h)) = ho_registry h"
  by (simp add: dispatch_hook_def split: prod.split)

lemma tool_call_pending:
  assumes "modest_env env" and "in_step_with (ho_agent h)" and "ho_registry h \<noteq> None"
  shows "pending_calls (durable_log (ho_agent (run_tool_call env turn step r tc h))) =
    pending_calls (durable_log (ho_agent h)) - 1 \<and> ho_registry (run_tool_call env turn step r tc h) \<noteq> None"
proof -
  have q: "quiet_env env" "avoiding_env message_types env" using avoiding_append_types(1) [OF assms(1)] by auto
  let ?k = "pending_calls (durable_log (ho_agent h))"
  let ?call = "say env ''tool/call'' (AnyP (Some (enc_tool_call turn step tc
            (build_tool_call_view (le_parse env) (cb_name tc) (cb_arguments tc))))) None h"
  obtain h2 blocked where h2: "dispatch_hook env ''PreToolUse'' (cb_name tc) turn ?call = (h2, blocked)" by fastforce
  obtain h3 res is_err where h3: "(if blocked then (h2, ''[blocked by PreToolUse hook]'', True) else run_pipeline env r tc h2) = (h3, res, is_err)"
    by (metis prod_cases3)
  have k1: "log_inv (ho_agent ?call) \<and> pending_calls (durable_log (ho_agent ?call)) = ?k"
    by (rule same_pending.say_quiet) (simp_all add: message_types_def grammar_log assms(2))
  have g1: "in_step_with (ho_agent ?call)"
    by (rule keeps_grammar.say_quiet) (simp_all add: boundary_types_def assms(2))
  from same_pending.hook_quiet [OF q(2) k1] keeps_grammar.hook_quiet [OF q(1) g1] h2
  have k2: "log_inv (ho_agent h2) \<and> pending_calls (durable_log (ho_agent h2)) = ?k" and g2: "in_step_with (ho_agent h2)"
    by (metis fst_conv)+
  have k3: "log_inv (ho_agent h3) \<and> pending_calls (durable_log (ho_agent h3)) = ?k"
    using h3 k2 same_pending.pipeline_quiet [OF q(2) _ _ k2, of r tc] by (auto simp: message_types_def split: if_splits)
  have g3: "in_step_with (ho_agent h3)"
    using h3 g2 keeps_grammar.pipeline_quiet [OF q(1) _ _ g2, of r tc] by (auto simp: boundary_types_def split: if_splits)
  have "ho_registry h2 = ho_registry h" using h2 dispatch_hook_registry [of env "''PreToolUse''" "cb_name tc" turn ?call] by simp
  then have reg: "ho_registry h3 \<noteq> None"
    using h3 assms(3) run_pipeline_registry [of env r tc h2] by (auto split: if_splits)
  define shown where "shown = (if \<not> skip_spill_for (cb_name tc) \<and> \<not> is_err
                 then (case le_save env (cb_name tc) res of Some preview \<Rightarrow> preview | None \<Rightarrow> res) else res)"
  let ?j = "enc_tool_result turn step (tool_result_message turn step tc shown is_err) (build_tool_result_view (cb_name tc) shown is_err)"
  let ?h4 = "say env EventToolResult (AnyP (Some ?j)) (Some append_surface_op) h3"
  have "EventToolResult \<notin> set boundary_types" by (simp add: boundary_types_def)
  from healthy_say [OF g3 this, of env ?j "Some append_surface_op"] obtain e where
    "durable_log (ho_agent ?h4) = durable_log (ho_agent h3) @ [e]" "env_type e = EventToolResult" by blast
  with k3 tool_delta_result have k4: "pending_calls (durable_log (ho_agent ?h4)) = ?k - 1"
    by (simp add: pending_calls_def)
  have "log_inv (ho_agent ?h4)" using k3 keeps_log.say_quiet [of EventToolResult h3] by (simp add: boundary_types_def)
  with k4 same_pending.hook_quiet [OF q(2), of ?h4 "?k - 1" "''PostToolUse''" "cb_name tc" turn]
  have "pending_calls (durable_log (ho_agent (fst (dispatch_hook env ''PostToolUse'' (cb_name tc) turn ?h4)))) = ?k - 1" by simp
  moreover have "run_tool_call env turn step r tc h = fst (dispatch_hook env ''PostToolUse'' (cb_name tc) turn ?h4)"
    unfolding run_tool_call_def Let_def h2 prod.case h3 shown_def ..
  ultimately show ?thesis using reg by simp
qed

lemma tool_calls_pending:
  "modest_env env \<Longrightarrow> in_step_with (ho_agent h) \<Longrightarrow> ho_registry h \<noteq> None \<Longrightarrow>
     run_tool_calls env turn step tcs ctxs h = (h', CtxLive) \<Longrightarrow>
     pending_calls (durable_log (ho_agent h')) = pending_calls (durable_log (ho_agent h)) - int (length tcs)"
proof (induction env turn step tcs ctxs h rule: run_tool_calls.induct)
  case (2 env turn step tc tcs ctxs h)
  then obtain r where r: "ho_registry h = Some r" by blast
  define h1 where "h1 = run_tool_call env turn step r tc h"
  have d: "(case ho_registry h of None \<Rightarrow> h | Some r \<Rightarrow> run_tool_call env turn step r tc h) = h1" by (simp add: r h1_def)
  have q: "quiet_env env" using avoiding_append_types(1) [OF 2(3)] by simp
  have g: "in_step_with (ho_agent h1)" unfolding h1_def by (rule keeps_grammar.tool_call_quiet [OF q 2(4)])
  have p: "pending_calls (durable_log (ho_agent h1)) = pending_calls (durable_log (ho_agent h)) - 1" "ho_registry h1 \<noteq> None"
    using tool_call_pending [OF 2(3,4,5)] by (simp_all add: h1_def)
  show ?case
  proof (cases ctxs)
    case Nil
    with 2(6) d have "run_tool_calls env turn step tcs [] h1 = (h', CtxLive)" by simp
    with 2(1) [OF d [symmetric] Nil 2(3) g p(2)] p(1) show ?thesis by simp
  next
    case (Cons c ctxs')
    show ?thesis
    proof (cases c)
      case CtxLive
      with Cons 2(6) d have "run_tool_calls env turn step tcs ctxs' h1 = (h', CtxLive)" by simp
      with 2(2) [OF d [symmetric] Cons CtxLive 2(3) g p(2)] p(1) show ?thesis by simp
    qed (use Cons 2(6) d in simp_all)
  qed
qed simp

section \<open>A whole step\<close>

lemma finish_registry [simp]: "ho_registry (finish_turn_reason env kind msg h) = ho_registry h"
  by (simp add: finish_turn_reason_def Let_def)

lemma boundary_registry: "emit_boundary env ty p h = (h', ok) \<Longrightarrow> ho_registry h' = ho_registry h"
  by (auto simp: emit_boundary_def split: prod.splits sum.splits emit_error.splits)

lemma route_registry [simp]: "ho_registry (ss_host (route_step_fatal env turn step e ctx st)) = ho_registry (ss_host st)"
  by (auto simp: route_step_fatal_def turn_end_error_def split: ctx_state.split prod.split bool.split dest: boundary_registry)
    (metis boundary_registry prod.collapse)

lemma route_frame [simp]:
  "ss_asm (route_step_fatal env turn step e ctx st) = ss_asm st" "ss_next (route_step_fatal env turn step e ctx st) = ss_next st"
  by (auto simp: route_step_fatal_def split: ctx_state.split prod.split bool.split)

lemma ingest_usage: "ingest_chunk c ba = Some ba' \<Longrightarrow> ba_usage ba' = ba_usage ba \<or> ba_usage ba' = sc_usage c"
proof -
  have commit: "ba_usage (commit_block i b) = ba_usage b" "ba_usage (commit_legacy b) = ba_usage b" for i b
    by (simp_all add: commit_block_def commit_legacy_def split: option.split)
  have finish: "ba_usage (finish_loop n k arr b) = ba_usage b" for n k arr b
    by (induction n arbitrary: k arr b) (simp_all add: commit Let_def)
  show "ingest_chunk c ba = Some ba' \<Longrightarrow> ?thesis"
    by (auto simp: ingest_chunk_def ingest_start_def ingest_delta_def ingest_call_def ingest_end_def ingest_finish_def
        open_block_def update_active_def commit finish Let_def split: if_splits option.splits destination.splits)
qed

text \<open>Token counts are machine integers.\<close>

definition go_obs :: "stream_obs \<Rightarrow> bool" where
  "go_obs x \<longleftrightarrow> (case x of SeeChunk c \<Rightarrow> usage_ok (sc_usage c) | _ \<Rightarrow> True)"

lemma stream_frame:
  "stream_loop env turn step os st = Done st' \<Longrightarrow> \<forall>x\<in>set os. go_obs x \<Longrightarrow> usage_ok (ba_usage (ss_asm st)) \<Longrightarrow>
     usage_ok (ba_usage (ss_asm st')) \<and> ho_registry (ss_host st') = ho_registry (ss_host st) \<and>
     ((\<forall>b. SeeNextStep b \<notin> set os) \<longrightarrow> ss_next st' = ss_next st)"
proof (induction env turn step os st arbitrary: st' rule: stream_loop.induct)
  case (7 env turn step c os st)
  from 7(2) obtain asm where a: "ingest_chunk c (ss_asm st) = Some asm" by (auto split: option.splits)
  have "usage_ok (sc_usage c)" using 7(3) by (simp add: go_obs_def)
  with ingest_usage [OF a] 7(4) have "usage_ok (ba_usage asm)" by auto
  with 7(1) [OF a] 7(2,3) a show ?case by simp
qed (auto simp: Let_def split: if_splits option.splits)

lemma stream_pending:
  "stream_loop env turn step os st = Done st' \<Longrightarrow> \<forall>x\<in>set os. avoiding_obs message_types x \<Longrightarrow>
     log_inv (ho_agent (ss_host st)) \<and> pending_calls (durable_log (ho_agent (ss_host st))) = k \<Longrightarrow>
     log_inv (ho_agent (ss_host st')) \<and> pending_calls (durable_log (ho_agent (ss_host st'))) = k"
proof (induction env turn step os st arbitrary: st' rule: stream_loop.induct)
  note types = message_types_def
  have rt: "log_inv (ho_agent (ss_host (route_step_fatal env turn step e ctx st))) \<and>
      pending_calls (durable_log (ho_agent (ss_host (route_step_fatal env turn step e ctx st)))) = k"
    if st: "log_inv (ho_agent (ss_host st)) \<and> pending_calls (durable_log (ho_agent (ss_host st))) = k"
    for env :: "'w loop_env" and turn step e ctx and st :: "'w stream_state"
  proof (cases ctx)
    case CtxLive
    let ?p = "AnyP (Some (turn_step_json turn step))"
    obtain h1 ok where b: "emit_boundary env EventStepEnd ?p (ss_host st) = (h1, ok)" by fastforce
    have "log_inv (ho_agent (fst (emit_boundary env EventStepEnd ?p (ss_host st)))) \<and>
        pending_calls (durable_log (ho_agent (fst (emit_boundary env EventStepEnd ?p (ss_host st))))) = k"
      by (rule same_pending.boundary_any [OF _ _ _ _ st]) (simp_all add: types payload_json_def)
    with b have h1: "log_inv (ho_agent h1) \<and> pending_calls (durable_log (ho_agent h1)) = k" by simp
    have "log_inv (ho_agent (fst (turn_end_error env turn e h1))) \<and>
        pending_calls (durable_log (ho_agent (fst (turn_end_error env turn e h1)))) = k"
      unfolding turn_end_error_def
      by (rule same_pending.boundary_any [OF _ _ _ _ h1]) (simp_all add: types payload_json_def)
    with CtxLive b h1 show ?thesis by (cases ok) (simp_all add: route_step_fatal_def)
  qed (use st in \<open>simp_all add: route_step_fatal_def\<close>)
  {
    case (6 env turn step e ctx os st)
    with rt [of st] show ?case by auto
  next
    case (7 env turn step c os st)
    from 7(2) obtain asm where a: "ingest_chunk c (ss_asm st) = Some asm" by (auto split: option.splits)
    from same_pending.say_quiet [OF _ 7(4), of "''assistant/chunk''" env "chunk_payload turn step c" None] 7(1) [OF a] 7(2,3) a
    show ?case by (simp add: types)
  next
    case (8 env turn step drained ctx1 ctx2 os st)
    define st1 where "st1 = (case drained of None \<Rightarrow> st | Some e \<Rightarrow> route_step_fatal env turn step e ctx1 st)"
    have "log_inv (ho_agent (ss_host st1)) \<and> pending_calls (durable_log (ho_agent (ss_host st1))) = k"
      using 8(3) rt [of st] by (auto simp: st1_def split: option.split)
    with 8(1) rt [of st1] show ?case by (auto simp: st1_def [symmetric] Let_def split: if_splits)
  next
    case (9 env turn step ty j os st)
    then have "ty \<notin> set message_types" by (simp add: avoiding_obs_def)
    from same_pending.say_quiet [OF this 9(4), of env j None] 9(1) 9(2,3) show ?case by simp
  }
qed (auto split: if_splits)

lemma open_step_frame:
  assumes "open_step env reads h = (h1, step, req)" and "log_inv (ho_agent h)"
  shows "ho_registry h1 = ho_registry h \<and> log_inv (ho_agent h1) \<and>
    pending_calls (durable_log (ho_agent h1)) = pending_calls (durable_log (ho_agent h))"
proof -
  let ?k = "pending_calls (durable_log (ho_agent h))"
  let ?h = "say env EventStepStart (AnyP (Some (turn_step_json 0 0))) None h"
  have "log_inv (ho_agent ?h) \<and> pending_calls (durable_log (ho_agent ?h)) = ?k"
    by (rule same_pending.say_quiet) (simp_all add: message_types_def assms(2))
  note r = same_pending.read_quiet [OF this, of reads]
  obtain a2 events where l: "load_session_log reads (ho_agent ?h) = (a2, events)" by fastforce
  with r have "log_inv (ho_agent (?h\<lparr>ho_agent := a2\<rparr>)) \<and> pending_calls (durable_log (ho_agent (?h\<lparr>ho_agent := a2\<rparr>))) = ?k" by simp
  from same_pending.say_quiet [OF _ this, of "''request/header''" env] l assms(1) show ?thesis
    by (auto simp: open_step_def Let_def message_types_def)
qed

lemma boundary_pending:
  assumes "emit_boundary env EventStepEnd (AnyP (Some j)) h = (h', ok)" and "log_inv (ho_agent h)"
  shows "pending_calls (durable_log (ho_agent h')) = pending_calls (durable_log (ho_agent h))"
proof -
  let ?k = "pending_calls (durable_log (ho_agent h))"
  have "log_inv (ho_agent (fst (emit_boundary env EventStepEnd (AnyP (Some j)) h))) \<and>
      pending_calls (durable_log (ho_agent (fst (emit_boundary env EventStepEnd (AnyP (Some j)) h)))) = ?k"
    by (rule same_pending.boundary_any) (simp_all add: message_types_def payload_json_def assms(2))
  with assms(1) show ?thesis by simp
qed

text \<open>A step that settles answers every call of its message.\<close>

lemma settle_pending:
  assumes "modest_env env" and "in_step_with (ho_agent h)" and "ho_registry h \<noteq> None"
    and "settle_step env turn step blocks ctxs sticky h = r" and "(\<exists>h' s. r = StepsOver h' s) \<or> (\<exists>h' s c. r = NextRound h' s c)"
  shows "pending_calls (durable_log (ho_agent (result_host r))) =
    pending_calls (durable_log (ho_agent h)) - int (length (call_blocks blocks))"
proof -
  have li: "log_inv (ho_agent h)" using assms(2) by (rule grammar_log)
  obtain h' c where t: "run_tool_calls env turn step (call_blocks blocks) ctxs h = (h', c)" by fastforce
  have q: "quiet_env env" using avoiding_append_types(1) [OF assms(1)] by simp
  have li': "log_inv (ho_agent h')" using keeps_log.tool_calls_quiet [OF q li, of turn step "call_blocks blocks" ctxs] t by simp
  show ?thesis
  proof (cases "call_blocks blocks = []")
    case True
    obtain h1 ok where b: "emit_boundary env EventStepEnd (AnyP (Some (turn_step_json turn step))) h = (h1, ok)" by fastforce
    with boundary_pending [OF b li] True assms(4,5) show ?thesis
      by (cases ok) (auto simp: settle_step_def call_blocks_def Let_def)
  next
    case False
    obtain h1 ok where b: "emit_boundary env EventStepEnd (AnyP (Some (turn_step_json turn step))) h' = (h1, ok)" by fastforce
    have "c = CtxLive"
      using assms(3,4,5) False t by (cases c) (auto simp: settle_step_def call_blocks_def [symmetric] Let_def)
    moreover from this tool_calls_pending [OF assms(1,2,3)] t
    have "pending_calls (durable_log (ho_agent h')) = pending_calls (durable_log (ho_agent h)) - int (length (call_blocks blocks))" by simp
    ultimately show ?thesis
      using boundary_pending [OF b li'] False assms(3,4) t b
      by (cases ok) (auto simp: settle_step_def call_blocks_def [symmetric] Let_def)
  qed
qed

text \<open>An interrupted step leaves the calls it had committed without a result.\<close>

lemma interrupted_pending:
  assumes "in_step_with (ho_agent (ss_host st))" and "assembler_result (ss_asm st) = (blocks, usage, finish)"
    and "in_int64 turn" and "in_int64 step" and "usage_ok usage" and "ss_next st = Some b"
    and "\<not> ss_actor_stopped st" and "\<not> ss_turn_aborted st" and "\<not> ss_failed st"
  shows "pending_calls (durable_log (ho_agent (result_host (after_stream env turn step ctxs sticky st)))) =
    pending_calls (durable_log (ho_agent (ss_host st))) + int (length (call_blocks blocks))"
proof -
  let ?h1 = "if blocks \<noteq> [] then say_assistant env turn step blocks usage True (ss_host st) else ss_host st"
  have g: "in_step_with (ho_agent ?h1)" using assms(1) by (simp add: keeps_grammar.assistant_quiet)
  have k: "pending_calls (durable_log (ho_agent ?h1)) = pending_calls (durable_log (ho_agent (ss_host st))) + int (length (call_blocks blocks))"
    using say_assistant_pending [OF assms(1,3,4,5)] by (simp add: call_blocks_def)
  obtain h2 ok where e: "emit_boundary env EventStepEnd (AnyP (Some (turn_step_json turn step))) ?h1 = (h2, ok)" by fastforce
  have k2: "pending_calls (durable_log (ho_agent h2)) = pending_calls (durable_log (ho_agent ?h1))"
    by (rule boundary_pending [OF e grammar_log [OF g]])
  have "log_inv (ho_agent (fst (emit_boundary env EventStepEnd (AnyP (Some (turn_step_json turn step))) ?h1)))"
    by (rule keeps_log.boundary_proper [OF _ grammar_log [OF g]]) simp
  with e have "log_inv (ho_agent h2) \<and> pending_calls (durable_log (ho_agent h2)) = pending_calls (durable_log (ho_agent ?h1))"
    using k2 by simp
  from same_pending.say_quiet [OF _ this, of EventUserMessage env] have "pending_calls (durable_log (ho_agent (say_next_step env b h2))) =
    pending_calls (durable_log (ho_agent ?h1))" by (simp add: say_next_step_def message_types_def)
  with k k2 e assms(2,6-) show ?thesis by (cases ok) (simp_all add: after_stream_def Let_def)
qed

end
