(* ===== verification/Turn_Properties.thy ===== *)
theory Turn_Properties imports Turn_Effects begin

text \<open>
  What an agent's turns guarantee: every turn closes, the log is a sequence of whole turns, a step
  answers the tool calls it made, an interrupted one does not; and what the retry policy does.
\<close>

section \<open>A concrete agent\<close>

definition sample_tx :: "agent tx_env" where
  "sample_tx = \<lparr>tx_append = agent_append, tx_reload = None, tx_flush = None, tx_ctx_before = None, tx_ctx_after = None,
     tx_compaction_id = ''c'', tx_message_id = ''m'', tx_now = int, tx_error_text = (\<lambda>_. [])\<rparr>"

definition sample_env :: "nat loop_env" where
  "sample_env = \<lparr>le_now = id, le_step_id = (\<lambda>_. ''1''), le_approval_id = (\<lambda>_. ''a''), le_error_text = (\<lambda>_. ''disk''),
     le_session = ''s'', le_model = ''m'', le_prompt = [], le_instructions = [], le_schemas = [], le_request_user = None,
     le_parse = (\<lambda>_. None), le_indent = (\<lambda>_. []), le_hook = (\<lambda>_ _ _ w. (w, [], False)), le_drain = (\<lambda>w. (w, [])),
     le_save = (\<lambda>_ _. None), le_title = None, le_compactor = None, le_tx = sample_tx, le_reads = (True, True)\<rparr>"

definition sample_host :: "bool list \<Rightarrow> nat host" where
  "sample_host faults = \<lparr>ho_agent = new_agent True (Some []) faults None None, ho_running = False, ho_title_done = False,
     ho_registry = Some empty_registry, ho_world = 0\<rparr>"

definition sample_user :: wire_message where
  "sample_user = \<lparr>wm_id = ''u'', wm_role = ''user'', wm_content = [text_block ''hi''],
     wm_source = \<lparr>ms_kind = ''user'', ms_call_id = [], ms_plugin = [], ms_form = [], ms_provider = [],
        ms_model = [], ms_replay_state = None, ms_compaction_id = [], ms_source_command_id = []\<rparr>\<rparr>"

definition call_chunk :: stream_chunk where
  "call_chunk = \<lparr>sc_type = ChunkBlockEnd, sc_index = 0, sc_block_type = [], sc_block_id = [], sc_text = [], sc_id = [],
     sc_name = [], sc_arguments = [], sc_block = Some (ContentBlock ''tool-call'' [] [] [] ''t1'' ''ls'' [] [] False []),
     sc_usage = None, sc_finish = []\<rparr>"

text \<open>A step with one tool call, a step cancelled before it starts.\<close>

definition call_round :: "nat loop_round" where
  "call_round = \<lparr>rd_queued = None, rd_select = CtxLive, rd_reads = (True, True),
     rd_stream = (\<lambda>_. [SeeChunk call_chunk, SeeClosed None CtxLive CtxLive]), rd_after_tools = []\<rparr>"

definition cancelled_round :: "nat loop_round" where
  "cancelled_round = call_round\<lparr>rd_select := TurnCancelled\<rparr>"

lemma sample_avoids: "avoiding_env banned sample_env" "avoiding_round banned call_round" "avoiding_round banned cancelled_round"
  by (simp_all add: avoiding_env_def avoiding_events_def sample_env_def avoiding_round_def avoiding_obs_def
      call_round_def cancelled_round_def)

lemma sample_streams_end: "rd \<in> {call_round, cancelled_round} \<Longrightarrow> list_ex obs_done (rd_stream rd req)"
  by (auto simp: call_round_def cancelled_round_def obs_done_def)

lemma sample_idle: "idle_at 0 (ho_agent (sample_host faults))" "\<not> ho_running (sample_host faults)"
  by (simp_all add: sample_host_def idle_at_def new_agent_def seed_seq_from_def)

lemma sample_healthy: "in_step_with (ho_agent (sample_host []))"
  using log_inv_new [OF numbered_Nil, of True "[]" None None]
  by (auto simp: sample_host_def in_step_with_def new_agent_def seed_seq_from_def)

section \<open>Turns\<close>





section \<open>Tool calls\<close>

text \<open>
  C3. A step that runs to its regular end, that is after which the turn goes on or its steps are over,
  answers its tool calls: on a healthy store, with tools registered, no queued message, none arriving during
  the stream, and hooks and tools that write no messages themselves, the number of calls in the log that
  wait for a result is the same before and after it, so that a conversation that was balanced stays
  balanced. Nothing is said of a step that closes the turn: see the two statements below.
\<close>
theorem step_answers_calls:
  assumes "modest_env env" and "modest_round rd" and "in_step_with (ho_agent h)" and "in_turn n (ho_agent h)"
    and "ho_registry h \<noteq> None" and "rd_queued rd = None" and "n < 2 ^ 63" and "ag_step_number (ho_agent h) < 2 ^ 63 - 1"
    and "\<forall>req. \<forall>x\<in>set (rd_stream rd req). go_obs x \<and> (\<forall>b. x \<noteq> SeeNextStep b)"
    and "step_round env n rd sticky False h = Done r"
  shows "case r of
      NextRound h' _ _ \<Rightarrow> pending_calls (durable_log (ho_agent h')) = pending_calls (durable_log (ho_agent h))
    | StepsOver h' _ \<Rightarrow> pending_calls (durable_log (ho_agent h')) = pending_calls (durable_log (ho_agent h))
    | _ \<Rightarrow> True"
proof (cases "(\<exists>h' s. r = StepsOver h' s) \<or> (\<exists>h' s c. r = NextRound h' s c)")
  case settled: True
  obtain h1 step req where o: "open_step env (rd_reads rd) h = (h1, step, req)" by (metis prod_cases3)
  let ?st = "\<lparr>ss_host = h1, ss_asm = new_assembler, ss_next = None, ss_actor_stopped = False, ss_turn_aborted = False, ss_failed = False\<rparr>"
  have q: "quiet_env env" "quiet_round rd" "avoiding_round message_types rd"
    using avoiding_append_types assms(1,2) by blast+
  note os = open_step_frame [OF o grammar_log [OF assms(3)]]
  have g1: "in_step_with (ho_agent h1)" using keeps_grammar.open_step_proper [OF assms(3), of env "rd_reads rd"] o by simp
  have step: "in_int64 step"
    using o assms(4,8) by (auto simp: open_step_def Let_def in_turn_def say_regs validate_transition_def in_int64_def split: prod.splits)
  have turn: "in_int64 n" using assms(4,7) by (simp add: in_turn_def in_int64_def)
  from assms(6,10) settled o obtain st where
    st: "stream_loop env n step (rd_stream rd req) ?st = Done st" "r = after_stream env n step (rd_after_tools rd) sticky st"
    by (cases "rd_select rd") (auto simp: step_round_def split: progress.splits)
  have obs: "\<forall>x\<in>set (rd_stream rd req). go_obs x" "\<forall>b. SeeNextStep b \<notin> set (rd_stream rd req)"
    "\<forall>x\<in>set (rd_stream rd req). avoiding_obs message_types x" "\<forall>x\<in>set (rd_stream rd req). quiet_obs x"
    using assms(9) q(2,3) by (auto simp: avoiding_round_def)
  from stream_frame [OF st(1) obs(1)] obs(2) os
  have fr: "usage_ok (ba_usage (ss_asm st))" "ho_registry (ss_host st) = ho_registry h" "ss_next st = None"
    by (auto simp: new_assembler_def usage_ok_def)
  have k: "pending_calls (durable_log (ho_agent (ss_host st))) = pending_calls (durable_log (ho_agent h))"
    using stream_pending [OF st(1) obs(3)] os by simp
  have g: "in_step_with (ho_agent (ss_host st))"
    by (rule keeps_grammar.stream_proper [OF st(1) obs(4)]) (simp add: g1)
  obtain blocks usage finish where a: "assembler_result (ss_asm st) = (blocks, usage, finish)" by (metis prod_cases3)
  have us: "usage_ok usage" using a fr(1) by (simp add: assembler_result_def)
  let ?h2 = "say_assistant env n step blocks usage False (ss_host st)"
  have r: "r = settle_step env n step blocks (rd_after_tools rd) (sticky \<or> finish = ''max-tokens'') ?h2"
    using st(2) a fr(3) settled by (auto simp: after_stream_def Let_def split: if_splits)
  have g2: "in_step_with (ho_agent ?h2)" by (rule keeps_grammar.assistant_quiet [OF g])
  have reg: "ho_registry ?h2 \<noteq> None" using fr(2) assms(5) by (simp add: say_assistant_def)
  from settle_pending [OF assms(1) g2 reg r [symmetric] settled] say_assistant_pending [OF g turn step us, of env blocks False] k
  have "pending_calls (durable_log (ho_agent (result_host r))) = pending_calls (durable_log (ho_agent h))" by simp
  then show ?thesis by (cases r) simp_all
qed (cases r; simp)

lemma run_tool_calls_live: "snd (run_tool_calls env turn step tcs [] h) = CtxLive"
  by (induction tcs arbitrary: h) (simp_all add: Let_def)

lemma run_tool_calls_live': "run_tool_calls env turn step tcs [] h = (h', c) \<Longrightarrow> c = CtxLive"
  using run_tool_calls_live [of env turn step tcs h] by simp

lemma step_answers_calls_witness:
  "\<exists>h' s c. step_round sample_env 1 call_round False False
      (fst (emit_boundary sample_env EventTurnStart (AnyP (Some (turn_json 0))) (sample_host []))) = Done (NextRound h' s c) \<and>
    pending_calls (durable_log (ho_agent h')) = 0"
proof -
  let ?h = "fst (emit_boundary sample_env EventTurnStart (AnyP (Some (turn_json 0))) (sample_host []))"
  obtain ok where b: "emit_boundary sample_env EventTurnStart (AnyP (Some (turn_json 0))) (sample_host []) = (?h, ok)" by (metis prod.collapse)
  have g: "in_step_with (ho_agent ?h)" by (rule keeps_grammar.boundary_proper [OF _ sample_healthy]) simp
  have li: "log_inv (ho_agent ?h) \<and> pending_calls (durable_log (ho_agent ?h)) = 0"
    by (rule same_pending.boundary_any)
      (use grammar_log [OF sample_healthy] in \<open>simp_all add: message_types_def payload_json_def pending_calls_def sample_host_def
        durable_log_def new_agent_def seed_seq_from_def\<close>)
  have ok: "ok" "in_turn 1 (ho_agent ?h)" "ag_step_number (ho_agent ?h) = 0"
  proof -
    have "ok \<and> ag_step_number (ho_agent ?h) = 0"
      using b by (simp add: emit_boundary_def emit_at_def sample_host_def new_agent_def seed_seq_from_def emit_event_def
          validate_transition_def reserve_seq_def boundary_payload_def payload_json_def persist_event_def append_batch_def
          stored_next_def new_envelope_def Let_def)
    with turn_start_phase [OF b sample_idle(1) order_refl] show "ok" "in_turn 1 (ho_agent ?h)" "ag_step_number (ho_agent ?h) = 0" by simp_all
  qed
  have reg: "ho_registry ?h \<noteq> None" using boundary_registry [OF b] by (simp add: sample_host_def)
  have "\<forall>req. list_ex obs_done (rd_stream call_round req)" using sample_streams_end by simp
  from step_round_returns [OF this, of sample_env 1 False False ?h] obtain r where
    r: "step_round sample_env 1 call_round False False ?h = Done r" by blast
  have "\<forall>req. \<forall>x\<in>set (rd_stream call_round req). go_obs x \<and> (\<forall>b. x \<noteq> SeeNextStep b)"
    by (simp add: call_round_def go_obs_def call_chunk_def usage_ok_def)
  note t = step_answers_calls [OF sample_avoids(1,2) g ok(2) reg _ _ _ this r]
  obtain h1 step req where o: "open_step sample_env (rd_reads call_round) ?h = (h1, step, req)" by (metis prod_cases3)
  have reg1: "ho_registry h1 \<noteq> None" using open_step_frame [OF o grammar_log [OF g]] reg by simp
  let ?blk = "ContentBlock ''tool-call'' [] [] [] ''t1'' ''ls'' [] [] False []"
  have i: "ingest_chunk call_chunk new_assembler = Some (new_assembler\<lparr>ba_blocks := [?blk]\<rparr>)"
    by (simp add: ingest_chunk_def ingest_end_def call_chunk_def new_assembler_def)
  have "\<exists>h' s c. r = NextRound h' s c"
    using r o i reg1 run_tool_calls_live [of sample_env 1 step "[?blk]"]
    by (auto simp: step_round_def call_round_def after_stream_def assembler_result_def new_assembler_def settle_step_def
        say_assistant_def Let_def split: prod.splits bool.splits ctx_state.splits dest: run_tool_calls_live')
  then obtain h' s c where "r = NextRound h' s c" by blast
  with t li r ok(3) show ?thesis by (simp add: call_round_def)
qed

text \<open>
  A step that a queued message interrupts writes down the calls its reply had committed and never
  answers them: the number of waiting calls grows by theirs.
\<close>
theorem interrupted_calls_unanswered:
  assumes "in_step_with (ho_agent (ss_host st))" and "assembler_result (ss_asm st) = (blocks, usage, finish)"
    and "in_int64 turn" and "in_int64 step" and "usage_ok usage" and "ss_next st = Some b"
    and "\<not> ss_actor_stopped st" and "\<not> ss_turn_aborted st" and "\<not> ss_failed st"
  shows "pending_calls (durable_log (ho_agent (result_host (after_stream env turn step ctxs sticky st)))) =
    pending_calls (durable_log (ho_agent (ss_host st))) + int (length (call_blocks blocks))"
  by (rule interrupted_pending [OF assms])

lemma interrupted_calls_unanswered_witness:
  "\<exists>st. stream_loop sample_env 1 1 [SeeChunk call_chunk, SeeNextStep (text_block ''stop'')]
      \<lparr>ss_host = sample_host [], ss_asm = new_assembler, ss_next = None, ss_actor_stopped = False,
       ss_turn_aborted = False, ss_failed = False\<rparr> = Done st \<and>
    pending_calls (durable_log (ho_agent (result_host (after_stream sample_env 1 1 [] False st)))) =
      pending_calls (durable_log (ho_agent (ss_host st))) + 1"
proof -
  let ?h = "say sample_env ''assistant/chunk'' (AnyP (Some (chunk_payload 1 1 call_chunk))) None (sample_host [])"
  let ?blk = "ContentBlock ''tool-call'' [] [] [] ''t1'' ''ls'' [] [] False []"
  define st where "st = \<lparr>ss_host = ?h, ss_asm = new_assembler\<lparr>ba_blocks := [?blk]\<rparr>, ss_next = Some (text_block ''stop''),
    ss_actor_stopped = False, ss_turn_aborted = False, ss_failed = False\<rparr>"
  have "ingest_chunk call_chunk new_assembler = Some (new_assembler\<lparr>ba_blocks := [?blk]\<rparr>)"
    by (simp add: ingest_chunk_def ingest_end_def call_chunk_def new_assembler_def)
  then have s: "stream_loop sample_env 1 1 [SeeChunk call_chunk, SeeNextStep (text_block ''stop'')]
      \<lparr>ss_host = sample_host [], ss_asm = new_assembler, ss_next = None, ss_actor_stopped = False,
       ss_turn_aborted = False, ss_failed = False\<rparr> = Done st"
    by (simp add: st_def)
  have g: "in_step_with (ho_agent (ss_host st))"
    unfolding st_def by (simp) (rule keeps_grammar.say_quiet [OF _ sample_healthy], simp add: boundary_types_def)
  have a: "assembler_result (ss_asm st) = ([?blk], None, [])" by (simp add: st_def assembler_result_def new_assembler_def)
  have "in_int64 1" "usage_ok None" "ss_next st = Some (text_block ''stop'')" "\<not> ss_actor_stopped st"
    "\<not> ss_turn_aborted st" "\<not> ss_failed st" by (simp_all add: in_int64_def usage_ok_def st_def)
  from interrupted_calls_unanswered [OF g a this(1,1,2,3,4,5,6), of sample_env "[]" False] s show ?thesis
    by (auto simp: call_blocks_def)
qed

text \<open>
  Nor are the calls answered when the model finishes with the reason \<open>error\<close>: the reply is written
  down with them and the turn is closed.
\<close>
lemma error_finish_unanswered:
  assumes "in_step_with (ho_agent (ss_host st))" and "assembler_result (ss_asm st) = (blocks, usage, ''error'')"
    and "in_int64 turn" and "in_int64 step" and "usage_ok usage" and "ss_next st = None"
    and "\<not> ss_actor_stopped st" and "\<not> ss_turn_aborted st" and "\<not> ss_failed st"
  shows "\<exists>h'. after_stream env turn step ctxs sticky st = TurnClosed h' \<and>
    pending_calls (durable_log (ho_agent h')) = pending_calls (durable_log (ho_agent (ss_host st))) + int (length (call_blocks blocks))"
proof -
  let ?h1 = "if blocks \<noteq> [] then say_assistant env turn step blocks usage False (ss_host st) else ss_host st"
  let ?k = "pending_calls (durable_log (ho_agent (ss_host st))) + int (length (call_blocks blocks))"
  have g: "in_step_with (ho_agent ?h1)" using assms(1) by (simp add: keeps_grammar.assistant_quiet)
  have k: "log_inv (ho_agent ?h1) \<and> pending_calls (durable_log (ho_agent ?h1)) = ?k"
    using say_assistant_pending [OF assms(1,3,4,5)] grammar_log [OF g] by (simp add: call_blocks_def)
  have "pending_calls (durable_log (ho_agent (finish_turn_reason env ''error'' msg ?h1))) = ?k" for msg
    unfolding finish_turn_reason_def Let_def using k
    by (auto intro!: same_pending.say_any [THEN conjunct2] simp: message_types_def payload_json_def
        same_pending.say_quiet [THEN conjunct1] same_pending.say_quiet [THEN conjunct2])
  then show ?thesis using assms(2,6-) by (simp add: after_stream_def Let_def split del: if_split)
qed

section \<open>Retries\<close>

text \<open>
  The retry budget. When every attempt ends, a request that may be retried at most \<open>m\<close> times
  makes at most \<open>m + 1\<close> attempts and returns, starting fewer retries than attempts; it delivers
  at most one error, and that is the error of its last attempt, or the lack of an adapter.
\<close>
theorem retry_budget:
  assumes "0 \<le> m" and "m < int (length attempts)" and "\<forall>a\<in>set attempts. ends a"
  shows "\<exists>acts. llm_retry turn step m attempts = (acts, True) \<and>
    (let made = attempts_made m 0 attempts
     in int (length made) \<le> m + 1 \<and> started acts < length made \<and> length (sent_errors acts) \<le> 1 \<and>
        (\<forall>e\<in>set (sent_errors acts). e = no_adapter_error \<or> snd (attempt_loop (at_stream (last made))) = EndError e))"
proof -
  from retry_loop_returns [of 0 m attempts turn step] assms obtain acts where
    l: "llm_retry_loop turn step m 0 attempts = (acts, True)" "started acts < length (attempts_made m 0 attempts)" by auto
  have "length (sent_errors acts) \<le> 1" using retry_loop_chunks [OF l(1)] by simp
  then have "\<forall>e\<in>set (sent_errors acts). e = no_adapter_error \<or>
      snd (attempt_loop (at_stream (last (attempts_made m 0 attempts)))) = EndError e"
    using retry_loop_error [OF l(1)] by (cases "sent_errors acts") auto
  with l \<open>length (sent_errors acts) \<le> 1\<close> attempts_made_bound [OF order_refl assms(1), of attempts] show ?thesis
    by (simp add: llm_retry_def Let_def)
qed

definition failing_attempt :: "stream_chunk list \<Rightarrow> attempt" where
  "failing_attempt cs = \<lparr>at_adapter = True, at_stream = map (\<lambda>c. ObsChunk c True) cs @ [ObsError (Some (StreamSentinel ''cut''))],
     at_draw = 0, at_waited = True\<rparr>"

lemma failing_attempt_loop: "attempt_loop (at_stream (failing_attempt cs)) = (cs, EndError (StreamSentinel ''cut''))"
proof -
  have "attempt_loop (map (\<lambda>c. ObsChunk c True) cs @ [ObsError (Some (StreamSentinel ''cut''))]) = (cs, EndError (StreamSentinel ''cut''))"
    by (induction cs) simp_all
  then show ?thesis by (simp add: failing_attempt_def)
qed

lemma retry_budget_witness:
  "\<exists>acts. llm_retry 1 1 1 [failing_attempt [], failing_attempt []] = (acts, True)"
  using retry_budget [of 1 "[failing_attempt [], failing_attempt []]" 1 1] by (auto simp: ends_def failing_attempt_loop)

text \<open>
  Retries are not transparent: the caller is sent the chunks of every attempt that was made, one
  attempt after the other, so the content of a stream that broke off is repeated by the next one.
\<close>
theorem retry_forwards_every_attempt:
  "sent_chunks (fst (llm_retry turn step m attempts)) = concat (map forwarded (attempts_made m 0 attempts))"
  using retry_loop_chunks [of turn step m 0 attempts] by (simp add: llm_retry_def) (metis prod.collapse)

lemma retry_repeats_content:
  "sent_chunks (fst (llm_retry 1 1 5 [failing_attempt [call_chunk], failing_attempt [call_chunk]])) = [call_chunk, call_chunk]"
proof -
  let ?as = "[failing_attempt [call_chunk], failing_attempt [call_chunk]]"
  have f: "at_adapter (failing_attempt cs)" "at_waited (failing_attempt cs)" for cs by (simp_all add: failing_attempt_def)
  have "attempts_made 5 0 ?as = ?as"
    by (simp add: retries_def failing_attempt_loop f classify_llm_error_def is_retryable_code_def retryable_codes_def)
  moreover obtain acts fin where l: "llm_retry_loop 1 1 5 0 ?as = (acts, fin)" by fastforce
  ultimately show ?thesis
    using retry_loop_chunks [OF l] by (simp add: llm_retry_def forwarded_def failing_attempt_loop f)
qed

end
