(* ===== verification/Civil_Time.thy ===== *)
theory Civil_Time imports Go_Strings begin

text \<open>
  What the program uses of Go's package \<open>time\<close>: the calendar, the canonical UTC text of an instant
  and its parsers, and durations of 64 bits.  An instant is its number of nanoseconds since the
  Unix epoch.
\<close>

section \<open>The calendar\<close>

definition leap_year :: "int \<Rightarrow> bool" where
  "leap_year y \<longleftrightarrow> y mod 4 = 0 \<and> (y mod 100 \<noteq> 0 \<or> y mod 400 = 0)"

definition month_lengths :: "int \<Rightarrow> int list" where
  "month_lengths y = [31, if leap_year y then 29 else 28, 31, 30, 31, 30, 31, 31, 30, 31, 30, 31]"

definition days_in_month :: "int \<Rightarrow> int \<Rightarrow> int" where
  "days_in_month y m = month_lengths y ! nat (m - 1)"

text \<open>Days since 1 January of the year 1.\<close>

definition days_before_year :: "int \<Rightarrow> int" where
  "days_before_year y = 365 * (y - 1) + (y - 1) div 4 - (y - 1) div 100 + (y - 1) div 400"

definition days_of_civil :: "int \<Rightarrow> int \<Rightarrow> int \<Rightarrow> int" where
  "days_of_civil y m d = days_before_year y + sum_list (take (nat (m - 1)) (month_lengths y)) + (d - 1)"

fun month_scan :: "int list \<Rightarrow> int \<Rightarrow> int \<Rightarrow> int \<times> int" where
  "month_scan [] m r = (m, r + 1)"
| "month_scan (l # ls) m r = (if r < l then (m, r + 1) else month_scan ls (m + 1) (r - l))"

text \<open>Year and day of the year by the cycles of 400, 100, 4 and 1 years.\<close>

definition year_of_days :: "int \<Rightarrow> int \<times> int" where
  "year_of_days n = (let r400 = n mod 146097; c = min 3 (r400 div 36524); r100 = r400 - 36524 * c;
      q = r100 div 1461; r4 = r100 - 1461 * q; e = min 3 (r4 div 365)
    in (400 * (n div 146097) + 100 * c + 4 * q + e + 1, r4 - 365 * e))"

definition civil_of_days :: "int \<Rightarrow> int \<times> int \<times> int" where
  "civil_of_days n = (let (y, r) = year_of_days n; (m, d) = month_scan (month_lengths y) 1 r in (y, m, d))"

definition valid_date :: "int \<Rightarrow> int \<Rightarrow> int \<Rightarrow> bool" where
  "valid_date y m d \<longleftrightarrow> 1 \<le> m \<and> m \<le> 12 \<and> 1 \<le> d \<and> d \<le> days_in_month y m"

lemma sum_month_lengths: "sum_list (month_lengths y) = (if leap_year y then 366 else 365)"
  by (simp add: month_lengths_def)

lemma year_of_days_correct:
  assumes "year_of_days n = (y, r)"
  shows "days_before_year y + r = n" and "0 \<le> r" and "r < sum_list (month_lengths y)"
proof -
  define a where "a = n div 146097"
  define s where "s = n mod 146097"
  define c where "c = min 3 (s div 36524)"
  define t where "t = s - 36524 * c"
  define q where "q = t div 1461"
  define u where "u = t - 1461 * q"
  define e where "e = min 3 (u div 365)"
  have y: "y = 400 * a + 100 * c + 4 * q + e + 1" and r: "r = u - 365 * e"
    using assms unfolding year_of_days_def Let_def prod.inject a_def s_def c_def t_def q_def u_def e_def
    by (iprover, iprover)
  have n: "n = 146097 * a + s" "0 \<le> s" "s < 146097" by (simp_all add: a_def s_def)
  have c: "0 \<le> c" "c \<le> 3" "0 \<le> t" "t \<le> 36524" "c < 3 \<longrightarrow> t < 36524"
    using n(2,3) unfolding t_def c_def by (auto simp: min_def)
  have q: "0 \<le> q" "q \<le> 24" "0 \<le> u" "u \<le> 1460" "u = t - 1461 * q"
    using c(3,4) unfolding u_def q_def by auto
  have e: "0 \<le> e" "e \<le> 3" "0 \<le> u - 365 * e" "u - 365 * e \<le> 365" "e < 3 \<longrightarrow> u - 365 * e < 365"
    using q(3,4) unfolding e_def by (auto simp: min_def)
  have divs: "(y - 1) div 4 = 100 * a + 25 * c + q" "(y - 1) div 100 = 4 * a + c" "(y - 1) div 400 = a"
  proof -
    have "y - 1 = 4 * (100 * a + 25 * c + q) + e" using y by simp
    then show "(y - 1) div 4 = 100 * a + 25 * c + q" by (rule int_div_pos_eq) (use e in simp_all)
    have "y - 1 = 100 * (4 * a + c) + (4 * q + e)" using y by simp
    then show "(y - 1) div 100 = 4 * a + c" by (rule int_div_pos_eq) (use e q in simp_all)
    have "y - 1 = 400 * a + (100 * c + 4 * q + e)" using y by simp
    then show "(y - 1) div 400 = a" by (rule int_div_pos_eq) (use c e q in simp_all)
  qed
  have "n = 146097 * a + 36524 * c + 1461 * q + u" using n(1) t_def u_def by linarith
  moreover have "days_before_year y = 365 * (y - 1) + (100 * a + 25 * c + q) - (4 * a + c) + a"
    by (simp only: days_before_year_def divs)
  ultimately show "days_before_year y + r = n" using y r by simp
  show "0 \<le> r" using e(3) r by simp
  show "r < sum_list (month_lengths y)"
  proof (cases "e = 3 \<and> u - 365 * e = 365")
    case False
    then have "r < 365" using e(2,4,5) r by linarith
    then show ?thesis by (simp add: sum_month_lengths)
  next
    case True
    then have e3: "e = 3" and u: "u = 1460" by simp_all
    have m4: "y mod 4 = 0"
    proof -
      have "y = 4 * (100 * a + 25 * c + q + 1)" using y e3 by simp
      then show ?thesis by simp
    qed
    have "q = 24 \<longrightarrow> c = 3" using u q(5) c(2,4,5) by linarith
    have "y mod 100 \<noteq> 0 \<or> y mod 400 = 0"
    proof (cases "q = 24")
      case True
      with \<open>q = 24 \<longrightarrow> c = 3\<close> y e3 have "y = 400 * (a + 1)" by simp
      then show ?thesis by simp
    next
      case False
      have "y = 4 * (q + 1) + 100 * (4 * a + c)" using y e3 by simp
      then have "y mod 100 = 4 * (q + 1) mod 100" by (metis mod_mult_self2)
      also have "\<dots> = 4 * (q + 1)" using False q(1,2) by simp
      finally show ?thesis using q(1) by simp
    qed
    with m4 have "leap_year y" by (simp add: leap_year_def)
    then show ?thesis using e(4) r by (simp add: sum_month_lengths)
  qed
qed

lemma month_scan_correct:
  assumes "0 \<le> r" and "r < sum_list ls" and "month_scan ls k r = (m, d)"
  shows "k \<le> m \<and> m < k + int (length ls) \<and> 1 \<le> d \<and> d \<le> ls ! nat (m - k) \<and>
    sum_list (take (nat (m - k)) ls) + (d - 1) = r"
  using assms
proof (induction ls arbitrary: k r)
  case (Cons l ls)
  show ?case
  proof (cases "r < l")
    case True
    with Cons.prems show ?thesis by auto
  next
    case False
    with Cons.prems have "0 \<le> r - l" "r - l < sum_list ls" "month_scan ls (k + 1) (r - l) = (m, d)" by simp_all
    from Cons.IH [OF this] have ih: "k + 1 \<le> m" "m < k + 1 + int (length ls)" "1 \<le> d" "d \<le> ls ! nat (m - (k + 1))"
      "sum_list (take (nat (m - (k + 1))) ls) + (d - 1) = r - l" by simp_all
    have "nat (m - k) = Suc (nat (m - (k + 1)))" using ih(1) by simp
    with ih show ?thesis by simp
  qed
qed simp

text \<open>Every day has a valid date, and the date names the day.\<close>

lemma civil_of_days_correct:
  assumes "civil_of_days n = (y, m, d)"
  shows "valid_date y m d" and "days_of_civil y m d = n"
proof -
  obtain r where yr: "year_of_days n = (y, r)" and ms: "month_scan (month_lengths y) 1 r = (m, d)"
    using assms by (auto simp: civil_of_days_def split: prod.splits)
  note yc = year_of_days_correct [OF yr]
  from month_scan_correct [OF yc(2,3) ms] yc(1)
  show "valid_date y m d" "days_of_civil y m d = n"
    by (simp_all add: valid_date_def days_of_civil_def days_in_month_def month_lengths_def)
qed

lemma div_pred: 
  fixes k y :: int
  assumes "1 < k"
  shows "y div k = (y - 1) div k + (if y mod k = 0 then 1 else 0)"
proof (cases "y mod k = 0")
  case True
  then have "y - 1 = k * (y div k - 1) + (k - 1)" by (metis add.right_neutral diff_diff_eq2 mult_div_mod_eq right_diff_distrib' mult.right_neutral add_diff_eq diff_add_cancel)
  then have "(y - 1) div k = y div k - 1" by (rule int_div_pos_eq) (use assms in simp_all)
  with True show ?thesis by simp
next
  case False
  have r: "0 \<le> y mod k" "y mod k < k" using assms by simp_all
  have "y - 1 = k * (y div k) + (y mod k - 1)" by (simp add: mult_div_mod_eq)
  then have "(y - 1) div k = y div k" by (rule int_div_pos_eq) (use False r in simp_all)
  with False show ?thesis by simp
qed

lemma days_before_next_year: "days_before_year (y + 1) = days_before_year y + sum_list (month_lengths y)"
proof -
  have imp: "y mod 400 = 0 \<Longrightarrow> y mod 100 = 0" "y mod 100 = 0 \<Longrightarrow> y mod 4 = 0"
    by (auto simp: mod_eq_0_iff_dvd elim: dvd_trans [rotated])
  define a b c where "a = (y - 1) div 4" and "b = (y - 1) div 100" and "c = (y - 1) div 400"
  have d: "y div 4 = a + (if y mod 4 = 0 then 1 else 0)" "y div 100 = b + (if y mod 100 = 0 then 1 else 0)"
    "y div 400 = c + (if y mod 400 = 0 then 1 else 0)"
    unfolding a_def b_def c_def by (rule div_pred, simp)+
  have "days_before_year (y + 1) = 365 * y + (a + (if y mod 4 = 0 then 1 else 0)) -
      (b + (if y mod 100 = 0 then 1 else 0)) + (c + (if y mod 400 = 0 then 1 else 0))"
    by (simp only: days_before_year_def add_diff_cancel_right' d)
  moreover have "days_before_year y = 365 * (y - 1) + a - b + c"
    by (simp only: days_before_year_def a_def b_def c_def)
  ultimately show ?thesis using imp
    by (cases "y mod 400 = 0"; cases "y mod 100 = 0"; cases "y mod 4 = 0")
      (simp_all only: sum_month_lengths leap_year_def if_True if_False simp_thms, simp_all)
qed

lemma days_before_year_less: "y < y' \<Longrightarrow> days_before_year y + sum_list (month_lengths y) \<le> days_before_year y'"
proof (induction "nat (y' - y)" arbitrary: y)
  case (Suc k)
  show ?case
  proof (cases "y' = y + 1")
    case True
    then show ?thesis by (simp add: days_before_next_year)
  next
    case False
    with Suc.prems have "y + 1 < y'" by simp
    moreover have "k = nat (y' - (y + 1))" using Suc.hyps(2) by simp
    ultimately have "days_before_year (y + 1) + sum_list (month_lengths (y + 1)) \<le> days_before_year y'"
      using Suc.hyps(1) by blast
    then show ?thesis using days_before_next_year [of y] by (simp add: sum_month_lengths split: if_splits)
  qed
qed simp

lemma month_scan_complete:
  assumes "\<forall>l\<in>set ls. 0 < l" and "i < length ls" and "0 \<le> j" and "j < ls ! i"
  shows "month_scan ls k (sum_list (take i ls) + j) = (k + int i, j + 1)"
  using assms
proof (induction ls arbitrary: i k)
  case (Cons l ls)
  show ?case
  proof (cases i)
    case 0
    with Cons.prems show ?thesis by simp
  next
    case (Suc i')
    have "0 \<le> sum_list (take i' ls)" using Cons.prems(1)
      by (intro sum_list_nonneg) (auto dest!: in_set_takeD)
    with Suc Cons show ?thesis by (simp add: algebra_simps)
  qed
qed simp

lemma valid_date_day: 
  assumes "valid_date y m d"
  shows "0 \<le> sum_list (take (nat (m - 1)) (month_lengths y)) + (d - 1)"
    and "sum_list (take (nat (m - 1)) (month_lengths y)) + (d - 1) < sum_list (month_lengths y)"
    and "month_scan (month_lengths y) 1 (sum_list (take (nat (m - 1)) (month_lengths y)) + (d - 1)) = (m, d)"
proof -
  let ?ls = "month_lengths y" let ?i = "nat (m - 1)"
  have pos: "\<forall>l\<in>set ?ls. 0 < l" by (auto simp: month_lengths_def)
  have "m - 1 < 12" "length ?ls = 12" using assms by (simp_all add: valid_date_def month_lengths_def)
  then have i: "?i < length ?ls" by simp
  have d: "0 \<le> d - 1" "d - 1 < ?ls ! ?i" using assms by (simp_all add: valid_date_def days_in_month_def)
  have "month_scan ?ls 1 (sum_list (take ?i ?ls) + (d - 1)) = (1 + int ?i, d - 1 + 1)"
    by (rule month_scan_complete [OF pos i d])
  then show "month_scan ?ls 1 (sum_list (take ?i ?ls) + (d - 1)) = (m, d)" using assms by (simp add: valid_date_def)
  have nn: "0 \<le> sum_list (take k ?ls)" "0 \<le> sum_list (drop k ?ls)" for k
    using pos by (auto intro!: sum_list_nonneg dest!: in_set_takeD in_set_dropD)
  then show "0 \<le> sum_list (take ?i ?ls) + (d - 1)" using d nn(1) [of ?i] by simp
  have "sum_list ?ls = sum_list (take ?i ?ls) + (?ls ! ?i + sum_list (drop (Suc ?i) ?ls))"
    by (metis append_take_drop_id i id_take_nth_drop sum_list.Cons sum_list.append)
  with d nn(2) [of "Suc ?i"] show "sum_list (take ?i ?ls) + (d - 1) < sum_list ?ls" by linarith
qed

lemma civil_of_days_of_civil:
  assumes "valid_date y m d"
  shows "civil_of_days (days_of_civil y m d) = (y, m, d)"
proof -
  let ?r = "sum_list (take (nat (m - 1)) (month_lengths y)) + (d - 1)"
  obtain y' r' where yr: "year_of_days (days_of_civil y m d) = (y', r')" by fastforce
  note yc = year_of_days_correct [OF yr] and vd = valid_date_day [OF assms]
  have eq: "days_before_year y' + r' = days_before_year y + ?r" using yc(1) by (simp add: days_of_civil_def)
  have "y' = y"
    using days_before_year_less [of y y'] days_before_year_less [of y' y] yc(2,3) vd(1,2) eq by (cases y y' rule: linorder_cases) linarith+
  with eq have "r' = ?r" by simp
  with yr \<open>y' = y\<close> vd(3) show ?thesis by (simp add: civil_of_days_def)
qed

end
