(* ===== verification/Civil_Text.thy ===== *)
theory Civil_Text imports Civil_Time begin

text \<open>
  Instants as text: \<open>Time.Format\<close> and \<open>time.Parse\<close> with the layouts the schedule tools use
  (\<open>pkg/tools/schedule.go\<close>), and 64-bit durations.
\<close>

section \<open>Instants\<close>

abbreviation "second_ns \<equiv> (1000000000 :: int)"
abbreviation "day_ns \<equiv> (86400000000000 :: int)"

text \<open>The epoch is day 719162 of the calendar.\<close>

definition instant_days :: "int \<Rightarrow> int" where
  "instant_days t = t div day_ns + 719162"

definition instant_year :: "int \<Rightarrow> int" where
  "instant_year t = fst (civil_of_days (instant_days t))"

definition instant_of :: "int \<Rightarrow> int \<Rightarrow> int \<Rightarrow> int \<Rightarrow> int \<Rightarrow> int \<Rightarrow> int \<Rightarrow> int" where
  "instant_of y m d hour minute sec ns =
     ((days_of_civil y m d - 719162) * 86400 + hour * 3600 + minute * 60 + sec) * second_ns + ns"

definition truncate_ms :: "int \<Rightarrow> int" where "truncate_ms t = t div 1000000 * 1000000"

section \<open>Fixed-width numbers\<close>

fun fixed_digits :: "nat \<Rightarrow> nat \<Rightarrow> string" where
  "fixed_digits 0 n = []"
| "fixed_digits (Suc w) n = fixed_digits w (n div 10) @ [digit_char (n mod 10)]"

definition pad_nat :: "nat \<Rightarrow> nat \<Rightarrow> string" where
  "pad_nat w n = (if n < 10 ^ w then fixed_digits w n else decimal n)"

definition pad_int :: "nat \<Rightarrow> int \<Rightarrow> string" where
  "pad_int w n = (if n < 0 then CHR ''-'' # pad_nat w (nat (- n)) else pad_nat w (nat n))"

definition take_number :: "nat \<Rightarrow> string \<Rightarrow> (int \<times> string) option" where
  "take_number w s = (if length s < w then None
     else map_option (\<lambda>n. (int n, drop w s)) (number_from 0 (take w s)))"

definition expect :: "char \<Rightarrow> string \<Rightarrow> string option" where
  "expect c s = (case s of [] \<Rightarrow> None | d # t \<Rightarrow> (if d = c then Some t else None))"

lemma length_fixed_digits [simp]: "length (fixed_digits w n) = w"
  by (induction w arbitrary: n) simp_all

lemma number_fixed_digits: "n < 10 ^ w \<Longrightarrow> number_from 0 (fixed_digits w n) = Some n"
proof (induction w arbitrary: n)
  case (Suc w)
  then have "n div 10 < 10 ^ w" by simp
  with Suc.IH show ?case by (simp add: number_from_snoc)
qed simp

lemma take_number_pad: "0 \<le> n \<Longrightarrow> n < 10 ^ w \<Longrightarrow> take_number w (pad_int w n @ s) = Some (n, s)"
proof -
  assume n: "0 \<le> n" "n < 10 ^ w"
  then have "nat n < 10 ^ w" by (metis nat_less_iff of_nat_numeral of_nat_power)
  with n number_fixed_digits [OF this] show ?thesis by (simp add: take_number_def pad_int_def pad_nat_def)
qed

lemma expect_Cons [simp]: "expect c (c # s) = Some s"
  by (simp add: expect_def)

section \<open>The canonical text of an instant\<close>

text \<open>\<open>at.UTC().Format("2006-01-02T15:04:05.000Z")\<close>.\<close>

definition format_canonical :: "int \<Rightarrow> string" where
  "format_canonical t = (let (y, m, d) = civil_of_days (instant_days t); r = t mod day_ns in
     pad_int 4 y @ [CHR ''-''] @ pad_int 2 m @ [CHR ''-''] @ pad_int 2 d @ [CHR ''T''] @
     pad_int 2 (r div (3600 * second_ns)) @ [CHR '':''] @ pad_int 2 (r div (60 * second_ns) mod 60) @ [CHR '':''] @
     pad_int 2 (r div second_ns mod 60) @ [CHR ''.''] @ pad_int 3 (r div 1000000 mod 1000) @ [CHR ''Z''])"

datatype instant_error = NotCanonical | NotCalendar

text \<open>The groups of the regular expression; its ranges are checked below.\<close>

definition canonical_fields :: "string \<Rightarrow> (int \<times> int \<times> int \<times> int \<times> int \<times> int \<times> int) option" where
  "canonical_fields s =
     Option.bind (take_number 4 s) (\<lambda>(y, s). Option.bind (expect (CHR ''-'') s) (\<lambda>s.
     Option.bind (take_number 2 s) (\<lambda>(m, s). Option.bind (expect (CHR ''-'') s) (\<lambda>s.
     Option.bind (take_number 2 s) (\<lambda>(d, s). Option.bind (expect (CHR ''T'') s) (\<lambda>s.
     Option.bind (take_number 2 s) (\<lambda>(hh, s). Option.bind (expect (CHR '':'') s) (\<lambda>s.
     Option.bind (take_number 2 s) (\<lambda>(mm, s). Option.bind (expect (CHR '':'') s) (\<lambda>s.
     Option.bind (take_number 2 s) (\<lambda>(ss, s). Option.bind (expect (CHR ''.'') s) (\<lambda>s.
     Option.bind (take_number 3 s) (\<lambda>(ms, s). Option.bind (expect (CHR ''Z'') s) (\<lambda>s.
     if s = [] then Some (y, m, d, hh, mm, ss, ms) else None))))))))))))))"

definition utc_instant_re :: "string \<Rightarrow> bool" where
  "utc_instant_re s = (case canonical_fields s of None \<Rightarrow> False
     | Some (y, m, d, hh, mm, ss, ms) \<Rightarrow> 1 \<le> m \<and> m \<le> 12 \<and> 1 \<le> d \<and> d \<le> 31 \<and> hh \<le> 23 \<and> mm \<le> 59 \<and> ss \<le> 59)"

definition parse_canonical_instant :: "string \<Rightarrow> instant_error + int" where
  "parse_canonical_instant s =
     (if \<not> utc_instant_re s then Inl NotCanonical
      else case canonical_fields s of
        Some (y, m, d, hh, mm, ss, ms) \<Rightarrow>
          (if days_in_month y m < d \<or> y < 1 then Inl NotCalendar
           else Inr (instant_of y m d hh mm ss (ms * 1000000)))
      | None \<Rightarrow> Inl NotCalendar)"

section \<open>\<open>time.Parse(time.RFC3339Nano, s)\<close>\<close>

text \<open>Two digits, or one where the layout leaves the width open (\<open>getnum\<close>).\<close>

definition get_num :: "bool \<Rightarrow> string \<Rightarrow> (int \<times> string) option" where
  "get_num fixed s = (case take_number 2 s of
      Some r \<Rightarrow> Some r
    | None \<Rightarrow> (if fixed then None else take_number 1 s))"

text \<open>A fraction of any width, of which nine digits count; the result is in nanoseconds.\<close>

definition take_fraction :: "string \<Rightarrow> int \<times> string" where
  "take_fraction s = (case s of
      c # cs \<Rightarrow> (let ds = takeWhile (\<lambda>d. digit_value d \<noteq> None) cs in
         if c \<in> {CHR ''.'', CHR '',''} \<and> ds \<noteq> [] then
           ((case number_from 0 (take 9 ds) of Some n \<Rightarrow> int n * 10 ^ (9 - length (take 9 ds)) | None \<Rightarrow> 0),
            drop (length ds) cs)
         else (0, s))
    | [] \<Rightarrow> (0, s))"

definition take_zone :: "string \<Rightarrow> int option" where
  "take_zone s = (if s = ''Z'' then Some 0
     else if length s \<noteq> 6 \<or> s ! 3 \<noteq> CHR '':'' then None
     else case (take_number 2 (drop 1 s), take_number 2 (drop 4 s)) of
       (Some (hr, _), Some (mm, _)) \<Rightarrow>
         (if 24 < hr \<or> 60 < mm then None
          else if s ! 0 = CHR ''+'' then Some ((hr * 60 + mm) * 60)
          else if s ! 0 = CHR ''-'' then Some (- ((hr * 60 + mm) * 60)) else None)
     | _ \<Rightarrow> None)"

definition parse_accepted_at :: "string \<Rightarrow> int option" where
  "parse_accepted_at s =
     Option.bind (take_number 4 s) (\<lambda>(y, s). Option.bind (expect (CHR ''-'') s) (\<lambda>s.
     Option.bind (get_num True s) (\<lambda>(m, s). Option.bind (expect (CHR ''-'') s) (\<lambda>s.
     Option.bind (get_num True s) (\<lambda>(d, s). Option.bind (expect (CHR ''T'') s) (\<lambda>s.
     Option.bind (get_num False s) (\<lambda>(hh, s). Option.bind (expect (CHR '':'') s) (\<lambda>s.
     Option.bind (get_num True s) (\<lambda>(mm, s). Option.bind (expect (CHR '':'') s) (\<lambda>s.
     Option.bind (get_num True s) (\<lambda>(ss, s).
     let (ns, s) = take_fraction s in Option.bind (take_zone s) (\<lambda>off.
     if valid_date y m d \<and> hh < 24 \<and> mm < 60 \<and> ss < 60 \<and> 1 \<le> y
     then Some (instant_of y m d hh mm ss ns - off * second_ns) else None))))))))))))"

section \<open>Reading back what was written\<close>

lemma clock_of_day:
  fixes r :: int
  assumes "0 \<le> r" and "r < day_ns"
  shows "0 \<le> r div (3600 * second_ns)" "r div (3600 * second_ns) \<le> 23"
    "0 \<le> r div (60 * second_ns) mod 60" "r div (60 * second_ns) mod 60 \<le> 59"
    "0 \<le> r div second_ns mod 60" "r div second_ns mod 60 \<le> 59"
    "0 \<le> r div 1000000 mod 1000" "r div 1000000 mod 1000 \<le> 999"
    "(r div (3600 * second_ns) * 3600 + r div (60 * second_ns) mod 60 * 60 + r div second_ns mod 60) * second_ns +
     r div 1000000 mod 1000 * 1000000 = truncate_ms r"
proof -
  define k where "k = r div 1000000"
  have s: "r div second_ns = k div 1000" "r div (60 * second_ns) = k div 1000 div 60"
    "r div (3600 * second_ns) = k div 1000 div 60 div 60"
    unfolding k_def by (simp_all add: zdiv_zmult2_eq [symmetric])
  have k: "0 \<le> k" "k < 86400000" using assms unfolding k_def by simp_all
  define sec where "sec = k div 1000"
  define mn where "mn = sec div 60"
  have gen: "a = 1000 * b + e \<Longrightarrow> b = 60 * c + f \<Longrightarrow> c = 60 * d + g \<Longrightarrow>
      (d * 3600 + g * 60 + f) * second_ns + e * 1000000 = a * 1000000" for a b c d e f g :: int by simp
  have "k = 1000 * sec + k mod 1000" "sec = 60 * mn + sec mod 60" "mn = 60 * (mn div 60) + mn mod 60"
    by (simp_all add: sec_def mn_def)
  then have "(mn div 60 * 3600 + mn mod 60 * 60 + sec mod 60) * second_ns + k mod 1000 * 1000000 = k * 1000000"
    by (rule gen)
  then show "(r div (3600 * second_ns) * 3600 + r div (60 * second_ns) mod 60 * 60 + r div second_ns mod 60) * second_ns +
     r div 1000000 mod 1000 * 1000000 = truncate_ms r"
    unfolding s k_def [symmetric] sec_def [symmetric] mn_def [symmetric] truncate_ms_def .
  show "0 \<le> r div (3600 * second_ns)" using assms(1) by simp
  show "r div (3600 * second_ns) \<le> 23" using assms(2) by simp
  have m: "0 \<le> x mod 60" "x mod 60 \<le> 59" for x :: int using pos_mod_bound [of 60 x] by simp_all
  show "0 \<le> r div (60 * second_ns) mod 60" "r div (60 * second_ns) mod 60 \<le> 59"
    "0 \<le> r div second_ns mod 60" "r div second_ns mod 60 \<le> 59" by (rule m)+
  show "0 \<le> r div 1000000 mod 1000" "r div 1000000 mod 1000 \<le> 999"
    using pos_mod_bound [of 1000 "r div 1000000"] by simp_all
qed

lemma days_in_month_range: "1 \<le> m \<Longrightarrow> m \<le> 12 \<Longrightarrow> days_in_month y m \<le> 31"
proof -
  assume "1 \<le> m" "m \<le> 12"
  then have "nat (m - 1) < length (month_lengths y)" by (simp add: month_lengths_def)
  then have "days_in_month y m \<in> set (month_lengths y)" unfolding days_in_month_def by (rule nth_mem)
  then show ?thesis by (auto simp: month_lengths_def)
qed

lemma digits_fixed: "c \<in> set (fixed_digits w n) \<Longrightarrow> digit_value c \<noteq> None"
  by (induction w arbitrary: n) auto

lemma take_fraction_pad:
  assumes "0 \<le> ms" and "ms \<le> 999"
  shows "take_fraction (CHR ''.'' # pad_int 3 ms @ [CHR ''Z'']) = (ms * 1000000, ''Z'')"
proof -
  let ?ds = "fixed_digits 3 (nat ms)"
  have lt: "nat ms < 10 ^ 3" using assms by simp
  then have p: "pad_int 3 ms = ?ds" using assms by (simp add: pad_int_def pad_nat_def)
  have "takeWhile (\<lambda>d. digit_value d \<noteq> None) (?ds @ ''Z'') = ?ds @ takeWhile (\<lambda>d. digit_value d \<noteq> None) ''Z''"
    using digits_fixed by (intro takeWhile_append2) blast
  also have "takeWhile (\<lambda>d. digit_value d \<noteq> None) ''Z'' = []" by (simp add: digit_value_def)
  finally have "takeWhile (\<lambda>d. digit_value d \<noteq> None) (?ds @ ''Z'') = ?ds" by simp
  moreover have "?ds \<noteq> []" by (metis length_fixed_digits list.size(3) zero_neq_numeral)
  moreover have "number_from 0 ?ds = Some (nat ms)" by (rule number_fixed_digits [OF lt])
  ultimately show ?thesis unfolding p using assms by (simp add: take_fraction_def Let_def)
qed

text \<open>The fields of a formatted instant, and that they make the instant again.\<close>

lemma format_canonical_fields:
  assumes "1 \<le> instant_year t" and "instant_year t \<le> 9999"
  obtains y m d hh mm ss ms where
    "format_canonical t = pad_int 4 y @ [CHR ''-''] @ pad_int 2 m @ [CHR ''-''] @ pad_int 2 d @ [CHR ''T''] @
       pad_int 2 hh @ [CHR '':''] @ pad_int 2 mm @ [CHR '':''] @ pad_int 2 ss @ [CHR ''.''] @ pad_int 3 ms @ [CHR ''Z'']"
    "1 \<le> y" "y \<le> 9999" "valid_date y m d" "1 \<le> m" "m \<le> 12" "1 \<le> d" "d \<le> 31"
    "0 \<le> hh" "hh \<le> 23" "0 \<le> mm" "mm \<le> 59" "0 \<le> ss" "ss \<le> 59" "0 \<le> ms" "ms \<le> 999"
    "instant_of y m d hh mm ss (ms * 1000000) = truncate_ms t"
proof -
  obtain y m d where c: "civil_of_days (instant_days t) = (y, m, d)" by (metis prod_cases3)
  note cc = civil_of_days_correct [OF c]
  have y: "1 \<le> y" "y \<le> 9999" using assms c by (simp_all add: instant_year_def)
  have m: "1 \<le> m" "m \<le> 12" "1 \<le> d" "d \<le> 31"
    using cc(1) days_in_month_range [of m y] by (auto simp: valid_date_def)
  let ?r = "t mod day_ns"
  have r: "0 \<le> ?r" "?r < day_ns" by simp_all
  have "t = 1000000 * (86400000 * (t div day_ns)) + ?r" by simp
  then have "t div 1000000 = 86400000 * (t div day_ns) + ?r div 1000000"
    by (metis div_mult_self4 zero_neq_numeral)
  then have "truncate_ms t = 86400000000000 * (t div day_ns) + truncate_ms ?r" by (simp add: truncate_ms_def)
  moreover define hh mm ss ms where "hh = ?r div (3600 * second_ns)" and "mm = ?r div (60 * second_ns) mod 60"
    and "ss = ?r div second_ns mod 60" and "ms = ?r div 1000000 mod 1000"
  note ck = clock_of_day [OF r, folded hh_def mm_def ss_def ms_def]
  have "(days_of_civil y m d - 719162) = t div day_ns" using cc(2) by (simp add: instant_days_def)
  moreover have "instant_of y m d hh mm ss (ms * 1000000) = (days_of_civil y m d - 719162) * day_ns +
      ((hh * 3600 + mm * 60 + ss) * second_ns + ms * 1000000)" by (simp add: instant_of_def)
  ultimately have i: "instant_of y m d hh mm ss (ms * 1000000) = truncate_ms t" using ck(9) by simp
  have "format_canonical t = pad_int 4 y @ [CHR ''-''] @ pad_int 2 m @ [CHR ''-''] @ pad_int 2 d @ [CHR ''T''] @
       pad_int 2 hh @ [CHR '':''] @ pad_int 2 mm @ [CHR '':''] @ pad_int 2 ss @ [CHR ''.''] @ pad_int 3 ms @ [CHR ''Z'']"
    by (simp only: format_canonical_def Let_def c prod.case hh_def mm_def ss_def ms_def)
  then show ?thesis by (rule that [OF _ y cc(1) m ck(1-8) i])
qed

theorem parse_format_canonical:
  assumes "1 \<le> instant_year t" and "instant_year t \<le> 9999"
  shows "parse_canonical_instant (format_canonical t) = Inr (truncate_ms t)"
    and "parse_accepted_at (format_canonical t) = Some (truncate_ms t)"
proof -
  obtain y m d hh mm ss ms where f: "format_canonical t = pad_int 4 y @ [CHR ''-''] @ pad_int 2 m @ [CHR ''-''] @
      pad_int 2 d @ [CHR ''T''] @ pad_int 2 hh @ [CHR '':''] @ pad_int 2 mm @ [CHR '':''] @ pad_int 2 ss @
      [CHR ''.''] @ pad_int 3 ms @ [CHR ''Z'']"
    and b: "1 \<le> y" "y \<le> 9999" "valid_date y m d" "1 \<le> m" "m \<le> 12" "1 \<le> d" "d \<le> 31"
    "0 \<le> hh" "hh \<le> 23" "0 \<le> mm" "mm \<le> 59" "0 \<le> ss" "ss \<le> 59" "0 \<le> ms" "ms \<le> 999"
    and i: "instant_of y m d hh mm ss (ms * 1000000) = truncate_ms t"
    using format_canonical_fields [OF assms] .
  have cf: "canonical_fields (format_canonical t) = Some (y, m, d, hh, mm, ss, ms)"
    unfolding f canonical_fields_def using b by (simp add: take_number_pad)
  with b i show "parse_canonical_instant (format_canonical t) = Inr (truncate_ms t)"
    by (simp add: parse_canonical_instant_def utc_instant_re_def valid_date_def)
  have fr: "take_fraction ([CHR ''.''] @ pad_int 3 ms @ [CHR ''Z'']) = (ms * 1000000, ''Z'')"
    using b(14,15) by (simp add: take_fraction_pad)
  show "parse_accepted_at (format_canonical t) = Some (truncate_ms t)"
    unfolding f parse_accepted_at_def using b i fr
    by (simp add: take_number_pad get_num_def take_zone_def)
qed

section \<open>Years as bounds on instants\<close>

lemma days_before_year_mono: "y \<le> y' \<Longrightarrow> days_before_year y \<le> days_before_year y'"
  using days_before_year_less [of y y'] by (cases "y = y'") (auto simp: sum_month_lengths split: if_splits)

lemma civil_year_le: "fst (civil_of_days n) \<le> y \<longleftrightarrow> n < days_before_year (y + 1)"
proof -
  obtain y' r where yr: "year_of_days n = (y', r)" by fastforce
  then have fst: "fst (civil_of_days n) = y'" by (simp add: civil_of_days_def split: prod.split)
  note yc = year_of_days_correct [OF yr]
  have "n < days_before_year (y' + 1)" using yc days_before_next_year [of y'] by simp
  with fst yc(1,2) days_before_year_mono [of "y' + 1" "y + 1"] days_before_year_mono [of "y + 1" y'] show ?thesis
    by (cases "y' \<le> y") auto
qed

lemma instant_year_le: "instant_year t \<le> y \<longleftrightarrow> t div day_ns + 719162 < days_before_year (y + 1)"
  by (simp add: instant_year_def instant_days_def civil_year_le)

lemma instant_year_mono: "s \<le> t \<Longrightarrow> instant_year s \<le> instant_year t"
proof -
  assume "s \<le> t"
  then have "s div day_ns \<le> t div day_ns" by (simp add: zdiv_mono1)
  moreover have "t div day_ns + 719162 < days_before_year (instant_year t + 1)"
    using instant_year_le [of t "instant_year t"] by simp
  ultimately show ?thesis by (simp add: instant_year_le)
qed

lemma instant_year_bounds:
  "instant_year t \<le> 9999 \<longleftrightarrow> t < 253402300800 * second_ns"
  "1 \<le> instant_year t \<longleftrightarrow> - 62135596800 * second_ns \<le> t"
proof -
  have "days_before_year 10000 = 3652059" "days_before_year 1 = 0" by (simp_all add: days_before_year_def)
  then have "instant_year t \<le> 9999 \<longleftrightarrow> t div day_ns < 2932897" "instant_year t \<le> 0 \<longleftrightarrow> t div day_ns < - 719162"
    using instant_year_le [of t 9999] instant_year_le [of t 0] by auto
  moreover have "t div day_ns < 2932897 \<longleftrightarrow> t < 253402300800 * second_ns" by auto
  moreover have "t div day_ns < - 719162 \<longleftrightarrow> t < - 62135596800 * second_ns" by auto
  ultimately show "instant_year t \<le> 9999 \<longleftrightarrow> t < 253402300800 * second_ns"
    "1 \<le> instant_year t \<longleftrightarrow> - 62135596800 * second_ns \<le> t" by linarith+
qed

lemma truncate_ms_bounds: "truncate_ms t \<le> t" "t < truncate_ms t + 1000000" "truncate_ms t mod 1000000 = 0"
  unfolding truncate_ms_def by (simp_all add: minus_mod_eq_div_mult [symmetric])

lemma truncate_ms_year: "1 \<le> instant_year t \<Longrightarrow> 1 \<le> instant_year (truncate_ms t)"
  unfolding instant_year_bounds truncate_ms_def by auto

end
