(* ===== verification/Schedule.thy ===== *)
theory Schedule imports Agent_Log Civil_Text "HOL-Library.AList" "HOL-Library.List_Lexorder" "HOL-Library.Char_ord" begin

text \<open>
  Reminders of a session (\<open>pkg/tools/schedule.go\<close>, \<open>schedule_tools.go\<close>, \<open>schedule_runtime.go\<close>): the
  durable records, the fold of the log that yields the active ones, the next occurrence on 64-bit
  durations, the three tools and the decision of the dispatcher.  A Go map is an association list
  with distinct keys; the text of the error is the error.
\<close>

section \<open>Results\<close>

text \<open>\<open>GoPanics\<close> is a run-time panic: a division by zero or an index out of range.\<close>

datatype 'a go_result = GoPanics | GoErr string | GoOk 'a

definition go_bind :: "'a go_result \<Rightarrow> ('a \<Rightarrow> 'b go_result) \<Rightarrow> 'b go_result" where
  "go_bind r f = (case r of GoPanics \<Rightarrow> GoPanics | GoErr e \<Rightarrow> GoErr e | GoOk a \<Rightarrow> f a)"

lemma go_bind_simps [simp]:
  "go_bind GoPanics f = GoPanics" "go_bind (GoErr e) f = GoErr e" "go_bind (GoOk a) f = f a"
  by (simp_all add: go_bind_def)

lemma go_bind_GoOk: "go_bind r f = GoOk b \<longleftrightarrow> (\<exists>a. r = GoOk a \<and> f a = GoOk b)"
  by (cases r) auto

lemma go_bind_GoPanics: "go_bind r f = GoPanics \<longleftrightarrow> r = GoPanics \<or> (\<exists>a. r = GoOk a \<and> f a = GoPanics)"
  by (cases r) auto

section \<open>Records\<close>

record durable_schedule =
  ds_id :: string
  ds_kind :: string
  ds_prompt :: string
  ds_scheduled_at :: string
  ds_after_seconds :: "int option"
  ds_every_seconds :: "int option"

record schedule_change =
  sch_version :: int
  sch_operation :: string
  sch_schedule :: "durable_schedule option"
  sch_id :: string
  sch_accepted_at :: string

record schedule_record =
  sr_id :: string
  sr_kind :: string
  sr_prompt :: string
  sr_scheduled_at :: int
  sr_after_seconds :: int
  sr_every_seconds :: int

text \<open>A field of type \<open>*int64\<close>.\<close>

definition dec_int_ptr :: "string \<Rightarrow> (string \<times> json) list \<Rightarrow> int option option" where
  "dec_int_ptr k kvs = (case json_field k kvs of
      None \<Rightarrow> Some None | Some JNull \<Rightarrow> Some None
    | Some (JInt i) \<Rightarrow> (if in_int64 i then Some (Some i) else None) | Some _ \<Rightarrow> None)"

definition dec_durable_schedule :: "(string \<times> json) list \<Rightarrow> durable_schedule option" where
  "dec_durable_schedule kvs =
     Option.bind (dec_string ''id'' kvs) (\<lambda>i. Option.bind (dec_string ''kind'' kvs) (\<lambda>k.
     Option.bind (dec_string ''prompt'' kvs) (\<lambda>p. Option.bind (dec_string ''scheduledAt'' kvs) (\<lambda>at.
     Option.bind (dec_int_ptr ''afterSeconds'' kvs) (\<lambda>a. Option.bind (dec_int_ptr ''everySeconds'' kvs) (\<lambda>e.
       Some \<lparr>ds_id = i, ds_kind = k, ds_prompt = p, ds_scheduled_at = at,
             ds_after_seconds = a, ds_every_seconds = e\<rparr>))))))"

definition dec_schedule_change :: "(string \<times> json) list \<Rightarrow> schedule_change option" where
  "dec_schedule_change kvs =
     Option.bind (dec_int ''version'' kvs) (\<lambda>v. Option.bind (dec_string ''operation'' kvs) (\<lambda>o'.
     Option.bind (dec_ptr dec_durable_schedule ''schedule'' kvs) (\<lambda>s. Option.bind (dec_string ''id'' kvs) (\<lambda>i.
     Option.bind (dec_string ''acceptedAt'' kvs) (\<lambda>a.
       Some \<lparr>sch_version = v, sch_operation = o', sch_schedule = s, sch_id = i, sch_accepted_at = a\<rparr>)))))"

text \<open>What \<open>json.Marshal\<close> writes, with the \<open>omitempty\<close> fields.\<close>

definition durable_json :: "durable_schedule \<Rightarrow> json" where
  "durable_json d = JObj ([(''id'', JStr (ds_id d)), (''kind'', JStr (ds_kind d)),
     (''prompt'', JStr (ds_prompt d)), (''scheduledAt'', JStr (ds_scheduled_at d))] @
     (case ds_after_seconds d of None \<Rightarrow> [] | Some i \<Rightarrow> [(''afterSeconds'', JInt i)]) @
     (case ds_every_seconds d of None \<Rightarrow> [] | Some i \<Rightarrow> [(''everySeconds'', JInt i)]))"

definition change_json :: "schedule_change \<Rightarrow> json" where
  "change_json c = JObj ([(''version'', JInt (sch_version c)), (''operation'', JStr (sch_operation c))] @
     (case sch_schedule c of None \<Rightarrow> [] | Some d \<Rightarrow> [(''schedule'', durable_json d)]) @
     (if sch_id c = [] then [] else [(''id'', JStr (sch_id c))]) @
     (if sch_accepted_at c = [] then [] else [(''acceptedAt'', JStr (sch_accepted_at c))]))"

section \<open>Decoding a record\<close>

definition min_every_interval_seconds :: int where "min_every_interval_seconds = 300"

definition instant_error_text :: "instant_error \<Rightarrow> string" where
  "instant_error_text e = (case e of
      NotCanonical \<Rightarrow> ''scheduledAt must be a canonical four-digit-year RFC 3339 UTC instant''
    | NotCalendar \<Rightarrow> ''scheduledAt is not a real UTC calendar instant'')"

definition decode_schedule_record :: "durable_schedule \<Rightarrow> schedule_record go_result" where
  "decode_schedule_record p =
     (if ds_id p = [] \<or> trim_space (ds_id p) \<noteq> ds_id p
      then GoErr ''schedule id must be a non-empty string without surrounding whitespace''
      else if ds_prompt p = [] \<or> trim_space (ds_prompt p) \<noteq> ds_prompt p
      then GoErr ''schedule prompt must be non-empty and already trimmed''
      else go_bind
        (if ds_kind p = ''after'' then
           (case ds_after_seconds p of
              Some a \<Rightarrow> if a \<le> 0 then GoErr ''afterSeconds must be a positive safe integer'' else GoOk (a, 0)
            | None \<Rightarrow> GoErr ''afterSeconds must be a positive safe integer'')
         else if ds_kind p = ''at'' then GoOk (0, 0)
         else if ds_kind p = ''every'' then
           (case ds_every_seconds p of
              Some e \<Rightarrow> if e < min_every_interval_seconds then GoErr ''everySeconds must be at least 300'' else GoOk (0, e)
            | None \<Rightarrow> GoErr ''everySeconds must be at least 300'')
         else GoErr ''v1 schedule kind must be after, at, or every'')
        (\<lambda>(a, e). case parse_canonical_instant (ds_scheduled_at p) of
            Inl err \<Rightarrow> GoErr (instant_error_text err)
          | Inr at \<Rightarrow> GoOk \<lparr>sr_id = ds_id p, sr_kind = ds_kind p, sr_prompt = ds_prompt p,
                             sr_scheduled_at = at, sr_after_seconds = a, sr_every_seconds = e\<rparr>))"

section \<open>Durations and the next occurrence\<close>

text \<open>\<open>Time.Sub\<close> saturates.\<close>

definition duration_sub :: "int \<Rightarrow> int \<Rightarrow> int" where
  "duration_sub a b = (if in_int64 (a - b) then a - b else if a < b then - (2 ^ 63) else 2 ^ 63 - 1)"

definition next_occurrence :: "int \<Rightarrow> int \<Rightarrow> int \<Rightarrow> int option go_result" where
  "next_occurrence anchor every_seconds accepted =
     (let interval = wrap64 (every_seconds * second_ns); delta = duration_sub accepted anchor
      in if interval = 0 then GoPanics
         else let q = wrap64 (go_div delta interval);
                  periods = (if delta < 0 \<and> go_mod delta interval \<noteq> 0 then wrap64 (q - 1) else q);
                  latest = anchor + wrap64 (periods * interval);
                  nxt = latest + interval
              in GoOk (if 9999 < instant_year nxt then None else Some nxt))"

section \<open>The fold of the log\<close>

type_synonym schedule_fold = "string list \<times> (string \<times> schedule_record) list"

definition apply_schedule_change :: "schedule_change \<Rightarrow> schedule_fold \<Rightarrow> schedule_fold go_result" where
  "apply_schedule_change ch st = (let (seen, active) = st in
     if sch_operation ch = ''create'' then
       (case sch_schedule ch of
          None \<Rightarrow> GoErr ''schedule create must carry a schedule''
        | Some d \<Rightarrow>
            (if ds_id d \<in> set seen then GoErr (''schedule id '' @ ds_id d @ '' was reused'')
             else go_bind (decode_schedule_record d) (\<lambda>rec.
               GoOk (sr_id rec # seen, AList.update (sr_id rec) rec active))))
     else if sch_operation ch = ''delete'' then
       (case map_of active (sch_id ch) of
          None \<Rightarrow> GoErr (''schedule delete targets inactive id '' @ sch_id ch)
        | Some _ \<Rightarrow> GoOk (seen, AList.delete (sch_id ch) active))
     else if sch_operation ch = ''dispatch'' then
       (case map_of active (sch_id ch) of
          None \<Rightarrow> GoErr (''schedule dispatch targets inactive id '' @ sch_id ch)
        | Some rec \<Rightarrow>
            (if sr_kind rec \<noteq> ''every'' then GoOk (seen, AList.delete (sch_id ch) active)
             else case parse_accepted_at (sch_accepted_at ch) of
                 None \<Rightarrow> GoErr ''every dispatch must contain acceptedAt''
               | Some acc \<Rightarrow> go_bind (next_occurrence (sr_scheduled_at rec) (sr_every_seconds rec) acc) (\<lambda>nxt.
                   case nxt of
                     None \<Rightarrow> GoOk (seen, AList.delete (sch_id ch) active)
                   | Some t \<Rightarrow> GoOk (seen, AList.update (sch_id ch) (rec\<lparr>sr_scheduled_at := t\<rparr>) active))))
     else GoErr ''schedule/change operation must be create, delete, or dispatch'')"

definition schedule_event :: "session_envelope \<Rightarrow> schedule_fold \<Rightarrow> schedule_fold go_result" where
  "schedule_event env st =
     (if env_type env \<noteq> EventScheduleChange then GoOk st
      else case unmarshal dec_schedule_change (env_data env) of
          None \<Rightarrow> GoErr ''corrupt schedule/change payload''
        | Some ch \<Rightarrow> (if sch_version ch \<noteq> 1 then GoErr ''corrupt schedule/change payload''
                      else apply_schedule_change ch st))"

fun schedule_loop :: "session_envelope list \<Rightarrow> schedule_fold \<Rightarrow> schedule_fold go_result" where
  "schedule_loop [] st = GoOk st"
| "schedule_loop (env # envs) st = go_bind (schedule_event env st) (schedule_loop envs)"

text \<open>The active records by the order of their ids, and every id seen.\<close>

definition sorted_active :: "schedule_fold \<Rightarrow> schedule_record list" where
  "sorted_active st = map snd (sort_key fst (snd st))"

definition fold_schedule_events :: "session_envelope list \<Rightarrow> int \<Rightarrow> (schedule_record list \<times> string list) go_result" where
  "fold_schedule_events events seed_length =
     (if seed_length < 0 \<or> int (length events) < seed_length
      then GoErr ''schedule seedLength must be within the supplied event log''
      else go_bind (schedule_loop (drop (nat seed_length) events) ([], [])) (\<lambda>st. GoOk (sorted_active st, fst st)))"

section \<open>Fresh ids\<close>

definition schedule_id :: "nat \<Rightarrow> string" where
  "schedule_id n = ''schedule-'' @ decimal n"

lemma schedule_id_inject [simp]: "schedule_id m = schedule_id n \<longleftrightarrow> m = n"
  by (simp add: schedule_id_def)

function allocate_from :: "string list \<Rightarrow> nat \<Rightarrow> string" where
  "allocate_from seen n = (if schedule_id n \<in> set seen then allocate_from seen (Suc n) else schedule_id n)"
  by pat_completeness auto
termination
proof (relation "measure (\<lambda>(seen, n). card {k. n \<le> k \<and> schedule_id k \<in> set seen})")
  fix seen n assume seen: "schedule_id n \<in> set seen"
  have "inj_on schedule_id {k. n \<le> k \<and> schedule_id k \<in> set seen}" by (simp add: inj_on_def)
  moreover have "schedule_id ` {k. n \<le> k \<and> schedule_id k \<in> set seen} \<subseteq> set seen" by auto
  ultimately have fin: "finite {k. n \<le> k \<and> schedule_id k \<in> set seen}"
    by (meson finite_set finite_subset inj_on_finite)
  have "{k. Suc n \<le> k \<and> schedule_id k \<in> set seen} \<subset> {k. n \<le> k \<and> schedule_id k \<in> set seen}"
    using seen by (intro psubsetI) (auto simp: set_eq_iff intro!: exI [of _ n])
  then show "((seen, Suc n), seen, n) \<in> measure (\<lambda>(seen, n). card {k. n \<le> k \<and> schedule_id k \<in> set seen})"
    using fin by (simp add: psubset_card_mono)
qed simp

declare allocate_from.simps [simp del]

definition allocate_schedule_id :: "string list \<Rightarrow> string" where
  "allocate_schedule_id seen = allocate_from seen (length seen + 1)"

lemma allocate_fresh: "allocate_schedule_id seen \<notin> set seen"
proof -
  have "allocate_from seen n \<notin> set seen" for n
    by (induction seen n rule: allocate_from.induct) (subst allocate_from.simps, simp)
  then show ?thesis by (simp add: allocate_schedule_id_def)
qed

lemma allocate_shape: "\<exists>n. allocate_schedule_id seen = schedule_id n"
proof -
  have "\<exists>m. allocate_from seen n = schedule_id m" for n
    by (induction seen n rule: allocate_from.induct) (subst allocate_from.simps, auto)
  then show ?thesis by (simp add: allocate_schedule_id_def)
qed

end
