(* ===== verification/Schedule_Tools.thy ===== *)
theory Schedule_Tools imports Schedule begin

text \<open>
  The schedule tools (\<open>pkg/tools/schedule_tools.go\<close>) and the dispatcher of due reminders
  (\<open>pkg/tools/schedule_runtime.go\<close>) on the log of an agent.  A tool returns its value and the changes it
  emits.  The time zone database is an argument: a location maps wall-clock nanoseconds to an
  instant and back.  The wall clock is an argument of every operation.
\<close>

section \<open>Arguments of \<open>schedule_create\<close>\<close>

record schedule_create_args =
  sca_prompt :: string
  sca_after_seconds :: "int option"
  sca_every_seconds :: "int option"
  sca_at :: "json option"

definition dec_any :: "string \<Rightarrow> (string \<times> json) list \<Rightarrow> json option" where
  "dec_any k kvs = (case json_field k kvs of None \<Rightarrow> None | Some JNull \<Rightarrow> None | Some j \<Rightarrow> Some j)"

definition dec_create_args :: "(string \<times> json) list \<Rightarrow> schedule_create_args option" where
  "dec_create_args kvs =
     Option.bind (dec_string ''prompt'' kvs) (\<lambda>p. Option.bind (dec_int_ptr ''after_seconds'' kvs) (\<lambda>a.
     Option.bind (dec_int_ptr ''every_seconds'' kvs) (\<lambda>e.
       Some \<lparr>sca_prompt = p, sca_after_seconds = a, sca_every_seconds = e, sca_at = dec_any ''at'' kvs\<rparr>)))"

definition schedule_tool_err :: "string \<Rightarrow> string \<Rightarrow> json" where
  "schedule_tool_err code msg = JObj [(''code'', JStr code), (''message'', JStr msg)]"

definition validate_schedule_create :: "schedule_create_args \<Rightarrow> string \<times> string" where
  "validate_schedule_create args =
     (if length (filter (\<lambda>b. b) [sca_after_seconds args \<noteq> None, sca_every_seconds args \<noteq> None, sca_at args \<noteq> None]) \<noteq> 1
      then (''invalid_selector'', ''schedule_create accepts exactly one of after_seconds, at, or every_seconds.'')
      else if trim_space (sca_prompt args) = []
      then (''invalid_prompt'', ''prompt must be non-empty after trimming.'')
      else if (case sca_after_seconds args of Some a \<Rightarrow> a \<le> 0 | None \<Rightarrow> False)
      then (''invalid_rule'', ''after_seconds must be a positive safe integer.'')
      else if (case sca_every_seconds args of Some e \<Rightarrow> e < min_every_interval_seconds | None \<Rightarrow> False)
      then (''frequency_too_high'', ''every_seconds must be at least 300.'')
      else ([], []))"

section \<open>The \<open>at\<close> selector\<close>

text \<open>\<open>time.Date\<close> carries a month or day out of range over; the callers compare the result.\<close>

definition normal_date :: "int \<Rightarrow> int \<Rightarrow> int \<Rightarrow> int \<times> int \<times> int" where
  "normal_date y m d = civil_of_days (days_of_civil (y + (m - 1) div 12) ((m - 1) mod 12 + 1) 1 + (d - 1))"

definition take_millis :: "string \<Rightarrow> (int \<times> string) option" where
  "take_millis s = (case s of
      c # cs \<Rightarrow> (if c \<noteq> CHR ''.'' then Some (0, s)
        else let ds = takeWhile (\<lambda>d. digit_value d \<noteq> None) cs
             in if ds = [] \<or> 3 < length ds then None
                else map_option (\<lambda>n. (int n, drop (length ds) cs)) (number_from 0 (ds @ replicate (3 - length ds) (CHR ''0''))))
    | [] \<Rightarrow> Some (0, s))"

definition take_date :: "string \<Rightarrow> ((int \<times> int \<times> int) \<times> string) option" where
  "take_date s =
     Option.bind (take_number 4 s) (\<lambda>(y, s). Option.bind (expect (CHR ''-'') s) (\<lambda>s.
     Option.bind (take_number 2 s) (\<lambda>(m, s). Option.bind (expect (CHR ''-'') s) (\<lambda>s.
     Option.bind (take_number 2 s) (\<lambda>(d, s). Some ((y, m, d), s))))))"

definition take_clock :: "string \<Rightarrow> ((int \<times> int \<times> int \<times> int) \<times> string) option" where
  "take_clock s =
     Option.bind (take_number 2 s) (\<lambda>(hh, s). Option.bind (expect (CHR '':'') s) (\<lambda>s.
     Option.bind (take_number 2 s) (\<lambda>(mm, s). Option.bind (expect (CHR '':'') s) (\<lambda>s.
     Option.bind (take_number 2 s) (\<lambda>(ss, s). Option.bind (take_millis s) (\<lambda>(ms, s). Some ((hh, mm, ss, ms), s)))))))"

definition zone_text :: "string \<Rightarrow> bool" where
  "zone_text s \<longleftrightarrow> s = ''Z'' \<or> (length s = 6 \<and> (s ! 0 = CHR ''+'' \<or> s ! 0 = CHR ''-'') \<and>
     take_number 2 (take 2 (drop 1 s)) \<noteq> None \<and> s ! 3 = CHR '':'' \<and> take_number 2 (drop 4 s) \<noteq> None)"

text \<open>The groups of \<open>offsetInstantRe\<close>; the last one is the text of the zone.\<close>

definition offset_fields :: "string \<Rightarrow> ((int \<times> int \<times> int) \<times> (int \<times> int \<times> int \<times> int) \<times> string) option" where
  "offset_fields s =
     Option.bind (take_date s) (\<lambda>(date, s). Option.bind (expect (CHR ''T'') s) (\<lambda>s.
     Option.bind (take_clock s) (\<lambda>(clock, s). if zone_text s then Some (date, clock, s) else None)))"

definition not_a_date :: string where
  "not_a_date = ''invalid_rule|The at value must be a real ISO calendar date and time.''"

definition not_a_local_date :: string where
  "not_a_local_date = ''invalid_rule|The local at value must be a real ISO calendar date and time.''"

definition local_shape :: string where
  "local_shape = ''invalid_rule|Local at requires date YYYY-MM-DD and time HH:mm:ss with optional '' @
     ''one-to-three digit milliseconds.''"

definition bad_zone :: string where
  "bad_zone = ''invalid_time_zone|time_zone must be UTC or a valid IANA Area/Location name.''"

text \<open>
  The expression has ten groups, so the match has eleven entries; reading the minutes of a numeric
  offset as entry eleven is out of range.
\<close>

definition parse_offset_instant :: "string \<Rightarrow> int go_result" where
  "parse_offset_instant s = (case offset_fields s of
      None \<Rightarrow> GoErr (''invalid_rule|at must use YYYY-MM-DDTHH:mm:ss with optional 1-3 digit fractional '' @
               ''seconds and an explicit Z or numeric offset.'')
    | Some ((y, m, d), (hh, mm, ss, ms), zone) \<Rightarrow>
        (if y = 0 \<or> 23 < hh \<or> 59 < mm \<or> 59 < ss then GoErr not_a_date
         else if normal_date y m d \<noteq> (y, m, d) then GoErr not_a_date
         else if zone = ''Z'' then GoOk (instant_of y m d hh mm ss (ms * 1000000))
         else GoPanics))"

definition parse_local_calendar :: "string \<Rightarrow> string \<Rightarrow> ((int \<times> int \<times> int) \<times> (int \<times> int \<times> int \<times> int)) go_result" where
  "parse_local_calendar date clock = (case (take_date date, take_clock clock) of
      (Some ((y, m, d), []), Some ((hh, mm, ss, ms), [])) \<Rightarrow>
        (if y = 0 \<or> 23 < hh \<or> 59 < mm \<or> 59 < ss then GoErr not_a_local_date
         else if normal_date y m d \<noteq> (y, m, d) then GoErr not_a_local_date
         else GoOk ((y, m, d), (hh, mm, ss, ms)))
    | _ \<Rightarrow> GoErr local_shape)"

definition zone_char :: "char \<Rightarrow> bool" where
  "zone_char c = (let n = of_char c :: nat in 48 \<le> n \<and> n \<le> 57 \<or> 65 \<le> n \<and> n \<le> 90 \<or> 97 \<le> n \<and> n \<le> 122 \<or>
     c \<in> {CHR ''_'', CHR ''+'', CHR ''.'', CHR ''-''})"

definition iana_zone_re :: "string \<Rightarrow> bool" where
  "iana_zone_re s = (let parts = split_on (CHR ''/'') s in 2 \<le> length parts \<and>
     list_all (\<lambda>p. p \<noteq> [] \<and> list_all zone_char p) parts \<and>
     (let n = of_char (hd s) :: nat in 65 \<le> n \<and> n \<le> 90 \<or> 97 \<le> n \<and> n \<le> 122))"

type_synonym zone_db = "string \<Rightarrow> ((int \<Rightarrow> int) \<times> (int \<Rightarrow> int)) option"

definition canonicalize_time_zone :: "zone_db \<Rightarrow> string \<Rightarrow> ((int \<Rightarrow> int) \<times> (int \<Rightarrow> int)) go_result" where
  "canonicalize_time_zone tz s = 
     (if s \<noteq> ''UTC'' \<and> \<not> iana_zone_re s then GoErr bad_zone
      else case tz s of None \<Rightarrow> GoErr bad_zone | Some loc \<Rightarrow> GoOk loc)"

text \<open>\<open>json.Marshal\<close> of a decoded map sorts the keys, the last of equal ones kept.\<close>

definition remarshal_fields :: "(string \<times> json) list \<Rightarrow> (string \<times> json) list" where
  "remarshal_fields kvs = map (\<lambda>k. (k, case map_field k kvs of Some v \<Rightarrow> v | None \<Rightarrow> JNull)) (sort (map_keys kvs))"

definition local_at_fields :: "json \<Rightarrow> (string \<times> string \<times> string) option" where
  "local_at_fields j = (case j of
      JObj kvs \<Rightarrow> (let fs = remarshal_fields kvs in
        (case (dec_string ''date'' fs, dec_string ''time'' fs, dec_string ''time_zone'' fs) of
           (Some a, Some b, Some c) \<Rightarrow> if a = [] \<or> b = [] \<or> c = [] then None else Some (a, b, c)
         | _ \<Rightarrow> None))
    | _ \<Rightarrow> None)"

definition local_target :: "zone_db \<Rightarrow> json \<Rightarrow> int go_result" where
  "local_target tz j = (case local_at_fields j of
      None \<Rightarrow> GoErr ''invalid_rule|Local at must contain exactly date, time, and time_zone.''
    | Some (date, clock, zone) \<Rightarrow>
        go_bind (parse_local_calendar date clock) (\<lambda>((y, m, d), (hh, mm, ss, ms)).
        go_bind (canonicalize_time_zone tz zone) (\<lambda>(to_instant, wall_of).
          let t = to_instant (instant_of y m d hh mm ss (ms * 1000000))
          in if civil_of_days (instant_days (wall_of t)) \<noteq> (y, m, d) then GoErr not_a_local_date else GoOk t)))"

definition parse_at_target :: "zone_db \<Rightarrow> json \<Rightarrow> int \<Rightarrow> int go_result" where
  "parse_at_target tz at now =
     go_bind (case at of JStr s \<Rightarrow> parse_offset_instant s | _ \<Rightarrow> local_target tz at) (\<lambda>t.
       if t div 1000000 \<le> now div 1000000
       then GoErr ''not_future|The scheduled time must be strictly in the future.''
       else if instant_year t < 1 \<or> 9999 < instant_year t
       then GoErr (''time_out_of_range|The scheduled time must be representable as a four-digit-year '' @
              ''RFC 3339 UTC instant.'')
       else GoOk t)"

definition schedule_error_from :: "string \<Rightarrow> json" where
  "schedule_error_from msg = (case index_of msg ''|'' of
      Some i \<Rightarrow> schedule_tool_err (take i msg) (drop (i + 1) msg)
    | None \<Rightarrow> schedule_tool_err ''internal_error'' ''The schedule operation failed.'')"

section \<open>The tools\<close>

definition schedule_view :: "schedule_record \<Rightarrow> int \<Rightarrow> json" where
  "schedule_view rec now = JObj ([(''id'', JStr (sr_id rec)), (''kind'', JStr (sr_kind rec)), (''prompt'', JStr (sr_prompt rec)),
     (''scheduledAt'', JStr (format_canonical (sr_scheduled_at rec))),
     (''state'', JStr (if \<not> now < sr_scheduled_at rec then ''overdue'' else ''scheduled'')),
     (''deliveryMode'', JStr ''session-local'')] @
     (if sr_kind rec = ''after'' then [(''afterSeconds'', JInt (sr_after_seconds rec))]
      else if sr_kind rec = ''every'' then [(''everySeconds'', JInt (sr_every_seconds rec))] else []))"

definition durable_of :: "schedule_record \<Rightarrow> durable_schedule" where
  "durable_of rec = \<lparr>ds_id = sr_id rec, ds_kind = sr_kind rec, ds_prompt = sr_prompt rec,
     ds_scheduled_at = format_canonical (sr_scheduled_at rec),
     ds_after_seconds = (if sr_kind rec = ''after'' then Some (sr_after_seconds rec) else None),
     ds_every_seconds = (if sr_kind rec = ''every'' then Some (sr_every_seconds rec) else None)\<rparr>"

abbreviation "no_change \<equiv> \<lparr>sch_version = 1, sch_operation = [], sch_schedule = None, sch_id = [], sch_accepted_at = []\<rparr>"

definition create_change :: "schedule_record \<Rightarrow> schedule_change" where
  "create_change rec = no_change\<lparr>sch_operation := ''create'', sch_schedule := Some (durable_of rec)\<rparr>"

definition delete_change :: "string \<Rightarrow> schedule_change" where
  "delete_change i = no_change\<lparr>sch_operation := ''delete'', sch_id := i\<rparr>"

definition new_schedule :: "zone_db \<Rightarrow> int \<Rightarrow> string \<Rightarrow> schedule_create_args \<Rightarrow> (json + schedule_record) go_result" where
  "new_schedule tz now i args =
     (let out_of_range = schedule_tool_err ''time_out_of_range''
            (''The scheduled time must be representable as a four-digit-year '' @ ''RFC 3339 UTC instant.'');
          rec = \<lparr>sr_id = i, sr_kind = ''at'', sr_prompt = trim_space (sca_prompt args), sr_scheduled_at = 0,
                 sr_after_seconds = 0, sr_every_seconds = 0\<rparr>
      in case sca_after_seconds args of
           Some a \<Rightarrow> (let t = now + wrap64 (a * second_ns)
             in GoOk (if 9999 < instant_year t then Inl out_of_range
                      else Inr (rec\<lparr>sr_kind := ''after'', sr_scheduled_at := t, sr_after_seconds := a\<rparr>)))
         | None \<Rightarrow> (case sca_every_seconds args of
             Some e \<Rightarrow> (let t = now + wrap64 (e * second_ns)
               in GoOk (if 9999 < instant_year t then Inl out_of_range
                        else Inr (rec\<lparr>sr_kind := ''every'', sr_scheduled_at := t, sr_every_seconds := e\<rparr>)))
           | None \<Rightarrow> (case sca_at args of
               Some at \<Rightarrow> (case parse_at_target tz at now of
                   GoPanics \<Rightarrow> GoPanics
                 | GoErr msg \<Rightarrow> GoOk (Inl (schedule_error_from msg))
                 | GoOk t \<Rightarrow> GoOk (Inr (rec\<lparr>sr_scheduled_at := t\<rparr>)))
             | None \<Rightarrow> GoOk (Inr (rec\<lparr>sr_kind := [], sr_prompt := [], sr_id := []\<rparr>)))))"

text \<open>
  The folding tools: a corrupt log is reported, a panic of the fold is one of the tool.  The last
  case of \<open>new_schedule\<close>, no selector, is excluded by the validation.
\<close>

definition with_fold :: "session_envelope list \<Rightarrow> (schedule_record list \<times> string list \<Rightarrow> (json \<times> schedule_change list) go_result) \<Rightarrow>
    (json \<times> schedule_change list) go_result" where
  "with_fold events f = (case fold_schedule_events events 0 of
      GoPanics \<Rightarrow> GoPanics
    | GoErr msg \<Rightarrow> GoOk (schedule_tool_err ''corrupt_schedule_log'' msg, [])
    | GoOk folded \<Rightarrow> f folded)"

definition schedule_create :: "zone_db \<Rightarrow> int \<Rightarrow> session_envelope list \<Rightarrow> raw_message \<Rightarrow> (json \<times> schedule_change list) go_result" where
  "schedule_create tz now events raw = (case unmarshal dec_create_args raw of
      None \<Rightarrow> GoOk (schedule_tool_err ''invalid_rule'' ''schedule_create arguments are malformed.'', [])
    | Some args \<Rightarrow>
        (case validate_schedule_create args of (code, msg) \<Rightarrow>
          if code \<noteq> [] then GoOk (schedule_tool_err code msg, [])
          else with_fold events (\<lambda>(active, seen).
            go_bind (new_schedule tz now (allocate_schedule_id seen) args) (\<lambda>r. case r of
                Inl err \<Rightarrow> GoOk (err, [])
              | Inr rec \<Rightarrow> GoOk (schedule_view rec now, [create_change rec])))))"

definition schedule_list :: "int \<Rightarrow> session_envelope list \<Rightarrow> (json \<times> schedule_change list) go_result" where
  "schedule_list now events = with_fold events (\<lambda>(active, seen). GoOk (JArr (map (\<lambda>rec. schedule_view rec now) active), []))"

definition schedule_delete :: "session_envelope list \<Rightarrow> raw_message \<Rightarrow> (json \<times> schedule_change list) go_result" where
  "schedule_delete events raw =
     (let bad = schedule_tool_err ''invalid_rule'' ''schedule_delete id must be non-empty without surrounding whitespace.''
      in case unmarshal (dec_string ''id'') raw of
           None \<Rightarrow> GoOk (bad, [])
         | Some i \<Rightarrow>
             (if i = [] \<or> trim_space i \<noteq> i then GoOk (bad, [])
              else with_fold events (\<lambda>(active, seen).
                if \<not> list_ex (\<lambda>rec. sr_id rec = i) active
                then GoOk (JObj [(''id'', JStr i), (''deleted'', JBool False), (''code'', JStr ''schedule_not_found'')], [])
                else GoOk (JObj [(''id'', JStr i), (''deleted'', JBool True)], [delete_change i]))))"

section \<open>The dispatcher\<close>

datatype due_decision =
    DueOneShot schedule_record
  | DueEvery "schedule_record list" int
  | DueWait "int option"

fun due_scan :: "schedule_record list \<Rightarrow> int \<Rightarrow> schedule_record option \<Rightarrow> schedule_record list \<Rightarrow>
    schedule_record option \<times> schedule_record list" where
  "due_scan [] now one_shot every = (one_shot, every)"
| "due_scan (rec # recs) now one_shot every =
     (if now < sr_scheduled_at rec then due_scan recs now one_shot every
      else if sr_kind rec = ''every'' then due_scan recs now one_shot (every @ [rec])
      else if (case one_shot of None \<Rightarrow> True | Some r \<Rightarrow> sr_scheduled_at rec < sr_scheduled_at r)
      then due_scan recs now (Some rec) every
      else due_scan recs now one_shot every)"

fun earliest_target :: "schedule_record list \<Rightarrow> int \<Rightarrow> int option \<Rightarrow> int option" where
  "earliest_target [] now target = target"
| "earliest_target (rec # recs) now target =
     earliest_target recs now
       (if now < sr_scheduled_at rec \<and> (case target of None \<Rightarrow> True | Some t \<Rightarrow> sr_scheduled_at rec < t)
        then Some (sr_scheduled_at rec) else target)"

definition decide_due :: "schedule_record list \<Rightarrow> int \<Rightarrow> due_decision" where
  "decide_due active now = (case due_scan active now None [] of
      (Some rec, _) \<Rightarrow> DueOneShot rec
    | (None, every) \<Rightarrow> (if every \<noteq> [] then DueEvery every now else DueWait (earliest_target active now None)))"

text \<open>The pause before the next look at the log, capped to a day.\<close>

definition wait_delay :: "int option \<Rightarrow> int \<Rightarrow> int" where
  "wait_delay target now =
     (let d = (case target of
          Some t \<Rightarrow> (if duration_sub t now < 1000000 then 1000000 else duration_sub t now)
        | None \<Rightarrow> 3600 * second_ns)
      in if 24 * 3600 * second_ns < d then 24 * 3600 * second_ns else d)"

definition latest_every_occurrence :: "int \<Rightarrow> int \<Rightarrow> int \<Rightarrow> int" where
  "latest_every_occurrence anchor every_seconds accepted =
     (let delta = wrap64 (accepted div second_ns - anchor div second_ns); q = go_div delta every_seconds;
          periods = (if delta < 0 \<and> go_mod delta every_seconds \<noteq> 0 then q - 1 else q)
      in anchor + wrap64 (wrap64 (periods * every_seconds) * second_ns))"

text \<open>The rows of a batch: id, occurrence and prompt.\<close>

definition reminder_rows :: "schedule_record list \<Rightarrow> int \<Rightarrow> (string \<times> string \<times> string) list" where
  "reminder_rows recs accepted = map (\<lambda>rec. (sr_id rec,
     format_canonical (latest_every_occurrence (sr_scheduled_at rec) (sr_every_seconds rec) accepted), sr_prompt rec)) recs"

definition dispatch_changes :: "due_decision \<Rightarrow> schedule_change list" where
  "dispatch_changes dec = (case dec of
      DueOneShot rec \<Rightarrow> [no_change\<lparr>sch_operation := ''dispatch'', sch_id := sr_id rec\<rparr>]
    | DueEvery recs acc \<Rightarrow> map (\<lambda>rec. no_change\<lparr>sch_operation := ''dispatch'', sch_id := sr_id rec,
        sch_accepted_at := format_canonical acc\<rparr>) recs
    | DueWait t \<Rightarrow> [])"

section \<open>On the agent's log\<close>

text \<open>The provider the agent registers: the durable log, or the ring when that has no events.\<close>

definition schedule_events :: "agent \<Rightarrow> session_envelope list" where
  "schedule_events a =
     (let stored = (case ag_persist a of Some log \<Rightarrow> get_events log 0 | None \<Rightarrow> [])
      in if stored \<noteq> [] then stored
         else case ag_ring a of Some r \<Rightarrow> rb_get_since r 0 | None \<Rightarrow> [])"

fun emit_changes :: "int \<Rightarrow> schedule_change list \<Rightarrow> agent \<Rightarrow> agent" where
  "emit_changes now [] a = a"
| "emit_changes now (c # cs) a =
     emit_changes now cs (fst (emit_event EventScheduleChange (AnyP (Some (change_json c))) None now a))"

text \<open>One round of the loop: the follow-ups posted, the changes emitted, and whether it goes on.\<close>

datatype round_end = RoundStops | RoundWaits int | RoundAgain

definition dispatch_round :: "int \<Rightarrow> agent \<Rightarrow> (agent \<times> due_decision list \<times> round_end) go_result" where
  "dispatch_round now a = (case fold_schedule_events (schedule_events a) 0 of
      GoPanics \<Rightarrow> GoPanics
    | GoErr _ \<Rightarrow> GoOk (a, [], RoundStops)
    | GoOk (active, seen) \<Rightarrow>
        (case decide_due active now of
           DueWait t \<Rightarrow> GoOk (a, [], RoundWaits (wait_delay t now))
         | dec \<Rightarrow> GoOk (emit_changes now (dispatch_changes dec) a, [dec], RoundAgain)))"

text \<open>Rounds at one reading of the clock, as long as the loop goes on at once.\<close>

fun dispatch_rounds :: "nat \<Rightarrow> int \<Rightarrow> agent \<Rightarrow> (agent \<times> due_decision list \<times> round_end) go_result" where
  "dispatch_rounds 0 now a = GoOk (a, [], RoundAgain)"
| "dispatch_rounds (Suc n) now a = go_bind (dispatch_round now a) (\<lambda>(b, ds, e).
     if e = RoundAgain
     then go_bind (dispatch_rounds n now b) (\<lambda>(c, ds', e'). GoOk (c, ds @ ds', e'))
     else GoOk (b, ds, e))"

text \<open>A tool call of the agent.\<close>

definition run_schedule_tool :: "int \<Rightarrow> (session_envelope list \<Rightarrow> (json \<times> schedule_change list) go_result) \<Rightarrow> agent \<Rightarrow> (agent \<times> json) go_result" where
  "run_schedule_tool now tool a =
     go_bind (tool (schedule_events a)) (\<lambda>(v, changes). GoOk (emit_changes now changes a, v))"

end
