(* ===== verification/Schedule_Laws.thy ===== *)
theory Schedule_Laws imports Schedule_Tools begin

text \<open>
  What the schedule fold keeps: the next occurrence is the first aligned instant after the decision,
  a change that the tools or the dispatcher write is read back as itself, and applied to a sane fold
  it gives a sane fold.
\<close>

section \<open>The next occurrence\<close>

abbreviation "max_seconds \<equiv> (9223372036 :: int)"

lemma interval_id:
  assumes "0 \<le> e" and "e \<le> max_seconds"
  shows "wrap64 (e * second_ns) = e * second_ns"
  by (rule wrap64_id) (use assms in \<open>simp add: in_int64_def\<close>)

lemma duration_sub_nonneg:
  "anchor \<le> acc \<Longrightarrow> 0 \<le> duration_sub acc anchor \<and> duration_sub acc anchor < 2 ^ 63"
  by (auto simp: duration_sub_def in_int64_def)

lemma go_div_nonneg: "0 \<le> a \<Longrightarrow> 0 < b \<Longrightarrow> go_div a b = a div b"
  by (cases "a = 0") (simp_all add: go_div_def)

lemma next_occurrence_forward:
  assumes "0 < e" and "e \<le> max_seconds" and "anchor \<le> acc"
  defines "t \<equiv> anchor + (duration_sub acc anchor div (e * second_ns) + 1) * (e * second_ns)"
  shows "next_occurrence anchor e acc = GoOk (if 9999 < instant_year t then None else Some t)" and "anchor < t"
proof -
  let ?i = "e * second_ns" let ?d = "duration_sub acc anchor"
  have d: "0 \<le> ?d" "?d < 2 ^ 63" using duration_sub_nonneg [OF assms(3)] by simp_all
  have i: "0 < ?i" "wrap64 ?i = ?i" using assms(1,2) interval_id [of e] by simp_all
  have "?d div ?i * ?i = ?d - ?d mod ?i" by (simp add: minus_mod_eq_div_mult)
  moreover have "0 \<le> ?d mod ?i" "?d mod ?i \<le> ?d" using d i by (simp_all add: zmod_le_nonneg_dividend)
  ultimately have p: "0 \<le> ?d div ?i * ?i" "?d div ?i * ?i < 2 ^ 63" using d by linarith+
  have "0 \<le> ?d div ?i" using d i by (simp add: pos_imp_zdiv_nonneg_iff)
  then have "?d div ?i * 1 \<le> ?d div ?i * ?i" using i by (intro mult_left_mono) simp_all
  then have "?d div ?i < 2 ^ 63" using p(2) by linarith
  with \<open>0 \<le> ?d div ?i\<close> have q: "wrap64 (?d div ?i) = ?d div ?i" by (intro wrap64_id) (simp add: in_int64_def)
  have pq: "wrap64 (?d div ?i * ?i) = ?d div ?i * ?i" using p by (intro wrap64_id) (simp add: in_int64_def)
  have t: "t = anchor + ?d div ?i * ?i + ?i" by (simp add: t_def algebra_simps)
  show "next_occurrence anchor e acc = GoOk (if 9999 < instant_year t then None else Some t)"
    unfolding next_occurrence_def Let_def i(2) go_div_nonneg [OF d(1) i(1)] using d i
    by (simp only: q pq t not_less [symmetric] if_False simp_thms) simp
  show "anchor < t" unfolding t using p i by linarith
qed

text \<open>Within 292 years of its anchor the next occurrence is the first aligned instant after the decision.\<close>

lemma next_occurrence_first:
  assumes "0 < e" and "e \<le> max_seconds" and "anchor \<le> acc" and "acc - anchor < 2 ^ 63"
  obtains t where "next_occurrence anchor e acc = GoOk (if 9999 < instant_year t then None else Some t)"
    "acc < t" "t \<le> acc + e * second_ns" "(t - anchor) mod (e * second_ns) = 0"
proof -
  let ?i = "e * second_ns" let ?d = "acc - anchor"
  have ds: "duration_sub acc anchor = ?d" using assms(3,4) by (simp add: duration_sub_def in_int64_def)
  let ?t = "anchor + (?d div ?i + 1) * ?i"
  have i: "0 < ?i" using assms(1) by simp
  have "?d = ?d div ?i * ?i + ?d mod ?i" by (rule div_mult_mod_eq [symmetric])
  moreover have "0 \<le> ?d mod ?i" "?d mod ?i < ?i" using i by simp_all
  moreover have "(?d div ?i + 1) * ?i = ?d div ?i * ?i + ?i" by (simp add: algebra_simps)
  ultimately have "acc < ?t" "?t \<le> acc + ?i" by linarith+
  moreover have "(?t - anchor) mod ?i = 0" by simp
  ultimately show ?thesis using that next_occurrence_forward(1) [OF assms(1-3)] ds by metis
qed

section \<open>Changes as JSON\<close>

lemma schedule_lower_names:
  "lower_name ''version'' = ''version''" "lower_name ''operation'' = ''operation''"
  "lower_name ''schedule'' = ''schedule''" "lower_name ''prompt'' = ''prompt''"
  "lower_name ''scheduledAt'' = ''scheduledat''" "lower_name ''afterSeconds'' = ''afterseconds''"
  "lower_name ''everySeconds'' = ''everyseconds''" "lower_name ''acceptedAt'' = ''acceptedat''"
  by code_simp+

lemmas schedule_keys = key_matches_def lower_names schedule_lower_names

definition durable_int64 :: "durable_schedule \<Rightarrow> bool" where
  "durable_int64 d \<longleftrightarrow> (\<forall>i. ds_after_seconds d = Some i \<longrightarrow> in_int64 i) \<and> (\<forall>i. ds_every_seconds d = Some i \<longrightarrow> in_int64 i)"

lemma durable_roundtrip:
  assumes "durable_int64 d" and "durable_json d = JObj kvs"
  shows "dec_durable_schedule kvs = Some d"
proof -
  obtain i k p t a e where d: "d = \<lparr>ds_id = i, ds_kind = k, ds_prompt = p, ds_scheduled_at = t, ds_after_seconds = a, ds_every_seconds = e\<rparr>"
    by (cases d) auto
  show ?thesis using assms unfolding d durable_json_def durable_int64_def
    by (cases a; cases e)
      (auto simp: dec_durable_schedule_def dec_string_def dec_int_ptr_def schedule_keys)
qed

lemma change_roundtrip:
  assumes "in_int64 (sch_version c)" and "\<forall>d. sch_schedule c = Some d \<longrightarrow> durable_int64 d"
  shows "unmarshal dec_schedule_change (Some (change_json c)) = Some c"
proof -
  obtain v op s i a where c: "c = \<lparr>sch_version = v, sch_operation = op, sch_schedule = s, sch_id = i, sch_accepted_at = a\<rparr>"
    by (cases c) auto
  obtain kvs where kvs: "s = Some d \<Longrightarrow> durable_json d = JObj (kvs d)" for d by (simp add: durable_json_def)
  have dec: "dec_durable_schedule (kvs d) = Some d" if "s = Some d" for d
    using durable_roundtrip [OF _ kvs [OF that]] assms(2) that by (simp add: c)
  show ?thesis using assms(1) dec kvs unfolding c change_json_def unmarshal_def dec_object_def
    by (cases s; cases "i = []"; cases "a = []")
      (simp_all add: dec_schedule_change_def dec_string_def dec_int_def dec_ptr_def schedule_keys)
qed

section \<open>Sane folds\<close>

text \<open>
  An interval that fits a duration, a whole number of milliseconds in a year of the calendar text,
  ids that are keys and have been seen.
\<close>

definition sane_record :: "schedule_record \<Rightarrow> bool" where
  "sane_record rec \<longleftrightarrow> 1 \<le> instant_year (sr_scheduled_at rec) \<and> sr_scheduled_at rec mod 1000000 = 0 \<and>
     (sr_kind rec = ''every'' \<longrightarrow> min_every_interval_seconds \<le> sr_every_seconds rec \<and> sr_every_seconds rec \<le> max_seconds)"

definition sane_fold :: "schedule_fold \<Rightarrow> bool" where
  "sane_fold st \<longleftrightarrow> distinct (map fst (snd st)) \<and>
     (\<forall>(k, rec)\<in>set (snd st). k = sr_id rec \<and> k \<in> set (fst st) \<and> sane_record rec)"

definition active_set :: "schedule_fold \<Rightarrow> schedule_record set" where
  "active_set st = snd ` set (snd st)"

lemma set_sorted_active [simp]: "set (sorted_active st) = active_set st"
  by (simp add: sorted_active_def active_set_def)

lemma sane_Nil: "sane_fold ([], [])"
  by (simp add: sane_fold_def)

lemma sane_member: "sane_fold st \<Longrightarrow> rec \<in> active_set st \<longleftrightarrow> (sr_id rec, rec) \<in> set (snd st)"
  by (force simp: sane_fold_def active_set_def)

lemma sane_map_of: "sane_fold st \<Longrightarrow> map_of (snd st) k = Some rec \<longleftrightarrow> rec \<in> active_set st \<and> sr_id rec = k"
  by (force simp: sane_fold_def active_set_def)

lemma sane_active: "sane_fold st \<Longrightarrow> rec \<in> active_set st \<Longrightarrow> sane_record rec \<and> sr_id rec \<in> set (fst st)"
  by (auto simp: sane_fold_def active_set_def)

lemma sane_ids: "sane_fold st \<Longrightarrow> rec \<in> active_set st \<Longrightarrow> rec' \<in> active_set st \<Longrightarrow> sr_id rec = sr_id rec' \<Longrightarrow> rec = rec'"
  using sane_map_of by (metis option.inject)

lemma distinct_ids:
  assumes "sane_fold st"
  shows "distinct (map sr_id (sorted_active st))"
proof -
  have "map sr_id (sorted_active st) = map fst (sort_key fst (snd st))"
    using assms by (auto simp: sorted_active_def sane_fold_def)
  moreover have "distinct (map fst (snd st)) = distinct (map fst (sort_key fst (snd st)))"
    by (metis distinct_map distinct_sort set_sort)
  ultimately show ?thesis using assms by (simp add: sane_fold_def)
qed

text \<open>Removing and replacing an active record.\<close>

lemma sane_delete:
  assumes "sane_fold (seen, active)"
  shows "sane_fold (seen, AList.delete k active)"
    and "active_set (seen, AList.delete k active) = {r \<in> active_set (seen, active). sr_id r \<noteq> k}"
proof -
  have sub: "set (AList.delete k active) = {x \<in> set active. fst x \<noteq> k}" by (auto simp: AList.delete_eq)
  with assms show s: "sane_fold (seen, AList.delete k active)"
    by (auto simp: sane_fold_def distinct_delete)
  show "active_set (seen, AList.delete k active) = {r \<in> active_set (seen, active). sr_id r \<noteq> k}"
    using sane_member [OF s] sane_member [OF assms] sub by auto
qed

lemma sane_update:
  assumes "sane_fold (seen, active)" and "sane_record rec" and "set seen \<subseteq> set seen'" and "sr_id rec \<in> set seen'"
  shows "sane_fold (seen', AList.update (sr_id rec) rec active)"
    and "active_set (seen', AList.update (sr_id rec) rec active) =
      insert rec {r \<in> active_set (seen, active). sr_id r \<noteq> sr_id rec}"
proof -
  let ?u = "AList.update (sr_id rec) rec active"
  have d: "distinct (map fst active)" using assms(1) by (simp add: sane_fold_def)
  then have du: "distinct (map fst ?u)" by (rule distinct_update)
  have mem: "(k, v) \<in> set ?u \<longleftrightarrow> (if k = sr_id rec then v = rec else (k, v) \<in> set active)" for k v
    using map_of_eq_Some_iff [OF du, of k v] map_of_eq_Some_iff [OF d, of k v] by (auto simp: update_conv')
  have "k = sr_id v \<and> k \<in> set seen' \<and> sane_record v" if kv: "(k, v) \<in> set ?u" for k v
  proof (cases "k = sr_id rec")
    case True
    with kv mem [of k v] assms(2,4) show ?thesis by simp
  next
    case False
    with kv mem [of k v] have "(k, v) \<in> set active" by simp
    with assms(1,3) show ?thesis by (auto simp: sane_fold_def)
  qed
  with du show s: "sane_fold (seen', ?u)" by (auto simp: sane_fold_def)
  show "active_set (seen', ?u) = insert rec {r \<in> active_set (seen, active). sr_id r \<noteq> sr_id rec}"
    using sane_member [OF s] sane_member [OF assms(1)] mem by (auto split: if_splits)
qed

section \<open>Changes that apply\<close>

lemma apply_create:
  assumes "sane_fold st" and "ds_id d \<notin> set (fst st)" and "decode_schedule_record d = GoOk rec" and "sane_record rec"
    and "sch_operation ch = ''create''" and "sch_schedule ch = Some d"
  shows "\<exists>st'. apply_schedule_change ch st = GoOk st' \<and> sane_fold st' \<and> fst st' = ds_id d # fst st \<and>
    active_set st' = insert rec (active_set st)"
proof -
  obtain seen active where st: "st = (seen, active)" by fastforce
  have i: "sr_id rec = ds_id d" using assms(3)
    by (cases "parse_canonical_instant (ds_scheduled_at d)")
      (auto simp: decode_schedule_record_def go_bind_GoOk split: if_splits option.splits)
  let ?st = "(ds_id d # seen, AList.update (sr_id rec) rec active)"
  have "sr_id r \<noteq> sr_id rec" if "r \<in> active_set st" for r
    using sane_active [OF assms(1) that] assms(2) i by metis
  then have "{r \<in> active_set st. sr_id r \<noteq> sr_id rec} = active_set st" by blast
  moreover have "sane_fold ?st" "active_set ?st = insert rec {r \<in> active_set st. sr_id r \<noteq> sr_id rec}"
    using sane_update [of seen active rec "ds_id d # seen"] assms(1,4) i unfolding st by auto
  ultimately show ?thesis using assms i
    by (intro exI [of _ ?st]) (simp add: apply_schedule_change_def st)
qed

lemma apply_delete:
  assumes "sane_fold st" and "rec \<in> active_set st" and "sch_operation ch = ''delete''" and "sch_id ch = sr_id rec"
  shows "\<exists>st'. apply_schedule_change ch st = GoOk st' \<and> sane_fold st' \<and> fst st' = fst st \<and>
    active_set st' = active_set st - {rec}"
proof -
  obtain seen active where st: "st = (seen, active)" by fastforce
  let ?st = "(seen, AList.delete (sr_id rec) active)"
  have "{r \<in> active_set st. sr_id r \<noteq> sr_id rec} = active_set st - {rec}"
    using sane_ids [OF assms(1)] assms(2) by auto
  moreover have "map_of active (sr_id rec) = Some rec" using sane_map_of [OF assms(1)] assms(2) by (simp add: st)
  ultimately show ?thesis using assms sane_delete [of seen active "sr_id rec"]
    by (intro exI [of _ ?st]) (simp add: apply_schedule_change_def st)
qed

lemma apply_dispatch_once:
  assumes "sane_fold st" and "rec \<in> active_set st" and "sr_kind rec \<noteq> ''every''"
    and "sch_operation ch = ''dispatch''" and "sch_id ch = sr_id rec"
  shows "\<exists>st'. apply_schedule_change ch st = GoOk st' \<and> sane_fold st' \<and> fst st' = fst st \<and>
    active_set st' = active_set st - {rec}"
proof -
  obtain seen active where st: "st = (seen, active)" by fastforce
  let ?st = "(seen, AList.delete (sr_id rec) active)"
  have "{r \<in> active_set st. sr_id r \<noteq> sr_id rec} = active_set st - {rec}"
    using sane_ids [OF assms(1)] assms(2) by auto
  moreover have "map_of active (sr_id rec) = Some rec" using sane_map_of [OF assms(1)] assms(2) by (simp add: st)
  ultimately show ?thesis using assms sane_delete [of seen active "sr_id rec"]
    by (intro exI [of _ ?st]) (simp add: apply_schedule_change_def st)
qed

text \<open>A rule that was due is removed past the year 9999, or moves to an instant that lies ahead.\<close>

lemma apply_dispatch_every:
  assumes "sane_fold st" and "rec \<in> active_set st" and "sr_kind rec = ''every''"
    and "sch_operation ch = ''dispatch''" and "sch_id ch = sr_id rec"
    and "parse_accepted_at (sch_accepted_at ch) = Some acc" and "sr_scheduled_at rec \<le> acc"
  shows "\<exists>st'. apply_schedule_change ch st = GoOk st' \<and> sane_fold st' \<and> fst st' = fst st \<and>
    (\<exists>new. active_set st' = active_set st - {rec} \<union> new \<and> (\<forall>r\<in>new. \<exists>t. r = rec\<lparr>sr_scheduled_at := t\<rparr> \<and>
       (acc - sr_scheduled_at rec < 2 ^ 63 \<longrightarrow> acc < t \<and> (t - sr_scheduled_at rec) mod (sr_every_seconds rec * second_ns) = 0)))"
proof -
  obtain seen active where st: "st = (seen, active)" by fastforce
  have m: "map_of active (sr_id rec) = Some rec" using sane_map_of [OF assms(1)] assms(2) by (simp add: st)
  have sr: "sane_record rec" "sr_id rec \<in> set seen" using sane_active [OF assms(1,2)] by (simp_all add: st)
  have e: "0 < sr_every_seconds rec" "sr_every_seconds rec \<le> max_seconds"
    using sr(1) assms(3) by (auto simp: sane_record_def min_every_interval_seconds_def)
  let ?t = "sr_scheduled_at rec + (duration_sub acc (sr_scheduled_at rec) div (sr_every_seconds rec * second_ns) + 1) * (sr_every_seconds rec * second_ns)"
  note fw = next_occurrence_forward [OF e assms(7)]
  have rest: "{r \<in> active_set st. sr_id r \<noteq> sr_id rec} = active_set st - {rec}"
    using sane_ids [OF assms(1)] assms(2) by auto
  show ?thesis
  proof (cases "9999 < instant_year ?t")
    case True
    let ?st = "(seen, AList.delete (sr_id rec) active)"
    have "apply_schedule_change ch st = GoOk ?st" using True assms m fw by (simp add: apply_schedule_change_def st)
    then show ?thesis using sane_delete [of seen active "sr_id rec"] assms(1) rest unfolding st
      by (intro exI [of _ ?st] conjI exI [of _ "{}"]) auto
  next
    case False
    let ?r = "rec\<lparr>sr_scheduled_at := ?t\<rparr>" let ?st = "(seen, AList.update (sr_id rec) ?r active)"
    have "apply_schedule_change ch st = GoOk ?st" using False assms m fw by (simp add: apply_schedule_change_def st)
    moreover have "?t mod 1000000 = sr_scheduled_at rec mod 1000000"
    proof -
      define k where "k = duration_sub acc (sr_scheduled_at rec) div (sr_every_seconds rec * second_ns) + 1"
      have "k * (sr_every_seconds rec * second_ns) = 1000000 * (k * sr_every_seconds rec * 1000)" by simp
      then show ?thesis unfolding k_def [symmetric] by (metis mod_mult_self2)
    qed
    then have "sane_record ?r" using sr(1) fw(2) instant_year_mono [of "sr_scheduled_at rec" ?t]
      by (simp add: sane_record_def)
    then have "sane_fold ?st" "active_set ?st = insert ?r (active_set st - {rec})"
      using sane_update [of seen active ?r seen] assms(1) sr(2) rest unfolding st by simp_all
    moreover have "acc < ?t \<and> (?t - sr_scheduled_at rec) mod (sr_every_seconds rec * second_ns) = 0"
      if d: "acc - sr_scheduled_at rec < 2 ^ 63"
    proof -
      obtain t where "next_occurrence (sr_scheduled_at rec) (sr_every_seconds rec) acc = GoOk (if 9999 < instant_year t then None else Some t)"
        "acc < t" "(t - sr_scheduled_at rec) mod (sr_every_seconds rec * second_ns) = 0"
        using next_occurrence_first [OF e assms(7) d] by metis
      with fw(1) False show ?thesis by (auto split: if_splits)
    qed
    ultimately show ?thesis unfolding st by (intro exI [of _ ?st] conjI exI [of _ "{?r}"]) auto
  qed
qed

end
