(* ===== verification/Schedule_Runtime.thy ===== *)
theory Schedule_Runtime imports Schedule_Laws Turn_Effects begin

text \<open>
  Schedules on a running agent: emissions of other types leave them alone, the changes of the tools
  and of the dispatcher keep the log foldable, and a round of the dispatcher disposes of what is due.
\<close>

section \<open>The schedules of an agent\<close>

definition schedules :: "agent \<Rightarrow> schedule_fold go_result" where
  "schedules a = schedule_loop (durable_log a) ([], [])"

definition sched_inv :: "agent \<Rightarrow> bool" where
  "sched_inv a \<longleftrightarrow> log_inv a \<and> durable_log a \<noteq> [] \<and> (\<exists>st. schedules a = GoOk st \<and> sane_fold st)"

definition sched_state :: "agent \<Rightarrow> schedule_fold" where
  "sched_state a = (case schedules a of GoOk st \<Rightarrow> st | _ \<Rightarrow> ([], []))"

lemma sched_invE:
  assumes "sched_inv a"
  obtains "log_inv a" "durable_log a \<noteq> []" "schedules a = GoOk (sched_state a)" "sane_fold (sched_state a)"
  using assms by (auto simp: sched_inv_def sched_state_def)

lemma sched_invI: "log_inv a \<Longrightarrow> durable_log a \<noteq> [] \<Longrightarrow> schedules a = GoOk st \<Longrightarrow> sane_fold st \<Longrightarrow> sched_inv a"
  unfolding sched_inv_def by blast

lemma schedule_loop_append:
  "schedule_loop (xs @ ys) st = go_bind (schedule_loop xs st) (schedule_loop ys)"
proof (induction xs arbitrary: st)
  case (Cons x xs)
  show ?case by (cases "schedule_event x st") (simp_all add: Cons.IH)
qed simp

text \<open>A log that does not fold never folds again.\<close>

lemma fold_error_persists:
  "\<forall>st. schedule_loop log ([], []) \<noteq> GoOk st \<Longrightarrow>
     schedule_loop (log @ more_events) ([], []) = schedule_loop log ([], [])"
  by (cases "schedule_loop log ([], [])") (simp_all add: schedule_loop_append)

lemma schedule_events_durable:
  assumes "log_inv a" and "durable_log a \<noteq> []"
  shows "schedule_events a = durable_log a"
proof -
  obtain log where log: "ag_persist a = Some log" "numbered log" "durable_log a = log" using log_invE [OF assms(1)] .
  have "0 \<le> env_seq e" if "e \<in> set log" for e
  proof -
    from that obtain i where "i < length log" "log ! i = e" by (auto simp: in_set_conv_nth)
    with numbered_nth [OF log(2)] show ?thesis by force
  qed
  then have "get_events log 0 = log" by (simp add: get_events_def)
  with log assms(2) show ?thesis by (simp add: schedule_events_def)
qed

lemma fold_schedules:
  assumes "sched_inv a"
  shows "fold_schedule_events (schedule_events a) 0 = GoOk (sorted_active (sched_state a), fst (sched_state a))"
proof -
  from assms have "log_inv a" "durable_log a \<noteq> []" "schedules a = GoOk (sched_state a)" by (auto elim: sched_invE)
  then show ?thesis by (simp add: fold_schedule_events_def schedule_events_durable schedules_def)
qed

section \<open>Other emissions\<close>

lemma schedules_avoiding:
  assumes "log_inv a" and "avoiding_op [EventScheduleChange] x"
  shows "schedules (agent_step x a) = schedules a" and "durable_log a \<noteq> [] \<Longrightarrow> durable_log (agent_step x a) \<noteq> []"
proof -
  from append_avoiding [OF assms]
  show "schedules (agent_step x a) = schedules a" "durable_log a \<noteq> [] \<Longrightarrow> durable_log (agent_step x a) \<noteq> []"
    by (cases "schedules a"; auto simp: schedules_def schedule_loop_append schedule_event_def)+
qed

interpretation same_schedules:
  emission_invariant "\<lambda>a. log_inv a \<and> durable_log a \<noteq> [] \<and> schedules a = r" "[EventScheduleChange]" for r
  by unfold_locales (use agent_step_log schedules_avoiding in blast)

section \<open>One change emitted\<close>

abbreviation emit_change :: "int \<Rightarrow> schedule_change \<Rightarrow> agent \<Rightarrow> agent" where
  "emit_change now c a \<equiv> fst (emit_event EventScheduleChange (AnyP (Some (change_json c))) None now a)"

definition proper_change :: "schedule_change \<Rightarrow> bool" where
  "proper_change c \<longleftrightarrow> sch_version c = 1 \<and> (\<forall>d. sch_schedule c = Some d \<longrightarrow> durable_int64 d)"

text \<open>The change is in the log and applied, or nothing has happened; the latter only when the store fails.\<close>

lemma emit_change_effect:
  assumes "sched_inv a" and "proper_change c"
  shows "log_inv (emit_change now c a)"
    and "schedules (emit_change now c a) = GoOk (sched_state a) \<and> durable_log (emit_change now c a) = durable_log a \<and> \<not> healthy a \<or>
      schedules (emit_change now c a) = apply_schedule_change c (sched_state a) \<and> durable_log (emit_change now c a) \<noteq> [] \<and>
      (healthy a \<longrightarrow> healthy (emit_change now c a))"
proof -
  from assms(1) have inv: "log_inv a" "durable_log a \<noteq> []" "schedules a = GoOk (sched_state a)" by (auto elim: sched_invE)
  obtain a' r where e: "emit_event EventScheduleChange (AnyP (Some (change_json c))) None now a = (a', r)" by fastforce
  note eff = emit_event_effect [OF inv(1) e]
  show "log_inv (emit_change now c a)" using eff e by simp
  have ok: "\<exists>env. r = Inr env \<and> ag_faults a' = []" if h: "healthy a"
  proof -
    have pe: "persist_event env (a\<lparr>ag_seq_counter := int (length (durable_log a)) + 1\<rparr>) =
        (a\<lparr>ag_seq_counter := int (length (durable_log a)) + 1, ag_persist := Some (durable_log a @ [env])\<rparr>, None)"
      if "env_seq env = int (length (durable_log a))" for env
      using persist_event_healthy [of "a\<lparr>ag_seq_counter := int (length (durable_log a)) + 1\<rparr>" env] h that inv(1)
      by (auto simp: healthy_def log_inv_def durable_log_def)
    show ?thesis using e h by (auto simp: emit_event_def validate_transition_def boundary_payload_def payload_json_def
        reserve_seq_def Let_def pe healthy_def new_envelope_def)
  qed
  show "schedules (emit_change now c a) = GoOk (sched_state a) \<and> durable_log (emit_change now c a) = durable_log a \<and> \<not> healthy a \<or>
      schedules (emit_change now c a) = apply_schedule_change c (sched_state a) \<and> durable_log (emit_change now c a) \<noteq> [] \<and>
      (healthy a \<longrightarrow> healthy (emit_change now c a))"
  proof (cases r)
    case (Inl x)
    with eff ok have "durable_log a' = durable_log a" "\<not> healthy a" by (auto simp: appends_one_def)
    with e inv show ?thesis by (simp add: schedules_def)
  next
    case (Inr env)
    with eff have log: "durable_log a' = durable_log a @ [env]" by (simp add: appends_one_def)
    have env: "env_type env = EventScheduleChange" "env_data env = Some (change_json c)"
      using emit_event_envelope [OF e [unfolded Inr]] by (simp_all add: boundary_types_def payload_json_def)
    have "unmarshal dec_schedule_change (env_data env) = Some c"
      unfolding env(2) by (rule change_roundtrip) (use assms(2) in \<open>simp_all add: proper_change_def in_int64_def\<close>)
    with env(1) assms(2) have "schedule_event env (sched_state a) = apply_schedule_change c (sched_state a)"
      by (simp add: schedule_event_def proper_change_def)
    then have "schedules a' = apply_schedule_change c (sched_state a)"
      using inv(3) log by (cases "apply_schedule_change c (sched_state a)") (simp_all add: schedules_def schedule_loop_append)
    moreover have "healthy a'" if "healthy a"
      using ok [OF that] eff log Inr that by (auto simp: healthy_def appends_one_def)
    ultimately show ?thesis using e log by simp
  qed
qed

text \<open>So a change that applies to the current schedules keeps the invariant.\<close>

lemma emit_change_keeps:
  assumes "sched_inv a" and "proper_change c" and "apply_schedule_change c (sched_state a) = GoOk st" and "sane_fold st"
  shows "sched_inv (emit_change now c a)"
    and "sched_state (emit_change now c a) = st \<and> (healthy a \<longrightarrow> healthy (emit_change now c a)) \<or>
      sched_state (emit_change now c a) = sched_state a \<and> \<not> healthy a"
proof -
  from assms(1) have inv: "durable_log a \<noteq> []" "sane_fold (sched_state a)" by (auto elim: sched_invE)
  note eff = emit_change_effect [OF assms(1,2), of now]
  then show "sched_inv (emit_change now c a)" using assms(3,4) inv by (auto intro: sched_invI)
  from eff(2) assms(3) show "sched_state (emit_change now c a) = st \<and> (healthy a \<longrightarrow> healthy (emit_change now c a)) \<or>
      sched_state (emit_change now c a) = sched_state a \<and> \<not> healthy a"
    by (auto simp: sched_state_def)
qed

section \<open>The tools\<close>

text \<open>Ids of the tools are words.\<close>

lemma trim_schedule_id: "trim_space (schedule_id n) = schedule_id n"
proof -
  have "\<forall>c\<in>set (map (hd \<circ> rev) space_codes). digit_value c = None" by code_simp
  moreover have "digit_value (digit_char (n mod 10)) = Some (n mod 10)" by simp
  ultimately have "digit_char (n mod 10) \<notin> set (map (hd \<circ> rev) space_codes)" by (metis option.distinct(1))
  moreover have "CHR ''s'' \<notin> set (map hd space_codes)" by code_simp
  ultimately have "trim_space (CHR ''s'' # s @ [digit_char (n mod 10)]) = CHR ''s'' # s @ [digit_char (n mod 10)]" for s
    by (intro trim_space_word)
  moreover have "schedule_id n = CHR ''s'' # (''chedule-'' @ (if n < 10 then [] else decimal_loop n (n div 10))) @ [digit_char (n mod 10)]"
    by (simp add: schedule_id_def decimal_def digit_char_def)
  ultimately show ?thesis by metis
qed

definition well_formed_new :: "schedule_record \<Rightarrow> bool" where
  "well_formed_new rec \<longleftrightarrow> sr_id rec \<noteq> [] \<and> trim_space (sr_id rec) = sr_id rec \<and>
     sr_prompt rec \<noteq> [] \<and> trim_space (sr_prompt rec) = sr_prompt rec \<and>
     1 \<le> instant_year (sr_scheduled_at rec) \<and> instant_year (sr_scheduled_at rec) \<le> 9999 \<and>
     (sr_kind rec = ''after'' \<and> 0 < sr_after_seconds rec \<and> in_int64 (sr_after_seconds rec) \<and> sr_every_seconds rec = 0 \<or>
      sr_kind rec = ''every'' \<and> min_every_interval_seconds \<le> sr_every_seconds rec \<and> sr_every_seconds rec \<le> max_seconds \<and>
        sr_after_seconds rec = 0 \<or>
      sr_kind rec = ''at'' \<and> sr_after_seconds rec = 0 \<and> sr_every_seconds rec = 0)"

abbreviation "as_stored rec \<equiv> rec\<lparr>sr_scheduled_at := truncate_ms (sr_scheduled_at rec)\<rparr>"

lemma decode_durable_of:
  assumes "well_formed_new rec"
  shows "decode_schedule_record (durable_of rec) = GoOk (as_stored rec)" and "durable_int64 (durable_of rec)"
    and "sane_record (as_stored rec)"
proof -
  have y: "1 \<le> instant_year (sr_scheduled_at rec)" "instant_year (sr_scheduled_at rec) \<le> 9999"
    using assms by (simp_all add: well_formed_new_def)
  show "decode_schedule_record (durable_of rec) = GoOk (as_stored rec)"
    using assms parse_format_canonical(1) [OF y]
    by (cases rec) (auto simp: well_formed_new_def decode_schedule_record_def durable_of_def min_every_interval_seconds_def)
  show "durable_int64 (durable_of rec)"
    using assms by (auto simp: well_formed_new_def durable_int64_def durable_of_def in_int64_def min_every_interval_seconds_def)
  show "sane_record (as_stored rec)"
    using assms truncate_ms_year [OF y(1)] truncate_ms_bounds(3) by (auto simp: well_formed_new_def sane_record_def)
qed

text \<open>
  The interval of a rule fits a duration; and an instant with a numeric offset, on which the tool panics.
\<close>

definition bounded_create :: "raw_message \<Rightarrow> bool" where
  "bounded_create raw \<longleftrightarrow> (\<forall>args n. unmarshal dec_create_args raw = Some args \<longrightarrow> sca_every_seconds args = Some n \<longrightarrow> n \<le> max_seconds)"

definition numeric_offset :: "json option \<Rightarrow> bool" where
  "numeric_offset at \<longleftrightarrow> (\<exists>s date clock zone. at = Some (JStr s) \<and> offset_fields s = Some (date, clock, zone) \<and> zone \<noteq> ''Z'')"

lemma offset_panics: "parse_offset_instant s = GoPanics \<Longrightarrow> numeric_offset (Some (JStr s))"
  by (auto simp: parse_offset_instant_def numeric_offset_def split: option.splits if_splits)

lemma create_args_int64: "unmarshal dec_create_args raw = Some args \<Longrightarrow> sca_after_seconds args = Some n \<Longrightarrow> in_int64 n"
  by (cases raw)
    (auto simp: unmarshal_def dec_object_def dec_create_args_def dec_int_ptr_def bind_eq_Some_conv split: option.splits json.splits if_splits)

lemma parse_at_target_result:
  "parse_at_target tz at now = GoOk t \<Longrightarrow> 1 \<le> instant_year t \<and> instant_year t \<le> 9999 \<and> now div 1000000 < t div 1000000"
  by (auto simp: parse_at_target_def go_bind_GoOk split: if_splits)

lemma parse_at_target_no_panic:
  assumes "\<forall>s. at = JStr s \<longrightarrow> parse_offset_instant s \<noteq> GoPanics"
  shows "parse_at_target tz at now \<noteq> GoPanics"
proof -
  have "parse_local_calendar d c \<noteq> GoPanics" for d c
    unfolding parse_local_calendar_def by (auto split: option.split prod.split list.split)
  moreover have "canonicalize_time_zone tz z \<noteq> GoPanics" for z
    by (simp add: canonicalize_time_zone_def split: option.split)
  ultimately have "local_target tz at \<noteq> GoPanics"
    unfolding local_target_def by (auto simp: go_bind_GoPanics Let_def split: option.split)
  with assms have "(case at of JStr s \<Rightarrow> parse_offset_instant s | _ \<Rightarrow> local_target tz at) \<noteq> GoPanics"
    by (cases at) simp_all
  then show ?thesis by (auto simp: parse_at_target_def go_bind_GoPanics)
qed

text \<open>A validated creation is refused, yields a well-formed record, or panics on a numeric offset.\<close>

lemma new_schedule_result:
  assumes "\<And>n. sca_after_seconds args = Some n \<Longrightarrow> in_int64 n" and "\<And>n. sca_every_seconds args = Some n \<Longrightarrow> n \<le> max_seconds"
    and "validate_schedule_create args = ([], [])" and "0 \<le> now" and "i = schedule_id n"
  shows "(\<exists>err. new_schedule tz now i args = GoOk (Inl err)) \<or>
    (\<exists>rec. new_schedule tz now i args = GoOk (Inr rec) \<and> sr_id rec = i \<and> well_formed_new rec) \<or>
    (new_schedule tz now i args = GoPanics \<and> numeric_offset (sca_at args))"
proof -
  obtain p a e at where args: "args = \<lparr>sca_prompt = p, sca_after_seconds = a, sca_every_seconds = e, sca_at = at\<rparr>"
    by (cases args) auto
  have p: "trim_space p \<noteq> []" "trim_space (trim_space p) = trim_space p"
    using assms(3) by (auto simp: args validate_schedule_create_def trim_space_idem split: if_splits)
  have i: "i \<noteq> []" "trim_space i = i" using assms(5) trim_schedule_id by (simp_all add: schedule_id_def)
  have now: "1 \<le> instant_year t" if "now - 2 ^ 63 \<le> t" for t using that assms(4) by (simp add: instant_year_bounds)
  consider (after) x where "a = Some x" "e = None" "0 < x" "in_int64 x"
    | (every) x where "a = None" "e = Some x" "min_every_interval_seconds \<le> x" "x \<le> max_seconds"
    | (at) x where "a = None" "e = None" "at = Some x"
    using assms(1-3) by (cases a; cases e; cases at)
      (auto simp: args validate_schedule_create_def not_le not_less split: if_splits)
  then show ?thesis
  proof cases
    case after
    have "now - 2 ^ 63 \<le> now + wrap64 (x * second_ns)" using wrap64_range [of "x * second_ns"] by (simp add: in_int64_def)
    with after p i now show ?thesis by (auto simp: new_schedule_def args Let_def well_formed_new_def)
  next
    case every
    have "now - 2 ^ 63 \<le> now + wrap64 (x * second_ns)"
      using interval_id [of x] every by (simp add: min_every_interval_seconds_def)
    with every p i now show ?thesis by (auto simp: new_schedule_def args Let_def well_formed_new_def)
  next
    case at
    have "numeric_offset (Some x)" if "parse_at_target tz x now = GoPanics"
      using that parse_at_target_no_panic [of x tz now] offset_panics by blast
    then show ?thesis using at p i parse_at_target_result [of tz x now]
      by (cases "parse_at_target tz x now") (auto simp: new_schedule_def args Let_def well_formed_new_def)
  qed
qed

text \<open>Each tool call keeps the invariant; only \<open>schedule_create\<close> can panic, on a numeric offset.\<close>

definition offset_create :: "raw_message \<Rightarrow> bool" where
  "offset_create raw \<longleftrightarrow> (\<exists>args. unmarshal dec_create_args raw = Some args \<and> numeric_offset (sca_at args))"

lemma create_keeps:
  assumes "sched_inv a" and "bounded_create raw" and "0 \<le> now"
  shows "(\<exists>a' v. run_schedule_tool now (\<lambda>evs. schedule_create tz now evs raw) a = GoOk (a', v) \<and> sched_inv a') \<or>
    (run_schedule_tool now (\<lambda>evs. schedule_create tz now evs raw) a = GoPanics \<and> offset_create raw)"
proof -
  let ?st = "sched_state a"
  from assms(1) have sane: "sane_fold ?st" by (auto elim: sched_invE)
  show ?thesis
  proof (cases "unmarshal dec_create_args raw")
    case None
    then show ?thesis using assms(1) by (simp add: run_schedule_tool_def schedule_create_def)
  next
    case (Some args)
    obtain code msg where val: "validate_schedule_create args = (code, msg)" by fastforce
    show ?thesis
    proof (cases "code = []")
      case False
      with Some val show ?thesis using assms(1) by (simp add: run_schedule_tool_def schedule_create_def)
    next
      case True
      then have val': "validate_schedule_create args = ([], [])"
        using val by (auto simp: validate_schedule_create_def split: if_splits)
      let ?i = "allocate_schedule_id (fst ?st)"
      obtain n where i: "?i = schedule_id n" using allocate_shape by blast
      have b: "\<And>n. sca_every_seconds args = Some n \<Longrightarrow> n \<le> max_seconds" using assms(2) Some by (simp add: bounded_create_def)
      have "(\<exists>err. new_schedule tz now ?i args = GoOk (Inl err)) \<or>
          (\<exists>rec. new_schedule tz now ?i args = GoOk (Inr rec) \<and> sr_id rec = ?i \<and> well_formed_new rec) \<or>
          (new_schedule tz now ?i args = GoPanics \<and> numeric_offset (sca_at args))"
        by (rule new_schedule_result [OF _ _ val' assms(3) i]) (use create_args_int64 [OF Some] b in auto)
      then show ?thesis
      proof (elim disjE exE conjE)
        fix err assume "new_schedule tz now ?i args = GoOk (Inl err)"
        with Some val' fold_schedules [OF assms(1)] assms(1) show ?thesis
          by (simp add: run_schedule_tool_def schedule_create_def with_fold_def)
      next
        fix rec assume new: "new_schedule tz now ?i args = GoOk (Inr rec)" and rec: "sr_id rec = ?i" "well_formed_new rec"
        note dec = decode_durable_of [OF rec(2)]
        have fresh: "ds_id (durable_of rec) \<notin> set (fst ?st)" using allocate_fresh rec(1) by (simp add: durable_of_def)
        obtain st where "apply_schedule_change (create_change rec) ?st = GoOk st" "sane_fold st"
          using apply_create [OF sane fresh dec(1,3), of "create_change rec"] by (auto simp: create_change_def)
        moreover have "proper_change (create_change rec)" using dec(2) by (simp add: proper_change_def create_change_def)
        ultimately have "sched_inv (emit_change now (create_change rec) a)" using emit_change_keeps(1) [OF assms(1)] by blast
        with Some val' new fold_schedules [OF assms(1)] show ?thesis
          by (simp add: run_schedule_tool_def schedule_create_def with_fold_def)
      next
        assume "new_schedule tz now ?i args = GoPanics" "numeric_offset (sca_at args)"
        with Some val' fold_schedules [OF assms(1)] show ?thesis
          by (simp add: run_schedule_tool_def schedule_create_def with_fold_def offset_create_def)
      qed
    qed
  qed
qed

lemma list_keeps: "sched_inv a \<Longrightarrow> \<exists>v. run_schedule_tool now (schedule_list now) a = GoOk (a, v)"
  using fold_schedules [of a] by (simp add: run_schedule_tool_def schedule_list_def with_fold_def)

lemma delete_keeps:
  assumes "sched_inv a"
  shows "\<exists>a' v. run_schedule_tool now (\<lambda>evs. schedule_delete evs raw) a = GoOk (a', v) \<and> sched_inv a'"
proof -
  let ?st = "sched_state a"
  from assms have sane: "sane_fold ?st" by (auto elim: sched_invE)
  show ?thesis
  proof (cases "\<exists>i. unmarshal (dec_string ''id'') raw = Some i \<and> i \<noteq> [] \<and> trim_space i = i \<and> (\<exists>rec\<in>active_set ?st. sr_id rec = i)")
    case False
    then show ?thesis using fold_schedules [OF assms] assms
      by (auto simp: run_schedule_tool_def schedule_delete_def with_fold_def list_ex_iff Let_def split: option.split)
  next
    case True
    then obtain i rec where i: "unmarshal (dec_string ''id'') raw = Some i" "i \<noteq> []" "trim_space i = i"
      and rec: "rec \<in> active_set ?st" "sr_id rec = i" by blast
    obtain st where "apply_schedule_change (delete_change i) ?st = GoOk st" "sane_fold st"
      using apply_delete [OF sane rec(1), of "delete_change i"] rec(2) by (auto simp: delete_change_def)
    moreover have "proper_change (delete_change i)" by (simp add: proper_change_def delete_change_def)
    ultimately have "sched_inv (emit_change now (delete_change i) a)" using emit_change_keeps(1) [OF assms] by blast
    with i rec fold_schedules [OF assms] show ?thesis
      by (auto simp: run_schedule_tool_def schedule_delete_def with_fold_def list_ex_iff Let_def)
  qed
qed

section \<open>The dispatcher\<close>

definition due_records :: "int \<Rightarrow> schedule_record set \<Rightarrow> schedule_record set" where
  "due_records now recs = {r \<in> recs. sr_scheduled_at r \<le> now}"

definition due_every :: "int \<Rightarrow> schedule_record \<Rightarrow> bool" where
  "due_every now r \<longleftrightarrow> sr_scheduled_at r \<le> now \<and> sr_kind r = ''every''"

definition due_once :: "int \<Rightarrow> schedule_record \<Rightarrow> bool" where
  "due_once now r \<longleftrightarrow> sr_scheduled_at r \<le> now \<and> sr_kind r \<noteq> ''every''"

lemma due_scan_every:
  "snd (due_scan recs now os ev) = ev @ filter (due_every now) recs"
  by (induction recs now os ev rule: due_scan.induct) (auto simp: due_every_def)

lemma due_scan_once:
  "fst (due_scan recs now os ev) = Some r \<Longrightarrow> os = Some r \<or> r \<in> set recs \<and> due_once now r"
proof (induction recs arbitrary: os ev)
  case (Cons x recs)
  show ?case
  proof (cases "fst (due_scan recs now os ev) = Some r \<or> (\<exists>ev. fst (due_scan recs now os ev) = Some r)")
    case True
    then obtain ev' where "fst (due_scan recs now os ev') = Some r" by blast
    from Cons.IH [OF this] show ?thesis by auto
  next
    case False
    then have none: "fst (due_scan recs now os ev') \<noteq> Some r" for ev' by blast
    then have "due_once now x" "fst (due_scan recs now (Some x) ev) = Some r"
      using Cons.prems by (simp_all add: due_once_def not_less split: if_splits)
    with Cons.IH [of "Some x" ev] show ?thesis by auto
  qed
qed simp

lemma due_scan_Some: "fst (due_scan recs now (Some r) ev) \<noteq> None"
proof (induction recs arbitrary: r ev)
  case (Cons x recs)
  show ?case by (simp add: Cons.IH del: not_None_eq)
qed simp

lemma due_scan_none:
  "fst (due_scan recs now None ev) = None \<Longrightarrow> \<forall>r\<in>set recs. \<not> due_once now r"
proof (induction recs arbitrary: ev)
  case (Cons x recs)
  then have "\<not> due_once now x" using due_scan_Some [of recs now x ev] by (auto simp: due_once_def split: if_splits)
  moreover have "\<exists>ev. fst (due_scan recs now None ev) = None"
    using Cons.prems due_scan_Some [of recs now x ev] by (auto split: if_splits)
  ultimately show ?case using Cons.IH by auto
qed simp

lemma decide_due_cases:
  obtains rec where "decide_due active now = DueOneShot rec" "rec \<in> set active" "due_once now rec"
  | "decide_due active now = DueEvery (filter (due_every now) active) now" "filter (due_every now) active \<noteq> []"
    "\<forall>r\<in>set active. \<not> due_once now r"
  | t where "decide_due active now = DueWait t" "\<forall>r\<in>set active. now < sr_scheduled_at r"
proof -
  obtain os ev where sc: "due_scan active now None [] = (os, ev)" by fastforce
  have ev: "ev = filter (due_every now) active" using due_scan_every [of active now None "[]"] sc by simp
  show ?thesis
  proof (cases os)
    case (Some rec)
    with due_scan_once [of active now None "[]" rec] sc that(1) [of rec] show ?thesis by (simp add: decide_due_def)
  next
    case None
    then have none: "\<forall>r\<in>set active. \<not> due_once now r" using due_scan_none [of active now "[]"] sc by simp
    show ?thesis
    proof (cases "ev = []")
      case False
      with None none sc ev that(2) show ?thesis by (simp add: decide_due_def)
    next
      case True
      with ev have "\<forall>r\<in>set active. \<not> due_every now r" by (metis filter_empty_conv)
      with none have "\<forall>r\<in>set active. now < sr_scheduled_at r" by (auto simp: due_once_def due_every_def not_le)
      with None True sc that(3) show ?thesis by (simp add: decide_due_def)
    qed
  qed
qed

text \<open>The delivered records of a decision.\<close>

definition delivered :: "due_decision \<Rightarrow> schedule_record list" where
  "delivered dec = (case dec of DueOneShot r \<Rightarrow> [r] | DueEvery rs acc \<Rightarrow> rs | DueWait t \<Rightarrow> [])"

definition clock_ok :: "int \<Rightarrow> bool" where
  "clock_ok now \<longleftrightarrow> 0 \<le> now \<and> instant_year now \<le> 9999"

lemma clock_text:
  assumes "clock_ok now"
  shows "parse_accepted_at (format_canonical now) = Some (truncate_ms now)"
  by (rule parse_format_canonical(2)) (use assms in \<open>simp_all add: clock_ok_def instant_year_bounds\<close>)

text \<open>An instant of whole milliseconds lies at or before the clock as it does to its truncation.\<close>

lemma aligned_truncate: "t mod 1000000 = 0 \<Longrightarrow> t \<le> now \<longleftrightarrow> t \<le> truncate_ms now"
proof -
  assume "t mod 1000000 = 0"
  then have "t = t div 1000000 * 1000000" by (simp add: minus_mod_eq_div_mult [symmetric])
  moreover have "t \<le> now \<Longrightarrow> t div 1000000 \<le> now div 1000000" by (simp add: zdiv_mono1)
  ultimately show ?thesis using truncate_ms_bounds(1) [of now] unfolding truncate_ms_def by fastforce
qed

definition near_anchor :: "int \<Rightarrow> schedule_record set \<Rightarrow> bool" where
  "near_anchor now recs \<longleftrightarrow> (\<forall>r\<in>recs. now - sr_scheduled_at r < 2 ^ 63)"

abbreviation "every_change now rec \<equiv> no_change\<lparr>sch_operation := ''dispatch'', sch_id := sr_id rec,
  sch_accepted_at := format_canonical now\<rparr>"

abbreviation "active a \<equiv> active_set (sched_state a)"

text \<open>A batch: each rule of it moves past the clock, on a healthy agent.\<close>

lemma every_batch:
  assumes "sched_inv a" and "clock_ok now" and "distinct recs" and "set recs \<subseteq> active a" and "\<forall>r\<in>set recs. due_every now r"
  shows "sched_inv (emit_changes now (map (every_change now) recs) a) \<and>
    (healthy a \<and> near_anchor now (set recs) \<longrightarrow> healthy (emit_changes now (map (every_change now) recs) a) \<and>
       (\<exists>new. active (emit_changes now (map (every_change now) recs) a) = active a - set recs \<union> new \<and>
          (\<forall>r\<in>new. now < sr_scheduled_at r)))"
  using assms
proof (induction recs arbitrary: a)
  case Nil
  then show ?case by (auto intro!: exI [of _ "{}"])
next
  case (Cons rec recs)
  let ?c = "every_change now rec" let ?b = "emit_change now ?c a"
  have sane: "sane_fold (sched_state a)" using Cons.prems(1) by (auto elim: sched_invE)
  have rec: "rec \<in> active a" "due_every now rec" using Cons.prems(4,5) by simp_all
  then have sr: "sane_record rec" using sane_active [OF sane] by simp
  then have al: "sr_scheduled_at rec mod 1000000 = 0" by (simp add: sane_record_def)
  have le: "sr_scheduled_at rec \<le> truncate_ms now" using rec(2) aligned_truncate [OF al] by (simp add: due_every_def)
  have ev: "sr_kind rec = ''every''" using rec(2) by (simp add: due_every_def)
  obtain st new where st: "apply_schedule_change ?c (sched_state a) = GoOk st" "sane_fold st"
    "active_set st = active a - {rec} \<union> new"
    and new: "\<forall>r\<in>new. \<exists>t. r = rec\<lparr>sr_scheduled_at := t\<rparr> \<and> (truncate_ms now - sr_scheduled_at rec < 2 ^ 63 \<longrightarrow>
      truncate_ms now < t \<and> (t - sr_scheduled_at rec) mod (sr_every_seconds rec * second_ns) = 0)"
    using apply_dispatch_every [OF sane rec(1) ev, of ?c "truncate_ms now"] clock_text [OF Cons.prems(2)] le by auto
  have ahead: "now < sr_scheduled_at r" if "r \<in> new" "near_anchor now {rec}" for r
  proof -
    from that new truncate_ms_bounds(1) [of now] obtain t where t: "r = rec\<lparr>sr_scheduled_at := t\<rparr>" "truncate_ms now < t"
      by (fastforce simp: near_anchor_def)
    have "r \<in> active_set st" using that(1) st(3) by simp
    then have "sane_record r" using sane_active [OF st(2)] by simp
    then have "t mod 1000000 = 0" using t(1) by (simp add: sane_record_def)
    from aligned_truncate [OF this, of now] t show ?thesis by simp
  qed
  have keeps: "sched_inv ?b" "sched_state ?b = st \<and> (healthy a \<longrightarrow> healthy ?b) \<or> sched_state ?b = sched_state a \<and> \<not> healthy a"
    using emit_change_keeps [OF Cons.prems(1) _ st(1,2)] by (simp_all add: proper_change_def)
  have sub: "set recs \<subseteq> active ?b" using keeps(2) st(3) Cons.prems(3,4) by auto
  have ih: "sched_inv (emit_changes now (map (every_change now) recs) ?b) \<and>
    (healthy ?b \<and> near_anchor now (set recs) \<longrightarrow> healthy (emit_changes now (map (every_change now) recs) ?b) \<and>
       (\<exists>new. active (emit_changes now (map (every_change now) recs) ?b) = active ?b - set recs \<union> new \<and>
          (\<forall>r\<in>new. now < sr_scheduled_at r)))"
    using Cons.IH [OF keeps(1) Cons.prems(2) _ sub] Cons.prems(3,5) by simp
  have "healthy (emit_changes now (map (every_change now) (rec # recs)) a) \<and>
       (\<exists>new. active (emit_changes now (map (every_change now) (rec # recs)) a) = active a - set (rec # recs) \<union> new \<and>
          (\<forall>r\<in>new. now < sr_scheduled_at r))" if h: "healthy a" and n: "near_anchor now (set (rec # recs))"
  proof -
    have b: "sched_state ?b = st" "healthy ?b" using keeps(2) h by auto
    have n': "near_anchor now (set recs)" "near_anchor now {rec}" using n by (simp_all add: near_anchor_def)
    from ih b(2) n'(1) obtain new' where h': "healthy (emit_changes now (map (every_change now) recs) ?b)"
      and act: "active (emit_changes now (map (every_change now) recs) ?b) = active ?b - set recs \<union> new'"
      and new': "\<forall>r\<in>new'. now < sr_scheduled_at r" by blast
    have "active ?b = active a - {rec} \<union> new" using b(1) st(3) by simp
    with act have eq: "active (emit_changes now (map (every_change now) (rec # recs)) a) =
        active a - set (rec # recs) \<union> ((new - set recs) \<union> new')" by auto
    have "\<forall>r\<in>(new - set recs) \<union> new'. now < sr_scheduled_at r" using ahead n'(2) new' by blast
    with eq h' show ?thesis by auto
  qed
  with ih show ?case by simp
qed

lemma emit_changes_single: "emit_changes now [c] a = emit_change now c a"
  by simp

text \<open>
  One round.  It waits when nothing is due; otherwise it delivers due records and, when the store
  answers, those records are gone or lie ahead.
\<close>

lemma round_effect:
  assumes "sched_inv a" and "clock_ok now"
  obtains t where "dispatch_round now a = GoOk (a, [], RoundWaits (wait_delay t now))" "due_records now (active a) = {}"
  | b dec where "dispatch_round now a = GoOk (b, [dec], RoundAgain)" "sched_inv b"
      "delivered dec \<noteq> []" "distinct (delivered dec)" "set (delivered dec) \<subseteq> due_records now (active a)"
      "healthy a \<and> near_anchor now (active a) \<longrightarrow> healthy b \<and>
         (\<exists>new. active b = active a - set (delivered dec) \<union> new \<and> (\<forall>r\<in>new. now < sr_scheduled_at r))"
proof -
  let ?act = "sorted_active (sched_state a)"
  have sane: "sane_fold (sched_state a)" using assms(1) by (auto elim: sched_invE)
  note fold = fold_schedules [OF assms(1)]
  show ?thesis
  proof (cases rule: decide_due_cases [of ?act now])
    case (1 rec)
    let ?c = "no_change\<lparr>sch_operation := ''dispatch'', sch_id := sr_id rec\<rparr>"
    have rec: "rec \<in> active a" "sr_kind rec \<noteq> ''every''" "sr_scheduled_at rec \<le> now" using 1 by (simp_all add: due_once_def)
    obtain st where st: "apply_schedule_change ?c (sched_state a) = GoOk st" "sane_fold st" "active_set st = active a - {rec}"
      using apply_dispatch_once [OF sane rec(1,2), of ?c] by auto
    have keeps: "sched_inv (emit_change now ?c a)"
      "sched_state (emit_change now ?c a) = st \<and> (healthy a \<longrightarrow> healthy (emit_change now ?c a)) \<or>
       sched_state (emit_change now ?c a) = sched_state a \<and> \<not> healthy a"
      using emit_change_keeps [OF assms(1) _ st(1,2)] by (simp_all add: proper_change_def)
    have r: "dispatch_round now a = GoOk (emit_change now ?c a, [DueOneShot rec], RoundAgain)"
      using fold 1(1) by (simp add: dispatch_round_def dispatch_changes_def)
    show ?thesis
      by (rule that(2) [OF r keeps(1)])
        (use rec keeps(2) st(3) in \<open>auto simp: delivered_def due_records_def intro!: exI [of _ "{}"]\<close>)
  next
    case 2
    let ?recs = "filter (due_every now) ?act"
    have d: "distinct ?recs" using distinct_ids [OF sane] by (simp add: distinct_map)
    have sub: "set ?recs \<subseteq> active a" "\<forall>r\<in>set ?recs. due_every now r" by auto
    note batch = every_batch [OF assms d sub]
    have r: "dispatch_round now a = GoOk (emit_changes now (map (every_change now) ?recs) a, [DueEvery ?recs now], RoundAgain)"
      using fold 2(1) by (simp add: dispatch_round_def dispatch_changes_def)
    have near: "near_anchor now (set ?recs)" if "near_anchor now (active a)" using that sub(1) by (auto simp: near_anchor_def)
    show ?thesis
      by (rule that(2) [OF r])
        (use batch near d 2(2) in \<open>auto simp: delivered_def due_records_def due_every_def\<close>)
  next
    case (3 t)
    have "dispatch_round now a = GoOk (a, [], RoundWaits (wait_delay t now))"
      using fold 3(1) by (simp add: dispatch_round_def)
    then show ?thesis using 3(2) by (intro that(1) [of t]) (auto simp: due_records_def)
  qed
qed

end
