(* ===== verification/Schedule_Properties.thy ===== *)
theory Schedule_Properties imports Schedule_Runtime begin

text \<open>
  What reminders guarantee: while no interval exceeds a duration, the log of a session that only the
  tools and the dispatcher write to folds, the dispatcher delivers every due reminder once and comes
  to rest, and instants read back as written.  The lemmas at the end show what happens beyond.
\<close>

section \<open>Any sequence of operations\<close>

datatype sched_op =
    OpCreate raw_message int
  | OpList int
  | OpDelete raw_message int
  | OpDispatch int
  | OpOther agent_op

fun sched_step :: "zone_db \<Rightarrow> sched_op \<Rightarrow> agent \<Rightarrow> agent go_result" where
  "sched_step tz (OpCreate raw now) a = go_bind (run_schedule_tool now (\<lambda>evs. schedule_create tz now evs raw) a) (GoOk \<circ> fst)"
| "sched_step tz (OpList now) a = go_bind (run_schedule_tool now (schedule_list now) a) (GoOk \<circ> fst)"
| "sched_step tz (OpDelete raw now) a = go_bind (run_schedule_tool now (\<lambda>evs. schedule_delete evs raw) a) (GoOk \<circ> fst)"
| "sched_step tz (OpDispatch now) a = go_bind (dispatch_round now a) (GoOk \<circ> fst)"
| "sched_step tz (OpOther x) a = GoOk (agent_step x a)"

fun sched_run :: "zone_db \<Rightarrow> sched_op list \<Rightarrow> agent \<Rightarrow> agent go_result" where
  "sched_run tz [] a = GoOk a"
| "sched_run tz (x # xs) a = go_bind (sched_step tz x a) (sched_run tz xs)"

text \<open>
  A session in which no reminder was made yet.  Then: clocks between 1970 and 9999, rules whose interval
  fits a duration; nobody else writes schedule changes.
\<close>

definition unscheduled :: "agent \<Rightarrow> bool" where
  "unscheduled a \<longleftrightarrow> log_inv a \<and> durable_log a \<noteq> [] \<and> (\<forall>e\<in>set (durable_log a). env_type e \<noteq> EventScheduleChange)"

definition bounded_op :: "sched_op \<Rightarrow> bool" where
  "bounded_op x \<longleftrightarrow> (case x of
      OpCreate raw now \<Rightarrow> bounded_create raw \<and> clock_ok now
    | OpList now \<Rightarrow> clock_ok now
    | OpDelete raw now \<Rightarrow> clock_ok now
    | OpDispatch now \<Rightarrow> clock_ok now
    | OpOther y \<Rightarrow> avoiding_op [EventScheduleChange] y)"

definition offset_op :: "sched_op \<Rightarrow> bool" where
  "offset_op x \<longleftrightarrow> (case x of OpCreate raw now \<Rightarrow> offset_create raw | _ \<Rightarrow> False)"

lemma unscheduled_inv:
  assumes "unscheduled a"
  shows "sched_inv a"
proof -
  have "schedule_loop es st = GoOk st" if "\<forall>e\<in>set es. env_type e \<noteq> EventScheduleChange" for es st
    using that by (induction es) (simp_all add: schedule_event_def)
  with assms have "schedules a = GoOk ([], [])" by (simp add: unscheduled_def schedules_def)
  with assms show ?thesis by (intro sched_invI [OF _ _ _ sane_Nil]) (simp_all add: unscheduled_def)
qed

lemma sched_step_keeps:
  assumes "sched_inv a" and "bounded_op x"
  shows "(\<exists>b. sched_step tz x a = GoOk b \<and> sched_inv b) \<or> (sched_step tz x a = GoPanics \<and> offset_op x)"
proof (cases x)
  case (OpCreate raw now)
  with create_keeps [OF assms(1), of raw now tz] assms(2) show ?thesis
    by (auto simp: bounded_op_def offset_op_def clock_ok_def)
next
  case (OpList now)
  with list_keeps [OF assms(1), of now] assms(1) show ?thesis by auto
next
  case (OpDelete raw now)
  with delete_keeps [OF assms(1), of now raw] show ?thesis by auto
next
  case (OpDispatch now)
  with assms(2) have "clock_ok now" by (simp add: bounded_op_def)
  from round_effect [OF assms(1) this] show ?thesis
  proof cases
    case (1 t)
    with OpDispatch assms(1) show ?thesis by simp
  next
    case (2 b dec)
    with OpDispatch show ?thesis by simp
  qed
next
  case (OpOther y)
  with assms same_schedules.keeps [of y a "GoOk (sched_state a)"] show ?thesis
    by (auto simp: bounded_op_def elim!: sched_invE intro: sched_invI)
qed

lemma sched_run_keeps:
  "sched_inv a \<Longrightarrow> \<forall>x\<in>set xs. bounded_op x \<Longrightarrow>
     (\<exists>b. sched_run tz xs a = GoOk b \<and> sched_inv b) \<or> (sched_run tz xs a = GoPanics \<and> (\<exists>x\<in>set xs. offset_op x))"
proof (induction xs arbitrary: a)
  case (Cons x xs)
  have "bounded_op x" using Cons.prems(2) by simp
  from sched_step_keeps [OF Cons.prems(1) this, of tz] show ?case
  proof (elim disjE exE conjE)
    fix b assume b: "sched_step tz x a = GoOk b" "sched_inv b"
    with Cons.IH [OF b(2)] Cons.prems(2) show ?thesis by auto
  qed simp_all
qed simp

text \<open>
  C32. Start from a session without reminders, and let reminders be created, listed, deleted and dispatched
  one at a time, other events be emitted and any appends fail; let the clocks lie between 1970 and 9999
  and every rule have an interval of at most 9223372036 seconds, so that it fits a duration.  Then the only
  operation that can panic is a creation whose \<open>at\<close> is an instant with a numeric offset.  If none does, the log
  folds: the active reminders have distinct ids, all of them seen, whole milliseconds and intervals of
  at least 300 seconds.
\<close>
theorem schedule_log_always_folds:
  assumes "unscheduled a" and "\<forall>x\<in>set xs. bounded_op x"
  shows "case sched_run tz xs a of
      GoOk b \<Rightarrow> (\<exists>recs seen. fold_schedule_events (durable_log b) 0 = GoOk (recs, seen) \<and>
        distinct (map sr_id recs) \<and> sr_id ` set recs \<subseteq> set seen \<and> (\<forall>r\<in>set recs. sane_record r))
    | GoPanics \<Rightarrow> \<exists>x\<in>set xs. offset_op x
    | GoErr msg \<Rightarrow> False"
proof -
  from sched_run_keeps [OF unscheduled_inv [OF assms(1)] assms(2), of tz] show ?thesis
  proof (elim disjE exE conjE)
    fix b assume b: "sched_run tz xs a = GoOk b" "sched_inv b"
    then have inv: "log_inv b" "durable_log b \<noteq> []" "sane_fold (sched_state b)" by (auto elim: sched_invE)
    have "fold_schedule_events (durable_log b) 0 = GoOk (sorted_active (sched_state b), fst (sched_state b))"
      using fold_schedules [OF b(2)] schedule_events_durable [OF inv(1,2)] by simp
    then show ?thesis using b(1) distinct_ids [OF inv(3)] sane_active [OF inv(3)] by auto
  qed simp
qed

section \<open>The dispatcher comes to rest\<close>

abbreviation "delivered_all ds \<equiv> concat (map delivered ds)"

lemma rounds_effect:
  assumes "sched_inv a" and "healthy a" and "clock_ok now" and "near_anchor now (active a)"
    and "card (due_records now (active a)) < n"
  shows "\<exists>b ds d. dispatch_rounds n now a = GoOk (b, ds, RoundWaits d) \<and> sched_inv b \<and> healthy b \<and>
    distinct (delivered_all ds) \<and> set (delivered_all ds) = due_records now (active a) \<and>
    due_records now (active b) = {} \<and> active a - due_records now (active a) \<subseteq> active b"
  using assms
proof (induction n arbitrary: a)
  case (Suc n)
  from round_effect [OF Suc.prems(1,3)] show ?case
  proof cases
    case (1 t)
    with Suc.prems show ?thesis
      by (intro exI [of _ a] exI [of _ "[]"] exI [of _ "wait_delay t now"]) simp
  next
    case (2 b dec)
    let ?D = "due_records now (active a)"
    from 2(6) Suc.prems(2,4) obtain new where b: "healthy b" "active b = active a - set (delivered dec) \<union> new"
      and new: "\<forall>r\<in>new. now < sr_scheduled_at r" by blast
    have due: "due_records now (active b) = ?D - set (delivered dec)" using b(2) new by (auto simp: due_records_def)
    have fin: "finite ?D" by (simp add: due_records_def active_set_def)
    have "delivered dec \<noteq> []" "set (delivered dec) \<subseteq> ?D" by (rule 2)+
    then have "?D - set (delivered dec) \<subset> ?D" by (cases "delivered dec") auto
    then have "card (?D - set (delivered dec)) < card ?D" by (rule psubset_card_mono [OF fin])
    with Suc.prems(5) due have "card (due_records now (active b)) < n" by simp
    moreover have "near_anchor now (active b)" using Suc.prems(4) b(2) new by (auto simp: near_anchor_def)
    ultimately obtain c ds d where ih: "dispatch_rounds n now b = GoOk (c, ds, RoundWaits d)" "sched_inv c" "healthy c"
      "distinct (delivered_all ds)" "set (delivered_all ds) = due_records now (active b)"
      "due_records now (active c) = {}" "active b - due_records now (active b) \<subseteq> active c"
      using Suc.IH [OF 2(2) b(1) Suc.prems(3)] by blast
    have "dispatch_rounds (Suc n) now a = GoOk (c, dec # ds, RoundWaits d)" using 2(1) ih(1) by simp
    moreover have "distinct (delivered_all (dec # ds))" using 2(4) ih(4,5) due by auto
    moreover have "set (delivered_all (dec # ds)) = ?D" using 2(5) ih(5) due by auto
    moreover have "active a - ?D \<subseteq> active c" using ih(7) b(2) 2(5) due by (auto simp: due_records_def)
    ultimately show ?thesis using ih(2,3,6) by (intro exI [of _ c] exI [of _ "dec # ds"] exI [of _ d]) (intro conjI)
  qed
qed simp

text \<open>
  C33. Take a session that began without reminders and went through any operations whose rules have
  intervals of at most 9223372036 seconds, without a panic.  On a healthy store, at a clock before the
  year 10000 at which no active reminder is overdue by 292 years, the dispatcher comes to rest after at
  most as many rounds as there are due reminders: it delivers each of them exactly once, leaves the
  others, and then nothing is due and it waits.
\<close>
theorem dispatcher_comes_to_rest:
  assumes "unscheduled start" and "\<forall>x\<in>set xs. bounded_op x" and "sched_run tz xs start = GoOk a"
    and "healthy a" and "clock_ok now" and "\<forall>r\<in>active a. now - sr_scheduled_at r < 2 ^ 63"
  defines "n \<equiv> Suc (card (due_records now (active a)))"
  shows "\<exists>b ds d. dispatch_rounds n now a = GoOk (b, ds, RoundWaits d) \<and>
    distinct (delivered_all ds) \<and> set (delivered_all ds) = due_records now (active a) \<and>
    due_records now (active b) = {} \<and> active a - due_records now (active a) \<subseteq> active b \<and> healthy b"
proof -
  have "sched_inv a" using sched_run_keeps [OF unscheduled_inv [OF assms(1)] assms(2), of tz] assms(3) by simp
  moreover have "near_anchor now (active a)" using assms(6) by (simp add: near_anchor_def)
  ultimately show ?thesis using rounds_effect [of a now n] assms(4,5) unfolding n_def by blast
qed

text \<open>
  The canonical text of an instant between the years 1 and 9999 reads back as the instant cut
  to milliseconds, by the strict parser of records and by the parser of dispatches.
\<close>
theorem instants_read_back:
  assumes "1 \<le> instant_year t" and "instant_year t \<le> 9999"
  shows "parse_canonical_instant (format_canonical t) = Inr (t - t mod 1000000) \<and>
    parse_accepted_at (format_canonical t) = Some (t - t mod 1000000)"
  using parse_format_canonical [OF assms] by (simp add: truncate_ms_def minus_mod_eq_div_mult)

lemma instants_read_back_witness:
  "parse_canonical_instant (format_canonical 951782400123456789) = Inr 951782400123000000"
  using instants_read_back [of 951782400123456789] by (simp add: instant_year_bounds)

section \<open>A concrete session\<close>

definition sample_session :: agent where
  "sample_session = new_agent True (Some [new_envelope 0 0 ''session/start'' (JObj [])]) [] None None"

definition sample_create :: raw_message where
  "sample_create = Some (JObj [(''prompt'', JStr ''tea''), (''after_seconds'', JInt 60)])"

lemma sample_session_log:
  "log_inv sample_session" "durable_log sample_session = [new_envelope 0 0 ''session/start'' (JObj [])]" "healthy sample_session"
proof -
  have "numbered [new_envelope 0 0 ''session/start'' (JObj [])]" by (simp add: numbered_def new_envelope_def)
  note new = log_inv_new [OF this, of True "[]" None None, simplified, folded sample_session_def]
  have "ag_faults sample_session = []" by (simp add: sample_session_def new_agent_def split: prod.split)
  with new show "log_inv sample_session" "durable_log sample_session = [new_envelope 0 0 ''session/start'' (JObj [])]"
    "healthy sample_session" by (simp_all add: healthy_def)
qed

lemma sample_schedules: "schedules sample_session = GoOk ([], [])"
  by (simp add: schedules_def sample_session_log schedule_event_def new_envelope_def)

lemma sample_unscheduled: "unscheduled sample_session"
  using sample_session_log by (simp add: unscheduled_def new_envelope_def)

lemma tool_lower_names:
  "lower_name ''after_seconds'' = ''after_seconds''" "lower_name ''every_seconds'' = ''every_seconds''"
  "lower_name ''at'' = ''at''"
  by code_simp+

definition sample_args :: schedule_create_args where
  "sample_args = \<lparr>sca_prompt = ''tea'', sca_after_seconds = Some 60, sca_every_seconds = None, sca_at = None\<rparr>"

lemma sample_decodes: "unmarshal dec_create_args sample_create = Some sample_args"
  by (simp add: sample_create_def sample_args_def unmarshal_def dec_object_def dec_create_args_def
      dec_string_def dec_int_ptr_def dec_any_def schedule_keys tool_lower_names in_int64_def)

lemma sample_op: "bounded_op (OpCreate sample_create 0)" "\<not> offset_op (OpCreate sample_create 0)"
  by (simp_all add: bounded_op_def bounded_create_def offset_op_def offset_create_def numeric_offset_def sample_decodes
      sample_args_def clock_ok_def instant_year_bounds)

lemma schedule_log_always_folds_witness:
  "\<exists>b recs seen. sched_run (\<lambda>z. None) [OpCreate sample_create 0, OpDispatch (61 * second_ns)] sample_session = GoOk b \<and>
    fold_schedule_events (durable_log b) 0 = GoOk (recs, seen)"
proof -
  have ops: "\<forall>x\<in>set [OpCreate sample_create 0, OpDispatch (61 * second_ns)]. bounded_op x"
    "\<not> (\<exists>x\<in>set [OpCreate sample_create 0, OpDispatch (61 * second_ns)]. offset_op x)"
    using sample_op by (simp_all add: bounded_op_def offset_op_def clock_ok_def instant_year_bounds)
  from schedule_log_always_folds [OF sample_unscheduled ops(1), of "\<lambda>z. None"] ops(2) show ?thesis
    by (auto split: go_result.splits)
qed

text \<open>The session after one creation: a reminder due a minute later.\<close>

definition sample_record :: schedule_record where
  "sample_record = \<lparr>sr_id = ''schedule-1'', sr_kind = ''after'', sr_prompt = ''tea'', sr_scheduled_at = 60 * second_ns,
     sr_after_seconds = 60, sr_every_seconds = 0\<rparr>"

definition tea_session :: agent where
  "tea_session = emit_change 0 (create_change sample_record) sample_session"

lemma tea_created: "sched_run (\<lambda>z. None) [OpCreate sample_create 0] sample_session = GoOk tea_session"
proof -
  have i: "allocate_schedule_id [] = ''schedule-1''"
    by (simp add: allocate_schedule_id_def allocate_from.simps) code_simp
  have t: "trim_space ''tea'' = ''tea''" by code_simp
  have inv: "sched_state sample_session = ([], [])" "sched_inv sample_session"
    using sample_schedules unscheduled_inv [OF sample_unscheduled] by (simp_all add: sched_state_def)
  have v: "validate_schedule_create sample_args = ([], [])" by (simp add: validate_schedule_create_def sample_args_def t)
  have n: "new_schedule (\<lambda>z. None) 0 ''schedule-1'' sample_args = GoOk (Inr sample_record)"
    by (simp add: new_schedule_def sample_args_def sample_record_def t wrap64_def instant_year_bounds not_less)
  show ?thesis using fold_schedules [OF inv(2)] v n i
    by (simp add: run_schedule_tool_def schedule_create_def with_fold_def sample_decodes inv(1) tea_session_def)
qed

lemma tea_session_facts: "healthy tea_session" "active tea_session = {sample_record}"
proof -
  have wf: "well_formed_new sample_record"
    by (simp add: well_formed_new_def sample_record_def instant_year_bounds in_int64_def) code_simp
  note dec = decode_durable_of [OF wf]
  have st: "as_stored sample_record = sample_record" by (simp add: sample_record_def truncate_ms_def)
  have s: "sched_state sample_session = ([], [])" by (simp add: sched_state_def sample_schedules)
  obtain fs where fs: "apply_schedule_change (create_change sample_record) (sched_state sample_session) = GoOk fs"
    "sane_fold fs" "active_set fs = {sample_record}"
    using apply_create [of "([], [])" "durable_of sample_record" sample_record "create_change sample_record"] dec sane_Nil
    unfolding s st by (auto simp: create_change_def active_set_def)
  have p: "proper_change (create_change sample_record)" using dec(2) by (simp add: proper_change_def create_change_def)
  from emit_change_keeps [OF unscheduled_inv [OF sample_unscheduled] p fs(1,2), of 0] sample_session_log(3) fs(3)
  show "healthy tea_session" "active tea_session = {sample_record}" unfolding tea_session_def by auto
qed

lemma dispatcher_comes_to_rest_witness:
  "\<exists>b ds d. dispatch_rounds 2 (61 * second_ns) tea_session = GoOk (b, ds, RoundWaits d) \<and>
    set (delivered_all ds) = {sample_record} \<and> due_records (61 * second_ns) (active b) = {}"
proof -
  have due: "due_records (61 * second_ns) (active tea_session) = {sample_record}"
    by (auto simp: tea_session_facts due_records_def sample_record_def)
  have c: "\<forall>x\<in>set [OpCreate sample_create 0]. bounded_op x" "clock_ok (61 * second_ns)"
    "\<forall>r\<in>active tea_session. 61 * second_ns - sr_scheduled_at r < 2 ^ 63"
    using sample_op by (simp_all add: tea_session_facts sample_record_def clock_ok_def instant_year_bounds)
  from dispatcher_comes_to_rest [OF sample_unscheduled c(1) tea_created tea_session_facts(1) c(2,3)] show ?thesis
    unfolding due by (auto simp: numeral_2_eq_2)
qed

section \<open>Where the promises are not kept\<close>

text \<open>
  \<open>every_seconds\<close> has no upper bound.  Where its product with a second is a multiple of \<open>2 ^ 64\<close> the
  first dispatch divides by zero, in every later fold as well; where the product is negative as a
  64-bit number the next occurrence lies in the past, so the rule is due again at once, for ever.
\<close>

lemma huge_interval_accepted:
  "validate_schedule_create \<lparr>sca_prompt = ''x'', sca_after_seconds = None, sca_every_seconds = Some (2 ^ 55), sca_at = None\<rparr> = ([], [])"
proof -
  have "trim_space ''x'' \<noteq> []" by code_simp
  then show ?thesis by (simp add: validate_schedule_create_def min_every_interval_seconds_def)
qed

lemma huge_interval_panics: "next_occurrence anchor (2 ^ 55) acc = GoPanics"
  by (simp add: next_occurrence_def wrap64_def)

lemma negative_interval_goes_back:
  "next_occurrence anchor 10000000000 anchor = GoOk (if 9999 < instant_year (anchor - 8446744073709551616) then None
     else Some (anchor - 8446744073709551616))"
  by (simp add: next_occurrence_def wrap64_def duration_sub_def in_int64_def go_div_def)

text \<open>A delay of more than 292 years wraps as well, here into the past.\<close>

lemma huge_delay_wraps:
  "new_schedule tz now i \<lparr>sca_prompt = ''x'', sca_after_seconds = Some 10000000000, sca_every_seconds = None, sca_at = None\<rparr> = GoOk (Inr rec) \<Longrightarrow>
     sr_scheduled_at rec < now"
  by (simp add: new_schedule_def Let_def wrap64_def split: if_splits) auto

text \<open>Any valid instant with a numeric offset makes \<open>schedule_create\<close> index out of range.\<close>

lemma numeric_offset_panics:
  assumes "offset_fields s = Some ((y, m, d), (hh, mm, ss, ms), zone)" and "zone \<noteq> ''Z''"
    and "y \<noteq> 0" and "normal_date y m d = (y, m, d)" and "hh \<le> 23" and "mm \<le> 59" and "ss \<le> 59"
  shows "parse_at_target tz (JStr s) now = GoPanics"
  using assms by (simp add: parse_at_target_def parse_offset_instant_def)

lemma numeric_offset_example: "parse_offset_instant ''2030-01-01T12:00:00+02:00'' = GoPanics"
  by code_simp

text \<open>
  A deletion that is appended between the dispatcher's look at the log and its own append makes
  the log corrupt, and it stays corrupt.
\<close>

lemma delete_races_dispatch:
  assumes "sched_inv a" and "rec \<in> active a" and "sch_operation c = ''dispatch''" and "sch_id c = sr_id rec"
    and "apply_schedule_change (delete_change (sr_id rec)) (sched_state a) = GoOk st"
  shows "\<exists>msg. apply_schedule_change c st = GoErr msg"
proof -
  from assms(1) have sane: "sane_fold (sched_state a)" by (auto elim: sched_invE)
  obtain st' where st': "apply_schedule_change (delete_change (sr_id rec)) (sched_state a) = GoOk st'" "sane_fold st'"
    "active_set st' = active a - {rec}"
    using apply_delete [OF sane assms(2), of "delete_change (sr_id rec)"] by (auto simp: delete_change_def)
  then have "st' = st" using assms(5) by simp
  moreover have "map_of (snd st') (sr_id rec) = None"
  proof (rule ccontr)
    assume "map_of (snd st') (sr_id rec) \<noteq> None"
    then obtain r where "map_of (snd st') (sr_id rec) = Some r" by auto
    with sane_map_of [OF st'(2)] st'(3) sane_ids [OF sane _ assms(2), of r] show False by auto
  qed
  ultimately show ?thesis using assms(3,4) by (cases st) (simp add: apply_schedule_change_def)
qed

text \<open>
  The batch shows an occurrence computed on whole seconds; it can lie after the decision, against
  the comment, when the fraction of the anchor is the larger one.
\<close>

lemma shown_occurrence_ahead:
  "latest_every_occurrence 900000000 300 300100000000 = 300900000000"
  "next_occurrence 900000000 300 300100000000 = GoOk (Some 300900000000)"
proof -
  have "instant_year 300900000000 \<le> 9999" by (simp add: instant_year_bounds)
  then show "next_occurrence 900000000 300 300100000000 = GoOk (Some 300900000000)"
    by (simp add: next_occurrence_def wrap64_def duration_sub_def in_int64_def go_div_def)
  show "latest_every_occurrence 900000000 300 300100000000 = 300900000000"
    by (simp add: latest_every_occurrence_def wrap64_def go_div_def)
qed

text \<open>The list is in the order of the ids as text, not of creation.\<close>

lemma tenth_before_second: "schedule_id 10 < schedule_id 2"
  by code_simp

text \<open>
  Once the store has lost an event, every round delivers the same reminders again: the follow-up is
  posted before the change is appended and the failure is ignored.
\<close>

lemma wedged_dispatcher_repeats:
  assumes "sched_inv a" and "clock_ok now" and "int (length (durable_log a)) < ag_seq_counter a"
    and "dispatch_round now a = GoOk (b, ds, RoundAgain)"
  shows "\<exists>c. dispatch_round now b = GoOk (c, ds, RoundAgain)"
proof -
  have wedged: "durable_log (emit_changes now cs x) = durable_log x \<and> log_inv (emit_changes now cs x)"
    if "log_inv x" "int (length (durable_log x)) < ag_seq_counter x" for cs x
    using that
  proof (induction cs arbitrary: x)
    case (Cons c cs)
    note st = agent_step_log [OF Cons.prems(1), of "OpEmit EventScheduleChange (AnyP (Some (change_json c))) None now"]
    then have "log_inv (emit_change now c x)" "durable_log (emit_change now c x) = durable_log x"
      "int (length (durable_log (emit_change now c x))) < ag_seq_counter (emit_change now c x)"
      using Cons.prems by auto
    with Cons.IH [of "emit_change now c x"] show ?case by simp
  qed simp
  from assms(1) have inv: "log_inv a" "durable_log a \<noteq> []" by (auto elim: sched_invE)
  from assms(4) obtain dec where b: "b = emit_changes now (dispatch_changes dec) a"
    by (auto simp: dispatch_round_def split: go_result.splits prod.splits due_decision.splits)
  with wedged [OF inv(1) assms(3), of "dispatch_changes dec"] have "durable_log b = durable_log a" "log_inv b" by simp_all
  then have "schedule_events b = schedule_events a" using schedule_events_durable inv by simp
  with assms(4) show ?thesis
    by (auto simp: dispatch_round_def split: go_result.splits prod.splits due_decision.splits)
qed

end
