(* ===== verification/Row_Store.thy ===== *)
theory Row_Store imports Packing_Roundtrip Go_Strings begin

text \<open>
  The tables of the SQLite store (\<open>pkg/storage/store_sqlite.go\<close>) and the operations on them, at
  the level of rows.  A statement is a function on the tables, a query a filter of the rows in
  the order of its \<open>ORDER BY\<close>; any statement may fail, which \<open>ss_faults\<close> scripts (one flag per
  coming statement).  A transaction that does not commit leaves the tables as it found them.
  Encoded data is carried as the JSON it encodes, as in \<open>Chunk_Packing\<close>.
\<close>

section \<open>Tables\<close>

record session_header =
  hd_version :: int
  hd_id :: string
  hd_created_at :: int
  hd_cwd :: string
  hd_parent_session :: string
  hd_seed_length :: int
  hd_origin :: string
  hd_delegation_depth :: int
  hd_agent_preset :: string

record session_row =
  sr_id :: string
  sr_version :: int
  sr_created_at :: int
  sr_cwd :: "string option"
  sr_parent_session :: "string option"
  sr_seed_length :: "int option"
  sr_origin :: "string option"
  sr_delegation_depth :: "int option"
  sr_agent_preset :: "string option"
  sr_incarnation :: string
  sr_revision :: int

record schema_object =
  so_type :: string
  so_name :: string
  so_tbl :: string
  so_sql :: string

text \<open>What the database file holds; the events table has the primary key \<open>(session_id, seq)\<close>.\<close>

record tables =
  tb_application_id :: int
  tb_user_version :: int
  tb_objects :: "schema_object list"
  tb_store_id :: "string option"
  tb_sessions :: "session_row list"
  tb_events :: "(string \<times> event_row) list"

record sqlite_store =
  ss_tables :: tables
  ss_identity :: string
  ss_schema_verified :: bool
  ss_faults :: "bool list"

datatype store_error =
    SqlFailed
  | ConstraintFailed
  | UnversionedSchema
  | BadSchemaVersion int
  | BadApplicationId int
  | BadSchemaObjects
  | NoStoreIdentity
  | SessionRowMissing string
  | SessionNotFound string
  | AppendSeq string int int
  | InvalidTail string int
  | RepairStale string int
  | RepairOmitted string int
  | CloserSeq string int int
  | RecordPanic storage_error
  | Unreadable storage_error

definition schema_version :: int where "schema_version = 17"
definition sqlite_application_id :: int where "sqlite_application_id = 0x44534850"

section \<open>Statements and transactions\<close>

type_synonym 'a tx = "sqlite_store \<Rightarrow> sqlite_store \<times> (store_error + 'a)"

definition tx_return :: "'a \<Rightarrow> 'a tx" where
  "tx_return x s = (s, Inr x)"

definition tx_fail :: "store_error \<Rightarrow> 'a tx" where
  "tx_fail e s = (s, Inl e)"

definition tx_bind :: "'a tx \<Rightarrow> ('a \<Rightarrow> 'b tx) \<Rightarrow> 'b tx" where
  "tx_bind m f s = (case m s of (s', Inl e) \<Rightarrow> (s', Inl e) | (s', Inr x) \<Rightarrow> f x s')"

definition tx_lift :: "store_error + 'a \<Rightarrow> 'a tx" where
  "tx_lift r s = (s, r)"

text \<open>One SQL statement: it fails when the script says so, or by a constraint.\<close>

definition sql_exec :: "(tables \<Rightarrow> tables option) \<Rightarrow> unit tx" where
  "sql_exec f s = (let s' = s\<lparr>ss_faults := tl (ss_faults s)\<rparr> in
     if ss_faults s \<noteq> [] \<and> hd (ss_faults s) then (s', Inl SqlFailed)
     else (case f (ss_tables s) of None \<Rightarrow> (s', Inl ConstraintFailed)
           | Some t \<Rightarrow> (s'\<lparr>ss_tables := t\<rparr>, Inr ())))"

definition sql_query :: "(tables \<Rightarrow> 'a) \<Rightarrow> 'a tx" where
  "sql_query f s = (let s' = s\<lparr>ss_faults := tl (ss_faults s)\<rparr> in
     if ss_faults s \<noteq> [] \<and> hd (ss_faults s) then (s', Inl SqlFailed) else (s', Inr (f (ss_tables s))))"

text \<open>\<open>beginImmediate\<close>, the body, \<open>Commit\<close>; every error rolls the tables back.\<close>

definition in_transaction :: "'a tx \<Rightarrow> 'a tx" where
  "in_transaction body s =
     (case sql_exec Some s of
        (s1, Inl e) \<Rightarrow> (s1, Inl e)
      | (s1, Inr _) \<Rightarrow>
          (case body s1 of
             (s2, Inl e) \<Rightarrow> (s2\<lparr>ss_tables := ss_tables s\<rparr>, Inl e)
           | (s2, Inr x) \<Rightarrow>
               (case sql_exec Some s2 of
                  (s3, Inl e) \<Rightarrow> (s3\<lparr>ss_tables := ss_tables s\<rparr>, Inl e)
                | (s3, Inr _) \<Rightarrow> (s3, Inr x))))"

section \<open>Schema ownership\<close>

text \<open>\<open>strings.Join(strings.Fields(v), " ")\<close>, for the ASCII spaces.\<close>

fun fields_loop :: "string \<Rightarrow> string \<Rightarrow> string list" where
  "fields_loop word [] = (if word = [] then [] else [word])"
| "fields_loop word (c # s) =
     (if c \<in> set [CHR '' '', CHR 0x09, CHR 0x0A, CHR 0x0B, CHR 0x0C, CHR 0x0D]
      then (if word = [] then fields_loop [] s else word # fields_loop [] s)
      else fields_loop (word @ [c]) s)"

fun join_words :: "string list \<Rightarrow> string" where
  "join_words [] = []"
| "join_words [w] = w"
| "join_words (w # ws) = w @ '' '' @ join_words ws"

definition normalize_sql :: "string \<Rightarrow> string" where
  "normalize_sql v = join_words (fields_loop [] v)"

definition schema_objects_of :: "tables \<Rightarrow> schema_object list" where
  "schema_objects_of t = map (\<lambda>o'. o'\<lparr>so_sql := normalize_sql (so_sql o')\<rparr>) (tb_objects t)"

text \<open>\<open>required\<close> is the object set of the in-memory reference database.\<close>

definition objects_match :: "schema_object list \<Rightarrow> schema_object list \<Rightarrow> bool" where
  "objects_match got want \<longleftrightarrow> length got = length want \<and> list_all2 (=) got want"

definition validate_required_schema_tx :: "schema_object list \<Rightarrow> unit tx" where
  "validate_required_schema_tx required =
     tx_bind (sql_query schema_objects_of) (\<lambda>got.
       if objects_match got required then tx_return () else tx_fail BadSchemaObjects)"

definition validate_schema_for_mutation :: "schema_object list \<Rightarrow> unit tx" where
  "validate_schema_for_mutation required =
     tx_bind (sql_query tb_application_id) (\<lambda>app.
       if app \<noteq> sqlite_application_id then tx_fail (BadApplicationId app)
       else tx_bind (sql_query schema_objects_of) (\<lambda>got.
         if \<not> objects_match got required then tx_fail BadSchemaObjects
         else tx_bind (sql_query tb_user_version) (\<lambda>version.
           if version \<noteq> schema_version then tx_fail (BadSchemaVersion version) else tx_return ())))"

text \<open>The schema is verified in full once; later batches only look at the application id.\<close>

definition verify_schema :: "schema_object list \<Rightarrow> unit tx" where
  "verify_schema required s =
     (if \<not> ss_schema_verified s then
        (case validate_schema_for_mutation required s of
           (s', Inl e) \<Rightarrow> (s', Inl e)
         | (s', Inr _) \<Rightarrow> (s'\<lparr>ss_schema_verified := True\<rparr>, Inr ()))
      else tx_bind (sql_query tb_application_id) (\<lambda>app.
        if app \<noteq> sqlite_application_id then tx_fail (BadApplicationId app) else tx_return ()) s)"

text \<open>\<open>ddl\<close> is what the schema script creates, \<open>fresh\<close> the new store id.\<close>

definition initialize_database_tx :: "schema_object list \<Rightarrow> string \<Rightarrow> unit tx" where
  "initialize_database_tx ddl fresh =
     tx_bind (sql_exec (\<lambda>t. Some (t\<lparr>tb_objects := tb_objects t @ ddl\<rparr>))) (\<lambda>_.
     tx_bind (sql_exec (\<lambda>t. if tb_store_id t \<noteq> None then None else Some (t\<lparr>tb_store_id := Some fresh\<rparr>))) (\<lambda>_.
     tx_bind (sql_exec (\<lambda>t. Some (t\<lparr>tb_application_id := sqlite_application_id\<rparr>))) (\<lambda>_.
       sql_exec (\<lambda>t. Some (t\<lparr>tb_user_version := schema_version\<rparr>)))))"

definition own_database_tx :: "schema_object list \<Rightarrow> schema_object list \<Rightarrow> string \<Rightarrow> unit tx" where
  "own_database_tx ddl required fresh =
     tx_bind (sql_query tb_user_version) (\<lambda>on_disk.
     tx_bind (sql_query tb_application_id) (\<lambda>app.
     tx_bind (sql_query (\<lambda>t. length (tb_objects t))) (\<lambda>objects.
       if on_disk = 0 \<and> (app \<noteq> 0 \<or> objects > 0) then tx_fail UnversionedSchema
       else if on_disk \<noteq> 0 \<and> on_disk \<noteq> schema_version then tx_fail (BadSchemaVersion on_disk)
       else if on_disk \<noteq> 0 \<and> app \<noteq> sqlite_application_id then tx_fail (BadApplicationId app)
       else tx_bind (if on_disk = 0 then initialize_database_tx ddl fresh else tx_return ()) (\<lambda>_.
         validate_required_schema_tx required))))"

definition configure_database :: "schema_object list \<Rightarrow> schema_object list \<Rightarrow> string \<Rightarrow> unit tx" where
  "configure_database ddl required fresh = in_transaction (own_database_tx ddl required fresh)"

section \<open>Session rows\<close>

definition nullable :: "string \<Rightarrow> string option" where
  "nullable s = (if s = [] then None else Some s)"

definition nullable_int :: "int \<Rightarrow> int option" where
  "nullable_int v = (if v = 0 then None else Some v)"

definition row_to_meta :: "session_row \<Rightarrow> session_header" where
  "row_to_meta r = \<lparr>hd_version = sr_version r, hd_id = sr_id r, hd_created_at = sr_created_at r,
     hd_cwd = (case sr_cwd r of Some s \<Rightarrow> s | None \<Rightarrow> []),
     hd_parent_session = (case sr_parent_session r of Some s \<Rightarrow> s | None \<Rightarrow> []),
     hd_seed_length = (case sr_seed_length r of Some n \<Rightarrow> n | None \<Rightarrow> 0),
     hd_origin = (case sr_origin r of Some s \<Rightarrow> s | None \<Rightarrow> []),
     hd_delegation_depth = (case sr_delegation_depth r of Some n \<Rightarrow> n | None \<Rightarrow> 0),
     hd_agent_preset = (case sr_agent_preset r of Some s \<Rightarrow> s | None \<Rightarrow> [])\<rparr>"

definition session_row_of :: "string \<Rightarrow> tables \<Rightarrow> session_row option" where
  "session_row_of sid t = find (\<lambda>r. sr_id r = sid) (tb_sessions t)"

text \<open>\<open>INSERT \<dots> ON CONFLICT(id) DO UPDATE\<close>: the incarnation and the revision of a known row stay.\<close>

definition overwrite_row :: "session_header \<Rightarrow> session_row \<Rightarrow> session_row" where
  "overwrite_row meta r = \<lparr>sr_id = sr_id r, sr_version = hd_version meta, sr_created_at = hd_created_at meta,
     sr_cwd = nullable (hd_cwd meta), sr_parent_session = nullable (hd_parent_session meta),
     sr_seed_length = nullable_int (hd_seed_length meta), sr_origin = nullable (hd_origin meta),
     sr_delegation_depth = nullable_int (hd_delegation_depth meta),
     sr_agent_preset = nullable (hd_agent_preset meta),
     sr_incarnation = sr_incarnation r, sr_revision = sr_revision r\<rparr>"

definition blank_row :: "string \<Rightarrow> string \<Rightarrow> session_row" where
  "blank_row sid fresh = \<lparr>sr_id = sid, sr_version = 0, sr_created_at = 0, sr_cwd = None,
     sr_parent_session = None, sr_seed_length = None, sr_origin = None, sr_delegation_depth = None,
     sr_agent_preset = None, sr_incarnation = fresh, sr_revision = 0\<rparr>"

definition upsert_session :: "session_header \<Rightarrow> string \<Rightarrow> session_row list \<Rightarrow> session_row list" where
  "upsert_session meta fresh rows =
     (if find (\<lambda>r. sr_id r = hd_id meta) rows = None
      then rows @ [overwrite_row meta (blank_row (hd_id meta) fresh)]
      else map (\<lambda>r. if sr_id r = hd_id meta then overwrite_row meta r else r) rows)"

definition write_session_row_tx :: "session_header \<Rightarrow> string \<Rightarrow> unit tx" where
  "write_session_row_tx meta fresh =
     sql_exec (\<lambda>t. Some (t\<lparr>tb_sessions := upsert_session meta fresh (tb_sessions t)\<rparr>))"

definition session_row_tx :: "string \<Rightarrow> session_row option tx" where
  "session_row_tx sid = sql_query (session_row_of sid)"

definition ensure_session_row_tx :: "session_header \<Rightarrow> unit tx" where
  "ensure_session_row_tx meta =
     tx_bind (session_row_tx (hd_id meta)) (\<lambda>row.
       if row = None then tx_fail (SessionRowMissing (hd_id meta)) else tx_return ())"

definition bump_revision :: "string \<Rightarrow> session_row list \<Rightarrow> session_row list" where
  "bump_revision sid = map (\<lambda>r. if sr_id r = sid then r\<lparr>sr_revision := sr_revision r + 1\<rparr> else r)"

definition increment_revision_tx :: "string \<Rightarrow> unit tx" where
  "increment_revision_tx sid =
     tx_bind (sql_query (\<lambda>t. length (filter (\<lambda>r. sr_id r = sid) (tb_sessions t)))) (\<lambda>n s.
       (s\<lparr>ss_tables := (ss_tables s)\<lparr>tb_sessions := bump_revision sid (tb_sessions (ss_tables s))\<rparr>\<rparr>,
        if n \<noteq> 1 then Inl (SessionRowMissing sid) else Inr ()))"

definition revision_of :: "sqlite_store \<Rightarrow> session_row \<Rightarrow> string" where
  "revision_of s r = ss_identity s @ '':incarnation:'' @ sr_incarnation r @ '':revision:'' @ itoa (sr_revision r)"

section \<open>Event rows\<close>

text \<open>The rows of a session in the order of their seq.\<close>

definition session_rows :: "string \<Rightarrow> tables \<Rightarrow> event_row list" where
  "session_rows sid t = sort_key er_seq (map snd (filter (\<lambda>r. fst r = sid) (tb_events t)))"

definition rows_from :: "string \<Rightarrow> int \<Rightarrow> tables \<Rightarrow> event_row list" where
  "rows_from sid from_seq t = filter (\<lambda>r. from_seq \<le> er_seq r) (session_rows sid t)"

definition select_events :: "string \<Rightarrow> int \<Rightarrow> event_row list tx" where
  "select_events sid from_seq =
     sql_query (if from_seq = 0 then session_rows sid else rows_from sid from_seq)"

definition query_packed_predecessors :: "string \<Rightarrow> int \<Rightarrow> int \<Rightarrow> event_row list tx" where
  "query_packed_predecessors sid flr from_seq =
     sql_query (\<lambda>t. filter (\<lambda>r. flr \<le> er_seq r \<and> er_seq r < from_seq \<and> er_type r \<in> set packed_tags \<and>
       er_ignorable r = Some 0) (session_rows sid t))"

fun span_base :: "int \<Rightarrow> int \<Rightarrow> event_row list \<Rightarrow> int" where
  "span_base from_seq base [] = base"
| "span_base from_seq base (p # ps) =
     span_base from_seq
       (case decode_row p of
          Inl _ \<Rightarrow> (if er_seq p < base then er_seq p else base)
        | Inr es \<Rightarrow> (if es \<noteq> [] \<and> from_seq \<le> env_seq (last es) \<and> er_seq p < base then er_seq p else base)) ps"

definition physical_span_from :: "string \<Rightarrow> int \<Rightarrow> (int \<times> event_row list) tx" where
  "physical_span_from sid from_seq =
     (let flr = max 0 (from_seq - int max_packed_row_members + 1)
      in tx_bind (query_packed_predecessors sid flr from_seq) (\<lambda>preds.
         let base = span_base from_seq from_seq preds
         in tx_bind (select_events sid base) (\<lambda>rows. tx_return (base, rows))))"

definition logical_last_event_tx :: "string \<Rightarrow> session_envelope option tx" where
  "logical_last_event_tx sid =
     tx_bind (sql_query (\<lambda>t. rev (take 2 (rev (session_rows sid t))))) (\<lambda>tail.
       if tail = [] then tx_return None
       else (let flr = max 0 (er_seq (hd tail) - int max_packed_row_members + 1)
             in tx_bind (sql_query (rows_from sid flr)) (\<lambda>span.
                case scan_rows span (er_seq (hd span)) of
                  Inl e \<Rightarrow> tx_fail (Unreadable e)
                | Inr (preserved, Some torn) \<Rightarrow> tx_fail (InvalidTail sid torn)
                | Inr (preserved, None) \<Rightarrow>
                    tx_return (if preserved = [] then None else Some (last preserved)))))"

definition scan_all_rows_tx :: "string \<Rightarrow> (session_envelope list \<times> int option) tx" where
  "scan_all_rows_tx sid =
     tx_bind (sql_query (session_rows sid)) (\<lambda>rows. tx_lift (map_sum Unreadable id (scan_rows rows 0)))"

definition delete_events_from_tx :: "string \<Rightarrow> int \<Rightarrow> unit tx" where
  "delete_events_from_tx sid from_seq =
     sql_exec (\<lambda>t. Some (t\<lparr>tb_events := filter (\<lambda>r. \<not> (fst r = sid \<and> from_seq \<le> er_seq (snd r))) (tb_events t)\<rparr>))"

text \<open>An insert needs a free primary key and, with foreign keys on, the row of its session.\<close>

definition insert_row :: "string \<Rightarrow> event_row \<Rightarrow> tables \<Rightarrow> tables option" where
  "insert_row sid row t =
     (if list_ex (\<lambda>r. fst r = sid \<and> er_seq (snd r) = er_seq row) (tb_events t) \<or> session_row_of sid t = None
      then None else Some (t\<lparr>tb_events := tb_events t @ [(sid, row)]\<rparr>))"

definition insert_record_tx :: "string \<Rightarrow> storage_record \<Rightarrow> unit tx" where
  "insert_record_tx sid rec =
     (case bind_record rec of
        Inl e \<Rightarrow> tx_fail (RecordPanic e)
      | Inr row \<Rightarrow> sql_exec (insert_row sid row))"

fun insert_records :: "string \<Rightarrow> storage_record list \<Rightarrow> unit tx" where
  "insert_records sid [] = tx_return ()"
| "insert_records sid (r # rs) = tx_bind (insert_record_tx sid r) (\<lambda>_. insert_records sid rs)"

section \<open>Appending and repairing\<close>

definition next_seq :: "session_envelope option \<Rightarrow> int" where
  "next_seq lst = (case lst of None \<Rightarrow> 0 | Some e \<Rightarrow> env_seq e + 1)"

definition sqlite_append_batch ::
  "schema_object list \<Rightarrow> string \<Rightarrow> session_header \<Rightarrow> session_envelope list \<Rightarrow> bool \<Rightarrow> unit tx" where
  "sqlite_append_batch required fresh meta events is_materialized =
     (if events = [] then tx_return ()
      else in_transaction
        (tx_bind (verify_schema required) (\<lambda>_.
         tx_bind (if is_materialized then ensure_session_row_tx meta else write_session_row_tx meta fresh) (\<lambda>_.
         tx_bind (logical_last_event_tx (hd_id meta)) (\<lambda>lst.
           if env_seq (hd events) \<noteq> next_seq lst
           then tx_fail (AppendSeq (hd_id meta) (env_seq (hd events)) (next_seq lst))
           else tx_bind (insert_records (hd_id meta) (pack_chunk_runs events)) (\<lambda>_.
             increment_revision_tx (hd_id meta)))))))"

definition append_events ::
  "schema_object list \<Rightarrow> string \<Rightarrow> session_header \<Rightarrow> session_envelope list \<Rightarrow> unit tx" where
  "append_events required fresh meta events = sqlite_append_batch required fresh meta events False"

text \<open>The truncation of \<open>commitRepair\<close>, or its check that there is nothing to truncate.\<close>

definition truncate_torn :: "string \<Rightarrow> int option \<Rightarrow> int option \<Rightarrow> unit tx" where
  "truncate_torn sid torn_marker torn_from =
     (case torn_marker of
        Some m \<Rightarrow> (if torn_from \<noteq> Some m then tx_fail (RepairStale sid m) else delete_events_from_tx sid m)
      | None \<Rightarrow> (case torn_from of Some t \<Rightarrow> tx_fail (RepairOmitted sid t) | None \<Rightarrow> tx_return ()))"

definition append_closers :: "string \<Rightarrow> session_envelope list \<Rightarrow> session_envelope list \<Rightarrow> unit tx" where
  "append_closers sid current closers =
     (if closers = [] then tx_return ()
      else (let expected = (if current = [] then 0 else env_seq (last current) + 1)
            in if env_seq (hd closers) \<noteq> expected
               then tx_fail (CloserSeq sid (env_seq (hd closers)) expected)
               else insert_records sid (map Scalar closers)))"

definition commit_repair ::
  "schema_object list \<Rightarrow> session_header \<Rightarrow> int option \<Rightarrow> session_envelope list \<Rightarrow> unit tx" where
  "commit_repair required meta torn_marker closers =
     (if torn_marker = None \<and> closers = [] then tx_return ()
      else in_transaction
        (tx_bind (validate_schema_for_mutation required) (\<lambda>_.
         tx_bind (session_row_tx (hd_id meta)) (\<lambda>row.
           if row = None then tx_fail (SessionRowMissing (hd_id meta))
           else tx_bind (scan_all_rows_tx (hd_id meta)) (\<lambda>(current, torn_from).
             tx_bind (truncate_torn (hd_id meta) torn_marker torn_from) (\<lambda>_.
             tx_bind (append_closers (hd_id meta) current closers) (\<lambda>_.
               increment_revision_tx (hd_id meta))))))))"

section \<open>Sessions\<close>

definition put_session :: "schema_object list \<Rightarrow> string \<Rightarrow> session_header \<Rightarrow> unit tx" where
  "put_session required fresh meta = in_transaction
     (tx_bind (validate_schema_for_mutation required) (\<lambda>_. write_session_row_tx meta fresh))"

text \<open>With foreign keys on, deleting a session would also cascade to its events.\<close>

definition delete_session :: "string \<Rightarrow> unit tx" where
  "delete_session sid = in_transaction
     (tx_bind (sql_exec (\<lambda>t. Some (t\<lparr>tb_events := filter (\<lambda>r. fst r \<noteq> sid) (tb_events t)\<rparr>))) (\<lambda>_.
      sql_exec (\<lambda>t. Some (t\<lparr>tb_sessions := filter (\<lambda>r. sr_id r \<noteq> sid) (tb_sessions t)\<rparr>))))"

definition get_session :: "string \<Rightarrow> session_header tx" where
  "get_session sid = tx_bind (session_row_tx sid) (\<lambda>row.
     case row of None \<Rightarrow> tx_fail (SessionNotFound sid) | Some r \<Rightarrow> tx_return (row_to_meta r))"

definition list_sessions :: "session_header list tx" where
  "list_sessions = tx_bind (sql_query tb_sessions) (\<lambda>rows. tx_return (map row_to_meta rows))"

section \<open>Reading events\<close>

record stored_prefix =
  sp_meta :: session_header
  sp_events :: "session_envelope list"
  sp_revision :: string
  sp_torn_marker :: "int option"

definition load_stored :: "string \<Rightarrow> stored_prefix option tx" where
  "load_stored sid = tx_bind (session_row_tx sid) (\<lambda>row. case row of
      None \<Rightarrow> tx_return None
    | Some r \<Rightarrow> tx_bind (select_events sid 0) (\<lambda>rows s. case scan_rows rows 0 of
          Inl e \<Rightarrow> (s, Inl (Unreadable e))
        | Inr (preserved, torn) \<Rightarrow> (s, Inr (Some \<lparr>sp_meta = row_to_meta r, sp_events = preserved,
            sp_revision = revision_of s r, sp_torn_marker = torn\<rparr>))))"

definition read_stored_revision :: "string \<Rightarrow> string tx" where
  "read_stored_revision sid = tx_bind (session_row_tx sid) (\<lambda>row s.
     (s, Inr (case row of None \<Rightarrow> [] | Some r \<Rightarrow> revision_of s r)))"

definition sqlite_get_events :: "string \<Rightarrow> int \<Rightarrow> session_envelope list tx" where
  "sqlite_get_events sid from_seq =
     tx_bind (physical_span_from sid from_seq) (\<lambda>(base, rows). case scan_rows rows base of
        Inl e \<Rightarrow> tx_fail (Unreadable e)
      | Inr (preserved, torn) \<Rightarrow> tx_return (filter (\<lambda>e. from_seq \<le> env_seq e) preserved))"

definition load_stored_from :: "string \<Rightarrow> int \<Rightarrow> (session_header \<times> session_envelope list) option tx" where
  "load_stored_from sid from_seq = tx_bind (session_row_tx sid) (\<lambda>row. case row of
      None \<Rightarrow> tx_return None
    | Some r \<Rightarrow> tx_bind (physical_span_from sid from_seq) (\<lambda>(base, rows). case scan_rows rows base of
          Inl e \<Rightarrow> tx_fail (Unreadable e)
        | Inr (preserved, torn) \<Rightarrow>
            tx_return (Some (row_to_meta r, filter (\<lambda>e. from_seq \<le> env_seq e) preserved))))"

end
