(* ===== verification/Row_Store_Laws.thy ===== *)
theory Row_Store_Laws imports Row_Store begin

text \<open>
  The laws of the rows of a session: what a readable row spans, where the row of a logical
  event lies, which rows a suffix query has to start from, and what binding and inserting a
  batch adds.  Then the laws of statements and transactions.
\<close>

section \<open>The span of a row\<close>

lemma expand_members_shape:
  "length (expand_members mk sq t dts ms) = length ms \<and> check_contiguous sq (expand_members mk sq t dts ms)"
  by (induction mk sq t dts ms rule: expand_members.induct) (simp_all add: new_envelope_def)

lemma chunk_row_shape:
  assumes "decode_serialized_chunk_row tag sq t raw = Inr es"
  shows "es \<noteq> [] \<and> check_contiguous sq es \<and> length es \<le> max_packed_row_members"
proof -
  from assms obtain mk dts ms where "es = expand_members mk sq t dts ms"
    "min_packed_row_members \<le> length ms" "length ms \<le> max_packed_row_members"
    unfolding decode_serialized_chunk_row_def Let_def
    by (auto split: if_splits option.splits simp: not_less)
  with expand_members_shape [of mk sq t dts ms] show ?thesis
    by (auto simp: min_packed_row_members_def)
qed

lemma scalar_row_seq: "decode_scalar_row row = Inr e \<Longrightarrow> env_seq e = er_seq row"
  by (auto simp: decode_scalar_row_def and_then_Inr_iff)

text \<open>A row of a packed type is marked as packed; \<open>queryPackedPredecessors\<close> relies on it.\<close>

definition tagged :: "event_row \<Rightarrow> bool" where
  "tagged row \<longleftrightarrow> (er_type row \<in> set packed_tags \<longrightarrow> er_ignorable row \<noteq> None)"

lemma decode_row_shape:
  assumes "decode_row row = Inr es"
  shows "es \<noteq> [] \<and> check_contiguous (er_seq row) es \<and> length es \<le> max_packed_row_members \<and>
    (length es = 1 \<or> \<not> tagged row \<or> er_type row \<in> set packed_tags \<and> er_ignorable row = Some 0)"
  using assms
  by (auto simp: decode_row_def and_then_Inr_iff max_packed_row_members_def tagged_def
      dest: scalar_row_seq chunk_row_shape split: if_splits)

lemma check_contiguous_hd: "check_contiguous n es \<Longrightarrow> es \<noteq> [] \<Longrightarrow> env_seq (hd es) = n"
  by (cases es) auto

lemma check_contiguous_nth: "check_contiguous n es \<Longrightarrow> k < length es \<Longrightarrow> env_seq (es ! k) = n + int k"
  by (induction es arbitrary: n k) (auto simp: nth_Cons split: nat.split)

lemma check_contiguous_last:
  "check_contiguous n es \<Longrightarrow> es \<noteq> [] \<Longrightarrow> env_seq (last es) = n + int (length es) - 1"
  by (simp add: last_conv_nth check_contiguous_nth of_nat_diff Suc_le_eq)

lemma filter_contiguous:
  "check_contiguous n es \<Longrightarrow> filter (\<lambda>e. f \<le> env_seq e) es = drop (nat (f - n)) es"
proof (induction es arbitrary: n)
  case (Cons e es)
  show ?case
  proof (cases "f \<le> n")
    case True
    from Cons.prems have "check_contiguous (n + 1) es" "env_seq e = n" by simp_all
    with Cons.IH [of "n + 1"] True show ?thesis by simp
  next
    case False
    then have "nat (f - n) = Suc (nat (f - (n + 1)))" by simp
    with Cons False show ?thesis by simp
  qed
qed simp

section \<open>Readable sessions\<close>

text \<open>\<open>rows\<close> are read as the contiguous events \<open>es\<close> from number \<open>n\<close>.\<close>

definition reads :: "int \<Rightarrow> event_row list \<Rightarrow> session_envelope list \<Rightarrow> bool" where
  "reads n rows es \<longleftrightarrow> decode_rows rows = Inr es \<and> check_contiguous n es \<and> (\<forall>r\<in>set rows. tagged r)"

lemma reads_Nil [simp]: "reads n [] es \<longleftrightarrow> es = []"
  by (auto simp: reads_def)

lemma reads_append:
  "reads n (xs @ ys) es \<longleftrightarrow> (\<exists>a b. es = a @ b \<and> reads n xs a \<and> reads (n + int (length a)) ys b)"
  by (auto simp: reads_def decode_rows_append and_then_Inr_iff check_contiguous_append)

lemma reads_Cons:
  "reads n (r # rs) es \<longleftrightarrow>
    (\<exists>a b. es = a @ b \<and> decode_row r = Inr a \<and> tagged r \<and> er_seq r = n \<and> reads (n + int (length a)) rs b)"
  (is "?L = ?R")
proof
  assume ?L
  then obtain a b where "decode_row r = Inr a" "decode_rows rs = Inr b" "es = a @ b"
    "check_contiguous n (a @ b)" "tagged r" "\<forall>r\<in>set rs. tagged r"
    by (auto simp: reads_def and_then_Inr_iff)
  with decode_row_shape [of r a] check_contiguous_hd [of n a] check_contiguous_hd [of "er_seq r" a] show ?R
    by (auto simp: reads_def check_contiguous_append)
next
  assume ?R
  then show ?L using decode_row_shape [of r] by (fastforce simp: reads_def and_then_Inr_iff check_contiguous_append)
qed

lemma reads_bounds:
  "reads n rows es \<Longrightarrow> r \<in> set rows \<Longrightarrow> n \<le> er_seq r \<and> er_seq r < n + int (length es)"
proof (induction rows arbitrary: n es)
  case (Cons x xs)
  from Cons.prems(1) obtain a b where x: "es = a @ b" "decode_row x = Inr a" "er_seq x = n"
    "reads (n + int (length a)) xs b" by (auto simp: reads_Cons)
  from decode_row_shape [OF x(2)] have "0 < length a" by simp
  then have "0 < int (length a) + int (length b)" by linarith
  with Cons.IH [OF x(4)] Cons.prems(2) x show ?case by (cases "r = x") auto
qed simp

lemma reads_nonempty: "reads n rows es \<Longrightarrow> rows \<noteq> [] \<longleftrightarrow> es \<noteq> []"
  by (cases rows) (auto simp: reads_Cons dest: decode_row_shape)

lemma reads_sorted: "reads n rows es \<Longrightarrow> sorted (map er_seq rows)"
proof (induction rows arbitrary: n es)
  case (Cons x xs)
  from Cons.prems obtain a b where x: "es = a @ b" "er_seq x = n" "reads (n + int (length a)) xs b"
    by (auto simp: reads_Cons)
  with Cons.IH [OF x(3)] reads_bounds [OF x(3)] show ?case by fastforce
qed simp

lemma reads_suffix:
  assumes "reads n (pre @ row # suf) es"
  shows "filter (\<lambda>r. er_seq row \<le> er_seq r) (pre @ row # suf) = row # suf"
proof -
  from assms obtain a b where ab: "reads n pre a" "reads (n + int (length a)) (row # suf) b"
    by (auto simp: reads_append)
  then have row: "er_seq row = n + int (length a)" by (auto simp: reads_Cons)
  from reads_bounds [OF ab(1)] row have "filter (\<lambda>r. er_seq row \<le> er_seq r) pre = []"
    by (fastforce simp: filter_empty_conv)
  moreover have "filter (\<lambda>r. er_seq row \<le> er_seq r) (row # suf) = row # suf"
    using reads_bounds [OF ab(2)] row by (simp add: filter_id_conv)
  ultimately show ?thesis by simp
qed

text \<open>The row that holds the event with index \<open>k\<close>.\<close>

lemma reads_locate:
  assumes "reads n rows es" and "k < length es"
  obtains pre row suf a b where "rows = pre @ row # suf" "reads n pre a" "decode_row row = Inr b"
    "tagged row" "er_seq row = n + int (length a)" "length a \<le> k" "k < length a + length b"
  using assms
proof (induction rows arbitrary: n es k thesis)
  case (Cons r rs)
  from Cons.prems(2) obtain a b where r: "es = a @ b" "decode_row r = Inr a" "tagged r" "er_seq r = n"
    "reads (n + int (length a)) rs b" by (auto simp: reads_Cons)
  show ?case
  proof (cases "k < length a")
    case True
    show ?thesis by (rule Cons.prems(1) [of "[]" r rs "[]" a]) (use r True in auto)
  next
    case False
    with r Cons.prems(3) have "k - length a < length b" by simp
    then obtain pre row suf c d where *: "rs = pre @ row # suf" "reads (n + int (length a)) pre c"
      "decode_row row = Inr d" "tagged row" "er_seq row = n + int (length a) + int (length c)"
      "length c \<le> k - length a" "k - length a < length c + length d" using Cons.IH [OF _ r(5)] by blast
    show ?thesis
      by (rule Cons.prems(1) [of "r # pre" row suf "a @ c" d]) (use r * False in \<open>auto simp: reads_Cons\<close>)
  qed
qed simp

text \<open>Reading a readable span gives all of it, whatever number it starts from.\<close>

lemma scan_reads: "reads n rows es \<Longrightarrow> scan_rows rows n = Inr (es, None)"
  unfolding reads_def scan_rows_def using scan_loop_complete [of rows es n] by simp

section \<open>Binding a batch\<close>

lemma emit_scalars:
  "Scalar e \<in> set (emit_bounded_run kind run) \<Longrightarrow> e \<in> set run"
proof (induction kind run rule: emit_bounded_run.induct)
  case (1 kind run)
  note eq = emit_bounded_run.simps [of kind run]
  let ?high = "min (length run) max_packed_row_members"
  let ?acc = "search_accepted kind run min_packed_row_members ?high 0"
  show ?case
  proof (cases "min_packed_row_members \<le> length run")
    case False
    with 1(4) eq show ?thesis by auto
  next
    case long: True
    then have ne: "run \<noteq> []" by (auto simp: min_packed_row_members_def)
    show ?thesis
    proof (cases "row_fits kind run ?high")
      case True
      with 1(1) [OF long refl True] 1(4) eq long show ?thesis by (auto simp: Let_def dest: in_set_dropD)
    next
      case False
      show ?thesis
      proof (cases "?acc = 0")
        case True
        with 1(2) [OF long refl False refl True] 1(4) eq long False ne show ?thesis
          by (auto simp: Let_def dest: list.set_sel(2))
      next
        case acc: False
        with 1(3) [OF long refl False refl acc] 1(4) eq long False show ?thesis
          by (auto simp: Let_def dest: in_set_dropD)
      qed
    qed
  qed
qed

lemma flush_scalars: "Scalar e \<in> set (flush_run kind run) \<Longrightarrow> e \<in> set run"
  by (auto simp: flush_run_def split: if_splits dest: emit_scalars)

lemma pack_scalars: "Scalar e \<in> set (pack_loop kind run es) \<Longrightarrow> e \<in> set (run @ es)"
  by (induction kind run es rule: pack_loop.induct)
    (auto simp: Let_def split: if_splits dest: flush_scalars)

lemma bind_record_tagged:
  assumes "bind_record rec = Inr row" and "\<forall>e. rec = Scalar e \<longrightarrow> env_type e \<notin> set packed_tags"
  shows "tagged row"
  using assms by (cases rec) (auto simp: bind_record_def tagged_def and_then_Inr_iff)

lemma bind_records_tagged:
  assumes "bind_records recs = Inr rows" and "\<forall>e. Scalar e \<in> set recs \<longrightarrow> env_type e \<notin> set packed_tags"
  shows "\<forall>r\<in>set rows. tagged r"
  using assms
proof (induction recs arbitrary: rows)
  case (Cons rec recs)
  then obtain row rest where *: "bind_record rec = Inr row" "bind_records recs = Inr rest" "rows = row # rest"
    by (auto simp: and_then_Inr_iff)
  have "tagged row" by (rule bind_record_tagged [OF *(1)]) (use Cons.prems(2) in auto)
  with Cons.IH [OF *(2)] Cons.prems(2) * show ?case by auto
qed simp

lemma stored_reads:
  assumes "stored_as recs es" and "\<forall>e. Scalar e \<in> set recs \<longrightarrow> env_type e \<notin> set packed_tags"
    and "check_contiguous n es"
  obtains rows es' where "bind_records recs = Inr rows" "reads n rows es'" "list_all2 read_back es es'"
proof -
  from assms(1) obtain rows es' where r: "bind_records recs = Inr rows" "decode_rows rows = Inr es'"
    "list_all2 read_back es es'" by (auto simp: stored_as_def)
  with bind_records_tagged [OF r(1) assms(2)] assms(3) check_contiguous_read_back [OF r(3)]
  have "reads n rows es'" by (simp add: reads_def)
  with r that show ?thesis by blast
qed

lemma packed_batch_reads:
  assumes "\<forall>e\<in>set es. storable e" and "check_contiguous n es"
  obtains rows es' where "bind_records (pack_chunk_runs es) = Inr rows" "reads n rows es'" "list_all2 read_back es es'"
proof (rule stored_reads)
  show "stored_as (pack_chunk_runs es) es"
    unfolding pack_chunk_runs_def using stored_as_pack_loop [of "[]" "[]" es] assms(1) by simp
  show "\<forall>e. Scalar e \<in> set (pack_chunk_runs es) \<longrightarrow> env_type e \<notin> set packed_tags"
    using assms(1) pack_scalars [of _ "[]" "[]" es] by (auto simp: pack_chunk_runs_def storable_def)
qed (use assms that in auto)

lemma scalar_batch_reads:
  assumes "\<forall>e\<in>set es. storable e" and "check_contiguous n es"
  obtains rows es' where "bind_records (map Scalar es) = Inr rows" "reads n rows es'" "list_all2 read_back es es'"
  by (rule stored_reads [OF stored_as_scalars [OF assms(1)] _ assms(2)]) (use assms that in \<open>auto simp: storable_def\<close>)

section \<open>Rows of a session in the table\<close>

lemma sort_key_append:
  fixes f :: "'a \<Rightarrow> 'b::linorder"
  assumes "sorted (map f ys)" and "\<And>x y. x \<in> set xs \<Longrightarrow> y \<in> set ys \<Longrightarrow> f x < f y"
  shows "sort_key f (xs @ ys) = sort_key f xs @ ys"
proof (rule properties_for_sort_key)
  show "mset (sort_key f xs @ ys) = mset (xs @ ys)" by simp
  show "filter (\<lambda>x. f k = f x) (sort_key f xs @ ys) = filter (\<lambda>x. f k = f x) (xs @ ys)" for k
    using sort_key_stable [of f "f k" xs] by (simp add: eq_commute [of "f k"])
  show "sorted (map f (sort_key f xs @ ys))"
    using assms by (auto simp: sorted_append intro: less_imp_le)
qed

lemma sort_key_filter_prefix:
  fixes f :: "'a \<Rightarrow> 'b::linorder"
  assumes "sort_key f xs = pre @ suf" and "\<And>x. x \<in> set pre \<Longrightarrow> f x < m" and "\<And>x. x \<in> set suf \<Longrightarrow> m \<le> f x"
  shows "sort_key f (filter (\<lambda>x. f x < m) xs) = pre"
proof -
  have "sort_key f (filter (\<lambda>x. f x < m) xs) = filter (\<lambda>x. f x < m) (sort_key f xs)"
    by (simp add: filter_sort)
  also have "\<dots> = pre"
    using assms(2,3) unfolding assms(1) by (auto simp: filter_id_conv filter_empty_conv not_less)
  finally show ?thesis .
qed

lemma session_rows_other:
  "sid \<noteq> sid' \<Longrightarrow> session_rows sid (t\<lparr>tb_events := tb_events t @ map (Pair sid') rows\<rparr>) = session_rows sid t"
  by (simp add: session_rows_def filter_map o_def)

lemma session_rows_append:
  assumes "reads 0 (session_rows sid t) es" and "reads (int (length es)) rows es'"
  shows "session_rows sid (t\<lparr>tb_events := tb_events t @ map (Pair sid) rows\<rparr>) = session_rows sid t @ rows"
proof -
  let ?old = "map snd (filter (\<lambda>r. fst r = sid) (tb_events t))"
  have "sort_key er_seq (?old @ rows) = sort_key er_seq ?old @ rows"
  proof (rule sort_key_append [OF reads_sorted [OF assms(2)]])
    fix x y assume "x \<in> set ?old" "y \<in> set rows"
    then have "x \<in> set (session_rows sid t)" by (simp add: session_rows_def)
    with reads_bounds [OF assms(1)] reads_bounds [OF assms(2) \<open>y \<in> set rows\<close>]
    show "er_seq x < er_seq y" by fastforce
  qed
  then show ?thesis by (simp add: session_rows_def filter_map o_def)
qed

lemma session_rows_truncate:
  assumes "session_rows sid t = pre @ suf" and "\<And>x. x \<in> set pre \<Longrightarrow> er_seq x < m" and "\<And>x. x \<in> set suf \<Longrightarrow> m \<le> er_seq x"
  shows "session_rows sid (t\<lparr>tb_events := filter (\<lambda>r. \<not> (fst r = sid \<and> m \<le> er_seq (snd r))) (tb_events t)\<rparr>) = pre"
proof -
  have "map snd (filter (\<lambda>r. fst r = sid \<and> er_seq (snd r) < m) (tb_events t)) =
      filter (\<lambda>r. er_seq r < m) (map snd (filter (\<lambda>r. fst r = sid) (tb_events t)))"
    by (simp add: filter_map o_def conj_commute)
  moreover have "filter (\<lambda>r. fst r = sid) (filter (\<lambda>r. \<not> (fst r = sid \<and> m \<le> er_seq (snd r))) (tb_events t)) =
      filter (\<lambda>r. fst r = sid \<and> er_seq (snd r) < m) (tb_events t)"
    by (auto intro: filter_cong)
  ultimately show ?thesis
    using sort_key_filter_prefix [OF assms(1) [unfolded session_rows_def] assms(2,3)]
    by (simp add: session_rows_def)
qed

section \<open>Statements\<close>

lemma tx_run [simp]:
  "tx_return x s = (s, Inr x)" "tx_fail e s = (s, Inl e)" "tx_lift r s = (s, r)"
  by (simp_all add: tx_return_def tx_fail_def tx_lift_def)

lemma tx_bind_Inr_iff:
  "tx_bind m f s = (s', Inr y) \<longleftrightarrow> (\<exists>s1 x. m s = (s1, Inr x) \<and> f x s1 = (s', Inr y))"
  by (auto simp: tx_bind_def split: prod.splits sum.splits)

lemma tx_bind_step: "m s = (s1, Inr x) \<Longrightarrow> tx_bind m f s = f x s1"
  by (simp add: tx_bind_def)

lemma no_fault_update: "ss_faults s = [] \<Longrightarrow> s\<lparr>ss_faults := []\<rparr> = s"
  by (cases s) simp

lemma sql_query_quiet [simp]: "ss_faults s = [] \<Longrightarrow> sql_query f s = (s, Inr (f (ss_tables s)))"
  by (simp add: sql_query_def Let_def no_fault_update)

lemma sql_exec_quiet [simp]:
  "ss_faults s = [] \<Longrightarrow> f (ss_tables s) = Some t \<Longrightarrow> sql_exec f s = (s\<lparr>ss_tables := t\<rparr>, Inr ())"
  by (simp add: sql_exec_def Let_def no_fault_update)

lemma sql_query_Inr: "sql_query f s = (s', Inr x) \<Longrightarrow> x = f (ss_tables s) \<and> ss_tables s' = ss_tables s"
  by (auto simp: sql_query_def Let_def split: if_splits)

lemma sql_exec_Inr: "sql_exec f s = (s', Inr x) \<Longrightarrow> f (ss_tables s) = Some (ss_tables s')"
  by (auto simp: sql_exec_def Let_def split: if_splits option.splits)

text \<open>What does not commit leaves the tables alone; what commits ran as its body says.\<close>

lemma in_transaction_Inl: "in_transaction body s = (s', Inl e) \<Longrightarrow> ss_tables s' = ss_tables s"
  by (auto simp: in_transaction_def sql_exec_def Let_def split: prod.splits sum.splits if_splits)

lemma in_transaction_Inr:
  assumes "in_transaction body s = (s', Inr x)"
  obtains s1 s2 where "ss_tables s1 = ss_tables s" "body s1 = (s2, Inr x)" "ss_tables s' = ss_tables s2"
  using assms by (auto simp: in_transaction_def split: prod.splits sum.splits dest!: sql_exec_Inr)

lemma in_transaction_quiet:
  assumes "ss_faults s = []" and "body s = (s', Inr x)" and "ss_faults s' = []"
  shows "in_transaction body s = (s', Inr x)"
  using assms by (simp add: in_transaction_def)

lemma in_transaction_quiet_Inl:
  assumes "ss_faults s = []" and "body s = (s', Inl e)"
  shows "in_transaction body s = (s'\<lparr>ss_tables := ss_tables s\<rparr>, Inl e)"
  using assms by (simp add: in_transaction_def)

definition owned :: "schema_object list \<Rightarrow> sqlite_store \<Rightarrow> bool" where
  "owned required s \<longleftrightarrow> tb_application_id (ss_tables s) = sqlite_application_id \<and>
     tb_user_version (ss_tables s) = schema_version \<and> objects_match (schema_objects_of (ss_tables s)) required"

lemma validate_quiet:
  "ss_faults s = [] \<Longrightarrow> owned required s \<Longrightarrow> validate_schema_for_mutation required s = (s, Inr ())"
  by (simp add: validate_schema_for_mutation_def tx_bind_def owned_def)

lemma validate_Inr: "validate_schema_for_mutation required s = (s', Inr x) \<Longrightarrow> ss_tables s' = ss_tables s"
  by (auto simp: validate_schema_for_mutation_def tx_bind_Inr_iff split: if_splits dest!: sql_query_Inr)

lemma verify_quiet:
  assumes "ss_faults s = []" and "owned required s"
  obtains v where "verify_schema required s = (s\<lparr>ss_schema_verified := v\<rparr>, Inr ())"
proof (cases "ss_schema_verified s")
  case True
  then have "verify_schema required s = (s\<lparr>ss_schema_verified := True\<rparr>, Inr ())"
    using assms by (cases s) (simp add: verify_schema_def tx_bind_def owned_def)
  then show ?thesis by (rule that)
next
  case False
  with that show ?thesis using validate_quiet [OF assms] by (simp add: verify_schema_def)
qed

lemma verify_Inr: "verify_schema required s = (s', Inr x) \<Longrightarrow> ss_tables s' = ss_tables s"
  by (auto simp: verify_schema_def tx_bind_Inr_iff split: if_splits prod.splits sum.splits
      dest!: sql_query_Inr validate_Inr)

section \<open>Session rows\<close>

lemma find_overwrite:
  "find (\<lambda>r. sr_id r = k) (map (\<lambda>r. if sr_id r = sid then overwrite_row meta r else r) rows) =
   map_option (\<lambda>r. if sr_id r = sid then overwrite_row meta r else r) (find (\<lambda>r. sr_id r = k) rows)"
  by (induction rows) (auto simp: overwrite_row_def)

lemma find_snoc: "find p (xs @ [x]) = (case find p xs of None \<Rightarrow> (if p x then Some x else None) | Some y \<Rightarrow> Some y)"
  by (induction xs) auto

lemma find_holds: "find p xs = Some x \<Longrightarrow> p x \<and> x \<in> set xs"
  by (induction xs) (auto split: if_splits)

lemma row_to_meta_overwrite: "sr_id r = hd_id meta \<Longrightarrow> row_to_meta (overwrite_row meta r) = meta"
  by (simp add: row_to_meta_def overwrite_row_def nullable_def nullable_int_def)

text \<open>The row of a session after an upsert: a fresh incarnation, or the old one with its revision.\<close>

lemma session_row_upsert:
  "find (\<lambda>r. sr_id r = k) (upsert_session meta fresh rows) =
     (if k = hd_id meta
      then Some (overwrite_row meta (case find (\<lambda>r. sr_id r = k) rows of None \<Rightarrow> blank_row k fresh | Some r \<Rightarrow> r))
      else find (\<lambda>r. sr_id r = k) rows)"
proof (cases "find (\<lambda>r. sr_id r = hd_id meta) rows")
  case None
  then show ?thesis
    by (auto simp: upsert_session_def find_snoc overwrite_row_def blank_row_def split: option.split)
next
  case (Some r)
  then have "sr_id r = hd_id meta" by (auto dest: find_holds)
  moreover have "map_option (\<lambda>r. if sr_id r = hd_id meta then overwrite_row meta r else r) (find (\<lambda>r. sr_id r = k) rows) =
      find (\<lambda>r. sr_id r = k) rows" if "k \<noteq> hd_id meta"
    using that by (cases "find (\<lambda>r. sr_id r = k) rows") (auto dest: find_holds)
  ultimately show ?thesis using Some by (simp add: upsert_session_def find_overwrite)
qed

lemma session_row_bump:
  "find (\<lambda>r. sr_id r = k) (bump_revision sid rows) =
   map_option (\<lambda>r. if sr_id r = sid then r\<lparr>sr_revision := sr_revision r + 1\<rparr> else r) (find (\<lambda>r. sr_id r = k) rows)"
  by (induction rows) (auto simp: bump_revision_def)

definition unique_ids :: "tables \<Rightarrow> bool" where
  "unique_ids t \<longleftrightarrow> distinct (map sr_id (tb_sessions t))"

lemma unique_upsert: "distinct (map sr_id rows) \<Longrightarrow> distinct (map sr_id (upsert_session meta fresh rows))"
proof -
  have "map sr_id (map (\<lambda>r. if sr_id r = hd_id meta then overwrite_row meta r else r) rows) = map sr_id rows"
    by (induction rows) (simp_all add: overwrite_row_def)
  then show "distinct (map sr_id rows) \<Longrightarrow> ?thesis"
    by (auto simp: upsert_session_def find_None_iff overwrite_row_def blank_row_def simp del: map_map)
qed

lemma unique_filter:
  "distinct (map sr_id rows) \<Longrightarrow>
     length (filter (\<lambda>r. sr_id r = sid) rows) = (if find (\<lambda>r. sr_id r = sid) rows = None then 0 else 1)"
proof (induction rows)
  case (Cons r rows)
  show ?case
  proof (cases "sr_id r = sid")
    case True
    with Cons.prems have "filter (\<lambda>r. sr_id r = sid) rows = []"
      by (auto simp: filter_empty_conv image_iff)
    with True show ?thesis by simp
  qed (use Cons in simp)
qed simp

end
