(* ===== verification/Event_Store.thy ===== *)
theory Event_Store imports Packing_Roundtrip begin

text \<open>
  What an agent relies on when it keeps its log in a store: a batch that continues the log is
  taken as a whole and read back behind what was there.  \<open>good\<close> says which events the store can
  hold, \<open>same\<close> what it may change about them.  A checked store also refuses every batch that
  does not continue the log, and then keeps what it has.
\<close>

text \<open>The batches of a session, one after the other; the first failure stops.\<close>

fun append_all :: "(session_envelope list \<Rightarrow> 's \<Rightarrow> 's \<times> ('e + unit)) \<Rightarrow>
    session_envelope list list \<Rightarrow> 's \<Rightarrow> 's \<times> ('e + unit)" where
  "append_all write [] s = (s, Inr ())"
| "append_all write (b # bs) s =
     (case write b s of (s', Inl e) \<Rightarrow> (s', Inl e) | (s', Inr _) \<Rightarrow> append_all write bs s')"

locale event_log =
  fixes append :: "session_envelope list \<Rightarrow> 's \<Rightarrow> 's \<times> ('e + unit)"
    and view :: "'s \<Rightarrow> session_envelope list"
    and ready :: "'s \<Rightarrow> bool"
    and good :: "session_envelope \<Rightarrow> bool"
    and same :: "session_envelope \<Rightarrow> session_envelope \<Rightarrow> bool"
  assumes append_ok: "ready s \<Longrightarrow> es \<noteq> [] \<Longrightarrow> \<forall>e\<in>set es. good e \<Longrightarrow>
      check_contiguous (int (length (view s))) es \<Longrightarrow>
      \<exists>s' new. append es s = (s', Inr ()) \<and> ready s' \<and> view s' = view s @ new \<and> list_all2 same es new"
begin

lemma append_all_ok:
  "ready s \<Longrightarrow> \<forall>b\<in>set bs. b \<noteq> [] \<Longrightarrow> \<forall>e\<in>set (concat bs). good e \<Longrightarrow>
   check_contiguous (int (length (view s))) (concat bs) \<Longrightarrow>
   \<exists>s' new. append_all append bs s = (s', Inr ()) \<and> ready s' \<and> view s' = view s @ new \<and> list_all2 same (concat bs) new"
proof (induction bs arbitrary: s)
  case (Cons b bs)
  have "check_contiguous (int (length (view s))) b"
    "check_contiguous (int (length (view s)) + int (length b)) (concat bs)"
    using Cons.prems(4) by (simp_all add: check_contiguous_append)
  moreover obtain s1 new1 where 1: "append b s = (s1, Inr ())" "ready s1" "view s1 = view s @ new1"
    "list_all2 same b new1"
    using append_ok [OF Cons.prems(1), of b] Cons.prems(2,3) calculation(1) by auto
  moreover from 1(4) have "length new1 = length b" by (simp add: list_all2_lengthD)
  ultimately obtain s2 new2 where 2: "append_all append bs s1 = (s2, Inr ())" "ready s2" "view s2 = view s1 @ new2"
    "list_all2 same (concat bs) new2"
    using Cons.IH [OF 1(2)] Cons.prems(2,3) by auto
  show ?case
    by (rule exI [of _ s2], rule exI [of _ "new1 @ new2"]) (use 1 2 in \<open>simp add: list_all2_appendI\<close>)
qed simp

end

locale checked_event_log = event_log +
  assumes append_refused: "ready s \<Longrightarrow> es \<noteq> [] \<Longrightarrow> env_seq (hd es) \<noteq> int (length (view s)) \<Longrightarrow>
      \<exists>s' err. append es s = (s', Inl err) \<and> ready s' \<and> view s' = view s"
begin

text \<open>Two writers that both read the log and then append: the second one is refused.\<close>

lemma second_writer_refused:
  assumes "ready s" and "a \<noteq> []" and "\<forall>e\<in>set a. good e" and "check_contiguous (int (length (view s))) a"
    and "b \<noteq> []" and "check_contiguous (int (length (view s))) b"
  shows "\<exists>s1 s2 err. append a s = (s1, Inr ()) \<and> append b s1 = (s2, Inl err) \<and> view s2 = view s1"
proof -
  obtain s1 new where 1: "append a s = (s1, Inr ())" "ready s1" "view s1 = view s @ new" "list_all2 same a new"
    using append_ok [OF assms(1-4)] by blast
  from 1(4) assms(2) have "new \<noteq> []" by auto
  moreover have "env_seq (hd b) = int (length (view s))" using assms(5,6) by (cases b) auto
  ultimately have "env_seq (hd b) \<noteq> int (length (view s1))" using 1(3) by simp
  from append_refused [OF 1(2) assms(5) this] 1(1) show ?thesis by blast
qed

end

end
