(* ===== verification/Row_Store_Properties.thy ===== *)
theory Row_Store_Properties imports Row_Store_Laws Event_Store Agent_Log begin

text \<open>
  What the operations of the SQLite store do to the log of a session: appending, repairing a
  torn tail and reading a suffix, against the list of events the rows stand for.
\<close>

section \<open>The log of a session\<close>

definition stored_log :: "string \<Rightarrow> tables \<Rightarrow> session_envelope list" where
  "stored_log sid t = (case decode_rows (session_rows sid t) of Inr es \<Rightarrow> es | Inl _ \<Rightarrow> [])"

definition intact :: "string \<Rightarrow> tables \<Rightarrow> bool" where
  "intact sid t \<longleftrightarrow> reads 0 (session_rows sid t) (stored_log sid t)"

lemma intactI: "reads 0 (session_rows sid t) es \<Longrightarrow> intact sid t \<and> stored_log sid t = es"
  by (simp add: intact_def stored_log_def reads_def)

lemma session_rows_update [simp]:
  "session_rows sid (t\<lparr>tb_sessions := x\<rparr>) = session_rows sid t"
  by (simp add: session_rows_def)

lemma reads_filter_suffix:
  assumes "reads n rows es"
  obtains pre suf a b where "rows = pre @ suf" "filter (\<lambda>r. m \<le> er_seq r) rows = suf" "es = a @ b"
    "reads n pre a" "reads (n + int (length a)) suf b"
proof (cases "filter (\<lambda>r. m \<le> er_seq r) rows")
  case Nil
  show ?thesis by (rule that [of rows "[]" es "[]"]) (use Nil assms in auto)
next
  case (Cons row rest)
  then obtain pre suf where *: "rows = pre @ row # suf" "\<forall>r\<in>set pre. \<not> m \<le> er_seq r" "m \<le> er_seq row"
    "rest = filter (\<lambda>r. m \<le> er_seq r) suf" by (auto simp: filter_eq_Cons_iff)
  from assms * obtain a b where ab: "es = a @ b" "reads n pre a" "reads (n + int (length a)) (row # suf) b"
    by (auto simp: reads_append)
  then have "\<forall>r\<in>set suf. m \<le> er_seq r"
    using reads_bounds [OF ab(3)] *(3) by (fastforce simp: reads_Cons)
  then have "filter (\<lambda>r. m \<le> er_seq r) rows = row # suf"
    using * by (auto simp: filter_id_conv filter_empty_conv)
  with * ab show ?thesis by (intro that [of pre "row # suf" a b]) auto
qed

text \<open>The window of the tail query starts at or before the last row.\<close>

lemma window_reaches_last:
  assumes "sorted (map er_seq rows)" and "rows \<noteq> []" and "0 \<le> er_seq (last rows)"
  shows "max 0 (er_seq (hd (rev (take 2 (rev rows)))) - int max_packed_row_members + 1) \<le> er_seq (last rows)"
proof -
  let ?tail = "rev (take 2 (rev rows))"
  have "?tail \<noteq> []" "last rows = last ?tail"
    using assms(2) by (auto simp: last_rev hd_rev [symmetric])
  moreover have "sorted (map er_seq ?tail)"
    using assms(1) by (metis rev_map rev_rev_ident rev_take sorted_wrt_drop drop_map)
  ultimately have "er_seq (hd ?tail) \<le> er_seq (last rows)" by (cases ?tail) auto
  with assms(3) show ?thesis by (simp add: max_packed_row_members_def)
qed

text \<open>The last event found from the tail of the table is the last event of the log.\<close>

lemma logical_last:
  assumes "reads 0 (session_rows sid (ss_tables s)) log" and "logical_last_event_tx sid s = (s', r)"
  shows "ss_tables s' = ss_tables s \<and> (case r of
     Inr lst \<Rightarrow> next_seq lst = int (length log) | Inl e \<Rightarrow> e = SqlFailed \<and> ss_faults s \<noteq> [])"
proof -
  let ?rows = "session_rows sid (ss_tables s)"
  let ?tail = "rev (take 2 (rev ?rows))"
  let ?flr = "max 0 (er_seq (hd ?tail) - int max_packed_row_members + 1)"
  show ?thesis
  proof (cases "?rows = []")
    case True
    with assms(1) have "log = []" by simp
    with True assms(2) show ?thesis
      by (auto simp: logical_last_event_tx_def tx_bind_def sql_query_def Let_def next_seq_def split: if_splits)
  next
    case False
    obtain pre suf a b where ps: "?rows = pre @ suf" "filter (\<lambda>r. ?flr \<le> er_seq r) ?rows = suf" "log = a @ b"
      "reads 0 pre a" "reads (0 + int (length a)) suf b"
      using reads_filter_suffix [OF assms(1), of ?flr] by blast
    have tail: "?tail \<noteq> []" using False by simp
    have "?flr \<le> er_seq (last ?rows)"
      using window_reaches_last [OF reads_sorted [OF assms(1)] False] reads_bounds [OF assms(1), of "last ?rows"] False
      by simp
    then have "last ?rows \<in> set suf" unfolding ps(2) [symmetric] using False by simp
    then have ne: "suf \<noteq> []" by auto
    then obtain row rest where suf: "suf = row # rest" by (cases suf) auto
    with ps(5) have start: "er_seq (hd suf) = int (length a)" by (auto simp: reads_Cons)
    with scan_reads [OF ps(5)] have scan: "scan_rows suf (er_seq (hd suf)) = Inr (b, None)" by simp
    have b: "b \<noteq> []" using reads_nonempty [OF ps(5)] ne by simp
    have "check_contiguous (int (length a)) b" using ps(5) by (simp add: reads_def)
    from check_contiguous_last [OF this b] have "next_seq (Some (last b)) = int (length log)"
      using ps(3) by (simp add: next_seq_def)
    with assms(2) tail scan ps(2) b show ?thesis
      by (auto simp: logical_last_event_tx_def tx_bind_def sql_query_def rows_from_def Let_def split: if_splits)
  qed
qed

section \<open>Inserting a batch\<close>

lemma insert_records_Inr:
  assumes "insert_records sid recs s = (s', Inr u)"
  shows "\<exists>rows. bind_records recs = Inr rows \<and>
    ss_tables s' = (ss_tables s)\<lparr>tb_events := tb_events (ss_tables s) @ map (Pair sid) rows\<rparr>"
  using assms
proof (induction recs arbitrary: s)
  case (Cons rec recs)
  then obtain s1 where 1: "insert_record_tx sid rec s = (s1, Inr ())" "insert_records sid recs s1 = (s', Inr u)"
    by (auto simp: tx_bind_Inr_iff)
  from 1(1) obtain row where row: "bind_record rec = Inr row"
    "ss_tables s1 = (ss_tables s)\<lparr>tb_events := tb_events (ss_tables s) @ [(sid, row)]\<rparr>"
    by (auto simp: insert_record_tx_def insert_row_def split: sum.splits if_splits dest!: sql_exec_Inr)
  with Cons.IH [OF 1(2)] show ?case by auto
qed simp

lemma insert_records_quiet:
  assumes "ss_faults s = []" and "bind_records recs = Inr rows" and "session_row_of sid (ss_tables s) \<noteq> None"
    and "distinct (map er_seq rows)"
    and "\<forall>r\<in>set (tb_events (ss_tables s)). fst r = sid \<longrightarrow> er_seq (snd r) \<notin> er_seq ` set rows"
  shows "insert_records sid recs s =
    (s\<lparr>ss_tables := (ss_tables s)\<lparr>tb_events := tb_events (ss_tables s) @ map (Pair sid) rows\<rparr>\<rparr>, Inr ())"
  using assms
proof (induction recs arbitrary: s rows)
  case Nil
  then show ?case by (cases s) simp
next
  case (Cons rec recs)
  from Cons.prems(2) obtain row rest where r: "bind_record rec = Inr row" "bind_records recs = Inr rest"
    "rows = row # rest" by (auto simp: and_then_Inr_iff)
  let ?t = "(ss_tables s)\<lparr>tb_events := tb_events (ss_tables s) @ [(sid, row)]\<rparr>"
  have "insert_row sid row (ss_tables s) = Some ?t"
    using Cons.prems(3,5) r(3) by (auto simp: insert_row_def list_ex_iff)
  then have "insert_record_tx sid rec s = (s\<lparr>ss_tables := ?t\<rparr>, Inr ())"
    using Cons.prems(1) r(1) by (simp add: insert_record_tx_def)
  moreover have "insert_records sid recs (s\<lparr>ss_tables := ?t\<rparr>) =
    (s\<lparr>ss_tables := ?t\<lparr>tb_events := tb_events ?t @ map (Pair sid) rest\<rparr>\<rparr>, Inr ())"
    using Cons.IH [OF _ r(2), of "s\<lparr>ss_tables := ?t\<rparr>"] Cons.prems r(3)
    by (auto simp: session_row_of_def)
  ultimately show ?case using r(3) by (simp add: tx_bind_def)
qed

lemma reads_distinct: "reads n rows es \<Longrightarrow> distinct (map er_seq rows)"
proof (induction rows arbitrary: n es)
  case (Cons x xs)
  then obtain a b where x: "es = a @ b" "decode_row x = Inr a" "er_seq x = n" "reads (n + int (length a)) xs b"
    by (auto simp: reads_Cons)
  from decode_row_shape [OF x(2)] have "0 < int (length a)" by simp
  with Cons.IH [OF x(4)] reads_bounds [OF x(4)] x(3) show ?case by fastforce
qed simp

lemma event_of_session:
  "r \<in> set (tb_events t) \<Longrightarrow> fst r = sid \<Longrightarrow> snd r \<in> set (session_rows sid t)"
  by (force simp: session_rows_def)

text \<open>The rows of a readable batch fit behind the rows of a readable session.\<close>

lemma insert_batch_quiet:
  assumes "ss_faults s = []" and "bind_records recs = Inr rows" and "session_row_of sid (ss_tables s) \<noteq> None"
    and "reads 0 (session_rows sid (ss_tables s)) log" and "reads (int (length log)) rows new"
  shows "insert_records sid recs s =
    (s\<lparr>ss_tables := (ss_tables s)\<lparr>tb_events := tb_events (ss_tables s) @ map (Pair sid) rows\<rparr>\<rparr>, Inr ())"
proof (rule insert_records_quiet [OF assms(1-3) reads_distinct [OF assms(5)]])
  have "er_seq (snd r) \<noteq> er_seq q" if r: "r \<in> set (tb_events (ss_tables s))" "fst r = sid" and q: "q \<in> set rows" for r q
    using reads_bounds [OF assms(4) event_of_session [OF r]] reads_bounds [OF assms(5) q] by simp
  then show "\<forall>r\<in>set (tb_events (ss_tables s)). fst r = sid \<longrightarrow> er_seq (snd r) \<notin> er_seq ` set rows"
    by auto
qed

section \<open>Appending\<close>

text \<open>The body of \<open>appendBatch\<close> inside its transaction.\<close>

lemma append_steps:
  assumes "sqlite_append_batch required fresh meta es mat s = (s', Inr u)" and "es \<noteq> []"
  obtains s1 s2 s3 s4 s5 s6 lst x where "ss_tables s1 = ss_tables s" "ss_tables s' = ss_tables s2"
    "verify_schema required s1 = (s3, Inr ())"
    "(if mat then ensure_session_row_tx meta else write_session_row_tx meta fresh) s3 = (s4, Inr x)"
    "logical_last_event_tx (hd_id meta) s4 = (s5, Inr lst)" "env_seq (hd es) = next_seq lst"
    "insert_records (hd_id meta) (pack_chunk_runs es) s5 = (s6, Inr ())"
    "increment_revision_tx (hd_id meta) s6 = (s2, Inr u)"
proof -
  from assms obtain s1 s2 where tx: "ss_tables s1 = ss_tables s" "ss_tables s' = ss_tables s2"
    "tx_bind (verify_schema required) (\<lambda>_.
         tx_bind (if mat then ensure_session_row_tx meta else write_session_row_tx meta fresh) (\<lambda>_.
         tx_bind (logical_last_event_tx (hd_id meta)) (\<lambda>lst.
           if env_seq (hd es) \<noteq> next_seq lst
           then tx_fail (AppendSeq (hd_id meta) (env_seq (hd es)) (next_seq lst))
           else tx_bind (insert_records (hd_id meta) (pack_chunk_runs es)) (\<lambda>_.
             increment_revision_tx (hd_id meta))))) s1 = (s2, Inr u)"
    unfolding sqlite_append_batch_def by (auto elim!: in_transaction_Inr)
  then obtain s3 s4 s5 s6 lst x where "verify_schema required s1 = (s3, Inr ())"
    "(if mat then ensure_session_row_tx meta else write_session_row_tx meta fresh) s3 = (s4, Inr x)"
    "logical_last_event_tx (hd_id meta) s4 = (s5, Inr lst)" "env_seq (hd es) = next_seq lst"
    "insert_records (hd_id meta) (pack_chunk_runs es) s5 = (s6, Inr ())"
    "increment_revision_tx (hd_id meta) s6 = (s2, Inr u)"
    by (auto simp: tx_bind_Inr_iff split: if_splits)
  with tx(1,2) show ?thesis by (rule that)
qed

lemma append_body_Inr:
  assumes "sqlite_append_batch required fresh meta es mat s = (s', Inr u)" and "es \<noteq> []"
    and "intact (hd_id meta) (ss_tables s)" and "\<forall>e\<in>set es. storable e"
    and "check_contiguous (env_seq (hd es)) es"
  shows "env_seq (hd es) = int (length (stored_log (hd_id meta) (ss_tables s))) \<and>
    intact (hd_id meta) (ss_tables s') \<and>
    (\<exists>new. stored_log (hd_id meta) (ss_tables s') = stored_log (hd_id meta) (ss_tables s) @ new \<and>
       list_all2 read_back es new) \<and>
    (\<forall>sid. sid \<noteq> hd_id meta \<longrightarrow> session_rows sid (ss_tables s') = session_rows sid (ss_tables s))"
proof -
  let ?id = "hd_id meta"
  let ?log = "stored_log ?id (ss_tables s)"
  obtain s1 s2 s3 s4 s5 s6 lst x where tx: "ss_tables s1 = ss_tables s" "ss_tables s' = ss_tables s2"
    and st: "verify_schema required s1 = (s3, Inr ())"
    "(if mat then ensure_session_row_tx meta else write_session_row_tx meta fresh) s3 = (s4, Inr x)"
    "logical_last_event_tx ?id s4 = (s5, Inr lst)" "env_seq (hd es) = next_seq lst"
    "insert_records ?id (pack_chunk_runs es) s5 = (s6, Inr ())" "increment_revision_tx ?id s6 = (s2, Inr u)"
    by (rule append_steps [OF assms(1,2)]) (rule that)
  have "session_rows sid (ss_tables s4) = session_rows sid (ss_tables s3)" for sid
    using st(2) by (auto simp: ensure_session_row_tx_def session_row_tx_def write_session_row_tx_def tx_bind_Inr_iff
        split: if_splits dest!: sql_query_Inr sql_exec_Inr sym [of _ "ss_tables s4"])
  with verify_Inr [OF st(1)] tx(1) have rows4: "session_rows sid (ss_tables s4) = session_rows sid (ss_tables s)" for sid
    by simp
  then have log4: "reads 0 (session_rows ?id (ss_tables s4)) ?log" using assms(3) by (simp add: intact_def)
  with logical_last [OF log4 st(3)] st(4) have seq: "env_seq (hd es) = int (length ?log)" "ss_tables s5 = ss_tables s4"
    by auto
  obtain rows new where rows: "bind_records (pack_chunk_runs es) = Inr rows" "reads (int (length ?log)) rows new"
    "list_all2 read_back es new" using packed_batch_reads [OF assms(4), of "int (length ?log)"] assms(5) seq(1) by auto
  from insert_records_Inr [OF st(5)] rows(1) seq(2)
  have t6: "ss_tables s6 = (ss_tables s4)\<lparr>tb_events := tb_events (ss_tables s4) @ map (Pair ?id) rows\<rparr>" by auto
  have same: "session_rows sid (ss_tables s') = session_rows sid (ss_tables s6)" for sid
    using st(6) tx(2) by (auto simp: increment_revision_tx_def tx_bind_Inr_iff dest!: sql_query_Inr split: if_splits)
  have "session_rows ?id (ss_tables s') = session_rows ?id (ss_tables s4) @ rows"
    unfolding same t6 by (rule session_rows_append [OF log4 rows(2)])
  moreover have "reads 0 (session_rows ?id (ss_tables s4) @ rows) (?log @ new)"
    using log4 rows(2) by (auto simp: reads_append)
  moreover have "session_rows sid (ss_tables s') = session_rows sid (ss_tables s)" if "sid \<noteq> ?id" for sid
    unfolding same t6 using session_rows_other [OF that] rows4 by simp
  ultimately show ?thesis using intactI [of ?id "ss_tables s'" "?log @ new"] seq(1) rows(3) by auto
qed

definition ready_store :: "schema_object list \<Rightarrow> string \<Rightarrow> sqlite_store \<Rightarrow> bool" where
  "ready_store required sid s \<longleftrightarrow> ss_faults s = [] \<and> owned required s \<and> unique_ids (ss_tables s) \<and> intact sid (ss_tables s)"

lemma increment_quiet:
  assumes "ss_faults s = []" and "unique_ids (ss_tables s)" and "session_row_of sid (ss_tables s) \<noteq> None"
  shows "increment_revision_tx sid s =
    (s\<lparr>ss_tables := (ss_tables s)\<lparr>tb_sessions := bump_revision sid (tb_sessions (ss_tables s))\<rparr>\<rparr>, Inr ())"
  using assms unique_filter [of "tb_sessions (ss_tables s)" sid]
  by (simp add: increment_revision_tx_def tx_bind_def unique_ids_def session_row_of_def)

lemma map_bump_ids: "map sr_id (bump_revision sid rows) = map sr_id rows"
  by (induction rows) (simp_all add: bump_revision_def)

text \<open>The state an unmaterialised append leaves behind, before its transaction ends.\<close>

definition appended :: "session_header \<Rightarrow> string \<Rightarrow> event_row list \<Rightarrow> tables \<Rightarrow> tables" where
  "appended meta fresh rows t = t\<lparr>
     tb_sessions := bump_revision (hd_id meta) (upsert_session meta fresh (tb_sessions t)),
     tb_events := tb_events t @ map (Pair (hd_id meta)) rows\<rparr>"

text \<open>Up to the comparison of numbers nothing can go wrong in a ready store.\<close>

definition begun :: "session_header \<Rightarrow> string \<Rightarrow> bool \<Rightarrow> sqlite_store \<Rightarrow> sqlite_store" where
  "begun meta fresh v s = s\<lparr>ss_schema_verified := v, ss_tables :=
     (ss_tables s)\<lparr>tb_sessions := upsert_session meta fresh (tb_sessions (ss_tables s))\<rparr>\<rparr>"

lemma append_prefix_quiet:
  assumes "ready_store required (hd_id meta) s"
  obtains v lst where "next_seq lst = int (length (stored_log (hd_id meta) (ss_tables s)))"
    "\<And>f :: session_envelope option \<Rightarrow> unit tx. tx_bind (verify_schema required) (\<lambda>_. tx_bind (write_session_row_tx meta fresh) (\<lambda>_.
        tx_bind (logical_last_event_tx (hd_id meta)) f)) s = f lst (begun meta fresh v s)"
proof -
  let ?id = "hd_id meta"
  let ?log = "stored_log ?id (ss_tables s)"
  have q: "ss_faults s = []" "owned required s" "reads 0 (session_rows ?id (ss_tables s)) ?log"
    using assms by (simp_all add: ready_store_def intact_def)
  obtain v where v: "verify_schema required s = (s\<lparr>ss_schema_verified := v\<rparr>, Inr ())"
    using verify_quiet [OF q(1,2)] .
  let ?s1 = "begun meta fresh v s"
  have w: "write_session_row_tx meta fresh (s\<lparr>ss_schema_verified := v\<rparr>) = (?s1, Inr ())"
    unfolding write_session_row_tx_def begun_def by (subst sql_exec_quiet) (simp_all add: q(1))
  obtain s2 r where l: "logical_last_event_tx ?id ?s1 = (s2, r)" by fastforce
  have f1: "ss_faults ?s1 = []" by (simp add: begun_def q(1))
  have "reads 0 (session_rows ?id (ss_tables ?s1)) ?log" using q(3) by (simp add: begun_def)
  from logical_last [OF this l] f1 obtain lst where lst: "r = Inr lst" "next_seq lst = int (length ?log)"
    by (auto split: sum.splits)
  have "s2 = ?s1" using l f1 lst(1)
    by (auto simp: logical_last_event_tx_def tx_bind_def Let_def split: if_splits sum.splits prod.splits option.splits)
  with l lst v w that [of lst v] show ?thesis by (simp add: tx_bind_def)
qed

lemma append_events_quiet:
  assumes "ready_store required (hd_id meta) s" and "es \<noteq> []"
    and "env_seq (hd es) = int (length (stored_log (hd_id meta) (ss_tables s)))"
    and "bind_records (pack_chunk_runs es) = Inr rows"
    and "reads (int (length (stored_log (hd_id meta) (ss_tables s)))) rows new"
  obtains v where "append_events required fresh meta es s =
    (s\<lparr>ss_tables := appended meta fresh rows (ss_tables s), ss_schema_verified := v\<rparr>, Inr ())"
proof -
  let ?id = "hd_id meta"
  let ?t = "ss_tables s"
  let ?log = "stored_log ?id ?t"
  have q: "ss_faults s = []" "unique_ids ?t" "reads 0 (session_rows ?id ?t) ?log"
    using assms(1) by (simp_all add: ready_store_def intact_def)
  obtain v lst where pre: "next_seq lst = int (length ?log)"
    "\<And>f :: session_envelope option \<Rightarrow> unit tx. tx_bind (verify_schema required) (\<lambda>_. tx_bind (write_session_row_tx meta fresh) (\<lambda>_.
        tx_bind (logical_last_event_tx ?id) f)) s = f lst (begun meta fresh v s)"
    using append_prefix_quiet [OF assms(1)] by blast
  have row: "session_row_of ?id (ss_tables (begun meta fresh v s)) \<noteq> None"
    by (simp add: session_row_of_def session_row_upsert begun_def)
  let ?s2 = "(begun meta fresh v s)\<lparr>ss_tables := (ss_tables (begun meta fresh v s))
    \<lparr>tb_events := tb_events ?t @ map (Pair ?id) rows\<rparr>\<rparr>"
  have ins: "insert_records ?id (pack_chunk_runs es) (begun meta fresh v s) = (?s2, Inr ())"
    using insert_batch_quiet [OF _ assms(4) row _ assms(5)] q(1,3) by (simp add: begun_def)
  have inc: "increment_revision_tx ?id ?s2 =
      (s\<lparr>ss_tables := appended meta fresh rows ?t, ss_schema_verified := v\<rparr>, Inr ())"
    by (subst increment_quiet)
      (use q(1,2) row unique_upsert in \<open>simp_all add: unique_ids_def session_row_of_def appended_def begun_def\<close>)
  have "append_events required fresh meta es s =
      (s\<lparr>ss_tables := appended meta fresh rows ?t, ss_schema_verified := v\<rparr>, Inr ())"
    unfolding append_events_def sqlite_append_batch_def if_not_P [OF assms(2)] if_False
    by (rule in_transaction_quiet [OF q(1)], subst pre(2))
      (use ins inc assms(3) pre(1) q(1) in \<open>simp_all add: tx_bind_def\<close>)
  then show ?thesis by (rule that)
qed

lemma append_events_refused:
  assumes "ready_store required (hd_id meta) s" and "es \<noteq> []"
    and "env_seq (hd es) \<noteq> int (length (stored_log (hd_id meta) (ss_tables s)))"
  obtains v where "append_events required fresh meta es s = (s\<lparr>ss_schema_verified := v\<rparr>,
      Inl (AppendSeq (hd_id meta) (env_seq (hd es)) (int (length (stored_log (hd_id meta) (ss_tables s))))))"
proof -
  let ?log = "stored_log (hd_id meta) (ss_tables s)"
  have q: "ss_faults s = []" using assms(1) by (simp add: ready_store_def)
  obtain v lst where pre: "next_seq lst = int (length ?log)"
    "\<And>f :: session_envelope option \<Rightarrow> unit tx. tx_bind (verify_schema required) (\<lambda>_. tx_bind (write_session_row_tx meta fresh) (\<lambda>_.
        tx_bind (logical_last_event_tx (hd_id meta)) f)) s = f lst (begun meta fresh v s)"
    using append_prefix_quiet [OF assms(1)] by blast
  have "append_events required fresh meta es s =
      ((begun meta fresh v s)\<lparr>ss_tables := ss_tables s\<rparr>, Inl (AppendSeq (hd_id meta) (env_seq (hd es)) (int (length ?log))))"
    unfolding append_events_def sqlite_append_batch_def if_not_P [OF assms(2)] if_False
    by (rule in_transaction_quiet_Inl [OF q], subst pre(2)) (use assms(3) pre(1) in simp)
  also have "(begun meta fresh v s)\<lparr>ss_tables := ss_tables s\<rparr> = s\<lparr>ss_schema_verified := v\<rparr>" by (cases s) (simp add: begun_def)
  finally show ?thesis by (rule that)
qed

text \<open>The state after a successful append is ready for the next one.\<close>

lemma ready_appended:
  assumes "ready_store required (hd_id meta) s" and "reads (int (length (stored_log (hd_id meta) (ss_tables s)))) rows new"
  shows "ready_store required (hd_id meta)
      (s\<lparr>ss_tables := appended meta fresh rows (ss_tables s), ss_schema_verified := v\<rparr>) \<and>
    stored_log (hd_id meta) (appended meta fresh rows (ss_tables s)) = stored_log (hd_id meta) (ss_tables s) @ new"
proof -
  let ?id = "hd_id meta"
  let ?t = "ss_tables s"
  have r: "reads 0 (session_rows ?id ?t) (stored_log ?id ?t)"
    using assms(1) by (simp add: ready_store_def intact_def)
  have "session_rows ?id (appended meta fresh rows ?t) = session_rows ?id ?t @ rows"
    using session_rows_append [OF r assms(2)] by (simp add: appended_def session_rows_def)
  then have "reads 0 (session_rows ?id (appended meta fresh rows ?t)) (stored_log ?id ?t @ new)"
    using r assms(2) by (auto simp: reads_append)
  from intactI [OF this] assms(1) unique_upsert show ?thesis
    by (simp add: ready_store_def owned_def schema_objects_of_def unique_ids_def appended_def map_bump_ids)
qed

interpretation sqlite_log: checked_event_log "append_events required fresh meta"
  "\<lambda>s. stored_log (hd_id meta) (ss_tables s)" "ready_store required (hd_id meta)" storable read_back
  for required :: "schema_object list" and fresh :: string and meta :: session_header
proof unfold_locales
  fix s :: sqlite_store and es :: "session_envelope list"
  assume *: "ready_store required (hd_id meta) s" "es \<noteq> []" "\<forall>e\<in>set es. storable e"
    "check_contiguous (int (length (stored_log (hd_id meta) (ss_tables s)))) es"
  obtain rows new where r: "bind_records (pack_chunk_runs es) = Inr rows"
    "reads (int (length (stored_log (hd_id meta) (ss_tables s)))) rows new" "list_all2 read_back es new"
    using packed_batch_reads [OF *(3,4)] .
  obtain v where "append_events required fresh meta es s =
    (s\<lparr>ss_tables := appended meta fresh rows (ss_tables s), ss_schema_verified := v\<rparr>, Inr ())"
    using append_events_quiet [OF *(1,2) check_contiguous_hd [OF *(4,2)] r(1,2)] .
  with ready_appended [OF *(1) r(2)] r(3)
  show "\<exists>s' new. append_events required fresh meta es s = (s', Inr ()) \<and> ready_store required (hd_id meta) s' \<and>
      stored_log (hd_id meta) (ss_tables s') = stored_log (hd_id meta) (ss_tables s) @ new \<and> list_all2 read_back es new"
    by auto
next
  fix s :: sqlite_store and es :: "session_envelope list"
  assume *: "ready_store required (hd_id meta) s" "es \<noteq> []"
    "env_seq (hd es) \<noteq> int (length (stored_log (hd_id meta) (ss_tables s)))"
  obtain v where "append_events required fresh meta es s = (s\<lparr>ss_schema_verified := v\<rparr>,
      Inl (AppendSeq (hd_id meta) (env_seq (hd es)) (int (length (stored_log (hd_id meta) (ss_tables s))))))"
    using append_events_refused [OF *] .
  with *(1) show "\<exists>s' err. append_events required fresh meta es s = (s', Inl err) \<and> ready_store required (hd_id meta) s' \<and>
      stored_log (hd_id meta) (ss_tables s') = stored_log (hd_id meta) (ss_tables s)"
    by (auto simp: ready_store_def owned_def)
qed

section \<open>Reading a suffix\<close>

lemma span_base_quiet:
  assumes "\<And>p. p \<in> set ps \<Longrightarrow> \<exists>es. decode_row p = Inr es \<and> (es = [] \<or> env_seq (last es) < f)"
  shows "span_base f base ps = base"
  using assms
proof (induction ps)
  case (Cons p ps)
  from Cons.prems [of p] obtain es where "decode_row p = Inr es" "es = [] \<or> env_seq (last es) < f" by auto
  with Cons show ?case by auto
qed simp

lemma span_base_append: "span_base f base (xs @ ys) = span_base f (span_base f base xs) ys"
  by (induction xs arbitrary: base) simp_all

lemma reads_row:
  assumes "reads n rows es" and "r \<in> set rows"
  shows "\<exists>a. decode_row r = Inr a \<and> a \<noteq> [] \<and> env_seq (last a) < n + int (length es)"
proof -
  from assms(2) obtain pre suf where "rows = pre @ r # suf" by (auto simp: in_set_conv_decomp)
  with assms(1) obtain x a b where "es = x @ a @ b" "decode_row r = Inr a" "er_seq r = n + int (length x)"
    by (auto simp: reads_append reads_Cons)
  with decode_row_shape [of r a] check_contiguous_last [of "er_seq r" a] show ?thesis by auto
qed

text \<open>The base of a suffix read is the start of the row that holds the first wanted event.\<close>

lemma span_finds_row:
  assumes "reads 0 (pre @ row # suf) es" and "decode_row row = Inr b" and "tagged row"
    and "er_seq row \<le> f" and "f < er_seq row + int (length b)"
  shows "span_base f f (filter (\<lambda>r. max 0 (f - int max_packed_row_members + 1) \<le> er_seq r \<and> er_seq r < f \<and>
    er_type r \<in> set packed_tags \<and> er_ignorable r = Some 0) (pre @ row # suf)) = er_seq row"
    (is "span_base f f (filter ?P _) = _")
proof -
  from assms(1,2) obtain a c where ac: "es = a @ b @ c" "reads 0 pre a" "er_seq row = int (length a)"
    "reads (int (length a) + int (length b)) suf c" by (auto simp: reads_append reads_Cons)
  note shape = decode_row_shape [OF assms(2)]
  have "filter ?P suf = []" using reads_bounds [OF ac(4)] ac(3) assms(5) by (fastforce simp: filter_empty_conv)
  then have "filter ?P (pre @ row # suf) = filter ?P pre @ filter ?P [row]" by simp
  moreover have "span_base f f (filter ?P pre) = f"
    by (rule span_base_quiet) (use reads_row [OF ac(2)] ac(3) assms(4) in fastforce)
  moreover have "span_base f f (filter ?P [row]) = er_seq row"
  proof (cases "er_seq row = f")
    case False
    then have "length b \<noteq> 1" using assms(4,5) by simp
    then have "er_type row \<in> set packed_tags" "er_ignorable row = Some 0" using shape assms(3) by auto
    moreover have "f - int max_packed_row_members + 1 \<le> er_seq row" using shape assms(5) by simp
    moreover have "env_seq (last b) = er_seq row + int (length b) - 1"
      using shape check_contiguous_last [of "er_seq row" b] by simp
    ultimately show ?thesis using False assms(2,4,5) ac(3) shape by simp
  qed simp
  ultimately show ?thesis by (simp only: span_base_append)
qed

lemma physical_span_quiet:
  assumes "ss_faults s = []" and "intact sid (ss_tables s)"
  shows "physical_span_from sid f s = (s, Inr (let b = span_base f f (filter (\<lambda>r.
      max 0 (f - int max_packed_row_members + 1) \<le> er_seq r \<and> er_seq r < f \<and>
      er_type r \<in> set packed_tags \<and> er_ignorable r = Some 0) (session_rows sid (ss_tables s)))
    in (b, filter (\<lambda>x. b \<le> er_seq x) (session_rows sid (ss_tables s)))))"
proof -
  have "select_events sid b s = (s, Inr (filter (\<lambda>x. b \<le> er_seq x) (session_rows sid (ss_tables s))))" for b
    using reads_bounds [OF assms(2) [unfolded intact_def]] assms(1)
    by (auto simp: select_events_def rows_from_def filter_id_conv)
  then show ?thesis
    using assms(1) by (simp add: physical_span_from_def query_packed_predecessors_def Let_def tx_bind_def)
qed

lemma get_events_quiet:
  assumes "ss_faults s = []" and "intact sid (ss_tables s)" and "0 \<le> f"
  shows "sqlite_get_events sid f s = (s, Inr (filter (\<lambda>e. f \<le> env_seq e) (stored_log sid (ss_tables s))))"
proof -
  let ?t = "ss_tables s"
  let ?rows = "session_rows sid ?t"
  let ?log = "stored_log sid ?t"
  let ?P = "\<lambda>r. max 0 (f - int max_packed_row_members + 1) \<le> er_seq r \<and> er_seq r < f \<and>
    er_type r \<in> set packed_tags \<and> er_ignorable r = Some 0"
  have r: "reads 0 ?rows ?log" using assms(2) by (simp add: intact_def)
  have log: "check_contiguous 0 ?log" using r by (simp add: reads_def)
  have eval: "sqlite_get_events sid f s =
      (case scan_rows (filter (\<lambda>x. b \<le> er_seq x) ?rows) b of
         Inl e \<Rightarrow> (s, Inl (Unreadable e)) | Inr (p, torn) \<Rightarrow> (s, Inr (filter (\<lambda>e. f \<le> env_seq e) p)))"
    if "span_base f f (filter ?P ?rows) = b" for b
    using physical_span_quiet [OF assms(1,2), of f] that
    by (simp add: sqlite_get_events_def tx_bind_def split: sum.split)
  show ?thesis
  proof (cases "nat f < length ?log")
    case False
    have "span_base f f (filter ?P ?rows) = f"
      by (rule span_base_quiet) (use reads_row [OF r] False in fastforce)
    moreover have "filter (\<lambda>x. f \<le> er_seq x) ?rows = []"
      using reads_bounds [OF r] False by (fastforce simp: filter_empty_conv)
    ultimately show ?thesis
      using eval [of f] filter_contiguous [OF log, of f] False by (simp add: scan_rows_def)
  next
    case True
    obtain pre row suf a b where p: "?rows = pre @ row # suf" "reads 0 pre a" "decode_row row = Inr b"
      "tagged row" "er_seq row = 0 + int (length a)" "length a \<le> nat f" "nat f < length a + length b"
      using reads_locate [OF r True] .
    from r [unfolded p(1) reads_append] obtain a' c where "?log = a' @ c" "reads 0 pre a'"
      "reads (0 + int (length a')) (row # suf) c" by blast
    with p(2) have c: "?log = a @ c" "reads (int (length a)) (row # suf) c" by (simp_all add: reads_def)
    have "span_base f f (filter ?P ?rows) = er_seq row"
      unfolding p(1) by (rule span_finds_row [OF r [unfolded p(1)] p(3,4)]) (use p(5-7) assms(3) in auto)
    from eval [OF this] reads_suffix [OF r [unfolded p(1)]] scan_reads [OF c(2)] p(1,5)
    have "sqlite_get_events sid f s = (s, Inr (filter (\<lambda>e. f \<le> env_seq e) c))" by simp
    moreover have "filter (\<lambda>e. f \<le> env_seq e) a = []"
      using log c(1) filter_contiguous [of 0 a f] p(6) assms(3) by (simp add: check_contiguous_append)
    ultimately show ?thesis using c(1) by simp
  qed
qed

section \<open>Repairing a torn tail\<close>

definition keyed :: "tables \<Rightarrow> bool" where
  "keyed t \<longleftrightarrow> distinct (map (\<lambda>r. (fst r, er_seq (snd r))) (tb_events t))"

lemma keyed_insert: "keyed t \<Longrightarrow> insert_row sid row t = Some t' \<Longrightarrow> keyed t'"
  by (fastforce simp: keyed_def insert_row_def list_ex_iff split: if_splits)

lemma keyed_rows:
  assumes "keyed t"
  shows "distinct (map er_seq (session_rows sid t))"
proof -
  have "distinct (map er_seq (map snd (filter (\<lambda>r. fst r = sid) evs)))"
    if "distinct (map (\<lambda>r. (fst r, er_seq (snd r))) evs)" for evs :: "(string \<times> event_row) list"
    using that by (induction evs) (force split: prod.splits)+
  then show ?thesis using assms
    by (fastforce simp: keyed_def session_rows_def distinct_map inj_on_def distinct_sort)
qed

lemma scan_stops:
  assumes "scan_rows rows 0 = Inr (es, torn)" and "\<forall>r\<in>set rows. tagged r"
  obtains k where "k \<le> length rows" "reads 0 (take k rows) es"
    "case torn of None \<Rightarrow> k = length rows | Some m \<Rightarrow> k < length rows \<and> m = er_seq (rows ! k)"
proof -
  from assms(1) scan_loop_cases [of 0 rows "[]" rows 0 0 "last_turn_end_row rows (length rows)"]
  obtain k where "k \<le> length rows" "decode_rows (take k rows) = Inr es" "check_contiguous 0 es"
    "case torn of None \<Rightarrow> k = length rows | Some m \<Rightarrow> k < length rows \<and> m = er_seq (rows ! k)"
    unfolding scan_rows_def by (auto split: option.splits)
  with assms(2) that show ?thesis by (auto simp: reads_def dest: in_set_takeD)
qed

lemma truncate_quiet:
  assumes "ss_faults s = []" and "keyed (ss_tables s)" and "\<forall>r\<in>set (session_rows sid (ss_tables s)). tagged r"
    and "scan_rows (session_rows sid (ss_tables s)) 0 = Inr (es, torn)"
  obtains t' where "truncate_torn sid torn torn s = (s\<lparr>ss_tables := t'\<rparr>, Inr ())" "reads 0 (session_rows sid t') es"
    "t' = (ss_tables s)\<lparr>tb_events := tb_events t'\<rparr>"
proof -
  let ?rows = "session_rows sid (ss_tables s)"
  obtain k where k: "k \<le> length ?rows" "reads 0 (take k ?rows) es"
    "case torn of None \<Rightarrow> k = length ?rows | Some m \<Rightarrow> k < length ?rows \<and> m = er_seq (?rows ! k)"
    using scan_stops [OF assms(4,3)] .
  show ?thesis
  proof (cases torn)
    case None
    with k that [of "ss_tables s"] show ?thesis by (cases s) (simp add: truncate_torn_def)
  next
    case (Some m)
    then have m: "k < length ?rows" "m = er_seq (?rows ! k)" using k(3) by auto
    have sorted: "sorted (map er_seq ?rows)" by (simp add: session_rows_def)
    have less: "er_seq (?rows ! i) < m" if "i < k" for i
    proof -
      have "er_seq (?rows ! i) \<le> m" using sorted that m by (simp add: sorted_iff_nth_mono)
      moreover have "er_seq (?rows ! i) \<noteq> m"
        using keyed_rows [OF assms(2)] that m by (auto simp: distinct_conv_nth)
      ultimately show ?thesis by simp
    qed
    have "m \<le> er_seq (?rows ! i)" if "k \<le> i" "i < length ?rows" for i
      using sorted that m by (simp add: sorted_iff_nth_mono)
    with less k(1) have "session_rows sid ((ss_tables s)\<lparr>tb_events := filter (\<lambda>r. \<not> (fst r = sid \<and> m \<le> er_seq (snd r)))
        (tb_events (ss_tables s))\<rparr>) = take k ?rows"
      by (intro session_rows_truncate [of _ _ _ "drop k ?rows"]) (auto simp: in_set_conv_nth)
    with k(2) Some assms(1) that show ?thesis by (simp add: truncate_torn_def delete_events_from_tx_def)
  qed
qed

lemma commit_repair_quiet:
  assumes "ss_faults s = []" and "owned required s" and "unique_ids (ss_tables s)" and "keyed (ss_tables s)"
    and "session_row_of (hd_id meta) (ss_tables s) \<noteq> None"
    and "\<forall>r\<in>set (session_rows (hd_id meta) (ss_tables s)). tagged r"
    and "scan_rows (session_rows (hd_id meta) (ss_tables s)) 0 = Inr (es, torn)"
    and "\<forall>e\<in>set closers. storable e" and "check_contiguous (int (length es)) closers"
    and "torn \<noteq> None \<or> closers \<noteq> []"
  shows "\<exists>s' new. commit_repair required meta torn closers s = (s', Inr ()) \<and>
    ready_store required (hd_id meta) s' \<and> stored_log (hd_id meta) (ss_tables s') = es @ new \<and>
    list_all2 read_back closers new"
proof -
  let ?id = "hd_id meta"
  obtain t1 where t1: "truncate_torn ?id torn torn s = (s\<lparr>ss_tables := t1\<rparr>, Inr ())"
    "reads 0 (session_rows ?id t1) es" "t1 = (ss_tables s)\<lparr>tb_events := tb_events t1\<rparr>"
    using truncate_quiet [OF assms(1,4,6,7)] .
  from arg_cong [OF t1(3), of tb_sessions] have ses: "tb_sessions t1 = tb_sessions (ss_tables s)" by simp
  let ?s1 = "s\<lparr>ss_tables := t1\<rparr>"
  obtain rows new where rows: "bind_records (map Scalar closers) = Inr rows" "reads (int (length es)) rows new"
    "list_all2 read_back closers new" using scalar_batch_reads [OF assms(8,9)] .
  have row: "session_row_of ?id t1 \<noteq> None" using assms(5) ses by (simp add: session_row_of_def)
  let ?t2 = "t1\<lparr>tb_events := tb_events t1 @ map (Pair ?id) rows\<rparr>"
  have contig: "check_contiguous 0 es" using t1(2) by (simp add: reads_def)
  have close: "append_closers ?id es closers ?s1 = (?s1\<lparr>ss_tables := ?t2\<rparr>, Inr ())"
  proof (cases "closers = []")
    case True
    with rows(1) have "rows = []" by simp
    with True show ?thesis by (cases t1) (simp add: append_closers_def)
  next
    case False
    then have "env_seq (hd closers) = (if es = [] then 0 else env_seq (last es) + 1)"
      using check_contiguous_hd [OF assms(9)] check_contiguous_last [OF contig] by auto
    moreover have "insert_records ?id (map Scalar closers) ?s1 = (?s1\<lparr>ss_tables := ?t2\<rparr>, Inr ())"
      using insert_batch_quiet [of ?s1, OF _ rows(1) _ _ rows(2)] row t1(2) assms(1) by simp
    ultimately show ?thesis using False by (simp add: append_closers_def Let_def)
  qed
  let ?s3 = "s\<lparr>ss_tables := ?t2\<lparr>tb_sessions := bump_revision ?id (tb_sessions t1)\<rparr>\<rparr>"
  have inc: "increment_revision_tx ?id (?s1\<lparr>ss_tables := ?t2\<rparr>) = (?s3, Inr ())"
    by (subst increment_quiet) (use assms(1,3) row ses in \<open>simp_all add: unique_ids_def session_row_of_def\<close>)
  have nz: "\<not> (torn = None \<and> closers = [])" using assms(10) by blast
  have scan: "scan_all_rows_tx ?id s = (s, Inr (es, torn))"
    using assms(1,7) by (simp add: scan_all_rows_tx_def tx_bind_def)
  have "commit_repair required meta torn closers s = (?s3, Inr ())"
    unfolding commit_repair_def if_not_P [OF nz]
    by (rule in_transaction_quiet [OF assms(1)])
      (use validate_quiet [OF assms(1,2)] assms(1,5) t1(1) close inc scan
       in \<open>simp_all add: tx_bind_def session_row_tx_def\<close>)
  moreover have "session_rows ?id (ss_tables ?s3) = session_rows ?id t1 @ rows"
    using session_rows_append [OF t1(2) rows(2)] by simp
  then have "reads 0 (session_rows ?id (ss_tables ?s3)) (es @ new)"
    using t1(2) rows(2) by (auto simp: reads_append)
  from intactI [OF this] have "intact ?id (ss_tables ?s3)" "stored_log ?id (ss_tables ?s3) = es @ new" by auto
  moreover have "owned required ?s3" "unique_ids (ss_tables ?s3)"
    using assms(2,3) ses map_bump_ids [of ?id "tb_sessions (ss_tables s)"]
    by (simp_all add: owned_def unique_ids_def schema_objects_of_def) (subst t1(3), simp)+
  ultimately show ?thesis using rows(3) assms(1) unfolding ready_store_def by (intro exI [of _ ?s3] exI [of _ new]) simp
qed

section \<open>The list an agent keeps and the rows that stand for it\<close>

definition mirrors :: "schema_object list \<Rightarrow> string \<Rightarrow> session_envelope list \<Rightarrow> sqlite_store \<Rightarrow> bool" where
  "mirrors required sid events s \<longleftrightarrow> ready_store required sid s \<and> list_all2 read_back events (stored_log sid (ss_tables s))"

lemma mirrors_next:
  assumes "mirrors required sid events s"
  shows "stored_next events = int (length (stored_log sid (ss_tables s)))" and "check_contiguous 0 events"
proof -
  from assms have r: "reads 0 (session_rows sid (ss_tables s)) (stored_log sid (ss_tables s))"
    "list_all2 read_back events (stored_log sid (ss_tables s))"
    by (simp_all add: mirrors_def ready_store_def intact_def)
  then show c: "check_contiguous 0 events" using check_contiguous_read_back [OF r(2)] by (simp add: reads_def)
  from check_contiguous_last [OF c] list_all2_lengthD [OF r(2)]
  show "stored_next events = int (length (stored_log sid (ss_tables s)))" by (auto simp: stored_next_def)
qed

lemma read_back_filter:
  "list_all2 read_back xs ys \<Longrightarrow> list_all2 read_back (filter (\<lambda>e. f \<le> env_seq e) xs) (filter (\<lambda>e. f \<le> env_seq e) ys)"
  by (induction rule: list_all2_induct) (auto simp: read_back_def)

section \<open>Properties\<close>

text \<open>
  An append to the SQLite store is all or nothing.  Whatever statement of the transaction fails,
  a failing append leaves every table as it was; a succeeding one was given the next number,
  adds exactly the events of the batch to the end of the session's log, and leaves the rows
  of every other session alone.
\<close>
theorem sqlite_append_all_or_nothing:
  assumes "intact (hd_id meta) (ss_tables s)" and "\<forall>e\<in>set es. storable e" and "es \<noteq> []"
    and "check_contiguous (env_seq (hd es)) es"
  shows "case sqlite_append_batch required fresh meta es mat s of
      (s', Inl err) \<Rightarrow> ss_tables s' = ss_tables s
    | (s', Inr _) \<Rightarrow> env_seq (hd es) = int (length (stored_log (hd_id meta) (ss_tables s))) \<and>
        intact (hd_id meta) (ss_tables s') \<and>
        (\<exists>new. stored_log (hd_id meta) (ss_tables s') = stored_log (hd_id meta) (ss_tables s) @ new \<and>
           list_all2 read_back es new) \<and>
        (\<forall>sid. sid \<noteq> hd_id meta \<longrightarrow> session_rows sid (ss_tables s') = session_rows sid (ss_tables s))"
proof (cases "sqlite_append_batch required fresh meta es mat s")
  case (Pair s' r)
  show ?thesis
  proof (cases r)
    case (Inl err)
    with Pair assms(3) have "ss_tables s' = ss_tables s"
      unfolding sqlite_append_batch_def by (auto dest: in_transaction_Inl)
    with Pair Inl show ?thesis by simp
  next
    case (Inr u)
    with append_body_Inr [of required fresh meta es mat s s' u] Pair assms show ?thesis by simp
  qed
qed

text \<open>An empty database of this build, and a first event.\<close>

definition fresh_store :: sqlite_store where
  "fresh_store = \<lparr>ss_tables = \<lparr>tb_application_id = sqlite_application_id, tb_user_version = schema_version,
     tb_objects = [], tb_store_id = Some ''id'', tb_sessions = [], tb_events = []\<rparr>,
     ss_identity = ''file'', ss_schema_verified = False, ss_faults = []\<rparr>"

definition sample_header :: session_header where
  "sample_header = \<lparr>hd_version = 1, hd_id = ''s'', hd_created_at = 7, hd_cwd = [], hd_parent_session = [],
     hd_seed_length = 0, hd_origin = [], hd_delegation_depth = 0, hd_agent_preset = []\<rparr>"

definition first_event :: session_envelope where
  "first_event = new_envelope 0 90 EventTurnStart (JObj [])"

lemma storable_first_event: "storable first_event"
  by (simp add: storable_def first_event_def new_envelope_def packed_tags_def source_seqs_def classify_delta_def in_int64_def)

lemma fresh_store_ready: "ready_store [] sid fresh_store \<and> stored_log sid (ss_tables fresh_store) = []"
  by (simp add: ready_store_def fresh_store_def owned_def unique_ids_def intact_def stored_log_def session_rows_def
      objects_match_def schema_objects_of_def)

lemma sqlite_append_all_or_nothing_witness:
  "\<exists>s'. sqlite_append_batch [] ''u'' sample_header [first_event] False fresh_store = (s', Inr ()) \<and>
     length (stored_log ''s'' (ss_tables s')) = 1"
proof -
  have "fst (sqlite_append_batch [] ''u'' sample_header [first_event] False fresh_store) = s' \<Longrightarrow> is_ok
      (snd (sqlite_append_batch [] ''u'' sample_header [first_event] False fresh_store))" for s'
    by code_simp
  then obtain s' where ok: "sqlite_append_batch [] ''u'' sample_header [first_event] False fresh_store = (s', Inr ())"
    by (cases "sqlite_append_batch [] ''u'' sample_header [first_event] False fresh_store") (auto simp: is_ok_iff)
  have "intact ''s'' (ss_tables fresh_store)" using fresh_store_ready [of "''s''"] by (simp add: ready_store_def)
  then show ?thesis
    using sqlite_append_all_or_nothing [of sample_header fresh_store "[first_event]" "[]" "''u''" False] ok
      fresh_store_ready [of "''s''"] storable_first_event
    by (auto simp: sample_header_def first_event_def new_envelope_def dest: list_all2_lengthD)
qed

text \<open>
  C10. The store refines the list an agent believes it has.  While the rows mirror the list, appending one
  storable event succeeds on both or is refused on both with the same two numbers; afterwards the
  rows mirror the list again, and reading from any number gives the events of the list from
  that number on, also when the number lies inside a packed row.
\<close>
theorem sqlite_refines_event_list:
  assumes "mirrors required (hd_id meta) events s" and "storable e"
  shows "case append_batch False events e of
      Inl err \<Rightarrow> \<exists>s'. append_events required fresh meta [e] s =
          (s', Inl (AppendSeq (hd_id meta) (env_seq e) (stored_next events))) \<and> ss_tables s' = ss_tables s
    | Inr events' \<Rightarrow> \<exists>s'. append_events required fresh meta [e] s = (s', Inr ()) \<and>
          mirrors required (hd_id meta) events' s' \<and>
          (\<forall>f\<ge>0. \<exists>es. sqlite_get_events (hd_id meta) f s' = (s', Inr es) \<and> list_all2 read_back (get_events events' f) es)"
proof (cases "env_seq e = stored_next events")
  case False
  then have n: "env_seq (hd [e]) \<noteq> int (length (stored_log (hd_id meta) (ss_tables s)))"
    using mirrors_next(1) [OF assms(1)] by simp
  obtain v where "append_events required fresh meta [e] s = (s\<lparr>ss_schema_verified := v\<rparr>,
      Inl (AppendSeq (hd_id meta) (env_seq (hd [e])) (int (length (stored_log (hd_id meta) (ss_tables s))))))"
    using append_events_refused [OF _ _ n] assms(1) unfolding mirrors_def by blast
  with False mirrors_next(1) [OF assms(1)] show ?thesis by (simp add: append_batch_def)
next
  case True
  then have c: "check_contiguous (int (length (stored_log (hd_id meta) (ss_tables s)))) [e]"
    using mirrors_next(1) [OF assms(1)] by simp
  obtain s' new where a: "append_events required fresh meta [e] s = (s', Inr ())" "ready_store required (hd_id meta) s'"
    "stored_log (hd_id meta) (ss_tables s') = stored_log (hd_id meta) (ss_tables s) @ new" "list_all2 read_back [e] new"
    using sqlite_log.append_ok [of required meta s "[e]" fresh] assms c by (auto simp: mirrors_def)
  have m: "list_all2 read_back (events @ [e]) (stored_log (hd_id meta) (ss_tables s'))"
    using assms(1) a(3,4) by (simp add: mirrors_def list_all2_appendI)
  have "sqlite_get_events (hd_id meta) f s' = (s', Inr (filter (\<lambda>e. f \<le> env_seq e) (stored_log (hd_id meta) (ss_tables s'))))"
    if "0 \<le> f" for f using get_events_quiet [of s' "hd_id meta" f] a(2) that by (simp add: ready_store_def)
  then show ?thesis
    using True a m read_back_filter [OF m] by (simp add: append_batch_def mirrors_def get_events_def)
qed

lemma sqlite_refines_event_list_witness:
  "\<exists>s' es. append_events [] ''u'' sample_header [first_event] fresh_store = (s', Inr ()) \<and>
     sqlite_get_events ''s'' 0 s' = (s', Inr es) \<and> list_all2 read_back [first_event] es"
proof -
  have m: "mirrors [] (hd_id sample_header) [] fresh_store"
    using fresh_store_ready by (simp add: mirrors_def)
  have "append_batch False [] first_event = Inr [first_event]"
    by (simp add: append_batch_def stored_next_def first_event_def new_envelope_def)
  with sqlite_refines_event_list [OF m storable_first_event, of "''u''"] obtain s' where
    s': "append_events [] ''u'' sample_header [first_event] fresh_store = (s', Inr ())"
    "\<forall>f\<ge>0. \<exists>es. sqlite_get_events (hd_id sample_header) f s' = (s', Inr es) \<and>
       list_all2 read_back (get_events [first_event] f) es" by auto
  from s'(2) obtain es where "sqlite_get_events (hd_id sample_header) 0 s' = (s', Inr es)"
    "list_all2 read_back (get_events [first_event] 0) es" by blast
  with s'(1) show ?thesis by (auto simp: get_events_def first_event_def new_envelope_def sample_header_def)
qed

text \<open>
  C18. Repairing a session restores a log that can be written again.  When the scan of a session
  finds the events \<open>es\<close> and a torn tail, \<open>commitRepair\<close> with that marker and closing events that continue
  \<open>es\<close> succeeds; the rows then stand for exactly \<open>es\<close> followed by the closing events, none torn.
\<close>
theorem repair_restores_log:
  assumes "ss_faults s = []" and "owned required s" and "unique_ids (ss_tables s)" and "keyed (ss_tables s)"
    and "session_row_of (hd_id meta) (ss_tables s) \<noteq> None"
    and "\<forall>r\<in>set (session_rows (hd_id meta) (ss_tables s)). tagged r"
    and "scan_rows (session_rows (hd_id meta) (ss_tables s)) 0 = Inr (es, torn)"
    and "\<forall>e\<in>set closers. storable e" and "check_contiguous (int (length es)) closers"
    and "torn \<noteq> None \<or> closers \<noteq> []"
  shows "\<exists>s' new. commit_repair required meta torn closers s = (s', Inr ()) \<and>
    ready_store required (hd_id meta) s' \<and> stored_log (hd_id meta) (ss_tables s') = es @ new \<and>
    list_all2 read_back closers new"
  by (rule commit_repair_quiet [OF assms])

text \<open>A session whose second row lost its data.\<close>

definition torn_store :: sqlite_store where
  "torn_store = fresh_store\<lparr>ss_tables := (ss_tables fresh_store)\<lparr>
     tb_sessions := [blank_row ''s'' ''u''],
     tb_events := [(''s'', \<lparr>er_seq = 0, er_type = ''turn/start'', er_time = 0, er_data = Some (JObj []),
        er_sources = None, er_surface_op = None, er_ignorable = None\<rparr>),
      (''s'', \<lparr>er_seq = 1, er_type = ''text-chunks'', er_time = 0, er_data = Some (JObj []),
        er_sources = None, er_surface_op = None, er_ignorable = Some 0\<rparr>)]\<rparr>\<rparr>"

lemma torn_store_scan:
  "scan_rows (session_rows ''s'' (ss_tables torn_store)) 0 = Inr ([new_envelope 0 0 ''turn/start'' (JObj [])], Some 1)"
  by code_simp

lemma repair_restores_log_witness:
  "\<exists>s'. commit_repair [] sample_header (Some 1) [] torn_store = (s', Inr ()) \<and>
     stored_log ''s'' (ss_tables s') = [new_envelope 0 0 ''turn/start'' (JObj [])]"
proof -
  have "ss_faults torn_store = []" "owned [] torn_store" "unique_ids (ss_tables torn_store)" "keyed (ss_tables torn_store)"
    "session_row_of ''s'' (ss_tables torn_store) \<noteq> None"
    by (simp_all add: torn_store_def fresh_store_def owned_def unique_ids_def keyed_def session_row_of_def blank_row_def
        objects_match_def schema_objects_of_def)
  moreover have "\<forall>r\<in>set (session_rows ''s'' (ss_tables torn_store)). tagged r"
    by (simp add: torn_store_def fresh_store_def session_rows_def tagged_def packed_tags_def)
  ultimately show ?thesis
    using repair_restores_log [of torn_store "[]" sample_header _ "Some 1" "[]"] torn_store_scan
    by (fastforce simp: sample_header_def)
qed

text \<open>
  Two agents that take up the same session cannot overwrite each other: when both have read the log
  and both append what should come next, the first is stored and the second is refused, and
  the log stays what the first one left.
\<close>
theorem sqlite_second_writer_refused:
  assumes "ready_store required (hd_id meta) s" and "a \<noteq> []" and "\<forall>e\<in>set a. storable e" and "b \<noteq> []"
    and "check_contiguous (int (length (stored_log (hd_id meta) (ss_tables s)))) a"
    and "check_contiguous (int (length (stored_log (hd_id meta) (ss_tables s)))) b"
  shows "\<exists>s1 s2 err. append_events required fresh meta a s = (s1, Inr ()) \<and>
    append_events required fresh meta b s1 = (s2, Inl err) \<and>
    stored_log (hd_id meta) (ss_tables s2) = stored_log (hd_id meta) (ss_tables s1)"
  using sqlite_log.second_writer_refused [of required meta s a b fresh] assms by blast

lemma sqlite_second_writer_refused_witness:
  "\<exists>s1 s2 err. append_events [] ''u'' sample_header [first_event] fresh_store = (s1, Inr ()) \<and>
     append_events [] ''u'' sample_header [first_event] s1 = (s2, Inl err)"
proof -
  have "check_contiguous (int (length (stored_log (hd_id sample_header) (ss_tables fresh_store)))) [first_event]"
    using fresh_store_ready by (simp add: first_event_def new_envelope_def)
  with sqlite_second_writer_refused [of "[]" sample_header fresh_store "[first_event]" "[first_event]" "''u''"]
    fresh_store_ready storable_first_event show ?thesis by auto
qed

section \<open>What the code does at the edges\<close>

text \<open>A torn last row blocks every append until somebody repairs it.\<close>

lemma decode_rows_last:
  assumes "decode_rows (filter P rows) = Inr es" and "rows \<noteq> []" and "P (last rows)"
  shows "\<exists>x. decode_row (last rows) = Inr x"
proof (cases rows rule: rev_cases)
  case (snoc xs x)
  with assms have "decode_rows (filter P xs @ [x]) = Inr es" by simp
  with snoc show ?thesis unfolding decode_rows_append by (auto simp: and_then_Inr_iff)
qed (use assms in simp)

lemma torn_tail_blocks_append:
  assumes "session_rows (hd_id meta) (ss_tables s) \<noteq> []"
    and "decode_row (last (session_rows (hd_id meta) (ss_tables s))) = Inl err" and "es \<noteq> []"
    and "0 \<le> er_seq (last (session_rows (hd_id meta) (ss_tables s)))"
  shows "\<exists>s' e. append_events required fresh meta es s = (s', Inl e)"
proof (rule ccontr)
  let ?id = "hd_id meta"
  assume "\<nexists>s' e. append_events required fresh meta es s = (s', Inl e)"
  then obtain s' where ok: "append_events required fresh meta es s = (s', Inr ())"
    by (cases "append_events required fresh meta es s"; cases "snd (append_events required fresh meta es s)") auto
  obtain s1 s3 s4 s5 lst where st: "ss_tables s1 = ss_tables s" "verify_schema required s1 = (s3, Inr ())"
    "write_session_row_tx meta fresh s3 = (s4, Inr ())" "logical_last_event_tx ?id s4 = (s5, Inr lst)"
    by (rule append_steps [OF ok [unfolded append_events_def] assms(3)]) auto
  have rows: "session_rows ?id (ss_tables s4) = session_rows ?id (ss_tables s)"
    using st(3) verify_Inr [OF st(2)] st(1)
    by (auto simp: write_session_row_tx_def dest!: sql_exec_Inr sym [of _ "ss_tables s4"])
  have no: "scan_rows (filter P (session_rows ?id (ss_tables s))) n \<noteq> Inr (p, None)"
    if "P (last (session_rows ?id (ss_tables s)))" for P n p
  proof
    let ?rows = "filter P (session_rows ?id (ss_tables s))"
    assume "scan_rows ?rows n = Inr (p, None)"
    with scan_loop_cases [of 0 ?rows "[]" ?rows n n "last_turn_end_row ?rows (length ?rows)"]
    have "decode_rows ?rows = Inr p" by (auto simp: scan_rows_def)
    from decode_rows_last [OF this assms(1) that] assms(2) show False by simp
  qed
  have "sorted (map er_seq (session_rows ?id (ss_tables s)))" by (simp add: session_rows_def)
  note reach = window_reaches_last [OF this assms(1,4)]
  let ?flr = "max 0 (er_seq (hd (rev (take 2 (rev (session_rows ?id (ss_tables s)))))) - int max_packed_row_members + 1)"
  have "rows_from ?id ?flr (ss_tables s4) = filter (\<lambda>r. ?flr \<le> er_seq r) (session_rows ?id (ss_tables s))"
    by (simp add: rows_from_def rows)
  moreover from st(4) assms(1) obtain n p where "scan_rows (rows_from ?id ?flr (ss_tables s4)) n = Inr (p, None)"
    unfolding logical_last_event_tx_def tx_bind_Inr_iff
    by (elim exE conjE) (drule sql_query_Inr, clarsimp simp: rows Let_def tx_bind_Inr_iff
        split: if_splits, drule sql_query_Inr, auto simp: rows split: sum.splits option.splits)
  ultimately have "scan_rows (filter (\<lambda>r. ?flr \<le> er_seq r) (session_rows ?id (ss_tables s))) n = Inr (p, None)" by simp
  with no [of "\<lambda>r. ?flr \<le> er_seq r" n p] reach show False by simp
qed

text \<open>A negative start, as \<open>session.history\<close> passes it on, makes a whole log look corrupt.\<close>

lemma negative_start_reads_corrupt:
  "snd (sqlite_get_events ''s'' (- 1) (fresh_store\<lparr>ss_tables := (ss_tables fresh_store)\<lparr>
     tb_events := [(''s'', \<lparr>er_seq = 0, er_type = ''turn/end'', er_time = 0, er_data = Some (JObj []),
        er_sources = None, er_surface_op = None, er_ignorable = None\<rparr>)]\<rparr>\<rparr>)) = Inl (Unreadable (CorruptLog 0))"
  by code_simp

text \<open>Writing the metadata of a session and reading it gives the metadata back; the revision stays.\<close>

lemma overwrite_sel:
  "sr_id (blank_row sid fresh) = sid" "sr_revision (overwrite_row meta r) = sr_revision r"
  "sr_incarnation (overwrite_row meta r) = sr_incarnation r"
  by (simp_all add: blank_row_def overwrite_row_def)

lemma put_session_reads_back:
  assumes "put_session required fresh meta s = (s', Inr u)"
  shows "map_option row_to_meta (session_row_of (hd_id meta) (ss_tables s')) = Some meta \<and>
    (\<forall>r. session_row_of (hd_id meta) (ss_tables s) = Some r \<longrightarrow> (\<exists>r'. session_row_of (hd_id meta) (ss_tables s') = Some r' \<and>
       sr_revision r' = sr_revision r \<and> sr_incarnation r' = sr_incarnation r)) \<and>
    (\<forall>sid. sid \<noteq> hd_id meta \<longrightarrow> session_row_of sid (ss_tables s') = session_row_of sid (ss_tables s))"
proof -
  from assms obtain s1 s2 s3 where st: "ss_tables s1 = ss_tables s" "ss_tables s' = ss_tables s3"
    "validate_schema_for_mutation required s1 = (s2, Inr ())" "write_session_row_tx meta fresh s2 = (s3, Inr u)"
    unfolding put_session_def by (auto elim!: in_transaction_Inr simp: tx_bind_Inr_iff)
  from sql_exec_Inr [OF st(4) [unfolded write_session_row_tx_def]]
  have "ss_tables s3 = (ss_tables s2)\<lparr>tb_sessions := upsert_session meta fresh (tb_sessions (ss_tables s2))\<rparr>" by simp
  with st validate_Inr [OF st(3)]
  have "tb_sessions (ss_tables s') = upsert_session meta fresh (tb_sessions (ss_tables s))" by simp
  then show ?thesis
    by (auto simp: session_row_of_def session_row_upsert row_to_meta_overwrite overwrite_sel
        dest: find_holds split: option.splits)
qed

end
