(* ===== verification/Json_Text.thy ===== *)
theory Json_Text imports Json Go_Strings begin

text \<open>
  The texts of \<open>encoding/json\<close>: what \<open>json.Marshal\<close> writes for a value and what the scanner of
  \<open>json.Unmarshal\<close> accepts.  Bytes are characters; texts are taken to be valid UTF-8.  A number
  with a fraction or exponent is written as mantissa and exponent.  The parser recurses on fuel,
  of which twice the length of the text and two more are enough (\<open>parse_enough\<close>); nesting is
  limited to the 10000 levels of the library.
\<close>

section \<open>Writing\<close>

definition hex_digit :: "nat \<Rightarrow> char" where
  "hex_digit n = (if n < 10 then char_of (48 + n) else char_of (87 + n))"

definition u_escape :: "nat \<Rightarrow> string" where
  "u_escape n = [CHR 0x5C, CHR ''u'', hex_digit (n div 4096 mod 16), hex_digit (n div 256 mod 16),
     hex_digit (n div 16 mod 16), hex_digit (n mod 16)]"

definition escape_char :: "char \<Rightarrow> string" where
  "escape_char c =
     (if c = CHR 0x22 \<or> c = CHR 0x5C then [CHR 0x5C, c]
      else if c = CHR 0x08 then [CHR 0x5C, CHR ''b'']
      else if c = CHR 0x0C then [CHR 0x5C, CHR ''f'']
      else if c = CHR 0x0A then [CHR 0x5C, CHR ''n'']
      else if c = CHR 0x0D then [CHR 0x5C, CHR ''r'']
      else if c = CHR 0x09 then [CHR 0x5C, CHR ''t'']
      else if (of_char c :: nat) < 32 \<or> c \<in> set [CHR ''<'', CHR ''>'', CHR ''&'']
      then u_escape (of_char c)
      else [c])"

text \<open>The two line separators U+2028 and U+2029 are escaped as well.\<close>

definition line_separator :: "string \<Rightarrow> nat option" where
  "line_separator s =
     (if take 3 s = [CHR 0xE2, CHR 0x80, CHR 0xA8] then Some 0x2028
      else if take 3 s = [CHR 0xE2, CHR 0x80, CHR 0xA9] then Some 0x2029 else None)"

function json_escape :: "string \<Rightarrow> string" where
  "json_escape s = (case s of [] \<Rightarrow> []
     | c # t \<Rightarrow> (case line_separator s of
          Some n \<Rightarrow> u_escape n @ json_escape (drop 3 s)
        | None \<Rightarrow> escape_char c @ json_escape t))"
  by pat_completeness auto
termination
  by (relation "measure length") auto

declare json_escape.simps [simp del]

definition quote_json :: "string \<Rightarrow> string" where
  "quote_json s = CHR 0x22 # json_escape s @ [CHR 0x22]"

fun join_commas :: "string list \<Rightarrow> string" where
  "join_commas [] = []"
| "join_commas [w] = w"
| "join_commas (w # ws) = w @ CHR '','' # join_commas ws"

fun print_json :: "json \<Rightarrow> string" where
  "print_json JNull = ''null''"
| "print_json (JBool b) = (if b then ''true'' else ''false'')"
| "print_json (JInt i) = itoa i"
| "print_json (JFrac m e) = itoa m @ CHR ''e'' # itoa e"
| "print_json (JStr s) = quote_json s"
| "print_json (JArr js) = CHR ''['' # join_commas (map print_json js) @ '']''"
| "print_json (JObj kvs) =
     CHR ''{'' # join_commas (map (\<lambda>kv. quote_json (fst kv) @ CHR '':'' # print_json (snd kv)) kvs) @ ''}''"

section \<open>Reading\<close>

definition is_ws :: "char \<Rightarrow> bool" where
  "is_ws c \<longleftrightarrow> c \<in> set [CHR '' '', CHR 0x09, CHR 0x0A, CHR 0x0D]"

definition skip_ws :: "string \<Rightarrow> string" where
  "skip_ws s = dropWhile is_ws s"

definition hex_value :: "char \<Rightarrow> nat option" where
  "hex_value c = (let n = of_char c :: nat in
     if 48 \<le> n \<and> n \<le> 57 then Some (n - 48)
     else if 97 \<le> n \<and> n \<le> 102 then Some (n - 87)
     else if 65 \<le> n \<and> n \<le> 70 then Some (n - 55) else None)"

text \<open>\<open>getu4\<close> behind a backslash and a \<open>u\<close>: four hex digits and the rest.\<close>

definition four_hex :: "string \<Rightarrow> (nat \<times> string) option" where
  "four_hex s = (case s of a # b # c # d # t \<Rightarrow>
       (case (hex_value a, hex_value b, hex_value c, hex_value d) of
          (Some w, Some x, Some y, Some z) \<Rightarrow> Some (4096 * w + 256 * x + 16 * y + z, t)
        | _ \<Rightarrow> None)
     | _ \<Rightarrow> None)"

definition utf8_encode :: "nat \<Rightarrow> string" where
  "utf8_encode n =
     (if n < 0x80 then [char_of n]
      else if n < 0x800 then [char_of (0xC0 + n div 64), char_of (0x80 + n mod 64)]
      else if n < 0x10000 then
        [char_of (0xE0 + n div 4096), char_of (0x80 + n div 64 mod 64), char_of (0x80 + n mod 64)]
      else [char_of (0xF0 + n div 262144), char_of (0x80 + n div 4096 mod 64),
            char_of (0x80 + n div 64 mod 64), char_of (0x80 + n mod 64)])"

definition is_surrogate :: "nat \<Rightarrow> bool" where
  "is_surrogate n \<longleftrightarrow> 0xD800 \<le> n \<and> n < 0xE000"

text \<open>One escaped code point; a high surrogate looks for its partner, a lone one is replaced.\<close>

definition read_u_escape :: "string \<Rightarrow> (string \<times> string) option" where
  "read_u_escape s = (case four_hex s of
      None \<Rightarrow> None
    | Some (n, t) \<Rightarrow>
        if \<not> is_surrogate n then Some (utf8_encode n, t)
        else (case (if take 2 t = [CHR 0x5C, CHR ''u''] then four_hex (drop 2 t) else None) of
                 Some (m, t') \<Rightarrow>
                   (if n < 0xDC00 \<and> 0xDC00 \<le> m \<and> m < 0xE000
                    then Some (utf8_encode (0x10000 + (n - 0xD800) * 1024 + (m - 0xDC00)), t')
                    else Some (utf8_encode 0xFFFD, t))
               | None \<Rightarrow> Some (utf8_encode 0xFFFD, t)))"

definition short_escape :: "char \<Rightarrow> char option" where
  "short_escape c =
     (if c = CHR 0x22 \<or> c = CHR 0x5C \<or> c = CHR ''/'' then Some c
      else if c = CHR ''b'' then Some (CHR 0x08)
      else if c = CHR ''f'' then Some (CHR 0x0C)
      else if c = CHR ''n'' then Some (CHR 0x0A)
      else if c = CHR ''r'' then Some (CHR 0x0D)
      else if c = CHR ''t'' then Some (CHR 0x09) else None)"

lemma four_hex_length: "four_hex s = Some (n, t) \<Longrightarrow> length t < length s"
  by (auto simp: four_hex_def split: list.splits option.splits)

lemma read_u_escape_length: "read_u_escape s = Some (x, t) \<Longrightarrow> length t < length s"
  unfolding read_u_escape_def
  by (auto split: option.splits prod.splits if_splits dest!: four_hex_length)

text \<open>The inside of a string up to its closing quote.\<close>

function read_string :: "string \<Rightarrow> (string \<times> string) option" where
  "read_string s = (case s of [] \<Rightarrow> None
     | c # t \<Rightarrow>
        if c = CHR 0x22 then Some ([], t)
        else if c = CHR 0x5C then
          (case t of [] \<Rightarrow> None
           | d # u \<Rightarrow>
              if d = CHR ''u'' then
                (case read_u_escape u of None \<Rightarrow> None
                 | Some (x, v) \<Rightarrow> map_option (\<lambda>(w, r). (x @ w, r)) (read_string v))
              else (case short_escape d of None \<Rightarrow> None
                 | Some x \<Rightarrow> map_option (\<lambda>(w, r). (x # w, r)) (read_string u)))
        else if (of_char c :: nat) < 32 then None
        else map_option (\<lambda>(w, r). (c # w, r)) (read_string t))"
  by pat_completeness auto
termination
  by (relation "measure length") (auto dest: read_u_escape_length)

declare read_string.simps [simp del]

definition is_dec :: "char \<Rightarrow> bool" where
  "is_dec c \<longleftrightarrow> digit_value c \<noteq> None"

definition digits_nat :: "string \<Rightarrow> nat" where
  "digits_nat ds = (case number_from 0 ds of Some n \<Rightarrow> n | None \<Rightarrow> 0)"

text \<open>The integer part: a zero, or digits that do not start with one.\<close>

definition read_int_part :: "string \<Rightarrow> (string \<times> string) option" where
  "read_int_part s = (case s of [] \<Rightarrow> None
     | c # t \<Rightarrow> if c = CHR ''0'' then Some ([c], t)
               else if is_dec c then Some (takeWhile is_dec s, dropWhile is_dec s) else None)"

definition read_fraction :: "string \<Rightarrow> (string option \<times> string) option" where
  "read_fraction s = (case s of c # t \<Rightarrow>
       if c = CHR ''.'' then (if takeWhile is_dec t = [] then None
                              else Some (Some (takeWhile is_dec t), dropWhile is_dec t))
       else Some (None, s)
     | [] \<Rightarrow> Some (None, s))"

definition read_exponent :: "string \<Rightarrow> (int option \<times> string) option" where
  "read_exponent s = (case s of c # t \<Rightarrow>
       if c = CHR ''e'' \<or> c = CHR ''E'' then
         (let neg = (t \<noteq> [] \<and> hd t = CHR ''-'');
              u = (if t \<noteq> [] \<and> hd t \<in> set [CHR ''+'', CHR ''-''] then tl t else t);
              ds = takeWhile is_dec u
          in if ds = [] then None
             else Some (Some (if neg then - int (digits_nat ds) else int (digits_nat ds)), dropWhile is_dec u))
       else Some (None, s)
     | [] \<Rightarrow> Some (None, s))"

definition parse_number :: "string \<Rightarrow> (json \<times> string) option" where
  "parse_number s =
     (let neg = (s \<noteq> [] \<and> hd s = CHR ''-'');
          sign = (\<lambda>n. if neg then - int n else int n)
      in Option.bind (read_int_part (if neg then tl s else s)) (\<lambda>(ds, r).
         Option.bind (read_fraction r) (\<lambda>(frac, r').
         map_option (\<lambda>(ex, r'').
           (case (frac, ex) of
              (None, None) \<Rightarrow> JInt (sign (digits_nat ds))
            | _ \<Rightarrow> (let fs = (case frac of Some f \<Rightarrow> f | None \<Rightarrow> []);
                        e = (case ex of Some e \<Rightarrow> e | None \<Rightarrow> 0)
                    in JFrac (sign (digits_nat (ds @ fs))) (e - int (length fs))), r''))
         (read_exponent r'))))"

definition parse_literal :: "string \<Rightarrow> (json \<times> string) option" where
  "parse_literal s =
     (if take 4 s = ''null'' then Some (JNull, drop 4 s)
      else if take 4 s = ''true'' then Some (JBool True, drop 4 s)
      else if take 5 s = ''false'' then Some (JBool False, drop 5 s)
      else parse_number s)"

fun parse_value :: "nat \<Rightarrow> nat \<Rightarrow> string \<Rightarrow> (json \<times> string) option"
and parse_elems :: "nat \<Rightarrow> nat \<Rightarrow> string \<Rightarrow> (json list \<times> string) option"
and parse_members :: "nat \<Rightarrow> nat \<Rightarrow> string \<Rightarrow> ((string \<times> json) list \<times> string) option" where
  "parse_value 0 d s = None"
| "parse_value (Suc f) d s =
     (case skip_ws s of [] \<Rightarrow> None
      | c # t \<Rightarrow>
         if c = CHR ''['' then
           (if d = 0 then None
            else if skip_ws t \<noteq> [] \<and> hd (skip_ws t) = CHR '']'' then Some (JArr [], tl (skip_ws t))
            else map_option (\<lambda>(js, r). (JArr js, r)) (parse_elems f (d - 1) t))
         else if c = CHR ''{'' then
           (if d = 0 then None
            else if skip_ws t \<noteq> [] \<and> hd (skip_ws t) = CHR ''}'' then Some (JObj [], tl (skip_ws t))
            else map_option (\<lambda>(kvs, r). (JObj kvs, r)) (parse_members f (d - 1) t))
         else if c = CHR 0x22 then map_option (\<lambda>(w, r). (JStr w, r)) (read_string t)
         else parse_literal (c # t))"
| "parse_elems 0 d s = None"
| "parse_elems (Suc f) d s =
     (case parse_value f d s of None \<Rightarrow> None
      | Some (v, r) \<Rightarrow>
         (case skip_ws r of [] \<Rightarrow> None
          | c # t \<Rightarrow> if c = CHR '','' then map_option (\<lambda>(vs, r'). (v # vs, r')) (parse_elems f d t)
                    else if c = CHR '']'' then Some ([v], t) else None))"
| "parse_members 0 d s = None"
| "parse_members (Suc f) d s =
     (if skip_ws s = [] \<or> hd (skip_ws s) \<noteq> CHR 0x22 then None
      else (case read_string (tl (skip_ws s)) of None \<Rightarrow> None
       | Some (k, r) \<Rightarrow>
          if skip_ws r = [] \<or> hd (skip_ws r) \<noteq> CHR '':'' then None
          else (case parse_value f d (tl (skip_ws r)) of None \<Rightarrow> None
           | Some (v, r') \<Rightarrow>
              (case skip_ws r' of [] \<Rightarrow> None
               | c # t \<Rightarrow> if c = CHR '','' then map_option (\<lambda>(kvs, r''). ((k, v) # kvs, r'')) (parse_members f d t)
                         else if c = CHR ''}'' then Some ([(k, v)], t) else None))))"

definition max_nesting_depth :: nat where "max_nesting_depth = 10000"

definition parse_json :: "string \<Rightarrow> json option" where
  "parse_json s = (case parse_value (2 * length s + 2) max_nesting_depth s of
      Some (j, r) \<Rightarrow> (if skip_ws r = [] then Some j else None) | None \<Rightarrow> None)"

section \<open>Strings read back\<close>

lemma hex_value_digit [simp]: "k < 16 \<Longrightarrow> hex_value (hex_digit k) = Some k"
  by (auto simp: hex_value_def hex_digit_def Let_def)

lemma four_hex_read:
  assumes "n < 65536"
  shows "four_hex (drop 2 (u_escape n) @ v) = Some (n, v)"
proof -
  have "n div 4096 mod 16 = n div 4096" using assms by simp
  moreover have "4096 * (n div 4096) + 256 * (n div 256 mod 16) + 16 * (n div 16 mod 16) + n mod 16 = n"
  proof -
    have "n div 16 * 16 + n mod 16 = n" "n div 16 div 16 * 16 + n div 16 mod 16 = n div 16"
      "n div 256 div 16 * 16 + n div 256 mod 16 = n div 256" by (rule div_mult_mod_eq)+
    moreover have "n div 16 div 16 = n div 256" "n div 256 div 16 = n div 4096"
      by (simp_all add: div_mult2_eq [symmetric])
    ultimately show ?thesis by linarith
  qed
  moreover have "n div 4096 < 16" using assms by simp
  ultimately show ?thesis by (simp add: u_escape_def four_hex_def)
qed

lemma read_string_u_escape:
  assumes "n < 65536" and "\<not> is_surrogate n"
  shows "read_string (u_escape n @ v) = map_option (\<lambda>(w, r). (utf8_encode n @ w, r)) (read_string v)"
proof -
  have u: "u_escape n @ v = CHR 0x5C # CHR ''u'' # (drop 2 (u_escape n) @ v)" by (simp add: u_escape_def)
  have "read_u_escape (drop 2 (u_escape n) @ v) = Some (utf8_encode n, v)"
    using four_hex_read [OF assms(1)] assms(2) by (simp add: read_u_escape_def)
  then show ?thesis unfolding u by (subst read_string.simps) simp
qed

lemma read_string_escape_char:
  "read_string (escape_char c @ v) = map_option (\<lambda>(w, r). (c # w, r)) (read_string v)"
proof (cases "(of_char c :: nat) < 32 \<or> c \<in> set [CHR ''<'', CHR ''>'', CHR ''&'']")
  case True
  then have lt: "(of_char c :: nat) < 0x80" by auto
  then have u: "utf8_encode (of_char c) = [c]" by (simp add: utf8_encode_def)
  have "read_string (u_escape (of_char c) @ v) = map_option (\<lambda>(w, r). (c # w, r)) (read_string v)"
    using read_string_u_escape [of "of_char c" v] u lt by (simp add: is_surrogate_def)
  with True show ?thesis
    by (auto simp: escape_char_def read_string.simps [of "CHR 0x5C # _"] short_escape_def)
next
  case False
  then show ?thesis
    by (auto simp: escape_char_def read_string.simps [of "_ # _"] short_escape_def)
qed

lemma line_separator_Some:
  "line_separator s = Some n \<Longrightarrow> s = utf8_encode n @ drop 3 s \<and> n < 65536 \<and> \<not> is_surrogate n"
proof -
  assume sep: "line_separator s = Some n"
  have "utf8_encode 0x2028 = [CHR 0xE2, CHR 0x80, CHR 0xA8]" "utf8_encode 0x2029 = [CHR 0xE2, CHR 0x80, CHR 0xA9]"
    by (simp_all add: utf8_encode_def char_of_def bit_0)
  with sep have "take 3 s = utf8_encode n" "n = 0x2028 \<or> n = 0x2029"
    by (auto simp: line_separator_def split: if_splits)
  with append_take_drop_id [of 3 s] show ?thesis by (auto simp: is_surrogate_def)
qed

lemma read_string_escape: "read_string (json_escape s @ CHR 0x22 # rest) = Some (s, rest)"
proof (induction s rule: json_escape.induct)
  case (1 s)
  show ?case
  proof (cases s)
    case Nil
    then show ?thesis by (simp add: json_escape.simps [of "[]"] read_string.simps [of "CHR 0x22 # _"])
  next
    case (Cons c t)
    show ?thesis
    proof (cases "line_separator s")
      case None
      with 1(1) [OF Cons None] Cons show ?thesis
        by (simp add: json_escape.simps [of "c # t"] read_string_escape_char)
    next
      case (Some n)
      have "json_escape s = u_escape n @ json_escape (drop 3 s)"
        using Some unfolding Cons by (simp add: json_escape.simps [of "c # t"])
      moreover have "read_string (u_escape n @ json_escape (drop 3 s) @ CHR 0x22 # rest) = Some (utf8_encode n @ drop 3 s, rest)"
        using 1(2) [OF Cons Some] line_separator_Some [OF Some] by (simp add: read_string_u_escape)
      ultimately show ?thesis using line_separator_Some [OF Some] by simp
    qed
  qed
qed

section \<open>Printed text has no control characters\<close>

definition plain :: "string \<Rightarrow> bool" where
  "plain s \<longleftrightarrow> (\<forall>c\<in>set s. 32 \<le> (of_char c :: nat))"

lemma plain_simps [simp]:
  "plain []" "plain (c # s) \<longleftrightarrow> 32 \<le> (of_char c :: nat) \<and> plain s" "plain (s @ t) \<longleftrightarrow> plain s \<and> plain t"
  by (auto simp: plain_def)

lemma plain_u_escape: "plain (u_escape n)"
proof -
  have "32 \<le> (of_char (hex_digit k) :: nat)" if "k < 16" for k
    using that by (auto simp: hex_digit_def)
  then show ?thesis by (simp add: u_escape_def)
qed

lemma plain_escape: "plain (json_escape s)"
proof (induction s rule: json_escape.induct)
  case (1 s)
  show ?case
  proof (cases s)
    case (Cons c t)
    have "plain (escape_char c)" using plain_u_escape by (auto simp: escape_char_def)
    then show ?thesis using 1 Cons plain_u_escape
      by (cases "line_separator s") (auto simp: json_escape.simps [of "c # t"])
  qed (simp add: json_escape.simps)
qed

lemma digit_plain: "is_dec c \<Longrightarrow> 32 \<le> (of_char c :: nat)"
  by (auto simp: is_dec_def digit_value_def Let_def split: if_splits)

lemma number_from_digits: "number_from acc s = Some n \<Longrightarrow> \<forall>c\<in>set s. is_dec c"
  by (induction s arbitrary: acc) (auto simp: is_dec_def split: option.splits)

lemma decimal_digits: "\<forall>c\<in>set (decimal n). is_dec c" "decimal n \<noteq> []"
  using number_decimal [of n] by (auto simp: number_def split: if_splits dest: number_from_digits)

lemma digits_nat_decimal [simp]: "digits_nat (decimal n) = n"
  using number_decimal [of n] by (auto simp: digits_nat_def number_def split: if_splits)

lemma plain_itoa: "plain (itoa i)"
  using decimal_digits(1) digit_plain by (auto simp: itoa_def plain_def)

lemma plain_join: "(\<And>w. w \<in> set ws \<Longrightarrow> plain w) \<Longrightarrow> plain (join_commas ws)"
  by (induction ws rule: join_commas.induct) auto

lemma plain_print: "plain (print_json j)"
proof (induction j)
  case (JObj kvs)
  then have "plain (join_commas (map (\<lambda>kv. quote_json (fst kv) @ CHR '':'' # print_json (snd kv)) kvs))"
    by (intro plain_join) (auto simp: quote_json_def plain_escape intro: snds.intros)
  then show ?case by simp
qed (auto simp: plain_itoa quote_json_def plain_escape intro!: plain_join)

section \<open>Numbers read back\<close>

text \<open>What may follow a number without changing it.\<close>

definition delimited :: "string \<Rightarrow> bool" where
  "delimited s \<longleftrightarrow> s = [] \<or> \<not> is_dec (hd s) \<and> hd s \<notin> set [CHR ''.'', CHR ''e'', CHR ''E'']"

lemma take_digits:
  assumes "\<forall>c\<in>set ds. is_dec c" and "rest = [] \<or> \<not> is_dec (hd rest)"
  shows "takeWhile is_dec (ds @ rest) = ds" "dropWhile is_dec (ds @ rest) = rest"
  using assms by (cases rest; simp)+

lemma decimal_loop_hd: "n < k \<Longrightarrow> 0 < n \<Longrightarrow> hd (decimal_loop k n) \<noteq> CHR ''0''"
proof (induction k arbitrary: n)
  case (Suc k)
  show ?case
  proof (cases "n < 10")
    case True
    have "char_of (48 + n) \<noteq> CHR ''0''"
      using True Suc.prems(2) by (auto dest: arg_cong [where f = "of_char :: char \<Rightarrow> nat"])
    with True show ?thesis by simp
  next
    case False
    then have "0 < n div 10" "n div 10 < k" using Suc.prems by (simp_all add: div_greater_zero_iff)
    moreover from this have "decimal_loop k (n div 10) \<noteq> []" by (cases k) simp_all
    ultimately show ?thesis using Suc.IH [of "n div 10"] False by simp
  qed
qed simp

lemma read_int_part_decimal:
  assumes "rest = [] \<or> \<not> is_dec (hd rest)"
  shows "read_int_part (decimal n @ rest) = Some (decimal n, rest)"
proof (cases "n = 0")
  case True
  have "decimal 0 = ''0''" by code_simp
  with True show ?thesis by (simp add: read_int_part_def)
next
  case False
  have h: "hd (decimal n) \<noteq> CHR ''0''"
    unfolding decimal_def by (rule decimal_loop_hd) (use False in auto)
  obtain c t where ct: "decimal n = c # t" using decimal_digits(2) [of n] by (cases "decimal n") auto
  with h decimal_digits(1) [of n] have "read_int_part (decimal n @ rest) =
      Some (takeWhile is_dec (decimal n @ rest), dropWhile is_dec (decimal n @ rest))"
    by (simp add: read_int_part_def)
  with take_digits [OF decimal_digits(1) assms] show ?thesis by simp
qed

lemma dec_not_sign: "is_dec c \<Longrightarrow> c \<notin> set [CHR ''-'', CHR ''+'', CHR ''.'', CHR ''e'', CHR ''E'', CHR 0x22, CHR ''['', CHR ''{'', CHR ''n'', CHR ''t'', CHR ''f'']"
  by (auto simp: is_dec_def digit_value_def)

lemma decimal_hd: "is_dec (hd (decimal n @ rest))"
  using decimal_digits [of n] by (cases "decimal n") auto

lemma itoa_split:
  obtains neg n where "itoa i = (if neg then CHR ''-'' # decimal n else decimal n)"
    "i = (if neg then - int n else int n)"
proof (cases "i < 0")
  case True
  then show ?thesis by (intro that [of True "nat (- i)"]) (simp_all add: itoa_def)
next
  case False
  then show ?thesis by (intro that [of False "nat i"]) (simp_all add: itoa_def)
qed

lemma parse_number_int:
  assumes "delimited rest"
  shows "parse_number (itoa i @ rest) = Some (JInt i, rest)"
proof -
  obtain neg n where i: "itoa i = (if neg then CHR ''-'' # decimal n else decimal n)"
    "i = (if neg then - int n else int n)" using itoa_split .
  have r: "rest = [] \<or> \<not> is_dec (hd rest)" using assms by (auto simp: delimited_def)
  have f: "read_fraction rest = Some (None, rest)" "read_exponent rest = Some (None, rest)"
    using assms by (cases rest; simp add: delimited_def read_fraction_def read_exponent_def)+
  have "hd (decimal n @ rest) \<noteq> CHR ''-''" "decimal n @ rest \<noteq> []"
    using dec_not_sign [OF decimal_hd, of n rest] decimal_digits(2) [of n] by auto
  then show ?thesis
    using read_int_part_decimal [OF r, of n] f i by (auto simp: parse_number_def Let_def)
qed

lemma parse_number_frac:
  assumes "delimited rest"
  shows "parse_number (itoa m @ CHR ''e'' # itoa e @ rest) = Some (JFrac m e, rest)"
proof -
  obtain neg n where i: "itoa m = (if neg then CHR ''-'' # decimal n else decimal n)"
    "m = (if neg then - int n else int n)" using itoa_split .
  obtain neg' k where e: "itoa e = (if neg' then CHR ''-'' # decimal k else decimal k)"
    "e = (if neg' then - int k else int k)" using itoa_split .
  let ?tail = "CHR ''e'' # itoa e @ rest"
  have r: "rest = [] \<or> \<not> is_dec (hd rest)" using assms by (auto simp: delimited_def)
  have r': "?tail = [] \<or> \<not> is_dec (hd ?tail)" by (simp add: is_dec_def digit_value_def)
  have f: "read_fraction ?tail = Some (None, ?tail)" by (simp add: read_fraction_def)
  have s: "hd (decimal k @ rest) \<notin> set [CHR ''+'', CHR ''-'']" "decimal k @ rest \<noteq> []"
    using dec_not_sign [OF decimal_hd, of k rest] decimal_digits(2) [of k] by auto
  have ex: "read_exponent ?tail = Some (Some e, rest)"
    using s take_digits [OF decimal_digits(1) r, of k] decimal_digits(2) [of k] e
    by (auto simp: read_exponent_def Let_def)
  have "hd (decimal n @ ?tail) \<noteq> CHR ''-''" "decimal n @ ?tail \<noteq> []"
    using dec_not_sign [OF decimal_hd, of n ?tail] decimal_digits(2) [of n] by auto
  then show ?thesis
    using read_int_part_decimal [OF r', of n] f i ex by (auto simp: parse_number_def Let_def)
qed

section \<open>Values read back\<close>

fun json_depth :: "json \<Rightarrow> nat" where
  "json_depth (JArr js) = Suc (foldr max (map json_depth js) 0)"
| "json_depth (JObj kvs) = Suc (foldr max (map (\<lambda>kv. json_depth (snd kv)) kvs) 0)"
| "json_depth _ = 0"

lemma foldr_max_upper: "n \<in> set ns \<Longrightarrow> n \<le> foldr max ns (0::nat)"
  by (induction ns) (auto simp: max_def intro: order_trans)

lemma skip_ws_simps [simp]:
  "skip_ws [] = []" "skip_ws (c # s) = (if is_ws c then skip_ws s else c # s)"
  by (simp_all add: skip_ws_def)

lemma is_ws_marks [simp]:
  "\<not> is_ws (CHR ''['')" "\<not> is_ws (CHR '']'')" "\<not> is_ws (CHR ''{'')" "\<not> is_ws (CHR ''}'')" "\<not> is_ws (CHR '','')"
  "\<not> is_ws (CHR '':'')" "\<not> is_ws (CHR 0x22)"
  by (simp_all add: is_ws_def)

lemma is_dec_marks:
  "\<not> is_dec (CHR '']'')" "\<not> is_dec (CHR ''}'')" "\<not> is_dec (CHR '','')" "\<not> is_dec (CHR 0x0A)"
  by (simp_all add: is_dec_def digit_value_def)

lemma delimited_marks [simp]:
  "delimited []" "delimited (CHR '']'' # s)" "delimited (CHR ''}'' # s)" "delimited (CHR '','' # s)" "delimited (CHR 0x0A # s)"
  by (simp_all add: delimited_def is_dec_marks)

text \<open>The first character of a printed number.\<close>

lemma itoa_first:
  obtains c t where "itoa i = c # t" "c = CHR ''-'' \<or> is_dec c"
proof -
  obtain neg n where i: "itoa i = (if neg then CHR ''-'' # decimal n else decimal n)" using itoa_split by metis
  show ?thesis
  proof (cases neg)
    case False
    obtain c t where ct: "decimal n = c # t" using decimal_digits(2) [of n] by (cases "decimal n") auto
    with False i that decimal_digits(1) [of n] show ?thesis by simp
  qed (use i that in auto)
qed

lemma number_first:
  assumes "c = CHR ''-'' \<or> is_dec c"
  shows "\<not> is_ws c" "c \<notin> set [CHR ''['', CHR ''{'', CHR 0x22, CHR ''n'', CHR ''t'', CHR ''f'', CHR '']'', CHR ''}'']"
  using assms by (auto simp: is_dec_def digit_value_def is_ws_def)

lemma print_first:
  obtains c t where "print_json j = c # t" "\<not> is_ws c" "c \<noteq> CHR '']''" "c \<noteq> CHR ''}''"
proof (cases j)
  case (JInt i)
  obtain c t where "itoa i = c # t" "c = CHR ''-'' \<or> is_dec c" using itoa_first .
  with JInt number_first that show ?thesis by simp
next
  case (JFrac m e)
  obtain c t where "itoa m = c # t" "c = CHR ''-'' \<or> is_dec c" using itoa_first .
  with JFrac number_first that show ?thesis by simp
next
  case (JBool b)
  with that show ?thesis by (cases b) (simp_all add: is_ws_def)
qed (use that in \<open>simp_all add: is_ws_def quote_json_def\<close>)

lemma parse_value_number:
  assumes "s = c # t" and "c = CHR ''-'' \<or> is_dec c"
  shows "parse_value (Suc f) d s = parse_number s"
  using number_first [OF assms(2)] assms(1) by (simp add: parse_literal_def)

lemma parse_value_itoa: "parse_value (Suc f) d (itoa i @ u) = parse_number (itoa i @ u)"
proof -
  obtain c t where "itoa i = c # t" "c = CHR ''-'' \<or> is_dec c" using itoa_first .
  then show ?thesis by (intro parse_value_number [of _ c "t @ u"]) simp_all
qed

lemma parse_string_value:
  "parse_value (Suc f) d (quote_json s @ rest) = Some (JStr s, rest)"
  using read_string_escape [of s rest] by (simp add: quote_json_def)

definition parses_back :: "json \<Rightarrow> bool" where
  "parses_back j \<longleftrightarrow> (\<forall>f d rest. json_depth j \<le> d \<longrightarrow> 2 * length (print_json j) < f \<longrightarrow> delimited rest \<longrightarrow>
     parse_value f d (print_json j @ rest) = Some (j, rest))"

lemma parses_backD:
  "parses_back j \<Longrightarrow> json_depth j \<le> d \<Longrightarrow> 2 * length (print_json j) < f \<Longrightarrow> delimited rest \<Longrightarrow>
   parse_value f d (print_json j @ rest) = Some (j, rest)"
  by (simp add: parses_back_def)

lemma parse_elems_back:
  "js \<noteq> [] \<Longrightarrow> \<forall>j\<in>set js. parses_back j \<and> json_depth j \<le> d \<Longrightarrow>
   2 * length (join_commas (map print_json js)) + 1 < f \<Longrightarrow>
   parse_elems f d (join_commas (map print_json js) @ CHR '']'' # rest) = Some (js, rest)"
proof (induction js arbitrary: f)
  case (Cons j js)
  from Cons.prems(3) obtain g where g: "f = Suc g" by (cases f) auto
  show ?case
  proof (cases js)
    case Nil
    with Cons.prems g parses_backD [of j d g "CHR '']'' # rest"] show ?thesis by simp
  next
    case (Cons k ks)
    let ?more = "join_commas (map print_json js) @ CHR '']'' # rest"
    have split: "join_commas (map print_json (j # js)) = print_json j @ CHR '','' # join_commas (map print_json js)"
      using Cons by simp
    have "parse_value g d (print_json j @ CHR '','' # ?more) = Some (j, CHR '','' # ?more)"
      using parses_backD [of j d g] Cons.prems(2,3) split g by simp
    moreover have "parse_elems g d ?more = Some (js, rest)"
      by (rule Cons.IH) (use Cons Cons.prems split g in auto)
    ultimately show ?thesis using g split by simp
  qed
qed simp

lemma parse_members_back:
  "kvs \<noteq> [] \<Longrightarrow> \<forall>kv\<in>set kvs. parses_back (snd kv) \<and> json_depth (snd kv) \<le> d \<Longrightarrow>
   2 * length (join_commas (map (\<lambda>kv. quote_json (fst kv) @ CHR '':'' # print_json (snd kv)) kvs)) + 1 < f \<Longrightarrow>
   parse_members f d (join_commas (map (\<lambda>kv. quote_json (fst kv) @ CHR '':'' # print_json (snd kv)) kvs) @ CHR ''}'' # rest) =
     Some (kvs, rest)"
proof (induction kvs arbitrary: f)
  case (Cons kv kvs)
  let ?p = "\<lambda>kv. quote_json (fst kv) @ CHR '':'' # print_json (snd kv)"
  from Cons.prems(3) obtain g where g: "f = Suc g" by (cases f) auto
  have key: "read_string (json_escape (fst kv) @ CHR 0x22 # CHR '':'' # u) = Some (fst kv, CHR '':'' # u)" for u
    by (rule read_string_escape)
  show ?case
  proof (cases kvs)
    case Nil
    have "parse_value g d (print_json (snd kv) @ CHR ''}'' # rest) = Some (snd kv, CHR ''}'' # rest)"
      using Nil Cons.prems g by (intro parses_backD) (auto simp: quote_json_def)
    with Nil g key show ?thesis by (simp add: quote_json_def)
  next
    case (Cons k ks)
    let ?more = "join_commas (map ?p kvs) @ CHR ''}'' # rest"
    have split: "join_commas (map ?p (kv # kvs)) = ?p kv @ CHR '','' # join_commas (map ?p kvs)"
      using Cons by simp
    have "parse_value g d (print_json (snd kv) @ CHR '','' # ?more) = Some (snd kv, CHR '','' # ?more)"
      using Cons.prems(2,3) g unfolding split by (intro parses_backD) (auto simp: quote_json_def)
    moreover have "parse_members g d ?more = Some (kvs, rest)"
      by (rule Cons.IH) (use Cons Cons.prems split g in auto)
    ultimately show ?thesis using g split key by (simp add: quote_json_def)
  qed
qed simp

lemma parses_backI:
  assumes "\<And>f d rest. json_depth j \<le> d \<Longrightarrow> 2 * length (print_json j) \<le> f \<Longrightarrow> delimited rest \<Longrightarrow>
    parse_value (Suc f) d (print_json j @ rest) = Some (j, rest)"
  shows "parses_back j"
  unfolding parses_back_def
proof (intro allI impI)
  fix f d rest
  assume *: "json_depth j \<le> d" "2 * length (print_json j) < f" "delimited rest"
  then obtain g where "f = Suc g" "2 * length (print_json j) \<le> g" by (cases f) auto
  with assms * show "parse_value f d (print_json j @ rest) = Some (j, rest)" by simp
qed

lemma json_parses_back: "parses_back j"
proof (induction j)
  case JNull
  show ?case by (rule parses_backI) (simp add: is_ws_def parse_literal_def)
next
  case (JBool b)
  show ?case by (rule parses_backI) (simp add: is_ws_def parse_literal_def)
next
  case (JInt i)
  show ?case by (rule parses_backI) (simp only: print_json.simps parse_value_itoa parse_number_int)
next
  case (JFrac m e)
  show ?case
    by (rule parses_backI) (simp only: print_json.simps append_assoc append_Cons parse_value_itoa parse_number_frac)
next
  case (JStr s)
  show ?case by (rule parses_backI) (simp only: print_json.simps parse_string_value)
next
  case (JArr js)
  show ?case
  proof (rule parses_backI)
    fix f d rest
    assume *: "json_depth (JArr js) \<le> d" "2 * length (print_json (JArr js)) \<le> f" "delimited rest"
    show "parse_value (Suc f) d (print_json (JArr js) @ rest) = Some (JArr js, rest)"
    proof (cases js)
      case Nil
      with * show ?thesis by simp
    next
      case (Cons j ks)
      let ?inner = "join_commas (map print_json js) @ CHR '']'' # rest"
      obtain c t where "print_json j = c # t" "\<not> is_ws c" "c \<noteq> CHR '']''" using print_first by metis
      then have first: "skip_ws ?inner \<noteq> []" "hd (skip_ws ?inner) \<noteq> CHR '']''"
        using Cons by (cases ks; simp)+
      have "\<forall>k\<in>set js. json_depth k \<le> d - 1"
        using *(1) foldr_max_upper [of _ "map json_depth js"] by fastforce
      with JArr Cons * have "parse_elems f (d - 1) ?inner = Some (js, rest)" by (intro parse_elems_back) auto
      with first * show ?thesis by simp
    qed
  qed
next
  case (JObj kvs)
  let ?p = "\<lambda>kv. quote_json (fst kv) @ CHR '':'' # print_json (snd kv)"
  show ?case
  proof (rule parses_backI)
    fix f d rest
    assume *: "json_depth (JObj kvs) \<le> d" "2 * length (print_json (JObj kvs)) \<le> f" "delimited rest"
    show "parse_value (Suc f) d (print_json (JObj kvs) @ rest) = Some (JObj kvs, rest)"
    proof (cases kvs)
      case Nil
      with * show ?thesis by simp
    next
      case (Cons kv ks)
      let ?inner = "join_commas (map ?p kvs) @ CHR ''}'' # rest"
      have first: "skip_ws ?inner \<noteq> []" "hd (skip_ws ?inner) \<noteq> CHR ''}''"
        using Cons by (cases ks; simp add: quote_json_def)+
      have "json_depth (snd x) \<le> d - 1" if "x \<in> set kvs" for x
        using *(1) foldr_max_upper [of "json_depth (snd x)" "map (\<lambda>kv. json_depth (snd kv)) kvs"] that by simp
      moreover have "parses_back (snd x)" if "x \<in> set kvs" for x
        using JObj that by (cases x) (auto intro: snds.intros)
      ultimately have "parse_members f (d - 1) ?inner = Some (kvs, rest)"
        using Cons * by (intro parse_members_back) auto
      with first * show ?thesis by simp
    qed
  qed
qed

text \<open>A printed value, alone on its line, parses back.\<close>

lemma parse_print_json:
  "json_depth j \<le> max_nesting_depth \<Longrightarrow> parse_json (print_json j) = Some j"
  using parses_backD [OF json_parses_back, of j max_nesting_depth "2 * length (print_json j) + 2" "[]"]
  by (simp add: parse_json_def)

text \<open>The fuel of \<open>parse_json\<close> is enough: more of it changes nothing.\<close>

lemma dropWhile_length_le: "length (dropWhile p s) \<le> length s"
  by (induction s) auto

lemma skip_ws_le: "length (skip_ws s) \<le> length s"
  by (simp add: skip_ws_def dropWhile_length_le)

lemma read_string_shorter: "read_string s = Some (w, r) \<Longrightarrow> length r < length s"
proof (induction s arbitrary: w r rule: read_string.induct)
  case (1 s)
  show ?case
  proof (cases s)
    case (Cons c t)
    show ?thesis using "1.prems" "1.IH"(1,2,3) [OF Cons] Cons
      by (subst (asm) read_string.simps)
        (fastforce split: if_splits list.splits option.splits prod.splits dest: read_u_escape_length)
  qed (use 1 in \<open>simp add: read_string.simps\<close>)
qed

lemma read_int_part_shorter: "read_int_part s = Some (ds, r) \<Longrightarrow> length r < length s"
  by (cases s) (auto simp: read_int_part_def less_Suc_eq_le dropWhile_length_le split: if_splits)

lemma read_fraction_shorter: "read_fraction s = Some (x, r) \<Longrightarrow> length r \<le> length s"
  by (cases s) (auto simp: read_fraction_def dropWhile_length_le le_SucI split: if_splits)

lemma read_exponent_shorter:
  assumes "read_exponent s = Some (x, r)"
  shows "length r \<le> length s"
proof (cases s)
  case (Cons c t)
  let ?u = "if t \<noteq> [] \<and> hd t \<in> set [CHR ''+'', CHR ''-''] then tl t else t"
  have "length ?u \<le> length t" by simp
  moreover have "r = s \<or> r = dropWhile is_dec ?u"
    using assms Cons by (simp add: read_exponent_def Let_def del: list.set split: if_split_asm) auto
  moreover have "length (dropWhile is_dec ?u) \<le> length ?u" by (rule dropWhile_length_le)
  ultimately show ?thesis using Cons by auto
qed (use assms in \<open>simp add: read_exponent_def\<close>)

lemma parse_number_shorter: "parse_number s = Some (j, r) \<Longrightarrow> length r < length s"
proof -
  let ?s = "if s \<noteq> [] \<and> hd s = CHR ''-'' then tl s else s"
  assume "parse_number s = Some (j, r)"
  then obtain ds r1 fr r2 ex where "read_int_part ?s = Some (ds, r1)" "read_fraction r1 = Some (fr, r2)"
    "read_exponent r2 = Some (ex, r)"
    unfolding parse_number_def Let_def by (auto simp: bind_eq_Some_conv)
  with read_int_part_shorter [of ?s ds r1] read_fraction_shorter [of r1 fr r2] read_exponent_shorter [of r2 ex r]
  have "length r < length ?s" by simp
  moreover have "length ?s \<le> length s" by simp
  ultimately show ?thesis by linarith
qed

lemma skip_ws_ConsD: "skip_ws s = c # t \<Longrightarrow> length t < length s"
  using skip_ws_le [of s] by simp

lemma skip_ws_tl: "skip_ws s \<noteq> [] \<Longrightarrow> length (tl (skip_ws s)) < length s"
  by (cases "skip_ws s") (auto dest: skip_ws_ConsD)

lemma parse_literal_shorter:
  assumes "parse_literal s = Some (j, r)"
  shows "length r < length s"
proof -
  have "0 < length s" if "take n s \<noteq> []" for n using that by (cases s) auto
  then have "take n s = w \<Longrightarrow> w \<noteq> [] \<Longrightarrow> 0 < n \<Longrightarrow> length (drop n s) < length s" for n and w :: string
    by (metis diff_less length_drop)
  with assms parse_number_shorter [of s j r] show ?thesis
    unfolding parse_literal_def by (metis list.distinct(1) option.inject prod.inject zero_less_numeral)
qed

lemma parse_shorter:
  "parse_value f d s = Some (j, r) \<Longrightarrow> length r < length s"
  "parse_elems f d s = Some (js, r) \<Longrightarrow> length r < length s"
  "parse_members f d s = Some (kvs, r) \<Longrightarrow> length r < length s"
proof (induction f d s and f d s and f d s arbitrary: j r and js r and kvs r
    rule: parse_value_parse_elems_parse_members.induct)
  case (2 f d s)
  obtain c t where ct: "skip_ws s = c # t" using "2.prems" by (cases "skip_ws s") auto
  have lt: "length t < length s" using ct skip_ws_ConsD by blast
  have res: "parse_value (Suc f) d s = Some (j, r)" using "2.prems" .
  have "length r < length (c # t)"
  proof (cases "c = CHR ''[''")
    case arr: True
    show ?thesis
    proof (cases "skip_ws t \<noteq> [] \<and> hd (skip_ws t) = CHR '']''")
      case True
      with res arr ct have "r = tl (skip_ws t)" by (simp split: if_splits)
      with True skip_ws_tl [of t] show ?thesis by simp
    next
      case False
      with res arr ct obtain js where "d \<noteq> 0" "parse_elems f (d - 1) t = Some (js, r)" by (auto split: if_splits)
      with "2.IH"(1) [OF ct arr _ False] show ?thesis by fastforce
    qed
  next
    case not_arr: False
    show ?thesis
    proof (cases "c = CHR ''{''")
      case obj: True
      show ?thesis
      proof (cases "skip_ws t \<noteq> [] \<and> hd (skip_ws t) = CHR ''}''")
        case True
        with res obj ct have "r = tl (skip_ws t)" by (simp split: if_splits)
        with True skip_ws_tl [of t] show ?thesis by simp
      next
        case False
        with res obj ct obtain kvs where "d \<noteq> 0" "parse_members f (d - 1) t = Some (kvs, r)" by (auto split: if_splits)
        with "2.IH"(2) [OF ct not_arr obj _ False] show ?thesis by fastforce
      qed
    next
      case not_obj: False
      show ?thesis
      proof (cases "c = CHR 0x22")
        case True
        with res ct obtain w where "read_string t = Some (w, r)" by auto
        with read_string_shorter show ?thesis by fastforce
      next
        case False
        with res ct not_arr not_obj have "parse_literal (c # t) = Some (j, r)" by simp
        with parse_literal_shorter show ?thesis by blast
      qed
    qed
  qed
  with lt show ?case by simp
next
  case (4 f d s)
  then obtain v u where v: "parse_value f d s = Some (v, u)" by (auto split: option.splits)
  with "4.prems" obtain c t where ct: "skip_ws u = c # t" by (cases "skip_ws u") auto
  from "4.IH"(1) [OF v] skip_ws_ConsD [OF ct] have "length t < length s" by simp
  moreover have "r = t \<or> c = CHR '','' \<and> (\<exists>vs. parse_elems f d t = Some (vs, r))"
    using "4.prems" v ct by (auto split: if_splits)
  then have "r = t \<or> length r < length t" using "4.IH"(2) [OF v refl ct] by blast
  ultimately show ?case by auto
next
  case (6 f d s)
  then have q: "skip_ws s \<noteq> []" "hd (skip_ws s) = CHR 0x22" by (auto split: if_splits)
  with "6.prems" obtain k u where k: "read_string (tl (skip_ws s)) = Some (k, u)" by (auto split: option.splits)
  with "6.prems" q have c: "skip_ws u \<noteq> []" "hd (skip_ws u) = CHR '':''" by (auto split: if_splits)
  with "6.prems" q k obtain v w where v: "parse_value f d (tl (skip_ws u)) = Some (v, w)" by (auto split: option.splits)
  with "6.prems" q k c obtain x t where ct: "skip_ws w = x # t" by (cases "skip_ws w") auto
  have nq: "\<not> (skip_ws s = [] \<or> hd (skip_ws s) \<noteq> CHR 0x22)" and nc: "\<not> (skip_ws u = [] \<or> hd (skip_ws u) \<noteq> CHR '':'')"
    using q c by auto
  have "length t < length s"
    using skip_ws_ConsD [OF ct] "6.IH"(1) [OF nq k refl nc v] skip_ws_tl [OF c(1)] skip_ws_tl [OF q(1)]
      read_string_shorter [OF k] by linarith
  moreover have "r = t \<or> x = CHR '','' \<and> (\<exists>kvs. parse_members f d t = Some (kvs, r))"
    using "6.prems" q k c v ct by (auto split: if_splits)
  then have "r = t \<or> length r < length t" using "6.IH"(2) [OF nq k refl nc v refl ct] by blast
  ultimately show ?case by auto
qed auto

lemma parse_fuel:
  "\<forall>g d s. (2 * length s + 1 \<le> f \<and> 2 * length s + 1 \<le> g \<longrightarrow> parse_value f d s = parse_value g d s) \<and>
     (2 * length s + 2 \<le> f \<and> 2 * length s + 2 \<le> g \<longrightarrow> parse_elems f d s = parse_elems g d s \<and>
       parse_members f d s = parse_members g d s)"
proof (induction f)
  case (Suc f)
  have V: "parse_value f d s = parse_value g d s" if "2 * length s + 1 \<le> f" "2 * length s + 1 \<le> g" for d s g
    using Suc.IH that by blast
  have E: "parse_elems f d s = parse_elems g d s" "parse_members f d s = parse_members g d s"
    if "2 * length s + 2 \<le> f" "2 * length s + 2 \<le> g" for d s g
    using Suc.IH that by blast+
  show ?case
  proof (intro allI conjI impI; elim conjE)
    fix g d and s :: string
    assume le: "2 * length s + 1 \<le> Suc f" "2 * length s + 1 \<le> g"
    then obtain g' where g: "g = Suc g'" by (cases g) auto
    show "parse_value (Suc f) d s = parse_value g d s"
    proof (cases "skip_ws s")
      case (Cons c t)
      have "2 * length t + 2 \<le> f" "2 * length t + 2 \<le> g'" using skip_ws_ConsD [OF Cons] le g by simp_all
      from E [OF this] Cons g show ?thesis by simp
    qed (use g in simp)
  next
    fix g d and s :: string
    assume le: "2 * length s + 2 \<le> Suc f" "2 * length s + 2 \<le> g"
    then obtain g' where g: "g = Suc g'" by (cases g) auto
    have v: "parse_value f d s = parse_value g' d s" by (rule V) (use le g in auto)
    show "parse_elems (Suc f) d s = parse_elems g d s"
    proof (cases "parse_value g' d s")
      case (Some p)
      obtain w r where p: "p = (w, r)" by fastforce
      show ?thesis
      proof (cases "skip_ws r")
        case (Cons c t)
        have "length t < length s" using skip_ws_ConsD [OF Cons] parse_shorter(1) [of g' d s w r] Some p by simp
        then have "parse_elems f d t = parse_elems g' d t" using le g by (intro E) simp_all
        with Some p Cons v g show ?thesis by simp
      qed (use Some p v g in simp)
    qed (use v g in simp)
  next
    fix g d and s :: string
    assume le: "2 * length s + 2 \<le> Suc f" "2 * length s + 2 \<le> g"
    then obtain g' where g: "g = Suc g'" by (cases g) auto
    show "parse_members (Suc f) d s = parse_members g d s"
    proof (cases "skip_ws s \<noteq> [] \<and> hd (skip_ws s) = CHR 0x22")
      case True
      show ?thesis
      proof (cases "read_string (tl (skip_ws s))")
        case (Some p)
        obtain k r where p: "p = (k, r)" by fastforce
        have r: "length r < length s"
          using read_string_shorter [of "tl (skip_ws s)" k r] skip_ws_tl [of s] Some p True by simp
        show ?thesis
        proof (cases "skip_ws r \<noteq> [] \<and> hd (skip_ws r) = CHR '':''")
          case colon: True
          let ?u = "tl (skip_ws r)"
          have u: "length ?u < length s" using skip_ws_tl [of r] colon r by simp
          then have v: "parse_value f d ?u = parse_value g' d ?u" using le g by (intro V) simp_all
          show ?thesis
          proof (cases "parse_value g' d ?u")
            case vs: (Some q)
            obtain w r' where q: "q = (w, r')" by fastforce
            show ?thesis
            proof (cases "skip_ws r'")
              case (Cons c t)
              have "length t < length s"
                using skip_ws_ConsD [OF Cons] parse_shorter(1) [of g' d ?u w r'] vs q u by simp
              then have "parse_members f d t = parse_members g' d t" using le g by (intro E) simp_all
              with True Some p colon vs q Cons v g show ?thesis by simp
            qed (use True Some p colon vs q v g in simp)
          qed (use True Some p colon v g in simp)
        qed (use True Some p g in auto)
      qed (use True g in simp)
    qed (use g in auto)
  qed
qed simp

lemma parse_enough:
  "2 * length s + 2 \<le> f \<Longrightarrow> parse_value f d s = parse_value (2 * length s + 2) d s"
  using parse_fuel [of f, THEN spec, of "2 * length s + 2", THEN spec, of d, THEN spec, of s]
  by (simp del: parse_value.simps)

end
