(* ===== verification/Jsonl_Log.thy ===== *)
theory Jsonl_Log imports Json_Text Row_Store begin

text \<open>
  The JSONL session artifact: the frame scanner and the record reader of
  \<open>pkg/storage/store_sqlite.go\<close>, and the record writer of \<open>pkg/storage/store_jsonl.go\<close>.  Bytes are
  characters.  What a zstd frame decompresses to is an argument, \<open>decode_all\<close>; its outer
  structure, which the scanner walks, is modelled byte for byte.
\<close>

section \<open>Zstandard frames\<close>

datatype frame_error = InvalidMagic | ReservedHeaderBit | ReservedBlockType

definition byte_at :: "string \<Rightarrow> nat \<Rightarrow> nat" where
  "byte_at s i = of_char (s ! i)"

definition zstd_magic :: string where
  "zstd_magic = [CHR 0x28, CHR 0xB5, CHR 0x2F, CHR 0xFD]"

text \<open>A block header of three bytes: last flag, type and size.\<close>

definition block_header :: "string \<Rightarrow> nat" where
  "block_header s = byte_at s 0 + 256 * byte_at s 1 + 65536 * byte_at s 2"

definition block_type :: "string \<Rightarrow> nat" where
  "block_type s = block_header s div 2 mod 4"

definition block_payload :: "string \<Rightarrow> nat" where
  "block_payload s = (if block_type s = 1 then 1 else block_header s div 8)"

text \<open>The block loop: the bytes all blocks take, \<open>None\<close> when the data ends inside a block.\<close>

function blocks_size :: "string \<Rightarrow> frame_error + nat option" where
  "blocks_size s =
     (if length s < 3 then Inr None
      else if block_type s = 3 then Inl ReservedBlockType
      else if length s - 3 < block_payload s then Inr None
      else if odd (block_header s) then Inr (Some (3 + block_payload s))
      else map_sum id (map_option (\<lambda>n. 3 + block_payload s + n)) (blocks_size (drop (3 + block_payload s) s)))"
  by pat_completeness auto
termination
  by (relation "measure length") auto

declare blocks_size.simps [simp del]

text \<open>The bytes behind the descriptor: content size, dictionary id and the window descriptor.\<close>

definition descriptor_size :: "nat \<Rightarrow> nat" where
  "descriptor_size desc =
     (let single_segment = bit desc 5;
          content_size_flag = desc div 64;
          content_size_bytes = (if content_size_flag = 0 \<and> single_segment then 1
                                else if content_size_flag \<noteq> 0 then 2 ^ content_size_flag else 0)
      in content_size_bytes + [0, 1, 2, 4] ! (desc mod 4) + (if single_segment then 0 else 1))"

text \<open>One frame at the front of the data; \<open>None\<close> when it is not complete.\<close>

definition frame_size :: "string \<Rightarrow> frame_error + nat option" where
  "frame_size s =
     (if length s < 4 then Inr None
      else if take 4 s \<noteq> zstd_magic then Inl InvalidMagic
      else if length s = 4 then Inr None
      else (let desc = byte_at s 4
            in if bit desc 3 \<or> bit desc 4 then Inl ReservedHeaderBit
               else if length s - 5 < descriptor_size desc then Inr None
               else (let off = 5 + descriptor_size desc
                     in case blocks_size (drop off s) of
                          Inl e \<Rightarrow> Inl e
                        | Inr None \<Rightarrow> Inr None
                        | Inr (Some n) \<Rightarrow>
                            if bit desc 2 then (if length s - (off + n) < 4 then Inr None else Inr (Some (off + n + 4)))
                            else Inr (Some (off + n)))))"

lemma blocks_size_pos: "blocks_size s = Inr (Some n) \<Longrightarrow> 0 < n"
  by (subst (asm) blocks_size.simps)
    (cases "blocks_size (drop (3 + block_payload s) s)"; auto split: if_splits)

lemma frame_size_pos: "frame_size s = Inr (Some n) \<Longrightarrow> 0 < n"
  by (auto simp: frame_size_def Let_def split: if_splits sum.splits option.splits)

text \<open>The complete frames as \<open>(start, end)\<close>, and where a torn last frame starts (\<open>-1\<close>: none).\<close>

function scan_frames_from :: "string \<Rightarrow> nat \<Rightarrow> (nat \<times> nat) list \<Rightarrow> frame_error + (nat \<times> nat) list \<times> int" where
  "scan_frames_from data off frames =
     (if off < length data then
        (case frame_size (drop off data) of
           Inl e \<Rightarrow> Inl e
         | Inr None \<Rightarrow> Inr (frames, int off)
         | Inr (Some n) \<Rightarrow> scan_frames_from data (off + n) (frames @ [(off, off + n)]))
      else Inr (frames, - 1))"
  by pat_completeness auto
termination
  by (relation "measure (\<lambda>(data, off, _). length data - off)") (auto dest: frame_size_pos)

declare scan_frames_from.simps [simp del]

definition scan_zstd_frames :: "string \<Rightarrow> frame_error + (nat \<times> nat) list \<times> int" where
  "scan_zstd_frames data = scan_frames_from data 0 []"

section \<open>Header line\<close>

datatype header_error =
    HeaderNotJson
  | VersionNotNumber string
  | ForeignVersion string int
  | RetiredPolicyFields
  | NotSessionHeader
  | NegativeCreatedAt
  | NegativeDepth
  | NegativeSeedLength
  | BadOrigin

definition header_json :: "session_header \<Rightarrow> json" where
  "header_json meta = JObj (
     [(''type'', JStr ''session''), (''version'', JInt (hd_version meta)), (''id'', JStr (hd_id meta)),
      (''createdAt'', JInt (hd_created_at meta))] @
     (if hd_cwd meta = [] then [] else [(''cwd'', JStr (hd_cwd meta))]) @
     (if hd_parent_session meta = [] then [] else [(''parentSession'', JStr (hd_parent_session meta))]) @
     (if hd_seed_length meta = 0 then [] else [(''seedLength'', JInt (hd_seed_length meta))]) @
     (if hd_origin meta = [] then [] else [(''origin'', JStr (hd_origin meta))]) @
     [(''delegationDepth'', JInt (hd_delegation_depth meta))] @
     (if hd_agent_preset meta = [] then [] else [(''agentPreset'', JStr (hd_agent_preset meta))]))"

definition dec_opt_int :: "string \<Rightarrow> (string \<times> json) list \<Rightarrow> int option option" where
  "dec_opt_int k kvs = (case json_field k kvs of
      None \<Rightarrow> Some None | Some JNull \<Rightarrow> Some None
    | Some (JInt i) \<Rightarrow> (if in_int64 i then Some (Some i) else None) | Some _ \<Rightarrow> None)"

definition dec_opt_string :: "string \<Rightarrow> (string \<times> json) list \<Rightarrow> string option option" where
  "dec_opt_string k kvs = (case json_field k kvs of
      None \<Rightarrow> Some None | Some JNull \<Rightarrow> Some None | Some (JStr s) \<Rightarrow> Some (Some s) | Some _ \<Rightarrow> None)"

record header_fields =
  hf_type :: string
  hf_version :: int
  hf_id :: string
  hf_created_at :: "int option"
  hf_cwd :: "string option"
  hf_parent_session :: "string option"
  hf_seed_length :: "int option"
  hf_origin :: "string option"
  hf_delegation_depth :: "int option"
  hf_agent_preset :: "string option"

definition dec_header_fields :: "(string \<times> json) list \<Rightarrow> header_fields option" where
  "dec_header_fields kvs =
     Option.bind (dec_string ''type'' kvs) (\<lambda>ty.
     Option.bind (dec_int ''version'' kvs) (\<lambda>version.
     Option.bind (dec_string ''id'' kvs) (\<lambda>sid.
     Option.bind (dec_opt_int ''createdAt'' kvs) (\<lambda>created.
     Option.bind (dec_opt_string ''cwd'' kvs) (\<lambda>cwd.
     Option.bind (dec_opt_string ''parentSession'' kvs) (\<lambda>parent.
     Option.bind (dec_opt_int ''seedLength'' kvs) (\<lambda>seed.
     Option.bind (dec_opt_string ''origin'' kvs) (\<lambda>origin.
     Option.bind (dec_opt_int ''delegationDepth'' kvs) (\<lambda>depth.
     map_option (\<lambda>preset. \<lparr>hf_type = ty, hf_version = version, hf_id = sid, hf_created_at = created,
         hf_cwd = cwd, hf_parent_session = parent, hf_seed_length = seed, hf_origin = origin,
         hf_delegation_depth = depth, hf_agent_preset = preset\<rparr>)
       (dec_opt_string ''agentPreset'' kvs))))))))))"

definition or_zero :: "int option \<Rightarrow> int" where "or_zero x = (case x of Some n \<Rightarrow> n | None \<Rightarrow> 0)"
definition or_empty :: "string option \<Rightarrow> string" where "or_empty x = (case x of Some s \<Rightarrow> s | None \<Rightarrow> [])"

text \<open>The structural checks, in the order of the code.\<close>

definition check_header :: "string list \<Rightarrow> header_fields \<Rightarrow> header_error + session_header" where
  "check_header keys h =
     (if ''sandboxMode'' \<in> set keys \<or> ''approvalPolicy'' \<in> set keys then Inl RetiredPolicyFields
      else if hf_type h \<noteq> ''session'' \<or> hf_id h = [] \<or> hf_created_at h = None then Inl NotSessionHeader
      else if or_zero (hf_created_at h) < 0 then Inl NegativeCreatedAt
      else if or_zero (hf_delegation_depth h) < 0 then Inl NegativeDepth
      else if hf_origin h \<noteq> None \<and> hf_origin h \<noteq> Some ''subagent'' then Inl BadOrigin
      else if or_zero (hf_seed_length h) < 0 then Inl NegativeSeedLength
      else Inr \<lparr>hd_version = hf_version h, hd_id = hf_id h, hd_created_at = or_zero (hf_created_at h),
        hd_cwd = or_empty (hf_cwd h), hd_parent_session = or_empty (hf_parent_session h),
        hd_seed_length = or_zero (hf_seed_length h), hd_origin = or_empty (hf_origin h),
        hd_delegation_depth = or_zero (hf_delegation_depth h), hd_agent_preset = or_empty (hf_agent_preset h)\<rparr>)"

text \<open>\<open>bytes.TrimRight(s, cs)\<close>.\<close>

definition trim_right :: "string \<Rightarrow> string \<Rightarrow> string" where
  "trim_right cs s = rev (dropWhile (\<lambda>c. c \<in> set cs) (rev s))"

definition session_format_version :: int where "session_format_version = 0"

text \<open>
  The first pass only reads the version and the id, so that a foreign version is refused before
  anything else is looked at; the key set is that of an exact Go map.
\<close>

definition parse_header_line :: "string \<Rightarrow> header_error + session_header" where
  "parse_header_line line_bytes =
     (let raw = parse_json (trim_space (trim_right [CHR 0x0A] line_bytes));
          keys = (case raw of Some (JObj kvs) \<Rightarrow> map_keys kvs | _ \<Rightarrow> [])
      in case unmarshal (\<lambda>kvs. Option.bind (dec_opt_int ''version'' kvs) (\<lambda>v.
              map_option (Pair v) (dec_string ''id'' kvs))) raw of
           None \<Rightarrow> Inl HeaderNotJson
         | Some (version, sid) \<Rightarrow>
             if ''version'' \<in> set keys \<and> version = None then Inl (VersionNotNumber sid)
             else if version \<noteq> None \<and> version \<noteq> Some session_format_version
             then Inl (ForeignVersion sid (or_zero version))
             else (case unmarshal dec_header_fields raw of
                 None \<Rightarrow> Inl HeaderNotJson
               | Some h \<Rightarrow> check_header keys h))"

section \<open>Records\<close>

definition envelope_json :: "session_envelope \<Rightarrow> session_error + json" where
  "envelope_json e =
     and_then (case env_surface_op e of None \<Rightarrow> Inr [] | Some op \<Rightarrow> map_sum id (\<lambda>j. [(''surfaceOp'', j)]) (marshal_surface_op op))
       (\<lambda>op. Inr (JObj (
          [(''seq'', JInt (env_seq e)), (''time'', JInt (env_time e)), (''type'', JStr (env_type e)),
           (''data'', (case env_data e of Some j \<Rightarrow> j | None \<Rightarrow> JNull))] @
          (if source_seqs e = [] then [] else [(''sourceEventSeqs'', JArr (map JInt (source_seqs e)))]) @ op @
          (if env_ignorable e then [(''ignorable'', JBool True)] else []))))"

definition chunk_row_json :: "chunk_row \<Rightarrow> json" where
  "chunk_row_json cr = JObj [(''type'', JStr (cr_type cr)), (''seq0'', JInt (cr_seq0 cr)),
     (''time0'', JInt (cr_time0 cr)), (''data'', run_data_json cr)]"

definition record_json :: "storage_record \<Rightarrow> session_error + json" where
  "record_json r = (case r of Packed cr \<Rightarrow> Inr (chunk_row_json cr) | Scalar e \<Rightarrow> envelope_json e)"

text \<open>A batch as lines; the code joins them with newlines and its callers add the last one.\<close>

fun record_lines :: "storage_record list \<Rightarrow> session_error + string list" where
  "record_lines [] = Inr []"
| "record_lines (r # rs) = and_then (record_json r) (\<lambda>j. and_then (record_lines rs) (\<lambda>ls. Inr (print_json j # ls)))"

fun join_records :: "string list \<Rightarrow> string" where
  "join_records [] = []"
| "join_records [w] = w"
| "join_records (w # ws) = w @ CHR 0x0A # join_records ws"

definition encode_event_lines :: "session_envelope list \<Rightarrow> session_error + string" where
  "encode_event_lines events = map_sum id join_records (record_lines (pack_chunk_runs events))"

definition dec_int_list :: "string \<Rightarrow> (string \<times> json) list \<Rightarrow> int list option option" where
  "dec_int_list k kvs = (case json_field k kvs of
      None \<Rightarrow> Some None | Some JNull \<Rightarrow> Some None
    | Some (JArr js) \<Rightarrow> map_option Some (those (map dec_int_elem js)) | Some _ \<Rightarrow> None)"

definition parse_surface_op_json :: "json \<Rightarrow> session_error + surface_op" where
  "parse_surface_op_json j = and_then (unmarshal_surface_op (Some j)) (\<lambda>op.
     if so_op op \<noteq> ''append'' \<and> so_op op \<noteq> ''replace'' then Inl (InvalidSurfaceOp (so_op op)) else Inr op)"

datatype record_error = RecordNotJson | EventNotJson | BadRow storage_error | BadOp session_error

text \<open>Fields of a scalar event; \<open>surfaceOp\<close> stays raw.\<close>

definition dec_event :: "(string \<times> json) list \<Rightarrow> (session_envelope \<times> raw_message) option" where
  "dec_event kvs =
     Option.bind (dec_int ''seq'' kvs) (\<lambda>sq.
     Option.bind (dec_int ''time'' kvs) (\<lambda>t.
     Option.bind (dec_string ''type'' kvs) (\<lambda>ty.
     Option.bind (dec_int_list ''sourceEventSeqs'' kvs) (\<lambda>sources.
     map_option (\<lambda>ign. (\<lparr>env_seq = sq, env_time = t, env_type = ty, env_data = json_field ''data'' kvs,
         env_sources = sources, env_surface_op = None, env_ignorable = ign\<rparr>, json_field ''surfaceOp'' kvs))
       (dec_bool ''ignorable'' kvs)))))"

definition dec_row_probe :: "(string \<times> json) list \<Rightarrow> event_row option" where
  "dec_row_probe kvs =
     Option.bind (dec_string ''type'' kvs) (\<lambda>ty.
     Option.bind (dec_int ''seq0'' kvs) (\<lambda>sq.
     map_option (\<lambda>t. \<lparr>er_seq = sq, er_type = ty, er_time = t, er_data = json_field ''data'' kvs,
         er_sources = None, er_surface_op = None, er_ignorable = Some 0\<rparr>)
       (dec_int ''time0'' kvs)))"

definition decode_storage_record_value :: "raw_message \<Rightarrow> record_error + session_envelope list" where
  "decode_storage_record_value raw =
     (case unmarshal dec_row_probe raw of
        None \<Rightarrow> Inl RecordNotJson
      | Some row \<Rightarrow>
          if er_type row \<in> set packed_tags then map_sum BadRow id (decode_row row)
          else (case unmarshal dec_event raw of
              None \<Rightarrow> Inl EventNotJson
            | Some (env, op) \<Rightarrow>
                (case op of None \<Rightarrow> Inr [env]
                 | Some j \<Rightarrow> and_then (map_sum BadOp id (parse_surface_op_json j)) (\<lambda>op'.
                     Inr [env\<lparr>env_surface_op := Some op'\<rparr>]))))"

section \<open>Reading the records of a log\<close>

datatype jsonl_error =
    HeaderLess
  | BadHeader header_error
  | MalformedEvent nat record_error
  | UnparsableEvent nat
  | SeqGap nat int int

record jsonl_log =
  jl_header :: session_header
  jl_events :: "session_envelope list"
  jl_committed :: nat

text \<open>The text up to the next newline, and what follows it.\<close>

definition next_line :: "string \<Rightarrow> (string \<times> string) option" where
  "next_line s = (case dropWhile (\<lambda>c. c \<noteq> CHR 0x0A) s of
      [] \<Rightarrow> None | _ # t \<Rightarrow> Some (takeWhile (\<lambda>c. c \<noteq> CHR 0x0A) s, t))"

lemma next_line_shorter: "next_line s = Some (w, t) \<Longrightarrow> length t < length s"
proof -
  assume "next_line s = Some (w, t)"
  then obtain c where "dropWhile (\<lambda>c. c \<noteq> CHR 0x0A) s = c # t" by (auto simp: next_line_def split: list.splits)
  with dropWhile_length_le [of "\<lambda>c. c \<noteq> CHR 0x0A" s] show ?thesis by simp
qed

text \<open>The events of one record up to the first that does not continue the log.\<close>

fun take_contiguous :: "session_envelope list \<Rightarrow> session_envelope list \<Rightarrow> session_envelope list \<times> int option" where
  "take_contiguous events [] = (events, None)"
| "take_contiguous events (e # es) =
     (if env_seq e \<noteq> int (length events) then (events, Some (env_seq e)) else take_contiguous (events @ [e]) es)"

definition has_turn_end :: "session_envelope list \<Rightarrow> bool" where
  "has_turn_end es = list_ex (\<lambda>e. env_type e = EventTurnEnd) es"

function jsonl_loop ::
  "session_header \<Rightarrow> nat \<Rightarrow> string \<Rightarrow> session_envelope list \<Rightarrow> nat \<Rightarrow> jsonl_error option \<Rightarrow> nat \<Rightarrow> jsonl_error + jsonl_log" where
  "jsonl_loop header line_start rest events committed issue event_line =
     (case next_line rest of
        None \<Rightarrow> Inr \<lparr>jl_header = header, jl_events = events, jl_committed = committed\<rparr>
      | Some (w, rest') \<Rightarrow>
          (let line = trim_right [CHR 0x0D] w;
               line_start' = line_start + length w + 1;
               this_line = event_line + 1
           in if line = [] then jsonl_loop header line_start' rest' events committed issue event_line
              else (let raw = parse_json line
                    in case decode_storage_record_value raw of
                      Inl err \<Rightarrow>
                        if raw \<noteq> None then Inl (MalformedEvent this_line err)
                        else jsonl_loop header line_start' rest' events committed
                          (if issue = None then Some (UnparsableEvent this_line) else issue) this_line
                    | Inr decoded \<Rightarrow>
                        (case issue of
                           Some problem \<Rightarrow>
                             if has_turn_end decoded then Inl problem
                             else jsonl_loop header line_start' rest' events committed issue this_line
                         | None \<Rightarrow>
                             (case take_contiguous events decoded of
                                (events', Some got) \<Rightarrow>
                                  (let problem = SeqGap this_line (int (length events')) got
                                   in if has_turn_end decoded then Inl problem
                                      else jsonl_loop header line_start' rest' events' committed (Some problem) this_line)
                              | (events', None) \<Rightarrow>
                                  jsonl_loop header line_start' rest' events' line_start' None this_line)))))"
  by pat_completeness auto
termination
  by (relation "measure (\<lambda>(_, _, rest, _). length rest)") (auto dest: next_line_shorter)

declare jsonl_loop.simps [simp del]

definition parse_jsonl_records :: "string \<Rightarrow> jsonl_error + jsonl_log" where
  "parse_jsonl_records text =
     (case next_line text of
        None \<Rightarrow> Inl HeaderLess
      | Some (w, rest) \<Rightarrow>
          and_then (map_sum BadHeader id (parse_header_line (w @ [CHR 0x0A]))) (\<lambda>header.
            jsonl_loop header (length w + 1) rest [] (length w + 1) None 0))"

section \<open>Reading an artifact\<close>

datatype artifact_error = BadFrames frame_error | FrameDecode nat | BadRecords jsonl_error

text \<open>
  \<open>decode_all\<close> decompresses one frame.  A torn last frame goes through the streaming reader, whose
  text counts only when \<open>io.ReadAll\<close> reports no error (\<open>stream_read\<close>).
\<close>

fun decode_frames :: "(string \<Rightarrow> string option) \<Rightarrow> string \<Rightarrow> (nat \<times> nat) list \<Rightarrow> artifact_error + string" where
  "decode_frames decode_all raw [] = Inr []"
| "decode_frames decode_all raw ((i, j) # fs) =
     (case decode_all (Prelude.slice raw i j) of
        None \<Rightarrow> Inl (FrameDecode i)
      | Some out \<Rightarrow> and_then (decode_frames decode_all raw fs) (\<lambda>rest. Inr (out @ rest)))"

definition read_jsonl_zstd ::
  "(string \<Rightarrow> string option) \<Rightarrow> (string \<Rightarrow> string option) \<Rightarrow> string \<Rightarrow> artifact_error + jsonl_log" where
  "read_jsonl_zstd decode_all stream_read raw =
     (case scan_zstd_frames raw of
        Inl e \<Rightarrow> Inl (BadFrames e)
      | Inr (frames, torn_start) \<Rightarrow>
          and_then (decode_frames decode_all raw frames) (\<lambda>plain.
            let torn = (if 0 \<le> torn_start \<and> torn_start < int (length raw)
                        then (case stream_read (drop (nat torn_start) raw) of Some t \<Rightarrow> t | None \<Rightarrow> []) else [])
            in map_sum BadRecords id (parse_jsonl_records (plain @ torn))))"

end
