(* ===== verification/Jsonl_Laws.thy ===== *)
theory Jsonl_Laws imports Jsonl_Log Row_Store_Laws begin

text \<open>
  The laws of the artifact: complete frames are recognised whatever follows them and an unfinished
  frame is never taken for one; every record written is a line of its own that decodes to the
  events it covers; the header line reads back.
\<close>

section \<open>Frames\<close>

lemma byte_at_append: "i < length s \<Longrightarrow> byte_at (s @ t) i = byte_at s i"
  by (simp add: byte_at_def nth_append)

lemma block_header_append:
  assumes "3 \<le> length s"
  shows "block_header (s @ t) = block_header s"
proof -
  have "0 < length s" "1 < length s" "2 < length s" using assms by linarith+
  from this [THEN byte_at_append] show ?thesis by (simp add: block_header_def)
qed

lemma block_header_take: "3 \<le> k \<Longrightarrow> block_header (take k s) = block_header s"
  by (simp add: block_header_def byte_at_def)

lemma block_cong:
  assumes "block_header s = block_header t"
  shows "block_type s = block_type t" "block_payload s = block_payload t"
  using assms by (simp_all add: block_type_def block_payload_def)

text \<open>One round of the block loop that does not fail.\<close>

lemma blocks_size_Some:
  assumes "blocks_size s = Inr (Some n)"
  obtains "3 + block_payload s \<le> length s" "block_type s \<noteq> 3" "odd (block_header s)" "n = 3 + block_payload s"
  | m where "3 + block_payload s \<le> length s" "block_type s \<noteq> 3" "even (block_header s)"
    "blocks_size (drop (3 + block_payload s) s) = Inr (Some m)" "n = 3 + block_payload s + m"
  using assms
  by (subst (asm) blocks_size.simps)
    (cases "blocks_size (drop (3 + block_payload s) s)"; fastforce split: if_splits)

lemma blocks_take:
  "blocks_size s = Inr (Some n) \<Longrightarrow> n \<le> length s \<and> blocks_size (take n s @ t) = Inr (Some n)"
proof (induction s arbitrary: n rule: blocks_size.induct)
  case (1 s)
  from "1.prems" have n: "3 + block_payload s \<le> length s" "block_type s \<noteq> 3" "3 + block_payload s \<le> n"
    by (cases rule: blocks_size_Some; simp)+
  then have h: "block_header (take n s @ t) = block_header s"
    by (subst block_header_append) (auto simp: block_header_take)
  from "1.prems" show ?case
  proof (cases rule: blocks_size_Some)
    case 1
    with block_cong [OF h] h show ?thesis by (subst blocks_size.simps) simp
  next
    case (2 m)
    have m: "m \<le> length (drop (3 + block_payload s) s)"
      "blocks_size (take m (drop (3 + block_payload s) s) @ t) = Inr (Some m)"
      using "1.IH" [OF _ _ _ _ 2(4)] 2(1-3) by simp_all
    then have "n \<le> length s" using 2 by simp
    moreover from this have "drop (3 + block_payload s) (take n s @ t) = take m (drop (3 + block_payload s) s) @ t"
      using 2 by (simp add: drop_take)
    ultimately show ?thesis using m 2 n block_cong [OF h] h by (subst blocks_size.simps) simp
  qed
qed

lemma blocks_append:
  assumes "blocks_size s = Inr (Some n)"
  shows "blocks_size (s @ t) = Inr (Some n)"
proof -
  have "n \<le> length s" "blocks_size (take n s @ drop n s @ t) = Inr (Some n)"
    using blocks_take [OF assms, of "drop n s @ t"] by simp_all
  then show ?thesis by (simp flip: append_assoc)
qed

lemma blocks_cut: "blocks_size s = Inr (Some n) \<Longrightarrow> k < n \<Longrightarrow> blocks_size (take k s) = Inr None"
proof (induction s arbitrary: n k rule: blocks_size.induct)
  case (1 s)
  show ?case
  proof (cases "k < 3 + block_payload s")
    case True
    have t: "block_type s \<noteq> 3" using "1.prems"(1) by (cases rule: blocks_size_Some) auto
    show ?thesis
    proof (cases "k < 3")
      case False
      then have "block_header (take k s) = block_header s" by (simp add: block_header_take)
      with block_cong [OF this] t True show ?thesis by (subst blocks_size.simps) auto
    next
      case True
      then have "length (take k s) < 3" by simp
      then show ?thesis by (subst blocks_size.simps) simp
    qed
  next
    case False
    with "1.prems" obtain m where m: "3 + block_payload s \<le> length s" "block_type s \<noteq> 3" "even (block_header s)"
      "blocks_size (drop (3 + block_payload s) s) = Inr (Some m)" "n = 3 + block_payload s + m"
      by (cases rule: blocks_size_Some) auto
    have "blocks_size (take (k - (3 + block_payload s)) (drop (3 + block_payload s) s)) = Inr None"
      using "1.IH" [OF _ _ _ _ m(4)] m False "1.prems"(2) by simp
    moreover have h: "block_header (take k s) = block_header s" using False by (simp add: block_header_take)
    ultimately show ?thesis
      using block_cong [OF h] h m False by (subst blocks_size.simps) (auto simp: drop_take)
  qed
qed

text \<open>A byte string that is one complete frame.\<close>

definition is_frame :: "string \<Rightarrow> bool" where
  "is_frame fr \<longleftrightarrow> frame_size fr = Inr (Some (length fr))"

lemma frame_size_Some:
  assumes "frame_size s = Inr (Some n)"
  obtains m where "take 4 s = zstd_magic" "\<not> (bit (byte_at s 4) 3 \<or> bit (byte_at s 4) 4)"
    "5 + descriptor_size (byte_at s 4) + m \<le> n" "5 + descriptor_size (byte_at s 4) \<le> length s" "5 \<le> length s"
    "blocks_size (drop (5 + descriptor_size (byte_at s 4)) s) = Inr (Some m)"
    "n = 5 + descriptor_size (byte_at s 4) + m + (if bit (byte_at s 4) 2 then 4 else 0)" "n \<le> length s"
proof -
  let ?off = "5 + descriptor_size (byte_at s 4)"
  from assms obtain m where "4 \<le> length s" "take 4 s = zstd_magic" "length s \<noteq> 4" "\<not> (bit (byte_at s 4) 3 \<or> bit (byte_at s 4) 4)"
    "\<not> length s - 5 < descriptor_size (byte_at s 4)" "blocks_size (drop ?off s) = Inr (Some m)"
    "if bit (byte_at s 4) 2 then 4 \<le> length s - (?off + m) \<and> n = ?off + m + 4 else n = ?off + m"
    unfolding frame_size_def Let_def
    by (auto split: if_splits sum.splits option.splits simp: not_less)
  with blocks_take [of "drop ?off s" m "[]"] that [of m] show ?thesis by (auto split: if_splits)
qed

lemma frame_append:
  assumes "is_frame fr"
  shows "frame_size (fr @ t) = Inr (Some (length fr))"
  using assms [unfolded is_frame_def]
proof (cases rule: frame_size_Some)
  case (1 m)
  let ?off = "5 + descriptor_size (byte_at fr 4)"
  have "blocks_size (drop ?off (fr @ t)) = Inr (Some m)"
    using blocks_append [OF 1(6), of t] 1(4) by simp
  with 1 show ?thesis by (auto simp: frame_size_def Let_def byte_at_append)
qed

lemma frame_cut:
  assumes "is_frame fr" and "k < length fr"
  shows "frame_size (take k fr) = Inr None"
  using assms(1) [unfolded is_frame_def]
proof (cases rule: frame_size_Some)
  case (1 m)
  let ?off = "5 + descriptor_size (byte_at fr 4)"
  show ?thesis
  proof (cases "5 \<le> k")
    case False
    have "length zstd_magic = 4" by (simp add: zstd_magic_def)
    with False show ?thesis using 1(1) assms(2) by (cases "k = 4") (auto simp: frame_size_def)
  next
    case True
    then have b: "byte_at (take k fr) 4 = byte_at fr 4" by (simp add: byte_at_def)
    show ?thesis
    proof (cases "k < ?off")
      case True
      with \<open>5 \<le> k\<close> b 1 assms(2) show ?thesis by (auto simp: frame_size_def Let_def)
    next
      case False
      show ?thesis
      proof (cases "k - ?off < m")
        case True
        have "blocks_size (drop ?off (take k fr)) = Inr None"
          using blocks_cut [OF 1(6) True] False by (simp add: drop_take)
        with \<open>5 \<le> k\<close> b 1 assms(2) False show ?thesis by (auto simp: frame_size_def Let_def)
      next
        case ge: False
        have "take m (drop ?off fr) @ take (k - ?off - m) (drop m (drop ?off fr)) = take (k - ?off) (drop ?off fr)"
        proof -
          have "m + (k - ?off - m) = k - ?off" using ge by simp
          with take_add [of m "k - ?off - m" "drop ?off fr"] show ?thesis by metis
        qed
        then have "take m (drop ?off fr) @ take (k - ?off - m) (drop m (drop ?off fr)) = drop ?off (take k fr)"
          by (simp add: drop_take)
        with blocks_take [OF 1(6)] have "blocks_size (drop ?off (take k fr)) = Inr (Some m)" by metis
        with \<open>5 \<le> k\<close> b 1 assms(2) False ge show ?thesis
          by (auto simp: frame_size_def Let_def split: if_splits)
      qed
    qed
  qed
qed

section \<open>Frame after frame\<close>

fun frame_ranges :: "nat \<Rightarrow> string list \<Rightarrow> (nat \<times> nat) list" where
  "frame_ranges off [] = []"
| "frame_ranges off (fr # frs) = (off, off + length fr) # frame_ranges (off + length fr) frs"

lemma is_frame_nonempty: "is_frame fr \<Longrightarrow> fr \<noteq> []"
  by (auto simp: is_frame_def dest: frame_size_pos)

lemma scan_frames_concat:
  assumes "\<forall>fr\<in>set frs. is_frame fr" and "torn = [] \<or> frame_size torn = Inr None"
  shows "scan_frames_from (pre @ concat frs @ torn) (length pre) acc =
    Inr (acc @ frame_ranges (length pre) frs,
         if torn = [] then - 1 else int (length pre + length (concat frs)))"
  using assms
proof (induction frs arbitrary: pre acc)
  case Nil
  then show ?case by (subst scan_frames_from.simps) auto
next
  case (Cons fr frs)
  have "frame_size (fr @ concat frs @ torn) = Inr (Some (length fr))"
    using Cons.prems(1) by (intro frame_append) simp
  then have "scan_frames_from (pre @ concat (fr # frs) @ torn) (length pre) acc =
      scan_frames_from ((pre @ fr) @ concat frs @ torn) (length (pre @ fr)) (acc @ [(length pre, length pre + length fr)])"
    using Cons.prems(1) is_frame_nonempty [of fr] by (subst scan_frames_from.simps) simp
  also have "\<dots> = Inr ((acc @ [(length pre, length pre + length fr)]) @ frame_ranges (length (pre @ fr)) frs,
         if torn = [] then - 1 else int (length (pre @ fr) + length (concat frs)))"
    by (rule Cons.IH) (use Cons.prems in auto)
  finally show ?case by simp
qed

lemma decode_frame_ranges:
  "list_all2 (\<lambda>fr out. decode_all fr = Some out) frs outs \<Longrightarrow>
   decode_frames decode_all (pre @ concat frs @ post) (frame_ranges (length pre) frs) = Inr (concat outs)"
proof (induction frs arbitrary: outs pre)
  case (Cons fr frs)
  then obtain out outs' where o: "outs = out # outs'" "decode_all fr = Some out"
    "list_all2 (\<lambda>fr out. decode_all fr = Some out) frs outs'" by (auto simp: list_all2_Cons1)
  have "decode_frames decode_all ((pre @ fr) @ concat frs @ post) (frame_ranges (length (pre @ fr)) frs) = Inr (concat outs')"
    by (rule Cons.IH [OF o(3)])
  then show ?case using o by (simp add: Prelude.slice_def)
qed simp

text \<open>A prefix of concatenated frames: some whole frames, then an unfinished one.\<close>

lemma take_frames:
  assumes "\<forall>fr\<in>set frs. is_frame fr"
  obtains n torn where "n \<le> length frs" "take k (concat frs) = concat (take n frs) @ torn"
    "torn = [] \<or> frame_size torn = Inr None" "n < length frs \<Longrightarrow> length torn < length (frs ! n)"
    "\<And>m. m \<le> length frs \<Longrightarrow> length (concat (take m frs)) \<le> k \<Longrightarrow> m \<le> n"
  using assms
proof (induction frs arbitrary: k thesis)
  case Nil
  show ?case by (rule Nil(1) [of 0 "[]"]) auto
next
  case (Cons fr frs)
  have fr: "is_frame fr" using Cons.prems(2) by simp
  show ?case
  proof (cases "k < length fr")
    case True
    show ?thesis
    proof (rule Cons.prems(1) [of 0 "take k fr"])
      show "take k (concat (fr # frs)) = concat (take 0 (fr # frs)) @ take k fr" using True by simp
      show "take k fr = [] \<or> frame_size (take k fr) = Inr None" using frame_cut [OF fr True] by simp
      show "m \<le> 0" if "m \<le> length (fr # frs)" "length (concat (take m (fr # frs))) \<le> k" for m
        using that True by (cases m) auto
    qed (use True in auto)
  next
    case False
    obtain n torn where n: "n \<le> length frs" "take (k - length fr) (concat frs) = concat (take n frs) @ torn"
      "torn = [] \<or> frame_size torn = Inr None" "n < length frs \<Longrightarrow> length torn < length (frs ! n)"
      "\<And>m. m \<le> length frs \<Longrightarrow> length (concat (take m frs)) \<le> k - length fr \<Longrightarrow> m \<le> n"
      using Cons.IH [of "k - length fr"] Cons.prems(2) by auto
    show ?thesis
    proof (rule Cons.prems(1) [of "Suc n" torn])
      show "m \<le> Suc n" if "m \<le> length (fr # frs)" "length (concat (take m (fr # frs))) \<le> k" for m
        using that n(5) [of "m - 1"] False by (cases m) auto
    qed (use n False in auto)
  qed
qed

section \<open>Line after line\<close>

lemma next_line_Some [simp]:
  assumes "CHR 0x0A \<notin> set w"
  shows "next_line (w @ CHR 0x0A # t) = Some (w, t)"
proof -
  have "takeWhile (\<lambda>c. c \<noteq> CHR 0x0A) (w @ CHR 0x0A # t) = w" "dropWhile (\<lambda>c. c \<noteq> CHR 0x0A) (w @ CHR 0x0A # t) = CHR 0x0A # t"
    using assms by (auto simp: takeWhile_append dropWhile_append)
  then show ?thesis by (simp add: next_line_def)
qed

lemma next_line_None: "CHR 0x0A \<notin> set w \<Longrightarrow> next_line w = None"
proof -
  assume "CHR 0x0A \<notin> set w"
  then have "dropWhile (\<lambda>c. c \<noteq> CHR 0x0A) w = []" by auto
  then show ?thesis unfolding next_line_def by (simp only: list.case)
qed

text \<open>A line of its own that stands for the events \<open>es\<close>; a blank one stands for none.\<close>

definition line_of :: "string \<Rightarrow> session_envelope list \<Rightarrow> bool" where
  "line_of l es \<longleftrightarrow> CHR 0x0A \<notin> set l \<and> (if l = [] then es = []
     else last l \<noteq> CHR 0x0D \<and> decode_storage_record_value (parse_json l) = Inr es)"

lemma trim_right_idle: "s = [] \<or> last s \<notin> set cs \<Longrightarrow> trim_right cs s = s"
  by (cases s rule: rev_cases) (auto simp: trim_right_def)

lemma take_contiguous_all:
  "check_contiguous (int (length events)) es \<Longrightarrow> take_contiguous events es = (events @ es, None)"
proof (induction es arbitrary: events)
  case (Cons e es)
  then have "env_seq e = int (length events)" "check_contiguous (int (length (events @ [e]))) es"
    by (simp_all add: add.commute)
  with Cons.IH [of "events @ [e]"] show ?case by simp
qed simp

definition lines_text :: "string list \<Rightarrow> string" where
  "lines_text ls = concat (map (\<lambda>l. l @ [CHR 0x0A]) ls)"

lemma lines_text_simps [simp]:
  "lines_text [] = []" "lines_text (l # ls) = l @ CHR 0x0A # lines_text ls" "lines_text (xs @ ys) = lines_text xs @ lines_text ys"
  by (simp_all add: lines_text_def)

text \<open>Reading whole lines and then a fragment: the fragment counts for nothing.\<close>

lemma jsonl_loop_lines:
  "list_all2 line_of ls ess \<Longrightarrow> check_contiguous (int (length events)) (concat ess) \<Longrightarrow> CHR 0x0A \<notin> set frag \<Longrightarrow>
   \<exists>c. jsonl_loop h start (lines_text ls @ frag) events committed None n =
     Inr \<lparr>jl_header = h, jl_events = events @ concat ess, jl_committed = c\<rparr>"
proof (induction ls arbitrary: ess start events committed n)
  case Nil
  then show ?case by (subst jsonl_loop.simps) (simp add: next_line_None)
next
  case (Cons l ls)
  then obtain es ess' where e: "ess = es # ess'" "line_of l es" "list_all2 line_of ls ess'"
    by (auto simp: list_all2_Cons1)
  from Cons.prems(2) e(1) have c: "check_contiguous (int (length events)) es"
    "check_contiguous (int (length (events @ es))) (concat ess')" by (simp_all add: check_contiguous_append)
  have "\<exists>start' c' n'. jsonl_loop h start (lines_text (l # ls) @ frag) events committed None n =
      jsonl_loop h start' (lines_text ls @ frag) (events @ es) c' None n'"
  proof (cases "l = []")
    case True
    then show ?thesis using e(2) next_line_Some [of "[]" "lines_text ls @ frag"] trim_right_idle [of "[]" "[CHR 0x0D]"]
      by (subst jsonl_loop.simps) (simp add: line_of_def Let_def, blast)
  next
    case False
    then show ?thesis using e(2) trim_right_idle [of l "[CHR 0x0D]"] take_contiguous_all [OF c(1)]
      by (subst jsonl_loop.simps) (simp add: line_of_def Let_def, blast)
  qed
  moreover have "\<exists>c. jsonl_loop h start' (lines_text ls @ frag) (events @ es) c' None n' =
      Inr \<lparr>jl_header = h, jl_events = (events @ es) @ concat ess', jl_committed = c\<rparr>" for start' c' n'
    by (rule Cons.IH [OF e(3) c(2) Cons.prems(3)])
  ultimately show ?case using e(1) by auto
qed

text \<open>A prefix of whole lines is some of the lines and a fragment.\<close>

lemma take_lines:
  assumes "\<forall>l\<in>set ls. CHR 0x0A \<notin> set l"
  obtains n frag where "n \<le> length ls" "take k (lines_text ls) = lines_text (take n ls) @ frag" "CHR 0x0A \<notin> set frag"
    "\<And>m. m \<le> length ls \<Longrightarrow> length (lines_text (take m ls)) \<le> k \<Longrightarrow> m \<le> n"
  using assms
proof (induction ls arbitrary: k thesis)
  case Nil
  show ?case by (rule Nil(1) [of 0 "[]"]) auto
next
  case (Cons l ls)
  show ?case
  proof (cases "k \<le> length l")
    case True
    show ?thesis
    proof (rule Cons.prems(1) [of 0 "take k l"])
      show "CHR 0x0A \<notin> set (take k l)" using Cons.prems(2) by (auto dest: in_set_takeD)
      show "m \<le> 0" if "m \<le> length (l # ls)" "length (lines_text (take m (l # ls))) \<le> k" for m
        using that True by (cases m) auto
    qed (use True in auto)
  next
    case False
    obtain n frag where n: "n \<le> length ls" "take (k - Suc (length l)) (lines_text ls) = lines_text (take n ls) @ frag"
      "CHR 0x0A \<notin> set frag"
      "\<And>m. m \<le> length ls \<Longrightarrow> length (lines_text (take m ls)) \<le> k - Suc (length l) \<Longrightarrow> m \<le> n"
      using Cons.IH [of "k - Suc (length l)"] Cons.prems(2) by auto
    have "take k (lines_text (l # ls)) = l @ CHR 0x0A # take (k - Suc (length l)) (lines_text ls)"
      using False by (simp add: take_Cons' not_le Suc_diff_Suc)
    moreover have "m \<le> Suc n" if "m \<le> length (l # ls)" "length (lines_text (take m (l # ls))) \<le> k" for m
      using that n(4) [of "m - 1"] False by (cases m) auto
    ultimately show ?thesis using n by (intro Cons.prems(1) [of "Suc n" frag]) auto
  qed
qed

section \<open>The parts of a packed batch\<close>

text \<open>Which events one storage record covers.\<close>

definition covers :: "storage_record \<Rightarrow> session_envelope list \<Rightarrow> bool" where
  "covers r run \<longleftrightarrow> (case r of Scalar e \<Rightarrow> run = [e]
     | Packed cr \<Rightarrow> \<exists>kind. cr = build_row kind run \<and> run_ok kind run \<and> min_packed_row_members \<le> length run \<and>
         length run \<le> max_packed_row_members \<and> packed_data_bytes cr \<le> max_packed_data_bytes)"

definition covered :: "storage_record list \<Rightarrow> session_envelope list \<Rightarrow> bool" where
  "covered recs es \<longleftrightarrow> (\<exists>parts. concat parts = es \<and> list_all2 covers recs parts)"

lemma covered_Nil [simp]: "covered [] []"
  by (simp add: covered_def)

lemma covered_append: "covered rs es \<Longrightarrow> covered rs' es' \<Longrightarrow> covered (rs @ rs') (es @ es')"
  unfolding covered_def by (metis concat_append list_all2_appendI)

lemma covered_scalar: "covered [Scalar e] [e]"
  unfolding covered_def by (rule exI [of _ "[[e]]"]) (simp add: covers_def)

lemma covered_scalars: "covered (map Scalar es) es"
  by (induction es) (use covered_append [OF covered_scalar] in fastforce)+

lemma covered_emit: "run_ok kind run \<Longrightarrow> covered (emit_bounded_run kind run) run"
proof (induction kind run rule: emit_bounded_run.induct)
  case (1 kind run)
  note eq = emit_bounded_run.simps [of kind run]
  let ?high = "min (length run) max_packed_row_members"
  let ?acc = "search_accepted kind run min_packed_row_members ?high 0"
  have piece: "covered (Packed (build_row kind (take n run)) # rest) run"
    if "min_packed_row_members \<le> n" "n \<le> ?high" "row_fits kind run n" "covered rest (drop n run)" for n rest
  proof -
    have "covers (Packed (build_row kind (take n run))) (take n run)"
      using that run_ok_take [OF "1.prems"] by (auto simp: covers_def row_fits_def)
    then have "covered [Packed (build_row kind (take n run))] (take n run)"
      unfolding covered_def by (intro exI [of _ "[take n run]"]) simp
    from covered_append [OF this that(4)] show ?thesis by simp
  qed
  show ?case
  proof (cases "min_packed_row_members \<le> length run")
    case False
    then show ?thesis using eq covered_scalars by simp
  next
    case long: True
    show ?thesis
    proof (cases "row_fits kind run ?high")
      case True
      from piece [OF _ _ True "1.IH"(1) [OF long refl True run_ok_drop [OF "1.prems"]]] long eq True show ?thesis
        by (simp add: Let_def min_packed_row_members_def max_packed_row_members_def)
    next
      case False
      show ?thesis
      proof (cases "?acc = 0")
        case True
        have ne: "run = [hd run] @ tl run" using long by (cases run) (auto simp: min_packed_row_members_def)
        have "run_ok kind (tl run)" using run_ok_drop [OF "1.prems", of 1] by (simp add: drop_Suc)
        from covered_append [OF covered_scalar "1.IH"(2) [OF long refl False refl True this], of "hd run"] ne
        show ?thesis using eq long False True by (simp add: Let_def)
      next
        case acc: False
        have "accepted_ok kind run min_packed_row_members ?high ?acc"
          by (rule search_accepted_ok) (simp_all add: accepted_ok_def)
        with acc have "min_packed_row_members \<le> ?acc" "?acc \<le> ?high" "row_fits kind run ?acc"
          by (simp_all add: accepted_ok_def)
        from piece [OF this "1.IH"(3) [OF long refl False refl acc run_ok_drop [OF "1.prems"]]] eq long False acc
        show ?thesis by (simp add: Let_def)
      qed
    qed
  qed
qed

lemma covered_pack_loop:
  assumes "kind = [] \<and> run = [] \<or> run_ok kind run \<and> kind \<noteq> []"
  shows "covered (pack_loop kind run es) (run @ es)"
  using assms
proof (induction es arbitrary: kind run)
  case Nil
  then show ?case using covered_emit by (auto simp: flush_run_def)
next
  case (Cons e es)
  have fl: "covered (flush_run kind run) run" using Cons.prems covered_emit by (auto simp: flush_run_def)
  show ?case
  proof (cases "classify_delta e = []")
    case True
    have "covered (pack_loop [] [] es) es" using Cons.IH [of "[]" "[]"] by simp
    from covered_append [OF fl covered_append [OF covered_scalar [of e] this]] True show ?thesis by simp
  next
    case False
    show ?thesis
    proof (cases "classify_delta e = kind \<and> run \<noteq> [] \<and> continues_delta (classify_delta e) (last run) e")
      case True
      then have "run_ok kind (run @ [e])" using Cons.prems by (auto intro: run_ok_snoc)
      with Cons.IH [of kind "run @ [e]"] Cons.prems True False show ?thesis by (auto simp: Let_def)
    next
      case brk: False
      have "covered (pack_loop (classify_delta e) [e] es) ([e] @ es)"
        using Cons.IH [of "classify_delta e" "[e]"] run_ok_single [OF False] False by simp
      from covered_append [OF fl this] brk False show ?thesis by (auto simp: Let_def)
    qed
  qed
qed

lemma covered_pack: "covered (pack_chunk_runs es) es"
  using covered_pack_loop [of "[]" "[]" es] by (simp add: pack_chunk_runs_def)

section \<open>Records\<close>

lemma json_field_app:
  "json_field k (xs @ ys) = (case json_field k ys of Some v \<Rightarrow> Some v | None \<Rightarrow> json_field k xs)"
  by (induction xs) (auto split: option.splits)

lemma artifact_names:
  "lower_name ''seq'' = ''seq''" "lower_name ''time'' = ''time''" "lower_name ''data'' = ''data''"
  "lower_name ''sourceEventSeqs'' = ''sourceeventseqs''" "lower_name ''surfaceOp'' = ''surfaceop''"
  "lower_name ''ignorable'' = ''ignorable''" "lower_name ''seq0'' = ''seq0''" "lower_name ''time0'' = ''time0''"
  "lower_name ''version'' = ''version''" "lower_name ''createdAt'' = ''createdat''" "lower_name ''cwd'' = ''cwd''"
  "lower_name ''parentSession'' = ''parentsession''" "lower_name ''seedLength'' = ''seedlength''"
  "lower_name ''origin'' = ''origin''" "lower_name ''delegationDepth'' = ''delegationdepth''"
  "lower_name ''agentPreset'' = ''agentpreset''"
  by code_simp+

lemmas fields = json_field_app key_matches_def lower_names artifact_names

text \<open>What a text log can hold: integers of 64 bits, data that is JSON and not nested too deeply.\<close>

definition line_storable :: "session_envelope \<Rightarrow> bool" where
  "line_storable e \<longleftrightarrow> storable e \<and> in_int64 (env_seq e) \<and>
     (\<exists>j. env_data e = Some j \<and> json_depth j < max_nesting_depth)"

definition reads_as :: "session_envelope list \<Rightarrow> json \<Rightarrow> session_envelope list \<Rightarrow> bool" where
  "reads_as run j es \<longleftrightarrow> decode_storage_record_value (Some j) = Inr es \<and> list_all2 read_back run es \<and>
     json_depth j \<le> max_nesting_depth"

lemma those_ints: "\<forall>d\<in>set ds. in_int64 d \<Longrightarrow> those (map dec_int_elem (map JInt ds)) = Some ds"
  using dec_ints by (simp add: comp_def)

lemma foldr_max_le: "\<forall>n\<in>set ns. n \<le> m \<Longrightarrow> foldr max ns (0::nat) \<le> m"
  by (induction ns) auto

lemma depth_ints [simp]: "foldr max (map (json_depth \<circ> JInt) ds) 0 = 0" "foldr max (map (json_depth \<circ> JStr) ts) 0 = 0"
proof -
  show "foldr max (map (json_depth \<circ> JInt) ds) 0 = 0" by (induction ds) simp_all
  show "foldr max (map (json_depth \<circ> JStr) ts) 0 = 0" by (induction ts) simp_all
qed

definition event_fields :: "session_envelope \<Rightarrow> json \<Rightarrow> (string \<times> json) list \<Rightarrow> (string \<times> json) list" where
  "event_fields e d ops = [(''seq'', JInt (env_seq e)), (''time'', JInt (env_time e)), (''type'', JStr (env_type e)), (''data'', d)] @
     (if source_seqs e = [] then [] else [(''sourceEventSeqs'', JArr (map JInt (source_seqs e)))]) @ ops @
     (if env_ignorable e then [(''ignorable'', JBool True)] else [])"

lemma event_field_values:
  assumes "ops = (case raw of None \<Rightarrow> [] | Some j \<Rightarrow> [(''surfaceOp'', j)])"
  shows "json_field ''seq'' (event_fields e d ops) = Some (JInt (env_seq e))"
    "json_field ''time'' (event_fields e d ops) = Some (JInt (env_time e))"
    "json_field ''type'' (event_fields e d ops) = Some (JStr (env_type e))"
    "json_field ''data'' (event_fields e d ops) = Some d"
    "json_field ''sourceEventSeqs'' (event_fields e d ops) =
      (if source_seqs e = [] then None else Some (JArr (map JInt (source_seqs e))))"
    "json_field ''surfaceOp'' (event_fields e d ops) = raw"
    "json_field ''ignorable'' (event_fields e d ops) = (if env_ignorable e then Some (JBool True) else None)"
    "json_field ''seq0'' (event_fields e d ops) = None" "json_field ''time0'' (event_fields e d ops) = None"
  using assms by (cases raw; simp add: event_fields_def fields)+

lemma event_fields_depth:
  "json_depth d < max_nesting_depth \<Longrightarrow> ops = (case raw of None \<Rightarrow> [] | Some j \<Rightarrow> [(''surfaceOp'', j)]) \<Longrightarrow>
   (case raw of None \<Rightarrow> True | Some j \<Rightarrow> json_depth j \<le> 1) \<Longrightarrow> json_depth (JObj (event_fields e d ops)) \<le> max_nesting_depth"
  by (cases raw) (auto simp: event_fields_def max_nesting_depth_def)

lemma scalar_line:
  assumes "line_storable e"
  shows "\<exists>j es. envelope_json e = Inr j \<and> reads_as [e] j es"
proof -
  obtain d where d: "env_data e = Some d" "json_depth d < max_nesting_depth" and st: "storable e" "in_int64 (env_seq e)"
    using assms by (auto simp: line_storable_def)
  have t: "in_int64 (env_time e)" "env_type e \<notin> set packed_tags" using st by (simp_all add: storable_def)
  have src: "\<forall>x\<in>set (source_seqs e). in_int64 x"
    using st by (auto simp: storable_def in_int64_def max_safe_integer_def)
  have op: "\<exists>j. marshal_surface_op op = Inr j \<and> unmarshal_surface_op (Some j) = Inr op \<and> json_depth j \<le> 1 \<and>
      (so_op op = ''append'' \<or> so_op op = ''replace'')"
    if "env_surface_op e = Some op" for op
  proof -
    have "op = append_surface_op \<or> so_op op = ''replace'' \<and> in_int64 (so_start op) \<and> in_int64 (so_end op)"
      using st(1) that by (simp add: storable_def)
    then show ?thesis
      by (elim disjE conjE)
        (simp_all add: marshal_surface_op_def unmarshal_surface_op_def append_surface_op_def unmarshal_def
          dec_object_def dec_string_def dec_int_def key_matches_def lower_names)
  qed
  obtain raw where raw: "(case env_surface_op e of None \<Rightarrow> Inr []
      | Some op \<Rightarrow> map_sum id (\<lambda>j. [(''surfaceOp'', j)]) (marshal_surface_op op)) =
        Inr (case raw of None \<Rightarrow> [] | Some j \<Rightarrow> [(''surfaceOp'', j)])"
    "case raw of None \<Rightarrow> env_surface_op e = None
      | Some j \<Rightarrow> json_depth j \<le> 1 \<and> (\<exists>op. env_surface_op e = Some op \<and> unmarshal_surface_op (Some j) = Inr op \<and>
          (so_op op = ''append'' \<or> so_op op = ''replace''))"
  proof (cases "env_surface_op e")
    case None
    then show ?thesis using that [of None] by simp
  next
    case (Some op)
    from op [OF Some] obtain j where "marshal_surface_op op = Inr j" "unmarshal_surface_op (Some j) = Inr op"
      "json_depth j \<le> 1" "so_op op = ''append'' \<or> so_op op = ''replace''" by blast
    with Some show ?thesis using that [of "Some j"] by simp
  qed
  let ?ops = "case raw of None \<Rightarrow> [] | Some j \<Rightarrow> [(''surfaceOp'', j)]"
  let ?kvs = "event_fields e d ?ops"
  note vals = event_field_values [of ?ops raw e d, OF refl]
  have json: "envelope_json e = Inr (JObj ?kvs)"
    using raw(1) d(1) by (simp add: envelope_json_def event_fields_def)
  let ?env = "\<lparr>env_seq = env_seq e, env_time = env_time e, env_type = env_type e, env_data = Some d,
    env_sources = (if source_seqs e = [] then None else Some (source_seqs e)), env_surface_op = None,
    env_ignorable = env_ignorable e\<rparr>"
  have ev: "unmarshal dec_event (Some (JObj ?kvs)) = Some (?env, raw)"
    using st(2) t(1) those_ints [OF src]
    by (simp add: unmarshal_def dec_object_def dec_event_def dec_int_def dec_string_def dec_int_list_def dec_bool_def vals
        del: map_map)
  have "unmarshal dec_row_probe (Some (JObj ?kvs)) = Some \<lparr>er_seq = 0, er_type = env_type e, er_time = 0,
      er_data = Some d, er_sources = None, er_surface_op = None, er_ignorable = Some 0\<rparr>"
    by (simp add: unmarshal_def dec_object_def dec_row_probe_def dec_int_def dec_string_def vals)
  then have dec: "decode_storage_record_value (Some (JObj ?kvs)) = Inr [?env\<lparr>env_surface_op := env_surface_op e\<rparr>]"
    using ev t(2) raw(2)
    by (auto simp: decode_storage_record_value_def parse_surface_op_json_def split: option.splits)
  have "read_back e (?env\<lparr>env_surface_op := env_surface_op e\<rparr>)"
    using d(1) by (simp add: read_back_def source_seqs_def split: option.splits)
  with json dec event_fields_depth [OF d(2) refl, of raw e] raw(2) show ?thesis
    by (auto simp: reads_as_def split: option.splits)
qed

text \<open>A packed record is read by the decoder of rows.\<close>

lemma packed_line:
  assumes "covers (Packed cr) run" and "\<forall>e\<in>set run. line_storable e"
  shows "\<exists>es. reads_as run (chunk_row_json cr) es"
proof -
  from assms(1) obtain kind where k: "cr = build_row kind run" "run_ok kind run" "min_packed_row_members \<le> length run"
    "length run \<le> max_packed_row_members" "packed_data_bytes (build_row kind run) \<le> max_packed_data_bytes"
    by (auto simp: covers_def)
  have "stored_as [Packed cr] run"
    using k assms(2) stored_as_packed [OF k(2-5)] by (simp add: line_storable_def)
  then obtain row es where r: "bind_record (Packed cr) = Inr row" "decode_row row = Inr es" "list_all2 read_back run es"
    by (auto simp: stored_as_def and_then_Inr_iff)
  have row: "row = \<lparr>er_seq = cr_seq0 cr, er_type = cr_type cr, er_time = cr_time0 cr,
      er_data = Some (run_data_json cr), er_sources = None, er_surface_op = None, er_ignorable = Some 0\<rparr>"
    using r(1) by (simp add: bind_record_def)
  have "hd run \<in> set run" using k(3) by (cases run) (auto simp: min_packed_row_members_def)
  then have i: "in_int64 (cr_seq0 cr)" "in_int64 (cr_time0 cr)"
    using assms(2) k(1) by (auto simp: build_row_def line_storable_def storable_def Let_def)
  have tag: "cr_type cr \<in> set packed_tags"
    using k(1,2) by (auto simp: build_row_def run_ok_def delta_kinds_def chunk_tag_of_kind_def packed_tags_def Let_def)
  have "unmarshal dec_row_probe (Some (chunk_row_json cr)) = Some row"
    using i by (simp add: row unmarshal_def dec_object_def dec_row_probe_def dec_int_def dec_string_def
        chunk_row_json_def fields)
  then have "decode_storage_record_value (Some (chunk_row_json cr)) = Inr es"
    using r(2) tag by (simp add: decode_storage_record_value_def row)
  moreover have "json_depth (chunk_row_json cr) \<le> max_nesting_depth"
    by (auto simp: chunk_row_json_def run_data_json_def max_nesting_depth_def)
  ultimately show ?thesis using r(3) by (auto simp: reads_as_def)
qed

section \<open>A batch as lines\<close>

lemma printed_line:
  assumes "decode_storage_record_value (Some j) = Inr es" and "json_depth j \<le> max_nesting_depth"
  shows "line_of (print_json j) es"
proof -
  have pl: "\<forall>c\<in>set (print_json j). 32 \<le> (of_char c :: nat)" using plain_print [of j] by (simp add: plain_def)
  have ne: "print_json j \<noteq> []"
  proof
    assume "print_json j = []"
    with parse_print_json [OF assms(2)] have "parse_json [] = Some j" by simp
    then show False by (simp add: parse_json_def skip_ws_def)
  qed
  have "CHR 0x0A \<notin> set (print_json j)" using pl by auto
  moreover have "last (print_json j) \<noteq> CHR 0x0D"
  proof
    assume "last (print_json j) = CHR 0x0D"
    moreover have "32 \<le> (of_char (last (print_json j)) :: nat)" using pl last_in_set [OF ne] by blast
    ultimately show False by simp
  qed
  ultimately show ?thesis using parse_print_json [OF assms(2)] assms(1) ne by (simp add: line_of_def)
qed

lemma record_lines_cover:
  "list_all2 covers recs parts \<Longrightarrow> \<forall>e\<in>set (concat parts). line_storable e \<Longrightarrow>
   \<exists>ls ess. record_lines recs = Inr ls \<and> list_all2 line_of ls ess \<and> list_all2 (list_all2 read_back) parts ess"
proof (induction recs arbitrary: parts)
  case Nil
  then show ?case by simp
next
  case (Cons r recs)
  then obtain run parts' where p: "parts = run # parts'" "covers r run" "list_all2 covers recs parts'"
    by (auto simp: list_all2_Cons1)
  with Cons.prems(2) obtain ls ess where rest: "record_lines recs = Inr ls" "list_all2 line_of ls ess"
    "list_all2 (list_all2 read_back) parts' ess" using Cons.IH [OF p(3)] by auto
  have run: "\<forall>e\<in>set run. line_storable e" using Cons.prems(2) p(1) by simp
  obtain j es where j: "record_json r = Inr j" "reads_as run j es"
  proof (cases r)
    case (Scalar e)
    then show ?thesis using that p(2) run scalar_line [of e] by (auto simp: covers_def record_json_def)
  next
    case (Packed cr)
    then show ?thesis using that p(2) run packed_line [of cr run] by (auto simp: record_json_def)
  qed
  have "line_of (print_json j) es" using j(2) by (intro printed_line) (simp_all add: reads_as_def)
  with rest p(1) j show ?case
    by (intro exI [of _ "print_json j # ls"] exI [of _ "es # ess"]) (simp add: reads_as_def)
qed

lemma batch_lines:
  assumes "\<forall>e\<in>set es. line_storable e"
  obtains ls parts ess where "record_lines (pack_chunk_runs es) = Inr ls" "concat parts = es"
    "list_all2 line_of ls ess" "list_all2 (list_all2 read_back) parts ess"
proof -
  from covered_pack [of es] obtain parts where "concat parts = es" "list_all2 covers (pack_chunk_runs es) parts"
    by (auto simp: covered_def)
  with record_lines_cover [of "pack_chunk_runs es" parts] assms that show ?thesis by blast
qed

lemma join_records_text: "ls \<noteq> [] \<Longrightarrow> join_records ls @ [CHR 0x0A] = lines_text ls"
  by (induction ls rule: join_records.induct) simp_all

section \<open>The header line\<close>

definition header_storable :: "session_header \<Rightarrow> bool" where
  "header_storable m \<longleftrightarrow> hd_version m = session_format_version \<and> hd_id m \<noteq> [] \<and>
     0 \<le> hd_created_at m \<and> in_int64 (hd_created_at m) \<and> 0 \<le> hd_delegation_depth m \<and> in_int64 (hd_delegation_depth m) \<and>
     0 \<le> hd_seed_length m \<and> in_int64 (hd_seed_length m) \<and> hd_origin m \<in> {[], ''subagent''}"

lemma trim_idle_json: "trim_space (print_json (JObj kvs)) = print_json (JObj kvs)"
proof -
  have "CHR 0x7B \<notin> set (map hd space_codes)" "CHR 0x7D \<notin> set (map (hd \<circ> rev) space_codes)" by code_simp+
  from trim_space_word [OF this] show ?thesis by simp
qed

lemma header_field_values:
  assumes "header_json m = JObj kvs"
  shows "json_field ''type'' kvs = Some (JStr ''session'')"
    "json_field ''version'' kvs = Some (JInt (hd_version m))"
    "json_field ''id'' kvs = Some (JStr (hd_id m))"
    "json_field ''createdAt'' kvs = Some (JInt (hd_created_at m))"
    "json_field ''cwd'' kvs = (if hd_cwd m = [] then None else Some (JStr (hd_cwd m)))"
    "json_field ''parentSession'' kvs = (if hd_parent_session m = [] then None else Some (JStr (hd_parent_session m)))"
    "json_field ''seedLength'' kvs = (if hd_seed_length m = 0 then None else Some (JInt (hd_seed_length m)))"
    "json_field ''origin'' kvs = (if hd_origin m = [] then None else Some (JStr (hd_origin m)))"
    "json_field ''delegationDepth'' kvs = Some (JInt (hd_delegation_depth m))"
    "json_field ''agentPreset'' kvs = (if hd_agent_preset m = [] then None else Some (JStr (hd_agent_preset m)))"
  using assms by (auto simp: header_json_def fields)

lemma header_keys:
  "header_json m = JObj kvs \<Longrightarrow> ''sandboxMode'' \<notin> set (map_keys kvs) \<and> ''approvalPolicy'' \<notin> set (map_keys kvs)"
  by (auto simp: header_json_def map_keys_def split: if_splits)

lemma header_reads_back:
  assumes "header_storable m"
  shows "parse_header_line (print_json (header_json m) @ [CHR 0x0A]) = Inr m"
proof -
  obtain kvs where kvs: "header_json m = JObj kvs" by (simp add: header_json_def)
  have "last (print_json (JObj kvs)) \<noteq> CHR 0x0A" by simp
  then have "trim_right [CHR 0x0A] (print_json (JObj kvs) @ [CHR 0x0A]) = print_json (JObj kvs)"
    using trim_right_idle [of "print_json (JObj kvs)" "[CHR 0x0A]"] by (simp add: trim_right_def)
  moreover have "json_depth (header_json m) \<le> max_nesting_depth"
    by (auto simp: header_json_def max_nesting_depth_def)
  ultimately have raw: "parse_json (trim_space (trim_right [CHR 0x0A] (print_json (JObj kvs) @ [CHR 0x0A]))) = Some (JObj kvs)"
    using kvs by (simp only: trim_idle_json parse_print_json)
  note vals = header_field_values [OF kvs]
  have m: "hd_version m = session_format_version" "hd_id m \<noteq> []" "0 \<le> hd_created_at m" "in_int64 (hd_created_at m)"
    "0 \<le> hd_delegation_depth m" "in_int64 (hd_delegation_depth m)" "0 \<le> hd_seed_length m" "in_int64 (hd_seed_length m)"
    "hd_origin m \<in> {[], ''subagent''}" using assms by (simp_all add: header_storable_def)
  have v: "in_int64 session_format_version" by (simp add: in_int64_def session_format_version_def)
  let ?h = "\<lparr>hf_type = ''session'', hf_version = hd_version m, hf_id = hd_id m, hf_created_at = Some (hd_created_at m),
    hf_cwd = if hd_cwd m = [] then None else Some (hd_cwd m),
    hf_parent_session = if hd_parent_session m = [] then None else Some (hd_parent_session m),
    hf_seed_length = if hd_seed_length m = 0 then None else Some (hd_seed_length m),
    hf_origin = if hd_origin m = [] then None else Some (hd_origin m),
    hf_delegation_depth = Some (hd_delegation_depth m),
    hf_agent_preset = if hd_agent_preset m = [] then None else Some (hd_agent_preset m)\<rparr>"
  have h: "dec_header_fields kvs = Some ?h"
    using m v by (simp add: dec_header_fields_def dec_string_def dec_int_def dec_opt_int_def dec_opt_string_def vals)
  have c: "check_header (map_keys kvs) ?h = Inr m"
    using m header_keys [OF kvs] by (auto simp: check_header_def or_zero_def or_empty_def)
  have first: "Option.bind (dec_opt_int ''version'' kvs) (\<lambda>v. map_option (Pair v) (dec_string ''id'' kvs)) =
      Some (Some session_format_version, hd_id m)"
    using m(1) v by (simp add: dec_opt_int_def dec_string_def vals)
  show ?thesis
    unfolding kvs parse_header_line_def Let_def raw
    using first h c by (simp add: unmarshal_def dec_object_def)
qed

end
