(* ===== verification/Go_Runes.thy ===== *)
theory Go_Runes imports Go_Strings begin

text \<open>
  Runes of a Go string: what \<open>for _, r := range s\<close> and \<open>[]rune(s)\<close> yield.  Strings are lists of
  bytes; a byte that does not start a valid UTF-8 sequence reads as U+FFFD and takes one byte.
\<close>

definition rune_error :: nat where "rune_error = 0xFFFD"

definition is_continuation :: "char \<Rightarrow> bool" where
  "is_continuation c \<longleftrightarrow> 0x80 \<le> (of_char c :: nat) \<and> (of_char c :: nat) \<le> 0xBF"

definition low_bits :: "char \<Rightarrow> nat" where "low_bits c = of_char c mod 64"

text \<open>The range the second byte must be in: it excludes overlong forms, surrogates and rune_values past U+10FFFF.\<close>

definition second_ok :: "nat \<Rightarrow> char \<Rightarrow> bool" where
  "second_ok b0 c = (let b1 = (of_char c :: nat) in
     (if b0 = 0xE0 then 0xA0 else if b0 = 0xF0 then 0x90 else 0x80) \<le> b1 \<and>
     b1 \<le> (if b0 = 0xED then 0x9F else if b0 = 0xF4 then 0x8F else 0xBF))"

text \<open>\<open>utf8.DecodeRuneInString\<close> on a non-empty string: the rune and its width.\<close>

definition decode_rune :: "string \<Rightarrow> nat \<times> nat" where
  "decode_rune s = (let b0 = (of_char (hd s) :: nat) in
     if b0 < 0x80 then (b0, 1)
     else if b0 < 0xC2 \<or> 0xF4 < b0 then (rune_error, 1)
     else if length s < 2 \<or> \<not> second_ok b0 (s ! 1) then (rune_error, 1)
     else if b0 < 0xE0 then (b0 mod 32 * 64 + low_bits (s ! 1), 2)
     else if length s < 3 \<or> \<not> is_continuation (s ! 2) then (rune_error, 1)
     else if b0 < 0xF0 then (b0 mod 16 * 4096 + low_bits (s ! 1) * 64 + low_bits (s ! 2), 3)
     else if length s < 4 \<or> \<not> is_continuation (s ! 3) then (rune_error, 1)
     else (b0 mod 8 * 262144 + low_bits (s ! 1) * 4096 + low_bits (s ! 2) * 64 + low_bits (s ! 3), 4))"

lemma decode_rune_width: "0 < snd (decode_rune s)"
  by (simp add: decode_rune_def Let_def)

function rune_values :: "string \<Rightarrow> nat list" where
  "rune_values s = (if s = [] then [] else fst (decode_rune s) # rune_values (drop (snd (decode_rune s)) s))"
  by pat_completeness auto
termination
  by (relation "measure length") (use decode_rune_width in auto)

declare rune_values.simps [simp del]

definition ascii :: "string \<Rightarrow> bool" where
  "ascii s \<longleftrightarrow> (\<forall>c\<in>set s. (of_char c :: nat) < 0x80)"

lemma rune_values_Nil [simp]: "rune_values [] = []"
  by (simp add: rune_values.simps)

lemma rune_values_ascii: "ascii s \<Longrightarrow> rune_values s = map of_char s"
  by (induction s) (simp_all add: ascii_def rune_values.simps [of "_ # _"] decode_rune_def Let_def)

text \<open>\<open>%04X\<close> of a number that fits four digits.\<close>

definition upper_hex :: "nat \<Rightarrow> char" where
  "upper_hex n = (if n < 10 then char_of (48 + n) else char_of (55 + n))"

definition hex4 :: "nat \<Rightarrow> string" where
  "hex4 n = [upper_hex (n div 4096 mod 16), upper_hex (n div 256 mod 16), upper_hex (n div 16 mod 16), upper_hex (n mod 16)]"

definition hex_digit_value :: "char \<Rightarrow> nat" where
  "hex_digit_value c = (if (of_char c :: nat) < 58 then of_char c - 48 else of_char c - 55)"

lemma hex_digit_value_upper [simp]: "n < 16 \<Longrightarrow> hex_digit_value (upper_hex n) = n"
  by (simp add: hex_digit_value_def upper_hex_def)

text \<open>Only an ASCII byte decodes to an ASCII rune.\<close>

lemma low_bits_ge: "second_ok 0xE0 c \<Longrightarrow> 32 \<le> low_bits c" "second_ok 0xF0 c \<Longrightarrow> 16 \<le> low_bits c"
proof -
  have r: "\<exists>k. (of_char c :: nat) = 128 + k \<and> k < 64 \<and> low_bits c = k" if "0x80 \<le> (of_char c :: nat)" "(of_char c :: nat) \<le> 0xBF"
    using that by (intro exI [of _ "of_char c - 128"]) (auto simp: low_bits_def mod_if)
  show "second_ok 0xE0 c \<Longrightarrow> 32 \<le> low_bits c" "second_ok 0xF0 c \<Longrightarrow> 16 \<le> low_bits c"
    using r by (auto simp: second_ok_def Let_def)
qed

lemma lead_bits:
  "0xC2 \<le> b \<Longrightarrow> b < 0xE0 \<Longrightarrow> 2 \<le> b mod (32::nat)" "0xE1 \<le> b \<Longrightarrow> b < 0xF0 \<Longrightarrow> 1 \<le> b mod (16::nat)"
  "0xF1 \<le> b \<Longrightarrow> b \<le> 0xF4 \<Longrightarrow> 1 \<le> b mod (8::nat)"
proof -
  have shift: "b mod m = b - k * m" if "k * m \<le> b" "b < k * m + m" for m k :: nat
  proof -
    obtain d where "b = k * m + d" using \<open>k * m \<le> b\<close> by (auto simp: le_iff_add)
    with that show ?thesis by simp
  qed
  show "0xC2 \<le> b \<Longrightarrow> b < 0xE0 \<Longrightarrow> 2 \<le> b mod 32" using shift [of 6 32] by simp
  show "0xE1 \<le> b \<Longrightarrow> b < 0xF0 \<Longrightarrow> 1 \<le> b mod 16" using shift [of 14 16] by simp
  show "0xF1 \<le> b \<Longrightarrow> b \<le> 0xF4 \<Longrightarrow> 1 \<le> b mod 8" using shift [of 30 8] by simp
qed

lemma decode_rune_ascii:
  assumes "fst (decode_rune s) < 128"
  shows "decode_rune s = (of_char (hd s), 1) \<and> (of_char (hd s) :: nat) < 128"
proof (cases "(of_char (hd s) :: nat) < 128")
  case True
  then show ?thesis by (simp add: decode_rune_def Let_def)
next
  case False
  have "\<not> fst (decode_rune s) < 128"
  proof (cases "(of_char (hd s) :: nat) < 0xE0")
    case True
    with False lead_bits(1) [of "of_char (hd s)"] show ?thesis
      by (auto simp: decode_rune_def Let_def rune_error_def not_less)
  next
    case ge: False
    show ?thesis
    proof (cases "(of_char (hd s) :: nat) < 0xF0")
      case True
      have "of_char (hd s) = (0xE0::nat) \<or> 0xE1 \<le> (of_char (hd s) :: nat)" using ge by linarith
      with True False ge lead_bits(2) [of "of_char (hd s)"] low_bits_ge(1) [of "s ! 1"] show ?thesis
        by (auto simp: decode_rune_def Let_def rune_error_def not_less)
    next
      case big: False
      have "of_char (hd s) = (0xF0::nat) \<or> 0xF1 \<le> (of_char (hd s) :: nat)" using big by linarith
      with big ge False lead_bits(3) [of "of_char (hd s)"] low_bits_ge(2) [of "s ! 1"] show ?thesis
        by (auto simp: decode_rune_def Let_def rune_error_def not_less)
    qed
  qed
  with assms show ?thesis by simp
qed

lemma rune_values_eq_ascii: "rune_values s = map of_char t \<Longrightarrow> ascii t \<Longrightarrow> s = t"
proof (induction t arbitrary: s)
  case Nil
  then show ?case by (cases "s = []") (simp_all add: rune_values.simps [of s])
next
  case (Cons c t)
  have ne: "s \<noteq> []" using Cons.prems(1) by auto
  with Cons.prems(1) have r: "fst (decode_rune s) = of_char c" "rune_values (drop (snd (decode_rune s)) s) = map of_char t"
    by (simp_all add: rune_values.simps [of s])
  have "(of_char c :: nat) < 128" using Cons.prems(2) by (simp add: ascii_def)
  with decode_rune_ascii [of s] r(1) have d: "decode_rune s = (of_char (hd s), 1)" by simp
  with r(1) have "hd s = c" by simp
  moreover have "tl s = t" using Cons.IH [of "tl s"] r(2) d Cons.prems(2) by (simp add: ascii_def drop_Suc)
  ultimately show ?case using ne by (cases s) auto
qed

end
