(* ===== verification/Jsonl_Store.thy ===== *)
theory Jsonl_Store imports Jsonl_Laws Go_Runes "HOL-Library.List_Lexorder" "HOL-Library.Product_Lexorder" "HOL-Library.Char_ord" begin

text \<open>
  The JSONL session store, \<open>pkg/storage/store_jsonl.go\<close>: where an artifact lies, how a session is
  materialized, appended to, repaired, deleted and listed.  A store is the artifacts under its
  root in the order \<open>os.ReadDir\<close> visits them, keyed by project directory and session directory.
  The compressor is an argument; a call that goes wrong comes with its fault.
\<close>

section \<open>Path segments\<close>

definition safe_segment_rune :: "nat \<Rightarrow> bool" where
  "safe_segment_rune r \<longleftrightarrow> 97 \<le> r \<and> r \<le> 122 \<or> 65 \<le> r \<and> r \<le> 90 \<or> 48 \<le> r \<and> r \<le> 57 \<or> r = 46 \<or> r = 95 \<or> r = 45"

definition append_hex_escape :: "nat \<Rightarrow> string" where
  "append_hex_escape r =
     (if r \<le> 0xFFFF then CHR ''~'' # hex4 r
      else CHR ''~'' # hex4 (0xD800 + (r - 0x10000) div 1024) @ CHR ''~'' # hex4 (0xDC00 + (r - 0x10000) mod 1024))"

definition segment_rune :: "nat \<Rightarrow> string" where
  "segment_rune r = (if r \<noteq> 126 \<and> safe_segment_rune r then [char_of r] else append_hex_escape r)"

definition encode_segment_path :: "string \<Rightarrow> string" where
  "encode_segment_path raw =
     (if raw = [] then ''~002E'' else if raw = ''.'' then ''~002E'' else if raw = ''..'' then ''~002E~002E''
      else concat (map segment_rune (rune_values raw)))"

definition project_key_slug_max :: nat where "project_key_slug_max = 251"

fun readable_key :: "bool \<Rightarrow> nat list \<Rightarrow> string" where
  "readable_key separator_run [] = []"
| "readable_key separator_run (r # rs) =
     (if r \<in> {47, 92, 58} then (if separator_run then [] else ''-'') @ readable_key True rs
      else segment_rune r @ readable_key False rs)"

definition project_key :: "string \<Rightarrow> string" where
  "project_key cwd =
     (let trimmed = dropWhile (\<lambda>c. c = CHR ''-'') (readable_key False (rune_values cwd));
          slug = (if trimmed = [] then ''root'' else trimmed)
      in ''--'' @ (if project_key_slug_max < length slug then take project_key_slug_max slug else slug) @ ''--'')"

text \<open>The two directories between the root and the artifact.\<close>

definition project_dir :: "string \<Rightarrow> string" where
  "project_dir cwd = (if cwd = [] then ''_no-cwd'' else project_key cwd)"

definition path_for :: "string \<Rightarrow> string \<Rightarrow> string \<times> string" where
  "path_for cwd sid = (project_dir cwd, encode_segment_path sid)"

section \<open>Writing\<close>

text \<open>Where a call of the operating system fails; a failed write leaves its first bytes.\<close>

datatype io_fault = MkdirFails | OpenFails | WriteFails nat | SyncFails | CloseFails | RenameFails | TruncateFails | RemoveFails

datatype jsonl_write_error =
    MarshalPanic session_error
  | FramePanic
  | LogExists
  | IoFailed io_fault
  | RollbackFailed io_fault
  | NoSuchSession
  | UnreadableArtifact artifact_error
  | DuplicateSession string

type_synonym compressor = "string \<Rightarrow> string option"

definition zstd_frame :: "compressor \<Rightarrow> string \<Rightarrow> jsonl_write_error + string" where
  "zstd_frame compress plain_text = (case compress plain_text of None \<Rightarrow> Inl FramePanic | Some fr \<Rightarrow> Inr fr)"

definition batch_text :: "session_envelope list \<Rightarrow> jsonl_write_error + string" where
  "batch_text events = map_sum MarshalPanic (\<lambda>t. t @ [CHR 0x0A]) (encode_event_lines events)"

definition header_text :: "session_header \<Rightarrow> string" where
  "header_text meta = print_json (header_json meta) @ [CHR 0x0A]"

definition encode_materialization ::
  "compressor \<Rightarrow> session_header \<Rightarrow> session_envelope list \<Rightarrow> jsonl_write_error + string" where
  "encode_materialization compress meta events =
     and_then (batch_text events) (\<lambda>body.
     and_then (zstd_frame compress (header_text meta)) (\<lambda>h.
     and_then (zstd_frame compress body) (\<lambda>b. Inr (h @ b))))"

definition encode_append_batch :: "compressor \<Rightarrow> session_envelope list \<Rightarrow> jsonl_write_error + string" where
  "encode_append_batch compress events = and_then (batch_text events) (zstd_frame compress)"

type_synonym jsonl_dir = "((string \<times> string) \<times> string) list"

definition put_artifact :: "string \<times> string \<Rightarrow> string \<Rightarrow> jsonl_dir \<Rightarrow> jsonl_dir" where
  "put_artifact path content d =
     (if map_of d path = None then insort_key fst (path, content) d
      else map (\<lambda>(p, c). (p, if p = path then content else c)) d)"

text \<open>
  \<open>materialize\<close> writes a temporary file and renames it; whatever fails, the temporary file is
  removed and the artifact is not there.
\<close>

definition materialize ::
  "compressor \<Rightarrow> io_fault option \<Rightarrow> session_header \<Rightarrow> session_envelope list \<Rightarrow> jsonl_dir \<Rightarrow>
   jsonl_dir \<times> (jsonl_write_error + unit)" where
  "materialize compress fault meta events d =
     (let path = path_for (hd_cwd meta) (hd_id meta)
      in if fault = Some MkdirFails then (d, Inl (IoFailed MkdirFails))
         else if map_of d path \<noteq> None then (d, Inl LogExists)
         else (case encode_materialization compress meta events of
             Inl e \<Rightarrow> (d, Inl e)
           | Inr content \<Rightarrow>
               (case fault of None \<Rightarrow> (put_artifact path content d, Inr ())
                | Some f \<Rightarrow> (d, Inl (IoFailed f)))))"

text \<open>
  \<open>appendLines\<close> on the bytes of an artifact: \<open>rollback_ok\<close> tells whether truncating back to the
  size before the write succeeds.  An error of the last \<open>Close\<close> is reported although the batch is in.
\<close>

definition append_lines ::
  "compressor \<Rightarrow> io_fault option \<Rightarrow> bool \<Rightarrow> session_envelope list \<Rightarrow> string \<Rightarrow> string \<times> (jsonl_write_error + unit)" where
  "append_lines compress fault rollback_ok events content =
     (case encode_append_batch compress events of
        Inl e \<Rightarrow> (content, Inl e)
      | Inr fr \<Rightarrow>
          (case fault of
             None \<Rightarrow> (content @ fr, Inr ())
           | Some (WriteFails n) \<Rightarrow>
               if rollback_ok then (content, Inl (IoFailed (WriteFails n)))
               else (content @ take n fr, Inl (RollbackFailed (WriteFails n)))
           | Some SyncFails \<Rightarrow>
               if rollback_ok then (content, Inl (IoFailed SyncFails))
               else (content @ fr, Inl (RollbackFailed SyncFails))
           | Some CloseFails \<Rightarrow> (content @ fr, Inl (IoFailed CloseFails))
           | Some f \<Rightarrow> (content, Inl (IoFailed f))))"

definition append_events_jsonl ::
  "compressor \<Rightarrow> io_fault option \<Rightarrow> bool \<Rightarrow> session_header \<Rightarrow> session_envelope list \<Rightarrow> jsonl_dir \<Rightarrow>
   jsonl_dir \<times> (jsonl_write_error + unit)" where
  "append_events_jsonl compress fault rollback_ok meta events d =
     (let path = path_for (hd_cwd meta) (hd_id meta)
      in case map_of d path of
           None \<Rightarrow> materialize compress fault meta events d
         | Some content \<Rightarrow>
             (case append_lines compress fault rollback_ok events content of
                (content', r) \<Rightarrow> (put_artifact path content' d, r)))"

definition put_session_jsonl ::
  "compressor \<Rightarrow> io_fault option \<Rightarrow> session_header \<Rightarrow> jsonl_dir \<Rightarrow> jsonl_dir \<times> (jsonl_write_error + unit)" where
  "put_session_jsonl compress fault meta d =
     (if map_of d (path_for (hd_cwd meta) (hd_id meta)) \<noteq> None then (d, Inr ())
      else materialize compress fault meta [] d)"

text \<open>A truncation past the end fills the file with zero bytes, as the system call does.\<close>

definition truncate_to :: "nat \<Rightarrow> string \<Rightarrow> string" where
  "truncate_to n content = take n content @ replicate (n - length content) (CHR 0x00)"

definition commit_repair_jsonl ::
  "compressor \<Rightarrow> io_fault option \<Rightarrow> bool \<Rightarrow> session_header \<Rightarrow> nat option \<Rightarrow> session_envelope list \<Rightarrow>
   session_envelope list \<Rightarrow> jsonl_dir \<Rightarrow> jsonl_dir \<times> (jsonl_write_error + unit)" where
  "commit_repair_jsonl compress fault rollback_ok meta torn_offset recovered closers d =
     (let path = path_for (hd_cwd meta) (hd_id meta); combined = recovered @ closers
      in case map_of d path of
           None \<Rightarrow> if torn_offset = None \<and> combined = [] then (d, Inr ())
             else if torn_offset = None then
               (case encode_append_batch compress combined of Inl e \<Rightarrow> (d, Inl e) | Inr _ \<Rightarrow> (d, Inl (IoFailed OpenFails)))
             else (d, Inl (IoFailed OpenFails))
         | Some content \<Rightarrow>
             if torn_offset \<noteq> None \<and> fault = Some TruncateFails then (d, Inl (IoFailed TruncateFails))
             else (let content1 = (case torn_offset of None \<Rightarrow> content | Some n \<Rightarrow> truncate_to n content)
               in if combined = [] then (put_artifact path content1 d, Inr ())
                  else (case append_lines compress fault rollback_ok combined content1 of
                    (content2, r) \<Rightarrow> (put_artifact path content2 d, r))))"

section \<open>Reading\<close>

text \<open>The header frame alone; \<open>None\<close> when there is no complete frame.\<close>

definition read_first_zstd_line :: "(string \<Rightarrow> string option) \<Rightarrow> string \<Rightarrow> artifact_error + string option" where
  "read_first_zstd_line decode_all raw =
     (case scan_zstd_frames raw of
        Inl e \<Rightarrow> Inl (BadFrames e)
      | Inr ([], _) \<Rightarrow> Inr None
      | Inr ((i, j) # _, _) \<Rightarrow>
          (case decode_all (Prelude.slice raw i j) of
             None \<Rightarrow> Inl (FrameDecode i)
           | Some plain_text \<Rightarrow> Inr (Some (trim_right [CHR 0x0A, CHR 0x0D] plain_text))))"

definition read_artifact ::
  "(string \<Rightarrow> string option) \<Rightarrow> (string \<Rightarrow> string option) \<Rightarrow> session_header \<Rightarrow> jsonl_dir \<Rightarrow> artifact_error + jsonl_log option" where
  "read_artifact decode_all stream_read meta d =
     (case map_of d (path_for (hd_cwd meta) (hd_id meta)) of
        None \<Rightarrow> Inr None
      | Some raw \<Rightarrow> map_sum id Some (read_jsonl_zstd decode_all stream_read raw))"

text \<open>Unreadable artifacts and foreign headers are skipped; a second artifact of the same id fails the listing.\<close>

fun list_artifacts ::
  "(string \<Rightarrow> string option) \<Rightarrow> string list \<Rightarrow> jsonl_dir \<Rightarrow> jsonl_write_error + session_header list" where
  "list_artifacts decode_all seen [] = Inr []"
| "list_artifacts decode_all seen ((_, raw) # d) =
     (case read_first_zstd_line decode_all raw of
        Inr (Some line) \<Rightarrow>
          (case parse_header_line line of
             Inl _ \<Rightarrow> list_artifacts decode_all seen d
           | Inr h \<Rightarrow>
               if hd_id h \<in> set seen then Inl (DuplicateSession (hd_id h))
               else and_then (list_artifacts decode_all (hd_id h # seen) d) (\<lambda>hs. Inr (h # hs)))
      | _ \<Rightarrow> list_artifacts decode_all seen d)"

definition list_sessions_jsonl :: "(string \<Rightarrow> string option) \<Rightarrow> jsonl_dir \<Rightarrow> jsonl_write_error + session_header list" where
  "list_sessions_jsonl decode_all d = list_artifacts decode_all [] d"

text \<open>
  \<open>DeleteSession\<close> walks every artifact: one that cannot be read stops the walk, a foreign one is
  skipped, and each one of the session is removed; a removal that fails is reported at the end.  A
  file without a complete frame has an empty header line.  The walk yields whether the session was
  found and whether a removal failed.
\<close>

fun delete_walk ::
  "(string \<Rightarrow> string option) \<Rightarrow> (string \<times> string \<Rightarrow> bool) \<Rightarrow> string \<Rightarrow> jsonl_dir \<Rightarrow>
   jsonl_dir \<times> (jsonl_write_error + bool \<times> bool)" where
  "delete_walk decode_all stuck sid [] = ([], Inr (False, False))"
| "delete_walk decode_all stuck sid ((path, raw) # d) =
     (case read_first_zstd_line decode_all raw of
        Inl e \<Rightarrow> ((path, raw) # d, Inl (UnreadableArtifact e))
      | Inr line \<Rightarrow>
          (case delete_walk decode_all stuck sid d of (d', r) \<Rightarrow>
             (case parse_header_line (or_empty line) of
                Inl _ \<Rightarrow> ((path, raw) # d', r)
              | Inr h \<Rightarrow>
                  if hd_id h \<noteq> sid then ((path, raw) # d', r)
                  else (if stuck path then (path, raw) # d' else d',
                        map_sum id (\<lambda>(_, failed). (True, failed \<or> stuck path)) r))))"

definition delete_session_jsonl ::
  "(string \<Rightarrow> string option) \<Rightarrow> (string \<times> string \<Rightarrow> bool) \<Rightarrow> string \<Rightarrow> jsonl_dir \<Rightarrow>
   jsonl_dir \<times> (jsonl_write_error + unit)" where
  "delete_session_jsonl decode_all stuck sid d =
     (if trim_space sid = [] then (d, Inr ())
      else (case delete_walk decode_all stuck sid d of
          (d', Inl e) \<Rightarrow> (d', Inl e)
        | (d', Inr (found, failed)) \<Rightarrow>
            (d', if failed then Inl (IoFailed RemoveFails) else if found then Inr () else Inl NoSuchSession)))"

end
