(* ===== verification/Jsonl_Properties.thy ===== *)
theory Jsonl_Properties imports Jsonl_Store Event_Store "HOL-Library.Sublist" begin

text \<open>
  What the JSONL store promises: ids never leave their directory, batches read back, and whatever
  byte an artifact is cut at, everything behind its header frame reads as a prefix of what was
  appended.
\<close>

section \<open>Segments\<close>

definition path_char :: "char \<Rightarrow> bool" where
  "path_char c \<longleftrightarrow> safe_segment_rune (of_char c) \<or> c = CHR ''~''"

lemma upper_hex_safe: "n < 16 \<Longrightarrow> path_char (upper_hex n)"
  by (auto simp: path_char_def safe_segment_rune_def upper_hex_def)

lemma hex4_safe: "\<forall>c\<in>set (hex4 n). path_char c"
  using upper_hex_safe by (simp add: hex4_def)

lemma segment_rune_safe: "\<forall>c\<in>set (segment_rune r). path_char c"
  using hex4_safe by (auto simp: segment_rune_def append_hex_escape_def path_char_def safe_segment_rune_def)

lemma segment_rune_safe_char:
  assumes "safe_segment_rune r"
  shows "segment_rune r = [char_of r] \<and> (of_char (char_of r) :: nat) = r"
  using assms by (auto simp: segment_rune_def safe_segment_rune_def)

lemma segment_rune_dot:
  assumes "segment_rune r = CHR ''.'' # t"
  shows "r = 46 \<and> t = []"
proof (cases "r \<noteq> 126 \<and> safe_segment_rune r")
  case True
  with segment_rune_safe_char [of r] assms have "char_of r = CHR ''.''" "t = []" "(of_char (char_of r) :: nat) = r" by auto
  then have "r = of_char (CHR ''.'')" by simp
  with \<open>t = []\<close> show ?thesis by simp
next
  case False
  with assms show ?thesis by (auto simp: segment_rune_def append_hex_escape_def split: if_splits)
qed

text \<open>Reading a segment back: one character or a \<open>~XXXX\<close> escape at a time.\<close>

fun decode_segment :: "string \<Rightarrow> string" where
  "decode_segment (c # a # b # d # e # s) =
     (if c = CHR ''~'' then char_of (hex_digit_value d * 16 + hex_digit_value e) # decode_segment s
      else c # decode_segment (a # b # d # e # s))"
| "decode_segment s = s"

lemma decode_segment_safe: "c \<noteq> CHR ''~'' \<Longrightarrow> decode_segment (c # s) = c # decode_segment s"
  by (cases "c # s" rule: decode_segment.cases) auto

lemma decode_segment_code:
  assumes "(of_char c :: nat) < 128"
  shows "decode_segment (segment_rune (of_char c) @ s) = c # decode_segment s"
proof (cases "(of_char c :: nat) \<noteq> 126 \<and> safe_segment_rune (of_char c)")
  case True
  then have "c \<noteq> CHR ''~''" by auto
  with True show ?thesis by (simp add: segment_rune_def decode_segment_safe)
next
  case False
  have "(of_char c :: nat) div 16 mod 16 * 16 + (of_char c :: nat) mod 16 = of_char c"
    using assms by simp
  with False assms show ?thesis
    by (auto simp: segment_rune_def append_hex_escape_def hex4_def)
qed

lemma decode_encode_segment:
  assumes "ascii raw" and "raw \<noteq> []"
  shows "decode_segment (encode_segment_path raw) = raw"
proof -
  have "decode_segment (concat (map segment_rune (map of_char raw))) = raw"
    using assms(1) by (induction raw) (simp_all add: ascii_def decode_segment_code)
  moreover have "decode_segment ''~002E'' = ''.''" "decode_segment ''~002E~002E'' = ''..''" by code_simp+
  ultimately show ?thesis using assms by (auto simp: encode_segment_path_def rune_values_ascii)
qed

lemma segment_runes_dots:
  "concat (map segment_rune rs) = replicate n (CHR ''.'') \<Longrightarrow> rs = replicate n 46"
proof (induction rs arbitrary: n)
  case Nil
  then show ?case by simp
next
  case (Cons r rs)
  have ne: "segment_rune r \<noteq> []" by (simp add: segment_rune_def append_hex_escape_def)
  with Cons.prems obtain m where n: "n = Suc m" by (cases n) auto
  with Cons.prems ne obtain t where "segment_rune r = CHR ''.'' # t" by (cases "segment_rune r") auto
  with segment_rune_dot [OF this] Cons.IH [of m] Cons.prems n show ?case by simp
qed

text \<open>
  C39. A session id never leaves its directory: whatever bytes it has, its path segment is not
  empty, not \<open>.\<close> and not \<open>..\<close>, and has no character but letters, digits, \<open>. _ -\<close> and the tilde of an
  escape.  Different non-empty ASCII ids have different segments.
\<close>
theorem segments_stay_inside:
  "encode_segment_path raw \<notin> {[], ''.'', ''..''} \<and> (\<forall>c\<in>set (encode_segment_path raw). path_char c) \<and>
   inj_on encode_segment_path {s. ascii s \<and> s \<noteq> []}"
proof -
  have dots: "concat (map segment_rune (rune_values raw)) = replicate n (CHR ''.'') \<Longrightarrow> raw = replicate n (CHR ''.'')" for n
    using segment_runes_dots [of "rune_values raw" n] rune_values_eq_ascii [of raw "replicate n (CHR ''.'')"]
    by (simp add: ascii_def)
  have "encode_segment_path raw \<notin> {[], ''.'', ''..''}"
    using dots [of 0] dots [of 1] dots [of 2] by (auto simp: encode_segment_path_def numeral_2_eq_2)
  moreover have "path_char c" if "c \<in> set (encode_segment_path raw)" for c
  proof -
    have "path_char c" if "c \<in> set ''~002E~002E''"
      using that by (auto simp: path_char_def safe_segment_rune_def)
    moreover have "path_char c" if "c \<in> set (concat (map segment_rune (rune_values raw)))"
      using that segment_rune_safe by auto
    ultimately show ?thesis using that by (auto simp: encode_segment_path_def split: if_splits)
  qed
  moreover have "inj_on encode_segment_path {s. ascii s \<and> s \<noteq> []}"
    by (rule inj_on_inverseI [of _ decode_segment]) (simp add: decode_encode_segment)
  ultimately show ?thesis by blast
qed

lemma segments_stay_inside_witness:
  "encode_segment_path ''..'' \<noteq> ''..'' \<and> list_all path_char ''~002E~002E'' \<and>
   encode_segment_path ''a/b'' \<noteq> encode_segment_path ''a~b''"
proof -
  have "encode_segment_path ''..'' = ''~002E~002E''" by (simp add: encode_segment_path_def)
  moreover have "ascii ''a/b''" "ascii ''a~b''" by (simp_all add: ascii_def)
  ultimately show ?thesis using segments_stay_inside [of "''..''"] by (auto simp: list_all_iff dest: inj_onD)
qed

section \<open>What the operations write\<close>

text \<open>The compressor makes complete frames that decompress again; the stream reader never invents text.\<close>

definition frame_codec :: "compressor \<Rightarrow> (string \<Rightarrow> string option) \<Rightarrow> bool" where
  "frame_codec compress decode_all \<longleftrightarrow>
     (\<forall>p fr. compress p = Some fr \<longrightarrow> is_frame fr \<and> decode_all fr = Some p)"

definition stream_prefix :: "compressor \<Rightarrow> (string \<Rightarrow> string option) \<Rightarrow> bool" where
  "stream_prefix compress stream_read \<longleftrightarrow>
     (\<forall>p fr k t. compress p = Some fr \<longrightarrow> k < length fr \<longrightarrow> stream_read (take k fr) = Some t \<longrightarrow> prefix t p)"

lemma map_of_insort: "map_of d p = None \<Longrightarrow> map_of (insort_key fst (p, c) d) q = (if q = p then Some c else map_of d q)"
  by (induction d) auto

lemma map_of_put: "map_of (put_artifact p c d) q = (if q = p then Some c else map_of d q)"
proof (cases "map_of d p = None")
  case True
  then show ?thesis by (simp add: put_artifact_def map_of_insort)
next
  case False
  have "map_of (map (\<lambda>(p', c'). (p', if p' = p then c else c')) d) q =
      (if q = p \<and> map_of d q \<noteq> None then Some c else map_of d q)"
    by (induction d) auto
  with False show ?thesis by (auto simp: put_artifact_def)
qed

abbreviation artifact_of :: "session_header \<Rightarrow> jsonl_dir \<Rightarrow> string option" where
  "artifact_of meta d \<equiv> map_of d (path_for (hd_cwd meta) (hd_id meta))"

lemma first_append:
  assumes "artifact_of meta d = None" and "append_events_jsonl compress None ok meta es d = (d', Inr ())"
  obtains h t fr where "compress (header_text meta) = Some h" "batch_text es = Inr t" "compress t = Some fr"
    "artifact_of meta d' = Some (h @ fr)"
  using assms
  by (auto simp: append_events_jsonl_def materialize_def Let_def encode_materialization_def zstd_frame_def
      and_then_def map_of_put split: sum.splits option.splits)

lemma next_append:
  assumes "artifact_of meta d = Some content" and "append_events_jsonl compress None ok meta es d = (d', Inr ())"
  obtains t fr where "batch_text es = Inr t" "compress t = Some fr" "artifact_of meta d' = Some (content @ fr)"
  using assms
  by (auto simp: append_events_jsonl_def append_lines_def Let_def encode_append_batch_def zstd_frame_def
      and_then_def map_of_put split: sum.splits option.splits)

lemma later_appends:
  "artifact_of meta d = Some content \<Longrightarrow> append_all (append_events_jsonl compress None ok meta) bs d = (d', Inr ()) \<Longrightarrow>
   \<exists>texts frs. map batch_text bs = map Inr texts \<and> map compress texts = map Some frs \<and>
     artifact_of meta d' = Some (content @ concat frs)"
proof (induction bs arbitrary: d content)
  case Nil
  then show ?case by simp
next
  case (Cons b bs)
  then obtain d1 where 1: "append_events_jsonl compress None ok meta b d = (d1, Inr ())"
    "append_all (append_events_jsonl compress None ok meta) bs d1 = (d', Inr ())"
    by (auto split: prod.splits sum.splits)
  obtain t fr where 2: "batch_text b = Inr t" "compress t = Some fr" "artifact_of meta d1 = Some (content @ fr)"
    using next_append [OF Cons.prems(1) 1(1)] .
  from Cons.IH [OF 2(3) 1(2)] obtain texts frs where 3: "map batch_text bs = map Inr texts"
    "map compress texts = map Some frs" "artifact_of meta d' = Some ((content @ fr) @ concat frs)" by blast
  show ?case by (rule exI [of _ "t # texts"], rule exI [of _ "fr # frs"]) (use 2 3 in simp)
qed

lemma all_appends:
  assumes "artifact_of meta d = None" and "bs \<noteq> []"
    and "append_all (append_events_jsonl compress None ok meta) bs d = (d', Inr ())"
  obtains h texts frs where "compress (header_text meta) = Some h" "map batch_text bs = map Inr texts"
    "map compress texts = map Some frs" "artifact_of meta d' = Some (h @ concat frs)"
proof -
  from assms(2) obtain b bs' where b: "bs = b # bs'" by (cases bs) auto
  with assms(3) obtain d1 where 1: "append_events_jsonl compress None ok meta b d = (d1, Inr ())"
    "append_all (append_events_jsonl compress None ok meta) bs' d1 = (d', Inr ())"
    by (auto split: prod.splits sum.splits)
  obtain h t fr where 2: "compress (header_text meta) = Some h" "batch_text b = Inr t" "compress t = Some fr"
    "artifact_of meta d1 = Some (h @ fr)" using first_append [OF assms(1) 1(1)] .
  from later_appends [OF 2(4) 1(2)] obtain texts frs where 3: "map batch_text bs' = map Inr texts"
    "map compress texts = map Some frs" "artifact_of meta d' = Some ((h @ fr) @ concat frs)" by blast
  show ?thesis by (rule that [of h "t # texts" "fr # frs"]) (use 2 3 b in simp_all)
qed

text \<open>The text of a batch, by lines.\<close>

lemma batch_text_lines:
  assumes "\<forall>e\<in>set es. line_storable e"
  obtains ls parts ess where "batch_text es = Inr (lines_text ls)" "concat parts = es"
    "list_all2 line_of ls ess" "list_all2 (list_all2 read_back) parts ess"
proof -
  obtain ls parts ess where b: "record_lines (pack_chunk_runs es) = Inr ls" "concat parts = es"
    "list_all2 line_of ls ess" "list_all2 (list_all2 read_back) parts ess" using batch_lines [OF assms] .
  show ?thesis
  proof (cases "ls = []")
    case True
    then have "parts = []" using b(3,4) by simp
    show ?thesis
      by (rule that [of "[[]]" "[[]]" "[[]]"])
        (use b True \<open>parts = []\<close> in \<open>simp_all add: batch_text_def encode_event_lines_def line_of_def\<close>)
  next
    case False
    show ?thesis
      by (rule that [OF _ b(2-4)]) (use b(1) False in \<open>simp add: batch_text_def encode_event_lines_def join_records_text\<close>)
  qed
qed

lemma batches_lines:
  assumes "\<forall>e\<in>set (concat bs). line_storable e"
  shows "\<exists>lss pss esss. map batch_text bs = map (\<lambda>ls. Inr (lines_text ls)) lss \<and> map concat pss = bs \<and>
    list_all2 (list_all2 line_of) lss esss \<and> list_all2 (list_all2 (list_all2 read_back)) pss esss"
  using assms
proof (induction bs)
  case Nil
  then show ?case by simp
next
  case (Cons b bs)
  then obtain lss pss esss where *: "map batch_text bs = map (\<lambda>ls. Inr (lines_text ls)) lss" "map concat pss = bs"
    "list_all2 (list_all2 line_of) lss esss" "list_all2 (list_all2 (list_all2 read_back)) pss esss" by auto
  obtain ls parts ess where "batch_text b = Inr (lines_text ls)" "concat parts = b"
    "list_all2 line_of ls ess" "list_all2 (list_all2 read_back) parts ess"
    using batch_text_lines [of b] Cons.prems by auto
  with * show ?case by (intro exI [of _ "ls # lss"] exI [of _ "parts # pss"] exI [of _ "ess # esss"]) simp
qed

section \<open>Reading a cut artifact\<close>

lemma concat_take_split: "n < length xs \<Longrightarrow> concat xs = concat (take n xs) @ xs ! n @ concat (drop (Suc n) xs)"
  by (metis Cons_nth_drop_Suc append_take_drop_id concat.simps(2) concat_append)

lemma concat_take_mono: "m \<le> n \<Longrightarrow> length (concat (take m xs)) \<le> length (concat (take n xs))"
  by (metis concat_append le_add1 length_append min.absorb1 append_take_drop_id take_take)

lemma torn_is_prefix:
  assumes "take k (concat fs) = concat (take n fs) @ torn" and "n < length fs" and "length torn < length (fs ! n)"
  shows "torn = take (length torn) (fs ! n)"
proof -
  have "concat (take n fs) @ torn = take k (concat (take n fs) @ fs ! n @ concat (drop (Suc n) fs))"
    using assms(1,2) by (simp flip: concat_take_split)
  then have "length (concat (take n fs)) \<le> k \<and> torn = take (k - length (concat (take n fs))) (fs ! n @ concat (drop (Suc n) fs))"
  proof -
    assume eq: "concat (take n fs) @ torn = take k (concat (take n fs) @ fs ! n @ concat (drop (Suc n) fs))"
    have "length (concat (take n fs)) \<le> k"
    proof (rule ccontr)
      assume "\<not> ?thesis"
      with arg_cong [OF eq, of length] show False by simp
    qed
    with eq show ?thesis by simp
  qed
  then obtain k' where t: "torn = take k' (fs ! n @ concat (drop (Suc n) fs))" by blast
  with assms(3) have "k' < length (fs ! n)" by (auto simp: min_def split: if_splits)
  with t show ?thesis by simp
qed

lemma map_Some_list_all2: "map compress ts = map Some fs \<Longrightarrow> list_all2 (\<lambda>fr t. compress t = Some fr) fs ts"
  by (induction ts arbitrary: fs) auto

lemma read_cut:
  assumes codec: "frame_codec compress decode_all" and stream: "stream_prefix compress stream_read"
    and fs: "map compress ts = map Some fs"
  obtains j where "read_jsonl_zstd decode_all stream_read (take k (concat fs)) =
      map_sum BadRecords id (parse_jsonl_records (take j (concat ts)))"
    "\<And>m. m \<le> length fs \<Longrightarrow> length (concat (take m fs)) \<le> k \<Longrightarrow> length (concat (take m ts)) \<le> j"
proof -
  have l2: "list_all2 (\<lambda>fr t. compress t = Some fr) fs ts" using map_Some_list_all2 [OF fs] .
  then have len: "length ts = length fs" by (simp add: list_all2_lengthD)
  have at: "compress (ts ! i) = Some (fs ! i)" if "i < length fs" for i
    using list_all2_nthD [OF l2 that] .
  have frames: "\<forall>fr\<in>set fs. is_frame fr"
  proof
    fix fr
    assume "fr \<in> set fs"
    then obtain i where "i < length fs" "fr = fs ! i" by (auto simp: in_set_conv_nth)
    with at codec show "is_frame fr" unfolding frame_codec_def by blast
  qed
  obtain n torn where n: "n \<le> length fs" "take k (concat fs) = concat (take n fs) @ torn"
    "torn = [] \<or> frame_size torn = Inr None" "n < length fs \<Longrightarrow> length torn < length (fs ! n)"
    "\<And>m. m \<le> length fs \<Longrightarrow> length (concat (take m fs)) \<le> k \<Longrightarrow> m \<le> n"
    by (rule take_frames [where k = k, OF frames that])
  let ?raw = "concat (take n fs) @ torn"
  have "\<forall>fr\<in>set (take n fs). is_frame fr" using frames by (auto dest: in_set_takeD)
  from scan_frames_concat [OF this n(3), of "[]" "[]"]
  have scan: "scan_zstd_frames ?raw = Inr (frame_ranges 0 (take n fs),
      if torn = [] then - 1 else int (length (concat (take n fs))))" by (simp add: scan_zstd_frames_def)
  have "list_all2 (\<lambda>fr out. decode_all fr = Some out) fs ts"
    using l2 codec by (auto simp: frame_codec_def elim!: list_all2_mono)
  then have "list_all2 (\<lambda>fr out. decode_all fr = Some out) (take n fs) (take n ts)" by (rule list_all2_takeI)
  from decode_frame_ranges [OF this, of "[]" torn]
  have dec: "decode_frames decode_all ?raw (frame_ranges 0 (take n fs)) = Inr (concat (take n ts))" by simp
  define t where "t = (if torn = [] then [] else case stream_read torn of Some t \<Rightarrow> t | None \<Rightarrow> [])"
  have read: "read_jsonl_zstd decode_all stream_read ?raw =
      map_sum BadRecords id (parse_jsonl_records (concat (take n ts) @ t))"
    using scan dec by (simp add: read_jsonl_zstd_def Let_def t_def)
  have "\<exists>u. concat ts = (concat (take n ts) @ t) @ u"
  proof (cases "n < length fs")
    case True
    have "prefix t (ts ! n)"
    proof (cases "torn = [] \<or> stream_read torn = None")
      case False
      then obtain u where "stream_read torn = Some u" "t = u" by (auto simp: t_def)
      with stream at [OF True] n(4) [OF True] torn_is_prefix [OF n(2) True n(4) [OF True]]
      show ?thesis unfolding stream_prefix_def by metis
    qed (auto simp: t_def)
    then obtain v where "ts ! n = t @ v" by (auto simp: prefix_def)
    with concat_take_split [of n ts] True len show ?thesis by simp
  next
    case False
    with n(1) have "n = length fs" by simp
    moreover have "length (take k (concat fs)) \<le> length (concat fs)" by simp
    ultimately have "torn = []" using n(2) by simp
    with False n(1) len show ?thesis by (simp add: t_def)
  qed
  then obtain u where u: "concat ts = (concat (take n ts) @ t) @ u" ..
  show ?thesis
  proof (rule that [of "length (concat (take n ts) @ t)"])
    show "read_jsonl_zstd decode_all stream_read (take k (concat fs)) =
        map_sum BadRecords id (parse_jsonl_records (take (length (concat (take n ts) @ t)) (concat ts)))"
      using read n(2) u by simp
    show "length (concat (take m ts)) \<le> length (concat (take n ts) @ t)"
      if "m \<le> length fs" "length (concat (take m fs)) \<le> k" for m
      using concat_take_mono [OF n(5) [OF that], of ts] by simp
  qed
qed

text \<open>Reading a prefix of the plain text that has the header line.\<close>

lemma header_next_line:
  "next_line (header_text meta @ t) = Some (print_json (header_json meta), t)"
proof -
  have "\<forall>c\<in>set (print_json (header_json meta)). 32 \<le> (of_char c :: nat)"
    using plain_print [of "header_json meta"] by (simp add: plain_def)
  then have "CHR 0x0A \<notin> set (print_json (header_json meta))" by auto
  then show ?thesis by (simp add: header_text_def)
qed

lemma parse_cut:
  assumes "header_storable meta" and "length (header_text meta) \<le> j"
    and "list_all2 line_of ls ess" and "check_contiguous 0 (concat ess)"
  obtains i c where "i \<le> length ls" "parse_jsonl_records (take j (header_text meta @ lines_text ls)) =
      Inr \<lparr>jl_header = meta, jl_events = concat (take i ess), jl_committed = c\<rparr>"
    "\<And>m. m \<le> length ls \<Longrightarrow> length (header_text meta) + length (lines_text (take m ls)) \<le> j \<Longrightarrow> m \<le> i"
proof -
  have "\<forall>l\<in>set ls. CHR 0x0A \<notin> set l"
  proof
    fix l
    assume "l \<in> set ls"
    then obtain n where "n < length ls" "l = ls ! n" by (auto simp: in_set_conv_nth)
    with list_all2_nthD [OF assms(3)] show "CHR 0x0A \<notin> set l" by (auto simp: line_of_def)
  qed
  then obtain i frag where i: "i \<le> length ls"
    "take (j - length (header_text meta)) (lines_text ls) = lines_text (take i ls) @ frag" "CHR 0x0A \<notin> set frag"
    "\<And>m. m \<le> length ls \<Longrightarrow> length (lines_text (take m ls)) \<le> j - length (header_text meta) \<Longrightarrow> m \<le> i"
    using take_lines [of ls "j - length (header_text meta)"] by metis
  have t: "take j (header_text meta @ lines_text ls) = header_text meta @ lines_text (take i ls) @ frag"
    using assms(2) i(2) by simp
  have "concat ess = concat (take i ess) @ concat (drop i ess)" by (metis append_take_drop_id concat_append)
  with assms(4) have "check_contiguous (int (length ([] :: session_envelope list))) (concat (take i ess))"
    by (simp add: check_contiguous_append)
  from jsonl_loop_lines [OF list_all2_takeI [OF assms(3)] this i(3), of meta
      "length (print_json (header_json meta)) + 1" "length (print_json (header_json meta)) + 1" 0]
  obtain c where "jsonl_loop meta (length (print_json (header_json meta)) + 1) (lines_text (take i ls) @ frag) []
      (length (print_json (header_json meta)) + 1) None 0 =
    Inr \<lparr>jl_header = meta, jl_events = concat (take i ess), jl_committed = c\<rparr>" by auto
  then have "parse_jsonl_records (take j (header_text meta @ lines_text ls)) =
      Inr \<lparr>jl_header = meta, jl_events = concat (take i ess), jl_committed = c\<rparr>"
    unfolding t using header_reads_back [OF assms(1)] by (simp add: parse_jsonl_records_def header_next_line)
  moreover have "m \<le> i" if "m \<le> length ls" "length (header_text meta) + length (lines_text (take m ls)) \<le> j" for m
    using that by (intro i(4)) simp_all
  ultimately show ?thesis by (rule that [OF i(1)])
qed

lemma lines_text_concat: "concat (map lines_text lss) = lines_text (concat lss)"
  by (induction lss) simp_all

lemma length_concat_take: "list_all2 (list_all2 P) xss yss \<Longrightarrow> length (concat (take m xss)) = length (concat (take m yss))"
  by (induction xss yss arbitrary: m rule: list_all2_induct) (auto simp: take_Cons dest: list_all2_lengthD split: nat.splits)

lemma list_all2_concat: "list_all2 (list_all2 P) xss yss \<Longrightarrow> list_all2 P (concat xss) (concat yss)"
  by (induction rule: list_all2_induct) (simp_all add: list_all2_appendI)

lemma concat_map_concat: "concat (map concat xsss) = concat (concat xsss)"
  by (induction xsss) simp_all

lemma prefix_concat_take: "m \<le> n \<Longrightarrow> prefix (concat (take m xs)) (concat (take n xs))"
  by (metis append_take_drop_id concat_append min.absorb1 prefixI take_take)

lemma contiguous_read_back: "list_all2 read_back es es' \<Longrightarrow> check_contiguous n es \<Longrightarrow> check_contiguous n es'"
  by (simp add: check_contiguous_read_back)

section \<open>The store as an event log\<close>

text \<open>An artifact made of the frames of a header and of batches of lines.\<close>

definition whole_artifact :: "compressor \<Rightarrow> session_header \<Rightarrow> session_envelope list \<Rightarrow> string \<Rightarrow> bool" where
  "whole_artifact compress meta es bytes \<longleftrightarrow> (\<exists>h frs lss esss. compress (header_text meta) = Some h \<and>
     map compress (map lines_text lss) = map Some frs \<and> bytes = h @ concat frs \<and>
     list_all2 (list_all2 line_of) lss esss \<and> es = concat (concat esss) \<and> check_contiguous 0 es)"

lemma read_whole:
  assumes "frame_codec compress decode_all" and "stream_prefix compress stream_read" and "header_storable meta"
    and "whole_artifact compress meta es bytes"
  shows "\<exists>c. read_jsonl_zstd decode_all stream_read bytes = Inr \<lparr>jl_header = meta, jl_events = es, jl_committed = c\<rparr>"
proof -
  obtain h frs lss esss where w: "compress (header_text meta) = Some h" "map compress (map lines_text lss) = map Some frs"
    "bytes = h @ concat frs" "list_all2 (list_all2 line_of) lss esss" "es = concat (concat esss)" "check_contiguous 0 es"
    using assms(4) unfolding whole_artifact_def by blast
  let ?T = "header_text meta # map lines_text lss" and ?F = "h # frs"
  obtain j where j: "read_jsonl_zstd decode_all stream_read (take (length bytes) (concat ?F)) =
      map_sum BadRecords id (parse_jsonl_records (take j (concat ?T)))"
    "\<And>m. m \<le> length ?F \<Longrightarrow> length (concat (take m ?F)) \<le> length bytes \<Longrightarrow> length (concat (take m ?T)) \<le> j"
    using read_cut [OF assms(1,2), of ?T ?F "length bytes"] w(1,2) by auto
  have "length lss = length frs" using arg_cong [OF w(2), of length] by simp
  with j(2) [of "length ?F"] w(3) have le: "length (header_text meta) + length (lines_text (concat lss)) \<le> j"
    by (simp add: lines_text_concat)
  have L: "list_all2 line_of (concat lss) (concat esss)" using w(4) by (rule list_all2_concat)
  obtain i c where i: "i \<le> length (concat lss)" "parse_jsonl_records (take j (header_text meta @ lines_text (concat lss))) =
      Inr \<lparr>jl_header = meta, jl_events = concat (take i (concat esss)), jl_committed = c\<rparr>"
    "\<And>m. m \<le> length (concat lss) \<Longrightarrow> length (header_text meta) + length (lines_text (take m (concat lss))) \<le> j \<Longrightarrow> m \<le> i"
    using parse_cut [OF assms(3) _ L, of j] le w(5,6) by auto
  have "i = length (concat lss)" using i(3) [of "length (concat lss)"] i(1) le by simp
  then have "take i (concat esss) = concat esss" using list_all2_lengthD [OF L] by simp
  moreover have "concat ?T = header_text meta @ lines_text (concat lss)" by (simp add: lines_text_concat)
  ultimately show ?thesis using j(1) i(2) w(3,5) by simp
qed

definition jsonl_ready ::
  "compressor \<Rightarrow> (string \<Rightarrow> string option) \<Rightarrow> (string \<Rightarrow> string option) \<Rightarrow> session_header \<Rightarrow> jsonl_dir \<Rightarrow> bool" where
  "jsonl_ready compress decode_all stream_read meta d \<longleftrightarrow>
     frame_codec compress decode_all \<and> stream_prefix compress stream_read \<and> (\<forall>p. compress p \<noteq> None) \<and>
     header_storable meta \<and>
     (artifact_of meta d \<noteq> None \<longrightarrow> (\<exists>es. whole_artifact compress meta es (the (artifact_of meta d))))"

definition jsonl_view ::
  "(string \<Rightarrow> string option) \<Rightarrow> (string \<Rightarrow> string option) \<Rightarrow> session_header \<Rightarrow> jsonl_dir \<Rightarrow> session_envelope list" where
  "jsonl_view decode_all stream_read meta d =
     (case read_artifact decode_all stream_read meta d of Inr (Some log) \<Rightarrow> jl_events log | _ \<Rightarrow> [])"

lemma whole_view:
  assumes "jsonl_ready compress decode_all stream_read meta d" and "artifact_of meta d = Some bytes"
    and "whole_artifact compress meta es bytes"
  shows "jsonl_view decode_all stream_read meta d = es"
  using read_whole [of compress decode_all stream_read meta es bytes] assms
  by (auto simp: jsonl_view_def read_artifact_def jsonl_ready_def)

lemma batch_frame:
  assumes "\<forall>p. compress p \<noteq> None" and "\<forall>e\<in>set es. line_storable e"
  obtains fr ls ess where "encode_append_batch compress es = Inr fr" "compress (lines_text ls) = Some fr"
    "batch_text es = Inr (lines_text ls)" "list_all2 line_of ls ess" "list_all2 read_back es (concat ess)"
proof -
  obtain ls parts ess where b: "batch_text es = Inr (lines_text ls)" "concat parts = es"
    "list_all2 line_of ls ess" "list_all2 (list_all2 read_back) parts ess" using batch_text_lines [OF assms(2)] .
  obtain fr where "compress (lines_text ls) = Some fr" using assms(1) by blast
  with b list_all2_concat [OF b(4)] show ?thesis
    by (intro that [of fr ls ess]) (simp_all add: encode_append_batch_def zstd_frame_def)
qed

interpretation jsonl_log: event_log "append_events_jsonl compress None True meta"
  "jsonl_view decode_all stream_read meta" "jsonl_ready compress decode_all stream_read meta" line_storable read_back
  for compress :: compressor and decode_all stream_read :: "string \<Rightarrow> string option" and meta :: session_header
proof unfold_locales
  fix d :: jsonl_dir and es :: "session_envelope list"
  let ?view = "jsonl_view decode_all stream_read meta" and ?ready = "jsonl_ready compress decode_all stream_read meta"
  let ?path = "path_for (hd_cwd meta) (hd_id meta)"
  assume *: "?ready d" "es \<noteq> []" "\<forall>e\<in>set es. line_storable e" "check_contiguous (int (length (?view d))) es"
  then have total: "\<forall>p. compress p \<noteq> None" by (simp add: jsonl_ready_def)
  obtain fr ls ess where b: "encode_append_batch compress es = Inr fr" "compress (lines_text ls) = Some fr"
    "batch_text es = Inr (lines_text ls)" "list_all2 line_of ls ess" "list_all2 read_back es (concat ess)"
    using batch_frame [OF total *(3)] .
  obtain h where h: "compress (header_text meta) = Some h" using total by blast
  have "\<exists>bytes. append_events_jsonl compress None True meta es d = (put_artifact ?path bytes d, Inr ()) \<and>
      whole_artifact compress meta (?view d @ concat ess) bytes"
  proof (cases "artifact_of meta d")
    case None
    then have v: "?view d = []" by (simp add: jsonl_view_def read_artifact_def)
    have "whole_artifact compress meta (concat ess) (h @ fr)"
      unfolding whole_artifact_def
      by (rule exI [of _ h], rule exI [of _ "[fr]"], rule exI [of _ "[ls]"], rule exI [of _ "[ess]"])
        (use h b v *(4) contiguous_read_back [OF b(5)] in simp)
    moreover have "append_events_jsonl compress None True meta es d = (put_artifact ?path (h @ fr) d, Inr ())"
      using None h b by (simp add: append_events_jsonl_def materialize_def encode_materialization_def zstd_frame_def Let_def)
    ultimately show ?thesis using v by auto
  next
    case (Some bytes)
    with *(1) obtain es0 where w: "whole_artifact compress meta es0 bytes" by (auto simp: jsonl_ready_def)
    with whole_view [OF *(1) Some] have v: "?view d = es0" by simp
    obtain h' frs lss esss where w': "compress (header_text meta) = Some h'" "map compress (map lines_text lss) = map Some frs"
      "bytes = h' @ concat frs" "list_all2 (list_all2 line_of) lss esss" "es0 = concat (concat esss)" "check_contiguous 0 es0"
      using w unfolding whole_artifact_def by blast
    have "check_contiguous 0 (es0 @ concat ess)"
      using w'(6) *(4) v contiguous_read_back [OF b(5)] by (simp add: check_contiguous_append)
    then have "whole_artifact compress meta (es0 @ concat ess) (bytes @ fr)"
      unfolding whole_artifact_def
      by (intro exI [of _ h'] exI [of _ "frs @ [fr]"] exI [of _ "lss @ [ls]"] exI [of _ "esss @ [ess]"])
        (use w' b in \<open>simp add: list_all2_appendI\<close>)
    moreover have "append_events_jsonl compress None True meta es d = (put_artifact ?path (bytes @ fr) d, Inr ())"
      using Some b by (simp add: append_events_jsonl_def append_lines_def Let_def)
    ultimately show ?thesis using v by auto
  qed
  then obtain bytes where f: "append_events_jsonl compress None True meta es d = (put_artifact ?path bytes d, Inr ())"
    "whole_artifact compress meta (?view d @ concat ess) bytes" by blast
  have r: "?ready (put_artifact ?path bytes d)" using *(1) f(2) by (auto simp: jsonl_ready_def map_of_put)
  from whole_view [OF r _ f(2)] have "?view (put_artifact ?path bytes d) = ?view d @ concat ess" by (simp add: map_of_put)
  with f(1) r b(5) show "\<exists>s' new. append_events_jsonl compress None True meta es d = (s', Inr ()) \<and> ?ready s' \<and>
      ?view s' = ?view d @ new \<and> list_all2 read_back es new" by blast
qed

lemma put_same: "artifact_of meta d = Some c \<Longrightarrow> map_of (put_artifact (path_for (hd_cwd meta) (hd_id meta)) c d) = map_of d"
  by (auto simp: map_of_put)

text \<open>An append that meets a fault either leaves every artifact alone or is the quiet append with an error.\<close>

lemma faulty_append:
  assumes "\<forall>p. compress p \<noteq> None" and "\<forall>e\<in>set es. line_storable e"
  shows "\<exists>err d'. append_events_jsonl compress (Some f) True meta es d = (d', Inl err) \<and>
    (map_of d' = map_of d \<or> f = CloseFails \<and> artifact_of meta d \<noteq> None \<and>
       append_events_jsonl compress None True meta es d = (d', Inr ()))"
proof -
  obtain fr ls ess where b: "encode_append_batch compress es = Inr fr" "batch_text es = Inr (lines_text ls)"
    "compress (lines_text ls) = Some fr" using batch_frame [OF assms] by metis
  obtain h where h: "compress (header_text meta) = Some h" using assms(1) by blast
  show ?thesis
  proof (cases "artifact_of meta d")
    case None
    then show ?thesis using b h
      by (simp add: append_events_jsonl_def materialize_def encode_materialization_def zstd_frame_def Let_def)
  next
    case (Some content)
    then show ?thesis using b put_same [OF Some]
      by (cases f) (simp_all add: append_events_jsonl_def append_lines_def Let_def)
  qed
qed

text \<open>A codec that stores bytes in raw blocks of one byte each: valid frames, so the hypotheses can hold.\<close>

fun raw_blocks :: "string \<Rightarrow> string" where
  "raw_blocks [] = [CHR 0x01, CHR 0x00, CHR 0x00]"
| "raw_blocks (c # s) = CHR 0x08 # CHR 0x00 # CHR 0x00 # c # raw_blocks s"

fun unblock :: "string \<Rightarrow> string" where
  "unblock (a # b # c # x # s) = x # unblock s"
| "unblock s = []"

definition stored_frame :: compressor where
  "stored_frame p = Some (zstd_magic @ [CHR 0x00, CHR 0x00] @ raw_blocks p)"

definition unframe :: "string \<Rightarrow> string option" where "unframe fr = Some (unblock (drop 6 fr))"

lemma unblock_raw: "unblock (raw_blocks p) = p"
  by (induction p) simp_all

lemma blocks_raw: "blocks_size (raw_blocks p) = Inr (Some (length (raw_blocks p)))"
proof (induction p)
  case Nil
  show ?case by (subst blocks_size.simps) (simp add: block_type_def block_payload_def block_header_def byte_at_def)
next
  case (Cons c p)
  then show ?case by (subst blocks_size.simps) (simp add: block_type_def block_payload_def block_header_def byte_at_def)
qed

lemma stored_codec: "frame_codec stored_frame unframe"
proof -
  have "is_frame (zstd_magic @ [CHR 0x00, CHR 0x00] @ raw_blocks p)" for p
    using blocks_raw [of p]
    by (simp add: is_frame_def frame_size_def zstd_magic_def byte_at_def descriptor_size_def Let_def)
  then show ?thesis by (simp add: frame_codec_def stored_frame_def unframe_def unblock_raw zstd_magic_def)
qed

definition text_header :: session_header where
  "text_header = \<lparr>hd_version = 0, hd_id = ''s'', hd_created_at = 7, hd_cwd = [], hd_parent_session = [],
     hd_seed_length = 0, hd_origin = [], hd_delegation_depth = 0, hd_agent_preset = []\<rparr>"

definition first_line_event :: session_envelope where
  "first_line_event = new_envelope 0 90 EventTurnStart (JObj [])"

lemma first_line_storable: "line_storable first_line_event"
  by (simp add: line_storable_def storable_def first_line_event_def new_envelope_def packed_tags_def source_seqs_def
      classify_delta_def in_int64_def max_nesting_depth_def)

lemma text_header_storable: "header_storable text_header"
  by (simp add: header_storable_def text_header_def session_format_version_def in_int64_def)

lemma first_line_appended:
  obtains d' bytes where "append_all (append_events_jsonl stored_frame None True text_header) [[first_line_event]] [] = (d', Inr ())"
    "artifact_of text_header d' = Some bytes"
    "list_all2 read_back [first_line_event] (jsonl_view unframe (\<lambda>_. None) text_header d')"
proof -
  have r: "jsonl_ready stored_frame unframe (\<lambda>_. None) text_header []"
    using stored_codec text_header_storable by (simp add: jsonl_ready_def stream_prefix_def stored_frame_def)
  have v: "jsonl_view unframe (\<lambda>_. None) text_header [] = []" by (simp add: jsonl_view_def read_artifact_def)
  have "check_contiguous 0 [first_line_event]" by (simp add: first_line_event_def new_envelope_def)
  with jsonl_log.append_all_ok [OF r, of "[[first_line_event]]"] first_line_storable v
  obtain d' new where d': "append_all (append_events_jsonl stored_frame None True text_header) [[first_line_event]] [] = (d', Inr ())"
    "jsonl_view unframe (\<lambda>_. None) text_header d' = new" "list_all2 read_back [first_line_event] new" by auto
  obtain h texts frs where a: "artifact_of text_header d' = Some (h @ concat frs)"
    by (rule all_appends [OF _ _ d'(1)]) simp_all
  show ?thesis by (rule that [OF d'(1) a]) (use d'(2,3) in simp)
qed

text \<open>
  Two behaviours that look unintended.  A session that is put again from another working directory
  gets a second artifact, and from then on no session is listed; the empty id and \<open>.\<close> share a
  segment.
\<close>

lemma header_line_reads_back:
  assumes "header_storable meta"
  shows "parse_header_line (trim_right [CHR 0x0A, CHR 0x0D] (header_text meta)) = Inr meta"
proof -
  obtain kvs where kvs: "header_json meta = JObj kvs" by (simp add: header_json_def)
  have "trim_right [CHR 0x0A, CHR 0x0D] (header_text meta) = print_json (header_json meta)"
    by (simp add: header_text_def trim_right_def kvs)
  moreover have "trim_right [CHR 0x0A] (print_json (header_json meta)) = trim_right [CHR 0x0A] (print_json (header_json meta) @ [CHR 0x0A])"
    by (simp add: trim_right_def)
  then have "parse_header_line (print_json (header_json meta)) = parse_header_line (print_json (header_json meta) @ [CHR 0x0A])"
    unfolding parse_header_line_def by (simp only:)
  ultimately show ?thesis using header_reads_back [OF assms] by simp
qed

lemma listed_header:
  assumes "frame_codec compress decode_all" and "header_storable meta"
    and "encode_materialization compress meta es = Inr raw"
  shows "list_artifacts decode_all seen ((p, raw) # d) =
    (if hd_id meta \<in> set seen then Inl (DuplicateSession (hd_id meta))
     else and_then (list_artifacts decode_all (hd_id meta # seen) d) (\<lambda>hs. Inr (meta # hs)))"
proof -
  obtain t h fr where e: "compress (header_text meta) = Some h" "compress t = Some fr" "raw = h @ fr"
    using assms(3) by (auto simp: encode_materialization_def zstd_frame_def and_then_def split: sum.splits option.splits)
  then have "is_frame h" "is_frame fr" "decode_all h = Some (header_text meta)"
    using assms(1) by (auto simp: frame_codec_def)
  with scan_frames_concat [of "[h, fr]" "[]" "[]" "[]"] e(3)
  have "read_first_zstd_line decode_all raw = Inr (Some (trim_right [CHR 0x0A, CHR 0x0D] (header_text meta)))"
    by (simp add: read_first_zstd_line_def scan_zstd_frames_def Prelude.slice_def)
  with header_line_reads_back [OF assms(2)] show ?thesis by simp
qed

lemma materialized: "\<exists>raw. encode_materialization stored_frame meta [] = Inr raw"
  by (simp add: encode_materialization_def batch_text_def encode_event_lines_def pack_chunk_runs_def flush_run_def
      stored_frame_def zstd_frame_def)

lemma moved_session_blocks_listing:
  "list_sessions_jsonl unframe
     (fst (put_session_jsonl stored_frame None (text_header\<lparr>hd_cwd := ''/w''\<rparr>)
        (fst (put_session_jsonl stored_frame None text_header [])))) = Inl (DuplicateSession ''s'')"
proof -
  let ?m = "text_header\<lparr>hd_cwd := ''/w''\<rparr>"
  let ?p = "path_for [] ''s''" and ?q = "path_for ''/w'' ''s''"
  obtain r1 r2 where r: "encode_materialization stored_frame text_header [] = Inr r1"
    "encode_materialization stored_frame ?m [] = Inr r2" using materialized by meson
  have st: "header_storable text_header" "header_storable ?m"
    using text_header_storable by (simp_all add: header_storable_def)
  have pq: "?q \<noteq> ?p \<and> ?q \<le> ?p" by code_simp
  have "fst (put_session_jsonl stored_frame None text_header []) = [(?p, r1)]"
    using r(1) by (simp add: put_session_jsonl_def materialize_def Let_def put_artifact_def text_header_def)
  moreover have "fst (put_session_jsonl stored_frame None ?m [(?p, r1)]) = [(?q, r2), (?p, r1)]"
    using r(2) pq by (simp add: put_session_jsonl_def materialize_def Let_def put_artifact_def text_header_def)
  ultimately show ?thesis
    using listed_header [OF stored_codec st(2) r(2), of "[]" ?q] listed_header [OF stored_codec st(1) r(1), of "[''s'']" ?p "[]"]
    by (simp add: list_sessions_jsonl_def text_header_def)
qed

lemma empty_id_shares_segment: "encode_segment_path [] = encode_segment_path ''.''"
  by (simp add: encode_segment_path_def)

section \<open>Properties\<close>





end
