(* ===== verification/Wire_Sse.thy ===== *)
theory Wire_Sse imports Llm_Retry Tool_Views Go_Strings begin

text \<open>
  Server-sent events, \<open>pkg/llm/sse.go\<close>: the scanner of lines, the buffer of the event in flight and
  the loop of \<open>consumeSSE\<close>.  The loop is given what its select observes, one entry per round; the
  handler of payloads is an argument.
\<close>

section \<open>Lines\<close>

text \<open>The largest token of the scanner; a longer line is an error of the reader.\<close>

definition max_line :: nat where "max_line = 4 * 1024 * 1024"

definition drop_cr :: "string \<Rightarrow> string" where
  "drop_cr s = (if s \<noteq> [] \<and> last s = CHR 0x0D then butlast s else s)"

text \<open>\<open>bufio.ScanLines\<close>: a last line without newline is a line unless it is empty.  The flag is \<open>ErrTooLong\<close>.\<close>

definition scan_lines :: "string \<Rightarrow> string list \<times> bool" where
  "scan_lines body =
     (let raw = split_lines body;
          good = takeWhile (\<lambda>l. length l < max_line) raw
      in (map drop_cr good, good \<noteq> raw))"

section \<open>The event buffer\<close>

record sse_buffer =
  sb_data :: "string list"
  sb_first :: bool

definition new_sse_buffer :: sse_buffer where
  "new_sse_buffer = \<lparr>sb_data = [], sb_first = True\<rparr>"

definition sse_bom :: string where "sse_bom = [CHR 0xEF, CHR 0xBB, CHR 0xBF]"

definition accept_line :: "string \<Rightarrow> sse_buffer \<Rightarrow> sse_buffer \<times> string option" where
  "accept_line raw b =
     (let line = (if sb_first b then trim_prefix raw sse_bom else raw);
          b1 = b\<lparr>sb_first := False\<rparr>
      in if line = [] then
           (if sb_data b1 = [] then (b1, None) else (b1\<lparr>sb_data := []\<rparr>, Some (join_lines (sb_data b1))))
         else if has_prefix line '':'' then (b1, None)
         else if has_prefix line ''data:'' then
           (let v = trim_space (trim_prefix line ''data:'')
            in (if v \<noteq> [] then b1\<lparr>sb_data := sb_data b1 @ [v]\<rparr> else b1, None))
         else (b1, None))"

definition sse_pending :: "sse_buffer \<Rightarrow> bool" where "sse_pending b \<longleftrightarrow> sb_data b \<noteq> []"

fun accept_lines :: "string list \<Rightarrow> sse_buffer \<Rightarrow> sse_buffer \<times> string list" where
  "accept_lines [] b = (b, [])"
| "accept_lines (l # ls) b =
     (case accept_line l b of (b1, out) \<Rightarrow>
        (case accept_lines ls b1 of (b2, outs) \<Rightarrow> (b2, (case out of None \<Rightarrow> outs | Some p \<Rightarrow> p # outs))))"

section \<open>Consuming a stream\<close>

datatype sse_input = LineIn string | BodyEof | BodyError llm_error | IdleTimeout | ParentDone llm_error

datatype sse_end = SseDone | SseFailed llm_error

definition stream_closed :: "sse_buffer \<Rightarrow> llm_error" where
  "stream_closed b = StreamSentinel
     (if sse_pending b
      then ''deepseek: malformed SSE stream: EOF inside unterminated SSE event (discarded): '' @
        concat (take 120 (runes (join_lines (sb_data b))))
      else ''deepseek: malformed SSE stream'')"

definition watchdog_fired :: llm_error where
  "watchdog_fired = StreamSentinel ''deepseek: stream idle watchdog fired''"

text \<open>\<open>None\<close>: the loop still waits.\<close>

fun consume_sse ::
  "(string \<Rightarrow> 's \<Rightarrow> 's \<times> (llm_error + bool)) \<Rightarrow> sse_input list \<Rightarrow> sse_buffer \<Rightarrow> 's \<Rightarrow> 's \<times> sse_end option" where
  "consume_sse handle [] b s = (s, None)"
| "consume_sse handle (ParentDone e # _) b s = (s, Some (SseFailed e))"
| "consume_sse handle (BodyError e # _) b s = (s, Some (SseFailed e))"
| "consume_sse handle (IdleTimeout # _) b s = (s, Some (SseFailed watchdog_fired))"
| "consume_sse handle (BodyEof # _) b s = (s, Some (SseFailed (stream_closed b)))"
| "consume_sse handle (LineIn l # ins) b s =
     (case accept_line l b of
        (b1, None) \<Rightarrow> consume_sse handle ins b1 s
      | (b1, Some payload) \<Rightarrow>
          (case handle payload s of
             (s1, Inl e) \<Rightarrow> (s1, Some (SseFailed e))
           | (s1, Inr True) \<Rightarrow> (s1, Some SseDone)
           | (s1, Inr False) \<Rightarrow> consume_sse handle ins b1 s1))"

section \<open>Framing\<close>

text \<open>What the lines mean: events end at blank lines, each is the data values among its lines.\<close>

fun blank_groups :: "string list \<Rightarrow> string list list \<times> string list" where
  "blank_groups [] = ([], [])"
| "blank_groups (l # ls) =
     (case blank_groups ls of (groups, rest) \<Rightarrow>
        (if l = [] then ([] # groups, rest)
         else (case groups of [] \<Rightarrow> ([], l # rest) | g # gs \<Rightarrow> ((l # g) # gs, rest))))"

definition data_values :: "string list \<Rightarrow> string list" where
  "data_values ls = filter (\<lambda>v. v \<noteq> [])
     (map (\<lambda>l. trim_space (trim_prefix l ''data:'')) (filter (\<lambda>l. has_prefix l ''data:'') ls))"

definition event_payloads :: "string list list \<Rightarrow> string list" where
  "event_payloads groups = map join_lines (filter (\<lambda>vs. vs \<noteq> []) (map data_values groups))"

lemma data_values_simps [simp]:
  "data_values [] = []"
  "data_values (l # ls) = (if has_prefix l ''data:'' \<and> trim_space (trim_prefix l ''data:'') \<noteq> []
     then trim_space (trim_prefix l ''data:'') # data_values ls else data_values ls)"
  by (simp_all add: data_values_def)

lemma colon_not_data: "has_prefix l '':'' \<Longrightarrow> \<not> has_prefix l ''data:''"
  by (cases l) (auto simp: has_prefix_def)

lemma empty_not_data: "\<not> has_prefix [] ''data:''" by (simp add: has_prefix_def)

text \<open>An open event with data \<open>vs\<close>, and the lines to come.\<close>

lemma accept_lines_spec:
  "accept_lines ls \<lparr>sb_data = vs, sb_first = False\<rparr> =
     (case blank_groups ls of
        ([], rest) \<Rightarrow> (\<lparr>sb_data = vs @ data_values rest, sb_first = False\<rparr>, [])
      | (g # gs, rest) \<Rightarrow> (\<lparr>sb_data = data_values rest, sb_first = False\<rparr>,
          (if vs @ data_values g = [] then [] else [join_lines (vs @ data_values g)]) @ event_payloads gs))"
proof (induction ls arbitrary: vs)
  case Nil
  then show ?case by simp
next
  case (Cons l ls)
  obtain groups rest where g: "blank_groups ls = (groups, rest)" by (cases "blank_groups ls") auto
  show ?case
  proof (cases "l = []")
    case True
    with Cons.IH [of "[]"] g show ?thesis
      by (cases groups) (auto simp: accept_line_def event_payloads_def)
  next
    case False
    show ?thesis
    proof (cases "has_prefix l '':''")
      case True
      with False Cons.IH [of vs] g colon_not_data [OF True] show ?thesis
        by (cases groups) (simp_all add: accept_line_def)
    next
      case nc: False
      show ?thesis
      proof (cases "has_prefix l ''data:'' \<and> trim_space (trim_prefix l ''data:'') \<noteq> []")
        case True
        with False nc Cons.IH [of "vs @ [trim_space (trim_prefix l ''data:'')]"] g show ?thesis
          by (cases groups) (simp_all add: accept_line_def Let_def)
      next
        case nd: False
        then have "accept_line l \<lparr>sb_data = vs, sb_first = False\<rparr> = (\<lparr>sb_data = vs, sb_first = False\<rparr>, None)"
          using False nc by (auto simp: accept_line_def Let_def)
        with False nd Cons.IH [of vs] g show ?thesis by (cases groups) auto
      qed
    qed
  qed
qed

end
