(* ===== verification/Wire_Completions.thy ===== *)
theory Wire_Completions imports Wire_Sse Json_Text begin

text \<open>
  The Chat Completions translator, \<open>streamCompletions\<close> of \<open>pkg/llm/openai_completions.go\<close>: the wire
  chunk, its decoding, and the handler that turns wire chunks into stream chunks with one open
  block per text, reasoning or tool index.  \<open>cs_out\<close> collects what \<open>emit\<close> sends.
\<close>

section \<open>Wire chunks\<close>

record wire_tool =
  wt_index :: int
  wt_id :: string
  wt_name :: string
  wt_args :: string

record wire_delta =
  wd_content :: string
  wd_reasoning :: string
  wd_tools :: "wire_tool list"

record wire_choice =
  wc_delta :: wire_delta
  wc_finish :: "string option"

record wire_usage =
  wu_prompt :: int
  wu_completion :: int
  wu_cache_hit :: int
  wu_cached :: "int option"
  wu_reasoning :: "int option"

record wire_chunk =
  wk_choices :: "wire_choice list"
  wk_usage :: "wire_usage option"

definition dec_opt_text :: "string \<Rightarrow> (string \<times> json) list \<Rightarrow> string option option" where
  "dec_opt_text k kvs = (case json_field k kvs of
      None \<Rightarrow> Some None | Some JNull \<Rightarrow> Some None | Some (JStr s) \<Rightarrow> Some (Some s) | Some _ \<Rightarrow> None)"

definition dec_wire_tool :: "(string \<times> json) list \<Rightarrow> wire_tool option" where
  "dec_wire_tool kvs =
     Option.bind (dec_int ''index'' kvs) (\<lambda>i. Option.bind (dec_string ''id'' kvs) (\<lambda>cid.
     Option.bind (dec_string ''type'' kvs) (\<lambda>_.
     dec_struct (\<lambda>f. Option.bind (dec_string ''name'' f) (\<lambda>n.
       map_option (\<lambda>a. \<lparr>wt_index = i, wt_id = cid, wt_name = n, wt_args = a\<rparr>) (dec_string ''arguments'' f)))
       ''function'' kvs)))"

definition dec_wire_delta :: "(string \<times> json) list \<Rightarrow> wire_delta option" where
  "dec_wire_delta kvs =
     Option.bind (dec_string ''content'' kvs) (\<lambda>c. Option.bind (dec_string ''reasoning_content'' kvs) (\<lambda>r.
     map_option (\<lambda>ts. \<lparr>wd_content = c, wd_reasoning = r, wd_tools = ts\<rparr>)
       (dec_list (dec_object dec_wire_tool) ''tool_calls'' kvs)))"

definition dec_wire_choice :: "(string \<times> json) list \<Rightarrow> wire_choice option" where
  "dec_wire_choice kvs =
     Option.bind (dec_int ''index'' kvs) (\<lambda>_. Option.bind (dec_struct dec_wire_delta ''delta'' kvs) (\<lambda>d.
     map_option (\<lambda>f. \<lparr>wc_delta = d, wc_finish = f\<rparr>) (dec_opt_text ''finish_reason'' kvs)))"

definition dec_wire_usage :: "(string \<times> json) list \<Rightarrow> wire_usage option" where
  "dec_wire_usage kvs =
     Option.bind (dec_int ''prompt_tokens'' kvs) (\<lambda>p. Option.bind (dec_int ''completion_tokens'' kvs) (\<lambda>c.
     Option.bind (dec_int ''prompt_cache_hit_tokens'' kvs) (\<lambda>h.
     Option.bind (dec_int ''prompt_cache_miss_tokens'' kvs) (\<lambda>_.
     Option.bind (dec_ptr (dec_int ''cached_tokens'') ''prompt_tokens_details'' kvs) (\<lambda>k.
     map_option (\<lambda>r. \<lparr>wu_prompt = p, wu_completion = c, wu_cache_hit = h, wu_cached = k, wu_reasoning = r\<rparr>)
       (dec_ptr (dec_int ''reasoning_tokens'') ''completion_tokens_details'' kvs))))))"

definition dec_wire_chunk :: "(string \<times> json) list \<Rightarrow> wire_chunk option" where
  "dec_wire_chunk kvs =
     Option.bind (dec_string ''id'' kvs) (\<lambda>_.
     Option.bind (dec_list (dec_object dec_wire_choice) ''choices'' kvs) (\<lambda>cs.
     map_option (\<lambda>u. \<lparr>wk_choices = cs, wk_usage = u\<rparr>) (dec_ptr dec_wire_usage ''usage'' kvs)))"

section \<open>Translator\<close>

record open_tool =
  ot_call_id :: string
  ot_name :: string
  ot_args :: string

record completions_state =
  cs_text_open :: bool
  cs_reasoning_open :: bool
  cs_text :: string
  cs_reasoning :: string
  cs_tools :: "int \<Rightarrow> open_tool option"
  cs_order :: "string list"
  cs_usage :: "token_usage option"
  cs_finish :: "string option"
  cs_finished :: bool
  cs_out :: "stream_chunk list"

definition completions_start :: completions_state where
  "completions_start = \<lparr>cs_text_open = False, cs_reasoning_open = False, cs_text = [], cs_reasoning = [],
     cs_tools = (\<lambda>_. None), cs_order = [], cs_usage = None, cs_finish = None, cs_finished = False, cs_out = []\<rparr>"

definition zero_chunk :: stream_chunk where
  "zero_chunk = \<lparr>sc_type = [], sc_index = 0, sc_block_type = [], sc_block_id = [], sc_text = [], sc_id = [],
     sc_name = [], sc_arguments = [], sc_block = None, sc_usage = None, sc_finish = []\<rparr>"

definition emit_cs :: "stream_chunk \<Rightarrow> completions_state \<Rightarrow> completions_state" where
  "emit_cs c st = st\<lparr>cs_out := cs_out st @ [c]\<rparr>"

definition open_wire_block :: "string \<Rightarrow> string \<Rightarrow> completions_state \<Rightarrow> completions_state" where
  "open_wire_block i kind st =
     (let st' = st\<lparr>cs_order := cs_order st @ [i]\<rparr>
      in emit_cs (zero_chunk\<lparr>sc_type := ChunkBlockStart, sc_index := int (length (cs_order st')) - 1,
           sc_block_id := i, sc_block_type := kind\<rparr>) st')"

definition block_index :: "string \<Rightarrow> completions_state \<Rightarrow> int" where
  "block_index i st = (case find_index (\<lambda>x. x = i) (cs_order st) of Some k \<Rightarrow> int k | None \<Rightarrow> - 1)"

definition wire_reasoning :: "string \<Rightarrow> completions_state \<Rightarrow> completions_state" where
  "wire_reasoning t st =
     (if t = [] then st
      else (let st1 = (if cs_reasoning_open st then st
              else open_wire_block ''reasoning'' ''reasoning'' (st\<lparr>cs_reasoning_open := True\<rparr>));
            st2 = st1\<lparr>cs_reasoning := cs_reasoning st1 @ t\<rparr>
        in emit_cs (zero_chunk\<lparr>sc_type := ChunkReasoningDelta, sc_index := block_index ''reasoning'' st2,
             sc_block_id := ''reasoning'', sc_text := t\<rparr>) st2))"

definition wire_text :: "string \<Rightarrow> completions_state \<Rightarrow> completions_state" where
  "wire_text t st =
     (if t = [] then st
      else (let st1 = (if cs_text_open st then st
              else open_wire_block ''text'' ''text'' (st\<lparr>cs_text_open := True\<rparr>));
            st2 = st1\<lparr>cs_text := cs_text st1 @ t\<rparr>
        in emit_cs (zero_chunk\<lparr>sc_type := ChunkTextDelta, sc_index := block_index ''text'' st2,
             sc_block_id := ''text'', sc_text := t\<rparr>) st2))"

definition tool_block_id :: "int \<Rightarrow> string" where
  "tool_block_id n = ''tool-'' @ itoa n"

definition wire_tool_call :: "wire_tool \<Rightarrow> completions_state \<Rightarrow> completions_state" where
  "wire_tool_call tc st =
     (let n = wt_index tc;
          (t1, st1) = (case cs_tools st n of
             None \<Rightarrow> (let t = \<lparr>ot_call_id = wt_id tc, ot_name = wt_name tc, ot_args = []\<rparr>
               in (t, open_wire_block (tool_block_id n) ''tool-call'' (st\<lparr>cs_tools := (cs_tools st)(n \<mapsto> t)\<rparr>)))
           | Some t \<Rightarrow>
               (t\<lparr>ot_call_id := (if wt_id tc \<noteq> [] \<and> ot_call_id t = [] then wt_id tc else ot_call_id t),
                  ot_name := (if wt_name tc \<noteq> [] \<and> ot_name t = [] then wt_name tc else ot_name t)\<rparr>, st));
          t2 = t1\<lparr>ot_args := ot_args t1 @ wt_args tc\<rparr>;
          st2 = st1\<lparr>cs_tools := (cs_tools st1)(n \<mapsto> t2)\<rparr>
      in emit_cs (zero_chunk\<lparr>sc_type := ChunkToolCallDelta, sc_index := block_index (tool_block_id n) st2,
           sc_block_id := tool_block_id n, sc_id := ot_call_id t2, sc_name := ot_name t2, sc_arguments := wt_args tc\<rparr>) st2)"

definition wire_choice_step :: "wire_choice \<Rightarrow> completions_state \<Rightarrow> completions_state" where
  "wire_choice_step c st =
     (let d = wc_delta c;
          st1 = fold wire_tool_call (wd_tools d) (wire_text (wd_content d) (wire_reasoning (wd_reasoning d) st))
      in case wc_finish c of None \<Rightarrow> st1 | Some f \<Rightarrow> st1\<lparr>cs_finish := Some f\<rparr>)"

definition wire_usage_of :: "wire_usage \<Rightarrow> token_usage" where
  "wire_usage_of u =
     (let cache_read = (if wu_cache_hit u = 0 then (case wu_cached u of Some c \<Rightarrow> c | None \<Rightarrow> 0) else wu_cache_hit u);
          reasoning = (case wu_reasoning u of Some r \<Rightarrow> r | None \<Rightarrow> 0)
      in \<lparr>tu_input = wrap64 (wu_prompt u - cache_read), tu_output = wu_completion u, tu_cache_read = cache_read,
          tu_cache_write = 0, tu_reasoning = reasoning\<rparr>)"

definition wire_chunk_step :: "wire_chunk \<Rightarrow> completions_state \<Rightarrow> completions_state" where
  "wire_chunk_step c st =
     (let st1 = fold wire_choice_step (wk_choices c) st
      in case wk_usage c of None \<Rightarrow> st1 | Some u \<Rightarrow> st1\<lparr>cs_usage := Some (wire_usage_of u)\<rparr>)"

definition map_finish_reason :: "string \<Rightarrow> string" where
  "map_finish_reason r = (if r = ''stop'' then ''stop'' else if r = ''tool_calls'' then ''tool-calls''
     else if r = ''length'' then ''max-tokens'' else ''error'')"

definition text_only_block :: "string \<Rightarrow> string \<Rightarrow> content_block" where
  "text_only_block ty s = ContentBlock ty s [] [] [] [] [] [] False []"

definition call_block :: "open_tool \<Rightarrow> content_block" where
  "call_block t = ContentBlock ''tool-call'' [] [] [] (ot_call_id t) (ot_name t) (ot_args t) [] False []"

text \<open>\<open>strconv.Atoi\<close> with its error dropped, as \<open>finish\<close> uses it on the ids it made itself.\<close>

definition atoi_or_zero :: "string \<Rightarrow> int" where
  "atoi_or_zero s = (case s of
      CHR ''-'' # ds \<Rightarrow> (case number ds of Some n \<Rightarrow> - int n | None \<Rightarrow> 0)
    | CHR ''+'' # ds \<Rightarrow> (case number ds of Some n \<Rightarrow> int n | None \<Rightarrow> 0)
    | _ \<Rightarrow> (case number s of Some n \<Rightarrow> int n | None \<Rightarrow> 0))"

definition wire_block :: "completions_state \<Rightarrow> string \<Rightarrow> content_block option" where
  "wire_block st i =
     (if i = ''text'' then Some (text_only_block ''text'' (cs_text st))
      else if i = ''reasoning'' then Some (text_only_block ''reasoning'' (cs_reasoning st))
      else map_option call_block (cs_tools st (atoi_or_zero (trim_prefix i ''tool-''))))"

definition block_end :: "completions_state \<Rightarrow> nat \<Rightarrow> stream_chunk" where
  "block_end st k = zero_chunk\<lparr>sc_type := ChunkBlockEnd, sc_index := int k, sc_block_id := cs_order st ! k,
     sc_block := wire_block st (cs_order st ! k)\<rparr>"

definition final_reason :: "completions_state \<Rightarrow> string" where
  "final_reason st =
     (let reason = (case cs_finish st of None \<Rightarrow> ''stop'' | Some f \<Rightarrow> map_finish_reason f)
      in if reason = ''stop'' \<and> cs_order st = [] then ''error'' else reason)"

definition completions_finish :: "completions_state \<Rightarrow> completions_state" where
  "completions_finish st =
     (if cs_finished st then st
      else st\<lparr>cs_finished := True,
        cs_out := cs_out st @ map (block_end st) [0..<length (cs_order st)] @
          (case cs_usage st of None \<Rightarrow> [] | Some u \<Rightarrow> [zero_chunk\<lparr>sc_type := ChunkUsage, sc_usage := Some u\<rparr>]) @
          [zero_chunk\<lparr>sc_type := ChunkFinish, sc_finish := final_reason st\<rparr>]\<rparr>)"

text \<open>The text of the decoder's error is an argument: it comes from \<open>encoding/json\<close>.\<close>

definition malformed_chunk :: "(string \<Rightarrow> string) \<Rightarrow> string \<Rightarrow> llm_error" where
  "malformed_chunk json_error payload = StreamSentinel (''deepseek: malformed SSE stream: '' @ json_error payload)"

definition completions_handle ::
  "(string \<Rightarrow> string) \<Rightarrow> string \<Rightarrow> completions_state \<Rightarrow> completions_state \<times> (llm_error + bool)" where
  "completions_handle json_error payload st =
     (if payload = ''[DONE]'' then (completions_finish st, Inr True)
      else (case unmarshal dec_wire_chunk (parse_json payload) of
          None \<Rightarrow> (st, Inl (malformed_chunk json_error payload))
        | Some c \<Rightarrow> (wire_chunk_step c st, Inr False)))"

definition stream_completions ::
  "(string \<Rightarrow> string) \<Rightarrow> sse_input list \<Rightarrow> completions_state \<times> sse_end option" where
  "stream_completions json_error ins = consume_sse (completions_handle json_error) ins new_sse_buffer completions_start"

end
