(* ===== verification/Wire_Items.thy ===== *)
theory Wire_Items imports Wire_Completions "HOL-Library.AList" begin

text \<open>
  The Messages translator (\<open>stream\<close> of \<open>pkg/llm/anthropic.go\<close>) and the Responses translator (\<open>stream\<close> of
  \<open>pkg/llm/openai_responses.go\<close>).  Both send chunks without a block id, so the assembler works on its
  anonymous block.  \<open>closeAll\<close> ranges over a Go map: the order it closes in is an argument, \<open>pick\<close>.
\<close>

section \<open>Messages\<close>

record content_start =
  ct_type :: string
  ct_id :: string
  ct_name :: string
  ct_text :: string

record message_delta =
  md_type :: string
  md_text :: string
  md_thinking :: string
  md_partial :: string
  md_stop :: string

record message_usage =
  mu_input :: int
  mu_output :: int
  mu_read :: int
  mu_create :: int

record message_event =
  me_type :: string
  me_index :: int
  me_block :: "content_start option"
  me_delta :: "message_delta option"
  me_usage :: "message_usage option"
  me_message :: "message_usage option option"

definition dec_content_start :: "(string \<times> json) list \<Rightarrow> content_start option" where
  "dec_content_start kvs =
     Option.bind (dec_string ''type'' kvs) (\<lambda>ty. Option.bind (dec_string ''id'' kvs) (\<lambda>i.
     Option.bind (dec_string ''name'' kvs) (\<lambda>n. map_option (\<lambda>t. \<lparr>ct_type = ty, ct_id = i, ct_name = n, ct_text = t\<rparr>)
       (dec_string ''text'' kvs))))"

definition dec_message_delta :: "(string \<times> json) list \<Rightarrow> message_delta option" where
  "dec_message_delta kvs =
     Option.bind (dec_string ''type'' kvs) (\<lambda>ty. Option.bind (dec_string ''text'' kvs) (\<lambda>t.
     Option.bind (dec_string ''thinking'' kvs) (\<lambda>th. Option.bind (dec_string ''partial_json'' kvs) (\<lambda>p.
     map_option (\<lambda>s. \<lparr>md_type = ty, md_text = t, md_thinking = th, md_partial = p, md_stop = s\<rparr>)
       (dec_string ''stop_reason'' kvs)))))"

definition dec_message_usage :: "(string \<times> json) list \<Rightarrow> message_usage option" where
  "dec_message_usage kvs =
     Option.bind (dec_int ''input_tokens'' kvs) (\<lambda>i. Option.bind (dec_int ''output_tokens'' kvs) (\<lambda>out.
     Option.bind (dec_int ''cache_read_input_tokens'' kvs) (\<lambda>r.
     map_option (\<lambda>c. \<lparr>mu_input = i, mu_output = out, mu_read = r, mu_create = c\<rparr>)
       (dec_int ''cache_creation_input_tokens'' kvs))))"

definition dec_message_event :: "(string \<times> json) list \<Rightarrow> message_event option" where
  "dec_message_event kvs =
     Option.bind (dec_string ''type'' kvs) (\<lambda>ty. Option.bind (dec_int ''index'' kvs) (\<lambda>i.
     Option.bind (dec_ptr dec_content_start ''content_block'' kvs) (\<lambda>b.
     Option.bind (dec_ptr dec_message_delta ''delta'' kvs) (\<lambda>d.
     Option.bind (dec_ptr dec_message_usage ''usage'' kvs) (\<lambda>u.
     map_option (\<lambda>m. \<lparr>me_type = ty, me_index = i, me_block = b, me_delta = d, me_usage = u, me_message = m\<rparr>)
       (dec_ptr (dec_ptr dec_message_usage ''usage'') ''message'' kvs))))))"

record slot =
  sl_kind :: string
  sl_id :: string
  sl_name :: string

definition no_slot :: slot where "no_slot = \<lparr>sl_kind = [], sl_id = [], sl_name = []\<rparr>"

text \<open>The state both translators share; \<open>is_opened\<close> is the map \<open>opened\<close> with its keys.\<close>

record items_state =
  is_opened :: "(int \<times> slot) list"
  is_count :: nat
  is_saw_tool :: bool
  is_usage :: "token_usage option"
  is_finish :: string
  is_finished :: bool
  is_out :: "stream_chunk list"

definition items_start :: "string \<Rightarrow> items_state" where
  "items_start reason = \<lparr>is_opened = [], is_count = 0, is_saw_tool = False, is_usage = None, is_finish = reason,
     is_finished = False, is_out = []\<rparr>"

definition emit_is :: "stream_chunk \<Rightarrow> items_state \<Rightarrow> items_state" where
  "emit_is c st = st\<lparr>is_out := is_out st @ [c]\<rparr>"

definition end_chunk :: "int \<Rightarrow> stream_chunk" where
  "end_chunk i = zero_chunk\<lparr>sc_type := ChunkBlockEnd, sc_index := i\<rparr>"

definition begin_chunk :: "int \<Rightarrow> string \<Rightarrow> string \<Rightarrow> string \<Rightarrow> stream_chunk" where
  "begin_chunk i kind cid name =
     zero_chunk\<lparr>sc_type := ChunkBlockStart, sc_index := i, sc_block_type := kind, sc_id := cid, sc_name := name\<rparr>"

definition text_chunk :: "string \<Rightarrow> int \<Rightarrow> string \<Rightarrow> stream_chunk" where
  "text_chunk ty i t = zero_chunk\<lparr>sc_type := ty, sc_index := i, sc_text := t\<rparr>"

definition args_chunk :: "int \<Rightarrow> string \<Rightarrow> string \<Rightarrow> string \<Rightarrow> stream_chunk" where
  "args_chunk i cid name a =
     zero_chunk\<lparr>sc_type := ChunkToolCallDelta, sc_index := i, sc_id := cid, sc_name := name, sc_arguments := a\<rparr>"

definition close_index :: "int \<Rightarrow> items_state \<Rightarrow> items_state" where
  "close_index i st =
     (if map_of (is_opened st) i \<noteq> None
      then (emit_is (end_chunk i) st)\<lparr>is_opened := AList.delete i (is_opened st)\<rparr> else st)"

definition close_all :: "(int list \<Rightarrow> int list) \<Rightarrow> items_state \<Rightarrow> items_state" where
  "close_all pick st = st\<lparr>is_out := is_out st @ map end_chunk (pick (map fst (is_opened st))), is_opened := []\<rparr>"

definition open_item :: "int \<Rightarrow> slot \<Rightarrow> items_state \<Rightarrow> items_state" where
  "open_item i sl st = emit_is (begin_chunk i (sl_kind sl) (sl_id sl) (sl_name sl))
     (st\<lparr>is_count := is_count st + 1, is_opened := AList.update i sl (is_opened st)\<rparr>)"

definition send_tail :: "string \<Rightarrow> items_state \<Rightarrow> items_state" where
  "send_tail reason st = st\<lparr>is_out := is_out st @
     (case is_usage st of None \<Rightarrow> [] | Some u \<Rightarrow> [zero_chunk\<lparr>sc_type := ChunkUsage, sc_usage := Some u\<rparr>]) @
     [zero_chunk\<lparr>sc_type := ChunkFinish, sc_finish := reason\<rparr>]\<rparr>"

definition no_usage :: token_usage where
  "no_usage = \<lparr>tu_input = 0, tu_output = 0, tu_cache_read = 0, tu_cache_write = 0, tu_reasoning = 0\<rparr>"

definition apply_usage :: "message_usage \<Rightarrow> items_state \<Rightarrow> items_state" where
  "apply_usage u st =
     (let p = (case is_usage st of None \<Rightarrow> no_usage | Some p \<Rightarrow> p)
      in st\<lparr>is_usage := Some (p\<lparr>
           tu_input := (if 0 < mu_input u then mu_input u else tu_input p),
           tu_output := (if 0 < mu_output u then mu_output u else tu_output p),
           tu_cache_read := (if 0 < mu_read u then mu_read u else tu_cache_read p),
           tu_cache_write := (if 0 < mu_create u then mu_create u else tu_cache_write p)\<rparr>)\<rparr>)"

definition map_anthropic_stop :: "string \<Rightarrow> string" where
  "map_anthropic_stop r = (if r \<in> {[], ''end_turn'', ''stop_sequence''} then ''stop''
     else if r = ''tool_use'' then ''tool-calls'' else if r = ''max_tokens'' then ''max-tokens'' else ''error'')"

definition messages_finish :: "(int list \<Rightarrow> int list) \<Rightarrow> items_state \<Rightarrow> items_state" where
  "messages_finish pick st =
     (if is_finished st then st
      else (let st1 = close_all pick (st\<lparr>is_finished := True\<rparr>)
        in send_tail (if is_finish st1 = ''stop'' \<and> is_count st1 = 0 then ''error'' else is_finish st1) st1))"

definition content_kind :: "content_start \<Rightarrow> slot option" where
  "content_kind b =
     (if ct_type b = ''text'' then Some \<lparr>sl_kind = ''text'', sl_id = [], sl_name = []\<rparr>
      else if ct_type b = ''thinking'' \<or> ct_type b = ''redacted_thinking''
      then Some \<lparr>sl_kind = ''reasoning'', sl_id = [], sl_name = []\<rparr>
      else if ct_type b = ''tool_use'' then Some \<lparr>sl_kind = ''tool-call'', sl_id = ct_id b, sl_name = ct_name b\<rparr>
      else None)"

definition messages_delta :: "int \<Rightarrow> message_delta \<Rightarrow> items_state \<Rightarrow> items_state" where
  "messages_delta i d st =
     (let s = (case map_of (is_opened st) i of None \<Rightarrow> no_slot | Some s \<Rightarrow> s)
      in if md_type d = ''text_delta'' \<and> md_text d \<noteq> [] then emit_is (text_chunk ChunkTextDelta i (md_text d)) st
         else if md_type d = ''thinking_delta'' \<and> md_thinking d \<noteq> []
         then emit_is (text_chunk ChunkReasoningDelta i (md_thinking d)) st
         else if md_type d = ''input_json_delta'' \<and> md_partial d \<noteq> []
         then emit_is (args_chunk i (sl_id s) (sl_name s) (md_partial d)) st
         else st)"

text \<open>One event; the flag tells whether the stream is done.\<close>

definition messages_event :: "(int list \<Rightarrow> int list) \<Rightarrow> message_event \<Rightarrow> items_state \<Rightarrow> items_state \<times> bool" where
  "messages_event pick ev st =
     (if me_type ev = ''message_start'' then
        ((case me_message ev of Some (Some u) \<Rightarrow> apply_usage u st | _ \<Rightarrow> st), False)
      else if me_type ev = ''content_block_start'' then
        ((case me_block ev of None \<Rightarrow> st
          | Some b \<Rightarrow>
              (case content_kind b of None \<Rightarrow> st
               | Some sl \<Rightarrow>
                   (let st1 = open_item (me_index ev) sl st
                    in if sl_kind sl = ''text'' \<and> ct_text b \<noteq> []
                       then emit_is (text_chunk ChunkTextDelta (me_index ev) (ct_text b)) st1 else st1))), False)
      else if me_type ev = ''content_block_delta'' then
        ((case me_delta ev of None \<Rightarrow> st | Some d \<Rightarrow> messages_delta (me_index ev) d st), False)
      else if me_type ev = ''content_block_stop'' then (close_index (me_index ev) st, False)
      else if me_type ev = ''message_delta'' then
        (let st1 = (case me_delta ev of None \<Rightarrow> st
               | Some d \<Rightarrow> if md_stop d \<noteq> [] then st\<lparr>is_finish := map_anthropic_stop (md_stop d)\<rparr> else st)
         in ((case me_usage ev of None \<Rightarrow> st1 | Some u \<Rightarrow> apply_usage u st1), False))
      else if me_type ev = ''message_stop'' then (messages_finish pick st, True)
      else (st, False))"

definition messages_handle ::
  "(string \<Rightarrow> string) \<Rightarrow> (int list \<Rightarrow> int list) \<Rightarrow> string \<Rightarrow> items_state \<Rightarrow> items_state \<times> (llm_error + bool)" where
  "messages_handle json_error pick payload st =
     (if payload = ''[DONE]'' then (messages_finish pick st, Inr True)
      else (case unmarshal dec_message_event (parse_json payload) of
          None \<Rightarrow> (st, Inl (malformed_chunk json_error payload))
        | Some ev \<Rightarrow> (case messages_event pick ev st of (st1, done_) \<Rightarrow> (st1, Inr done_))))"

definition stream_messages ::
  "(string \<Rightarrow> string) \<Rightarrow> (int list \<Rightarrow> int list) \<Rightarrow> sse_input list \<Rightarrow> items_state \<times> sse_end option" where
  "stream_messages json_error pick ins =
     consume_sse (messages_handle json_error pick) ins new_sse_buffer (items_start ''stop'')"

section \<open>Responses\<close>

record response_item =
  ri_type :: string
  ri_id :: string
  ri_call_id :: string
  ri_name :: string

record response_usage =
  ru_input :: int
  ru_output :: int
  ru_cached :: "int option"
  ru_reasoning :: "int option"

record response_body =
  rb_status :: string
  rb_usage :: "response_usage option"

record response_event =
  re_type :: string
  re_delta :: string
  re_index :: int
  re_item :: "response_item option"
  re_response :: "response_body option"

definition dec_response_item :: "(string \<times> json) list \<Rightarrow> response_item option" where
  "dec_response_item kvs =
     Option.bind (dec_string ''type'' kvs) (\<lambda>ty. Option.bind (dec_string ''id'' kvs) (\<lambda>i.
     Option.bind (dec_string ''call_id'' kvs) (\<lambda>c. Option.bind (dec_string ''name'' kvs) (\<lambda>n.
     map_option (\<lambda>_. \<lparr>ri_type = ty, ri_id = i, ri_call_id = c, ri_name = n\<rparr>) (dec_string ''arguments'' kvs)))))"

definition dec_response_usage :: "(string \<times> json) list \<Rightarrow> response_usage option" where
  "dec_response_usage kvs =
     Option.bind (dec_int ''input_tokens'' kvs) (\<lambda>i. Option.bind (dec_int ''output_tokens'' kvs) (\<lambda>out.
     Option.bind (dec_ptr (dec_int ''cached_tokens'') ''input_tokens_details'' kvs) (\<lambda>c.
     map_option (\<lambda>r. \<lparr>ru_input = i, ru_output = out, ru_cached = c, ru_reasoning = r\<rparr>)
       (dec_ptr (dec_int ''reasoning_tokens'') ''output_tokens_details'' kvs))))"

definition dec_response_body :: "(string \<times> json) list \<Rightarrow> response_body option" where
  "dec_response_body kvs = Option.bind (dec_string ''status'' kvs) (\<lambda>s.
     map_option (\<lambda>u. \<lparr>rb_status = s, rb_usage = u\<rparr>) (dec_ptr dec_response_usage ''usage'' kvs))"

definition dec_response_event :: "(string \<times> json) list \<Rightarrow> response_event option" where
  "dec_response_event kvs =
     Option.bind (dec_string ''type'' kvs) (\<lambda>ty. Option.bind (dec_string ''delta'' kvs) (\<lambda>d.
     Option.bind (dec_int ''output_index'' kvs) (\<lambda>i. Option.bind (dec_ptr dec_response_item ''item'' kvs) (\<lambda>it.
     map_option (\<lambda>r. \<lparr>re_type = ty, re_delta = d, re_index = i, re_item = it, re_response = r\<rparr>)
       (dec_ptr dec_response_body ''response'' kvs)))))"

text \<open>\<open>ensure\<close>: an index that is open with another kind is closed first.\<close>

definition ensure_item :: "int \<Rightarrow> string \<Rightarrow> string \<Rightarrow> string \<Rightarrow> items_state \<Rightarrow> items_state" where
  "ensure_item i kind cid name st =
     (case map_of (is_opened st) i of
        Some cur \<Rightarrow> if sl_kind cur = kind then st
          else open_item i \<lparr>sl_kind = kind, sl_id = cid, sl_name = name\<rparr> (close_index i st)
      | None \<Rightarrow> open_item i \<lparr>sl_kind = kind, sl_id = cid, sl_name = name\<rparr> st)"

definition responses_finish :: "(int list \<Rightarrow> int list) \<Rightarrow> items_state \<Rightarrow> items_state" where
  "responses_finish pick st =
     (if is_finished st then st
      else (let st1 = close_all pick (st\<lparr>is_finished := True\<rparr>);
                r1 = (if is_finish st1 = [] then ''stop'' else is_finish st1);
                r2 = (if r1 = ''stop'' \<and> is_saw_tool st1 then ''tool-calls'' else r1);
                r3 = (if r2 = ''stop'' \<and> is_count st1 = 0 then ''error'' else r2)
            in send_tail r3 st1))"

definition first_non_empty :: "string \<Rightarrow> string \<Rightarrow> string" where
  "first_non_empty a b = (if a \<noteq> [] then a else b)"

definition is_call_item :: "response_item \<Rightarrow> bool" where
  "is_call_item it \<longleftrightarrow> ri_type it = ''function_call'' \<or> ri_type it = ''custom_tool_call''"

definition response_usage_of :: "response_usage \<Rightarrow> token_usage" where
  "response_usage_of u =
     (let cache_read = (case ru_cached u of Some c \<Rightarrow> c | None \<Rightarrow> 0)
      in \<lparr>tu_input = wrap64 (ru_input u - cache_read), tu_output = ru_output u, tu_cache_read = cache_read,
          tu_cache_write = 0, tu_reasoning = (case ru_reasoning u of Some r \<Rightarrow> r | None \<Rightarrow> 0)\<rparr>)"

definition status_reason :: "string \<Rightarrow> string \<Rightarrow> string" where
  "status_reason s old = (if s = ''completed'' then ''stop'' else if s = ''incomplete'' then ''max-tokens''
     else if s \<noteq> [] then ''error'' else old)"

definition responses_event :: "(int list \<Rightarrow> int list) \<Rightarrow> response_event \<Rightarrow> items_state \<Rightarrow> items_state \<times> bool" where
  "responses_event pick ev st =
     (let i = re_index ev
      in if re_type ev = ''response.output_item.added'' then
           ((case re_item ev of None \<Rightarrow> st
             | Some it \<Rightarrow>
                 if ri_type it = ''message'' then ensure_item i ''text'' [] [] st
                 else if ri_type it = ''reasoning'' then ensure_item i ''reasoning'' (ri_id it) [] st
                 else if is_call_item it
                 then ensure_item i ''tool-call'' (first_non_empty (ri_call_id it) (ri_id it)) (ri_name it) (st\<lparr>is_saw_tool := True\<rparr>)
                 else st), False)
         else if re_type ev = ''response.output_text.delta'' \<or> re_type ev = ''response.refusal.delta'' then
           (let st1 = ensure_item i ''text'' [] [] st
            in (if re_delta ev \<noteq> [] then emit_is (text_chunk ChunkTextDelta i (re_delta ev)) st1 else st1, False))
         else if re_type ev = ''response.reasoning_summary_text.delta'' \<or> re_type ev = ''response.reasoning_text.delta'' then
           (let st1 = ensure_item i ''reasoning'' [] [] st
            in (if re_delta ev \<noteq> [] then emit_is (text_chunk ChunkReasoningDelta i (re_delta ev)) st1 else st1, False))
         else if re_type ev = ''response.function_call_arguments.delta'' \<or> re_type ev = ''response.custom_tool_call_input.delta'' then
           (let cid = (case re_item ev of None \<Rightarrow> [] | Some it \<Rightarrow> first_non_empty (ri_call_id it) (ri_id it));
                name = (case re_item ev of None \<Rightarrow> [] | Some it \<Rightarrow> ri_name it);
                st1 = ensure_item i ''tool-call'' cid name (st\<lparr>is_saw_tool := True\<rparr>)
            in (if re_delta ev \<noteq> [] then emit_is (args_chunk i cid name (re_delta ev)) st1 else st1, False))
         else if re_type ev = ''response.output_item.done'' then
           (close_index i (case re_item ev of None \<Rightarrow> st
              | Some it \<Rightarrow> if is_call_item it then st\<lparr>is_saw_tool := True\<rparr> else st), False)
         else if re_type ev = ''response.completed'' \<or> re_type ev = ''response.incomplete'' then
           (let st1 = (case re_response ev of
                  Some r \<Rightarrow> (let st2 = st\<lparr>is_finish := status_reason (rb_status r) (is_finish st)\<rparr>
                    in case rb_usage r of None \<Rightarrow> st2 | Some u \<Rightarrow> st2\<lparr>is_usage := Some (response_usage_of u)\<rparr>)
                | None \<Rightarrow> if re_type ev = ''response.completed'' then st\<lparr>is_finish := ''stop''\<rparr> else st)
            in (responses_finish pick st1, True))
         else if re_type ev = ''response.failed'' \<or> re_type ev = ''error'' then
           (responses_finish pick (st\<lparr>is_finish := ''error''\<rparr>), True)
         else (st, False))"

definition responses_handle ::
  "(string \<Rightarrow> string) \<Rightarrow> (int list \<Rightarrow> int list) \<Rightarrow> string \<Rightarrow> items_state \<Rightarrow> items_state \<times> (llm_error + bool)" where
  "responses_handle json_error pick payload st =
     (if payload = ''[DONE]'' then (responses_finish pick st, Inr True)
      else (case unmarshal dec_response_event (parse_json payload) of
          None \<Rightarrow> (st, Inl (malformed_chunk json_error payload))
        | Some ev \<Rightarrow> (case responses_event pick ev st of (st1, done_) \<Rightarrow> (st1, Inr done_))))"

definition stream_responses ::
  "(string \<Rightarrow> string) \<Rightarrow> (int list \<Rightarrow> int list) \<Rightarrow> sse_input list \<Rightarrow> items_state \<times> sse_end option" where
  "stream_responses json_error pick ins =
     consume_sse (responses_handle json_error pick) ins new_sse_buffer (items_start [])"

end
