(* ===== verification/Wire_Completions_Laws.thy ===== *)
theory Wire_Completions_Laws imports Wire_Completions begin

text \<open>
  What the translator's chunks assemble to.  A wire chunk is a list of pieces; the reference keeps
  the keys of the pieces in the order they first appear and for each key what its own pieces say.
\<close>

section \<open>The reference\<close>

datatype wire_piece = ReasoningPiece string | TextPiece string | ToolPiece wire_tool

definition delta_pieces :: "wire_delta \<Rightarrow> wire_piece list" where
  "delta_pieces d =
     (if wd_reasoning d = [] then [] else [ReasoningPiece (wd_reasoning d)]) @
     (if wd_content d = [] then [] else [TextPiece (wd_content d)]) @
     map ToolPiece (wd_tools d)"

definition chunk_pieces :: "wire_chunk \<Rightarrow> wire_piece list" where
  "chunk_pieces c = concat (map (\<lambda>ch. delta_pieces (wc_delta ch)) (wk_choices c))"

definition piece_key :: "wire_piece \<Rightarrow> string" where
  "piece_key p = (case p of ReasoningPiece _ \<Rightarrow> ''reasoning'' | TextPiece _ \<Rightarrow> ''text'' | ToolPiece t \<Rightarrow> tool_block_id (wt_index t))"

fun piece_text :: "wire_piece \<Rightarrow> string" where
  "piece_text (ReasoningPiece s) = s" | "piece_text (TextPiece s) = s" | "piece_text (ToolPiece t) = wt_args t"

fun piece_id :: "wire_piece \<Rightarrow> string" where "piece_id (ToolPiece t) = wt_id t" | "piece_id _ = []"
fun piece_name :: "wire_piece \<Rightarrow> string" where "piece_name (ToolPiece t) = wt_name t" | "piece_name _ = []"

fun first_seen :: "'a list \<Rightarrow> 'a list" where
  "first_seen [] = []"
| "first_seen (x # xs) = x # filter (\<lambda>y. y \<noteq> x) (first_seen xs)"

fun first_nonempty :: "string list \<Rightarrow> string" where
  "first_nonempty [] = []"
| "first_nonempty (s # ss) = (if s \<noteq> [] then s else first_nonempty ss)"

definition key_pieces :: "string \<Rightarrow> wire_piece list \<Rightarrow> wire_piece list" where
  "key_pieces k ps = filter (\<lambda>p. piece_key p = k) ps"

definition piece_block :: "wire_piece list \<Rightarrow> string \<Rightarrow> content_block" where
  "piece_block ps k =
     (let own = key_pieces k ps; body = concat (map piece_text own)
      in if k = ''text'' \<or> k = ''reasoning'' then text_only_block k body
         else ContentBlock ''tool-call'' [] [] [] (first_nonempty (map piece_id own)) (first_nonempty (map piece_name own))
           body [] False [])"

definition message_blocks :: "wire_piece list \<Rightarrow> content_block list" where
  "message_blocks ps = map (piece_block ps) (first_seen (map piece_key ps))"

section \<open>Facts about the reference\<close>

lemma set_first_seen [simp]: "set (first_seen xs) = set xs"
  by (induction xs) auto

lemma distinct_first_seen: "distinct (first_seen xs)"
  by (induction xs) auto

lemma first_seen_snoc: "first_seen (xs @ [x]) = (if x \<in> set xs then first_seen xs else first_seen xs @ [x])"
  by (induction xs) auto

lemma first_nonempty_snoc:
  "first_nonempty (ss @ [s]) = (if s \<noteq> [] \<and> first_nonempty ss = [] then s else first_nonempty ss)"
  by (induction ss) auto

lemma key_pieces_snoc: "key_pieces k (ps @ [p]) = key_pieces k ps @ (if piece_key p = k then [p] else [])"
  by (simp add: key_pieces_def)

lemma key_pieces_absent: "k \<notin> set (map piece_key ps) \<Longrightarrow> key_pieces k ps = []"
  by (auto simp: key_pieces_def filter_empty_conv)

lemma number_dash: "number (CHR ''-'' # s) = None" "number (CHR ''+'' # s) = None"
  by (simp_all add: number_def digit_value_def)

lemma atoi_itoa: "atoi_or_zero (itoa i) = i"
proof (cases "i < 0")
  case True
  then show ?thesis using number_decimal [of "nat (- i)"] by (simp add: itoa_def atoi_or_zero_def)
next
  case False
  have n: "number (decimal (nat i)) = Some (nat i)" by (rule number_decimal)
  then obtain c cs where d: "decimal (nat i) = c # cs" by (cases "decimal (nat i)") (auto simp: number_def)
  with n have "c \<noteq> CHR ''-''" "c \<noteq> CHR ''+''" by (auto simp: number_dash)
  then have "atoi_or_zero (c # cs) = (case number (c # cs) of Some n \<Rightarrow> int n | None \<Rightarrow> 0)"
    by (auto simp: atoi_or_zero_def split: char.splits bool.splits)
  with False n d show ?thesis by (simp add: itoa_def)
qed

lemma tool_block_id_inject [simp]: "tool_block_id m = tool_block_id n \<longleftrightarrow> m = n"
  by (metis atoi_itoa same_append_eq tool_block_id_def)

lemma tool_block_id_facts [simp]:
  "tool_block_id n \<noteq> ''text''" "tool_block_id n \<noteq> ''reasoning''" "tool_block_id n \<noteq> []"
  "''text'' \<noteq> tool_block_id n" "''reasoning'' \<noteq> tool_block_id n"
  by (auto simp: tool_block_id_def)

lemma trim_tool_prefix: "atoi_or_zero (trim_prefix (tool_block_id n) ''tool-'') = n"
  by (simp add: tool_block_id_def trim_prefix_def has_prefix_def atoi_itoa)

section \<open>The translator piece by piece\<close>

fun wire_piece_step :: "wire_piece \<Rightarrow> completions_state \<Rightarrow> completions_state" where
  "wire_piece_step (ReasoningPiece t) st = wire_reasoning t st"
| "wire_piece_step (TextPiece t) st = wire_text t st"
| "wire_piece_step (ToolPiece tc) st = wire_tool_call tc st"

definition proper_piece :: "wire_piece \<Rightarrow> bool" where
  "proper_piece p \<longleftrightarrow> (case p of ReasoningPiece t \<Rightarrow> t \<noteq> [] | TextPiece t \<Rightarrow> t \<noteq> [] | ToolPiece _ \<Rightarrow> True)"

lemma delta_pieces_step:
  "fold wire_tool_call (wd_tools d) (wire_text (wd_content d) (wire_reasoning (wd_reasoning d) st)) =
   fold wire_piece_step (delta_pieces d) st"
proof -
  have "fold wire_tool_call ts st = fold wire_piece_step (map ToolPiece ts) st" for ts st
    by (induction ts arbitrary: st) auto
  then show ?thesis by (simp add: delta_pieces_def wire_text_def wire_reasoning_def)
qed

text \<open>
  The relation between the pieces so far, the translator and an assembler that has taken every
  chunk sent so far.
\<close>

definition tool_of :: "wire_piece list \<Rightarrow> int \<Rightarrow> open_tool option" where
  "tool_of ps n =
     (let own = key_pieces (tool_block_id n) ps
      in if own = [] then None
         else Some \<lparr>ot_call_id = first_nonempty (map piece_id own), ot_name = first_nonempty (map piece_name own),
           ot_args = concat (map piece_text own)\<rparr>)"

definition translated :: "wire_piece list \<Rightarrow> completions_state \<Rightarrow> bool" where
  "translated ps st \<longleftrightarrow>
     cs_order st = first_seen (map piece_key ps) \<and>
     cs_text st = concat (map piece_text (key_pieces ''text'' ps)) \<and>
     cs_reasoning st = concat (map piece_text (key_pieces ''reasoning'' ps)) \<and>
     (cs_text_open st \<longleftrightarrow> ''text'' \<in> set (map piece_key ps)) \<and>
     (cs_reasoning_open st \<longleftrightarrow> ''reasoning'' \<in> set (map piece_key ps)) \<and>
     (\<forall>n. cs_tools st n = tool_of ps n)"

definition assembles :: "wire_piece list \<Rightarrow> assembler \<Rightarrow> bool" where
  "assembles ps ba \<longleftrightarrow>
     ba_open_order ba = first_seen (map piece_key ps) \<and>
     (\<forall>k. ba_active ba k = (if k \<in> set (map piece_key ps) then Some (piece_block ps k) else None)) \<and>
     ba_legacy ba = None \<and> ba_blocks ba = [] \<and> ba_usage ba = None \<and> ba_finish ba = []"

text \<open>The assembler and one piece: an opening chunk for a new key, then a delta.\<close>

definition start_chunk :: "wire_piece \<Rightarrow> int \<Rightarrow> stream_chunk" where
  "start_chunk p i = zero_chunk\<lparr>sc_type := ChunkBlockStart, sc_index := i, sc_block_id := piece_key p,
     sc_block_type := (case p of ReasoningPiece _ \<Rightarrow> ''reasoning'' | TextPiece _ \<Rightarrow> ''text'' | ToolPiece _ \<Rightarrow> ''tool-call'')\<rparr>"

lemma piece_key_nonempty [simp]: "piece_key p \<noteq> []"
  by (simp add: piece_key_def split: wire_piece.split)

lemma started_is_empty:
  "piece_key p \<notin> set (map piece_key ps) \<Longrightarrow> started_block (start_chunk p i) = piece_block ps (piece_key p)"
  using key_pieces_absent [of "piece_key p" ps]
  by (cases p) (simp_all add: started_block_def start_chunk_def zero_chunk_def piece_block_def piece_key_def text_only_block_def Let_def)

lemma piece_block_other: "piece_key p \<noteq> k \<Longrightarrow> piece_block (ps @ [p]) k = piece_block ps k"
  by (simp add: piece_block_def key_pieces_snoc)

lemma assembles_piece:
  assumes a: "assembles ps ba"
    and d: "\<And>ba1. ba_active ba1 (piece_key p) \<noteq> None \<Longrightarrow> ingest_chunk c ba1 = Some (update_active (piece_key p) f ba1)"
    and f: "f (piece_block ps (piece_key p)) = piece_block (ps @ [p]) (piece_key p)"
  shows "\<exists>ba'. ingest_all ((if piece_key p \<in> set (map piece_key ps) then [] else [start_chunk p i]) @ [c]) ba = Some ba' \<and>
    assembles (ps @ [p]) ba'"
proof (cases "piece_key p \<in> set (map piece_key ps)")
  case True
  then have "ba_active ba (piece_key p) = Some (piece_block ps (piece_key p))" using a by (simp add: assembles_def)
  with d [of ba] have "ingest_all [c] ba = Some (update_active (piece_key p) f ba)" by simp
  moreover have "assembles (ps @ [p]) (update_active (piece_key p) f ba)"
    using a True f piece_block_other [of p _ ps]
    by (auto simp: assembles_def update_active_def first_seen_snoc)
  ultimately show ?thesis using True by simp
next
  case False
  let ?ba1 = "open_block (piece_key p) (started_block (start_chunk p i)) ba"
  have n: "ba_active ba (piece_key p) = None" using a False by (simp add: assembles_def)
  have s: "ingest_chunk (start_chunk p i) ba = Some ?ba1"
    using n by (simp add: ingest_chunk_def ingest_start_def start_chunk_def zero_chunk_def)
  have act: "ba_active ?ba1 (piece_key p) = Some (piece_block ps (piece_key p))"
    using started_is_empty [OF False] by (simp add: open_block_def)
  with d [of ?ba1] s have "ingest_all [start_chunk p i, c] ba = Some (update_active (piece_key p) f ?ba1)" by simp
  moreover have "assembles (ps @ [p]) (update_active (piece_key p) f ?ba1)"
    using a False f act piece_block_other [of p _ ps]
    by (auto simp: assembles_def update_active_def open_block_def first_seen_snoc)
  ultimately show ?thesis using False by simp
qed

text \<open>One piece, on both sides.\<close>

definition piece_done :: "wire_piece list \<Rightarrow> wire_piece \<Rightarrow> completions_state \<Rightarrow> completions_state \<Rightarrow> bool" where
  "piece_done ps p st st' \<longleftrightarrow> translated (ps @ [p]) st' \<and> cs_usage st' = cs_usage st \<and> cs_finish st' = cs_finish st \<and>
     cs_finished st' = cs_finished st \<and>
     (\<exists>new. cs_out st' = cs_out st @ new \<and> (\<forall>c\<in>set new. sc_type c \<noteq> ChunkFinish) \<and>
       (\<forall>ba. assembles ps ba \<longrightarrow> (\<exists>ba'. ingest_all new ba = Some ba' \<and> assembles (ps @ [p]) ba')))"

lemma piece_text_done:
  assumes t: "translated ps st" and p: "p = TextPiece t" "t \<noteq> []"
  shows "piece_done ps p st (wire_text t st)"
proof -
  let ?seen = "''text'' \<in> set (map piece_key ps)"
  obtain i j where out: "cs_out (wire_text t st) = cs_out st @ (if ?seen then [] else [start_chunk p i]) @
      [zero_chunk\<lparr>sc_type := ChunkTextDelta, sc_index := j, sc_block_id := ''text'', sc_text := t\<rparr>]"
    using t p by (auto simp: wire_text_def Let_def emit_cs_def open_wire_block_def start_chunk_def piece_key_def translated_def)
  have tr: "translated (ps @ [p]) (wire_text t st)"
    using t p
    by (auto simp: translated_def wire_text_def Let_def emit_cs_def open_wire_block_def key_pieces_snoc piece_key_def
        first_seen_snoc tool_of_def)
  have keep: "cs_usage (wire_text t st) = cs_usage st" "cs_finish (wire_text t st) = cs_finish st"
    "cs_finished (wire_text t st) = cs_finished st"
    by (simp_all add: wire_text_def Let_def emit_cs_def open_wire_block_def)
  have k: "piece_key p = ''text''" by (simp add: p piece_key_def)
  let ?c = "zero_chunk\<lparr>sc_type := ChunkTextDelta, sc_index := j, sc_block_id := ''text'', sc_text := t\<rparr>"
  have d: "ingest_chunk ?c ba1 = Some (update_active (piece_key p) (add_text t) ba1)" if "ba_active ba1 (piece_key p) \<noteq> None" for ba1
    using that by (auto simp: k ingest_chunk_def ingest_delta_def chunk_target_def zero_chunk_def split: option.splits)
  have f: "add_text t (piece_block ps (piece_key p)) = piece_block (ps @ [p]) (piece_key p)"
    using p k by (simp add: piece_block_def key_pieces_snoc text_only_block_def Let_def)
  have "\<forall>ba. assembles ps ba \<longrightarrow> (\<exists>ba'. ingest_all ((if ?seen then [] else [start_chunk p i]) @ [?c]) ba = Some ba' \<and> assembles (ps @ [p]) ba')"
    using assembles_piece [OF _ d f, of ba i for ba] k by auto
  with out tr keep show ?thesis
    by (auto simp: piece_done_def start_chunk_def zero_chunk_def)
qed

lemma piece_reasoning_done:
  assumes t: "translated ps st" and p: "p = ReasoningPiece t" "t \<noteq> []"
  shows "piece_done ps p st (wire_reasoning t st)"
proof -
  let ?seen = "''reasoning'' \<in> set (map piece_key ps)"
  obtain i j where out: "cs_out (wire_reasoning t st) = cs_out st @ (if ?seen then [] else [start_chunk p i]) @
      [zero_chunk\<lparr>sc_type := ChunkReasoningDelta, sc_index := j, sc_block_id := ''reasoning'', sc_text := t\<rparr>]"
    using t p by (auto simp: wire_reasoning_def Let_def emit_cs_def open_wire_block_def start_chunk_def piece_key_def translated_def)
  have tr: "translated (ps @ [p]) (wire_reasoning t st)"
    using t p
    by (auto simp: translated_def wire_reasoning_def Let_def emit_cs_def open_wire_block_def key_pieces_snoc piece_key_def
        first_seen_snoc tool_of_def)
  have keep: "cs_usage (wire_reasoning t st) = cs_usage st" "cs_finish (wire_reasoning t st) = cs_finish st"
    "cs_finished (wire_reasoning t st) = cs_finished st"
    by (simp_all add: wire_reasoning_def Let_def emit_cs_def open_wire_block_def)
  have k: "piece_key p = ''reasoning''" by (simp add: p piece_key_def)
  let ?c = "zero_chunk\<lparr>sc_type := ChunkReasoningDelta, sc_index := j, sc_block_id := ''reasoning'', sc_text := t\<rparr>"
  have d: "ingest_chunk ?c ba1 = Some (update_active (piece_key p) (add_text t) ba1)" if "ba_active ba1 (piece_key p) \<noteq> None" for ba1
    using that by (auto simp: k ingest_chunk_def ingest_delta_def chunk_target_def zero_chunk_def split: option.splits)
  have f: "add_text t (piece_block ps (piece_key p)) = piece_block (ps @ [p]) (piece_key p)"
    using p k by (simp add: piece_block_def key_pieces_snoc text_only_block_def Let_def)
  have "\<forall>ba. assembles ps ba \<longrightarrow> (\<exists>ba'. ingest_all ((if ?seen then [] else [start_chunk p i]) @ [?c]) ba = Some ba' \<and> assembles (ps @ [p]) ba')"
    using assembles_piece [OF _ d f, of ba i for ba] k by auto
  with out tr keep show ?thesis
    by (auto simp: piece_done_def start_chunk_def zero_chunk_def)
qed

lemma piece_tool_done:
  assumes t: "translated ps st" and p: "p = ToolPiece tc"
  shows "piece_done ps p st (wire_tool_call tc st)"
proof -
  let ?k = "tool_block_id (wt_index tc)"
  let ?seen = "?k \<in> set (map piece_key ps)"
  let ?own = "key_pieces ?k ps"
  let ?id = "first_nonempty (map piece_id (?own @ [p]))" and ?name = "first_nonempty (map piece_name (?own @ [p]))"
  have k: "piece_key p = ?k" by (simp add: p piece_key_def)
  have seen: "?seen \<longleftrightarrow> ?own \<noteq> []" by (force simp: key_pieces_def filter_empty_conv image_iff)
  have tl: "cs_tools st (wt_index tc) = (if ?own = [] then None
      else Some \<lparr>ot_call_id = first_nonempty (map piece_id ?own), ot_name = first_nonempty (map piece_name ?own),
        ot_args = concat (map piece_text ?own)\<rparr>)"
    using t by (simp add: translated_def tool_of_def Let_def)
  let ?c = "\<lambda>j. zero_chunk\<lparr>sc_type := ChunkToolCallDelta, sc_index := j, sc_block_id := ?k,
      sc_id := ?id, sc_name := ?name, sc_arguments := wt_args tc\<rparr>"
  obtain i j where out: "cs_out (wire_tool_call tc st) = cs_out st @ (if ?seen then [] else [start_chunk p i]) @ [?c j]"
  proof (cases "?own = []")
    case True
    have "(if w \<noteq> [] then w else first_nonempty []) = w" for w :: string by simp
    with True show ?thesis using that tl seen p k
      by (auto simp: wire_tool_call_def Let_def emit_cs_def open_wire_block_def start_chunk_def)
  next
    case False
    then have sn: "?seen" using seen by blast
    show ?thesis
      by (rule that [where i = 0 and j = "block_index ?k st"], unfold if_P [OF sn])
        (simp add: False p tl wire_tool_call_def Let_def emit_cs_def first_nonempty_snoc block_index_def)
  qed
  have tools: "cs_tools (wire_tool_call tc st) n = tool_of (ps @ [p]) n" for n
  proof (cases "n = wt_index tc")
    case True
    then show ?thesis using tl p k
      by (cases "?own = []")
        (simp_all add: wire_tool_call_def Let_def emit_cs_def open_wire_block_def tool_of_def key_pieces_snoc first_nonempty_snoc)
  next
    case False
    then have "cs_tools (wire_tool_call tc st) n = cs_tools st n" using tl
      by (cases "?own = []") (simp_all add: wire_tool_call_def Let_def emit_cs_def open_wire_block_def)
    moreover have "tool_of (ps @ [p]) n = tool_of ps n" using False k by (simp add: tool_of_def key_pieces_snoc)
    ultimately show ?thesis using t by (simp add: translated_def)
  qed
  have rest: "cs_order (wire_tool_call tc st) = (if ?seen then cs_order st else cs_order st @ [?k]) \<and>
      cs_text (wire_tool_call tc st) = cs_text st \<and> cs_reasoning (wire_tool_call tc st) = cs_reasoning st \<and>
      cs_text_open (wire_tool_call tc st) = cs_text_open st \<and> cs_reasoning_open (wire_tool_call tc st) = cs_reasoning_open st \<and>
      cs_usage (wire_tool_call tc st) = cs_usage st \<and> cs_finish (wire_tool_call tc st) = cs_finish st \<and>
      cs_finished (wire_tool_call tc st) = cs_finished st"
    unfolding seen using tl
    by (cases "?own = []") (simp_all add: wire_tool_call_def Let_def emit_cs_def open_wire_block_def)
  have tr: "translated (ps @ [p]) (wire_tool_call tc st)"
    using t rest tools k by (simp add: translated_def first_seen_snoc key_pieces_snoc)
  have d: "ingest_chunk (?c j) ba1 = Some (update_active (piece_key p) (add_call ?id ?name (wt_args tc)) ba1)"
    if "ba_active ba1 (piece_key p) \<noteq> None" for ba1
    using that by (auto simp: k ingest_chunk_def ingest_call_def zero_chunk_def)
  have f: "add_call ?id ?name (wt_args tc) (piece_block ps (piece_key p)) = piece_block (ps @ [p]) (piece_key p)"
    using p k by (simp add: piece_block_def key_pieces_snoc Let_def first_nonempty_snoc)
  have "\<forall>ba. assembles ps ba \<longrightarrow> (\<exists>ba'. ingest_all ((if ?seen then [] else [start_chunk p i]) @ [?c j]) ba = Some ba' \<and> assembles (ps @ [p]) ba')"
    using assembles_piece [OF _ d f, of ba i for ba] k by auto
  with out tr rest show ?thesis
    by (auto simp: piece_done_def start_chunk_def zero_chunk_def)
qed

lemma piece_step_done:
  "translated ps st \<Longrightarrow> proper_piece p \<Longrightarrow> piece_done ps p st (wire_piece_step p st)"
  by (cases p) (simp_all add: proper_piece_def piece_text_done piece_reasoning_done piece_tool_done)

section \<open>Whole streams\<close>

lemma ingest_all_append: "ingest_all (xs @ ys) ba = Option.bind (ingest_all xs ba) (ingest_all ys)"
  by (induction xs arbitrary: ba) (simp_all split: bind_split)

definition sends :: "wire_piece list \<Rightarrow> wire_piece list \<Rightarrow> completions_state \<Rightarrow> completions_state \<Rightarrow> bool" where
  "sends ps ps' st st' \<longleftrightarrow> translated ps' st' \<and> cs_finished st' = cs_finished st \<and>
     (\<exists>new. cs_out st' = cs_out st @ new \<and> (\<forall>c\<in>set new. sc_type c \<noteq> ChunkFinish) \<and>
       (\<forall>ba. assembles ps ba \<longrightarrow> (\<exists>ba'. ingest_all new ba = Some ba' \<and> assembles ps' ba')))"

lemma sends_refl: "translated ps st \<Longrightarrow> sends ps ps st st"
  unfolding sends_def by (intro conjI exI [of _ "[]"]) simp_all

lemma sends_trans:
  assumes "sends ps qs st st1" and "sends qs rs st1 st2"
  shows "sends ps rs st st2"
proof -
  obtain n1 where 1: "cs_out st1 = cs_out st @ n1" "\<forall>c\<in>set n1. sc_type c \<noteq> ChunkFinish"
    "\<forall>ba. assembles ps ba \<longrightarrow> (\<exists>ba'. ingest_all n1 ba = Some ba' \<and> assembles qs ba')"
    using assms(1) unfolding sends_def by blast
  obtain n2 where 2: "cs_out st2 = cs_out st1 @ n2" "\<forall>c\<in>set n2. sc_type c \<noteq> ChunkFinish"
    "\<forall>ba. assembles qs ba \<longrightarrow> (\<exists>ba'. ingest_all n2 ba = Some ba' \<and> assembles rs ba')"
    using assms(2) unfolding sends_def by blast
  have "\<exists>ba'. ingest_all (n1 @ n2) ba = Some ba' \<and> assembles rs ba'" if "assembles ps ba" for ba
  proof -
    from 1(3) [rule_format, OF that] obtain b1 where b1: "ingest_all n1 ba = Some b1" "assembles qs b1" by auto
    from 2(3) [rule_format, OF b1(2)] obtain b2 where "ingest_all n2 b1 = Some b2" "assembles rs b2" by auto
    with b1 show ?thesis by (simp add: ingest_all_append)
  qed
  with 1(1,2) 2(1,2) assms show ?thesis unfolding sends_def
    by (intro conjI exI [of _ "n1 @ n2"]) auto
qed

lemma sends_pieces:
  "translated ps st \<Longrightarrow> \<forall>q\<in>set qs. proper_piece q \<Longrightarrow>
   sends ps (ps @ qs) st (fold wire_piece_step qs st) \<and>
   cs_usage (fold wire_piece_step qs st) = cs_usage st \<and> cs_finish (fold wire_piece_step qs st) = cs_finish st"
proof (induction qs arbitrary: ps st)
  case Nil
  then show ?case by (simp add: sends_refl)
next
  case (Cons q qs)
  from piece_step_done [OF Cons.prems(1), of q] Cons.prems(2)
  have q: "piece_done ps q st (wire_piece_step q st)" by simp
  then have s: "sends ps (ps @ [q]) st (wire_piece_step q st)" "translated (ps @ [q]) (wire_piece_step q st)"
    by (auto simp: piece_done_def sends_def)
  from Cons.IH [OF s(2)] Cons.prems(2) sends_trans [OF s(1)] q show ?case by (simp add: piece_done_def)
qed

fun last_some :: "'a option list \<Rightarrow> 'a option" where
  "last_some [] = None"
| "last_some (x # xs) = (case last_some xs of None \<Rightarrow> x | Some y \<Rightarrow> Some y)"

lemma last_some_append: "last_some (xs @ ys) = (case last_some ys of None \<Rightarrow> last_some xs | Some y \<Rightarrow> Some y)"
  by (induction xs) (auto split: option.split)

definition stream_pieces :: "wire_chunk list \<Rightarrow> wire_piece list" where
  "stream_pieces cs = concat (map chunk_pieces cs)"

definition stream_finish_reason :: "wire_chunk list \<Rightarrow> string option" where
  "stream_finish_reason cs = last_some (concat (map (\<lambda>c. map wc_finish (wk_choices c)) cs))"

definition stream_usage :: "wire_chunk list \<Rightarrow> token_usage option" where
  "stream_usage cs = last_some (map (\<lambda>c. map_option wire_usage_of (wk_usage c)) cs)"

lemma proper_delta: "\<forall>q\<in>set (delta_pieces d). proper_piece q"
  by (auto simp: delta_pieces_def proper_piece_def)

lemma translated_frame [simp]:
  "translated ps (st\<lparr>cs_finish := f\<rparr>) = translated ps st" "translated ps (st\<lparr>cs_usage := u\<rparr>) = translated ps st"
  by (simp_all add: translated_def)

lemma sends_frame [simp]:
  "sends ps qs st (st'\<lparr>cs_finish := f\<rparr>) = sends ps qs st st'" "sends ps qs st (st'\<lparr>cs_usage := u\<rparr>) = sends ps qs st st'"
  by (simp_all add: sends_def)

lemma sends_choices:
  "translated ps st \<Longrightarrow>
   sends ps (ps @ concat (map (\<lambda>ch. delta_pieces (wc_delta ch)) chs)) st (fold wire_choice_step chs st) \<and>
   cs_usage (fold wire_choice_step chs st) = cs_usage st \<and>
   cs_finish (fold wire_choice_step chs st) = (case last_some (map wc_finish chs) of None \<Rightarrow> cs_finish st | Some f \<Rightarrow> Some f)"
proof (induction chs arbitrary: ps st)
  case Nil
  then show ?case by (simp add: sends_refl)
next
  case (Cons ch chs)
  let ?d = "delta_pieces (wc_delta ch)"
  let ?st1 = "wire_choice_step ch st"
  have eq: "?st1 = (case wc_finish ch of None \<Rightarrow> fold wire_piece_step ?d st
      | Some f \<Rightarrow> (fold wire_piece_step ?d st)\<lparr>cs_finish := Some f\<rparr>)"
    by (simp add: wire_choice_step_def delta_pieces_step Let_def)
  from sends_pieces [OF Cons.prems proper_delta, of "wc_delta ch"]
  have s: "sends ps (ps @ ?d) st ?st1" "cs_usage ?st1 = cs_usage st"
    "cs_finish ?st1 = (case wc_finish ch of None \<Rightarrow> cs_finish st | Some f \<Rightarrow> Some f)"
    by (simp_all add: eq split: option.split)
  then have t: "translated (ps @ ?d) ?st1" by (simp add: sends_def)
  from Cons.IH [OF t] sends_trans [OF s(1)] s(2,3) show ?case by (auto split: option.splits)
qed

lemma sends_chunks:
  "translated ps st \<Longrightarrow>
   sends ps (ps @ stream_pieces cs) st (fold wire_chunk_step cs st) \<and>
   cs_usage (fold wire_chunk_step cs st) = (case stream_usage cs of None \<Rightarrow> cs_usage st | Some u \<Rightarrow> Some u) \<and>
   cs_finish (fold wire_chunk_step cs st) = (case stream_finish_reason cs of None \<Rightarrow> cs_finish st | Some f \<Rightarrow> Some f)"
proof (induction cs arbitrary: ps st)
  case Nil
  then show ?case by (simp add: sends_refl stream_pieces_def stream_usage_def stream_finish_reason_def)
next
  case (Cons c cs)
  let ?st1 = "wire_chunk_step c st"
  from sends_choices [OF Cons.prems, of "wk_choices c"]
  have s: "sends ps (ps @ chunk_pieces c) st ?st1"
    "cs_usage ?st1 = (case wk_usage c of None \<Rightarrow> cs_usage st | Some u \<Rightarrow> Some (wire_usage_of u))"
    "cs_finish ?st1 = (case last_some (map wc_finish (wk_choices c)) of None \<Rightarrow> cs_finish st | Some f \<Rightarrow> Some f)"
    by (simp_all add: wire_chunk_step_def chunk_pieces_def Let_def split: option.split)
  then have t: "translated (ps @ chunk_pieces c) ?st1" by (simp add: sends_def)
  from Cons.IH [OF t] sends_trans [OF s(1)] s(2,3) show ?case
    by (auto simp: stream_pieces_def stream_usage_def stream_finish_reason_def last_some_append split: option.splits)
qed

text \<open>The deferred block ends commit the open blocks in their order, each with the block it carries.\<close>

lemma translated_block:
  assumes "translated ps st" and "k \<in> set (cs_order st)"
  shows "wire_block st k = Some (piece_block ps k)"
proof -
  from assms obtain p where p: "p \<in> set ps" "piece_key p = k" by (auto simp: translated_def)
  show ?thesis
  proof (cases p)
    case (ToolPiece t)
    let ?own = "key_pieces (tool_block_id (wt_index t)) ps"
    have "?own \<noteq> []" using p ToolPiece by (force simp: key_pieces_def filter_empty_conv piece_key_def)
    with assms(1) ToolPiece p(2) show ?thesis
      by (auto simp: wire_block_def piece_key_def trim_tool_prefix translated_def tool_of_def Let_def call_block_def piece_block_def)
  qed (use assms(1) p(2) in \<open>auto simp: wire_block_def piece_key_def translated_def piece_block_def text_only_block_def Let_def\<close>)
qed

lemma commit_ends:
  "ba_open_order ba = ks \<Longrightarrow> distinct ks \<Longrightarrow> \<forall>k\<in>set ks. k \<noteq> [] \<and> ba_active ba k = Some (f k) \<Longrightarrow>
   map sc_block_id cs = ks \<Longrightarrow> \<forall>c\<in>set cs. sc_type c = ChunkBlockEnd \<Longrightarrow>
   \<exists>ba'. ingest_all cs ba = Some ba' \<and> ba_open_order ba' = [] \<and> ba_blocks ba' = ba_blocks ba @ map f ks \<and>
     ba_legacy ba' = ba_legacy ba \<and> ba_usage ba' = ba_usage ba"
proof (induction ks arbitrary: ba cs)
  case Nil
  then show ?case by simp
next
  case (Cons k ks)
  then obtain c cs' where c: "cs = c # cs'" "sc_block_id c = k" "sc_type c = ChunkBlockEnd" "map sc_block_id cs' = ks" by auto
  have k: "k \<noteq> []" "ba_active ba k = Some (f k)" using Cons.prems(3) by simp_all
  let ?ba1 = "ba\<lparr>ba_active := (ba_active ba)(k := None), ba_open_order := ks, ba_blocks := ba_blocks ba @ [f k]\<rparr>"
  have one: "ingest_chunk c ba = Some ?ba1"
    using c k Cons.prems(1) by (simp add: ingest_chunk_def ingest_end_def commit_block_def)
  have "\<exists>ba'. ingest_all cs' ?ba1 = Some ba' \<and> ba_open_order ba' = [] \<and> ba_blocks ba' = ba_blocks ?ba1 @ map f ks \<and>
     ba_legacy ba' = ba_legacy ?ba1 \<and> ba_usage ba' = ba_usage ?ba1"
    by (rule Cons.IH) (use Cons.prems c in auto)
  with one c(1) show ?case by auto
qed

theorem stream_assembles:
  assumes "st = fold wire_chunk_step cs completions_start"
  obtains ba where "ingest_all (cs_out (completions_finish st)) new_assembler = Some ba"
    "assembler_result ba = (message_blocks (stream_pieces cs), stream_usage cs, final_reason st)"
    "ba_open_order ba = []" "ba_legacy ba = None"
proof -
  have start: "translated [] completions_start" "assembles [] new_assembler"
    by (simp_all add: translated_def completions_start_def key_pieces_def tool_of_def assembles_def new_assembler_def)
  from sends_chunks [OF start(1), of cs] assms
  have s: "sends [] (stream_pieces cs) completions_start st" "cs_usage st = stream_usage cs"
    by (simp_all add: completions_start_def split: option.splits)
  then obtain ba1 where ba1: "ingest_all (cs_out st) new_assembler = Some ba1" "assembles (stream_pieces cs) ba1"
    "translated (stream_pieces cs) st" "cs_finished st = False"
    using start(2) by (auto simp: sends_def completions_start_def)
  let ?ends = "map (block_end st) [0..<length (cs_order st)]"
  have ids: "map sc_block_id ?ends = cs_order st"
    by (rule nth_equalityI) (simp_all add: block_end_def)
  have ends: "\<forall>c\<in>set ?ends. sc_type c = ChunkBlockEnd" by (simp add: block_end_def)
  have ne: "\<forall>k\<in>set (cs_order st). k \<noteq> [] \<and> ba_active ba1 k = Some (piece_block (stream_pieces cs) k)"
    using ba1(2,3) by (auto simp: assembles_def translated_def)
  obtain ba2 where ba2: "ingest_all ?ends ba1 = Some ba2" "ba_open_order ba2 = []"
    "ba_blocks ba2 = message_blocks (stream_pieces cs)" "ba_legacy ba2 = None" "ba_usage ba2 = None"
    using commit_ends [OF _ _ ne ids ends] ba1(2,3) distinct_first_seen [of "map piece_key (stream_pieces cs)"]
    by (auto simp: assembles_def translated_def message_blocks_def)
  let ?u = "case cs_usage st of None \<Rightarrow> [] | Some u \<Rightarrow> [zero_chunk\<lparr>sc_type := ChunkUsage, sc_usage := Some u\<rparr>]"
  let ?fin = "zero_chunk\<lparr>sc_type := ChunkFinish, sc_finish := final_reason st\<rparr>"
  let ?ba3 = "ba2\<lparr>ba_usage := cs_usage st\<rparr>"
  have "ba2\<lparr>ba_usage := None\<rparr> = ba2" using ba2(5) by simp
  then have u: "ingest_all ?u ba2 = Some ?ba3"
    by (cases "cs_usage st") (simp_all add: ingest_chunk_def zero_chunk_def)
  have f: "ingest_all [?fin] ?ba3 = Some (?ba3\<lparr>ba_finish := final_reason st\<rparr>)"
    using ba2(2,4) by (simp add: ingest_chunk_def zero_chunk_def ingest_finish_def commit_legacy_def)
  have "cs_out (completions_finish st) = cs_out st @ ?ends @ ?u @ [?fin]" using ba1(4) by (simp add: completions_finish_def)
  with ba1(1) ba2(1) u f have "ingest_all (cs_out (completions_finish st)) new_assembler = Some (?ba3\<lparr>ba_finish := final_reason st\<rparr>)"
    by (simp add: ingest_all_append)
  then show ?thesis by (rule that) (use ba2 s(2) in \<open>simp_all add: assembler_result_def\<close>)
qed

end
