(* ===== verification/Wire_Properties.thy ===== *)
theory Wire_Properties imports Wire_Completions_Laws begin

text \<open>
  The Chat Completions adapter from the lines of the body to the message: a stream is reported as
  complete exactly when its terminator was dispatched, and then the assembled message is what the
  payloads before it say.
\<close>

section \<open>From lines to payloads\<close>

fun strip_bom :: "string list \<Rightarrow> string list" where
  "strip_bom [] = []"
| "strip_bom (l # ls) = trim_prefix l sse_bom # ls"

definition body_payloads :: "string list \<Rightarrow> string list" where
  "body_payloads ls = event_payloads (fst (blank_groups (strip_bom ls)))"

lemma accept_first: "accept_line l new_sse_buffer = accept_line (trim_prefix l sse_bom) \<lparr>sb_data = [], sb_first = False\<rparr>"
  by (simp add: accept_line_def new_sse_buffer_def)

lemma accept_lines_first: "accept_lines ls new_sse_buffer =
    (if ls = [] then (new_sse_buffer, []) else accept_lines (strip_bom ls) \<lparr>sb_data = [], sb_first = False\<rparr>)"
  by (cases ls) (simp_all add: accept_first)

lemma event_payloads_Cons:
  "event_payloads (g # gs) = (if data_values g = [] then [] else [join_lines (data_values g)]) @ event_payloads gs"
  by (simp add: event_payloads_def)

lemma body_payloads_accept: "snd (accept_lines ls new_sse_buffer) = body_payloads ls"
proof (cases "ls = []")
  case False
  then show ?thesis using accept_lines_spec [of "strip_bom ls" "[]"]
    by (cases "blank_groups (strip_bom ls)"; cases "fst (blank_groups (strip_bom ls))")
      (simp_all add: accept_lines_first body_payloads_def event_payloads_Cons event_payloads_def)
qed (simp add: body_payloads_def event_payloads_def)

lemma accept_lines_append:
  "accept_lines (xs @ ys) b = (case accept_lines xs b of (b1, ps) \<Rightarrow>
     (case accept_lines ys b1 of (b2, qs) \<Rightarrow> (b2, ps @ qs)))"
  by (induction xs arbitrary: b) (auto split: prod.splits option.splits)

section \<open>The handler along a stream\<close>

text \<open>The payloads before the end and the wire chunks they decode to.\<close>

definition decoded :: "string list \<Rightarrow> wire_chunk list \<Rightarrow> bool" where
  "decoded ps cs \<longleftrightarrow> list_all2 (\<lambda>p c. p \<noteq> ''[DONE]'' \<and> unmarshal dec_wire_chunk (parse_json p) = Some c) ps cs"

definition ends_at :: "string list \<Rightarrow> sse_buffer \<Rightarrow> string list \<Rightarrow> wire_chunk list \<Rightarrow> bool" where
  "ends_at ls b ps cs \<longleftrightarrow> snd (accept_lines ls b) = ps @ [''[DONE]''] \<and> decoded ps cs"

lemma ends_at_skip: "accept_line l b = (b1, None) \<Longrightarrow> ends_at (l # ls) b ps cs \<longleftrightarrow> ends_at ls b1 ps cs"
  by (simp add: ends_at_def split: prod.split)

lemma ends_at_payload:
  "accept_line l b = (b1, Some p) \<Longrightarrow> p \<noteq> ''[DONE]'' \<Longrightarrow> unmarshal dec_wire_chunk (parse_json p) = Some c \<Longrightarrow>
   ends_at ls b1 ps cs \<Longrightarrow> ends_at (l # ls) b (p # ps) (c # cs)"
  by (cases "accept_lines ls b1") (simp add: ends_at_def decoded_def)

lemma handle_simps:
  "completions_handle je ''[DONE]'' st = (completions_finish st, Inr True)"
  "p \<noteq> ''[DONE]'' \<Longrightarrow> unmarshal dec_wire_chunk (parse_json p) = None \<Longrightarrow>
   completions_handle je p st = (st, Inl (malformed_chunk je p))"
  "p \<noteq> ''[DONE]'' \<Longrightarrow> unmarshal dec_wire_chunk (parse_json p) = Some c \<Longrightarrow>
   completions_handle je p st = (wire_chunk_step c st, Inr False)"
  by (simp_all add: completions_handle_def)

lemma consume_done:
  "consume_sse (completions_handle je) ins b st = (st', Some SseDone) \<Longrightarrow>
   \<exists>ls rest ps cs. ins = map LineIn ls @ rest \<and> ends_at ls b ps cs \<and> st' = completions_finish (fold wire_chunk_step cs st)"
proof (induction ins arbitrary: b st)
  case (Cons i ins)
  from Cons.prems obtain l where i: "i = LineIn l" by (cases i) auto
  obtain b1 out where a: "accept_line l b = (b1, out)" by (cases "accept_line l b") auto
  show ?case
  proof (cases out)
    case None
    with Cons.prems i a have "consume_sse (completions_handle je) ins b1 st = (st', Some SseDone)" by simp
    from Cons.IH [OF this] obtain ls rest ps cs where *: "ins = map LineIn ls @ rest" "ends_at ls b1 ps cs"
      "st' = completions_finish (fold wire_chunk_step cs st)" by blast
    show ?thesis
      by (intro exI [of _ "l # ls"] exI [of _ rest] exI [of _ ps] exI [of _ cs])
        (use * i ends_at_skip [of l b b1] a None in simp)
  next
    case (Some payload)
    show ?thesis
    proof (cases "payload = ''[DONE]''")
      case True
      with Cons.prems i a Some have "st' = completions_finish st" by (simp add: completions_handle_def)
      then show ?thesis
        by (intro exI [of _ "[l]"] exI [of _ ins] exI [of _ "[]"])
          (use i a Some True in \<open>simp add: ends_at_def decoded_def\<close>)
    next
      case False
      obtain c where c: "unmarshal dec_wire_chunk (parse_json payload) = Some c"
        "consume_sse (completions_handle je) ins b1 (wire_chunk_step c st) = (st', Some SseDone)"
        using Cons.prems i a Some handle_simps(2,3) [OF False]
        by (cases "unmarshal dec_wire_chunk (parse_json payload)") auto
      from Cons.IH [OF c(2)] obtain ls rest ps cs where *: "ins = map LineIn ls @ rest" "ends_at ls b1 ps cs"
        "st' = completions_finish (fold wire_chunk_step cs (wire_chunk_step c st))" by blast
      have "ends_at (l # ls) b (payload # ps) (c # cs)"
        using ends_at_payload [OF _ False c(1) *(2)] a Some by simp
      then show ?thesis
        by (intro exI [of _ "l # ls"] exI [of _ rest] exI [of _ "payload # ps"] exI [of _ "c # cs"]) (use * i in simp)
    qed
  qed
qed simp

text \<open>And the other way round: once the terminator completes an event, the adapter reports success.\<close>

lemma consume_reaches:
  "ends_at ls b ps cs \<Longrightarrow>
   consume_sse (completions_handle je) (map LineIn ls @ rest) b st = (completions_finish (fold wire_chunk_step cs st), Some SseDone)"
proof (induction ls arbitrary: b st ps cs)
  case Nil
  then show ?case by (simp add: ends_at_def)
next
  case (Cons l ls)
  obtain b1 out where a: "accept_line l b = (b1, out)" by (cases "accept_line l b") auto
  show ?case
  proof (cases out)
    case None
    with Cons.prems a ends_at_skip have "ends_at ls b1 ps cs" by blast
    from Cons.IH [OF this, of st] a None show ?thesis by simp
  next
    case (Some payload)
    obtain b2 qs where q: "accept_lines ls b1 = (b2, qs)" by (cases "accept_lines ls b1") auto
    from Cons.prems a Some q have e: "payload # qs = ps @ [''[DONE]'']" "decoded ps cs" by (simp_all add: ends_at_def)
    show ?thesis
    proof (cases ps)
      case Nil
      with e a Some show ?thesis by (simp add: handle_simps(1) decoded_def)
    next
      case (Cons p' ps')
      with e obtain c cs' where c: "cs = c # cs'" "payload \<noteq> ''[DONE]''" "unmarshal dec_wire_chunk (parse_json payload) = Some c"
        "decoded ps' cs'" "qs = ps' @ [''[DONE]'']"
        by (auto simp: decoded_def list_all2_Cons1)
      then have "ends_at ls b1 ps' cs'" using q by (simp add: ends_at_def)
      from Cons.IH [OF this, of "wire_chunk_step c st"] a Some c handle_simps(3) [OF c(2,3)] show ?thesis by simp
    qed
  qed
qed

lemma consume_other:
  "consume_sse (completions_handle je) ins b st = (st', r) \<Longrightarrow> r \<noteq> Some SseDone \<Longrightarrow>
   \<exists>cs. st' = fold wire_chunk_step cs st"
proof (induction ins arbitrary: b st)
  case Nil
  then show ?case by (intro exI [of _ "[]"]) simp
next
  case (Cons i ins)
  have stop: "\<exists>cs. st = fold wire_chunk_step cs st" by (rule exI [of _ "[]"]) simp
  show ?case
  proof (cases i)
    case (LineIn l)
    obtain b1 out where a: "accept_line l b = (b1, out)" by (cases "accept_line l b") auto
    show ?thesis
    proof (cases out)
      case None
      with Cons.IH Cons.prems LineIn a show ?thesis by simp
    next
      case (Some payload)
      show ?thesis
      proof (cases "payload = ''[DONE]'' \<or> unmarshal dec_wire_chunk (parse_json payload) = None")
        case True
        with Cons.prems LineIn a Some have "st' = st"
          using Cons.prems(2) handle_simps(1) handle_simps(2) by (cases "payload = ''[DONE]''") auto
        with stop show ?thesis by simp
      next
        case False
        then obtain c where "unmarshal dec_wire_chunk (parse_json payload) = Some c" by auto
        with Cons.prems LineIn a Some False have "consume_sse (completions_handle je) ins b1 (wire_chunk_step c st) = (st', r)"
          by (simp add: handle_simps)
        from Cons.IH [OF this Cons.prems(2)] obtain cs where "st' = fold wire_chunk_step cs (wire_chunk_step c st)" ..
        then show ?thesis by (intro exI [of _ "c # cs"]) simp
      qed
    qed
  qed (use Cons.prems stop in auto)
qed

lemma unfinished_out: "c \<in> set (cs_out (fold wire_chunk_step cs completions_start)) \<Longrightarrow> sc_type c \<noteq> ChunkFinish"
proof -
  have "translated [] completions_start"
    by (simp add: translated_def completions_start_def key_pieces_def tool_of_def)
  from sends_chunks [OF this, of cs] show "c \<in> set (cs_out (fold wire_chunk_step cs completions_start)) \<Longrightarrow> sc_type c \<noteq> ChunkFinish"
    by (auto simp: sends_def completions_start_def)
qed

text \<open>The finish reason the adapter reports for wire chunks.\<close>

definition reported_reason :: "wire_chunk list \<Rightarrow> string" where
  "reported_reason cs =
     (let reason = (case stream_finish_reason cs of None \<Rightarrow> ''stop'' | Some f \<Rightarrow> map_finish_reason f)
      in if reason = ''stop'' \<and> stream_pieces cs = [] then ''error'' else reason)"

lemma final_reason_reported: "final_reason (fold wire_chunk_step cs completions_start) = reported_reason cs"
proof -
  have t: "translated [] completions_start"
    by (simp add: translated_def completions_start_def key_pieces_def tool_of_def)
  have "first_seen (map piece_key ps) = [] \<longleftrightarrow> ps = []" for ps by (cases ps) auto
  with sends_chunks [OF t, of cs] show ?thesis
    by (simp add: final_reason_def reported_reason_def sends_def translated_def completions_start_def split: option.splits)
qed

section \<open>Properties\<close>

text \<open>The lines up to the one that completes the terminator, the payloads before it and what they decode to.\<close>

definition terminated :: "sse_input list \<Rightarrow> wire_chunk list \<Rightarrow> bool" where
  "terminated ins cs \<longleftrightarrow> (\<exists>ls rest ps. ins = map LineIn ls @ rest \<and> body_payloads ls = ps @ [''[DONE]''] \<and> decoded ps cs)"

lemma finish_sends_one:
  "\<exists>sent. cs_out (completions_finish (fold wire_chunk_step cs completions_start)) =
     sent @ [zero_chunk\<lparr>sc_type := ChunkFinish, sc_finish := reported_reason cs\<rparr>] \<and> (\<forall>c\<in>set sent. sc_type c \<noteq> ChunkFinish)"
proof -
  let ?st = "fold wire_chunk_step cs completions_start"
  have "translated [] completions_start"
    by (simp add: translated_def completions_start_def key_pieces_def tool_of_def)
  from sends_chunks [OF this, of cs] have f: "\<not> cs_finished ?st" by (auto simp: sends_def completions_start_def)
  have e: "sc_type (block_end ?st k) \<noteq> ChunkFinish" for k by (simp add: block_end_def)
  show ?thesis using f unfinished_out e
    by (auto simp: completions_finish_def final_reason_reported zero_chunk_def split: option.split)
qed

text \<open>
  C13. A partial response is never taken for a complete one, and a complete one never for a failure.  Whatever
  the transport does, the adapter ends without an error exactly when its lines complete the event
  \<open>[DONE]\<close> after payloads that all decode.  It then sends one finish chunk, as its last chunk, and
  what it sent assembles, without a nil dereference, to the message those payloads say: blocks in the order
  their keys first appear, each with the text of its own deltas, the last usage and the last finish
  reason.  In every other case it sends no finish chunk.
\<close>
theorem completions_stream_faithful:
  "case stream_completions je ins of (st, r) \<Rightarrow>
     (r = Some SseDone \<longleftrightarrow> (\<exists>cs. terminated ins cs)) \<and>
     (\<forall>cs. terminated ins cs \<longrightarrow>
       (\<exists>sent ba. cs_out st = sent @ [zero_chunk\<lparr>sc_type := ChunkFinish, sc_finish := reported_reason cs\<rparr>] \<and>
          (\<forall>c\<in>set sent. sc_type c \<noteq> ChunkFinish) \<and> ingest_all (cs_out st) new_assembler = Some ba \<and>
          assembler_result ba = (message_blocks (stream_pieces cs), stream_usage cs, reported_reason cs))) \<and>
     (r \<noteq> Some SseDone \<longrightarrow> (\<forall>c\<in>set (cs_out st). sc_type c \<noteq> ChunkFinish))"
proof (cases "stream_completions je ins")
  case (Pair st r)
  note run = Pair [unfolded stream_completions_def]
  have reaches: "r = Some SseDone \<and> st = completions_finish (fold wire_chunk_step cs completions_start)" if "terminated ins cs" for cs
  proof -
    from that obtain ls rest ps where "ins = map LineIn ls @ rest" "ends_at ls new_sse_buffer ps cs"
      by (auto simp: terminated_def ends_at_def body_payloads_accept)
    with consume_reaches [of ls new_sse_buffer ps cs je rest completions_start] run show ?thesis by simp
  qed
  have ended: "\<exists>cs. terminated ins cs" if "r = Some SseDone"
    using consume_done [OF run [unfolded that]] by (auto simp: terminated_def ends_at_def body_payloads_accept)
  have message: "\<exists>sent ba. cs_out st = sent @ [zero_chunk\<lparr>sc_type := ChunkFinish, sc_finish := reported_reason cs\<rparr>] \<and>
      (\<forall>c\<in>set sent. sc_type c \<noteq> ChunkFinish) \<and> ingest_all (cs_out st) new_assembler = Some ba \<and>
      assembler_result ba = (message_blocks (stream_pieces cs), stream_usage cs, reported_reason cs)" if "terminated ins cs" for cs
  proof -
    note at_end = reaches [OF that]
    from stream_assembles [OF refl, of cs] obtain ba where "ingest_all (cs_out st) new_assembler = Some ba"
      "assembler_result ba = (message_blocks (stream_pieces cs), stream_usage cs, reported_reason cs)"
      using at_end final_reason_reported by metis
    with finish_sends_one [of cs] at_end show ?thesis by blast
  qed
  have partial: "\<forall>c\<in>set (cs_out st). sc_type c \<noteq> ChunkFinish" if "r \<noteq> Some SseDone"
    using consume_other [OF run that] unfinished_out by blast
  from reaches ended message partial Pair show ?thesis by auto
qed

definition hi_stream :: "sse_input list" where
  "hi_stream = [LineIn (''data: '' @ [CHR 0x7B, CHR 0x22] @ ''choices'' @ [CHR 0x22] @ '':[{'' @ [CHR 0x22] @ ''delta'' @ [CHR 0x22] @ '':{'' @
     [CHR 0x22] @ ''content'' @ [CHR 0x22] @ '':'' @ [CHR 0x22] @ ''hi'' @ [CHR 0x22] @ ''}}]}''), LineIn [], LineIn ''data: [DONE]'', LineIn []]"

lemma completions_stream_faithful_witness:
  "(\<exists>cs ba. terminated hi_stream cs \<and> ingest_all (cs_out (fst (stream_completions id hi_stream))) new_assembler = Some ba \<and>
     assembler_result ba = (message_blocks (stream_pieces cs), stream_usage cs, reported_reason cs)) \<and>
   list_all (\<lambda>c. sc_type c \<noteq> ChunkFinish) (cs_out (fst (stream_completions id [LineIn ''data: [DONE]'', BodyEof])))"
proof -
  have "map_option (\<lambda>e. e = SseDone) (snd (stream_completions id hi_stream)) = Some True" by code_simp
  then obtain st where st: "stream_completions id hi_stream = (st, Some SseDone)"
    by (cases "stream_completions id hi_stream") auto
  have "map_option (\<lambda>e. e = SseDone) (snd (stream_completions id [LineIn ''data: [DONE]'', BodyEof])) = Some False"
    by code_simp
  then obtain st' e where st': "stream_completions id [LineIn ''data: [DONE]'', BodyEof] = (st', Some (SseFailed e))"
    by (cases "stream_completions id [LineIn ''data: [DONE]'', BodyEof]") (auto, metis sse_end.exhaust)
  note t = completions_stream_faithful [where je = id and ins = hi_stream, unfolded st, simplified]
  note t' = completions_stream_faithful [where je = id and ins = "[LineIn ''data: [DONE]'', BodyEof]", unfolded st', simplified]
  from t obtain cs where cs: "terminated hi_stream cs" by blast
  with t obtain ba where "ingest_all (cs_out st) new_assembler = Some ba"
    "assembler_result ba = (message_blocks (stream_pieces cs), stream_usage cs, reported_reason cs)" by blast
  with cs st st' t' show ?thesis by (auto simp: list_all_iff)
qed

text \<open>A payload that is not a wire chunk is retried as if the transport had failed.\<close>

lemma malformed_payload_is_retried: "classify_llm_error (malformed_chunk je payload) \<noteq> None"
  by (simp add: malformed_chunk_def classify_llm_error_def)

end
