(* ===== verification/Wire_Item_Properties.thy ===== *)
theory Wire_Item_Properties imports Wire_Items Wire_Properties begin

text \<open>
  What the three adapters share: a finish chunk is sent exactly when the stream is done, and nothing
  follows it.  The two translators without block ids assemble correctly when the items of a message
  come one after the other, and not otherwise.
\<close>

section \<open>The contract of a payload handler\<close>

definition unfinished_chunks :: "stream_chunk list \<Rightarrow> bool" where
  "unfinished_chunks cs \<longleftrightarrow> (\<forall>c\<in>set cs. sc_type c \<noteq> ChunkFinish)"

lemma unfinished_simps [simp]:
  "unfinished_chunks []" "unfinished_chunks (c # cs) \<longleftrightarrow> sc_type c \<noteq> ChunkFinish \<and> unfinished_chunks cs"
  "unfinished_chunks (xs @ ys) \<longleftrightarrow> unfinished_chunks xs \<and> unfinished_chunks ys"
  by (auto simp: unfinished_chunks_def)

text \<open>\<open>ys\<close> is \<open>xs\<close> with more chunks; a finish chunk is among them exactly when \<open>d\<close>, and then it is the last.\<close>

definition sent_on :: "bool \<Rightarrow> stream_chunk list \<Rightarrow> stream_chunk list \<Rightarrow> bool" where
  "sent_on d xs ys \<longleftrightarrow> (\<exists>new. ys = xs @ new \<and>
     (if d then new \<noteq> [] \<and> unfinished_chunks (butlast new) \<and> sc_type (last new) = ChunkFinish else unfinished_chunks new))"

lemma sent_on_refl [simp]: "sent_on False xs xs"
  by (simp add: sent_on_def)

lemma sent_on_trans: "sent_on False xs ys \<Longrightarrow> sent_on d ys zs \<Longrightarrow> sent_on d xs zs"
  by (cases d) (auto simp: sent_on_def butlast_append)

lemma sent_on_finish:
  "unfinished_chunks new \<Longrightarrow> sc_type f = ChunkFinish \<Longrightarrow> sent_on True xs (xs @ new @ [f])"
  unfolding sent_on_def by (rule exI [of _ "new @ [f]"]) (simp add: butlast_append)

locale payload_handler =
  fixes handle :: "string \<Rightarrow> 's \<Rightarrow> 's \<times> (llm_error + bool)"
    and sent :: "'s \<Rightarrow> stream_chunk list"
    and running :: "'s \<Rightarrow> bool"
  assumes handled: "running s \<Longrightarrow> handle p s = (s', r) \<Longrightarrow>
      sent_on (r = Inr True) (sent s) (sent s') \<and> (r \<noteq> Inr True \<longrightarrow> running s')"
begin

lemma consume_finishes_once:
  "running s \<Longrightarrow> consume_sse handle ins b s = (s', r) \<Longrightarrow> sent_on (r = Some SseDone) (sent s) (sent s')"
proof (induction ins arbitrary: b s)
  case (Cons i ins)
  show ?case
  proof (cases i)
    case (LineIn l)
    obtain b1 out where a: "accept_line l b = (b1, out)" by (cases "accept_line l b") auto
    show ?thesis
    proof (cases out)
      case None
      with Cons.prems(2) LineIn a have "consume_sse handle ins b1 s = (s', r)" by simp
      from Cons.IH [OF Cons.prems(1) this] show ?thesis .
    next
      case (Some p)
      obtain s1 r1 where h: "handle p s = (s1, r1)" by (cases "handle p s") auto
      note hd = handled [OF Cons.prems(1) h]
      consider e where "r1 = Inl e" | "r1 = Inr True" | "r1 = Inr False" by (cases r1) auto
      then show ?thesis
      proof cases
        case 3
        with h Cons.prems(2) LineIn a Some have "consume_sse handle ins b1 s1 = (s', r)" by simp
        with Cons.IH [OF _ this] hd 3 show ?thesis by (auto intro: sent_on_trans)
      qed (use hd h Cons.prems(2) LineIn a Some in auto)
    qed
  qed (use Cons.prems in auto)
qed simp

end

section \<open>The three handlers\<close>

definition translating :: "completions_state \<Rightarrow> bool" where
  "translating st \<longleftrightarrow> (\<exists>ps. translated ps st) \<and> \<not> cs_finished st"

lemma unfinished_ends: "unfinished_chunks (map (block_end st) ks)" "unfinished_chunks (map end_chunk is)"
  by (auto simp: unfinished_chunks_def block_end_def end_chunk_def)

lemma completions_finish_sent: "\<not> cs_finished st \<Longrightarrow> sent_on True (cs_out st) (cs_out (completions_finish st))"
  using sent_on_finish [of "map (block_end st) [0..<length (cs_order st)] @
      (case cs_usage st of None \<Rightarrow> [] | Some u \<Rightarrow> [zero_chunk\<lparr>sc_type := ChunkUsage, sc_usage := Some u\<rparr>])"
    "zero_chunk\<lparr>sc_type := ChunkFinish, sc_finish := final_reason st\<rparr>" "cs_out st"]
  by (simp add: completions_finish_def unfinished_ends zero_chunk_def split: option.splits)

interpretation completions_handler: payload_handler "completions_handle je" cs_out translating
  for je :: "string \<Rightarrow> string"
proof unfold_locales
  fix s s' :: completions_state and p :: string and r :: "llm_error + bool"
  assume r: "translating s" "completions_handle je p s = (s', r)"
  show "sent_on (r = Inr True) (cs_out s) (cs_out s') \<and> (r \<noteq> Inr True \<longrightarrow> translating s')"
  proof (cases "p = ''[DONE]''")
    case True
    with r handle_simps(1) [of je s] completions_finish_sent [of s] show ?thesis by (auto simp: translating_def)
  next
    case p: False
    show ?thesis
    proof (cases "unmarshal dec_wire_chunk (parse_json p)")
      case None
      with r handle_simps(2) [OF p] show ?thesis by auto
    next
      case (Some c)
      from r(1) obtain ps where "translated ps s" "\<not> cs_finished s" by (auto simp: translating_def)
      with sends_chunks [of ps s "[c]"] r(2) handle_simps(3) [OF p Some] show ?thesis
        by (auto simp: translating_def sends_def unfinished_chunks_def sent_on_def)
    qed
  qed
qed

definition extends :: "items_state \<Rightarrow> items_state \<Rightarrow> bool" where
  "extends st st' \<longleftrightarrow> is_finished st' = is_finished st \<and> sent_on False (is_out st) (is_out st')"

named_theorems item_steps \<open>steps of a translator that only extend what was sent\<close>

lemma extends_refl [item_steps]: "extends st st"
  by (simp add: extends_def)

lemma extends_trans: "extends a b \<Longrightarrow> extends b c \<Longrightarrow> extends a c"
  by (auto simp: extends_def intro: sent_on_trans)

lemma extends_frame [simp]:
  "extends (st\<lparr>is_saw_tool := t\<rparr>) st' = extends st st'" "extends (st\<lparr>is_finish := f\<rparr>) st' = extends st st'"
  "extends st (st'\<lparr>is_saw_tool := t\<rparr>) = extends st st'"
  "extends st (st'\<lparr>is_usage := u\<rparr>) = extends st st'" "extends st (st'\<lparr>is_finish := f\<rparr>) = extends st st'"
  "extends st (st'\<lparr>is_opened := ops\<rparr>) = extends st st'" "extends st (st'\<lparr>is_count := n\<rparr>) = extends st st'"
  by (simp_all add: extends_def)

lemma extends_emits [item_steps]:
  "extends st (emit_is (text_chunk ChunkTextDelta i t) st)" "extends st (emit_is (text_chunk ChunkReasoningDelta i t) st)"
  "extends st (emit_is (args_chunk i cid nm a) st)" "extends st (close_index i st)" "extends st (open_item i sl st)"
  "extends st (apply_usage u st)"
  by (simp_all add: extends_def sent_on_def emit_is_def text_chunk_def args_chunk_def close_index_def open_item_def
      apply_usage_def end_chunk_def begin_chunk_def zero_chunk_def Let_def)

lemma extends_ensure [item_steps]: "extends st (ensure_item i k cid nm st)"
  using extends_trans [OF extends_emits(4) extends_emits(5)]
  by (auto simp: ensure_item_def intro: item_steps split: option.split)

text \<open>The same steps after a change of a flag, an opening or an \<open>ensure\<close>.\<close>

lemma extends_after [item_steps]:
  "extends st (apply_usage u (st\<lparr>is_finish := f\<rparr>))"
  "extends st (emit_is (text_chunk ChunkTextDelta i t) (open_item i sl st))"
  "extends st (ensure_item i k cid nm (st\<lparr>is_saw_tool := b\<rparr>))" "extends st (close_index i (st\<lparr>is_saw_tool := b\<rparr>))"
  "extends st (emit_is (text_chunk ChunkTextDelta i t) (ensure_item i k cid nm st))"
  "extends st (emit_is (text_chunk ChunkReasoningDelta i t) (ensure_item i k cid nm st))"
  "extends st (emit_is (args_chunk i cid nm a) (ensure_item i k cid' nm' (st\<lparr>is_saw_tool := b\<rparr>)))"
proof -
  show "extends st (apply_usage u (st\<lparr>is_finish := f\<rparr>))" using extends_emits(6) [of "st\<lparr>is_finish := f\<rparr>" u] by simp
  show tool: "extends st (ensure_item i k cid nm (st\<lparr>is_saw_tool := b\<rparr>))" for cid nm
    using extends_ensure [of "st\<lparr>is_saw_tool := b\<rparr>" i k cid nm] by simp
  show "extends st (close_index i (st\<lparr>is_saw_tool := b\<rparr>))" using extends_emits(4) [of "st\<lparr>is_saw_tool := b\<rparr>" i] by simp
  show "extends st (emit_is (args_chunk i cid nm a) (ensure_item i k cid' nm' (st\<lparr>is_saw_tool := b\<rparr>)))"
    by (rule extends_trans [OF tool extends_emits(3)])
qed (rule extends_trans [OF _ extends_emits(1)] extends_trans [OF _ extends_emits(2)]; rule item_steps)+

lemma extends_messages: "messages_event pick ev st = (st', False) \<Longrightarrow> extends st st'"
  by (auto simp: messages_event_def messages_delta_def Let_def intro!: item_steps split: if_splits option.splits)

lemma extends_responses: "responses_event pick ev st = (st', False) \<Longrightarrow> extends st st'"
  by (auto simp: responses_event_def Let_def intro!: item_steps split: if_splits option.splits)

lemma close_all_simps [simp]:
  "is_finished (close_all pick st) = is_finished st"
  "is_out (close_all pick st) = is_out st @ map end_chunk (pick (map fst (is_opened st)))"
  by (simp_all add: close_all_def)

lemma finish_sends: "sent_on True (is_out st) (is_out (send_tail reason (close_all pick st)))"
  using sent_on_finish [of "map end_chunk (pick (map fst (is_opened st))) @
      (case is_usage st of None \<Rightarrow> [] | Some u \<Rightarrow> [zero_chunk\<lparr>sc_type := ChunkUsage, sc_usage := Some u\<rparr>])"
    "zero_chunk\<lparr>sc_type := ChunkFinish, sc_finish := reason\<rparr>" "is_out st"]
  by (simp add: send_tail_def close_all_def unfinished_ends zero_chunk_def split: option.splits)

lemma finishes_sent:
  "\<not> is_finished st \<Longrightarrow> sent_on True (is_out st) (is_out (messages_finish pick st))"
  "\<not> is_finished st \<Longrightarrow> sent_on True (is_out st) (is_out (responses_finish pick st))"
  using finish_sends [of "st\<lparr>is_finished := True\<rparr>"] by (simp_all add: messages_finish_def responses_finish_def Let_def)

lemma events_done:
  "messages_event pick ev st = (st', True) \<Longrightarrow> st' = messages_finish pick st"
  by (auto simp: messages_event_def Let_def split: if_splits option.splits)

lemma usage_frame [simp]: "is_out (apply_usage u st) = is_out st" "is_finished (apply_usage u st) = is_finished st"
  by (simp_all add: apply_usage_def Let_def)

lemma response_sends:
  assumes "responses_event pick re st = (st', True)" "\<not> is_finished st"
  shows "sent_on True (is_out st) (is_out st')"
proof -
  have fin: "sent_on True (is_out st) (is_out (responses_finish pick st1))"
    if "is_out st1 = is_out st" "is_finished st1 = is_finished st" for st1
    using finishes_sent(2) [of st1 pick] assms(2) that by simp
  from assms(1) show ?thesis
    by (auto simp: responses_event_def Let_def intro!: fin split: if_splits option.splits)
qed

interpretation messages_handler: payload_handler "messages_handle je pick" is_out "\<lambda>st. \<not> is_finished st"
  for je :: "string \<Rightarrow> string" and pick :: "int list \<Rightarrow> int list"
proof unfold_locales
  fix s s' :: items_state and p :: string and r :: "llm_error + bool"
  assume r: "\<not> is_finished s" "messages_handle je pick p s = (s', r)"
  show "sent_on (r = Inr True) (is_out s) (is_out s') \<and> (r \<noteq> Inr True \<longrightarrow> \<not> is_finished s')"
  proof (cases "p = ''[DONE]''")
    case True
    with r finishes_sent(1) [OF r(1)] show ?thesis by (auto simp: messages_handle_def)
  next
    case p: False
    show ?thesis
    proof (cases "unmarshal dec_message_event (parse_json p)")
      case None
      with r p show ?thesis by (auto simp: messages_handle_def)
    next
      case (Some ev)
      obtain st1 d where e: "messages_event pick ev s = (st1, d)" by (cases "messages_event pick ev s") auto
      with r p Some have "s' = st1" "r = Inr d" by (simp_all add: messages_handle_def)
      with e r(1) finishes_sent(1) [OF r(1)] show ?thesis
        by (cases d) (auto dest: events_done extends_messages simp: extends_def)
    qed
  qed
qed

interpretation responses_handler: payload_handler "responses_handle je pick" is_out "\<lambda>st. \<not> is_finished st"
  for je :: "string \<Rightarrow> string" and pick :: "int list \<Rightarrow> int list"
proof unfold_locales
  fix s s' :: items_state and p :: string and r :: "llm_error + bool"
  assume r: "\<not> is_finished s" "responses_handle je pick p s = (s', r)"
  show "sent_on (r = Inr True) (is_out s) (is_out s') \<and> (r \<noteq> Inr True \<longrightarrow> \<not> is_finished s')"
  proof (cases "p = ''[DONE]''")
    case True
    with r finishes_sent(2) [OF r(1)] show ?thesis by (auto simp: responses_handle_def)
  next
    case p: False
    show ?thesis
    proof (cases "unmarshal dec_response_event (parse_json p)")
      case None
      with r p show ?thesis by (auto simp: responses_handle_def)
    next
      case (Some ev)
      obtain st1 d where e: "responses_event pick ev s = (st1, d)" by (cases "responses_event pick ev s") auto
      with r p Some have eq: "s' = st1" "r = Inr d" by (simp_all add: responses_handle_def)
      show ?thesis
      proof (cases d)
        case True
        with e eq response_sends [of pick ev s st1] r(1) show ?thesis by simp
      next
        case False
        with e eq r(1) extends_responses [of pick ev s st1] show ?thesis by (simp add: extends_def)
      qed
    qed
  qed
qed

section \<open>Items one after the other\<close>

datatype wire_part = TextPart string "string list" | ThinkPart "string list" | CallPart string string "string list"

definition item_event :: "string \<Rightarrow> int \<Rightarrow> message_event" where
  "item_event ty i = \<lparr>me_type = ty, me_index = i, me_block = None, me_delta = None, me_usage = None, me_message = None\<rparr>"

definition delta_of :: "string \<Rightarrow> string \<Rightarrow> string \<Rightarrow> string \<Rightarrow> message_delta" where
  "delta_of ty t th a = \<lparr>md_type = ty, md_text = t, md_thinking = th, md_partial = a, md_stop = []\<rparr>"

fun part_start :: "wire_part \<Rightarrow> content_start" where
  "part_start (TextPart t _) = \<lparr>ct_type = ''text'', ct_id = [], ct_name = [], ct_text = t\<rparr>"
| "part_start (ThinkPart _) = \<lparr>ct_type = ''thinking'', ct_id = [], ct_name = [], ct_text = []\<rparr>"
| "part_start (CallPart cid nm _) = \<lparr>ct_type = ''tool_use'', ct_id = cid, ct_name = nm, ct_text = []\<rparr>"

fun part_deltas :: "wire_part \<Rightarrow> message_delta list" where
  "part_deltas (TextPart _ ds) = map (\<lambda>d. delta_of ''text_delta'' d [] []) ds"
| "part_deltas (ThinkPart ds) = map (\<lambda>d. delta_of ''thinking_delta'' [] d []) ds"
| "part_deltas (CallPart _ _ ds) = map (\<lambda>d. delta_of ''input_json_delta'' [] [] d) ds"

definition part_events :: "int \<times> wire_part \<Rightarrow> message_event list" where
  "part_events ip = (case ip of (i, p) \<Rightarrow>
     (item_event ''content_block_start'' i)\<lparr>me_block := Some (part_start p)\<rparr> #
     map (\<lambda>d. (item_event ''content_block_delta'' i)\<lparr>me_delta := Some d\<rparr>) (part_deltas p) @
     [item_event ''content_block_stop'' i])"

fun part_block :: "wire_part \<Rightarrow> content_block" where
  "part_block (TextPart t ds) = text_only_block ''text'' (t @ concat ds)"
| "part_block (ThinkPart ds) = text_only_block ''reasoning'' (concat ds)"
| "part_block (CallPart cid nm ds) = ContentBlock ''tool-call'' [] [] [] cid nm (concat ds) [] False []"

definition messages_run :: "(int list \<Rightarrow> int list) \<Rightarrow> message_event list \<Rightarrow> items_state \<Rightarrow> items_state" where
  "messages_run pick evs st = fold (\<lambda>ev st. fst (messages_event pick ev st)) evs st"

text \<open>
  Between two events: the open indices, the blocks an assembler of the chunks sent so far has
  finished, and its anonymous block.
\<close>

definition streaming :: "items_state \<Rightarrow> (int \<times> slot) list \<Rightarrow> content_block list \<Rightarrow> content_block option \<Rightarrow> bool" where
  "streaming st ops bs ob \<longleftrightarrow> is_opened st = ops \<and> \<not> is_finished st \<and> is_finish st = ''stop'' \<and> is_usage st = None \<and>
     (\<exists>ba. ingest_all (is_out st) new_assembler = Some ba \<and> ba_open_order ba = [] \<and> ba_legacy ba = ob \<and> ba_blocks ba = bs \<and>
       ba_usage ba = None)"

lemmas item_chunks = emit_is_def begin_chunk_def end_chunk_def text_chunk_def args_chunk_def zero_chunk_def

lemmas anonymous_ingest = ingest_chunk_def ingest_start_def ingest_delta_def ingest_call_def ingest_end_def
  chunk_target_def commit_legacy_def started_block_def

lemma messages_event_simps:
  "messages_event pick ((item_event ''content_block_start'' i)\<lparr>me_block := Some b\<rparr>) st =
    ((case content_kind b of None \<Rightarrow> st
      | Some sl \<Rightarrow> (let st1 = open_item i sl st in
          if sl_kind sl = ''text'' \<and> ct_text b \<noteq> [] then emit_is (text_chunk ChunkTextDelta i (ct_text b)) st1 else st1)), False)"
  "messages_event pick ((item_event ''content_block_delta'' i)\<lparr>me_delta := Some d\<rparr>) st = (messages_delta i d st, False)"
  "messages_event pick (item_event ''content_block_stop'' i) st = (close_index i st, False)"
  "messages_event pick (item_event ''message_stop'' 0) st = (messages_finish pick st, True)"
  by (simp_all add: messages_event_def item_event_def Let_def split: option.split)

text \<open>The block after the first deltas \<open>ds\<close> of an item.\<close>

fun part_prefix :: "wire_part \<Rightarrow> string list \<Rightarrow> wire_part" where
  "part_prefix (TextPart t _) ds = TextPart t ds"
| "part_prefix (ThinkPart _) ds = ThinkPart ds"
| "part_prefix (CallPart cid nm _) ds = CallPart cid nm ds"

fun part_pieces :: "wire_part \<Rightarrow> string list" where
  "part_pieces (TextPart _ ds) = ds" | "part_pieces (ThinkPart ds) = ds" | "part_pieces (CallPart _ _ ds) = ds"

fun part_delta :: "wire_part \<Rightarrow> string \<Rightarrow> message_delta" where
  "part_delta (TextPart _ _) d = delta_of ''text_delta'' d [] []"
| "part_delta (ThinkPart _) d = delta_of ''thinking_delta'' [] d []"
| "part_delta (CallPart _ _ _) d = delta_of ''input_json_delta'' [] [] d"

fun part_slot :: "wire_part \<Rightarrow> slot" where
  "part_slot (TextPart _ _) = \<lparr>sl_kind = ''text'', sl_id = [], sl_name = []\<rparr>"
| "part_slot (ThinkPart _) = \<lparr>sl_kind = ''reasoning'', sl_id = [], sl_name = []\<rparr>"
| "part_slot (CallPart cid nm _) = \<lparr>sl_kind = ''tool-call'', sl_id = cid, sl_name = nm\<rparr>"

lemma part_deltas_eq: "part_deltas p = map (part_delta p) (part_pieces p)" "part_prefix p (part_pieces p) = p"
  by (cases p; simp add: fun_eq_iff)+

definition start_part :: "int \<Rightarrow> wire_part \<Rightarrow> items_state \<Rightarrow> items_state" where
  "start_part i p st = fst (messages_event id ((item_event ''content_block_start'' i)\<lparr>me_block := Some (part_start p)\<rparr>) st)"

lemma part_started:
  assumes "streaming st [] bs None"
  shows "streaming (start_part i p st) [(i, part_slot p)] bs (Some (part_block (part_prefix p []))) \<and>
    is_count (start_part i p st) = is_count st + 1"
  using assms
  by (cases p) (auto simp: start_part_def streaming_def messages_event_simps content_kind_def open_item_def item_chunks
      ingest_all_append anonymous_ingest text_only_block_def Let_def)

lemma part_continued:
  assumes "streaming st [(i, part_slot p)] bs (Some (part_block (part_prefix p ds)))"
  shows "streaming (messages_delta i (part_delta p d) st) [(i, part_slot p)] bs (Some (part_block (part_prefix p (ds @ [d])))) \<and>
    is_count (messages_delta i (part_delta p d) st) = is_count st"
  using assms
  by (cases p) (auto simp: streaming_def messages_delta_def delta_of_def item_chunks ingest_all_append
      anonymous_ingest text_only_block_def Let_def)

lemma part_streamed:
  assumes "streaming st [(i, part_slot p)] bs (Some (part_block (part_prefix p ds)))"
  shows "streaming (fold (messages_delta i) (map (part_delta p) ds') st) [(i, part_slot p)] bs
      (Some (part_block (part_prefix p (ds @ ds')))) \<and>
    is_count (fold (messages_delta i) (map (part_delta p) ds') st) = is_count st"
  using assms
proof (induction ds' arbitrary: ds st)
  case (Cons d ds')
  with part_continued [OF Cons.prems, of d] Cons.IH [of "messages_delta i (part_delta p d) st" "ds @ [d]"] show ?case
    by simp
qed simp

lemma part_closed:
  assumes "streaming st [(i, part_slot p)] bs (Some b)"
  shows "streaming (close_index i st) [] (bs @ [b]) None \<and> is_count (close_index i st) = is_count st"
  using assms
  by (auto simp: streaming_def close_index_def item_chunks ingest_all_append anonymous_ingest)

lemma run_append: "messages_run pick (xs @ ys) st = messages_run pick ys (messages_run pick xs st)"
  by (simp add: messages_run_def)

lemma part_run:
  assumes "streaming st [] bs None"
  shows "streaming (messages_run pick (part_events (i, p)) st) [] (bs @ [part_block p]) None \<and>
    is_count (messages_run pick (part_events (i, p)) st) = is_count st + 1"
proof -
  let ?s1 = "start_part i p st"
  let ?s2 = "fold (messages_delta i) (map (part_delta p) (part_pieces p)) ?s1"
  have "fst (messages_event pick ((item_event ''content_block_start'' i)\<lparr>me_block := Some (part_start p)\<rparr>) st) = ?s1"
    by (simp add: start_part_def messages_event_simps)
  moreover have "messages_run pick (map (\<lambda>d. (item_event ''content_block_delta'' i)\<lparr>me_delta := Some d\<rparr>) ds) s =
      fold (messages_delta i) ds s" for ds s
    by (induction ds arbitrary: s) (simp_all add: messages_run_def messages_event_simps)
  ultimately have run: "messages_run pick (part_events (i, p)) st = close_index i ?s2"
    by (simp add: part_events_def part_deltas_eq messages_run_def messages_event_simps del: map_map)
  from part_started [OF assms, of i p] have "streaming ?s1 [(i, part_slot p)] bs (Some (part_block (part_prefix p [])))"
    and c1: "is_count ?s1 = is_count st + 1" by auto
  from part_streamed [OF this(1), of "part_pieces p"]
  have s2: "streaming ?s2 [(i, part_slot p)] bs (Some (part_block p))" "is_count ?s2 = is_count ?s1"
    by (simp_all add: part_deltas_eq)
  from part_closed [OF s2(1)] s2(2) c1 run show ?thesis by simp
qed

lemma parts_run:
  "streaming st [] bs None \<Longrightarrow>
   streaming (messages_run pick (concat (map part_events ips)) st) [] (bs @ map (part_block \<circ> snd) ips) None \<and>
   is_count (messages_run pick (concat (map part_events ips)) st) = is_count st + length ips"
proof (induction ips arbitrary: st bs)
  case Nil
  then show ?case by (simp add: messages_run_def)
next
  case (Cons ip ips)
  obtain i p where ip: "ip = (i, p)" by (cases ip)
  from part_run [OF Cons.prems, of pick i p] Cons.IH [of "messages_run pick (part_events ip) st" "bs @ [part_block p]"]
  show ?case by (simp add: ip run_append)
qed

text \<open>The event that carries the stop reason.\<close>

definition stop_event :: "string \<Rightarrow> message_event" where
  "stop_event s = (item_event ''message_delta'' 0)\<lparr>me_delta :=
     Some \<lparr>md_type = [], md_text = [], md_thinking = [], md_partial = [], md_stop = s\<rparr>\<rparr>"

lemma stop_event_step:
  "is_finish st = ''stop'' \<Longrightarrow> fst (messages_event pick (stop_event s) st) = st\<lparr>is_finish := map_anthropic_stop s\<rparr>"
  by (simp add: stop_event_def item_event_def messages_event_def map_anthropic_stop_def)

lemma stopped:
  assumes "streaming st [] bs None" "pick [] = []"
  shows "\<exists>ba. ingest_all (is_out (messages_finish pick (st\<lparr>is_finish := r\<rparr>))) new_assembler = Some ba \<and>
    assembler_result ba = (bs, None, if r = ''stop'' \<and> is_count st = 0 then ''error'' else r)"
proof -
  from assms(1) obtain ba where "ingest_all (is_out st) new_assembler = Some ba" "ba_open_order ba = []"
    "ba_legacy ba = None" "ba_blocks ba = bs" "ba_usage ba = None" by (auto simp: streaming_def)
  with assms show ?thesis
    by (auto simp: streaming_def messages_finish_def close_all_def send_tail_def zero_chunk_def ingest_all_append
        ingest_chunk_def ingest_finish_def commit_legacy_def assembler_result_def Let_def)
qed

lemma streaming_start: "streaming (items_start ''stop'') [] [] None"
  by (simp add: streaming_def items_start_def new_assembler_def)

section \<open>Properties\<close>

text \<open>
  C21. The three adapters agree on how a stream ends: whatever lines and transport events arrive, what they
  send contains a finish chunk exactly when the consumer reports that the stream is done, there is one
  of them, and it is the last chunk.  A stream that breaks off, a malformed payload and a line that is too
  long leave no finish chunk behind.
\<close>
theorem adapters_finish_once:
  "(case stream_completions je ins of (st, r) \<Rightarrow> sent_on (r = Some SseDone) [] (cs_out st)) \<and>
   (case stream_messages je pick ins of (st, r) \<Rightarrow> sent_on (r = Some SseDone) [] (is_out st)) \<and>
   (case stream_responses je pick ins of (st, r) \<Rightarrow> sent_on (r = Some SseDone) [] (is_out st))"
proof -
  have c: "translating completions_start"
    by (auto simp: translating_def translated_def completions_start_def key_pieces_def tool_of_def intro!: exI [of _ "[]"])
  have m: "\<not> is_finished (items_start s)" "is_out (items_start s) = []" for s by (simp_all add: items_start_def)
  have "cs_out completions_start = []" by (simp add: completions_start_def)
  with completions_handler.consume_finishes_once [OF c] messages_handler.consume_finishes_once [OF m(1)]
    responses_handler.consume_finishes_once [OF m(1)] m(2)
  show ?thesis
    unfolding stream_completions_def stream_messages_def stream_responses_def by (auto split: prod.split)
qed

text \<open>
  The Messages translator and the assembler together, on a stream whose content blocks come one after the
  other: each item is one block of the message, in the order of the stream, with the text, the reasoning or the
  arguments of its own deltas joined; the indices play no part, they may repeat.  A \<open>stop\<close> without any
  item is reported as an error.
\<close>
theorem messages_sequence_assembles:
  assumes "\<And>ks. mset (pick ks) = mset ks"
  shows "\<exists>ba. ingest_all (is_out (messages_run pick (concat (map part_events ips) @ [stop_event s, item_event ''message_stop'' 0])
        (items_start ''stop''))) new_assembler = Some ba \<and>
    assembler_result ba = (map (part_block \<circ> snd) ips, None,
      if map_anthropic_stop s = ''stop'' \<and> ips = [] then ''error'' else map_anthropic_stop s)"
proof -
  let ?st = "messages_run pick (concat (map part_events ips)) (items_start ''stop'')"
  from assms [of "[]"] have pick: "pick [] = []" by simp
  from parts_run [OF streaming_start, of pick ips]
  have st: "streaming ?st [] (map (part_block \<circ> snd) ips) None" "is_count ?st = length ips"
    by (simp_all add: items_start_def)
  then have "messages_run pick (concat (map part_events ips) @ [stop_event s, item_event ''message_stop'' 0])
      (items_start ''stop'') = messages_finish pick (?st\<lparr>is_finish := map_anthropic_stop s\<rparr>)"
    by (simp add: run_append) (simp add: messages_run_def stop_event_step messages_event_simps streaming_def)
  with stopped [where pick = pick, OF st(1) pick, of "map_anthropic_stop s"] st(2) show ?thesis by simp
qed

lemma messages_sequence_assembles_witness:
  "\<exists>ba. ingest_all (is_out (messages_run id (concat (map part_events
        [(0, ThinkPart [''hm'']), (1, CallPart ''c1'' ''read'' [''{'', ''}''])]) @ [stop_event ''tool_use'', item_event ''message_stop'' 0])
      (items_start ''stop''))) new_assembler = Some ba \<and>
    assembler_result ba = ([text_only_block ''reasoning'' ''hm'',
      ContentBlock ''tool-call'' [] [] [] ''c1'' ''read'' ''{}'' [] False []], None, ''tool-calls'')"
  using messages_sequence_assembles [of id "[(0, ThinkPart [''hm'']), (1, CallPart ''c1'' ''read'' [''{'', ''}''])]" "''tool_use''"]
  by (simp add: map_anthropic_stop_def)

section \<open>What the order of the items changes\<close>

text \<open>
  The chunks carry an index but no block id, so two items that are open at once share the anonymous block: the text of
  the first goes to the second.
\<close>

definition interleaved_events :: "message_event list" where
  "interleaved_events =
     [(item_event ''content_block_start'' 0)\<lparr>me_block := Some (part_start (TextPart [] []))\<rparr>,
      (item_event ''content_block_start'' 1)\<lparr>me_block := Some (part_start (CallPart ''c1'' ''read'' []))\<rparr>,
      (item_event ''content_block_delta'' 0)\<lparr>me_delta := Some (delta_of ''text_delta'' ''hi'' [] [])\<rparr>,
      (item_event ''content_block_delta'' 1)\<lparr>me_delta := Some (delta_of ''input_json_delta'' [] [] ''{}'')\<rparr>,
      item_event ''content_block_stop'' 0, item_event ''content_block_stop'' 1, item_event ''message_stop'' 0]"

lemma interleaved_items_mix:
  "map_option (fst \<circ> assembler_result)
     (ingest_all (is_out (messages_run id interleaved_events (items_start ''stop''))) new_assembler) =
   Some [text_only_block ''text'' [], ContentBlock ''tool-call'' ''hi'' [] [] ''c1'' ''read'' ''{}'' [] False []]"
  by code_simp

text \<open>
  A content block of a type the adapter does not know opens nothing, but its deltas are still sent: after the block before it
  has ended they become a tool call without an id and a name.
\<close>

definition unknown_item_events :: "message_event list" where
  "unknown_item_events =
     part_events (0, TextPart [] [''ok'']) @
     [(item_event ''content_block_start'' 1)\<lparr>me_block :=
        Some \<lparr>ct_type = ''server_tool_use'', ct_id = ''s1'', ct_name = ''web_search'', ct_text = []\<rparr>\<rparr>,
      (item_event ''content_block_delta'' 1)\<lparr>me_delta := Some (delta_of ''input_json_delta'' [] [] ''{}'')\<rparr>,
      item_event ''content_block_stop'' 1, item_event ''message_stop'' 0]"

lemma unknown_item_leaves_call:
  "map_option (fst \<circ> assembler_result)
     (ingest_all (is_out (messages_run id unknown_item_events (items_start ''stop''))) new_assembler) =
   Some [text_only_block ''text'' ''ok'', ContentBlock ''tool-call'' [] [] [] [] [] ''{}'' [] False []]"
  by code_simp

end
