(* ===== verification/Wire_Requests.thy ===== *)
theory Wire_Requests imports Session_Events Json_Text begin

text \<open>
  The bodies the three adapters post: \<open>buildDeepSeekRequest\<close> (\<open>pkg/llm/openai_completions.go\<close>),
  \<open>buildAnthropicRequest\<close> (\<open>pkg/llm/anthropic.go\<close>) and \<open>buildResponsesRequest\<close>
  (\<open>pkg/llm/openai_responses.go\<close>).  Maps with fixed keys are records and datatypes here; a
  temperature is only passed on, its type is a parameter.
\<close>

section \<open>The request of the loop\<close>

record tool_declaration =
  td_name :: string
  td_description :: string
  td_parameters :: string

record 't adapter_request =
  ar_model :: string
  ar_messages :: "model_message list"
  ar_system :: string
  ar_temperature :: "'t option"
  ar_max_tokens :: int
  ar_tools :: "tool_declaration list"
  ar_effort :: string
  ar_session :: string
  ar_purpose :: string

definition default_max_tokens :: int where "default_max_tokens = 262144"

definition default_reasoning_effort :: string where "default_reasoning_effort = ''high''"

definition effective_max_tokens_for :: "int \<Rightarrow> bool \<Rightarrow> int" where
  "effective_max_tokens_for max_tokens require_field =
     (if 0 < max_tokens then max_tokens else if require_field then default_max_tokens else 0)"

text \<open>The schema of a tool without parameters.\<close>

definition empty_schema :: string where
  "empty_schema = ''{'' @ [CHR 0x22] @ ''type'' @ [CHR 0x22] @ '':'' @ [CHR 0x22] @ ''object'' @ [CHR 0x22] @ '','' @
     [CHR 0x22] @ ''properties'' @ [CHR 0x22] @ '':{}}''"

definition schema_or_empty :: "string \<Rightarrow> string" where
  "schema_or_empty s = (if s = [] then empty_schema else s)"

section \<open>Blocks\<close>

definition flatten_text_blocks :: "content_block list \<Rightarrow> string" where
  "flatten_text_blocks bs = concat (map cb_text (filter (\<lambda>b. cb_type b = ''text'') bs))"

fun has_image :: "content_block \<Rightarrow> bool" where
  "has_image (ContentBlock ty tx att mime cid nm args tcid err content) \<longleftrightarrow> ty = ''image'' \<or> list_ex has_image content"

definition contains_image_block :: "content_block list \<Rightarrow> bool" where
  "contains_image_block bs \<longleftrightarrow> list_ex has_image bs"

text \<open>\<open>False\<close> is the panic.\<close>

definition assert_text_only_blocks :: "content_block list \<Rightarrow> bool" where
  "assert_text_only_blocks bs \<longleftrightarrow> \<not> list_ex (\<lambda>b. cb_type b = ''image'' \<or> contains_image_block (cb_content b)) bs"

definition result_text :: "content_block \<Rightarrow> string" where
  "result_text b = (let t = flatten_text_blocks (cb_content b) in if t = [] then ''(no output)'' else t)"

section \<open>Chat Completions\<close>

record wire_call =
  wl_id :: string
  wl_name :: string
  wl_arguments :: string

record deepseek_message =
  dm_role :: string
  dm_content :: string
  dm_call_id :: string
  dm_calls :: "wire_call list"
  dm_reasoning :: string

definition deepseek_text :: "string \<Rightarrow> string \<Rightarrow> deepseek_message" where
  "deepseek_text role t = \<lparr>dm_role = role, dm_content = t, dm_call_id = [], dm_calls = [], dm_reasoning = []\<rparr>"

definition wire_call_of :: "content_block \<Rightarrow> wire_call" where
  "wire_call_of b = \<lparr>wl_id = cb_id b, wl_name = cb_name b, wl_arguments = cb_arguments b\<rparr>"

definition deepseek_assistant :: "content_block list \<Rightarrow> deepseek_message" where
  "deepseek_assistant bs =
     (deepseek_text ''assistant'' (flatten_text_blocks bs))\<lparr>
       dm_calls := map wire_call_of (filter (\<lambda>b. cb_type b = ''tool-call'') bs),
       dm_reasoning := concat (map cb_text (filter (\<lambda>b. cb_type b = ''reasoning'') bs))\<rparr>"

definition deepseek_results :: "content_block list \<Rightarrow> deepseek_message list" where
  "deepseek_results bs = map (\<lambda>b. (deepseek_text ''tool'' (result_text b))\<lparr>dm_call_id := cb_tool_call_id b\<rparr>)
     (filter (\<lambda>b. cb_type b = ''tool-result'') bs)"

definition deepseek_user :: "content_block list \<Rightarrow> deepseek_message list" where
  "deepseek_user bs =
     (if flatten_text_blocks bs \<noteq> [] \<or> deepseek_results bs = []
      then [deepseek_text ''user'' (flatten_text_blocks bs)] else []) @ deepseek_results bs"

definition deepseek_messages_of :: "model_message \<Rightarrow> deepseek_message list" where
  "deepseek_messages_of m =
     (if mm_role m = ''system'' then [deepseek_text ''system'' (flatten_text_blocks (mm_content m))]
      else if mm_role m = ''assistant'' then [deepseek_assistant (mm_content m)]
      else deepseek_user (mm_content m))"

definition build_deepseek_messages :: "'t adapter_request \<Rightarrow> deepseek_message list option" where
  "build_deepseek_messages req =
     (if list_all (\<lambda>m. assert_text_only_blocks (mm_content m)) (ar_messages req)
      then Some ((if ar_system req \<noteq> [] then [deepseek_text ''system'' (ar_system req)] else []) @
        concat (map deepseek_messages_of (ar_messages req)))
      else None)"

text \<open>The content key is printed even when it is empty.\<close>

definition wire_call_json :: "wire_call \<Rightarrow> json" where
  "wire_call_json c = JObj ((if wl_id c = [] then [] else [(''id'', JStr (wl_id c))]) @ [(''type'', JStr ''function'')] @
     [(''function'', JObj ((if wl_name c = [] then [] else [(''name'', JStr (wl_name c))]) @
        (if wl_arguments c = [] then [] else [(''arguments'', JStr (wl_arguments c))])))])"

definition deepseek_message_json :: "deepseek_message \<Rightarrow> json" where
  "deepseek_message_json m = JObj ([(''role'', JStr (dm_role m)), (''content'', JStr (dm_content m))] @
     (if dm_call_id m = [] then [] else [(''tool_call_id'', JStr (dm_call_id m))]) @
     (if dm_calls m = [] then [] else [(''tool_calls'', JArr (map wire_call_json (dm_calls m)))]) @
     (if dm_reasoning m = [] then [] else [(''reasoning_content'', JStr (dm_reasoning m))]))"

text \<open>\<open>dq_thinking\<close> is the type of the thinking field.\<close>

record 't deepseek_request =
  dq_model :: string
  dq_messages :: "deepseek_message list"
  dq_stream :: bool
  dq_temperature :: "'t option"
  dq_max_tokens :: int
  dq_tools :: "tool_declaration list"
  dq_tool_choice :: string
  dq_thinking :: "string option"
  dq_effort :: string
  dq_include_usage :: bool

definition thinking_of :: "string \<Rightarrow> string \<Rightarrow> string option \<times> string" where
  "thinking_of purpose requested =
     (if purpose = ''session-title'' then (Some ''disabled'', [])
      else (let effort = (if requested = [] then default_reasoning_effort else requested)
        in if effort = ''off'' then (Some ''disabled'', [])
           else if effort \<in> {''low'', ''high'', ''max''} then (Some ''enabled'', effort) else (None, [])))"

definition build_deepseek_request :: "'t adapter_request \<Rightarrow> 't deepseek_request option" where
  "build_deepseek_request req = map_option (\<lambda>ms.
     \<lparr>dq_model = ar_model req, dq_messages = ms, dq_stream = True, dq_temperature = ar_temperature req,
      dq_max_tokens = effective_max_tokens_for (ar_max_tokens req) False, dq_tools = ar_tools req,
      dq_tool_choice = (if ar_tools req \<noteq> [] then ''auto'' else []),
      dq_thinking = fst (thinking_of (ar_purpose req) (ar_effort req)),
      dq_effort = snd (thinking_of (ar_purpose req) (ar_effort req)), dq_include_usage = True\<rparr>)
     (build_deepseek_messages req)"

section \<open>Messages\<close>

datatype anthropic_block =
    TextBlock string
  | ThinkingBlock string
  | ToolUseBlock string string json
  | ToolResultBlock string string

datatype anthropic_content = PlainContent string | BlockContent "anthropic_block list"

record anthropic_msg =
  am_role :: string
  am_content :: anthropic_content

text \<open>
  The arguments of a call are decoded into an interface value.  \<open>anyval\<close> is what that makes of a
  document (numbers become \<open>float64\<close>); \<open>None\<close> is a number out of its range.
\<close>

definition tool_input :: "(json \<Rightarrow> json option) \<Rightarrow> string \<Rightarrow> json" where
  "tool_input anyval args =
     (if args = [] then JObj []
      else (case Option.bind (parse_json args) anyval of None \<Rightarrow> JObj [] | Some j \<Rightarrow> j))"

definition assistant_block :: "(json \<Rightarrow> json option) \<Rightarrow> content_block \<Rightarrow> anthropic_block option" where
  "assistant_block anyval b =
     (if cb_type b = ''text'' then Some (TextBlock (cb_text b))
      else if cb_type b = ''reasoning'' then Some (ThinkingBlock (cb_text b))
      else if cb_type b = ''tool-call'' then Some (ToolUseBlock (cb_id b) (cb_name b) (tool_input anyval (cb_arguments b)))
      else None)"

definition user_blocks :: "content_block list \<Rightarrow> anthropic_block list" where
  "user_blocks bs =
     map (\<lambda>b. TextBlock (cb_text b)) (filter (\<lambda>b. cb_type b = ''text'' \<and> cb_text b \<noteq> []) bs) @
     map (\<lambda>b. ToolResultBlock (cb_tool_call_id b) (result_text b)) (filter (\<lambda>b. cb_type b = ''tool-result'') bs)"

definition anthropic_messages_of :: "(json \<Rightarrow> json option) \<Rightarrow> model_message \<Rightarrow> anthropic_msg list" where
  "anthropic_messages_of anyval m =
     (if mm_role m = ''system'' then
        (let t = flatten_text_blocks (mm_content m)
         in if t \<noteq> [] then [\<lparr>am_role = ''user'', am_content = PlainContent t\<rparr>] else [])
      else if mm_role m = ''assistant'' then
        (let bs = List.map_filter (assistant_block anyval) (mm_content m)
         in [\<lparr>am_role = ''assistant'', am_content = (if bs = [] then PlainContent [] else BlockContent bs)\<rparr>])
      else
        (let bs = user_blocks (mm_content m)
         in if bs \<noteq> [] then [\<lparr>am_role = ''user'', am_content = BlockContent bs\<rparr>] else []))"

definition as_anthropic_blocks :: "anthropic_content \<Rightarrow> anthropic_block list" where
  "as_anthropic_blocks c = (case c of PlainContent t \<Rightarrow> (if t = [] then [] else [TextBlock t]) | BlockContent bs \<Rightarrow> bs)"

definition concat_anthropic_content :: "anthropic_content \<Rightarrow> anthropic_content \<Rightarrow> anthropic_content" where
  "concat_anthropic_content a b = BlockContent (as_anthropic_blocks a @ as_anthropic_blocks b)"

definition merge_one :: "anthropic_msg list \<Rightarrow> anthropic_msg \<Rightarrow> anthropic_msg list" where
  "merge_one out m =
     (if out = [] \<or> am_role (last out) \<noteq> am_role m then out @ [m]
      else butlast out @ [(last out)\<lparr>am_content := concat_anthropic_content (am_content (last out)) (am_content m)\<rparr>])"

definition merge_anthropic_roles :: "anthropic_msg list \<Rightarrow> anthropic_msg list" where
  "merge_anthropic_roles ms = foldl merge_one [] ms"

definition build_anthropic_messages :: "(json \<Rightarrow> json option) \<Rightarrow> 't adapter_request \<Rightarrow> anthropic_msg list" where
  "build_anthropic_messages anyval req =
     merge_anthropic_roles (concat (map (anthropic_messages_of anyval) (ar_messages req)))"

record 't anthropic_request =
  aq_model :: string
  aq_system :: string
  aq_messages :: "anthropic_msg list"
  aq_stream :: bool
  aq_max_tokens :: int
  aq_temperature :: "'t option"
  aq_tools :: "tool_declaration list"

definition build_anthropic_request :: "(json \<Rightarrow> json option) \<Rightarrow> 't adapter_request \<Rightarrow> 't anthropic_request" where
  "build_anthropic_request anyval req =
     \<lparr>aq_model = ar_model req, aq_system = ar_system req, aq_messages = build_anthropic_messages anyval req,
      aq_stream = True, aq_max_tokens = effective_max_tokens_for (ar_max_tokens req) True,
      aq_temperature = ar_temperature req,
      aq_tools = map (\<lambda>t. t\<lparr>td_parameters := schema_or_empty (td_parameters t)\<rparr>) (ar_tools req)\<rparr>"

section \<open>Responses\<close>

datatype input_item =
    RoleItem string string
  | CallItem string string string
  | OutputItem string string

text \<open>An assistant message: text is held until a call or the end of the message sends it.\<close>

definition flush_text :: "string \<Rightarrow> input_item list" where
  "flush_text t = (if t = [] then [] else [RoleItem ''assistant'' t])"

fun assistant_items :: "string \<Rightarrow> content_block list \<Rightarrow> input_item list" where
  "assistant_items t [] = flush_text t"
| "assistant_items t (b # bs) =
     (if cb_type b = ''text'' then assistant_items (t @ cb_text b) bs
      else if cb_type b = ''tool-call''
      then flush_text t @ CallItem (cb_id b) (cb_name b) (cb_arguments b) # assistant_items [] bs
      else assistant_items t bs)"

definition output_items :: "content_block list \<Rightarrow> input_item list" where
  "output_items bs = map (\<lambda>b. OutputItem (cb_tool_call_id b) (result_text b)) (filter (\<lambda>b. cb_type b = ''tool-result'') bs)"

definition input_items_of :: "model_message \<Rightarrow> input_item list" where
  "input_items_of m =
     (let t = flatten_text_blocks (mm_content m)
      in if mm_role m = ''system'' then (if t \<noteq> [] then [RoleItem ''system'' t] else [])
         else if mm_role m = ''assistant'' then assistant_items [] (mm_content m)
         else (if t \<noteq> [] \<or> output_items (mm_content m) = [] then [RoleItem ''user'' t] else []) @ output_items (mm_content m))"

definition build_responses_input :: "'t adapter_request \<Rightarrow> input_item list" where
  "build_responses_input req = concat (map input_items_of (ar_messages req))"

record 't responses_request =
  rq_model :: string
  rq_input :: "input_item list"
  rq_stream :: bool
  rq_instructions :: string
  rq_temperature :: "'t option"
  rq_max_tokens :: int
  rq_tools :: "tool_declaration list"
  rq_effort :: "string option"

definition reasoning_effort_of :: "string \<Rightarrow> string \<Rightarrow> string option" where
  "reasoning_effort_of purpose requested =
     (let effort = (if requested = [] then default_reasoning_effort else requested)
      in if purpose \<noteq> ''session-title'' \<and> effort \<noteq> ''off''
         then Some (if effort = ''max'' then ''high'' else effort) else None)"

definition build_responses_request :: "'t adapter_request \<Rightarrow> 't responses_request" where
  "build_responses_request req =
     \<lparr>rq_model = ar_model req, rq_input = build_responses_input req, rq_stream = True,
      rq_instructions = ar_system req, rq_temperature = ar_temperature req,
      rq_max_tokens = effective_max_tokens_for (ar_max_tokens req) False,
      rq_tools = map (\<lambda>t. t\<lparr>td_parameters := schema_or_empty (td_parameters t)\<rparr>) (ar_tools req),
      rq_effort = reasoning_effort_of (ar_purpose req) (ar_effort req)\<rparr>"

section \<open>The tool traffic of a conversation\<close>

text \<open>What every body must carry: the calls of the assistant and the results that answer them, in order.\<close>

datatype traffic = CallT string string string | ResultT string string

definition message_traffic :: "model_message \<Rightarrow> traffic list" where
  "message_traffic m =
     (if mm_role m = ''system'' then []
      else if mm_role m = ''assistant''
      then map (\<lambda>b. CallT (cb_id b) (cb_name b) (cb_arguments b)) (filter (\<lambda>b. cb_type b = ''tool-call'') (mm_content m))
      else map (\<lambda>b. ResultT (cb_tool_call_id b) (result_text b)) (filter (\<lambda>b. cb_type b = ''tool-result'') (mm_content m)))"

definition conversation_traffic :: "model_message list \<Rightarrow> traffic list" where
  "conversation_traffic ms = concat (map message_traffic ms)"

definition deepseek_traffic :: "deepseek_message \<Rightarrow> traffic list" where
  "deepseek_traffic m =
     (if dm_role m = ''tool'' then [ResultT (dm_call_id m) (dm_content m)]
      else map (\<lambda>c. CallT (wl_id c) (wl_name c) (wl_arguments c)) (dm_calls m))"

definition item_traffic :: "input_item \<Rightarrow> traffic list" where
  "item_traffic i = (case i of RoleItem _ _ \<Rightarrow> [] | CallItem c n a \<Rightarrow> [CallT c n a] | OutputItem c t \<Rightarrow> [ResultT c t])"

text \<open>A Messages body carries the decoded input of a call instead of its text.\<close>

datatype decoded_traffic = CallD string string json | ResultD string string

definition decode_traffic :: "(json \<Rightarrow> json option) \<Rightarrow> traffic \<Rightarrow> decoded_traffic" where
  "decode_traffic anyval t = (case t of CallT c n a \<Rightarrow> CallD c n (tool_input anyval a) | ResultT c s \<Rightarrow> ResultD c s)"

definition block_traffic :: "anthropic_block \<Rightarrow> decoded_traffic list" where
  "block_traffic b = (case b of ToolUseBlock c n j \<Rightarrow> [CallD c n j] | ToolResultBlock c t \<Rightarrow> [ResultD c t] | _ \<Rightarrow> [])"

definition sent_blocks :: "anthropic_msg list \<Rightarrow> anthropic_block list" where
  "sent_blocks ms = concat (map (\<lambda>m. as_anthropic_blocks (am_content m)) ms)"

end
