(* ===== verification/Wire_Request_Properties.thy ===== *)
theory Wire_Request_Properties imports Wire_Requests begin

text \<open>
  What the bodies carry: the same tool calls and results on every wire, and on the Messages wire
  alternating roles.
\<close>

section \<open>Tool traffic\<close>

lemma traffic_simps [simp]:
  "deepseek_traffic (deepseek_text role t) = (if role = ''tool'' then [ResultT [] t] else [])"
  "item_traffic (RoleItem r t) = []" "item_traffic (CallItem c n a) = [CallT c n a]"
  "item_traffic (OutputItem c t) = [ResultT c t]"
  "block_traffic (TextBlock t) = []" "block_traffic (ThinkingBlock t) = []"
  "block_traffic (ToolUseBlock c n j) = [CallD c n j]" "block_traffic (ToolResultBlock c t) = [ResultD c t]"
  "decode_traffic anyval (CallT c n a) = CallD c n (tool_input anyval a)"
  "decode_traffic anyval (ResultT c t) = ResultD c t"
  by (simp_all add: deepseek_traffic_def deepseek_text_def item_traffic_def block_traffic_def decode_traffic_def)

lemma sent_blocks_simps [simp]:
  "sent_blocks [] = []" "sent_blocks (m # ms) = as_anthropic_blocks (am_content m) @ sent_blocks ms"
  "sent_blocks (xs @ ys) = sent_blocks xs @ sent_blocks ys"
  by (simp_all add: sent_blocks_def)

lemma sent_blocks_concat: "sent_blocks (concat (map f xs)) = concat (map (\<lambda>x. sent_blocks (f x)) xs)"
  by (induction xs) auto

lemma concat_singles: "concat (map (\<lambda>x. [f x]) xs) = map f xs"
  by (induction xs) auto

lemma deepseek_message_traffic: "concat (map deepseek_traffic (deepseek_messages_of m)) = message_traffic m"
proof -
  have "concat (map deepseek_traffic (deepseek_results bs)) =
      map (\<lambda>b. ResultT (cb_tool_call_id b) (result_text b)) (filter (\<lambda>b. cb_type b = ''tool-result'') bs)" for bs
    by (simp add: deepseek_results_def deepseek_traffic_def deepseek_text_def comp_def concat_singles)
  then show ?thesis
    by (simp add: deepseek_messages_of_def message_traffic_def deepseek_user_def deepseek_assistant_def comp_def wire_call_of_def
        deepseek_traffic_def deepseek_text_def)
qed

lemma assistant_items_traffic:
  "concat (map item_traffic (assistant_items t bs)) =
   map (\<lambda>b. CallT (cb_id b) (cb_name b) (cb_arguments b)) (filter (\<lambda>b. cb_type b = ''tool-call'') bs)"
  by (induction t bs rule: assistant_items.induct) (auto simp: flush_text_def)

lemma item_message_traffic: "concat (map item_traffic (input_items_of m)) = message_traffic m"
  by (simp add: input_items_of_def message_traffic_def assistant_items_traffic output_items_def comp_def concat_singles Let_def)

lemma anthropic_message_traffic:
  "concat (map block_traffic (sent_blocks (anthropic_messages_of anyval m))) = map (decode_traffic anyval) (message_traffic m)"
proof -
  have asst: "concat (map block_traffic (List.map_filter (assistant_block anyval) bs)) =
      map (decode_traffic anyval) (map (\<lambda>b. CallT (cb_id b) (cb_name b) (cb_arguments b)) (filter (\<lambda>b. cb_type b = ''tool-call'') bs))" for bs
    by (induction bs) (auto simp: map_filter_simps assistant_block_def)
  have user: "concat (map block_traffic (user_blocks bs)) =
      map (decode_traffic anyval) (map (\<lambda>b. ResultT (cb_tool_call_id b) (result_text b)) (filter (\<lambda>b. cb_type b = ''tool-result'') bs))" for bs
    by (simp add: user_blocks_def comp_def concat_singles)
  show ?thesis
    using asst [of "mm_content m"] user [of "mm_content m"]
    by (auto simp: anthropic_messages_of_def message_traffic_def as_anthropic_blocks_def Let_def)
qed

section \<open>Merging\<close>

lemma merge_one_blocks: "sent_blocks (merge_one out m) = sent_blocks out @ as_anthropic_blocks (am_content m)"
proof (cases "out = []")
  case False
  then have "sent_blocks out = sent_blocks (butlast out) @ as_anthropic_blocks (am_content (last out))"
    by (cases out rule: rev_cases) simp_all
  then show ?thesis
    by (auto simp: merge_one_def as_anthropic_blocks_def concat_anthropic_content_def)
qed (simp add: merge_one_def)

definition alternating :: "anthropic_msg list \<Rightarrow> bool" where
  "alternating ms \<longleftrightarrow> successively (\<lambda>a b. am_role a \<noteq> am_role b) ms"

lemma merge_one_alternating: "alternating out \<Longrightarrow> alternating (merge_one out m)"
proof (cases "out = []")
  case False
  then obtain ini l where "out = ini @ [l]" by (cases out rule: rev_cases) auto
  then show "alternating out \<Longrightarrow> alternating (merge_one out m)"
    by (auto simp: alternating_def merge_one_def successively_append_iff)
qed (simp add: alternating_def merge_one_def)

lemma merge_one_roles: "am_role ` set (merge_one out m) \<subseteq> insert (am_role m) (am_role ` set out)"
  by (auto simp: merge_one_def dest: in_set_butlastD)

lemma merge_spec:
  "alternating out \<Longrightarrow> alternating (foldl merge_one out ms) \<and>
   sent_blocks (foldl merge_one out ms) = sent_blocks out @ sent_blocks ms \<and>
   am_role ` set (foldl merge_one out ms) \<subseteq> am_role ` set (out @ ms)"
proof (induction ms arbitrary: out)
  case (Cons m ms)
  note ih = Cons.IH [OF merge_one_alternating [OF Cons.prems], of m]
  from ih have "am_role ` set (foldl merge_one out (m # ms)) \<subseteq> am_role ` set (merge_one out m) \<union> am_role ` set ms"
    by (simp add: image_Un)
  with merge_one_roles [of out m] have "am_role ` set (foldl merge_one out (m # ms)) \<subseteq> am_role ` set (out @ m # ms)"
    by (simp add: image_Un) blast
  with ih show ?case by (simp add: merge_one_blocks)
qed simp

lemma merged:
  "alternating (merge_anthropic_roles ms)" "sent_blocks (merge_anthropic_roles ms) = sent_blocks ms"
  "am_role ` set (merge_anthropic_roles ms) \<subseteq> am_role ` set ms"
  using merge_spec [of "[]" ms] by (simp_all add: merge_anthropic_roles_def alternating_def)

section \<open>Properties\<close>

lemma text_only_iff: "assert_text_only_blocks bs \<longleftrightarrow> \<not> contains_image_block bs"
proof -
  have "has_image b \<longleftrightarrow> cb_type b = ''image'' \<or> contains_image_block (cb_content b)" for b
    by (cases b) (simp add: contains_image_block_def)
  then have "has_image = (\<lambda>b. cb_type b = ''image'' \<or> contains_image_block (cb_content b))" by blast
  then show ?thesis by (simp add: assert_text_only_blocks_def contains_image_block_def)
qed

text \<open>
  C31. The three adapters tell the model the same tool history.  On each wire the calls of the assistant and the results,
  with \<open>(no output)\<close> for an empty one, are in the body exactly as the conversation has them, in its order; a
  Messages body carries the decoded input instead of the text of the arguments.  The Chat Completions builder refuses a
  conversation exactly when it has an image, nested ones included.
\<close>
theorem requests_carry_tool_traffic:
  "(case build_deepseek_messages req of
      None \<Rightarrow> list_ex (\<lambda>m. contains_image_block (mm_content m)) (ar_messages req)
    | Some ds \<Rightarrow> \<not> list_ex (\<lambda>m. contains_image_block (mm_content m)) (ar_messages req) \<and>
        concat (map deepseek_traffic ds) = conversation_traffic (ar_messages req)) \<and>
   concat (map item_traffic (build_responses_input req)) = conversation_traffic (ar_messages req) \<and>
   concat (map block_traffic (sent_blocks (build_anthropic_messages anyval req))) =
     map (decode_traffic anyval) (conversation_traffic (ar_messages req))"
proof -
  have "concat (map deepseek_traffic (concat (map deepseek_messages_of ms))) = conversation_traffic ms" for ms
    by (induction ms) (simp_all add: conversation_traffic_def deepseek_message_traffic)
  moreover have "concat (map item_traffic (concat (map input_items_of ms))) = conversation_traffic ms" for ms
    by (induction ms) (simp_all add: conversation_traffic_def item_message_traffic)
  moreover have "concat (map block_traffic (sent_blocks (concat (map (anthropic_messages_of anyval) ms)))) =
      map (decode_traffic anyval) (conversation_traffic ms)" for ms
    by (induction ms) (simp_all add: conversation_traffic_def anthropic_message_traffic)
  ultimately show ?thesis
    by (simp add: build_deepseek_messages_def build_responses_input_def build_anthropic_messages_def merged(2) text_only_iff
        list_all_iff list_ex_iff)
qed

text \<open>
  A Messages body alternates between the user and the assistant, whatever the conversation is: system
  turns, empty turns and runs of one role included.  Merging loses nothing and moves nothing: the
  blocks of the merged messages are the blocks of the messages before, in their order.
\<close>
theorem anthropic_roles_alternate:
  "alternating (build_anthropic_messages anyval req) \<and>
   am_role ` set (build_anthropic_messages anyval req) \<subseteq> {''user'', ''assistant''} \<and>
   sent_blocks (build_anthropic_messages anyval req) =
     concat (map (\<lambda>m. sent_blocks (anthropic_messages_of anyval m)) (ar_messages req))"
proof -
  have "am_role ` set (anthropic_messages_of anyval m) \<subseteq> {''user'', ''assistant''}" for m
    by (auto simp: anthropic_messages_of_def Let_def)
  then have "am_role ` set (concat (map (anthropic_messages_of anyval) ms)) \<subseteq> {''user'', ''assistant''}" for ms
    by fastforce
  then have "am_role ` set (build_anthropic_messages anyval req) \<subseteq> {''user'', ''assistant''}"
    unfolding build_anthropic_messages_def by (rule order_trans [OF merged(3)])
  then show ?thesis
    using merged(1,2) [of "concat (map (anthropic_messages_of anyval) (ar_messages req))"]
    by (simp add: build_anthropic_messages_def sent_blocks_concat)
qed

text \<open>
  Only one of the three builders rejects an image; the other two leave it out, and a user message that was nothing else
  disappears from a Messages body.
\<close>

definition image_request :: "unit adapter_request" where
  "image_request = \<lparr>ar_model = ''m'', ar_messages = [\<lparr>mm_role = ''user'',
      mm_content = [ContentBlock ''image'' [] ''a1'' ''image/png'' [] [] [] [] False []]\<rparr>],
     ar_system = [], ar_temperature = None, ar_max_tokens = 0, ar_tools = [], ar_effort = [], ar_session = [], ar_purpose = []\<rparr>"

lemma images_dropped_silently:
  "build_deepseek_messages image_request = None"
  "build_anthropic_messages anyval image_request = []"
  "build_responses_input image_request = [RoleItem ''user'' []]"
  by (simp_all add: image_request_def build_deepseek_messages_def assert_text_only_blocks_def build_anthropic_messages_def
      anthropic_messages_of_def user_blocks_def merge_anthropic_roles_def build_responses_input_def input_items_of_def
      output_items_def flatten_text_blocks_def)

end
