(* ===== verification/Workflow.thy ===== *)
theory Workflow imports Prelude Go_Strings begin

text \<open>
  Workflows over subagents, \<open>pkg/workflow/workflow.go\<close>.  A run over members one after the other is a
  function of what the spawner and the context answer; a parallel run is a step relation over its
  goroutines, the semaphore and the channel of results.
\<close>

section \<open>Data\<close>

record wf_phase =
  wp_title :: string
  wp_detail :: string
  wp_provider :: string
  wp_model :: string

record wf_meta =
  wm_name :: string
  wm_description :: string
  wm_when :: string
  wm_phases :: "wf_phase list"

record wf_agent =
  wa_label :: string
  wa_role :: string
  wa_prompt :: string
  wa_phase :: string
  wa_provider :: string
  wa_model :: string

record workflow =
  wf_id :: string
  wf_meta :: wf_meta
  wf_agents :: "wf_agent list"
  wf_parallel :: bool
  wf_max_parallel :: int

record agent_start =
  st_run :: string
  st_seq :: int
  st_label :: string
  st_phase :: string
  st_child :: string

datatype wf_event =
    RunStartEv string string
  | AgentStartEv agent_start
  | AgentEndEv string int string
  | RunEndEv string string

record agent_output =
  ao_seq :: int
  ao_label :: string
  ao_outcome :: string
  ao_output :: string

record run_result =
  rr_run :: string
  rr_stop :: string
  rr_error :: string
  rr_started :: nat
  rr_outputs :: "agent_output list"

record spawn_request =
  sq_role :: string
  sq_prompt :: string
  sq_provider :: string
  sq_model :: string

record agent_run =
  gr_output :: string
  gr_child :: string

abbreviation "OutcomeCompleted \<equiv> ''completed''"
abbreviation "OutcomeFailed \<equiv> ''failed''"
abbreviation "OutcomeCancelled \<equiv> ''cancelled''"
abbreviation "StopCompleted \<equiv> ''completed''"
abbreviation "StopCancelled \<equiv> ''cancelled''"
abbreviation "StopError \<equiv> ''error''"

section \<open>The meta block and the identifiers\<close>

definition phase_violations :: "wf_phase list \<Rightarrow> string list" where
  "phase_violations ps = concat (map (\<lambda>(i, p). if wp_title p = [] then
     [''meta.phases['' @ itoa (int i) @ ''].title must be a non-empty string''] else []) (enumerate 0 ps))"

definition meta_violations :: "wf_meta \<Rightarrow> string list" where
  "meta_violations m =
     (if wm_name m = [] then [''meta.name must be a non-empty string''] else []) @
     (if wm_description m = [] then [''meta.description must be a non-empty string''] else []) @
     phase_violations (wm_phases m)"

fun join_with :: "string \<Rightarrow> string list \<Rightarrow> string" where
  "join_with sep [] = []"
| "join_with sep [s] = s"
| "join_with sep (s # ss) = s @ sep @ join_with sep ss"

definition validate_meta :: "wf_meta \<Rightarrow> string option" where
  "validate_meta m = (if meta_violations m = [] then None
     else Some (''invalid workflow meta: '' @ join_with ''; '' (meta_violations m)))"

definition child_id :: "string \<Rightarrow> int \<Rightarrow> string" where
  "child_id rid sq = rid @ ''/agent-'' @ itoa sq"

definition start_of :: "workflow \<Rightarrow> nat \<Rightarrow> agent_start" where
  "start_of w i = \<lparr>st_run = wf_id w, st_seq = int i + 1, st_label = wa_label (wf_agents w ! i),
     st_phase = wa_phase (wf_agents w ! i), st_child = child_id (wf_id w) (int i + 1)\<rparr>"

text \<open>What is in the log before any member runs.\<close>

definition opening_events :: "workflow \<Rightarrow> wf_event list" where
  "opening_events w = RunStartEv (wf_id w) (wm_name (wf_meta w)) #
     map (\<lambda>i. AgentStartEv (start_of w i)) [0..<length (wf_agents w)]"

section \<open>One member\<close>

definition output_of :: "workflow \<Rightarrow> nat \<Rightarrow> string \<Rightarrow> string \<Rightarrow> agent_output" where
  "output_of w i outcome t = \<lparr>ao_seq = int i + 1, ao_label = wa_label (wf_agents w ! i), ao_outcome = outcome, ao_output = t\<rparr>"

definition end_event :: "workflow \<Rightarrow> nat \<times> agent_output \<Rightarrow> wf_event" where
  "end_event w io = AgentEndEv (wf_id w) (int (fst io) + 1) (ao_outcome (snd io))"

definition spawn_request_of :: "wf_agent \<Rightarrow> spawn_request" where
  "spawn_request_of ag = \<lparr>sq_role = wa_role ag, sq_prompt = wa_prompt ag, sq_provider = wa_provider ag, sq_model = wa_model ag\<rparr>"

text \<open>The settlement of a spawned member: the error of the spawner as its text, and whether the context is done.\<close>

definition spawned_output :: "workflow \<Rightarrow> nat \<Rightarrow> agent_run \<times> string option \<Rightarrow> bool \<Rightarrow> agent_output" where
  "spawned_output w i answer ctx_done =
     (case answer of
        (run, Some e) \<Rightarrow> output_of w i OutcomeFailed (if gr_output run = [] then e else gr_output run)
      | (run, None) \<Rightarrow> output_of w i (if ctx_done then OutcomeCancelled else OutcomeCompleted) (gr_output run))"

type_synonym spawner = "spawn_request \<Rightarrow> agent_run \<times> string option"

text \<open>\<open>before\<close> and \<open>after\<close>: the context at the two checks.\<close>

definition run_one :: "workflow \<Rightarrow> spawner option \<Rightarrow> nat \<Rightarrow> bool \<Rightarrow> bool \<Rightarrow> agent_output" where
  "run_one w spawn i before after =
     (if before then output_of w i OutcomeCancelled []
      else (case spawn of
          None \<Rightarrow> output_of w i OutcomeFailed ''no spawner configured''
        | Some sp \<Rightarrow> spawned_output w i (sp (spawn_request_of (wf_agents w ! i))) after))"

definition settle :: "agent_output \<Rightarrow> string \<times> string \<Rightarrow> string \<times> string" where
  "settle out s = (case s of (stop, err) \<Rightarrow>
     if ao_outcome out = OutcomeCancelled then (StopCancelled, err)
     else if ao_outcome out = OutcomeFailed then (if stop \<noteq> StopCancelled then (StopError, ao_output out) else (stop, err))
     else (stop, err))"

section \<open>Members one after the other\<close>

definition close_run :: "workflow \<Rightarrow> agent_output list \<Rightarrow> string \<times> string \<Rightarrow> run_result" where
  "close_run w outs s = \<lparr>rr_run = wf_id w, rr_stop = fst s, rr_error = (if fst s \<noteq> StopCompleted then snd s else []),
     rr_started = length (wf_agents w), rr_outputs = outs\<rparr>"

text \<open>\<open>spawns i\<close> is the spawner when member \<open>i\<close> runs, \<open>ctx i\<close> the context then.\<close>

definition run_sequential :: "workflow \<Rightarrow> (nat \<Rightarrow> spawner option) \<Rightarrow> (nat \<Rightarrow> bool \<times> bool) \<Rightarrow> wf_event list \<times> run_result" where
  "run_sequential w spawns ctx =
     (let ios = map (\<lambda>i. (i, run_one w (spawns i) i (fst (ctx i)) (snd (ctx i)))) [0..<length (wf_agents w)];
          s = fold settle (map snd ios) (StopCompleted, [])
      in (opening_events w @ map (end_event w) ios @ [RunEndEv (wf_id w) (fst s)], close_run w (map snd ios) s))"

section \<open>Members in parallel\<close>

text \<open>
  A goroutine: not yet launched, launched, in the spawner, settled, its end event sent, its result in the channel,
  its slot of the semaphore given back, finished.
\<close>

datatype member = Idle | Launched | Spawning | Decided agent_output | Ended agent_output | Queued agent_output
  | Released agent_output | Finished agent_output

record run_state =
  rs_next :: nat
  rs_members :: "member list"
  rs_sem :: nat
  rs_results :: "(nat \<times> agent_output) list"
  rs_events :: "wf_event list"
  rs_cancelled :: bool

definition parallel_limit :: "workflow \<Rightarrow> nat" where
  "parallel_limit w = (if wf_max_parallel w \<le> 0 then length (wf_agents w) else nat (wf_max_parallel w))"

definition run_begin :: "workflow \<Rightarrow> bool \<Rightarrow> run_state" where
  "run_begin w cancelled = \<lparr>rs_next = 0, rs_members = replicate (length (wf_agents w)) Idle, rs_sem = 0, rs_results = [],
     rs_events = opening_events w, rs_cancelled = cancelled\<rparr>"

definition becomes :: "nat \<Rightarrow> member \<Rightarrow> run_state \<Rightarrow> run_state" where
  "becomes i m st = st\<lparr>rs_members := (rs_members st)[i := m]\<rparr>"

definition member_is :: "nat \<Rightarrow> member \<Rightarrow> run_state \<Rightarrow> bool" where
  "member_is i m st \<longleftrightarrow> i < length (rs_members st) \<and> rs_members st ! i = m"

text \<open>One step of one goroutine; \<open>spawner\<close> tells whether one is configured, its answer is any.\<close>

inductive run_step :: "workflow \<Rightarrow> bool \<Rightarrow> run_state \<Rightarrow> run_state \<Rightarrow> bool" where
  launch: "rs_next st < length (rs_members st) \<Longrightarrow> rs_sem st < parallel_limit w \<Longrightarrow>
    run_step w spawner st ((becomes (rs_next st) Launched st)\<lparr>rs_next := rs_next st + 1, rs_sem := rs_sem st + 1\<rparr>)"
| cancelled_before: "member_is i Launched st \<Longrightarrow> rs_cancelled st \<Longrightarrow>
    run_step w spawner st (becomes i (Decided (output_of w i OutcomeCancelled [])) st)"
| no_spawner: "member_is i Launched st \<Longrightarrow> \<not> rs_cancelled st \<Longrightarrow> \<not> spawner \<Longrightarrow>
    run_step w spawner st (becomes i (Decided (output_of w i OutcomeFailed ''no spawner configured'')) st)"
| spawn: "member_is i Launched st \<Longrightarrow> \<not> rs_cancelled st \<Longrightarrow> spawner \<Longrightarrow>
    run_step w spawner st (becomes i Spawning st)"
| spawned: "member_is i Spawning st \<Longrightarrow>
    run_step w spawner st (becomes i (Decided (spawned_output w i answer (rs_cancelled st))) st)"
| agent_end: "member_is i (Decided out) st \<Longrightarrow>
    run_step w spawner st ((becomes i (Ended out) st)\<lparr>rs_events := rs_events st @ [end_event w (i, out)]\<rparr>)"
| send: "member_is i (Ended out) st \<Longrightarrow>
    run_step w spawner st ((becomes i (Queued out) st)\<lparr>rs_results := rs_results st @ [(i, out)]\<rparr>)"
| release: "member_is i (Queued out) st \<Longrightarrow>
    run_step w spawner st ((becomes i (Released out) st)\<lparr>rs_sem := rs_sem st - 1\<rparr>)"
| wg_done: "member_is i (Released out) st \<Longrightarrow> run_step w spawner st (becomes i (Finished out) st)"

text \<open>Reachable states; the context may be cancelled at any time.\<close>

inductive run_reach :: "workflow \<Rightarrow> bool \<Rightarrow> run_state \<Rightarrow> bool" for w spawner where
  begin_run: "run_reach w spawner (run_begin w cancelled)"
| step_run: "run_reach w spawner st \<Longrightarrow> run_step w spawner st st' \<Longrightarrow> run_reach w spawner st'"
| cancel_run: "run_reach w spawner st \<Longrightarrow> run_reach w spawner (st\<lparr>rs_cancelled := True\<rparr>)"

definition all_finished :: "run_state \<Rightarrow> bool" where
  "all_finished st \<longleftrightarrow> (\<forall>m\<in>set (rs_members st). \<exists>out. m = Finished out)"

text \<open>After \<open>wg.Wait\<close>: the channel is drained in the order it was filled.\<close>

definition finish_parallel :: "workflow \<Rightarrow> run_state \<Rightarrow> wf_event list \<times> run_result" where
  "finish_parallel w st =
     (let outs = fold (\<lambda>(i, out) outs. outs[i := out]) (rs_results st)
            (replicate (length (wf_agents w)) \<lparr>ao_seq = 0, ao_label = [], ao_outcome = [], ao_output = []\<rparr>);
          s = fold settle (map snd (rs_results st)) (StopCompleted, [])
      in (rs_events st @ [RunEndEv (wf_id w) (fst s)], close_run w outs s))"

section \<open>Opening a run\<close>

text \<open>The counter of the runner names a run without an id.\<close>

definition name_run :: "int \<Rightarrow> workflow \<Rightarrow> int \<times> workflow" where
  "name_run counter w =
     (if wf_id w = [] then (counter + 1, w\<lparr>wf_id := ''run-'' @ itoa (counter + 1)\<rparr>) else (counter, w))"

definition run_workflow ::
  "(nat \<Rightarrow> spawner option) \<Rightarrow> (nat \<Rightarrow> bool \<times> bool) \<Rightarrow> (workflow \<Rightarrow> run_state) \<Rightarrow> int \<Rightarrow> workflow \<Rightarrow>
   int \<times> wf_event list \<times> (string + run_result)" where
  "run_workflow spawns ctx parallel counter w0 =
     (case validate_meta (wf_meta w0) of
        Some e \<Rightarrow> (counter, [], Inl e)
      | None \<Rightarrow>
          (case name_run counter w0 of (counter', w) \<Rightarrow>
             if wf_agents w = [] then
               (counter', [RunStartEv (wf_id w) (wm_name (wf_meta w)), RunEndEv (wf_id w) StopCompleted],
                Inr \<lparr>rr_run = wf_id w, rr_stop = StopCompleted, rr_error = [], rr_started = 0, rr_outputs = []\<rparr>)
             else (case (if wf_parallel w then finish_parallel w (parallel w) else run_sequential w spawns ctx) of
                 (evs, r) \<Rightarrow> (counter', evs, Inr r))))"

end
