(* ===== verification/Workflow_Properties.thy ===== *)
theory Workflow_Properties imports Workflow begin

text \<open>
  A workflow run always settles, keeps to its limit, and leaves a complete record: one start and one end per
  member, and a result that says of every member what its end event says.
\<close>

section \<open>Settling\<close>

definition run_outcome :: "agent_output list \<Rightarrow> string" where
  "run_outcome outs =
     (if list_ex (\<lambda>out. ao_outcome out = OutcomeCancelled) outs then StopCancelled
      else if list_ex (\<lambda>out. ao_outcome out = OutcomeFailed) outs then StopError else StopCompleted)"

lemma run_outcome_cong: "set xs = set ys \<Longrightarrow> run_outcome xs = run_outcome ys"
  by (simp add: run_outcome_def list_ex_iff)

lemma settle_pair:
  "settle out (stop, err) =
     (if ao_outcome out = OutcomeCancelled then (StopCancelled, err)
      else if ao_outcome out = OutcomeFailed then (if stop \<noteq> StopCancelled then (StopError, ao_output out) else (stop, err))
      else (stop, err))"
  by (simp add: settle_def)

lemma settle_outcome:
  "fst (fold settle outs (StopCompleted, [])) = run_outcome outs \<and>
   (run_outcome outs = StopError \<longrightarrow>
     snd (fold settle outs (StopCompleted, [])) = ao_output (last (filter (\<lambda>out. ao_outcome out = OutcomeFailed) outs)))"
proof (induction outs rule: rev_induct)
  case (snoc out outs)
  obtain s e where "fold settle outs (StopCompleted, []) = (s, e)" by (cases "fold settle outs (StopCompleted, [])") auto
  with snoc.IH show ?case by (auto simp: settle_pair run_outcome_def split: if_splits)
qed (simp add: run_outcome_def)

lemma last_failure_mem:
  assumes "run_outcome outs = StopError"
  shows "last (filter (\<lambda>out. ao_outcome out = OutcomeFailed) outs) \<in> {out \<in> set outs. ao_outcome out = OutcomeFailed}"
proof -
  have "filter (\<lambda>out. ao_outcome out = OutcomeFailed) outs \<noteq> []"
    using assms by (auto simp: run_outcome_def list_ex_iff filter_empty_conv split: if_splits)
  from last_in_set [OF this] show ?thesis by simp
qed

section \<open>A complete record\<close>

definition complete_record :: "workflow \<Rightarrow> wf_event list \<Rightarrow> run_result \<Rightarrow> bool" where
  "complete_record w evs r \<longleftrightarrow>
     (let n = length (wf_agents w); outs = rr_outputs r
      in rr_run r = wf_id w \<and> rr_started r = n \<and> length outs = n \<and>
         (\<forall>i<n. ao_seq (outs ! i) = int i + 1 \<and> ao_label (outs ! i) = wa_label (wf_agents w ! i)) \<and>
         (\<exists>order. distinct order \<and> set order = {..<n} \<and>
            evs = opening_events w @ map (\<lambda>i. end_event w (i, outs ! i)) order @ [RunEndEv (wf_id w) (rr_stop r)]) \<and>
         rr_stop r = run_outcome outs \<and>
         (rr_stop r = StopCompleted \<longrightarrow> rr_error r = []) \<and>
         (rr_stop r = StopError \<longrightarrow> (\<exists>out\<in>set outs. ao_outcome out = OutcomeFailed \<and> rr_error r = ao_output out)))"

lemma closed_record:
  assumes "length outs = length (wf_agents w)" and "set queue = set outs" and "distinct order"
    "set order = {..<length (wf_agents w)}"
    and seqs: "\<And>i. i < length (wf_agents w) \<Longrightarrow> ao_seq (outs ! i) = int i + 1 \<and> ao_label (outs ! i) = wa_label (wf_agents w ! i)"
    and evs: "evs = opening_events w @ map (\<lambda>i. end_event w (i, outs ! i)) order @
      [RunEndEv (wf_id w) (fst (fold settle queue (StopCompleted, [])))]"
  shows "complete_record w evs (close_run w outs (fold settle queue (StopCompleted, [])))"
proof -
  have stop: "fst (fold settle queue (StopCompleted, [])) = run_outcome outs" "run_outcome queue = run_outcome outs"
    using settle_outcome [of queue] run_outcome_cong [OF assms(2)] by auto
  have "\<exists>out\<in>set outs. ao_outcome out = OutcomeFailed \<and> snd (fold settle queue (StopCompleted, [])) = ao_output out"
    if "run_outcome outs = StopError"
    using settle_outcome [of queue] last_failure_mem [of queue] that stop(2) assms(2) by auto
  with assms stop(1) show ?thesis
    unfolding complete_record_def Let_def close_run_def by auto
qed

lemma run_one_names:
  "ao_seq (run_one w sp i b a) = int i + 1 \<and> ao_label (run_one w sp i b a) = wa_label (wf_agents w ! i)"
  by (auto simp: run_one_def spawned_output_def output_of_def split: option.split prod.split)

lemma sequential_record: "case run_sequential w spawns ctx of (evs, r) \<Rightarrow> complete_record w evs r"
proof -
  let ?n = "length (wf_agents w)"
  let ?outs = "map (\<lambda>i. run_one w (spawns i) i (fst (ctx i)) (snd (ctx i))) [0..<?n]"
  have "complete_record w (opening_events w @ map (\<lambda>i. end_event w (i, ?outs ! i)) [0..<?n] @
      [RunEndEv (wf_id w) (fst (fold settle ?outs (StopCompleted, [])))]) (close_run w ?outs (fold settle ?outs (StopCompleted, [])))"
    by (rule closed_record) (use run_one_names in auto)
  moreover have "map (\<lambda>i. end_event w (i, ?outs ! i)) [0..<?n] =
      map (end_event w) (map (\<lambda>i. (i, run_one w (spawns i) i (fst (ctx i)) (snd (ctx i)))) [0..<?n])" by simp
  ultimately show ?thesis unfolding run_sequential_def Let_def by (simp add: comp_def)
qed

section \<open>The invariant of a parallel run\<close>

fun queued :: "member \<Rightarrow> agent_output option" where
  "queued (Queued out) = Some out" | "queued (Released out) = Some out" | "queued (Finished out) = Some out"
| "queued _ = None"

fun ended :: "member \<Rightarrow> agent_output option" where
  "ended (Ended out) = Some out" | "ended m = queued m"

fun settled :: "member \<Rightarrow> agent_output option" where
  "settled (Decided out) = Some out" | "settled m = ended m"

fun in_flight :: "member \<Rightarrow> bool" where
  "in_flight Idle = False" | "in_flight (Released _) = False" | "in_flight (Finished _) = False" | "in_flight _ = True"

text \<open>A list in the order of events, with one entry for each member that has got as far as \<open>f\<close>.\<close>

definition journal :: "(member \<Rightarrow> agent_output option) \<Rightarrow> member list \<Rightarrow> (nat \<times> agent_output) list \<Rightarrow> bool" where
  "journal f ms js \<longleftrightarrow> distinct (map fst js) \<and> (\<forall>i out. (i, out) \<in> set js \<longleftrightarrow> i < length ms \<and> f (ms ! i) = Some out)"

lemma journal_same: "journal f ms js \<Longrightarrow> i < length ms \<Longrightarrow> f m = f (ms ! i) \<Longrightarrow> journal f (ms[i := m]) js"
  by (auto simp: journal_def nth_list_update)

lemma journal_add:
  "journal f ms js \<Longrightarrow> i < length ms \<Longrightarrow> f (ms ! i) = None \<Longrightarrow> f m = Some out \<Longrightarrow> journal f (ms[i := m]) (js @ [(i, out)])"
  by (auto simp: journal_def nth_list_update)

definition log_kept :: "workflow \<Rightarrow> member list \<Rightarrow> wf_event list \<Rightarrow> bool" where
  "log_kept w ms evs \<longleftrightarrow> (\<exists>es. evs = opening_events w @ map (end_event w) es \<and> journal ended ms es)"

lemma log_same: "log_kept w ms evs \<Longrightarrow> i < length ms \<Longrightarrow> ended m = ended (ms ! i) \<Longrightarrow> log_kept w (ms[i := m]) evs"
  using journal_same [of ended ms _ i m] unfolding log_kept_def by blast

lemma log_add:
  assumes "log_kept w ms evs" "i < length ms" "ended (ms ! i) = None" "ended m = Some out"
  shows "log_kept w (ms[i := m]) (evs @ [end_event w (i, out)])"
proof -
  from assms(1) obtain es where "evs = opening_events w @ map (end_event w) es" "journal ended ms es"
    by (auto simp: log_kept_def)
  with journal_add [OF this(2) assms(2-4)] show ?thesis by (auto simp: log_kept_def intro!: exI [of _ "es @ [(i, out)]"])
qed

definition run_inv :: "workflow \<Rightarrow> run_state \<Rightarrow> bool" where
  "run_inv w st \<longleftrightarrow>
     length (rs_members st) = length (wf_agents w) \<and> rs_next st \<le> length (wf_agents w) \<and>
     (\<forall>i<length (wf_agents w). i < rs_next st \<longleftrightarrow> rs_members st ! i \<noteq> Idle) \<and>
     rs_sem st = length (filter in_flight (rs_members st)) \<and> rs_sem st \<le> parallel_limit w \<and>
     journal queued (rs_members st) (rs_results st) \<and>
     log_kept w (rs_members st) (rs_events st) \<and>
     (\<forall>i<length (wf_agents w). \<forall>out. settled (rs_members st ! i) = Some out \<longrightarrow>
        ao_seq out = int i + 1 \<and> ao_label out = wa_label (wf_agents w ! i))"

lemma flight_update:
  "i < length ms \<Longrightarrow> length (filter in_flight (ms[i := m])) + (if in_flight (ms ! i) then 1 else 0) =
     length (filter in_flight ms) + (if in_flight m then 1 else 0)"
proof (induction ms arbitrary: i)
  case (Cons a ms)
  then show ?case using Cons.IH [of "i - 1"] by (cases i) (auto split: if_splits)
qed simp

lemma becomes_simps [simp]:
  "rs_members (becomes i m st) = (rs_members st)[i := m]" "rs_next (becomes i m st) = rs_next st"
  "rs_sem (becomes i m st) = rs_sem st" "rs_results (becomes i m st) = rs_results st"
  "rs_events (becomes i m st) = rs_events st" "rs_cancelled (becomes i m st) = rs_cancelled st"
  by (simp_all add: becomes_def)

lemma inv_begin: "run_inv w (run_begin w c)"
  by (auto simp: run_inv_def run_begin_def journal_def log_kept_def filter_empty_conv in_set_conv_nth)

text \<open>A member that goes on without touching semaphore, channel and log.\<close>

lemma inv_local:
  assumes "run_inv w st" "i < length (rs_members st)" "rs_members st ! i \<noteq> Idle" "m \<noteq> Idle"
    and "queued m = queued (rs_members st ! i)" "ended m = ended (rs_members st ! i)"
    and "in_flight m = in_flight (rs_members st ! i)"
    and "\<And>out. settled m = Some out \<Longrightarrow> ao_seq out = int i + 1 \<and> ao_label out = wa_label (wf_agents w ! i)"
  shows "run_inv w (becomes i m st)"
  using assms flight_update [OF assms(2), of m] unfolding run_inv_def
  by (auto simp: nth_list_update journal_same log_same)

lemma settled_ended: "ended m = Some out \<Longrightarrow> settled m = Some out" "queued m = Some out \<Longrightarrow> ended m = Some out"
  by (cases m; simp)+

lemma inv_step: "run_step w spawner st st' \<Longrightarrow> run_inv w st \<Longrightarrow> run_inv w st'"
proof (induction rule: run_step.induct)
  case (launch st w spawner)
  then have "rs_members st ! rs_next st = Idle" "rs_next st < length (wf_agents w)" by (auto simp: run_inv_def)
  with launch flight_update [of "rs_next st" "rs_members st" Launched] show ?case
    unfolding run_inv_def by (auto simp: nth_list_update journal_same log_same less_Suc_eq)
next
  case (agent_end i out st w spawner)
  then have "log_kept w ((rs_members st)[i := Ended out]) (rs_events st @ [end_event w (i, out)])"
    by (intro log_add) (auto simp: run_inv_def member_is_def)
  with agent_end flight_update [of i "rs_members st" "Ended out"]
  show ?case unfolding run_inv_def member_is_def by (auto simp: nth_list_update journal_same)
next
  case (send i out st w spawner)
  then have "journal queued ((rs_members st)[i := Queued out]) (rs_results st @ [(i, out)])"
    by (intro journal_add) (auto simp: run_inv_def member_is_def)
  with send flight_update [of i "rs_members st" "Queued out"]
  show ?case unfolding run_inv_def member_is_def by (auto simp: nth_list_update log_same)
next
  case (release i out st w spawner)
  with flight_update [of i "rs_members st" "Released out"]
  show ?case unfolding run_inv_def member_is_def by (auto simp: nth_list_update journal_same log_same)
qed (rule inv_local; auto simp: member_is_def run_inv_def output_of_def spawned_output_def split: option.splits prod.splits)+

lemma inv_reach: "run_reach w spawner st \<Longrightarrow> run_inv w st"
proof (induction rule: run_reach.induct)
  case (cancel_run st)
  then show ?case by (simp add: run_inv_def)
qed (auto intro: inv_begin inv_step)

section \<open>The end of a parallel run\<close>

abbreviation place_results :: "(nat \<times> agent_output) list \<Rightarrow> agent_output list \<Rightarrow> agent_output list" where
  "place_results js xs \<equiv> fold (\<lambda>(i, out) outs. outs[i := out]) js xs"

lemma length_placed: "length (place_results js xs) = length xs"
  by (induction js arbitrary: xs) auto

lemma placed: "distinct (map fst js) \<Longrightarrow> (i, out) \<in> set js \<Longrightarrow> i < length xs \<Longrightarrow> place_results js xs ! i = out"
proof (induction js rule: rev_induct)
  case (snoc j js)
  obtain a b where j: "j = (a, b)" by (cases j)
  show ?case
  proof (cases "(i, out) \<in> set js")
    case True
    with snoc.prems j have "a \<noteq> i" by force
    with True snoc j show ?thesis by simp
  next
    case False
    with snoc.prems j show ?thesis by (simp add: length_placed)
  qed
qed simp

lemma journal_members:
  assumes "journal f ms js" "\<And>i. i < length ms \<Longrightarrow> f (ms ! i) = Some (outs ! i)" "length outs = length ms"
  shows "distinct (map fst js)" "set (map fst js) = {..<length ms}" "set (map snd js) = set outs"
    "map (end_event w) js = map (\<lambda>i. end_event w (i, outs ! i)) (map fst js)"
proof -
  have mem: "(i, out) \<in> set js \<longleftrightarrow> i < length ms \<and> out = outs ! i" for i out
    using assms(1,2) by (auto simp: journal_def)
  show "distinct (map fst js)" using assms(1) by (simp add: journal_def)
  have js: "set js = (\<lambda>i. (i, outs ! i)) ` {..<length ms}" using mem by auto
  show "set (map fst js) = {..<length ms}" by (simp add: js image_image)
  have "set outs = (\<lambda>i. outs ! i) ` {..<length ms}" by (auto simp: set_conv_nth assms(3))
  then show "set (map snd js) = set outs" by (simp add: js image_image)
  have "j = (fst j, outs ! fst j)" if "j \<in> set js" for j using mem [of "fst j" "snd j"] that by (cases j) simp
  then show "map (end_event w) js = map (\<lambda>i. end_event w (i, outs ! i)) (map fst js)" by (auto simp: comp_def)
qed

lemma parallel_record:
  assumes "run_reach w spawner st" "all_finished st"
  shows "case finish_parallel w st of (evs, r) \<Rightarrow> complete_record w evs r"
proof -
  note inv = inv_reach [OF assms(1), unfolded run_inv_def]
  let ?ms = "rs_members st" and ?n = "length (wf_agents w)"
  let ?outs = "place_results (rs_results st)
    (replicate ?n \<lparr>ao_seq = 0, ao_label = [], ao_outcome = [], ao_output = []\<rparr>)"
  have j: "journal queued ?ms (rs_results st)" "length ?ms = ?n" using inv by auto
  have len: "length ?outs = length ?ms" using j(2) by (simp add: length_placed)
  have fin: "?ms ! i = Finished (?outs ! i)" if "i < length ?ms" for i
  proof -
    from assms(2) nth_mem [OF that] obtain out where "?ms ! i = Finished out" unfolding all_finished_def by blast
    moreover from this that j have "(i, out) \<in> set (rs_results st)" by (auto simp: journal_def)
    with placed [of "rs_results st" i out] j that have "?outs ! i = out" by (simp add: journal_def)
    ultimately show ?thesis by simp
  qed
  from inv obtain es where es: "rs_events st = opening_events w @ map (end_event w) es" "journal ended ?ms es"
    by (auto simp: log_kept_def)
  note ends = journal_members [OF es(2) _ len] and res = journal_members [OF j(1) _ len]
  have "complete_record w (opening_events w @ map (\<lambda>i. end_event w (i, ?outs ! i)) (map fst es) @
      [RunEndEv (wf_id w) (fst (fold settle (map snd (rs_results st)) (StopCompleted, [])))])
    (close_run w ?outs (fold settle (map snd (rs_results st)) (StopCompleted, [])))"
  proof (rule closed_record)
    show "set (map snd (rs_results st)) = set ?outs" by (rule res(3)) (simp add: fin)
    show "distinct (map fst es)" "set (map fst es) = {..<?n}" using ends(1,2) fin j(2) by auto
    fix i assume "i < ?n"
    with inv fin [of i] j(2) show "ao_seq (?outs ! i) = int i + 1 \<and> ao_label (?outs ! i) = wa_label (wf_agents w ! i)" by auto
  qed (use len j(2) in simp_all)
  moreover have "map (end_event w) es = map (\<lambda>i. end_event w (i, ?outs ! i)) (map fst es)" by (rule ends(4)) (simp add: fin)
  ultimately show ?thesis unfolding finish_parallel_def Let_def es(1) by (simp del: map_map map_eq_conv)
qed

section \<open>Progress\<close>

fun rank :: "member \<Rightarrow> nat" where
  "rank Idle = 7" | "rank Launched = 6" | "rank Spawning = 5" | "rank (Decided _) = 4" | "rank (Ended _) = 3"
| "rank (Queued _) = 2" | "rank (Released _) = 1" | "rank (Finished _) = 0"

definition pending_steps :: "run_state \<Rightarrow> nat" where
  "pending_steps st = sum_list (map rank (rs_members st))"

lemma rank_update: "i < length ms \<Longrightarrow> rank m < rank (ms ! i) \<Longrightarrow> sum_list (map rank (ms[i := m])) < sum_list (map rank ms)"
proof (induction ms arbitrary: i)
  case (Cons a ms)
  then show ?case using Cons.IH [of "i - 1"] by (cases i) auto
qed simp

lemma step_descends: "run_step w spawner st st' \<Longrightarrow> run_inv w st \<Longrightarrow> pending_steps st' < pending_steps st"
proof (induction rule: run_step.induct)
  case (launch st w spawner)
  then have "rs_members st ! rs_next st = Idle" by (auto simp: run_inv_def)
  with launch show ?case by (auto simp: pending_steps_def intro: rank_update)
qed (auto simp: pending_steps_def member_is_def intro!: rank_update)

lemma member_steps:
  assumes "i < length (rs_members st)" "rs_members st ! i \<noteq> Idle" "\<forall>out. rs_members st ! i \<noteq> Finished out"
  shows "\<exists>st'. run_step w spawner st st'"
proof -
  have at: "member_is i m st" if "rs_members st ! i = m" for m using assms(1) that by (simp add: member_is_def)
  show ?thesis
  proof (cases "rs_members st ! i")
    case Launched
    from at [OF this] show ?thesis
      using cancelled_before [of i st] no_spawner [of i st] spawn [of i st] by (cases "rs_cancelled st"; cases spawner) blast+
  next
    case Spawning
    from spawned [OF at [OF this]] show ?thesis by blast
  next
    case (Decided out)
    from agent_end [OF at [OF this]] show ?thesis by blast
  next
    case (Ended out)
    from send [OF at [OF this]] show ?thesis by blast
  next
    case (Queued out)
    from release [OF at [OF this]] show ?thesis by blast
  next
    case (Released out)
    from wg_done [OF at [OF this]] show ?thesis by blast
  qed (use assms in auto)
qed

lemma never_stuck:
  assumes inv: "run_inv w st" and "\<not> all_finished st"
  shows "\<exists>st'. run_step w spawner st st'"
proof (cases "\<exists>i<length (rs_members st). rs_members st ! i \<noteq> Idle \<and> (\<forall>out. rs_members st ! i \<noteq> Finished out)")
  case True
  then show ?thesis using member_steps by blast
next
  case False
  then have rest: "rs_members st ! i = Idle \<or> (\<exists>out. rs_members st ! i = Finished out)" if "i < length (rs_members st)" for i
    using that by blast
  then have "filter in_flight (rs_members st) = []"
    by (auto simp: filter_empty_conv in_set_conv_nth) (metis in_flight.simps(1,3))
  with inv have sem: "rs_sem st = 0" by (simp add: run_inv_def)
  from assms(2) obtain i where i: "i < length (rs_members st)" "\<forall>out. rs_members st ! i \<noteq> Finished out"
    by (auto simp: all_finished_def in_set_conv_nth)
  with rest [OF i(1)] inv have "\<not> i < rs_next st" "i < length (wf_agents w)" by (auto simp: run_inv_def)
  with inv i(1) have "rs_next st < length (rs_members st)" "length (wf_agents w) > 0" by (auto simp: run_inv_def)
  moreover from this(2) sem have "rs_sem st < parallel_limit w" by (simp add: parallel_limit_def)
  ultimately show ?thesis using launch by blast
qed

section \<open>Properties\<close>

text \<open>
  C29. However a run is scheduled, whatever the spawner answers and whenever the context is cancelled, its record is
  complete: after the run start and one start per member in their order there is exactly one end per member, each with
  the outcome the result reports for it, and the run end comes last; the result has the outputs in the order of the
  members, is cancelled if one of them is, an error if none is and one failed, and its error text is that of a failed
  member.  The same holds for a run one member after the other.
\<close>
theorem workflow_record_complete:
  "(case run_sequential w spawns ctx of (evs, r) \<Rightarrow> complete_record w evs r) \<and>
   (run_reach w spawner st \<longrightarrow> all_finished st \<longrightarrow> (case finish_parallel w st of (evs, r) \<Rightarrow> complete_record w evs r))"
  by (intro conjI impI sequential_record parallel_record)

definition sample_run :: workflow where
  "sample_run = \<lparr>wf_id = ''r'', wf_meta = \<lparr>wm_name = ''n'', wm_description = ''d'', wm_when = [], wm_phases = []\<rparr>,
     wf_agents = [\<lparr>wa_label = ''a'', wa_role = ''r'', wa_prompt = ''p'', wa_phase = [], wa_provider = [], wa_model = []\<rparr>],
     wf_parallel = True, wf_max_parallel = 0\<rparr>"

lemma reach_via:
  "run_reach w spawner st \<Longrightarrow> run_step w spawner st st' \<Longrightarrow> rs_members st' = ms \<Longrightarrow> rs_cancelled st' = c \<Longrightarrow>
   \<exists>st. run_reach w spawner st \<and> rs_members st = ms \<and> rs_cancelled st = c"
  using step_run by blast

lemma sample_reaches_end: "\<exists>st. run_reach sample_run True st \<and> all_finished st"
proof -
  let ?out = "output_of sample_run 0 OutcomeCompleted ''o''"
  let ?at = "\<lambda>m. \<exists>st. run_reach sample_run True st \<and> rs_members st = [m] \<and> rs_cancelled st = False"
  note go = member_is_def spawned_output_def
  have "?at Launched"
    by (rule reach_via [OF begin_run [where cancelled = False] launch]) (simp_all add: run_begin_def sample_run_def parallel_limit_def)
  then obtain s1 where s1: "run_reach sample_run True s1" "rs_members s1 = [Launched]" "\<not> rs_cancelled s1" by auto
  have "?at Spawning" by (rule reach_via [OF s1(1) spawn [of 0]]) (simp_all add: go s1)
  then obtain s2 where s2: "run_reach sample_run True s2" "rs_members s2 = [Spawning]" "\<not> rs_cancelled s2" by auto
  have "?at (Decided ?out)"
    by (rule reach_via [OF s2(1) spawned [where i = 0 and answer = "(\<lparr>gr_output = ''o'', gr_child = []\<rparr>, None)"]]) (simp_all add: go s2)
  then obtain s3 where s3: "run_reach sample_run True s3" "rs_members s3 = [Decided ?out]" "\<not> rs_cancelled s3" by auto
  have "?at (Ended ?out)" by (rule reach_via [OF s3(1) agent_end [where i = 0 and out = ?out]]) (simp_all add: go s3)
  then obtain s4 where s4: "run_reach sample_run True s4" "rs_members s4 = [Ended ?out]" "\<not> rs_cancelled s4" by auto
  have "?at (Queued ?out)" by (rule reach_via [OF s4(1) send [where i = 0 and out = ?out]]) (simp_all add: go s4)
  then obtain s5 where s5: "run_reach sample_run True s5" "rs_members s5 = [Queued ?out]" "\<not> rs_cancelled s5" by auto
  have "?at (Released ?out)" by (rule reach_via [OF s5(1) release [where i = 0 and out = ?out]]) (simp_all add: go s5)
  then obtain s6 where s6: "run_reach sample_run True s6" "rs_members s6 = [Released ?out]" "\<not> rs_cancelled s6" by auto
  have "?at (Finished ?out)" by (rule reach_via [OF s6(1) wg_done [where i = 0 and out = ?out]]) (simp_all add: go s6)
  then show ?thesis by (auto simp: all_finished_def)
qed

lemma workflow_record_complete_witness:
  "\<exists>st. run_reach sample_run True st \<and> all_finished st \<and>
     (case finish_parallel sample_run st of (evs, r) \<Rightarrow> complete_record sample_run evs r)"
proof -
  obtain st where "run_reach sample_run True st" "all_finished st" using sample_reaches_end by blast
  then show ?thesis using workflow_record_complete [of sample_run "\<lambda>_. None" "\<lambda>_. (False, False)" True st] by auto
qed

text \<open>
  C30. A parallel run comes to its end.  In every state it can reach at most \<open>parallel_limit\<close> members are in flight;
  until all members have finished some goroutine can go on, and every step of one brings the run nearer to the end,
  so a run takes at most seven steps for each member.
\<close>
theorem workflow_settles:
  assumes "run_reach w spawner st"
  shows "length (filter in_flight (rs_members st)) \<le> parallel_limit w \<and>
    (all_finished st \<or> (\<exists>st'. run_step w spawner st st')) \<and>
    (\<forall>st'. run_step w spawner st st' \<longrightarrow> pending_steps st' < pending_steps st) \<and>
    pending_steps st \<le> 7 * length (wf_agents w)"
proof -
  have inv: "run_inv w st" by (rule inv_reach [OF assms])
  have "rank m \<le> 7" for m by (cases m) auto
  then have "sum_list (map rank ms) \<le> 7 * length ms" for ms by (induction ms) (auto simp: add_le_mono)
  with inv have "pending_steps st \<le> 7 * length (wf_agents w)" unfolding pending_steps_def run_inv_def by metis
  with inv never_stuck [OF inv] step_descends [OF _ inv] show ?thesis by (auto simp: run_inv_def)
qed

lemma workflow_settles_witness:
  "\<exists>st'. run_step sample_run False (run_begin sample_run True) st' \<and> pending_steps st' < 7"
proof -
  have "pending_steps (run_begin sample_run True) = 7" "\<not> all_finished (run_begin sample_run True)"
    by (simp_all add: pending_steps_def run_begin_def sample_run_def all_finished_def)
  with workflow_settles [OF begin_run [where w = sample_run and spawner = False and cancelled = True]] show ?thesis by auto
qed

text \<open>A later failure overwrites the error of an earlier one.\<close>

lemma settle_keeps_latest:
  "snd (fold settle [output_of w 0 OutcomeFailed ''first'', output_of w 1 OutcomeFailed ''second''] (StopCompleted, [])) = ''second''"
  by (simp add: settle_def output_of_def)

end
