(* ===== verification/Task_Graph.thy ===== *)
theory Task_Graph imports Prelude begin

text \<open>
  The cycle check of \<open>validateTaskGraph\<close> (\<open>pkg/tools/team.go\<close>): a depth-first search with the two
  maps \<open>visiting\<close> and \<open>visited\<close> as lists, and why it finds exactly the cycles.
\<close>

section \<open>The search\<close>

type_synonym marks = "string list \<times> string list"

text \<open>
  \<open>visit\<close> answers whether it met a task that is being visited; the blockers of a task not on the board are none.
  The number bounds the depth; \<open>None\<close> means that it was too small.
\<close>

fun visit :: "nat \<Rightarrow> (string \<Rightarrow> string list) \<Rightarrow> string \<Rightarrow> marks \<Rightarrow> (bool \<times> marks) option"
and visit_all :: "nat \<Rightarrow> (string \<Rightarrow> string list) \<Rightarrow> string list \<Rightarrow> marks \<Rightarrow> (bool \<times> marks) option" where
  "visit 0 deps x m = None"
| "visit (Suc n) deps x (visiting, visited) =
     (if x \<in> set visiting then Some (True, visiting, visited)
      else if x \<in> set visited then Some (False, visiting, visited)
      else (case visit_all n deps (deps x) (x # visiting, visited) of
          None \<Rightarrow> None
        | Some (True, m) \<Rightarrow> Some (True, m)
        | Some (False, visiting', visited') \<Rightarrow> Some (False, removeAll x visiting', x # visited')))"
| "visit_all n deps [] m = Some (False, m)"
| "visit_all n deps (x # xs) m =
     (case visit n deps x m of
        None \<Rightarrow> None
      | Some (True, m') \<Rightarrow> Some (True, m')
      | Some (False, m') \<Rightarrow> visit_all n deps xs m')"

definition search_depth :: "(string \<Rightarrow> string list) \<Rightarrow> string list \<Rightarrow> nat" where
  "search_depth deps ids = length ids + length (concat (map deps ids)) + 1"

text \<open>The loop over all tasks; the order is that of the list, Go leaves it open.\<close>

definition has_cycle :: "(string \<Rightarrow> string list) \<Rightarrow> string list \<Rightarrow> bool" where
  "has_cycle deps ids = (case visit_all (search_depth deps ids) deps ids ([], []) of Some (True, _) \<Rightarrow> True | _ \<Rightarrow> False)"

section \<open>Correctness\<close>

definition edges :: "(string \<Rightarrow> string list) \<Rightarrow> (string \<times> string) set" where
  "edges deps = {(x, y). y \<in> set (deps x)}"

text \<open>The tasks being visited form a path that ends at the first of them.\<close>

fun path_up :: "(string \<Rightarrow> string list) \<Rightarrow> string list \<Rightarrow> bool" where
  "path_up deps (y # x # xs) \<longleftrightarrow> y \<in> set (deps x) \<and> path_up deps (x # xs)"
| "path_up deps _ = True"

definition settled_marks :: "(string \<Rightarrow> string list) \<Rightarrow> string list \<Rightarrow> bool" where
  "settled_marks deps vd \<longleftrightarrow> (\<forall>x\<in>set vd. set (deps x) \<subseteq> set vd \<and> (x, x) \<notin> (edges deps)\<^sup>+)"

lemma path_reaches:
  "path_up deps (h # vg) \<Longrightarrow> x \<in> set vg \<Longrightarrow> (x, h) \<in> (edges deps)\<^sup>+"
proof (induction vg arbitrary: h)
  case (Cons g vg)
  then have "(g, h) \<in> edges deps" by (simp add: edges_def)
  with Cons show ?case by (cases "x = g") (auto intro: trancl_into_trancl)
qed simp

lemma closed_reach: "settled_marks deps vd \<Longrightarrow> x \<in> set vd \<Longrightarrow> (x, y) \<in> (edges deps)\<^sup>* \<Longrightarrow> y \<in> set vd"
  by (rotate_tac 2, induction rule: rtrancl_induct) (auto simp: settled_marks_def edges_def)

lemma finish_mark:
  assumes "settled_marks deps vd" "set (deps x) \<subseteq> set vd"
  shows "settled_marks deps (x # vd)"
proof -
  have "(x, x) \<notin> (edges deps)\<^sup>+"
  proof
    assume "(x, x) \<in> (edges deps)\<^sup>+"
    then obtain y where y: "(x, y) \<in> edges deps" "(y, x) \<in> (edges deps)\<^sup>*" by (meson tranclD)
    then have "y \<in> set vd" using assms(2) by (auto simp: edges_def)
    moreover from y have "(y, y) \<in> (edges deps)\<^sup>+" by (meson rtrancl_into_trancl1)
    ultimately show False using assms(1) by (auto simp: settled_marks_def)
  qed
  with assms show ?thesis by (auto simp: settled_marks_def)
qed

text \<open>What a search answers, from marks that are right.\<close>

definition answer_right :: "(string \<Rightarrow> string list) \<Rightarrow> string list \<Rightarrow> string list \<Rightarrow> string list \<Rightarrow> bool \<times> marks \<Rightarrow> bool" where
  "answer_right deps xs vg vd r \<longleftrightarrow>
     (if fst r then \<exists>z. (z, z) \<in> (edges deps)\<^sup>+
      else fst (snd r) = vg \<and> set vd \<subseteq> set (snd (snd r)) \<and> set xs \<subseteq> set (snd (snd r)) \<and> settled_marks deps (snd (snd r)))"

lemma search_right:
  "visit n deps x m = Some r \<Longrightarrow> m = (vg, vd) \<Longrightarrow> path_up deps (x # vg) \<Longrightarrow> settled_marks deps vd \<Longrightarrow>
   answer_right deps [x] vg vd r"
  "visit_all n deps xs m = Some r \<Longrightarrow> m = (vg, vd) \<Longrightarrow> \<forall>x\<in>set xs. path_up deps (x # vg) \<Longrightarrow> settled_marks deps vd \<Longrightarrow>
   answer_right deps xs vg vd r"
proof (induction n deps x m and n deps xs m arbitrary: r vg vd and r vg vd rule: visit_visit_all.induct)
  case (2 n deps x visiting visited)
  show ?case
  proof (cases "x \<in> set vg")
    case True
    with 2(4) have "(x, x) \<in> (edges deps)\<^sup>+" by (rule path_reaches)
    with 2(2,3) True show ?thesis by (auto simp: answer_right_def)
  next
    case new: False
    show ?thesis
    proof (cases "x \<in> set vd")
      case True
      with new 2(2-5) show ?thesis by (auto simp: answer_right_def)
    next
      case False
      with new 2(2,3) obtain a where a: "visit_all n deps (deps x) (x # vg, vd) = Some a" by (auto split: option.splits)
      have "\<forall>y\<in>set (deps x). path_up deps (y # x # vg)" using 2(4) by simp
      with 2(1) [of a "x # vg" vd] new False 2(3,5) a have r: "answer_right deps (deps x) (x # vg) vd a" by simp
      obtain b vg' vd' where ab: "a = (b, vg', vd')" by (cases a)
      show ?thesis
      proof (cases b)
        case True
        with 2(2,3) new False a ab r show ?thesis by (auto simp: answer_right_def)
      next
        case nb: False
        with r ab have m: "vg' = x # vg" "set vd \<subseteq> set vd'" "settled_marks deps (x # vd')"
          by (auto simp: answer_right_def intro: finish_mark)
        with 2(2,3) new False a ab nb show ?thesis by (auto simp: answer_right_def)
      qed
    qed
  qed
next
  case (4 n deps x xs m)
  obtain a where a: "visit n deps x (vg, vd) = Some a" using 4(3,4) by (auto split: option.splits)
  with 4(1) [of a vg vd] 4(4-6) have r: "answer_right deps [x] vg vd a" by simp
  obtain b vg' vd' where ab: "a = (b, vg', vd')" by (cases a)
  show ?case
  proof (cases b)
    case True
    with 4(3,4) a ab r show ?thesis by (auto simp: answer_right_def)
  next
    case False
    with r ab have m: "vg' = vg" "set vd \<subseteq> set vd'" "x \<in> set vd'" "settled_marks deps vd'" by (auto simp: answer_right_def)
    with 4(3,4) a ab False have "visit_all n deps xs (vg, vd') = Some r" by simp
    with 4(2) [of a b "(vg', vd')" r vg vd'] 4(4,5) m a ab False have "answer_right deps xs vg vd' r" by simp
    with m show ?thesis by (auto simp: answer_right_def) blast
  qed
qed (auto simp: answer_right_def)

text \<open>The depth is enough: along a path every task is new.\<close>

lemma search_deep_enough:
  "m = (vg, vd) \<Longrightarrow> finite N \<Longrightarrow> x \<in> N \<Longrightarrow> \<forall>y\<in>N. set (deps y) \<subseteq> N \<Longrightarrow> set vg \<subseteq> N \<Longrightarrow> card (N - set vg) < n \<Longrightarrow>
   \<exists>b vg' vd'. visit n deps x m = Some (b, vg', vd') \<and> (\<not> b \<longrightarrow> set vg' = set vg)"
  "m = (vg, vd) \<Longrightarrow> finite N \<Longrightarrow> set xs \<subseteq> N \<Longrightarrow> \<forall>y\<in>N. set (deps y) \<subseteq> N \<Longrightarrow> set vg \<subseteq> N \<Longrightarrow> card (N - set vg) < n \<Longrightarrow>
   \<exists>b vg' vd'. visit_all n deps xs m = Some (b, vg', vd') \<and> (\<not> b \<longrightarrow> set vg' = set vg)"
proof (induction n deps x m and n deps xs m arbitrary: vg vd and vg vd rule: visit_visit_all.induct)
  case (2 n deps x visiting visited)
  show ?case
  proof (cases "x \<in> set vg \<or> x \<in> set vd")
    case False
    then have "card (N - set (x # vg)) < card (N - set vg)"
      using 2(3,4) by (intro psubset_card_mono) auto
    with 2(7) have "card (N - set (x # vg)) < n" by simp
    with 2(1) [of "x # vg" vd] False 2(2-6)
    obtain b vg' vd' where "visit_all n deps (deps x) (x # vg, vd) = Some (b, vg', vd')" "\<not> b \<longrightarrow> set vg' = set (x # vg)"
      by auto
    with False 2(2) show ?thesis by (cases b) auto
  qed (use 2(2) in auto)
next
  case (4 n deps x xs m)
  obtain b vg' vd' where v: "visit n deps x (vg, vd) = Some (b, vg', vd')" "\<not> b \<longrightarrow> set vg' = set vg"
    using 4(1) [of vg vd] 4(3-8) by auto
  show ?case
  proof (cases b)
    case False
    with v 4(2) [of "(b, vg', vd')" b "(vg', vd')" vg' vd'] 4(3-8) show ?thesis by auto
  qed (use v 4(3) in auto)
qed auto

theorem has_cycle_iff:
  assumes "\<And>x. x \<notin> set ids \<Longrightarrow> deps x = []"
  shows "has_cycle deps ids \<longleftrightarrow> \<not> acyclic (edges deps)"
proof -
  let ?N = "set ids \<union> set (concat (map deps ids))"
  have closed: "\<forall>y\<in>?N. set (deps y) \<subseteq> ?N"
  proof
    fix y assume "y \<in> ?N"
    show "set (deps y) \<subseteq> ?N" by (cases "y \<in> set ids") (auto simp: assms)
  qed
  have "card (set (ids @ concat (map deps ids))) \<le> length (ids @ concat (map deps ids))" by (rule card_length)
  then have "card (?N - set []) < search_depth deps ids" by (simp add: search_depth_def)
  from search_deep_enough(2) [OF refl _ _ closed _ this, of ids "[]"] obtain b m where
    s: "visit_all (search_depth deps ids) deps ids ([], []) = Some (b, m)" by auto
  have "answer_right deps ids [] [] (b, m)" by (rule search_right(2) [OF s refl]) (simp_all add: settled_marks_def)
  moreover have "acyclic (edges deps)" if "settled_marks deps vd" "set ids \<subseteq> set vd" for vd
  proof (rule acyclicI, intro allI notI)
    fix x assume x: "(x, x) \<in> (edges deps)\<^sup>+"
    then obtain y where "(x, y) \<in> edges deps" by (meson tranclD)
    then have "x \<in> set ids" using assms by (fastforce simp: edges_def)
    with that x show False by (auto simp: settled_marks_def)
  qed
  ultimately show ?thesis using s
    by (cases m; cases b) (auto simp: answer_right_def has_cycle_def acyclic_def)
qed

end
