(* ===== verification/Team_Board.thy ===== *)
theory Team_Board imports Task_Graph Message_Codec Go_Strings "HOL-Library.AList" "HOL-Library.List_Lexorder" "HOL-Library.Char_ord" begin

text \<open>
  Agent teams (\<open>pkg/tools/team.go\<close>, \<open>team_service.go\<close>): the fold of the lead's log into roster,
  task board and mailbox, and the operations that fold the log, decide and emit.  A Go map is an
  association list; its order shows only in which blocked task the error of a deletion names.
\<close>

section \<open>Records\<close>

record team_member =
  tm_id :: string
  tm_name :: string
  tm_description :: string
  tm_provider :: string
  tm_context :: string
  tm_phase :: string
  tm_error :: string

record team_task =
  tt_id :: string
  tt_revision :: int
  tt_subject :: string
  tt_description :: string
  tt_status :: string
  tt_owner :: string
  tt_blocked_by :: "string list"
  tt_scopes :: "string list"

record team_message =
  te_id :: string
  te_sender :: string
  te_sender_name :: string
  te_target :: string
  te_delivery :: string
  te_content :: "content_block list"

abbreviation "EventTeamMember \<equiv> ''team/member''"
abbreviation "EventTeamTask \<equiv> ''team/task''"
abbreviation "EventTeamMessageQueued \<equiv> ''team/message/queued''"
abbreviation "EventTeamMessageDelivered \<equiv> ''team/message/delivered''"

datatype team_error =
    InvalidPayload string
  | NameReused string
  | MustBeginProvisioning string
  | IdentityChanged string
  | BadTransition string string string
  | MustBeginAtOne string
  | RevisionGap string
  | SelfBlock
  | DuplicateBlocker string
  | BlockerNotFound string
  | DependencyCycle
  | SubjectEmpty | DescriptionEmpty | SubjectTooLong | DescriptionTooLong
  | TaskNotFound string
  | RevisionMismatch int int
  | NotPending | NotOwner | NotInProgress | TaskIsBlocked | NotCompleted | NotAssignable
  | TeammateNotFound string
  | StillBlocks string string
  | UnsupportedAction string
  | BadTeammateName | NoProvider | NameUsed string | MemberLimit | SpawnFailed string | NotRunning string

section \<open>Payloads\<close>

definition team_event_version :: int where "team_event_version = 1"

definition member_json :: "team_member \<Rightarrow> json" where
  "member_json m = JObj ([(''id'', JStr (tm_id m)), (''name'', JStr (tm_name m)), (''description'', JStr (tm_description m)),
     (''provider'', JStr (tm_provider m)), (''context'', JStr (tm_context m)), (''phase'', JStr (tm_phase m))] @
     opt_str ''error'' (tm_error m))"

text \<open>A nil slice is printed as \<open>null\<close>, an empty one as \<open>[]\<close>; both are read as no elements.\<close>

definition strings_json :: "string list \<Rightarrow> json" where
  "strings_json ss = (if ss = [] then JNull else JArr (map JStr ss))"

definition task_json :: "team_task \<Rightarrow> json" where
  "task_json t = JObj ([(''id'', JStr (tt_id t)), (''revision'', JInt (tt_revision t)), (''subject'', JStr (tt_subject t)),
     (''description'', JStr (tt_description t)), (''status'', JStr (tt_status t))] @ opt_str ''ownerId'' (tt_owner t) @
     [(''blockedBy'', strings_json (tt_blocked_by t)), (''writeScopes'', strings_json (tt_scopes t))])"

definition message_json :: "team_message \<Rightarrow> json" where
  "message_json m = JObj [(''id'', JStr (te_id m)), (''senderId'', JStr (te_sender m)), (''senderName'', JStr (te_sender_name m)),
     (''targetId'', JStr (te_target m)), (''delivery'', JStr (te_delivery m)), (''content'', JArr (map enc_content_block (te_content m)))]"

definition team_payload :: "string \<Rightarrow> string \<Rightarrow> json \<Rightarrow> json" where
  "team_payload team key v = JObj [(''version'', JInt team_event_version), (''teamId'', JStr team), (key, v)]"

definition dec_member :: "(string \<times> json) list \<Rightarrow> team_member option" where
  "dec_member kvs =
     Option.bind (dec_string ''id'' kvs) (\<lambda>i. Option.bind (dec_string ''name'' kvs) (\<lambda>n.
     Option.bind (dec_string ''description'' kvs) (\<lambda>d. Option.bind (dec_string ''provider'' kvs) (\<lambda>p.
     Option.bind (dec_string ''context'' kvs) (\<lambda>c. Option.bind (dec_string ''phase'' kvs) (\<lambda>ph.
     map_option (\<lambda>e. \<lparr>tm_id = i, tm_name = n, tm_description = d, tm_provider = p, tm_context = c, tm_phase = ph, tm_error = e\<rparr>)
       (dec_string ''error'' kvs)))))))"

definition dec_task :: "(string \<times> json) list \<Rightarrow> team_task option" where
  "dec_task kvs =
     Option.bind (dec_string ''id'' kvs) (\<lambda>i. Option.bind (dec_int ''revision'' kvs) (\<lambda>r.
     Option.bind (dec_string ''subject'' kvs) (\<lambda>s. Option.bind (dec_string ''description'' kvs) (\<lambda>d.
     Option.bind (dec_string ''status'' kvs) (\<lambda>st. Option.bind (dec_string ''ownerId'' kvs) (\<lambda>ow.
     Option.bind (dec_list dec_string_elem ''blockedBy'' kvs) (\<lambda>bs.
     map_option (\<lambda>ws. \<lparr>tt_id = i, tt_revision = r, tt_subject = s, tt_description = d, tt_status = st, tt_owner = ow,
         tt_blocked_by = bs, tt_scopes = ws\<rparr>) (dec_list dec_string_elem ''writeScopes'' kvs))))))))"

definition dec_team_message :: "(string \<times> json) list \<Rightarrow> team_message option" where
  "dec_team_message kvs =
     Option.bind (dec_string ''id'' kvs) (\<lambda>i. Option.bind (dec_string ''senderId'' kvs) (\<lambda>s.
     Option.bind (dec_string ''senderName'' kvs) (\<lambda>n. Option.bind (dec_string ''targetId'' kvs) (\<lambda>t.
     Option.bind (dec_string ''delivery'' kvs) (\<lambda>d.
     map_option (\<lambda>c. \<lparr>te_id = i, te_sender = s, te_sender_name = n, te_target = t, te_delivery = d, te_content = c\<rparr>)
       (dec_list dec_content_block ''content'' kvs))))))"

text \<open>Version, team and the value of one payload.\<close>

definition dec_payload ::
  "((string \<times> json) list \<Rightarrow> 'a option) \<Rightarrow> (string \<times> json) list \<Rightarrow> (int \<times> string \<times> 'a) option" where
  "dec_payload d kvs =
     Option.bind (dec_int ''version'' kvs) (\<lambda>v. Option.bind (dec_string ''teamId'' kvs) (\<lambda>t.
       map_option (\<lambda>x. (v, t, x)) (d kvs)))"

section \<open>The fold\<close>

record team_state =
  ts_id :: string
  ts_members :: "(string \<times> team_member) list"
  ts_names :: "(string \<times> string) list"
  ts_tasks :: "(string \<times> team_task) list"
  ts_messages :: "(string \<times> team_message) list"
  ts_delivered :: "string list"
  ts_next :: int

definition empty_team :: "string \<Rightarrow> team_state" where
  "empty_team team = \<lparr>ts_id = team, ts_members = [], ts_names = [], ts_tasks = [], ts_messages = [], ts_delivered = [], ts_next = 1\<rparr>"

definition apply_team_member :: "team_member \<Rightarrow> team_state \<Rightarrow> team_error + team_state" where
  "apply_team_member m st =
     (if (case map_of (ts_names st) (tm_name m) of None \<Rightarrow> False | Some i \<Rightarrow> i \<noteq> tm_id m) then Inl (NameReused (tm_name m))
      else (case map_of (ts_members st) (tm_id m) of
          None \<Rightarrow>
            if tm_phase m \<noteq> ''provisioning'' then Inl (MustBeginProvisioning (tm_name m))
            else Inr (st\<lparr>ts_names := AList.update (tm_name m) (tm_id m) (ts_names st),
              ts_members := AList.update (tm_id m) m (ts_members st)\<rparr>)
        | Some prior \<Rightarrow>
            if tm_name prior \<noteq> tm_name m \<or> tm_provider prior \<noteq> tm_provider m \<or> tm_context prior \<noteq> tm_context m
            then Inl (IdentityChanged (tm_id m))
            else if tm_phase prior \<noteq> ''provisioning'' \<or> tm_phase m = ''provisioning''
            then Inl (BadTransition (tm_name m) (tm_phase prior) (tm_phase m))
            else Inr (st\<lparr>ts_members := AList.update (tm_id m) m (ts_members st)\<rparr>)))"

text \<open>The loop over the blockers of the candidate.\<close>

fun check_blockers :: "(string \<times> team_task) list \<Rightarrow> string \<Rightarrow> string list \<Rightarrow> string list \<Rightarrow> team_error option" where
  "check_blockers tasks self seen [] = None"
| "check_blockers tasks self seen (b # bs) =
     (if b = self then Some SelfBlock
      else if b \<in> set seen then Some (DuplicateBlocker b)
      else (case map_of tasks b of
          None \<Rightarrow> Some (BlockerNotFound b)
        | Some t \<Rightarrow> if tt_status t = ''deleted'' then Some (BlockerNotFound b) else check_blockers tasks self (b # seen) bs))"

definition blockers_in :: "(string \<times> team_task) list \<Rightarrow> string \<Rightarrow> string list" where
  "blockers_in tasks i = (case map_of tasks i of None \<Rightarrow> [] | Some t \<Rightarrow> tt_blocked_by t)"

definition validate_task_graph :: "(string \<times> team_task) list \<Rightarrow> team_task \<Rightarrow> team_error option" where
  "validate_task_graph tasks t =
     (case check_blockers tasks (tt_id t) [] (tt_blocked_by t) of
        Some e \<Rightarrow> Some e
      | None \<Rightarrow> (let all = AList.update (tt_id t) t tasks
          in if has_cycle (blockers_in all) (map fst all) then Some DependencyCycle else None))"

text \<open>\<open>^task-(\d+)$\<close> and \<open>strconv.Atoi\<close>, which stops at the largest integer.\<close>

definition task_id_number :: "string \<Rightarrow> int option" where
  "task_id_number i = (if has_prefix i ''task-'' then map_option (\<lambda>n. min (int n) (2 ^ 63 - 1)) (number (drop 5 i)) else None)"

definition task_num :: "string \<Rightarrow> int" where
  "task_num i = (case task_id_number i of Some n \<Rightarrow> n | None \<Rightarrow> 0)"

definition apply_team_task :: "team_task \<Rightarrow> team_state \<Rightarrow> team_error + team_state" where
  "apply_team_task t st =
     (let prior = map_of (ts_tasks st) (tt_id t)
      in if prior = None \<and> tt_revision t \<noteq> 1 then Inl (MustBeginAtOne (tt_id t))
         else if (case prior of None \<Rightarrow> False | Some p \<Rightarrow> tt_revision t \<noteq> wrap64 (tt_revision p + 1)) then Inl (RevisionGap (tt_id t))
         else (case validate_task_graph (ts_tasks st) t of
             Some e \<Rightarrow> Inl e
           | None \<Rightarrow> Inr (st\<lparr>ts_next := (case task_id_number (tt_id t) of None \<Rightarrow> ts_next st
                 | Some n \<Rightarrow> if ts_next st \<le> n then wrap64 (n + 1) else ts_next st),
               ts_tasks := AList.update (tt_id t) t (ts_tasks st)\<rparr>)))"

definition apply_team_event :: "string \<Rightarrow> session_envelope \<Rightarrow> team_state \<Rightarrow> team_error + team_state" where
  "apply_team_event team env st =
     (if env_type env = EventTeamMember
         then (case unmarshal (dec_payload (dec_struct dec_member ''member'')) (env_data env) of
             None \<Rightarrow> Inl (InvalidPayload EventTeamMember)
           | Some (v, t, m) \<Rightarrow> if v \<noteq> team_event_version \<or> t \<noteq> team then Inr st else apply_team_member m st)
         else if env_type env = EventTeamTask
         then (case unmarshal (dec_payload (dec_struct dec_task ''task'')) (env_data env) of
             None \<Rightarrow> Inl (InvalidPayload EventTeamTask)
           | Some (v, t, x) \<Rightarrow> if v \<noteq> team_event_version \<or> t \<noteq> team then Inr st else apply_team_task x st)
         else if env_type env = EventTeamMessageQueued
         then (case unmarshal (dec_payload (dec_struct dec_team_message ''message'')) (env_data env) of
             None \<Rightarrow> Inl (InvalidPayload EventTeamMessageQueued)
           | Some (v, t, m) \<Rightarrow> if v \<noteq> team_event_version \<or> t \<noteq> team then Inr st
               else Inr (st\<lparr>ts_messages := AList.update (te_id m) m (ts_messages st)\<rparr>))
         else if env_type env = EventTeamMessageDelivered
         then (case unmarshal (dec_payload (\<lambda>kvs. Option.bind (dec_string ''messageId'' kvs)
                 (\<lambda>i. map_option (\<lambda>_. i) (dec_string ''targetId'' kvs)))) (env_data env) of
             None \<Rightarrow> Inl (InvalidPayload EventTeamMessageDelivered)
           | Some (v, t, i) \<Rightarrow> if v \<noteq> team_event_version \<or> t \<noteq> team then Inr st
               else Inr (st\<lparr>ts_delivered := List.insert i (ts_delivered st)\<rparr>))
         else Inr st)"

fun fold_team_from :: "string \<Rightarrow> session_envelope list \<Rightarrow> team_state \<Rightarrow> team_error + team_state" where
  "fold_team_from team [] st = Inr st"
| "fold_team_from team (env # envs) st = and_then (apply_team_event team env st) (fold_team_from team envs)"

definition fold_team_events :: "session_envelope list \<Rightarrow> string \<Rightarrow> team_error + team_state" where
  "fold_team_events log team = fold_team_from team log (empty_team team)"

section \<open>Views\<close>

record team_task_view =
  tv_task :: team_task
  tv_owner_name :: string
  tv_ready :: bool
  tv_warnings :: "string list"

definition scopes_overlap :: "string \<Rightarrow> string \<Rightarrow> bool" where
  "scopes_overlap l r \<longleftrightarrow> l = r \<or> has_prefix l (r @ ''/'') \<or> has_prefix r (l @ ''/'')"

definition task_status :: "team_state \<Rightarrow> string \<Rightarrow> string" where
  "task_status st i = (case map_of (ts_tasks st) i of None \<Rightarrow> [] | Some t \<Rightarrow> tt_status t)"

definition task_ready :: "team_state \<Rightarrow> team_task \<Rightarrow> bool" where
  "task_ready st t \<longleftrightarrow> list_all (\<lambda>b. task_status st b = ''completed'') (tt_blocked_by t)"

definition owner_name :: "team_state \<Rightarrow> string \<Rightarrow> string" where
  "owner_name st i =
     (if i = [] then [] else if i = ts_id st then ''lead''
      else (case map_of (ts_members st) i of None \<Rightarrow> [] | Some m \<Rightarrow> tm_name m))"

definition team_task_view_of :: "team_state \<Rightarrow> team_task \<Rightarrow> team_task_view" where
  "team_task_view_of st t = \<lparr>tv_task = t, tv_owner_name = owner_name st (tt_owner t), tv_ready = task_ready st t,
     tv_warnings = sort (map (\<lambda>(_, x). ''overlaps '' @ tt_id x) (filter (\<lambda>(_, x). tt_id x \<noteq> tt_id t \<and> tt_status x = ''in_progress'' \<and>
       list_ex (\<lambda>a. list_ex (scopes_overlap a) (tt_scopes x)) (tt_scopes t)) (ts_tasks st)))\<rparr>"

end
