(* ===== verification/Team_Service.thy ===== *)
theory Team_Service imports Team_Board begin

text \<open>
  The operations of the team service (\<open>pkg/tools/team_service.go\<close>).  Each folds the log it is given and
  answers with an error or with what it emits and what it returns; the log is the caller's.  Waiting and
  its channels are left out.
\<close>

section \<open>The caller\<close>

record team_ctx =
  tx_session :: string
  tx_caller :: string
  tx_caller_name :: string

type_synonym emission = "string \<times> json"

definition caller_id :: "team_ctx \<Rightarrow> string" where
  "caller_id ctx = (if tx_caller ctx \<noteq> [] then tx_caller ctx else tx_session ctx)"

definition task_emission :: "team_ctx \<Rightarrow> team_task \<Rightarrow> emission" where
  "task_emission ctx t = (EventTeamTask, team_payload (tx_session ctx) ''task'' (task_json t))"

definition member_emission :: "team_ctx \<Rightarrow> team_member \<Rightarrow> emission" where
  "member_emission ctx m = (EventTeamMember, team_payload (tx_session ctx) ''member'' (member_json m))"

section \<open>Task board\<close>

definition team_task_create ::
  "team_ctx \<Rightarrow> session_envelope list \<Rightarrow> string \<Rightarrow> string \<Rightarrow> string list \<Rightarrow> string list \<Rightarrow>
   team_error + emission list \<times> team_task_view" where
  "team_task_create ctx log subject description blocked_by scopes =
     (if trim_space subject = [] then Inl SubjectEmpty
      else if trim_space description = [] then Inl DescriptionEmpty
      else if 200 < length subject then Inl SubjectTooLong
      else if 16384 < length description then Inl DescriptionTooLong
      else and_then (fold_team_events log (tx_session ctx)) (\<lambda>st.
        let t = \<lparr>tt_id = ''task-'' @ itoa (ts_next st), tt_revision = 1, tt_subject = subject, tt_description = description,
              tt_status = ''pending'', tt_owner = [], tt_blocked_by = blocked_by, tt_scopes = scopes\<rparr>
        in (case validate_task_graph (ts_tasks st) t of
            Some e \<Rightarrow> Inl e
          | None \<Rightarrow> Inr ([task_emission ctx t], team_task_view_of (st\<lparr>ts_tasks := AList.update (tt_id t) t (ts_tasks st)\<rparr>) t))))"

definition team_task_list ::
  "team_ctx \<Rightarrow> session_envelope list \<Rightarrow> string \<Rightarrow> team_error + team_task_view list" where
  "team_task_list ctx log status = and_then (fold_team_events log (tx_session ctx)) (\<lambda>st.
     Inr (map (\<lambda>(_, t). team_task_view_of st t) (filter (\<lambda>(_, t). tt_status t \<noteq> ''deleted'' \<and> (status = [] \<or> tt_status t = status))
       (sort_key (\<lambda>(i, _). task_num i) (ts_tasks st)))))"

definition team_task_get :: "team_ctx \<Rightarrow> session_envelope list \<Rightarrow> string \<Rightarrow> team_error + team_task_view" where
  "team_task_get ctx log i = and_then (fold_team_events log (tx_session ctx)) (\<lambda>st.
     case map_of (ts_tasks st) i of None \<Rightarrow> Inl (TaskNotFound i) | Some t \<Rightarrow> Inr (team_task_view_of st t))"

text \<open>The fields that were given.\<close>

record update_fields =
  uf_subject :: "string option"
  uf_description :: "string option"
  uf_blocked_by :: "string list option"
  uf_scopes :: "string list option"
  uf_owner :: "string option"

definition edit_task :: "update_fields \<Rightarrow> team_task \<Rightarrow> team_error + team_task" where
  "edit_task f t =
     and_then (case uf_subject f of None \<Rightarrow> Inr t
         | Some s \<Rightarrow> if trim_space s = [] then Inl SubjectEmpty else Inr (t\<lparr>tt_subject := s\<rparr>)) (\<lambda>t1.
     and_then (case uf_description f of None \<Rightarrow> Inr t1
         | Some d \<Rightarrow> if trim_space d = [] then Inl DescriptionEmpty else Inr (t1\<lparr>tt_description := d\<rparr>)) (\<lambda>t2.
     Inr (case uf_scopes f of None \<Rightarrow> t2 | Some ws \<Rightarrow> t2\<lparr>tt_scopes := ws\<rparr>)))"

text \<open>The candidate of the first check has an id and blockers only.\<close>

definition set_dependencies :: "team_state \<Rightarrow> update_fields \<Rightarrow> team_task \<Rightarrow> team_error + team_task" where
  "set_dependencies st f t =
     (let deps = (case uf_blocked_by f of None \<Rightarrow> [] | Some bs \<Rightarrow> bs)
      in (case validate_task_graph (ts_tasks st) \<lparr>tt_id = tt_id t, tt_revision = 0, tt_subject = [], tt_description = [],
               tt_status = [], tt_owner = [], tt_blocked_by = deps, tt_scopes = []\<rparr> of
          Some e \<Rightarrow> Inl e | None \<Rightarrow> Inr (t\<lparr>tt_blocked_by := deps\<rparr>)))"

definition reassign_task :: "team_ctx \<Rightarrow> team_state \<Rightarrow> update_fields \<Rightarrow> team_task \<Rightarrow> team_error + team_task" where
  "reassign_task ctx st f t =
     (let name = trim_space (case uf_owner f of None \<Rightarrow> [] | Some w \<Rightarrow> w)
      in if name = [] then Inr (t\<lparr>tt_status := ''pending'', tt_owner := []\<rparr>)
         else if name = ''lead'' then Inr (t\<lparr>tt_owner := tx_session ctx, tt_status := ''in_progress''\<rparr>)
         else (case map_of (ts_members st) name of
             None \<Rightarrow> Inl (TeammateNotFound name)
           | Some m \<Rightarrow> Inr (t\<lparr>tt_owner := tm_id m, tt_status := ''in_progress''\<rparr>)))"

definition dependent_of :: "team_state \<Rightarrow> team_task \<Rightarrow> string option" where
  "dependent_of st t = map_option (\<lambda>(_, x). tt_id x)
     (find (\<lambda>(_, x). tt_status x \<noteq> ''deleted'' \<and> tt_id x \<noteq> tt_id t \<and> tt_id t \<in> set (tt_blocked_by x)) (ts_tasks st))"

definition task_action ::
  "team_ctx \<Rightarrow> team_state \<Rightarrow> string \<Rightarrow> update_fields \<Rightarrow> team_task \<Rightarrow> team_error + team_task" where
  "task_action ctx st action f t =
     (if action = ''claim'' then
        (if tt_status t \<noteq> ''pending'' then Inl NotPending else Inr (t\<lparr>tt_status := ''in_progress'', tt_owner := caller_id ctx\<rparr>))
      else if action = ''release'' then
        (if tt_status t \<noteq> ''in_progress'' \<or> tt_owner t \<noteq> caller_id ctx then Inl NotOwner
         else Inr (t\<lparr>tt_status := ''pending'', tt_owner := []\<rparr>))
      else if action = ''edit'' then edit_task f t
      else if action = ''set_dependencies'' then set_dependencies st f t
      else if action = ''complete'' then
        (if tt_status t \<noteq> ''in_progress'' then Inl NotInProgress
         else if \<not> task_ready st t then Inl TaskIsBlocked else Inr (t\<lparr>tt_status := ''completed''\<rparr>))
      else if action = ''reopen'' then
        (if tt_status t \<noteq> ''completed'' then Inl NotCompleted else Inr (t\<lparr>tt_status := ''pending'', tt_owner := []\<rparr>))
      else if action = ''reassign'' then
        (if tt_status t \<noteq> ''pending'' \<and> tt_status t \<noteq> ''in_progress'' then Inl NotAssignable else reassign_task ctx st f t)
      else if action = ''delete'' then
        (case dependent_of st t of Some i \<Rightarrow> Inl (StillBlocks (tt_id t) i) | None \<Rightarrow> Inr (t\<lparr>tt_status := ''deleted''\<rparr>))
      else Inl (UnsupportedAction action))"

definition team_task_update ::
  "team_ctx \<Rightarrow> session_envelope list \<Rightarrow> string \<Rightarrow> int \<Rightarrow> string \<Rightarrow> update_fields \<Rightarrow>
   team_error + emission list \<times> team_task_view" where
  "team_task_update ctx log i expected action f = and_then (fold_team_events log (tx_session ctx)) (\<lambda>st.
     case map_of (ts_tasks st) i of
       None \<Rightarrow> Inl (TaskNotFound i)
     | Some t \<Rightarrow>
         if tt_revision t \<noteq> expected then Inl (RevisionMismatch expected (tt_revision t))
         else and_then (task_action ctx st action f t) (\<lambda>t1.
           let t2 = t1\<lparr>tt_revision := wrap64 (tt_revision t + 1)\<rparr>
           in (case validate_task_graph (ts_tasks st) t2 of
               Some e \<Rightarrow> Inl e | None \<Rightarrow> Inr ([task_emission ctx t2], team_task_view_of st t2))))"

section \<open>Mailbox and roster\<close>

definition resolve_team_target :: "team_state \<Rightarrow> string \<Rightarrow> string \<Rightarrow> team_error + string" where
  "resolve_team_target st lead raw =
     (let name = trim_space raw
      in if name = ''lead'' then Inr lead
         else (case map_of (ts_members st) name of
             Some m \<Rightarrow> if tm_phase m = ''active'' then Inr (tm_id m) else Inl (TeammateNotFound name)
           | None \<Rightarrow> Inl (TeammateNotFound name)))"

text \<open>\<open>live\<close>: the children of the runtime of this lead, if it is registered; the flag is \<open>accepted\<close>.\<close>

definition team_message_send ::
  "team_ctx \<Rightarrow> int \<Rightarrow> string list option \<Rightarrow> session_envelope list \<Rightarrow> string \<Rightarrow> string \<Rightarrow> string \<Rightarrow>
   team_error + emission list \<times> string \<times> bool" where
  "team_message_send ctx nanos live log target msg delivery = and_then (fold_team_events log (tx_session ctx)) (\<lambda>st.
     and_then (resolve_team_target st (tx_session ctx) target) (\<lambda>to.
       let m = \<lparr>te_id = ''msg-'' @ itoa nanos, te_sender = tx_caller ctx, te_sender_name = tx_caller_name ctx, te_target = to,
             te_delivery = delivery, te_content = [text_block msg]\<rparr>
       in Inr ([(EventTeamMessageQueued, team_payload (tx_session ctx) ''message'' (message_json m))], te_id m,
            (case live of None \<Rightarrow> False | Some cs \<Rightarrow> to \<noteq> tx_session ctx \<and> to \<in> set cs))))"

definition lower_or_digit :: "char \<Rightarrow> bool" where
  "lower_or_digit c \<longleftrightarrow> (let n = of_char c :: nat in 97 \<le> n \<and> n \<le> 122 \<or> 48 \<le> n \<and> n \<le> 57)"

text \<open>\<open>^[a-z0-9]+(?:-[a-z0-9]+)*$\<close>.\<close>

definition member_name_ok :: "string \<Rightarrow> bool" where
  "member_name_ok s \<longleftrightarrow> list_all (\<lambda>w. w \<noteq> [] \<and> list_all lower_or_digit w) (split_on (CHR ''-'') s)"

definition team_member_name_max :: nat where "team_member_name_max = 64"

text \<open>The spawner answers with an error text or the id of the child; the second result is the children then live.\<close>

definition spawn_teammate ::
  "team_ctx \<Rightarrow> (string \<Rightarrow> string \<Rightarrow> string \<Rightarrow> string \<Rightarrow> string + string) option \<Rightarrow> string list option \<Rightarrow>
   session_envelope list \<Rightarrow> string \<Rightarrow> string \<Rightarrow> string \<Rightarrow> string \<Rightarrow> team_error + emission list \<times> string list option \<times> team_member" where
  "spawn_teammate ctx spawner live log name description prompt mode =
     (if \<not> member_name_ok name \<or> team_member_name_max < length name \<or> name = ''lead'' then Inl BadTeammateName
      else if trim_space description = [] then Inl DescriptionEmpty
      else (case spawner of
          None \<Rightarrow> Inl NoProvider
        | Some sp \<Rightarrow> and_then (fold_team_events log (tx_session ctx)) (\<lambda>st.
            if map_of (ts_names st) name \<noteq> None then Inl (NameUsed name)
            else if 16 \<le> length (ts_members st) then Inl MemberLimit
            else (case sp name description prompt mode of
                Inl e \<Rightarrow> Inl (SpawnFailed e)
              | Inr i \<Rightarrow>
                  (let m = \<lparr>tm_id = i, tm_name = name, tm_description = description, tm_provider = ''spawn'', tm_context = mode,
                         tm_phase = ''provisioning'', tm_error = []\<rparr>;
                       m1 = m\<lparr>tm_phase := ''active''\<rparr>
                   in Inr ([member_emission ctx m, member_emission ctx m1], map_option (List.insert i) live, m1))))))"

text \<open>The status the roster shows, and the interrupt.\<close>

definition member_status :: "string list option \<Rightarrow> team_member \<Rightarrow> string" where
  "member_status live m =
     (if tm_phase m = ''failed'' then ''failed''
      else (case live of None \<Rightarrow> ''inactive'' | Some cs \<Rightarrow> if tm_id m \<in> set cs then ''running'' else ''inactive''))"

definition team_list_members ::
  "team_ctx \<Rightarrow> string list option \<Rightarrow> session_envelope list \<Rightarrow> team_error + (string \<times> string \<times> string) list" where
  "team_list_members ctx live log = and_then (fold_team_events log (tx_session ctx)) (\<lambda>st.
     Inr (sort_key (\<lambda>(_, n, _). n) ((tx_session ctx, ''lead'', ''running'') #
       map (\<lambda>(_, m). (tm_id m, tm_name m, member_status live m)) (ts_members st))))"

definition interrupt_agent ::
  "team_ctx \<Rightarrow> string list option \<Rightarrow> session_envelope list \<Rightarrow> string \<Rightarrow> team_error + string option" where
  "interrupt_agent ctx live log target = and_then (fold_team_events log (tx_session ctx)) (\<lambda>st.
     let name = trim_space target
     in if name = ''lead'' then Inr None
        else (case map_of (ts_members st) name of
            None \<Rightarrow> Inl (TeammateNotFound name)
          | Some m \<Rightarrow> (case live of
                None \<Rightarrow> Inl (NotRunning name)
              | Some cs \<Rightarrow> if tm_id m \<in> set cs then Inr (Some (tm_id m)) else Inl (NotRunning name))))"

end
