(* ===== verification/Team_Laws.thy ===== *)
theory Team_Laws imports Team_Service begin

text \<open>
  What the operations of the team service keep: their payloads read back, their emissions fold, and the
  folded board stays an acyclic graph of live blockers with one id per task and one name per teammate.
\<close>

section \<open>Payloads read back\<close>

lemma team_lower_names:
  "lower_name ''version'' = ''version''" "lower_name ''teamId'' = ''teamid''" "lower_name ''member'' = ''member''"
  "lower_name ''task'' = ''task''" "lower_name ''description'' = ''description''" "lower_name ''context'' = ''context''"
  "lower_name ''phase'' = ''phase''" "lower_name ''revision'' = ''revision''" "lower_name ''subject'' = ''subject''"
  "lower_name ''status'' = ''status''" "lower_name ''ownerId'' = ''ownerid''" "lower_name ''blockedBy'' = ''blockedby''"
  "lower_name ''writeScopes'' = ''writescopes''" "lower_name ''senderId'' = ''senderid''"
  "lower_name ''senderName'' = ''sendername''" "lower_name ''targetId'' = ''targetid''" "lower_name ''delivery'' = ''delivery''"
  by code_simp+

lemmas team_keys = key_matches_def lower_names team_lower_names

lemma dec_strings_json:
  "json_field k kvs = Some (strings_json ss) \<Longrightarrow> dec_list dec_string_elem k kvs = Some ss"
proof -
  have "those (map dec_string_elem (map JStr ss)) = Some ss" by (rule those_map_cong_Some) (simp add: dec_string_elem_def)
  then show "json_field k kvs = Some (strings_json ss) \<Longrightarrow> dec_list dec_string_elem k kvs = Some ss"
    by (simp add: dec_list_def strings_json_def split: if_splits)
qed

lemma payload_reads_back:
  assumes "v = JObj kvs" "d kvs = Some x" "\<not> key_matches key ''version''" "\<not> key_matches key ''teamId''"
    "\<not> key_matches ''version'' key" "\<not> key_matches ''teamId'' key"
  shows "unmarshal (dec_payload (dec_struct d key)) (Some (team_payload team key v)) = Some (team_event_version, team, x)"
proof -
  have "key_matches ''version'' ''version''" "\<not> key_matches ''version'' ''teamId''" "\<not> key_matches ''teamId'' ''version''"
    by (simp_all add: team_keys)
  with assms show ?thesis
    by (simp add: unmarshal_def dec_object_def dec_payload_def team_payload_def dec_int_def dec_string_def dec_struct_def
        team_event_version_def in_int64_def)
qed

lemma task_reads_back:
  assumes "in_int64 (tt_revision t)"
  shows "unmarshal (dec_payload (dec_struct dec_task ''task'')) (Some (team_payload team ''task'' (task_json t))) =
    Some (team_event_version, team, t)"
proof (rule payload_reads_back)
  let ?kvs = "[(''id'', JStr (tt_id t)), (''revision'', JInt (tt_revision t)), (''subject'', JStr (tt_subject t)),
     (''description'', JStr (tt_description t)), (''status'', JStr (tt_status t))] @ opt_str ''ownerId'' (tt_owner t) @
     [(''blockedBy'', strings_json (tt_blocked_by t)), (''writeScopes'', strings_json (tt_scopes t))]"
  show "task_json t = JObj ?kvs" by (simp add: task_json_def)
  have "json_field ''blockedBy'' ?kvs = Some (strings_json (tt_blocked_by t))"
    "json_field ''writeScopes'' ?kvs = Some (strings_json (tt_scopes t))"
    by (simp_all add: opt_str_def team_keys)
  with assms show "dec_task ?kvs = Some t"
    by (simp add: dec_task_def dec_strings_json) (simp add: dec_string_def dec_int_def opt_str_def team_keys)
qed (simp_all add: team_keys)

lemma member_reads_back:
  "unmarshal (dec_payload (dec_struct dec_member ''member'')) (Some (team_payload team ''member'' (member_json m))) =
    Some (team_event_version, team, m)"
proof (rule payload_reads_back)
  show "member_json m = JObj ([(''id'', JStr (tm_id m)), (''name'', JStr (tm_name m)), (''description'', JStr (tm_description m)),
     (''provider'', JStr (tm_provider m)), (''context'', JStr (tm_context m)), (''phase'', JStr (tm_phase m))] @
     opt_str ''error'' (tm_error m))" by (simp add: member_json_def)
qed (simp_all add: dec_member_def dec_string_def opt_str_def team_keys)

lemma message_reads_back:
  "unmarshal (dec_payload (dec_struct dec_team_message ''message'')) (Some (team_payload team ''message'' (message_json m))) =
    Some (team_event_version, team, m)"
proof (rule payload_reads_back)
  show "message_json m = JObj [(''id'', JStr (te_id m)), (''senderId'', JStr (te_sender m)), (''senderName'', JStr (te_sender_name m)),
     (''targetId'', JStr (te_target m)), (''delivery'', JStr (te_delivery m)), (''content'', JArr (map enc_content_block (te_content m)))]"
    by (simp add: message_json_def)
qed (simp_all add: dec_team_message_def dec_string_def dec_list_def dec_enc_content team_keys del: map_map)

section \<open>Folding\<close>

lemma fold_team_append:
  "fold_team_from team (xs @ ys) st = and_then (fold_team_from team xs st) (fold_team_from team ys)"
proof (induction xs arbitrary: st)
  case (Cons x xs)
  then show ?case by (cases "apply_team_event team x st") auto
qed simp

lemma fold_team_events_append:
  "fold_team_events log team = Inr st \<Longrightarrow> fold_team_events (log @ es) team = fold_team_from team es st"
  by (simp add: fold_team_events_def fold_team_append)

text \<open>The envelopes that carry emissions; time, number and sources do not matter to the fold.\<close>

definition recorded :: "emission list \<Rightarrow> session_envelope list \<Rightarrow> bool" where
  "recorded ems es \<longleftrightarrow> list_all2 (\<lambda>(ty, j) e. env_type e = ty \<and> env_data e = Some j) ems es"

lemma recorded_simps [simp]:
  "recorded [] es \<longleftrightarrow> es = []"
  "recorded ((ty, j) # ems) es \<longleftrightarrow> (\<exists>e es'. es = e # es' \<and> env_type e = ty \<and> env_data e = Some j \<and> recorded ems es')"
  by (simp_all add: recorded_def list_all2_Cons1 conj_assoc)

lemma apply_task_event:
  "env_type e = EventTeamTask \<Longrightarrow> env_data e = Some (team_payload team ''task'' (task_json t)) \<Longrightarrow> in_int64 (tt_revision t) \<Longrightarrow>
   apply_team_event team e st = apply_team_task t st"
  by (simp add: apply_team_event_def task_reads_back)

lemma apply_member_event:
  "env_type e = EventTeamMember \<Longrightarrow> env_data e = Some (team_payload team ''member'' (member_json m)) \<Longrightarrow>
   apply_team_event team e st = apply_team_member m st"
  by (simp add: apply_team_event_def member_reads_back)

lemma apply_message_event:
  "env_type e = EventTeamMessageQueued \<Longrightarrow> env_data e = Some (team_payload team ''message'' (message_json m)) \<Longrightarrow>
   apply_team_event team e st = Inr (st\<lparr>ts_messages := AList.update (te_id m) m (ts_messages st)\<rparr>)"
  by (simp add: apply_team_event_def message_reads_back)

section \<open>The graph check\<close>

definition task_live :: "(string \<times> team_task) list \<Rightarrow> string \<Rightarrow> bool" where
  "task_live tasks b \<longleftrightarrow> (\<exists>t. map_of tasks b = Some t \<and> tt_status t \<noteq> ''deleted'')"

lemma check_blockers_None:
  "check_blockers tasks self seen bs = None \<longleftrightarrow>
     self \<notin> set bs \<and> distinct bs \<and> set bs \<inter> set seen = {} \<and> (\<forall>b\<in>set bs. task_live tasks b)"
  by (induction bs arbitrary: seen) (auto simp: task_live_def split: option.split)

definition board_edges :: "(string \<times> team_task) list \<Rightarrow> (string \<times> string) set" where
  "board_edges tasks = edges (blockers_in tasks)"

lemma board_edges_iff: "(i, b) \<in> board_edges tasks \<longleftrightarrow> (\<exists>t. map_of tasks i = Some t \<and> b \<in> set (tt_blocked_by t))"
  by (cases "map_of tasks i") (auto simp: board_edges_def edges_def blockers_in_def)

lemma validate_None:
  "validate_task_graph tasks t = None \<longleftrightarrow>
     tt_id t \<notin> set (tt_blocked_by t) \<and> distinct (tt_blocked_by t) \<and> (\<forall>b\<in>set (tt_blocked_by t). task_live tasks b) \<and>
     acyclic (board_edges (AList.update (tt_id t) t tasks))"
proof -
  let ?all = "AList.update (tt_id t) t tasks"
  have "has_cycle (blockers_in ?all) (map fst ?all) \<longleftrightarrow> \<not> acyclic (board_edges ?all)"
    unfolding board_edges_def by (rule has_cycle_iff) (auto simp: blockers_in_def map_of_eq_None_iff [symmetric])
  then show ?thesis
    using check_blockers_None [of tasks "tt_id t" "[]" "tt_blocked_by t"]
    by (auto simp: validate_task_graph_def Let_def split: option.splits)
qed

section \<open>The invariant\<close>

definition task_key :: "int \<Rightarrow> string \<Rightarrow> bool" where
  "task_key n i \<longleftrightarrow> (\<exists>k. 1 \<le> k \<and> k < n \<and> i = ''task-'' @ itoa k)"

lemma task_key_mono: "task_key n i \<Longrightarrow> n \<le> n' \<Longrightarrow> task_key n' i"
  by (auto simp: task_key_def)

lemma task_key_next: "1 \<le> n \<Longrightarrow> task_key (n + 1) (''task-'' @ itoa n)"
  unfolding task_key_def by (intro exI [of _ n]) simp

definition tasks_ok :: "team_state \<Rightarrow> bool" where
  "tasks_ok st \<longleftrightarrow>
     distinct (map fst (ts_tasks st)) \<and>
     (\<forall>i t. map_of (ts_tasks st) i = Some t \<longrightarrow> tt_id t = i \<and> in_int64 (tt_revision t) \<and> distinct (tt_blocked_by t) \<and>
        task_key (ts_next st) i \<and>
        (tt_status t \<noteq> ''deleted'' \<longrightarrow> (\<forall>b\<in>set (tt_blocked_by t). task_live (ts_tasks st) b))) \<and>
     acyclic (board_edges (ts_tasks st)) \<and> ts_next st = int (length (ts_tasks st)) + 1"

definition roster_ok :: "team_state \<Rightarrow> bool" where
  "roster_ok st \<longleftrightarrow>
     (\<forall>n i. map_of (ts_names st) n = Some i \<longleftrightarrow> (\<exists>m. map_of (ts_members st) i = Some m \<and> tm_name m = n)) \<and>
     (\<forall>i m. map_of (ts_members st) i = Some m \<longrightarrow> tm_id m = i \<and> tm_phase m = ''active'' \<and> member_name_ok (tm_name m)) \<and>
     length (ts_members st) \<le> 16"

definition team_ok :: "string \<Rightarrow> team_state \<Rightarrow> bool" where
  "team_ok team st \<longleftrightarrow> tasks_ok st \<and> roster_ok st \<and> ts_id st = team"

lemma ok_empty: "team_ok team (empty_team team)"
proof -
  have "board_edges [] = {}" using board_edges_iff by fastforce
  then show ?thesis by (simp add: team_ok_def tasks_ok_def roster_ok_def empty_team_def acyclic_def)
qed

lemma ok_messages [simp]:
  "tasks_ok (st\<lparr>ts_messages := ms\<rparr>) = tasks_ok st" "roster_ok (st\<lparr>ts_messages := ms\<rparr>) = roster_ok st"
  "tasks_ok (st\<lparr>ts_names := ns\<rparr>) = tasks_ok st" "tasks_ok (st\<lparr>ts_members := mm\<rparr>) = tasks_ok st"
  "roster_ok (st\<lparr>ts_tasks := tt\<rparr>) = roster_ok st" "roster_ok (st\<lparr>ts_next := n\<rparr>) = roster_ok st"
  by (simp_all add: tasks_ok_def roster_ok_def)

lemma ok_task: "tasks_ok st \<Longrightarrow> map_of (ts_tasks st) i = Some t \<Longrightarrow>
    tt_id t = i \<and> in_int64 (tt_revision t) \<and> task_key (ts_next st) i"
  unfolding tasks_ok_def by blast

lemma length_update_absent: "map_of xs k = None \<Longrightarrow> length (AList.update k v xs) = length xs + 1"
  by (induction xs) (auto split: if_splits)

lemma length_update_present: "map_of xs k = Some w \<Longrightarrow> length (AList.update k v xs) = length xs"
  by (induction xs) (auto split: if_splits)

text \<open>Replacing one task on a board whose check passed; \<open>t\<close> may be deleted only if nothing live needs it.\<close>

lemma tasks_ok_put:
  assumes "tasks_ok st" and "validate_task_graph (ts_tasks st) t = None" and "in_int64 (tt_revision t)"
    and "map_of (ts_tasks st) (tt_id t) \<noteq> None \<and> n = ts_next st \<or>
      map_of (ts_tasks st) (tt_id t) = None \<and> n = ts_next st + 1 \<and> tt_id t = ''task-'' @ itoa (ts_next st)"
    and del: "tt_status t = ''deleted'' \<Longrightarrow>
      \<forall>i u. map_of (ts_tasks st) i = Some u \<longrightarrow> tt_status u \<noteq> ''deleted'' \<longrightarrow> i \<noteq> tt_id t \<longrightarrow> tt_id t \<notin> set (tt_blocked_by u)"
  shows "tasks_ok (st\<lparr>ts_next := n, ts_tasks := AList.update (tt_id t) t (ts_tasks st)\<rparr>)"
proof -
  let ?ts = "ts_tasks st" and ?all = "AList.update (tt_id t) t (ts_tasks st)"
  note v = assms(2) [unfolded validate_None]
  have live: "task_live ?all b" if "task_live ?ts b" "b = tt_id t \<longrightarrow> tt_status t \<noteq> ''deleted''" for b
    using that by (auto simp: task_live_def update_conv')
  have next1: "1 \<le> ts_next st" using assms(1) by (simp add: tasks_ok_def)
  have own: "tt_id u = i \<and> in_int64 (tt_revision u) \<and> distinct (tt_blocked_by u) \<and>
      task_key n i \<and>
      (tt_status u \<noteq> ''deleted'' \<longrightarrow> (\<forall>b\<in>set (tt_blocked_by u). task_live ?all b))"
    if u: "map_of ?all i = Some u" for i u
  proof (cases "i = tt_id t")
    case True
    with u have "u = t" by (simp add: update_conv')
    moreover have "task_key n (tt_id t)"
    proof (cases "map_of ?ts (tt_id t)")
      case None
      with assms(4) have "n = ts_next st + 1" "tt_id t = ''task-'' @ itoa (ts_next st)" by blast+
      with task_key_next [OF next1] show ?thesis by (simp only:)
    next
      case (Some t0)
      with assms(4) ok_task [OF assms(1) Some] show ?thesis by simp
    qed
    moreover have "\<forall>b\<in>set (tt_blocked_by t). task_live ?all b"
    proof
      fix b assume "b \<in> set (tt_blocked_by t)"
      with v have "task_live ?ts b" "b \<noteq> tt_id t" by blast+
      then show "task_live ?all b" by (intro live) simp_all
    qed
    moreover have "distinct (tt_blocked_by t)" using v by blast
    ultimately show ?thesis using True assms(3) by simp
  next
    case False
    with u have old: "map_of ?ts i = Some u" by (simp add: update_conv')
    have "task_live ?all b" if b: "tt_status u \<noteq> ''deleted''" "b \<in> set (tt_blocked_by u)" for b
    proof (rule live)
      show "task_live ?ts b" using assms(1) old b unfolding tasks_ok_def by blast
      show "b = tt_id t \<longrightarrow> tt_status t \<noteq> ''deleted''" using del old b False by auto
    qed
    moreover have "task_key n i"
      by (rule task_key_mono [of "ts_next st"]) (use ok_task [OF assms(1) old] assms(4) in auto)
    moreover have "tt_id u = i" "in_int64 (tt_revision u)" "distinct (tt_blocked_by u)"
      using assms(1) old unfolding tasks_ok_def by blast+
    ultimately show ?thesis by blast
  qed
  have base: "distinct (map fst ?ts)" "ts_next st = int (length ?ts) + 1" using assms(1) unfolding tasks_ok_def by blast+
  have "n = int (length ?all) + 1"
  proof (cases "map_of ?ts (tt_id t)")
    case None
    with assms(4) have "n = ts_next st + 1" by blast
    with base(2) length_update_absent [OF None, of t] show ?thesis by simp
  next
    case (Some t0)
    with assms(4) have "n = ts_next st" by simp
    with base(2) length_update_present [OF Some, of t] show ?thesis by simp
  qed
  moreover have "acyclic (board_edges ?all)" using v by blast
  moreover have "ts_tasks (st\<lparr>ts_next := n, ts_tasks := ?all\<rparr>) = ?all" "ts_next (st\<lparr>ts_next := n, ts_tasks := ?all\<rparr>) = n"
    by simp_all
  ultimately show ?thesis
    using own distinct_update [OF base(1)] unfolding tasks_ok_def by (simp only:) blast
qed

end
