(* ===== verification/Team_Properties.thy ===== *)
theory Team_Properties imports Team_Laws begin

text \<open>
  The team log: whatever the operations append one after the other folds again, and what two operations on the
  same log append does not.
\<close>

section \<open>Task identifiers\<close>

lemma task_id_number_itoa: "0 \<le> k \<Longrightarrow> k < 2 ^ 63 \<Longrightarrow> task_id_number (''task-'' @ itoa k) = Some k"
  using number_decimal [of "nat k"] by (simp add: task_id_number_def has_prefix_def itoa_def)

lemma task_key_number: "task_key n i \<Longrightarrow> n < 2 ^ 63 \<Longrightarrow> \<exists>k. task_id_number i = Some k \<and> k < n"
  unfolding task_key_def using task_id_number_itoa by (meson le_less_trans less_le_trans not_le order_less_le_trans zero_le_one order.trans less_imp_le)

lemma next_id_fresh:
  assumes "tasks_ok st" "ts_next st < 2 ^ 63"
  shows "map_of (ts_tasks st) (''task-'' @ itoa (ts_next st)) = None"
proof (rule ccontr)
  assume "map_of (ts_tasks st) (''task-'' @ itoa (ts_next st)) \<noteq> None"
  then obtain t where "map_of (ts_tasks st) (''task-'' @ itoa (ts_next st)) = Some t" by blast
  from ok_task [OF assms(1) this] have key: "task_key (ts_next st) (''task-'' @ itoa (ts_next st))" by blast
  have "0 \<le> ts_next st" using assms(1) unfolding tasks_ok_def by linarith
  from task_id_number_itoa [OF this assms(2)] task_key_number [OF key assms(2)] show False by simp
qed

section \<open>One operation after another\<close>

lemma wrap_moves: "wrap64 (i + 1) \<noteq> i"
proof
  assume "wrap64 (i + 1) = i"
  then have "(i + 1 + 2 ^ 63) mod 2 ^ 64 = (i + 2 ^ 63) mod (2 ^ 64 :: int)" using wrap64_range [of "i + 1"]
    by (simp add: wrap64_def in_int64_def)
  then have "(2 ^ 64 :: int) dvd (i + 1 + 2 ^ 63) - (i + 2 ^ 63)" by (rule mod_eq_dvd_iff [THEN iffD1])
  then show False by simp
qed

lemma wrap_next: "1 \<le> n \<Longrightarrow> n < 2 ^ 63 - 1 \<Longrightarrow> wrap64 (n + 1) = n + 1"
  by (rule wrap64_id) (simp add: in_int64_def)

lemma create_folds:
  assumes fold: "fold_team_events log (tx_session ctx) = Inr st" and ok: "team_ok (tx_session ctx) st"
    and bound: "ts_next st < 2 ^ 63 - 1"
    and op: "team_task_create ctx log s d bs ws = Inr (ems, v)" and rec: "recorded ems es"
  shows "\<exists>st'. fold_team_events (log @ es) (tx_session ctx) = Inr st' \<and> team_ok (tx_session ctx) st' \<and>
    length (ts_tasks st') \<le> length (ts_tasks st) + length es"
proof -
  let ?t = "\<lparr>tt_id = ''task-'' @ itoa (ts_next st), tt_revision = 1, tt_subject = s, tt_description = d, tt_status = ''pending'',
    tt_owner = [], tt_blocked_by = bs, tt_scopes = ws\<rparr>"
  let ?st = "st\<lparr>ts_next := ts_next st + 1, ts_tasks := AList.update (tt_id ?t) ?t (ts_tasks st)\<rparr>"
  have tok: "tasks_ok st" using ok by (simp add: team_ok_def)
  then have next1: "1 \<le> ts_next st" unfolding tasks_ok_def by linarith
  have op': "validate_task_graph (ts_tasks st) ?t = None" "ems = [task_emission ctx ?t]"
    using op fold by (auto simp: team_task_create_def Let_def split: if_splits option.splits)
  have fresh: "map_of (ts_tasks st) (tt_id ?t) = None" using next_id_fresh [OF tok] bound by simp
  have "task_id_number (tt_id ?t) = Some (ts_next st)" using task_id_number_itoa [of "ts_next st"] next1 bound by simp
  then have app: "apply_team_task ?t st = Inr ?st"
    using fresh op'(1) wrap_next [OF next1 bound] by (simp add: apply_team_task_def Let_def)
  from rec op'(2) obtain e where e: "es = [e]" "env_type e = EventTeamTask"
    "env_data e = Some (team_payload (tx_session ctx) ''task'' (task_json ?t))" by (auto simp: task_emission_def)
  have "apply_team_event (tx_session ctx) e st = Inr ?st"
    using apply_task_event [OF e(2,3), of st] app by (simp add: in_int64_def)
  then have "fold_team_events (log @ es) (tx_session ctx) = Inr ?st" by (simp add: fold_team_events_append [OF fold] e(1))
  moreover have "tasks_ok ?st"
    by (rule tasks_ok_put [OF tok op'(1)]) (use fresh in \<open>simp_all add: in_int64_def\<close>)
  then have "team_ok (tx_session ctx) ?st" using ok by (simp add: team_ok_def)
  moreover have "length (ts_tasks ?st) \<le> length (ts_tasks st) + length es"
    using length_update_absent [OF fresh, of ?t] e(1) by simp
  ultimately show ?thesis by blast
qed

text \<open>An action keeps the id, and deletes only what nothing live needs.\<close>

lemma edit_keeps: "edit_task f t = Inr t1 \<Longrightarrow> tt_id t1 = tt_id t \<and> tt_status t1 = tt_status t"
  by (auto simp: edit_task_def and_then_Inr_iff split: option.splits if_splits)

lemma action_keeps:
  assumes "task_action ctx st action f t = Inr t1"
  shows "tt_id t1 = tt_id t" and "tt_status t1 = ''deleted'' \<Longrightarrow> tt_status t = ''deleted'' \<or> dependent_of st t = None"
  using assms by (auto simp: task_action_def set_dependencies_def reassign_task_def Let_def dest: edit_keeps split: if_splits option.splits)

lemma deletion_safe:
  assumes ok: "tasks_ok st" and t: "map_of (ts_tasks st) i = Some t" and "tt_status t = ''deleted'' \<or> dependent_of st t = None"
    and u: "map_of (ts_tasks st) j = Some u" "tt_status u \<noteq> ''deleted''" "j \<noteq> i"
  shows "i \<notin> set (tt_blocked_by u)"
proof
  assume need: "i \<in> set (tt_blocked_by u)"
  have "task_live (ts_tasks st) i" using ok u need unfolding tasks_ok_def by blast
  then have "tt_status t \<noteq> ''deleted''" using t by (auto simp: task_live_def)
  with assms(3) have none: "dependent_of st t = None" by blast
  have "(j, u) \<in> set (ts_tasks st)" by (rule map_of_SomeD [OF u(1)])
  moreover have "tt_id u = j" "tt_id t = i" using ok_task [OF ok] u(1) t by blast+
  ultimately show False using none need u(2,3) by (auto simp: dependent_of_def find_None_iff)
qed

lemma update_effect:
  assumes fold: "fold_team_events log (tx_session ctx) = Inr st" and ok: "tasks_ok st"
    and bound: "ts_next st < 2 ^ 63 - 1" and op: "team_task_update ctx log i expected action f = Inr (ems, v)"
  obtains t t2 where "map_of (ts_tasks st) i = Some t" "tt_id t2 = i" "tt_revision t2 = wrap64 (tt_revision t + 1)"
    "ems = [task_emission ctx t2]" "validate_task_graph (ts_tasks st) t2 = None"
    "apply_team_task t2 st = Inr (st\<lparr>ts_next := ts_next st, ts_tasks := AList.update i t2 (ts_tasks st)\<rparr>)"
    "tt_status t2 = ''deleted'' \<longrightarrow> tt_status t = ''deleted'' \<or> dependent_of st t = None"
proof -
  from op fold obtain t where t: "map_of (ts_tasks st) i = Some t"
    by (auto simp: team_task_update_def split: option.splits)
  from op fold t obtain t1 where act: "task_action ctx st action f t = Inr t1"
    by (auto simp: team_task_update_def and_then_Inr_iff split: if_splits)
  let ?t = "t1\<lparr>tt_revision := wrap64 (tt_revision t + 1)\<rparr>"
  from op fold t act have op': "validate_task_graph (ts_tasks st) ?t = None" "ems = [task_emission ctx ?t]"
    by (auto simp: team_task_update_def Let_def split: if_splits option.splits)
  note key = ok_task [OF ok t]
  have ids: "tt_id ?t = i" using action_keeps(1) [OF act] key by simp
  obtain k where "task_id_number i = Some k" "k < ts_next st" using task_key_number [of "ts_next st" i] key bound by auto
  then have "apply_team_task ?t st = Inr (st\<lparr>ts_next := ts_next st, ts_tasks := AList.update i ?t (ts_tasks st)\<rparr>)"
    using t op'(1) ids by (simp add: apply_team_task_def Let_def)
  then show thesis by (intro that [of t ?t]) (use t ids op' action_keeps(2) [OF act] in auto)
qed

lemma update_folds:
  assumes fold: "fold_team_events log (tx_session ctx) = Inr st" and ok: "team_ok (tx_session ctx) st"
    and bound: "ts_next st < 2 ^ 63 - 1"
    and op: "team_task_update ctx log i expected action f = Inr (ems, v)" and rec: "recorded ems es"
  shows "\<exists>st'. fold_team_events (log @ es) (tx_session ctx) = Inr st' \<and> team_ok (tx_session ctx) st' \<and>
    length (ts_tasks st') \<le> length (ts_tasks st) + length es"
proof -
  have tok: "tasks_ok st" using ok by (simp add: team_ok_def)
  from update_effect [OF fold tok bound op] obtain t t2 where t: "map_of (ts_tasks st) i = Some t" "tt_id t2 = i"
    "tt_revision t2 = wrap64 (tt_revision t + 1)" "ems = [task_emission ctx t2]" "validate_task_graph (ts_tasks st) t2 = None"
    "apply_team_task t2 st = Inr (st\<lparr>ts_next := ts_next st, ts_tasks := AList.update i t2 (ts_tasks st)\<rparr>)"
    "tt_status t2 = ''deleted'' \<longrightarrow> tt_status t = ''deleted'' \<or> dependent_of st t = None" .
  let ?st = "st\<lparr>ts_next := ts_next st, ts_tasks := AList.update (tt_id t2) t2 (ts_tasks st)\<rparr>"
  from rec t(4) obtain e where e: "es = [e]" "env_type e = EventTeamTask"
    "env_data e = Some (team_payload (tx_session ctx) ''task'' (task_json t2))" by (auto simp: task_emission_def)
  have "apply_team_event (tx_session ctx) e st = Inr ?st"
    using apply_task_event [OF e(2,3), of st] t(2,3,6) wrap64_range by simp
  then have "fold_team_events (log @ es) (tx_session ctx) = Inr ?st" by (simp add: fold_team_events_append [OF fold] e(1))
  moreover have "tasks_ok ?st"
    by (rule tasks_ok_put [OF tok t(5)]) (use t(1,2,3,7) wrap64_range deletion_safe [OF tok t(1)] in auto)
  then have "team_ok (tx_session ctx) ?st" using ok by (simp add: team_ok_def)
  moreover have "length (ts_tasks ?st) \<le> length (ts_tasks st) + length es"
    using length_update_present [OF t(1), of t2] t(2) by simp
  ultimately show ?thesis by blast
qed

lemma send_folds:
  assumes fold: "fold_team_events log (tx_session ctx) = Inr st" and ok: "team_ok (tx_session ctx) st"
    and op: "team_message_send ctx nanos live log target msg delivery = Inr (ems, v)" and rec: "recorded ems es"
  shows "\<exists>st'. fold_team_events (log @ es) (tx_session ctx) = Inr st' \<and> team_ok (tx_session ctx) st' \<and>
    length (ts_tasks st') \<le> length (ts_tasks st) + length es"
proof -
  from op fold obtain m where "ems = [(EventTeamMessageQueued, team_payload (tx_session ctx) ''message'' (message_json m))]"
    by (auto simp: team_message_send_def and_then_Inr_iff Let_def)
  with rec obtain e where e: "es = [e]" "env_type e = EventTeamMessageQueued"
    "env_data e = Some (team_payload (tx_session ctx) ''message'' (message_json m))" by auto
  have "fold_team_events (log @ es) (tx_session ctx) = Inr (st\<lparr>ts_messages := AList.update (te_id m) m (ts_messages st)\<rparr>)"
    by (simp add: fold_team_events_append [OF fold] e(1) apply_message_event [OF e(2,3)])
  with ok show ?thesis by (simp add: team_ok_def)
qed

lemma spawn_folds:
  assumes fold: "fold_team_events log (tx_session ctx) = Inr st" and ok: "team_ok (tx_session ctx) st"
    and new: "\<And>i. sp name d p mode = Inr i \<Longrightarrow> map_of (ts_members st) i = None"
    and op: "spawn_teammate ctx (Some sp) live log name d p mode = Inr (ems, v)" and rec: "recorded ems es"
  shows "\<exists>st'. fold_team_events (log @ es) (tx_session ctx) = Inr st' \<and> team_ok (tx_session ctx) st' \<and>
    length (ts_tasks st') \<le> length (ts_tasks st) + length es"
proof -
  from op fold obtain i where i: "sp name d p mode = Inr i"
    and g: "member_name_ok name" "map_of (ts_names st) name = None" "length (ts_members st) < 16"
    by (auto simp: spawn_teammate_def and_then_Inr_iff split: if_splits sum.splits)
  let ?m = "\<lparr>tm_id = i, tm_name = name, tm_description = d, tm_provider = ''spawn'', tm_context = mode,
    tm_phase = ''provisioning'', tm_error = []\<rparr>"
  let ?a = "?m\<lparr>tm_phase := ''active''\<rparr>"
  from op fold i have "ems = [member_emission ctx ?m, member_emission ctx ?a]"
    by (auto simp: spawn_teammate_def Let_def split: if_splits)
  with rec obtain e1 e2 where e: "es = [e1, e2]" "env_type e1 = EventTeamMember" "env_type e2 = EventTeamMember"
    "env_data e1 = Some (team_payload (tx_session ctx) ''member'' (member_json ?m))"
    "env_data e2 = Some (team_payload (tx_session ctx) ''member'' (member_json ?a))" by (auto simp: member_emission_def)
  let ?st1 = "st\<lparr>ts_names := AList.update name i (ts_names st), ts_members := AList.update i ?m (ts_members st)\<rparr>"
  let ?st2 = "st\<lparr>ts_names := AList.update name i (ts_names st), ts_members := AList.update i ?a (AList.update i ?m (ts_members st))\<rparr>"
  have fresh: "map_of (ts_members st) i = None" by (rule new [OF i])
  have "apply_team_member ?m st = Inr ?st1" using fresh g(2) by (simp add: apply_team_member_def)
  moreover have "apply_team_member ?a ?st1 = Inr ?st2" by (simp add: apply_team_member_def update_conv')
  ultimately have "fold_team_events (log @ es) (tx_session ctx) = Inr ?st2"
    by (simp add: fold_team_events_append [OF fold] e(1) apply_member_event [OF e(2,4)] apply_member_event [OF e(3,5)])
  moreover have "roster_ok ?st2"
  proof -
    have len: "length (AList.update i ?a (AList.update i ?m (ts_members st))) \<le> 16"
      using length_update_absent [OF fresh, of ?m] length_update_present [of "AList.update i ?m (ts_members st)" i ?m ?a] g(3)
      by (simp add: update_conv')
    have r: "roster_ok st" using ok by (simp add: team_ok_def)
    then have names: "map_of (ts_names st) n = Some j \<longleftrightarrow> (\<exists>m. map_of (ts_members st) j = Some m \<and> tm_name m = n)" for n j
      unfolding roster_ok_def by blast
    have mem: "map_of (ts_members st) j = Some m \<Longrightarrow> tm_id m = j \<and> tm_phase m = ''active'' \<and> member_name_ok (tm_name m)" for j m
      using r unfolding roster_ok_def by blast
    have "map_of (AList.update name i (ts_names st)) n = Some j \<longleftrightarrow>
        (\<exists>m. map_of (AList.update i ?a (AList.update i ?m (ts_members st))) j = Some m \<and> tm_name m = n)" for n j
      using names [of n j] names [of name j] g(2) fresh by (auto simp: update_conv')
    with mem len g(1) show ?thesis unfolding roster_ok_def by (simp add: update_conv')
  qed
  ultimately show ?thesis using ok by (simp add: team_ok_def)
qed

section \<open>Histories\<close>

definition team_types :: "string set" where
  "team_types = {EventTeamMember, EventTeamTask, EventTeamMessageQueued, EventTeamMessageDelivered}"

text \<open>
  The logs a team can have when its operations run one after the other; anything else may be logged in between.  A
  spawner gives a new child an id of its own.
\<close>

inductive team_history :: "string \<Rightarrow> session_envelope list \<Rightarrow> bool" for team where
  history_empty: "team_history team []"
| history_other: "team_history team log \<Longrightarrow> env_type env \<notin> team_types \<Longrightarrow> team_history team (log @ [env])"
| history_create: "team_history team log \<Longrightarrow> tx_session ctx = team \<Longrightarrow>
    team_task_create ctx log s d bs ws = Inr (ems, v) \<Longrightarrow> recorded ems es \<Longrightarrow> team_history team (log @ es)"
| history_update: "team_history team log \<Longrightarrow> tx_session ctx = team \<Longrightarrow>
    team_task_update ctx log i expected action f = Inr (ems, v) \<Longrightarrow> recorded ems es \<Longrightarrow> team_history team (log @ es)"
| history_send: "team_history team log \<Longrightarrow> tx_session ctx = team \<Longrightarrow>
    team_message_send ctx nanos live log target msg delivery = Inr (ems, w) \<Longrightarrow> recorded ems es \<Longrightarrow> team_history team (log @ es)"
| history_spawn: "team_history team log \<Longrightarrow> tx_session ctx = team \<Longrightarrow>
    (\<And>st c. fold_team_events log team = Inr st \<Longrightarrow> sp name d p mode = Inr c \<Longrightarrow> map_of (ts_members st) c = None) \<Longrightarrow>
    spawn_teammate ctx (Some sp) live log name d p mode = Inr (ems, x) \<Longrightarrow> recorded ems es \<Longrightarrow> team_history team (log @ es)"

definition folds_ok :: "string \<Rightarrow> session_envelope list \<Rightarrow> bool" where
  "folds_ok team log \<longleftrightarrow> (\<exists>st. fold_team_events log team = Inr st \<and> team_ok team st \<and> length (ts_tasks st) \<le> length log)"

lemma folds_ok_step:
  assumes "folds_ok team log" and "int (length log) < 2 ^ 62"
    and "\<And>st. fold_team_events log team = Inr st \<Longrightarrow> team_ok team st \<Longrightarrow> ts_next st < 2 ^ 63 - 1 \<Longrightarrow>
      \<exists>st'. fold_team_events (log @ es) team = Inr st' \<and> team_ok team st' \<and> length (ts_tasks st') \<le> length (ts_tasks st) + length es"
  shows "folds_ok team (log @ es)"
proof -
  from assms(1) obtain st where st: "fold_team_events log team = Inr st" "team_ok team st" "length (ts_tasks st) \<le> length log"
    by (auto simp: folds_ok_def)
  have "ts_next st = int (length (ts_tasks st)) + 1" using st(2) unfolding team_ok_def tasks_ok_def by blast
  with st(3) assms(2) have "ts_next st < 2 ^ 63 - 1" by simp
  from assms(3) [OF st(1,2) this] st(3) show ?thesis unfolding folds_ok_def by (metis add_mono length_append order_trans add_le_mono1)
qed

lemma history_folds: "team_history team log \<Longrightarrow> int (length log) < 2 ^ 62 \<Longrightarrow> folds_ok team log"
proof (induction rule: team_history.induct)
  case history_empty
  have "fold_team_events [] team = Inr (empty_team team)" by (simp add: fold_team_events_def)
  then show ?case using ok_empty by (auto simp: folds_ok_def empty_team_def)
next
  case (history_other log env)
  then have "int (length log) < 2 ^ 62" "folds_ok team log" by simp_all
  moreover have "apply_team_event team env st = Inr st" for st
    using history_other.hyps(2) by (simp add: apply_team_event_def team_types_def)
  ultimately show ?case by (auto simp: folds_ok_def fold_team_events_append)
next
  case (history_create log ctx s d bs ws ems v es)
  show ?case
  proof (rule folds_ok_step)
    fix st assume "fold_team_events log team = Inr st" "team_ok team st" "ts_next st < 2 ^ 63 - 1"
    with create_folds [OF _ _ _ history_create.hyps(3,4), of st] history_create.hyps(2)
    show "\<exists>st'. fold_team_events (log @ es) team = Inr st' \<and> team_ok team st' \<and>
        length (ts_tasks st') \<le> length (ts_tasks st) + length es" by auto
  qed (use history_create in simp_all)
next
  case (history_update log ctx i expected action f ems v es)
  show ?case
  proof (rule folds_ok_step)
    fix st assume "fold_team_events log team = Inr st" "team_ok team st" "ts_next st < 2 ^ 63 - 1"
    with update_folds [OF _ _ _ history_update.hyps(3,4), of st] history_update.hyps(2)
    show "\<exists>st'. fold_team_events (log @ es) team = Inr st' \<and> team_ok team st' \<and>
        length (ts_tasks st') \<le> length (ts_tasks st) + length es" by auto
  qed (use history_update in simp_all)
next
  case (history_send log ctx nanos live target msg delivery ems w es)
  show ?case
  proof (rule folds_ok_step)
    fix st assume "fold_team_events log team = Inr st" "team_ok team st" "ts_next st < 2 ^ 63 - 1"
    with send_folds [OF _ _ history_send.hyps(3,4), of st] history_send.hyps(2)
    show "\<exists>st'. fold_team_events (log @ es) team = Inr st' \<and> team_ok team st' \<and>
        length (ts_tasks st') \<le> length (ts_tasks st) + length es" by auto
  qed (use history_send in simp_all)
next
  case (history_spawn log ctx sp name d p mode live ems x es)
  show ?case
  proof (rule folds_ok_step)
    fix st assume st: "fold_team_events log team = Inr st" "team_ok team st"
    show "\<exists>st'. fold_team_events (log @ es) team = Inr st' \<and> team_ok team st' \<and>
        length (ts_tasks st') \<le> length (ts_tasks st) + length es"
      using spawn_folds [OF _ _ _ history_spawn.hyps(4,5), of st] history_spawn.hyps(2,3) st by auto
  qed (use history_spawn in simp_all)
qed

section \<open>Properties\<close>

text \<open>
  C28. The check of a task is exact: it passes just when the task does not block itself, names no blocker twice, every
  blocker is on the board and not deleted, and the board with the task on it has no cycle of dependencies.  The
  depth-first search with its two mark sets always ends.
\<close>
theorem task_graph_check_exact:
  "validate_task_graph tasks t = None \<longleftrightarrow>
     tt_id t \<notin> set (tt_blocked_by t) \<and> distinct (tt_blocked_by t) \<and> set (tt_blocked_by t) \<subseteq> Collect (task_live tasks) \<and>
     acyclic (board_edges (AList.update (tt_id t) t tasks))"
  using validate_None [of tasks t] by (auto simp: subset_iff)

text \<open>
  C27. A team whose operations run one after the other keeps its board.  Whatever tasks are created, claimed, released,
  edited, made dependent, completed, reopened, reassigned and deleted, whatever messages are sent and whoever is
  spawned, the log of the lead folds, and the folded state is sound: the dependencies have no cycle, no live task has a
  deleted or unknown blocker, ids are \<open>task-1\<close>, \<open>task-2\<close> and so on, every name belongs to one
  active member and there are at most 16.
\<close>
theorem team_log_always_folds:
  assumes "team_history team log" and "int (length log) < 2 ^ 62"
  shows "\<exists>st. fold_team_events log team = Inr st \<and> team_ok team st"
  using history_folds [OF assms] by (auto simp: folds_ok_def)

definition lead_ctx :: team_ctx where
  "lead_ctx = \<lparr>tx_session = ''s1'', tx_caller = [], tx_caller_name = []\<rparr>"

definition first_task :: team_task where
  "first_task = \<lparr>tt_id = ''task-1'', tt_revision = 1, tt_subject = ''a'', tt_description = ''b'', tt_status = ''pending'',
     tt_owner = [], tt_blocked_by = [], tt_scopes = []\<rparr>"

definition stamp :: "emission \<Rightarrow> session_envelope" where
  "stamp em = \<lparr>env_seq = 1, env_time = 0, env_type = fst em, env_data = Some (snd em), env_sources = None,
     env_surface_op = None, env_ignorable = False\<rparr>"

lemma recorded_stamp: "recorded ems (map stamp ems)"
  by (induction ems) (auto simp: stamp_def)

lemma first_create:
  "team_task_create lead_ctx [] ''a'' ''b'' [] [] = Inr ([task_emission lead_ctx first_task], team_task_view_of
     ((empty_team ''s1'')\<lparr>ts_tasks := [(''task-1'', first_task)]\<rparr>) first_task)"
  by code_simp

lemma team_log_always_folds_witness:
  "\<exists>st. fold_team_events [stamp (task_emission lead_ctx first_task)] ''s1'' = Inr st \<and> team_ok ''s1'' st"
proof (rule team_log_always_folds)
  show "team_history ''s1'' [stamp (task_emission lead_ctx first_task)]"
    using history_create [OF history_empty _ first_create, of "''s1''" "[stamp (task_emission lead_ctx first_task)]"]
      recorded_stamp [of "[task_emission lead_ctx first_task]"]
    by (simp add: lead_ctx_def)
qed auto

text \<open>
  Compare and set is not atomic.  Two updates of one task that both read the same log both pass the comparison of
  revisions; when both are appended, the second makes the fold fail for ever, whatever is logged later, and with it
  every operation of the team.
\<close>
theorem stale_update_wedges_board:
  assumes "fold_team_events log (tx_session ctx) = Inr st" and "tx_session ctx' = tx_session ctx"
    and "team_ok (tx_session ctx) st" and "ts_next st < 2 ^ 63 - 1"
    and "team_task_update ctx log i expected action f = Inr ([em], v)"
    and "team_task_update ctx' log i expected' action' f' = Inr ([em'], v')"
    and "recorded [em, em'] es"
  shows "fold_team_events (log @ es @ rest) (tx_session ctx) = Inl (RevisionGap i)"
proof -
  have tok: "tasks_ok st" using assms(3) by (simp add: team_ok_def)
  from update_effect [OF assms(1) tok assms(4,5)] obtain t a where a: "map_of (ts_tasks st) i = Some t" "tt_id a = i"
    "tt_revision a = wrap64 (tt_revision t + 1)" "em = task_emission ctx a"
    "apply_team_task a st = Inr (st\<lparr>ts_next := ts_next st, ts_tasks := AList.update i a (ts_tasks st)\<rparr>)" by (metis list.inject)
  from update_effect [OF assms(1) [folded assms(2)] tok assms(4,6)] obtain t' b where b: "map_of (ts_tasks st) i = Some t'" "tt_id b = i"
    "tt_revision b = wrap64 (tt_revision t' + 1)" "em' = task_emission ctx' b" by (metis list.inject)
  from assms(2,7) a(4) b(4) obtain e1 e2 where e: "es = [e1, e2]" "env_type e1 = EventTeamTask" "env_type e2 = EventTeamTask"
    "env_data e1 = Some (team_payload (tx_session ctx) ''task'' (task_json a))"
    "env_data e2 = Some (team_payload (tx_session ctx) ''task'' (task_json b))" by (auto simp: task_emission_def)
  let ?st = "st\<lparr>ts_next := ts_next st, ts_tasks := AList.update i a (ts_tasks st)\<rparr>"
  have "apply_team_event (tx_session ctx) e1 st = Inr ?st"
    using apply_task_event [OF e(2,4), of st] a(3,5) wrap64_range by simp
  moreover have "wrap64 (tt_revision a + 1) \<noteq> tt_revision a" using wrap_moves a(3) by simp
  then have "apply_team_task b ?st = Inl (RevisionGap i)"
    using a(1,3) b(1-3) by (simp add: apply_team_task_def Let_def update_conv')
  then have "apply_team_event (tx_session ctx) e2 ?st = Inl (RevisionGap i)"
    using apply_task_event [OF e(3,5), of ?st] b(3) wrap64_range by simp
  ultimately have "fold_team_from (tx_session ctx) (es @ rest) st = Inl (RevisionGap i)" by (simp add: e(1))
  then show ?thesis by (simp add: fold_team_events_append [OF assms(1)])
qed

definition first_log :: "session_envelope list" where
  "first_log = [stamp (task_emission lead_ctx first_task)]"

definition no_fields :: update_fields where
  "no_fields = \<lparr>uf_subject = None, uf_description = None, uf_blocked_by = None, uf_scopes = None, uf_owner = None\<rparr>"

lemma one_emission: "map_option (\<lambda>x. length (fst x)) (case r of Inl _ \<Rightarrow> None | Inr x \<Rightarrow> Some x) = Some 1 \<Longrightarrow> \<exists>em v. r = Inr ([em], v)"
  by (auto simp: length_Suc_conv split: sum.splits)

lemma stale_update_wedges_board_witness:
  "\<exists>em em'. \<forall>rest. fold_team_events (first_log @ map stamp [em, em'] @ rest) ''s1'' = Inl (RevisionGap ''task-1'')"
proof -
  have h: "team_history ''s1'' first_log"
    using history_create [OF history_empty _ first_create, of "''s1''" first_log] recorded_stamp [of "[task_emission lead_ctx first_task]"]
    by (simp add: lead_ctx_def first_log_def)
  then obtain st where st: "fold_team_events first_log ''s1'' = Inr st" "team_ok ''s1'' st" "length (ts_tasks st) \<le> length first_log"
    using history_folds [OF h] by (auto simp: folds_ok_def first_log_def)
  have "ts_next st = int (length (ts_tasks st)) + 1" using st(2) unfolding team_ok_def tasks_ok_def by blast
  with st(3) have bound: "ts_next st < 2 ^ 63 - 1" by (simp add: first_log_def)
  have tx: "tx_session lead_ctx = ''s1''" by (simp add: lead_ctx_def)
  have "map_option (\<lambda>x. length (fst x)) (case team_task_update lead_ctx first_log ''task-1'' 1 ''claim'' no_fields of Inl _ \<Rightarrow> None | Inr x \<Rightarrow> Some x) = Some 1" by code_simp
  from one_emission [OF this] obtain em v where u: "team_task_update lead_ctx first_log ''task-1'' 1 ''claim'' no_fields = Inr ([em], v)" by blast
  have "map_option (\<lambda>x. length (fst x)) (case team_task_update lead_ctx first_log ''task-1'' 1 ''delete'' no_fields of Inl _ \<Rightarrow> None | Inr x \<Rightarrow> Some x) = Some 1" by code_simp
  from one_emission [OF this] obtain em' v' where u': "team_task_update lead_ctx first_log ''task-1'' 1 ''delete'' no_fields = Inr ([em'], v')" by blast
  have "fold_team_events (first_log @ map stamp [em, em'] @ rest) ''s1'' = Inl (RevisionGap ''task-1'')" for rest
    using stale_update_wedges_board [OF _ refl _ bound u u' recorded_stamp, of rest] st(1,2) tx by simp
  then show ?thesis by blast
qed

section \<open>Names and ids\<close>

text \<open>
  The roster is keyed by session id, but targets, owners and interrupts are looked up in it by name: a message reaches a
  teammate only under its session id.
\<close>

lemma teammates_reached_by_id_only:
  "roster_ok st \<Longrightarrow> resolve_team_target st lead raw = Inr i \<Longrightarrow> i = lead \<or> i = trim_space raw"
  by (auto simp: resolve_team_target_def roster_ok_def Let_def split: if_splits option.splits)

definition alice_log :: "session_envelope list" where
  "alice_log = (case spawn_teammate lead_ctx (Some (\<lambda>_ _ _ _. Inr ''s1/sub-1'')) (Some []) [] ''alice'' ''d'' ''p'' ''fresh'' of
     Inl _ \<Rightarrow> [] | Inr (ems, _) \<Rightarrow> map stamp ems)"

lemma spawned_teammate_not_found:
  "length alice_log = 2"
  "team_message_send lead_ctx 7 (Some [''s1/sub-1'']) alice_log ''alice'' ''hi'' ''quiet'' = Inl (TeammateNotFound ''alice'')"
  by code_simp+

end
