(* ===== verification/Task_Tools.thy ===== *)
theory Task_Tools imports Message_Codec Go_Strings begin

text \<open>
  The tools over the live mirrors of a session: todos, plan and goals (\<open>pkg/tools/tasks.go\<close>,
  \<open>plan_exit.go\<close>, \<open>goal_tools.go\<close>).  The package-level maps are one record; a tool answers with the
  changed record, the events it appends and a result or an error.
\<close>

section \<open>Events and state\<close>

abbreviation "EventTodoWrite \<equiv> ''todo/write''"
abbreviation "EventPlanMode \<equiv> ''plan/mode''"
abbreviation "EventGoalChange \<equiv> ''goal/change''"

abbreviation "TodoStatusPending \<equiv> ''pending''"
abbreviation "TodoStatusInProgress \<equiv> ''in_progress''"
abbreviation "TodoStatusCompleted \<equiv> ''completed''"

record todo_item =
  td_content :: string
  td_status :: string

record block_reason =
  br_code :: string
  br_message :: string

record goal_state =
  go_id :: string
  go_revision :: int
  go_objective :: string
  go_phase :: string
  go_rounds :: int
  go_max_rounds :: int
  go_blocked :: "block_reason option"
  go_created :: int
  go_updated :: int

text \<open>\<open>TaskStore\<close> with the two maps of \<open>goal_tools.go\<close> and its counter.\<close>

record task_store =
  ks_todos :: "string \<Rightarrow> todo_item list option"
  ks_plans :: "string \<Rightarrow> string option"
  ks_plans_active :: "string \<Rightarrow> bool option"
  ks_goal_texts :: "string \<Rightarrow> string option"
  ks_goals :: "string \<Rightarrow> goal_state option"
  ks_goal_seq :: int

definition new_task_store :: task_store where
  "new_task_store = \<lparr>ks_todos = (\<lambda>_. None), ks_plans = (\<lambda>_. None), ks_plans_active = (\<lambda>_. None),
     ks_goal_texts = (\<lambda>_. None), ks_goals = (\<lambda>_. None), ks_goal_seq = 0\<rparr>"

datatype task_error =
    BadArguments
  | TodoContentEmpty
  | TodoDuplicate string
  | TodoStatusInvalid string
  | TodoManyActive nat
  | ObjectiveEmpty
  | NoGoalInSession
  | GoalMismatch
  | BlockedReasonMissing
  | GoalActionUnknown string
  | NotInPlanMode
  | PlanWithoutHeading
  | NoQuestionChannel
  | ReviewFailed string
  | KeepPlanning
  | ReviewDismissed

datatype task_reply =
    TodosUpdated nat
  | PlanRecorded
  | GoalSet string
  | GoalView "goal_state option"
  | PlanApproved

section \<open>Todo lists\<close>

definition normalize_todo_status :: "string \<Rightarrow> task_error + string" where
  "normalize_todo_status s =
     (if s = ''todo'' then Inr TodoStatusPending
      else if s \<in> {TodoStatusPending, TodoStatusInProgress, TodoStatusCompleted} then Inr s
      else Inl (TodoStatusInvalid s))"

text \<open>The loop of \<open>toTodoList\<close>: the list so far, the contents seen and the active count.\<close>

fun todo_loop :: "todo_item list \<Rightarrow> todo_item list \<Rightarrow> string list \<Rightarrow> nat \<Rightarrow> task_error + todo_item list \<times> nat" where
  "todo_loop [] todos seen active = Inr (todos, active)"
| "todo_loop (item # items) todos seen active =
     (let content = trim_space (td_content item)
      in if content = [] then Inl TodoContentEmpty
         else if content \<in> set seen then Inl (TodoDuplicate content)
         else and_then (normalize_todo_status (td_status item)) (\<lambda>status.
           todo_loop items (todos @ [\<lparr>td_content = content, td_status = status\<rparr>]) (content # seen)
             (if status = TodoStatusInProgress then Suc active else active)))"

definition to_todo_list :: "todo_item list \<Rightarrow> task_error + todo_item list" where
  "to_todo_list raw = and_then (todo_loop raw [] [] 0) (\<lambda>(todos, active).
     if 1 < active then Inl (TodoManyActive active) else Inr todos)"

section \<open>Payloads\<close>

definition enc_todo :: "todo_item \<Rightarrow> json" where
  "enc_todo t = JObj [(''content'', JStr (td_content t)), (''status'', JStr (td_status t))]"

definition dec_todo :: "(string \<times> json) list \<Rightarrow> todo_item option" where
  "dec_todo kvs = Option.bind (dec_string ''content'' kvs) (\<lambda>c.
     map_option (\<lambda>s. \<lparr>td_content = c, td_status = s\<rparr>) (dec_string ''status'' kvs))"

definition dec_todos :: "(string \<times> json) list \<Rightarrow> todo_item list option" where
  "dec_todos kvs = dec_list (dec_object dec_todo) ''todos'' kvs"

definition todos_json :: "todo_item list \<Rightarrow> json" where
  "todos_json ts = JObj [(''todos'', JArr (map enc_todo ts))]"

definition plan_mode_json :: "bool \<Rightarrow> json" where
  "plan_mode_json active = JObj [(''active'', JBool active)]"

definition enc_block_reason :: "block_reason \<Rightarrow> json" where
  "enc_block_reason b = JObj [(''code'', JStr (br_code b)), (''message'', JStr (br_message b))]"

definition dec_block_reason :: "(string \<times> json) list \<Rightarrow> block_reason option" where
  "dec_block_reason kvs = Option.bind (dec_string ''code'' kvs) (\<lambda>c.
     map_option (\<lambda>m. \<lparr>br_code = c, br_message = m\<rparr>) (dec_string ''message'' kvs))"

text \<open>\<open>GoalSnapshot\<close> inside \<open>GoalChangePayload\<close>.\<close>

definition goal_snapshot_json :: "goal_state \<Rightarrow> json" where
  "goal_snapshot_json g = JObj ([(''id'', JStr (go_id g)), (''revision'', JInt (go_revision g)),
       (''objective'', JStr (go_objective g)), (''phase'', JStr (go_phase g))] @
     (case go_blocked g of None \<Rightarrow> [] | Some b \<Rightarrow> [(''blockedReason'', enc_block_reason b)]) @
     [(''maxGoalRounds'', JInt (go_max_rounds g))])"

definition goal_change_json :: "string \<Rightarrow> goal_state \<Rightarrow> json" where
  "goal_change_json op g = JObj ([(''kind'', JStr EventGoalChange), (''version'', JInt 1), (''operation'', JStr op),
       (''goal'', goal_snapshot_json g)] @ opt_int ''roundsStarted'' (go_rounds g) @
     opt_int ''createdAt'' (go_created g) @ opt_int ''updatedAt'' (go_updated g))"

text \<open>Reading a payload back: the fields of the snapshot and the three next to it.\<close>

definition dec_goal_snapshot ::
  "int \<Rightarrow> int \<Rightarrow> int \<Rightarrow> (string \<times> json) list \<Rightarrow> goal_state option" where
  "dec_goal_snapshot rounds created updated kvs =
     Option.bind (dec_string ''id'' kvs) (\<lambda>i. Option.bind (dec_int ''revision'' kvs) (\<lambda>r.
     Option.bind (dec_string ''objective'' kvs) (\<lambda>x. Option.bind (dec_string ''phase'' kvs) (\<lambda>p.
     Option.bind (dec_ptr dec_block_reason ''blockedReason'' kvs) (\<lambda>b.
     map_option (\<lambda>m. \<lparr>go_id = i, go_revision = r, go_objective = x, go_phase = p, go_rounds = rounds,
         go_max_rounds = m, go_blocked = b, go_created = created, go_updated = updated\<rparr>)
       (dec_int ''maxGoalRounds'' kvs))))))"

definition dec_goal_change :: "(string \<times> json) list \<Rightarrow> goal_state option option" where
  "dec_goal_change kvs =
     Option.bind (dec_int ''roundsStarted'' kvs) (\<lambda>r. Option.bind (dec_int ''createdAt'' kvs) (\<lambda>c.
     Option.bind (dec_int ''updatedAt'' kvs) (\<lambda>u. dec_ptr (dec_goal_snapshot r c u) ''goal'' kvs)))"

section \<open>The tools\<close>

text \<open>\<open>kx_emit\<close>: whether the context carries an \<open>Emit\<close>; \<open>kx_now\<close> is the clock in milliseconds.\<close>

record task_ctx =
  kx_session :: string
  kx_emit :: bool
  kx_now :: int

type_synonym appended = "string \<times> string \<times> json"
type_synonym task_step = "task_store \<times> appended list \<times> (task_error + task_reply)"

definition emitting :: "task_ctx \<Rightarrow> string \<Rightarrow> json \<Rightarrow> appended list" where
  "emitting ctx ty j = (if kx_emit ctx then [(kx_session ctx, ty, j)] else [])"

definition todo_write :: "task_ctx \<Rightarrow> raw_message \<Rightarrow> task_store \<Rightarrow> task_step" where
  "todo_write ctx args st = (case unmarshal dec_todos args of
       None \<Rightarrow> (st, [], Inl BadArguments)
     | Some raw \<Rightarrow> (case to_todo_list raw of
         Inl e \<Rightarrow> (st, [], Inl e)
       | Inr todos \<Rightarrow> (st\<lparr>ks_todos := (ks_todos st)(kx_session ctx \<mapsto> todos)\<rparr>,
           emitting ctx EventTodoWrite (todos_json todos), Inr (TodosUpdated (length raw)))))"

definition plan_update :: "task_ctx \<Rightarrow> raw_message \<Rightarrow> task_store \<Rightarrow> task_step" where
  "plan_update ctx args st = (case unmarshal (dec_string ''plan'') args of
       None \<Rightarrow> (st, [], Inl BadArguments)
     | Some plan \<Rightarrow> (st\<lparr>ks_plans := (ks_plans st)(kx_session ctx \<mapsto> plan),
           ks_plans_active := (ks_plans_active st)(kx_session ctx \<mapsto> True)\<rparr>,
         emitting ctx EventPlanMode (plan_mode_json True), Inr PlanRecorded))"

definition goal_set :: "task_ctx \<Rightarrow> raw_message \<Rightarrow> task_store \<Rightarrow> task_step" where
  "goal_set ctx args st = (case unmarshal (dec_string ''goal'') args of
       None \<Rightarrow> (st, [], Inl BadArguments)
     | Some goal \<Rightarrow> (st\<lparr>ks_goal_texts := (ks_goal_texts st)(kx_session ctx \<mapsto> goal)\<rparr>,
         emitting ctx EventGoalChange (goal_change_json ''create''
           \<lparr>go_id = ''goal-'' @ itoa (kx_now ctx), go_revision = 1, go_objective = goal, go_phase = ''active'', go_rounds = 0,
            go_max_rounds = 0, go_blocked = None, go_created = kx_now ctx, go_updated = kx_now ctx\<rparr>),
         Inr (GoalSet goal)))"

definition session_plan_mode :: "string \<Rightarrow> task_store \<Rightarrow> bool" where
  "session_plan_mode sid st = (case ks_plans_active st sid of None \<Rightarrow> False | Some b \<Rightarrow> b)"

definition set_session_plan_mode :: "string \<Rightarrow> bool \<Rightarrow> task_store \<Rightarrow> task_store" where
  "set_session_plan_mode sid active st = st\<lparr>ks_plans_active := (ks_plans_active st)(sid \<mapsto> active)\<rparr>"

definition set_session_plan :: "string \<Rightarrow> string \<Rightarrow> task_store \<Rightarrow> task_store" where
  "set_session_plan sid plan st = st\<lparr>ks_plans := (ks_plans st)(sid \<mapsto> plan)\<rparr>"

text \<open>What the reviewer of a plan answers; without a reviewer the context has no \<open>RequestUser\<close>.\<close>

datatype review = NoReviewer | ReviewError string | Decided string

definition exit_plan_mode :: "task_ctx \<Rightarrow> review \<Rightarrow> raw_message \<Rightarrow> task_store \<Rightarrow> task_step" where
  "exit_plan_mode ctx answer args st = (case unmarshal (dec_string ''plan'') args of
       None \<Rightarrow> (st, [], Inl BadArguments)
     | Some plan \<Rightarrow>
         if \<not> session_plan_mode (kx_session ctx) st then (st, [], Inl NotInPlanMode)
         else if \<not> has_prefix (trim_space plan) ''# '' then (st, [], Inl PlanWithoutHeading)
         else (case answer of
             NoReviewer \<Rightarrow> (st, [], Inl NoQuestionChannel)
           | ReviewError e \<Rightarrow> (st, [], Inl (ReviewFailed e))
           | Decided d \<Rightarrow>
               if d = ''allow_once'' then (set_session_plan_mode (kx_session ctx) False st,
                 emitting ctx EventPlanMode (plan_mode_json False), Inr PlanApproved)
               else if d = ''deny'' then (st, [], Inl KeepPlanning)
               else (st, [], Inl ReviewDismissed)))"

section \<open>Goals\<close>

definition goal_emission :: "task_ctx \<Rightarrow> string \<Rightarrow> goal_state \<Rightarrow> appended list" where
  "goal_emission ctx op g = emitting ctx EventGoalChange (goal_change_json op g)"

definition get_goal :: "task_ctx \<Rightarrow> task_store \<Rightarrow> task_step" where
  "get_goal ctx st = (st, [], Inr (GoalView (ks_goals st (kx_session ctx))))"

definition dec_create_goal :: "(string \<times> json) list \<Rightarrow> (string \<times> int) option" where
  "dec_create_goal kvs = Option.bind (dec_string ''objective'' kvs) (\<lambda>x.
     map_option (\<lambda>m. (x, m)) (dec_int ''max_goal_rounds'' kvs))"

definition create_goal :: "task_ctx \<Rightarrow> raw_message \<Rightarrow> task_store \<Rightarrow> task_step" where
  "create_goal ctx args st = (case unmarshal dec_create_goal args of
       None \<Rightarrow> (st, [], Inl BadArguments)
     | Some (objective, max_rounds) \<Rightarrow>
         if objective = [] then (st, [], Inl ObjectiveEmpty)
         else let n = wrap64 (ks_goal_seq st + 1);
                  g = \<lparr>go_id = ''goal-'' @ itoa n, go_revision = 1, go_objective = objective, go_phase = ''active'',
                    go_rounds = 0, go_max_rounds = max_rounds, go_blocked = None, go_created = kx_now ctx, go_updated = kx_now ctx\<rparr>
              in (st\<lparr>ks_goal_seq := n, ks_goals := (ks_goals st)(kx_session ctx \<mapsto> g)\<rparr>,
                  goal_emission ctx ''create'' g, Inr (GoalView (Some g))))"

record goal_args =
  ga_id :: string
  ga_revision :: int
  ga_action :: string
  ga_objective :: string
  ga_max_rounds :: int
  ga_reason :: string

definition dec_goal_args :: "(string \<times> json) list \<Rightarrow> goal_args option" where
  "dec_goal_args kvs =
     Option.bind (dec_string ''goal_id'' kvs) (\<lambda>i. Option.bind (dec_int ''revision'' kvs) (\<lambda>r.
     Option.bind (dec_string ''action'' kvs) (\<lambda>a. Option.bind (dec_string ''objective'' kvs) (\<lambda>x.
     Option.bind (dec_int ''max_goal_rounds'' kvs) (\<lambda>m.
     map_option (\<lambda>b. \<lparr>ga_id = i, ga_revision = r, ga_action = a, ga_objective = x, ga_max_rounds = m, ga_reason = b\<rparr>)
       (dec_string ''blocked_reason'' kvs))))))"

text \<open>The switch over the action.\<close>

definition goal_action :: "goal_args \<Rightarrow> goal_state \<Rightarrow> task_error + goal_state" where
  "goal_action a g =
     (if ga_action a = ''edit'' then
        (let g1 = (if ga_objective a \<noteq> [] then g\<lparr>go_objective := ga_objective a\<rparr> else g)
         in Inr (if 0 < ga_max_rounds a then g1\<lparr>go_max_rounds := ga_max_rounds a\<rparr> else g1))
      else if ga_action a = ''pause'' then Inr (g\<lparr>go_phase := ''paused''\<rparr>)
      else if ga_action a = ''resume'' then Inr (g\<lparr>go_phase := ''active''\<rparr>)
      else if ga_action a = ''complete'' then Inr (g\<lparr>go_phase := ''complete''\<rparr>)
      else if ga_action a = ''blocked'' then
        (if ga_reason a = [] then Inl BlockedReasonMissing
         else Inr (g\<lparr>go_phase := ''blocked'', go_blocked := Some \<lparr>br_code = ''blocked'', br_message = ga_reason a\<rparr>\<rparr>))
      else Inl (GoalActionUnknown (ga_action a)))"

definition update_goal :: "task_ctx \<Rightarrow> raw_message \<Rightarrow> task_store \<Rightarrow> task_step" where
  "update_goal ctx args st = (case unmarshal dec_goal_args args of
       None \<Rightarrow> (st, [], Inl BadArguments)
     | Some a \<Rightarrow> (case ks_goals st (kx_session ctx) of
         None \<Rightarrow> (st, [], Inl NoGoalInSession)
       | Some g \<Rightarrow>
           if go_id g \<noteq> ga_id a \<or> go_revision g \<noteq> ga_revision a then (st, [], Inl GoalMismatch)
           else (case goal_action a g of
               Inl e \<Rightarrow> (st, [], Inl e)
             | Inr g1 \<Rightarrow>
                 let g2 = g1\<lparr>go_revision := wrap64 (go_revision g1 + 1), go_updated := kx_now ctx\<rparr>
                 in (st\<lparr>ks_goals := (ks_goals st)(kx_session ctx \<mapsto> g2)\<rparr>,
                     goal_emission ctx (ga_action a) g2, Inr (GoalView (Some g2))))))"

text \<open>The tools of this theory as one operation.\<close>

datatype task_op =
    TodoWrite raw_message
  | PlanUpdate raw_message
  | GoalSetOp raw_message
  | ExitPlanMode review raw_message
  | GetGoal
  | CreateGoal raw_message
  | UpdateGoal raw_message

fun run_task_op :: "task_ctx \<Rightarrow> task_op \<Rightarrow> task_store \<Rightarrow> task_step" where
  "run_task_op ctx (TodoWrite args) st = todo_write ctx args st"
| "run_task_op ctx (PlanUpdate args) st = plan_update ctx args st"
| "run_task_op ctx (GoalSetOp args) st = goal_set ctx args st"
| "run_task_op ctx (ExitPlanMode answer args) st = exit_plan_mode ctx answer args st"
| "run_task_op ctx GetGoal st = get_goal ctx st"
| "run_task_op ctx (CreateGoal args) st = create_goal ctx args st"
| "run_task_op ctx (UpdateGoal args) st = update_goal ctx args st"

fun run_task_ops :: "(task_ctx \<times> task_op) list \<Rightarrow> task_store \<Rightarrow> task_store \<times> appended list" where
  "run_task_ops [] st = (st, [])"
| "run_task_ops ((ctx, op) # ops) st =
     (case run_task_op ctx op st of (st1, ev, _) \<Rightarrow> (case run_task_ops ops st1 of (st2, ev2) \<Rightarrow> (st2, ev @ ev2)))"

section \<open>What the log says\<close>

text \<open>The last event of a type in a session, and the mirrors as folds of the log.\<close>

definition latest :: "string \<Rightarrow> string \<Rightarrow> appended list \<Rightarrow> json option" where
  "latest sid ty log = fold (\<lambda>(s, t, j) found. if s = sid \<and> t = ty then Some j else found) log None"

definition logged_todos :: "string \<Rightarrow> appended list \<Rightarrow> todo_item list option" where
  "logged_todos sid log = Option.bind (latest sid EventTodoWrite log) (\<lambda>j. unmarshal dec_todos (Some j))"

definition logged_plan_mode :: "string \<Rightarrow> appended list \<Rightarrow> bool" where
  "logged_plan_mode sid log = (case latest sid EventPlanMode log of None \<Rightarrow> False
     | Some j \<Rightarrow> unmarshal (dec_bool ''active'') (Some j) = Some True)"

definition logged_goal :: "string \<Rightarrow> appended list \<Rightarrow> goal_state option" where
  "logged_goal sid log = Option.bind (latest sid EventGoalChange log) (\<lambda>j. Option.bind (unmarshal dec_goal_change (Some j)) id)"

end
