(* ===== verification/Task_Properties.thy ===== *)
theory Task_Properties imports Task_Tools begin

text \<open>
  Properties of the session tools: which todo lists are accepted, the mirrors against the log they append,
  and the revisions of goals.
\<close>

section \<open>Todo lists\<close>

definition canonical_todo :: "todo_item \<Rightarrow> todo_item" where
  "canonical_todo t = \<lparr>td_content = trim_space (td_content t),
     td_status = (if td_status t = ''todo'' then TodoStatusPending else td_status t)\<rparr>"

definition todo_statuses :: "string set" where
  "todo_statuses = {TodoStatusPending, TodoStatusInProgress, TodoStatusCompleted}"

definition well_formed_todos :: "todo_item list \<Rightarrow> bool" where
  "well_formed_todos ts \<longleftrightarrow> distinct (map td_content ts) \<and> [] \<notin> td_content ` set ts \<and> td_status ` set ts \<subseteq> todo_statuses \<and>
     length (filter (\<lambda>t. td_status t = TodoStatusInProgress) ts) \<le> 1"

lemma normalize_canonical:
  "normalize_todo_status (td_status t) = Inr s \<longleftrightarrow> s = td_status (canonical_todo t) \<and> s \<in> todo_statuses"
  by (auto simp: normalize_todo_status_def canonical_todo_def todo_statuses_def)

lemma todo_loop_Inr:
  "todo_loop raw acc seen n = Inr (ts, m) \<longleftrightarrow>
     ts = acc @ map canonical_todo raw \<and> m = n + length (filter (\<lambda>t. td_status t = TodoStatusInProgress) (map canonical_todo raw)) \<and>
     distinct (map td_content (map canonical_todo raw)) \<and> td_content ` set (map canonical_todo raw) \<inter> set seen = {} \<and>
     [] \<notin> td_content ` set (map canonical_todo raw) \<and> td_status ` set (map canonical_todo raw) \<subseteq> todo_statuses"
proof (induction raw arbitrary: acc seen n)
  case Nil
  show ?case by auto
next
  case (Cons t raw)
  let ?c = "canonical_todo t"
  have c: "trim_space (td_content t) = td_content ?c" by (simp add: canonical_todo_def)
  have rec: "\<lparr>td_content = td_content ?c, td_status = td_status ?c\<rparr> = ?c" by simp
  show ?case
    by (auto simp: Let_def c rec and_then_Inr_iff normalize_canonical Cons.IH simp del: and_then_simps)
qed

lemma to_todo_list_Inr:
  "to_todo_list raw = Inr ts \<longleftrightarrow> ts = map canonical_todo raw \<and> well_formed_todos ts"
  by (auto simp: to_todo_list_def and_then_Inr_iff todo_loop_Inr well_formed_todos_def simp del: list.map_comp map_map filter_map split: if_splits)

lemma todo_list_canonical:
  "(to_todo_list raw = Inr ts \<longleftrightarrow> ts = map canonical_todo raw \<and> well_formed_todos ts) \<and>
   (well_formed_todos (map canonical_todo raw) \<longrightarrow> to_todo_list (map canonical_todo raw) = Inr (map canonical_todo raw))"
proof -
  have "canonical_todo (canonical_todo t) = canonical_todo t" for t by (simp add: canonical_todo_def trim_space_idem)
  then have "map canonical_todo (map canonical_todo raw) = map canonical_todo raw" by simp
  then show ?thesis by (metis to_todo_list_Inr)
qed

section \<open>Payloads read back\<close>

lemma goal_names:
  "lower_name ''status'' = ''status''" "lower_name ''todos'' = ''todos''" "lower_name ''active'' = ''active''"
  "lower_name ''revision'' = ''revision''" "lower_name ''objective'' = ''objective''" "lower_name ''phase'' = ''phase''"
  "lower_name ''blockedReason'' = ''blockedreason''" "lower_name ''maxGoalRounds'' = ''maxgoalrounds''"
  "lower_name ''roundsStarted'' = ''roundsstarted''" "lower_name ''createdAt'' = ''createdat''"
  "lower_name ''updatedAt'' = ''updatedat''" "lower_name ''goal'' = ''goal''" "lower_name ''version'' = ''version''"
  "lower_name ''operation'' = ''operation''"
  by code_simp+

lemma json_field_opt_number: "json_field k (opt_int k' i) = (if i \<noteq> 0 \<and> key_matches k k' then Some (JInt i) else None)"
  by (simp add: opt_int_def)

lemmas task_field_simps = field_simps_json goal_names json_field_opt_number

lemma dec_enc_todo: "dec_object dec_todo (enc_todo t) = Some t"
  by (simp add: enc_todo_def dec_object_def dec_todo_def dec_string_def task_field_simps)

lemma those_all_Some: "(\<And>x. x \<in> set xs \<Longrightarrow> f x = Some (g x)) \<Longrightarrow> those (map f xs) = Some (map g xs)"
  by (induction xs) auto

lemma dec_todos_json: "unmarshal dec_todos (Some (todos_json ts)) = Some ts"
proof -
  have "those (map (dec_object dec_todo \<circ> enc_todo) ts) = Some (map id ts)" by (rule those_all_Some) (simp add: dec_enc_todo)
  then show ?thesis
    by (simp add: unmarshal_def todos_json_def dec_object_def dec_todos_def dec_list_def task_field_simps)
qed

lemma dec_plan_mode_json: "unmarshal (dec_bool ''active'') (Some (plan_mode_json b)) = Some b"
  by (simp add: unmarshal_def plan_mode_json_def dec_object_def dec_bool_def task_field_simps)

definition goal_ok :: "goal_state \<Rightarrow> bool" where
  "goal_ok g \<longleftrightarrow> in_int64 (go_revision g) \<and> in_int64 (go_rounds g) \<and> in_int64 (go_max_rounds g) \<and>
     in_int64 (go_created g) \<and> in_int64 (go_updated g)"

lemma dec_goal_snapshot_json:
  assumes "goal_ok g"
  shows "\<exists>kvs. goal_snapshot_json g = JObj kvs \<and> dec_goal_snapshot (go_rounds g) (go_created g) (go_updated g) kvs = Some g"
proof (cases "go_blocked g")
  case None
  with assms show ?thesis
    by (cases g) (simp add: goal_snapshot_json_def dec_goal_snapshot_def dec_string_def dec_int_def dec_ptr_def goal_ok_def task_field_simps)
next
  case (Some b)
  with assms show ?thesis
    by (cases g) (simp add: goal_snapshot_json_def dec_goal_snapshot_def dec_string_def dec_int_def dec_ptr_def goal_ok_def
      enc_block_reason_def dec_block_reason_def task_field_simps)
qed

lemma dec_goal_change_json:
  assumes "goal_ok g"
  shows "unmarshal dec_goal_change (Some (goal_change_json op g)) = Some (Some g)"
proof -
  obtain kvs where k: "goal_snapshot_json g = JObj kvs" "dec_goal_snapshot (go_rounds g) (go_created g) (go_updated g) kvs = Some g"
    using dec_goal_snapshot_json [OF assms] by auto
  have "dec_int ''roundsStarted'' fs = Some (go_rounds g) \<and> dec_int ''createdAt'' fs = Some (go_created g) \<and>
      dec_int ''updatedAt'' fs = Some (go_updated g) \<and> json_field ''goal'' fs = Some (JObj kvs)"
    if "goal_change_json op g = JObj fs" for fs
    using that assms k(1) by (auto simp: goal_change_json_def dec_int_def goal_ok_def task_field_simps)
  then show ?thesis
    using k(2) unfolding unmarshal_def goal_change_json_def dec_goal_change_def dec_ptr_def
    by (simp add: dec_object_def)
qed

section \<open>The mirrors follow the log\<close>

lemma latest_snoc: "latest sid ty (log @ [(s, t, j)]) = (if s = sid \<and> t = ty then Some j else latest sid ty log)"
  by (simp add: latest_def)

definition mirrored :: "task_store \<Rightarrow> appended list \<Rightarrow> bool" where
  "mirrored st log \<longleftrightarrow> (\<forall>sid. ks_todos st sid = logged_todos sid log \<and> session_plan_mode sid st = logged_plan_mode sid log \<and>
     ks_goals st sid = logged_goal sid log \<and> (\<forall>g. ks_goals st sid = Some g \<longrightarrow> goal_ok g))"

lemma mirrored_goal: "mirrored st log \<Longrightarrow> ks_goals st sid = Some g \<Longrightarrow> goal_ok g"
  unfolding mirrored_def by blast

lemma mirrored_todos:
  assumes "mirrored st log"
  shows "mirrored (st\<lparr>ks_todos := (ks_todos st)(sid \<mapsto> ts)\<rparr>) (log @ [(sid, EventTodoWrite, todos_json ts)])"
  using assms by (simp add: mirrored_def logged_todos_def logged_plan_mode_def logged_goal_def latest_snoc dec_todos_json
      session_plan_mode_def)

lemma mirrored_plan:
  assumes "mirrored st log"
  shows "mirrored (st\<lparr>ks_plans := ps, ks_plans_active := (ks_plans_active st)(sid \<mapsto> b)\<rparr>) (log @ [(sid, EventPlanMode, plan_mode_json b)])"
  using assms by (simp add: mirrored_def logged_todos_def logged_plan_mode_def logged_goal_def latest_snoc dec_plan_mode_json
      session_plan_mode_def)

lemma mirrored_goals:
  assumes "mirrored st log" "goal_ok g"
  shows "mirrored (st\<lparr>ks_goal_seq := n, ks_goals := (ks_goals st)(sid \<mapsto> g)\<rparr>) (log @ [(sid, EventGoalChange, goal_change_json op g)])"
  using assms by (simp add: mirrored_def logged_todos_def logged_plan_mode_def logged_goal_def latest_snoc dec_goal_change_json
      session_plan_mode_def)

lemma goal_action_ok:
  assumes "goal_action a g = Inr h" "goal_ok g" "in_int64 (ga_max_rounds a)" "in_int64 now"
  shows "goal_ok (h\<lparr>go_revision := wrap64 r, go_updated := now\<rparr>)"
  using assms by (auto simp: goal_action_def goal_ok_def wrap64_range Let_def split: if_splits)

lemma dec_int_range: "dec_int k kvs = Some i \<Longrightarrow> in_int64 i"
  by (auto simp: dec_int_def in_int64_def split: option.splits json.splits if_splits)

lemma dec_goal_args_bounded: "dec_goal_args kvs = Some a \<Longrightarrow> in_int64 (ga_max_rounds a)"
  by (auto simp: dec_goal_args_def bind_eq_Some_conv dest: dec_int_range)

lemma dec_create_goal_bounded: "dec_create_goal kvs = Some (x, m) \<Longrightarrow> in_int64 m"
  by (auto simp: dec_create_goal_def bind_eq_Some_conv dest: dec_int_range)

lemma unmarshal_from: "unmarshal d raw = Some x \<Longrightarrow> \<exists>kvs. d kvs = Some x"
  unfolding unmarshal_def dec_object_def by (cases raw; cases "the raw") auto

lemma mirrored_update_goal:
  assumes "mirrored st log" "update_goal ctx args st = (st1, ev, r)" "kx_emit ctx" "in_int64 (kx_now ctx)"
  shows "mirrored st1 (log @ ev)"
proof (cases "\<exists>a g h. unmarshal dec_goal_args args = Some a \<and> ks_goals st (kx_session ctx) = Some g \<and>
    go_id g = ga_id a \<and> go_revision g = ga_revision a \<and> goal_action a g = Inr h")
  case True
  then obtain a g h where *: "unmarshal dec_goal_args args = Some a" "ks_goals st (kx_session ctx) = Some g"
    "go_id g = ga_id a" "go_revision g = ga_revision a" "goal_action a g = Inr h" by blast
  let ?g = "h\<lparr>go_revision := wrap64 (go_revision h + 1), go_updated := kx_now ctx\<rparr>"
  have "goal_ok ?g"
    using goal_action_ok [OF *(5) mirrored_goal [OF assms(1) *(2)] _ assms(4)] unmarshal_from [OF *(1)] dec_goal_args_bounded by blast
  then have "mirrored (st\<lparr>ks_goal_seq := ks_goal_seq st, ks_goals := (ks_goals st)(kx_session ctx \<mapsto> ?g)\<rparr>)
      (log @ [(kx_session ctx, EventGoalChange, goal_change_json (ga_action a) ?g)])"
    by (rule mirrored_goals [OF assms(1)])
  moreover have "st1 = st\<lparr>ks_goals := (ks_goals st)(kx_session ctx \<mapsto> ?g)\<rparr>"
      "ev = [(kx_session ctx, EventGoalChange, goal_change_json (ga_action a) ?g)]"
    using assms(2,3) * by (simp_all add: update_goal_def goal_emission_def emitting_def Let_def)
  ultimately show ?thesis by simp
next
  case False
  then have "st1 = st \<and> ev = []"
    using assms(2) unfolding update_goal_def Let_def by (auto split: option.splits if_splits sum.splits)
  with assms(1) show ?thesis by simp
qed

lemma mirrored_create_goal:
  assumes "mirrored st log" "create_goal ctx args st = (st1, ev, r)" "kx_emit ctx" "in_int64 (kx_now ctx)"
  shows "mirrored st1 (log @ ev)"
proof (cases "\<exists>x m. unmarshal dec_create_goal args = Some (x, m) \<and> x \<noteq> []")
  case True
  then obtain x m where *: "unmarshal dec_create_goal args = Some (x, m)" "x \<noteq> []" by blast
  have "in_int64 m" using unmarshal_from [OF *(1)] dec_create_goal_bounded by blast
  then have "goal_ok \<lparr>go_id = i, go_revision = 1, go_objective = x, go_phase = ph, go_rounds = 0,
      go_max_rounds = m, go_blocked = None, go_created = kx_now ctx, go_updated = kx_now ctx\<rparr>" for i ph
    using assms(4) by (simp add: goal_ok_def) (simp add: in_int64_def)
  then show ?thesis
    using assms(2,3) * mirrored_goals [OF assms(1)] by (auto simp: create_goal_def goal_emission_def emitting_def Let_def)
next
  case False
  then have "st1 = st \<and> ev = []" using assms(2) unfolding create_goal_def Let_def by (auto split: option.splits if_splits)
  with assms(1) show ?thesis by simp
qed

lemma mirrored_step:
  assumes "mirrored st log" "run_task_op ctx op st = (st1, ev, r)" "kx_emit ctx" "in_int64 (kx_now ctx)" "\<And>args. op \<noteq> GoalSetOp args"
  shows "mirrored st1 (log @ ev)"
proof (cases op)
  case (TodoWrite args)
  then show ?thesis
    using assms(1-3) mirrored_todos by (auto simp: todo_write_def emitting_def split: option.splits sum.splits)
next
  case (PlanUpdate args)
  then show ?thesis
    using assms(1-3) mirrored_plan by (auto simp: plan_update_def emitting_def split: option.splits)
next
  case (ExitPlanMode answer args)
  have "mirrored (set_session_plan_mode sid b st) (log @ [(sid, EventPlanMode, plan_mode_json b)])" for sid b
    using mirrored_plan [OF assms(1), where ps = "ks_plans st"] by (simp add: set_session_plan_mode_def)
  with ExitPlanMode show ?thesis
    using assms(1-3) by (auto simp: exit_plan_mode_def emitting_def split: option.splits review.splits if_splits)
next
  case (CreateGoal args)
  then show ?thesis using assms mirrored_create_goal by simp
next
  case (UpdateGoal args)
  then show ?thesis using assms mirrored_update_goal by simp
qed (use assms in \<open>auto simp: get_goal_def\<close>)

lemma mirrored_run:
  assumes "mirrored st log" "run_task_ops ops st = (st1, ev)"
    and "\<And>ctx op. (ctx, op) \<in> set ops \<Longrightarrow> kx_emit ctx \<and> in_int64 (kx_now ctx) \<and> (\<forall>args. op \<noteq> GoalSetOp args)"
  shows "mirrored st1 (log @ ev)"
  using assms
proof (induction ops arbitrary: st log ev)
  case (Cons x ops)
  obtain ctx op where x: "x = (ctx, op)" by fastforce
  obtain st2 e1 r where s: "run_task_op ctx op st = (st2, e1, r)" using prod_cases3 by blast
  obtain e2 where rest: "run_task_ops ops st2 = (st1, e2)" "ev = e1 @ e2"
    using Cons.prems(2) s x by (auto split: prod.splits)
  have "mirrored st2 (log @ e1)" using mirrored_step [OF Cons.prems(1) s] Cons.prems(3) x by auto
  moreover have "kx_emit c \<and> in_int64 (kx_now c) \<and> (\<forall>args. p \<noteq> GoalSetOp args)" if "(c, p) \<in> set ops" for c p
    by (rule Cons.prems(3)) (use that in simp)
  ultimately have "mirrored st1 ((log @ e1) @ e2)" using Cons.IH rest(1) by blast
  with rest(2) show ?case by simp
qed auto

lemma mirrored_new: "mirrored new_task_store []"
  by (simp add: mirrored_def new_task_store_def logged_todos_def logged_plan_mode_def logged_goal_def latest_def session_plan_mode_def)


definition example_task_ops :: "(task_ctx \<times> task_op) list" where
  "example_task_ops = map (\<lambda>op. (\<lparr>kx_session = ''s'', kx_emit = True, kx_now = 7\<rparr>, op))
     [TodoWrite (Some (JObj [(''todos'', JArr [JObj [(''content'', JStr '' a ''), (''status'', JStr ''todo'')]])])),
      PlanUpdate (Some (JObj [(''plan'', JStr ''p'')])),
      CreateGoal (Some (JObj [(''objective'', JStr ''x'')])),
      UpdateGoal (Some (JObj [(''goal_id'', JStr ''goal-1''), (''revision'', JInt 1), (''action'', JStr ''blocked''),
        (''blocked_reason'', JStr ''b'')])),
      ExitPlanMode (Decided ''deny'') (Some (JObj [(''plan'', JStr ''# t'')]))]"

lemma example_task_run:
  "map (fst \<circ> snd) (snd (run_task_ops example_task_ops new_task_store)) =
     [EventTodoWrite, EventPlanMode, EventGoalChange, EventGoalChange]"
  "map_option go_phase (ks_goals (fst (run_task_ops example_task_ops new_task_store)) ''s'') = Some ''blocked''"
  by code_simp+

lemma example_task_ops_ok:
  "\<forall>(ctx, op) \<in> set example_task_ops. kx_emit ctx \<and> in_int64 (kx_now ctx) \<and> (\<forall>args. op \<noteq> GoalSetOp args)"
  by (auto simp: example_task_ops_def in_int64_def)


section \<open>Revisions\<close>

lemma wrap64_suc_differs: "wrap64 (i + 1) \<noteq> i"
proof
  assume eq: "wrap64 (i + 1) = i"
  then have "in_int64 i" using wrap64_range [of "i + 1"] by simp
  then consider "in_int64 (i + 1)" | "i = 2 ^ 63 - 1" unfolding in_int64_def by linarith
  then show False
  proof cases
    case 1
    with eq show False by (simp add: wrap64_id)
  next
    case 2
    with eq show False by (simp add: wrap64_def)
  qed
qed

lemma goal_revision_exclusive:
  assumes "update_goal ctx args st = (st1, ev, Inr v)"
    and "unmarshal dec_goal_args args = Some a" "unmarshal dec_goal_args args' = Some b"
    and "ga_id b = ga_id a" "ga_revision b = ga_revision a" "kx_session ctx' = kx_session ctx"
  shows "update_goal ctx' args' st1 = (st1, [], Inl GoalMismatch) \<and>
    (\<exists>g. ks_goals st1 = (ks_goals st)(kx_session ctx \<mapsto> g) \<and> go_id g = ga_id a \<and> go_revision g = wrap64 (ga_revision a + 1))"
proof -
  obtain g h where g: "ks_goals st (kx_session ctx) = Some g" "go_id g = ga_id a" "go_revision g = ga_revision a"
      "goal_action a g = Inr h"
    and st1: "st1 = st\<lparr>ks_goals := (ks_goals st)(kx_session ctx \<mapsto>
      h\<lparr>go_revision := wrap64 (go_revision h + 1), go_updated := kx_now ctx\<rparr>)\<rparr>"
    using assms(1,2) unfolding update_goal_def Let_def by (auto split: option.splits if_splits sum.splits)
  have h: "go_id h = go_id g" "go_revision h = go_revision g"
    using g(4) by (auto simp: goal_action_def Let_def split: if_splits)
  have "update_goal ctx' args' st1 = (st1, [], Inl GoalMismatch)"
    using assms(3-6) g h st1 wrap64_suc_differs by (simp add: update_goal_def)
  moreover have "\<exists>g. ks_goals st1 = (ks_goals st)(kx_session ctx \<mapsto> g) \<and> go_id g = ga_id a \<and> go_revision g = wrap64 (ga_revision a + 1)"
    using g h st1 by (intro exI) auto
  ultimately show ?thesis by blast
qed

section \<open>Where mirror and log part\<close>

lemma goal_set_unseen:
  assumes "goal_set ctx args st = (st1, ev, Inr r)" "kx_emit ctx" "in_int64 (kx_now ctx)"
  shows "get_goal ctx st1 = (st1, [], Inr (GoalView (ks_goals st (kx_session ctx))))"
    and "\<exists>g. logged_goal (kx_session ctx) (log @ ev) = Some g \<and> unmarshal (dec_string ''goal'') args = Some (go_objective g)"
proof -
  obtain t where t: "unmarshal (dec_string ''goal'') args = Some t" using assms(1) by (auto simp: goal_set_def split: option.splits)
  let ?g = "\<lparr>go_id = ''goal-'' @ itoa (kx_now ctx), go_revision = 1, go_objective = t, go_phase = ''active'', go_rounds = 0,
            go_max_rounds = 0, go_blocked = None, go_created = kx_now ctx, go_updated = kx_now ctx\<rparr>"
  have ok: "goal_ok ?g" using assms(3) by (simp add: goal_ok_def) (simp add: in_int64_def)
  show "get_goal ctx st1 = (st1, [], Inr (GoalView (ks_goals st (kx_session ctx))))"
    using assms(1) by (auto simp: goal_set_def get_goal_def split: option.splits)
  have "ev = [(kx_session ctx, EventGoalChange, goal_change_json ''create'' ?g)]"
    using assms(1,2) t by (simp add: goal_set_def emitting_def)
  then have "logged_goal (kx_session ctx) (log @ ev) = Some ?g"
    using ok by (simp add: logged_goal_def latest_snoc dec_goal_change_json)
  then show "\<exists>g. logged_goal (kx_session ctx) (log @ ev) = Some g \<and> unmarshal (dec_string ''goal'') args = Some (go_objective g)"
    using t by (intro exI [of _ ?g]) simp
qed

lemma resumed_goal_keeps_reason:
  assumes "goal_action a g = Inr h" "ga_action a \<noteq> ''blocked''"
  shows "go_blocked h = go_blocked g"
  using assms by (auto simp: goal_action_def Let_def split: if_splits)
end
