(* ===== verification/Subagents.thy ===== *)
theory Subagents imports Row_Store Message_Codec Json_Text "HOL-Library.AList" begin

text \<open>
  Child agents, \<open>pkg/subagent/manager.go\<close>: the registry, delegation depth, the collect loops and what
  they report.  A child runs by itself; what the loops see of it is a list of inputs.  The entries the
  registry points to are kept under addresses, since a loop keeps its own pointer.
\<close>

section \<open>Durations as text\<close>

text \<open>\<open>Duration.String\<close> for a positive number of nanoseconds.\<close>

fun drop_trailing :: "char \<Rightarrow> string \<Rightarrow> string" where
  "drop_trailing c [] = []"
| "drop_trailing c (x # xs) = (case drop_trailing c xs of [] \<Rightarrow> (if x = c then [] else [x]) | ys \<Rightarrow> x # ys)"

definition frac_text :: "nat \<Rightarrow> nat \<Rightarrow> string" where
  "frac_text v prec = (let ds = map (\<lambda>k. digit_char (v div 10 ^ (prec - Suc k) mod 10)) [0..<prec];
      t = drop_trailing CHR ''0'' ds in if t = [] then [] else CHR ''.'' # t)"

definition duration_text :: "nat \<Rightarrow> string" where
  "duration_text ns =
     (if ns < 1000 then decimal ns @ ''ns''
      else if ns < 1000000 then decimal (ns div 1000) @ frac_text (ns mod 1000) 3 @ [CHR 0xC2, CHR 0xB5, CHR ''s'']
      else if ns < 1000000000 then decimal (ns div 1000000) @ frac_text (ns mod 1000000) 6 @ ''ms''
      else let secs = ns div 1000000000; mins = secs div 60
           in (if 60 \<le> mins then decimal (mins div 60) @ ''h'' else []) @
              (if 0 < mins then decimal (mins mod 60) @ ''m'' else []) @
              decimal (secs mod 60) @ frac_text (ns mod 1000000000) 9 @ ''s'')"

section \<open>State\<close>

record child_agent =
  ca_model :: string
  ca_depth :: int
  ca_system :: string
  ca_alive :: bool
  ca_posted :: "string list"

record subagent_info =
  si_id :: string
  si_role :: string
  si_parent :: string
  si_agent :: "child_agent option"
  si_created :: int
  si_depth :: int
  si_continuable :: bool

text \<open>What the manager reads from the shared store; listing headers is optional, and both may fail.\<close>

record store_view =
  sv_events :: "string \<Rightarrow> session_envelope list option"
  sv_headers :: "session_header list option"

datatype sub_note = Started string string | FinishedNote string string string string

record manager =
  sm_infos :: "nat \<Rightarrow> subagent_info option"
  sm_next :: nat
  sm_registry :: "(string \<times> nat) list"
  sm_notes :: "sub_note list"
  sm_started_hook :: bool
  sm_finished_hook :: bool
  sm_store :: "store_view option"
  sm_timeout :: nat
  sm_getter :: "string option"

abbreviation "DefaultModelName \<equiv> ''deepseek-chat''"
abbreviation "MaxDepth \<equiv> 3 :: int"
abbreviation "DefaultTimeout \<equiv> 60000000000 :: nat"

datatype sub_error =
    SubArguments
  | DepthExceeded int int
  | SubNotFound string
  | SubNotContinuable string
  | SubHasNoAgent string
  | NoSubWithRole string string

definition alive :: "subagent_info \<Rightarrow> bool" where
  "alive info = (case si_agent info of None \<Rightarrow> True | Some c \<Rightarrow> ca_alive c)"

definition effective_timeout :: "manager \<Rightarrow> nat" where
  "effective_timeout m = (if 0 < sm_timeout m then sm_timeout m else DefaultTimeout)"

definition current_model :: "manager \<Rightarrow> string" where
  "current_model m = (case sm_getter m of Some x \<Rightarrow> x | None \<Rightarrow> [])"

definition notify_started :: "string \<Rightarrow> string \<Rightarrow> manager \<Rightarrow> manager" where
  "notify_started parent child m = (if sm_started_hook m then m\<lparr>sm_notes := sm_notes m @ [Started parent child]\<rparr> else m)"

definition notify_finished :: "string \<Rightarrow> string \<Rightarrow> string \<Rightarrow> string \<Rightarrow> manager \<Rightarrow> manager" where
  "notify_finished parent child stop t m =
     (if sm_finished_hook m then m\<lparr>sm_notes := sm_notes m @ [FinishedNote parent child stop t]\<rparr> else m)"

text \<open>\<open>m.subagents[id]\<close> and the iteration \<open>range m.subagents\<close>, in the order of the list.\<close>

definition sub_entry :: "manager \<Rightarrow> string \<Rightarrow> subagent_info option" where
  "sub_entry m sid = Option.bind (map_of (sm_registry m) sid) (sm_infos m)"

definition sub_entries :: "manager \<Rightarrow> subagent_info list" where
  "sub_entries m = List.map_filter (sm_infos m \<circ> snd) (sm_registry m)"

section \<open>Depth and model of a parent\<close>

definition resolve_child_depth :: "int \<Rightarrow> sub_error + int" where
  "resolve_child_depth d = (let child = wrap64 (d + 1) in if MaxDepth < child then Inl (DepthExceeded child MaxDepth) else Inr child)"

definition dec_float_ptr :: "string \<Rightarrow> (string \<times> json) list \<Rightarrow> unit option" where
  "dec_float_ptr k kvs = (case json_field k kvs of
      None \<Rightarrow> Some () | Some JNull \<Rightarrow> Some () | Some (JInt _) \<Rightarrow> Some () | Some (JFrac _ _) \<Rightarrow> Some () | Some _ \<Rightarrow> None)"

text \<open>\<open>RequestHeaderPayload\<close>, of which only the model is kept.\<close>

definition dec_call_config :: "(string \<times> json) list \<Rightarrow> string option" where
  "dec_call_config kvs =
     Option.bind (dec_string ''provider'' kvs) (\<lambda>_. Option.bind (dec_string ''model'' kvs) (\<lambda>model.
     Option.bind (dec_string ''reasoningEffort'' kvs) (\<lambda>_. Option.bind (dec_float_ptr ''temperature'' kvs) (\<lambda>_.
     Option.bind (dec_int ''maxTokens'' kvs) (\<lambda>_. map_option (\<lambda>_. model) (dec_list dec_string_elem ''stop'' kvs))))))"

definition dec_tool_schema :: "(string \<times> json) list \<Rightarrow> unit option" where
  "dec_tool_schema kvs = Option.bind (dec_string ''name'' kvs) (\<lambda>_. map_option (\<lambda>_. ()) (dec_string ''description'' kvs))"

definition dec_epoch_header :: "(string \<times> json) list \<Rightarrow> string option" where
  "dec_epoch_header kvs =
     Option.bind (dec_struct dec_call_config ''config'' kvs) (\<lambda>model. Option.bind (dec_string ''system'' kvs) (\<lambda>_.
     map_option (\<lambda>_. model) (dec_list (dec_object dec_tool_schema) ''tools'' kvs)))"

definition dec_request_model :: "(string \<times> json) list \<Rightarrow> string option" where
  "dec_request_model kvs = Option.bind (dec_struct dec_epoch_header ''header'' kvs) (\<lambda>model.
     map_option (\<lambda>_. model) (dec_string ''reason'' kvs))"

fun latest_model :: "session_envelope list \<Rightarrow> string option" where
  "latest_model [] = None"
| "latest_model (e # newer_first) =
     (if env_type e \<noteq> ''request/header'' then latest_model newer_first
      else (case unmarshal dec_request_model (env_data e) of
          None \<Rightarrow> latest_model newer_first
        | Some name \<Rightarrow> if name \<noteq> [] then Some name else latest_model newer_first))"

definition parent_header :: "manager \<Rightarrow> string \<Rightarrow> string \<times> int" where
  "parent_header m sid =
     (let (model, depth) = (case Option.bind (sub_entry m sid) si_agent of None \<Rightarrow> ([], 0) | Some c \<Rightarrow> (ca_model c, ca_depth c))
      in (case sm_store m of
          None \<Rightarrow> (model, depth)
        | Some sv \<Rightarrow>
            ((case Option.bind (sv_events sv sid) (\<lambda>es. latest_model (rev es)) of Some name \<Rightarrow> name | None \<Rightarrow> model),
             (if depth \<noteq> 0 then depth else (case sv_headers sv of None \<Rightarrow> depth
                | Some hs \<Rightarrow> (case find (\<lambda>h. hd_id h = sid \<and> depth < hd_delegation_depth h) hs of
                    Some h \<Rightarrow> hd_delegation_depth h | None \<Rightarrow> depth))))))"

section \<open>Starting a child\<close>

record sub_args =
  sb_role :: string
  sb_prompt :: string
  sb_model :: string

definition dec_sub_args :: "(string \<times> json) list \<Rightarrow> sub_args option" where
  "dec_sub_args kvs = Option.bind (dec_string ''role'' kvs) (\<lambda>r. Option.bind (dec_string ''prompt'' kvs) (\<lambda>p.
     map_option (\<lambda>x. \<lparr>sb_role = r, sb_prompt = p, sb_model = x\<rparr>) (dec_string ''model'' kvs)))"

definition sub_id :: "string \<Rightarrow> nat \<Rightarrow> string" where
  "sub_id sid nano = sid @ ''/sub-'' @ decimal (nano mod 100000)"

definition child_model :: "sub_args \<Rightarrow> string \<Rightarrow> string \<Rightarrow> string" where
  "child_model a getter parent =
     (if sb_model a \<noteq> [] then sb_model a else if getter \<noteq> [] then getter else if parent \<noteq> [] then parent else DefaultModelName)"

definition new_child :: "string \<Rightarrow> nat \<Rightarrow> int \<Rightarrow> sub_args \<Rightarrow> int \<Rightarrow> manager \<Rightarrow> subagent_info" where
  "new_child sid nano now a depth m =
     \<lparr>si_id = sub_id sid nano, si_role = sb_role a, si_parent = sid,
      si_agent = Some \<lparr>ca_model = child_model a (current_model m) (fst (parent_header m sid)), ca_depth = depth,
        ca_system = ''You are a specialized subagent with role: '' @ sb_role a @ ''.'', ca_alive = True, ca_posted = [sb_prompt a]\<rparr>,
      si_created = now, si_depth = depth, si_continuable = True\<rparr>"

text \<open>Up to the wait: the address of the new entry, whose prompt is posted.  \<open>nano\<close> and \<open>now\<close> are clocks.\<close>

definition start_child :: "string \<Rightarrow> nat \<Rightarrow> int \<Rightarrow> raw_message \<Rightarrow> manager \<Rightarrow> sub_error + (nat \<times> sub_args \<times> manager)" where
  "start_child sid nano now raw m = (case unmarshal dec_sub_args raw of
       None \<Rightarrow> Inl SubArguments
     | Some a \<Rightarrow> and_then (resolve_child_depth (snd (parent_header m sid))) (\<lambda>depth.
         let m1 = notify_started sid (sub_id sid nano) m
         in Inr (sm_next m, a, m1\<lparr>sm_infos := (sm_infos m)(sm_next m \<mapsto> new_child sid nano now a depth m),
              sm_next := Suc (sm_next m), sm_registry := AList.update (sub_id sid nano) (sm_next m) (sm_registry m)\<rparr>)))"

section \<open>Waiting for a child\<close>

datatype collect_input = Delivered session_envelope | ChannelClosed | TimerFired | ContextDone | AgentDone

datatype exit_kind = Settled | TimedOut | Canceled | Stopped

record collected =
  cl_text :: string
  cl_usage :: token_usage

definition zero_usage :: token_usage where
  "zero_usage = \<lparr>tu_input = 0, tu_output = 0, tu_cache_read = 0, tu_cache_write = 0, tu_reasoning = 0\<rparr>"

definition merge_usage :: "token_usage \<Rightarrow> token_usage \<Rightarrow> token_usage" where
  "merge_usage dst src = \<lparr>tu_input = wrap64 (tu_input dst + tu_input src), tu_output = wrap64 (tu_output dst + tu_output src),
     tu_cache_read = wrap64 (tu_cache_read dst + tu_cache_read src), tu_cache_write = wrap64 (tu_cache_write dst + tu_cache_write src),
     tu_reasoning = wrap64 (tu_reasoning dst + tu_reasoning src)\<rparr>"

text \<open>The payloads are decoded with the error ignored: a field of the wrong type keeps its zero value.\<close>

definition lenient_struct :: "string \<Rightarrow> raw_message \<Rightarrow> raw_message" where
  "lenient_struct k raw = Some (JObj (case json_field k (raw_fields raw) of Some (JObj ob) \<Rightarrow> ob | _ \<Rightarrow> []))"

definition lenient_elems :: "string \<Rightarrow> raw_message \<Rightarrow> json list" where
  "lenient_elems k raw = (case json_field k (raw_fields raw) of Some (JArr js) \<Rightarrow> js | _ \<Rightarrow> [])"

definition assistant_text :: "raw_message \<Rightarrow> string" where
  "assistant_text raw = concat (map (\<lambda>j. lenient_string ''text'' (Some j))
     (filter (\<lambda>j. lenient_string ''type'' (Some j) = ''text'') (lenient_elems ''content'' (lenient_struct ''message'' raw))))"

definition assistant_usage :: "raw_message \<Rightarrow> token_usage" where
  "assistant_usage raw = (let u = lenient_struct ''usage'' raw in
     \<lparr>tu_input = lenient_int ''inputTokens'' u, tu_output = lenient_int ''outputTokens'' u,
      tu_cache_read = lenient_int ''cacheReadTokens'' u, tu_cache_write = lenient_int ''cacheWriteTokens'' u,
      tu_reasoning = lenient_int ''reasoningTokens'' u\<rparr>)"

definition collect_message :: "session_envelope \<Rightarrow> collected \<Rightarrow> collected" where
  "collect_message e cl =
     (if env_type e = EventAssistantMessage
      then \<lparr>cl_text = cl_text cl @ assistant_text (env_data e), cl_usage = merge_usage (cl_usage cl) (assistant_usage (env_data e))\<rparr>
      else cl)"

definition map_turn_kind :: "string \<Rightarrow> string" where
  "map_turn_kind k =
     (if k = ''completed'' then ''completed''
      else if k = ''aborted'' \<or> k = ''interrupted'' then ''aborted''
      else if k = ''error'' then ''error''
      else if k = ''max-tokens'' then ''max-tokens''
      else ''error'')"

definition turn_end_kind :: "session_envelope \<Rightarrow> string" where
  "turn_end_kind e = lenient_string ''kind'' (lenient_struct ''reason'' (env_data e))"

definition collect_nothing :: collected where
  "collect_nothing = \<lparr>cl_text = [], cl_usage = zero_usage\<rparr>"

text \<open>\<open>None\<close>: the loop still waits after these inputs.\<close>

fun invoke_collect :: "collect_input list \<Rightarrow> collected \<Rightarrow> (collected \<times> string \<times> exit_kind) option" where
  "invoke_collect [] cl = None"
| "invoke_collect (Delivered e # ins) cl =
     (let cl1 = collect_message e cl
      in if env_type e = EventTurnEnd then Some (cl1, map_turn_kind (turn_end_kind e), Settled) else invoke_collect ins cl1)"
| "invoke_collect (ChannelClosed # ins) cl = Some (cl, ''error'', Settled)"
| "invoke_collect (TimerFired # ins) cl = Some (cl, ''aborted'', TimedOut)"
| "invoke_collect (ContextDone # ins) cl = Some (cl, ''aborted'', Canceled)"
| "invoke_collect (AgentDone # ins) cl = Some (cl, ''aborted'', Stopped)"

text \<open>The loop of a continuation does not look at the context.\<close>

fun continue_collect :: "collect_input list \<Rightarrow> collected \<Rightarrow> (collected \<times> exit_kind) option" where
  "continue_collect [] cl = None"
| "continue_collect (Delivered e # ins) cl =
     (let cl1 = collect_message e cl in if env_type e = EventTurnEnd then Some (cl1, Settled) else continue_collect ins cl1)"
| "continue_collect (ChannelClosed # ins) cl = Some (cl, Settled)"
| "continue_collect (TimerFired # ins) cl = Some (cl, TimedOut)"
| "continue_collect (ContextDone # ins) cl = continue_collect ins cl"
| "continue_collect (AgentDone # ins) cl = Some (cl, Stopped)"

section \<open>Settling and reporting\<close>

definition update_info :: "nat \<Rightarrow> (subagent_info \<Rightarrow> subagent_info) \<Rightarrow> manager \<Rightarrow> manager" where
  "update_info a f m = m\<lparr>sm_infos := (sm_infos m)(a := map_option f (sm_infos m a))\<rparr>"

definition stop_agent :: "nat \<Rightarrow> manager \<Rightarrow> manager" where
  "stop_agent a = update_info a (\<lambda>i. i\<lparr>si_agent := map_option (\<lambda>c. c\<lparr>ca_alive := False\<rparr>) (si_agent i)\<rparr>)"

definition post_message :: "nat \<Rightarrow> string \<Rightarrow> manager \<Rightarrow> manager" where
  "post_message a t = update_info a (\<lambda>i. i\<lparr>si_agent := map_option (\<lambda>c. c\<lparr>ca_posted := ca_posted c @ [t]\<rparr>) (si_agent i)\<rparr>)"

definition settle_subagent :: "nat \<Rightarrow> manager \<Rightarrow> manager" where
  "settle_subagent a m = (case sm_infos m a of
       None \<Rightarrow> m
     | Some i \<Rightarrow>
         let keep = si_continuable i \<and> alive i;
             m1 = update_info a (\<lambda>i. i\<lparr>si_continuable := keep\<rparr>) m
         in if keep then m1 else m1\<lparr>sm_registry := AList.delete (si_id i) (sm_registry m1)\<rparr>)"

definition usage_footer :: "token_usage \<Rightarrow> string" where
  "usage_footer u = print_json (JObj [(''subagentUsage'', enc_token_usage u)])"

definition quoted_role :: "string \<Rightarrow> string" where
  "quoted_role role = ''Subagent '' @ [CHR 0x27] @ role @ [CHR 0x27]"

definition aborted_reply :: "manager \<Rightarrow> string \<Rightarrow> collected \<Rightarrow> exit_kind \<Rightarrow> string" where
  "aborted_reply m role cl how = (case how of
       TimedOut \<Rightarrow> quoted_role role @ '' aborted: timed out after '' @ duration_text (effective_timeout m) @
         ''. Partial output: '' @ cl_text cl @ newline # usage_footer (cl_usage cl)
     | Canceled \<Rightarrow> ''Subagent execution canceled.'' @ newline # usage_footer (cl_usage cl)
     | Stopped \<Rightarrow> quoted_role role @ '' aborted: agent stopped before completion. Partial output: '' @ cl_text cl @
         newline # usage_footer (cl_usage cl)
     | Settled \<Rightarrow> [])"

definition settled_reply :: "string \<Rightarrow> collected \<Rightarrow> string" where
  "settled_reply silent cl =
     (if cl_text cl = [] then silent
      else if 0 < wrap64 (tu_input (cl_usage cl) + tu_output (cl_usage cl)) then cl_text cl @ newline # usage_footer (cl_usage cl)
      else cl_text cl)"

definition finish_child ::
  "string \<Rightarrow> string \<Rightarrow> nat \<Rightarrow> sub_args \<Rightarrow> collected \<times> string \<times> exit_kind \<Rightarrow> manager \<Rightarrow> string \<times> manager" where
  "finish_child sid i a args out m = (case out of (cl, stop, how) \<Rightarrow>
     let m1 = settle_subagent a (if how = TimedOut \<or> how = Canceled then stop_agent a m else m)
     in if how \<noteq> Settled then (aborted_reply m (sb_role args) cl how, m1)
        else let t = settled_reply (quoted_role (sb_role args) @ '' completed successfully.'') cl
             in (t, notify_finished sid i stop t m1))"

text \<open>The whole tool; \<open>meanwhile\<close> is what else happened to the manager during the wait.\<close>

definition invoke_subagent ::
  "string \<Rightarrow> nat \<Rightarrow> int \<Rightarrow> raw_message \<Rightarrow> (manager \<Rightarrow> manager) \<Rightarrow> collect_input list \<Rightarrow> manager \<Rightarrow>
   ((sub_error + string) \<times> manager) option" where
  "invoke_subagent sid nano now raw meanwhile ins m = (case start_child sid nano now raw m of
       Inl e \<Rightarrow> Some (Inl e, m)
     | Inr (a, args, m1) \<Rightarrow> map_option (\<lambda>out. case finish_child sid (sub_id sid nano) a args out (meanwhile m1) of (t, m2) \<Rightarrow> (Inr t, m2))
         (invoke_collect ins collect_nothing))"

definition continue_subagent ::
  "string \<Rightarrow> string \<Rightarrow> (manager \<Rightarrow> manager) \<Rightarrow> collect_input list \<Rightarrow> manager \<Rightarrow> ((sub_error + string) \<times> manager) option" where
  "continue_subagent i prompt meanwhile ins m = (case map_of (sm_registry m) i of
       None \<Rightarrow> Some (Inl (SubNotFound i), m)
     | Some a \<Rightarrow> (case sm_infos m a of
         None \<Rightarrow> Some (Inl (SubNotFound i), m)
       | Some info \<Rightarrow>
           if \<not> si_continuable info then Some (Inl (SubNotContinuable i), m)
           else if si_agent info = None then Some (Inl (SubHasNoAgent i), m)
           else map_option (\<lambda>(cl, how).
             let m1 = meanwhile (post_message a prompt m);
                 m2 = settle_subagent a (if how = TimedOut then stop_agent a m1 else m1)
             in (Inr (if how \<noteq> Settled then aborted_reply m (si_role info) cl how
                      else settled_reply (quoted_role (si_role info) @ '' continued with no text output.'') cl), m2))
             (continue_collect ins collect_nothing)))"

definition continue_by_role ::
  "string \<Rightarrow> string \<Rightarrow> string \<Rightarrow> (manager \<Rightarrow> manager) \<Rightarrow> collect_input list \<Rightarrow> manager \<Rightarrow> ((sub_error + string) \<times> manager) option" where
  "continue_by_role parent role prompt meanwhile ins m =
     (case fold (\<lambda>info best. if si_parent info = parent \<and> si_role info = role \<and> si_continuable info \<and> alive info
            then (case best of None \<Rightarrow> Some info | Some b \<Rightarrow> if si_created b < si_created info then Some info else best)
            else best) (sub_entries m) None of
        None \<Rightarrow> Some (Inl (NoSubWithRole role parent), m)
      | Some best \<Rightarrow> continue_subagent (si_id best) prompt meanwhile ins m)"

section \<open>Listing\<close>

text \<open>Dead entries are dropped on the way.\<close>

definition list_subagents :: "string \<Rightarrow> manager \<Rightarrow> subagent_info list \<times> manager" where
  "list_subagents sid m =
     (let live = filter (\<lambda>(_, a). case sm_infos m a of Some i \<Rightarrow> alive i | None \<Rightarrow> True) (sm_registry m);
          m1 = m\<lparr>sm_registry := live\<rparr>
      in (filter (\<lambda>i. si_parent i = sid) (sub_entries m1), m1))"

text \<open>A child that is not in the map is a nil pointer, which the sort dereferences.\<close>

datatype sub_node = SubNode string string string int int "sub_node option list"

datatype tree_error = NilNode | TreeTooDeep

fun node_created :: "sub_node option \<Rightarrow> int" where
  "node_created (Some (SubNode i r p c d ns)) = c"
| "node_created None = 0"

definition sorted_nodes :: "sub_node option list \<Rightarrow> tree_error + sub_node option list" where
  "sorted_nodes ns = (if 1 < length ns \<and> None \<in> set ns then Inl NilNode else Inr (sort_key node_created ns))"

fun seq_results :: "('e + 'a) list \<Rightarrow> 'e + 'a list" where
  "seq_results [] = Inr []"
| "seq_results (r # rs) = and_then r (\<lambda>x. and_then (seq_results rs) (\<lambda>xs. Inr (x # xs)))"

definition live_children :: "manager \<Rightarrow> string \<Rightarrow> subagent_info list" where
  "live_children m sid = filter (\<lambda>i. si_parent i = sid \<and> alive i) (sub_entries m)"

text \<open>The recursion runs on fuel.\<close>

fun subagent_node :: "nat \<Rightarrow> manager \<Rightarrow> string \<Rightarrow> int \<Rightarrow> tree_error + sub_node option" where
  "subagent_node 0 m i depth = Inl TreeTooDeep"
| "subagent_node (Suc fuel) m i depth = (case sub_entry m i of
       None \<Rightarrow> Inr None
     | Some info \<Rightarrow>
         and_then (if depth = 0 then Inr [] else
             and_then (seq_results (map (\<lambda>c. subagent_node fuel m (si_id c) (depth - 1)) (live_children m i))) sorted_nodes) (\<lambda>ns.
           Inr (Some (SubNode (si_id info) (si_role info) (si_parent info) (si_created info) (si_depth info) ns))))"

definition list_descendants :: "nat \<Rightarrow> manager \<Rightarrow> string \<Rightarrow> int \<Rightarrow> tree_error + sub_node option" where
  "list_descendants fuel m sid depth =
     (let children = sort_key si_created (live_children m sid)
      in if children = [] then Inr None
         else and_then (seq_results (map (\<lambda>c. subagent_node fuel m (si_id c) depth) children)) (\<lambda>ns.
           Inr (Some (SubNode sid [] [] 0 0 ns))))"

text \<open>The tool reads its depth leniently; only a positive one limits.\<close>

definition descendants_tool :: "nat \<Rightarrow> manager \<Rightarrow> string \<Rightarrow> raw_message \<Rightarrow> tree_error + sub_node option list" where
  "descendants_tool fuel m sid raw =
     (let d = lenient_int ''depth'' raw
      in and_then (list_descendants fuel m sid (if 0 < d then d else - 1)) (\<lambda>root. Inr (case root of None \<Rightarrow> [] | Some _ \<Rightarrow> [root])))"

end
