(* ===== verification/Subagent_Laws.thy ===== *)
theory Subagent_Laws imports Subagents begin

text \<open>
  Laws of the manager of child agents: what any interleaving of its operations keeps, and what the collect loops see.
\<close>

section \<open>Interleaved operations\<close>

text \<open>
  What may happen to a manager: a child is started, stopped or sent a message, a wait settles, a listing drops
  dead entries, a hook is told, the store changes.  No stored depth is the largest integer.
\<close>

definition sane_view :: "store_view option \<Rightarrow> bool" where
  "sane_view s \<longleftrightarrow> (\<forall>sv hs h. s = Some sv \<longrightarrow> sv_headers sv = Some hs \<longrightarrow> h \<in> set hs \<longrightarrow> hd_delegation_depth h < 2 ^ 63 - 1)"

inductive sub_step :: "manager \<Rightarrow> manager \<Rightarrow> bool" where
  start: "start_child sid nano now raw m = Inr (a, args, m') \<Longrightarrow> sub_step m m'"
| stop: "sub_step m (stop_agent a m)"
| post: "sub_step m (post_message a t m)"
| settle: "sub_step m (settle_subagent a m)"
| listing: "sub_step m (snd (list_subagents sid m))"
| told: "sub_step m (notify_finished p c s t m)"
| stored: "sane_view v \<Longrightarrow> sub_step m (m\<lparr>sm_store := v\<rparr>)"

abbreviation sub_steps :: "manager \<Rightarrow> manager \<Rightarrow> bool" where "sub_steps \<equiv> sub_step\<^sup>*\<^sup>*"

definition fresh_manager :: "manager \<Rightarrow> bool" where
  "fresh_manager m \<longleftrightarrow> sm_infos m = (\<lambda>_. None) \<and> sm_registry m = []"

text \<open>The shape of an entry, and of the registry.\<close>

definition info_ok :: "subagent_info \<Rightarrow> bool" where
  "info_ok i \<longleftrightarrow> (\<exists>n. si_id i = sub_id (si_parent i) n) \<and> si_depth i \<le> MaxDepth \<and>
     (\<exists>c. si_agent i = Some c \<and> ca_depth c = si_depth i)"

definition entry_ok :: "manager \<Rightarrow> string \<times> nat \<Rightarrow> bool" where
  "entry_ok m ka \<longleftrightarrow> (\<exists>i. sm_infos m (snd ka) = Some i \<and> si_id i = fst ka \<and> si_continuable i)"

definition sub_ok :: "manager \<Rightarrow> bool" where
  "sub_ok m \<longleftrightarrow> (\<forall>i \<in> ran (sm_infos m). info_ok i) \<and> distinct (map fst (sm_registry m)) \<and>
     (\<forall>ka \<in> set (sm_registry m). entry_ok m ka) \<and> (\<forall>a. sm_next m \<le> a \<longrightarrow> sm_infos m a = None)"

lemma sub_okI:
  assumes "\<And>a i. sm_infos m a = Some i \<Longrightarrow> info_ok i" "distinct (map fst (sm_registry m))"
    "\<And>k a. (k, a) \<in> set (sm_registry m) \<Longrightarrow> entry_ok m (k, a)" "\<And>a. sm_next m \<le> a \<Longrightarrow> sm_infos m a = None"
  shows "sub_ok m"
  using assms unfolding sub_ok_def ran_def by auto

lemma sub_okD:
  assumes "sub_ok m"
  shows "sm_infos m a = Some i \<Longrightarrow> info_ok i" "distinct (map fst (sm_registry m))"
    "(k, a) \<in> set (sm_registry m) \<Longrightarrow> \<exists>i. sm_infos m a = Some i \<and> si_id i = k \<and> si_continuable i"
    "sm_next m \<le> a \<Longrightarrow> sm_infos m a = None"
  using assms unfolding sub_ok_def entry_ok_def ran_def by auto

lemma fresh_ok: "fresh_manager m \<Longrightarrow> sub_ok m"
  by (rule sub_okI) (simp_all add: fresh_manager_def)

lemma notify_fields [simp]:
  "sm_infos (notify_finished p c s t m) = sm_infos m" "sm_registry (notify_finished p c s t m) = sm_registry m"
  "sm_next (notify_finished p c s t m) = sm_next m" "sm_infos (notify_started p c m) = sm_infos m"
  "sm_registry (notify_started p c m) = sm_registry m" "sm_next (notify_started p c m) = sm_next m"
  by (simp_all add: notify_finished_def notify_started_def)

text \<open>Changing the agent of an entry keeps everything the registry rests on.\<close>

lemma update_agent_ok:
  assumes "sub_ok m" and "\<And>i. si_id (f i) = si_id i \<and> si_parent (f i) = si_parent i \<and> si_depth (f i) = si_depth i \<and>
      si_continuable (f i) = si_continuable i"
    and "\<And>i c. si_agent i = Some c \<Longrightarrow> \<exists>c'. si_agent (f i) = Some c' \<and> ca_depth c' = ca_depth c"
  shows "sub_ok (update_info a f m)"
proof (rule sub_okI)
  fix b i assume "sm_infos (update_info a f m) b = Some i"
  then show "info_ok i"
    using assms(2,3) sub_okD(1) [OF assms(1)] unfolding update_info_def info_ok_def
    by (auto split: if_splits) metis+
next
  fix k b assume "(k, b) \<in> set (sm_registry (update_info a f m))"
  then have "(k, b) \<in> set (sm_registry m)" by (simp add: update_info_def)
  from sub_okD(3) [OF assms(1) this] show "entry_ok (update_info a f m) (k, b)"
    using assms(2) by (auto simp: entry_ok_def update_info_def)
qed (use sub_okD(2,4) [OF assms(1)] in \<open>auto simp: update_info_def\<close>)

lemma stop_ok: "sub_ok m \<Longrightarrow> sub_ok (stop_agent a m)"
  unfolding stop_agent_def by (rule update_agent_ok) auto

lemma post_ok: "sub_ok m \<Longrightarrow> sub_ok (post_message a t m)"
  unfolding post_message_def by (rule update_agent_ok) auto

lemma update_elem:
  assumes "distinct (map fst xs)" "(k, v) \<in> set (AList.update i a xs)"
  shows "k = i \<and> v = a \<or> k \<noteq> i \<and> (k, v) \<in> set xs"
proof -
  have "map_of (AList.update i a xs) k = Some v"
    using assms distinct_update by (metis map_of_eq_Some_iff)
  then have "((map_of xs)(i \<mapsto> a)) k = Some v" by (simp add: update_conv')
  then show ?thesis using map_of_SomeD [of xs k v] by (auto split: if_splits)
qed

lemma settle_ok:
  assumes ok: "sub_ok m"
  shows "sub_ok (settle_subagent a m)"
proof (cases "sm_infos m a")
  case None
  with ok show ?thesis by (simp add: settle_subagent_def)
next
  case (Some i)
  note parts = sub_okD [OF ok]
  show ?thesis
  proof (cases "si_continuable i \<and> alive i")
    case True
    then have "sm_infos (settle_subagent a m) = sm_infos m" "sm_registry (settle_subagent a m) = sm_registry m"
        "sm_next (settle_subagent a m) = sm_next m"
      using Some by (auto simp: settle_subagent_def update_info_def Let_def)
    with parts show ?thesis by (intro sub_okI) (auto simp: entry_ok_def)
  next
    case False
    then have m1: "sm_infos (settle_subagent a m) = (sm_infos m)(a \<mapsto> i\<lparr>si_continuable := False\<rparr>)"
        "sm_registry (settle_subagent a m) = AList.delete (si_id i) (sm_registry m)" "sm_next (settle_subagent a m) = sm_next m"
      using Some by (simp_all only: settle_subagent_def update_info_def Let_def option.case option.map False if_False) simp_all
    show ?thesis
    proof (rule sub_okI)
      show "info_ok j" if "sm_infos (settle_subagent a m) b = Some j" for b j
        using that Some parts(1) by (auto simp: m1 info_ok_def split: if_splits)
      show "entry_ok (settle_subagent a m) (k, b)" if "(k, b) \<in> set (sm_registry (settle_subagent a m))" for k b
      proof -
        have kb: "(k, b) \<in> set (sm_registry m)" "k \<noteq> si_id i" using that by (auto simp: m1 AList.delete_eq)
        with parts(3) Some have "b \<noteq> a" by fastforce
        with parts(3) [OF kb(1)] show ?thesis by (auto simp: entry_ok_def m1)
      qed
    qed (use parts(2,4) Some in \<open>auto simp: m1 distinct_delete\<close>)
  qed
qed

lemma listing_ok:
  assumes ok: "sub_ok m"
  shows "sub_ok (snd (list_subagents sid m))"
  using sub_okD [OF ok] by (intro sub_okI) (auto simp: list_subagents_def Let_def entry_ok_def distinct_map_filter)

lemma start_entry:
  assumes "start_child sid nano now raw m = Inr (a, args, m')"
  obtains depth where "unmarshal dec_sub_args raw = Some args" "resolve_child_depth (snd (parent_header m sid)) = Inr depth" "a = sm_next m"
    "sm_infos m' = (sm_infos m)(sm_next m \<mapsto> new_child sid nano now args depth m)"
    "sm_registry m' = AList.update (sub_id sid nano) (sm_next m) (sm_registry m)" "sm_next m' = Suc (sm_next m)"
  using assms by (auto simp: start_child_def Let_def and_then_Inr_iff split: option.splits simp del: and_then_simps)

lemma new_child_ok:
  assumes "resolve_child_depth d = Inr depth"
  shows "info_ok (new_child sid nano now a depth m)"
  using assms by (auto simp: info_ok_def new_child_def resolve_child_depth_def Let_def split: if_splits)

lemma start_ok:
  assumes ok: "sub_ok m" and "start_child sid nano now raw m = Inr (a, args, m')"
  shows "sub_ok m'"
proof -
  obtain depth where d: "resolve_child_depth (snd (parent_header m sid)) = Inr depth"
    "sm_infos m' = (sm_infos m)(sm_next m \<mapsto> new_child sid nano now args depth m)"
    "sm_registry m' = AList.update (sub_id sid nano) (sm_next m) (sm_registry m)" "sm_next m' = Suc (sm_next m)"
    by (rule start_entry [OF assms(2)])
  define i where "i = new_child sid nano now args depth m"
  have i: "sm_infos m' = (sm_infos m)(sm_next m \<mapsto> i)" "sm_registry m' = AList.update (si_id i) (sm_next m) (sm_registry m)"
    "sm_next m' = Suc (sm_next m)" "info_ok i" "si_continuable i"
    using d(2-4) new_child_ok [OF d(1)] by (simp_all add: i_def new_child_def)
  note parts = sub_okD [OF ok]
  show ?thesis
  proof (rule sub_okI)
    show "info_ok j" if "sm_infos m' b = Some j" for b j using that i parts(1) by (auto split: if_splits)
    show "entry_ok m' (k, b)" if "(k, b) \<in> set (sm_registry m')" for k b
    proof -
      have "k = si_id i \<and> b = sm_next m \<or> k \<noteq> si_id i \<and> (k, b) \<in> set (sm_registry m)"
        using that i(2) update_elem [OF parts(2)] by simp
      then show ?thesis
      proof
        assume "k \<noteq> si_id i \<and> (k, b) \<in> set (sm_registry m)"
        moreover from this have "b \<noteq> sm_next m" using parts(3) [of k b] parts(4) [of "sm_next m"] by auto
        ultimately show ?thesis using parts(3) [of k b] i(1) by (auto simp: entry_ok_def)
      qed (use i in \<open>simp add: entry_ok_def\<close>)
    qed
  qed (use i parts in \<open>auto simp: distinct_update\<close>)
qed

lemma sub_steps_ok:
  assumes "sub_steps m m'" "sub_ok m"
  shows "sub_ok m'"
  using assms
proof induction
  case (step y z)
  then have "sub_ok y" by blast
  with step.hyps(2) show ?case
  proof cases
    case told
    with \<open>sub_ok y\<close> show ?thesis using sub_okD [of y] by (intro sub_okI) (auto simp: entry_ok_def)
  next
    case stored
    with \<open>sub_ok y\<close> show ?thesis using sub_okD [of y] by (intro sub_okI) (auto simp: entry_ok_def)
  qed (auto simp: start_ok stop_ok post_ok settle_ok listing_ok)
qed

section \<open>Depths\<close>

text \<open>The depth of a session: that of its registered entry, else the first positive one in a stored header, else 0.\<close>

definition known_depth :: "manager \<Rightarrow> string \<Rightarrow> int" where
  "known_depth m sid = (case sub_entry m sid of
      Some p \<Rightarrow> si_depth p
    | None \<Rightarrow> (case Option.bind (sm_store m) sv_headers of
        None \<Rightarrow> 0
      | Some hs \<Rightarrow> (case filter (\<lambda>h. hd_id h = sid \<and> 0 < hd_delegation_depth h) hs of
          [] \<Rightarrow> 0 | h # _ \<Rightarrow> hd_delegation_depth h)))"

definition depths_ok :: "manager \<Rightarrow> bool" where
  "depths_ok m \<longleftrightarrow> sane_view (sm_store m) \<and> (\<forall>a i. sm_infos m a = Some i \<longrightarrow> 1 \<le> si_depth i)"

lemma find_filter: "find P xs = (case filter P xs of [] \<Rightarrow> None | x # _ \<Rightarrow> Some x)"
  by (induction xs) auto

lemma filter_hd_member: "filter P xs = x # ys \<Longrightarrow> x \<in> set xs \<and> P x"
  using filter_eq_Cons_iff [of P xs x ys] by auto

lemma entry_lookup:
  assumes "sub_ok m" "sub_entry m sid = Some p"
  obtains a c where "map_of (sm_registry m) sid = Some a" "sm_infos m a = Some p" "si_agent p = Some c" "ca_depth c = si_depth p"
    "si_depth p \<le> MaxDepth"
proof -
  from assms(2) obtain a where a: "map_of (sm_registry m) sid = Some a" "sm_infos m a = Some p"
    by (auto simp: sub_entry_def bind_eq_Some_conv)
  from sub_okD(1) [OF assms(1) a(2)] that [OF a] show thesis by (auto simp: info_ok_def)
qed

lemma parent_depth:
  assumes "sub_ok m" "depths_ok m"
  shows "snd (parent_header m sid) = known_depth m sid"
proof (cases "sub_entry m sid")
  case None
  then show ?thesis
    by (auto simp: parent_header_def known_depth_def find_filter split: option.splits list.splits)
next
  case (Some p)
  from entry_lookup [OF assms(1) Some] obtain a c where
    "sm_infos m a = Some p" "si_agent p = Some c" "ca_depth c = si_depth p" by metis
  moreover from this(1) assms(2) have "1 \<le> si_depth p" by (simp add: depths_ok_def)
  ultimately have "si_agent p = Some c" "ca_depth c \<noteq> 0" by simp_all
  with Some \<open>ca_depth c = si_depth p\<close> show ?thesis by (auto simp: parent_header_def known_depth_def split: option.splits)
qed

lemma known_depth_bounds:
  assumes "sub_ok m" "depths_ok m"
  shows "0 \<le> known_depth m sid" "known_depth m sid < 2 ^ 63 - 1"
proof -
  have "0 \<le> known_depth m sid \<and> known_depth m sid < 2 ^ 63 - 1"
  proof (cases "sub_entry m sid")
    case None
    with assms(2) show ?thesis
      by (auto simp: known_depth_def depths_ok_def sane_view_def bind_eq_Some_conv split: option.splits list.splits dest!: filter_hd_member)
  next
    case (Some p)
    from entry_lookup [OF assms(1) Some] obtain a where "sm_infos m a = Some p" "si_depth p \<le> MaxDepth" by metis
    with Some assms(2) show ?thesis by (fastforce simp: known_depth_def depths_ok_def)
  qed
  then show "0 \<le> known_depth m sid" "known_depth m sid < 2 ^ 63 - 1" by simp_all
qed

lemma child_depth:
  assumes "sub_ok m" "depths_ok m"
  shows "resolve_child_depth (snd (parent_header m sid)) =
    (if MaxDepth \<le> known_depth m sid then Inl (DepthExceeded (known_depth m sid + 1) MaxDepth) else Inr (known_depth m sid + 1))"
proof -
  have "wrap64 (known_depth m sid + 1) = known_depth m sid + 1"
    by (rule wrap64_id) (use known_depth_bounds [OF assms, of sid] in \<open>simp add: in_int64_def\<close>)
  then show ?thesis by (simp add: resolve_child_depth_def parent_depth [OF assms] Let_def)
qed

text \<open>A start, in terms of the depth.\<close>

lemma start_depth:
  assumes "sub_ok m" "depths_ok m" "start_child sid nano now raw m = Inr (a, args, m')"
  shows "known_depth m sid < MaxDepth" "a = sm_next m"
    "sm_infos m' = (sm_infos m)(a \<mapsto> new_child sid nano now args (known_depth m sid + 1) m)"
    "sm_registry m' = AList.update (sub_id sid nano) a (sm_registry m)" "sm_store m' = sm_store m"
proof -
  obtain depth where d: "resolve_child_depth (snd (parent_header m sid)) = Inr depth" "a = sm_next m"
    "sm_infos m' = (sm_infos m)(sm_next m \<mapsto> new_child sid nano now args depth m)"
    "sm_registry m' = AList.update (sub_id sid nano) (sm_next m) (sm_registry m)"
    by (rule start_entry [OF assms(3)])
  have k: "known_depth m sid < MaxDepth" "depth = known_depth m sid + 1"
    using d(1) unfolding child_depth [OF assms(1,2)] by (auto split: if_splits)
  with d show "known_depth m sid < MaxDepth" "a = sm_next m"
    "sm_infos m' = (sm_infos m)(a \<mapsto> new_child sid nano now args (known_depth m sid + 1) m)"
    "sm_registry m' = AList.update (sub_id sid nano) a (sm_registry m)" by simp_all
  show "sm_store m' = sm_store m" using assms(3)
    by (auto simp: start_child_def Let_def and_then_Inr_iff notify_started_def split: option.splits simp del: and_then_simps)
qed

text \<open>No step changes the depth of an entry, or forgets one.\<close>

lemma step_depths:
  assumes "sub_step m m'" "sub_ok m" "depths_ok m"
  shows "depths_ok m'" "sm_infos m a = Some i \<Longrightarrow> \<exists>j. sm_infos m' a = Some j \<and> si_depth j = si_depth i"
proof -
  have "depths_ok m' \<and> (\<forall>a i. sm_infos m a = Some i \<longrightarrow> (\<exists>j. sm_infos m' a = Some j \<and> si_depth j = si_depth i))"
    using assms(1)
  proof cases
    case (start sid nano now raw b args)
    note st = start_depth [OF assms(2,3) start]
    have "depths_ok m'"
      using assms(3) known_depth_bounds(1) [OF assms(2,3), of sid] by (auto simp: depths_ok_def st(3,5) new_child_def)
    moreover have "c \<noteq> b" if "sm_infos m c = Some i" for c i
      using that sub_okD(4) [OF assms(2), of c] st(2) by auto
    ultimately show ?thesis by (auto simp: st(3))
  next
    case (settle b)
    with assms(3) show ?thesis
      by (auto simp: depths_ok_def settle_subagent_def update_info_def Let_def split: option.splits if_splits)
  qed (use assms(3) in \<open>auto simp: depths_ok_def stop_agent_def post_message_def update_info_def list_subagents_def Let_def
      notify_finished_def split: if_splits\<close>)
  then show "depths_ok m'" "sm_infos m a = Some i \<Longrightarrow> \<exists>j. sm_infos m' a = Some j \<and> si_depth j = si_depth i" by blast+
qed

lemma reached_ok:
  assumes "fresh_manager m0" "sane_view (sm_store m0)" "sub_steps m0 m"
  shows "sub_ok m" "depths_ok m"
proof -
  show "sub_ok m" by (rule sub_steps_ok [OF assms(3) fresh_ok [OF assms(1)]])
  from assms(3) show "depths_ok m"
  proof induction
    case base
    with assms(1,2) show ?case by (simp add: fresh_manager_def depths_ok_def)
  next
    case (step y z)
    from sub_steps_ok [OF step.hyps(1) fresh_ok [OF assms(1)]] step show ?case using step_depths(1) by blast
  qed
qed

text \<open>
  The child at address \<open>a\<close> came about by \<open>n\<close> delegations, each but the first from a child that was
  registered when it delegated.
\<close>

inductive nested :: "manager \<Rightarrow> manager \<Rightarrow> nat \<Rightarrow> nat \<Rightarrow> bool" for m0 where
  first: "sub_steps m0 m \<Longrightarrow> start_child sid nano now raw m = Inr (a, args, m') \<Longrightarrow> nested m0 m' 1 a"
| later: "nested m0 m n a \<Longrightarrow> sub_step m m' \<Longrightarrow> nested m0 m' n a"
| deeper: "nested m0 m n a \<Longrightarrow> map_of (sm_registry m) sid = Some a \<Longrightarrow>
    start_child sid nano now raw m = Inr (b, args, m') \<Longrightarrow> nested m0 m' (Suc n) b"

lemma nested_depth:
  assumes "nested m0 m n a" "fresh_manager m0" "sane_view (sm_store m0)"
  shows "sub_steps m0 m \<and> (\<exists>i. sm_infos m a = Some i \<and> int n \<le> si_depth i)"
  using assms(1)
proof induction
  case (first m sid nano now raw a args m')
  note ok = reached_ok [OF assms(2,3) first(1)]
  show ?case using start_depth [OF ok first(2)] known_depth_bounds(1) [OF ok, of sid] sub_step.start [OF first(2)] first(1)
    by (auto simp: new_child_def intro: rtranclp.rtrancl_into_rtrancl)
next
  case (later m n a m')
  then have r: "sub_steps m0 m" by blast
  note ok = reached_ok [OF assms(2,3) r]
  from later.IH obtain i where i: "sm_infos m a = Some i" "int n \<le> si_depth i" by blast
  from step_depths(2) [OF later.hyps(2) ok i(1)] i(2) have "\<exists>j. sm_infos m' a = Some j \<and> int n \<le> si_depth j" by auto
  with rtranclp.rtrancl_into_rtrancl [OF r later.hyps(2)] show ?case by blast
next
  case (deeper m n a sid nano now raw b args m')
  then have r: "sub_steps m0 m" by blast
  note ok = reached_ok [OF assms(2,3) r]
  from deeper.IH obtain i where i: "sm_infos m a = Some i" "int n \<le> si_depth i" by blast
  have "known_depth m sid = si_depth i" using deeper.hyps(2) i(1) by (simp add: known_depth_def sub_entry_def)
  with start_depth(3) [OF ok deeper.hyps(3)] i(2)
  have "\<exists>j. sm_infos m' b = Some j \<and> int (Suc n) \<le> si_depth j" by (simp add: new_child_def)
  with rtranclp.rtrancl_into_rtrancl [OF r sub_step.start [OF deeper.hyps(3)]] show ?case by blast
qed

section \<open>An example\<close>

definition lone_manager :: manager where
  "lone_manager = \<lparr>sm_infos = (\<lambda>_. None), sm_next = 0, sm_registry = [], sm_notes = [], sm_started_hook = True,
     sm_finished_hook = True, sm_store = None, sm_timeout = 0, sm_getter = None\<rparr>"

definition example_sub_args :: raw_message where
  "example_sub_args = Some (JObj [(''role'', JStr ''r''), (''prompt'', JStr ''p'')])"

lemma example_id: "sub_id ''s'' 7 = ''s/sub-7''"
proof -
  have "decimal 7 = ''7''" by code_simp
  then show ?thesis by (simp add: sub_id_def)
qed

lemma example_start:
  "\<exists>m1. start_child ''s'' 7 0 example_sub_args lone_manager = Inr (0, \<lparr>sb_role = ''r'', sb_prompt = ''p'', sb_model = []\<rparr>, m1) \<and>
    sm_notes m1 = [Started ''s'' ''s/sub-7''] \<and> sm_finished_hook m1"
proof -
  have d: "unmarshal dec_sub_args example_sub_args = Some \<lparr>sb_role = ''r'', sb_prompt = ''p'', sb_model = []\<rparr>" by code_simp
  note i = example_id
  have p: "parent_header lone_manager ''s'' = ([], 0)" by (simp add: parent_header_def lone_manager_def sub_entry_def)
  have "resolve_child_depth 0 = Inr 1" by (simp add: resolve_child_depth_def wrap64_def)
  then show ?thesis by (simp add: start_child_def d i p) (simp add: lone_manager_def notify_started_def)
qed

lemma fresh_lone: "fresh_manager lone_manager"
  by (simp add: fresh_manager_def lone_manager_def)

lemma example_reached: "\<exists>m. sub_steps lone_manager m \<and> sm_infos m 0 \<noteq> None \<and> live_children m ''s'' \<noteq> []"
proof -
  obtain m1 where m1: "start_child ''s'' 7 0 example_sub_args lone_manager = Inr (0, \<lparr>sb_role = ''r'', sb_prompt = ''p'', sb_model = []\<rparr>, m1)"
    using example_start by blast
  let ?i = "\<lambda>depth. new_child ''s'' 7 0 \<lparr>sb_role = ''r'', sb_prompt = ''p'', sb_model = []\<rparr> depth lone_manager"
  obtain depth where "sm_infos m1 = (sm_infos lone_manager)(sm_next lone_manager \<mapsto> ?i depth)"
    "sm_registry m1 = AList.update (sub_id ''s'' 7) (sm_next lone_manager) (sm_registry lone_manager)"
    by (rule start_entry [OF m1])
  then have "sm_infos m1 0 = Some (?i depth)" "sm_registry m1 = [(sub_id ''s'' 7, 0)]"
    by (simp_all add: lone_manager_def)
  then have "sm_infos m1 0 \<noteq> None" "live_children m1 ''s'' = [?i depth]"
    by (simp_all add: live_children_def sub_entries_def List.map_filter_def new_child_def alive_def)
  with sub_step.start [OF m1] show ?thesis by (intro exI [of _ m1]) auto
qed

end
