(* ===== verification/Subagent_Tree.thy ===== *)
theory Subagent_Tree imports Subagent_Laws begin

text \<open>The lineage tree against the relation of live descendants, and the fuel its recursion needs.\<close>

text \<open>\<open>descends m k sid i\<close>: \<open>i\<close> is reached from \<open>sid\<close> in \<open>k\<close> steps to a live child.\<close>

definition child_of :: "manager \<Rightarrow> string \<Rightarrow> subagent_info \<Rightarrow> bool" where
  "child_of m sid i \<longleftrightarrow> i \<in> set (sub_entries m) \<and> si_parent i = sid \<and> alive i"

inductive descends :: "manager \<Rightarrow> nat \<Rightarrow> string \<Rightarrow> subagent_info \<Rightarrow> bool" for m where
  child: "child_of m sid i \<Longrightarrow> descends m 1 sid i"
| deeper: "child_of m sid i \<Longrightarrow> descends m k (si_id i) j \<Longrightarrow> descends m (Suc k) sid j"

lemma live_children_set: "i \<in> set (live_children m sid) \<longleftrightarrow> child_of m sid i"
  by (auto simp: live_children_def child_of_def)

lemma descends_pos: "descends m k sid j \<Longrightarrow> 0 < k"
  by (induction rule: descends.induct) auto

lemma descends_split:
  "(\<exists>k. descends m k sid j \<and> p k) \<longleftrightarrow>
     (p 1 \<and> j \<in> set (live_children m sid)) \<or> (\<exists>i \<in> set (live_children m sid). \<exists>k. descends m k (si_id i) j \<and> p (Suc k))"
proof -
  have "descends m k sid j \<longleftrightarrow> k = 1 \<and> j \<in> set (live_children m sid) \<or>
      (\<exists>i \<in> set (live_children m sid). \<exists>k'. k = Suc k' \<and> descends m k' (si_id i) j)" for k
    by (subst descends.simps) (auto simp: live_children_set)
  then show ?thesis by auto
qed

definition reached :: "manager \<Rightarrow> string \<Rightarrow> (nat \<Rightarrow> bool) \<Rightarrow> string set" where
  "reached m sid p = {si_id j | j. \<exists>k. descends m k sid j \<and> p k}"

lemma reached_split:
  "reached m sid p = (if p 1 then si_id ` set (live_children m sid) else {}) \<union>
     (\<Union>i \<in> set (live_children m sid). reached m (si_id i) (p \<circ> Suc))"
  by (auto simp: reached_def descends_split [of m sid _ p])

lemma reached_none: "(\<And>k. 0 < k \<Longrightarrow> \<not> p k) \<Longrightarrow> reached m sid p = {}"
  using descends_pos by (auto simp: reached_def)

text \<open>The levels a depth allows below a node.\<close>

definition within :: "int \<Rightarrow> nat \<Rightarrow> bool" where
  "within depth k \<longleftrightarrow> depth < 0 \<or> int k \<le> depth"

primrec tree_ids :: "sub_node \<Rightarrow> string set" where
  "tree_ids (SubNode i r p c d ns) = insert i (\<Union>(set (map (case_option {} id) (map (map_option tree_ids) ns))))"

primrec tree_sorted :: "sub_node \<Rightarrow> bool" where
  "tree_sorted (SubNode i r p c d ns) \<longleftrightarrow> sorted (map node_created ns) \<and>
     list_all (case_option False id) (map (map_option tree_sorted) ns)"

section \<open>Entries\<close>

lemma sub_entries_iff: "i \<in> set (sub_entries m) \<longleftrightarrow> (\<exists>k a. (k, a) \<in> set (sm_registry m) \<and> sm_infos m a = Some i)"
  by (force simp: sub_entries_def List.map_filter_def)

lemma sub_entry_of:
  assumes "sub_ok m" "i \<in> set (sub_entries m)"
  shows "sub_entry m (si_id i) = Some i"
proof -
  obtain k a where ka: "(k, a) \<in> set (sm_registry m)" "sm_infos m a = Some i" using assms(2) sub_entries_iff by blast
  with sub_okD(3) [OF assms(1) ka(1)] have "k = si_id i" by auto
  with ka sub_okD(2) [OF assms(1)] show ?thesis by (simp add: sub_entry_def)
qed

lemma live_child:
  assumes "sub_ok m" "c \<in> set (live_children m sid)"
  shows "sub_entry m (si_id c) = Some c" "length sid < length (si_id c)" "c \<in> set (sub_entries m)"
proof -
  show e: "c \<in> set (sub_entries m)" using assms(2) by (simp add: live_children_def)
  then show "sub_entry m (si_id c) = Some c" by (rule sub_entry_of [OF assms(1)])
  from e obtain k a where "sm_infos m a = Some c" using sub_entries_iff by blast
  from sub_okD(1) [OF assms(1) this] assms(2) show "length sid < length (si_id c)"
    by (auto simp: info_ok_def sub_id_def live_children_def)
qed

section \<open>The recursion\<close>

lemma seq_results_map: "(\<And>c. c \<in> set cs \<Longrightarrow> f c = Inr (g c)) \<Longrightarrow> seq_results (map f cs) = Inr (map g cs)"
  by (induction cs) auto

lemma insort_key_map: "insort_key f (h x) (map h xs) = map h (insort_key (f \<circ> h) x xs)"
  by (induction xs) auto

lemma sort_key_of_map: "sort_key f (map h xs) = map h (sort_key (f \<circ> h) xs)"
  by (induction xs) (simp_all add: insort_key_map comp_def)

text \<open>A node is described by what it was built from.\<close>

definition node_of :: "manager \<Rightarrow> subagent_info \<Rightarrow> int \<Rightarrow> sub_node \<Rightarrow> bool" where
  "node_of m i depth n \<longleftrightarrow> tree_ids n = insert (si_id i) (reached m (si_id i) (within depth)) \<and> tree_sorted n \<and>
     node_created (Some n) = si_created i"

lemma nodes_described:
  assumes "\<And>c. c \<in> set cs \<Longrightarrow> node_of m c depth (g c)"
  shows "tree_ids (SubNode i r p t d (map (Some \<circ> g) cs)) =
      insert i (si_id ` set cs \<union> (\<Union>c \<in> set cs. reached m (si_id c) (within depth)))"
    and "list_all (case_option False id) (map (map_option tree_sorted) (map (Some \<circ> g) cs))"
  using assms by (auto simp: node_of_def list_all_iff)

lemma subagent_node_exact:
  assumes "sub_ok m" and "\<And>i. i \<in> set (sub_entries m) \<Longrightarrow> length (si_id i) \<le> B"
    and "sub_entry m (si_id i) = Some i" and "B < fuel + length (si_id i)" "i \<in> set (sub_entries m)"
  shows "\<exists>n. subagent_node fuel m (si_id i) depth = Inr (Some n) \<and> node_of m i depth n"
  using assms(3-)
proof (induction fuel arbitrary: i depth)
  case 0
  with assms(2) [of i] show ?case by simp
next
  case (Suc fuel)
  let ?cs = "live_children m (si_id i)"
  show ?case
  proof (cases "depth = 0")
    case True
    have "reached m (si_id i) (within 0) = {}" by (rule reached_none) (simp add: within_def)
    with True Suc.prems(1) show ?thesis by (simp add: node_of_def)
  next
    case False
    have "\<exists>n. subagent_node fuel m (si_id c) (depth - 1) = Inr (Some n) \<and> node_of m c (depth - 1) n" if "c \<in> set ?cs" for c
      using Suc.IH [of c "depth - 1"] live_child [OF assms(1) that] Suc.prems(2) by simp
    then obtain g where g: "\<And>c. c \<in> set ?cs \<Longrightarrow> subagent_node fuel m (si_id c) (depth - 1) = Inr (Some (g c)) \<and> node_of m c (depth - 1) (g c)"
      by metis
    let ?cs' = "sort_key (node_created \<circ> (Some \<circ> g)) ?cs"
    have seq: "seq_results (map (\<lambda>c. subagent_node fuel m (si_id c) (depth - 1)) ?cs) = Inr (map (Some \<circ> g) ?cs)"
      using g by (intro seq_results_map) simp
    have sorted: "sorted_nodes (map (Some \<circ> g) ?cs) = Inr (map (Some \<circ> g) ?cs')"
      by (auto simp: sorted_nodes_def sort_key_of_map simp del: map_map)
    let ?n = "SubNode (si_id i) (si_role i) (si_parent i) (si_created i) (si_depth i) (map (Some \<circ> g) ?cs')"
    have "within depth 1" "within depth \<circ> Suc = within (depth - 1)" using False by (auto simp: within_def fun_eq_iff)
    then have "reached m (si_id i) (within depth) = si_id ` set ?cs \<union> (\<Union>c \<in> set ?cs. reached m (si_id c) (within (depth - 1)))"
      by (simp add: reached_split [of m "si_id i"])
    moreover have "node_of m c (depth - 1) (g c)" if "c \<in> set ?cs'" for c using g that by simp
    moreover have "sorted (map node_created (map (Some \<circ> g) ?cs'))" by (simp only: map_map sorted_sort_key)
    ultimately have "node_of m i depth ?n"
      using nodes_described [of ?cs' m "depth - 1" g] by (simp add: node_of_def del: map_map)
    then show ?thesis using Suc.prems(1) False seq sorted by simp
  qed
qed

section \<open>The lineage of a session\<close>

definition id_bound :: "manager \<Rightarrow> nat" where
  "id_bound m = sum_list (map (\<lambda>i. length (si_id i)) (sub_entries m))"

lemma id_bound: "i \<in> set (sub_entries m) \<Longrightarrow> length (si_id i) \<le> id_bound m"
  unfolding id_bound_def by (rule member_le_sum_list) auto

definition lineage :: "manager \<Rightarrow> string \<Rightarrow> int \<Rightarrow> tree_error + sub_node option \<Rightarrow> bool" where
  "lineage m sid depth r \<longleftrightarrow>
     (if \<not> (\<exists>i. child_of m sid i) then r = Inr None
      else \<exists>n. r = Inr (Some n) \<and> tree_sorted n \<and> tree_ids n = insert sid (reached m sid (within (if depth < 0 then depth else depth + 1))))"

lemma list_descendants_lineage:
  assumes ok: "sub_ok m" and fuel: "id_bound m < fuel"
  shows "lineage m sid depth (list_descendants fuel m sid depth)"
proof (cases "live_children m sid = []")
  case True
  then have "\<not> (\<exists>i. child_of m sid i)" by (simp flip: live_children_set)
  with True show ?thesis by (simp add: lineage_def list_descendants_def)
next
  case False
  let ?cs = "live_children m sid" let ?cs' = "sort_key si_created ?cs"
  have "\<exists>n. subagent_node fuel m (si_id c) depth = Inr (Some n) \<and> node_of m c depth n" if "c \<in> set ?cs" for c
    using subagent_node_exact [OF ok id_bound, where i = c] live_child [OF ok that] fuel by simp
  then obtain g where g: "\<And>c. c \<in> set ?cs \<Longrightarrow> subagent_node fuel m (si_id c) depth = Inr (Some (g c)) \<and> node_of m c depth (g c)"
    by metis
  have seq: "seq_results (map (\<lambda>c. subagent_node fuel m (si_id c) depth) ?cs') = Inr (map (Some \<circ> g) ?cs')"
    using g by (intro seq_results_map) simp
  let ?n = "SubNode sid [] [] 0 0 (map (Some \<circ> g) ?cs')"
  let ?levels = "within (if depth < 0 then depth else depth + 1)"
  have "?levels 1" "?levels \<circ> Suc = within depth" by (auto simp: within_def fun_eq_iff)
  then have ids: "reached m sid ?levels = si_id ` set ?cs \<union> (\<Union>c \<in> set ?cs. reached m (si_id c) (within depth))"
    by (simp add: reached_split [of m sid])
  have "node_created (Some (g c)) = si_created c" if "c \<in> set ?cs'" for c using g that by (simp add: node_of_def)
  then have "map node_created (map (Some \<circ> g) ?cs') = map si_created ?cs'" by simp
  then have "sorted (map node_created (map (Some \<circ> g) ?cs'))" by (simp only: sorted_sort_key)
  moreover have "node_of m c depth (g c)" if "c \<in> set ?cs'" for c using g that by simp
  ultimately have "tree_sorted ?n \<and> tree_ids ?n = insert sid (reached m sid ?levels)"
    using nodes_described [of ?cs' m depth g] ids by (simp del: map_map)
  moreover have "?cs' \<noteq> []" using False by (metis set_empty set_sort)
  moreover have "\<exists>i. child_of m sid i" using False by (simp flip: live_children_set add: ex_in_conv)
  ultimately show ?thesis using seq by (simp add: lineage_def list_descendants_def Let_def del: map_map tree_sorted.simps tree_ids.simps)
qed

text \<open>
  C22. Lineage. However spawning, stopping, settling and listing interleave, ListDescendants ends, dereferences
  no nil node, and returns a tree sorted by creation time of exactly the live descendants within the depth.
\<close>
theorem lineage_exact:
  assumes "fresh_manager m0" "sub_steps m0 m" "id_bound m < fuel"
  shows "lineage m sid depth (list_descendants fuel m sid depth)"
  by (rule list_descendants_lineage [OF sub_steps_ok [OF assms(2) fresh_ok [OF assms(1)]] assms(3)])

theorem lineage_exact_witness:
  "\<exists>m. live_children m ''s'' \<noteq> [] \<and> lineage m ''s'' (- 1) (list_descendants (Suc (id_bound m)) m ''s'' (- 1))"
proof -
  obtain m where "sub_steps lone_manager m" "live_children m ''s'' \<noteq> []" using example_reached by blast
  with lineage_exact [OF fresh_lone, of m "Suc (id_bound m)"] show ?thesis by blast
qed

end
