(* ===== verification/Subagent_Properties.thy ===== *)
theory Subagent_Properties imports Subagent_Tree Turn_Effects begin

text \<open>
  Properties of child agents: depth along delegations, what a wait reports, that it ends, what an abort leaves
  behind, and where the code parts from its comments.
\<close>

section \<open>Depth\<close>

text \<open>
  C25. Depth limit. However spawning, stopping, settling, listing and changes of the store interleave, as
  long as no stored header has the largest 64-bit number for its depth (its successor would wrap), a child
  is started exactly when its arguments decode and its parent's depth - that of the registered entry, else
  that of a stored header - is below MaxDepth, and is refused with the structured error otherwise. A started
  child is registered one deeper than its parent, its agent carries the same depth, and the number of
  delegations that led to it, each from a child registered at the time, is at most that depth.
\<close>
theorem delegation_bounded:
  assumes "fresh_manager m0" "sane_view (sm_store m0)" "sub_steps m0 m"
  shows "case start_child sid nano now raw m of
      Inl e \<Rightarrow> unmarshal dec_sub_args raw = None \<and> e = SubArguments \<or>
        MaxDepth \<le> known_depth m sid \<and> e = DepthExceeded (known_depth m sid + 1) MaxDepth
    | Inr (a, args, m') \<Rightarrow> unmarshal dec_sub_args raw = Some args \<and>
        (\<exists>c. sm_infos m' a = Some c \<and> sub_entry m' (si_id c) = Some c \<and> si_parent c = sid \<and>
          si_depth c = known_depth m sid + 1 \<and> map_option ca_depth (si_agent c) = Some (si_depth c) \<and>
          1 \<le> si_depth c \<and> si_depth c \<le> MaxDepth \<and> (\<forall>n. nested m0 m' n a \<longrightarrow> int n \<le> si_depth c))"
proof (cases "start_child sid nano now raw m")
  case (Inl e)
  note ok = reached_ok [OF assms]
  from Inl show ?thesis using child_depth [OF ok, of sid]
    by (auto simp: start_child_def Let_def split: option.splits if_splits)
next
  case (Inr r)
  obtain a args m' where r: "r = (a, args, m')" by (cases r)
  note ok = reached_ok [OF assms] note start = Inr [unfolded r]
  let ?c = "new_child sid nano now args (known_depth m sid + 1) m"
  note st = start_depth [OF ok start]
  have args: "unmarshal dec_sub_args raw = Some args" by (rule start_entry [OF start])
  have c: "sm_infos m' a = Some ?c" using st(3) by simp
  moreover have "sub_entry m' (si_id ?c) = Some ?c" using c st(4) by (simp add: sub_entry_def new_child_def update_conv')
  moreover have "int n \<le> si_depth ?c" if "nested m0 m' n a" for n
    using nested_depth [OF that assms(1,2)] c by auto
  moreover have "1 \<le> si_depth ?c" "si_depth ?c \<le> MaxDepth" "si_depth ?c = known_depth m sid + 1" "si_parent ?c = sid"
      "map_option ca_depth (si_agent ?c) = Some (si_depth ?c)"
    using st(1) known_depth_bounds(1) [OF ok, of sid] by (simp_all add: new_child_def)
  ultimately show ?thesis using Inr r args by auto
qed

section \<open>What a turn says\<close>

definition messages_of :: "session_envelope list \<Rightarrow> raw_message list" where
  "messages_of es = map env_data (filter (\<lambda>e. env_type e = EventAssistantMessage) es)"

definition turn_report :: "raw_message list \<Rightarrow> collected \<Rightarrow> collected" where
  "turn_report raws cl = \<lparr>cl_text = cl_text cl @ concat (map assistant_text raws),
     cl_usage = fold (\<lambda>r u. merge_usage u (assistant_usage r)) raws (cl_usage cl)\<rparr>"

lemma invoke_collect_turn:
  assumes "\<forall>e \<in> set es. env_type e \<noteq> EventTurnEnd" "env_type e = EventTurnEnd"
  shows "invoke_collect (map Delivered es @ Delivered e # rest) cl =
    Some (turn_report (messages_of es) cl, map_turn_kind (turn_end_kind e), Settled)"
  using assms
  by (induction es arbitrary: cl) (auto simp: turn_report_def messages_of_def collect_message_def Let_def)

lemma lenient_string_dec: "dec_string k kvs = Some s \<Longrightarrow> lenient_string k (Some (JObj kvs)) = s"
  by (simp add: lenient_string_def raw_fields_def)

lemma lenient_int_dec: "dec_int k kvs = Some s \<Longrightarrow> lenient_int k (Some (JObj kvs)) = s"
  by (simp add: lenient_int_def raw_fields_def)

lemma lenient_block:
  assumes "dec_content_block j = Some b"
  shows "lenient_string ''type'' (Some j) = cb_type b \<and> lenient_string ''text'' (Some j) = cb_text b"
proof (cases j)
  case (JObj kvs)
  with assms show ?thesis
    by (auto simp: dec_content_block_JObj bind_eq_Some_conv lenient_string_dec)
next
  case JNull
  with assms show ?thesis
    by (auto simp: dec_content_block.simps lenient_string_def raw_fields_def dec_string_def)
qed (use assms in \<open>auto simp: dec_content_block.simps\<close>)

lemma those_Some: "those xs = Some ys \<Longrightarrow> xs = map Some ys"
  by (induction xs arbitrary: ys) (auto split: option.splits)

lemma lenient_blocks:
  assumes "those (map dec_content_block js) = Some bs"
  shows "concat (map (\<lambda>j. lenient_string ''text'' (Some j)) (filter (\<lambda>j. lenient_string ''type'' (Some j) = ''text'') js)) =
    extract_text_from_blocks bs"
  using those_Some [OF assms]
proof (induction js arbitrary: bs)
  case (Cons j js)
  then obtain b bs' where b: "bs = b # bs'" "dec_content_block j = Some b" "map dec_content_block js = map Some bs'" by (cases bs) auto
  with Cons.IH [OF b(3)] lenient_block [OF b(2)] show ?case by (simp add: extract_text_from_blocks_def)
qed (simp add: extract_text_from_blocks_def)

lemma raw_fields_of: "unmarshal d raw = Some p \<Longrightarrow> d (raw_fields raw) = Some p"
  unfolding unmarshal_def dec_object_def raw_fields_def by (cases raw; cases "the raw") auto

lemma lenient_struct_fields: "raw_fields (lenient_struct k raw) = (case json_field k (raw_fields raw) of Some (JObj ob) \<Rightarrow> ob | _ \<Rightarrow> [])"
  by (simp add: lenient_struct_def raw_fields_def)

lemma lenient_int_fields: "dec_int k (raw_fields raw) = Some i \<Longrightarrow> lenient_int k raw = i"
  by (simp add: lenient_int_def)

lemma assistant_text_of:
  assumes "unmarshal dec_assistant_message raw = Some p"
  shows "assistant_text raw = extract_text_from_blocks (wm_content (am_message p))"
proof -
  have "dec_struct dec_wire_message ''message'' (raw_fields raw) = Some (am_message p)"
    using raw_fields_of [OF assms] by (auto simp: dec_assistant_message_def bind_eq_Some_conv)
  then have "dec_wire_message (raw_fields (lenient_struct ''message'' raw)) = Some (am_message p)"
    by (auto simp: lenient_struct_fields dec_struct_def split: option.splits json.splits)
  then have "dec_list dec_content_block ''content'' (raw_fields (lenient_struct ''message'' raw)) = Some (wm_content (am_message p))"
    by (cases "am_message p") (auto simp: dec_wire_message_def bind_eq_Some_conv)
  then have "those (map dec_content_block (lenient_elems ''content'' (lenient_struct ''message'' raw))) = Some (wm_content (am_message p))"
    by (auto simp: lenient_elems_def dec_list_def split: option.splits json.splits)
  then show ?thesis unfolding assistant_text_def by (rule lenient_blocks)
qed

lemma assistant_usage_of:
  assumes "unmarshal dec_assistant_message raw = Some p"
  shows "assistant_usage raw = (case am_usage p of None \<Rightarrow> zero_usage | Some u \<Rightarrow> u)"
proof -
  let ?u = "lenient_struct ''usage'' raw"
  have u: "dec_ptr dec_token_usage ''usage'' (raw_fields raw) = Some (am_usage p)"
    using raw_fields_of [OF assms] by (auto simp: dec_assistant_message_def bind_eq_Some_conv)
  show ?thesis
  proof (cases "am_usage p")
    case None
    with u have "raw_fields ?u = []" by (auto simp: lenient_struct_fields dec_ptr_def split: option.splits json.splits)
    with None show ?thesis by (simp add: assistant_usage_def zero_usage_def lenient_int_def dec_int_def)
  next
    case (Some t)
    with u have "dec_token_usage (raw_fields ?u) = Some t"
      by (auto simp: lenient_struct_fields dec_ptr_def split: option.splits json.splits)
    with Some show ?thesis
      by (auto simp: assistant_usage_def dec_token_usage_def bind_eq_Some_conv lenient_int_fields)
  qed
qed

text \<open>What the payloads of a turn add up to.\<close>

definition told_by :: "assistant_message_payload list \<Rightarrow> collected" where
  "told_by ps = \<lparr>cl_text = concat (map (\<lambda>p. extract_text_from_blocks (wm_content (am_message p))) ps),
     cl_usage = fold (\<lambda>p u. merge_usage u (case am_usage p of None \<Rightarrow> zero_usage | Some t \<Rightarrow> t)) ps zero_usage\<rparr>"

lemma turn_report_told:
  assumes "map (unmarshal dec_assistant_message) raws = map Some ps"
  shows "turn_report raws collect_nothing = told_by ps"
proof -
  have "list_all2 (\<lambda>r p. unmarshal dec_assistant_message r = Some p) raws ps"
    using assms by (auto simp: list_all2_conv_all_nth list_eq_iff_nth_eq)
  then have "map assistant_text raws = map (\<lambda>p. extract_text_from_blocks (wm_content (am_message p))) ps"
    and "fold (\<lambda>r u. merge_usage u (assistant_usage r)) raws u =
      fold (\<lambda>p u. merge_usage u (case am_usage p of None \<Rightarrow> zero_usage | Some t \<Rightarrow> t)) ps u" for u
    by (induction arbitrary: u) (simp_all add: assistant_text_of assistant_usage_of)
  then show ?thesis by (simp add: turn_report_def told_by_def collect_nothing_def)
qed

text \<open>
  C23. Report. When a child's turn ends while it is waited for, the tool answers with the concatenated text of its
  assistant messages and their summed usage, and tells the hook the mapped stop reason.
\<close>
theorem child_turn_reported:
  assumes "start_child sid nano now raw m = Inr (a, args, m1)"
    and "\<forall>e \<in> set es. env_type e \<noteq> EventTurnEnd" and "env_type e = EventTurnEnd"
    and "map (unmarshal dec_assistant_message) (messages_of es) = map Some ps"
  shows "\<exists>m2. invoke_subagent sid nano now raw meanwhile (map Delivered es @ Delivered e # later) m =
      Some (Inr (settled_reply (quoted_role (sb_role args) @ '' completed successfully.'') (told_by ps)), m2) \<and>
    sm_notes m2 = sm_notes (meanwhile m1) @ (if sm_finished_hook (meanwhile m1) then [FinishedNote sid (sub_id sid nano)
      (map_turn_kind (turn_end_kind e)) (settled_reply (quoted_role (sb_role args) @ '' completed successfully.'') (told_by ps))] else [])"
proof -
  have quiet: "sm_notes (settle_subagent a m') = sm_notes m' \<and> sm_finished_hook (settle_subagent a m') = sm_finished_hook m'" for m'
    by (auto simp: settle_subagent_def update_info_def Let_def split: option.splits)
  show ?thesis
    using assms(1) quiet [of "meanwhile m1"]
    by (simp add: invoke_subagent_def invoke_collect_turn [OF assms(2,3)] turn_report_told [OF assms(4)] finish_child_def
        notify_finished_def Let_def)
qed

definition failing_turn :: collect_input where
  "failing_turn = Delivered \<lparr>env_seq = 3, env_time = 0, env_type = EventTurnEnd,
     env_data = Some (turn_end_json 0 (JObj [(''kind'', JStr ''error'')])), env_sources = None, env_surface_op = None, env_ignorable = False\<rparr>"

text \<open>A turn that ends with an error and says nothing is answered as completed, though the hook hears \<open>error\<close>.\<close>

theorem child_turn_reported_witness:
  "\<exists>m2. invoke_subagent ''s'' 7 0 example_sub_args id [failing_turn] lone_manager =
      Some (Inr (quoted_role ''r'' @ '' completed successfully.''), m2) \<and>
    sm_notes m2 = [Started ''s'' ''s/sub-7'', FinishedNote ''s'' ''s/sub-7'' ''error'' (quoted_role ''r'' @ '' completed successfully.'')]"
proof -
  obtain m1 where m1: "start_child ''s'' 7 0 example_sub_args lone_manager = Inr (0, \<lparr>sb_role = ''r'', sb_prompt = ''p'', sb_model = []\<rparr>, m1)"
    "sm_notes m1 = [Started ''s'' ''s/sub-7'']" "sm_finished_hook m1" using example_start by blast
  let ?e = "\<lparr>env_seq = 3, env_time = 0, env_type = EventTurnEnd,
     env_data = Some (turn_end_json 0 (JObj [(''kind'', JStr ''error'')])), env_sources = None, env_surface_op = None, env_ignorable = False\<rparr>"
  have k: "map_turn_kind (turn_end_kind ?e) = ''error''" by code_simp
  note i = example_id
  show ?thesis
    using child_turn_reported [OF m1(1), of "[]" ?e "[]" id "[]"] m1(2,3) k i
    by (simp add: messages_of_def failing_turn_def told_by_def settled_reply_def)
qed

section \<open>Waiting ends\<close>

lemma invoke_collect_ends: "TimerFired \<in> set ins \<Longrightarrow> invoke_collect ins cl \<noteq> None"
  by (induction ins cl rule: invoke_collect.induct) (auto simp: Let_def)

lemma continue_collect_ends: "TimerFired \<in> set ins \<Longrightarrow> continue_collect ins cl \<noteq> None"
  by (induction ins cl rule: continue_collect.induct) (auto simp: Let_def)

lemma waits_end:
  assumes "TimerFired \<in> set ins"
  shows "invoke_subagent sid nano now raw meanwhile ins m \<noteq> None \<and> continue_subagent i prompt meanwhile ins m \<noteq> None \<and>
    continue_by_role parent role prompt meanwhile ins m \<noteq> None"
proof -
  obtain out where "continue_collect ins collect_nothing = Some out" using continue_collect_ends [OF assms] by blast
  then have "continue_subagent i prompt meanwhile ins m \<noteq> None" for i
    by (simp add: continue_subagent_def split: option.splits)
  moreover obtain out' where "invoke_collect ins collect_nothing = Some out'" using invoke_collect_ends [OF assms] by blast
  then have "invoke_subagent sid nano now raw meanwhile ins m \<noteq> None"
    by (simp add: invoke_subagent_def split: sum.splits)
  ultimately show ?thesis by (simp add: continue_by_role_def split: option.splits)
qed
section \<open>After a wait\<close>

lemma stop_agent_dead: "sm_infos (stop_agent a m) a = Some i \<Longrightarrow> info_ok i \<Longrightarrow> \<not> alive i"
  by (auto simp: stop_agent_def update_info_def info_ok_def alive_def)

lemma settled_dead:
  assumes "sub_ok m" "sm_infos m a = Some i" "\<not> alive i"
  shows "map_of (sm_registry (settle_subagent a m)) (si_id i) = None"
  using assms by (simp add: settle_subagent_def update_info_def Let_def AList.delete_conv')

lemma sub_steps_keep_id:
  assumes "sub_steps m m'" "sm_infos m a = Some i" "sub_ok m"
  shows "\<exists>j. sm_infos m' a = Some j \<and> si_id j = si_id i"
  using assms
proof (induction rule: rtranclp_induct)
  case (step y z)
  then obtain j where j: "sm_infos y a = Some j" "si_id j = si_id i" by blast
  have ok: "sub_ok y" by (rule sub_steps_ok [OF step.hyps(1) step.prems(2)])
  from step.hyps(2) show ?case
  proof cases
    case (start sid nano now raw b args)
    obtain depth where "sm_infos z = (sm_infos y)(sm_next y \<mapsto> new_child sid nano now args depth y)"
      by (rule start_entry [OF start])
    moreover have "a \<noteq> sm_next y" using j sub_okD(4) [OF ok, of a] by auto
    ultimately show ?thesis using j by simp
  next
    case (settle b)
    with j show ?thesis by (auto simp: settle_subagent_def update_info_def Let_def split: option.splits)
  qed (use j in \<open>auto simp: stop_agent_def post_message_def update_info_def list_subagents_def Let_def\<close>)
qed auto

text \<open>
  An aborted child is forgotten: its answer is no error, it cannot be continued, and no one is told that it finished.
\<close>

text \<open>
  C24. Abort. Whatever else happens meanwhile, a wait that times out or is cancelled answers with a text, not an error,
  leaves the child unregistered, so that it cannot be continued, and tells no one that it finished.
\<close>
theorem aborted_child_forgotten:
  assumes "fresh_manager m0" "sub_steps m0 m" "start_child sid nano now raw m = Inr (a, args, m1)" "sub_steps m1 (meanwhile m1)"
    and "invoke_collect ins collect_nothing = Some (cl, stop, how)" "how = TimedOut \<or> how = Canceled"
  shows "\<exists>m2. invoke_subagent sid nano now raw meanwhile ins m = Some (Inr (aborted_reply (meanwhile m1) (sb_role args) cl how), m2) \<and>
    sm_notes m2 = sm_notes (meanwhile m1) \<and>
    continue_subagent (sub_id sid nano) prompt other ins' m2 = Some (Inl (SubNotFound (sub_id sid nano)), m2)"
proof -
  let ?m = "meanwhile m1" let ?s = "stop_agent a ?m"
  have ok: "sub_ok m" "sub_ok m1" "sub_ok ?m" "sub_ok ?s"
    using sub_steps_ok fresh_ok [OF assms(1)] assms(2,4) start_ok [OF _ assms(3)] stop_ok by metis+
  obtain depth where "a = sm_next m" "sm_infos m1 = (sm_infos m)(sm_next m \<mapsto> new_child sid nano now args depth m)"
    by (rule start_entry [OF assms(3)])
  then have "sm_infos m1 a = Some (new_child sid nano now args depth m)" by simp
  from sub_steps_keep_id [OF assms(4) this ok(2)] obtain j where j: "sm_infos ?m a = Some j" "si_id j = sub_id sid nano"
    by (auto simp: new_child_def)
  then obtain k where k: "sm_infos ?s a = Some k" "si_id k = sub_id sid nano" by (auto simp: stop_agent_def update_info_def)
  then have "\<not> alive k" using stop_agent_dead sub_okD(1) [OF ok(4)] by blast
  from settled_dead [OF ok(4) k(1) this] k(2) have gone: "map_of (sm_registry (settle_subagent a ?s)) (sub_id sid nano) = None" by simp
  have notes_kept: "sm_notes (settle_subagent a ?s) = sm_notes ?m"
    by (auto simp: settle_subagent_def stop_agent_def update_info_def Let_def split: option.splits)
  have "invoke_subagent sid nano now raw meanwhile ins m =
      Some (Inr (aborted_reply ?m (sb_role args) cl how), settle_subagent a ?s)"
    using assms(3,5,6) by (auto simp: invoke_subagent_def finish_child_def Let_def)
  then show ?thesis using gone notes_kept by (simp add: continue_subagent_def)
qed

text \<open>Every registered child can be continued, so the two refusals after the lookup never happen.\<close>

lemma registered_continuable:
  assumes "fresh_manager m0" "sub_steps m0 m"
  shows "continue_subagent i prompt meanwhile ins m \<noteq> Some (Inl (SubNotContinuable i), m) \<and>
    continue_subagent i prompt meanwhile ins m \<noteq> Some (Inl (SubHasNoAgent i), m)"
proof (cases "map_of (sm_registry m) i")
  case (Some a)
  have ok: "sub_ok m" by (rule sub_steps_ok [OF assms(2) fresh_ok [OF assms(1)]])
  from sub_okD(3) [OF ok map_of_SomeD [OF Some]] obtain j where j: "sm_infos m a = Some j" "si_continuable j" by blast
  with sub_okD(1) [OF ok] have "si_agent j \<noteq> None" by (auto simp: info_ok_def)
  with Some j show ?thesis by (auto simp: continue_subagent_def Let_def)
qed (simp add: continue_subagent_def)
section \<open>Instances\<close>

text \<open>A child of a fresh manager delegates in turn: its child is at depth 2.\<close>

theorem delegation_bounded_witness:
  "\<exists>m1 a m2 c. start_child ''s'' 7 0 example_sub_args lone_manager = Inr (0, \<lparr>sb_role = ''r'', sb_prompt = ''p'', sb_model = []\<rparr>, m1) \<and>
    start_child ''s/sub-7'' 7 0 example_sub_args m1 = Inr (a, \<lparr>sb_role = ''r'', sb_prompt = ''p'', sb_model = []\<rparr>, m2) \<and>
    sm_infos m2 a = Some c \<and> si_depth c = 2 \<and> si_parent c = ''s/sub-7''"
proof -
  let ?args = "\<lparr>sb_role = ''r'', sb_prompt = ''p'', sb_model = []\<rparr>"
  obtain m1 where m1: "start_child ''s'' 7 0 example_sub_args lone_manager = Inr (0, ?args, m1)" using example_start by blast
  have v: "sane_view (sm_store lone_manager)" by (simp add: sane_view_def lone_manager_def)
  have k0: "known_depth lone_manager ''s'' = 0" by (simp add: known_depth_def sub_entry_def lone_manager_def)
  obtain c1 where c1: "sub_entry m1 (si_id c1) = Some c1" "si_depth c1 = 1" "sm_infos m1 0 = Some c1"
    using delegation_bounded [OF fresh_lone v rtranclp.rtrancl_refl, where sid = "''s''" and nano = 7 and now = 0 and raw = example_sub_args] m1 k0 by auto
  note ok = reached_ok [OF fresh_lone v rtranclp.rtrancl_refl]
  have "si_id c1 = ''s/sub-7''" using start_depth(3) [OF ok m1] c1(3) example_id by (auto simp: new_child_def)
  with c1 have k1: "known_depth m1 ''s/sub-7'' = 1" by (simp add: known_depth_def)
  have r: "sub_steps lone_manager m1" using sub_step.start [OF m1] by blast
  have d: "unmarshal dec_sub_args example_sub_args = Some ?args" by code_simp
  note t = delegation_bounded [OF fresh_lone v r, where sid = "''s/sub-7''" and nano = 7 and now = 0 and raw = example_sub_args]
  from t d k1 obtain a m2 where m2: "start_child ''s/sub-7'' 7 0 example_sub_args m1 = Inr (a, ?args, m2)"
    by (cases "start_child ''s/sub-7'' 7 0 example_sub_args m1") auto
  with t k1 m1 show ?thesis by auto
qed

lemma waits_end_witness: "invoke_subagent ''s'' 7 0 example_sub_args id [AgentDone, TimerFired] lone_manager \<noteq> None"
  using waits_end [of "[AgentDone, TimerFired]"] by simp

theorem aborted_child_forgotten_witness:
  "\<exists>t m. invoke_subagent ''s'' 7 0 example_sub_args id [TimerFired] lone_manager = Some (Inr t, m) \<and>
    sm_notes m = [Started ''s'' ''s/sub-7''] \<and> continue_subagent ''s/sub-7'' ''p'' id [] m = Some (Inl (SubNotFound ''s/sub-7''), m)"
proof -
  obtain m1 where m1: "start_child ''s'' 7 0 example_sub_args lone_manager = Inr (0, \<lparr>sb_role = ''r'', sb_prompt = ''p'', sb_model = []\<rparr>, m1)"
    "sm_notes m1 = [Started ''s'' ''s/sub-7'']" "sm_finished_hook m1" using example_start by blast
  show ?thesis
    using aborted_child_forgotten [OF fresh_lone rtranclp.rtrancl_refl m1(1), where meanwhile = id and ins = "[TimerFired]"
        and cl = collect_nothing and stop = "''aborted''" and how = TimedOut and prompt = "''p''" and other = id and ins' = "[]"]
      m1(2) unfolding example_id by simp blast
qed

end
