(* ===== verification/Workflow_Tool.thy ===== *)
theory Workflow_Tool imports Workflow Subagents begin

text \<open>
  The tool \<open>workflow_run\<close> (\<open>pkg/tools/workflow_tool.go\<close>): its arguments, and the spawner that runs each
  member through the tool \<open>invoke_subagent\<close>.
\<close>

datatype workflow_tool_error =
    WorkflowArguments
  | WorkflowNameEmpty
  | WorkflowDescriptionEmpty
  | WorkflowNoAgents
  | ProviderUnsupported "string list"

definition dec_wf_phase :: "(string \<times> json) list \<Rightarrow> wf_phase option" where
  "dec_wf_phase kvs =
     Option.bind (dec_string ''title'' kvs) (\<lambda>t. Option.bind (dec_string ''detail'' kvs) (\<lambda>d.
     Option.bind (dec_string ''provider'' kvs) (\<lambda>p.
     map_option (\<lambda>m. \<lparr>wp_title = t, wp_detail = d, wp_provider = p, wp_model = m\<rparr>) (dec_string ''model'' kvs))))"

definition dec_wf_agent :: "(string \<times> json) list \<Rightarrow> wf_agent option" where
  "dec_wf_agent kvs =
     Option.bind (dec_string ''label'' kvs) (\<lambda>l. Option.bind (dec_string ''role'' kvs) (\<lambda>r.
     Option.bind (dec_string ''prompt'' kvs) (\<lambda>pr. Option.bind (dec_string ''phase'' kvs) (\<lambda>ph.
     Option.bind (dec_string ''provider'' kvs) (\<lambda>p.
     map_option (\<lambda>m. \<lparr>wa_label = l, wa_role = r, wa_prompt = pr, wa_phase = ph, wa_provider = p, wa_model = m\<rparr>)
       (dec_string ''model'' kvs))))))"

definition dec_workflow :: "(string \<times> json) list \<Rightarrow> workflow option" where
  "dec_workflow kvs =
     Option.bind (dec_string ''name'' kvs) (\<lambda>n. Option.bind (dec_string ''description'' kvs) (\<lambda>d.
     Option.bind (dec_string ''whenToUse'' kvs) (\<lambda>u. Option.bind (dec_list (dec_object dec_wf_phase) ''phases'' kvs) (\<lambda>ps.
     Option.bind (dec_bool ''parallel'' kvs) (\<lambda>b.
     map_option (\<lambda>ags. \<lparr>wf_id = [], wf_meta = \<lparr>wm_name = n, wm_description = d, wm_when = u, wm_phases = ps\<rparr>,
         wf_agents = ags, wf_parallel = b, wf_max_parallel = 0\<rparr>)
       (dec_list (dec_object dec_wf_agent) ''agents'' kvs))))))"

definition provider_offenders :: "wf_agent list \<Rightarrow> string list" where
  "provider_offenders ags = map (\<lambda>a. if wa_label a = [] then wa_role a else wa_label a) (filter (\<lambda>a. wa_provider a \<noteq> []) ags)"

definition workflow_run_args :: "raw_message \<Rightarrow> workflow_tool_error + workflow" where
  "workflow_run_args raw = (case unmarshal dec_workflow raw of
       None \<Rightarrow> Inl WorkflowArguments
     | Some w \<Rightarrow>
         if wm_name (wf_meta w) = [] then Inl WorkflowNameEmpty
         else if wm_description (wf_meta w) = [] then Inl WorkflowDescriptionEmpty
         else if wf_agents w = [] then Inl WorkflowNoAgents
         else if provider_offenders (wf_agents w) \<noteq> [] then Inl (ProviderUnsupported (provider_offenders (wf_agents w)))
         else Inr w)"

text \<open>A map is marshalled with its keys in order.\<close>

definition spawn_payload :: "spawn_request \<Rightarrow> json" where
  "spawn_payload req = JObj [(''model'', JStr (sq_model req)), (''prompt'', JStr (sq_prompt req)), (''role'', JStr (sq_role req))]"

text \<open>The answer of the pipeline: text, whether it is a tool error, and an error of the pipeline itself.\<close>

type_synonym pipeline_answer = "string \<times> bool \<times> string option"

definition spawn_answer :: "pipeline_answer \<Rightarrow> agent_run \<times> string option" where
  "spawn_answer r = (case r of
       (_, _, Some e) \<Rightarrow> (\<lparr>gr_output = [], gr_child = []\<rparr>, Some e)
     | (res, True, None) \<Rightarrow> (\<lparr>gr_output = res, gr_child = []\<rparr>, Some res)
     | (res, False, None) \<Rightarrow> (\<lparr>gr_output = res, gr_child = []\<rparr>, None))"

definition tool_spawner :: "(string \<Rightarrow> json \<Rightarrow> pipeline_answer) \<Rightarrow> spawner" where
  "tool_spawner pipe req = spawn_answer (pipe ''invoke_subagent'' (spawn_payload req))"

section \<open>Lemmas\<close>

lemma spawn_names: "lower_name ''prompt'' = ''prompt''"
  by code_simp

lemma spawn_payload_args:
  "unmarshal dec_sub_args (Some (spawn_payload req)) =
     Some \<lparr>sb_role = sq_role req, sb_prompt = sq_prompt req, sb_model = sq_model req\<rparr>"
  by (simp add: unmarshal_def dec_object_def spawn_payload_def dec_sub_args_def dec_string_def key_matches_def lower_names spawn_names)

end
