(* ===== verification/Delegation_Properties.thy ===== *)
theory Delegation_Properties imports Subagent_Properties Workflow_Tool begin

text \<open>Members of a workflow as child agents, and children that share an id.\<close>

section \<open>A member that failed to answer\<close>

text \<open>
  Whatever a wait ends with is a text without an error, so the workflow takes a child that ran into its
  timeout, was stopped or ended its turn with an error for a completed member.
\<close>

definition tool_answer :: "(sub_error \<Rightarrow> string) \<Rightarrow> sub_error + string \<Rightarrow> pipeline_answer" where
  "tool_answer render r = (case r of Inl e \<Rightarrow> (render e, True, None) | Inr t \<Rightarrow> (t, False, None))"

lemma any_end_completes:
  assumes "start_child sid nano now (Some (spawn_payload (spawn_request_of (wf_agents w ! i)))) m = Inr (a, args, m1)"
    and "invoke_collect ins collect_nothing = Some out"
    and "\<And>r m'. invoke_subagent sid nano now (Some (spawn_payload (spawn_request_of (wf_agents w ! i)))) meanwhile ins m = Some (r, m') \<Longrightarrow>
      pipe ''invoke_subagent'' (spawn_payload (spawn_request_of (wf_agents w ! i))) = tool_answer render r"
  shows "\<exists>t m'. invoke_subagent sid nano now (Some (spawn_payload (spawn_request_of (wf_agents w ! i)))) meanwhile ins m = Some (Inr t, m') \<and>
    run_one w (Some (tool_spawner pipe)) i False False = output_of w i OutcomeCompleted t"
proof -
  obtain t m' where f: "finish_child sid (sub_id sid nano) a args out (meanwhile m1) = (t, m')" by fastforce
  then have inv: "invoke_subagent sid nano now (Some (spawn_payload (spawn_request_of (wf_agents w ! i)))) meanwhile ins m = Some (Inr t, m')"
    using assms(1,2) by (simp add: invoke_subagent_def)
  with assms(3) show ?thesis
    by (simp add: run_one_def spawned_output_def tool_spawner_def spawn_answer_def tool_answer_def)
qed

section \<open>Children that share an id\<close>

lemma colliding_children:
  assumes ok: "sub_ok m" and "start_child sid n1 t1 r1 m = Inr (a, x, m1)" "start_child sid n2 t2 r2 m1 = Inr (b, y, m2)"
    and "n1 mod 100000 = n2 mod 100000"
  shows "sub_entry m2 (sub_id sid n1) = sm_infos m2 b \<and> (\<forall>i. sm_infos m2 b = Some i \<longrightarrow> alive i) \<and>
    a \<notin> snd ` set (sm_registry m2) \<and> sub_entry (settle_subagent a (stop_agent a m2)) (sub_id sid n1) = None"
proof -
  have same: "sub_id sid n2 = sub_id sid n1" using assms(4) by (simp add: sub_id_def)
  obtain d1 where s1: "a = sm_next m" "sm_infos m1 = (sm_infos m)(sm_next m \<mapsto> new_child sid n1 t1 x d1 m)"
    "sm_registry m1 = AList.update (sub_id sid n1) (sm_next m) (sm_registry m)" "sm_next m1 = Suc (sm_next m)"
    by (rule start_entry [OF assms(2)])
  obtain d2 where s2: "b = sm_next m1" "sm_infos m2 = (sm_infos m1)(sm_next m1 \<mapsto> new_child sid n2 t2 y d2 m1)"
    "sm_registry m2 = AList.update (sub_id sid n2) (sm_next m1) (sm_registry m1)"
    by (rule start_entry [OF assms(3)])
  have ok1: "sub_ok m1" and ok2: "sub_ok m2" using start_ok ok assms(2,3) by blast+
  have entry: "map_of (sm_registry m2) (sub_id sid n1) = Some b" using s2 same by (simp add: update_conv')
  have "b \<noteq> a" using s1 s2 by simp
  have infos: "sm_infos m2 a = Some (new_child sid n1 t1 x d1 m)" using s1 s2 by simp
  have "a \<notin> snd ` set (sm_registry m2)"
  proof
    assume "a \<in> snd ` set (sm_registry m2)"
    then obtain k where k: "(k, a) \<in> set (sm_registry m2)" by force
    from sub_okD(3) [OF ok2 k] infos have "k = sub_id sid n1" by (auto simp: new_child_def)
    with k sub_okD(2) [OF ok2] entry \<open>b \<noteq> a\<close> show False by (simp add: map_of_eq_Some_iff)
  qed
  moreover have "sub_entry (settle_subagent a (stop_agent a m2)) (sub_id sid n1) = None"
    using infos by (simp add: sub_entry_def settle_subagent_def stop_agent_def update_info_def Let_def new_child_def alive_def
        AList.delete_conv')
  ultimately show ?thesis using entry s2 by (simp add: sub_entry_def new_child_def alive_def)
qed

end
