(* ===== verification/Spec2Isabelle.thy ===== *)
theory Spec2Isabelle imports Session_Properties Packing_Roundtrip Ring_Buffer Source_Codec Agent_Lifecycle
  Compaction_Properties Tool_Properties
  Stream_Properties Turn_Properties Schedule_Properties Row_Store_Properties Jsonl_Properties Wire_Item_Properties Wire_Request_Properties Workflow_Properties Team_Properties
  Task_Properties Delegation_Properties begin

text \<open>
  A verification library for the backend of DeepSeekHarnessX, a Go service that runs coding agents.
  All paths below are relative to \<open>src/backend/pkg\<close>.

  \<^bold>\<open>The program.\<close>  A session is a durable log of numbered envelopes.  An agent (\<open>agent/loop.go\<close>)
  owns one session: it takes user messages, asks a language model, runs the tools the model calls
  and appends everything that happens to the log.  The conversation sent to the model is not kept;
  it is derived from the log by a fold (\<open>session\<close>) that places messages on a surface and lets a
  compaction (\<open>compaction\<close>) replace a head of the surface by a summary.  The log lives in a
  SQLite store (\<open>storage/store_sqlite.go\<close>) that packs runs of streamed deltas, or in compressed JSON
  lines (\<open>storage/store_jsonl.go\<close>), and is mirrored in a ring buffer for subscribers.  Tools run
  behind a registry, a permission stage and a sandbox check (\<open>tools/pipeline.go\<close>,
  \<open>policy.go\<close>).  An adapter posts the conversation to a provider and translates the server-sent
  events of the answer to chunks, which \<open>llm/stream.go\<close> folds into content blocks, after the retries
  of \<open>llmRetry\<close>.  Reminders and agent teams are tools that keep their own events in the same log
  and fold it again for every operation; workflows run several subagents.

  \<^bold>\<open>Theories and the code they model: the log.\<close>

  \<^item> \<open>Prelude\<close>: results with an error value, Go's splice and search loops, 64-bit wrap-around.
    \<open>Go_Strings\<close>, \<open>Go_Runes\<close>: the functions of \<open>strings\<close>, \<open>strconv\<close> and \<open>utf8\<close> the program uses.
    \<open>Json\<close>: JSON values and decoding into Go types as \<open>encoding/json\<close> does it; \<open>Json_Text\<close>: printing and
    parsing of JSON texts.
  \<^item> \<open>Session_Events\<close>, \<open>Message_Codec\<close> (\<open>session/events.go\<close>): event types, surface operations,
    envelopes, messages and their JSON.  \<open>Session_Surface\<close>, \<open>Session_Messages\<close>, \<open>Session_Manager\<close>,
    \<open>Session_Properties\<close> (\<open>session/surface.go\<close>): \<open>planSurfaceEvent\<close>, \<open>applySurfacePlan\<close>,
    \<open>FoldSurface\<close>, \<open>DeriveMessages\<close> and the incremental \<open>SurfaceManager\<close>, against the declarative
    step relation \<open>surface_step\<close>.
  \<^item> \<open>Ring_Buffer\<close> (\<open>storage/ringbuffer.go\<close>); \<open>Source_Codec\<close>, \<open>Chunk_Packing\<close>, \<open>Packing_Roundtrip\<close>
    (\<open>storage/store_sqlite.go\<close>): the varint codec, packed rows, row binding and the torn-tail scan.
    \<open>Row_Store\<close>, \<open>Row_Store_Laws\<close>, \<open>Row_Store_Properties\<close>: the tables, statements and transactions of the
    same file; \<open>Event_Store\<close>: what an event log promises its writer.
  \<^item> \<open>Jsonl_Log\<close>, \<open>Jsonl_Laws\<close>, \<open>Jsonl_Store\<close>, \<open>Jsonl_Properties\<close> (\<open>storage/store_jsonl.go\<close> and the reader
    in \<open>store_sqlite.go\<close>): frames, header and record lines, artifacts, appending with rollback, repair.
  \<^item> \<open>Agent_Log\<close>, \<open>Agent_Lifecycle\<close> (\<open>agent/loop.go\<close>): \<open>EmitEvent\<close>, \<open>emitRaw\<close>, the turn machine,
    numbering, the log cache, subscribers; \<open>appendBatch\<close> of the store as their provider, and an opening
    read of the log that may fail.  \<open>Log_Appender\<close>: what appending promises.
\<close>

text \<open>
  \<^bold>\<open>Theories: what works on the log.\<close>

  \<^item> \<open>Token_Meter\<close> (\<open>llm/tokenmeter.go\<close>); \<open>Tool_Pairing\<close>, \<open>Compaction\<close>, \<open>Compaction_Laws\<close>,
    \<open>Compaction_Effects\<close>, \<open>Compaction_Properties\<close> (\<open>compaction/toolpairing.go\<close>, \<open>compactor.go\<close>,
    \<open>meter.go\<close>): prices, the balance of cuts, range selection, the durable lock, the transaction with its
    failure paths, and \<open>maybeCompact\<close>.
  \<^item> \<open>Policy\<close>, \<open>Approval_Pipeline\<close>, \<open>Tool_Views\<close>, \<open>Tool_Properties\<close> (\<open>tools/policy.go\<close>, \<open>pipeline.go\<close>): the
    knobs of a session, the write check, the registry with ownership, the permission stage with its audit
    events, \<open>Call\<close>, and the views of calls and results.
  \<^item> \<open>Turn_Loop\<close>, \<open>Turn_Laws\<close>, \<open>Turn_Phases\<close>, \<open>Turn_Effects\<close>, \<open>Turn_Properties\<close> (\<open>actorLoop\<close>): the loop over messages and steps, streaming, tool
    calls, interruption, cancellation, failure and the end of a turn; it calls all of the above.
  \<^item> \<open>Civil_Time\<close>, \<open>Civil_Text\<close>: instants and their RFC 3339 text.  \<open>Schedule\<close>, \<open>Schedule_Tools\<close>,
    \<open>Schedule_Laws\<close>, \<open>Schedule_Runtime\<close>, \<open>Schedule_Properties\<close> (\<open>tools/schedule.go\<close>,
    \<open>schedule_tools.go\<close>, \<open>schedule_runtime.go\<close>): the durable reminders, their fold, their next
    occurrence, the tools and the dispatcher.
  \<^item> \<open>Task_Graph\<close>, \<open>Team_Board\<close>, \<open>Team_Service\<close>, \<open>Team_Laws\<close>, \<open>Team_Properties\<close> (\<open>tools/team.go\<close>,
    \<open>team_service.go\<close>): the cycle check, the fold of the team events, the operations.
  \<^item> \<open>Task_Tools\<close>, \<open>Task_Properties\<close> (\<open>tools/tasks.go\<close>, \<open>plan_exit.go\<close>, \<open>goal_tools.go\<close>): todo lists, the plan mode
    and goals, whose in-memory mirrors follow the events the tools append.
  \<^item> \<open>Workflow\<close>, \<open>Workflow_Properties\<close> (\<open>workflow/workflow.go\<close>): runs of subagents one after the other
    and in parallel, the latter as a step relation.
  \<^item> \<open>Subagents\<close> (\<open>subagent/manager.go\<close>): the registry of child agents, delegation depth, the waits for a
    child and the lineage tree.  \<open>Subagent_Laws\<close>: the step relation of a manager with a changing store, and
    what every step keeps; \<open>Subagent_Tree\<close>, \<open>Subagent_Properties\<close>: the tree and the reports.
    \<open>Workflow_Tool\<close>, \<open>Delegation_Properties\<close> (\<open>tools/workflow_tool.go\<close>): members of a workflow as children.

  \<^bold>\<open>Theories: the language model.\<close>

  \<^item> \<open>Block_Assembler\<close>, \<open>Stream_Properties\<close> (\<open>llm/stream.go\<close>, the summarizer of \<open>compaction/meter.go\<close>);
    \<open>Llm_Retry\<close> (\<open>llmRetry\<close> and the classification of \<open>llm/deepseek.go\<close>).
  \<^item> \<open>Wire_Sse\<close> (\<open>llm/sse.go\<close>): lines, the event buffer, the consume loop.  \<open>Wire_Completions\<close>,
    \<open>Wire_Completions_Laws\<close>, \<open>Wire_Properties\<close> (\<open>llm/openai_completions.go\<close>), \<open>Wire_Items\<close>,
    \<open>Wire_Item_Properties\<close> (\<open>llm/anthropic.go\<close>, \<open>openai_responses.go\<close>): decoding of the wire events and
    the three translators.  \<open>Wire_Requests\<close>, \<open>Wire_Request_Properties\<close>: the bodies the adapters post.

  \<^bold>\<open>State and operations.\<close>  Each Go struct is a record with its fields in the source's order
  (\<open>Agent\<close> is \<open>agent\<close>, \<open>RingBuffer\<close> is \<open>ring_buffer\<close>, \<open>BlockAssembler\<close> is \<open>assembler\<close>, \<open>surfaceState\<close>
  is \<open>surface_fold_state\<close>, \<open>teamFoldState\<close> is \<open>team_state\<close>); the local variables a closure of the source
  captures are a record too (\<open>completions_state\<close>, \<open>items_state\<close>).  Each operation is one
  executable function from a state to a result and a new state.  Every error return of the source is a
  constructor of an error type; an index out of range or a nil dereference is an error value, so
  the absence of panics is a theorem and not an assumption.  Machine integers are words or wrapped
  at 64 bits where they can wrap, and JSON integers are decoded with their range check.
\<close>

text \<open>
  \<^bold>\<open>Interfaces.\<close>  \<open>log_appender\<close> states what appending an envelope promises; \<open>compaction_log\<close> extends
  it with what the engine needs, and the engine's lemmas about locks, refusals and commits are
  proved in it once and interpreted on the agent's \<open>emitRaw\<close> (\<open>agent_raw\<close>).  \<open>token_meter\<close> is the
  meter contract, interpreted on the heuristic and the unit meter.  \<open>emission_invariant\<close>,
  \<open>quiet_invariant\<close> and \<open>agent_invariant\<close> are the contracts between an invariant of the agent and the
  actor loop: if emitting the listed event types keeps a predicate, every phase of the loop
  keeps it.  They are interpreted on the log invariant, the turn grammar, the phases of the turn
  machine, the count of unanswered tool calls and the set of active reminders (\<open>same_schedules\<close>).
  \<open>event_log\<close> and \<open>checked_event_log\<close> say what a store promises the writer of a log; they are
  interpreted on the SQLite rows (\<open>sqlite_log\<close>) and the JSONL artifact (\<open>jsonl_log\<close>).
  \<open>payload_handler\<close> is the contract between the consume loop and a translator, interpreted on the
  three of them.

  \<^bold>\<open>What the lemmas show.\<close>  Surface: the fold never panics, conserves surface events, refines its
  step relation and agrees with the incremental manager.  Storage: packing and scanning give the
  log back, the scan keeps every committed turn, a failing transaction changes nothing, an
  artifact cut anywhere reads as a prefix of its log.  Agent: the log stays contiguous and
  grammatical; the cache equals the log; a lost number stops the log of an agent that could read it
  when it was opened.  Compaction: cuts are
  balanced; the selected range is optimal; the lock is exclusive; a transaction either leaves the
  surface or replaces exactly the selected span.  Tools: exactly the authorised calls run, audit
  events pair up, writes stay in the workspace.  Language model: the assembler keeps its open order;
  a stream counts as complete exactly when its lines complete the terminator after payloads that
  decode, and then assembles to what they say; all bodies carry the same tool history.  Turns: every turn closes, the log
  of an actor is a sequence of whole turns, a step after which the turn goes on has answered its tool
  calls.  Reminders: with intervals that fit a duration, what the tools append folds again and a due
  reminder is delivered once.  Teams: the log always folds and the board stays acyclic.  Child agents:
  a child is one deeper than its parent and at most at depth 3, the lineage tree shows exactly the live
  descendants, an aborted child is forgotten.  Workflows: a run settles and leaves a complete record under
  every schedule.

  \<^bold>\<open>Bounds.\<close>  Loops over lists are structural; the doubling loop of the ring constructor and the varint
  loops have termination proofs or bounds on \<open>64 word\<close>.  Fuel occurs in four places: the parser of
  JSON texts (twice the length of the text and two, enough by \<open>parse_enough\<close>), the decimal printer (the
  number itself and one), the lineage tree of child agents (more than the length of any id), and the depth of the cycle check (the number of tasks and blockers and one, enough by
  \<open>search_deep_enough\<close>).  What a goroutine receives from its channels is an input list; where the list
  ends before the code returns the result says so, and that enough input gives a result is
  proved as such.
\<close>

text \<open>
  \<^bold>\<open>Abstractions.\<close>  JSON texts and strings are taken to be valid UTF-8.  \<open>deep_equal\<close> compares JSON
  numbers exactly where Go compares \<open>float64\<close>.  Turn numbers are unbounded where Go has an atomic
  \<open>int32\<close>.  The clock is a function of the sequence counter.  The lexical path functions are those of
  Unix, and \<open>path_rel\<close> fails whenever a parent component of the base is left over.  The scaling
  of the retry jitter is exact.  Emissions run one at a time; the two ways two goroutines can
  interleave inside one emission are separate lemmas of \<open>Agent_Lifecycle\<close>.  A Go map that is iterated is an
  association list or comes with an argument for the order.  A nil content slice of
  a message encodes as an empty array.  A COMMIT that fails is taken to leave the tables as they were.
  Hooks, the spill store, title generation, the answerer, the review model, the tool bodies, the
  compressor, the spawners and the transport below the lines of an event stream are arguments of the
  definitions that use them.

  \<^bold>\<open>Not modelled.\<close>  The alternative stores; network and process I/O of the gateway, the ACP server, MCP
  clients, the plugin host and the adapters; the bodies of the built-in tools; the terminal interface;
  settings, credentials and importers.  The code there is mostly calls of the operating system and of
  \<open>net/http\<close>.  \<open>float64\<close> ratios that are only displayed, and \<open>PressureQualified\<close>, which nothing calls,
  are left out.  The drop of chunks after a cancellation, inside the adapters, is left out too: what is
  shown of their chunks holds of a stream that is read to its end.  The worker pool and the plugin
  registry under \<open>src/backend/core\<close> have logic of their own that is not modelled.
\<close>

end
